(* ===== verification/Prelude.thy ===== *)
theory Prelude
  imports Main "HOL-Library.AList" "HOL-Library.Sublist" "HOL-Library.Multiset"
begin

text \<open>
  Shared vocabulary of the development.

  A JavaScript string is a \<open>string\<close> (a list of characters); one element stands for one UTF-16
  code unit, so \<open>.length\<close> is \<open>length\<close> and \<open>s.slice(0, n)\<close> with \<open>n \<ge> 0\<close> is \<open>take n s\<close>.  The
  characters that the sources write outside ASCII are single code units, by their codes in the code
  page Windows-1251: the ellipsis \<open>0x85\<close>, the dash \<open>0x97\<close>, the Cyrillic letters \<open>0xC0\<close> to \<open>0xFF\<close>; the arrow, which
  is not in it, is the control code \<open>0x1A\<close>.  A JavaScript \<open>Map\<close> keeps insertion order and updates in place, which
  is exactly \<open>AList.update\<close> on an association list.  \<open>undefined\<close> is \<open>None\<close>.
\<close>

named_theorems frame_simps \<open>an operation leaves a field it does not write unchanged\<close>
named_theorems store_simps \<open>reading the durable store after a write\<close>

subsection \<open>Optional values\<close>

text \<open>The operator \<open>x ?? d\<close>.\<close>

definition nullish :: "'a option \<Rightarrow> 'a \<Rightarrow> 'a" where
  "nullish x d = (case x of None \<Rightarrow> d | Some v \<Rightarrow> v)"

lemma nullish_simps [simp]: "nullish None d = d" "nullish (Some v) d = v"
  by (simp_all add: nullish_def)

text \<open>The test \<open>if (s)\<close> on an optional string: \<open>undefined\<close> and the empty string are falsy.\<close>

definition truthy :: "string option \<Rightarrow> bool" where
  "truthy s = (case s of None \<Rightarrow> False | Some t \<Rightarrow> t \<noteq> [])"

lemma truthy_simps [simp]: "\<not> truthy None" "truthy (Some t) \<longleftrightarrow> t \<noteq> []"
  by (simp_all add: truthy_def)

subsection \<open>Strings\<close>

abbreviation ellipsis :: char where
  "ellipsis \<equiv> CHR 0x85"

abbreviation em_dash :: char where
  "em_dash \<equiv> CHR 0x97"

abbreviation right_arrow :: char where
  "right_arrow \<equiv> CHR 0x1A"

abbreviation newline :: string where
  "newline \<equiv> [CHR 10]"

text \<open>\<open>xs.join(sep)\<close>\<close>

fun join :: "string \<Rightarrow> string list \<Rightarrow> string" where
  "join sep [] = []"
| "join sep [x] = x"
| "join sep (x # y # ys) = x @ sep @ join sep (y # ys)"

lemma join_Cons: "join sep (x # xs) = (if xs = [] then x else x @ sep @ join sep xs)"
  by (cases xs) auto

lemma length_join:
  "length (join sep xs) = sum_list (map length xs) + length sep * (length xs - 1)"
  by (induction sep xs rule: join.induct) (auto simp: algebra_simps)

lemma length_join_le:
  "length (join sep xs) \<le> (\<Sum>x\<leftarrow>xs. length x + length sep)"
  by (induction sep xs rule: join.induct) auto

text \<open>\<open>s.trim()\<close> on the white space the sources meet (space, tab, line feed, vertical tab, form
  feed, carriage return, no-break space).\<close>

definition is_space :: "char \<Rightarrow> bool" where
  "is_space c \<longleftrightarrow> c \<in> {CHR 32, CHR 9, CHR 10, CHR 11, CHR 12, CHR 13, CHR 0xA0}"

definition trim :: "string \<Rightarrow> string" where
  "trim s = rev (dropWhile is_space (rev (dropWhile is_space s)))"

lemma length_trim_le: "length (trim s) \<le> length s"
proof -
  have "length (trim s) \<le> length (dropWhile is_space s)"
    unfolding trim_def using length_dropWhile_le [of is_space "rev (dropWhile is_space s)"] by simp
  also have "\<dots> \<le> length s"
    by (rule length_dropWhile_le)
  finally show ?thesis .
qed

lemma trim_eq_Nil_iff: "trim s = [] \<longleftrightarrow> (\<forall>c \<in> set s. is_space c)"
proof
  assume "trim s = []"
  then have *: "\<forall>c \<in> set (dropWhile is_space s). is_space c"
    by (simp add: trim_def dropWhile_eq_Nil_conv)
  have "dropWhile is_space s = []"
  proof (rule ccontr)
    assume "dropWhile is_space s \<noteq> []"
    with * hd_dropWhile [of is_space s] show False
      by (metis list.set_sel(1))
  qed
  then show "\<forall>c \<in> set s. is_space c"
    by (simp add: dropWhile_eq_Nil_conv)
next
  assume "\<forall>c \<in> set s. is_space c"
  then show "trim s = []"
    by (auto simp: trim_def dest: set_dropWhileD)
qed

text \<open>\<open>String(n)\<close> for integers.\<close>

fun digits :: "nat \<Rightarrow> string" where
  "digits n = (if n < 10 then [char_of (48 + n)] else digits (n div 10) @ [char_of (48 + n mod 10)])"

declare digits.simps [simp del]

definition int_str :: "int \<Rightarrow> string" where
  "int_str i = (if i < 0 then CHR ''-'' # digits (nat (- i)) else digits (nat i))"

abbreviation nat_str :: "nat \<Rightarrow> string" where
  "nat_str n \<equiv> digits n"

lemma digits_ne [simp]: "digits n \<noteq> []"
  by (subst digits.simps) simp

lemma length_digits_pos [simp]: "0 < length (digits n)"
  by simp

definition undigits :: "string \<Rightarrow> nat" where
  "undigits s = foldl (\<lambda>a c. a * 10 + (of_char c - 48)) 0 s"

lemma undigits_digits: "undigits (digits n) = n"
proof (induction n rule: digits.induct)
  case (1 n)
  show ?case
  proof (cases "n < 10")
    case True
    then show ?thesis
      by (subst digits.simps) (simp add: undigits_def)
  next
    case False
    then have "undigits (digits n) = undigits (digits (n div 10)) * 10 + n mod 10"
      by (subst digits.simps) (simp add: undigits_def)
    then show ?thesis
      using 1 False by simp
  qed
qed

lemma digits_inj: "digits m = digits n \<longleftrightarrow> m = n"
  by (metis undigits_digits)

lemma digits_are_digits: "c \<in> set (digits n) \<Longrightarrow> of_char c \<in> {48..<(58::nat)}"
proof (induction n rule: digits.induct)
  case (1 n)
  show ?case
  proof (cases "n < 10")
    case True
    with 1(2) show ?thesis
      by (subst (asm) digits.simps) auto
  next
    case False
    from 1(2) False consider "c \<in> set (digits (n div 10))" | "c = char_of (48 + n mod 10)"
      by (subst (asm) digits.simps) auto
    then show ?thesis
    proof cases
      case a: 1
      show ?thesis by (rule 1(1) [OF False a])
    next
      case 2
      have "n mod 10 < 10" by simp
      then have "48 + n mod 10 < 256" by linarith
      with 2 have "of_char c = 48 + n mod 10"
        by (simp add: of_char_of)
      then show ?thesis by simp
    qed
  qed
qed

lemma digits_mono_length: "m \<le> n \<Longrightarrow> length (digits m) \<le> length (digits n)"
proof (induction n arbitrary: m rule: digits.induct)
  case (1 n)
  show ?case
  proof (cases "n < 10")
    case True
    then show ?thesis
      using 1(2) by (subst digits.simps, subst (2) digits.simps) simp
  next
    case False
    have "m div 10 \<le> n div 10"
      using 1(2) by (rule div_le_mono)
    with 1(1) False have "length (digits (m div 10)) \<le> length (digits (n div 10))"
      by blast
    then show ?thesis
      using False by (subst digits.simps, subst (2) digits.simps) auto
  qed
qed

subsection \<open>Stable sorting\<close>

text \<open>
  \<open>[...xs].sort((a, b) => f(a) - f(b))\<close> is stable, hence \<open>sort_key f xs\<close>.  On distinct keys the
  result does not depend on the input order.
\<close>

lemma sort_key_unique:
  assumes "mset xs = mset ys" "distinct (map f xs)"
  shows "sort_key f xs = sort_key f ys"
proof (rule map_sorted_distinct_set_unique [of f])
  have "set xs = set ys"
    using assms(1) by (rule mset_eq_setD)
  then show "inj_on f (set (sort_key f xs) \<union> set (sort_key f ys))"
    using assms(2) by (simp add: distinct_map)
  have d: "distinct (map f zs)" if "mset zs = mset xs" for zs
  proof -
    from that have "mset (map f zs) = mset (map f xs)" by simp
    with assms(2) show ?thesis
      using mset_eq_imp_distinct_iff by blast
  qed
  show "distinct (map f (sort_key f xs))" "distinct (map f (sort_key f ys))"
    using assms(1) by (simp_all add: d)
  show "set (sort_key f xs) = set (sort_key f ys)"
    using \<open>set xs = set ys\<close> by simp
qed simp_all

lemma insort_key_snoc: "f a \<le> f x \<Longrightarrow> insort_key f a (ys @ [x]) = insort_key f a ys @ [x]"
  by (induction ys) auto

lemma sort_key_snoc_max:
  "\<forall>y \<in> set xs. f y \<le> f x \<Longrightarrow> sort_key f (xs @ [x]) = sort_key f xs @ [x]"
  by (induction xs) (auto simp: insort_key_snoc)

lemma sort_key_Nil_iff [simp]: "sort_key f xs = [] \<longleftrightarrow> xs = []"
  by (metis length_0_conv length_sort)

lemma sorted_key_sort_key [simp]: "sorted (map f (sort_key f xs))"
  by simp

subsection \<open>Ordered maps\<close>

lemma set_update_subset: "set (AList.update k v m) \<subseteq> insert (k, v) (set m)"
  by (induction m) auto

lemma keys_update: "fst ` set (AList.update k v m) = insert k (fst ` set m)"
  using dom_update [of k v m] by (simp add: dom_map_of_conv_image_fst)

lemma map_of_update [simp]: "map_of (AList.update k v m) k' = (if k' = k then Some v else map_of m k')"
  by (simp add: update_conv')

subsection \<open>Slices, searches and comparator sorts\<close>

text \<open>\<open>xs.slice(0, n)\<close>, where a negative \<open>n\<close> counts from the end.\<close>

definition slice0 :: "int \<Rightarrow> 'a list \<Rightarrow> 'a list" where
  "slice0 n xs = (if 0 \<le> n then take (nat n) xs else take (length xs - nat (- n)) xs)"

lemma slice0_nonneg [simp]: "0 \<le> n \<Longrightarrow> slice0 n xs = take (nat n) xs"
  by (simp add: slice0_def)

lemma length_slice0_le: "length (slice0 n xs) \<le> length xs"
  by (simp add: slice0_def)

text \<open>\<open>xs.findIndex(p)\<close>\<close>

fun findIndex :: "('a \<Rightarrow> bool) \<Rightarrow> 'a list \<Rightarrow> nat option" where
  "findIndex p [] = None"
| "findIndex p (x # xs) = (if p x then Some 0 else map_option Suc (findIndex p xs))"

lemma findIndex_None_iff: "findIndex p xs = None \<longleftrightarrow> (\<forall>x \<in> set xs. \<not> p x)"
  by (induction xs) auto

lemma findIndex_Some:
  "findIndex p xs = Some i \<Longrightarrow> i < length xs \<and> p (xs ! i) \<and> take i xs = takeWhile (\<lambda>x. \<not> p x) xs"
  by (induction xs arbitrary: i) (auto split: if_splits)

text \<open>\<open>xs.sort(cmp)\<close> for a comparator whose \<open>cmp(a, b) <= 0\<close> is \<open>le a b\<close>: stable insertion.\<close>

fun insert_by :: "('a \<Rightarrow> 'a \<Rightarrow> bool) \<Rightarrow> 'a \<Rightarrow> 'a list \<Rightarrow> 'a list" where
  "insert_by le x [] = [x]"
| "insert_by le x (y # ys) = (if le x y then x # y # ys else y # insert_by le x ys)"

definition sort_by :: "('a \<Rightarrow> 'a \<Rightarrow> bool) \<Rightarrow> 'a list \<Rightarrow> 'a list" where
  "sort_by le xs = foldr (insert_by le) xs []"

lemma mset_insert_by [simp]: "mset (insert_by le x ys) = add_mset x (mset ys)"
  by (induction ys) auto

lemma mset_sort_by [simp]: "mset (sort_by le xs) = mset xs"
  by (induction xs) (auto simp: sort_by_def)

lemma set_sort_by [simp]: "set (sort_by le xs) = set xs"
  by (rule mset_eq_setD) simp

lemma length_sort_by [simp]: "length (sort_by le xs) = length xs"
  by (rule mset_eq_length) simp

end
