(* ===== verification/Outcome.thy ===== *)
theory Outcome
  imports Prelude
begin

text \<open>
  Model of \<open>controller/outcome.ts\<close>: the reviewer's verdict, the precedence that collapses the
  verdicts recorded for one step, and the board state of a settled step.
\<close>

datatype status = SOk | SExists | SFailed | SPartial

record outcome =
  o_status :: status
  o_approved :: string
  o_remainder :: string
  o_note :: string

record review_outcome = outcome +
  o_digest :: string

text \<open>The table \<open>RANK\<close>.\<close>

fun RANK :: "status \<Rightarrow> nat" where
  "RANK SOk = 3"
| "RANK SExists = 3"
| "RANK SPartial = 2"
| "RANK SFailed = 1"

text \<open>The loop of \<open>resolveByPrecedence\<close>: the running winner and its rank.\<close>

fun resolve_loop :: "outcome option \<Rightarrow> nat \<Rightarrow> outcome list \<Rightarrow> outcome option" where
  "resolve_loop best bestRank [] = best"
| "resolve_loop best bestRank (ov # os) =
     (let r = RANK (o_status ov)
      in if best = None \<or> r \<ge> bestRank then resolve_loop (Some ov) r os
         else resolve_loop best bestRank os)"

definition resolveByPrecedence :: "outcome list \<Rightarrow> outcome option" where
  "resolveByPrecedence os = resolve_loop None 0 os"

datatype step_state = Planned | Executing | AwaitingExternal | Done | PartialDone | FailedState

fun projectStepState :: "status \<Rightarrow> step_state" where
  "projectStepState SOk = Done"
| "projectStepState SExists = Done"
| "projectStepState SPartial = PartialDone"
| "projectStepState SFailed = FailedState"

subsection \<open>The winner\<close>

lemma RANK_pos [simp]: "0 < RANK s" "RANK s \<le> 3"
  by (cases s; simp)+

lemma RANK_failed_iff: "RANK s = 1 \<longleftrightarrow> s = SFailed"
  by (cases s) auto

text \<open>\<open>last_max\<close> is the declarative reading of the comment: the element of the highest rank, and
  among several the last one.\<close>

definition last_max :: "outcome list \<Rightarrow> outcome \<Rightarrow> bool" where
  "last_max os w \<longleftrightarrow>
     (\<exists>us vs. os = us @ w # vs \<and> (\<forall>u \<in> set us. RANK (o_status u) \<le> RANK (o_status w))
                 \<and> (\<forall>v \<in> set vs. RANK (o_status v) < RANK (o_status w)))"

lemma last_max_unique:
  assumes "last_max os w" "last_max os w'"
  shows "w = w'"
proof -
  obtain us vs where 1: "os = us @ w # vs" "\<forall>u \<in> set us. RANK (o_status u) \<le> RANK (o_status w)"
    "\<forall>v \<in> set vs. RANK (o_status v) < RANK (o_status w)"
    using assms(1) by (auto simp: last_max_def)
  obtain us' vs' where 2: "os = us' @ w' # vs'"
    "\<forall>u \<in> set us'. RANK (o_status u) \<le> RANK (o_status w')"
    "\<forall>v \<in> set vs'. RANK (o_status v) < RANK (o_status w')"
    using assms(2) by (auto simp: last_max_def)
  from 1(1) 2(1) have "us @ w # vs = us' @ w' # vs'" by simp
  then consider "us = us'" "w = w'" | ws where "us' = us @ w # ws" "vs = ws @ w' # vs'"
    | ws where "us = us' @ w' # ws" "vs' = ws @ w # vs"
    by (auto simp: append_eq_append_conv2 append_eq_Cons_conv Cons_eq_append_conv)
  then show ?thesis
  proof cases
    case 2
    with 1 2 \<open>\<forall>u \<in> set us'. _ u\<close> have "RANK (o_status w) \<le> RANK (o_status w')"
      "RANK (o_status w') < RANK (o_status w)" by auto
    then show ?thesis by simp
  next
    case 3
    with 1 2 \<open>\<forall>v \<in> set vs'. _ v\<close> have "RANK (o_status w') \<le> RANK (o_status w)"
      "RANK (o_status w) < RANK (o_status w')" by auto
    then show ?thesis by simp
  qed simp
qed

lemma resolve_loop_spec:
  "resolve_loop (Some b) (RANK (o_status b)) os =
     (if \<exists>x \<in> set os. RANK (o_status b) \<le> RANK (o_status x)
      then resolve_loop None 0 os else Some b)"
proof (induction os arbitrary: b)
  case (Cons x os)
  show ?case
  proof (cases "RANK (o_status b) \<le> RANK (o_status x)")
    case False
    have "resolve_loop None 0 (x # os) = resolve_loop (Some x) (RANK (o_status x)) os"
      by (simp add: Let_def)
    moreover have "resolve_loop (Some b) (RANK (o_status b)) (x # os)
        = resolve_loop (Some b) (RANK (o_status b)) os"
      using False by (simp add: Let_def)
    ultimately show ?thesis
      using Cons.IH [of b] Cons.IH [of x] False by (auto simp: Let_def)
  qed (simp add: Let_def)
qed simp

lemma resolveByPrecedence_Cons:
  "resolveByPrecedence (x # os) =
     (if \<exists>y \<in> set os. RANK (o_status x) \<le> RANK (o_status y)
      then resolveByPrecedence os else Some x)"
  using resolve_loop_spec [of x os] by (simp add: resolveByPrecedence_def Let_def)

lemma resolveByPrecedence_Nil [simp]: "resolveByPrecedence [] = None"
  by (simp add: resolveByPrecedence_def)

lemma resolveByPrecedence_last_max:
  "os \<noteq> [] \<Longrightarrow> \<exists>w. resolveByPrecedence os = Some w \<and> last_max os w"
proof (induction os)
  case (Cons x os)
  show ?case
  proof (cases "\<exists>y \<in> set os. RANK (o_status x) \<le> RANK (o_status y)")
    case True
    then have "os \<noteq> []" by auto
    with Cons.IH obtain w where w: "resolveByPrecedence os = Some w" "last_max os w" by blast
    from w(2) obtain us vs where d: "os = us @ w # vs"
      "\<forall>u \<in> set us. RANK (o_status u) \<le> RANK (o_status w)"
      "\<forall>v \<in> set vs. RANK (o_status v) < RANK (o_status w)"
      by (auto simp: last_max_def)
    have "RANK (o_status x) \<le> RANK (o_status w)"
      using True d by fastforce
    then have "last_max (x # os) w"
      unfolding last_max_def by (intro exI [of _ "x # us"] exI [of _ vs]) (simp add: d)
    with w True show ?thesis by (simp add: resolveByPrecedence_Cons)
  next
    case False
    then have "last_max (x # os) x"
      unfolding last_max_def by (intro exI [of _ "[]"] exI [of _ os]) auto
    with False show ?thesis by (auto simp: resolveByPrecedence_Cons)
  qed
qed simp

lemma resolveByPrecedence_eq_Some_iff: "resolveByPrecedence os = Some w \<longleftrightarrow> last_max os w"
proof
  assume a: "resolveByPrecedence os = Some w"
  then have "os \<noteq> []" by auto
  with a show "last_max os w" using resolveByPrecedence_last_max by fastforce
next
  assume a: "last_max os w"
  then have "os \<noteq> []" by (auto simp: last_max_def)
  then obtain w' where "resolveByPrecedence os = Some w'" "last_max os w'"
    using resolveByPrecedence_last_max by blast
  with a show "resolveByPrecedence os = Some w" using last_max_unique by blast
qed

lemma resolveByPrecedence_None_iff [simp]: "resolveByPrecedence os = None \<longleftrightarrow> os = []"
  using resolveByPrecedence_last_max [of os] by (cases "os = []") auto

lemma resolveByPrecedence_in_set: "resolveByPrecedence os = Some w \<Longrightarrow> w \<in> set os"
  by (auto simp: resolveByPrecedence_eq_Some_iff last_max_def)

lemma last_max_rank: "last_max os w \<Longrightarrow> x \<in> set os \<Longrightarrow> RANK (o_status x) \<le> RANK (o_status w)"
  unfolding last_max_def by (elim exE conjE) (auto intro: less_imp_le)

lemma resolveByPrecedence_rank:
  "resolveByPrecedence os = Some w \<Longrightarrow> x \<in> set os \<Longrightarrow> RANK (o_status x) \<le> RANK (o_status w)"
  by (simp add: resolveByPrecedence_eq_Some_iff last_max_rank)

lemma RANK_le_1_iff: "RANK s \<le> 1 \<longleftrightarrow> s = SFailed"
  by (cases s) auto

lemma resolveByPrecedence_failed_iff:
  assumes "resolveByPrecedence os = Some w"
  shows "o_status w = SFailed \<longleftrightarrow> (\<forall>x \<in> set os. o_status x = SFailed)"
proof
  assume "o_status w = SFailed"
  then have "RANK (o_status x) \<le> 1" if "x \<in> set os" for x
    using resolveByPrecedence_rank [OF assms that] by simp
  then show "\<forall>x \<in> set os. o_status x = SFailed" by (simp only: RANK_le_1_iff) blast
next
  assume "\<forall>x \<in> set os. o_status x = SFailed"
  with resolveByPrecedence_in_set [OF assms] show "o_status w = SFailed" by blast
qed

text \<open>A later verdict is absorbed one at a time: appending compares only with the winner so far.\<close>

lemma resolveByPrecedence_snoc:
  "resolveByPrecedence (os @ [x]) =
     (case resolveByPrecedence os of
        None \<Rightarrow> Some x
      | Some b \<Rightarrow> if RANK (o_status b) \<le> RANK (o_status x) then Some x else Some b)"
proof (induction os)
  case Nil
  then show ?case by (simp add: resolveByPrecedence_Cons)
next
  case (Cons a os)
  show ?case
  proof (cases "resolveByPrecedence os")
    case None
    then show ?thesis using Cons by (auto simp: resolveByPrecedence_Cons)
  next
    case (Some b)
    then have "b \<in> set os" by (rule resolveByPrecedence_in_set)
    then show ?thesis
      using Cons.IH Some by (fastforce simp: resolveByPrecedence_Cons)
  qed
qed

subsection \<open>Properties\<close>

text \<open>\<open>resolveByPrecedence\<close> answers exactly the last outcome of the highest rank: nothing after it
  reaches its rank and nothing before it exceeds it.\<close>

theorem resolve_is_last_of_highest_rank:
  "resolveByPrecedence os = Some w \<longleftrightarrow>
     (\<exists>us vs. os = us @ w # vs \<and> (\<forall>u \<in> set us. RANK (o_status u) \<le> RANK (o_status w))
                 \<and> (\<forall>v \<in> set vs. RANK (o_status v) < RANK (o_status w)))"
  using resolveByPrecedence_eq_Some_iff [of os w] by (simp only: last_max_def)

theorem resolve_is_last_of_highest_rank_witness:
  "let ov = (\<lambda>s n. \<lparr>o_status = s, o_approved = n, o_remainder = [], o_note = []\<rparr>)
   in resolveByPrecedence [ov SOk ''a'', ov SExists ''b'', ov SFailed ''c''] = Some (ov SExists ''b'')"
  unfolding Let_def
  by (rule resolve_is_last_of_highest_rank [THEN iffD2])
    (rule exI [of _ "[\<lparr>o_status = SOk, o_approved = ''a'', o_remainder = [], o_note = []\<rparr>]"], simp)

end
