(* ===== verification/Json.thy ===== *)
theory Json
  imports Prelude
begin

text \<open>
  The part of \<open>JSON.parse\<close> the sources rely on: a datatype of JSON values and an executable parser.
  A number is kept as the decimal \<open>m * 10 ^ e\<close> of its literal; what the sources ask of a number is asked of
  the nearest double.  Objects are association lists in insertion order in which a repeated key
  overwrites.
\<close>

datatype json =
    JNull
  | JBool bool
  | JNum int int
  | JStr string
  | JArr "json list"
  | JObj "(string \<times> json) list"

text \<open>\<open>obj.key\<close> on a value that is not null: \<open>undefined\<close> unless the value is an object with it.\<close>

fun field :: "string \<Rightarrow> json \<Rightarrow> json option" where
  "field k (JObj kvs) = map_of kvs k"
| "field k _ = None"

fun is_string :: "json option \<Rightarrow> bool" where
  "is_string (Some (JStr s)) = True"
| "is_string _ = False"

fun the_string :: "json option \<Rightarrow> string" where
  "the_string (Some (JStr s)) = s"
| "the_string _ = []"

subsection \<open>Doubles\<close>

fun bit_length :: "nat \<Rightarrow> nat" where
  "bit_length n = (if n = 0 then 0 else Suc (bit_length (n div 2)))"

declare bit_length.simps [simp del]

text \<open>\<open>p / q\<close> to the nearest integer, halves to the even one.\<close>

definition round_div :: "nat \<Rightarrow> nat \<Rightarrow> nat" where
  "round_div p q =
     (let d = p div q; r = p mod q in if 2 * r > q \<or> (2 * r = q \<and> odd d) then d + 1 else d)"

text \<open>The nearest double of the decimal \<open>m * 10 ^ e\<close>, as \<open>mant * 2 ^ k\<close> with a mantissa of 53 bits (fewer for a
  subnormal number, with \<open>k = - 1074\<close>).\<close>

definition double_of :: "int \<Rightarrow> int \<Rightarrow> nat \<times> int" where
  "double_of m e =
     (let p = nat \<bar>m\<bar> * 10 ^ nat e; q = 10 ^ nat (- e);
          k0 = int (bit_length p) - int (bit_length q) - 53;
          k1 = (if p * 2 ^ nat (- k0) < q * 2 ^ (53 + nat k0) then k0 else k0 + 1);
          k = max k1 (- 1074)
      in (round_div (p * 2 ^ nat (- k)) (q * 2 ^ nat k), k))"

text \<open>The test \<open>if (v)\<close>.\<close>

fun json_truthy :: "json option \<Rightarrow> bool" where
  "json_truthy None = False"
| "json_truthy (Some JNull) = False"
| "json_truthy (Some (JBool b)) = b"
| "json_truthy (Some (JNum m e)) = (fst (double_of m e) \<noteq> 0)"
| "json_truthy (Some (JStr s)) = (s \<noteq> [])"
| "json_truthy (Some (JArr _)) = True"
| "json_truthy (Some (JObj _)) = True"

text \<open>\<open>Number.isInteger(v)\<close> with the integer it is: not for a fraction, nor for an overflow to infinity.\<close>

fun json_int :: "json option \<Rightarrow> int option" where
  "json_int (Some (JNum m e)) =
     (case double_of m e of
        (mant, k) \<Rightarrow>
          if 0 \<le> k then
            (if mant * 2 ^ nat k < 2 ^ 1024 then Some (sgn m * int (mant * 2 ^ nat k)) else None)
          else if 2 ^ nat (- k) dvd mant then Some (sgn m * int (mant div 2 ^ nat (- k))) else None)"
| "json_int _ = None"

lemma bit_length_01 [simp]: "bit_length 0 = 0" "bit_length (Suc 0) = 1"
  by (simp_all add: bit_length.simps)

lemma bit_length_bounds: "0 < n \<Longrightarrow> 2 ^ (bit_length n - 1) \<le> n \<and> n < 2 ^ bit_length n \<and> 0 < bit_length n"
proof (induction n rule: bit_length.induct)
  case (1 n)
  show ?case
  proof (cases "n = 1")
    case True
    moreover have "bit_length 1 = 1" by simp
    ultimately show ?thesis by simp
  next
    case False
    with 1 have "0 < n div 2" by auto
    with 1 have ih: "2 ^ (bit_length (n div 2) - 1) \<le> n div 2" "n div 2 < 2 ^ bit_length (n div 2)" "0 < bit_length (n div 2)"
      by simp_all
    moreover from ih(3) obtain b where "bit_length (n div 2) = Suc b" by (cases "bit_length (n div 2)") auto
    ultimately show ?thesis using 1(2) by (subst (1 2 3) bit_length.simps) auto
  qed
qed

text \<open>Every integer of at most 53 bits is itself.\<close>

lemma double_of_small:
  assumes "0 < nat \<bar>m\<bar>" "nat \<bar>m\<bar> < 2 ^ 53"
  shows "double_of m 0 = (nat \<bar>m\<bar> * 2 ^ (53 - bit_length (nat \<bar>m\<bar>)), - int (53 - bit_length (nat \<bar>m\<bar>)))"
proof -
  define p b n where "p = nat \<bar>m\<bar>" and "b = bit_length p" and "n = 53 - b"
  have pb: "2 ^ (b - 1) \<le> p" "0 < b" using bit_length_bounds [of p] assms(1) by (simp_all add: p_def b_def)
  have b53: "b \<le> 53"
  proof (rule ccontr)
    assume "\<not> b \<le> 53"
    then have "(2::nat) ^ 53 \<le> 2 ^ (b - 1)" by (intro power_increasing) auto
    then have "(2::nat) ^ 53 \<le> p" using pb(1) by (rule le_trans)
    with assms(2) show False by (simp add: p_def)
  qed
  have one: "bit_length 1 = 1" by simp
  have k0: "int b - int (bit_length 1) - 53 = - int (n + 1)" using b53 one by (simp add: n_def)
  have "(2::nat) ^ 53 = 2 ^ (b - 1 + (n + 1))" using pb(2) b53 by (simp add: n_def)
  also have "\<dots> = 2 ^ (b - 1) * 2 ^ (n + 1)" by (rule power_add)
  also have "\<dots> \<le> p * 2 ^ (n + 1)" using pb(1) by (rule mult_right_mono) simp
  finally have "\<not> p * 2 ^ (n + 1) < 1 * 2 ^ (53 + 0)" by simp
  then have k1: "(if p * 2 ^ nat (- (- int (n + 1))) < 1 * 2 ^ (53 + nat (- int (n + 1))) then - int (n + 1) else - int (n + 1) + 1)
      = - int n"
    by (simp only: minus_minus nat_int nat_zminus_int if_False)
  have "n \<le> 53" by (simp add: n_def)
  then have k: "max (- int n) (- 1074) = - int n" by simp
  have r: "round_div (x :: nat) 1 = x" for x by (simp add: round_div_def)
  have "double_of m 0 = (round_div (p * 2 ^ nat (- (- int n))) (1 * 2 ^ nat (- int n)), - int n)"
    unfolding double_of_def Let_def p_def [symmetric] nat_0 minus_zero power_0 mult_1_right b_def [symmetric] k0 k1 k ..
  also have "\<dots> = (p * 2 ^ n, - int n)" using r [of "p * 2 ^ n"] by simp
  finally show ?thesis by (simp add: p_def b_def n_def)
qed

lemma json_int_exact:
  assumes "\<bar>m\<bar> < 2 ^ 53"
  shows "json_int (Some (JNum m 0)) = Some m"
proof (cases "m = 0")
  case True
  moreover have "double_of 0 0 = (0, - 54)" by (simp add: double_of_def round_div_def Let_def)
  ultimately show ?thesis by simp
next
  case False
  define n where "n = 53 - bit_length (nat \<bar>m\<bar>)"
  have p: "0 < nat \<bar>m\<bar>" "nat \<bar>m\<bar> < 2 ^ 53"
    using False assms by (simp_all add: nat_less_iff)
  have d: "double_of m 0 = (nat \<bar>m\<bar> * 2 ^ n, - int n)" using double_of_small [OF p] by (simp add: n_def)
  have sg: "sgn m * int (nat \<bar>m\<bar>) = m" by (simp add: sgn_mult_abs)
  show ?thesis
  proof (cases "n = 0")
    case True
    have "nat \<bar>m\<bar> < 2 ^ 1024" by (rule less_le_trans [OF p(2)], rule power_increasing) simp_all
    with True d sg show ?thesis by (simp del: power_numeral nat_less_iff)
  next
    case False
    with d sg show ?thesis by simp
  qed
qed

subsection \<open>The parser\<close>

definition json_ws :: "char \<Rightarrow> bool" where
  "json_ws c \<longleftrightarrow> c \<in> {CHR 32, CHR 9, CHR 10, CHR 13}"

abbreviation quote_char :: char where "quote_char \<equiv> CHR 34"
abbreviation backslash :: char where "backslash \<equiv> CHR 92"

definition is_digit :: "char \<Rightarrow> bool" where
  "is_digit c \<longleftrightarrow> 48 \<le> (of_char c :: nat) \<and> (of_char c :: nat) \<le> 57"

definition hex_val :: "char \<Rightarrow> nat option" where
  "hex_val c =
     (let n = (of_char c :: nat)
      in if 48 \<le> n \<and> n \<le> 57 then Some (n - 48)
         else if 97 \<le> n \<and> n \<le> 102 then Some (n - 87)
         else if 65 \<le> n \<and> n \<le> 70 then Some (n - 55) else None)"

definition escape_char :: "char \<Rightarrow> char option" where
  "escape_char c =
     (if c = quote_char \<or> c = backslash \<or> c = CHR ''/'' then Some c
      else if c = CHR ''n'' then Some (CHR 10)
      else if c = CHR ''t'' then Some (CHR 9)
      else if c = CHR ''r'' then Some (CHR 13)
      else if c = CHR ''b'' then Some (CHR 8)
      else if c = CHR ''f'' then Some (CHR 12)
      else None)"

text \<open>The code unit of a \<open>\u\<close> escape.  ASCII and the control codes are themselves; what the code page of the
  development holds (theory \<open>Prelude\<close>) is its code there, and every other unit is the replacement \<open>0x98\<close>.\<close>

definition code_char :: "nat \<Rightarrow> char" where
  "code_char n =
     char_of (if n < 128 then n
              else if 0x410 \<le> n \<and> n \<le> 0x44F then n - 0x410 + 0xC0
              else if n = 0x406 then 0xB2 else if n = 0x456 then 0xB3
              else if n = 0x2026 then 0x85 else if n = 0x2014 then 0x97 else if n = 0xA0 then 0xA0 else (0x98 :: nat))"

text \<open>The body of a string literal after the opening quote, and what follows the closing one.\<close>

fun parse_str :: "string \<Rightarrow> (string \<times> string) option" where
  "parse_str [] = None"
| "parse_str (c # r) =
     (if c = quote_char then Some ([], r)
      else if (of_char c :: nat) < 32 then None
      else if c = backslash then
        (case r of
           [] \<Rightarrow> None
         | d # r1 \<Rightarrow>
             if d = CHR ''u'' then
               (case r1 of
                  h1 # h2 # h3 # h4 # r2 \<Rightarrow>
                    (case (hex_val h1, hex_val h2, hex_val h3, hex_val h4) of
                       (Some a, Some b, Some x, Some y) \<Rightarrow>
                         map_option (\<lambda>(s, t). (code_char (a * 4096 + b * 256 + x * 16 + y) # s, t))
                           (parse_str r2)
                     | _ \<Rightarrow> None)
                | _ \<Rightarrow> None)
             else
               (case escape_char d of
                  None \<Rightarrow> None
                | Some k \<Rightarrow> map_option (\<lambda>(s, t). (k # s, t)) (parse_str r1)))
      else map_option (\<lambda>(s, t). (c # s, t)) (parse_str r))"

definition parse_nat :: "string \<Rightarrow> (nat \<times> nat \<times> string) option" where
  "parse_nat s =
     (let ds = takeWhile is_digit s
      in if ds = [] then None else Some (undigits ds, length ds, dropWhile is_digit s))"

text \<open>A number literal: integer part without a leading zero, fraction, exponent.\<close>

definition parse_num :: "string \<Rightarrow> (json \<times> string) option" where
  "parse_num s0 =
     (let neg = (s0 \<noteq> [] \<and> hd s0 = CHR ''-'');
          s = (if neg then tl s0 else s0)
      in case parse_nat s of
           None \<Rightarrow> None
         | Some (ip, il, s1) \<Rightarrow>
             if il > 1 \<and> hd s = CHR ''0'' then None
             else
               (case (if s1 \<noteq> [] \<and> hd s1 = CHR ''.'' then parse_nat (tl s1)
                      else Some (0, 0, s1)) of
                  None \<Rightarrow> None
                | Some (fp, fl, s2) \<Rightarrow>
                    let m = int (ip * 10 ^ fl + fp);
                        m' = (if neg then - m else m)
                    in if s2 \<noteq> [] \<and> (hd s2 = CHR ''e'' \<or> hd s2 = CHR ''E'') then
                         (let s3 = tl s2;
                              eneg = (s3 \<noteq> [] \<and> hd s3 = CHR ''-'');
                              s4 = (if s3 \<noteq> [] \<and> (hd s3 = CHR ''-'' \<or> hd s3 = CHR ''+'') then tl s3 else s3)
                          in case parse_nat s4 of
                               None \<Rightarrow> None
                             | Some (ep, el, s5) \<Rightarrow>
                                 Some (JNum m' ((if eneg then - int ep else int ep) - int fl), s5))
                       else Some (JNum m' (- int fl), s2)))"

fun strip_word :: "string \<Rightarrow> string \<Rightarrow> string option" where
  "strip_word [] s = Some s"
| "strip_word (w # ws) [] = None"
| "strip_word (w # ws) (c # s) = (if w = c then strip_word ws s else None)"

text \<open>
  Values, array tails (after an element) and object bodies, by a fuel that bounds the nesting and
  the number of elements; the length of the text is always enough.
\<close>

fun parse_val :: "nat \<Rightarrow> string \<Rightarrow> (json \<times> string) option"
and parse_elems :: "nat \<Rightarrow> string \<Rightarrow> (json list \<times> string) option"
and parse_members :: "nat \<Rightarrow> (string \<times> json) list \<Rightarrow> string \<Rightarrow> ((string \<times> json) list \<times> string) option"
where
  "parse_val 0 s = None"
| "parse_val (Suc n) s =
     (case dropWhile json_ws s of
        [] \<Rightarrow> None
      | c # r \<Rightarrow>
          if c = CHR ''{'' then
            (case dropWhile json_ws r of
               [] \<Rightarrow> None
             | d # r1 \<Rightarrow>
                 if d = CHR ''}'' then Some (JObj [], r1)
                 else map_option (\<lambda>(kvs, t). (JObj kvs, t)) (parse_members n [] (d # r1)))
          else if c = CHR ''['' then
            (case dropWhile json_ws r of
               [] \<Rightarrow> None
             | d # r1 \<Rightarrow>
                 if d = CHR '']'' then Some (JArr [], r1)
                 else map_option (\<lambda>(vs, t). (JArr vs, t)) (parse_elems n (d # r1)))
          else if c = quote_char then map_option (\<lambda>(x, t). (JStr x, t)) (parse_str r)
          else if c = CHR ''t'' then map_option (\<lambda>t. (JBool True, t)) (strip_word ''true'' (c # r))
          else if c = CHR ''f'' then map_option (\<lambda>t. (JBool False, t)) (strip_word ''false'' (c # r))
          else if c = CHR ''n'' then map_option (\<lambda>t. (JNull, t)) (strip_word ''null'' (c # r))
          else parse_num (c # r))"
| "parse_elems 0 s = None"
| "parse_elems (Suc n) s =
     (case parse_val n s of
        None \<Rightarrow> None
      | Some (v, t) \<Rightarrow>
          (case dropWhile json_ws t of
             [] \<Rightarrow> None
           | c # r \<Rightarrow>
               if c = CHR '']'' then Some ([v], r)
               else if c = CHR '','' then map_option (\<lambda>(vs, u). (v # vs, u)) (parse_elems n r)
               else None))"
| "parse_members 0 acc s = None"
| "parse_members (Suc n) acc s =
     (case dropWhile json_ws s of
        [] \<Rightarrow> None
      | q # r \<Rightarrow>
          if q \<noteq> quote_char then None
          else
            (case parse_str r of
               None \<Rightarrow> None
             | Some (k, t) \<Rightarrow>
                 (case dropWhile json_ws t of
                    [] \<Rightarrow> None
                  | c # r1 \<Rightarrow>
                      if c \<noteq> CHR '':'' then None
                      else
                        (case parse_val n r1 of
                           None \<Rightarrow> None
                         | Some (v, t2) \<Rightarrow>
                             (case dropWhile json_ws t2 of
                                [] \<Rightarrow> None
                              | d # r2 \<Rightarrow>
                                  if d = CHR ''}'' then Some (AList.update k v acc, r2)
                                  else if d = CHR '','' then parse_members n (AList.update k v acc) r2
                                  else None)))))"

definition json_parse :: "string \<Rightarrow> json option" where
  "json_parse s =
     (case parse_val (2 * length s + 2) s of
        None \<Rightarrow> None
      | Some (v, t) \<Rightarrow> if \<forall>c \<in> set t. json_ws c then Some v else None)"

end
