(* ===== verification/ControllerTypes.thy ===== *)
theory ControllerTypes
  imports Outcome Json
begin

text \<open>
  The data model of the controller: \<open>controller/types.ts\<close>, the decision and claim types of
  \<open>controller/artifacts.ts\<close>, the terminal outcome of \<open>controller/run-scope.ts\<close> and the knowledge
  entry of \<open>interfaces/knowledge-rag.ts\<close>.  Sequence numbers, attempts and ordinals are \<open>int\<close>; a time
  stamp is the integer of its epoch milliseconds (ISO strings in UTC order the same way).
\<close>

subsection \<open>Steps\<close>

record step =
  s_stepId :: "string option"
  s_name :: string
  s_instructions :: string
  s_type :: "json option"
  s_waitMs :: "int option"
  s_discovery :: bool
  s_supersedes :: "string option"
  s_requires :: "string list option"

definition mk_step :: "string \<Rightarrow> string \<Rightarrow> step" where
  "mk_step nm ins = \<lparr>s_stepId = None, s_name = nm, s_instructions = ins, s_type = None,
     s_waitMs = None, s_discovery = False, s_supersedes = None, s_requires = None\<rparr>"

definition MAX_REQUIRES :: nat where "MAX_REQUIRES = 8"
definition MAX_REQUIRE_CHARS :: nat where "MAX_REQUIRE_CHARS = 200"

text \<open>\<open>validateRequires\<close> answers \<open>undefined\<close>, a trimmed list, or \<open>false\<close>.\<close>

datatype requires_check = ReqUndefined | ReqList "string list" | ReqFalse

fun requires_loop :: "string list \<Rightarrow> json list \<Rightarrow> requires_check" where
  "requires_loop out [] = ReqList out"
| "requires_loop out (JStr r # rs) =
     (let t = trim r
      in if length t = 0 \<or> length t > MAX_REQUIRE_CHARS then ReqFalse
         else requires_loop (out @ [t]) rs)"
| "requires_loop out (_ # rs) = ReqFalse"

fun validateRequires :: "json option \<Rightarrow> requires_check" where
  "validateRequires None = ReqUndefined"
| "validateRequires (Some (JArr v)) =
     (if length v = 0 then ReqUndefined
      else if length v > MAX_REQUIRES then ReqFalse
      else requires_loop [] v)"
| "validateRequires (Some _) = ReqFalse"

datatype next_step =
    NextStep step
  | DoneStep string
  | RewindStep string
  | ErrorStep string

subsection \<open>Plan decisions\<close>

datatype decision_key =
    KCreate string
  | KReplanAnchor string string
  | KReplanTrigger string string
  | KExpand string string int
  | KPage string string int string

record plan_decision =
  d_steps :: "step list"
  d_key :: decision_key

subsection \<open>The session bundle\<close>

record message =
  msg_role :: string
  msg_content :: string

record tool_call =
  tc_id :: string
  tc_name :: string
  tc_args :: string

datatype subagent_result = RContent string | RToolCall "tool_call list" | RError string

datatype pending =
    ExternalTool (p_extId: string) (p_toolName: string) (p_args: string) (p_position: string)
  | Clarify (p_question: string) (p_position: string) (p_proposed: "string option")

datatype run_state = Idle | Active | Suspended | TerminalRun
datatype run_phase = Evaluating | Planning | ExecutingPhase | Finalizing
datatype step_phase = PhExecuting | PhAwaitingReplan
datatype failure_reason = MaxToolCalls | StepTimeout | ControlFailureReason
datatype step_outcome = Advanced | FailedOutcome | PartialOutcome

record control_failure =
  cf_reason :: failure_reason
  cf_seq :: int
  cf_note :: "string option"

record inflight =
  i_seq :: int
  i_step :: step
  i_attempt :: int
  i_resumeCount :: int
  i_phase :: step_phase
  i_transcript :: "message list"
  i_toolCallCount :: int
  i_controlFailure :: "control_failure option"
  i_contextState :: "string option"
  i_controlTail :: "message list option"
  i_waitStartedAt :: "int option"
  i_appliedWaitMs :: "int option"

record budgets_used =
  u_stepsUsed :: int
  u_rewindsUsed :: int
  u_waitMsUsed :: "int option"

record session_bundle =
  b_goal :: string
  b_plannerPrivate :: string
  b_budgets :: budgets_used
  b_plan :: "step list option"
  b_planCursor :: "nat option"
  b_pendingDecisions :: "plan_decision list option"
  b_pending :: "pending option"
  b_lastOutcome :: "step_outcome option"
  b_runId :: "string option"
  b_runState :: "run_state option"
  b_runPhase :: "run_phase option"
  b_originalRequest :: "string option"
  b_nextSeq :: "int option"
  b_inFlight :: "inflight option"
  b_evalCallInFlight :: bool
  b_plannerCallInFlight :: bool
  b_finalizeCallInFlight :: bool
  b_evalResumeCount :: "int option"
  b_plannerResumeCount :: "int option"
  b_finalizeAttempt :: "int option"
  b_legacyFinalAnswer :: "string option"
  b_writeOrdinal :: "int option"

subsection \<open>Knowledge entries\<close>

text \<open>
  The content of an entry is the text an artifact carries, or a value the code stores with
  \<open>JSON.stringify\<close> and reads back with \<open>JSON.parse\<close>: the value stands for its encoding.  Reading a
  text where a value is expected is the throw of \<open>JSON.parse\<close>.
\<close>

datatype terminal_outcome = TSuccess string | TError string

record terminal_entry =
  t_runId :: string
  t_outcome :: terminal_outcome
  t_expiresAt :: int

datatype content =
    CText string
  | CBundle session_bundle
  | CTerminal terminal_entry
  | CSteps "step list"

fun content_text :: "content \<Rightarrow> string" where
  "content_text (CText s) = s"
| "content_text _ = []"

record meta =
  m_traceId :: string
  m_turnId :: string
  m_stepperId :: string
  m_parentStepperId :: "string option"
  m_task :: string
  m_artifactType :: string
  m_toolName :: "string option"
  m_identityKey :: "string option"
  m_runId :: "string option"
  m_seq :: "int option"
  m_attempt :: "int option"
  m_status :: "status option"
  m_note :: "string option"
  m_remainder :: "string option"
  m_createdAt :: int
  m_writeOrdinal :: "int option"
  m_stepId :: "string option"
  m_supersedes :: "string option"
  m_decisionId :: "string option"
  m_slotId :: "string option"
  m_kind :: "string option"
  m_digest :: "string option"

record kentry =
  k_content :: content
  k_meta :: meta

definition base_meta :: "string \<Rightarrow> string \<Rightarrow> string \<Rightarrow> int \<Rightarrow> meta" where
  "base_meta sid task ty now =
     \<lparr>m_traceId = sid, m_turnId = sid, m_stepperId = ''controller'', m_parentStepperId = None,
      m_task = task, m_artifactType = ty, m_toolName = None, m_identityKey = None, m_runId = None,
      m_seq = None, m_attempt = None, m_status = None, m_note = None, m_remainder = None,
      m_createdAt = now, m_writeOrdinal = None, m_stepId = None, m_supersedes = None,
      m_decisionId = None, m_slotId = None, m_kind = None, m_digest = None\<rparr>"

lemma base_meta_sel [simp]:
  "m_traceId (base_meta sid task ty now) = sid"
  "m_turnId (base_meta sid task ty now) = sid"
  "m_stepperId (base_meta sid task ty now) = ''controller''"
  "m_artifactType (base_meta sid task ty now) = ty"
  "m_runId (base_meta sid task ty now) = None"
  "m_createdAt (base_meta sid task ty now) = now"
  "m_task (base_meta sid task ty now) = task"
  by (simp_all add: base_meta_def)

subsection \<open>Lemmas on requires\<close>

lemma requires_loop_list:
  "requires_loop out v = ReqList ys \<Longrightarrow>
     (\<forall>t \<in> set out. 0 < length t \<and> length t \<le> MAX_REQUIRE_CHARS) \<Longrightarrow>
     length ys = length out + length v \<and> (\<forall>t \<in> set ys. 0 < length t \<and> length t \<le> MAX_REQUIRE_CHARS)"
  by (induction out v rule: requires_loop.induct) (auto simp: Let_def split: if_splits)

lemma requires_loop_not_undefined: "requires_loop out v \<noteq> ReqUndefined"
  by (induction out v rule: requires_loop.induct) (auto simp: Let_def)

lemma validateRequires_list:
  assumes "validateRequires v = ReqList ys"
  shows "ys \<noteq> []" "length ys \<le> MAX_REQUIRES"
    "\<And>t. t \<in> set ys \<Longrightarrow> 0 < length t \<and> length t \<le> MAX_REQUIRE_CHARS"
proof -
  obtain vs where v: "v = Some (JArr vs)" "vs \<noteq> []" "length vs \<le> MAX_REQUIRES"
    "requires_loop [] vs = ReqList ys"
    using assms by (cases v rule: validateRequires.cases) (auto split: if_splits)
  from requires_loop_list [OF v(4)] have
    "length ys = length vs" "\<forall>t \<in> set ys. 0 < length t \<and> length t \<le> MAX_REQUIRE_CHARS"
    by simp_all
  with v show "ys \<noteq> []" "length ys \<le> MAX_REQUIRES"
    "\<And>t. t \<in> set ys \<Longrightarrow> 0 < length t \<and> length t \<le> MAX_REQUIRE_CHARS"
    by auto
qed

end
