(* ===== verification/Knowledge.thy ===== *)
theory Knowledge
  imports ControllerTypes
begin

text \<open>
  Model of \<open>llm-agent-libs/src/rag/knowledge-rag.ts\<close>: the metadata filter, the in-memory backend
  and the per-session handle, with the contract \<open>knowledge_backend\<close> that every client of the durable
  store (terminal records, session bundles, artifacts) relies on.
\<close>

subsection \<open>Filtering\<close>

record kfilter =
  f_traceId :: "string option"
  f_turnId :: "string option"
  f_stepperId :: "string option"
  f_parentStepperId :: "string option"
  f_artifactType :: "string list option"
  f_toolName :: "string option"
  f_runId :: "string option"
  f_seq :: "int option"
  f_attempt :: "int option"
  f_status :: "status option"
  f_stepId :: "string option"
  f_decisionId :: "string option"
  f_slotId :: "string option"
  f_kind :: "string option"

definition any_filter :: kfilter where
  "any_filter = \<lparr>f_traceId = None, f_turnId = None, f_stepperId = None, f_parentStepperId = None,
     f_artifactType = None, f_toolName = None, f_runId = None, f_seq = None, f_attempt = None,
     f_status = None, f_stepId = None, f_decisionId = None, f_slotId = None, f_kind = None\<rparr>"

text \<open>\<open>if (f && m !== f) return false\<close>: an absent or empty filter field accepts everything.\<close>

definition str_ok :: "string option \<Rightarrow> string option \<Rightarrow> bool" where
  "str_ok f m \<longleftrightarrow> \<not> truthy f \<or> m = f"

definition eq_ok :: "'a option \<Rightarrow> 'a option \<Rightarrow> bool" where
  "eq_ok f m \<longleftrightarrow> f = None \<or> m = f"

definition kmatches :: "meta \<Rightarrow> kfilter \<Rightarrow> bool" where
  "kmatches m f \<longleftrightarrow>
     str_ok (f_traceId f) (Some (m_traceId m))
     \<and> str_ok (f_turnId f) (Some (m_turnId m))
     \<and> str_ok (f_stepperId f) (Some (m_stepperId m))
     \<and> str_ok (f_parentStepperId f) (m_parentStepperId m)
     \<and> str_ok (f_toolName f) (m_toolName m)
     \<and> (case f_artifactType f of None \<Rightarrow> True | Some tys \<Rightarrow> m_artifactType m \<in> set tys)
     \<and> eq_ok (f_runId f) (m_runId m)
     \<and> eq_ok (f_seq f) (m_seq m)
     \<and> eq_ok (f_attempt f) (m_attempt m)
     \<and> eq_ok (f_status f) (m_status m)
     \<and> eq_ok (f_stepId f) (m_stepId m)
     \<and> eq_ok (f_decisionId f) (m_decisionId m)
     \<and> eq_ok (f_slotId f) (m_slotId m)
     \<and> eq_ok (f_kind f) (m_kind m)"

text \<open>The filter \<open>{ runId, artifactType }\<close> of the controller's reads.\<close>

definition run_filter :: "string \<Rightarrow> string \<Rightarrow> kfilter" where
  "run_filter rid ty = any_filter\<lparr>f_runId := Some rid, f_artifactType := Some [ty]\<rparr>"

lemma kmatches_run_filter:
  "kmatches m (run_filter rid ty) \<longleftrightarrow> m_artifactType m = ty \<and> m_runId m = Some rid"
  by (auto simp: kmatches_def run_filter_def any_filter_def str_ok_def eq_ok_def)

subsection \<open>The contract of a backend\<close>

locale knowledge_backend =
  fixes put :: "'b \<Rightarrow> string \<Rightarrow> kentry \<Rightarrow> 'b"
    and scan :: "'b \<Rightarrow> string \<Rightarrow> kentry list"
    and del :: "'b \<Rightarrow> string \<Rightarrow> 'b"
  assumes scan_put_same: "scan (put b s e) s = scan b s @ [e]"
    and scan_put_other: "s \<noteq> s' \<Longrightarrow> scan (put b s e) s' = scan b s'"
    and scan_del_same: "scan (del b s) s = []"
    and scan_del_other: "s \<noteq> s' \<Longrightarrow> scan (del b s) s' = scan b s'"
begin

lemma scan_puts:
  "scan (foldl (\<lambda>b e. put b s e) b es) s = scan b s @ es"
  by (induction es arbitrary: b) (simp_all add: scan_put_same)

lemma scan_put_prefix: "prefix (scan b s') (scan (put b s e) s')"
  by (cases "s = s'") (simp_all add: scan_put_same scan_put_other)

lemma put_isolated:
  "s \<noteq> s' \<Longrightarrow> scan (put (put b s e) s' e') s = scan b s @ [e]"
  by (simp add: scan_put_same scan_put_other)

end

subsection \<open>The in-memory backend\<close>

type_synonym kb = "(string \<times> kentry list) list"

definition kb_scan :: "kb \<Rightarrow> string \<Rightarrow> kentry list" where
  "kb_scan b sid = nullish (map_of b sid) []"

definition kb_put :: "kb \<Rightarrow> string \<Rightarrow> kentry \<Rightarrow> kb" where
  "kb_put b sid e = AList.update sid (kb_scan b sid @ [e]) b"

definition kb_deleteSession :: "kb \<Rightarrow> string \<Rightarrow> kb" where
  "kb_deleteSession b sid = AList.delete sid b"

text \<open>Without an embedding index, a query is the filter in insertion order, then the cap.\<close>

definition kb_semanticQuery :: "kb \<Rightarrow> string \<Rightarrow> nat option \<Rightarrow> kfilter option \<Rightarrow> kentry list" where
  "kb_semanticQuery b sid k f =
     (let a = kb_scan b sid;
          a' = (case f of None \<Rightarrow> a | Some fl \<Rightarrow> filter (\<lambda>e. kmatches (k_meta e) fl) a)
      in case k of None \<Rightarrow> a' | Some n \<Rightarrow> if n = 0 then a' else take n a')"

lemma kb_scan_Nil [simp]: "kb_scan [] sid = []"
  by (simp add: kb_scan_def)

interpretation kb: knowledge_backend kb_put kb_scan kb_deleteSession
  by unfold_locales
    (auto simp: kb_put_def kb_scan_def kb_deleteSession_def update_conv' delete_conv')

lemmas [store_simps] = kb.scan_put_same kb.scan_put_other kb.scan_del_same kb.scan_del_other

subsection \<open>The per-session handle\<close>

record rag_handle =
  h_backend :: kb
  h_sid :: string
  h_mirror :: "kentry list"

definition rag_new :: "kb \<Rightarrow> string \<Rightarrow> rag_handle" where
  "rag_new b sid = \<lparr>h_backend = b, h_sid = sid, h_mirror = []\<rparr>"

definition rag_init :: "rag_handle \<Rightarrow> rag_handle" where
  "rag_init h = h\<lparr>h_mirror := kb_scan (h_backend h) (h_sid h)\<rparr>"

definition rag_write :: "rag_handle \<Rightarrow> kentry \<Rightarrow> rag_handle" where
  "rag_write h e = h\<lparr>h_backend := kb_put (h_backend h) (h_sid h) e, h_mirror := h_mirror h @ [e]\<rparr>"

definition rag_query :: "rag_handle \<Rightarrow> nat option \<Rightarrow> kfilter option \<Rightarrow> kentry list" where
  "rag_query h k f =
     (let hits = kb_semanticQuery (h_backend h) (h_sid h) k f
      in case f of None \<Rightarrow> hits | Some fl \<Rightarrow> filter (\<lambda>e. kmatches (k_meta e) fl) hits)"

definition rag_source :: "rag_handle \<Rightarrow> kentry list" where
  "rag_source h =
     (let durable = kb_scan (h_backend h) (h_sid h)
      in if length durable \<ge> length (h_mirror h) then durable else h_mirror h)"

definition rag_list :: "rag_handle \<Rightarrow> kfilter \<Rightarrow> kentry list" where
  "rag_list h f =
     sort_key (\<lambda>e. m_createdAt (k_meta e)) (filter (\<lambda>e. kmatches (k_meta e) f) (rag_source h))"

definition rag_hasArtifact :: "rag_handle \<Rightarrow> string \<Rightarrow> bool" where
  "rag_hasArtifact h k \<longleftrightarrow>
     (\<exists>e \<in> set (h_mirror h). m_identityKey (k_meta e) = Some k)
     \<or> (\<exists>e \<in> set (kb_scan (h_backend h) (h_sid h)). m_identityKey (k_meta e) = Some k)"

text \<open>\<open>listArtifacts\<close>: one row per identity, the latest write, ordered by time.\<close>

record artifact_row =
  ar_identityKey :: string
  ar_toolName :: "string option"
  ar_createdAt :: int

definition artifact_step :: "(string \<times> artifact_row) list \<Rightarrow> kentry \<Rightarrow> (string \<times> artifact_row) list" where
  "artifact_step byKey e =
     (case m_identityKey (k_meta e) of
        None \<Rightarrow> byKey
      | Some k \<Rightarrow>
          if k = [] then byKey
          else if map_of byKey k = None
                  \<or> m_createdAt (k_meta e) \<ge> ar_createdAt (the (map_of byKey k))
          then AList.update k \<lparr>ar_identityKey = k, ar_toolName = m_toolName (k_meta e),
                 ar_createdAt = m_createdAt (k_meta e)\<rparr> byKey
          else byKey)"

definition rag_listArtifacts :: "rag_handle \<Rightarrow> artifact_row list" where
  "rag_listArtifacts h = sort_key ar_createdAt (map snd (foldl artifact_step [] (rag_source h)))"

fun find_last :: "string \<Rightarrow> kentry list \<Rightarrow> content option" where
  "find_last k [] = None"
| "find_last k (e # es) =
     (case find_last k es of
        Some c \<Rightarrow> Some c
      | None \<Rightarrow> if m_identityKey (k_meta e) = Some k then Some (k_content e) else None)"

definition rag_getArtifact :: "rag_handle \<Rightarrow> string \<Rightarrow> content option" where
  "rag_getArtifact h k = find_last k (rag_source h)"

subsection \<open>Reading after writing\<close>

lemma find_last_snoc:
  "find_last k (es @ [e]) =
     (if m_identityKey (k_meta e) = Some k then Some (k_content e) else find_last k es)"
  by (induction es) (auto split: option.splits)

lemma find_last_None_iff: "find_last k es = None \<longleftrightarrow> (\<forall>e \<in> set es. m_identityKey (k_meta e) \<noteq> Some k)"
  by (induction es) (auto split: option.splits)

text \<open>The mirror never runs ahead of the durable log: true after \<open>init\<close>, kept by this handle's writes
  and by anybody else's writes to the same backend.\<close>

definition rag_ok :: "rag_handle \<Rightarrow> bool" where
  "rag_ok h \<longleftrightarrow> length (h_mirror h) \<le> length (kb_scan (h_backend h) (h_sid h))"

lemma rag_ok_new [simp, intro]: "rag_ok (rag_new b sid)"
  by (simp add: rag_ok_def rag_new_def)

lemma rag_ok_init [simp, intro]: "rag_ok (rag_init h)"
  by (simp add: rag_ok_def rag_init_def)

lemma rag_ok_write [intro]: "rag_ok h \<Longrightarrow> rag_ok (rag_write h e)"
  by (simp add: rag_ok_def rag_write_def store_simps)

lemma rag_ok_foreign_put [intro]:
  assumes "rag_ok h"
  shows "rag_ok (h\<lparr>h_backend := kb_put (h_backend h) sid e\<rparr>)"
proof -
  have "length (kb_scan (h_backend h) (h_sid h)) \<le> length (kb_scan (kb_put (h_backend h) sid e) (h_sid h))"
    using kb.scan_put_prefix by (rule prefix_length_le)
  with assms show ?thesis by (simp add: rag_ok_def)
qed

lemma rag_source_ok: "rag_ok h \<Longrightarrow> rag_source h = kb_scan (h_backend h) (h_sid h)"
  by (simp add: rag_source_def rag_ok_def Let_def)

lemma rag_source_write: "rag_ok h \<Longrightarrow> rag_source (rag_write h e) = rag_source h @ [e]"
  using rag_ok_write [of h e]
  by (simp add: rag_source_ok) (simp add: rag_write_def store_simps)

lemma rag_getArtifact_write:
  "rag_ok h \<Longrightarrow> rag_getArtifact (rag_write h e) k =
     (if m_identityKey (k_meta e) = Some k then Some (k_content e) else rag_getArtifact h k)"
  by (simp add: rag_getArtifact_def rag_source_write find_last_snoc)

lemma rag_getArtifact_iff_hasArtifact:
  assumes "h_mirror h = take n (kb_scan (h_backend h) (h_sid h))"
  shows "rag_getArtifact h k \<noteq> None \<longleftrightarrow> rag_hasArtifact h k"
proof -
  have "rag_ok h" using assms by (simp add: rag_ok_def)
  moreover have "set (h_mirror h) \<subseteq> set (kb_scan (h_backend h) (h_sid h))"
    using assms by (simp add: set_take_subset)
  ultimately show ?thesis
    by (auto simp: rag_getArtifact_def rag_hasArtifact_def rag_source_ok find_last_None_iff)
qed

lemma rag_list_write:
  assumes "rag_ok h" "\<forall>x \<in> set (rag_source h). m_createdAt (k_meta x) \<le> m_createdAt (k_meta e)"
  shows "rag_list (rag_write h e) f = rag_list h f @ (if kmatches (k_meta e) f then [e] else [])"
  using assms by (auto simp: rag_list_def rag_source_write sort_key_snoc_max)

lemma set_rag_list:
  "rag_ok h \<Longrightarrow> set (rag_list h f) = {e \<in> set (kb_scan (h_backend h) (h_sid h)). kmatches (k_meta e) f}"
  by (auto simp: rag_list_def rag_source_ok)

text \<open>The rows of \<open>listArtifacts\<close> are one per identity.\<close>

definition rows_ok :: "kentry list \<Rightarrow> (string \<times> artifact_row) list \<Rightarrow> bool" where
  "rows_ok es rows \<longleftrightarrow>
     distinct (map fst rows)
     \<and> (\<forall>(k, r) \<in> set rows. ar_identityKey r = k)
     \<and> fst ` set rows = {k. k \<noteq> [] \<and> (\<exists>e \<in> set es. m_identityKey (k_meta e) = Some k)}"

lemma artifact_step_ok:
  assumes "rows_ok es rows"
  shows "rows_ok (es @ [e]) (artifact_step rows e)"
proof (cases "m_identityKey (k_meta e)")
  case None
  then show ?thesis using assms by (simp add: artifact_step_def rows_ok_def)
next
  case (Some k)
  show ?thesis
  proof (cases "k = [] \<or> map_of rows k \<noteq> None
                 \<and> \<not> m_createdAt (k_meta e) \<ge> ar_createdAt (the (map_of rows k))")
    case True
    then have "artifact_step rows e = rows"
      using Some by (auto simp: artifact_step_def)
    moreover have "k = [] \<or> k \<in> fst ` set rows"
      using True by (metis map_of_eq_None_iff)
    ultimately show ?thesis
      using assms Some by (auto simp: rows_ok_def)
  next
    case False
    then obtain r where u: "artifact_step rows e = AList.update k r rows" "ar_identityKey r = k" "k \<noteq> []"
      using Some by (auto simp: artifact_step_def)
    then show ?thesis
      using assms Some set_update_subset [of k r rows]
      by (auto simp: rows_ok_def distinct_update keys_update)
  qed
qed

lemma rows_ok_Nil: "rows_ok [] []"
  by (simp add: rows_ok_def)

lemma rows_ok_foldl: "rows_ok es rows \<Longrightarrow> rows_ok (es @ es') (foldl artifact_step rows es')"
proof (induction es' arbitrary: es rows)
  case (Cons e es')
  from Cons.IH [OF artifact_step_ok [OF Cons.prems]] show ?case by simp
qed simp

lemma rag_listArtifacts_spec:
  shows "sorted (map ar_createdAt (rag_listArtifacts h))"
    and "distinct (map ar_identityKey (rag_listArtifacts h))"
    and "set (map ar_identityKey (rag_listArtifacts h))
           = {k. k \<noteq> [] \<and> (\<exists>e \<in> set (rag_source h). m_identityKey (k_meta e) = Some k)}"
proof -
  let ?rows = "foldl artifact_step [] (rag_source h)"
  have ok: "rows_ok (rag_source h) ?rows"
    using rows_ok_foldl [OF rows_ok_Nil, of "rag_source h"] by simp
  then have eq: "map ar_identityKey (map snd ?rows) = map fst ?rows"
    by (auto simp: rows_ok_def)
  show "sorted (map ar_createdAt (rag_listArtifacts h))"
    by (simp add: rag_listArtifacts_def)
  have m: "mset (map ar_identityKey (rag_listArtifacts h)) = mset (map fst ?rows)"
    by (simp add: rag_listArtifacts_def eq [symmetric] multiset.map_comp)
  show "distinct (map ar_identityKey (rag_listArtifacts h))"
    using ok mset_eq_imp_distinct_iff [OF m] by (simp add: rows_ok_def)
  show "set (map ar_identityKey (rag_listArtifacts h))
           = {k. k \<noteq> [] \<and> (\<exists>e \<in> set (rag_source h). m_identityKey (k_meta e) = Some k)}"
    using ok mset_eq_setD [OF m] by (simp add: rows_ok_def)
qed

end
