(* ===== verification/Artifacts.thy ===== *)
theory Artifacts
  imports Knowledge
begin

text \<open>
  Model of \<open>controller/artifacts.ts\<close>: content-hash identities of plan decisions and steps, the
  durable \<open>plan-decision\<close> and \<open>step-start\<close> artifacts, and the decision that owns a slot.  The hash
  itself (SHA-256) is the parameter \<open>H\<close>; what is modelled is the encoding that is fed to it.
\<close>

subsection \<open>Identities\<close>

text \<open>The text \<open>deterministicId\<close> hashes: every segment is preceded by its length and a blank.\<close>

fun id_payload :: "string list \<Rightarrow> string" where
  "id_payload [] = []"
| "id_payload (s # ss) = nat_str (length s) @ '' '' @ s @ id_payload ss"

definition deterministicId :: "(string \<Rightarrow> string) \<Rightarrow> string list \<Rightarrow> string" where
  "deterministicId H segments = H (id_payload segments)"

fun slot_segments :: "decision_key \<Rightarrow> string list" where
  "slot_segments (KCreate r) = [r, ''create'']"
| "slot_segments (KReplanAnchor r a) = [r, ''replan'', ''anchor'', a]"
| "slot_segments (KReplanTrigger r t) = [r, ''replan'', ''trigger'', t]"
| "slot_segments (KExpand r d off) = [r, ''expand'', d, int_str off]"
| "slot_segments (KPage r c pg tok) = [r, ''page'', c, int_str pg]"

definition decisionSlotId :: "(string \<Rightarrow> string) \<Rightarrow> decision_key \<Rightarrow> string" where
  "decisionSlotId H k = deterministicId H (slot_segments k)"

fun decision_segments :: "decision_key \<Rightarrow> string \<Rightarrow> string list" where
  "decision_segments (KCreate r) out = [r, ''create'', out]"
| "decision_segments (KReplanAnchor r a) out = [r, ''replan'', ''anchor'', a, out]"
| "decision_segments (KReplanTrigger r t) out = [r, ''replan'', ''trigger'', t, out]"
| "decision_segments (KExpand r d off) out = [r, ''expand'', d, int_str off, out]"
| "decision_segments (KPage r c pg tok) out = [r, ''page'', c, int_str pg, tok]"

definition decisionId :: "(string \<Rightarrow> string) \<Rightarrow> decision_key \<Rightarrow> string \<Rightarrow> string" where
  "decisionId H k plannerOutput = deterministicId H (decision_segments k plannerOutput)"

fun key_run :: "decision_key \<Rightarrow> string" where
  "key_run (KCreate r) = r"
| "key_run (KReplanAnchor r a) = r"
| "key_run (KReplanTrigger r t) = r"
| "key_run (KExpand r d off) = r"
| "key_run (KPage r c pg tok) = r"

fun key_kind :: "decision_key \<Rightarrow> string" where
  "key_kind (KCreate r) = ''create''"
| "key_kind (KReplanAnchor r a) = ''replan''"
| "key_kind (KReplanTrigger r t) = ''replan''"
| "key_kind (KExpand r d off) = ''expand''"
| "key_kind (KPage r c pg tok) = ''page''"

fun key_anchor :: "decision_key \<Rightarrow> string option" where
  "key_anchor (KReplanAnchor r a) = Some a"
| "key_anchor _ = None"

subsection \<open>Plan decisions\<close>

definition PLAN_DECISION_ARTIFACT :: string where
  "PLAN_DECISION_ARTIFACT = ''plan-decision''"

text \<open>\<open>keyOf\<close> fails loudly on a page decision without a token hash; the other shapes that it rejects
  are not values of \<open>plan_decision\<close>.\<close>

definition keyOf :: "plan_decision \<Rightarrow> decision_key option" where
  "keyOf d =
     (case d_key d of
        KPage r c pg tok \<Rightarrow> if tok = [] then None else Some (d_key d)
      | k \<Rightarrow> Some k)"

definition decision_entry ::
  "(string \<Rightarrow> string) \<Rightarrow> string \<Rightarrow> plan_decision \<Rightarrow> decision_key \<Rightarrow> string \<Rightarrow> int \<Rightarrow> int \<Rightarrow> kentry" where
  "decision_entry H sid d k plannerOutput now ord =
     \<lparr>k_content = CSteps (d_steps d),
      k_meta = (base_meta sid ''controller'' PLAN_DECISION_ARTIFACT now)
        \<lparr>m_runId := Some (key_run (d_key d)), m_kind := Some (key_kind (d_key d)),
         m_slotId := Some (decisionSlotId H k), m_decisionId := Some (decisionId H k plannerOutput),
         m_writeOrdinal := Some ord, m_supersedes := key_anchor (d_key d)\<rparr>\<rparr>"

definition writePlanDecision ::
  "(string \<Rightarrow> string) \<Rightarrow> kb \<Rightarrow> string \<Rightarrow> plan_decision \<Rightarrow> string \<Rightarrow> int \<Rightarrow> int \<Rightarrow> kb option" where
  "writePlanDecision H be sid d plannerOutput now ord =
     (case keyOf d of
        None \<Rightarrow> None
      | Some k \<Rightarrow> Some (kb_put be sid (decision_entry H sid d k plannerOutput now ord)))"

record plan_record =
  pr_runId :: string
  pr_kind :: string
  pr_decisionId :: "string option"
  pr_slotId :: "string option"
  pr_steps :: "step list"
  pr_writeOrdinal :: int
  pr_anchor :: "string option"

text \<open>A row whose content is not a decision makes \<open>JSON.parse\<close> (or the access to its steps) throw,
  so the whole read fails.\<close>

definition to_plan_record :: "string \<Rightarrow> kentry \<Rightarrow> plan_record option" where
  "to_plan_record runId e =
     (case k_content e of
        CSteps ss \<Rightarrow>
          Some \<lparr>pr_runId = runId, pr_kind = nullish (m_kind (k_meta e)) ''create'',
             pr_decisionId = m_decisionId (k_meta e), pr_slotId = m_slotId (k_meta e),
             pr_steps = ss, pr_writeOrdinal = nullish (m_writeOrdinal (k_meta e)) 0,
             pr_anchor = m_supersedes (k_meta e)\<rparr>
      | _ \<Rightarrow> None)"

fun traverse :: "('a \<Rightarrow> 'b option) \<Rightarrow> 'a list \<Rightarrow> 'b list option" where
  "traverse f [] = Some []"
| "traverse f (x # xs) =
     (case f x of None \<Rightarrow> None | Some y \<Rightarrow> map_option ((#) y) (traverse f xs))"

definition readPlanDecisions :: "rag_handle \<Rightarrow> string \<Rightarrow> plan_record list option" where
  "readPlanDecisions rag runId =
     traverse (to_plan_record runId) (rag_list rag (run_filter runId PLAN_DECISION_ARTIFACT))"

subsection \<open>Step-start claims\<close>

definition STEP_START_ARTIFACT :: string where
  "STEP_START_ARTIFACT = ''step-start''"

record claim =
  c_runId :: string
  c_slotId :: string
  c_stepId :: string
  c_seq :: int
  c_attempt :: int
  c_decisionId :: string
  c_writeOrdinal :: int

definition claim_entry :: "string \<Rightarrow> claim \<Rightarrow> int \<Rightarrow> int \<Rightarrow> kentry" where
  "claim_entry sid c now ord =
     \<lparr>k_content = CText [],
      k_meta = (base_meta sid ''controller'' STEP_START_ARTIFACT now)
        \<lparr>m_runId := Some (c_runId c), m_slotId := Some (c_slotId c), m_stepId := Some (c_stepId c),
         m_seq := Some (c_seq c), m_attempt := Some (c_attempt c),
         m_decisionId := Some (c_decisionId c), m_writeOrdinal := Some ord\<rparr>\<rparr>"

definition writeStepStartClaim :: "kb \<Rightarrow> string \<Rightarrow> claim \<Rightarrow> int \<Rightarrow> int \<Rightarrow> kb" where
  "writeStepStartClaim be sid c now ord = kb_put be sid (claim_entry sid c now ord)"

definition to_claim :: "string \<Rightarrow> kentry \<Rightarrow> claim list" where
  "to_claim runId e =
     (case m_writeOrdinal (k_meta e) of
        None \<Rightarrow> []
      | Some ord \<Rightarrow>
          [\<lparr>c_runId = runId, c_slotId = nullish (m_slotId (k_meta e)) [],
            c_stepId = nullish (m_stepId (k_meta e)) [], c_seq = nullish (m_seq (k_meta e)) 0,
            c_attempt = nullish (m_attempt (k_meta e)) 0,
            c_decisionId = nullish (m_decisionId (k_meta e)) [], c_writeOrdinal = ord\<rparr>])"

definition readClaims :: "rag_handle \<Rightarrow> string \<Rightarrow> claim list" where
  "readClaims rag runId =
     concat (map (to_claim runId) (rag_list rag (run_filter runId STEP_START_ARTIFACT)))"

definition decisionWinner :: "claim list \<Rightarrow> string \<Rightarrow> string option" where
  "decisionWinner claims slotId =
     (let forSlot = filter (\<lambda>c. c_slotId c = slotId) claims
      in if forSlot = [] then None
         else Some (c_decisionId (hd (sort_key c_writeOrdinal forSlot))))"

subsection \<open>Minting step identities\<close>

definition mintCreateStepIds :: "(string \<Rightarrow> string) \<Rightarrow> step list \<Rightarrow> string \<Rightarrow> step list" where
  "mintCreateStepIds H steps runId =
     map (\<lambda>(i, s). s\<lparr>s_stepId := Some (deterministicId H [runId, ''create'', nat_str i])\<rparr>)
       (List.enumerate 0 steps)"

definition mintReplanStepIds :: "(string \<Rightarrow> string) \<Rightarrow> step list \<Rightarrow> string \<Rightarrow> string \<Rightarrow> step list" where
  "mintReplanStepIds H steps runId anchor =
     map (\<lambda>(i, s).
        s\<lparr>s_stepId := Some (deterministicId H [runId, ''replan'', anchor, nat_str i]),
          s_supersedes := (if i = 0 then Some anchor else s_supersedes s)\<rparr>)
       (List.enumerate 0 steps)"

subsection \<open>The encoding is injective\<close>

lemma blank_not_digit: "CHR '' '' \<notin> set (digits n)"
  using digits_are_digits by fastforce

lemma digits_blank_eq:
  assumes "digits m @ '' '' @ s = digits n @ '' '' @ t"
  shows "m = n \<and> s = t"
proof -
  have t: "takeWhile (\<lambda>c. c \<noteq> CHR '' '') (digits k @ '' '' @ u) = digits k" for k u
    using blank_not_digit [of k] by (subst takeWhile_append2) auto
  have "digits m = digits n"
    using assms t [of m s] t [of n t] by simp
  with assms show ?thesis by (simp add: digits_inj)
qed

lemma id_payload_inj: "id_payload xs = id_payload ys \<longleftrightarrow> xs = ys"
proof (induction xs arbitrary: ys)
  case Nil
  then show ?case by (cases ys) auto
next
  case (Cons x xs)
  show ?case
  proof (cases ys)
    case (Cons y ys')
    have "id_payload (x # xs) = id_payload ys \<longleftrightarrow>
        length x = length y \<and> x @ id_payload xs = y @ id_payload ys'"
    proof
      assume "id_payload (x # xs) = id_payload ys"
      then have "digits (length x) @ '' '' @ (x @ id_payload xs)
          = digits (length y) @ '' '' @ (y @ id_payload ys')"
        by (simp add: Cons)
      then show "length x = length y \<and> x @ id_payload xs = y @ id_payload ys'"
        by (rule digits_blank_eq)
    qed (simp add: Cons)
    also have "\<dots> \<longleftrightarrow> x = y \<and> id_payload xs = id_payload ys'"
      by auto
    finally show ?thesis by (simp add: Cons Cons.IH)
  qed simp
qed

lemma int_str_inj: "int_str i = int_str j \<longleftrightarrow> i = j"
proof -
  have "CHR ''-'' \<notin> set (digits n)" for n
    using digits_are_digits by fastforce
  then have n: "digits m \<noteq> CHR ''-'' # s" for m s
    by (metis list.set_intros(1))
  show ?thesis
    using n n [symmetric] by (auto simp: int_str_def digits_inj)
qed

text \<open>What a slot identifies: the run, the kind and the place, not the content of the decision.\<close>

fun same_slot :: "decision_key \<Rightarrow> decision_key \<Rightarrow> bool" where
  "same_slot (KPage r c pg tok) (KPage r' c' pg' tok') \<longleftrightarrow> r = r' \<and> c = c' \<and> pg = pg'"
| "same_slot k k' \<longleftrightarrow> k = k'"

lemma slot_segments_eq_iff: "slot_segments k = slot_segments k' \<longleftrightarrow> same_slot k k'"
  by (cases k; cases k') (auto simp: int_str_inj)

lemma decision_segments_eq_iff:
  "decision_segments k out = decision_segments k' out' \<longleftrightarrow>
     k = k' \<and> (out = out' \<or> (\<exists>r c pg tok. k = KPage r c pg tok))"
  by (cases k; cases k') (auto simp: int_str_inj)

subsection \<open>The owner of a slot\<close>

lemma sort_key_hd_le: "x \<in> set xs \<Longrightarrow> f (hd (sort_key f xs)) \<le> f x"
  using sorted_sort_key [of f xs]
  by (cases "sort_key f xs") (auto simp flip: set_sort [of f xs])

lemma decisionWinner_None_iff: "decisionWinner cs sl = None \<longleftrightarrow> (\<forall>c \<in> set cs. c_slotId c \<noteq> sl)"
  by (auto simp: decisionWinner_def Let_def filter_empty_conv)

lemma decisionWinner_Some:
  assumes "decisionWinner cs sl = Some d"
  shows "\<exists>c \<in> set cs. c_slotId c = sl \<and> c_decisionId c = d
            \<and> (\<forall>c' \<in> set cs. c_slotId c' = sl \<longrightarrow> c_writeOrdinal c \<le> c_writeOrdinal c')"
proof -
  let ?fs = "filter (\<lambda>c. c_slotId c = sl) cs"
  let ?h = "hd (sort_key c_writeOrdinal ?fs)"
  have ne: "?fs \<noteq> []" and d: "d = c_decisionId ?h"
    using assms by (auto simp: decisionWinner_def Let_def split: if_splits)
  have "sort_key c_writeOrdinal ?fs \<noteq> []"
    using ne by (metis set_empty set_sort)
  then have "?h \<in> set ?fs"
    by (metis hd_in_set set_sort)
  moreover have "c_writeOrdinal ?h \<le> c_writeOrdinal c'" if "c' \<in> set cs" "c_slotId c' = sl" for c'
    using that by (intro sort_key_hd_le) simp
  ultimately show ?thesis
    using d by auto
qed

text \<open>A claim with a higher ordinal, which is the only kind the controller appends, never moves the
  ownership of a slot.\<close>

lemma decisionWinner_stable:
  assumes "decisionWinner cs sl = Some d" "\<forall>c' \<in> set cs. c_writeOrdinal c' < c_writeOrdinal c"
  shows "decisionWinner (cs @ [c]) sl = Some d"
proof (cases "c_slotId c = sl")
  case True
  let ?fs = "filter (\<lambda>c. c_slotId c = sl) cs"
  have ne: "?fs \<noteq> []"
    using assms(1) by (auto simp: decisionWinner_def Let_def split: if_splits)
  have "sort_key c_writeOrdinal (?fs @ [c]) = sort_key c_writeOrdinal ?fs @ [c]"
    using assms(2) by (intro sort_key_snoc_max) (auto intro: less_imp_le)
  moreover have "sort_key c_writeOrdinal ?fs \<noteq> []"
    using ne by (metis set_empty set_sort)
  ultimately show ?thesis
    using assms(1) ne True by (simp add: decisionWinner_def Let_def)
qed (use assms in \<open>simp add: decisionWinner_def Let_def\<close>)

lemma decisionWinner_perm:
  assumes "mset cs = mset cs'" "distinct (map c_writeOrdinal cs)"
  shows "decisionWinner cs sl = decisionWinner cs' sl"
proof -
  let ?f = "filter (\<lambda>c. c_slotId c = sl)"
  have m: "mset (?f cs) = mset (?f cs')"
    using assms(1) by simp
  have d: "distinct (map c_writeOrdinal (?f cs))"
    using assms(2) by (simp add: distinct_map_filter)
  have "?f cs = [] \<longleftrightarrow> ?f cs' = []"
    using m by (metis mset_zero_iff)
  with sort_key_unique [OF m d] show ?thesis
    by (simp add: decisionWinner_def Let_def)
qed

subsection \<open>Minted identities\<close>

lemma length_mintCreateStepIds [simp]: "length (mintCreateStepIds H ss r) = length ss"
  by (simp add: mintCreateStepIds_def)

lemma length_mintReplanStepIds [simp]: "length (mintReplanStepIds H ss r a) = length ss"
  by (simp add: mintReplanStepIds_def)

lemma mintCreateStepIds_nth:
  "i < length ss \<Longrightarrow> mintCreateStepIds H ss r ! i =
     (ss ! i)\<lparr>s_stepId := Some (deterministicId H [r, ''create'', nat_str i])\<rparr>"
  by (simp add: mintCreateStepIds_def nth_enumerate_eq)

lemma mintReplanStepIds_nth:
  "i < length ss \<Longrightarrow> mintReplanStepIds H ss r a ! i =
     (ss ! i)\<lparr>s_stepId := Some (deterministicId H [r, ''replan'', a, nat_str i]),
        s_supersedes := (if i = 0 then Some a else s_supersedes (ss ! i))\<rparr>"
  by (simp add: mintReplanStepIds_def nth_enumerate_eq)

text \<open>The hash has no collision on the segment lists of a set: the property of SHA-256 the code
  relies on, asked only of the payloads at hand.\<close>

definition collision_free :: "(string \<Rightarrow> string) \<Rightarrow> string list set \<Rightarrow> bool" where
  "collision_free H S \<longleftrightarrow> inj_on H (id_payload ` S)"

definition create_ids :: "string \<Rightarrow> nat \<Rightarrow> string list set" where
  "create_ids r n = (\<lambda>i. [r, ''create'', nat_str i]) ` {..<n}"

definition replan_ids :: "string \<Rightarrow> string \<Rightarrow> nat \<Rightarrow> string list set" where
  "replan_ids r a n = (\<lambda>i. [r, ''replan'', a, nat_str i]) ` {..<n}"

lemma deterministicId_eq_iff:
  assumes "collision_free H S" "xs \<in> S" "ys \<in> S"
  shows "deterministicId H xs = deterministicId H ys \<longleftrightarrow> xs = ys"
  using assms inj_on_eq_iff [of H "id_payload ` S" "id_payload xs" "id_payload ys"]
  by (simp add: deterministicId_def collision_free_def id_payload_inj)

lemma mintCreateStepIds_ids:
  "map s_stepId (mintCreateStepIds H ss r) =
     map (\<lambda>i. Some (deterministicId H [r, ''create'', nat_str i])) [0..<length ss]"
  by (rule nth_equalityI) (simp_all add: mintCreateStepIds_nth)

lemma mintReplanStepIds_ids:
  "map s_stepId (mintReplanStepIds H ss r a) =
     map (\<lambda>i. Some (deterministicId H [r, ''replan'', a, nat_str i])) [0..<length ss]"
  by (rule nth_equalityI) (simp_all add: mintReplanStepIds_nth)

lemma mintCreateStepIds_distinct:
  assumes "collision_free H (create_ids r (length ss))"
  shows "distinct (map s_stepId (mintCreateStepIds H ss r))"
  using deterministicId_eq_iff [OF assms]
  by (simp add: mintCreateStepIds_ids distinct_map inj_on_def create_ids_def digits_inj)

lemma mintReplanStepIds_distinct:
  assumes "collision_free H (replan_ids r a (length ss))"
  shows "distinct (map s_stepId (mintReplanStepIds H ss r a))"
  using deterministicId_eq_iff [OF assms]
  by (simp add: mintReplanStepIds_ids distinct_map inj_on_def replan_ids_def digits_inj)

lemma mint_disjoint:
  assumes "collision_free H (create_ids r (length ss) \<union> replan_ids r' a (length ts))"
  shows "set (map s_stepId (mintCreateStepIds H ss r)) \<inter> set (map s_stepId (mintReplanStepIds H ts r' a)) = {}"
  unfolding mintCreateStepIds_ids mintReplanStepIds_ids
  using deterministicId_eq_iff [OF assms]
  by (fastforce simp: create_ids_def replan_ids_def)

subsection \<open>Reading what was written\<close>

lemma concat_map_snoc: "concat (map f (xs @ [x])) = concat (map f xs) @ f x"
  by simp

definition clock_ok :: "rag_handle \<Rightarrow> int \<Rightarrow> bool" where
  "clock_ok h now \<longleftrightarrow> (\<forall>x \<in> set (rag_source h). m_createdAt (k_meta x) \<le> now)"

lemma readClaims_after_write:
  assumes "rag_ok h" "clock_ok h now" "c_runId c = r"
  shows "readClaims (rag_write h (claim_entry (h_sid h) c now ord)) r
           = readClaims h r @ [c\<lparr>c_writeOrdinal := ord\<rparr>]"
  using assms
  by (simp add: readClaims_def rag_list_write clock_ok_def claim_entry_def kmatches_run_filter
        to_claim_def)

lemma traverse_snoc:
  "traverse f (xs @ [x]) =
     (case traverse f xs of None \<Rightarrow> None
      | Some ys \<Rightarrow> map_option (\<lambda>y. ys @ [y]) (f x))"
  by (induction xs) (auto split: option.splits simp: option.map_comp comp_def)

lemma readPlanDecisions_after_write:
  assumes "rag_ok h" "clock_ok h now" "key_run (d_key d) = r" "keyOf d = Some k"
    "readPlanDecisions h r = Some ds"
  shows "readPlanDecisions (rag_write h (decision_entry H (h_sid h) d k out now ord)) r
           = Some (ds @ [\<lparr>pr_runId = r, pr_kind = key_kind (d_key d),
                pr_decisionId = Some (decisionId H k out), pr_slotId = Some (decisionSlotId H k),
                pr_steps = d_steps d, pr_writeOrdinal = ord, pr_anchor = key_anchor (d_key d)\<rparr>])"
  using assms
  by (simp add: readPlanDecisions_def rag_list_write clock_ok_def decision_entry_def
        kmatches_run_filter to_plan_record_def traverse_snoc)

subsection \<open>Properties\<close>

text \<open>Without a collision of the hash, the identity of a slot stands for the run, the kind and the
  place of a decision and for nothing else, and the identity of a decision for its key and the planner's
  output: the length-prefixed payload never confuses two lists of segments.\<close>

theorem decision_identities_are_faithful:
  assumes "collision_free H {slot_segments k, slot_segments k', decision_segments k out, decision_segments k' out'}"
  shows "(decisionSlotId H k = decisionSlotId H k' \<longleftrightarrow> same_slot k k')
     \<and> (decisionId H k out = decisionId H k' out' \<longleftrightarrow>
          k = k' \<and> (out = out' \<or> (\<exists>r c pg tok. k = KPage r c pg tok)))"
  using deterministicId_eq_iff [OF assms]
  by (simp add: decisionSlotId_def decisionId_def slot_segments_eq_iff decision_segments_eq_iff)

theorem decision_identities_are_faithful_witness:
  "decisionSlotId (\<lambda>s. s) (KReplanAnchor ''r'' ''a'') \<noteq> decisionSlotId (\<lambda>s. s) (KReplanTrigger ''r'' ''a'')"
proof -
  have "collision_free (\<lambda>s. s) S" for S by (simp add: collision_free_def)
  from decision_identities_are_faithful [OF this, of "KReplanAnchor ''r'' ''a''" "KReplanTrigger ''r'' ''a''"]
  show ?thesis by simp
qed

text \<open>The winner of a slot is the decision of the earliest claim, it does not depend on the order the
  claims are read in, and no later claim takes the slot over.\<close>

theorem slot_winner_is_stable:
  assumes "decisionWinner cs sl = Some d" "distinct (map c_writeOrdinal cs)"
    "\<forall>x \<in> set cs. c_writeOrdinal x < c_writeOrdinal c" "mset cs' = mset (cs @ [c])"
  shows "decisionWinner cs' sl = Some d
     \<and> (\<exists>w \<in> set cs. c_slotId w = sl \<and> c_decisionId w = d
          \<and> (\<forall>x \<in> set cs'. c_slotId x = sl \<longrightarrow> c_writeOrdinal w \<le> c_writeOrdinal x))"
proof -
  have dist: "distinct (map c_writeOrdinal (cs @ [c]))"
    using assms(2,3) by fastforce
  have "decisionWinner cs' sl = decisionWinner (cs @ [c]) sl"
    using decisionWinner_perm [OF assms(4) [symmetric] dist] by simp
  moreover have "decisionWinner (cs @ [c]) sl = Some d"
    using assms(1,3) by (rule decisionWinner_stable)
  moreover have "set cs' = set (cs @ [c])"
    using mset_eq_setD [OF assms(4)] .
  ultimately show ?thesis
    using decisionWinner_Some [OF assms(1)] assms(3) by (auto intro: less_imp_le)
qed

definition sample_claim :: "string \<Rightarrow> int \<Rightarrow> claim" where
  "sample_claim d n = \<lparr>c_runId = ''r'', c_slotId = ''s'', c_stepId = ''i'', c_seq = 0, c_attempt = 0,
     c_decisionId = d, c_writeOrdinal = n\<rparr>"

theorem slot_winner_is_stable_witness:
  "decisionWinner [sample_claim ''late'' 5, sample_claim ''first'' 1, sample_claim ''second'' 2] ''s'' = Some ''first''"
proof -
  have "decisionWinner [sample_claim ''first'' 1, sample_claim ''second'' 2] ''s'' = Some ''first''"
    by code_simp
  from slot_winner_is_stable [OF this, of "sample_claim ''late'' 5"
      "[sample_claim ''late'' 5, sample_claim ''first'' 1, sample_claim ''second'' 2]"]
  show ?thesis by (simp add: sample_claim_def)
qed

text \<open>The identities minted for a plan and for a replacement tail are pairwise distinct and never meet,
  if the hash does not collide on their payloads.\<close>

theorem minted_identities_are_fresh:
  assumes "collision_free H (create_ids r (length ss) \<union> replan_ids r' a (length ts))"
  shows "distinct (map s_stepId (mintCreateStepIds H ss r @ mintReplanStepIds H ts r' a))"
proof -
  have sub: "collision_free H S" if "S \<subseteq> create_ids r (length ss) \<union> replan_ids r' a (length ts)" for S
    using assms that unfolding collision_free_def by (meson image_mono inj_on_subset)
  have "distinct (map s_stepId (mintCreateStepIds H ss r))" "distinct (map s_stepId (mintReplanStepIds H ts r' a))"
    by (rule mintCreateStepIds_distinct, rule sub, simp) (rule mintReplanStepIds_distinct, rule sub, simp)
  with mint_disjoint [OF assms] show ?thesis by simp
qed

theorem minted_identities_are_fresh_witness:
  "distinct (map s_stepId (mintCreateStepIds (\<lambda>s. s) [mk_step ''a'' [], mk_step ''b'' []] ''r''
      @ mintReplanStepIds (\<lambda>s. s) [mk_step ''c'' []] ''r'' ''x''))"
  by (rule minted_identities_are_fresh) (simp add: collision_free_def)

end
