(* ===== verification/RunScope.thy ===== *)
theory RunScope
  imports Knowledge
begin

text \<open>
  Model of \<open>controller/run-scope.ts\<close>: the identity of a request, the terminal store with its time to
  live, and the strict classification of an incoming request.  The hash is the parameter \<open>H\<close>.
\<close>

subsection \<open>Identity of a request\<close>

text \<open>\<open>.replace(/\s+/g, ' ')\<close>: every maximal run of white space becomes one blank.\<close>

fun collapse :: "bool \<Rightarrow> string \<Rightarrow> string" where
  "collapse inRun [] = []"
| "collapse inRun (c # s) =
     (if is_space c then (if inRun then collapse True s else CHR '' '' # collapse True s)
      else c # collapse False s)"

definition normalizeRequest :: "string \<Rightarrow> string" where
  "normalizeRequest request = collapse False (trim request)"

definition fingerprintRequest :: "(string \<Rightarrow> string) \<Rightarrow> string \<Rightarrow> string" where
  "fingerprintRequest H request = H (normalizeRequest request)"

subsection \<open>The terminal store\<close>

definition TERMINAL_ARTIFACT_TYPE :: string where
  "TERMINAL_ARTIFACT_TYPE = ''controller-terminal''"

definition terminal_row :: "string \<Rightarrow> string \<Rightarrow> terminal_outcome \<Rightarrow> int \<Rightarrow> int \<Rightarrow> kentry" where
  "terminal_row sid runId out ttlMs now =
     \<lparr>k_content = CTerminal \<lparr>t_runId = runId, t_outcome = out, t_expiresAt = now + ttlMs\<rparr>,
      k_meta = (base_meta sid ''terminal'' TERMINAL_ARTIFACT_TYPE now)\<lparr>m_runId := Some runId\<rparr>\<rparr>"

definition writeTerminal ::
  "('b \<Rightarrow> string \<Rightarrow> kentry \<Rightarrow> 'b) \<Rightarrow> 'b \<Rightarrow> string \<Rightarrow> string \<Rightarrow> terminal_outcome \<Rightarrow> int \<Rightarrow> int \<Rightarrow> 'b" where
  "writeTerminal put be sid runId out ttlMs now = put be sid (terminal_row sid runId out ttlMs now)"

text \<open>The backward scan, on the reversed rows.\<close>

fun read_terminal_loop :: "string \<Rightarrow> int \<Rightarrow> kentry list \<Rightarrow> terminal_outcome option" where
  "read_terminal_loop runId now [] = None"
| "read_terminal_loop runId now (e # es) =
     (if m_artifactType (k_meta e) \<noteq> TERMINAL_ARTIFACT_TYPE then read_terminal_loop runId now es
      else if m_runId (k_meta e) \<noteq> Some runId then read_terminal_loop runId now es
      else (case k_content e of
              CTerminal p \<Rightarrow> if t_expiresAt p \<le> now then None else Some (t_outcome p)
            | _ \<Rightarrow> read_terminal_loop runId now es))"

definition readTerminal :: "kentry list \<Rightarrow> string \<Rightarrow> int \<Rightarrow> terminal_outcome option" where
  "readTerminal entries runId now = read_terminal_loop runId now (rev entries)"

definition gcTerminal :: "kentry list \<Rightarrow> int \<Rightarrow> string list" where
  "gcTerminal entries now =
     concat (map (\<lambda>e.
        if m_artifactType (k_meta e) \<noteq> TERMINAL_ARTIFACT_TYPE then []
        else (case k_content e of
                CTerminal p \<Rightarrow> if t_expiresAt p \<le> now then [t_runId p] else []
              | _ \<Rightarrow> [])) entries)"

subsection \<open>Classification\<close>

datatype classification = Fresh | Resume | Replay string | NotFound

record classify_input =
  ci_bundle :: session_bundle
  ci_request :: string
  ci_explicitKey :: "string option"
  ci_newRun :: bool
  ci_terminalExists :: bool

definition live_state :: "session_bundle \<Rightarrow> bool" where
  "live_state b \<longleftrightarrow> b_runState b = Some Active \<or> b_runState b = Some Suspended"

definition same_request :: "(string \<Rightarrow> string) \<Rightarrow> session_bundle \<Rightarrow> string \<Rightarrow> bool" where
  "same_request H b req =
     (case b_originalRequest b of
        None \<Rightarrow> False
      | Some o0 \<Rightarrow> fingerprintRequest H o0 = fingerprintRequest H req)"

definition classifyRequest :: "(string \<Rightarrow> string) \<Rightarrow> classify_input \<Rightarrow> classification" where
  "classifyRequest H ci =
     (if ci_newRun ci then Fresh
      else if truthy (ci_explicitKey ci) then
        (if ci_terminalExists ci then Replay (the (ci_explicitKey ci))
         else if ci_explicitKey ci = b_runId (ci_bundle ci) \<and> live_state (ci_bundle ci) then Resume
         else NotFound)
      else if live_state (ci_bundle ci) \<and> same_request H (ci_bundle ci) (ci_request ci) then Resume
      else Fresh)"

subsection \<open>Normalisation\<close>

lemma collapse_no_double:
  "collapse r s = us @ c # d # vs \<Longrightarrow> \<not> (is_space c \<and> is_space d)"
proof -
  have "successively (\<lambda>c d. \<not> (is_space c \<and> is_space d)) (collapse r s)
        \<and> (r \<longrightarrow> (case collapse r s of [] \<Rightarrow> True | c # _ \<Rightarrow> \<not> is_space c))"
    by (induction r s rule: collapse.induct)
      (auto simp: successively_Cons is_space_def split: list.splits)
  then show "collapse r s = us @ c # d # vs \<Longrightarrow> \<not> (is_space c \<and> is_space d)"
    by (simp add: successively_append_iff successively_Cons)
qed

lemma collapse_append_space:
  "is_space c \<Longrightarrow> is_space d \<Longrightarrow> collapse r (s @ c # d # t) = collapse r (s @ c # t)"
  by (induction r s rule: collapse.induct) auto

subsection \<open>The terminal store behaves like a map with expiry\<close>

lemma readTerminal_snoc:
  "readTerminal (es @ [e]) runId now =
     (if m_artifactType (k_meta e) = TERMINAL_ARTIFACT_TYPE \<and> m_runId (k_meta e) = Some runId
         \<and> (\<exists>p. k_content e = CTerminal p)
      then (case k_content e of
              CTerminal p \<Rightarrow> if t_expiresAt p \<le> now then None else Some (t_outcome p) | _ \<Rightarrow> None)
      else readTerminal es runId now)"
  by (auto simp: readTerminal_def split: content.splits)

text \<open>Rows that do not decide the terminal outcome of \<open>runId\<close>.\<close>

definition terminal_neutral :: "string \<Rightarrow> kentry \<Rightarrow> bool" where
  "terminal_neutral runId e \<longleftrightarrow>
     m_artifactType (k_meta e) \<noteq> TERMINAL_ARTIFACT_TYPE \<or> m_runId (k_meta e) \<noteq> Some runId"

lemma readTerminal_neutral:
  "\<forall>e \<in> set es'. terminal_neutral runId e \<Longrightarrow> readTerminal (es @ es') runId now = readTerminal es runId now"
proof (induction es' rule: rev_induct)
  case (snoc e es')
  then show ?case
    using readTerminal_snoc [of "es @ es'" e runId now] by (auto simp: terminal_neutral_def)
qed simp

context knowledge_backend
begin

lemma readTerminal_writeTerminal:
  "readTerminal (scan (writeTerminal put be sid runId out ttl now) sid) runId' now' =
     (if runId' = runId then (if now + ttl \<le> now' then None else Some out)
      else readTerminal (scan be sid) runId' now')"
  by (simp add: writeTerminal_def scan_put_same readTerminal_snoc terminal_row_def)

lemma readTerminal_other_session:
  "sid \<noteq> sid' \<Longrightarrow> readTerminal (scan (writeTerminal put be sid runId out ttl now) sid') r t
     = readTerminal (scan be sid') r t"
  by (simp add: writeTerminal_def scan_put_other)

text \<open>A recorded outcome survives everything else the controller appends, until it expires.\<close>

lemma readTerminal_durable:
  assumes "\<forall>e \<in> set es. terminal_neutral runId e" "now' < now + ttl"
  shows "readTerminal (scan (foldl (\<lambda>b e. put b sid e) (writeTerminal put be sid runId out ttl now) es) sid)
           runId now' = Some out"
  using assms by (simp add: scan_puts readTerminal_neutral readTerminal_writeTerminal)

end

lemma readTerminal_Some_row:
  "readTerminal es runId now = Some out \<Longrightarrow>
     \<exists>e p. e \<in> set es \<and> k_content e = CTerminal p \<and> t_outcome p = out \<and> now < t_expiresAt p
          \<and> m_runId (k_meta e) = Some runId"
proof (induction es rule: rev_induct)
  case (snoc e es)
  then show ?case
    by (fastforce simp: readTerminal_snoc split: if_splits content.splits)
qed (simp add: readTerminal_def)

lemma gcTerminal_iff:
  "r \<in> set (gcTerminal es now) \<longleftrightarrow>
     (\<exists>e \<in> set es. m_artifactType (k_meta e) = TERMINAL_ARTIFACT_TYPE
        \<and> (\<exists>p. k_content e = CTerminal p \<and> t_runId p = r \<and> t_expiresAt p \<le> now))"
proof -
  have "r \<in> set (gcTerminal es now) \<longleftrightarrow> (\<exists>e \<in> set es. r \<in> set
       (if m_artifactType (k_meta e) \<noteq> TERMINAL_ARTIFACT_TYPE then []
        else (case k_content e of
                CTerminal p \<Rightarrow> if t_expiresAt p \<le> now then [t_runId p] else []
              | _ \<Rightarrow> [])))"
    by (simp only: gcTerminal_def set_concat set_map image_image UN_iff)
  also have "\<dots> \<longleftrightarrow> (\<exists>e \<in> set es. m_artifactType (k_meta e) = TERMINAL_ARTIFACT_TYPE
        \<and> (\<exists>p. k_content e = CTerminal p \<and> t_runId p = r \<and> t_expiresAt p \<le> now))"
  proof (rule bex_cong [OF refl])
    fix e
    show "r \<in> set (if m_artifactType (k_meta e) \<noteq> TERMINAL_ARTIFACT_TYPE then []
        else (case k_content e of
                CTerminal p \<Rightarrow> if t_expiresAt p \<le> now then [t_runId p] else []
              | _ \<Rightarrow> [])) \<longleftrightarrow> m_artifactType (k_meta e) = TERMINAL_ARTIFACT_TYPE
        \<and> (\<exists>p. k_content e = CTerminal p \<and> t_runId p = r \<and> t_expiresAt p \<le> now)"
      by (cases "k_content e") auto
  qed
  finally show ?thesis .
qed

subsection \<open>Classification is strict\<close>

lemma classify_key_never_fingerprint:
  "truthy (ci_explicitKey ci) \<Longrightarrow> \<not> ci_newRun ci \<Longrightarrow> classifyRequest H ci \<noteq> Fresh"
  by (simp add: classifyRequest_def)

lemma classify_resume_iff:
  "classifyRequest H ci = Resume \<longleftrightarrow>
     \<not> ci_newRun ci \<and> live_state (ci_bundle ci)
     \<and> (if truthy (ci_explicitKey ci)
        then ci_explicitKey ci = b_runId (ci_bundle ci) \<and> \<not> ci_terminalExists ci
        else same_request H (ci_bundle ci) (ci_request ci))"
  by (auto simp: classifyRequest_def)

lemma classify_replay_iff:
  "classifyRequest H ci = Replay r \<longleftrightarrow>
     \<not> ci_newRun ci \<and> ci_explicitKey ci = Some r \<and> r \<noteq> [] \<and> ci_terminalExists ci"
  by (cases "ci_explicitKey ci") (auto simp: classifyRequest_def)

subsection \<open>Properties\<close>

text \<open>A recorded terminal outcome is what a read returns until it expires, whatever the session appends
  after it for other purposes, and a write under another session changes nothing here.\<close>

theorem terminal_outcome_is_durable:
  assumes "\<forall>e \<in> set es. terminal_neutral runId e" "now' < now + ttl" "sid' \<noteq> sid"
  shows "readTerminal (kb_scan (foldl (\<lambda>b e. kb_put b sid e) (writeTerminal kb_put be sid runId out ttl now) es) sid)
           runId now' = Some out
     \<and> readTerminal (kb_scan (writeTerminal kb_put be sid runId out ttl now) sid') r t
         = readTerminal (kb_scan be sid') r t"
  using kb.readTerminal_durable [OF assms(1,2)] kb.readTerminal_other_session [OF assms(3) [symmetric]] by simp

theorem terminal_outcome_is_durable_witness:
  "readTerminal (kb_scan (foldl (\<lambda>b e. kb_put b ''s'' e)
       (writeTerminal kb_put [] ''s'' ''r'' (TSuccess ''42'') 100 5) [terminal_row ''s'' ''q'' (TError ''x'') 100 6]) ''s'')
     ''r'' 104 = Some (TSuccess ''42'')"
  using terminal_outcome_is_durable [of "[terminal_row ''s'' ''q'' (TError ''x'') 100 6]" "''r''" 104 5 100 "''t''" "''s''" "[]"
      "TSuccess ''42''" "[]" 0]
  by (simp add: terminal_neutral_def terminal_row_def)

text \<open>Classification is strict: a new-run flag always starts afresh; an explicit key never falls back to
  a fresh run or to the fingerprint; and a run is resumed only if it is live and the request names it, by
  its key with no recorded outcome or, without a key, by the fingerprint of its original request.\<close>

theorem classification_is_strict:
  "(ci_newRun ci \<longrightarrow> classifyRequest H ci = Fresh)
   \<and> (truthy (ci_explicitKey ci) \<and> \<not> ci_newRun ci \<longrightarrow> classifyRequest H ci \<noteq> Fresh)
   \<and> (classifyRequest H ci = Resume \<longleftrightarrow>
        \<not> ci_newRun ci \<and> live_state (ci_bundle ci)
        \<and> (if truthy (ci_explicitKey ci)
           then ci_explicitKey ci = b_runId (ci_bundle ci) \<and> \<not> ci_terminalExists ci
           else same_request H (ci_bundle ci) (ci_request ci)))
   \<and> (classifyRequest H ci = Replay r \<longleftrightarrow>
        \<not> ci_newRun ci \<and> ci_explicitKey ci = Some r \<and> r \<noteq> [] \<and> ci_terminalExists ci)"
  using classify_key_never_fingerprint [of ci H] classify_resume_iff [of H ci] classify_replay_iff [of H ci r]
  by (auto simp: classifyRequest_def)

definition sample_classify :: "session_bundle \<Rightarrow> classify_input" where
  "sample_classify b = \<lparr>ci_bundle = b, ci_request = ''do it'', ci_explicitKey = Some ''k'', ci_newRun = False,
     ci_terminalExists = True\<rparr>"

theorem classification_is_strict_witness:
  "\<forall>b. classifyRequest (\<lambda>s. s) (sample_classify b) = Replay ''k''"
  using classification_is_strict [of "sample_classify b" "\<lambda>s. s" "''k''" for b]
  by (simp add: sample_classify_def)

end
