(* ===== verification/SessionBundle.thy ===== *)
theory SessionBundle
  imports Knowledge RunScope
begin

text \<open>
  Model of \<open>controller/session-bundle.ts\<close>: persisting and hydrating the session bundle, settling a
  step in one write, and the reset at the start of a run; with the contract \<open>planner_commit\<close> that
  \<open>settleStep\<close> asks of the planner it calls back.
\<close>

definition BUNDLE_ARTIFACT_TYPE :: string where
  "BUNDLE_ARTIFACT_TYPE = ''controller-bundle''"

definition emptyBundle :: session_bundle where
  "emptyBundle = \<lparr>b_goal = [], b_plannerPrivate = [],
     b_budgets = \<lparr>u_stepsUsed = 0, u_rewindsUsed = 0, u_waitMsUsed = None\<rparr>,
     b_plan = None, b_planCursor = None, b_pendingDecisions = None, b_pending = None,
     b_lastOutcome = None, b_runId = None, b_runState = None, b_runPhase = None,
     b_originalRequest = None, b_nextSeq = None, b_inFlight = None, b_evalCallInFlight = False,
     b_plannerCallInFlight = False, b_finalizeCallInFlight = False, b_evalResumeCount = None,
     b_plannerResumeCount = None, b_finalizeAttempt = None, b_legacyFinalAnswer = None,
     b_writeOrdinal = None\<rparr>"

definition bundle_row :: "string \<Rightarrow> session_bundle \<Rightarrow> int \<Rightarrow> kentry" where
  "bundle_row sid b now =
     \<lparr>k_content = CBundle b, k_meta = base_meta sid ''session-bundle'' BUNDLE_ARTIFACT_TYPE now\<rparr>"

definition persistBundle ::
  "('b \<Rightarrow> string \<Rightarrow> kentry \<Rightarrow> 'b) \<Rightarrow> 'b \<Rightarrow> string \<Rightarrow> session_bundle \<Rightarrow> int \<Rightarrow> 'b" where
  "persistBundle put be sid b now = put be sid (bundle_row sid b now)"

fun hydrate_loop :: "kentry list \<Rightarrow> session_bundle" where
  "hydrate_loop [] = emptyBundle"
| "hydrate_loop (e # es) =
     (if m_artifactType (k_meta e) \<noteq> BUNDLE_ARTIFACT_TYPE then hydrate_loop es
      else (case k_content e of CBundle b \<Rightarrow> b | _ \<Rightarrow> hydrate_loop es))"

definition hydrateBundle :: "kentry list \<Rightarrow> session_bundle" where
  "hydrateBundle entries = hydrate_loop (rev entries)"

text \<open>The state change of \<open>settleStep\<close> before its single write.\<close>

definition settle_bundle ::
  "(session_bundle \<Rightarrow> step_outcome \<Rightarrow> session_bundle) option \<Rightarrow> session_bundle \<Rightarrow> step_outcome \<Rightarrow> session_bundle" where
  "settle_bundle onCommit b outcome =
     (let b1 = b\<lparr>b_lastOutcome := Some outcome\<rparr>;
          b2 = (case onCommit of None \<Rightarrow> b1 | Some f \<Rightarrow> f b1 outcome)
      in if outcome = Advanced \<or> outcome = PartialOutcome then
           b2\<lparr>b_nextSeq := Some (nullish (b_nextSeq b2) 0 + 1), b_inFlight := None,
              b_runPhase := Some Planning\<rparr>
         else
           b2\<lparr>b_inFlight := map_option (\<lambda>f. f\<lparr>i_phase := PhAwaitingReplan\<rparr>) (b_inFlight b2),
              b_runPhase := Some ExecutingPhase\<rparr>)"

definition settleStep ::
  "('b \<Rightarrow> string \<Rightarrow> kentry \<Rightarrow> 'b) \<Rightarrow> 'b \<Rightarrow> string \<Rightarrow> session_bundle \<Rightarrow> step_outcome \<Rightarrow>
   (session_bundle \<Rightarrow> step_outcome \<Rightarrow> session_bundle) option \<Rightarrow> int \<Rightarrow> 'b \<times> session_bundle \<times> step_outcome" where
  "settleStep put be sid b outcome onCommit now =
     (let b' = settle_bundle onCommit b outcome
      in (persistBundle put be sid b' now, b', outcome))"

definition resetRun :: "session_bundle \<Rightarrow> string \<Rightarrow> session_bundle" where
  "resetRun b originalRequest = b
     \<lparr>b_goal := [], b_plannerPrivate := [],
      b_budgets := \<lparr>u_stepsUsed = 0, u_rewindsUsed = 0, u_waitMsUsed = None\<rparr>,
      b_plan := None, b_planCursor := None, b_pendingDecisions := None, b_pending := None,
      b_lastOutcome := None, b_runState := Some Active, b_runPhase := Some Evaluating,
      b_originalRequest := Some originalRequest, b_nextSeq := Some 0, b_inFlight := None,
      b_evalCallInFlight := False, b_plannerCallInFlight := False, b_finalizeCallInFlight := False,
      b_evalResumeCount := Some 0, b_plannerResumeCount := Some 0, b_finalizeAttempt := Some 0,
      b_legacyFinalAnswer := None, b_writeOrdinal := Some 0\<rparr>"

subsection \<open>The latest bundle wins\<close>

lemma hydrateBundle_Nil [simp]: "hydrateBundle [] = emptyBundle"
  by (simp add: hydrateBundle_def)

lemma hydrateBundle_snoc:
  "hydrateBundle (es @ [e]) =
     (if m_artifactType (k_meta e) = BUNDLE_ARTIFACT_TYPE
      then (case k_content e of CBundle b \<Rightarrow> b | _ \<Rightarrow> hydrateBundle es) else hydrateBundle es)"
  by (simp add: hydrateBundle_def split: content.splits)

lemma hydrateBundle_other_rows:
  "\<forall>e \<in> set es'. m_artifactType (k_meta e) \<noteq> BUNDLE_ARTIFACT_TYPE \<Longrightarrow>
     hydrateBundle (es @ es') = hydrateBundle es"
proof (induction es' rule: rev_induct)
  case (snoc e es')
  then show ?case using hydrateBundle_snoc [of "es @ es'" e] by simp
qed simp

lemma bundle_row_neutral [simp]: "terminal_neutral r (bundle_row sid b now)"
  by (simp add: terminal_neutral_def bundle_row_def BUNDLE_ARTIFACT_TYPE_def TERMINAL_ARTIFACT_TYPE_def)

lemma terminal_row_not_bundle [simp]:
  "m_artifactType (k_meta (terminal_row sid r out ttl now)) \<noteq> BUNDLE_ARTIFACT_TYPE"
  by (simp add: terminal_row_def BUNDLE_ARTIFACT_TYPE_def TERMINAL_ARTIFACT_TYPE_def)

context knowledge_backend
begin

lemma hydrate_persist [simp]: "hydrateBundle (scan (persistBundle put be sid b now) sid) = b"
  by (simp add: persistBundle_def scan_put_same hydrateBundle_snoc bundle_row_def)

lemma hydrate_writeTerminal [simp]:
  "hydrateBundle (scan (writeTerminal put be sid r out ttl now) sid) = hydrateBundle (scan be sid)"
  using terminal_row_not_bundle [of sid r out ttl now]
  by (simp add: writeTerminal_def scan_put_same hydrateBundle_snoc)

lemma readTerminal_persist [simp]:
  "readTerminal (scan (persistBundle put be sid b now) sid) r t = readTerminal (scan be sid) r t"
  using readTerminal_neutral [of "[bundle_row sid b now]" r "scan be sid" t]
  by (simp add: persistBundle_def scan_put_same)

lemma hydrate_settleStep:
  "settleStep put be sid b out oc now = (be', b', res) \<Longrightarrow>
     hydrateBundle (scan be' sid) = b' \<and> res = out \<and> b' = settle_bundle oc b out"
  by (auto simp: settleStep_def Let_def)

end

subsection \<open>The planner behind the callback\<close>

text \<open>What \<open>settleStep\<close> may rely on when it commits through a planner: the callback is bookkeeping on
  the cursor and on nothing else, forward by one on an accepted step and still on a failed one.\<close>

locale planner_commit =
  fixes commit :: "session_bundle \<Rightarrow> step_outcome \<Rightarrow> session_bundle"
  assumes commit_frame: "\<exists>c. commit b out = b\<lparr>b_planCursor := c\<rparr>"
    and commit_accepted:
      "out \<noteq> FailedOutcome \<Longrightarrow> b_planCursor (commit b out) = Some (nullish (b_planCursor b) 0 + 1)"
    and commit_failed: "b_planCursor (commit b FailedOutcome) = b_planCursor b"
begin

lemma commit_other_fields:
  "b_nextSeq (commit b out) = b_nextSeq b" "b_inFlight (commit b out) = b_inFlight b"
  "b_plan (commit b out) = b_plan b" "b_runId (commit b out) = b_runId b"
  "b_lastOutcome (commit b out) = b_lastOutcome b"
  using commit_frame [of b out] by auto

text \<open>Cursor and sequence number move together.\<close>

lemma settle_lockstep:
  "nullish (b_nextSeq (settle_bundle (Some commit) b out)) 0 - int (nullish (b_planCursor (settle_bundle (Some commit) b out)) 0)
     = nullish (b_nextSeq b) 0 - int (nullish (b_planCursor b) 0)"
  by (cases out) (simp_all add: settle_bundle_def Let_def commit_other_fields commit_accepted commit_failed)

lemma settle_inflight:
  "out \<noteq> FailedOutcome \<Longrightarrow> b_inFlight (settle_bundle (Some commit) b out) = None"
  "b_inFlight b = Some f \<Longrightarrow>
     b_inFlight (settle_bundle (Some commit) b FailedOutcome) = Some (f\<lparr>i_phase := PhAwaitingReplan\<rparr>)"
  "b_plan (settle_bundle (Some commit) b out) = b_plan b"
  "b_lastOutcome (settle_bundle (Some commit) b out) = Some out"
  by (cases out; simp add: settle_bundle_def Let_def commit_other_fields)+

end

subsection \<open>The reset\<close>

text \<open>The reset forgets everything of the previous run except the run identity the caller overwrites.\<close>

lemma resetRun_forgets: "b_runId b = b_runId b' \<Longrightarrow> resetRun b req = resetRun b' req"
  by (simp add: resetRun_def)

lemma resetRun_is_fresh:
  "resetRun b req = emptyBundle
     \<lparr>b_runId := b_runId b, b_runState := Some Active, b_runPhase := Some Evaluating,
      b_originalRequest := Some req, b_nextSeq := Some 0, b_evalResumeCount := Some 0,
      b_plannerResumeCount := Some 0, b_finalizeAttempt := Some 0, b_writeOrdinal := Some 0\<rparr>"
  by (simp add: resetRun_def emptyBundle_def)

end
