(* ===== verification/PlanParser.thy ===== *)
theory PlanParser
  imports ControllerTypes
begin

text \<open>
  Model of \<open>controller/parser.ts\<close> (\<open>extractJsonObject\<close>, \<open>parseNextStep\<close>), of \<open>parsePlan\<close> in
  \<open>controller/planner.ts\<close>, and the correctness of the scanner: it returns the shortest balanced
  object at the first opening brace, where braces inside string literals do not count.
\<close>

subsection \<open>The fence and the scanner\<close>

text \<open>The text before and after the first occurrence of a pattern.\<close>

fun split_at :: "string \<Rightarrow> string \<Rightarrow> (string \<times> string) option" where
  "split_at p s =
     (if prefix p s then Some ([], drop (length p) s)
      else case s of [] \<Rightarrow> None | c # r \<Rightarrow> map_option (\<lambda>(a, b). (c # a, b)) (split_at p r))"

declare split_at.simps [simp del]

definition lower :: "char \<Rightarrow> char" where
  "lower c = (let n = (of_char c :: nat) in if 65 \<le> n \<and> n \<le> 90 then char_of (n + 32) else c)"

text \<open>The body of the first fenced block, \<open>/```(?:json)?\s*([\s\S]*?)```/i\<close>.\<close>

definition fence_body :: "string \<Rightarrow> string option" where
  "fence_body raw =
     (case split_at ''```'' raw of
        None \<Rightarrow> None
      | Some (_, r) \<Rightarrow>
          let r1 = (if map lower (take 4 r) = ''json'' then drop 4 r else r)
          in map_option fst (split_at ''```'' (dropWhile is_space r1)))"

text \<open>The scanning loop from the first opening brace: the characters up to the balance.\<close>

fun scan_object :: "int \<Rightarrow> bool \<Rightarrow> bool \<Rightarrow> string \<Rightarrow> string option" where
  "scan_object depth inStr esc [] = None"
| "scan_object depth inStr esc (ch # r) =
     (if inStr then
        (if esc then map_option ((#) ch) (scan_object depth True False r)
         else if ch = backslash then map_option ((#) ch) (scan_object depth True True r)
         else if ch = quote_char then map_option ((#) ch) (scan_object depth False False r)
         else map_option ((#) ch) (scan_object depth True False r))
      else if ch = quote_char then map_option ((#) ch) (scan_object depth True esc r)
      else if ch = CHR ''{'' then map_option ((#) ch) (scan_object (depth + 1) False esc r)
      else if ch = CHR ''}'' then
        (if depth - 1 = 0 then Some [ch]
         else map_option ((#) ch) (scan_object (depth - 1) False esc r))
      else map_option ((#) ch) (scan_object depth False esc r))"

definition extractJsonObject :: "string \<Rightarrow> string option" where
  "extractJsonObject raw =
     (let body = (case fence_body raw of Some b \<Rightarrow> b | None \<Rightarrow> raw);
          rest = dropWhile (\<lambda>c. c \<noteq> CHR ''{'') body
      in if rest = [] then None else scan_object 0 False False rest)"

subsection \<open>Decisions\<close>

definition type_field :: "json option \<Rightarrow> json option" where
  "type_field t = (if json_truthy t then t else None)"

definition parseNextStep :: "string \<Rightarrow> next_step option" where
  "parseNextStep content =
     (case extractJsonObject content of
        None \<Rightarrow> None
      | Some txt \<Rightarrow>
          (case json_parse txt of
             None \<Rightarrow> None
           | Some obj \<Rightarrow>
               let kind = field ''kind'' obj in
               if kind = Some (JStr ''done'') \<and> is_string (field ''result'' obj) then
                 Some (DoneStep (the_string (field ''result'' obj)))
               else if kind = Some (JStr ''rewind'') \<and> is_string (field ''reason'' obj) then
                 Some (RewindStep (the_string (field ''reason'' obj)))
               else if kind = Some (JStr ''error'') \<and> is_string (field ''error'' obj) then
                 Some (ErrorStep (the_string (field ''error'' obj)))
               else
                 (case field ''step'' obj of
                    None \<Rightarrow> None
                  | Some st \<Rightarrow>
                      if kind = Some (JStr ''next'') \<and> json_truthy (Some st)
                         \<and> is_string (field ''name'' st) \<and> is_string (field ''instructions'' st) then
                        (case validateRequires (field ''requires'' st) of
                           ReqFalse \<Rightarrow> None
                         | ReqUndefined \<Rightarrow>
                             Some (NextStep (mk_step (the_string (field ''name'' st))
                                (the_string (field ''instructions'' st))
                                \<lparr>s_type := type_field (field ''type'' st)\<rparr>))
                         | ReqList req \<Rightarrow>
                             Some (NextStep (mk_step (the_string (field ''name'' st))
                                (the_string (field ''instructions'' st))
                                \<lparr>s_type := type_field (field ''type'' st), s_requires := Some req\<rparr>)))
                      else None)))"

text \<open>\<open>parsePlan\<close> answers a plan, the cannot-proceed error, or \<open>null\<close>.\<close>

datatype plan_reply = PlanSteps "step list" | PlanError string | PlanNull

definition isPositiveFiniteInt :: "json option \<Rightarrow> bool" where
  "isPositiveFiniteInt v = (case json_int v of None \<Rightarrow> False | Some i \<Rightarrow> i > 0)"

definition isWaitType :: "json option \<Rightarrow> bool" where
  "isWaitType t \<longleftrightarrow> t = Some (JStr ''wait'')"

definition parse_plan_step :: "json \<Rightarrow> step option" where
  "parse_plan_step raw =
     (if \<not> is_string (field ''name'' raw) \<or> \<not> is_string (field ''instructions'' raw) then None
      else
        (case validateRequires (field ''requires'' raw) of
           ReqFalse \<Rightarrow> None
         | req \<Rightarrow>
             let isWait = isWaitType (field ''type'' raw);
                 waitMs = field ''waitMs'' raw
             in if isWait \<and> \<not> isPositiveFiniteInt waitMs then None
                else Some (mk_step (the_string (field ''name'' raw)) (the_string (field ''instructions'' raw))
                       \<lparr>s_type := type_field (field ''type'' raw),
                        s_requires := (case req of ReqList ys \<Rightarrow> Some ys | _ \<Rightarrow> None),
                        s_waitMs := (if isWait then json_int waitMs else None)\<rparr>)))"

fun parse_plan_steps :: "json list \<Rightarrow> step list option" where
  "parse_plan_steps [] = Some []"
| "parse_plan_steps (raw # rs) =
     (case parse_plan_step raw of
        None \<Rightarrow> None
      | Some s \<Rightarrow> map_option ((#) s) (parse_plan_steps rs))"

definition parsePlan :: "string \<Rightarrow> plan_reply" where
  "parsePlan content =
     (case extractJsonObject content of
        None \<Rightarrow> PlanNull
      | Some txt \<Rightarrow>
          (case json_parse txt of
             None \<Rightarrow> PlanNull
           | Some obj \<Rightarrow>
               if field ''kind'' obj = Some (JStr ''error'') \<and> is_string (field ''error'' obj) then
                 PlanError (the_string (field ''error'' obj))
               else
                 (case field ''plan'' obj of
                    Some (JArr raws) \<Rightarrow>
                      (case parse_plan_steps raws of None \<Rightarrow> PlanNull | Some ss \<Rightarrow> PlanSteps ss)
                  | _ \<Rightarrow> PlanNull)))"

subsection \<open>The scanner against its specification\<close>

text \<open>The lexical state a character leads to: brace depth, inside a literal, after a backslash.\<close>

fun lex_step :: "int \<times> bool \<times> bool \<Rightarrow> char \<Rightarrow> int \<times> bool \<times> bool" where
  "lex_step (d, inStr, esc) ch =
     (if inStr then
        (if esc then (d, True, False)
         else if ch = backslash then (d, True, True)
         else if ch = quote_char then (d, False, False)
         else (d, True, False))
      else if ch = quote_char then (d, True, esc)
      else if ch = CHR ''{'' then (d + 1, False, esc)
      else if ch = CHR ''}'' then (d - 1, False, esc)
      else (d, False, esc))"

definition depth_after :: "int \<times> bool \<times> bool \<Rightarrow> string \<Rightarrow> int" where
  "depth_after st s = fst (foldl lex_step st s)"

declare lex_step.simps [simp del]
declare scan_object.simps(2) [simp del]

text \<open>\<open>s\<close> closes the depth of \<open>st\<close> at its last character and not before.\<close>

definition closes :: "int \<times> bool \<times> bool \<Rightarrow> string \<Rightarrow> bool" where
  "closes st s \<longleftrightarrow> depth_after st s = 0 \<and> (\<forall>n < length s. 0 < depth_after st (take n s))"

definition balanced_object :: "string \<Rightarrow> bool" where
  "balanced_object s \<longleftrightarrow>
     (\<exists>r. s = CHR ''{'' # r \<and> closes (1, False, False) r)"

lemma depth_after_simps [simp]:
  "depth_after st [] = fst st"
  "depth_after st (c # s) = depth_after (lex_step st c) s"
  by (simp_all add: depth_after_def)

lemma scan_object_Cons:
  assumes "0 < d"
  shows "scan_object d i e (c # r) =
     (case lex_step (d, i, e) c of (d', i', e') \<Rightarrow>
        if d' = 0 then Some [c] else map_option ((#) c) (scan_object d' i' e' r))"
  using assms by (simp add: lex_step.simps scan_object.simps)

lemma lex_step_nonneg: "0 < d \<Longrightarrow> lex_step (d, i, e) c = (d', i', e') \<Longrightarrow> 0 \<le> d'"
  by (auto simp: lex_step.simps split: if_splits)

lemma closes_Cons:
  "closes st (c # s) \<longleftrightarrow> 0 < fst st \<and> closes (lex_step st c) s"
proof
  assume a: "closes st (c # s)"
  then have "0 < depth_after st (take 0 (c # s))"
    unfolding closes_def by (metis length_Cons zero_less_Suc)
  moreover have "0 < depth_after (lex_step st c) (take n s)" if "n < length s" for n
    using a that unfolding closes_def by (metis depth_after_simps(2) length_Cons not_less_eq take_Suc_Cons)
  ultimately show "0 < fst st \<and> closes (lex_step st c) s"
    using a by (simp add: closes_def)
next
  assume a: "0 < fst st \<and> closes (lex_step st c) s"
  have "0 < depth_after st (take n (c # s))" if "n < length (c # s)" for n
    using a that by (cases n) (auto simp: closes_def)
  with a show "closes st (c # s)"
    by (simp add: closes_def)
qed

lemma closes_Nil: "closes st [] \<longleftrightarrow> fst st = 0"
  by (simp add: closes_def)

lemma scan_object_iff:
  "0 < d \<Longrightarrow> scan_object d i e s = Some p \<longleftrightarrow> prefix p s \<and> closes (d, i, e) p"
proof (induction s arbitrary: d i e p)
  case Nil
  then show ?case by (auto simp: closes_Nil)
next
  case (Cons c r)
  obtain d' i' e' where st: "lex_step (d, i, e) c = (d', i', e')"
    by (rule prod_cases3)
  have "0 \<le> d'" using lex_step_nonneg [OF Cons.prems st] .
  show ?case
  proof (cases "d' = 0")
    case True
    have q: "closes (lex_step (d, i, e) c) q \<longleftrightarrow> q = []" for q
      by (cases q) (simp_all add: st True closes_Nil closes_Cons)
    have "prefix p (c # r) \<and> closes (d, i, e) p \<longleftrightarrow> p = [c]"
    proof (cases p)
      case Nil
      then show ?thesis using Cons.prems by (simp add: closes_Nil)
    next
      case (Cons a q')
      then show ?thesis using Cons.prems q [of q'] by (auto simp: closes_Cons)
    qed
    moreover have "scan_object d i e (c # r) = Some [c]"
      using Cons.prems by (simp add: scan_object_Cons st True)
    ultimately show ?thesis by auto
  next
    case False
    with \<open>0 \<le> d'\<close> have "0 < d'" by simp
    note IH = Cons.IH [OF this, of i' e']
    have "scan_object d i e (c # r) = Some p \<longleftrightarrow> (\<exists>q. p = c # q \<and> scan_object d' i' e' r = Some q)"
      using Cons.prems False by (auto simp: scan_object_Cons st)
    also have "\<dots> \<longleftrightarrow> (\<exists>q. p = c # q \<and> prefix q r \<and> closes (lex_step (d, i, e) c) q)"
      by (simp only: IH st)
    also have "\<dots> \<longleftrightarrow> prefix p (c # r) \<and> closes (d, i, e) p"
      using Cons.prems by (cases p) (auto simp: closes_Nil closes_Cons)
    finally show ?thesis .
  qed
qed

text \<open>The text the scanner looks at: from the first opening brace of the fenced body on.\<close>

definition scanned_text :: "string \<Rightarrow> string" where
  "scanned_text raw =
     dropWhile (\<lambda>c. c \<noteq> CHR ''{'') (case fence_body raw of Some b \<Rightarrow> b | None \<Rightarrow> raw)"

lemma scanned_text_hd: "scanned_text raw = c # r \<Longrightarrow> c = CHR ''{''"
  unfolding scanned_text_def by (metis (mono_tags) dropWhile_eq_Cons_conv)

lemma extractJsonObject_iff:
  "extractJsonObject raw = Some p \<longleftrightarrow> prefix p (scanned_text raw) \<and> balanced_object p"
proof (cases "scanned_text raw")
  case Nil
  then have "extractJsonObject raw = None"
    unfolding extractJsonObject_def Let_def scanned_text_def [symmetric] by simp
  with Nil show ?thesis
    by (auto simp: balanced_object_def)
next
  case (Cons c r)
  have c: "c = CHR ''{''" using Cons by (rule scanned_text_hd)
  have "extractJsonObject raw = map_option ((#) c) (scan_object 1 False False r)"
    using Cons unfolding extractJsonObject_def Let_def scanned_text_def [symmetric] c
    by (simp add: scan_object.simps)
  then have "extractJsonObject raw = Some p \<longleftrightarrow> (\<exists>q. p = c # q \<and> scan_object 1 False False r = Some q)"
    by auto
  also have "\<dots> \<longleftrightarrow> (\<exists>q. p = c # q \<and> prefix q r \<and> closes (1, False, False) q)"
    by (simp add: scan_object_iff)
  also have "\<dots> \<longleftrightarrow> prefix p (scanned_text raw) \<and> balanced_object p"
    unfolding Cons balanced_object_def c by auto
  finally show ?thesis .
qed

subsection \<open>What a parsed plan is\<close>

text \<open>A step as the parser hands it on: no identity yet, bounded references, and a duration exactly on
  the wait steps, where it is positive.\<close>

definition step_wf :: "step \<Rightarrow> bool" where
  "step_wf s \<longleftrightarrow>
     s_stepId s = None \<and> s_supersedes s = None
     \<and> (case s_requires s of None \<Rightarrow> True
         | Some rs \<Rightarrow> rs \<noteq> [] \<and> length rs \<le> MAX_REQUIRES
                      \<and> (\<forall>r \<in> set rs. 0 < length r \<and> length r \<le> MAX_REQUIRE_CHARS))
     \<and> (if isWaitType (s_type s) then (\<exists>ms. s_waitMs s = Some ms \<and> 0 < ms) else s_waitMs s = None)"

lemma isWaitType_type_field [simp]: "isWaitType (type_field t) = isWaitType t"
  by (auto simp: isWaitType_def type_field_def)

lemma parse_plan_step_wf: "parse_plan_step raw = Some s \<Longrightarrow> step_wf s"
  by (auto simp: parse_plan_step_def step_wf_def mk_step_def isPositiveFiniteInt_def Let_def
      dest: validateRequires_list split: if_splits requires_check.splits option.splits)

lemma parse_plan_steps_wf: "parse_plan_steps raws = Some ss \<Longrightarrow> s \<in> set ss \<Longrightarrow> step_wf s"
  by (induction raws arbitrary: ss) (auto split: option.splits dest: parse_plan_step_wf)

lemma parse_plan_steps_length: "parse_plan_steps raws = Some ss \<Longrightarrow> length ss = length raws"
  by (induction raws arbitrary: ss) (auto split: option.splits)

lemma parsePlan_wf: "parsePlan content = PlanSteps ss \<Longrightarrow> s \<in> set ss \<Longrightarrow> step_wf s"
  by (auto simp: parsePlan_def split: option.splits if_splits json.splits dest: parse_plan_steps_wf)

subsection \<open>Properties\<close>

text \<open>C8. \<open>extractJsonObject\<close> returns exactly the balanced object that starts at the first brace of the
  (fenced) text, braces inside string literals and escapes not counting; and nothing if there is none.\<close>

theorem extract_is_the_balanced_object:
  "extractJsonObject raw = Some p \<longleftrightarrow>
     prefix p (dropWhile (\<lambda>c. c \<noteq> CHR ''{'') (case fence_body raw of Some b \<Rightarrow> b | None \<Rightarrow> raw)) \<and> balanced_object p"
  using extractJsonObject_iff [of raw p] by (simp only: scanned_text_def)

text \<open>C9. Every step of a parsed plan is well formed: it has no identity yet, its references are one to
  eight trimmed texts of at most two hundred characters, and it carries a duration exactly if it is a wait
  step, and then a positive one.\<close>

theorem parsed_plan_is_wellformed:
  assumes "parsePlan content = PlanSteps ss" "s \<in> set ss"
  shows "s_stepId s = None \<and> s_supersedes s = None
     \<and> (case s_requires s of None \<Rightarrow> True
         | Some rs \<Rightarrow> rs \<noteq> [] \<and> length rs \<le> 8 \<and> (\<forall>r \<in> set rs. 0 < length r \<and> length r \<le> 200))
     \<and> (if isWaitType (s_type s) then (\<exists>ms. s_waitMs s = Some ms \<and> 0 < ms) else s_waitMs s = None)"
  using parsePlan_wf [OF assms] by (simp add: step_wf_def MAX_REQUIRES_def MAX_REQUIRE_CHARS_def split: option.splits)

definition sample_plan_text :: string where
  "sample_plan_text = ''{'' @ [quote_char] @ ''plan'' @ [quote_char] @ '':[{'' @ [quote_char] @ ''name'' @ [quote_char] @ '':''
     @ [quote_char] @ ''a'' @ [quote_char] @ '','' @ [quote_char] @ ''instructions'' @ [quote_char] @ '':''
     @ [quote_char] @ ''b'' @ [quote_char] @ ''}]}''"

theorem parsed_plan_is_wellformed_witness:
  "parsePlan sample_plan_text = PlanSteps [mk_step ''a'' ''b''] \<and> s_waitMs (mk_step ''a'' ''b'') = None"
proof -
  have p: "parsePlan sample_plan_text = PlanSteps [mk_step ''a'' ''b'']" by code_simp
  have "\<not> isWaitType (s_type (mk_step ''a'' ''b''))" by (simp add: isWaitType_def mk_step_def)
  with p parsed_plan_is_wellformed [OF p, of "mk_step ''a'' ''b''"] show ?thesis by simp
qed

end
