(* ===== verification/WaitStep.thy ===== *)
theory WaitStep
  imports ControllerTypes PlanParser
begin

text \<open>
  Model of \<open>controller/wait-step.ts\<close>: how a wait step is served, fresh or resumed after a crash.
\<close>

datatype wait_plan =
    WFresh (w_applied: int) (w_clamped: bool) (w_cappedSkip: bool)
  | WResume (w_remaining: int) (w_deadlinePassed: bool)
  | WTorn string

definition isWaitStep :: "step \<Rightarrow> bool" where
  "isWaitStep s \<longleftrightarrow> isWaitType (s_type s)"

definition planWait ::
  "step \<Rightarrow> int option \<Rightarrow> int option \<Rightarrow> int \<Rightarrow> int \<Rightarrow> int \<Rightarrow> int \<Rightarrow> wait_plan" where
  "planWait st waitStartedAt appliedWaitMs maxWaitMs maxTotalWaitMs waitMsUsed now =
     (case (waitStartedAt, appliedWaitMs) of
        (Some _, None) \<Rightarrow> WTorn ''appliedWaitMs''
      | (None, Some _) \<Rightarrow> WTorn ''waitStartedAt''
      | (Some t0, Some ms) \<Rightarrow>
          (let remaining = max 0 (t0 + ms - now) in WResume remaining (remaining = 0))
      | (None, None) \<Rightarrow>
          (let requested = nullish (s_waitMs st) 0;
               capRemaining = max 0 (maxTotalWaitMs - waitMsUsed);
               applied = min (min requested maxWaitMs) capRemaining
           in WFresh applied (applied > 0 \<and> applied < requested) (applied = 0 \<and> requested > 0)))"

definition describeWait :: "wait_plan \<Rightarrow> step \<Rightarrow> string \<times> string" where
  "describeWait plan st =
     (case plan of
        WResume rem passed \<Rightarrow>
          (if passed
           then (''Wait deadline had already elapsed during the outage; no additional sleep was performed.'',
                 ''resumed after deadline'')
           else (''Waited the remaining '' @ int_str rem @ '' ms of the scheduled pause.'', []))
      | WFresh applied clamped skip \<Rightarrow>
          (if skip then (''No wait performed: the run's total wait budget is spent.'',
                         ''total wait budget spent'')
           else if clamped then
             (''Waited '' @ int_str applied @ '' ms (requested ''
                @ (case s_waitMs st of None \<Rightarrow> ''undefined'' | Some ms \<Rightarrow> int_str ms)
                @ '' ms, truncated by a wait bound).'', ''clamped'')
           else (''Waited '' @ int_str applied @ '' ms for the system to settle.'', []))
      | WTorn _ \<Rightarrow> (''Waited undefined ms for the system to settle.'', []))"

lemma planWait_fresh:
  assumes "planWait st None None mx tot used now = WFresh applied clamped skip"
  shows "applied = min (min (nullish (s_waitMs st) 0) mx) (max 0 (tot - used))"
    "clamped \<longleftrightarrow> 0 < applied \<and> applied < nullish (s_waitMs st) 0"
    "skip \<longleftrightarrow> applied = 0 \<and> 0 < nullish (s_waitMs st) 0"
  using assms by (auto simp: planWait_def Let_def)

lemma planWait_fresh_bounds:
  assumes "planWait st None None mx tot used now = WFresh applied clamped skip"
  shows "applied \<le> mx" "applied \<le> nullish (s_waitMs st) 0" "used \<le> tot \<Longrightarrow> used + applied \<le> tot"
    "0 \<le> mx \<Longrightarrow> 0 \<le> nullish (s_waitMs st) 0 \<Longrightarrow> 0 \<le> applied"
  using planWait_fresh(1) [OF assms] by auto

lemma planWait_torn_iff:
  "(\<exists>f. planWait st t0 ms mx tot used now = WTorn f) \<longleftrightarrow> (t0 = None) \<noteq> (ms = None)"
  by (auto simp: planWait_def Let_def split: option.splits)

text \<open>A resumed wait ends exactly at the deadline fixed when it began, whatever the bounds are now.\<close>

lemma planWait_resume_deadline:
  "planWait st (Some t0) (Some ms) mx tot used now = WResume rem passed \<Longrightarrow>
     now + rem = max now (t0 + ms) \<and> (passed \<longleftrightarrow> t0 + ms \<le> now)"
  by (auto simp: planWait_def Let_def)

end
