(* ===== verification/Board.thy ===== *)
theory Board
  imports Artifacts
begin

text \<open>
  Model of \<open>controller/board.ts\<close>: the plan replayed from its durable decisions, the step-state board
  rebuilt from artifacts, and its bounded rendering for the planner.
\<close>

subsection \<open>Replaying the plan\<close>

definition replay_decision :: "step list \<Rightarrow> plan_record \<Rightarrow> step list" where
  "replay_decision plan dec =
     (if pr_kind dec = ''create'' then pr_steps dec
      else if pr_kind dec = ''replan'' then
        (let anchor = (case pr_anchor dec of
                         Some a \<Rightarrow> Some a
                       | None \<Rightarrow> (case pr_steps dec of [] \<Rightarrow> None | s # _ \<Rightarrow> s_supersedes s));
             idx = (if truthy anchor then findIndex (\<lambda>s. s_stepId s = anchor) plan else None)
         in case idx of
              Some i \<Rightarrow> take i plan @ pr_steps dec
            | None \<Rightarrow> plan @ pr_steps dec)
      else plan)"

definition reconstructPlanStructure :: "plan_record list \<Rightarrow> step list" where
  "reconstructPlanStructure decisions =
     foldl replay_decision [] (sort_key pr_writeOrdinal decisions)"

subsection \<open>The board\<close>

record board_entry =
  e_stepId :: string
  e_name :: string
  e_instructions :: string
  e_state :: step_state
  e_digest :: "string option"
  e_seq :: "int option"
  e_attempt :: "int option"

type_synonym board = "(string \<times> board_entry) list"

definition planned_entry :: "string \<Rightarrow> step \<Rightarrow> board_entry" where
  "planned_entry i s = \<lparr>e_stepId = i, e_name = s_name s, e_instructions = s_instructions s,
     e_state = Planned, e_digest = None, e_seq = None, e_attempt = None\<rparr>"

definition add_decided :: "(string \<times> step) list \<Rightarrow> step \<Rightarrow> (string \<times> step) list" where
  "add_decided m s = (if truthy (s_stepId s) then AList.update (the (s_stepId s)) s m else m)"

definition everDecided :: "plan_record list \<Rightarrow> (string \<times> step) list" where
  "everDecided structure = foldl (\<lambda>m dec. foldl add_decided m (pr_steps dec)) [] structure"

definition add_planned :: "board \<Rightarrow> step \<Rightarrow> board" where
  "add_planned b s =
     (if truthy (s_stepId s) then AList.update (the (s_stepId s)) (planned_entry (the (s_stepId s)) s) b
      else b)"

text \<open>An executed step that a replacement dropped is history and comes back.\<close>

definition resurrect :: "(string \<times> step) list \<Rightarrow> board \<Rightarrow> kentry \<Rightarrow> board" where
  "resurrect decided b e =
     (if m_artifactType (k_meta e) \<noteq> ''step-result'' then b
      else case m_stepId (k_meta e) of
             None \<Rightarrow> b
           | Some i \<Rightarrow>
               if i = [] \<or> map_of b i \<noteq> None then b
               else (case map_of decided i of
                       None \<Rightarrow> b
                     | Some s \<Rightarrow> AList.update i (planned_entry i s) b))"

text \<open>The bucket of a step: its results, in order.\<close>

definition resultsOf :: "kentry list \<Rightarrow> string \<Rightarrow> kentry list" where
  "resultsOf es i =
     filter (\<lambda>e. m_artifactType (k_meta e) = ''step-result'' \<and> m_stepId (k_meta e) = Some i) es"

definition claimsOf :: "claim list \<Rightarrow> string \<Rightarrow> claim list" where
  "claimsOf cs i = filter (\<lambda>c. c_stepId c = i) cs"

definition entry_attempt :: "kentry \<Rightarrow> int" where
  "entry_attempt e = nullish (m_attempt (k_meta e)) 0"

definition entry_ordinal :: "kentry \<Rightarrow> int" where
  "entry_ordinal e = nullish (m_writeOrdinal (k_meta e)) 0"

definition entry_outcome :: "kentry \<Rightarrow> outcome" where
  "entry_outcome e = \<lparr>o_status = nullish (m_status (k_meta e)) SFailed,
     o_approved = content_text (k_content e), o_remainder = nullish (m_remainder (k_meta e)) [],
     o_note = nullish (m_note (k_meta e)) []\<rparr>"

definition inFlightFor :: "inflight option \<Rightarrow> string \<Rightarrow> inflight option" where
  "inFlightFor fl i =
     (case fl of None \<Rightarrow> None | Some f \<Rightarrow> if s_stepId (i_step f) = Some i then Some f else None)"

definition maxAttempt :: "kentry list \<Rightarrow> claim list \<Rightarrow> inflight option \<Rightarrow> int" where
  "maxAttempt results claims fl =
     max (max (foldl (\<lambda>m e. max m (entry_attempt e)) (-1) results)
              (foldl (\<lambda>m c. max m (c_attempt c)) (-1) claims))
         (case fl of None \<Rightarrow> -1 | Some f \<Rightarrow> i_attempt f)"

definition latest_claim :: "int \<Rightarrow> claim list \<Rightarrow> claim option" where
  "latest_claim att claims =
     foldl (\<lambda>best c. if c_attempt c = att
                       \<and> (case best of None \<Rightarrow> True | Some b \<Rightarrow> c_writeOrdinal c \<ge> c_writeOrdinal b)
                     then Some c else best) None claims"

definition latest_entry :: "kentry list \<Rightarrow> kentry option" where
  "latest_entry es =
     foldl (\<lambda>best e. case best of
                       None \<Rightarrow> Some e
                     | Some b \<Rightarrow> if entry_ordinal e \<ge> entry_ordinal b then Some e else Some b) None es"

definition settle_entry ::
  "kentry list \<Rightarrow> claim list \<Rightarrow> inflight option \<Rightarrow> pending option \<Rightarrow> board_entry \<Rightarrow> board_entry" where
  "settle_entry stepResults allClaims inFlight pend entry =
     (let i = e_stepId entry;
          results = resultsOf stepResults i;
          claims = claimsOf allClaims i;
          fl = inFlightFor inFlight i;
          att = maxAttempt results claims fl
      in if att < 0 then entry
         else
           (let settled = filter (\<lambda>e. entry_attempt e = att) results
            in if settled = [] then
                 entry\<lparr>e_state :=
                     (if (case fl of None \<Rightarrow> False | Some f \<Rightarrow> i_phase f = PhExecuting)
                         \<and> (case pend of Some (ExternalTool _ _ _ _) \<Rightarrow> True | _ \<Rightarrow> False)
                      then AwaitingExternal else Executing),
                   e_attempt := Some att,
                   e_seq := (case fl of Some f \<Rightarrow> Some (i_seq f)
                             | None \<Rightarrow> map_option c_seq (latest_claim att claims))\<rparr>
               else
                 (case resolveByPrecedence (map entry_outcome (sort_key entry_ordinal settled)) of
                    None \<Rightarrow> entry
                  | Some resolved \<Rightarrow>
                      let winner = latest_entry
                            (filter (\<lambda>e. nullish (m_status (k_meta e)) SFailed = o_status resolved) settled)
                      in entry\<lparr>e_state := projectStepState (o_status resolved),
                           e_attempt := Some att,
                           e_digest := (case winner of None \<Rightarrow> None | Some w \<Rightarrow> m_digest (k_meta w)),
                           e_seq := (case winner of None \<Rightarrow> None | Some w \<Rightarrow> m_seq (k_meta w))\<rparr>)))"

definition board_skeleton :: "plan_record list \<Rightarrow> kentry list \<Rightarrow> board" where
  "board_skeleton structure stepResults =
     foldl (resurrect (everDecided structure))
       (foldl add_planned [] (reconstructPlanStructure structure)) stepResults"

definition reconstructBoard ::
  "plan_record list \<Rightarrow> kentry list \<Rightarrow> claim list \<Rightarrow> inflight option \<Rightarrow> pending option \<Rightarrow> board" where
  "reconstructBoard structure stepResults claims inFlight pend =
     map (\<lambda>(i, entry). (i, settle_entry stepResults claims inFlight pend entry))
       (board_skeleton structure stepResults)"

subsection \<open>Budget and rendering\<close>

record board_budget =
  bb_maxDigestChars :: int
  bb_maxIntentChars :: int
  bb_maxActiveSteps :: int
  bb_maxBoardChars :: int
  bb_keepRecentDigests :: int

datatype board_error =
    NegativeKnob string int
  | BudgetInvariant int int
  | BoardOverBudget nat int

fun first_negative :: "(string \<times> int) list \<Rightarrow> board_error option" where
  "first_negative [] = None"
| "first_negative ((k, v) # kvs) = (if v < 0 then Some (NegativeKnob k v) else first_negative kvs)"

definition board_needed :: "board_budget \<Rightarrow> int" where
  "board_needed b =
     bb_maxActiveSteps b * (24 + bb_maxIntentChars b)
     + bb_keepRecentDigests b * (24 + bb_maxDigestChars b) + 256"

definition validateBoardBudget :: "board_budget \<Rightarrow> board_error option" where
  "validateBoardBudget b =
     (case first_negative
        [(''maxDigestChars'', bb_maxDigestChars b), (''maxIntentChars'', bb_maxIntentChars b),
         (''maxActiveSteps'', bb_maxActiveSteps b), (''maxBoardChars'', bb_maxBoardChars b),
         (''keepRecentDigests'', bb_keepRecentDigests b)] of
        Some err \<Rightarrow> Some err
      | None \<Rightarrow>
          if board_needed b > bb_maxBoardChars b
          then Some (BudgetInvariant (board_needed b) (bb_maxBoardChars b)) else None)"

fun state_str :: "step_state \<Rightarrow> string" where
  "state_str Planned = ''planned''"
| "state_str Executing = ''executing''"
| "state_str AwaitingExternal = ''awaiting-external''"
| "state_str Done = ''done''"
| "state_str PartialDone = ''partial''"
| "state_str FailedState = ''failed''"

definition TERMINAL :: "step_state set" where
  "TERMINAL = {Done, PartialDone, FailedState}"

text \<open>The comparator of the actionable entries; an absent \<open>seq\<close> is plus infinity, and two infinities
  subtract to NaN, which is falsy, so the locale comparison \<open>lc\<close> decides.\<close>

definition actionable_le :: "(string \<Rightarrow> string \<Rightarrow> int) \<Rightarrow> board_entry \<Rightarrow> board_entry \<Rightarrow> bool" where
  "actionable_le lc a b =
     (case (e_seq a, e_seq b) of
        (None, None) \<Rightarrow> lc (e_stepId a) (e_stepId b) \<le> 0
      | (None, Some _) \<Rightarrow> False
      | (Some _, None) \<Rightarrow> True
      | (Some x, Some y) \<Rightarrow> if x = y then lc (e_stepId a) (e_stepId b) \<le> 0 else x < y)"

definition actionable_line :: "int \<Rightarrow> board_entry \<Rightarrow> string" where
  "actionable_line maxIntent e =
     ''['' @ take 8 (e_stepId e) @ '' '' @ state_str (e_state e) @ ''] ''
       @ slice0 maxIntent (e_instructions e)"

definition terminal_head :: "board_entry \<Rightarrow> string" where
  "terminal_head e =
     ''[seq '' @ int_str (nullish (e_seq e) 0) @ '' '' @ e_name e @ '' '' @ state_str (e_state e) @ '']''"

definition recent_line :: "int \<Rightarrow> board_entry \<Rightarrow> string" where
  "recent_line maxDigest e = terminal_head e @ '' '' @ slice0 maxDigest (nullish (e_digest e) [])"

definition omitted_marker :: "nat \<Rightarrow> string list" where
  "omitted_marker n = (if n > 0 then [ellipsis # '' '' @ nat_str n @ '' earlier steps omitted''] else [])"

definition assemble :: "string list \<Rightarrow> string list \<Rightarrow> string list \<Rightarrow> nat \<Rightarrow> string" where
  "assemble actionable recentLines older omitted =
     join newline (actionable @ omitted_marker omitted @ older @ recentLines)"

fun fit_loop :: "string list \<Rightarrow> string list \<Rightarrow> int \<Rightarrow> string list \<Rightarrow> nat \<Rightarrow> string" where
  "fit_loop act rec cap [] omitted = assemble act rec [] omitted"
| "fit_loop act rec cap (l # older) omitted =
     (let text = assemble act rec (l # older) omitted
      in if int (length text) > cap then fit_loop act rec cap older (omitted + 1) else text)"

definition actionable_lines :: "(string \<Rightarrow> string \<Rightarrow> int) \<Rightarrow> board_budget \<Rightarrow> board_entry list \<Rightarrow> string list" where
  "actionable_lines lc budget entries =
     map (actionable_line (bb_maxIntentChars budget))
       (sort_by (actionable_le lc) (filter (\<lambda>e. e_state e \<notin> TERMINAL) entries))"

definition terminals :: "board_entry list \<Rightarrow> board_entry list" where
  "terminals entries =
     sort_key (\<lambda>e. nullish (e_seq e) 0) (filter (\<lambda>e. e_state e \<in> TERMINAL) entries)"

definition cutoff :: "board_budget \<Rightarrow> board_entry list \<Rightarrow> nat" where
  "cutoff budget entries = nat (max 0 (int (length (terminals entries)) - bb_keepRecentDigests budget))"

definition recent_lines :: "board_budget \<Rightarrow> board_entry list \<Rightarrow> string list" where
  "recent_lines budget entries =
     map (recent_line (bb_maxDigestChars budget)) (drop (cutoff budget entries) (terminals entries))"

definition older_lines :: "board_budget \<Rightarrow> board_entry list \<Rightarrow> string list" where
  "older_lines budget entries =
     map terminal_head (take (cutoff budget entries) (terminals entries))"

definition renderBoard ::
  "(string \<Rightarrow> string \<Rightarrow> int) \<Rightarrow> board \<Rightarrow> board_budget \<Rightarrow> board_error + string" where
  "renderBoard lc board budget =
     (let entries = map snd board
      in if entries = [] then Inr []
         else
           (let text = fit_loop (actionable_lines lc budget entries) (recent_lines budget entries)
                         (bb_maxBoardChars budget) (older_lines budget entries) 0
            in if int (length text) > bb_maxBoardChars budget
               then Inl (BoardOverBudget (length text) (bb_maxBoardChars budget))
               else Inr text))"

text \<open>\<open>renderLiveBoard\<close>; the outer \<open>None\<close> is an unreadable decision row.\<close>

definition renderLiveBoard ::
  "(string \<Rightarrow> string \<Rightarrow> int) \<Rightarrow> rag_handle \<Rightarrow> session_bundle \<Rightarrow> board_budget \<Rightarrow> (board_error + string) option" where
  "renderLiveBoard lc rag bundle budget =
     (if \<not> truthy (b_runId bundle) then Some (Inr [])
      else
        (let runId = the (b_runId bundle)
         in case readPlanDecisions rag runId of
              None \<Rightarrow> None
            | Some structure \<Rightarrow>
                Some (renderBoard lc
                  (reconstructBoard structure (rag_list rag (run_filter runId ''step-result''))
                     (readClaims rag runId) (b_inFlight bundle) (b_pending bundle)) budget)))"

subsection \<open>The replayed plan\<close>

lemma reconstructPlanStructure_perm:
  "mset ds = mset ds' \<Longrightarrow> distinct (map pr_writeOrdinal ds) \<Longrightarrow>
     reconstructPlanStructure ds = reconstructPlanStructure ds'"
  by (simp add: reconstructPlanStructure_def sort_key_unique)

lemma reconstructPlanStructure_snoc:
  "\<forall>x \<in> set ds. pr_writeOrdinal x \<le> pr_writeOrdinal d \<Longrightarrow>
     reconstructPlanStructure (ds @ [d]) = replay_decision (reconstructPlanStructure ds) d"
  by (simp add: reconstructPlanStructure_def sort_key_snoc_max)

lemma reconstructPlanStructure_Nil [simp]: "reconstructPlanStructure [] = []"
  by (simp add: reconstructPlanStructure_def)

lemma replay_create: "pr_kind d = ''create'' \<Longrightarrow> replay_decision plan d = pr_steps d"
  by (simp add: replay_decision_def)

lemma replay_replan_at:
  assumes "pr_kind d = ''replan''" "pr_anchor d = Some a" "a \<noteq> []" "i < length plan"
    "s_stepId (plan ! i) = Some a" "distinct (map s_stepId plan)"
  shows "replay_decision plan d = take i plan @ pr_steps d"
proof -
  obtain j where j: "findIndex (\<lambda>s. s_stepId s = Some a) plan = Some j"
    using assms(4,5) findIndex_None_iff [of "\<lambda>s. s_stepId s = Some a" plan] nth_mem by fastforce
  then have "j < length plan" "s_stepId (plan ! j) = Some a"
    using findIndex_Some by fastforce+
  then have "j = i"
    using assms(4-6) by (metis (no_types, lifting) length_map nth_eq_iff_index_eq nth_map)
  with j assms(1-3) show ?thesis
    by (simp add: replay_decision_def)
qed

text \<open>Only steps of the decisions appear, whatever the order they are replayed in.\<close>

lemma replay_decision_subset: "set (replay_decision plan d) \<subseteq> set plan \<union> set (pr_steps d)"
  by (auto simp: replay_decision_def Let_def split: option.splits dest: in_set_takeD)

lemma foldl_replay_subset:
  "set (foldl replay_decision plan ds) \<subseteq> set plan \<union> (\<Union>d \<in> set ds. set (pr_steps d))"
proof (induction ds arbitrary: plan)
  case (Cons d ds)
  then show ?case using replay_decision_subset [of plan d] by fastforce
qed simp

lemma reconstructPlanStructure_subset:
  "set (reconstructPlanStructure ds) \<subseteq> (\<Union>d \<in> set ds. set (pr_steps d))"
  using foldl_replay_subset [of "[]" "sort_key pr_writeOrdinal ds"]
  by (simp add: reconstructPlanStructure_def)

subsection \<open>The entries of the board\<close>

lemma map_of_foldl_add_decided:
  "map_of (foldl add_decided m ss) i \<noteq> None \<longleftrightarrow>
     map_of m i \<noteq> None \<or> (i \<noteq> [] \<and> (\<exists>s \<in> set ss. s_stepId s = Some i))"
proof (induction ss arbitrary: m)
  case (Cons s ss)
  show ?case
    unfolding foldl.simps Cons.IH by (cases "s_stepId s") (auto simp: add_decided_def)
qed simp

lemma map_of_everDecided_aux:
  "map_of (foldl (\<lambda>m dec. foldl add_decided m (pr_steps dec)) m ds) i \<noteq> None \<longleftrightarrow>
     map_of m i \<noteq> None \<or> (i \<noteq> [] \<and> (\<exists>d \<in> set ds. \<exists>s \<in> set (pr_steps d). s_stepId s = Some i))"
proof (induction ds arbitrary: m)
  case (Cons d ds)
  show ?case
    unfolding foldl.simps Cons.IH map_of_foldl_add_decided by auto
qed simp

definition decided_id :: "plan_record list \<Rightarrow> string \<Rightarrow> bool" where
  "decided_id ds i \<longleftrightarrow> i \<noteq> [] \<and> (\<exists>d \<in> set ds. \<exists>s \<in> set (pr_steps d). s_stepId s = Some i)"

lemma map_of_everDecided: "map_of (everDecided ds) i \<noteq> None \<longleftrightarrow> decided_id ds i"
  unfolding everDecided_def map_of_everDecided_aux decided_id_def by simp

lemma map_of_foldl_add_planned:
  "map_of (foldl add_planned b ss) i \<noteq> None \<longleftrightarrow>
     map_of b i \<noteq> None \<or> (i \<noteq> [] \<and> (\<exists>s \<in> set ss. s_stepId s = Some i))"
proof (induction ss arbitrary: b)
  case (Cons s ss)
  show ?case
    unfolding foldl.simps Cons.IH by (cases "s_stepId s") (auto simp: add_planned_def)
qed simp

definition executed_id :: "kentry list \<Rightarrow> string \<Rightarrow> bool" where
  "executed_id es i \<longleftrightarrow> resultsOf es i \<noteq> []"

lemma executed_id_Cons:
  "executed_id (e # es) i \<longleftrightarrow>
     (m_artifactType (k_meta e) = ''step-result'' \<and> m_stepId (k_meta e) = Some i) \<or> executed_id es i"
  by (auto simp: executed_id_def resultsOf_def)

lemma map_of_foldl_resurrect:
  "map_of (foldl (resurrect dm) b es) i \<noteq> None \<longleftrightarrow>
     map_of b i \<noteq> None \<or> (i \<noteq> [] \<and> executed_id es i \<and> map_of dm i \<noteq> None)"
proof (induction es arbitrary: b)
  case Nil
  then show ?case by (simp add: executed_id_def resultsOf_def)
next
  case (Cons e es)
  have "map_of (resurrect dm b e) i \<noteq> None \<longleftrightarrow>
     map_of b i \<noteq> None \<or> (i \<noteq> [] \<and> m_artifactType (k_meta e) = ''step-result''
        \<and> m_stepId (k_meta e) = Some i \<and> map_of dm i \<noteq> None)"
    by (cases "m_stepId (k_meta e)") (auto simp: resurrect_def split: option.splits)
  then show ?case
    unfolding foldl.simps Cons.IH executed_id_Cons by blast
qed

text \<open>The board shows exactly the current plan and the executed steps the plan dropped.\<close>

lemma board_skeleton_ids:
  "map_of (board_skeleton ds es) i \<noteq> None \<longleftrightarrow>
     i \<noteq> [] \<and> ((\<exists>s \<in> set (reconstructPlanStructure ds). s_stepId s = Some i)
               \<or> (executed_id es i \<and> decided_id ds i))"
  unfolding board_skeleton_def map_of_foldl_resurrect map_of_foldl_add_planned map_of_everDecided
  by auto

definition skeleton_ok :: "board \<Rightarrow> bool" where
  "skeleton_ok b \<longleftrightarrow> distinct (map fst b)
     \<and> (\<forall>(i, e) \<in> set b. e_stepId e = i \<and> e_state e = Planned \<and> e_attempt e = None)"

lemma skeleton_ok_update: "skeleton_ok b \<Longrightarrow> skeleton_ok (AList.update i (planned_entry i s) b)"
  using set_update_subset [of i "planned_entry i s" b]
  by (fastforce simp: skeleton_ok_def distinct_update planned_entry_def)

lemma skeleton_ok_board_skeleton: "skeleton_ok (board_skeleton ds es)"
proof -
  have "skeleton_ok b \<Longrightarrow> skeleton_ok (foldl add_planned b ss)" for b ss
    by (induction ss arbitrary: b) (auto simp: add_planned_def skeleton_ok_update)
  moreover have "skeleton_ok b \<Longrightarrow> skeleton_ok (foldl (resurrect dm) b es)" for b dm
    by (induction es arbitrary: b) (auto simp: resurrect_def skeleton_ok_update split: option.splits)
  moreover have "skeleton_ok []" by (simp add: skeleton_ok_def)
  ultimately show ?thesis by (simp add: board_skeleton_def)
qed

lemma map_of_reconstructBoard:
  "map_of (reconstructBoard ds es cs fl p) i =
     map_option (settle_entry es cs fl p) (map_of (board_skeleton ds es) i)"
  unfolding reconstructBoard_def by (simp add: map_of_map)

lemma keys_reconstructBoard: "map fst (reconstructBoard ds es cs fl p) = map fst (board_skeleton ds es)"
  by (simp add: reconstructBoard_def case_prod_beta comp_def)

lemma settle_entry_stepId [simp]: "e_stepId (settle_entry es cs fl p e) = e_stepId e"
  by (simp add: settle_entry_def Let_def split: option.splits)

subsection \<open>The state of an entry is that of its latest attempt\<close>

lemma foldl_max_le: "m \<le> foldl (\<lambda>m x. max m (f x)) m xs"
  for m :: int
proof (induction xs arbitrary: m)
  case (Cons x xs)
  show ?case using Cons [of "max m (f x)"] by simp
qed simp

lemma foldl_max_ge: "x \<in> set xs \<Longrightarrow> f x \<le> foldl (\<lambda>m x. max m (f x)) m xs"
  for m :: int
proof (induction xs arbitrary: m)
  case (Cons y xs)
  then show ?case
    using foldl_max_le [of "max m (f y)" f xs] by auto
qed simp

lemma foldl_max_in: "foldl (\<lambda>m x. max m (f x)) m xs \<in> insert m (f ` set xs)"
  for m :: int
proof (induction xs arbitrary: m)
  case (Cons y xs)
  show ?case
    using Cons [of "max m (f y)"] by (auto simp: max_def split: if_splits)
qed simp

lemma maxAttempt_ge:
  "e \<in> set rs \<Longrightarrow> entry_attempt e \<le> maxAttempt rs cs fl"
  "c \<in> set cs \<Longrightarrow> c_attempt c \<le> maxAttempt rs cs fl"
  "fl = Some f \<Longrightarrow> i_attempt f \<le> maxAttempt rs cs fl"
  using foldl_max_ge [of e rs entry_attempt "-1"] foldl_max_ge [of c cs c_attempt "-1"]
  by (auto simp: maxAttempt_def)

lemma maxAttempt_none: "maxAttempt [] [] None = -1"
  by (simp add: maxAttempt_def)

text \<open>Results of superseded attempts have no influence on a step that is running again.\<close>

lemma settle_entry_running:
  assumes "c \<in> set cs" "c_stepId c = e_stepId e" "0 \<le> c_attempt c"
    "\<And>r. r \<in> set (resultsOf es (e_stepId e)) \<Longrightarrow> entry_attempt r < c_attempt c"
  shows "e_state (settle_entry es cs fl p e) \<in> {Executing, AwaitingExternal}"
proof -
  let ?att = "maxAttempt (resultsOf es (e_stepId e)) (claimsOf cs (e_stepId e)) (inFlightFor fl (e_stepId e))"
  have "c_attempt c \<le> ?att"
    using assms(1,2) by (intro maxAttempt_ge) (simp add: claimsOf_def)
  then have "filter (\<lambda>r. entry_attempt r = ?att) (resultsOf es (e_stepId e)) = []"
    using assms(4) by (force simp: filter_empty_conv)
  moreover have "\<not> ?att < 0"
    using \<open>c_attempt c \<le> ?att\<close> assms(3) by simp
  ultimately show ?thesis
    by (simp add: settle_entry_def Let_def)
qed

lemma settle_entry_untouched:
  assumes "resultsOf es (e_stepId e) = []" "claimsOf cs (e_stepId e) = []" "inFlightFor fl (e_stepId e) = None"
  shows "settle_entry es cs fl p e = e"
  using assms by (simp add: settle_entry_def Let_def maxAttempt_none)

lemma settle_entry_settled:
  assumes "r \<in> set (resultsOf es (e_stepId e))" "0 \<le> entry_attempt r"
    "entry_attempt r = maxAttempt (resultsOf es (e_stepId e)) (claimsOf cs (e_stepId e)) (inFlightFor fl (e_stepId e))"
  shows "\<exists>w. w \<in> set (resultsOf es (e_stepId e)) \<and> entry_attempt w = entry_attempt r
     \<and> RANK (o_status (entry_outcome r)) \<le> RANK (o_status (entry_outcome w))
     \<and> e_state (settle_entry es cs fl p e) = projectStepState (o_status (entry_outcome w))
     \<and> e_attempt (settle_entry es cs fl p e) = Some (entry_attempt r)"
proof -
  let ?settled = "filter (\<lambda>x. entry_attempt x = entry_attempt r) (resultsOf es (e_stepId e))"
  let ?outs = "map entry_outcome (sort_key entry_ordinal ?settled)"
  have ne: "?settled \<noteq> []"
    using assms(1) by (auto simp: filter_empty_conv)
  have "resolveByPrecedence ?outs \<noteq> None"
    using ne by (simp only: resolveByPrecedence_None_iff map_is_Nil_conv sort_key_Nil_iff not_False_eq_True)
  then obtain o' where o: "resolveByPrecedence ?outs = Some o'" by blast
  then obtain w where w: "w \<in> set ?settled" "o' = entry_outcome w"
    using resolveByPrecedence_in_set [OF o] by auto
  have "RANK (o_status (entry_outcome r)) \<le> RANK (o_status o')"
    using assms(1) by (intro resolveByPrecedence_rank [OF o]) simp
  moreover have "e_state (settle_entry es cs fl p e) = projectStepState (o_status o')"
    "e_attempt (settle_entry es cs fl p e) = Some (entry_attempt r)"
    using assms(2) ne o by (simp_all add: settle_entry_def Let_def assms(3) [symmetric])
  ultimately show ?thesis using w by auto
qed

subsection \<open>The rendering fits or fails\<close>

lemma fit_loop_spec:
  "\<exists>k \<le> length older.
     fit_loop act rec cap older n = assemble act rec (drop k older) (n + k)
     \<and> (\<forall>j < k. cap < int (length (assemble act rec (drop j older) (n + j))))
     \<and> (k < length older \<longrightarrow> int (length (assemble act rec (drop k older) (n + k))) \<le> cap)"
proof (induction act rec cap older n rule: fit_loop.induct)
  case (1 act rec cap n)
  then show ?case by simp
next
  case (2 act rec cap l older n)
  show ?case
  proof (cases "int (length (assemble act rec (l # older) n)) > cap")
    case True
    from 2 [OF refl True] obtain k where k: "k \<le> length older"
      "fit_loop act rec cap older (n + 1) = assemble act rec (drop k older) (n + 1 + k)"
      "\<forall>j<k. cap < int (length (assemble act rec (drop j older) (n + 1 + j)))"
      "k < length older \<longrightarrow> int (length (assemble act rec (drop k older) (n + 1 + k))) \<le> cap"
      by blast
    show ?thesis
    proof (intro exI [of _ "Suc k"] conjI allI impI)
      fix j assume "j < Suc k"
      with k(3) True show "cap < int (length (assemble act rec (drop j (l # older)) (n + j)))"
        by (cases j) auto
    qed (use k True in \<open>auto simp: Let_def\<close>)
  next
    case False
    then show ?thesis by (intro exI [of _ 0]) (auto simp: Let_def)
  qed
qed

lemma renderBoard_Inr_iff:
  "renderBoard lc b budget = Inr t \<longleftrightarrow>
     (if b = [] then t = []
      else t = fit_loop (actionable_lines lc budget (map snd b)) (recent_lines budget (map snd b))
             (bb_maxBoardChars budget) (older_lines budget (map snd b)) 0
           \<and> int (length t) \<le> bb_maxBoardChars budget)"
  by (auto simp: renderBoard_def Let_def)

lemma renderBoard_bounded:
  "renderBoard lc b budget = Inr t \<Longrightarrow> 0 \<le> bb_maxBoardChars budget \<Longrightarrow> int (length t) \<le> bb_maxBoardChars budget"
  by (auto simp: renderBoard_Inr_iff split: if_splits)

lemma validateBoardBudget_None_iff:
  "validateBoardBudget b = None \<longleftrightarrow>
     0 \<le> bb_maxDigestChars b \<and> 0 \<le> bb_maxIntentChars b \<and> 0 \<le> bb_maxActiveSteps b
     \<and> 0 \<le> bb_maxBoardChars b \<and> 0 \<le> bb_keepRecentDigests b \<and> board_needed b \<le> bb_maxBoardChars b"
  by (auto simp: validateBoardBudget_def)

text \<open>Dropping every older line leaves at most the protected block; its size decides.\<close>

definition protected_block :: "(string \<Rightarrow> string \<Rightarrow> int) \<Rightarrow> board_budget \<Rightarrow> board_entry list \<Rightarrow> string" where
  "protected_block lc budget entries =
     assemble (actionable_lines lc budget entries) (recent_lines budget entries) []
       (length (older_lines budget entries))"

lemma renderBoard_Inl_protected:
  assumes "renderBoard lc b budget = Inl err"
  shows "bb_maxBoardChars budget < int (length (protected_block lc budget (map snd b)))"
proof -
  let ?E = "map snd b"
  let ?older = "older_lines budget ?E"
  let ?text = "fit_loop (actionable_lines lc budget ?E) (recent_lines budget ?E) (bb_maxBoardChars budget) ?older 0"
  have big: "bb_maxBoardChars budget < int (length ?text)"
    using assms by (auto simp: renderBoard_def Let_def split: if_splits)
  from fit_loop_spec [of ?older "actionable_lines lc budget ?E" "recent_lines budget ?E" "bb_maxBoardChars budget" 0]
  obtain k where k: "k \<le> length ?older"
    "?text = assemble (actionable_lines lc budget ?E) (recent_lines budget ?E) (drop k ?older) (0 + k)"
    "k < length ?older \<longrightarrow> int (length (assemble (actionable_lines lc budget ?E)
       (recent_lines budget ?E) (drop k ?older) (0 + k))) \<le> bb_maxBoardChars budget"
    by blast
  with big have "k = length ?older" by fastforce
  with k(2) big show ?thesis by (simp add: protected_block_def)
qed

subsection \<open>When the load-time budget suffices\<close>

text \<open>
  The load-time invariant counts 24 characters of overhead per line.  That covers a planned or an
  executing step and a finished one whose bracketed head is short; an entry that awaits an external
  tool needs six more, which the headroom pays for once.
\<close>

definition is_awaiting :: "board_entry \<Rightarrow> bool" where
  "is_awaiting e \<longleftrightarrow> e_state e = AwaitingExternal"

lemma sum_list_mono': "(\<And>x. x \<in> set xs \<Longrightarrow> f x \<le> g x) \<Longrightarrow> sum_list (map f xs) \<le> sum_list (map g xs)"
  for f :: "'a \<Rightarrow> nat"
  by (rule sum_list_mono)

lemma actionable_line_length:
  assumes "0 \<le> m" "e_state e \<notin> TERMINAL"
  shows "length (actionable_line m e) + 1 \<le> 24 + nat m + (if is_awaiting e then 6 else 0)"
  using assms by (cases "e_state e") (auto simp: actionable_line_def is_awaiting_def TERMINAL_def)

lemma sum_list_awaiting:
  "(\<Sum>e\<leftarrow>es. c + (if is_awaiting e then 6 else 0)) = length es * c + 6 * length (filter is_awaiting es)"
  by (induction es) auto

lemma length_filter_sort_by: "length (filter p (sort_by le xs)) = length (filter p xs)"
  by (metis mset_filter mset_sort_by size_mset)

lemma actionable_lines_length:
  assumes "0 \<le> bb_maxIntentChars b" "length (filter is_awaiting es) \<le> 1"
    "length (filter (\<lambda>e. e_state e \<notin> TERMINAL) es) \<le> n"
  shows "(\<Sum>l\<leftarrow>actionable_lines lc b es. length l + 1) \<le> n * (24 + nat (bb_maxIntentChars b)) + 6"
proof -
  let ?c = "24 + nat (bb_maxIntentChars b)"
  let ?act = "filter (\<lambda>e. e_state e \<notin> TERMINAL) es"
  let ?as = "sort_by (actionable_le lc) ?act"
  have "(\<Sum>l\<leftarrow>actionable_lines lc b es. length l + 1)
      = (\<Sum>e\<leftarrow>?as. length (actionable_line (bb_maxIntentChars b) e) + 1)"
    by (simp add: actionable_lines_def comp_def)
  also have "\<dots> \<le> (\<Sum>e\<leftarrow>?as. ?c + (if is_awaiting e then 6 else 0))"
  proof (rule sum_list_mono')
    fix e assume "e \<in> set ?as"
    then show "length (actionable_line (bb_maxIntentChars b) e) + 1 \<le> ?c + (if is_awaiting e then 6 else 0)"
      using actionable_line_length [OF assms(1), of e] by auto
  qed
  also have "\<dots> = length ?act * ?c + 6 * length (filter is_awaiting ?act)"
    by (simp add: sum_list_awaiting length_filter_sort_by)
  also have "length (filter is_awaiting ?act) \<le> 1"
  proof -
    have "filter is_awaiting ?act = filter (\<lambda>e. e_state e \<notin> TERMINAL) (filter is_awaiting es)"
      by (simp add: conj_commute)
    then show ?thesis using assms(2) length_filter_le order_trans by metis
  qed
  finally show ?thesis
    using assms(3) mult_le_mono1 [OF assms(3), of ?c] by linarith
qed

lemma recent_lines_length:
  assumes "0 \<le> bb_maxDigestChars b" "0 \<le> bb_keepRecentDigests b"
    "\<And>e. e \<in> set es \<Longrightarrow> e_state e \<in> TERMINAL \<Longrightarrow> length (terminal_head e) \<le> 22"
  shows "(\<Sum>l\<leftarrow>recent_lines b es. length l + 1)
           \<le> nat (bb_keepRecentDigests b) * (24 + nat (bb_maxDigestChars b))"
proof -
  let ?c = "24 + nat (bb_maxDigestChars b)"
  let ?rs = "drop (cutoff b es) (terminals es)"
  have "(\<Sum>l\<leftarrow>recent_lines b es. length l + 1) = (\<Sum>e\<leftarrow>?rs. length (recent_line (bb_maxDigestChars b) e) + 1)"
    by (simp add: recent_lines_def comp_def)
  also have "\<dots> \<le> (\<Sum>e\<leftarrow>?rs. ?c)"
  proof (rule sum_list_mono')
    fix e assume "e \<in> set ?rs"
    then have "length (terminal_head e) \<le> 22"
      by (intro assms(3)) (auto simp: terminals_def dest!: in_set_dropD)
    then show "length (recent_line (bb_maxDigestChars b) e) + 1 \<le> ?c"
      using assms(1) by (simp add: recent_line_def)
  qed
  also have "\<dots> = length ?rs * ?c"
    by (simp add: sum_list_triv)
  also have "\<dots> \<le> nat (bb_keepRecentDigests b) * ?c"
    using assms(2) by (intro mult_le_mono1) (simp add: cutoff_def)
  finally show ?thesis .
qed

lemma validated_budget_never_throws:
  assumes "validateBoardBudget budget = None"
    and "length (filter (\<lambda>e. e_state e \<notin> TERMINAL) (map snd b)) \<le> nat (bb_maxActiveSteps budget)"
    and "length (filter is_awaiting (map snd b)) \<le> 1"
    and "\<And>e. e \<in> snd ` set b \<Longrightarrow> e_state e \<in> TERMINAL \<Longrightarrow> length (terminal_head e) \<le> 22"
    and "length (nat_str (length b)) \<le> 200"
  shows "\<exists>t. renderBoard lc b budget = Inr t"
proof (rule ccontr)
  assume "\<nexists>t. renderBoard lc b budget = Inr t"
  then obtain err where err: "renderBoard lc b budget = Inl err"
    by (metis sum.exhaust)
  let ?E = "map snd b"
  let ?act = "actionable_lines lc budget ?E" and ?rec = "recent_lines budget ?E"
  let ?n = "length (older_lines budget ?E)"
  note v = assms(1) [unfolded validateBoardBudget_None_iff]
  have "?n \<le> length (terminals ?E)"
    by (simp add: older_lines_def)
  also have "\<dots> \<le> length ?E"
    unfolding terminals_def length_sort by (rule length_filter_le)
  finally have "?n \<le> length b" by simp
  then have "length (nat_str ?n) \<le> 200"
    using digits_mono_length assms(5) order_trans by blast
  then have m: "(\<Sum>l\<leftarrow>omitted_marker ?n. length l + 1) \<le> 225"
    by (simp add: omitted_marker_def)
  have "length (protected_block lc budget ?E) \<le> (\<Sum>l\<leftarrow>?act @ omitted_marker ?n @ [] @ ?rec. length l + 1)"
    unfolding protected_block_def assemble_def by (rule order_trans [OF length_join_le]) simp
  also have "\<dots> = (\<Sum>l\<leftarrow>?act. length l + 1) + (\<Sum>l\<leftarrow>omitted_marker ?n. length l + 1) + (\<Sum>l\<leftarrow>?rec. length l + 1)"
    by simp
  also have "\<dots> \<le> (nat (bb_maxActiveSteps budget) * (24 + nat (bb_maxIntentChars budget)) + 6) + 225
      + nat (bb_keepRecentDigests budget) * (24 + nat (bb_maxDigestChars budget))"
    using actionable_lines_length [OF _ assms(3,2), of budget lc] recent_lines_length [of budget ?E] m v assms(4)
    by (intro add_mono) auto
  finally have "int (length (protected_block lc budget ?E)) \<le>
      int ((nat (bb_maxActiveSteps budget) * (24 + nat (bb_maxIntentChars budget)) + 6) + 225
        + nat (bb_keepRecentDigests budget) * (24 + nat (bb_maxDigestChars budget)))"
    by (simp only: of_nat_le_iff)
  also have "\<dots> \<le> board_needed budget"
    using v by (simp add: board_needed_def)
  finally have "int (length (protected_block lc budget ?E)) \<le> board_needed budget" .
  with renderBoard_Inl_protected [OF err] v show False by simp
qed

subsection \<open>Properties\<close>

text \<open>The plan the board shows does not depend on the order the decision rows are read in: their
  durable ordinals decide, and the newest decision acts on the replay of all earlier ones.\<close>

theorem plan_replay_ignores_read_order:
  assumes "mset ds' = mset (ds @ [d])" "distinct (map pr_writeOrdinal ds')"
    "\<forall>x \<in> set ds. pr_writeOrdinal x < pr_writeOrdinal d"
  shows "reconstructPlanStructure ds' = replay_decision (reconstructPlanStructure ds) d"
proof -
  have "reconstructPlanStructure ds' = reconstructPlanStructure (ds @ [d])"
    by (rule reconstructPlanStructure_perm [OF assms(1,2)])
  also have "\<dots> = replay_decision (reconstructPlanStructure ds) d"
    using assms(3) by (intro reconstructPlanStructure_snoc) (auto intro: less_imp_le)
  finally show ?thesis .
qed

definition sample_decision :: "string \<Rightarrow> int \<Rightarrow> string \<Rightarrow> string option \<Rightarrow> plan_record" where
  "sample_decision kind n nm anchor = \<lparr>pr_runId = ''r'', pr_kind = kind, pr_decisionId = None, pr_slotId = None,
     pr_steps = [(mk_step nm [])\<lparr>s_stepId := Some nm\<rparr>], pr_writeOrdinal = n, pr_anchor = anchor\<rparr>"

theorem plan_replay_ignores_read_order_witness:
  "reconstructPlanStructure [sample_decision ''replan'' 2 ''b'' (Some ''a''), sample_decision ''create'' 1 ''a'' None]
     = [(mk_step ''b'' [])\<lparr>s_stepId := Some ''b''\<rparr>]"
proof -
  let ?c = "sample_decision ''create'' 1 ''a'' None" and ?r = "sample_decision ''replan'' 2 ''b'' (Some ''a'')"
  have "reconstructPlanStructure [?r, ?c] = replay_decision (reconstructPlanStructure [?c]) ?r"
    by (rule plan_replay_ignores_read_order) (simp_all add: sample_decision_def)
  then show ?thesis
    by (simp add: reconstructPlanStructure_def replay_decision_def sample_decision_def)
qed

text \<open>The state the board shows for a step is that of its latest attempt: once that attempt has a
  result, the state is the projection of a result of that very attempt that no other result of it
  outranks.\<close>

theorem board_shows_latest_attempt:
  assumes "r \<in> set (resultsOf es (e_stepId e))" "0 \<le> entry_attempt r"
    "entry_attempt r = maxAttempt (resultsOf es (e_stepId e)) (claimsOf cs (e_stepId e)) (inFlightFor fl (e_stepId e))"
  shows "\<exists>w. w \<in> set (resultsOf es (e_stepId e)) \<and> entry_attempt w = entry_attempt r
     \<and> RANK (o_status (entry_outcome r)) \<le> RANK (o_status (entry_outcome w))
     \<and> e_state (settle_entry es cs fl p e) = projectStepState (o_status (entry_outcome w))
     \<and> e_attempt (settle_entry es cs fl p e) = Some (entry_attempt r)"
  by (rule settle_entry_settled [OF assms])

definition sample_result :: "int \<Rightarrow> status \<Rightarrow> kentry" where
  "sample_result att s = \<lparr>k_content = CText [], k_meta = (base_meta ''s'' ''x'' ''step-result'' 0)
     \<lparr>m_stepId := Some ''i'', m_attempt := Some att, m_status := Some s\<rparr>\<rparr>"

theorem board_shows_latest_attempt_witness:
  "e_state (settle_entry [sample_result 0 SOk, sample_result 1 SFailed] [] None None (planned_entry ''i'' (mk_step ''a'' [])))
     = FailedState"
proof -
  let ?es = "[sample_result 0 SOk, sample_result 1 SFailed]" and ?e = "planned_entry ''i'' (mk_step ''a'' [])"
  have r: "resultsOf ?es (e_stepId ?e) = ?es"
    by (simp add: resultsOf_def sample_result_def planned_entry_def)
  have a: "entry_attempt (sample_result n s) = n" for n s
    by (simp add: entry_attempt_def sample_result_def)
  obtain w where "w \<in> set ?es" "entry_attempt w = 1"
    "e_state (settle_entry ?es [] None None ?e) = projectStepState (o_status (entry_outcome w))"
    using board_shows_latest_attempt [of "sample_result 1 SFailed" ?es ?e "[]" None None]
    by (auto simp: r a maxAttempt_def claimsOf_def inFlightFor_def)
  moreover then have "w = sample_result 1 SFailed" by (auto simp: a)
  ultimately show ?thesis
    by (simp add: entry_outcome_def sample_result_def)
qed

text \<open>The rendered board never exceeds its cap: rendering drops old summaries first and refuses only when
  the lines it must not drop are already too long.  Under a validated budget, with no more open steps than
  \<open>maxActiveSteps\<close>, one of them suspended and short names, it does not refuse.\<close>

theorem board_render_is_bounded:
  assumes "0 \<le> bb_maxBoardChars budget"
  shows "(case renderBoard lc b budget of
            Inr t \<Rightarrow> int (length t) \<le> bb_maxBoardChars budget
          | Inl _ \<Rightarrow> bb_maxBoardChars budget < int (length (protected_block lc budget (map snd b))))
     \<and> (validateBoardBudget budget = None
          \<and> length (filter (\<lambda>e. e_state e \<notin> TERMINAL) (map snd b)) \<le> nat (bb_maxActiveSteps budget)
          \<and> length (filter is_awaiting (map snd b)) \<le> 1
          \<and> (\<forall>e \<in> snd ` set b. e_state e \<in> TERMINAL \<longrightarrow> length (terminal_head e) \<le> 22)
          \<and> length (nat_str (length b)) \<le> 200
        \<longrightarrow> (\<exists>t. renderBoard lc b budget = Inr t))"
proof (rule conjI, goal_cases)
  case 1
  show ?case
    using renderBoard_bounded [OF _ assms] renderBoard_Inl_protected by (auto split: sum.split)
next
  case 2
  show ?case
    by (intro impI validated_budget_never_throws) auto
qed

theorem board_render_is_bounded_witness:
  "\<exists>t. renderBoard (\<lambda>_ _. 0) [(''i'', planned_entry ''i'' (mk_step ''a'' ''do''))]
        \<lparr>bb_maxDigestChars = 500, bb_maxIntentChars = 120, bb_maxActiveSteps = 16, bb_maxBoardChars = 12000,
         bb_keepRecentDigests = 8\<rparr> = Inr t \<and> length t \<le> 12000"
proof -
  let ?b = "[(''i'', planned_entry ''i'' (mk_step ''a'' ''do''))]"
  let ?bud = "\<lparr>bb_maxDigestChars = 500, bb_maxIntentChars = 120, bb_maxActiveSteps = 16, bb_maxBoardChars = 12000,
         bb_keepRecentDigests = 8\<rparr>"
  have 1: "0 \<le> bb_maxBoardChars ?bud" by simp
  have "length (nat_str (length ?b)) \<le> 200" by (simp add: digits.simps)
  then have "\<exists>t. renderBoard (\<lambda>_ _. 0) ?b ?bud = Inr t"
    using board_render_is_bounded [OF 1, of "\<lambda>_ _. 0" ?b]
    by (auto simp: validateBoardBudget_None_iff board_needed_def planned_entry_def TERMINAL_def is_awaiting_def)
  then obtain t where t: "renderBoard (\<lambda>_ _. 0) ?b ?bud = Inr t" by blast
  have "int (length t) \<le> 12000"
    using board_render_is_bounded [OF 1, of "\<lambda>_ _. 0" ?b] by (simp add: t)
  with t show ?thesis by auto
qed

end
