(* ===== verification/Planner.thy ===== *)
theory Planner
  imports PlanParser Artifacts SessionBundle Board
begin

text \<open>
  Model of \<open>controller/planner.ts\<close>, \<open>prompts.ts\<close> and the plan-first engine \<open>SmartExecutorPlanner\<close>:
  creating the plan, replanning its tail after a failure, a partial result or an external result,
  and the cursor.  One call of \<open>next\<close> is given the replies of its language model as a function
  \<open>send\<close> of the messages; the long prompt texts are the record \<open>planner_prompts\<close>, in which the smart
  and the weak planner differ.
\<close>

definition appendHint :: "string \<Rightarrow> string option \<Rightarrow> string" where
  "appendHint system hint =
     (let h = (case hint of None \<Rightarrow> [] | Some s \<Rightarrow> trim s)
      in if h \<noteq> [] then system @ newline @ newline @ ''Additional guidance: '' @ h else system)"

record planner_prompts =
  pp_create :: string
  pp_replan :: string
  pp_external :: string
  pp_finalize :: string

datatype planner_kind = SmartExecutor | WeakExecutor

definition withSkillsBlock :: "string \<Rightarrow> string \<Rightarrow> string" where
  "withSkillsBlock userContent block =
     (if block \<noteq> [] then userContent @ newline @ newline @ block else userContent)"

definition progressBlock :: "session_bundle \<Rightarrow> string option \<Rightarrow> string" where
  "progressBlock b boardText =
     (case boardText of
        Some t \<Rightarrow> if length t > 0 then t @ newline @ b_plannerPrivate b else b_plannerPrivate b
      | None \<Rightarrow> b_plannerPrivate b)"

definition recordDecision :: "session_bundle \<Rightarrow> plan_decision \<Rightarrow> session_bundle" where
  "recordDecision b d = b\<lparr>b_pendingDecisions := Some (nullish (b_pendingDecisions b) [] @ [d])\<rparr>"

subsection \<open>The environment of one call\<close>

record planner_env =
  pe_prompts :: planner_prompts
  pe_hint :: "string option"
  pe_skills :: "(string \<Rightarrow> string) option"
  pe_hash :: "string \<Rightarrow> string"

definition makeControllerPlanner ::
  "planner_prompts \<Rightarrow> planner_prompts \<Rightarrow> planner_kind \<Rightarrow> string option \<Rightarrow> (string \<Rightarrow> string) option \<Rightarrow>
   (string \<Rightarrow> string) \<Rightarrow> planner_env" where
  "makeControllerPlanner smart weak kind hint skills H =
     \<lparr>pe_prompts = (if kind = WeakExecutor then weak else smart), pe_hint = hint,
      pe_skills = skills, pe_hash = H\<rparr>"

definition completed_block :: "step list \<Rightarrow> string" where
  "completed_block completed =
     (if completed \<noteq> [] then
        newline @ ''ALREADY-EXECUTED steps '' @ [em_dash]
          @ '' their results are in Progress above; do NOT plan or repeat these, plan only what is still missing:''
          @ newline @ join newline (map (\<lambda>s. ''- '' @ s_name s) completed)
      else [])"

definition callPlan ::
  "planner_env \<Rightarrow> (message list \<Rightarrow> subagent_result) \<Rightarrow> string \<Rightarrow> session_bundle \<Rightarrow> string \<Rightarrow> bool \<Rightarrow>
   step list \<Rightarrow> string option \<Rightarrow> plan_reply" where
  "callPlan env send system b prompt retrying completed boardText =
     (let skillsBlock = (case pe_skills env of None \<Rightarrow> [] | Some f \<Rightarrow> f (b_goal b));
          sys = appendHint system (pe_hint env)
                  @ (if retrying then newline @ ''IMPORTANT: your previous reply was NOT valid JSON. Reply with ONLY the raw JSON object.'' else []);
          usr = withSkillsBlock
                  (''Goal: '' @ b_goal b @ newline @ ''Progress:'' @ progressBlock b boardText
                     @ completed_block completed @ newline @ ''Request: '' @ prompt) skillsBlock
      in case send [\<lparr>msg_role = ''system'', msg_content = sys\<rparr>, \<lparr>msg_role = ''user'', msg_content = usr\<rparr>] of
           RContent c \<Rightarrow> parsePlan c
         | _ \<Rightarrow> PlanNull)"

definition stepAtCursor ::
  "planner_env \<Rightarrow> (message list \<Rightarrow> subagent_result) \<Rightarrow> session_bundle \<Rightarrow> string \<Rightarrow> string option \<Rightarrow> next_step option" where
  "stepAtCursor env send b prompt boardText =
     (let plan = nullish (b_plan b) []; cursor = nullish (b_planCursor b) 0
      in if cursor \<ge> length plan then
           (case send [\<lparr>msg_role = ''system'', msg_content = appendHint (pp_finalize (pe_prompts env)) (pe_hint env)\<rparr>,
                       \<lparr>msg_role = ''user'', msg_content = ''Goal: '' @ b_goal b @ newline @ ''Request: '' @ prompt
                          @ newline @ ''Progress:'' @ progressBlock b boardText\<rparr>] of
              RContent c \<Rightarrow> Some (DoneStep c)
            | _ \<Rightarrow> None)
         else Some (NextStep (plan ! cursor)))"

text \<open>The bundle after a create or a replan answered with steps.\<close>

definition create_plan :: "(string \<Rightarrow> string) \<Rightarrow> session_bundle \<Rightarrow> step list \<Rightarrow> session_bundle" where
  "create_plan H b plan =
     (let minted = mintCreateStepIds H plan (nullish (b_runId b) [])
      in recordDecision (b\<lparr>b_plan := Some minted, b_planCursor := Some 0\<rparr>)
           \<lparr>d_steps = minted, d_key = KCreate (nullish (b_runId b) [])\<rparr>)"

definition cursor_anchor :: "session_bundle \<Rightarrow> string" where
  "cursor_anchor b =
     (let plan = nullish (b_plan b) []; cursor = nullish (b_planCursor b) 0
      in if cursor < length plan then nullish (s_stepId (plan ! cursor)) [] else [])"

definition replan_tail :: "(string \<Rightarrow> string) \<Rightarrow> session_bundle \<Rightarrow> step list \<Rightarrow> session_bundle" where
  "replan_tail H b rest =
     (let plan = nullish (b_plan b) []; cursor = nullish (b_planCursor b) 0;
          anchor = cursor_anchor b;
          minted = mintReplanStepIds H rest (nullish (b_runId b) []) anchor
      in (recordDecision (b\<lparr>b_plan := Some (take cursor plan @ minted)\<rparr>)
           \<lparr>d_steps = minted, d_key = KReplanAnchor (nullish (b_runId b) []) anchor\<rparr>)
           \<lparr>b_lastOutcome := None\<rparr>)"

definition planner_next ::
  "planner_env \<Rightarrow> (message list \<Rightarrow> subagent_result) \<Rightarrow> session_bundle \<Rightarrow> string \<Rightarrow> step_outcome option \<Rightarrow>
   bool \<Rightarrow> bool \<Rightarrow> string option \<Rightarrow> next_step option \<times> session_bundle" where
  "planner_next env send b prompt lastOutcome resumedExternal retrying boardText =
     (case b_plan b of
        None \<Rightarrow>
          (case callPlan env send (pp_create (pe_prompts env)) b prompt retrying [] boardText of
             PlanError err \<Rightarrow> (Some (ErrorStep err), b)
           | PlanNull \<Rightarrow> (None, b)
           | PlanSteps plan \<Rightarrow>
               if length plan = 0 then (None, b)
               else let b' = create_plan (pe_hash env) b plan
                    in (stepAtCursor env send b' prompt boardText, b'))
      | Some plan \<Rightarrow>
          if lastOutcome = Some FailedOutcome \<or> lastOutcome = Some PartialOutcome \<or> resumedExternal then
            (let system = (if resumedExternal then pp_external (pe_prompts env) else pp_replan (pe_prompts env));
                 cursor = nullish (b_planCursor b) 0
             in case callPlan env send system b prompt retrying (take cursor plan) boardText of
                  PlanError err \<Rightarrow> (Some (ErrorStep err), b)
                | PlanNull \<Rightarrow> (None, b)
                | PlanSteps rest \<Rightarrow>
                    let b' = replan_tail (pe_hash env) b rest
                    in (stepAtCursor env send b' prompt boardText, b'))
          else (stepAtCursor env send b prompt boardText, b))"

definition planner_commit_op :: "session_bundle \<Rightarrow> step_outcome \<Rightarrow> session_bundle" where
  "planner_commit_op b outcome =
     (if outcome = Advanced \<or> outcome = PartialOutcome
      then b\<lparr>b_planCursor := Some (nullish (b_planCursor b) 0 + 1)\<rparr> else b)"

interpretation pc: planner_commit planner_commit_op
proof
  fix b out
  show "\<exists>c. planner_commit_op b out = b\<lparr>b_planCursor := c\<rparr>"
  proof (cases "out = FailedOutcome")
    case True
    then show ?thesis by (intro exI [of _ "b_planCursor b"]) (simp add: planner_commit_op_def)
  next
    case False
    then show ?thesis by (cases out) (auto simp: planner_commit_op_def)
  qed
  show "out \<noteq> FailedOutcome \<Longrightarrow> b_planCursor (planner_commit_op b out) = Some (nullish (b_planCursor b) 0 + 1)"
    by (cases out) (simp_all add: planner_commit_op_def)
  show "b_planCursor (planner_commit_op b FailedOutcome) = b_planCursor b"
    by (simp add: planner_commit_op_def)
qed

subsection \<open>Frames\<close>

lemma recordDecision_frame [frame_simps]:
  "b_plan (recordDecision b d) = b_plan b" "b_planCursor (recordDecision b d) = b_planCursor b"
  "b_runId (recordDecision b d) = b_runId b" "b_lastOutcome (recordDecision b d) = b_lastOutcome b"
  "b_pendingDecisions (recordDecision b d) = Some (nullish (b_pendingDecisions b) [] @ [d])"
  by (simp_all add: recordDecision_def)

lemma planner_next_frame:
  assumes "planner_next env send b prompt lo ext retrying bt = (r, b')"
  shows "b' = b\<lparr>b_plan := b_plan b', b_planCursor := b_planCursor b',
                b_pendingDecisions := b_pendingDecisions b', b_lastOutcome := b_lastOutcome b'\<rparr>"
  using assms
  by (auto simp: planner_next_def create_plan_def replan_tail_def recordDecision_def Let_def
      split: option.splits plan_reply.splits if_splits)

text \<open>The three ways a call leaves the bundle.\<close>

lemma planner_next_cases:
  assumes "planner_next env send b prompt lo ext retrying bt = (r, b')"
  obtains (unchanged) "b' = b"
    | (created) plan where "b_plan b = None" "plan \<noteq> []" "b' = create_plan (pe_hash env) b plan"
        "r = stepAtCursor env send b' prompt bt"
        "\<And>s. s \<in> set plan \<Longrightarrow> step_wf s"
    | (replanned) plan rest where "b_plan b = Some plan" "b' = replan_tail (pe_hash env) b rest"
        "r = stepAtCursor env send b' prompt bt"
        "\<And>s. s \<in> set rest \<Longrightarrow> step_wf s"
proof -
  have wf: "callPlan env send sys b prompt rt done bt = PlanSteps ss \<Longrightarrow> s \<in> set ss \<Longrightarrow> step_wf s"
    for sys rt "done" ss s
    by (auto simp: callPlan_def Let_def split: subagent_result.splits dest: parsePlan_wf)
  show thesis
  proof (cases "b_plan b")
    case None
    show thesis
    proof (cases "callPlan env send (pp_create (pe_prompts env)) b prompt retrying [] bt")
      case (PlanSteps plan)
      show thesis
      proof (cases "plan = []")
        case True
        with assms None PlanSteps unchanged show thesis by (simp add: planner_next_def)
      next
        case False
        with assms None PlanSteps created [of plan] wf [OF PlanSteps] show thesis
          by (auto simp: planner_next_def Let_def)
      qed
    qed (use assms None unchanged in \<open>auto simp: planner_next_def\<close>)
  next
    case (Some plan)
    show thesis
    proof (cases "lo = Some FailedOutcome \<or> lo = Some PartialOutcome \<or> ext")
      case True
      show thesis
      proof (cases "callPlan env send (if ext then pp_external (pe_prompts env) else pp_replan (pe_prompts env))
               b prompt retrying (take (nullish (b_planCursor b) 0) plan) bt")
        case (PlanSteps rest)
        with assms Some True replanned [of plan rest] wf [OF PlanSteps] show thesis
          by (auto simp: planner_next_def Let_def)
      qed (use assms Some True unchanged in \<open>auto simp: planner_next_def Let_def\<close>)
    qed (use assms Some unchanged in \<open>auto simp: planner_next_def\<close>)
  qed
qed

subsection \<open>The durable decisions replay to the plan\<close>

text \<open>How the controller persists a queued decision and the board reads it back (\<open>d_key\<close> of the
  decisions a planner queues is a create or an anchored replan).\<close>

definition record_of :: "plan_decision \<Rightarrow> plan_record" where
  "record_of d = \<lparr>pr_runId = key_run (d_key d), pr_kind = key_kind (d_key d), pr_decisionId = None,
     pr_slotId = None, pr_steps = d_steps d, pr_writeOrdinal = 0, pr_anchor = key_anchor (d_key d)\<rparr>"

definition replay_log :: "plan_decision list \<Rightarrow> step list" where
  "replay_log ds = foldl (\<lambda>p d. replay_decision p (record_of d)) [] ds"

lemma replay_log_snoc: "replay_log (ds @ [d]) = replay_decision (replay_log ds) (record_of d)"
  by (simp add: replay_log_def)

text \<open>Every step of the plan has an identity of its own.\<close>

definition ids_ok :: "step list \<Rightarrow> bool" where
  "ids_ok plan \<longleftrightarrow> distinct (map s_stepId plan) \<and> (\<forall>s \<in> set plan. truthy (s_stepId s))"

lemma replay_create_plan:
  "replay_decision p (record_of \<lparr>d_steps = ss, d_key = KCreate r\<rparr>) = ss"
  by (simp add: replay_decision_def record_of_def)

lemma replay_replan_tail:
  assumes "ids_ok plan" "b_plan b = Some plan"
  shows "replay_decision plan (record_of \<lparr>d_steps = ss, d_key = KReplanAnchor r (cursor_anchor b)\<rparr>)
           = take (nullish (b_planCursor b) 0) plan @ ss"
proof (cases "nullish (b_planCursor b) 0 < length plan")
  case True
  let ?c = "nullish (b_planCursor b) 0"
  have "truthy (s_stepId (plan ! ?c))"
    using assms(1) True by (simp add: ids_ok_def)
  then obtain a where a: "s_stepId (plan ! ?c) = Some a" "a \<noteq> []"
    by (cases "s_stepId (plan ! ?c)") auto
  with assms True have "cursor_anchor b = a"
    by (simp add: cursor_anchor_def)
  let ?d = "record_of \<lparr>d_steps = ss, d_key = KReplanAnchor r a\<rparr>"
  have "replay_decision plan ?d = take ?c plan @ pr_steps ?d"
    using a assms(1) True by (intro replay_replan_at [of _ a]) (simp_all add: record_of_def ids_ok_def)
  then show ?thesis
    by (simp add: \<open>cursor_anchor b = a\<close> record_of_def)
next
  case False
  then have "cursor_anchor b = []"
    using assms(2) by (simp add: cursor_anchor_def)
  with False show ?thesis
    by (simp add: replay_decision_def record_of_def)
qed

text \<open>The decisions already durable, followed by the queued ones, replay to the plan in the bundle.\<close>

definition plan_synced :: "plan_decision list \<Rightarrow> session_bundle \<Rightarrow> bool" where
  "plan_synced log b \<longleftrightarrow>
     replay_log (log @ nullish (b_pendingDecisions b) []) = nullish (b_plan b) []"

lemma plan_synced_create:
  assumes "b' = create_plan H b plan"
  shows "plan_synced log b'"
  using assms
  by (simp add: plan_synced_def create_plan_def Let_def recordDecision_def replay_create_plan
        replay_log_snoc flip: append_assoc)

lemma replan_tail_plan:
  "b_plan (replan_tail H b rest) =
     Some (take (nullish (b_planCursor b) 0) (nullish (b_plan b) [])
           @ mintReplanStepIds H rest (nullish (b_runId b) []) (cursor_anchor b))"
  "b_planCursor (replan_tail H b rest) = b_planCursor b"
  "b_runId (replan_tail H b rest) = b_runId b"
  by (simp_all add: replan_tail_def Let_def recordDecision_def)

lemma replan_tail_pending:
  "nullish (b_pendingDecisions (replan_tail H b rest)) [] =
     nullish (b_pendingDecisions b) []
       @ [\<lparr>d_steps = mintReplanStepIds H rest (nullish (b_runId b) []) (cursor_anchor b),
           d_key = KReplanAnchor (nullish (b_runId b) []) (cursor_anchor b)\<rparr>]"
  by (simp add: replan_tail_def Let_def recordDecision_def)

lemma plan_synced_replan:
  assumes "plan_synced log b" "b_plan b = Some plan" "ids_ok plan" "b' = replan_tail H b rest"
  shows "plan_synced log b'"
proof -
  have "replay_log (log @ nullish (b_pendingDecisions b) []) = plan"
    using assms(1,2) by (simp add: plan_synced_def)
  then show ?thesis
    unfolding assms(4) plan_synced_def replan_tail_pending append_assoc [symmetric] replay_log_snoc
    by (simp add: replay_replan_tail [OF assms(3,2)] replan_tail_plan assms(2))
qed

lemma plan_synced_next:
  assumes "plan_synced log b" "ids_ok (nullish (b_plan b) [])"
    "planner_next env send b prompt lo ext retrying bt = (r, b')"
  shows "plan_synced log b'"
  using assms(3)
proof (cases rule: planner_next_cases)
  case unchanged
  with assms(1) show ?thesis by simp
next
  case (created plan)
  from created(3) show ?thesis by (rule plan_synced_create)
next
  case (replanned plan rest)
  from assms(2) replanned(1) have "ids_ok plan" by simp
  from plan_synced_replan [OF assms(1) replanned(1) this replanned(2)] show ?thesis .
qed

lemma plan_synced_commit: "plan_synced log (planner_commit_op b out) = plan_synced log b"
  by (cases out) (simp_all add: plan_synced_def planner_commit_op_def)

text \<open>Draining moves the queue into the log.\<close>

lemma plan_synced_drain:
  "plan_synced log b \<Longrightarrow>
     plan_synced (log @ nullish (b_pendingDecisions b) []) (b\<lparr>b_pendingDecisions := None\<rparr>)"
  by (simp add: plan_synced_def)

subsection \<open>Identities under replanning\<close>

text \<open>A replan past the end of the plan has no step to anchor at; its identities depend on the run
  alone, so a second such replan mints the identities of the first again.\<close>

lemma replan_past_end_ids:
  assumes "length (nullish (b_plan b) []) \<le> nullish (b_planCursor b) 0"
  shows "map s_stepId (mintReplanStepIds H rest (nullish (b_runId b) []) (cursor_anchor b)) =
           map (\<lambda>i. Some (deterministicId H [nullish (b_runId b) [], ''replan'', [], nat_str i])) [0..<length rest]"
  using assms by (simp add: cursor_anchor_def mintReplanStepIds_ids)

lemma second_replan_past_end:
  assumes "length (nullish (b_plan b) []) = nullish (b_planCursor b) 0"
    and "b1 = planner_commit_op (replan_tail H b [x]) PartialOutcome"
    and "b2 = replan_tail H b1 [y]"
  shows "\<exists>sx sy. b_plan b2 = Some (nullish (b_plan b) [] @ [sx, sy]) \<and> s_stepId sx = s_stepId sy
           \<and> s_name sx = s_name x \<and> s_name sy = s_name y"
proof -
  let ?r = "nullish (b_runId b) []"
  have c: "cursor_anchor b = []"
    using assms(1) by (simp add: cursor_anchor_def)
  have p1: "b_plan b1 = Some (nullish (b_plan b) [] @ mintReplanStepIds H [x] ?r [])"
      "b_planCursor b1 = Some (Suc (length (nullish (b_plan b) [])))" "nullish (b_runId b1) [] = ?r"
    using assms(1,2) by (simp_all add: replan_tail_plan planner_commit_op_def c)
  then have "cursor_anchor b1 = []"
    by (simp add: cursor_anchor_def)
  then have "b_plan b2 = Some (nullish (b_plan b) [] @ mintReplanStepIds H [x] ?r [] @ mintReplanStepIds H [y] ?r [])"
    using assms(3) p1 by (simp add: replan_tail_plan)
  then show ?thesis
    by (simp add: mintReplanStepIds_def)
qed

text \<open>The two steps of one identity break the durable plan: when the second fails and is replaced, the
  decision anchors at its identity, and replaying the decisions finds the first step there and drops it.\<close>

definition past_end_id :: "(string \<Rightarrow> string) \<Rightarrow> string \<Rightarrow> string" where
  "past_end_id H r = deterministicId H [r, ''replan'', [], nat_str 0]"

definition tail_step :: "(string \<Rightarrow> string) \<Rightarrow> string \<Rightarrow> string \<Rightarrow> step \<Rightarrow> step" where
  "tail_step H r a x =
     x\<lparr>s_stepId := Some (deterministicId H [r, ''replan'', a, nat_str 0]), s_supersedes := Some a\<rparr>"

lemma mintReplan_single: "mintReplanStepIds H [x] r a = [tail_step H r a x]"
  by (simp add: mintReplanStepIds_def tail_step_def)

lemma replan_tail_single:
  assumes "b_runId b = Some r"
  shows "b_plan (replan_tail H b [x]) =
      Some (take (nullish (b_planCursor b) 0) (nullish (b_plan b) []) @ [tail_step H r (cursor_anchor b) x])"
    "nullish (b_pendingDecisions (replan_tail H b [x])) [] = nullish (b_pendingDecisions b) []
       @ [\<lparr>d_steps = [tail_step H r (cursor_anchor b) x], d_key = KReplanAnchor r (cursor_anchor b)\<rparr>]"
  using assms by (simp_all add: replan_tail_plan replan_tail_pending mintReplan_single)

lemma replay_anchored:
  "replay_decision plan (record_of \<lparr>d_steps = ss, d_key = KReplanAnchor r a\<rparr>) =
     (if a = [] then plan @ ss
      else case findIndex (\<lambda>s. s_stepId s = Some a) plan of Some i \<Rightarrow> take i plan @ ss | None \<Rightarrow> plan @ ss)"
  by (simp add: replay_decision_def record_of_def)

lemma findIndex_append_first:
  "\<forall>s \<in> set xs. \<not> p s \<Longrightarrow> p y \<Longrightarrow> findIndex p (xs @ y # ys) = Some (length xs)"
  by (induction xs) auto

lemma third_replan_desync:
  assumes "b_runId b = Some r" "nullish (b_plan b) [] = plan" "nullish (b_planCursor b) 0 = length plan"
    "plan_synced log b" "past_end_id H r \<noteq> []" "\<forall>s \<in> set plan. s_stepId s \<noteq> Some (past_end_id H r)"
    "b1 = planner_commit_op (replan_tail H b [x]) PartialOutcome"
    "b2 = replan_tail H b1 [y]" "b3 = replan_tail H b2 [z]"
  shows "b_plan b3 = Some (plan @ [tail_step H r [] x, tail_step H r (past_end_id H r) z])"
    "replay_log (log @ nullish (b_pendingDecisions b3) []) = plan @ [tail_step H r (past_end_id H r) z]"
proof -
  let ?i = "past_end_id H r"
  let ?x = "tail_step H r [] x" let ?y = "tail_step H r [] y" let ?z = "tail_step H r ?i z"
  have id: "s_stepId ?x = Some ?i" "s_stepId ?y = Some ?i"
    by (simp_all add: tail_step_def past_end_id_def)
  have a0: "cursor_anchor b = []" using assms(2,3) by (simp add: cursor_anchor_def)
  have b1: "b_plan b1 = Some (plan @ [?x])" "b_planCursor b1 = Some (Suc (length plan))" "b_runId b1 = Some r"
    "nullish (b_pendingDecisions b1) [] = nullish (b_pendingDecisions b) [] @ [\<lparr>d_steps = [?x], d_key = KReplanAnchor r []\<rparr>]"
    using assms(1-3,7) replan_tail_single [OF assms(1), of H x]
    by (simp_all add: planner_commit_op_def replan_tail_plan a0)
  have a1: "cursor_anchor b1 = []" using b1(1,2) by (simp add: cursor_anchor_def)
  have b2: "b_plan b2 = Some (plan @ [?x, ?y])" "b_planCursor b2 = Some (Suc (length plan))" "b_runId b2 = Some r"
    "nullish (b_pendingDecisions b2) [] = nullish (b_pendingDecisions b1) [] @ [\<lparr>d_steps = [?y], d_key = KReplanAnchor r []\<rparr>]"
    using b1 assms(8) replan_tail_single [OF b1(3), of H y] by (simp_all add: replan_tail_plan a1)
  have a2: "cursor_anchor b2 = ?i"
    using b2(1,2) id by (simp add: cursor_anchor_def nth_append)
  have b3: "b_plan b3 = Some (take (Suc (length plan)) (plan @ [?x, ?y]) @ [?z])"
    "nullish (b_pendingDecisions b3) [] = nullish (b_pendingDecisions b2) [] @ [\<lparr>d_steps = [?z], d_key = KReplanAnchor r ?i\<rparr>]"
    using b2 assms(9) replan_tail_single [OF b2(3), of H z] by (simp_all add: a2)
  then show "b_plan b3 = Some (plan @ [?x, ?z])" by simp
  have log0: "replay_log (log @ nullish (b_pendingDecisions b) []) = plan"
    using assms(2,4) by (simp add: plan_synced_def)
  have f: "findIndex (\<lambda>s. s_stepId s = Some ?i) (plan @ [?x, ?y]) = Some (length plan)"
    using assms(6) id by (intro findIndex_append_first) auto
  have "log @ nullish (b_pendingDecisions b3) [] = (((log @ nullish (b_pendingDecisions b) [])
      @ [\<lparr>d_steps = [?x], d_key = KReplanAnchor r []\<rparr>]) @ [\<lparr>d_steps = [?y], d_key = KReplanAnchor r []\<rparr>])
      @ [\<lparr>d_steps = [?z], d_key = KReplanAnchor r ?i\<rparr>]"
    by (simp add: b3(2) b2(4) b1(4))
  then show "replay_log (log @ nullish (b_pendingDecisions b3) []) = plan @ [?z]"
    using f assms(5) by (simp only: replay_log_snoc log0 replay_anchored) simp
qed

subsection \<open>Properties\<close>

text \<open>C10. Two replans in a row past the end of the plan give two steps one identity; when the second of them
  is then replaced, the plan in memory keeps the first, which has run, while the durable decisions replay
  to a plan that has lost it.\<close>

theorem replans_past_the_end_lose_a_step:
  assumes "b_runId b = Some r" "nullish (b_plan b) [] = plan" "nullish (b_planCursor b) 0 = length plan"
    "plan_synced log b" "past_end_id H r \<noteq> []" "\<forall>s \<in> set plan. s_stepId s \<noteq> Some (past_end_id H r)"
    "b1 = planner_commit_op (replan_tail H b [x]) PartialOutcome"
    "b2 = replan_tail H b1 [y]" "b3 = replan_tail H b2 [z]"
  shows "b_plan b3 = Some (plan @ [tail_step H r [] x, tail_step H r (past_end_id H r) z])
     \<and> replay_log (log @ nullish (b_pendingDecisions b3) []) = plan @ [tail_step H r (past_end_id H r) z]"
  using third_replan_desync [OF assms] by blast

theorem replans_past_the_end_lose_a_step_witness:
  "let b = (create_plan (\<lambda>s. s) (emptyBundle\<lparr>b_runId := Some ''r''\<rparr>) [mk_step ''a'' []])\<lparr>b_planCursor := Some 1\<rparr>;
       b1 = planner_commit_op (replan_tail (\<lambda>s. s) b [mk_step ''x'' []]) PartialOutcome;
       b3 = replan_tail (\<lambda>s. s) (replan_tail (\<lambda>s. s) b1 [mk_step ''y'' []]) [mk_step ''z'' []]
   in map s_name (nullish (b_plan b3) []) = [''a'', ''x'', ''z'']
      \<and> map s_name (replay_log (nullish (b_pendingDecisions b3) [])) = [''a'', ''z'']"
proof -
  let ?b0 = "create_plan (\<lambda>s. s) (emptyBundle\<lparr>b_runId := Some ''r''\<rparr>) [mk_step ''a'' []]"
  let ?b = "?b0\<lparr>b_planCursor := Some 1\<rparr>"
  let ?plan = "mintCreateStepIds (\<lambda>s. s) [mk_step ''a'' []] ''r''"
  let ?b1 = "planner_commit_op (replan_tail (\<lambda>s. s) ?b [mk_step ''x'' []]) PartialOutcome"
  let ?b2 = "replan_tail (\<lambda>s. s) ?b1 [mk_step ''y'' []]"
  let ?b3 = "replan_tail (\<lambda>s. s) ?b2 [mk_step ''z'' []]"
  have p: "b_runId ?b = Some ''r''" "nullish (b_plan ?b) [] = ?plan" "nullish (b_planCursor ?b) 0 = length ?plan"
    by (simp_all add: create_plan_def recordDecision_def Let_def)
  have s: "plan_synced [] ?b"
    using plan_synced_create [OF refl, of "[]" "\<lambda>s. s" "emptyBundle\<lparr>b_runId := Some ''r''\<rparr>" "[mk_step ''a'' []]"]
    by (simp add: plan_synced_def)
  have i: "past_end_id (\<lambda>s. s) ''r'' \<noteq> []" "\<forall>s \<in> set ?plan. s_stepId s \<noteq> Some (past_end_id (\<lambda>s. s) ''r'')"
    by (simp_all add: past_end_id_def deterministicId_def mintCreateStepIds_def id_payload_inj del: id_payload.simps)
      (simp add: id_payload.simps)
  have "b_plan ?b3 = Some (?plan @ [tail_step (\<lambda>s. s) ''r'' [] (mk_step ''x'' []),
        tail_step (\<lambda>s. s) ''r'' (past_end_id (\<lambda>s. s) ''r'') (mk_step ''z'' [])])
     \<and> replay_log ([] @ nullish (b_pendingDecisions ?b3) []) =
        ?plan @ [tail_step (\<lambda>s. s) ''r'' (past_end_id (\<lambda>s. s) ''r'') (mk_step ''z'' [])]"
    by (rule replans_past_the_end_lose_a_step [OF p s i refl refl refl])
  then show ?thesis
    by (simp add: tail_step_def mintCreateStepIds_def mk_step_def)
qed

text \<open>Cursor and sequence number move in lockstep: settling a step through the planner's commit leaves
  their difference unchanged, keeps the plan and the run, and clears the in-flight step exactly when the
  step was accepted; a failed one waits for the replan.\<close>

theorem settling_keeps_lockstep:
  "nullish (b_nextSeq (settle_bundle (Some planner_commit_op) b out)) 0
       - int (nullish (b_planCursor (settle_bundle (Some planner_commit_op) b out)) 0)
     = nullish (b_nextSeq b) 0 - int (nullish (b_planCursor b) 0)
   \<and> b_plan (settle_bundle (Some planner_commit_op) b out) = b_plan b
   \<and> b_lastOutcome (settle_bundle (Some planner_commit_op) b out) = Some out
   \<and> b_inFlight (settle_bundle (Some planner_commit_op) b out) =
       (if out = FailedOutcome then map_option (\<lambda>f. f\<lparr>i_phase := PhAwaitingReplan\<rparr>) (b_inFlight b) else None)"
  using pc.settle_lockstep [of b out] pc.settle_inflight(1) [of out b] pc.settle_inflight(2) [of b]
    pc.settle_inflight(3,4) [of b out]
  by (cases "b_inFlight b") (auto simp: settle_bundle_def planner_commit_op_def Let_def)

end
