(* ===== verification/Recall.thy ===== *)
theory Recall
  imports Board "HOL-Library.Product_Lexorder"
begin

text \<open>
  Model of \<open>controller/recall.ts\<close>: the bounded block of recalled context, the approved results of a
  run, the run-scoped recall with its two deduplications, and the extract handed to the reviewer.
\<close>

definition RECALL_K_STEP :: nat where "RECALL_K_STEP = 4"
definition RECALL_K_MCP :: nat where "RECALL_K_MCP = 4"
definition RECALL_MAX_CHARS_STEP :: int where "RECALL_MAX_CHARS_STEP = 2000"
definition RECALL_MAX_CHARS_MCP :: int where "RECALL_MAX_CHARS_MCP = 2000"
definition RECALL_EVIDENCE_CHARS :: int where "RECALL_EVIDENCE_CHARS = 800"

fun recall_parts :: "int \<Rightarrow> int \<Rightarrow> string list \<Rightarrow> string list" where
  "recall_parts maxChars used [] = []"
| "recall_parts maxChars used (c # hits) =
     (if length c = 0 then recall_parts maxChars used hits
      else if used + int (length c) > maxChars then [slice0 (maxChars - used) c]
      else c # recall_parts maxChars (used + int (length c)) hits)"

definition buildRecallBlock :: "string list \<Rightarrow> int \<Rightarrow> string option" where
  "buildRecallBlock hits maxChars =
     (if hits = [] then None
      else let parts = recall_parts maxChars 0 hits
           in if parts = [] then None
              else Some (''Relevant prior context:'' @ newline @ join newline parts))"

subsection \<open>Approved results\<close>

definition entry_seq :: "kentry \<Rightarrow> int" where
  "entry_seq e = nullish (m_seq (k_meta e)) 0"

definition add_outcome :: "(int \<times> outcome list) list \<Rightarrow> kentry \<Rightarrow> (int \<times> outcome list) list" where
  "add_outcome bySeq e =
     AList.update (entry_seq e) (nullish (map_of bySeq (entry_seq e)) [] @ [entry_outcome e]) bySeq"

definition collectApproved :: "rag_handle \<Rightarrow> string \<Rightarrow> (int \<times> string) list" where
  "collectApproved rag runId =
     (let bySeq = foldl add_outcome [] (rag_list rag (run_filter runId ''step-result''))
      in concat (map (\<lambda>(sq, outcomes).
           case resolveByPrecedence outcomes of
             Some r \<Rightarrow> if o_status r \<noteq> SFailed then [(sq, o_approved r)] else []
           | None \<Rightarrow> []) (sort_key fst bySeq)))"

subsection \<open>Run-scoped recall\<close>

fun rankStatus :: "status option \<Rightarrow> nat" where
  "rankStatus (Some SOk) = 3"
| "rankStatus (Some SExists) = 3"
| "rankStatus (Some SPartial) = 2"
| "rankStatus (Some SFailed) = 1"
| "rankStatus None = 0"

definition isBetterStep :: "kentry \<Rightarrow> kentry \<Rightarrow> bool" where
  "isBetterStep a b =
     (let ra = rankStatus (m_status (k_meta a)); rb = rankStatus (m_status (k_meta b));
          aa = entry_attempt a; ba = entry_attempt b;
          ao = nullish (m_writeOrdinal (k_meta a)) (-1); bo = nullish (m_writeOrdinal (k_meta b)) (-1)
      in if ra \<noteq> rb then ra > rb
         else if aa \<noteq> ba then aa > ba
         else if ao \<noteq> bo then ao > bo
         else m_createdAt (k_meta a) > m_createdAt (k_meta b))"

definition isBetterMcp :: "kentry \<Rightarrow> kentry \<Rightarrow> bool" where
  "isBetterMcp a b =
     (let ao = nullish (m_writeOrdinal (k_meta a)) (-1); bo = nullish (m_writeOrdinal (k_meta b)) (-1)
      in if ao \<noteq> bo then ao > bo else m_createdAt (k_meta a) > m_createdAt (k_meta b))"

text \<open>The identity a hit is deduplicated by: a step sequence number, a fetched artefact, or none.\<close>

datatype recall_key = StepKey int | McpKey string

definition recall_key :: "kentry \<Rightarrow> recall_key option" where
  "recall_key e =
     (case (m_seq (k_meta e), m_status (k_meta e)) of
        (Some sq, Some _) \<Rightarrow> Some (StepKey sq)
      | _ \<Rightarrow> (case m_identityKey (k_meta e) of
                Some k \<Rightarrow> if k \<noteq> [] then Some (McpKey k) else None
              | None \<Rightarrow> None))"

fun better_for :: "recall_key \<Rightarrow> kentry \<Rightarrow> kentry \<Rightarrow> bool" where
  "better_for (StepKey _) a b = isBetterStep a b"
| "better_for (McpKey _) a b = isBetterMcp a b"

text \<open>The two maps \<open>bestStep\<close> and \<open>bestMcp\<close>, as one map over the tagged key.\<close>

definition note_best :: "(recall_key \<times> kentry) list \<Rightarrow> kentry \<Rightarrow> (recall_key \<times> kentry) list" where
  "note_best m e =
     (case recall_key e of
        None \<Rightarrow> m
      | Some k \<Rightarrow>
          (case map_of m k of
             None \<Rightarrow> AList.update k e m
           | Some prev \<Rightarrow> if better_for k e prev then AList.update k e m else m))"

fun emit_loop ::
  "nat \<Rightarrow> (recall_key \<times> kentry) list \<Rightarrow> recall_key list \<Rightarrow> kentry list \<Rightarrow> kentry list \<Rightarrow> kentry list" where
  "emit_loop k best seen out [] = out"
| "emit_loop k best seen out (e # hits) =
     (case recall_key e of
        Some key \<Rightarrow>
          (if key \<in> set seen then emit_loop k best seen out hits
           else let out' = out @ [the (map_of best key)]
                in if length out' \<ge> k then out' else emit_loop k best (key # seen) out' hits)
      | None \<Rightarrow>
          let out' = out @ [e]
          in if length out' \<ge> k then out' else emit_loop k best seen out' hits)"

definition dedup_hits :: "nat \<Rightarrow> kentry list \<Rightarrow> kentry list" where
  "dedup_hits k hits = take k (emit_loop k (foldl note_best [] hits) [] [] hits)"

definition runScopedRecall ::
  "rag_handle \<Rightarrow> nat \<Rightarrow> string option \<Rightarrow> nat \<Rightarrow> string list \<Rightarrow> kentry list" where
  "runScopedRecall rag k runId kPrime tys =
     dedup_hits k (rag_query rag (Some kPrime) (Some (any_filter\<lparr>f_runId := runId, f_artifactType := Some tys\<rparr>)))"

subsection \<open>The relevant extract\<close>

definition MAX_EXTRACT_WINDOWS :: nat where "MAX_EXTRACT_WINDOWS = 64"

definition extract_stride :: "nat \<Rightarrow> nat \<Rightarrow> nat" where
  "extract_stride body len =
     max (body div 2) ((len + MAX_EXTRACT_WINDOWS - 1) div MAX_EXTRACT_WINDOWS)"

text \<open>The scoring loop; \<open>score\<close> is the cosine of the reference and a window, and the best so far is
  absent at the start (minus infinity).  A zero stride does not occur (\<open>extract_stride_pos\<close>).\<close>

function score_loop :: "(string \<Rightarrow> 'r::linorder) \<Rightarrow> string \<Rightarrow> nat \<Rightarrow> nat \<Rightarrow> nat \<Rightarrow> nat \<times> 'r option \<Rightarrow> nat \<times> 'r option" where
  "score_loop score content body stride s (bestStart, best) =
     (if s \<ge> length content \<or> stride = 0 then (bestStart, best)
      else let sc = score (take body (drop s content))
           in score_loop score content body stride (s + stride)
                (if (case best of None \<Rightarrow> True | Some b \<Rightarrow> sc > b) then (s, Some sc) else (bestStart, best)))"
  by pat_completeness auto
termination
  by (relation "measure (\<lambda>(sc, content, body, stride, s, _). length content - s)") auto

declare score_loop.simps [simp del]

definition relevantExtract :: "(string \<Rightarrow> 'r::linorder) \<Rightarrow> string \<Rightarrow> int \<Rightarrow> string" where
  "relevantExtract score content maxChars =
     (if int (length content) \<le> maxChars then content
      else if maxChars < 3 then take (nat (max 0 maxChars)) content
      else
        (let body = nat (maxChars - 2);
             stride = extract_stride body (length content);
             bestStart = fst (score_loop score content body stride 0 (0, None))
         in (if bestStart > 0 then [ellipsis] else [])
            @ take body (drop bestStart content)
            @ (if bestStart + body < length content then [ellipsis] else [])))"

subsection \<open>Bounds\<close>

lemma recall_parts_bound:
  "used \<le> maxChars \<Longrightarrow> int (sum_list (map length (recall_parts maxChars used hits))) \<le> maxChars - used"
  by (induction maxChars used hits rule: recall_parts.induct) auto

lemma length_recall_parts: "length (recall_parts maxChars used hits) \<le> length hits"
  by (induction maxChars used hits rule: recall_parts.induct) auto

lemma extract_stride_pos: "0 < len \<Longrightarrow> 0 < extract_stride body len"
  by (simp add: extract_stride_def MAX_EXTRACT_WINDOWS_def)

text \<open>At most \<open>MAX_EXTRACT_WINDOWS\<close> windows are embedded.\<close>

lemma extract_windows_bound:
  assumes "i * extract_stride body len < len"
  shows "i < MAX_EXTRACT_WINDOWS"
proof (rule ccontr)
  assume "\<not> i < MAX_EXTRACT_WINDOWS"
  then have "64 * extract_stride body len \<le> i * extract_stride body len"
    by (intro mult_le_mono1) (simp add: MAX_EXTRACT_WINDOWS_def)
  moreover have "len \<le> 64 * ((len + 63) div 64)" by linarith
  moreover have "(len + 63) div 64 \<le> extract_stride body len"
    by (simp add: extract_stride_def MAX_EXTRACT_WINDOWS_def)
  ultimately show False using assms by linarith
qed

lemma length_relevantExtract:
  "0 \<le> maxChars \<Longrightarrow> int (length (relevantExtract score content maxChars)) \<le> maxChars"
  by (auto simp: relevantExtract_def Let_def)

text \<open>The chosen window is one of the scored ones and no scored window is better.\<close>

lemma score_loop_best:
  fixes score :: "string \<Rightarrow> 'r::linorder"
  assumes "0 < stride"
    and "case best of None \<Rightarrow> True | Some b \<Rightarrow> b = score (take body (drop bestStart content)) \<and> bestStart < length content"
  shows "case score_loop score content body stride s (bestStart, best) of (st, bst) \<Rightarrow>
     (case bst of None \<Rightarrow> best = None \<and> length content \<le> s
      | Some b \<Rightarrow> b = score (take body (drop st content)) \<and> st < length content
          \<and> (case best of None \<Rightarrow> True | Some b0 \<Rightarrow> b0 \<le> b)
          \<and> (\<forall>i. s + i * stride < length content \<longrightarrow> score (take body (drop (s + i * stride) content)) \<le> b))"
  using assms
proof (induction score content body stride s "(bestStart, best)" arbitrary: bestStart best
    rule: score_loop.induct)
  case (1 score content body stride s bestStart best)
  show ?case
  proof (cases "s \<ge> length content")
    case True
    then have "score_loop score content body stride s (bestStart, best) = (bestStart, best)"
      by (simp add: score_loop.simps)
    with True 1(3) show ?thesis by (auto split: option.splits)
  next
    case False
    define sc where "sc = score (take body (drop s content))"
    define nxt where "nxt = (if (case best of None \<Rightarrow> True | Some b \<Rightarrow> sc > b) then (s, Some sc) else (bestStart, best))"
    obtain bs' best' where nx: "nxt = (bs', best')" by fastforce
    have step: "score_loop score content body stride s (bestStart, best)
        = score_loop score content body stride (s + stride) (bs', best')"
      unfolding nx [symmetric] nxt_def sc_def using False 1(2)
      by (subst score_loop.simps) (simp add: Let_def)
    have inv: "case best' of None \<Rightarrow> True
        | Some b \<Rightarrow> b = score (take body (drop bs' content)) \<and> bs' < length content"
      using 1(3) False nx by (auto simp: nxt_def sc_def split: if_splits option.splits)
    obtain b' where b': "best' = Some b'" "sc \<le> b'" "case best of None \<Rightarrow> True | Some b0 \<Rightarrow> b0 \<le> b'"
      using nx by (cases best) (auto simp: nxt_def split: if_splits)
    have c: "\<not> (length content \<le> s \<or> stride = 0)"
      using False 1(2) by simp
    have IH: "case score_loop score content body stride (s + stride) (bs', best') of (st, bst) \<Rightarrow>
       (case bst of None \<Rightarrow> best' = None \<and> length content \<le> s + stride
        | Some b \<Rightarrow> b = score (take body (drop st content)) \<and> st < length content
          \<and> (case best' of None \<Rightarrow> True | Some b0 \<Rightarrow> b0 \<le> b)
          \<and> (\<forall>i. s + stride + i * stride < length content \<longrightarrow>
                score (take body (drop (s + stride + i * stride) content)) \<le> b))"
      by (rule 1(1) [OF c refl nx [unfolded nxt_def sc_def] 1(2) inv])
    have "score (take body (drop (s + i * stride) content)) \<le> b"
      if "\<And>i. s + stride + i * stride < length content \<Longrightarrow>
                score (take body (drop (s + stride + i * stride) content)) \<le> b"
         "b' \<le> b" "s + i * stride < length content" for i b
      using that b'(2) by (cases i) (auto simp: sc_def algebra_simps)
    with IH b' show ?thesis
      unfolding step by (auto split: prod.splits option.splits intro: order_trans)
  qed
qed

subsection \<open>One approved result per sequence number\<close>

definition outcomesAt :: "kentry list \<Rightarrow> int \<Rightarrow> outcome list" where
  "outcomesAt es sq = map entry_outcome (filter (\<lambda>e. entry_seq e = sq) es)"

lemma map_of_add_outcome:
  "map_of (add_outcome m e) sq =
     (if sq = entry_seq e then Some (nullish (map_of m sq) [] @ [entry_outcome e]) else map_of m sq)"
  by (simp add: add_outcome_def)

lemma map_of_add_outcomes:
  "map_of (foldl add_outcome [] es) sq = (if outcomesAt es sq = [] then None else Some (outcomesAt es sq))"
proof (induction es arbitrary: sq rule: rev_induct)
  case (snoc e es)
  show ?case
    by (auto simp: map_of_add_outcome snoc outcomesAt_def)
qed (simp add: outcomesAt_def)

lemma distinct_add_outcomes: "distinct (map fst (foldl add_outcome [] es))"
  by (induction es rule: rev_induct) (simp_all add: add_outcome_def distinct_update)

definition approved_of :: "int \<times> outcome list \<Rightarrow> (int \<times> string) list" where
  "approved_of p = (case p of (sq, outcomes) \<Rightarrow>
     (case resolveByPrecedence outcomes of
        Some r \<Rightarrow> if o_status r \<noteq> SFailed then [(sq, o_approved r)] else []
      | None \<Rightarrow> []))"

lemma collectApproved_alt:
  "collectApproved rag runId =
     concat (map approved_of (sort_key fst (foldl add_outcome [] (rag_list rag (run_filter runId ''step-result'')))))"
  by (simp add: collectApproved_def Let_def approved_of_def [abs_def] case_prod_beta')

lemma fst_approved_of: "x \<in> set (approved_of p) \<Longrightarrow> fst x = fst p"
  by (auto simp: approved_of_def split: prod.splits option.splits if_splits)

lemma length_approved_of: "length (approved_of p) \<le> 1"
  by (auto simp: approved_of_def split: prod.splits option.splits)

lemma sorted_concat_approved:
  "sorted (map fst xs) \<Longrightarrow> distinct (map fst xs) \<Longrightarrow>
     sorted_wrt (<) (map fst (concat (map approved_of xs)))"
proof (induction xs)
  case (Cons p xs)
  have "fst p < fst x" if "x \<in> set (concat (map approved_of xs))" for x
  proof -
    from that obtain q where q: "q \<in> set xs" "x \<in> set (approved_of q)" by auto
    with Cons.prems have "fst p \<le> fst q" "fst p \<noteq> fst q"
      by (simp, metis distinct.simps(2) image_eqI list.simps(9) set_map)
    with fst_approved_of [OF q(2)] show ?thesis by simp
  qed
  moreover have "approved_of p = [] \<or> (\<exists>x. approved_of p = [x])"
    using length_approved_of [of p] by (cases "approved_of p" rule: remdups_adj.cases) auto
  moreover have "sorted_wrt (<) (map fst (concat (map approved_of xs)))"
    using Cons by simp
  ultimately show ?case
    using fst_approved_of [of _ p] by (auto simp del: set_concat)
qed simp

lemma collectApproved_sorted: "sorted_wrt (<) (map fst (collectApproved rag runId))"
proof -
  let ?m = "foldl add_outcome [] (rag_list rag (run_filter runId ''step-result''))"
  have "mset (map fst (sort_key fst ?m)) = mset (map fst ?m)" by simp
  then have "distinct (map fst (sort_key fst ?m))"
    using distinct_add_outcomes mset_eq_imp_distinct_iff by blast
  then show ?thesis
    unfolding collectApproved_alt by (intro sorted_concat_approved) simp_all
qed

lemma collectApproved_iff:
  "(sq, c) \<in> set (collectApproved rag runId) \<longleftrightarrow>
     (\<exists>r. resolveByPrecedence (outcomesAt (rag_list rag (run_filter runId ''step-result'')) sq) = Some r
          \<and> o_status r \<noteq> SFailed \<and> o_approved r = c)"
proof -
  let ?es = "rag_list rag (run_filter runId ''step-result'')"
  let ?m = "foldl add_outcome [] ?es"
  have mem: "(sq, os) \<in> set ?m \<longleftrightarrow> os \<noteq> [] \<and> os = outcomesAt ?es sq" for os
  proof -
    have "(sq, os) \<in> set ?m \<longleftrightarrow> map_of ?m sq = Some os"
      by (simp add: distinct_add_outcomes)
    then show ?thesis
      unfolding map_of_add_outcomes by auto
  qed
  have "(sq, c) \<in> set (collectApproved rag runId) \<longleftrightarrow> (\<exists>os. (sq, os) \<in> set ?m \<and> (sq, c) \<in> set (approved_of (sq, os)))"
  proof -
    have "(sq, c) \<in> set (collectApproved rag runId) \<longleftrightarrow> (\<exists>p \<in> set ?m. (sq, c) \<in> set (approved_of p))"
      unfolding collectApproved_alt by simp
    also have "\<dots> \<longleftrightarrow> (\<exists>os. (sq, os) \<in> set ?m \<and> (sq, c) \<in> set (approved_of (sq, os)))"
      by (metis fst_approved_of fst_conv prod.collapse)
    finally show ?thesis .
  qed
  also have "\<dots> \<longleftrightarrow> (sq, c) \<in> set (approved_of (sq, outcomesAt ?es sq))"
    unfolding mem by (auto simp: approved_of_def)
  also have "\<dots> \<longleftrightarrow> (\<exists>r. resolveByPrecedence (outcomesAt ?es sq) = Some r
          \<and> o_status r \<noteq> SFailed \<and> o_approved r = c)"
    by (cases "resolveByPrecedence (outcomesAt ?es sq)") (auto simp: approved_of_def)
  finally show ?thesis .
qed

subsection \<open>Deduplicated recall\<close>

definition step_score :: "kentry \<Rightarrow> nat \<times> int \<times> int \<times> int" where
  "step_score e = (rankStatus (m_status (k_meta e)), entry_attempt e,
     nullish (m_writeOrdinal (k_meta e)) (-1), m_createdAt (k_meta e))"

definition mcp_score :: "kentry \<Rightarrow> int \<times> int" where
  "mcp_score e = (nullish (m_writeOrdinal (k_meta e)) (-1), m_createdAt (k_meta e))"

lemma isBetterStep_iff: "isBetterStep a b \<longleftrightarrow> step_score b < step_score a"
  by (auto simp: isBetterStep_def step_score_def Let_def)

lemma isBetterMcp_iff: "isBetterMcp a b \<longleftrightarrow> mcp_score b < mcp_score a"
  by (auto simp: isBetterMcp_def mcp_score_def Let_def)

lemma better_for_trans: "better_for k a b \<Longrightarrow> better_for k c a \<or> \<not> better_for k c b \<or> better_for k c b"
  by auto

lemma better_for_negtrans: "\<not> better_for k a b \<Longrightarrow> \<not> better_for k b c \<Longrightarrow> \<not> better_for k a c"
  by (cases k) (auto simp: isBetterStep_iff isBetterMcp_iff not_less)

lemma better_for_asym: "better_for k a b \<Longrightarrow> \<not> better_for k b a"
  by (cases k) (auto simp: isBetterStep_iff isBetterMcp_iff)

lemma better_for_irrefl [simp]: "\<not> better_for k a a"
  using better_for_asym by blast

definition best_of :: "kentry list \<Rightarrow> recall_key \<Rightarrow> kentry option \<Rightarrow> bool" where
  "best_of es k w \<longleftrightarrow>
     (case w of
        None \<Rightarrow> \<forall>e \<in> set es. recall_key e \<noteq> Some k
      | Some b \<Rightarrow> b \<in> set es \<and> recall_key b = Some k
          \<and> (\<forall>e \<in> set es. recall_key e = Some k \<longrightarrow> \<not> better_for k e b))"

lemma map_of_note_best:
  "map_of (note_best m e) k =
     (if recall_key e = Some k then
        Some (case map_of m k of None \<Rightarrow> e | Some p \<Rightarrow> if better_for k e p then e else p)
      else map_of m k)"
  by (auto simp: note_best_def split: option.splits)

lemma note_best_spec: "best_of es k (map_of (foldl note_best [] es) k)"
proof (induction es rule: rev_induct)
  case Nil
  then show ?case by (simp add: best_of_def)
next
  case (snoc e es)
  define m where "m = foldl note_best [] es"
  have IH: "best_of es k (map_of m k)" using snoc by (simp add: m_def)
  have "best_of (es @ [e]) k (map_of (note_best m e) k)"
  proof (cases "recall_key e = Some k")
    case False
    with IH show ?thesis
      by (auto simp: map_of_note_best best_of_def split: option.splits)
  next
    case True
    show ?thesis
    proof (cases "map_of m k")
      case None
      with IH True show ?thesis by (simp add: map_of_note_best best_of_def)
    next
      case (Some b)
      show ?thesis
      proof (cases "better_for k e b")
        case better: True
        have "\<not> better_for k x e" if "x \<in> set es" "recall_key x = Some k" for x
        proof (rule better_for_negtrans)
          show "\<not> better_for k x b" using that IH Some by (simp add: best_of_def)
          show "\<not> better_for k b e" using better by (rule better_for_asym)
        qed
        with IH Some True better show ?thesis by (simp add: map_of_note_best best_of_def)
      next
        case False
        with IH Some True show ?thesis by (simp add: map_of_note_best best_of_def)
      qed
    qed
  qed
  then show ?case by (simp add: m_def)
qed

abbreviation keysof :: "kentry list \<Rightarrow> recall_key list" where
  "keysof es \<equiv> List.map_filter recall_key es"

lemma keysof_simps:
  "keysof [] = []"
  "keysof (e # es) = (case recall_key e of None \<Rightarrow> keysof es | Some k \<Rightarrow> k # keysof es)"
  "keysof (es @ es') = keysof es @ keysof es'"
  by (auto simp: List.map_filter_def split: option.splits)

text \<open>The invariant of the walk: what is out is deduplicated, noted in \<open>seen\<close>, and the best of its key.\<close>

definition emit_inv :: "(recall_key \<times> kentry) list \<Rightarrow> recall_key list \<Rightarrow> kentry list \<Rightarrow> bool" where
  "emit_inv best seen out \<longleftrightarrow>
     distinct (keysof out) \<and> set (keysof out) = set seen
     \<and> (\<forall>e \<in> set out. \<forall>key. recall_key e = Some key \<longrightarrow> e = the (map_of best key))"

lemma emit_inv_skip: "emit_inv best seen out \<Longrightarrow> recall_key e = None \<Longrightarrow> emit_inv best seen (out @ [e])"
  by (auto simp: emit_inv_def keysof_simps)

lemma emit_inv_push:
  "emit_inv best seen out \<Longrightarrow> key \<notin> set seen \<Longrightarrow> recall_key (the (map_of best key)) = Some key \<Longrightarrow>
     emit_inv best (key # seen) (out @ [the (map_of best key)])"
  by (auto simp: emit_inv_def keysof_simps)

lemma emit_loop_spec:
  assumes "\<And>key. key \<in> set (keysof hits) \<Longrightarrow> recall_key (the (map_of best key)) = Some key"
    and "emit_inv best seen out" "length out < k"
  shows "\<exists>seen'. emit_inv best seen' (emit_loop k best seen out hits)
     \<and> set seen \<subseteq> set seen' \<and> set seen' \<subseteq> set seen \<union> set (keysof hits)
     \<and> length (emit_loop k best seen out hits) \<le> k
     \<and> (length (emit_loop k best seen out hits) < k \<longrightarrow> set seen' = set seen \<union> set (keysof hits))"
  using assms
proof (induction hits arbitrary: seen out)
  case Nil
  then show ?case by (intro exI [of _ seen]) (simp add: keysof_simps)
next
  case (Cons e hits)
  have key: "recall_key (the (map_of best key)) = Some key" if "key \<in> set (keysof hits)" for key
    using Cons.prems(1) that by (auto simp: keysof_simps split: option.splits)
  show ?case
  proof (cases "recall_key e")
    case None
    then have inv: "emit_inv best seen (out @ [e])" using Cons.prems(2) by (simp add: emit_inv_skip)
    show ?thesis
    proof (cases "length (out @ [e]) \<ge> k")
      case True
      with None inv Cons.prems(3) show ?thesis
        by (intro exI [of _ seen]) (simp add: Let_def keysof_simps)
    next
      case False
      with Cons.IH [OF key inv] None show ?thesis by (simp add: Let_def keysof_simps)
    qed
  next
    case (Some k0)
    have ks: "keysof (e # hits) = k0 # keysof hits" using Some by (simp add: keysof_simps)
    show ?thesis
    proof (cases "k0 \<in> set seen")
      case True
      with Cons.IH [OF key Cons.prems(2,3)] Some show ?thesis
        unfolding ks by (auto simp: insert_absorb)
    next
      case new: False
      let ?w = "the (map_of best k0)"
      have inv: "emit_inv best (k0 # seen) (out @ [?w])"
        using Cons.prems(1,2) new ks by (intro emit_inv_push) simp_all
      show ?thesis
      proof (cases "length (out @ [?w]) \<ge> k")
        case True
        with Some new inv Cons.prems(3) show ?thesis
          unfolding ks by (intro exI [of _ "k0 # seen"]) (auto simp: Let_def)
      next
        case False
        then have l: "length (out @ [?w]) < k" by simp
        obtain seen' where "emit_inv best seen' (emit_loop k best (k0 # seen) (out @ [?w]) hits)"
          "set (k0 # seen) \<subseteq> set seen'" "set seen' \<subseteq> set (k0 # seen) \<union> set (keysof hits)"
          "length (emit_loop k best (k0 # seen) (out @ [?w]) hits) \<le> k"
          "length (emit_loop k best (k0 # seen) (out @ [?w]) hits) < k \<longrightarrow>
             set seen' = set (k0 # seen) \<union> set (keysof hits)"
          using Cons.IH [OF key inv l] by blast
        moreover have "emit_loop k best seen out (e # hits) = emit_loop k best (k0 # seen) (out @ [?w]) hits"
          using Some new False by (simp add: Let_def)
        ultimately show ?thesis
          unfolding ks by (intro exI [of _ seen']) auto
      qed
    qed
  qed
qed

lemma keysof_iff: "key \<in> set (keysof es) \<longleftrightarrow> (\<exists>e \<in> set es. recall_key e = Some key)"
  by (induction es) (auto simp: keysof_simps split: option.splits)

lemma best_of_hits:
  assumes "key \<in> set (keysof hits)"
  shows "\<exists>w. map_of (foldl note_best [] hits) key = Some w \<and> w \<in> set hits \<and> recall_key w = Some key
     \<and> (\<forall>e \<in> set hits. recall_key e = Some key \<longrightarrow> \<not> better_for key e w)"
  using note_best_spec [of hits key] assms
  by (cases "map_of (foldl note_best [] hits) key") (auto simp: best_of_def keysof_iff)

lemma dedup_hits_spec:
  assumes "0 < k"
  shows "length (dedup_hits k hits) \<le> k" "distinct (keysof (dedup_hits k hits))"
    "\<And>w key. w \<in> set (dedup_hits k hits) \<Longrightarrow> recall_key w = Some key \<Longrightarrow>
        w \<in> set hits \<and> (\<forall>e \<in> set hits. recall_key e = Some key \<longrightarrow> \<not> better_for key e w)"
    "length (dedup_hits k hits) < k \<Longrightarrow> set (keysof (dedup_hits k hits)) = set (keysof hits)"
proof -
  let ?best = "foldl note_best [] hits"
  let ?r = "emit_loop k ?best [] [] hits"
  have keys: "recall_key (the (map_of ?best key)) = Some key" if "key \<in> set (keysof hits)" for key
    using best_of_hits [OF that] by auto
  have i0: "emit_inv ?best [] []" by (simp add: emit_inv_def keysof_simps)
  have "length ([] :: kentry list) < k" using assms by simp
  from emit_loop_spec [of hits, OF keys i0 this]
  obtain seen' where s: "emit_inv ?best seen' ?r" "set seen' \<subseteq> set (keysof hits)" "length ?r \<le> k"
    "length ?r < k \<longrightarrow> set seen' = set (keysof hits)"
    by auto
  then have r: "dedup_hits k hits = ?r" by (simp add: dedup_hits_def)
  show "length (dedup_hits k hits) \<le> k" using s r by simp
  show "distinct (keysof (dedup_hits k hits))" using s r by (simp add: emit_inv_def)
  show "length (dedup_hits k hits) < k \<Longrightarrow> set (keysof (dedup_hits k hits)) = set (keysof hits)"
    using s r by (simp add: emit_inv_def)
  fix w key assume w: "w \<in> set (dedup_hits k hits)" "recall_key w = Some key"
  then have "key \<in> set (keysof ?r)"
    unfolding r by (auto simp: keysof_iff)
  then have "key \<in> set (keysof hits)"
    using s by (auto simp: emit_inv_def)
  moreover have "w = the (map_of ?best key)"
    using s w unfolding r by (simp add: emit_inv_def)
  ultimately have "key \<in> set (keysof hits)" "w = the (map_of ?best key)" .
  with best_of_hits [OF this(1)] show
    "w \<in> set hits \<and> (\<forall>e \<in> set hits. recall_key e = Some key \<longrightarrow> \<not> better_for key e w)" by auto
qed

subsection \<open>Properties\<close>

text \<open>What is collected for the final answer is, in strictly increasing sequence order, one content per
  sequence number whose winning outcome did not fail, and that winner's content.\<close>

theorem approved_results_are_the_winners:
  "sorted_wrt (<) (map fst (collectApproved rag runId))
   \<and> ((sq, c) \<in> set (collectApproved rag runId) \<longleftrightarrow>
        (\<exists>r. resolveByPrecedence (outcomesAt (rag_list rag (run_filter runId ''step-result'')) sq) = Some r
             \<and> o_status r \<noteq> SFailed \<and> o_approved r = c))"
  using collectApproved_sorted collectApproved_iff by blast

text \<open>The deduplicated recall keeps at most \<open>k\<close> hits and one per identity, each a best hit of its
  identity; if it keeps fewer than \<open>k\<close>, no identity was lost.\<close>

theorem recall_keeps_best_per_identity:
  assumes "0 < k"
  shows "length (dedup_hits k hits) \<le> k \<and> distinct (keysof (dedup_hits k hits))
     \<and> (\<forall>w key. w \<in> set (dedup_hits k hits) \<and> recall_key w = Some key \<longrightarrow>
          w \<in> set hits \<and> (\<forall>e \<in> set hits. recall_key e = Some key \<longrightarrow> \<not> better_for key e w))
     \<and> (length (dedup_hits k hits) < k \<longrightarrow> set (keysof (dedup_hits k hits)) = set (keysof hits))"
  using dedup_hits_spec [OF assms] by blast

definition sample_hit :: "int \<Rightarrow> status \<Rightarrow> kentry" where
  "sample_hit att s = \<lparr>k_content = CText [], k_meta = (base_meta ''s'' ''x'' ''step-result'' 0)
     \<lparr>m_seq := Some 7, m_attempt := Some att, m_status := Some s\<rparr>\<rparr>"

theorem recall_keeps_best_per_identity_witness:
  "dedup_hits 4 [sample_hit 0 SOk, sample_hit 1 SFailed] = [sample_hit 0 SOk]
   \<and> \<not> better_for (StepKey 7) (sample_hit 1 SFailed) (sample_hit 0 SOk)"
proof -
  let ?hits = "[sample_hit 0 SOk, sample_hit 1 SFailed]"
  have d: "dedup_hits 4 ?hits = [sample_hit 0 SOk]"
    by code_simp
  have "recall_key (sample_hit 0 SOk) = Some (StepKey 7)" "recall_key (sample_hit 1 SFailed) = Some (StepKey 7)"
    by (simp_all add: recall_key_def sample_hit_def)
  with recall_keeps_best_per_identity [of 4 ?hits] d show ?thesis by auto
qed

text \<open>The extract shown to the reviewer fits its bound, and choosing it scores at most sixty-four
  windows of the content, however long.\<close>

theorem extract_is_bounded:
  fixes score :: "string \<Rightarrow> 'r::linorder"
  assumes "0 \<le> maxChars" "i * extract_stride body len < len"
  shows "int (length (relevantExtract score content maxChars)) \<le> maxChars \<and> i < 64"
  using length_relevantExtract [OF assms(1)] extract_windows_bound [OF assms(2)]
  by (simp add: MAX_EXTRACT_WINDOWS_def)

theorem extract_is_bounded_witness:
  "int (length (relevantExtract (\<lambda>w. length w) ''abcdefghij'' 5)) \<le> 5 \<and> (1::nat) < 64"
  using extract_is_bounded [of 5 1 3 10 "\<lambda>w. length w" "''abcdefghij''"]
  by (simp add: extract_stride_def MAX_EXTRACT_WINDOWS_def)

end
