(* ===== verification/Reviewer.thy ===== *)
theory Reviewer
  imports PlanParser Planner
begin

text \<open>
  Model of \<open>controller/reviewer.ts\<close>: the reviewer's prompt, and the parsing of its verdict into an
  outcome of the step or a failure of the judge.
\<close>

record evidence =
  ev_ref :: string
  ev_hit :: bool
  ev_topArtifact :: "string option"

datatype review_result = ReviewOutcome review_outcome | JudgeFailure string

definition mk_review :: "status \<Rightarrow> string \<Rightarrow> string \<Rightarrow> string \<Rightarrow> string \<Rightarrow> review_outcome" where
  "mk_review st approved remainder note digest =
     \<lparr>o_status = st, o_approved = approved, o_remainder = remainder, o_note = note, o_digest = digest\<rparr>"

fun status_of_json :: "json option \<Rightarrow> status option" where
  "status_of_json (Some (JStr s)) =
     (if s = ''ok'' then Some SOk else if s = ''exists'' then Some SExists
      else if s = ''failed'' then Some SFailed else if s = ''partial'' then Some SPartial else None)"
| "status_of_json _ = None"

fun status_str :: "status \<Rightarrow> string" where
  "status_str SOk = ''ok''"
| "status_str SExists = ''exists''"
| "status_str SFailed = ''failed''"
| "status_str SPartial = ''partial''"

definition or_str :: "string \<Rightarrow> string \<Rightarrow> string" where
  "or_str a b = (if a \<noteq> [] then a else b)"

definition parseReview :: "string \<Rightarrow> int \<Rightarrow> review_result" where
  "parseReview content maxDigestChars =
     (case extractJsonObject content of
        None \<Rightarrow> JudgeFailure ''unparsable reviewer reply''
      | Some txt \<Rightarrow>
          (case json_parse txt of
             None \<Rightarrow> JudgeFailure ''unparsable reviewer reply''
           | Some ob \<Rightarrow>
               let approved = the_string (field ''approved'' ob);
                   remainder = the_string (field ''remainder'' ob);
                   note = the_string (field ''note'' ob);
                   rawDigest = the_string (field ''digest'' ob)
               in (case status_of_json (field ''status'' ob) of
                     None \<Rightarrow> JudgeFailure ''missing/invalid status''
                   | Some status \<Rightarrow>
                       if length (trim rawDigest) = 0 then JudgeFailure ''missing digest''
                       else
                         let digest = slice0 maxDigestChars rawDigest
                         in if (status = SOk \<or> status = SExists \<or> status = SPartial) \<and> length approved = 0 then
                              (let coercedNote =
                                     (if note \<noteq> []
                                      then note @ '' [coerced: reviewer returned '' @ status_str status @ '' with empty approved]''
                                      else ''reviewer returned '' @ status_str status @ '' with empty approved'')
                               in ReviewOutcome (mk_review SFailed [] (or_str remainder approved) coercedNote
                                    (slice0 maxDigestChars (or_str note coercedNote))))
                            else if status = SPartial \<and> length (trim remainder) = 0 then
                              ReviewOutcome (mk_review SOk approved [] note digest)
                            else ReviewOutcome (mk_review status approved remainder note digest))))"

definition evidence_line :: "evidence \<Rightarrow> string" where
  "evidence_line e =
     (if truthy (ev_topArtifact e)
      then ''- '' @ ev_ref e @ '': closest artifact '' @ [right_arrow] @ newline @ the (ev_topArtifact e)
      else ''- '' @ ev_ref e @ '': MISSING (no artifact found)'')"

definition review ::
  "(message list \<Rightarrow> subagent_result) \<Rightarrow> string \<Rightarrow> string option \<Rightarrow> int option \<Rightarrow> step \<Rightarrow> evidence list \<Rightarrow>
   string \<Rightarrow> review_result" where
  "review send system hint maxDigestChars st evs executorResult =
     (let block = join newline (map evidence_line evs);
          usr = ''Step: '' @ s_name st @ newline @ ''Intent: '' @ s_instructions st @ newline
                  @ ''Evidence:'' @ newline @ or_str block ''(none)'' @ newline
                  @ ''Executor result:'' @ newline @ executorResult
      in case send [\<lparr>msg_role = ''system'', msg_content = appendHint system hint\<rparr>,
                    \<lparr>msg_role = ''user'', msg_content = usr\<rparr>] of
           RContent c \<Rightarrow> parseReview c (nullish maxDigestChars 500)
         | RError err \<Rightarrow> JudgeFailure (''reviewer error: '' @ err)
         | RToolCall _ \<Rightarrow> JudgeFailure ''reviewer error: tool_call'')"

subsection \<open>What an accepted verdict guarantees\<close>

text \<open>An accepting verdict keeps some content, a partial one also says what is missing, and the
  digest fits its cap.\<close>

definition verdict_ok :: "int \<Rightarrow> review_outcome \<Rightarrow> bool" where
  "verdict_ok cap v \<longleftrightarrow>
     (o_status v \<noteq> SFailed \<longrightarrow> o_approved v \<noteq> [])
     \<and> (o_status v = SPartial \<longrightarrow> (\<exists>c \<in> set (o_remainder v). \<not> is_space c))
     \<and> (0 \<le> cap \<longrightarrow> int (length (o_digest v)) \<le> cap)"

lemma trim_ne_iff: "trim s \<noteq> [] \<longleftrightarrow> (\<exists>c \<in> set s. \<not> is_space c)"
  by (auto simp: trim_eq_Nil_iff)

lemma parseReview_ok:
  assumes "parseReview content cap = ReviewOutcome v"
  shows "verdict_ok cap v"
proof -
  obtain jtext ob st where p: "extractJsonObject content = Some jtext" "json_parse jtext = Some ob"
    "status_of_json (field ''status'' ob) = Some st"
    using assms by (auto simp: parseReview_def Let_def split: option.splits)
  let ?ap = "the_string (field ''approved'' ob)" and ?re = "the_string (field ''remainder'' ob)"
  show ?thesis
  proof (cases "st \<noteq> SFailed \<and> ?ap = []")
    case True
    then have "o_status v = SFailed \<and> (0 \<le> cap \<longrightarrow> int (length (o_digest v)) \<le> cap)"
      using assms p by (cases st) (auto simp: parseReview_def Let_def mk_review_def split: if_splits)
    then show ?thesis by (simp add: verdict_ok_def)
  next
    case False
    show ?thesis
    proof (cases "st = SPartial \<and> trim ?re = []")
      case True
      then show ?thesis using assms p False
        by (auto simp: parseReview_def Let_def mk_review_def verdict_ok_def split: if_splits)
    next
      case nonpartial: False
      then have "v = mk_review st ?ap ?re (the_string (field ''note'' ob)) (slice0 cap (the_string (field ''digest'' ob)))"
        using assms p False by (cases st) (auto simp: parseReview_def Let_def split: if_splits)
      then show ?thesis using False nonpartial
        by (auto simp: verdict_ok_def mk_review_def trim_ne_iff)
    qed
  qed
qed

lemma review_ok:
  "review send system hint mx st evs res = ReviewOutcome v \<Longrightarrow> verdict_ok (nullish mx 500) v"
  by (auto simp: review_def Let_def split: subagent_result.splits dest: parseReview_ok)

subsection \<open>Properties\<close>

text \<open>A usable verdict is never empty-handed: an accepting one keeps some content, a partial one also
  says what is missing, and the digest fits its cap.  A reply that cannot be judged is a failure of the
  judge, never a verdict.\<close>

theorem verdict_is_usable:
  assumes "review send system hint mx st evs res = ReviewOutcome v" "0 \<le> nullish mx 500"
  shows "(o_status v \<noteq> SFailed \<longrightarrow> o_approved v \<noteq> [])
     \<and> (o_status v = SPartial \<longrightarrow> (\<exists>c \<in> set (o_remainder v). \<not> is_space c))
     \<and> int (length (o_digest v)) \<le> nullish mx 500"
  using review_ok [OF assms(1)] assms(2) by (simp add: verdict_ok_def)

definition sample_verdict_text :: string where
  "sample_verdict_text = ''{'' @ [quote_char] @ ''status'' @ [quote_char] @ '':'' @ [quote_char] @ ''ok'' @ [quote_char]
     @ '','' @ [quote_char] @ ''approved'' @ [quote_char] @ '':'' @ [quote_char] @ ''text'' @ [quote_char]
     @ '','' @ [quote_char] @ ''digest'' @ [quote_char] @ '':'' @ [quote_char] @ ''text'' @ [quote_char] @ ''}''"

theorem verdict_is_usable_witness:
  "\<exists>v. review (\<lambda>_. RContent sample_verdict_text) [] None None (mk_step ''a'' ''b'') [] ''text'' = ReviewOutcome v
     \<and> (o_status v \<noteq> SFailed \<longrightarrow> o_approved v \<noteq> [])"
proof -
  have "\<exists>v. parseReview sample_verdict_text 500 = ReviewOutcome v"
  proof -
    have "(case parseReview sample_verdict_text 500 of ReviewOutcome v \<Rightarrow> True | _ \<Rightarrow> False) = True"
      by code_simp
    then show ?thesis by (auto split: review_result.splits)
  qed
  then obtain v where "review (\<lambda>_. RContent sample_verdict_text) [] None None (mk_step ''a'' ''b'') [] ''text'' = ReviewOutcome v"
    by (auto simp: review_def Let_def)
  from verdict_is_usable [OF this] this show ?thesis by auto
qed

end
