(* ===== verification/Finalizer.thy ===== *)
theory Finalizer
  imports Planner
begin

text \<open>
  Model of \<open>controller/finalizer.ts\<close>: ordering and capping the approved results, and the three passes
  of \<open>reduceToBudget\<close> that fit the composed body into the configured budget.
\<close>

type_synonym approved = "int \<times> string"

definition TRUNC_MARKER :: string where
  "TRUNC_MARKER = ellipsis # ''[truncated]''"

definition MIN_BODY_BUDGET :: int where "MIN_BODY_BUDGET = 64"
definition FLOOR :: int where "FLOOR = 80"

definition SEP :: string where "SEP = newline @ newline"

definition cap_content :: "int \<Rightarrow> string \<Rightarrow> string" where
  "cap_content cap c = (if int (length c) > cap then slice0 cap c @ TRUNC_MARKER else c)"

definition orderAndTruncate :: "approved list \<Rightarrow> int \<Rightarrow> approved list" where
  "orderAndTruncate results cap = map (\<lambda>(sq, c). (sq, cap_content cap c)) (sort_key fst results)"

subsection \<open>The body\<close>

definition seq_label :: "int \<Rightarrow> string" where
  "seq_label sq = ''[#'' @ int_str sq @ ''] ''"

definition chunk :: "(int \<Rightarrow> int) \<Rightarrow> approved \<Rightarrow> string" where
  "chunk caps r = seq_label (fst r) @ cap_content (caps (fst r)) (snd r)"

definition render :: "approved list \<Rightarrow> (int \<Rightarrow> int) \<Rightarrow> string" where
  "render ordered caps = join SEP (map (chunk caps) ordered)"

text \<open>The search for the largest result that can still be halved.\<close>

fun pick_target :: "(int \<Rightarrow> int) \<Rightarrow> int option \<Rightarrow> int \<Rightarrow> approved list \<Rightarrow> int option" where
  "pick_target caps target largest [] = target"
| "pick_target caps target largest ((sq, c) # rs) =
     (let len = min (int (length c)) (caps sq)
      in if caps sq > FLOOR \<and> len > largest then pick_target caps (Some sq) len rs
         else pick_target caps target largest rs)"

lemma pick_target_Some:
  "pick_target caps t l rs = Some sq \<Longrightarrow> t = Some sq \<or> (caps sq > FLOOR \<and> sq \<in> fst ` set rs)"
  by (induction caps t l rs rule: pick_target.induct) (auto simp: Let_def split: if_splits)

definition halved :: "(int \<Rightarrow> int) \<Rightarrow> int \<Rightarrow> int \<Rightarrow> int" where
  "halved caps sq = caps(sq := max FLOOR (caps sq div 2))"

definition cap_measure :: "approved list \<Rightarrow> (int \<Rightarrow> int) \<Rightarrow> nat" where
  "cap_measure ordered caps = (\<Sum>sq \<in> fst ` set ordered. nat (caps sq - FLOOR))"

lemma cap_measure_halved:
  assumes "pick_target caps None (-1) ordered = Some sq"
  shows "cap_measure ordered (halved caps sq) < cap_measure ordered caps"
proof -
  from pick_target_Some [OF assms] have sq: "caps sq > FLOOR" "sq \<in> fst ` set ordered" by auto
  show ?thesis unfolding cap_measure_def
  proof (rule sum_strict_mono_ex1)
    show "\<forall>x \<in> fst ` set ordered. nat (halved caps sq x - FLOOR) \<le> nat (caps x - FLOOR)"
      using sq(1) by (auto simp: halved_def FLOOR_def)
    show "\<exists>x \<in> fst ` set ordered. nat (halved caps sq x - FLOOR) < nat (caps x - FLOOR)"
      using sq by (intro bexI [of _ sq]) (auto simp: halved_def FLOOR_def)
  qed simp
qed

text \<open>Pass 1: halve the cap of the largest result until the body fits or every cap is at the floor.\<close>

function pass1 :: "approved list \<Rightarrow> int \<Rightarrow> (int \<Rightarrow> int) \<Rightarrow> (int \<Rightarrow> int)" where
  "pass1 ordered budget caps =
     (if int (length (render ordered caps)) > budget then
        (case pick_target caps None (-1) ordered of
           None \<Rightarrow> caps
         | Some sq \<Rightarrow> pass1 ordered budget (halved caps sq))
      else caps)"
  by pat_completeness auto
termination
  by (relation "measure (\<lambda>(ordered, budget, caps). cap_measure ordered caps)")
    (auto simp: cap_measure_halved)

declare pass1.simps [simp del]

text \<open>Pass 2: the even share of the budget.\<close>

definition even_share :: "approved list \<Rightarrow> int \<Rightarrow> int" where
  "even_share ordered budget =
     max 0 (budget div int (length ordered)
       - int (length (seq_label (fst (last ordered))) + length TRUNC_MARKER + length SEP))"

text \<open>Pass 3: the manifest.\<close>

definition manifest_build :: "approved list \<Rightarrow> nat \<Rightarrow> string" where
  "manifest_build ordered cnt =
     (let n = length ordered; omitted = n - cnt;
          ids = map (\<lambda>r. CHR ''#'' # int_str (fst r)) ordered;
          suffix = (if omitted > 0
                    then '' '' @ [ellipsis] @ '' (+'' @ nat_str omitted @ '' more of '' @ nat_str n @ '')'' else [])
      in ''[results: '' @ join '' '' (take cnt ids) @ suffix @ '']'')"

fun shrink_manifest :: "approved list \<Rightarrow> int \<Rightarrow> nat \<Rightarrow> nat" where
  "shrink_manifest ordered budget 0 = 0"
| "shrink_manifest ordered budget (Suc shown) =
     (if int (length (manifest_build ordered (Suc shown))) > budget
      then shrink_manifest ordered budget shown else Suc shown)"

definition reduceToBudget :: "approved list \<Rightarrow> int \<Rightarrow> int \<Rightarrow> string" where
  "reduceToBudget results perResultCap budget =
     (let ordered = sort_key fst results
      in if ordered = [] then []
         else
           let caps1 = pass1 ordered budget (\<lambda>_. perResultCap);
               body1 = render ordered caps1;
               body2 = (if int (length body1) > budget then render ordered (\<lambda>_. even_share ordered budget) else body1)
           in if int (length body2) > budget then
                (let manifest = manifest_build ordered (shrink_manifest ordered budget (length ordered))
                 in if int (length manifest) \<le> budget then manifest else slice0 budget manifest)
              else body2)"

subsection \<open>The finalizer role\<close>

record finalizer_policy =
  fp_budget :: int
  fp_perResultCap :: int

text \<open>The constructor refuses a budget below the minimum.\<close>

definition finalizer_valid :: "finalizer_policy \<Rightarrow> bool" where
  "finalizer_valid p \<longleftrightarrow> fp_budget p \<ge> MIN_BODY_BUDGET"

definition finalize ::
  "(message list \<Rightarrow> subagent_result) \<Rightarrow> string \<Rightarrow> string \<Rightarrow> finalizer_policy \<Rightarrow> string option \<Rightarrow> string option \<Rightarrow>
   string \<Rightarrow> string \<Rightarrow> approved list \<Rightarrow> string + string" where
  "finalize send system clause policy hint skillsBlock goal request approvedResults =
     (let body = reduceToBudget approvedResults (fp_perResultCap policy) (fp_budget policy);
          skills = (case skillsBlock of None \<Rightarrow> [] | Some s \<Rightarrow> trim s);
          sys = (if skills \<noteq> [] then appendHint system hint @ '' '' @ clause else appendHint system hint);
          base = ''Goal: '' @ goal @ newline @ ''Request: '' @ request @ newline @ ''Results:'' @ newline @ body;
          usr = (if skills \<noteq> [] then base @ newline @ newline @ ''Skills (delivery directives):'' @ newline @ skills
                 else base)
      in case send [\<lparr>msg_role = ''system'', msg_content = sys\<rparr>, \<lparr>msg_role = ''user'', msg_content = usr\<rparr>] of
           RContent c \<Rightarrow> Inr c
         | RError err \<Rightarrow> Inl (''finalizer error: '' @ err)
         | RToolCall _ \<Rightarrow> Inl ''finalizer error: tool_call'')"

subsection \<open>Bounds and order\<close>

lemma orderAndTruncate_sorted: "sorted (map fst (orderAndTruncate rs cap))"
  by (simp add: orderAndTruncate_def case_prod_beta' comp_def)

lemma length_cap_content: "0 \<le> cap \<Longrightarrow> int (length (cap_content cap c)) \<le> cap + int (length TRUNC_MARKER)"
  by (auto simp: cap_content_def)

lemma reduceToBudget_fits:
  assumes "0 \<le> budget"
  shows "int (length (reduceToBudget rs cap budget)) \<le> budget"
  using assms by (auto simp: reduceToBudget_def Let_def)

lemma length_int_str_mono: "0 \<le> i \<Longrightarrow> i \<le> j \<Longrightarrow> length (int_str i) \<le> length (int_str j)"
  by (simp add: int_str_def digits_mono_length)

text \<open>With enough budget for one label, one marker and one separator per result, the second pass
  already fits, so no result is left out of the body.\<close>

lemma even_share_fits:
  assumes "ordered \<noteq> []" "sorted (map fst ordered)" "\<forall>r \<in> set ordered. 0 \<le> fst r"
    and "int (length (seq_label (fst (last ordered))) + length TRUNC_MARKER + length SEP)
           \<le> budget div int (length ordered)"
  shows "int (length (render ordered (\<lambda>_. even_share ordered budget))) \<le> budget"
proof -
  let ?n = "length ordered" and ?L = "length (seq_label (fst (last ordered)))"
  let ?over = "int (?L + length TRUNC_MARKER + length SEP)"
  let ?q = "budget div int ?n"
  let ?caps = "\<lambda>_::int. even_share ordered budget"
  have share: "even_share ordered budget = ?q - ?over"
    using assms(4) by (simp add: even_share_def)
  have each: "length (chunk ?caps r) + length SEP \<le> nat ?q" if r: "r \<in> set ordered" for r
  proof -
    have "fst r \<le> fst (last ordered)"
    proof -
      obtain i where i: "i < ?n" "r = ordered ! i" using r by (auto simp: in_set_conv_nth)
      then have "map fst ordered ! i \<le> map fst ordered ! (?n - 1)"
        by (intro sorted_nth_mono [OF assms(2)]) auto
      with i assms(1) show ?thesis by (simp add: last_conv_nth)
    qed
    then have "length (seq_label (fst r)) \<le> ?L"
      using assms(3) r length_int_str_mono by (simp add: seq_label_def)
    moreover have "int (length (cap_content (even_share ordered budget) (snd r)))
        \<le> even_share ordered budget + int (length TRUNC_MARKER)"
      by (rule length_cap_content) (simp add: even_share_def)
    ultimately have "int (length (chunk ?caps r) + length SEP) \<le> ?q"
      using share by (simp add: chunk_def)
    then show ?thesis by linarith
  qed
  have "length (render ordered ?caps) \<le> (\<Sum>r\<leftarrow>ordered. length (chunk ?caps r) + length SEP)"
    unfolding render_def by (rule order_trans [OF length_join_le]) (simp add: comp_def)
  also have "\<dots> \<le> (\<Sum>r\<leftarrow>ordered. nat ?q)"
    by (rule sum_list_mono) (rule each)
  also have "\<dots> = ?n * nat ?q"
    by (simp add: sum_list_triv)
  finally have "int (length (render ordered ?caps)) \<le> int (?n * nat ?q)"
    by (simp only: of_nat_le_iff)
  also have "\<dots> \<le> budget"
  proof -
    have "0 \<le> ?q" using assms(4) by linarith
    then have "int (?n * nat ?q) = int ?n * ?q" by simp
    also have "\<dots> \<le> budget"
      using assms(1) by (metis add_le_same_cancel1 mult.commute pos_mod_sign div_mult_mod_eq
          le_add_same_cancel1 of_nat_0_less_iff length_greater_0_conv)
    finally show ?thesis .
  qed
  finally show ?thesis .
qed

text \<open>Then the body is the rendering of every result, each under its label.\<close>

lemma reduceToBudget_keeps_all:
  assumes "rs \<noteq> []" "\<forall>r \<in> set rs. 0 \<le> fst r"
    and "int (length (seq_label (fst (last (sort_key fst rs)))) + length TRUNC_MARKER + length SEP)
           \<le> budget div int (length rs)"
  shows "\<exists>caps. reduceToBudget rs cap budget = join SEP (map (chunk caps) (sort_key fst rs))"
proof -
  let ?o = "sort_key fst rs"
  have "int (length (render ?o (\<lambda>_. even_share ?o budget))) \<le> budget"
    using assms by (intro even_share_fits) simp_all
  then show ?thesis
    using assms(1) by (auto simp: reduceToBudget_def Let_def render_def)
qed

subsection \<open>Properties\<close>

text \<open>The body handed to the finalizer never exceeds its budget; and when the budget gives every result
  room for its label, no result is left out of it and they appear in the order of the run.\<close>

theorem body_fits_and_keeps_all:
  assumes "0 \<le> budget"
  shows "int (length (reduceToBudget rs cap budget)) \<le> budget
     \<and> (rs \<noteq> [] \<and> (\<forall>r \<in> set rs. 0 \<le> fst r)
          \<and> int (length (seq_label (fst (last (sort_key fst rs)))) + length TRUNC_MARKER + length SEP)
              \<le> budget div int (length rs) \<longrightarrow>
        (\<exists>caps. reduceToBudget rs cap budget = join SEP (map (chunk caps) (sort_key fst rs))))"
  using reduceToBudget_fits [OF assms] reduceToBudget_keeps_all [of rs budget cap] by blast

theorem body_fits_and_keeps_all_witness:
  "int (length (reduceToBudget [(1, ''abc''), (0, ''de'')] 100 40)) \<le> 40"
  using body_fits_and_keeps_all [of 40 "[(1, ''abc''), (0, ''de'')]" 100] by simp

end
