(* ===== verification/ControllerRoles.thy ===== *)
theory ControllerRoles
  imports Planner Complex_Main
begin

text \<open>
  The small roles around the controller: \<open>default-step-execution-control.ts\<close> (the gates of a step),
  \<open>target-state.ts\<close> (establishing the goal) and the reply mapping of \<open>subagent-client.ts\<close>.
\<close>

subsection \<open>Step execution control\<close>

record round_state =
  rs_toolCallCount :: int
  rs_elapsedMs :: int

record step_budgets =
  sb_maxToolCalls :: "int option"
  sb_perStepTimeoutMs :: "int option"

datatype control_decision = ContinueStep | StopStep string

definition timedOut :: "step_budgets \<Rightarrow> round_state \<Rightarrow> bool" where
  "timedOut b s =
     (case sb_perStepTimeoutMs b of None \<Rightarrow> False | Some ms \<Rightarrow> ms > 0 \<and> rs_elapsedMs s \<ge> ms)"

definition shouldContinueRound :: "step_budgets \<Rightarrow> round_state \<Rightarrow> control_decision" where
  "shouldContinueRound b s = (if timedOut b s then StopStep ''step-timeout'' else ContinueStep)"

definition canExecuteTool :: "step_budgets \<Rightarrow> round_state \<Rightarrow> control_decision" where
  "canExecuteTool b s =
     (if (case sb_maxToolCalls b of None \<Rightarrow> False | Some mx \<Rightarrow> rs_toolCallCount s + 1 > mx)
      then StopStep ''maxToolCalls''
      else if timedOut b s then StopStep ''step-timeout'' else ContinueStep)"

lemma canExecuteTool_bound:
  "canExecuteTool b s = ContinueStep \<Longrightarrow> sb_maxToolCalls b = Some mx \<Longrightarrow> rs_toolCallCount s + 1 \<le> mx"
  by (auto simp: canExecuteTool_def split: if_splits)

subsection \<open>Subagent replies\<close>

record llm_value =
  lv_content :: "string option"
  lv_toolCalls :: "tool_call list option"

definition subagent_reply :: "string option + llm_value \<Rightarrow> subagent_result" where
  "subagent_reply r =
     (case r of
        Inl msg \<Rightarrow> RError (nullish msg ''subagent llm error'')
      | Inr v \<Rightarrow>
          (case lv_toolCalls v of
             Some calls \<Rightarrow> if length calls > 0 then RToolCall calls else RContent (nullish (lv_content v) [])
           | None \<Rightarrow> RContent (nullish (lv_content v) [])))"

lemma subagent_reply_tool_call: "subagent_reply r = RToolCall calls \<Longrightarrow> calls \<noteq> []"
  by (auto simp: subagent_reply_def split: sum.splits option.splits if_splits)

subsection \<open>The target state\<close>

definition cosineDistance :: "real list \<Rightarrow> real list \<Rightarrow> real" where
  "cosineDistance a b =
     (let n = min (length a) (length b);
          dot = sum_list (map (\<lambda>i. a ! i * b ! i) [0..<n]);
          na = sum_list (map (\<lambda>i. a ! i * a ! i) [0..<n]);
          nb = sum_list (map (\<lambda>i. b ! i * b ! i) [0..<n])
      in if na = 0 \<or> nb = 0 then 1 else 1 - dot / (sqrt na * sqrt nb))"

datatype target_strategy = ConsumerConfirm | SemanticDistance | AutoStrategy

record target_config =
  tg_strategy :: target_strategy
  tg_threshold :: real

datatype target_outcome =
    Established string
  | NeedsConfirmation (tn_proposed: string) (tn_question: string)

text \<open>The outer \<open>None\<close> is the throw for a distance strategy without an embedder; \<open>fmt\<close> renders the
  distance (\<open>toFixed(2)\<close>).\<close>

definition establishTargetState ::
  "(message list \<Rightarrow> subagent_result) \<Rightarrow> (string \<Rightarrow> real list) option \<Rightarrow> (real \<Rightarrow> string) \<Rightarrow> string \<Rightarrow>
   target_config \<Rightarrow> string \<Rightarrow> string option \<Rightarrow> target_outcome option" where
  "establishTargetState send embedder fmt prompt cfg system hint =
     (let target = (case send [\<lparr>msg_role = ''system'', msg_content = appendHint system hint\<rparr>,
                               \<lparr>msg_role = ''user'', msg_content = prompt\<rparr>] of
                      RContent c \<Rightarrow> c | _ \<Rightarrow> [])
      in if tg_strategy cfg = ConsumerConfirm then
           Some (NeedsConfirmation target (''Confirm or refine the target state:'' @ newline @ target))
         else
           (case embedder of
              None \<Rightarrow> None
            | Some f \<Rightarrow>
                let dist = cosineDistance (f target) (f prompt)
                in if dist > tg_threshold cfg then
                     Some (NeedsConfirmation target
                       (''The goal may be ambiguous (distance '' @ fmt dist @ ''). Confirm or refine:'' @ newline @ target))
                   else Some (Established target)))"

text \<open>The distance of a nonzero vector to itself is zero, so an unchanged request is never put up for
  confirmation by a distance strategy with a nonnegative threshold.\<close>

lemma cosineDistance_self: "\<exists>x \<in> set a. x \<noteq> 0 \<Longrightarrow> cosineDistance a a = 0"
proof -
  assume a: "\<exists>x \<in> set a. x \<noteq> 0"
  let ?s = "sum_list (map (\<lambda>i. a ! i * a ! i) [0..<length a])"
  have "?s = (\<Sum>i<length a. a ! i * a ! i)"
    by (simp add: interv_sum_list_conv_sum_set_nat atLeast0LessThan)
  moreover have "(\<Sum>i<length a. a ! i * a ! i) \<noteq> 0"
  proof -
    obtain j where "j < length a" "a ! j \<noteq> 0"
      using a by (auto simp: in_set_conv_nth)
    then have "0 < (\<Sum>i<length a. a ! i * a ! i)"
      by (intro sum_pos2 [of _ j]) (auto simp: zero_less_mult_iff)
    then show ?thesis by simp
  qed
  moreover have "0 \<le> ?s"
    by (intro sum_list_nonneg) auto
  ultimately have "0 < ?s" by linarith
  then show ?thesis
    by (simp add: cosineDistance_def Let_def flip: real_sqrt_mult)
qed

end
