(* ===== verification/HandlerBase.thy ===== *)
theory HandlerBase
  imports ControllerRoles Recall Reviewer Finalizer WaitStep SessionBundle
begin

text \<open>
  Model of \<open>controller/controller-coordinator-handler.ts\<close>, first part: the environment and the state
  of one \<open>execute\<close> call, the pure helpers, the surfacing of chunks, the two store-first terminal
  writes, the escalation and the finalize phase.

  One call is deterministic given its environment: every reply of a language model, tool, clock or
  wait is a function of a counter \<open>hs_tick\<close> that moves with each use, so any sequence of replies is
  some environment.  A call of a planner, an executor, a reviewer, a tool, the recall or the tool selection
  may throw: \<open>en_plannerThrows\<close>, \<open>en_recallThrows\<close>, \<open>ExecThrow\<close>, \<open>McpThrow\<close> and \<open>None\<close> are these throws.
\<close>

subsection \<open>Configuration and environment\<close>

record budget_config =
  cf_maxSteps :: int
  cf_maxRetries :: int
  cf_maxRewinds :: int
  cf_maxToolCalls :: "int option"
  cf_perStepTimeoutMs :: "int option"
  cf_maxStepAttempts :: "int option"
  cf_maxStepResumes :: "int option"
  cf_maxPlannerResumes :: "int option"
  cf_maxEvalResumes :: "int option"
  cf_maxFinalizeRetries :: "int option"
  cf_maxReviewRetries :: "int option"
  cf_maxDigestChars :: "int option"
  cf_maxIntentChars :: "int option"
  cf_maxActiveSteps :: "int option"
  cf_maxBoardChars :: "int option"
  cf_keepRecentDigests :: "int option"
  cf_maxWaitMs :: "int option"
  cf_maxTotalWaitMs :: "int option"

datatype exec_reply = ExecReply subagent_result | ExecThrow
datatype mcp_reply = McpResult string bool | McpUnavailable string | McpThrow

record env =
  en_sid :: string
  en_traceId :: string
  en_metaCreated :: int
  en_now :: "nat \<Rightarrow> int"
  en_ttl :: int
  en_mint :: "nat \<Rightarrow> string"
  en_cfg :: budget_config
  en_bestEffort :: bool
  en_planner :: planner_env
  en_plannerThrows :: "nat \<Rightarrow> bool"
  en_recallThrows :: "nat \<Rightarrow> bool"
  en_plannerSend :: "nat \<Rightarrow> message list \<Rightarrow> subagent_result"
  en_evalSend :: "nat \<Rightarrow> message list \<Rightarrow> subagent_result"
  en_evalSystem :: string
  en_evalHint :: "string option"
  en_target :: target_config
  en_embedder :: "(string \<Rightarrow> real list) option"
  en_fmt :: "real \<Rightarrow> string"
  en_execSystem :: string
  en_execHint :: "string option"
  en_executor :: "nat \<Rightarrow> message list \<Rightarrow> string list \<Rightarrow> exec_reply"
  en_aborted :: "nat \<Rightarrow> bool"
  en_elapsed :: "nat \<Rightarrow> int"
  en_reviewer :: "(nat \<Rightarrow> step \<Rightarrow> evidence list \<Rightarrow> string \<Rightarrow> review_result option) option"
  en_finalizer :: "(nat \<Rightarrow> string \<Rightarrow> string \<Rightarrow> approved list \<Rightarrow> string + string) option"
  en_callMcp :: "nat \<Rightarrow> string \<Rightarrow> string \<Rightarrow> mcp_reply"
  en_selectTools :: "nat \<Rightarrow> string \<Rightarrow> string list option"
  en_wait :: "nat \<Rightarrow> int \<Rightarrow> bool"
  en_snapshot :: "nat \<Rightarrow> string"
  en_score :: "string \<Rightarrow> string \<Rightarrow> int"
  en_externalTools :: "string list"
  en_isExternal :: "string \<Rightarrow> bool"
  en_externalResults :: "string \<Rightarrow> string option"
  en_extId :: "string \<Rightarrow> string \<Rightarrow> string"
  en_lc :: "string \<Rightarrow> string \<Rightarrow> int"
  en_stringify :: "step list \<Rightarrow> string"

datatype chunk =
    ChText string
  | ChFinal string
  | ChToolCall string string string

record hst =
  hs_rag :: rag_handle
  hs_b :: session_bundle
  hs_tick :: nat
  hs_out :: "chunk list"

subsection \<open>State steps\<close>

definition bump :: "hst \<Rightarrow> hst" where
  "bump st = st\<lparr>hs_tick := Suc (hs_tick st)\<rparr>"

definition upd_b :: "(session_bundle \<Rightarrow> session_bundle) \<Rightarrow> hst \<Rightarrow> hst" where
  "upd_b f st = st\<lparr>hs_b := f (hs_b st)\<rparr>"

definition rows :: "hst \<Rightarrow> kentry list" where
  "rows st = kb_scan (h_backend (hs_rag st)) (h_sid (hs_rag st))"

text \<open>A write through the backend (\<open>deps.backend.put\<close>) and one through the knowledge handle.\<close>

definition put_row :: "kentry \<Rightarrow> hst \<Rightarrow> hst" where
  "put_row e st =
     st\<lparr>hs_rag := (hs_rag st)\<lparr>h_backend := kb_put (h_backend (hs_rag st)) (h_sid (hs_rag st)) e\<rparr>\<rparr>"

definition write_artifact :: "kentry \<Rightarrow> hst \<Rightarrow> hst" where
  "write_artifact e st = st\<lparr>hs_rag := rag_write (hs_rag st) e\<rparr>"

definition persist :: "env \<Rightarrow> hst \<Rightarrow> hst" where
  "persist env st = put_row (bundle_row (en_sid env) (hs_b st) (en_now env (hs_tick st))) st"

definition emit :: "chunk list \<Rightarrow> hst \<Rightarrow> hst" where
  "emit cs st = st\<lparr>hs_out := hs_out st @ cs\<rparr>"

subsection \<open>Pure helpers\<close>

definition GENERIC_NO_ANSWER :: string where
  "GENERIC_NO_ANSWER = ''The run ended without an answer.''"

definition noteFor :: "string \<Rightarrow> string" where
  "noteFor r =
     (if r = ''maxToolCalls'' then ''tool-call budget exhausted (maxToolCalls)''
      else if r = ''step-timeout'' then ''step time budget exhausted (step-timeout)''
      else r)"

definition capturedFailureText :: "session_bundle \<Rightarrow> string option" where
  "capturedFailureText b =
     (case b_inFlight b of
        None \<Rightarrow> None
      | Some f \<Rightarrow>
          (case i_controlFailure f of
             None \<Rightarrow> None
           | Some cf \<Rightarrow>
               if trim (nullish (cf_note cf) []) \<noteq> [] then Some (trim (nullish (cf_note cf) []))
               else if cf_reason cf = MaxToolCalls then Some ''tool-call budget exhausted (maxToolCalls)''
               else if cf_reason cf = StepTimeout then Some ''step time budget exhausted (step-timeout)''
               else None))"

definition nonEmptyBody :: "string \<Rightarrow> string" where
  "nonEmptyBody content = (if length (trim content) = 0 then GENERIC_NO_ANSWER else content)"

fun mapOutcome :: "status \<Rightarrow> step_outcome" where
  "mapOutcome SOk = Advanced"
| "mapOutcome SExists = Advanced"
| "mapOutcome SPartial = PartialOutcome"
| "mapOutcome SFailed = FailedOutcome"

definition recordStepControl :: "int \<Rightarrow> string \<Rightarrow> status \<Rightarrow> string \<Rightarrow> string \<Rightarrow> session_bundle \<Rightarrow> session_bundle" where
  "recordStepControl sq nm st note remainder b =
     b\<lparr>b_plannerPrivate := b_plannerPrivate b
         @ newline @ ''[seq '' @ int_str sq @ '' '' @ nm @ '' '' @ status_str st @ '']''
         @ (if note \<noteq> [] then '' '' @ note else [])
         @ (if remainder \<noteq> [] then '' remainder: '' @ remainder else [])\<rparr>"

text \<open>The confirmations; the last six are Ukrainian and Russian words, by their codes (theory \<open>Prelude\<close>).\<close>

definition AFFIRMATIONS :: "string list" where
  "AFFIRMATIONS = [''yes'', ''y'', ''ok'', ''okay'', ''confirm'', ''confirmed'', ''correct'', ''sure'', ''yep'', ''yeah'',
     [CHR 0xF2, CHR 0xE0, CHR 0xEA],
     [CHR 0xEE, CHR 0xEA],
     [CHR 0xEE, CHR 0xEA, CHR 0xE5, CHR 0xE9],
     [CHR 0xEF, CHR 0xB3, CHR 0xE4, CHR 0xF2, CHR 0xE2, CHR 0xE5, CHR 0xF0, CHR 0xE4, CHR 0xE6, CHR 0xF3, CHR 0xFE],
     [CHR 0xE2, CHR 0xB3, CHR 0xF0, CHR 0xED, CHR 0xEE],
     [CHR 0xE4, CHR 0xE0], ''+'']"

text \<open>\<open>toLowerCase\<close> on ASCII and Cyrillic letters.\<close>

definition lower_letter :: "char \<Rightarrow> char" where
  "lower_letter c =
     (let n = (of_char c :: nat) in
      if 0xC0 \<le> n \<and> n \<le> 0xDF then char_of (n + 0x20) else if n = 0xB2 then CHR 0xB3 else lower c)"

definition isAffirmation :: "string \<Rightarrow> bool" where
  "isAffirmation answer =
     (let t = rev (dropWhile (\<lambda>c. c = CHR ''.'' \<or> c = CHR ''!'') (rev (map lower_letter (trim answer))))
      in t \<in> set AFFIRMATIONS)"

fun extractPrompt :: "string + (string \<times> string option) list \<Rightarrow> string" where
  "extractPrompt (Inl s) = s"
| "extractPrompt (Inr ms) =
     (case find (\<lambda>m. fst m = ''user'') (rev ms) of None \<Rightarrow> [] | Some m \<Rightarrow> nullish (snd m) [])"

text \<open>The metadata template of the artifacts of one call.\<close>

definition synthMeta :: "env \<Rightarrow> meta" where
  "synthMeta env = base_meta (en_traceId env) ''controller'' ''step-result'' (en_metaCreated env)"

subsection \<open>Surfacing\<close>

definition surfaceClarify :: "string \<Rightarrow> hst \<Rightarrow> hst" where
  "surfaceClarify question st = emit [ChText (''To proceed, please provide: '' @ question), ChFinal []] st"

definition surfaceFinal :: "string \<Rightarrow> hst \<Rightarrow> hst" where
  "surfaceFinal content st = emit [ChFinal (nonEmptyBody content)] st"

definition surfaceToolCall :: "string \<Rightarrow> string \<Rightarrow> string \<Rightarrow> hst \<Rightarrow> hst" where
  "surfaceToolCall i nm args st = emit [ChToolCall i nm args] st"

subsection \<open>Terminal writes and escalation\<close>

definition run_key :: "env \<Rightarrow> session_bundle \<Rightarrow> string" where
  "run_key env b = nullish (b_runId b) (en_sid env)"

definition write_terminal :: "env \<Rightarrow> terminal_outcome \<Rightarrow> hst \<Rightarrow> hst" where
  "write_terminal env out st =
     put_row (terminal_row (en_sid env) (run_key env (hs_b st)) out (en_ttl env) (en_now env (hs_tick st))) st"

definition escalate :: "env \<Rightarrow> string \<Rightarrow> hst \<Rightarrow> hst" where
  "escalate env question st =
     surfaceClarify question
       (persist env (upd_b (\<lambda>b. b\<lparr>b_pending := Some (Clarify question ''loop'' None)\<rparr>) st))"

definition terminal_bundle :: "session_bundle \<Rightarrow> session_bundle" where
  "terminal_bundle b = b\<lparr>b_pending := None, b_inFlight := None, b_finalizeCallInFlight := False,
     b_runState := Some TerminalRun\<rparr>"

definition abortTerminal :: "env \<Rightarrow> string \<Rightarrow> hst \<Rightarrow> hst" where
  "abortTerminal env error st =
     surfaceFinal (''Error: '' @ error)
       (persist env (upd_b terminal_bundle (write_terminal env (TError error) st)))"

definition commitTerminalSuccess :: "env \<Rightarrow> string \<Rightarrow> hst \<Rightarrow> hst" where
  "commitTerminalSuccess env answer st =
     (if length (trim answer) = 0
      then abortTerminal env (nullish (capturedFailureText (hs_b st)) GENERIC_NO_ANSWER) st
      else surfaceFinal answer
             (persist env (upd_b terminal_bundle (write_terminal env (TSuccess answer) st))))"

subsection \<open>The finalize phase\<close>

definition onExhausted :: "env \<Rightarrow> approved list \<Rightarrow> string \<Rightarrow> hst \<Rightarrow> string option \<times> hst" where
  "onExhausted env approved reason st =
     (if en_bestEffort env then
        (Some (join SEP (map (\<lambda>(sq, c). ''[#'' @ int_str sq @ ''] '' @ c) approved)
            @ SEP @ ''[incomplete: the final answer could not be composed]''), st)
      else (None, abortTerminal env reason st))"

definition maxFinalizeRetries :: "env \<Rightarrow> int" where
  "maxFinalizeRetries env = nullish (cf_maxFinalizeRetries (en_cfg env)) 2"

definition finalize_attempts :: "hst \<Rightarrow> int" where
  "finalize_attempts st = nullish (b_finalizeAttempt (hs_b st)) 0"

definition charge_finalize :: "hst \<Rightarrow> hst" where
  "charge_finalize st = upd_b (\<lambda>b. b\<lparr>b_finalizeAttempt := Some (nullish (b_finalizeAttempt b) 0 + 1)\<rparr>) st"

text \<open>The compose loop: an answer, or \<open>None\<close> when the error policy already aborted.\<close>

definition compose_attempt ::
  "(nat \<Rightarrow> string \<Rightarrow> string \<Rightarrow> approved list \<Rightarrow> string + string) \<Rightarrow> string \<Rightarrow> approved list \<Rightarrow> hst \<Rightarrow> string + string" where
  "compose_attempt fin request approved st =
     (case fin (hs_tick st) (b_goal (hs_b st)) request approved of
        Inl err \<Rightarrow> Inl err
      | Inr composed \<Rightarrow>
          if length (trim composed) = 0 then Inl ''Error: finalizer returned an empty answer'' else Inr composed)"

function compose_loop ::
  "env \<Rightarrow> (nat \<Rightarrow> string \<Rightarrow> string \<Rightarrow> approved list \<Rightarrow> string + string) \<Rightarrow> string \<Rightarrow> approved list \<Rightarrow> hst \<Rightarrow>
   string option \<times> hst" where
  "compose_loop env fin request approved st =
     (case compose_attempt fin request approved st of
        Inr composed \<Rightarrow> (Some composed, bump st)
      | Inl err \<Rightarrow>
          let st1 = persist env (charge_finalize (bump st))
          in if finalize_attempts st1 > maxFinalizeRetries env then
               onExhausted env approved
                 (''finalizer failed after '' @ int_str (maxFinalizeRetries env) @ '' retries: '' @ err) st1
             else compose_loop env fin request approved st1)"
  by pat_completeness auto
termination
  by (relation "measure (\<lambda>(env, fin, request, approved, st). nat (maxFinalizeRetries env - finalize_attempts st))")
    (auto simp: finalize_attempts_def charge_finalize_def persist_def put_row_def upd_b_def bump_def)

declare compose_loop.simps [simp del]

definition finalize_enter :: "env \<Rightarrow> string option \<Rightarrow> hst \<Rightarrow> hst" where
  "finalize_enter env legacyAnswer st =
     persist env (upd_b (\<lambda>b.
       (if en_finalizer env = None \<and> legacyAnswer \<noteq> None then b\<lparr>b_legacyFinalAnswer := legacyAnswer\<rparr> else b)
         \<lparr>b_runPhase := Some Finalizing, b_finalizeCallInFlight := True\<rparr>) st)"

definition finalize_phase :: "env \<Rightarrow> string \<Rightarrow> string option \<Rightarrow> hst \<Rightarrow> hst" where
  "finalize_phase env prompt legacyAnswer st0 =
     (let request = nullish (b_originalRequest (hs_b st0)) prompt;
          hasFin = (en_finalizer env \<noteq> None \<and> truthy (b_runId (hs_b st0)));
          approved = (if hasFin then collectApproved (hs_rag st0) (the (b_runId (hs_b st0))) else []);
          captured = capturedFailureText (hs_b st0)
      in if hasFin \<and> length approved = 0 \<and> captured \<noteq> None then abortTerminal env (the captured) st0
         else
           (let st1 = (if b_finalizeCallInFlight (hs_b st0) then charge_finalize st0 else st0)
            in if b_finalizeCallInFlight (hs_b st0) \<and> finalize_attempts st1 > maxFinalizeRetries env then
                 (case onExhausted env approved ''finalizer retry budget exhausted on recovery'' st1 of
                    (None, st2) \<Rightarrow> st2
                  | (Some best, st2) \<Rightarrow> commitTerminalSuccess env best st2)
               else
                 (let st2 = finalize_enter env legacyAnswer st1
                  in if hasFin then
                       (case compose_loop env (the (en_finalizer env)) request approved st2 of
                          (None, st3) \<Rightarrow> st3
                        | (Some answer, st3) \<Rightarrow> commitTerminalSuccess env answer st3)
                     else
                       commitTerminalSuccess env
                         (case legacyAnswer of Some a \<Rightarrow> a
                          | None \<Rightarrow> nullish (b_legacyFinalAnswer (hs_b st2)) []) st2)))"

subsection \<open>Frames of the state steps\<close>

lemma rows_steps [store_simps]:
  "rows (put_row e st) = rows st @ [e]"
  "rows (write_artifact e st) = rows st @ [e]"
  "rows (bump st) = rows st"
  "rows (upd_b f st) = rows st"
  "rows (emit cs st) = rows st"
  "rows (persist env st) = rows st @ [bundle_row (en_sid env) (hs_b st) (en_now env (hs_tick st))]"
  by (simp_all add: rows_def put_row_def write_artifact_def rag_write_def bump_def upd_b_def emit_def
      persist_def store_simps)

lemma hs_b_steps [frame_simps]:
  "hs_b (put_row e st) = hs_b st"
  "hs_b (write_artifact e st) = hs_b st"
  "hs_b (bump st) = hs_b st"
  "hs_b (upd_b f st) = f (hs_b st)"
  "hs_b (emit cs st) = hs_b st"
  "hs_b (persist env st) = hs_b st"
  by (simp_all add: put_row_def write_artifact_def bump_def upd_b_def emit_def persist_def)

lemma hs_out_steps [frame_simps]:
  "hs_out (put_row e st) = hs_out st"
  "hs_out (write_artifact e st) = hs_out st"
  "hs_out (bump st) = hs_out st"
  "hs_out (upd_b f st) = hs_out st"
  "hs_out (emit cs st) = hs_out st @ cs"
  "hs_out (persist env st) = hs_out st"
  by (simp_all add: put_row_def write_artifact_def bump_def upd_b_def emit_def persist_def)

lemma hs_tick_steps [frame_simps]:
  "hs_tick (put_row e st) = hs_tick st"
  "hs_tick (write_artifact e st) = hs_tick st"
  "hs_tick (bump st) = Suc (hs_tick st)"
  "hs_tick (upd_b f st) = hs_tick st"
  "hs_tick (emit cs st) = hs_tick st"
  "hs_tick (persist env st) = hs_tick st"
  by (simp_all add: put_row_def write_artifact_def bump_def upd_b_def emit_def persist_def)

lemma hydrate_persisted [store_simps]: "hydrateBundle (rows (persist env st)) = hs_b st"
  by (simp add: store_simps hydrateBundle_snoc bundle_row_def)

lemma readTerminal_bundle_row [store_simps]:
  "readTerminal (es @ [bundle_row sid b now]) r t = readTerminal es r t"
  using readTerminal_neutral [of "[bundle_row sid b now]"] by simp

lemma readTerminal_rows_persist [store_simps]: "readTerminal (rows (persist env st)) r t = readTerminal (rows st) r t"
  by (simp add: store_simps)

lemma trim_nonblank: "length (trim c) = 0 \<longleftrightarrow> (\<forall>x \<in> set c. is_space x)"
  using trim_eq_Nil_iff [of c] by simp

lemma nonEmptyBody_nonblank: "\<exists>x \<in> set (nonEmptyBody c). \<not> is_space x"
  by (auto simp: nonEmptyBody_def trim_eq_Nil_iff GENERIC_NO_ANSWER_def is_space_def)

lemma nonEmptyBody_error: "nonEmptyBody (''Error: '' @ e) = ''Error: '' @ e"
  by (simp add: nonEmptyBody_def trim_eq_Nil_iff is_space_def)

lemmas nonEmptyBody_error_text = nonEmptyBody_error [simplified]

lemma terminal_bundle_sel [simp]:
  "b_runState (terminal_bundle b) = Some TerminalRun" "b_runId (terminal_bundle b) = b_runId b"
  "b_pending (terminal_bundle b) = None" "b_inFlight (terminal_bundle b) = None"
  by (simp_all add: terminal_bundle_def)

subsection \<open>A run ends store-first\<close>

fun surfaced :: "terminal_outcome \<Rightarrow> string" where
  "surfaced (TSuccess a) = a"
| "surfaced (TError e) = ''Error: '' @ e"

text \<open>Rows written on the way: bundle rows that keep the run state.\<close>

definition quiet_rows :: "env \<Rightarrow> hst \<Rightarrow> kentry list \<Rightarrow> bool" where
  "quiet_rows env st pre \<longleftrightarrow>
     (\<forall>x \<in> set pre. \<exists>b k. x = bundle_row (en_sid env) b (en_now env k) \<and> b_runState b = b_runState (hs_b st))"

lemma quiet_rows_simps [simp]:
  "quiet_rows env st []"
  "quiet_rows env st (pre @ pre') \<longleftrightarrow> quiet_rows env st pre \<and> quiet_rows env st pre'"
  by (auto simp: quiet_rows_def)

lemma quiet_rows_single: "b_runState b = b_runState (hs_b st) \<Longrightarrow> quiet_rows env st [bundle_row (en_sid env) b (en_now env k)]"
  by (auto simp: quiet_rows_def)

lemma quiet_rows_cong: "b_runState (hs_b st) = b_runState (hs_b st1) \<Longrightarrow> quiet_rows env st1 pre = quiet_rows env st pre"
  by (simp add: quiet_rows_def)

text \<open>From \<open>st\<close> the run ended in \<open>st'\<close>, store first: the last two rows are the terminal row, under the key of the run,
  and then the bundle, and no row before them changed the run state; the outcome is readable until it
  expires, the persisted bundle is terminal, and exactly that outcome was surfaced last.\<close>

definition ended :: "env \<Rightarrow> hst \<Rightarrow> hst \<Rightarrow> bool" where
  "ended env st st' \<longleftrightarrow>
     (\<exists>out k pre. rows st' = rows st @ pre
             @ [terminal_row (en_sid env) (run_key env (hs_b st)) out (en_ttl env) (en_now env k),
                bundle_row (en_sid env) (hs_b st') (en_now env k)]
        \<and> quiet_rows env st pre
        \<and> (\<forall>t. readTerminal (rows st') (run_key env (hs_b st)) t
                  = (if en_now env k + en_ttl env \<le> t then None else Some out))
        \<and> b_runState (hs_b st') = Some TerminalRun
        \<and> hydrateBundle (rows st') = hs_b st'
        \<and> hs_out st' = hs_out st @ [ChFinal (surfaced out)]
        \<and> (\<exists>x \<in> set (surfaced out). \<not> is_space x))"

lemma abortTerminal_rows:
  "rows (abortTerminal env err st) =
     rows st @ [terminal_row (en_sid env) (run_key env (hs_b st)) (TError err) (en_ttl env) (en_now env (hs_tick st)),
                bundle_row (en_sid env) (terminal_bundle (hs_b st)) (en_now env (hs_tick st))]"
  by (simp add: abortTerminal_def surfaceFinal_def write_terminal_def store_simps frame_simps)

lemma abortTerminal_frame [frame_simps]:
  "hs_b (abortTerminal env err st) = terminal_bundle (hs_b st)"
  "hs_out (abortTerminal env err st) = hs_out st @ [ChFinal (''Error: '' @ err)]"
  by (simp_all add: abortTerminal_def surfaceFinal_def write_terminal_def frame_simps nonEmptyBody_error_text)

lemma ended_abortTerminal: "ended env st (abortTerminal env err st)"
proof -
  have "readTerminal (rows (abortTerminal env err st)) (run_key env (hs_b st)) t
      = (if en_now env (hs_tick st) + en_ttl env \<le> t then None else Some (TError err))" for t
    using readTerminal_snoc [of "rows st" "terminal_row (en_sid env) (run_key env (hs_b st)) (TError err) (en_ttl env) (en_now env (hs_tick st))"]
    by (simp add: abortTerminal_rows readTerminal_bundle_row [of "rows st @ [x]" for x, simplified] terminal_row_def)
  moreover have "hydrateBundle (rows (abortTerminal env err st)) = terminal_bundle (hs_b st)"
    using hydrateBundle_snoc [of "rows st @ [x]" for x]
    by (simp add: abortTerminal_rows bundle_row_def)
  ultimately show ?thesis
    unfolding ended_def
    by (intro exI [of _ "TError err"] exI [of _ "hs_tick st"] exI [of _ "[]"])
      (simp add: abortTerminal_rows frame_simps is_space_def)
qed

lemma commit_success_rows:
  assumes "length (trim a) \<noteq> 0"
  shows "rows (commitTerminalSuccess env a st) =
     rows st @ [terminal_row (en_sid env) (run_key env (hs_b st)) (TSuccess a) (en_ttl env) (en_now env (hs_tick st)),
                bundle_row (en_sid env) (terminal_bundle (hs_b st)) (en_now env (hs_tick st))]"
    "hs_b (commitTerminalSuccess env a st) = terminal_bundle (hs_b st)"
    "hs_out (commitTerminalSuccess env a st) = hs_out st @ [ChFinal a]"
  using assms
  by (simp_all add: commitTerminalSuccess_def surfaceFinal_def write_terminal_def store_simps frame_simps
      nonEmptyBody_def)

lemma ended_commitTerminalSuccess: "ended env st (commitTerminalSuccess env a st)"
proof (cases "length (trim a) = 0")
  case True
  then show ?thesis using ended_abortTerminal by (simp add: commitTerminalSuccess_def)
next
  case False
  note r = commit_success_rows [OF False, of env st]
  have "readTerminal (rows (commitTerminalSuccess env a st)) (run_key env (hs_b st)) t
      = (if en_now env (hs_tick st) + en_ttl env \<le> t then None else Some (TSuccess a))" for t
    using readTerminal_snoc [of "rows st" "terminal_row (en_sid env) (run_key env (hs_b st)) (TSuccess a) (en_ttl env) (en_now env (hs_tick st))"]
    by (simp add: r readTerminal_bundle_row [of "rows st @ [x]" for x, simplified] terminal_row_def)
  moreover have "hydrateBundle (rows (commitTerminalSuccess env a st)) = terminal_bundle (hs_b st)"
    using hydrateBundle_snoc [of "rows st @ [x]" for x] by (simp add: r bundle_row_def)
  moreover have "\<exists>x \<in> set a. \<not> is_space x"
    using False by (simp add: trim_eq_Nil_iff)
  ultimately show ?thesis
    unfolding ended_def
    by (intro exI [of _ "TSuccess a"] exI [of _ "hs_tick st"] exI [of _ "[]"]) (simp add: r)
qed

text \<open>From \<open>st\<close> to \<open>st1\<close> only quiet rows were written and nothing was surfaced.\<close>

definition quietly :: "env \<Rightarrow> hst \<Rightarrow> hst \<Rightarrow> bool" where
  "quietly env st st1 \<longleftrightarrow>
     (\<exists>pre. rows st1 = rows st @ pre \<and> quiet_rows env st pre) \<and> b_runState (hs_b st1) = b_runState (hs_b st)
     \<and> run_key env (hs_b st1) = run_key env (hs_b st) \<and> hs_out st1 = hs_out st"

lemma quietly_refl [simp]: "quietly env st st"
  by (simp add: quietly_def)

lemma quietly_trans:
  assumes "quietly env st st1" "quietly env st1 st2"
  shows "quietly env st st2"
proof -
  obtain pre pre' where "rows st1 = rows st @ pre" "quiet_rows env st pre" "rows st2 = rows st1 @ pre'" "quiet_rows env st1 pre'"
      "b_runState (hs_b st1) = b_runState (hs_b st)"
    using assms by (auto simp: quietly_def)
  then have "rows st2 = rows st @ (pre @ pre') \<and> quiet_rows env st (pre @ pre')"
    using quiet_rows_cong [of st st1] by simp
  then show ?thesis using assms unfolding quietly_def by (metis (no_types, lifting))
qed

lemma ended_trans_frame:
  assumes "ended env st1 st'" "quietly env st st1"
  shows "ended env st st'"
proof -
  obtain pre where pre: "rows st1 = rows st @ pre" "quiet_rows env st pre" and
    q: "b_runState (hs_b st1) = b_runState (hs_b st)" "run_key env (hs_b st1) = run_key env (hs_b st)" "hs_out st1 = hs_out st"
    using assms(2) by (auto simp: quietly_def)
  obtain out k pre' where e: "rows st' = rows st1 @ pre'
             @ [terminal_row (en_sid env) (run_key env (hs_b st1)) out (en_ttl env) (en_now env k),
                bundle_row (en_sid env) (hs_b st') (en_now env k)]" "quiet_rows env st1 pre'"
    and r: "\<forall>t. readTerminal (rows st') (run_key env (hs_b st1)) t = (if en_now env k + en_ttl env \<le> t then None else Some out)"
      "b_runState (hs_b st') = Some TerminalRun" "hydrateBundle (rows st') = hs_b st'"
      "hs_out st' = hs_out st1 @ [ChFinal (surfaced out)]" "\<exists>x \<in> set (surfaced out). \<not> is_space x"
    using assms(1) unfolding ended_def by blast
  show ?thesis
    unfolding ended_def
    by (rule exI [of _ out], rule exI [of _ k], rule exI [of _ "pre @ pre'"])
      (use e pre r q quiet_rows_cong [OF q(1) [symmetric]] in simp)
qed

text \<open>What the compose loop leaves untouched, and that it answers or ends the run.\<close>

lemma quietly_persist:
  "b_runState (f (hs_b st)) = b_runState (hs_b st) \<Longrightarrow> b_runId (f (hs_b st)) = b_runId (hs_b st) \<Longrightarrow> quietly env st (persist env (upd_b f st))"
  "quietly env st (bump st)"
  by (simp_all add: quietly_def frame_simps store_simps run_key_def quiet_rows_single)

lemma finalize_steps_quiet:
  "quietly env st (charge_finalize st)"
  "quietly env st (finalize_enter env la st)"
  "quietly env st (persist env (charge_finalize (bump st)))"
  by (simp_all add: charge_finalize_def finalize_enter_def quietly_def frame_simps store_simps run_key_def quiet_rows_single)

lemma compose_loop_ends:
  "compose_loop env fin request approved st = (r, st') \<Longrightarrow>
     (case r of None \<Rightarrow> ended env st st' | Some a \<Rightarrow> quietly env st st')"
proof (induction env fin request approved st arbitrary: r st' rule: compose_loop.induct)
  case (1 env fin request approved st)
  show ?case
  proof (cases "compose_attempt fin request approved st")
    case (Inr composed)
    with 1(2) show ?thesis
      by (subst (asm) compose_loop.simps) (auto simp: quietly_persist)
  next
    case (Inl err)
    define st1 where "st1 = persist env (charge_finalize (bump st))"
    have fr: "quietly env st st1" unfolding st1_def by (rule finalize_steps_quiet)
    show ?thesis
    proof (cases "finalize_attempts st1 > maxFinalizeRetries env")
      case True
      then have "(r, st') = onExhausted env approved
          (''finalizer failed after '' @ int_str (maxFinalizeRetries env) @ '' retries: '' @ err) st1"
        using 1(2) Inl by (subst (asm) compose_loop.simps) (simp add: st1_def Let_def)
      then show ?thesis
        using fr ended_trans_frame [OF ended_abortTerminal fr]
        by (auto simp: onExhausted_def split: if_splits)
    next
      case False
      then have rec: "compose_loop env fin request approved st1 = (r, st')"
        using 1(2) Inl by (subst (asm) compose_loop.simps) (simp add: st1_def Let_def)
      have "case r of None \<Rightarrow> ended env st1 st' | Some a \<Rightarrow> quietly env st1 st'"
        using 1(1) [OF Inl st1_def False rec] .
      then show ?thesis
        using ended_trans_frame [OF _ fr] quietly_trans [OF fr] by (auto split: option.splits)
    qed
  qed
qed

lemma finalize_phase_ends: "ended env st (finalize_phase env prompt la st)"
proof -
  let ?hasFin = "en_finalizer env \<noteq> None \<and> truthy (b_runId (hs_b st))"
  define approved where "approved = (if ?hasFin then collectApproved (hs_rag st) (the (b_runId (hs_b st))) else [])"
  define st1 where "st1 = (if b_finalizeCallInFlight (hs_b st) then charge_finalize st else st)"
  define st2 where "st2 = finalize_enter env la st1"
  have f1: "quietly env st st1" by (simp add: st1_def finalize_steps_quiet)
  have f2: "quietly env st st2" unfolding st2_def by (rule quietly_trans [OF f1 finalize_steps_quiet(2)])
  let ?c1 = "?hasFin \<and> length approved = 0 \<and> capturedFailureText (hs_b st) \<noteq> None"
  let ?c2 = "b_finalizeCallInFlight (hs_b st) \<and> finalize_attempts st1 > maxFinalizeRetries env"
  let ?req = "nullish (b_originalRequest (hs_b st)) prompt"
  have fp: "finalize_phase env prompt la st =
      (if ?c1 then abortTerminal env (the (capturedFailureText (hs_b st))) st
       else if ?c2 then
         (case onExhausted env approved ''finalizer retry budget exhausted on recovery'' st1 of
            (None, s) \<Rightarrow> s | (Some best, s) \<Rightarrow> commitTerminalSuccess env best s)
       else if ?hasFin then
         (case compose_loop env (the (en_finalizer env)) ?req approved st2 of
            (None, s) \<Rightarrow> s | (Some answer, s) \<Rightarrow> commitTerminalSuccess env answer s)
       else commitTerminalSuccess env
              (case la of Some a \<Rightarrow> a | None \<Rightarrow> nullish (b_legacyFinalAnswer (hs_b st2)) []) st2)"
    by (simp only: finalize_phase_def Let_def approved_def st1_def st2_def)
  show ?thesis
  proof (cases ?c1)
    case True
    show ?thesis unfolding fp if_P [OF True] by (rule ended_abortTerminal)
  next
    case c1: False
    show ?thesis
    proof (cases ?c2)
      case True
      show ?thesis
        using ended_trans_frame [OF ended_abortTerminal f1] ended_trans_frame [OF ended_commitTerminalSuccess f1]
        unfolding fp if_not_P [OF c1] if_P [OF True] by (simp add: onExhausted_def)
    next
      case c2: False
      show ?thesis
      proof (cases ?hasFin)
        case True
        obtain r s where c: "compose_loop env (the (en_finalizer env)) ?req approved st2 = (r, s)" by fastforce
        note e = compose_loop_ends [OF c]
        show ?thesis
          unfolding fp if_not_P [OF c1] if_not_P [OF c2] if_P [OF True] c
          using e ended_trans_frame [OF _ f2] ended_trans_frame [OF ended_commitTerminalSuccess quietly_trans [OF f2]]
          by (cases r) auto
      next
        case False
        show ?thesis
          unfolding fp if_not_P [OF c1] if_not_P [OF c2] if_not_P [OF False]
          by (rule ended_trans_frame [OF ended_commitTerminalSuccess f2])
      qed
    qed
  qed
qed

end
