(* ===== verification/RunStep.thy ===== *)
theory RunStep
  imports HandlerBase
begin

text \<open>
  Model of \<open>controller-coordinator-handler.ts\<close>, second part: serving a wait step and running an
  executor step (\<open>serveWaitStep\<close>, \<open>writeWaitArtifact\<close>, \<open>runStep\<close>).  The tool-loop context strategy is
  the default one: it owns the messages of the rounds, of which the model keeps the snapshot that is
  persisted.
\<close>

subsection \<open>Step results\<close>

definition next_ordinal :: "session_bundle \<Rightarrow> int" where
  "next_ordinal b = nullish (b_writeOrdinal b) 0 + 1"

definition step_result_entry ::
  "env \<Rightarrow> step \<Rightarrow> string option \<Rightarrow> int \<Rightarrow> int \<Rightarrow> status \<Rightarrow> string \<Rightarrow> string \<Rightarrow> string \<Rightarrow> int \<Rightarrow> string \<Rightarrow> kentry" where
  "step_result_entry env step rid sq att st note remainder digest ord content =
     \<lparr>k_content = CText content,
      k_meta = (synthMeta env)
        \<lparr>m_artifactType := ''step-result'', m_task := s_name step, m_runId := rid, m_seq := Some sq,
         m_attempt := Some att, m_status := Some st, m_note := Some note, m_remainder := Some remainder,
         m_stepId := s_stepId step, m_digest := Some digest, m_writeOrdinal := Some ord\<rparr>\<rparr>"

definition write_step_result ::
  "env \<Rightarrow> step \<Rightarrow> int \<Rightarrow> int \<Rightarrow> status \<Rightarrow> string \<Rightarrow> string \<Rightarrow> string \<Rightarrow> string \<Rightarrow> hst \<Rightarrow> hst" where
  "write_step_result env step sq att st note remainder digest content s =
     (let ord = next_ordinal (hs_b s)
      in write_artifact
           (step_result_entry env step (b_runId (hs_b s)) sq att st note remainder digest ord content)
           (upd_b (\<lambda>b. b\<lparr>b_writeOrdinal := Some ord\<rparr>) s))"

definition charge_step :: "hst \<Rightarrow> hst" where
  "charge_step st = upd_b (\<lambda>b. b\<lparr>b_budgets := (b_budgets b)\<lparr>u_stepsUsed := u_stepsUsed (b_budgets b) + 1\<rparr>\<rparr>) st"

definition append_private :: "string \<Rightarrow> hst \<Rightarrow> hst" where
  "append_private t st = upd_b (\<lambda>b. b\<lparr>b_plannerPrivate := b_plannerPrivate b @ newline @ t\<rparr>) st"

definition upd_inflight :: "(inflight \<Rightarrow> inflight) \<Rightarrow> hst \<Rightarrow> hst" where
  "upd_inflight f st = upd_b (\<lambda>b. b\<lparr>b_inFlight := map_option f (b_inFlight b)\<rparr>) st"

text \<open>\<open>settleStep\<close> with the planner's commit as callback: one state change, one write.\<close>

definition settle_st :: "env \<Rightarrow> step_outcome \<Rightarrow> hst \<Rightarrow> hst" where
  "settle_st env outcome st = persist env (upd_b (\<lambda>b. settle_bundle (Some planner_commit_op) b outcome) st)"

definition cur_seq :: "session_bundle \<Rightarrow> int" where
  "cur_seq b = (case b_inFlight b of Some f \<Rightarrow> i_seq f | None \<Rightarrow> nullish (b_nextSeq b) 0)"

definition cur_attempt :: "session_bundle \<Rightarrow> int" where
  "cur_attempt b = (case b_inFlight b of Some f \<Rightarrow> i_attempt f | None \<Rightarrow> 0)"

definition max_digest :: "env \<Rightarrow> int" where
  "max_digest env = nullish (cf_maxDigestChars (en_cfg env)) 500"

subsection \<open>Wait steps\<close>

datatype wait_served = Served | WaitAborted | NotAWait

definition writeWaitArtifact :: "env \<Rightarrow> step \<Rightarrow> status \<Rightarrow> string \<Rightarrow> string \<Rightarrow> hst \<Rightarrow> hst" where
  "writeWaitArtifact env step status textv note st =
     write_step_result env step
       (case b_inFlight (hs_b st) of Some f \<Rightarrow> i_seq f | None \<Rightarrow> 0)
       (case b_inFlight (hs_b st) of Some f \<Rightarrow> i_attempt f | None \<Rightarrow> 0)
       status note [] (slice0 (max_digest env) textv) textv st"

definition wait_plan_of :: "env \<Rightarrow> step \<Rightarrow> inflight \<Rightarrow> hst \<Rightarrow> wait_plan" where
  "wait_plan_of env step f st =
     planWait step (i_waitStartedAt f) (i_appliedWaitMs f)
       (nullish (cf_maxWaitMs (en_cfg env)) 600000) (nullish (cf_maxTotalWaitMs (en_cfg env)) 1800000)
       (nullish (u_waitMsUsed (b_budgets (hs_b st))) 0) (en_now env (hs_tick st))"

definition serve_torn :: "env \<Rightarrow> step \<Rightarrow> inflight \<Rightarrow> string \<Rightarrow> hst \<Rightarrow> hst" where
  "serve_torn env step f missing st =
     (let reason = ''wait deadline half-written: missing '' @ missing;
          st1 = writeWaitArtifact env step SFailed
                  (''Wait deadline half-written: missing '' @ missing @ ''. The step never ran.'') reason (charge_step st);
          st2 = append_private (''[seq '' @ int_str (i_seq f) @ '' '' @ s_name step @ '' control-failed] '' @ reason) st1;
          st3 = upd_inflight (\<lambda>g. g\<lparr>i_controlFailure := Some
                  \<lparr>cf_reason = ControlFailureReason, cf_seq = i_seq g, cf_note = None\<rparr>\<rparr>) st2
      in settle_st env FailedOutcome st3)"

text \<open>The fresh wait is charged and its deadline made durable before the sleep.\<close>

definition charge_wait :: "env \<Rightarrow> int \<Rightarrow> hst \<Rightarrow> hst" where
  "charge_wait env applied st =
     persist env
       (upd_inflight (\<lambda>g. g\<lparr>i_waitStartedAt := Some (en_now env (hs_tick st)), i_appliedWaitMs := Some applied\<rparr>)
         (upd_b (\<lambda>b. b\<lparr>b_budgets := (b_budgets b)
             \<lparr>u_waitMsUsed := Some (nullish (u_waitMsUsed (b_budgets b)) 0 + applied)\<rparr>\<rparr>) st))"

definition finish_wait :: "env \<Rightarrow> step \<Rightarrow> wait_plan \<Rightarrow> hst \<Rightarrow> hst" where
  "finish_wait env step plan st =
     (let textnote = describeWait plan step;
          st1 = charge_step (writeWaitArtifact env step SOk (fst textnote) (snd textnote) st);
          st2 = upd_b (recordStepControl (cur_seq (hs_b st)) (s_name step) SOk (snd textnote) []) st1
      in settle_st env Advanced st2)"

definition serveWaitStep :: "env \<Rightarrow> step \<Rightarrow> hst \<Rightarrow> wait_served \<times> hst" where
  "serveWaitStep env step st =
     (case b_inFlight (hs_b st) of
        None \<Rightarrow> (NotAWait, st)
      | Some f \<Rightarrow>
          if \<not> isWaitStep step then (NotAWait, st)
          else
            (case wait_plan_of env step f st of
               WTorn missing \<Rightarrow> (Served, serve_torn env step f missing st)
             | WFresh applied clamped skip \<Rightarrow>
                 (let st1 = charge_wait env applied st
                  in if en_wait env (hs_tick st) applied then (WaitAborted, bump st1)
                     else (Served, finish_wait env step (WFresh applied clamped skip) (bump st1)))
             | WResume remaining passed \<Rightarrow>
                 (if en_wait env (hs_tick st) remaining then (WaitAborted, bump st)
                  else (Served, finish_wait env step (WResume remaining passed) (bump st)))))"

subsection \<open>Preparing a step\<close>

datatype step_result =
    RSettled step_outcome
  | RSuspended
  | RAborted
  | RThrew
  | ROutOfFuel

definition max_attempts :: "env \<Rightarrow> int" where
  "max_attempts env = nullish (cf_maxStepAttempts (en_cfg env)) 5"

definition max_tool_calls :: "env \<Rightarrow> int" where
  "max_tool_calls env = nullish (cf_maxToolCalls (en_cfg env)) 10"

definition step_budget_of :: "env \<Rightarrow> step_budgets" where
  "step_budget_of env = \<lparr>sb_maxToolCalls = Some (max_tool_calls env),
     sb_perStepTimeoutMs = cf_perStepTimeoutMs (en_cfg env)\<rparr>"

definition step_round_state :: "env \<Rightarrow> hst \<Rightarrow> round_state" where
  "step_round_state env st =
     \<lparr>rs_toolCallCount = (case b_inFlight (hs_b st) of Some f \<Rightarrow> i_toolCallCount f | None \<Rightarrow> 0),
      rs_elapsedMs = en_elapsed env (hs_tick st)\<rparr>"

definition static_prefix :: "env \<Rightarrow> step \<Rightarrow> hst \<Rightarrow> message list" where
  "static_prefix env step st =
     [\<lparr>msg_role = ''system'', msg_content = appendHint (en_execSystem env) (en_execHint env)\<rparr>,
      \<lparr>msg_role = ''user'', msg_content = ''Goal: '' @ b_goal (hs_b st) @ newline @ ''Step: '' @ s_name step
          @ newline @ ''Instructions: '' @ s_instructions step\<rparr>]
     @ (case buildRecallBlock
              (map (\<lambda>e. content_text (k_content e))
                 (runScopedRecall (hs_rag st) RECALL_K_STEP (b_runId (hs_b st))
                    (RECALL_K_STEP * nat (max_attempts env + 1)) [''step-result'']))
              RECALL_MAX_CHARS_STEP of
          None \<Rightarrow> []
        | Some block \<Rightarrow> [\<lparr>msg_role = ''user'', msg_content = block\<rparr>])"

definition gather_evidence :: "env \<Rightarrow> step \<Rightarrow> hst \<Rightarrow> evidence list" where
  "gather_evidence env step st =
     (let evBound = int RECALL_K_STEP * (max_attempts env + 1)
                      + cf_maxSteps (en_cfg env) * max_attempts env * max_tool_calls env
      in map (\<lambda>ref.
           let hits = runScopedRecall (hs_rag st) 1 (b_runId (hs_b st)) (nat evBound) [''step-result'', ''mcp-result'']
           in \<lparr>ev_ref = ref, ev_hit = (length hits > 0),
               ev_topArtifact = (case hits of [] \<Rightarrow> None
                 | h # _ \<Rightarrow> Some (relevantExtract (en_score env ref) (content_text (k_content h)) RECALL_EVIDENCE_CHARS))\<rparr>)
         (nullish (s_requires step) []))"

text \<open>The transcript is adopted by the context strategy and cleared; the control tail is made present.\<close>

definition enter_step :: "hst \<Rightarrow> hst" where
  "enter_step st =
     upd_inflight (\<lambda>f. f\<lparr>i_transcript := [], i_controlTail := Some (nullish (i_controlTail f) [])\<rparr>) st"

definition persistExchange :: "env \<Rightarrow> hst \<Rightarrow> hst" where
  "persistExchange env st =
     (if b_inFlight (hs_b st) = None then st
      else persist env (upd_inflight (\<lambda>f. f\<lparr>i_contextState := Some (en_snapshot env (hs_tick st))\<rparr>) st))"

definition push_control :: "string \<Rightarrow> hst \<Rightarrow> hst" where
  "push_control t st =
     upd_inflight (\<lambda>f. f\<lparr>i_controlTail :=
       Some (nullish (i_controlTail f) [] @ [\<lparr>msg_role = ''user'', msg_content = t\<rparr>])\<rparr>) st"

subsection \<open>Cuts and failures\<close>

definition writeControlFailure :: "env \<Rightarrow> step \<Rightarrow> string \<Rightarrow> hst \<Rightarrow> hst" where
  "writeControlFailure env step reason st =
     write_step_result env step (cur_seq (hs_b st)) (cur_attempt (hs_b st)) SFailed reason []
       (slice0 (max_digest env) reason) reason st"

definition typed_reason :: "string \<Rightarrow> failure_reason" where
  "typed_reason reason =
     (if reason = ''maxToolCalls'' then MaxToolCalls
      else if reason = ''step-timeout'' then StepTimeout else ControlFailureReason)"

definition cutControlFailure :: "env \<Rightarrow> step \<Rightarrow> string \<Rightarrow> hst \<Rightarrow> step_result \<times> hst" where
  "cutControlFailure env step reason st =
     (let st1 = writeControlFailure env step (noteFor reason) (charge_step st);
          st2 = append_private (''[seq '' @ int_str (cur_seq (hs_b st1)) @ '' '' @ s_name step
                  @ '' control-failed] '' @ noteFor reason) st1;
          st3 = upd_inflight (\<lambda>f. f\<lparr>i_phase := PhAwaitingReplan, i_controlFailure := Some
                  \<lparr>cf_reason = typed_reason reason, cf_seq = i_seq f, cf_note = Some (noteFor reason)\<rparr>\<rparr>) st2
      in (RSettled FailedOutcome, settle_st env FailedOutcome st3))"

text \<open>The failures after exhausted retries: charge, artifact, private note, settle.\<close>

definition fail_step :: "env \<Rightarrow> step \<Rightarrow> string \<Rightarrow> string \<Rightarrow> hst \<Rightarrow> step_result \<times> hst" where
  "fail_step env step reason private st =
     (RSettled FailedOutcome,
      settle_st env FailedOutcome
        (append_private private (writeControlFailure env step reason (charge_step st))))"

subsection \<open>Judging a content reply\<close>

definition default_review :: "env \<Rightarrow> string \<Rightarrow> review_result" where
  "default_review env content =
     ReviewOutcome (mk_review SOk content [] [] (slice0 (max_digest env) content))"

definition max_review_retries :: "env \<Rightarrow> int" where
  "max_review_retries env = nullish (cf_maxReviewRetries (en_cfg env)) 2"

text \<open>The re-ask loop; \<open>Inl\<close> is the reason of a judge that stays unusable, \<open>None\<close> a reviewer that throws.\<close>

function review_loop ::
  "env \<Rightarrow> (nat \<Rightarrow> review_result option) \<Rightarrow> int \<Rightarrow> review_result option \<Rightarrow> hst
     \<Rightarrow> (string + review_outcome) option \<times> hst" where
  "review_loop env ask reviewRetries verdict st =
     (case verdict of
        None \<Rightarrow> (None, st)
      | Some (ReviewOutcome v) \<Rightarrow> (Some (Inr v), st)
      | Some (JudgeFailure reason) \<Rightarrow>
          if reviewRetries + 1 > max_review_retries env then (Some (Inl reason), st)
          else review_loop env ask (reviewRetries + 1) (ask (hs_tick st)) (bump st))"
  by pat_completeness auto
termination
  by (relation "measure (\<lambda>(env, ask, reviewRetries, verdict, st). nat (max_review_retries env - reviewRetries))") auto

declare review_loop.simps [simp del]

definition settle_review :: "env \<Rightarrow> step \<Rightarrow> review_outcome \<Rightarrow> hst \<Rightarrow> step_result \<times> hst" where
  "settle_review env step v st =
     (let st1 = charge_step (write_step_result env step (cur_seq (hs_b st)) (cur_attempt (hs_b st)) (o_status v)
                  (o_note v) (o_remainder v) (o_digest v) (o_approved v) st);
          st2 = upd_b (recordStepControl (cur_seq (hs_b st)) (s_name step) (o_status v) (o_note v) (o_remainder v)) st1
      in (RSettled (mapOutcome (o_status v)), settle_st env (mapOutcome (o_status v)) st2))"

definition judge_content :: "env \<Rightarrow> step \<Rightarrow> evidence list \<Rightarrow> string \<Rightarrow> hst \<Rightarrow> step_result \<times> hst" where
  "judge_content env step evs content st =
     (let ask = (\<lambda>k. case en_reviewer env of None \<Rightarrow> Some (default_review env content) | Some rv \<Rightarrow> rv k step evs content)
      in case review_loop env ask 0 (ask (hs_tick st)) (bump st) of
           (None, st1) \<Rightarrow> (RThrew, st1)
         | (Some (Inr v), st1) \<Rightarrow> settle_review env step v st1
         | (Some (Inl reason), st1) \<Rightarrow>
             let text = ''reviewer unverifiable after '' @ int_str (max_review_retries env) @ '' retries: '' @ reason
             in fail_step env step text
                  (''[seq '' @ int_str (cur_seq (hs_b st1)) @ '' '' @ s_name step @ '' failed] '' @ text) st1)"

subsection \<open>One round\<close>

datatype round_next = RDone step_result | RAgain int

definition done_with :: "step_result \<times> hst \<Rightarrow> round_next \<times> hst" where
  "done_with p = (RDone (fst p), snd p)"

definition retry_or_fail ::
  "env \<Rightarrow> step \<Rightarrow> int \<Rightarrow> string \<Rightarrow> string \<Rightarrow> string \<Rightarrow> hst \<Rightarrow> round_next \<times> hst" where
  "retry_or_fail env step retries tail_text reason private st =
     (if retries + 1 \<le> cf_maxRetries (en_cfg env)
      then (RAgain (retries + 1), persistExchange env (push_control tail_text st))
      else done_with (fail_step env step reason private st))"

definition normalize_call :: "tool_call \<Rightarrow> tool_call" where
  "normalize_call tc =
     \<lparr>tc_id = or_str (tc_id tc) ''call'', tc_name = tc_name tc,
      tc_args = (if tc_args tc = [] \<or> json_parse (tc_args tc) = None then ''{}'' else tc_args tc)\<rparr>"

definition isExternalTool :: "env \<Rightarrow> string \<Rightarrow> bool" where
  "isExternalTool env nm \<longleftrightarrow> nm \<in> set (en_externalTools env) \<or> en_isExternal env nm"

definition external_call :: "env \<Rightarrow> step \<Rightarrow> tool_call \<Rightarrow> hst \<Rightarrow> round_next \<times> hst" where
  "external_call env step call st =
     (case canExecuteTool (step_budget_of env) (step_round_state env st) of
        StopStep r \<Rightarrow> done_with (cutControlFailure env step r st)
      | ContinueStep \<Rightarrow>
          let extId = en_extId env (tc_name call) (tc_args call);
              st1 = upd_inflight (\<lambda>f. f\<lparr>i_contextState := Some (en_snapshot env (hs_tick st)),
                      i_toolCallCount := i_toolCallCount f + 1\<rparr>) st;
              st2 = persist env (upd_b (\<lambda>b. b\<lparr>b_pending := Some (ExternalTool extId (tc_name call) (tc_args call) (s_name step)),
                      b_runState := Some Suspended\<rparr>) st1)
          in (RDone RSuspended, surfaceToolCall extId (tc_name call) (tc_args call) st2))"

definition internal_call :: "env \<Rightarrow> step \<Rightarrow> int \<Rightarrow> tool_call \<Rightarrow> hst \<Rightarrow> round_next \<times> hst" where
  "internal_call env step retries call st =
     (case canExecuteTool (step_budget_of env) (step_round_state env st) of
        StopStep r \<Rightarrow> done_with (cutControlFailure env step r st)
      | ContinueStep \<Rightarrow>
          let st1 = (if b_inFlight (hs_b st) = None then st
                     else persist env (upd_inflight (\<lambda>f. f\<lparr>i_toolCallCount := i_toolCallCount f + 1\<rparr>) st));
              reply = en_callMcp env (hs_tick st1) (tc_name call) (tc_args call);
              aborted = en_aborted env (hs_tick st1);
              st2 = bump st1
          in case reply of
               McpResult txt isError \<Rightarrow>
                 if isError then done_with (cutControlFailure env step txt st2)
                 else (RAgain retries,
                       persistExchange env
                         (upd_inflight (\<lambda>f. f\<lparr>i_controlTail := Some []\<rparr>)
                           (upd_b (\<lambda>b. b\<lparr>b_writeOrdinal := Some (next_ordinal b)\<rparr>) st2)))
             | McpUnavailable msg \<Rightarrow>
                 if aborted then done_with (cutControlFailure env step ''step-timeout'' st2)
                 else (RDone RAborted, abortTerminal env (''MCP server unavailable: '' @ msg) st2)
             | McpThrow \<Rightarrow>
                 if aborted then done_with (cutControlFailure env step ''step-timeout'' st2)
                 else (RDone RThrew, st2))"

definition route_reply ::
  "env \<Rightarrow> step \<Rightarrow> evidence list \<Rightarrow> string list \<Rightarrow> int \<Rightarrow> subagent_result \<Rightarrow> hst \<Rightarrow> round_next \<times> hst" where
  "route_reply env step evs offered retries res st =
     (case res of
        RContent c \<Rightarrow> done_with (judge_content env step evs c st)
      | RError err \<Rightarrow>
          retry_or_fail env step retries
            (''The previous attempt failed: '' @ err @ ''. Retry the step.'')
            (''executor error: '' @ err) (''[step '' @ s_name step @ '' failed] '' @ err) st
      | RToolCall [] \<Rightarrow>
          retry_or_fail env step retries
            ''The previous attempt produced an empty tool call. Retry the step.''
            ''empty tool call'' (''[step '' @ s_name step @ '' failed] empty tool call'') st
      | RToolCall (first # _) \<Rightarrow>
          let call = normalize_call first; nm = tc_name call
          in if isExternalTool env nm then external_call env step call st
             else if nm \<notin> set offered then
               retry_or_fail env step retries
                 (''Tool '' @ [quote_char] @ nm @ [quote_char]
                    @ '' is not available for this step. Use only the tools provided to you.'')
                 (''requested unavailable tool '' @ nm)
                 (''[step '' @ s_name step @ '' failed] requested unavailable tool '' @ nm) st
             else internal_call env step retries call st)"

definition run_round ::
  "env \<Rightarrow> step \<Rightarrow> evidence list \<Rightarrow> string list \<Rightarrow> message list \<Rightarrow> int \<Rightarrow> hst \<Rightarrow> round_next \<times> hst" where
  "run_round env step evs offered pre retries st =
     (case shouldContinueRound (step_budget_of env) (step_round_state env st) of
        StopStep r \<Rightarrow> done_with (cutControlFailure env step r st)
      | ContinueStep \<Rightarrow>
          let tail = (case b_inFlight (hs_b st) of None \<Rightarrow> [] | Some f \<Rightarrow> nullish (i_controlTail f) []);
              reply = en_executor env (hs_tick st) (pre @ tail) (offered @ en_externalTools env);
              aborted = en_aborted env (hs_tick st);
              st1 = bump st
          in case reply of
               ExecThrow \<Rightarrow>
                 if aborted then done_with (cutControlFailure env step ''step-timeout'' st1)
                 else (RDone RThrew, st1)
             | ExecReply res \<Rightarrow>
                 if aborted then done_with (cutControlFailure env step ''step-timeout'' st1)
                 else route_reply env step evs offered retries res st1)"

fun run_rounds ::
  "nat \<Rightarrow> env \<Rightarrow> step \<Rightarrow> evidence list \<Rightarrow> string list \<Rightarrow> message list \<Rightarrow> int \<Rightarrow> hst \<Rightarrow> step_result \<times> hst" where
  "run_rounds 0 env step evs offered pre retries st = (ROutOfFuel, st)"
| "run_rounds (Suc n) env step evs offered pre retries st =
     (case run_round env step evs offered pre retries st of
        (RDone r, st') \<Rightarrow> (r, st')
      | (RAgain retries', st') \<Rightarrow> run_rounds n env step evs offered pre retries' st')"

text \<open>Every round but the last spends a retry or a tool call.\<close>

definition step_fuel :: "env \<Rightarrow> nat" where
  "step_fuel env = nat (cf_maxRetries (en_cfg env)) + nat (max_tool_calls env) + 1"

definition runStep :: "env \<Rightarrow> step \<Rightarrow> hst \<Rightarrow> step_result \<times> hst" where
  "runStep env step st =
     (if en_recallThrows env (hs_tick st) then (RThrew, st)
      else
        (let pre = static_prefix env step st;
             st1 = enter_step (bump st)
         in if nullish (s_requires step) [] \<noteq> [] \<and> en_recallThrows env (hs_tick st1) then (RThrew, st1)
            else
              (let evs = gather_evidence env step st1;
                   st2 = bump st1
               in case en_selectTools env (hs_tick st2) (or_str (s_instructions step) (s_name step)) of
                    None \<Rightarrow> (RThrew, st2)
                  | Some offered \<Rightarrow> run_rounds (step_fuel env) env step evs offered pre 0 (bump st2))))"

subsection \<open>What a step may change\<close>

text \<open>The part of the bundle only a settlement moves.\<close>

definition core :: "session_bundle \<Rightarrow> string option \<times> step list option \<times> nat option \<times> int option \<times> int
    \<times> (int \<times> int \<times> step) option" where
  "core b = (b_runId b, b_plan b, b_planCursor b, b_nextSeq b, u_rewindsUsed (b_budgets b),
     map_option (\<lambda>f. (i_seq f, i_attempt f, i_step f)) (b_inFlight b))"

definition steps_used :: "session_bundle \<Rightarrow> int" where
  "steps_used b = u_stepsUsed (b_budgets b)"

definition tool_count :: "session_bundle \<Rightarrow> int" where
  "tool_count b = (case b_inFlight b of Some f \<Rightarrow> i_toolCallCount f | None \<Rightarrow> 0)"

lemma core_cur:
  assumes "core b = core b'"
  shows "cur_seq b = cur_seq b'" "cur_attempt b = cur_attempt b'" "b_runId b = b_runId b'"
    "b_inFlight b = None \<longleftrightarrow> b_inFlight b' = None"
  using assms by (auto simp: core_def cur_seq_def cur_attempt_def split: option.splits)

definition harmless :: "(inflight \<Rightarrow> inflight) \<Rightarrow> bool" where
  "harmless f \<longleftrightarrow> (\<forall>x. i_seq (f x) = i_seq x \<and> i_attempt (f x) = i_attempt x \<and> i_step (f x) = i_step x
     \<and> i_toolCallCount x \<le> i_toolCallCount (f x))"

lemma core_steps [frame_simps]:
  "core (hs_b (append_private t st)) = core (hs_b st)"
  "core (hs_b (charge_step st)) = core (hs_b st)"
  "harmless f \<Longrightarrow> core (hs_b (upd_inflight f st)) = core (hs_b st)"
  "core (hs_b (write_step_result env step sq att s note rm dg c st)) = core (hs_b st)"
  "core (recordStepControl sq nm s' note rm b) = core b"
  by (simp_all add: core_def append_private_def charge_step_def upd_inflight_def write_step_result_def
      recordStepControl_def frame_simps Let_def harmless_def option.map_comp comp_def)

lemma run_state_steps [frame_simps]: "b_runState (hs_b (upd_inflight f st)) = b_runState (hs_b st)"
  by (simp add: upd_inflight_def frame_simps)

lemma steps_used_steps [frame_simps]:
  "steps_used (hs_b (append_private t st)) = steps_used (hs_b st)"
  "steps_used (hs_b (charge_step st)) = steps_used (hs_b st) + 1"
  "steps_used (hs_b (upd_inflight f st)) = steps_used (hs_b st)"
  "steps_used (hs_b (write_step_result env step sq att s note rm dg c st)) = steps_used (hs_b st)"
  "steps_used (recordStepControl sq nm s' note rm b) = steps_used b"
  by (simp_all add: steps_used_def append_private_def charge_step_def upd_inflight_def write_step_result_def
      recordStepControl_def frame_simps Let_def)

lemma rows_more [store_simps]:
  "rows (append_private t st) = rows st"
  "rows (charge_step st) = rows st"
  "rows (upd_inflight f st) = rows st"
  "rows (write_step_result env step sq att s note rm dg c st) = rows st @
     [step_result_entry env step (b_runId (hs_b st)) sq att s note rm dg (next_ordinal (hs_b st)) c]"
  by (simp_all add: append_private_def charge_step_def upd_inflight_def write_step_result_def
      store_simps frame_simps Let_def)

definition is_result :: "step \<Rightarrow> session_bundle \<Rightarrow> status \<Rightarrow> kentry \<Rightarrow> bool" where
  "is_result step b s e \<longleftrightarrow>
     m_artifactType (k_meta e) = ''step-result'' \<and> m_runId (k_meta e) = b_runId b
     \<and> m_seq (k_meta e) = Some (cur_seq b) \<and> m_attempt (k_meta e) = Some (cur_attempt b)
     \<and> m_status (k_meta e) = Some s \<and> m_stepId (k_meta e) = s_stepId step"

text \<open>Everything a settlement needs is in place: one more step charged, one result row appended.\<close>

definition pre_settle :: "step \<Rightarrow> status \<Rightarrow> hst \<Rightarrow> hst \<Rightarrow> bool" where
  "pre_settle step s st st1 \<longleftrightarrow>
     core (hs_b st1) = core (hs_b st) \<and> steps_used (hs_b st1) = steps_used (hs_b st) + 1
     \<and> (\<exists>e. rows st1 = rows st @ [e] \<and> is_result step (hs_b st) s e)"

text \<open>The step settled: the result row and the bundle row are the last two rows, only bundle rows before
  them, and the bundle moved exactly as the outcome says.\<close>

definition settled :: "env \<Rightarrow> step \<Rightarrow> step_outcome \<Rightarrow> hst \<Rightarrow> hst \<Rightarrow> bool" where
  "settled env step out st st' \<longleftrightarrow>
     (\<exists>e s k pre. rows st' = rows st @ pre @ [e, bundle_row (en_sid env) (hs_b st') k] \<and> quiet_rows env st pre
        \<and> is_result step (hs_b st) s e \<and> mapOutcome s = out)
     \<and> steps_used (hs_b st') = steps_used (hs_b st) + 1
     \<and> b_lastOutcome (hs_b st') = Some out
     \<and> b_runId (hs_b st') = b_runId (hs_b st) \<and> b_plan (hs_b st') = b_plan (hs_b st)
     \<and> u_rewindsUsed (b_budgets (hs_b st')) = u_rewindsUsed (b_budgets (hs_b st))
     \<and> (if out = FailedOutcome then
          b_planCursor (hs_b st') = b_planCursor (hs_b st) \<and> b_nextSeq (hs_b st') = b_nextSeq (hs_b st)
          \<and> (\<forall>f. b_inFlight (hs_b st) = Some f \<longrightarrow> (\<exists>f'. b_inFlight (hs_b st') = Some f'
                \<and> i_seq f' = i_seq f \<and> i_attempt f' = i_attempt f \<and> i_phase f' = PhAwaitingReplan))
        else
          b_planCursor (hs_b st') = Some (nullish (b_planCursor (hs_b st)) 0 + 1)
          \<and> b_nextSeq (hs_b st') = Some (nullish (b_nextSeq (hs_b st)) 0 + 1)
          \<and> b_inFlight (hs_b st') = None)"

lemma settle_st_frame:
  "hs_b (settle_st env out st) = settle_bundle (Some planner_commit_op) (hs_b st) out"
  "rows (settle_st env out st) = rows st @
     [bundle_row (en_sid env) (hs_b (settle_st env out st)) (en_now env (hs_tick st))]"
  by (simp_all add: settle_st_def frame_simps store_simps)

lemma settle_bundle_cases:
  "out \<noteq> FailedOutcome \<Longrightarrow> settle_bundle (Some planner_commit_op) b out =
     b\<lparr>b_lastOutcome := Some out, b_planCursor := Some (nullish (b_planCursor b) 0 + 1),
       b_nextSeq := Some (nullish (b_nextSeq b) 0 + 1), b_inFlight := None, b_runPhase := Some Planning\<rparr>"
  "settle_bundle (Some planner_commit_op) b FailedOutcome =
     b\<lparr>b_lastOutcome := Some FailedOutcome,
       b_inFlight := map_option (\<lambda>f. f\<lparr>i_phase := PhAwaitingReplan\<rparr>) (b_inFlight b),
       b_runPhase := Some ExecutingPhase\<rparr>"
  by (cases out; simp add: settle_bundle_def planner_commit_op_def Let_def)+

lemma settled_intro:
  assumes "pre_settle step s st st1"
  shows "settled env step (mapOutcome s) st (settle_st env (mapOutcome s) st1)"
proof -
  obtain e where e: "rows st1 = rows st @ [e]" "is_result step (hs_b st) s e"
    and c: "core (hs_b st1) = core (hs_b st)" and u: "steps_used (hs_b st1) = steps_used (hs_b st) + 1"
    using assms by (auto simp: pre_settle_def)
  have r: "\<exists>e' s' k pre. rows (settle_st env (mapOutcome s) st1)
      = rows st @ pre @ [e', bundle_row (en_sid env) (hs_b (settle_st env (mapOutcome s) st1)) k] \<and> quiet_rows env st pre
      \<and> is_result step (hs_b st) s' e' \<and> mapOutcome s' = mapOutcome s"
    by (intro exI [of _ e] exI [of _ s] exI [of _ "en_now env (hs_tick st1)"] exI [of _ "[]"] conjI)
      (simp_all add: settle_st_frame(2) e del: settle_st_frame(1))
  show ?thesis
  proof (cases "mapOutcome s = FailedOutcome")
    case True
    with r c u show ?thesis
      unfolding settled_def settle_st_frame(1) settle_bundle_cases(2) True
      by (auto simp: core_def steps_used_def)
  next
    case False
    with r c u show ?thesis
      unfolding settled_def settle_st_frame(1) settle_bundle_cases(1) [OF False]
      by (auto simp: core_def steps_used_def)
  qed
qed

lemma pre_settle_result:
  "pre_settle step s st
     (charge_step (write_step_result env step (cur_seq (hs_b st)) (cur_attempt (hs_b st)) s note rm dg c st))"
  "pre_settle step s st
     (write_step_result env step (cur_seq (hs_b st)) (cur_attempt (hs_b st)) s note rm dg c (charge_step st))"
  by (simp_all add: pre_settle_def frame_simps store_simps is_result_def step_result_entry_def)
    (simp add: charge_step_def frame_simps)

lemma pre_settle_more:
  "pre_settle step s st st1 \<Longrightarrow> pre_settle step s st (append_private t st1)"
  "pre_settle step s st st1 \<Longrightarrow> harmless f \<Longrightarrow> pre_settle step s st (upd_inflight f st1)"
  "pre_settle step s st st1 \<Longrightarrow> pre_settle step s st (upd_b (recordStepControl sq nm s' note rm) st1)"
  by (simp_all add: pre_settle_def frame_simps store_simps)

lemma cur_charge_step [simp]:
  "cur_seq (hs_b (charge_step st)) = cur_seq (hs_b st)"
  "cur_attempt (hs_b (charge_step st)) = cur_attempt (hs_b st)"
  by (simp_all add: charge_step_def cur_seq_def cur_attempt_def frame_simps split: option.split)

lemma settled_cut: "settled env step FailedOutcome st (snd (cutControlFailure env step reason st))"
  using settled_intro [of step SFailed] pre_settle_result(2) [of step SFailed]
  unfolding cutControlFailure_def Let_def writeControlFailure_def
  by (simp add: pre_settle_more harmless_def)

lemma settled_fail: "settled env step FailedOutcome st (snd (fail_step env step reason private st))"
  using settled_intro [of step SFailed] pre_settle_result(2) [of step SFailed]
  unfolding fail_step_def writeControlFailure_def by (simp add: pre_settle_more)

lemma settled_review:
  "settled env step (mapOutcome (o_status v)) st (snd (settle_review env step v st))"
  unfolding settle_review_def Let_def snd_conv
  by (rule settled_intro, rule pre_settle_more(3), rule pre_settle_result(1))

subsection \<open>One round either ends the step or spends something\<close>

definition accounts :: "hst \<Rightarrow> hst \<Rightarrow> bool" where
  "accounts st st' \<longleftrightarrow>
     core (hs_b st') = core (hs_b st) \<and> steps_used (hs_b st') = steps_used (hs_b st)
     \<and> tool_count (hs_b st) \<le> tool_count (hs_b st')"

definition keeps :: "env \<Rightarrow> hst \<Rightarrow> hst \<Rightarrow> bool" where
  "keeps env st st' \<longleftrightarrow>
     core (hs_b st') = core (hs_b st) \<and> steps_used (hs_b st') = steps_used (hs_b st)
     \<and> tool_count (hs_b st) \<le> tool_count (hs_b st') \<and> b_runState (hs_b st') = b_runState (hs_b st)
     \<and> (\<exists>pre. rows st' = rows st @ pre \<and> quiet_rows env st pre)"

text \<open>The step is suspended: the marker is durable, and only bundle rows were written.\<close>

definition suspended :: "env \<Rightarrow> hst \<Rightarrow> hst \<Rightarrow> bool" where
  "suspended env st st' \<longleftrightarrow> accounts st st'
     \<and> (\<exists>pre k. rows st' = rows st @ pre @ [bundle_row (en_sid env) (hs_b st') k] \<and> quiet_rows env st pre)"

lemma keeps_accounts: "keeps env st st' \<Longrightarrow> accounts st st'"
  by (simp add: keeps_def accounts_def)

lemma tool_count_steps [frame_simps]:
  "tool_count (hs_b (bump st)) = tool_count (hs_b st)"
  "tool_count (hs_b (persist env st)) = tool_count (hs_b st)"
  "(\<And>x. i_toolCallCount (f x) = i_toolCallCount x) \<Longrightarrow> tool_count (hs_b (upd_inflight f st)) = tool_count (hs_b st)"
  by (simp_all add: tool_count_def frame_simps upd_inflight_def split: option.split)

lemma tool_count_ordinal [frame_simps]: "tool_count (b\<lparr>b_writeOrdinal := x\<rparr>) = tool_count b"
  by (simp add: tool_count_def)

lemma tool_count_mono [frame_simps]:
  "harmless f \<Longrightarrow> tool_count (hs_b st) \<le> tool_count (hs_b (upd_inflight f st))"
  by (auto simp: tool_count_def frame_simps upd_inflight_def harmless_def split: option.split)

lemma keeps_refl [simp, intro]: "keeps env st st"
  by (simp add: keeps_def)

lemma keeps_rows_trans:
  assumes "keeps env st st1" "rows st2 = rows st1 @ pre @ xs" "quiet_rows env st1 pre"
  shows "\<exists>pre. rows st2 = rows st @ pre @ xs \<and> quiet_rows env st pre"
proof -
  obtain pre' where "rows st1 = rows st @ pre'" "quiet_rows env st pre'" "b_runState (hs_b st1) = b_runState (hs_b st)"
    using assms(1) by (auto simp: keeps_def)
  then show ?thesis
    using assms(2,3) quiet_rows_cong [of st st1 env pre] by (intro exI [of _ "pre' @ pre"]) simp
qed

lemma keeps_trans: "keeps env st st1 \<Longrightarrow> keeps env st1 st2 \<Longrightarrow> keeps env st st2"
  using keeps_rows_trans [of env st st1 st2 _ "[]"] by (fastforce simp: keeps_def)

lemma suspended_keeps: "keeps env st st1 \<Longrightarrow> suspended env st1 st2 \<Longrightarrow> suspended env st st2"
  using keeps_rows_trans [of env st st1 st2] by (fastforce simp: suspended_def keeps_def accounts_def)

lemma keeps_quietly: "keeps env st st1 \<Longrightarrow> hs_out st1 = hs_out st \<Longrightarrow> quietly env st st1"
  by (auto simp: keeps_def quietly_def core_def run_key_def)

lemma keeps_steps [intro]:
  "keeps env st (bump st)"
  "keeps env st (persist env st)"
  "harmless f \<Longrightarrow> keeps env st (upd_inflight f st)"
  "keeps env st (emit cs st)"
  by (auto simp: keeps_def frame_simps store_simps quiet_rows_single)

lemma settled_keeps:
  assumes "keeps env st st1" "settled env step out st1 st'"
  shows "settled env step out st st'"
proof -
  have k: "core (hs_b st1) = core (hs_b st)" "steps_used (hs_b st1) = steps_used (hs_b st)"
    using assms(1) by (auto simp: keeps_def)
  obtain e s' kk pre' where e: "rows st' = rows st1 @ pre' @ [e, bundle_row (en_sid env) (hs_b st') kk]" "quiet_rows env st1 pre'"
    "is_result step (hs_b st1) s' e" "mapOutcome s' = out"
    using assms(2) by (auto simp: settled_def)
  have "is_result step (hs_b st) s' e"
    using e(3) core_cur [OF k(1)] by (simp add: is_result_def)
  then have 1: "\<exists>e s k pre. rows st' = rows st @ pre @ [e, bundle_row (en_sid env) (hs_b st') k] \<and> quiet_rows env st pre
        \<and> is_result step (hs_b st) s e \<and> mapOutcome s = out"
    using keeps_rows_trans [OF assms(1) e(1,2)] e(4) by blast
  have f: "\<exists>f1. b_inFlight (hs_b st1) = Some f1 \<and> i_seq f1 = i_seq f \<and> i_attempt f1 = i_attempt f"
    if "b_inFlight (hs_b st) = Some f" for f
    using k(1) that by (auto simp: core_def)
  show ?thesis
  proof (cases "out = FailedOutcome")
    case True
    have "\<forall>f. b_inFlight (hs_b st) = Some f \<longrightarrow> (\<exists>f'. b_inFlight (hs_b st') = Some f'
            \<and> i_seq f' = i_seq f \<and> i_attempt f' = i_attempt f \<and> i_phase f' = PhAwaitingReplan)"
    proof (intro allI impI)
      fix f assume "b_inFlight (hs_b st) = Some f"
      with f obtain f1 where "b_inFlight (hs_b st1) = Some f1" "i_seq f1 = i_seq f" "i_attempt f1 = i_attempt f"
        by blast
      with assms(2) True show "\<exists>f'. b_inFlight (hs_b st') = Some f'
            \<and> i_seq f' = i_seq f \<and> i_attempt f' = i_attempt f \<and> i_phase f' = PhAwaitingReplan"
        by (auto simp: settled_def)
    qed
    with assms(2) k 1 True show ?thesis
      by (simp add: settled_def core_def)
  next
    case False
    with assms(2) k 1 show ?thesis by (simp add: settled_def core_def)
  qed
qed

definition round_measure :: "env \<Rightarrow> int \<Rightarrow> hst \<Rightarrow> nat" where
  "round_measure env retries st =
     nat (cf_maxRetries (en_cfg env) - retries) + nat (max_tool_calls env - tool_count (hs_b st))"

definition round_ok :: "env \<Rightarrow> step \<Rightarrow> int \<Rightarrow> hst \<Rightarrow> round_next \<times> hst \<Rightarrow> bool" where
  "round_ok env step retries st p \<longleftrightarrow>
     (case fst p of
        RAgain r' \<Rightarrow> keeps env st (snd p) \<and> hs_out (snd p) = hs_out st \<and> retries \<le> r'
          \<and> tool_count (hs_b st) \<le> tool_count (hs_b (snd p))
          \<and> tool_count (hs_b (snd p)) \<le> max (tool_count (hs_b st)) (max_tool_calls env)
          \<and> (b_inFlight (hs_b st) \<noteq> None \<longrightarrow> round_measure env r' (snd p) < round_measure env retries st)
      | RDone (RSettled out) \<Rightarrow> settled env step out st (snd p)
      | RDone RSuspended \<Rightarrow> suspended env st (snd p) \<and> hydrateBundle (rows (snd p)) = hs_b (snd p)
          \<and> b_runState (hs_b (snd p)) = Some Suspended
          \<and> (\<exists>i nm args. b_pending (hs_b (snd p)) = Some (ExternalTool i nm args (s_name step)))
          \<and> tool_count (hs_b (snd p)) \<le> max (tool_count (hs_b st)) (max_tool_calls env)
      | RDone RAborted \<Rightarrow> ended env st (snd p)
      | RDone RThrew \<Rightarrow> keeps env st (snd p)
      | RDone ROutOfFuel \<Rightarrow> False)"

lemma round_ok_done_settled:
  "settled env step out st (snd q) \<Longrightarrow> fst q = RSettled out \<Longrightarrow> round_ok env step retries st (done_with q)"
  by (simp add: round_ok_def done_with_def)

lemma fst_cut [simp]: "fst (cutControlFailure env step reason st) = RSettled FailedOutcome"
  by (simp add: cutControlFailure_def Let_def)

lemma fst_fail [simp]: "fst (fail_step env step reason private st) = RSettled FailedOutcome"
  by (simp add: fail_step_def)

lemma round_ok_cut: "keeps env st st1 \<Longrightarrow> round_ok env step retries st (done_with (cutControlFailure env step reason st1))"
  by (intro round_ok_done_settled [of env step FailedOutcome] settled_keeps [OF _ settled_cut]) simp_all

lemma hs_out_upd_inflight [frame_simps]: "hs_out (upd_inflight f st) = hs_out st"
  by (simp add: upd_inflight_def frame_simps)

lemma persistExchange_keeps [simp]:
  "keeps env st (persistExchange env st)"
  "hs_out (persistExchange env st) = hs_out st"
  "tool_count (hs_b (persistExchange env st)) = tool_count (hs_b st)"
  by (simp_all add: persistExchange_def keeps_def frame_simps store_simps harmless_def)
    (simp_all add: quiet_rows_single frame_simps)

lemma push_control_keeps [simp]:
  "keeps env st (push_control t st)"
  "hs_out (push_control t st) = hs_out st"
  "tool_count (hs_b (push_control t st)) = tool_count (hs_b st)"
  by (simp_all add: push_control_def keeps_def frame_simps store_simps harmless_def)

lemma round_ok_retry: "round_ok env step retries st (retry_or_fail env step retries tt reason private st)"
proof (cases "retries + 1 \<le> cf_maxRetries (en_cfg env)")
  case True
  let ?st' = "persistExchange env (push_control tt st)"
  have "keeps env st ?st'" by (rule keeps_trans [OF push_control_keeps(1) persistExchange_keeps(1)])
  with True show ?thesis
    by (simp add: retry_or_fail_def round_ok_def round_measure_def)
next
  case False
  then show ?thesis
    unfolding retry_or_fail_def if_not_P [OF False]
    by (intro round_ok_done_settled [of env step FailedOutcome] settled_fail) simp
qed

lemma round_ok_keeps:
  assumes "keeps env st st1" "hs_out st1 = hs_out st" "tool_count (hs_b st1) = tool_count (hs_b st)"
    "round_ok env step retries st1 p"
  shows "round_ok env step retries st p"
proof -
  have inf: "b_inFlight (hs_b st1) = None \<longleftrightarrow> b_inFlight (hs_b st) = None"
    using assms(1) core_cur(4) [of "hs_b st1" "hs_b st"] by (simp add: keeps_def)
  note q = keeps_quietly [OF assms(1,2)]
  show ?thesis
  proof (cases "fst p")
    case (RDone r)
    with assms show ?thesis
      using settled_keeps [OF assms(1)] keeps_trans [OF assms(1)] suspended_keeps [OF assms(1)] ended_trans_frame [OF _ q]
      by (cases r) (auto simp: round_ok_def)
  next
    case (RAgain r')
    with assms inf show ?thesis
      using keeps_trans [OF assms(1)] by (auto simp: round_ok_def round_measure_def)
  qed
qed

lemma review_loop_keeps:
  "review_loop env ask n verdict st = (r, st') \<Longrightarrow>
     keeps env st st' \<and> hs_out st' = hs_out st \<and> tool_count (hs_b st') = tool_count (hs_b st)"
proof (induction env ask n verdict st arbitrary: r st' rule: review_loop.induct)
  case (1 env ask n verdict st)
  consider "verdict = None" | v where "verdict = Some (ReviewOutcome v)" | reason where "verdict = Some (JudgeFailure reason)"
    by (metis not_None_eq review_result.exhaust)
  then show ?case
  proof cases
    case 1
    with \<open>review_loop env ask n verdict st = (r, st')\<close> show ?thesis by (subst (asm) review_loop.simps) auto
  next
    case 2
    with 1(2) show ?thesis by (subst (asm) review_loop.simps) auto
  next
    case (3 reason)
    show ?thesis
    proof (cases "n + 1 > max_review_retries env")
      case True
      with 1(2) 3 show ?thesis by (subst (asm) review_loop.simps) auto
    next
      case False
      then have "review_loop env ask (n + 1) (ask (hs_tick st)) (bump st) = (r, st')"
        using 1(2) 3 by (subst (asm) review_loop.simps) simp
      from 1(1) [OF 3 refl False this] show ?thesis
        using keeps_trans [OF keeps_steps(1)] by (auto simp: frame_simps)
    qed
  qed
qed

lemma round_ok_threw: "keeps env st st1 \<Longrightarrow> round_ok env step retries st (done_with (RThrew, st1))"
  by (simp add: round_ok_def done_with_def)

lemma round_ok_judge: "round_ok env step retries st (done_with (judge_content env step evs content st))"
proof -
  let ?ask = "\<lambda>k. case en_reviewer env of None \<Rightarrow> Some (default_review env content) | Some rv \<Rightarrow> rv k step evs content"
  obtain r st1 where rl: "review_loop env ?ask 0 (?ask (hs_tick st)) (bump st) = (r, st1)" by fastforce
  have k: "keeps env st st1"
    using review_loop_keeps [OF rl] keeps_trans [OF keeps_steps(1)] by blast
  consider "r = None" | reason where "r = Some (Inl reason)" | v where "r = Some (Inr v)"
    by (metis not_None_eq sum.exhaust)
  then show ?thesis
  proof cases
    case 1
    have "judge_content env step evs content st = (RThrew, st1)"
      unfolding judge_content_def Let_def rl 1 by simp
    then show ?thesis using round_ok_threw [OF k] by simp
  next
    case (2 reason)
    have "\<exists>t p. judge_content env step evs content st = fail_step env step t p st1"
      unfolding judge_content_def Let_def rl 2 by auto
    then show ?thesis
      by (metis round_ok_done_settled settled_keeps [OF k settled_fail] fst_fail)
  next
    case (3 v)
    have "judge_content env step evs content st = settle_review env step v st1"
      unfolding judge_content_def Let_def rl 3 by simp
    moreover have "fst (settle_review env step v st1) = RSettled (mapOutcome (o_status v))"
      by (simp add: settle_review_def Let_def)
    ultimately show ?thesis
      using round_ok_done_settled [OF settled_keeps [OF k settled_review]] by simp
  qed
qed

lemma tool_count_incremented:
  "b_inFlight (hs_b st) \<noteq> None \<Longrightarrow> (\<And>x. i_toolCallCount (f x) = i_toolCallCount x + 1) \<Longrightarrow>
     tool_count (hs_b (upd_inflight f st)) = tool_count (hs_b st) + 1"
  by (auto simp: tool_count_def upd_inflight_def frame_simps)

lemma tool_gate:
  "canExecuteTool (step_budget_of env) (step_round_state env st) = ContinueStep \<Longrightarrow>
     tool_count (hs_b st) + 1 \<le> max_tool_calls env"
  using canExecuteTool_bound [of "step_budget_of env" "step_round_state env st" "max_tool_calls env"]
  by (simp add: step_budget_of_def step_round_state_def tool_count_def)

lemma round_ok_external: "round_ok env step retries st (external_call env step call st)"
proof (cases "canExecuteTool (step_budget_of env) (step_round_state env st)")
  case (StopStep r)
  then show ?thesis by (simp add: external_call_def round_ok_cut)
next
  case ContinueStep
  define f :: "inflight \<Rightarrow> inflight" where "f = (\<lambda>f. f\<lparr>i_contextState := Some (en_snapshot env (hs_tick st)),
                      i_toolCallCount := i_toolCallCount f + 1\<rparr>)"
  define ext where "ext = en_extId env (tc_name call) (tc_args call)"
  define g :: "session_bundle \<Rightarrow> session_bundle" where "g = (\<lambda>b. b\<lparr>b_pending := Some (ExternalTool ext (tc_name call) (tc_args call) (s_name step)),
                      b_runState := Some Suspended\<rparr>)"
  have eq: "external_call env step call st =
      (RDone RSuspended, surfaceToolCall ext (tc_name call) (tc_args call) (persist env (upd_b g (upd_inflight f st))))"
    by (simp add: external_call_def ContinueStep Let_def f_def g_def ext_def)
  have core: "core (g b) = core b" "steps_used (g b) = steps_used b" "tool_count (g b) = tool_count b" for b
    by (simp_all add: g_def core_def steps_used_def tool_count_def)
  have h: "harmless f" by (simp add: harmless_def f_def)
  have tc: "tool_count (hs_b (upd_inflight f st)) \<le> tool_count (hs_b st) + 1"
    by (cases "b_inFlight (hs_b st)") (simp_all add: tool_count_def upd_inflight_def frame_simps f_def)
  let ?st' = "surfaceToolCall ext (tc_name call) (tc_args call) (persist env (upd_b g (upd_inflight f st)))"
  have susp: "suspended env st ?st'"
    using h core unfolding suspended_def
    by (intro conjI exI [of _ "[]"] exI [of _ "en_now env (hs_tick (upd_inflight f st))"])
      (simp_all add: accounts_def surfaceToolCall_def frame_simps store_simps)
  show ?thesis
    unfolding eq round_ok_def
    using susp h core tc tool_gate [OF ContinueStep]
    by (auto simp: surfaceToolCall_def frame_simps store_simps hydrateBundle_snoc bundle_row_def g_def)
qed

lemma round_ok_internal:
  assumes "b_inFlight (hs_b st) \<noteq> None"
  shows "round_ok env step retries st (internal_call env step retries call st)"
proof (cases "canExecuteTool (step_budget_of env) (step_round_state env st)")
  case (StopStep r)
  then show ?thesis by (simp add: internal_call_def round_ok_cut)
next
  case ContinueStep
  define f :: "inflight \<Rightarrow> inflight" where "f = (\<lambda>f. f\<lparr>i_toolCallCount := i_toolCallCount f + 1\<rparr>)"
  define st1 where "st1 = persist env (upd_inflight f st)"
  define st2 where "st2 = bump st1"
  define st3 where "st3 = persistExchange env
      (upd_inflight (\<lambda>f. f\<lparr>i_controlTail := Some []\<rparr>)
        (upd_b (\<lambda>b. b\<lparr>b_writeOrdinal := Some (next_ordinal b)\<rparr>) st2))"
  have eq: "internal_call env step retries call st =
      (case en_callMcp env (hs_tick st1) (tc_name call) (tc_args call) of
         McpResult t isError \<Rightarrow>
           if isError then done_with (cutControlFailure env step t st2) else (RAgain retries, st3)
       | McpUnavailable msg \<Rightarrow>
           if en_aborted env (hs_tick st1) then done_with (cutControlFailure env step ''step-timeout'' st2)
           else (RDone RAborted, abortTerminal env (''MCP server unavailable: '' @ msg) st2)
       | McpThrow \<Rightarrow>
           if en_aborted env (hs_tick st1) then done_with (cutControlFailure env step ''step-timeout'' st2)
           else (RDone RThrew, st2))"
    by (simp only: internal_call_def ContinueStep control_decision.case Let_def if_not_P [OF assms]
        st1_def st2_def st3_def f_def)
  have h: "harmless f" by (simp add: harmless_def f_def)
  have k2: "keeps env st st2" "hs_out st2 = hs_out st"
    using h by (auto simp: keeps_def st2_def st1_def frame_simps store_simps quiet_rows_single)
  have tc2: "tool_count (hs_b st2) = tool_count (hs_b st) + 1"
    using assms by (simp add: st2_def st1_def frame_simps tool_count_incremented f_def)
  have mid: "keeps env st2 (upd_inflight (\<lambda>f. f\<lparr>i_controlTail := Some []\<rparr>)
        (upd_b (\<lambda>b. b\<lparr>b_writeOrdinal := Some (next_ordinal b)\<rparr>) st2))"
    by (simp add: keeps_def frame_simps store_simps harmless_def) (simp add: core_def steps_used_def)
  have k3: "keeps env st st3" "hs_out st3 = hs_out st" "tool_count (hs_b st3) = tool_count (hs_b st) + 1"
    using keeps_trans [OF keeps_trans [OF k2(1) mid] persistExchange_keeps(1)] k2(2) tc2
    by (simp_all add: st3_def frame_simps)
  note gate = tool_gate [OF ContinueStep]
  show ?thesis
  proof (cases "en_callMcp env (hs_tick st1) (tc_name call) (tc_args call)")
    case (McpResult t isError)
    show ?thesis
    proof (cases isError)
      case True
      then show ?thesis unfolding eq McpResult by (simp add: round_ok_cut k2(1))
    next
      case False
      then show ?thesis unfolding eq McpResult
        using k3 gate by (simp add: round_ok_def round_measure_def)
    qed
  next
    case (McpUnavailable msg)
    have "ended env st (abortTerminal env (''MCP server unavailable: '' @ msg) st2)"
      by (rule ended_trans_frame [OF ended_abortTerminal keeps_quietly [OF k2]])
    then show ?thesis unfolding eq McpUnavailable
      using k2(1) by (simp add: round_ok_cut) (simp add: round_ok_def)
  next
    case McpThrow
    then show ?thesis unfolding eq using k2(1) by (simp add: round_ok_cut) (simp add: round_ok_def)
  qed
qed

lemma round_ok_route:
  assumes "b_inFlight (hs_b st) \<noteq> None"
  shows "round_ok env step retries st (route_reply env step evs offered retries res st)"
proof (cases res)
  case (RContent c)
  then show ?thesis by (simp add: route_reply_def round_ok_judge)
next
  case (RError err)
  then show ?thesis by (simp add: route_reply_def round_ok_retry del: append.simps)
next
  case (RToolCall calls)
  then show ?thesis
    using assms
    by (cases calls)
      (simp_all add: route_reply_def round_ok_retry round_ok_external round_ok_internal Let_def)
qed

lemma round_ok_run_round:
  assumes "b_inFlight (hs_b st) \<noteq> None"
  shows "round_ok env step retries st (run_round env step evs offered pre retries st)"
proof (cases "shouldContinueRound (step_budget_of env) (step_round_state env st)")
  case (StopStep r)
  then show ?thesis by (simp add: run_round_def round_ok_cut)
next
  case ContinueStep
  let ?tail = "case b_inFlight (hs_b st) of None \<Rightarrow> [] | Some f \<Rightarrow> nullish (i_controlTail f) []"
  have inf: "b_inFlight (hs_b (bump st)) \<noteq> None" using assms by (simp add: frame_simps)
  have k: "keeps env st (bump st)" "hs_out (bump st) = hs_out st" "tool_count (hs_b (bump st)) = tool_count (hs_b st)"
    by (auto simp: frame_simps)
  note ok = round_ok_keeps [OF k]
  show ?thesis
  proof (cases "en_executor env (hs_tick st) (pre @ ?tail) (offered @ en_externalTools env)")
    case (ExecReply res)
    then show ?thesis
      using ok [OF round_ok_route [OF inf]] round_ok_cut [OF k(1)]
      by (simp add: run_round_def ContinueStep Let_def)
  next
    case ExecThrow
    then show ?thesis
      using round_ok_cut [OF k(1)] k(1)
      by (simp add: run_round_def ContinueStep Let_def) (simp add: round_ok_def)
  qed
qed

subsection \<open>The step as a whole\<close>

definition step_ok :: "env \<Rightarrow> step \<Rightarrow> hst \<Rightarrow> step_result \<times> hst \<Rightarrow> bool" where
  "step_ok env step st p \<longleftrightarrow>
     (case fst p of
        RSettled out \<Rightarrow> settled env step out st (snd p)
      | RSuspended \<Rightarrow> suspended env st (snd p) \<and> hydrateBundle (rows (snd p)) = hs_b (snd p)
          \<and> b_runState (hs_b (snd p)) = Some Suspended
          \<and> (\<exists>i nm args. b_pending (hs_b (snd p)) = Some (ExternalTool i nm args (s_name step)))
          \<and> tool_count (hs_b (snd p)) \<le> max (tool_count (hs_b st)) (max_tool_calls env)
      | RAborted \<Rightarrow> ended env st (snd p)
      | RThrew \<Rightarrow> keeps env st (snd p)
      | ROutOfFuel \<Rightarrow> False)"

lemma step_ok_keeps:
  assumes "keeps env st st1" "hs_out st1 = hs_out st"
    "tool_count (hs_b st1) \<le> max (tool_count (hs_b st)) (max_tool_calls env)" "step_ok env step st1 p"
  shows "step_ok env step st p"
  using assms(3,4) settled_keeps [OF assms(1)] keeps_trans [OF assms(1)] suspended_keeps [OF assms(1)]
    ended_trans_frame [OF _ keeps_quietly [OF assms(1,2)]]
  by (auto simp: step_ok_def split: step_result.splits)

lemma run_rounds_ok:
  "b_inFlight (hs_b st) \<noteq> None \<Longrightarrow> round_measure env retries st < n \<Longrightarrow>
     step_ok env step st (run_rounds n env step evs offered pre retries st)"
proof (induction n arbitrary: retries st)
  case (Suc n)
  note ok = round_ok_run_round [OF Suc.prems(1), of env step retries evs offered pre]
  obtain nx st' where rr: "run_round env step evs offered pre retries st = (nx, st')" by fastforce
  show ?case
  proof (cases nx)
    case (RDone r)
    with ok rr show ?thesis by (cases r) (auto simp: round_ok_def step_ok_def)
  next
    case (RAgain r')
    have k: "keeps env st st'" "hs_out st' = hs_out st" "round_measure env r' st' < round_measure env retries st"
      "tool_count (hs_b st') \<le> max (tool_count (hs_b st)) (max_tool_calls env)"
      using ok rr RAgain Suc.prems(1) by (auto simp: round_ok_def)
    have "b_inFlight (hs_b st') \<noteq> None"
      using k(1) Suc.prems(1) core_cur(4) [of "hs_b st'" "hs_b st"] by (simp add: keeps_def)
    then have "step_ok env step st' (run_rounds n env step evs offered pre r' st')"
      using k(3) Suc.prems(2) by (intro Suc.IH) simp_all
    with k rr RAgain show ?thesis using step_ok_keeps [OF k(1,2,4)] by simp
  qed
qed simp

lemma enter_step_keeps:
  "keeps env st (enter_step st)" "hs_out (enter_step st) = hs_out st"
  "tool_count (hs_b (enter_step st)) = tool_count (hs_b st)"
  by (simp_all add: enter_step_def keeps_def frame_simps store_simps harmless_def)

lemma runStep_ok:
  assumes "b_inFlight (hs_b st) = Some f" "0 \<le> i_toolCallCount f"
  shows "step_ok env step st (runStep env step st)"
proof (cases "en_recallThrows env (hs_tick st)")
  case True
  then show ?thesis by (simp add: runStep_def step_ok_def)
next
  case noRecall: False
  let ?st1 = "enter_step (bump st)"
  have b: "keeps env st (bump st)" "hs_out (bump st) = hs_out st" "tool_count (hs_b (bump st)) = tool_count (hs_b st)" for st
    by (auto simp: frame_simps)
  have k: "keeps env st ?st1" "hs_out ?st1 = hs_out st" "tool_count (hs_b ?st1) = tool_count (hs_b st)"
    using keeps_trans [OF b(1) enter_step_keeps(1)] by (simp_all add: frame_simps enter_step_keeps)
  have k2: "keeps env st (bump (bump ?st1))" "hs_out (bump (bump ?st1)) = hs_out st"
      "tool_count (hs_b (bump (bump ?st1))) = tool_count (hs_b st)"
    using keeps_trans [OF keeps_trans [OF k(1) b(1)] b(1)] b k by simp_all
  have k1: "keeps env st (bump ?st1)" using keeps_trans [OF k(1) b(1)] .
  have inf: "b_inFlight (hs_b (bump (bump ?st1))) \<noteq> None"
    using k2(1) assms(1) core_cur(4) [of "hs_b (bump (bump ?st1))" "hs_b st"] by (simp add: keeps_def)
  have "0 \<le> tool_count (hs_b st)" using assms by (simp add: tool_count_def)
  then have m: "round_measure env 0 (bump (bump ?st1)) < step_fuel env"
    using k2(3) by (simp add: round_measure_def step_fuel_def)
  have rounds: "step_ok env step st (run_rounds (step_fuel env) env step evs offered pre 0 (bump (bump ?st1)))" for evs offered pre
    by (rule step_ok_keeps [OF k2(1,2) _ run_rounds_ok [OF inf m]]) (use k2(3) in simp)
  show ?thesis
  proof (cases "nullish (s_requires step) [] \<noteq> [] \<and> en_recallThrows env (hs_tick ?st1)")
    case True
    then show ?thesis using noRecall k(1) by (simp add: runStep_def Let_def step_ok_def)
  next
    case noEvidence: False
    show ?thesis
    proof (cases "en_selectTools env (hs_tick (bump ?st1)) (or_str (s_instructions step) (s_name step))")
      case None
      then show ?thesis
        using k1 unfolding runStep_def if_not_P [OF noRecall] Let_def if_not_P [OF noEvidence] by (simp add: step_ok_def)
    next
      case (Some offered)
      then show ?thesis
        using rounds unfolding runStep_def if_not_P [OF noRecall] Let_def if_not_P [OF noEvidence] by simp
    qed
  qed
qed

subsection \<open>Waiting\<close>

lemma settled_torn: "b_inFlight (hs_b st) = Some f \<Longrightarrow> settled env step FailedOutcome st (serve_torn env step f missing st)"
proof -
  assume f: "b_inFlight (hs_b st) = Some f"
  let ?r = "''wait deadline half-written: missing '' @ missing"
  let ?t = "''Wait deadline half-written: missing '' @ missing @ ''. The step never ran.''"
  have cur: "(case b_inFlight (hs_b (charge_step st)) of Some f \<Rightarrow> i_seq f | None \<Rightarrow> 0) = cur_seq (hs_b st)"
    "(case b_inFlight (hs_b (charge_step st)) of Some f \<Rightarrow> i_attempt f | None \<Rightarrow> 0) = cur_attempt (hs_b st)"
    using f by (simp_all add: charge_step_def frame_simps cur_seq_def cur_attempt_def)
  have "pre_settle step SFailed st (writeWaitArtifact env step SFailed ?t ?r (charge_step st))"
    unfolding writeWaitArtifact_def cur by (rule pre_settle_result(2))
  then show ?thesis
    using settled_intro [of step SFailed]
    unfolding serve_torn_def Let_def by (simp add: pre_settle_more harmless_def del: append.simps)
qed

lemma settled_finish_wait:
  assumes "b_inFlight (hs_b st) = Some f"
  shows "settled env step Advanced st (finish_wait env step plan st)"
proof -
  have cur: "(case b_inFlight (hs_b st) of Some f \<Rightarrow> i_seq f | None \<Rightarrow> 0) = cur_seq (hs_b st)"
    "(case b_inFlight (hs_b st) of Some f \<Rightarrow> i_attempt f | None \<Rightarrow> 0) = cur_attempt (hs_b st)"
    using assms by (simp_all add: cur_seq_def cur_attempt_def)
  have "pre_settle step SOk st (charge_step (writeWaitArtifact env step SOk
      (fst (describeWait plan step)) (snd (describeWait plan step)) st))"
    unfolding writeWaitArtifact_def cur by (rule pre_settle_result(1))
  then show ?thesis
    using settled_intro [of step SOk]
    unfolding finish_wait_def Let_def by (simp add: pre_settle_more)
qed

lemma charge_wait_keeps: "keeps env st (charge_wait env applied st)"
proof -
  have 1: "core (b\<lparr>b_budgets := (b_budgets b)\<lparr>u_waitMsUsed := x\<rparr>\<rparr>) = core b"
    "steps_used (b\<lparr>b_budgets := (b_budgets b)\<lparr>u_waitMsUsed := x\<rparr>\<rparr>) = steps_used b"
    "tool_count (b\<lparr>b_budgets := (b_budgets b)\<lparr>u_waitMsUsed := x\<rparr>\<rparr>) = tool_count b" for b x
    by (simp_all add: core_def steps_used_def tool_count_def)
  show ?thesis
    by (simp add: charge_wait_def keeps_def frame_simps store_simps harmless_def 1)
      (simp add: quiet_rows_single frame_simps)
qed

lemma charge_wait_durable: "hydrateBundle (rows (bump (charge_wait env applied st))) = hs_b (bump (charge_wait env applied st))"
  unfolding charge_wait_def rows_steps(3) hs_b_steps(3) hs_b_steps(6) by (rule hydrate_persisted)

lemma serveWaitStep_cases:
  assumes "serveWaitStep env step st = (r, st')" "b_inFlight (hs_b st) = Some f"
  shows "case r of
      NotAWait \<Rightarrow> st' = st \<and> \<not> isWaitStep step
    | Served \<Rightarrow> isWaitStep step \<and> (\<exists>out. settled env step out st st' \<and> out \<in> {Advanced, FailedOutcome})
    | WaitAborted \<Rightarrow> isWaitStep step \<and> keeps env st st' \<and> (\<exists>f'. b_inFlight (hs_b st') = Some f'
         \<and> i_waitStartedAt f' \<noteq> None \<and> i_appliedWaitMs f' \<noteq> None)
         \<and> (hydrateBundle (rows st) = hs_b st \<longrightarrow> hydrateBundle (rows st') = hs_b st')"
proof (cases "isWaitStep step")
  case False
  with assms show ?thesis by (auto simp: serveWaitStep_def)
next
  case True
  have inf1: "\<exists>g. b_inFlight (hs_b (bump (charge_wait env applied st))) = Some g" for applied
    using assms(2) by (simp add: charge_wait_def frame_simps upd_inflight_def)
  show ?thesis
  proof (cases "wait_plan_of env step f st")
    case (WFresh applied clamped skip)
    let ?st1 = "bump (charge_wait env applied st)"
    have k: "keeps env st ?st1" by (rule keeps_trans [OF charge_wait_keeps keeps_steps(1)])
    show ?thesis
    proof (cases "en_wait env (hs_tick st) applied")
      case True
      then have "(r, st') = (WaitAborted, ?st1)"
        using assms WFresh \<open>isWaitStep step\<close> by (simp add: serveWaitStep_def Let_def)
      then show ?thesis
        using k \<open>isWaitStep step\<close> assms(2) charge_wait_durable [of env applied st]
        by (simp add: charge_wait_def frame_simps upd_inflight_def)
    next
      case False
      then have "(r, st') = (Served, finish_wait env step (WFresh applied clamped skip) ?st1)"
        using assms WFresh \<open>isWaitStep step\<close> by (simp add: serveWaitStep_def Let_def)
      then show ?thesis
        using settled_keeps [OF k] settled_finish_wait inf1 \<open>isWaitStep step\<close> by fastforce
    qed
  next
    case (WResume remaining passed)
    have k: "keeps env st (bump st)" by (rule keeps_steps(1))
    have t: "i_waitStartedAt f \<noteq> None" "i_appliedWaitMs f \<noteq> None"
      using WResume by (auto simp: wait_plan_of_def planWait_def Let_def split: option.splits)
    show ?thesis
    proof (cases "en_wait env (hs_tick st) remaining")
      case True
      then have "(r, st') = (WaitAborted, bump st)"
        using assms WResume \<open>isWaitStep step\<close> by (simp add: serveWaitStep_def)
      then show ?thesis
        using k t \<open>isWaitStep step\<close> assms(2) by (simp add: frame_simps store_simps)
    next
      case False
      then have "(r, st') = (Served, finish_wait env step (WResume remaining passed) (bump st))"
        using assms WResume \<open>isWaitStep step\<close> by (simp add: serveWaitStep_def)
      moreover have "b_inFlight (hs_b (bump st)) = Some f" using assms(2) by (simp add: frame_simps)
      then have "settled env step Advanced (bump st) (finish_wait env step (WResume remaining passed) (bump st))"
        by (rule settled_finish_wait)
      then have "settled env step Advanced st (finish_wait env step (WResume remaining passed) (bump st))"
        by (rule settled_keeps [OF k])
      ultimately show ?thesis
        using \<open>isWaitStep step\<close> by auto
    qed
  next
    case (WTorn missing)
    then have "(r, st') = (Served, serve_torn env step f missing st)"
      using assms \<open>isWaitStep step\<close> by (simp add: serveWaitStep_def)
    then show ?thesis using settled_torn [OF assms(2)] \<open>isWaitStep step\<close> by auto
  qed
qed

text \<open>The cumulative wait never exceeds the cap of the run.\<close>

definition wait_used :: "session_bundle \<Rightarrow> int" where
  "wait_used b = nullish (u_waitMsUsed (b_budgets b)) 0"

definition wait_cap :: "env \<Rightarrow> int" where
  "wait_cap env = nullish (cf_maxTotalWaitMs (en_cfg env)) 1800000"

lemma wait_used_steps [frame_simps]:
  "wait_used (hs_b (bump st)) = wait_used (hs_b st)"
  "wait_used (hs_b (append_private t st)) = wait_used (hs_b st)"
  "wait_used (hs_b (charge_step st)) = wait_used (hs_b st)"
  "wait_used (hs_b (upd_inflight f st)) = wait_used (hs_b st)"
  "wait_used (hs_b (write_step_result env step sq att s note rm dg c st)) = wait_used (hs_b st)"
  "wait_used (recordStepControl sq nm s' note rm b) = wait_used b"
  "wait_used (settle_bundle (Some planner_commit_op) b out) = wait_used b"
  by (simp_all add: wait_used_def frame_simps append_private_def charge_step_def upd_inflight_def
      write_step_result_def recordStepControl_def Let_def)
    (cases out; simp add: settle_bundle_cases)

lemma wait_used_finish [frame_simps]:
  "wait_used (hs_b (finish_wait env step plan st)) = wait_used (hs_b st)"
  "wait_used (hs_b (serve_torn env step f missing st)) = wait_used (hs_b st)"
  by (simp_all add: finish_wait_def serve_torn_def Let_def settle_st_frame(1) frame_simps writeWaitArtifact_def)

lemma serveWaitStep_budget:
  assumes "serveWaitStep env step st = (r, st')" "wait_used (hs_b st) \<le> wait_cap env"
  shows "wait_used (hs_b st') \<le> wait_cap env"
proof (cases "b_inFlight (hs_b st)")
  case None
  with assms show ?thesis by (auto simp: serveWaitStep_def)
next
  case (Some f)
  show ?thesis
  proof (cases "wait_plan_of env step f st")
    case (WFresh applied clamped skip)
    then have "i_waitStartedAt f = None" "i_appliedWaitMs f = None"
      by (auto simp: wait_plan_of_def planWait_def Let_def split: option.splits)
    with WFresh have "wait_used (hs_b st) + applied \<le> wait_cap env"
      using planWait_fresh_bounds(3) assms(2) unfolding wait_plan_of_def wait_used_def wait_cap_def by metis
    moreover have "wait_used (hs_b (charge_wait env applied st)) = wait_used (hs_b st) + applied"
      by (simp add: charge_wait_def upd_inflight_def frame_simps wait_used_def)
    ultimately show ?thesis
      using assms Some WFresh by (auto simp: serveWaitStep_def frame_simps Let_def split: if_splits)
  qed (use assms Some in \<open>auto simp: serveWaitStep_def frame_simps split: if_splits\<close>)
qed

end
