(* ===== verification/Handler.thy ===== *)
theory Handler
  imports RunStep Planner
begin

text \<open>
  Model of \<open>controller-coordinator-handler.ts\<close>, third part: \<open>execute\<close>.  Its stages are, in the order of
  the code, the classification of the request with the terminal-first recovery, the resume from a
  pending marker, the establishment of the goal, and the main loop.  A stage returns either how the
  call ended or nothing, with the state; one turn of the loop returns either the end or the flags the
  next turn starts with.
\<close>

subsection \<open>Requests, ends and flags\<close>

record request =
  rq_text :: "string + (string \<times> string option) list"
  rq_runId :: "string option"
  rq_newRun :: bool

datatype exec_end = Returned | Threw | OutOfFuel

record flags =
  fl_ext :: bool
  fl_cont :: bool
  fl_retries :: int

definition no_flags :: flags where
  "no_flags = \<lparr>fl_ext = False, fl_cont = False, fl_retries = 0\<rparr>"

datatype turn = TEnd exec_end | TLoop flags

definition now_of :: "env \<Rightarrow> hst \<Rightarrow> int" where
  "now_of env st = en_now env (hs_tick st)"

subsection \<open>Classification and terminal-first recovery\<close>

definition surface_outcome :: "terminal_outcome \<Rightarrow> hst \<Rightarrow> hst" where
  "surface_outcome out st =
     (case out of TSuccess a \<Rightarrow> surfaceFinal a st | TError e \<Rightarrow> surfaceFinal (''Error: '' @ e) st)"

definition terminal_exists :: "env \<Rightarrow> request \<Rightarrow> hst \<Rightarrow> bool" where
  "terminal_exists env rq st =
     (let key = (case rq_runId rq of Some k \<Rightarrow> Some k | None \<Rightarrow> b_runId (hs_b st))
      in truthy key \<and> readTerminal (rows st) (the key) (now_of env st) \<noteq> None)"

definition classify_of :: "env \<Rightarrow> request \<Rightarrow> hst \<Rightarrow> classification" where
  "classify_of env rq st =
     classifyRequest (pe_hash (en_planner env))
       \<lparr>ci_bundle = hs_b st, ci_request = extractPrompt (rq_text rq), ci_explicitKey = rq_runId rq,
        ci_newRun = rq_newRun rq, ci_terminalExists = terminal_exists env rq st\<rparr>"

definition fresh_run :: "env \<Rightarrow> string \<Rightarrow> hst \<Rightarrow> hst" where
  "fresh_run env prompt st =
     persist env (upd_b (\<lambda>b. (resetRun b prompt)\<lparr>b_runId := Some (en_mint env (hs_tick st))\<rparr>) st)"

definition adopt_terminal :: "env \<Rightarrow> terminal_outcome \<Rightarrow> hst \<Rightarrow> hst" where
  "adopt_terminal env out st =
     surface_outcome out (persist env (upd_b (\<lambda>b. b\<lparr>b_runState := Some TerminalRun\<rparr>) st))"

definition not_resumable :: string where
  "not_resumable = ''this run is no longer resumable '' @ [em_dash] @ '' start a new request''"

definition classify_stage :: "env \<Rightarrow> string \<Rightarrow> classification \<Rightarrow> hst \<Rightarrow> exec_end option \<times> hst" where
  "classify_stage env prompt cls st =
     (case cls of
        Replay rid \<Rightarrow>
          (case readTerminal (rows st) rid (now_of env st) of
             Some out \<Rightarrow> (Some Returned, surface_outcome out st)
           | None \<Rightarrow> (None, fresh_run env prompt st))
      | NotFound \<Rightarrow> (Some Returned, escalate env not_resumable st)
      | Fresh \<Rightarrow> (None, fresh_run env prompt st)
      | Resume \<Rightarrow>
          if truthy (b_runId (hs_b st)) then
            (case readTerminal (rows st) (the (b_runId (hs_b st))) (now_of env st) of
               Some out \<Rightarrow> (Some Returned, adopt_terminal env out st)
             | None \<Rightarrow> (None, st))
          else (None, st))"

subsection \<open>Adopting a committed result\<close>

definition attempt_filter :: "string option \<Rightarrow> int \<Rightarrow> int \<Rightarrow> kfilter" where
  "attempt_filter rid sq att = any_filter
     \<lparr>f_runId := rid, f_seq := Some sq, f_attempt := Some att, f_artifactType := Some [''step-result'']\<rparr>"

definition outcome_of_entry :: "kentry \<Rightarrow> outcome" where
  "outcome_of_entry e =
     \<lparr>o_status = nullish (m_status (k_meta e)) SFailed, o_approved = content_text (k_content e),
      o_remainder = nullish (m_remainder (k_meta e)) [], o_note = nullish (m_note (k_meta e)) []\<rparr>"

definition resolve_attempt :: "rag_handle \<Rightarrow> string option \<Rightarrow> int \<Rightarrow> int \<Rightarrow> outcome option" where
  "resolve_attempt rag rid sq att =
     resolveByPrecedence (map outcome_of_entry (rag_list rag (attempt_filter rid sq att)))"

text \<open>The commit side effects of an adopted result; \<open>next\<close> is the sequence number it moves to.\<close>

definition adopt_bundle :: "inflight \<Rightarrow> outcome \<Rightarrow> int \<Rightarrow> session_bundle \<Rightarrow> session_bundle" where
  "adopt_bundle f r nextSeq b =
     (let mapped = mapOutcome (o_status r);
          b1 = recordStepControl (i_seq f) (s_name (i_step f)) (o_status r) (o_note r) (o_remainder r)
                 (planner_commit_op (b\<lparr>b_lastOutcome := Some mapped\<rparr>) mapped)
      in if o_status r = SFailed then
           b1\<lparr>b_inFlight := map_option (\<lambda>g. g\<lparr>i_phase := PhAwaitingReplan\<rparr>) (b_inFlight b1)\<rparr>
         else b1\<lparr>b_nextSeq := Some nextSeq, b_inFlight := None, b_runPhase := Some Planning\<rparr>)"

subsection \<open>Resume from a pending marker\<close>

definition external_adopt :: "env \<Rightarrow> hst \<Rightarrow> hst option" where
  "external_adopt env st =
     (case b_inFlight (hs_b st) of
        None \<Rightarrow> None
      | Some f \<Rightarrow>
          if b_runId (hs_b st) = None then None
          else
            (case resolve_attempt (hs_rag st) (b_runId (hs_b st)) (i_seq f) (i_attempt f) of
               None \<Rightarrow> None
             | Some r \<Rightarrow>
                 Some (persist env (upd_b (\<lambda>b.
                   adopt_bundle f r (nullish (b_nextSeq b) 0 + 1)
                     (b\<lparr>b_pending := None, b_runState := Some Active\<rparr>)) st))))"

definition external_entry :: "env \<Rightarrow> session_bundle \<Rightarrow> string \<Rightarrow> string \<Rightarrow> string \<Rightarrow> string \<Rightarrow> int \<Rightarrow> kentry" where
  "external_entry env b extId toolName position result ord =
     \<lparr>k_content = CText result,
      k_meta = (synthMeta env)\<lparr>m_artifactType := ''mcp-result'', m_toolName := Some toolName, m_task := position,
        m_runId := b_runId b, m_seq := map_option i_seq (b_inFlight b), m_attempt := map_option i_attempt (b_inFlight b),
        m_identityKey := Some extId, m_writeOrdinal := Some ord\<rparr>\<rparr>"

text \<open>The pair of messages of the round trip; of the assistant message the model keeps the role.\<close>

definition external_result :: "env \<Rightarrow> string \<Rightarrow> string \<Rightarrow> string \<Rightarrow> string \<Rightarrow> hst \<Rightarrow> flags \<times> hst" where
  "external_result env extId toolName position result st =
     (let ord = next_ordinal (hs_b st);
          st1 = upd_b (\<lambda>b. b\<lparr>b_writeOrdinal := Some ord\<rparr>) st;
          st2 = write_artifact (external_entry env (hs_b st1) extId toolName position result ord) st1
      in case b_inFlight (hs_b st2) of
           Some f \<Rightarrow>
             (no_flags\<lparr>fl_cont := True\<rparr>,
              persist env (upd_b (\<lambda>b. b\<lparr>b_inFlight := Some (f\<lparr>i_transcript := i_transcript f
                   @ [\<lparr>msg_role = ''assistant'', msg_content = []\<rparr>, \<lparr>msg_role = ''tool'', msg_content = result\<rparr>]\<rparr>),
                 b_pending := None, b_runState := Some Active\<rparr>) st2))
         | None \<Rightarrow>
             (no_flags\<lparr>fl_ext := True\<rparr>,
              persist env (upd_b (\<lambda>b. b\<lparr>b_plannerPrivate := b_plannerPrivate b @ newline @ ''[external tool ''
                   @ toolName @ '' result] '' @ result, b_pending := None\<rparr>) st2)))"

definition clarify_answer :: "env \<Rightarrow> string \<Rightarrow> string \<Rightarrow> string option \<Rightarrow> hst \<Rightarrow> hst" where
  "clarify_answer env prompt position proposed st =
     persist env (upd_b (\<lambda>b.
       (let b1 = (if position = ''goal'' then
                    b\<lparr>b_goal := (if truthy proposed \<and> isAffirmation (trim prompt) then the proposed else trim prompt),
                      b_runState := Some Active, b_runPhase := Some Planning\<rparr>
                  else b)
        in b1\<lparr>b_plannerPrivate := b_plannerPrivate b1 @ newline @ ''[clarify answer] '' @ prompt,
             b_pending := None\<rparr>)) st)"

definition pending_stage :: "env \<Rightarrow> string \<Rightarrow> hst \<Rightarrow> exec_end option \<times> flags \<times> hst" where
  "pending_stage env prompt st =
     (case b_pending (hs_b st) of
        None \<Rightarrow> (None, no_flags, st)
      | Some (ExternalTool extId toolName args position) \<Rightarrow>
          (case external_adopt env st of
             Some st' \<Rightarrow> (None, no_flags, st')
           | None \<Rightarrow>
               (case en_externalResults env extId of
                  None \<Rightarrow> (Some Returned, no_flags, surfaceToolCall extId toolName args st)
                | Some result \<Rightarrow>
                    (case external_result env extId toolName position result st of
                       (fl, st') \<Rightarrow> (None, fl, st'))))
      | Some (Clarify question position proposed) \<Rightarrow>
          if position = ''goal'' \<and> trim prompt = [] then
            (Some Returned, no_flags, surfaceClarify question st)
          else (None, no_flags, clarify_answer env prompt position proposed st))"

subsection \<open>Establishing the goal\<close>

definition eval_charge :: "session_bundle \<Rightarrow> session_bundle" where
  "eval_charge b =
     (if b_evalCallInFlight b then b\<lparr>b_evalResumeCount := Some (nullish (b_evalResumeCount b) 0 + 1)\<rparr> else b)"

definition max_eval_resumes :: "env \<Rightarrow> int" where
  "max_eval_resumes env = nullish (cf_maxEvalResumes (en_cfg env)) 3"

definition goal_stage :: "env \<Rightarrow> string \<Rightarrow> hst \<Rightarrow> exec_end option \<times> hst" where
  "goal_stage env prompt st =
     (if b_goal (hs_b st) \<noteq> [] then (None, st)
      else
        (let st1 = upd_b eval_charge st
         in if b_evalCallInFlight (hs_b st) \<and> nullish (b_evalResumeCount (hs_b st1)) 0 > max_eval_resumes env then
              (Some Returned, abortTerminal env ''evaluator resume budget exhausted'' st1)
            else
              (let st2 = persist env (upd_b (\<lambda>b. b\<lparr>b_evalCallInFlight := True, b_runPhase := Some Evaluating\<rparr>) st1);
                   st3 = upd_b (\<lambda>b. b\<lparr>b_evalCallInFlight := False, b_evalResumeCount := Some 0\<rparr>) (bump st2)
               in case establishTargetState (en_evalSend env (hs_tick st2)) (en_embedder env) (en_fmt env) prompt
                         (en_target env) (en_evalSystem env) (en_evalHint env) of
                    None \<Rightarrow> (Some Threw, bump st2)
                  | Some (NeedsConfirmation proposed question) \<Rightarrow>
                      (Some Returned, surfaceClarify question
                         (persist env (upd_b (\<lambda>b. b\<lparr>b_pending := Some (Clarify question ''goal'' (Some proposed)),
                            b_runState := Some Suspended\<rparr>) st3)))
                  | Some (Established goal) \<Rightarrow> (None, upd_b (\<lambda>b. b\<lparr>b_goal := goal\<rparr>) st3))))"

subsection \<open>One turn of the main loop: an executing step\<close>

definition run_turn :: "env \<Rightarrow> step \<Rightarrow> flags \<Rightarrow> hst \<Rightarrow> turn \<times> hst" where
  "run_turn env step fl st =
     (case runStep env step st of
        (r, st') \<Rightarrow>
          (case r of
             RSettled out \<Rightarrow> TLoop fl
           | RSuspended \<Rightarrow> TEnd Returned
           | RAborted \<Rightarrow> TEnd Returned
           | RThrew \<Rightarrow> TEnd Threw
           | ROutOfFuel \<Rightarrow> TEnd OutOfFuel, st'))"

definition max_step_resumes :: "env \<Rightarrow> int" where
  "max_step_resumes env = nullish (cf_maxStepResumes (en_cfg env)) 3"

definition replay_turn :: "env \<Rightarrow> inflight \<Rightarrow> flags \<Rightarrow> hst \<Rightarrow> turn \<times> hst" where
  "replay_turn env f fl st =
     (if fl_cont fl then run_turn env (i_step f) (fl\<lparr>fl_cont := False\<rparr>) (persist env st)
      else
        (let st1 = upd_inflight (\<lambda>g. g\<lparr>i_resumeCount := i_resumeCount g + 1\<rparr>) st
         in if i_resumeCount f + 1 > max_step_resumes env then
              (TEnd Returned, abortTerminal env
                 (''step '' @ [quote_char] @ s_name (i_step f) @ [quote_char] @ '' exceeded maxStepResumes'') st1)
            else run_turn env (i_step f) fl (persist env st1)))"

definition resume_turn :: "env \<Rightarrow> inflight \<Rightarrow> flags \<Rightarrow> hst \<Rightarrow> turn \<times> hst" where
  "resume_turn env f fl st =
     (case resolve_attempt (hs_rag st) (b_runId (hs_b st)) (i_seq f) (i_attempt f) of
        Some r \<Rightarrow> (TLoop fl, persist env (upd_b (adopt_bundle f r (i_seq f + 1)) st))
      | None \<Rightarrow>
          (case serveWaitStep env (i_step f) st of
             (WaitAborted, st') \<Rightarrow> (TEnd Returned, st')
           | (Served, st') \<Rightarrow> (TLoop fl, st')
           | (NotAWait, st') \<Rightarrow> replay_turn env f fl st'))"

subsection \<open>One turn of the main loop: a planner call\<close>

definition planner_charge :: "session_bundle \<Rightarrow> session_bundle" where
  "planner_charge b =
     (if b_plannerCallInFlight b then b\<lparr>b_plannerResumeCount := Some (nullish (b_plannerResumeCount b) 0 + 1)\<rparr>
      else b)"

definition max_planner_resumes :: "env \<Rightarrow> int" where
  "max_planner_resumes env = nullish (cf_maxPlannerResumes (en_cfg env)) 3"

definition board_budget_of :: "env \<Rightarrow> board_budget" where
  "board_budget_of env = \<lparr>bb_maxDigestChars = nullish (cf_maxDigestChars (en_cfg env)) 500,
     bb_maxIntentChars = nullish (cf_maxIntentChars (en_cfg env)) 120,
     bb_maxActiveSteps = nullish (cf_maxActiveSteps (en_cfg env)) 16,
     bb_maxBoardChars = nullish (cf_maxBoardChars (en_cfg env)) 12000,
     bb_keepRecentDigests = nullish (cf_keepRecentDigests (en_cfg env)) 8\<rparr>"

definition over_budget_text :: "nat \<Rightarrow> int \<Rightarrow> string" where
  "over_budget_text n cap =
     ''rendered board ('' @ nat_str n @ '' chars) exceeds maxBoardChars ('' @ int_str cap @ '')''"

text \<open>The queued decisions are written one by one; \<open>False\<close> is the throw of a malformed key.\<close>

fun drain_loop :: "env \<Rightarrow> plan_decision list \<Rightarrow> hst \<Rightarrow> bool \<times> hst" where
  "drain_loop env [] st = (True, st)"
| "drain_loop env (d # ds) st =
     (let ord = next_ordinal (hs_b st);
          st1 = upd_b (\<lambda>b. b\<lparr>b_writeOrdinal := Some ord\<rparr>) st
      in case keyOf d of
           None \<Rightarrow> (False, st1)
         | Some k \<Rightarrow> drain_loop env ds
             (put_row (decision_entry (pe_hash (en_planner env)) (en_sid env) d k (en_stringify env (d_steps d))
                (now_of env st1) ord) st1))"

definition drain :: "env \<Rightarrow> hst \<Rightarrow> bool \<times> hst" where
  "drain env st =
     drain_loop env (nullish (b_pendingDecisions (hs_b st)) [])
       (upd_b (\<lambda>b. b\<lparr>b_pendingDecisions := Some []\<rparr>) st)"

subsection \<open>One turn of the main loop: the decision\<close>

definition fresh_inflight :: "int \<Rightarrow> step \<Rightarrow> int \<Rightarrow> inflight" where
  "fresh_inflight sq step att =
     \<lparr>i_seq = sq, i_step = step, i_attempt = att, i_resumeCount = 0, i_phase = PhExecuting, i_transcript = [],
      i_toolCallCount = 0, i_controlFailure = None, i_contextState = None, i_controlTail = None,
      i_waitStartedAt = None, i_appliedWaitMs = None\<rparr>"

definition next_attempt :: "session_bundle \<Rightarrow> int" where
  "next_attempt b =
     (case b_inFlight b of
        None \<Rightarrow> 0
      | Some p \<Rightarrow> if i_seq p = nullish (b_nextSeq b) 0 then i_attempt p + 1 else 0)"

definition open_step :: "env \<Rightarrow> step \<Rightarrow> hst \<Rightarrow> hst" where
  "open_step env step st =
     persist env (upd_b (\<lambda>b. b\<lparr>b_inFlight := Some (fresh_inflight (nullish (b_nextSeq b) 0) step (next_attempt b)),
        b_runPhase := Some ExecutingPhase\<rparr>) st)"

definition dispatch :: "env \<Rightarrow> step \<Rightarrow> flags \<Rightarrow> hst \<Rightarrow> turn \<times> hst" where
  "dispatch env step fl st =
     (if next_attempt (hs_b st) \<ge> max_attempts env then
        (TEnd Returned, abortTerminal env
           (''step '' @ [quote_char] @ s_name step @ [quote_char] @ '' exceeded maxStepAttempts'') st)
      else
        (case serveWaitStep env step (open_step env step st) of
           (WaitAborted, st') \<Rightarrow> (TEnd Returned, st')
         | (Served, st') \<Rightarrow> (TLoop fl, st')
         | (NotAWait, st') \<Rightarrow> run_turn env step fl st'))"

definition rewind :: "env \<Rightarrow> string \<Rightarrow> flags \<Rightarrow> hst \<Rightarrow> turn \<times> hst" where
  "rewind env reason fl st =
     (let st1 = upd_b (\<lambda>b. b\<lparr>b_budgets := (b_budgets b)\<lparr>u_rewindsUsed := u_rewindsUsed (b_budgets b) + 1\<rparr>\<rparr>) st
      in if u_rewindsUsed (b_budgets (hs_b st1)) > cf_maxRewinds (en_cfg env) then
           (TEnd Returned, escalate env
              (''too many rewinds '' @ [em_dash] @ '' please confirm how to proceed'') st1)
         else
           (TLoop fl, persist env (upd_b (\<lambda>b. b\<lparr>b_lastOutcome := None\<rparr>) (append_private (''[rewind] '' @ reason) st1))))"

definition decide :: "env \<Rightarrow> string \<Rightarrow> next_step option \<Rightarrow> flags \<Rightarrow> hst \<Rightarrow> turn \<times> hst" where
  "decide env prompt nx fl st =
     (case nx of
        None \<Rightarrow>
          if fl_retries fl + 1 > cf_maxRetries (en_cfg env) then
            (TEnd Returned, escalate env
               (''the planner did not return a valid decision '' @ [em_dash] @ '' please rephrase or retry'') st)
          else (TLoop (fl\<lparr>fl_retries := fl_retries fl + 1\<rparr>), st)
      | Some d \<Rightarrow>
          let fl' = fl\<lparr>fl_retries := 0, fl_ext := False\<rparr>
          in case d of
               ErrorStep err \<Rightarrow> (TEnd Returned, abortTerminal env err st)
             | DoneStep result \<Rightarrow> (TEnd Returned, finalize_phase env prompt (Some result) st)
             | RewindStep reason \<Rightarrow> rewind env reason fl' st
             | NextStep step \<Rightarrow> dispatch env step fl' st)"

text \<open>The planner is asked with the board in front of it; \<open>after_plan\<close> is the drain and the decision.\<close>

definition after_plan ::
  "env \<Rightarrow> string \<Rightarrow> next_step option \<Rightarrow> session_bundle \<Rightarrow> flags \<Rightarrow> hst \<Rightarrow> turn \<times> hst" where
  "after_plan env prompt nx b' fl st =
     (case drain env (bump (upd_b (\<lambda>_. b') st)) of
        (False, st') \<Rightarrow> (TEnd Threw, st')
      | (True, st') \<Rightarrow> decide env prompt nx fl
          (persist env (upd_b (\<lambda>b. b\<lparr>b_plannerCallInFlight := False, b_plannerResumeCount := Some 0\<rparr>) st')))"

definition ask_planner :: "env \<Rightarrow> string \<Rightarrow> flags \<Rightarrow> hst \<Rightarrow> turn \<times> hst" where
  "ask_planner env prompt fl st =
     (case renderLiveBoard (en_lc env) (hs_rag st) (hs_b st) (board_budget_of env) of
        None \<Rightarrow> (TEnd Threw, st)
      | Some (Inl err) \<Rightarrow>
          (case err of
             BoardOverBudget n cap \<Rightarrow>
               (TEnd Returned, abortTerminal env (''board exceeds maxBoardChars: '' @ over_budget_text n cap)
                  (append_private (''[board over budget] '' @ over_budget_text n cap) st))
           | _ \<Rightarrow> (TEnd Threw, st))
      | Some (Inr board) \<Rightarrow>
          if en_plannerThrows env (hs_tick st) then (TEnd Threw, bump st)
          else
            (case planner_next (en_planner env) (en_plannerSend env (hs_tick st)) (hs_b st) prompt
                    (b_lastOutcome (hs_b st)) (fl_ext fl) (fl_retries fl > 0) (Some board) of
               (nx, b') \<Rightarrow> after_plan env prompt nx b' fl st))"

definition plan_turn :: "env \<Rightarrow> string \<Rightarrow> flags \<Rightarrow> hst \<Rightarrow> turn \<times> hst" where
  "plan_turn env prompt fl st =
     (let st1 = upd_b planner_charge st
      in if b_plannerCallInFlight (hs_b st) \<and> nullish (b_plannerResumeCount (hs_b st1)) 0 > max_planner_resumes env then
           (TEnd Returned, abortTerminal env ''planner resume budget exhausted'' st1)
         else
           ask_planner env prompt fl
             (persist env (upd_b (\<lambda>b. b\<lparr>b_plannerCallInFlight := True, b_runPhase := Some Planning\<rparr>) st1)))"

definition loop_turn :: "env \<Rightarrow> string \<Rightarrow> flags \<Rightarrow> hst \<Rightarrow> turn \<times> hst" where
  "loop_turn env prompt fl st =
     (case b_inFlight (hs_b st) of
        Some f \<Rightarrow> if i_phase f = PhExecuting \<and> \<not> fl_ext fl then resume_turn env f fl st
                  else plan_turn env prompt fl st
      | None \<Rightarrow> plan_turn env prompt fl st)"

subsection \<open>The loop and the call\<close>

definition budget_question :: string where
  "budget_question = ''step budget exhausted '' @ [em_dash] @ '' please confirm how to proceed''"

fun main_loop :: "nat \<Rightarrow> env \<Rightarrow> string \<Rightarrow> flags \<Rightarrow> hst \<Rightarrow> exec_end \<times> hst" where
  "main_loop 0 env prompt fl st = (OutOfFuel, st)"
| "main_loop (Suc n) env prompt fl st =
     (if steps_used (hs_b st) < cf_maxSteps (en_cfg env) then
        (case loop_turn env prompt fl st of
           (TEnd e, st') \<Rightarrow> (e, st')
         | (TLoop fl', st') \<Rightarrow> main_loop n env prompt fl' st')
      else (Returned, escalate env budget_question st))"

text \<open>Enough turns for every step, rewind and retry the budgets leave, and one adoption before each.\<close>

definition loop_measure :: "env \<Rightarrow> flags \<Rightarrow> session_bundle \<Rightarrow> nat" where
  "loop_measure env fl b =
     ((nat (cf_maxSteps (en_cfg env) - steps_used b)
        + nat (cf_maxRewinds (en_cfg env) - u_rewindsUsed (b_budgets b))) * (nat (cf_maxRetries (en_cfg env)) + 1)
      + nat (cf_maxRetries (en_cfg env) - fl_retries fl)) * 2
     + (case b_inFlight b of
          Some f \<Rightarrow> if i_phase f = PhExecuting \<and> \<not> fl_ext fl then 1 else 0
        | None \<Rightarrow> 0)"

definition run_loop :: "env \<Rightarrow> string \<Rightarrow> flags \<Rightarrow> hst \<Rightarrow> exec_end \<times> hst" where
  "run_loop env prompt fl st = main_loop (Suc (loop_measure env fl (hs_b st))) env prompt fl st"

definition execute_from :: "env \<Rightarrow> request \<Rightarrow> hst \<Rightarrow> exec_end \<times> hst" where
  "execute_from env rq st =
     (let prompt = extractPrompt (rq_text rq);
          cls = classify_of env rq st
      in case classify_stage env prompt cls (bump st) of
           (Some e, st1) \<Rightarrow> (e, st1)
         | (None, st1) \<Rightarrow>
             if cls = Resume \<and> b_runState (hs_b st1) = Some Active \<and> b_runPhase (hs_b st1) = Some Finalizing then
               (Returned, finalize_phase env prompt None st1)
             else
               (case pending_stage env prompt st1 of
                  (Some e, fl, st2) \<Rightarrow> (e, st2)
                | (None, fl, st2) \<Rightarrow>
                    (case goal_stage env prompt st2 of
                       (Some e, st3) \<Rightarrow> (e, st3)
                     | (None, st3) \<Rightarrow> run_loop env prompt fl st3)))"

definition start_state :: "rag_handle \<Rightarrow> hst" where
  "start_state h = \<lparr>hs_rag = h, hs_b = hydrateBundle (kb_scan (h_backend h) (h_sid h)), hs_tick = 0, hs_out = []\<rparr>"

definition execute :: "env \<Rightarrow> request \<Rightarrow> rag_handle \<Rightarrow> exec_end \<times> hst" where
  "execute env rq h = execute_from env rq (start_state h)"

end
