(* ===== verification/HandlerLoop.thy ===== *)
theory HandlerLoop
  imports Handler
begin

text \<open>
  The main loop of \<open>execute\<close>: the invariant of the bundle, the measure that every turn lowers, and the
  two together as the specification of one turn and of the loop.
\<close>

subsection \<open>The part of the bundle the loop accounts for\<close>

definition lview :: "session_bundle \<Rightarrow> inflight option \<times> budgets_used \<times> int option" where
  "lview b = (b_inFlight b, b_budgets b, b_nextSeq b)"

definition att_ok :: "env \<Rightarrow> inflight \<Rightarrow> bool" where
  "att_ok env f \<longleftrightarrow> i_attempt f < max_attempts env \<and> (i_phase f = PhExecuting \<longrightarrow> 0 \<le> i_toolCallCount f)"

definition run_inv :: "env \<Rightarrow> session_bundle \<Rightarrow> bool" where
  "run_inv env b \<longleftrightarrow>
     steps_used b \<le> max 0 (cf_maxSteps (en_cfg env))
     \<and> (\<forall>f. b_inFlight b = Some f \<longrightarrow> att_ok env f)"

lemma run_inv_lview: "lview b = lview b' \<Longrightarrow> run_inv env b = run_inv env b'"
  by (simp add: lview_def run_inv_def steps_used_def)

lemma loop_measure_lview: "lview b = lview b' \<Longrightarrow> loop_measure env fl b = loop_measure env fl b'"
  by (simp add: lview_def loop_measure_def steps_used_def)

lemma planner_next_lview:
  "planner_next env send b prompt lo ext retrying bt = (r, b') \<Longrightarrow> lview b' = lview b"
  by (drule planner_next_frame, erule ssubst) (simp add: lview_def)

lemma drain_loop_lview: "drain_loop env ds st = (r, st') \<Longrightarrow> lview (hs_b st') = lview (hs_b st)"
  by (induction env ds st arbitrary: r st' rule: drain_loop.induct)
    (auto simp: Let_def frame_simps lview_def split: option.splits)

lemma drain_lview: "drain env st = (r, st') \<Longrightarrow> lview (hs_b st') = lview (hs_b st)"
  unfolding drain_def by (drule drain_loop_lview) (simp add: frame_simps lview_def)

lemma lview_simps [simp]:
  "lview (b\<lparr>b_plannerCallInFlight := x, b_plannerResumeCount := y\<rparr>) = lview b"
  "lview (b\<lparr>b_plannerCallInFlight := x, b_runPhase := z\<rparr>) = lview b"
  "lview (b\<lparr>b_pending := p\<rparr>) = lview b"
  "lview (b\<lparr>b_lastOutcome := lo\<rparr>) = lview b"
  "lview (b\<lparr>b_plannerPrivate := s\<rparr>) = lview b"
  "lview (planner_charge b) = lview b"
  by (simp_all add: lview_def planner_charge_def)

subsection \<open>The measure\<close>

lemma blocks_less: "m < (n::nat) \<Longrightarrow> p \<le> x \<Longrightarrow> a \<le> 1 \<Longrightarrow> (m * (x + 1) + p) * 2 + a < (n * (x + 1) + q) * 2 + c"
proof -
  assume "m < n" "p \<le> x" "a \<le> 1"
  then have "(m + 1) * (x + 1) \<le> n * (x + 1)"
    by (intro mult_right_mono) auto
  with \<open>p \<le> x\<close> \<open>a \<le> 1\<close> show ?thesis by simp
qed

lemma loop_measure_step:
  assumes "steps_used b < cf_maxSteps (en_cfg env)" "steps_used b' = steps_used b + 1"
    "u_rewindsUsed (b_budgets b') = u_rewindsUsed (b_budgets b)" "0 \<le> fl_retries fl'"
  shows "loop_measure env fl' b' < loop_measure env fl b"
  unfolding loop_measure_def
  by (rule blocks_less) (use assms in \<open>auto split: option.splits\<close>)

lemma loop_measure_rewind:
  assumes "steps_used b' = steps_used b" "u_rewindsUsed (b_budgets b') = u_rewindsUsed (b_budgets b) + 1"
    "u_rewindsUsed (b_budgets b') \<le> cf_maxRewinds (en_cfg env)" "0 \<le> fl_retries fl'"
  shows "loop_measure env fl' b' < loop_measure env fl b"
  unfolding loop_measure_def
  by (rule blocks_less) (use assms in \<open>auto split: option.splits\<close>)

lemma loop_measure_retry:
  assumes "lview b' = lview b" "fl_retries fl + 1 \<le> cf_maxRetries (en_cfg env)" "fl' = fl\<lparr>fl_retries := fl_retries fl + 1\<rparr>"
  shows "loop_measure env fl' b' < loop_measure env fl b"
proof -
  have "loop_measure env fl' b < loop_measure env fl b"
    using assms(2,3) by (simp add: loop_measure_def split: option.splits)
  then show ?thesis by (simp only: loop_measure_lview [OF assms(1)])
qed

lemma loop_measure_adopt:
  assumes "b_inFlight b = Some f" "i_phase f = PhExecuting" "\<not> fl_ext fl"
    "b_budgets b' = b_budgets b"
    "b_inFlight b' = None \<or> (\<exists>f'. b_inFlight b' = Some f' \<and> i_phase f' = PhAwaitingReplan)"
  shows "loop_measure env fl b' < loop_measure env fl b"
  using assms by (auto simp: loop_measure_def steps_used_def)

subsection \<open>One turn\<close>

definition ended_for :: "env \<Rightarrow> string \<Rightarrow> hst \<Rightarrow> bool" where
  "ended_for env key st' \<longleftrightarrow> (\<exists>st1. ended env st1 st' \<and> run_key env (hs_b st1) = key)"

text \<open>A turn that began with the bundle \<open>b0\<close> and the flags \<open>fl\<close> ends the call or lowers the measure.\<close>

definition turn_ok :: "env \<Rightarrow> flags \<Rightarrow> session_bundle \<Rightarrow> turn \<times> hst \<Rightarrow> bool" where
  "turn_ok env fl b0 p \<longleftrightarrow>
     (case fst p of
        TEnd e \<Rightarrow> e \<noteq> OutOfFuel \<and> (ended_for env (run_key env b0) (snd p) \<or> run_inv env (hs_b (snd p)))
      | TLoop fl' \<Rightarrow> run_inv env (hs_b (snd p)) \<and> 0 \<le> fl_retries fl'
          \<and> run_key env (hs_b (snd p)) = run_key env b0
          \<and> loop_measure env fl' (hs_b (snd p)) < loop_measure env fl b0)"

definition same_account :: "env \<Rightarrow> session_bundle \<Rightarrow> session_bundle \<Rightarrow> bool" where
  "same_account env b0 b \<longleftrightarrow> b_budgets b = b_budgets b0 \<and> run_key env b = run_key env b0"

lemma settled_inv:
  assumes "settled env step out st st'" "run_inv env (hs_b st)" "steps_used (hs_b st) < cf_maxSteps (en_cfg env)"
    "b_inFlight (hs_b st) = Some f"
  shows "run_inv env (hs_b st')" "steps_used (hs_b st') = steps_used (hs_b st) + 1"
    "u_rewindsUsed (b_budgets (hs_b st')) = u_rewindsUsed (b_budgets (hs_b st))"
    "run_key env (hs_b st') = run_key env (hs_b st)"
  using assms by (auto simp: settled_def run_inv_def run_key_def att_ok_def split: if_splits)

lemma keeps_inv:
  assumes "accounts st st'" "run_inv env (hs_b st)" "b_inFlight (hs_b st) = Some f" "0 \<le> i_toolCallCount f"
  shows "run_inv env (hs_b st')" "run_key env (hs_b st') = run_key env (hs_b st)"
  using assms by (auto simp: accounts_def core_def run_inv_def run_key_def att_ok_def steps_used_def tool_count_def
      split: option.splits)

lemma ended_forI: "ended env st1 st' \<Longrightarrow> run_key env (hs_b st1) = key \<Longrightarrow> ended_for env key st'"
  by (auto simp: ended_for_def)

lemma turn_ok_abort:
  "same_account env b0 (hs_b st1) \<Longrightarrow> turn_ok env fl b0 (TEnd Returned, abortTerminal env err st1)"
  by (auto simp: turn_ok_def same_account_def intro: ended_forI ended_abortTerminal)

lemma turn_ok_settled:
  assumes "settled env step out st st'" "run_inv env (hs_b st)" "steps_used (hs_b st) < cf_maxSteps (en_cfg env)"
    "b_inFlight (hs_b st) = Some f" "0 \<le> fl_retries fl'" "same_account env b0 (hs_b st)"
  shows "turn_ok env fl b0 (TLoop fl', st')"
  using settled_inv [OF assms(1-4)] loop_measure_step [of b0 env "hs_b st'" fl' fl] assms(3,5,6)
  by (simp add: turn_ok_def same_account_def steps_used_def)

lemma run_turn_ok:
  assumes "b_inFlight (hs_b st) = Some f" "0 \<le> i_toolCallCount f" "run_inv env (hs_b st)"
    "steps_used (hs_b st) < cf_maxSteps (en_cfg env)" "0 \<le> fl_retries fl'" "same_account env b0 (hs_b st)"
  shows "turn_ok env fl b0 (run_turn env step fl' st)"
proof -
  obtain r st' where rs: "runStep env step st = (r, st')" by fastforce
  have ok: "step_ok env step st (r, st')"
    using runStep_ok [OF assms(1,2), of env step] rs by simp
  show ?thesis
  proof (cases r)
    case (RSettled out)
    with ok have "settled env step out st st'" by (simp add: step_ok_def)
    from turn_ok_settled [OF this assms(3,4,1,5,6)] show ?thesis
      by (simp add: run_turn_def rs RSettled)
  next
    case RAborted
    with ok assms(6) show ?thesis
      by (auto simp: run_turn_def rs turn_ok_def step_ok_def same_account_def intro: ended_forI)
  qed (use ok keeps_inv [of st st' env f] keeps_accounts [of env st st'] assms in
      \<open>auto simp: run_turn_def rs turn_ok_def step_ok_def suspended_def\<close>)
qed

lemma upd_resume_frame:
  assumes "b_inFlight (hs_b st) = Some f"
  shows "b_inFlight (hs_b (upd_inflight (\<lambda>g. g\<lparr>i_resumeCount := i_resumeCount g + 1\<rparr>) st))
           = Some (f\<lparr>i_resumeCount := i_resumeCount f + 1\<rparr>)"
    "b_budgets (hs_b (upd_inflight g st)) = b_budgets (hs_b st)"
    "run_key env (hs_b (upd_inflight g st)) = run_key env (hs_b st)"
  using assms by (simp_all add: upd_inflight_def frame_simps run_key_def)

lemma replay_turn_ok:
  assumes "b_inFlight (hs_b st) = Some f" "i_phase f = PhExecuting" "run_inv env (hs_b st)"
    "steps_used (hs_b st) < cf_maxSteps (en_cfg env)" "0 \<le> fl_retries fl" "same_account env b0 (hs_b st)"
  shows "turn_ok env fl b0 (replay_turn env f fl st)"
proof -
  have t: "0 \<le> i_toolCallCount f"
    using assms(1-3) by (simp add: run_inv_def att_ok_def)
  show ?thesis
  proof (cases "fl_cont fl")
    case True
    show ?thesis
      unfolding replay_turn_def if_P [OF True]
      by (rule run_turn_ok) (use assms t in \<open>simp_all add: frame_simps\<close>)
  next
    case False
    let ?st1 = "upd_inflight (\<lambda>g. g\<lparr>i_resumeCount := i_resumeCount g + 1\<rparr>) st"
    note fr = upd_resume_frame [OF assms(1)]
    have acc: "same_account env b0 (hs_b ?st1)"
      using assms(6) by (simp add: same_account_def fr)
    show ?thesis
    proof (cases "i_resumeCount f + 1 > max_step_resumes env")
      case True
      show ?thesis
        unfolding replay_turn_def if_not_P [OF False] Let_def if_P [OF True]
        by (rule turn_ok_abort [OF acc])
    next
      case le: False
      have "run_inv env (hs_b ?st1)"
        using assms(1-3) fr(1,2) by (simp add: run_inv_def steps_used_def att_ok_def)
      then show ?thesis
        unfolding replay_turn_def if_not_P [OF False] Let_def if_not_P [OF le]
        by (intro run_turn_ok [where f = "f\<lparr>i_resumeCount := i_resumeCount f + 1\<rparr>"])
          (use acc fr t assms(4,5) in \<open>simp_all add: frame_simps steps_used_def\<close>)
    qed
  qed
qed

lemma serve_turn_ok:
  assumes "b_inFlight (hs_b st) = Some f" "i_phase f = PhExecuting" "run_inv env (hs_b st)"
    "steps_used (hs_b st) < cf_maxSteps (en_cfg env)" "0 \<le> fl_retries fl'" "same_account env b0 (hs_b st)"
    "turn_ok env fl b0 (k st)"
  shows "turn_ok env fl b0
     (case serveWaitStep env step st of
        (WaitAborted, st') \<Rightarrow> (TEnd Returned, st')
      | (Served, st') \<Rightarrow> (TLoop fl', st')
      | (NotAWait, st') \<Rightarrow> k st')"
proof -
  obtain r st' where rs: "serveWaitStep env step st = (r, st')" by fastforce
  note c = serveWaitStep_cases [OF rs assms(1)]
  have t: "0 \<le> i_toolCallCount f"
    using assms(1-3) by (simp add: run_inv_def att_ok_def)
  show ?thesis
  proof (cases r)
    case Served
    with c obtain out where "settled env step out st st'" by auto
    from turn_ok_settled [OF this assms(3,4,1,5,6)] show ?thesis by (simp add: rs Served)
  next
    case WaitAborted
    with c keeps_accounts have "accounts st st'" by auto
    from keeps_inv(1) [OF this assms(3,1) t] show ?thesis by (simp add: rs WaitAborted turn_ok_def)
  next
    case NotAWait
    with c assms(7) show ?thesis by (simp add: rs)
  qed
qed

lemma adopt_bundle_frame:
  "b_budgets (adopt_bundle f r n b) = b_budgets b"
  "b_runId (adopt_bundle f r n b) = b_runId b"
  "b_runState (adopt_bundle f r n b) = b_runState b"
  "b_inFlight (adopt_bundle f r n b) =
     (if o_status r = SFailed then map_option (\<lambda>g. g\<lparr>i_phase := PhAwaitingReplan\<rparr>) (b_inFlight b) else None)"
  by (cases "o_status r"; simp add: adopt_bundle_def Let_def recordStepControl_def planner_commit_op_def)+

lemma adopt_inv: "run_inv env b \<Longrightarrow> run_inv env (adopt_bundle f r n b)"
  by (auto simp: run_inv_def steps_used_def adopt_bundle_frame att_ok_def)

lemma resume_turn_ok:
  assumes "b_inFlight (hs_b st) = Some f" "i_phase f = PhExecuting" "\<not> fl_ext fl" "run_inv env (hs_b st)"
    "steps_used (hs_b st) < cf_maxSteps (en_cfg env)" "0 \<le> fl_retries fl"
  shows "turn_ok env fl (hs_b st) (resume_turn env f fl st)"
proof (cases "resolve_attempt (hs_rag st) (b_runId (hs_b st)) (i_seq f) (i_attempt f)")
  case (Some r)
  have "loop_measure env fl (adopt_bundle f r (i_seq f + 1) (hs_b st)) < loop_measure env fl (hs_b st)"
    using assms(1-3) by (rule loop_measure_adopt) (simp_all add: adopt_bundle_frame assms(1))
  then show ?thesis
    using adopt_inv [OF assms(4)] assms(6)
    by (simp add: resume_turn_def Some turn_ok_def frame_simps run_key_def adopt_bundle_frame)
next
  case None
  have acc: "same_account env (hs_b st) (hs_b st)" by (simp add: same_account_def)
  have "turn_ok env fl (hs_b st) (replay_turn env f fl st)"
    using assms acc by (intro replay_turn_ok)
  then show ?thesis
    unfolding resume_turn_def None option.case
    by (rule serve_turn_ok [OF assms(1,2,4-6) acc])
qed

lemma open_step_frame:
  "b_inFlight (hs_b (open_step env step st)) =
     Some (fresh_inflight (nullish (b_nextSeq (hs_b st)) 0) step (next_attempt (hs_b st)))"
  "b_budgets (hs_b (open_step env step st)) = b_budgets (hs_b st)"
  "b_runId (hs_b (open_step env step st)) = b_runId (hs_b st)"
  by (simp_all add: open_step_def frame_simps)

lemma dispatch_ok:
  assumes "run_inv env (hs_b st)" "steps_used (hs_b st) < cf_maxSteps (en_cfg env)" "0 \<le> fl_retries fl'"
    "same_account env b0 (hs_b st)"
  shows "turn_ok env fl b0 (dispatch env step fl' st)"
proof (cases "next_attempt (hs_b st) \<ge> max_attempts env")
  case True
  show ?thesis unfolding dispatch_def if_P [OF True] by (rule turn_ok_abort [OF assms(4)])
next
  case False
  let ?f = "fresh_inflight (nullish (b_nextSeq (hs_b st)) 0) step (next_attempt (hs_b st))"
  note o = open_step_frame [of env step st]
  have inv: "run_inv env (hs_b (open_step env step st))"
    using assms(1) False o by (simp add: run_inv_def steps_used_def att_ok_def fresh_inflight_def)
  have acc: "same_account env b0 (hs_b (open_step env step st))"
    using assms(4) o by (simp add: same_account_def run_key_def)
  have u: "steps_used (hs_b (open_step env step st)) < cf_maxSteps (en_cfg env)"
    using assms(2) o by (simp add: steps_used_def)
  have p: "i_phase ?f = PhExecuting" "0 \<le> i_toolCallCount ?f" by (simp_all add: fresh_inflight_def)
  show ?thesis
    unfolding dispatch_def if_not_P [OF False]
    by (rule serve_turn_ok [OF o(1) p(1) inv u assms(3) acc]) (rule run_turn_ok [OF o(1) p(2) inv u assms(3) acc])
qed

lemma same_account_lview: "lview b' = lview b \<Longrightarrow> b_runId b' = b_runId b \<Longrightarrow> same_account env b b'"
  by (simp add: same_account_def lview_def run_key_def)

lemma rewind_ok:
  assumes "run_inv env (hs_b st)" "0 \<le> fl_retries fl'" "same_account env b0 (hs_b st)"
  shows "turn_ok env fl b0 (rewind env reason fl' st)"
proof -
  let ?b = "\<lambda>b. b\<lparr>b_budgets := (b_budgets b)\<lparr>u_rewindsUsed := u_rewindsUsed (b_budgets b) + 1\<rparr>\<rparr>"
  have acc: "b_budgets (hs_b st) = b_budgets b0" "run_key env (hs_b st) = run_key env b0"
    using assms(3) by (simp_all add: same_account_def)
  show ?thesis
  proof (cases "u_rewindsUsed (b_budgets b0) + 1 > cf_maxRewinds (en_cfg env)")
    case True
    then show ?thesis
      using assms(1) acc
      by (auto simp: rewind_def turn_ok_def escalate_def surfaceClarify_def frame_simps run_inv_def steps_used_def)
  next
    case False
    let ?st' = "snd (rewind env reason fl' st)"
    have m: "loop_measure env fl' (hs_b ?st') < loop_measure env fl b0"
      by (rule loop_measure_rewind)
        (use False acc assms(2) in \<open>simp_all add: rewind_def frame_simps append_private_def steps_used_def\<close>)
    have "run_inv env (hs_b ?st')" "run_key env (hs_b ?st') = run_key env b0"
      using assms(1) False acc
      by (simp_all add: rewind_def frame_simps append_private_def run_inv_def steps_used_def run_key_def)
    moreover have "fst (rewind env reason fl' st) = TLoop fl'"
      using False acc by (simp add: rewind_def frame_simps)
    ultimately show ?thesis using m assms(2) by (simp add: turn_ok_def)
  qed
qed

lemma escalate_ok:
  "run_inv env (hs_b st) \<Longrightarrow> turn_ok env fl b0 (TEnd Returned, escalate env q st)"
  using run_inv_lview [of "(hs_b st)\<lparr>b_pending := p\<rparr>" "hs_b st" env for p]
  by (simp add: turn_ok_def escalate_def surfaceClarify_def frame_simps)

lemma decide_ok:
  assumes "run_inv env (hs_b st)" "lview (hs_b st) = lview b0" "b_runId (hs_b st) = b_runId b0"
    "steps_used b0 < cf_maxSteps (en_cfg env)" "0 \<le> fl_retries fl"
  shows "turn_ok env fl b0 (decide env prompt nx fl st)"
proof -
  let ?fl = "fl\<lparr>fl_retries := 0, fl_ext := False\<rparr>"
  note acc = same_account_lview [OF assms(2,3), of env]
  have u: "steps_used (hs_b st) < cf_maxSteps (en_cfg env)"
    using assms(2,4) by (simp add: lview_def steps_used_def)
  have key: "run_key env (hs_b st) = run_key env b0"
    using assms(3) by (simp add: run_key_def)
  show ?thesis
  proof (cases nx)
    case None
    show ?thesis
    proof (cases "fl_retries fl + 1 > cf_maxRetries (en_cfg env)")
      case True
      then show ?thesis using escalate_ok [OF assms(1)] by (simp add: decide_def None)
    next
      case False
      then show ?thesis
        using assms(1,5) key loop_measure_retry [OF assms(2)]
        by (simp add: decide_def None turn_ok_def)
    qed
  next
    case (Some d)
    show ?thesis
    proof (cases d)
      case (NextStep step)
      have "turn_ok env fl b0 (dispatch env step ?fl st)"
        using assms(1) u acc by (intro dispatch_ok) simp_all
      then show ?thesis by (simp add: decide_def Some NextStep)
    next
      case (RewindStep reason)
      have "turn_ok env fl b0 (rewind env reason ?fl st)"
        using assms(1) acc by (intro rewind_ok) simp_all
      then show ?thesis by (simp add: decide_def Some RewindStep)
    next
      case (DoneStep result)
      then show ?thesis
        using ended_forI [OF finalize_phase_ends key] by (simp add: decide_def Some turn_ok_def)
    next
      case (ErrorStep err)
      then show ?thesis using turn_ok_abort [OF acc] by (simp add: decide_def Some)
    qed
  qed
qed

lemma drain_loop_runId: "drain_loop env ds st = (r, st') \<Longrightarrow> b_runId (hs_b st') = b_runId (hs_b st)"
  by (induction env ds st arbitrary: r st' rule: drain_loop.induct)
    (auto simp: Let_def frame_simps split: option.splits)

lemma drain_runId: "drain env st = (r, st') \<Longrightarrow> b_runId (hs_b st') = b_runId (hs_b st)"
  unfolding drain_def by (drule drain_loop_runId) (simp add: frame_simps)

lemma planner_next_runId:
  "planner_next env send b prompt lo ext retrying bt = (r, b') \<Longrightarrow> b_runId b' = b_runId b"
  by (drule planner_next_frame, erule ssubst) simp

lemma after_plan_ok:
  assumes "run_inv env b0" "lview b' = lview b0" "b_runId b' = b_runId b0"
    "steps_used b0 < cf_maxSteps (en_cfg env)" "0 \<le> fl_retries fl"
  shows "turn_ok env fl b0 (after_plan env prompt nx b' fl st)"
proof -
  obtain r st' where d: "drain env (bump (upd_b (\<lambda>_. b') st)) = (r, st')" by fastforce
  have v: "lview (hs_b st') = lview b0" "b_runId (hs_b st') = b_runId b0"
    using drain_lview [OF d] drain_runId [OF d] assms(2,3) by (simp_all add: frame_simps)
  let ?st = "persist env (upd_b (\<lambda>b. b\<lparr>b_plannerCallInFlight := False, b_plannerResumeCount := Some 0\<rparr>) st')"
  have w: "lview (hs_b ?st) = lview b0" "b_runId (hs_b ?st) = b_runId b0"
    using v by (simp_all add: frame_simps)
  have inv: "run_inv env (hs_b ?st)" "run_inv env (hs_b st')"
    using assms(1) run_inv_lview [OF w(1)] run_inv_lview [OF v(1)] by simp_all
  show ?thesis
  proof (cases r)
    case True
    have "turn_ok env fl b0 (decide env prompt nx fl ?st)"
      by (rule decide_ok [OF inv(1) w assms(4,5)])
    then show ?thesis by (simp add: after_plan_def d True)
  next
    case False
    then show ?thesis using inv(2) by (simp add: after_plan_def d turn_ok_def)
  qed
qed

lemma ask_planner_ok:
  assumes "run_inv env b0" "lview (hs_b st) = lview b0" "b_runId (hs_b st) = b_runId b0"
    "steps_used b0 < cf_maxSteps (en_cfg env)" "0 \<le> fl_retries fl"
  shows "turn_ok env fl b0 (ask_planner env prompt fl st)"
proof -
  have threw: "turn_ok env fl b0 (TEnd Threw, st)"
    using assms(1) run_inv_lview [OF assms(2)] by (simp add: turn_ok_def)
  have threw2: "turn_ok env fl b0 (TEnd Threw, bump st)"
    using assms(1) run_inv_lview [OF assms(2)] by (simp add: turn_ok_def frame_simps)
  have acc: "same_account env b0 (hs_b (append_private t st))" for t
    using same_account_lview [OF assms(2,3)] by (simp add: same_account_def append_private_def frame_simps run_key_def)
  have plan: "turn_ok env fl b0 (after_plan env prompt nx b' fl st)"
    if "planner_next penv send (hs_b st) prompt lo ext retrying bt = (nx, b')" for penv send lo ext retrying bt nx b'
    using planner_next_lview [OF that] planner_next_runId [OF that] assms by (intro after_plan_ok) simp_all
  show ?thesis
    unfolding ask_planner_def using threw threw2 turn_ok_abort [OF acc] plan
    by (auto split: option.split sum.split board_error.split prod.split)
qed

lemma plan_turn_ok:
  assumes "run_inv env (hs_b st)" "steps_used (hs_b st) < cf_maxSteps (en_cfg env)" "0 \<le> fl_retries fl"
  shows "turn_ok env fl (hs_b st) (plan_turn env prompt fl st)"
proof -
  have v: "lview (planner_charge b) = lview b" "b_runId (planner_charge b) = b_runId b" for b
    by (simp_all add: planner_charge_def lview_def)
  have acc: "same_account env (hs_b st) (hs_b (upd_b planner_charge st))"
    using v by (intro same_account_lview) (simp_all add: frame_simps)
  show ?thesis
    unfolding plan_turn_def Let_def
    using turn_ok_abort [OF acc]
      ask_planner_ok [OF assms(1), of "persist env (upd_b (\<lambda>b. b\<lparr>b_plannerCallInFlight := True, b_runPhase := Some Planning\<rparr>)
        (upd_b planner_charge st))"] assms(2,3) v
    by (simp add: frame_simps)
qed

lemma loop_turn_ok:
  assumes "run_inv env (hs_b st)" "steps_used (hs_b st) < cf_maxSteps (en_cfg env)" "0 \<le> fl_retries fl"
  shows "turn_ok env fl (hs_b st) (loop_turn env prompt fl st)"
  using plan_turn_ok [OF assms] resume_turn_ok [OF _ _ _ assms]
  by (simp add: loop_turn_def split: option.split)

subsection \<open>The loop\<close>

lemma main_loop_ok:
  assumes "run_inv env (hs_b st)" "0 \<le> fl_retries fl" "loop_measure env fl (hs_b st) < n"
    "main_loop n env prompt fl st = (e, st')"
  shows "e \<noteq> OutOfFuel \<and> (ended_for env (run_key env (hs_b st)) st' \<or> run_inv env (hs_b st'))"
  using assms
proof (induction n arbitrary: fl st)
  case (Suc n)
  show ?case
  proof (cases "steps_used (hs_b st) < cf_maxSteps (en_cfg env)")
    case True
    obtain t st1 where t: "loop_turn env prompt fl st = (t, st1)" by fastforce
    note ok = loop_turn_ok [OF Suc.prems(1) True Suc.prems(2), of prompt, unfolded t turn_ok_def, simplified]
    show ?thesis
    proof (cases t)
      case (TEnd e')
      with Suc.prems(4) ok True t show ?thesis by simp
    next
      case (TLoop fl')
      with Suc.prems(4) True t have "main_loop n env prompt fl' st1 = (e, st')" by simp
      with Suc.IH [of st1 fl'] ok TLoop Suc.prems(3) show ?thesis by simp
    qed
  next
    case False
    then have "e = Returned" "st' = escalate env budget_question st"
      using Suc.prems(4) by simp_all
    then show ?thesis
      using escalate_ok [OF Suc.prems(1), of undefined "hs_b st" budget_question] by (simp add: turn_ok_def)
  qed
qed simp

lemma run_loop_ok:
  assumes "run_inv env (hs_b st)" "0 \<le> fl_retries fl" "run_loop env prompt fl st = (e, st')"
  shows "e \<noteq> OutOfFuel \<and> (ended_for env (run_key env (hs_b st)) st' \<or> run_inv env (hs_b st'))"
  using main_loop_ok [OF assms(1,2) lessI] assms(3) by (simp add: run_loop_def)

subsection \<open>The stages before the loop\<close>

text \<open>What a stored bundle must satisfy: nothing unless its run is live.\<close>

definition stored_ok :: "env \<Rightarrow> session_bundle \<Rightarrow> bool" where
  "stored_ok env b \<longleftrightarrow> (live_state b \<longrightarrow> run_inv env b)"

lemma stored_ok_inv: "run_inv env b \<Longrightarrow> stored_ok env b"
  by (simp add: stored_ok_def)

lemma stored_ok_ended: "ended_for env key st' \<Longrightarrow> stored_ok env (hs_b st')"
  by (auto simp: ended_for_def ended_def stored_ok_def live_state_def)

lemma stored_ok_emptyBundle: "stored_ok env emptyBundle"
  by (simp add: stored_ok_def live_state_def emptyBundle_def)

lemma fresh_run_inv: "run_inv env (hs_b (fresh_run env prompt st))"
  by (simp add: fresh_run_def frame_simps resetRun_def run_inv_def steps_used_def)

lemma classify_Resume_live: "classifyRequest H ci = Resume \<Longrightarrow> live_state (ci_bundle ci)"
  by (auto simp: classifyRequest_def split: if_splits)

lemma classify_of_Resume: "classify_of env rq st = Resume \<Longrightarrow> live_state (hs_b st)"
  unfolding classify_of_def by (drule classify_Resume_live) simp

lemma surface_outcome_frame [frame_simps]:
  "hs_b (surface_outcome out st) = hs_b st" "rows (surface_outcome out st) = rows st"
  "hs_tick (surface_outcome out st) = hs_tick st"
  "hs_rag (surface_outcome out st) = hs_rag st"
  by (simp_all add: surface_outcome_def surfaceFinal_def frame_simps store_simps split: terminal_outcome.split)
    (simp_all add: emit_def)

lemma classify_stage_ok:
  assumes "stored_ok env (hs_b st)" "cls = classify_of env rq st"
    "classify_stage env prompt cls (bump st) = (r, st')"
  shows "(case r of None \<Rightarrow> run_inv env (hs_b st') | Some e \<Rightarrow> e = Returned \<and> stored_ok env (hs_b st'))"
proof (cases cls)
  case Fresh
  with assms(3) show ?thesis using fresh_run_inv by (auto simp: classify_stage_def)
next
  case Resume
  then have "live_state (hs_b st)"
    using assms(2) classify_of_Resume by simp
  with assms(1) have "run_inv env (hs_b st)" by (simp add: stored_ok_def)
  with assms(3) Resume show ?thesis
    by (auto simp: classify_stage_def adopt_terminal_def frame_simps stored_ok_def live_state_def
        split: if_splits option.splits)
next
  case (Replay rid)
  with assms(1,3) show ?thesis
    using fresh_run_inv by (auto simp: classify_stage_def frame_simps split: option.splits)
next
  case NotFound
  with assms(1,3) show ?thesis
    by (auto simp: classify_stage_def escalate_def surfaceClarify_def frame_simps stored_ok_def live_state_def
        run_inv_lview [of "(hs_b st)\<lparr>b_pending := p\<rparr>" "hs_b st" for p])
qed

lemma external_adopt_inv:
  "external_adopt env st = Some st' \<Longrightarrow> run_inv env (hs_b st) \<Longrightarrow> run_inv env (hs_b st')"
  using run_inv_lview [of "(hs_b st)\<lparr>b_pending := None, b_runState := Some Active\<rparr>" "hs_b st" env]
  by (auto simp: external_adopt_def frame_simps lview_def intro!: adopt_inv split: option.splits if_splits)

lemma external_result_inv:
  "external_result env extId nm pos result st = (fl, st') \<Longrightarrow> run_inv env (hs_b st) \<Longrightarrow>
     run_inv env (hs_b st') \<and> fl_retries fl = 0"
  by (auto simp: external_result_def Let_def frame_simps run_inv_def steps_used_def att_ok_def no_flags_def
      split: option.splits)

lemma clarify_answer_inv: "run_inv env (hs_b st) \<Longrightarrow> run_inv env (hs_b (clarify_answer env prompt pos prop st))"
  by (simp add: clarify_answer_def frame_simps run_inv_def steps_used_def Let_def)

lemma pending_stage_ok:
  assumes "run_inv env (hs_b st)" "pending_stage env prompt st = (r, fl, st')"
  shows "run_inv env (hs_b st') \<and> 0 \<le> fl_retries fl \<and> r \<noteq> Some OutOfFuel"
  using assms
  by (auto simp: pending_stage_def surfaceToolCall_def surfaceClarify_def frame_simps no_flags_def
      dest: external_adopt_inv external_result_inv intro: clarify_answer_inv
      split: option.splits pending.splits if_splits prod.splits)

lemma run_inv_goal_fields [simp]:
  "run_inv env (b\<lparr>b_evalCallInFlight := x\<rparr>) = run_inv env b"
  "run_inv env (b\<lparr>b_evalResumeCount := z\<rparr>) = run_inv env b"
  "run_inv env (b\<lparr>b_runPhase := y\<rparr>) = run_inv env b"
  "run_inv env (b\<lparr>b_pending := p\<rparr>) = run_inv env b"
  "run_inv env (b\<lparr>b_runState := s\<rparr>) = run_inv env b"
  "run_inv env (b\<lparr>b_goal := g\<rparr>) = run_inv env b"
  "run_inv env (eval_charge b) = run_inv env b"
  by (simp_all add: run_inv_def steps_used_def eval_charge_def)

lemma goal_stage_ok:
  assumes "run_inv env (hs_b st)" "goal_stage env prompt st = (r, st')"
  shows "r \<noteq> Some OutOfFuel \<and> stored_ok env (hs_b st') \<and> (r = None \<longrightarrow> run_inv env (hs_b st'))"
proof (cases "b_goal (hs_b st) \<noteq> []")
  case True
  with assms show ?thesis by (auto simp: goal_stage_def intro: stored_ok_inv)
next
  case False
  show ?thesis
  proof (cases "b_evalCallInFlight (hs_b st) \<and> nullish (b_evalResumeCount (hs_b (upd_b eval_charge st))) 0
                  > max_eval_resumes env")
    case True
    then have "r = Some Returned" "st' = abortTerminal env ''evaluator resume budget exhausted'' (upd_b eval_charge st)"
      using False assms(2) by (simp_all add: goal_stage_def Let_def)
    then show ?thesis
      using stored_ok_ended [OF ended_forI [OF ended_abortTerminal refl]] by simp
  next
    case noabort: False
    with False assms show ?thesis
      unfolding goal_stage_def Let_def if_not_P [OF noabort]
      by (auto simp: frame_simps surfaceClarify_def intro!: stored_ok_inv
          split: option.splits target_outcome.splits)
  qed
qed

text \<open>A call returns or throws, and leaves a bundle the next call can start from.\<close>

lemma execute_from_ok:
  assumes "stored_ok env (hs_b st)" "execute_from env rq st = (e, st')"
  shows "e \<noteq> OutOfFuel \<and> stored_ok env (hs_b st')"
proof -
  define prompt where "prompt = extractPrompt (rq_text rq)"
  define cls where "cls = classify_of env rq st"
  obtain r1 st1 where c: "classify_stage env prompt cls (bump st) = (r1, st1)" by fastforce
  note ok1 = classify_stage_ok [OF assms(1) cls_def c]
  show ?thesis
  proof (cases r1)
    case (Some e1)
    with assms(2) c ok1 show ?thesis by (simp add: execute_from_def prompt_def cls_def)
  next
    case None
    with ok1 have inv1: "run_inv env (hs_b st1)" by simp
    let ?fin = "cls = Resume \<and> b_runState (hs_b st1) = Some Active \<and> b_runPhase (hs_b st1) = Some Finalizing"
    show ?thesis
    proof (cases ?fin)
      case True
      then have "e = Returned" "st' = finalize_phase env prompt None st1"
        using assms(2) c None by (simp_all add: execute_from_def prompt_def cls_def)
      then show ?thesis
        using stored_ok_ended [OF ended_forI [OF finalize_phase_ends refl]] by simp
    next
      case nofin: False
      obtain r2 fl st2 where p: "pending_stage env prompt st1 = (r2, fl, st2)" by (metis prod_cases3)
      note ok2 = pending_stage_ok [OF inv1 p]
      obtain r3 st3 where g: "goal_stage env prompt st2 = (r3, st3)" by fastforce
      have ok3: "r3 \<noteq> Some OutOfFuel \<and> stored_ok env (hs_b st3) \<and> (r3 = None \<longrightarrow> run_inv env (hs_b st3))"
        using goal_stage_ok [OF _ g] ok2 by blast
      have ex: "(e, st') = (case r2 of Some e \<Rightarrow> (e, st2)
          | None \<Rightarrow> (case r3 of Some e \<Rightarrow> (e, st3) | None \<Rightarrow> run_loop env prompt fl st3))"
        using assms(2)
        unfolding execute_from_def Let_def prompt_def [symmetric] cls_def [symmetric] c None prod.case
          option.case if_not_P [OF nofin] p g
        by (simp split: option.splits)
      show ?thesis
      proof (cases r2)
        case (Some e2)
        with ex ok2 show ?thesis by (auto intro: stored_ok_inv)
      next
        case None
        with ex ok2 ok3 show ?thesis
          using run_loop_ok [of env st3 fl prompt e st'] stored_ok_ended stored_ok_inv
          by (auto split: option.splits)
      qed
    qed
  qed
qed

end
