(* ===== verification/HandlerSpec.thy ===== *)
theory HandlerSpec
  imports HandlerLoop
begin

text \<open>
  What a consumer of \<open>execute\<close> may rely on: recovery after a crash, the adoption of a committed result,
  the durable plan, and the behaviour of the escalations.
\<close>

subsection \<open>Terminal first\<close>

lemma surface_outcome_out: "hs_out (surface_outcome out st) =
    hs_out st @ [ChFinal (nonEmptyBody (case out of TSuccess a \<Rightarrow> a | TError e \<Rightarrow> ''Error: '' @ e))]"
  by (simp add: surface_outcome_def surfaceFinal_def frame_simps split: terminal_outcome.split)

text \<open>A recorded outcome of a live run ends a resuming call: nothing runs, the bundle turns terminal.\<close>

lemma execute_terminal_first:
  assumes "classify_of env rq st = Resume" "b_runId (hs_b st) = Some k" "k \<noteq> []"
    "readTerminal (rows st) k (en_now env (Suc (hs_tick st))) = Some out"
  shows "execute_from env rq st = (Returned, adopt_terminal env out (bump st))"
  using assms
  by (simp add: execute_from_def classify_stage_def frame_simps store_simps now_of_def)

lemma classify_live_resume:
  assumes "rq_runId rq = None" "\<not> rq_newRun rq" "live_state (hs_b st)"
    "b_originalRequest (hs_b st) = Some (extractPrompt (rq_text rq))"
  shows "classify_of env rq st = Resume"
  using assms by (simp add: classify_of_def classify_resume_iff same_request_def)

definition same_text :: "session_bundle \<Rightarrow> request \<Rightarrow> bool" where
  "same_text b rq \<longleftrightarrow> rq_runId rq = None \<and> \<not> rq_newRun rq \<and> b_originalRequest b = Some (extractPrompt (rq_text rq))"

lemma readTerminal_write_terminal:
  "readTerminal (rows (write_terminal env out st)) (run_key env (hs_b st)) t
     = (if now_of env st + en_ttl env \<le> t then None else Some out)"
  by (simp add: write_terminal_def store_simps readTerminal_snoc terminal_row_def now_of_def)

text \<open>The crash between the store-first terminal write and the flip of the bundle: the process restarts
  (the clock goes on) with the rows of that moment and the bundle that was persisted before.\<close>

definition reboot :: "nat \<Rightarrow> hst \<Rightarrow> hst" where
  "reboot t st = \<lparr>hs_rag = rag_init (hs_rag st), hs_b = hydrateBundle (rows st), hs_tick = t, hs_out = []\<rparr>"

lemma rows_reboot [store_simps]: "rows (reboot t st) = rows st"
  by (simp add: reboot_def rows_def rag_init_def)

lemma hs_b_reboot: "hs_b (reboot t st) = hydrateBundle (rows st)"
  by (simp add: reboot_def)

text \<open>A replay by an explicit key surfaces the recorded outcome and writes nothing.\<close>

lemma execute_replay:
  assumes "rq_runId rq = Some k" "k \<noteq> []" "\<not> rq_newRun rq"
    "readTerminal (rows st) k (en_now env (hs_tick st)) \<noteq> None"
    "readTerminal (rows st) k (en_now env (Suc (hs_tick st))) = Some out"
  shows "execute_from env rq st = (Returned, surface_outcome out (bump st))"
proof -
  have "classify_of env rq st = Replay k"
    using assms(1-4) by (auto simp: classify_of_def classify_replay_iff terminal_exists_def Let_def now_of_def)
  with assms(5) show ?thesis
    by (simp add: execute_from_def classify_stage_def frame_simps store_simps now_of_def)
qed

lemma nonEmptyBody_surfaced: "nonEmptyBody (case out of TSuccess a \<Rightarrow> a | TError e \<Rightarrow> ''Error: '' @ e) = nonEmptyBody (surfaced out)"
  by (cases out) (simp_all del: append.simps)

lemma crash_after_terminal_write:
  assumes "live_state (hydrateBundle (rows st))"
    "same_text (hydrateBundle (rows st)) rq \<or> (rq_runId rq = Some k \<and> \<not> rq_newRun rq)"
    "b_runId (hydrateBundle (rows st)) = Some k" "b_runId (hs_b st) = Some k" "k \<noteq> []"
    "en_now env t < now_of env st + en_ttl env" "en_now env (Suc t) < now_of env st + en_ttl env"
    "execute_from env rq (reboot t (write_terminal env out st)) = (e, st')"
  shows "e = Returned \<and> hs_out st' = [ChFinal (nonEmptyBody (surfaced out))] \<and> hs_tick st' = Suc t
     \<and> (if rq_runId rq = None then b_runState (hs_b st') = Some TerminalRun \<and> hydrateBundle (rows st') = hs_b st'
        else rows st' = rows (write_terminal env out st))"
proof -
  let ?st = "reboot t (write_terminal env out st)"
  have b: "hs_b ?st = hydrateBundle (rows st)"
    using hydrateBundle_snoc [of "rows st"]
    by (simp add: hs_b_reboot write_terminal_def store_simps)
  have key: "run_key env (hs_b st) = k" using assms(4) by (simp add: run_key_def)
  have start: "hs_out ?st = []" "hs_tick ?st = t" by (simp_all add: reboot_def)
  have read: "readTerminal (rows ?st) k u = Some out" if "u < now_of env st + en_ttl env" for u
    using that readTerminal_write_terminal [of env out st u, unfolded key] by (simp add: rows_reboot)
  show ?thesis
  proof (cases "same_text (hydrateBundle (rows st)) rq")
    case True
    have "classify_of env rq ?st = Resume"
      using assms(1) True by (intro classify_live_resume) (simp_all add: same_text_def b)
    then have ex: "execute_from env rq ?st = (Returned, adopt_terminal env out (bump ?st))"
      using assms(3,5,7) b start(2) read by (intro execute_terminal_first) simp_all
    have "(e, st') = (Returned, adopt_terminal env out (bump ?st))" using assms(8) ex by simp
    then show ?thesis
      using True start
      by (simp add: same_text_def adopt_terminal_def surface_outcome_out nonEmptyBody_surfaced frame_simps store_simps hydrateBundle_snoc
          bundle_row_def)
  next
    case False
    with assms(2) have k: "rq_runId rq = Some k" "\<not> rq_newRun rq" by simp_all
    have ex: "execute_from env rq ?st = (Returned, surface_outcome out (bump ?st))"
      by (rule execute_replay [OF k(1) assms(5) k(2)]) (use assms(6,7) start(2) read in simp_all)
    have "(e, st') = (Returned, surface_outcome out (bump ?st))" using assms(8) ex by simp
    then show ?thesis
      using k(1) start by (simp add: surface_outcome_out nonEmptyBody_surfaced frame_simps store_simps)
  qed
qed

subsection \<open>Escalations\<close>

lemma escalate_frame [frame_simps]:
  "hs_b (escalate env q st) = (hs_b st)\<lparr>b_pending := Some (Clarify q ''loop'' None)\<rparr>"
  "hydrateBundle (rows (escalate env q st)) = hs_b (escalate env q st)"
  "readTerminal (rows (escalate env q st)) k t = readTerminal (rows st) k t"
  "hs_out (escalate env q st) = hs_out st @ [ChText (''To proceed, please provide: '' @ q), ChFinal []]"
  by (simp_all add: escalate_def surfaceClarify_def frame_simps store_simps hydrateBundle_snoc bundle_row_def)
    (use readTerminal_bundle_row [unfolded bundle_row_def] in simp)

lemma clarify_answer_frame [frame_simps]:
  "readTerminal (rows (clarify_answer env prompt pos prop st)) k t = readTerminal (rows st) k t"
  "hs_out (clarify_answer env prompt pos prop st) = hs_out st"
  "pos \<noteq> ''goal'' \<Longrightarrow> hs_b (clarify_answer env prompt pos prop st) = (hs_b st)
     \<lparr>b_plannerPrivate := b_plannerPrivate (hs_b st) @ newline @ ''[clarify answer] '' @ prompt, b_pending := None\<rparr>"
  by (simp_all add: clarify_answer_def frame_simps store_simps)

text \<open>A request under an unknown key is answered with a question that is stored as the pending marker of
  whatever run the session holds, a live one included.\<close>

lemma execute_not_found:
  assumes "rq_runId rq = Some k" "k \<noteq> []" "\<not> rq_newRun rq" "b_runId (hs_b st) \<noteq> Some k"
    "readTerminal (rows st) k (en_now env (hs_tick st)) = None"
    "execute_from env rq st = (e, st')"
  shows "e = Returned" "hydrateBundle (rows st') = (hs_b st)\<lparr>b_pending := Some (Clarify not_resumable ''loop'' None)\<rparr>"
    "hs_b st' = hydrateBundle (rows st')"
proof -
  have "classify_of env rq st = NotFound"
    using assms(1-5) by (auto simp: classify_of_def classifyRequest_def terminal_exists_def Let_def now_of_def)
  then have "(e, st') = (Returned, escalate env not_resumable (bump st))"
    using assms(6) by (simp add: execute_from_def classify_stage_def)
  then show "e = Returned" "hydrateBundle (rows st') = (hs_b st)\<lparr>b_pending := Some (Clarify not_resumable ''loop'' None)\<rparr>"
    "hs_b st' = hydrateBundle (rows st')"
    by (simp_all add: frame_simps)
qed

text \<open>A run whose step budget is spent, waiting for the answer to the question it asked.\<close>

definition budget_stuck :: "env \<Rightarrow> string \<Rightarrow> session_bundle \<Rightarrow> bool" where
  "budget_stuck env k b \<longleftrightarrow>
     b_runId b = Some k \<and> k \<noteq> [] \<and> live_state b \<and> b_runPhase b \<noteq> Some Finalizing \<and> b_goal b \<noteq> []
     \<and> cf_maxSteps (en_cfg env) \<le> steps_used b
     \<and> b_pending b = Some (Clarify budget_question ''loop'' None)"

lemma run_loop_spent:
  "cf_maxSteps (en_cfg env) \<le> steps_used (hs_b st) \<Longrightarrow>
     run_loop env prompt fl st = (Returned, escalate env budget_question st)"
  by (simp add: run_loop_def)

lemma execute_budget_stuck:
  assumes "budget_stuck env k (hs_b st)" "rq_runId rq = Some k" "\<not> rq_newRun rq"
    "\<And>t. readTerminal (rows st) k t = None" "execute_from env rq st = (e, st')"
  shows "e = Returned \<and> budget_stuck env k (hs_b st') \<and> hydrateBundle (rows st') = hs_b st'
     \<and> (\<forall>t. readTerminal (rows st') k t = None)
     \<and> hs_out st' = hs_out st @ [ChText (''To proceed, please provide: '' @ budget_question), ChFinal []]"
proof -
  let ?p = "extractPrompt (rq_text rq)"
  let ?st1 = "clarify_answer env ?p ''loop'' None (bump st)"
  have stuck: "b_runId (hs_b st) = Some k" "k \<noteq> []" "live_state (hs_b st)" "b_runPhase (hs_b st) \<noteq> Some Finalizing"
    "b_goal (hs_b st) \<noteq> []" "cf_maxSteps (en_cfg env) \<le> steps_used (hs_b st)"
    "b_pending (hs_b st) = Some (Clarify budget_question ''loop'' None)"
    using assms(1) by (simp_all add: budget_stuck_def)
  have "classify_of env rq st = Resume"
    using assms(2-4) stuck(1-3) by (simp add: classify_of_def classify_resume_iff terminal_exists_def)
  moreover have "classify_stage env ?p Resume (bump st) = (None, bump st)"
    using assms(4) stuck(1,2) by (simp add: classify_stage_def frame_simps store_simps)
  moreover have "pending_stage env ?p (bump st) = (None, no_flags, ?st1)"
    using stuck(7) by (simp add: pending_stage_def frame_simps)
  moreover have "goal_stage env ?p ?st1 = (None, ?st1)"
    using stuck(5) by (simp add: goal_stage_def clarify_answer_def frame_simps)
  moreover have "run_loop env ?p no_flags ?st1 = (Returned, escalate env budget_question ?st1)"
    using stuck(6) by (intro run_loop_spent) (simp add: clarify_answer_def frame_simps steps_used_def)
  ultimately have "(e, st') = (Returned, escalate env budget_question ?st1)"
    using assms(5) stuck(4) by (simp add: execute_from_def frame_simps)
  then show ?thesis
    using stuck assms(4)
    by (simp add: frame_simps store_simps budget_stuck_def live_state_def steps_used_def del: append.simps append_Cons)
qed

subsection \<open>A committed result is adopted\<close>

lemma rag_source_put:
  assumes "rag_ok h"
  shows "rag_source (h\<lparr>h_backend := kb_put (h_backend h) (h_sid h) e\<rparr>) = rag_source h @ [e]"
  using rag_ok_foreign_put [OF assms, of "h_sid h" e] assms by (simp add: rag_source_ok store_simps)

text \<open>The first result committed for an attempt decides it.\<close>

lemma resolve_attempt_first:
  assumes "rag_ok h" "\<forall>x \<in> set (rag_source h). \<not> kmatches (k_meta x) (attempt_filter rid sq att)"
    "kmatches (k_meta e) (attempt_filter rid sq att)"
  shows "resolve_attempt (rag_write h e) rid sq att = Some (outcome_of_entry e)"
proof -
  have "rag_list (rag_write h e) (attempt_filter rid sq att) = [e]"
    using assms by (simp add: rag_list_def rag_source_write filter_empty_conv)
  then show ?thesis
    by (simp add: resolve_attempt_def resolveByPrecedence_def)
qed

lemma kmatches_attempt:
  "kmatches m (attempt_filter (Some r) sq att) \<longleftrightarrow>
     m_artifactType m = ''step-result'' \<and> m_runId m = Some r \<and> m_seq m = Some sq \<and> m_attempt m = Some att"
  by (auto simp: kmatches_def attempt_filter_def any_filter_def str_ok_def eq_ok_def)

text \<open>How far a run has come: the plan, the cursor, the sequence number, the last outcome, the notes for the planner, the
  phase of the run and the step in flight with its phase.\<close>

definition progress :: "session_bundle \<Rightarrow> string option \<times> step list option \<times> nat option \<times> int option \<times> string
    \<times> (int \<times> int \<times> step) option" where
  "progress b = (b_runId b, b_plan b, b_planCursor b, b_nextSeq b, b_plannerPrivate b,
     map_option (\<lambda>f. (i_seq f, i_attempt f, i_step f)) (b_inFlight b))"

definition phases :: "session_bundle \<Rightarrow> step_outcome option \<times> run_phase option \<times> step_phase option" where
  "phases b = (b_lastOutcome b, b_runPhase b, map_option i_phase (b_inFlight b))"

text \<open>Adopting a committed result moves a run as far as settling the step with it.\<close>

lemma adopt_is_settle:
  assumes "b_inFlight b = Some f" "b_nextSeq b = Some (i_seq f)" "b_runPhase b = Some ExecutingPhase" "progress b = progress c"
  shows "progress (adopt_bundle f r (i_seq f + 1) b) = progress (settle_bundle (Some planner_commit_op)
      (recordStepControl (i_seq f) (s_name (i_step f)) (o_status r) (o_note r) (o_remainder r) c) (mapOutcome (o_status r)))"
    "phases (adopt_bundle f r (i_seq f + 1) b) = phases (settle_bundle (Some planner_commit_op)
      (recordStepControl (i_seq f) (s_name (i_step f)) (o_status r) (o_note r) (o_remainder r) c) (mapOutcome (o_status r)))"
proof -
  obtain g where g: "b_inFlight c = Some g" "i_seq g = i_seq f" "i_attempt g = i_attempt f" "i_step g = i_step f"
    using assms(1,4) by (cases "b_inFlight c") (auto simp: progress_def)
  have c: "b_runId c = b_runId b" "b_plan c = b_plan b" "b_planCursor c = b_planCursor b" "b_nextSeq c = b_nextSeq b"
      "b_plannerPrivate c = b_plannerPrivate b"
    using assms(4) by (simp_all add: progress_def)
  have "progress (adopt_bundle f r (i_seq f + 1) b) = progress (settle_bundle (Some planner_commit_op)
      (recordStepControl (i_seq f) (s_name (i_step f)) (o_status r) (o_note r) (o_remainder r) c) (mapOutcome (o_status r)))
    \<and> phases (adopt_bundle f r (i_seq f + 1) b) = phases (settle_bundle (Some planner_commit_op)
      (recordStepControl (i_seq f) (s_name (i_step f)) (o_status r) (o_note r) (o_remainder r) c) (mapOutcome (o_status r)))"
  proof (cases "o_status r = SFailed")
    case True
    then show ?thesis using assms(1-3) g c
      by (simp add: adopt_bundle_def Let_def settle_bundle_cases planner_commit_op_def recordStepControl_def progress_def phases_def)
  next
    case False
    then have m: "mapOutcome (o_status r) \<noteq> FailedOutcome" by (cases "o_status r") auto
    show ?thesis
      unfolding settle_bundle_cases(1) [OF m]
      using False assms(1-3) g c m
      by (cases "o_status r")
        (simp_all add: adopt_bundle_def Let_def planner_commit_op_def recordStepControl_def progress_def phases_def)
  qed
  then show "progress (adopt_bundle f r (i_seq f + 1) b) = progress (settle_bundle (Some planner_commit_op)
      (recordStepControl (i_seq f) (s_name (i_step f)) (o_status r) (o_note r) (o_remainder r) c) (mapOutcome (o_status r)))"
    "phases (adopt_bundle f r (i_seq f + 1) b) = phases (settle_bundle (Some planner_commit_op)
      (recordStepControl (i_seq f) (s_name (i_step f)) (o_status r) (o_note r) (o_remainder r) c) (mapOutcome (o_status r)))"
    by simp_all
qed

lemma settle_review_bundle:
  "\<exists>c. hs_b (snd (settle_review env step v st)) = settle_bundle (Some planner_commit_op)
       (recordStepControl (cur_seq (hs_b st)) (s_name step) (o_status v) (o_note v) (o_remainder v) c) (mapOutcome (o_status v))
     \<and> progress c = progress (hs_b st) \<and> steps_used c = steps_used (hs_b st) + 1"
  unfolding settle_review_def Let_def snd_conv settle_st_frame(1) hs_b_steps(4)
  by (intro exI conjI, rule refl)
    (simp_all add: frame_simps charge_step_def write_step_result_def Let_def progress_def steps_used_def)

lemma step_result_not_bundle [simp]:
  "m_artifactType (k_meta (step_result_entry env step rid sq att s note rm dg ord c)) = ''step-result''"
  by (simp add: step_result_entry_def)

lemma hydrate_step_result:
  "hydrateBundle (rows (write_step_result env step sq att s note rm dg c st)) = hydrateBundle (rows st)"
  by (simp add: store_simps hydrateBundle_snoc BUNDLE_ARTIFACT_TYPE_def)

lemma rag_reboot: "rag_ok (hs_rag (reboot t st))" "rag_source (hs_rag (reboot t st)) = rows st"
  by (simp_all add: reboot_def rag_ok_init rag_source_ok) (simp add: rag_init_def rows_def)

text \<open>The crash between the write of a step's result and its settlement: the next call adopts the
  result, without a model or tool call, and goes on with the loop.\<close>

lemma crash_after_result:
  assumes "b_inFlight (hydrateBundle (rows st)) = Some f" "i_phase f = PhExecuting"
    "b_runId (hydrateBundle (rows st)) = Some k" "b_runId (hs_b st) = Some k"
    "\<forall>x \<in> set (rows st). \<not> kmatches (k_meta x) (attempt_filter (Some k) (i_seq f) (i_attempt f))"
    "\<not> fl_ext fl"
    "st1 = reboot t (write_step_result env step (i_seq f) (i_attempt f) s note rm dg c st)"
  shows "loop_turn env prompt fl st1 =
    (TLoop fl, persist env (upd_b (adopt_bundle f
       \<lparr>o_status = s, o_approved = c, o_remainder = rm, o_note = note\<rparr> (i_seq f + 1)) st1))"
proof -
  let ?e = "step_result_entry env step (Some k) (i_seq f) (i_attempt f) s note rm dg (next_ordinal (hs_b st)) c"
  let ?flt = "attempt_filter (Some k) (i_seq f) (i_attempt f)"
  have b: "hs_b st1 = hydrateBundle (rows st)"
    using assms(7) hydrate_step_result by (simp add: hs_b_reboot)
  have src: "rag_source (hs_rag st1) = rows st @ [?e]"
    using assms(4,7) by (simp add: rag_reboot store_simps)
  have m: "kmatches (k_meta ?e) ?flt"
    by (simp add: kmatches_attempt step_result_entry_def)
  have "rag_list (hs_rag st1) ?flt = [?e]"
    using assms(5) m by (simp add: rag_list_def src filter_empty_conv)
  then have "resolve_attempt (hs_rag st1) (Some k) (i_seq f) (i_attempt f) = Some (outcome_of_entry ?e)"
    by (simp add: resolve_attempt_def resolveByPrecedence_def)
  moreover have "outcome_of_entry ?e = \<lparr>o_status = s, o_approved = c, o_remainder = rm, o_note = note\<rparr>"
    by (simp add: outcome_of_entry_def step_result_entry_def)
  ultimately show ?thesis
    using assms(1-3,6) b by (simp add: loop_turn_def resume_turn_def)
qed

subsection \<open>The results in the store\<close>

definition result_rows :: "kentry list \<Rightarrow> kentry list" where
  "result_rows es = filter (\<lambda>x. m_artifactType (k_meta x) = ''step-result'') es"

lemma result_rows_append: "result_rows (xs @ ys) = result_rows xs @ result_rows ys"
  by (simp add: result_rows_def)

lemma bundle_row_no_result: "result_rows [bundle_row sid b now] = []"
  by (simp add: result_rows_def bundle_row_def BUNDLE_ARTIFACT_TYPE_def)

lemma terminal_row_no_result: "result_rows [terminal_row sid key out ttl now] = []"
  by (simp add: result_rows_def terminal_row_def TERMINAL_ARTIFACT_TYPE_def)

lemma quiet_no_result: "quiet_rows env st pre \<Longrightarrow> result_rows pre = []"
  by (force simp: quiet_rows_def result_rows_def filter_empty_conv bundle_row_def BUNDLE_ARTIFACT_TYPE_def)

lemma settled_results:
  assumes "settled env step out st st'"
  shows "\<exists>e s. result_rows (rows st') = result_rows (rows st) @ [e] \<and> last (butlast (rows st')) = e
     \<and> is_result step (hs_b st) s e \<and> mapOutcome s = out" "hydrateBundle (rows st') = hs_b st'"
proof -
  obtain e s k pre where r: "rows st' = rows st @ pre @ [e, bundle_row (en_sid env) (hs_b st') k]" "quiet_rows env st pre"
      "is_result step (hs_b st) s e" "mapOutcome s = out"
    using assms by (auto simp: settled_def)
  have "rows st' = (rows st @ pre @ [e]) @ [bundle_row (en_sid env) (hs_b st') k]" using r(1) by simp
  then show "hydrateBundle (rows st') = hs_b st'" by (simp only: hydrateBundle_snoc) (simp add: bundle_row_def)
  have "result_rows [e] = [e]" using r(3) by (simp add: result_rows_def is_result_def)
  then have "result_rows (rows st') = result_rows (rows st) @ [e]"
    using r(1) quiet_no_result [OF r(2)] bundle_row_no_result result_rows_append [of "[e]" "[x]" for x]
    by (simp add: result_rows_append)
  moreover have "last (butlast (rows st')) = e" using r(1) by (simp add: butlast_append)
  ultimately show "\<exists>e s. result_rows (rows st') = result_rows (rows st) @ [e] \<and> last (butlast (rows st')) = e
     \<and> is_result step (hs_b st) s e \<and> mapOutcome s = out"
    using r(3,4) by blast
qed

lemmas settled_durable = settled_results(2)

lemma keeps_results: "keeps env st st' \<Longrightarrow> result_rows (rows st') = result_rows (rows st)"
  using quiet_no_result by (auto simp: keeps_def result_rows_append)

lemma suspended_results: "suspended env st st' \<Longrightarrow> result_rows (rows st') = result_rows (rows st)"
  using quiet_no_result by (auto simp: suspended_def result_rows_append bundle_row_no_result)

lemma ended_results:
  assumes "ended env st st'"
  shows "result_rows (rows st') = result_rows (rows st)"
proof -
  obtain out k pre where "rows st' = rows st @ pre
             @ [terminal_row (en_sid env) (run_key env (hs_b st)) out (en_ttl env) (en_now env k)]
             @ [bundle_row (en_sid env) (hs_b st') (en_now env k)]" "quiet_rows env st pre"
    using assms by (auto simp: ended_def)
  then show ?thesis
    using quiet_no_result by (simp only: result_rows_append bundle_row_no_result terminal_row_no_result) simp
qed

subsection \<open>The plan is durable\<close>

definition durable_plan :: "rag_handle \<Rightarrow> string \<Rightarrow> step list option" where
  "durable_plan rag r = map_option reconstructPlanStructure (readPlanDecisions rag r)"

text \<open>The state of a run whose decisions are all written: the rows replay to the plan in the bundle, and
  no row is newer than the clock or the ordinal of the bundle.\<close>

definition plan_durable :: "env \<Rightarrow> string \<Rightarrow> hst \<Rightarrow> bool" where
  "plan_durable env r st \<longleftrightarrow>
     rag_ok (hs_rag st) \<and> h_sid (hs_rag st) = en_sid env
     \<and> (\<exists>ds. readPlanDecisions (hs_rag st) r = Some ds
           \<and> reconstructPlanStructure ds = nullish (b_plan (hs_b st)) []
           \<and> (\<forall>d \<in> set ds. pr_writeOrdinal d \<le> nullish (b_writeOrdinal (hs_b st)) 0))
     \<and> nullish (b_pendingDecisions (hs_b st)) [] = []"

lemma rag_list_put:
  assumes "rag_ok h" "\<forall>x \<in> set (rag_source h). m_createdAt (k_meta x) \<le> m_createdAt (k_meta e)"
  shows "rag_list (h\<lparr>h_backend := kb_put (h_backend h) (h_sid h) e\<rparr>) f
     = rag_list h f @ (if kmatches (k_meta e) f then [e] else [])"
  using assms by (auto simp: rag_list_def rag_source_put sort_key_snoc_max)

lemma readPlanDecisions_put:
  assumes "rag_ok h" "clock_ok h now" "key_run (d_key d) = r" "keyOf d = Some k"
    "readPlanDecisions h r = Some ds"
  shows "readPlanDecisions (h\<lparr>h_backend := kb_put (h_backend h) (h_sid h)
             (decision_entry H (h_sid h) d k out now ord)\<rparr>) r
           = Some (ds @ [\<lparr>pr_runId = r, pr_kind = key_kind (d_key d),
                pr_decisionId = Some (decisionId H k out), pr_slotId = Some (decisionSlotId H k),
                pr_steps = d_steps d, pr_writeOrdinal = ord, pr_anchor = key_anchor (d_key d)\<rparr>])"
  using assms
  by (simp add: readPlanDecisions_def rag_list_put clock_ok_def decision_entry_def
        kmatches_run_filter to_plan_record_def traverse_snoc)

lemma replay_decision_record:
  "replay_decision p \<lparr>pr_runId = r, pr_kind = key_kind (d_key d), pr_decisionId = i, pr_slotId = j,
     pr_steps = d_steps d, pr_writeOrdinal = n, pr_anchor = key_anchor (d_key d)\<rparr>
   = replay_decision p (record_of d)"
  by (cases "key_anchor (d_key d)"; cases "d_steps d") (simp_all add: replay_decision_def record_of_def)

lemma drain_one:
  assumes "plan_durable env r st" "clock_ok (hs_rag st) (en_now env (Suc (hs_tick st)))"
    "nullish (b_pendingDecisions b') [] = [d]" "keyOf d = Some k" "key_run (d_key d) = r"
    "b_writeOrdinal b' = b_writeOrdinal (hs_b st)"
    "replay_decision (nullish (b_plan (hs_b st)) []) (record_of d) = nullish (b_plan b') []"
  shows "\<exists>st'. drain env (bump (upd_b (\<lambda>_. b') st)) = (True, st') \<and> plan_durable env r st'
           \<and> b_plan (hs_b st') = b_plan b' \<and> clock_ok (hs_rag st') (en_now env (hs_tick st'))"
proof -
  obtain ds where ds: "readPlanDecisions (hs_rag st) r = Some ds"
      "reconstructPlanStructure ds = nullish (b_plan (hs_b st)) []"
      "\<forall>d \<in> set ds. pr_writeOrdinal d \<le> nullish (b_writeOrdinal (hs_b st)) 0"
    and ok: "rag_ok (hs_rag st)" and sid: "h_sid (hs_rag st) = en_sid env"
    using assms(1) by (auto simp: plan_durable_def)
  let ?ord = "nullish (b_writeOrdinal (hs_b st)) 0 + 1"
  let ?now = "en_now env (Suc (hs_tick st))"
  let ?e = "decision_entry (pe_hash (en_planner env)) (en_sid env) d k (en_stringify env (d_steps d)) ?now ?ord"
  let ?st = "put_row ?e (upd_b (\<lambda>b. b\<lparr>b_writeOrdinal := Some ?ord\<rparr>)
      (upd_b (\<lambda>b. b\<lparr>b_pendingDecisions := Some []\<rparr>) (bump (upd_b (\<lambda>_. b') st))))"
  have 1: "drain env (bump (upd_b (\<lambda>_. b') st)) = (True, ?st)"
    using assms(3,4,6) by (simp add: drain_def frame_simps next_ordinal_def now_of_def Let_def)
  have rag: "hs_rag ?st = (hs_rag st)\<lparr>h_backend := kb_put (h_backend (hs_rag st)) (h_sid (hs_rag st)) ?e\<rparr>"
    by (simp add: put_row_def upd_b_def bump_def)
  let ?rec = "\<lparr>pr_runId = r, pr_kind = key_kind (d_key d),
      pr_decisionId = Some (decisionId (pe_hash (en_planner env)) k (en_stringify env (d_steps d))),
      pr_slotId = Some (decisionSlotId (pe_hash (en_planner env)) k),
      pr_steps = d_steps d, pr_writeOrdinal = ?ord, pr_anchor = key_anchor (d_key d)\<rparr>"
  have rd: "readPlanDecisions (hs_rag ?st) r = Some (ds @ [?rec])"
    unfolding rag using readPlanDecisions_put [OF ok assms(2,5,4) ds(1)] by (simp add: sid)
  have "\<forall>x \<in> set ds. pr_writeOrdinal x \<le> pr_writeOrdinal ?rec"
    using ds(3) by fastforce
  then have "reconstructPlanStructure (ds @ [?rec]) = nullish (b_plan b') []"
    using assms(7) ds(2) by (simp add: reconstructPlanStructure_snoc replay_decision_record)
  moreover have "rag_ok (hs_rag ?st)" "h_sid (hs_rag ?st) = en_sid env"
    unfolding rag using rag_ok_foreign_put [OF ok] sid by simp_all
  moreover have "\<forall>x \<in> set (ds @ [?rec]). pr_writeOrdinal x \<le> ?ord"
    using ds(3) by fastforce
  ultimately have "plan_durable env r ?st"
    using rd by (simp add: plan_durable_def frame_simps)
  moreover have "clock_ok (hs_rag ?st) ?now"
    unfolding rag using assms(2) by (simp add: clock_ok_def rag_source_put [OF ok] decision_entry_def)
  moreover have "hs_tick ?st = Suc (hs_tick st)" by (simp add: frame_simps)
  ultimately show ?thesis using 1 by (auto simp: frame_simps)
qed

lemma plan_stays_durable:
  assumes "plan_durable env r st" "b_runId (hs_b st) = Some r" "ids_ok (nullish (b_plan (hs_b st)) [])"
    "clock_ok (hs_rag st) (en_now env (Suc (hs_tick st)))"
    "planner_next penv send (hs_b st) prompt lo ext retrying bt = (nx, b')"
  shows "\<exists>st'. drain env (bump (upd_b (\<lambda>_. b') st)) = (True, st') \<and> plan_durable env r st'
           \<and> b_plan (hs_b st') = b_plan b' \<and> clock_ok (hs_rag st') (en_now env (hs_tick st'))"
proof -
  have pend: "nullish (b_pendingDecisions (hs_b st)) [] = []"
    using assms(1) by (simp add: plan_durable_def)
  have ord: "b_writeOrdinal b' = b_writeOrdinal (hs_b st)"
    using arg_cong [OF planner_next_frame [OF assms(5)], of b_writeOrdinal] by simp
  from assms(5) show ?thesis
  proof (cases rule: planner_next_cases)
    case unchanged
    then show ?thesis
      using assms(1) pend
      by (simp add: drain_def plan_durable_def frame_simps) (simp add: assms(4) bump_def upd_b_def)
  next
    case (created plan)
    then show ?thesis
      using assms(2) pend ord
      by (intro drain_one [OF assms(1,4), where d = "\<lparr>d_steps = mintCreateStepIds (pe_hash penv) plan r, d_key = KCreate r\<rparr>"])
        (simp_all add: create_plan_def Let_def frame_simps keyOf_def replay_create_plan)
  next
    case (replanned plan rest)
    have ids: "ids_ok plan" using assms(3) replanned(1) by simp
    let ?d = "\<lparr>d_steps = mintReplanStepIds (pe_hash penv) rest r (cursor_anchor (hs_b st)),
        d_key = KReplanAnchor r (cursor_anchor (hs_b st))\<rparr>"
    have "nullish (b_pendingDecisions b') [] = [?d]"
      using replanned(2) pend assms(2) by (simp add: replan_tail_pending)
    moreover have "replay_decision (nullish (b_plan (hs_b st)) []) (record_of ?d) = nullish (b_plan b') []"
      using replanned(1,2) assms(2) by (simp add: replay_replan_tail [OF ids replanned(1)] replan_tail_plan)
    ultimately show ?thesis
      using ord by (intro drain_one [OF assms(1,4), where d = ?d]) (simp_all add: keyOf_def)
  qed
qed

end
