(* ===== verification/ControllerProps.thy ===== *)
theory ControllerProps
  imports HandlerSpec
begin

text \<open>
  The properties of the controller's handler, stated over the model alone, and the concrete
  environment their witnesses run in: a session \<open>s\<close>, a clock that ticks, a planner, an evaluator and an
  executor that answer with a fixed text.
\<close>

subsection \<open>A concrete environment\<close>

definition sample_cfg :: budget_config where
  "sample_cfg = \<lparr>cf_maxSteps = 3, cf_maxRetries = 1, cf_maxRewinds = 1, cf_maxToolCalls = None,
     cf_perStepTimeoutMs = None, cf_maxStepAttempts = None, cf_maxStepResumes = None, cf_maxPlannerResumes = None,
     cf_maxEvalResumes = None, cf_maxFinalizeRetries = None, cf_maxReviewRetries = None, cf_maxDigestChars = None,
     cf_maxIntentChars = None, cf_maxActiveSteps = None, cf_maxBoardChars = None, cf_keepRecentDigests = None,
     cf_maxWaitMs = None, cf_maxTotalWaitMs = None\<rparr>"

definition sample_prompts :: planner_prompts where
  "sample_prompts = \<lparr>pp_create = ''plan'', pp_replan = ''replan'', pp_external = ''external'', pp_finalize = ''finalize''\<rparr>"

definition sample_env :: env where
  "sample_env = \<lparr>en_sid = ''s'', en_traceId = ''t'', en_metaCreated = 0, en_now = int, en_ttl = 1000,
     en_mint = (\<lambda>_. ''r''), en_cfg = sample_cfg, en_bestEffort = False,
     en_planner = makeControllerPlanner sample_prompts sample_prompts SmartExecutor None None (\<lambda>s. s),
     en_plannerThrows = (\<lambda>_. False), en_recallThrows = (\<lambda>_. False), en_plannerSend = (\<lambda>_ _. RContent ''done''), en_evalSend = (\<lambda>_ _. RContent ''goal''), en_evalSystem = ''evaluate'',
     en_evalHint = None, en_target = \<lparr>tg_strategy = ConsumerConfirm, tg_threshold = 0\<rparr>, en_embedder = None,
     en_fmt = (\<lambda>_. ''0.00''), en_execSystem = ''execute'', en_execHint = None,
     en_executor = (\<lambda>_ _ _. ExecReply (RContent ''result'')), en_aborted = (\<lambda>_. False), en_elapsed = (\<lambda>_. 0),
     en_reviewer = None, en_finalizer = None, en_callMcp = (\<lambda>_ _ _. McpResult ''ok'' False),
     en_selectTools = (\<lambda>_ _. Some []), en_wait = (\<lambda>_ _. False), en_snapshot = (\<lambda>_. []), en_score = (\<lambda>_ _. 0),
     en_externalTools = [], en_isExternal = (\<lambda>_. False), en_externalResults = (\<lambda>_. None),
     en_extId = (\<lambda>nm args. nm @ args), en_lc = (\<lambda>_ _. 0), en_stringify = (\<lambda>_. [])\<rparr>"

definition sample_request :: "string \<Rightarrow> string option \<Rightarrow> request" where
  "sample_request txt key = \<lparr>rq_text = Inl txt, rq_runId = key, rq_newRun = False\<rparr>"

text \<open>A live run \<open>r\<close> for the request \<open>do it\<close>, with one step in flight.\<close>

definition sample_step :: step where
  "sample_step = mk_step ''fetch'' ''fetch the object''"

definition sample_live :: session_bundle where
  "sample_live = (resetRun emptyBundle ''do it'')
     \<lparr>b_runId := Some ''r'', b_goal := ''goal'', b_runPhase := Some ExecutingPhase,
      b_inFlight := Some (fresh_inflight 0 sample_step 0)\<rparr>"

definition sample_state :: "session_bundle \<Rightarrow> hst" where
  "sample_state b =
     \<lparr>hs_rag = rag_init (rag_new [(''s'', [bundle_row ''s'' b 0])] ''s''), hs_b = b, hs_tick = 0, hs_out = []\<rparr>"

lemma sample_env_sel [simp]:
  "en_cfg sample_env = sample_cfg" "en_sid sample_env = ''s''" "en_now sample_env = int" "en_ttl sample_env = 1000"
  "max_attempts sample_env = 5"
  by (simp_all add: sample_env_def max_attempts_def sample_cfg_def)

lemma rows_sample [simp]: "rows (sample_state b) = [bundle_row ''s'' b 0]"
  by (simp add: rows_def sample_state_def rag_init_def rag_new_def kb_scan_def)

lemma hydrate_sample [simp]: "hydrateBundle (rows (sample_state b)) = b" "hydrateBundle [bundle_row ''s'' b 0] = b"
  using hydrateBundle_snoc [of "[]" "bundle_row ''s'' b 0"] by (simp_all add: bundle_row_def)

lemma sample_sel [simp]:
  "hs_b (sample_state b) = b" "hs_tick (sample_state b) = 0" "hs_out (sample_state b) = []"
  "h_sid (hs_rag (sample_state b)) = ''s''" "rag_ok (hs_rag (sample_state b))"
  "rag_source (hs_rag (sample_state b)) = [bundle_row ''s'' b 0]"
  using rows_sample [of b]
  by (simp_all add: rows_def sample_state_def rag_init_def rag_new_def rag_ok_def rag_source_def Let_def)

lemma readTerminal_sample [simp]: "readTerminal [bundle_row ''s'' b 0] k t = None"
  using readTerminal_bundle_row [of "[]" "''s''" b 0] by (simp add: readTerminal_def)

lemma bundle_row_sel [simp]:
  "m_artifactType (k_meta (bundle_row sid b now)) = ''controller-bundle''"
  "m_createdAt (k_meta (bundle_row sid b now)) = now"
  by (simp_all add: bundle_row_def BUNDLE_ARTIFACT_TYPE_def)

lemma sample_live_sel [simp]:
  "b_runId sample_live = Some ''r''" "live_state sample_live" "b_originalRequest sample_live = Some ''do it''"
  "b_inFlight sample_live = Some (fresh_inflight 0 sample_step 0)" "b_goal sample_live = ''goal''"
  "b_nextSeq sample_live = Some 0" "steps_used sample_live = 0" "b_plan sample_live = None"
  "b_pendingDecisions sample_live = None" "b_writeOrdinal sample_live = Some 0" "b_runPhase sample_live = Some ExecutingPhase"
  "b_planCursor sample_live = None"
  by (simp_all add: sample_live_def resetRun_def live_state_def steps_used_def emptyBundle_def)

lemma sample_live_inv [simp]: "run_inv sample_env sample_live"
  by (simp add: run_inv_def att_ok_def fresh_inflight_def sample_cfg_def)

subsection \<open>Properties\<close>

text \<open>C1. Every call of \<open>execute\<close> comes to an end - it returns or throws, and the loop never runs out of
  the turns its budgets allow - and a stored bundle that respects the budgets is left respecting them: at
  most \<open>maxSteps\<close> steps charged and every in-flight attempt below \<open>maxStepAttempts\<close> while the run is live.\<close>

theorem execute_ends:
  assumes "stored_ok env (hydrateBundle (kb_scan (h_backend h) (h_sid h)))" "execute env rq h = (e, st')"
  shows "(e = Returned \<or> e = Threw) \<and> stored_ok env (hs_b st')
     \<and> (live_state (hs_b st') \<longrightarrow> steps_used (hs_b st') \<le> max 0 (cf_maxSteps (en_cfg env))
          \<and> (\<forall>f. b_inFlight (hs_b st') = Some f \<longrightarrow> i_attempt f < max_attempts env))"
proof -
  have "e \<noteq> OutOfFuel \<and> stored_ok env (hs_b st')"
    using execute_from_ok [of env "start_state h" rq e st'] assms by (simp add: execute_def start_state_def)
  then show ?thesis by (cases e) (auto simp: stored_ok_def run_inv_def att_ok_def)
qed

theorem execute_ends_witness:
  "\<exists>e st'. execute sample_env (sample_request ''do it'' None) (hs_rag (sample_state sample_live)) = (e, st')
     \<and> (e = Returned \<or> e = Threw) \<and> stored_ok sample_env (hs_b st')"
proof -
  let ?h = "hs_rag (sample_state sample_live)"
  have "stored_ok sample_env (hydrateBundle (kb_scan (h_backend ?h) (h_sid ?h)))"
    using rows_sample [of sample_live] by (simp add: rows_def stored_ok_def)
  from execute_ends [OF this] show ?thesis
    by (metis surj_pair)
qed

text \<open>C2. A crash between the store-first write of the terminal outcome and the flip of the bundle loses
  nothing: within the time to live a retry of the request, by its text or under the key of the run,
  surfaces exactly that outcome and calls no model or tool (one clock tick).  The retry by text also
  persists the bundle as terminal; the one by key writes nothing.\<close>

theorem terminal_write_survives_crash:
  assumes "live_state (hydrateBundle (rows st))"
    "same_text (hydrateBundle (rows st)) rq \<or> (rq_runId rq = Some k \<and> \<not> rq_newRun rq)"
    "b_runId (hydrateBundle (rows st)) = Some k" "b_runId (hs_b st) = Some k" "k \<noteq> []"
    "en_now env t < now_of env st + en_ttl env" "en_now env (Suc t) < now_of env st + en_ttl env"
    "execute_from env rq (reboot t (write_terminal env out st)) = (e, st')"
  shows "e = Returned \<and> hs_out st' = [ChFinal (nonEmptyBody (surfaced out))] \<and> hs_tick st' = Suc t
     \<and> (if rq_runId rq = None then b_runState (hs_b st') = Some TerminalRun \<and> hydrateBundle (rows st') = hs_b st'
        else rows st' = rows (write_terminal env out st))"
  by (rule crash_after_terminal_write [OF assms])

theorem terminal_write_survives_crash_witness:
  "\<exists>st'. execute_from sample_env (sample_request ''do it'' None)
       (reboot 7 (write_terminal sample_env (TSuccess ''42'') (sample_state sample_live))) = (Returned, st')
     \<and> hs_out st' = [ChFinal ''42''] \<and> b_runState (hs_b st') = Some TerminalRun"
proof -
  let ?st = "sample_state sample_live"
  obtain e st' where ex: "execute_from sample_env (sample_request ''do it'' None)
      (reboot 7 (write_terminal sample_env (TSuccess ''42'') ?st)) = (e, st')" by fastforce
  have "e = Returned \<and> hs_out st' = [ChFinal (nonEmptyBody (surfaced (TSuccess ''42'')))] \<and> hs_tick st' = Suc 7
     \<and> (if rq_runId (sample_request ''do it'' None) = None
        then b_runState (hs_b st') = Some TerminalRun \<and> hydrateBundle (rows st') = hs_b st'
        else rows st' = rows (write_terminal sample_env (TSuccess ''42'') ?st))"
    by (rule terminal_write_survives_crash [of ?st "sample_request ''do it'' None" "''r''" sample_env, OF _ _ _ _ _ _ _ ex])
      (simp_all add: same_text_def sample_request_def now_of_def)
  moreover have "nonEmptyBody ''42'' = ''42''" by (simp add: nonEmptyBody_def trim_def is_space_def)
  ultimately show ?thesis using ex by (auto simp: sample_request_def)
qed

text \<open>C3. A crash right after the verdict of the reviewer was written as the result of a step does not run the step
  again: the next turn adopts the committed result, without a model or tool call, and the run has
  come exactly as far - plan, cursor, sequence number, notes for the planner, last outcome, phase
  and step in flight - as if the step had been settled.  Only the charge of the step is lost: settling
  costs one step of the budget, adopting none.\<close>

theorem result_write_survives_crash:
  assumes "b_inFlight (hydrateBundle (rows st)) = Some f" "i_phase f = PhExecuting"
    "b_runId (hydrateBundle (rows st)) = Some k" "progress (hydrateBundle (rows st)) = progress (hs_b st)"
    "b_runPhase (hydrateBundle (rows st)) = Some ExecutingPhase" "b_nextSeq (hydrateBundle (rows st)) = Some (i_seq f)"
    "\<forall>x \<in> set (rows st). \<not> kmatches (k_meta x) (attempt_filter (Some k) (i_seq f) (i_attempt f))" "\<not> fl_ext fl"
    "settle_review env (i_step f) v st = (RSettled out, fin)"
    "crashed = reboot t (write_step_result env (i_step f) (cur_seq (hs_b st)) (cur_attempt (hs_b st))
       (o_status v) (o_note v) (o_remainder v) (o_digest v) (o_approved v) st)"
  shows "\<exists>st'. loop_turn env prompt fl crashed = (TLoop fl, st')
     \<and> progress (hs_b st') = progress (hs_b fin) \<and> phases (hs_b st') = phases (hs_b fin)
     \<and> steps_used (hs_b fin) = steps_used (hs_b st) + 1 \<and> steps_used (hs_b st') = steps_used (hydrateBundle (rows st))
     \<and> hydrateBundle (rows st') = hs_b st' \<and> hs_tick st' = t \<and> hs_out st' = []"
proof -
  let ?r = "\<lparr>o_status = o_status v, o_approved = o_approved v, o_remainder = o_remainder v, o_note = o_note v\<rparr>"
  let ?b = "hydrateBundle (rows st)"
  let ?st' = "persist env (upd_b (adopt_bundle f ?r (i_seq f + 1)) crashed)"
  have cur: "cur_seq (hs_b st) = i_seq f" "cur_attempt (hs_b st) = i_attempt f" "b_runId (hs_b st) = Some k"
    using assms(1,3,4) by (auto simp: progress_def cur_seq_def cur_attempt_def split: option.splits)
  have crashed: "crashed = reboot t (write_step_result env (i_step f) (i_seq f) (i_attempt f)
       (o_status v) (o_note v) (o_remainder v) (o_digest v) (o_approved v) st)"
    using assms(10) cur by simp
  have turn: "loop_turn env prompt fl crashed = (TLoop fl, ?st')"
    by (rule crash_after_result [OF assms(1-3) cur(3) assms(7,8) crashed])
  have b: "hs_b crashed = ?b" "hs_tick crashed = t" "hs_out crashed = []"
    using crashed by (simp_all add: hs_b_reboot hydrate_step_result) (simp_all add: reboot_def)
  let ?c = "recordStepControl (i_seq f) (s_name (i_step f)) (o_status v) (o_note v) (o_remainder v)"
  obtain c where c: "hs_b fin = settle_bundle (Some planner_commit_op) (?c c) (mapOutcome (o_status v))" "progress c = progress (hs_b st)"
      "steps_used c = steps_used (hs_b st) + 1"
    using assms(9) cur settle_review_bundle [of env "i_step f" v st] by auto
  have "progress (adopt_bundle f ?r (i_seq f + 1) ?b) = progress (hs_b fin)"
      "phases (adopt_bundle f ?r (i_seq f + 1) ?b) = phases (hs_b fin)"
    using adopt_is_settle [OF assms(1,6,5), of c ?r] assms(4) c by simp_all
  moreover have "steps_used (hs_b fin) = steps_used (hs_b st) + 1"
    using c(1,3) by (cases "mapOutcome (o_status v)") (simp_all add: settle_bundle_cases steps_used_def recordStepControl_def)
  moreover have "hs_b ?st' = adopt_bundle f ?r (i_seq f + 1) ?b" "hydrateBundle (rows ?st') = hs_b ?st'" "hs_tick ?st' = t" "hs_out ?st' = []"
    using b by (simp_all add: frame_simps store_simps hydrateBundle_snoc bundle_row_def)
  ultimately show ?thesis
    using turn by (auto simp: steps_used_def adopt_bundle_frame)
qed

theorem result_write_survives_crash_witness:
  "\<exists>st'. loop_turn sample_env ''do it'' no_flags
      (reboot 5 (write_step_result sample_env sample_step 0 0 SOk [] [] ''d'' ''content'' (sample_state sample_live)))
     = (TLoop no_flags, st') \<and> b_nextSeq (hs_b st') = Some 1 \<and> b_inFlight (hs_b st') = None"
proof -
  let ?f = "fresh_inflight 0 sample_step 0"
  let ?v = "mk_review SOk ''content'' [] [] ''d''"
  let ?st = "sample_state sample_live"
  have f: "i_seq ?f = 0" "i_attempt ?f = 0" "i_phase ?f = PhExecuting" "i_step ?f = sample_step" by (simp_all add: fresh_inflight_def)
  have v: "o_status ?v = SOk" "o_note ?v = []" "o_remainder ?v = []" "o_digest ?v = ''d''" "o_approved ?v = ''content''"
    by (simp_all add: mk_review_def)
  have cur: "cur_seq (hs_b ?st) = 0" "cur_attempt (hs_b ?st) = 0" by (simp_all add: cur_seq_def cur_attempt_def f)
  obtain fin where set: "settle_review sample_env sample_step ?v ?st = (RSettled Advanced, fin)"
    by (simp add: settle_review_def Let_def v)
  from set have set': "settle_review sample_env (i_step ?f) ?v ?st = (RSettled Advanced, fin)" by (simp add: f)
  have "\<exists>st'. loop_turn sample_env ''do it'' no_flags
      (reboot 5 (write_step_result sample_env (i_step ?f) (cur_seq (hs_b ?st)) (cur_attempt (hs_b ?st)) (o_status ?v) (o_note ?v)
         (o_remainder ?v) (o_digest ?v) (o_approved ?v) ?st)) = (TLoop no_flags, st')
     \<and> progress (hs_b st') = progress (hs_b fin) \<and> phases (hs_b st') = phases (hs_b fin)
     \<and> steps_used (hs_b fin) = steps_used (hs_b ?st) + 1 \<and> steps_used (hs_b st') = steps_used (hydrateBundle (rows ?st))
     \<and> hydrateBundle (rows st') = hs_b st' \<and> hs_tick st' = 5 \<and> hs_out st' = []"
    by (rule result_write_survives_crash [OF _ _ _ _ _ _ _ _ set' refl, where k = "''r''"])
      (simp_all add: f no_flags_def kmatches_attempt)
  then obtain st' where st': "loop_turn sample_env ''do it'' no_flags
      (reboot 5 (write_step_result sample_env sample_step 0 0 SOk [] [] ''d'' ''content'' ?st)) = (TLoop no_flags, st')"
      "progress (hs_b st') = progress (hs_b fin)"
    unfolding f(4) cur v by blast
  have "fin = snd (settle_review sample_env sample_step ?v ?st)" using set by simp
  then have "b_nextSeq (hs_b fin) = Some 1 \<and> b_inFlight (hs_b fin) = None"
    using settled_review [of sample_env sample_step ?v ?st] by (simp add: v settled_def)
  then show ?thesis using st' by (auto simp: progress_def)
qed

text \<open>C4. The plan is durable: for a plan whose steps have distinct identities and a store with no row from the
  future, if the decision rows of a run replay to the plan in the bundle before a planner call, they
  do so after the call's decisions have been drained - whatever the planner answered (create, replan
  of the tail, failure) - and the store still has no row from the future.\<close>

theorem decisions_replay_to_plan:
  assumes "plan_durable env r st" "b_runId (hs_b st) = Some r" "ids_ok (nullish (b_plan (hs_b st)) [])"
    "clock_ok (hs_rag st) (en_now env (Suc (hs_tick st)))"
    "planner_next penv send (hs_b st) prompt lo ext retrying bt = (nx, b')"
  shows "\<exists>st'. drain env (bump (upd_b (\<lambda>_. b') st)) = (True, st')
     \<and> durable_plan (hs_rag st') r = Some (nullish (b_plan b') []) \<and> plan_durable env r st'
     \<and> clock_ok (hs_rag st') (en_now env (hs_tick st'))"
  using plan_stays_durable [OF assms] by (auto simp: plan_durable_def durable_plan_def)

theorem decisions_replay_to_plan_witness:
  "\<exists>st'. drain sample_env (bump (upd_b (\<lambda>_. create_plan (\<lambda>s. s) sample_live [mk_step ''a'' ''b'']) (sample_state sample_live)))
      = (True, st')
     \<and> durable_plan (hs_rag st') ''r'' = Some (mintCreateStepIds (\<lambda>s. s) [mk_step ''a'' ''b''] ''r'')"
proof -
  let ?st = "sample_state sample_live"
  let ?penv = "\<lparr>pe_prompts = sample_prompts, pe_hint = None, pe_skills = None, pe_hash = (\<lambda>s. s)\<rparr>"
  let ?reply = "''{'' @ [quote_char] @ ''plan'' @ [quote_char] @ '':[{'' @ [quote_char] @ ''name'' @ [quote_char] @ '':''
     @ [quote_char] @ ''a'' @ [quote_char] @ '','' @ [quote_char] @ ''instructions'' @ [quote_char] @ '':''
     @ [quote_char] @ ''b'' @ [quote_char] @ ''}]}''"
  have parse: "parsePlan ?reply = PlanSteps [mk_step ''a'' ''b'']"
    by code_simp
  have "readPlanDecisions (hs_rag ?st) ''r'' = Some []"
    by (simp add: readPlanDecisions_def rag_list_def kmatches_run_filter PLAN_DECISION_ARTIFACT_def)
  then have d: "plan_durable sample_env ''r'' ?st" by (simp add: plan_durable_def)
  have nx: "planner_next ?penv (\<lambda>_. RContent ?reply) (hs_b ?st) [] None False False None
      = (stepAtCursor ?penv (\<lambda>_. RContent ?reply) (create_plan (\<lambda>s. s) sample_live [mk_step ''a'' ''b'']) [] None,
         create_plan (\<lambda>s. s) sample_live [mk_step ''a'' ''b''])"
    using parse by (simp add: planner_next_def callPlan_def Let_def del: append.simps)
  have "ids_ok (nullish (b_plan (hs_b ?st)) [])" "clock_ok (hs_rag ?st) (en_now sample_env (Suc (hs_tick ?st)))"
    by (simp_all add: ids_ok_def clock_ok_def)
  from decisions_replay_to_plan [OF d _ this nx] show ?thesis
    by (auto simp: create_plan_def recordDecision_def Let_def)
qed

text \<open>C5. An executor step always comes to an end, and only its end writes a result.  It settles with exactly
  one more result row in the store, that of this attempt, followed by the bundle row, one step
  charged, the cursor and the sequence number moved together on success and both still on failure; or
  it suspends on an external tool within the tool-call budget with the marker durable; or it aborts
  the run store-first; or it throws; and then there is no more result row than before.\<close>

theorem step_runs_to_an_end:
  assumes "b_inFlight (hs_b st) = Some f" "0 \<le> i_toolCallCount f" "runStep env step st = (r, st')"
  shows "case r of
      RSettled out \<Rightarrow>
        (\<exists>e s. result_rows (rows st') = result_rows (rows st) @ [e] \<and> last (butlast (rows st')) = e
           \<and> is_result step (hs_b st) s e \<and> mapOutcome s = out)
        \<and> hydrateBundle (rows st') = hs_b st'
        \<and> steps_used (hs_b st') = steps_used (hs_b st) + 1 \<and> b_lastOutcome (hs_b st') = Some out
        \<and> (if out = FailedOutcome
           then b_planCursor (hs_b st') = b_planCursor (hs_b st) \<and> b_nextSeq (hs_b st') = b_nextSeq (hs_b st)
           else b_planCursor (hs_b st') = Some (nullish (b_planCursor (hs_b st)) 0 + 1)
             \<and> b_nextSeq (hs_b st') = Some (nullish (b_nextSeq (hs_b st)) 0 + 1) \<and> b_inFlight (hs_b st') = None)
    | RSuspended \<Rightarrow> result_rows (rows st') = result_rows (rows st)
        \<and> b_runState (hs_b st') = Some Suspended \<and> hydrateBundle (rows st') = hs_b st'
        \<and> (\<exists>i nm args. b_pending (hs_b st') = Some (ExternalTool i nm args (s_name step)))
        \<and> tool_count (hs_b st') \<le> max (i_toolCallCount f) (max_tool_calls env)
    | RAborted \<Rightarrow> result_rows (rows st') = result_rows (rows st) \<and> ended env st st'
    | RThrew \<Rightarrow> result_rows (rows st') = result_rows (rows st) \<and> core (hs_b st') = core (hs_b st)
    | ROutOfFuel \<Rightarrow> False"
proof -
  have ok: "step_ok env step st (r, st')"
    using runStep_ok [OF assms(1,2), of env step] assms(3) by simp
  show ?thesis
  proof (cases r)
    case (RSettled out)
    with ok show ?thesis using settled_results [of env step out st st'] by (simp add: step_ok_def settled_def)
  next
    case RSuspended
    with ok show ?thesis
      using assms(1) suspended_results [of env st st'] by (simp add: step_ok_def tool_count_def)
  next
    case RAborted
    with ok show ?thesis using ended_results [of env st st'] by (simp add: step_ok_def)
  next
    case RThrew
    with ok show ?thesis using keeps_results [of env st st'] by (simp add: step_ok_def keeps_def)
  qed (use ok in \<open>simp add: step_ok_def\<close>)
qed

theorem step_runs_to_an_end_witness:
  "\<exists>r st'. runStep sample_env sample_step (sample_state sample_live) = (r, st') \<and> r \<noteq> ROutOfFuel"
proof -
  obtain r st' where rs: "runStep sample_env sample_step (sample_state sample_live) = (r, st')" by fastforce
  have f: "b_inFlight (hs_b (sample_state sample_live)) = Some (fresh_inflight 0 sample_step 0)"
    "0 \<le> i_toolCallCount (fresh_inflight 0 sample_step 0)" by (simp_all add: fresh_inflight_def)
  from step_runs_to_an_end [OF f rs] rs show ?thesis by (auto split: step_result.splits)
qed



text \<open>C7. Serving a wait step settles it, or leaves it interrupted; either way the bundle in the store is the one
  in memory, so that an interrupted wait has its deadline durable, and the milliseconds charged to the
  run never pass \<open>maxTotalWaitMs\<close>.\<close>

theorem wait_step_within_budget:
  assumes "serveWaitStep env step st = (r, st')" "b_inFlight (hs_b st) = Some f" "hydrateBundle (rows st) = hs_b st"
    "nullish (u_waitMsUsed (b_budgets (hs_b st))) 0 \<le> nullish (cf_maxTotalWaitMs (en_cfg env)) 1800000"
  shows "nullish (u_waitMsUsed (b_budgets (hs_b st'))) 0 \<le> nullish (cf_maxTotalWaitMs (en_cfg env)) 1800000
     \<and> hydrateBundle (rows st') = hs_b st'
     \<and> (case r of
          NotAWait \<Rightarrow> st' = st \<and> \<not> isWaitStep step
        | Served \<Rightarrow> isWaitStep step \<and> (settled env step Advanced st st' \<or> settled env step FailedOutcome st st')
        | WaitAborted \<Rightarrow> isWaitStep step \<and> core (hs_b st') = core (hs_b st)
            \<and> (\<exists>f'. b_inFlight (hydrateBundle (rows st')) = Some f' \<and> i_waitStartedAt f' \<noteq> None \<and> i_appliedWaitMs f' \<noteq> None))"
proof (cases r)
  case Served
  then obtain out where "settled env step out st st'" "out \<in> {Advanced, FailedOutcome}" "isWaitStep step"
    using serveWaitStep_cases [OF assms(1,2)] by auto
  moreover from this(1) have "hydrateBundle (rows st') = hs_b st'" by (rule settled_durable)
  ultimately show ?thesis
    using Served serveWaitStep_budget [OF assms(1)] assms(4) by (auto simp: wait_used_def wait_cap_def)
qed (use serveWaitStep_cases [OF assms(1,2)] serveWaitStep_budget [OF assms(1)] assms(3,4) in
  \<open>auto simp: keeps_def wait_used_def wait_cap_def\<close>)

definition sample_wait :: step where
  "sample_wait = (mk_step ''pause'' ''wait'')\<lparr>s_type := Some (JStr ''wait''), s_waitMs := Some 500\<rparr>"

theorem wait_step_within_budget_witness:
  "\<exists>r st'. serveWaitStep sample_env sample_wait (sample_state sample_live) = (r, st') \<and> r \<noteq> NotAWait
     \<and> nullish (u_waitMsUsed (b_budgets (hs_b st'))) 0 \<le> 1800000"
proof -
  obtain r st' where rs: "serveWaitStep sample_env sample_wait (sample_state sample_live) = (r, st')" by fastforce
  have f: "b_inFlight (hs_b (sample_state sample_live)) = Some (fresh_inflight 0 sample_step 0)" by simp
  have u: "nullish (u_waitMsUsed (b_budgets (hs_b (sample_state sample_live)))) 0
      \<le> nullish (cf_maxTotalWaitMs (en_cfg sample_env)) 1800000"
    by (simp add: sample_cfg_def) (simp add: sample_live_def resetRun_def)
  have w: "isWaitStep sample_wait"
    by (simp add: isWaitStep_def isWaitType_def sample_wait_def mk_step_def)
  from wait_step_within_budget [OF rs f _ u] rs w show ?thesis
    by (auto simp: sample_cfg_def split: wait_served.splits)
qed

text \<open>A run whose step budget is spent asks for a confirmation it can never use: whatever the consumer
  answers under the key of the run, the call ends with the same question and the run is exactly as stuck
  as before.\<close>

theorem spent_budget_never_resumes:
  assumes "budget_stuck env k (hs_b st)" "rq_runId rq = Some k" "\<not> rq_newRun rq"
    "\<And>t. readTerminal (rows st) k t = None" "execute_from env rq st = (e, st')"
  shows "e = Returned \<and> budget_stuck env k (hs_b st') \<and> hydrateBundle (rows st') = hs_b st'
     \<and> (\<forall>t. readTerminal (rows st') k t = None)
     \<and> hs_out st' = hs_out st @ [ChText (''To proceed, please provide: '' @ budget_question), ChFinal []]"
  by (rule execute_budget_stuck [OF assms])

definition sample_spent :: session_bundle where
  "sample_spent = sample_live\<lparr>b_budgets := \<lparr>u_stepsUsed = 3, u_rewindsUsed = 0, u_waitMsUsed = None\<rparr>,
     b_pending := Some (Clarify budget_question ''loop'' None)\<rparr>"

theorem spent_budget_never_resumes_witness:
  "\<exists>st'. execute_from sample_env (sample_request ''yes, go on'' (Some ''r'')) (sample_state sample_spent) = (Returned, st')
     \<and> budget_stuck sample_env ''r'' (hs_b st')"
proof -
  obtain e st' where ex: "execute_from sample_env (sample_request ''yes, go on'' (Some ''r'')) (sample_state sample_spent)
      = (e, st')" by fastforce
  have "live_state sample_spent" using sample_live_sel(2) by (simp add: sample_spent_def live_state_def)
  then have "budget_stuck sample_env ''r'' (hs_b (sample_state sample_spent))"
    by (simp add: budget_stuck_def) (simp add: sample_spent_def steps_used_def sample_cfg_def)
  from spent_budget_never_resumes [OF this _ _ _ ex] ex show ?thesis
    by (auto simp: sample_request_def)
qed

text \<open>C11. A request under an unknown key overwrites the pending marker of the live run the session holds:
  a suspended external-tool round trip is forgotten, though the run keeps its identity and state.\<close>

theorem unknown_key_clobbers_pending:
  assumes "rq_runId rq = Some k" "k \<noteq> []" "\<not> rq_newRun rq" "b_runId (hs_b st) \<noteq> Some k"
    "readTerminal (rows st) k (en_now env (hs_tick st)) = None" "execute_from env rq st = (e, st')"
  shows "e = Returned
     \<and> hydrateBundle (rows st') = (hs_b st)\<lparr>b_pending := Some (Clarify not_resumable ''loop'' None)\<rparr>"
  using execute_not_found [OF assms] by simp

theorem unknown_key_clobbers_pending_witness:
  "let b = sample_live\<lparr>b_runState := Some Suspended, b_pending := Some (ExternalTool ''x'' ''ask'' ''{}'' ''fetch'')\<rparr>
   in \<exists>st'. execute_from sample_env (sample_request ''hello'' (Some ''other'')) (sample_state b) = (Returned, st')
        \<and> live_state (hydrateBundle (rows st')) \<and> b_runId (hydrateBundle (rows st')) = Some ''r''
        \<and> b_pending (hydrateBundle (rows st')) = Some (Clarify not_resumable ''loop'' None)"
proof -
  let ?b = "sample_live\<lparr>b_runState := Some Suspended, b_pending := Some (ExternalTool ''x'' ''ask'' ''{}'' ''fetch'')\<rparr>"
  obtain e st' where ex: "execute_from sample_env (sample_request ''hello'' (Some ''other'')) (sample_state ?b) = (e, st')"
    by fastforce
  have "e = Returned
     \<and> hydrateBundle (rows st') = (hs_b (sample_state ?b))\<lparr>b_pending := Some (Clarify not_resumable ''loop'' None)\<rparr>"
    by (rule unknown_key_clobbers_pending [OF _ _ _ _ _ ex, where k = "''other''"]) (simp_all add: sample_request_def)
  then show ?thesis using ex by (simp add: live_state_def)
qed

end
