(* ===== verification/DepSearch.thy ===== *)
theory DepSearch
  imports Prelude
begin

text \<open>
  Depth-first search for a cycle among the dependencies of a plan.

  Two parts of the program contain this search: \<open>assertAcyclic\<close> of the DAG interpreter keeps one
  \<open>Map\<close> from node to 0, 1 or 2, \<open>mergePlan\<close> of the dialogue planner keeps a set \<open>visiting\<close> and a set
  \<open>visited\<close>.  The search is defined once over the three operations both use on their marks; the locale
  \<open>dep_marks\<close> states what these operations promise, and its lemmas show that the search accepts
  exactly the acyclic dependency relations and never needs more fuel than there are nodes.
\<close>

datatype colour = White | Grey | Black

subsection \<open>The search\<close>

text \<open>
  \<open>C s v\<close> reads the mark of \<open>v\<close>, \<open>E v s\<close> marks it as being visited, \<open>L v s\<close> as visited.  The result
  is \<open>Inl v\<close> for the exception thrown at the node \<open>v\<close>, \<open>Inr s\<close> for a return; \<open>None\<close> is the end of the
  fuel, which stands for the depth of the call stack.
\<close>

function dfs_visit ::
    "('s \<Rightarrow> string \<Rightarrow> colour) \<Rightarrow> (string \<Rightarrow> 's \<Rightarrow> 's) \<Rightarrow> (string \<Rightarrow> 's \<Rightarrow> 's) \<Rightarrow> (string \<Rightarrow> string list)
      \<Rightarrow> nat \<Rightarrow> string \<Rightarrow> 's \<Rightarrow> (string + 's) option"
  and dfs_list ::
    "('s \<Rightarrow> string \<Rightarrow> colour) \<Rightarrow> (string \<Rightarrow> 's \<Rightarrow> 's) \<Rightarrow> (string \<Rightarrow> 's \<Rightarrow> 's) \<Rightarrow> (string \<Rightarrow> string list)
      \<Rightarrow> nat \<Rightarrow> string list \<Rightarrow> 's \<Rightarrow> (string + 's) option" where
  "dfs_visit C E L D 0 v s = None"
| "dfs_visit C E L D (Suc n) v s =
     (case C s v of
        Grey \<Rightarrow> Some (Inl v)
      | Black \<Rightarrow> Some (Inr s)
      | White \<Rightarrow>
          (case dfs_list C E L D n (D v) (E v s) of
             None \<Rightarrow> None
           | Some (Inl c) \<Rightarrow> Some (Inl c)
           | Some (Inr s') \<Rightarrow> Some (Inr (L v s'))))"
| "dfs_list C E L D n [] s = Some (Inr s)"
| "dfs_list C E L D n (d # ds) s =
     (case dfs_visit C E L D n d s of
        None \<Rightarrow> None
      | Some (Inl c) \<Rightarrow> Some (Inl c)
      | Some (Inr s') \<Rightarrow> dfs_list C E L D n ds s')"
  by pat_completeness auto
termination
  by (relation "measures [case_sum (\<lambda>(_, _, _, _, n, _, _). n) (\<lambda>(_, _, _, _, n, _, _). n),
        case_sum (\<lambda>_. 0) (\<lambda>(_, _, _, _, _, ds, _). Suc (length ds))]") auto

subsection \<open>Dependency orders\<close>

definition dep_rel :: "(string \<Rightarrow> string list) \<Rightarrow> (string \<times> string) set" where
  "dep_rel D = {(v, d). d \<in> set (D v)}"

text \<open>A list in which every node stands before its dependencies, and all of these are in the list.\<close>

fun topo :: "(string \<Rightarrow> string list) \<Rightarrow> string list \<Rightarrow> bool" where
  "topo D [] \<longleftrightarrow> True"
| "topo D (v # vs) \<longleftrightarrow> v \<notin> set vs \<and> set (D v) \<subseteq> set vs \<and> topo D vs"

lemma topo_step: "topo D vs \<Longrightarrow> (v, w) \<in> dep_rel D \<Longrightarrow> v \<in> set vs \<Longrightarrow> w \<in> set vs"
  by (induction vs) (auto simp: dep_rel_def)

lemma topo_closed:
  assumes "topo D vs" "(v, w) \<in> (dep_rel D)\<^sup>+" "v \<in> set vs"
  shows "w \<in> set vs"
  using assms(2,3) by (induction rule: trancl_induct) (auto intro: topo_step [OF assms(1)])

lemma topo_acyclic: "topo D vs \<Longrightarrow> v \<in> set vs \<Longrightarrow> (v, v) \<notin> (dep_rel D)\<^sup>+"
proof (induction vs)
  case (Cons u vs)
  show ?case
  proof (cases "v = u")
    case False
    with Cons show ?thesis by simp
  next
    case True
    have "w \<noteq> v \<and> (w, v) \<notin> (dep_rel D)\<^sup>+" if "w \<in> set (D v)" for w
      using that topo_closed [of D vs w v] Cons.prems True by auto
    moreover have "\<exists>w \<in> set (D v). w = v \<or> (w, v) \<in> (dep_rel D)\<^sup>+" if "(v, v) \<in> (dep_rel D)\<^sup>+"
      using tranclD [OF that] rtranclD by (fastforce simp: dep_rel_def)
    ultimately show ?thesis by blast
  qed
qed simp

subsection \<open>Correctness, from the laws of the marks\<close>

locale dep_marks =
  fixes C :: "'s \<Rightarrow> string \<Rightarrow> colour"
    and E :: "string \<Rightarrow> 's \<Rightarrow> 's"
    and L :: "string \<Rightarrow> 's \<Rightarrow> 's"
  assumes enter_colour: "C (E v s) w = (if w = v then Grey else C s w)"
    and leave_colour: "C (L v s) w = (if w = v then Black else C s w)"
begin

abbreviation "visit \<equiv> dfs_visit C E L"
abbreviation "visits \<equiv> dfs_list C E L"

text \<open>Induction along the search, for fixed operations.\<close>

lemma visit_induct [case_names zero step nil cons]:
  assumes zero: "\<And>v s. P 0 v s"
    and step: "\<And>n v s. (C s v = White \<Longrightarrow> Q n (D v) (E v s)) \<Longrightarrow> P (Suc n) v s"
    and nil: "\<And>n s. Q n [] s"
    and cons: "\<And>n d ds s. P n d s \<Longrightarrow> (\<And>s'. visit D n d s = Some (Inr s') \<Longrightarrow> Q n ds s') \<Longrightarrow> Q n (d # ds) s"
  shows "P n v s" "Q n vs s"
proof -
  have Q: "Q n ds s" if "\<And>v s. P n v s" for n ds s
    by (induction ds arbitrary: s) (auto intro: nil cons that)
  have P: "P n v s" for n v s
    by (induction n arbitrary: v s) (auto intro: zero step Q)
  show "P n v s" "Q n vs s"
    using P Q by blast+
qed

text \<open>What a search that returns has done: the nodes being visited are as before, visited nodes stay
  visited, and no node loses its mark.\<close>

definition grown :: "'s \<Rightarrow> 's \<Rightarrow> bool" where
  "grown s s' \<longleftrightarrow> (\<forall>w. (C s' w = Grey \<longleftrightarrow> C s w = Grey) \<and> (C s w = Black \<longrightarrow> C s' w = Black))"

lemma grown_refl [simp]: "grown s s"
  by (simp add: grown_def)

lemma grown_trans: "grown s t \<Longrightarrow> grown t u \<Longrightarrow> grown s u"
  by (simp add: grown_def)

lemma grown_leave: "grown (E v s) s' \<Longrightarrow> C s v = White \<Longrightarrow> grown s (L v s')"
  by (auto simp: grown_def enter_colour leave_colour split: if_splits)

lemma grown_visit:
  "visit D n v s = Some (Inr s') \<Longrightarrow> grown s s'"
  "visits D n vs s = Some (Inr s') \<Longrightarrow> grown s s'"
proof (induction n v s and n vs s arbitrary: s' and s' rule: visit_induct [where D = D])
  case (step n v s)
  then show ?case
    by (auto split: colour.splits option.splits sum.splits intro: grown_leave)
next
  case (cons n d ds s)
  then show ?case
    by (auto split: option.splits sum.splits intro: grown_trans)
qed auto

text \<open>The visited nodes stand in a dependency order.\<close>

definition good :: "(string \<Rightarrow> string list) \<Rightarrow> 's \<Rightarrow> bool" where
  "good D s \<longleftrightarrow> (\<exists>vs. topo D vs \<and> set vs = {v. C s v = Black})"

lemma good_enter: "good D s \<Longrightarrow> C s v = White \<Longrightarrow> good D (E v s)"
proof -
  assume w: "C s v = White" and "good D s"
  then obtain vs where "topo D vs" "set vs = {v. C s v = Black}" by (auto simp: good_def)
  moreover have "{u. C (E v s) u = Black} = {u. C s u = Black}"
    using w by (auto simp: enter_colour)
  ultimately show ?thesis by (auto simp: good_def)
qed

lemma good_leave:
  assumes "good D s" "C s v = Grey" "\<forall>d \<in> set (D v). C s d = Black"
  shows "good D (L v s)"
proof -
  obtain vs where "topo D vs" "set vs = {v. C s v = Black}"
    using assms(1) by (auto simp: good_def)
  then have "topo D (v # vs)" "set (v # vs) = {u. C (L v s) u = Black}"
    using assms(2,3) by (auto simp: leave_colour)
  then show ?thesis unfolding good_def by blast
qed

lemma visit_good:
  "visit D n v s = Some (Inr s') \<Longrightarrow> good D s \<Longrightarrow> good D s' \<and> C s' v = Black"
  "visits D n vs s = Some (Inr s') \<Longrightarrow> good D s \<Longrightarrow> good D s' \<and> (\<forall>v \<in> set vs. C s' v = Black)"
proof (induction n v s and n vs s arbitrary: s' and s' rule: visit_induct [where D = D])
  case (step n v s)
  show ?case
  proof (cases "C s v = White")
    case True
    with step.prems obtain t where t: "visits D n (D v) (E v s) = Some (Inr t)" "s' = L v t"
      by (auto split: option.splits sum.splits)
    with step True have "good D t" "\<forall>d \<in> set (D v). C t d = Black"
      by (auto intro: good_enter)
    moreover have "C t v = Grey"
      using grown_visit(2) [OF t(1)] by (simp add: grown_def enter_colour)
    ultimately show ?thesis
      using t(2) by (simp add: good_leave leave_colour)
  qed (use step.prems in \<open>auto split: colour.splits\<close>)
next
  case (cons n d ds s)
  from cons.prems obtain t where t: "visit D n d s = Some (Inr t)" "visits D n ds t = Some (Inr s')"
    by (auto split: option.splits sum.splits)
  with cons have "good D s'" "C t d = Black" "\<forall>v \<in> set ds. C s' v = Black"
    by blast+
  then show ?case
    using grown_visit(2) [OF t(2)] by (simp add: grown_def)
qed auto

text \<open>An exception shows a cycle: every node being visited leads to the node the search is at.\<close>

definition stacked :: "(string \<Rightarrow> string list) \<Rightarrow> 's \<Rightarrow> string \<Rightarrow> bool" where
  "stacked D s v \<longleftrightarrow> (\<forall>g. C s g = Grey \<longrightarrow> (g, v) \<in> (dep_rel D)\<^sup>+)"

lemma stacked_enter: "stacked D s v \<Longrightarrow> d \<in> set (D v) \<Longrightarrow> stacked D (E v s) d"
  by (auto simp: stacked_def enter_colour dep_rel_def intro: trancl_into_trancl)

lemma stacked_grown: "stacked D s v \<Longrightarrow> grown s t \<Longrightarrow> stacked D t v"
  by (simp add: stacked_def grown_def)

lemma visit_cycle:
  "visit D n v s = Some (Inl c) \<Longrightarrow> stacked D s v \<Longrightarrow> (c, c) \<in> (dep_rel D)\<^sup>+"
  "visits D n vs s = Some (Inl c) \<Longrightarrow> \<forall>v \<in> set vs. stacked D s v \<Longrightarrow> (c, c) \<in> (dep_rel D)\<^sup>+"
proof (induction n v s and n vs s rule: visit_induct [where D = D])
  case (step n v s)
  show ?case
  proof (cases "C s v")
    case White
    with step.prems have "visits D n (D v) (E v s) = Some (Inl c)"
      by (auto split: option.splits sum.splits)
    with step White show ?thesis
      by (auto dest: stacked_enter)
  qed (use step.prems in \<open>auto simp: stacked_def\<close>)
next
  case (cons n d ds s)
  then show ?case
    by (auto split: option.splits sum.splits intro: stacked_grown dest: grown_visit)
qed auto

text \<open>The fuel: a call needs no more than the number of unvisited nodes.\<close>

abbreviation "whites U s \<equiv> {u \<in> U. C s u = White}"

lemma visit_enough:
  assumes "finite U" "\<forall>u \<in> U. set (D u) \<subseteq> U"
  shows "card (whites U s) < n \<Longrightarrow> v \<in> U \<Longrightarrow> visit D n v s \<noteq> None"
    and "card (whites U s) < n \<Longrightarrow> set vs \<subseteq> U \<Longrightarrow> visits D n vs s \<noteq> None"
proof (induction n v s and n vs s rule: visit_induct [where D = D])
  case (step n v s)
  have "whites U (E v s) \<subset> whites U s" if "C s v = White"
    using that step.prems(2) by (auto simp: enter_colour)
  then have "card (whites U (E v s)) < n" if "C s v = White"
    using that step.prems(1) assms(1) psubset_card_mono [of "whites U s" "whites U (E v s)"] by fastforce
  with step assms(2) show ?case
    by (auto split: colour.splits option.splits sum.splits)
next
  case (cons n d ds s)
  have "whites U t \<subseteq> whites U s" if "visit D n d s = Some (Inr t)" for t
    using grown_visit(1) [OF that] by (auto simp: grown_def) (metis colour.exhaust)
  then have "card (whites U t) < n" if "visit D n d s = Some (Inr t)" for t
    using that cons.prems(1) assms(1) card_mono [of "whites U s" "whites U t"] by fastforce
  with cons show ?case
    by (auto split: option.splits sum.splits)
qed auto

text \<open>The whole search, from unmarked nodes.\<close>

lemma search_order:
  assumes "visits D n vs s = Some (Inr s')" "\<forall>v. C s v = White"
  shows "\<exists>us. topo D us \<and> set vs \<subseteq> set us"
proof -
  have "good D s" unfolding good_def using assms(2) by (intro exI [of _ "[]"]) simp
  from visit_good(2) [OF assms(1) this] show ?thesis
    by (auto simp: good_def)
qed

lemma search_total:
  assumes "\<forall>v \<in> set vs. set (D v) \<subseteq> set vs" "length vs < n"
  shows "visits D n vs s \<noteq> None"
proof -
  have "card (whites (set vs) s) \<le> card (set vs)"
    by (rule card_mono) auto
  also have "\<dots> < n"
    using assms(2) card_length [of vs] by simp
  finally show ?thesis
    by (intro visit_enough(2) [of "set vs"]) (use assms(1) in auto)
qed

lemma search_accepts_iff:
  assumes "\<forall>v \<in> set vs. set (D v) \<subseteq> set vs" "length vs < n" "\<forall>v. C s v = White"
    and "\<forall>v. v \<notin> set vs \<longrightarrow> D v = []"
  shows "(\<exists>s'. visits D n vs s = Some (Inr s')) \<longleftrightarrow> acyclic (dep_rel D)"
proof
  assume "\<exists>s'. visits D n vs s = Some (Inr s')"
  then obtain us where us: "topo D us" "set vs \<subseteq> set us"
    using search_order assms(3) by blast
  have "(v, v) \<notin> (dep_rel D)\<^sup>+" for v
  proof (cases "v \<in> set vs")
    case False
    then show ?thesis
      using assms(4) tranclD [of v v "dep_rel D"] by (auto simp: dep_rel_def)
  qed (use us topo_acyclic in blast)
  then show "acyclic (dep_rel D)" by (simp add: acyclic_def)
next
  assume "acyclic (dep_rel D)"
  then show "\<exists>s'. visits D n vs s = Some (Inr s')"
    using search_total [OF assms(1,2), of s] visit_cycle(2) [of D n vs s] assms(3)
    by (cases "visits D n vs s"; cases "the (visits D n vs s)") (auto simp: acyclic_def stacked_def)
qed

end

end
