(* ===== verification/DagPlan.thy ===== *)
theory DagPlan
  imports DepSearch Json
begin

text \<open>
  The plan of the DAG coordinator: \<open>interfaces/dag-plan.ts\<close> and \<open>coordinator/dag\<close> with
  \<open>splice-sub-plan.ts\<close>, \<open>compose-node-task.ts\<close>, \<open>render-ancestor-context.ts\<close>, the parser of
  \<open>llm-dag-planner.ts\<close> and the two validation methods of \<open>dag-plan-interpreter.ts\<close>.  A thrown value is
  a \<open>thrown\<close>; the token usage the adapters attach to it is not modelled.
\<close>

subsection \<open>Data\<close>

record dag_node =
  dn_id :: string
  dn_goal :: string
  dn_agent :: "string option"
  dn_dependsOn :: "string list option"
  dn_needsInput :: "bool option"

record dag_plan =
  dp_nodes :: "dag_node list"
  dp_objective :: "string option"
  dp_rationale :: "string option"
  dp_createdAt :: int

text \<open>\<open>n.dependsOn ?? []\<close>\<close>

abbreviation deps_of :: "dag_node \<Rightarrow> string list" where
  "deps_of n \<equiv> nullish (dn_dependsOn n) []"

abbreviation ids_of :: "dag_plan \<Rightarrow> string list" where
  "ids_of p \<equiv> map dn_id (dp_nodes p)"

record context_path =
  cp_objective :: "string option"
  cp_clarifications :: "(string \<times> string) list"
  cp_observations :: "(string \<times> string) list"

text \<open>A worker as the interpreter sees it; its \<open>run\<close> is a parameter of the interpreter.\<close>

record dag_worker =
  wk_name :: string
  wk_description :: "string option"
  wk_contextPolicy :: "string option"

text \<open>Thrown values, with the message a caller reads and the code where one is carried.\<close>

datatype thrown =
    PlanInvalid string
  | NeedsDecomposition string
  | NeedInfo string
  | Clarify string
  | Orchestrator string string
  | OtherError string "string option"

fun errMsg :: "thrown \<Rightarrow> string" where
  "errMsg (PlanInvalid m) = m"
| "errMsg (NeedsDecomposition r) = ''needs decomposition: '' @ r"
| "errMsg (NeedInfo q) = ''needs info: '' @ q"
| "errMsg (Clarify q) = ''needs clarification: '' @ q"
| "errMsg (Orchestrator m c) = m"
| "errMsg (OtherError m c) = m"

fun codeOf :: "thrown \<Rightarrow> string option" where
  "codeOf (PlanInvalid m) = Some ''COORDINATOR_PLAN_INVALID''"
| "codeOf (Orchestrator m c) = Some c"
| "codeOf (OtherError m c) = c"
| "codeOf _ = None"

abbreviation squote :: string where
  "squote \<equiv> [CHR 39]"

definition quoted :: "string \<Rightarrow> string" where
  "quoted s = squote @ s @ squote"

subsection \<open>The local splice\<close>

definition ns_of :: "string \<Rightarrow> string \<Rightarrow> string" where
  "ns_of nodeId i = nodeId @ '':'' @ i"

definition sub_terminals :: "string \<Rightarrow> dag_plan \<Rightarrow> string list" where
  "sub_terminals nodeId sub =
     map (\<lambda>n. ns_of nodeId (dn_id n))
       (filter (\<lambda>n. dn_id n \<notin> set (concat (map deps_of (dp_nodes sub)))) (dp_nodes sub))"

definition splice_node :: "dag_node \<Rightarrow> string \<Rightarrow> dag_node \<Rightarrow> dag_node" where
  "splice_node replaced nodeId n =
     (let isRoot = length (deps_of n) = 0 in
      n\<lparr>dn_id := ns_of nodeId (dn_id n),
        dn_dependsOn := Some (if isRoot then deps_of replaced else map (ns_of nodeId) (deps_of n)),
        dn_needsInput :=
          (if isRoot then (case dn_needsInput replaced of None \<Rightarrow> dn_needsInput n | Some b \<Rightarrow> Some b)
           else dn_needsInput n)\<rparr>)"

definition rewire :: "string \<Rightarrow> string list \<Rightarrow> dag_node \<Rightarrow> dag_node" where
  "rewire nodeId terminals n =
     (if nodeId \<notin> set (deps_of n) then n
      else n\<lparr>dn_dependsOn := Some (filter (\<lambda>d. d \<noteq> nodeId) (deps_of n) @ terminals)\<rparr>)"

definition spliceSubPlan :: "dag_plan \<Rightarrow> string \<Rightarrow> dag_plan \<Rightarrow> dag_plan" where
  "spliceSubPlan plan nodeId sub =
     (case find (\<lambda>n. dn_id n = nodeId) (dp_nodes plan) of
        None \<Rightarrow> plan
      | Some replaced \<Rightarrow>
          plan\<lparr>dp_nodes :=
            map (rewire nodeId (sub_terminals nodeId sub))
                (filter (\<lambda>n. dn_id n \<noteq> nodeId) (dp_nodes plan))
            @ map (splice_node replaced nodeId) (dp_nodes sub)\<rparr>)"

subsection \<open>The task of a node\<close>

definition fenced :: "string \<Rightarrow> string" where
  "fenced s = newline @ ''---'' @ newline @ s @ newline @ ''---''"

definition ancestor_parts :: "dag_plan \<Rightarrow> context_path \<Rightarrow> string list" where
  "ancestor_parts plan ac =
     (if truthy (cp_objective ac) \<and> cp_objective ac \<noteq> dp_objective plan
      then [''Objective: '' @ the (cp_objective ac)] else [])
     @ map (\<lambda>(q, a). ''Clarified: '' @ q @ '' -> '' @ a) (cp_clarifications ac)
     @ map (\<lambda>(q, a). ''Known: '' @ q @ '' -> '' @ a) (cp_observations ac)"

definition composeNodeTask ::
    "dag_node \<Rightarrow> dag_plan \<Rightarrow> string \<Rightarrow> (string \<Rightarrow> string option) \<Rightarrow> context_path option \<Rightarrow> string" where
  "composeNodeTask node plan inputText depOutputs ancestor =
     (let deps = deps_of node in
      if \<not> truthy (dp_objective plan) \<and> deps = [] \<and> dn_needsInput node \<noteq> Some True \<and> ancestor = None
      then dn_goal node
      else
        join (newline @ newline)
          ([''Task: '' @ dn_goal node]
           @ (if truthy (dp_objective plan) then [''Overall objective: '' @ the (dp_objective plan)] else [])
           @ (case ancestor of None \<Rightarrow> [] | Some ac \<Rightarrow> ancestor_parts plan ac)
           @ map (\<lambda>d. ''Input from '' @ d @ '':'' @ fenced (nullish (depOutputs d) [])) deps
           @ (if dn_needsInput node = Some True
              then [''Input (user-provided data):'' @ fenced inputText] else [])))"

definition renderAncestorContext :: "context_path \<Rightarrow> string" where
  "renderAncestorContext ac =
     join newline
       ((if truthy (cp_objective ac) then [''Ancestor objective: '' @ the (cp_objective ac)] else [])
        @ (if cp_clarifications ac = [] then []
           else ''Prior clarifications:''
                # concat (map (\<lambda>(q, a). [''  Q: '' @ q, ''  A: '' @ a]) (cp_clarifications ac)))
        @ (if cp_observations ac = [] then []
           else ''Oracle observations:''
                # concat (map (\<lambda>(q, a). [''  Query: '' @ q, ''  Answer: '' @ a]) (cp_observations ac))))"

subsection \<open>Validation\<close>

text \<open>The map of workers, in insertion order.\<close>

type_synonym workers = "(string \<times> dag_worker) list"

definition resolveWorker :: "workers \<Rightarrow> dag_node \<Rightarrow> thrown + dag_worker" where
  "resolveWorker ws node =
     (if truthy (dn_agent node) then
        (case map_of ws (the (dn_agent node)) of
           None \<Rightarrow> Inl (PlanInvalid (''COORDINATOR_PLAN_INVALID: node '' @ quoted (dn_id node)
                     @ '' targets unknown worker '' @ quoted (the (dn_agent node))))
         | Some w \<Rightarrow> Inr w)
      else if length ws = 1 then Inr (snd (hd ws))
      else Inl (PlanInvalid (''COORDINATOR_PLAN_INVALID: node '' @ quoted (dn_id node) @ '' omits ''
                  @ quoted ''agent'' @ '' but there are '' @ nat_str (length ws) @ '' workers'')))"

fun check_duplicates :: "string set \<Rightarrow> dag_node list \<Rightarrow> thrown option" where
  "check_duplicates ids [] = None"
| "check_duplicates ids (n # rest) =
     (if dn_id n \<in> ids
      then Some (PlanInvalid (''COORDINATOR_PLAN_INVALID: duplicate node id '' @ quoted (dn_id n)))
      else check_duplicates (insert (dn_id n) ids) rest)"

definition check_node :: "workers \<Rightarrow> string set \<Rightarrow> dag_node \<Rightarrow> thrown option" where
  "check_node ws ids n =
     (case find (\<lambda>d. d \<notin> ids) (deps_of n) of
        Some d \<Rightarrow> Some (PlanInvalid (''COORDINATOR_PLAN_INVALID: node '' @ quoted (dn_id n)
                    @ '' depends on unknown '' @ quoted d))
      | None \<Rightarrow>
          (case resolveWorker ws n of
             Inl e \<Rightarrow> Some e
           | Inr w \<Rightarrow>
               if wk_contextPolicy w = Some ''required''
               then Some (PlanInvalid (''COORDINATOR_PLAN_INVALID: node '' @ quoted (dn_id n)
                      @ '' targets worker '' @ quoted (wk_name w) @ '' with contextPolicy='' @ quoted ''required''
                      @ '', but the DAG interpreter supplies node data via the composed task text, not the context field''))
               else None))"

fun check_nodes :: "workers \<Rightarrow> string set \<Rightarrow> dag_node list \<Rightarrow> thrown option" where
  "check_nodes ws ids [] = None"
| "check_nodes ws ids (n # rest) =
     (case check_node ws ids n of Some e \<Rightarrow> Some e | None \<Rightarrow> check_nodes ws ids rest)"

text \<open>
  The cycle search.  Its marks are a map to 1 (being visited) and 2 (visited); \<open>byId\<close> keeps the last
  node of an id.  The depth of the recursion is at most the number of nodes.
\<close>

definition mark_colour :: "(string \<times> nat) list \<Rightarrow> string \<Rightarrow> colour" where
  "mark_colour st i =
     (let s = nullish (map_of st i) 0 in if s = 1 then Grey else if s = 2 then Black else White)"

definition mark_enter :: "string \<Rightarrow> (string \<times> nat) list \<Rightarrow> (string \<times> nat) list" where
  "mark_enter i st = AList.update i 1 st"

definition mark_leave :: "string \<Rightarrow> (string \<times> nat) list \<Rightarrow> (string \<times> nat) list" where
  "mark_leave i st = AList.update i 2 st"

definition deps_by_id :: "dag_plan \<Rightarrow> string \<Rightarrow> string list" where
  "deps_by_id plan i =
     (case find (\<lambda>n. dn_id n = i) (rev (dp_nodes plan)) of None \<Rightarrow> [] | Some n \<Rightarrow> deps_of n)"

definition assertAcyclic :: "dag_plan \<Rightarrow> thrown option" where
  "assertAcyclic plan =
     (case dfs_list mark_colour mark_enter mark_leave (deps_by_id plan)
             (Suc (length (dp_nodes plan))) (ids_of plan) [] of
        Some (Inl c) \<Rightarrow> Some (PlanInvalid (''COORDINATOR_PLAN_INVALID: cycle at '' @ quoted c))
      | _ \<Rightarrow> None)"

definition validate :: "workers \<Rightarrow> dag_plan \<Rightarrow> thrown option" where
  "validate ws plan =
     (if length (dp_nodes plan) = 0
      then Some (PlanInvalid ''COORDINATOR_PLAN_INVALID: empty plan (no nodes)'')
      else
        (case check_duplicates {} (dp_nodes plan) of
           Some e \<Rightarrow> Some e
         | None \<Rightarrow>
             (case check_nodes ws (set (ids_of plan)) (dp_nodes plan) of
                Some e \<Rightarrow> Some e
              | None \<Rightarrow> assertAcyclic plan)))"

subsection \<open>What validation accepts\<close>

definition plan_edges :: "dag_plan \<Rightarrow> (string \<times> string) set" where
  "plan_edges plan = {(dn_id n, d) | n d. n \<in> set (dp_nodes plan) \<and> d \<in> set (deps_of n)}"

definition dag_wf :: "workers \<Rightarrow> dag_plan \<Rightarrow> bool" where
  "dag_wf ws plan \<longleftrightarrow>
     dp_nodes plan \<noteq> [] \<and> distinct (ids_of plan)
     \<and> (\<forall>n \<in> set (dp_nodes plan). set (deps_of n) \<subseteq> set (ids_of plan)
          \<and> (\<exists>w. resolveWorker ws n = Inr w \<and> wk_contextPolicy w \<noteq> Some ''required''))
     \<and> acyclic (plan_edges plan)"

interpretation marks: dep_marks mark_colour mark_enter mark_leave
  by unfold_locales (auto simp: mark_colour_def mark_enter_def mark_leave_def Let_def)

lemma mark_colour_Nil [simp]: "mark_colour [] i = White"
  by (simp add: mark_colour_def)

lemma check_duplicates_None_iff:
  "check_duplicates ids nds = None \<longleftrightarrow> distinct (map dn_id nds) \<and> ids \<inter> dn_id ` set nds = {}"
  by (induction ids nds rule: check_duplicates.induct) auto

lemma check_nodes_None_iff: "check_nodes ws ids nds = None \<longleftrightarrow> (\<forall>n \<in> set nds. check_node ws ids n = None)"
  by (induction nds) (auto split: option.splits)

lemma check_node_None_iff:
  "check_node ws ids n = None \<longleftrightarrow>
     set (deps_of n) \<subseteq> ids \<and> (\<exists>w. resolveWorker ws n = Inr w \<and> wk_contextPolicy w \<noteq> Some ''required'')"
proof -
  have "find (\<lambda>d. d \<notin> ids) (deps_of n) = None \<longleftrightarrow> set (deps_of n) \<subseteq> ids"
    by (auto simp: find_None_iff)
  then show ?thesis
    by (auto simp: check_node_def split: option.splits sum.splits)
qed

lemma find_id:
  assumes "distinct (map dn_id nds)" "n \<in> set nds"
  shows "find (\<lambda>m. dn_id m = dn_id n) nds = Some n"
  using assms by (induction nds) (auto simp: image_iff)

lemma deps_by_id_node:
  assumes "distinct (ids_of plan)" "n \<in> set (dp_nodes plan)"
  shows "deps_by_id plan (dn_id n) = deps_of n"
  using find_id [of "rev (dp_nodes plan)" n] assms by (simp add: deps_by_id_def rev_map [symmetric])

lemma deps_by_id_unknown: "i \<notin> set (ids_of plan) \<Longrightarrow> deps_by_id plan i = []"
proof -
  assume "i \<notin> set (ids_of plan)"
  then have "find (\<lambda>n. dn_id n = i) (rev (dp_nodes plan)) = None"
    unfolding find_None_iff by auto
  then show ?thesis by (simp add: deps_by_id_def)
qed

lemma dep_rel_deps_by_id:
  assumes "distinct (ids_of plan)"
  shows "dep_rel (deps_by_id plan) = plan_edges plan"
proof -
  have "d \<in> set (deps_by_id plan i) \<longleftrightarrow> (\<exists>n \<in> set (dp_nodes plan). dn_id n = i \<and> d \<in> set (deps_of n))" for i d
  proof (cases "\<exists>n \<in> set (dp_nodes plan). dn_id n = i")
    case True
    then obtain n where n: "n \<in> set (dp_nodes plan)" "dn_id n = i" by blast
    have "m = n" if "m \<in> set (dp_nodes plan)" "dn_id m = i" for m
      using assms that n by (simp add: distinct_map inj_on_def)
    with n show ?thesis
      using deps_by_id_node [OF assms n(1)] by (metis)
  next
    case False
    then have "i \<notin> set (ids_of plan)" by auto
    then show ?thesis
      using deps_by_id_unknown [of i plan] False by simp
  qed
  then show ?thesis by (auto simp: dep_rel_def plan_edges_def)
qed

lemma assertAcyclic_None_iff:
  assumes "distinct (ids_of plan)" "\<forall>n \<in> set (dp_nodes plan). set (deps_of n) \<subseteq> set (ids_of plan)"
  shows "assertAcyclic plan = None \<longleftrightarrow> acyclic (plan_edges plan)"
proof -
  have closed: "\<forall>v \<in> set (ids_of plan). set (deps_by_id plan v) \<subseteq> set (ids_of plan)"
    using assms deps_by_id_node [OF assms(1)] by auto
  let ?r = "dfs_list mark_colour mark_enter mark_leave (deps_by_id plan)
              (Suc (length (dp_nodes plan))) (ids_of plan) []"
  have "?r \<noteq> None"
    by (rule marks.search_total [OF closed]) simp
  then have "assertAcyclic plan = None \<longleftrightarrow> (\<exists>s. ?r = Some (Inr s))"
    by (cases ?r; cases "the ?r") (auto simp: assertAcyclic_def)
  also have "\<dots> \<longleftrightarrow> acyclic (dep_rel (deps_by_id plan))"
    by (rule marks.search_accepts_iff [OF closed]) (auto simp: deps_by_id_unknown)
  finally show ?thesis
    by (simp add: dep_rel_deps_by_id assms(1))
qed

lemma validate_None_iff: "validate ws plan = None \<longleftrightarrow> dag_wf ws plan"
proof (cases "check_duplicates {} (dp_nodes plan) = None \<and> check_nodes ws (set (ids_of plan)) (dp_nodes plan) = None")
  case True
  then have "distinct (ids_of plan)" "\<forall>n \<in> set (dp_nodes plan). check_node ws (set (ids_of plan)) n = None"
    by (simp_all add: check_duplicates_None_iff check_nodes_None_iff)
  moreover have "validate ws plan = None \<longleftrightarrow> dp_nodes plan \<noteq> [] \<and> assertAcyclic plan = None"
    using True by (simp add: validate_def)
  ultimately show ?thesis
    by (auto simp: dag_wf_def check_node_None_iff assertAcyclic_None_iff)
next
  case False
  then have "validate ws plan \<noteq> None"
    by (auto simp: validate_def split: option.splits)
  moreover have "\<not> dag_wf ws plan"
    using False by (auto simp: dag_wf_def check_duplicates_None_iff check_nodes_None_iff check_node_None_iff)
  ultimately show ?thesis by blast
qed

text \<open>A dependency order of the nodes of an accepted plan, dependencies last.\<close>

lemma wf_order:
  assumes "dag_wf ws plan"
  shows "\<exists>vs. set (ids_of plan) \<subseteq> set vs \<and> topo (deps_by_id plan) vs"
proof -
  have d: "distinct (ids_of plan)" "\<forall>n \<in> set (dp_nodes plan). set (deps_of n) \<subseteq> set (ids_of plan)"
      "acyclic (plan_edges plan)"
    using assms by (simp_all add: dag_wf_def)
  have closed: "\<forall>v \<in> set (ids_of plan). set (deps_by_id plan v) \<subseteq> set (ids_of plan)"
    using d deps_by_id_node [OF d(1)] by auto
  have "\<exists>s. dfs_list mark_colour mark_enter mark_leave (deps_by_id plan)
          (Suc (length (dp_nodes plan))) (ids_of plan) [] = Some (Inr s)"
    using d(3) by (subst marks.search_accepts_iff [OF closed]) (auto simp: deps_by_id_unknown dep_rel_deps_by_id d(1))
  then show ?thesis
    using marks.search_order by fastforce
qed

subsection \<open>What validation guarantees\<close>

lemma check_duplicates_code: "check_duplicates ids nds = Some e \<Longrightarrow> codeOf e = Some ''COORDINATOR_PLAN_INVALID''"
  by (induction ids nds rule: check_duplicates.induct) (auto split: if_splits)

lemma resolveWorker_code: "resolveWorker ws n = Inl e \<Longrightarrow> codeOf e = Some ''COORDINATOR_PLAN_INVALID''"
  by (auto simp: resolveWorker_def split: if_splits option.splits)

lemma check_node_code: "check_node ws ids n = Some e \<Longrightarrow> codeOf e = Some ''COORDINATOR_PLAN_INVALID''"
  by (auto simp: check_node_def resolveWorker_code split: option.splits sum.splits if_splits)

lemma check_nodes_code: "check_nodes ws ids nds = Some e \<Longrightarrow> codeOf e = Some ''COORDINATOR_PLAN_INVALID''"
  by (induction ws ids nds rule: check_nodes.induct) (auto simp: check_node_code split: option.splits)

lemma assertAcyclic_code: "assertAcyclic plan = Some e \<Longrightarrow> codeOf e = Some ''COORDINATOR_PLAN_INVALID''"
  by (auto simp: assertAcyclic_def split: option.splits sum.splits)

text \<open>C16. Validation accepts a plan exactly when it is a well-formed DAG (it has a node, ids are distinct,
dependencies are ids of the plan, every node resolves to a worker that does not require a context, and the
dependency relation is acyclic), and every rejection carries the plan-invalid code.\<close>

theorem validate_accepts_exactly_dags:
  "(validate ws plan = None \<longleftrightarrow> dag_wf ws plan)
   \<and> map_option codeOf (validate ws plan) \<in> {None, Some (Some ''COORDINATOR_PLAN_INVALID'')}"
proof
  show "validate ws plan = None \<longleftrightarrow> dag_wf ws plan" by (rule validate_None_iff)
  show "map_option codeOf (validate ws plan) \<in> {None, Some (Some ''COORDINATOR_PLAN_INVALID'')}"
    by (auto simp: validate_def check_duplicates_code check_nodes_code assertAcyclic_code split: option.splits)
qed

end
