(* ===== verification/DagRun.thy ===== *)
theory DagRun
  imports DagPlan
begin

text \<open>
  \<open>DagPlanInterpreter.interpret\<close>: the plan runs in waves.  A wave dispatches every node whose
  dependencies are done, records the finished and the suspended nodes, and asks the error strategy
  about each failed one; a replan splices a sub-plan in the place of the failed node.

  The workers and the error strategy are parameters.  A node is dispatched at most once per wave, so
  the reply of a worker is a function of the wave, the node, the worker and its task, whatever the order
  in which the concurrent workers of a wave finish.  The progress chunks handed to \<open>onPartial\<close> do not
  flow back into the run and are left out.
\<close>

subsection \<open>Data\<close>

datatype node_status = NDone | NFailed | NSkipped | NAwaiting

record node_result =
  nr_nodeId :: string
  nr_output :: string
  nr_status :: node_status
  nr_error :: "string option"
  nr_durationMs :: int

definition mk_result :: "string \<Rightarrow> string \<Rightarrow> node_status \<Rightarrow> string option \<Rightarrow> int \<Rightarrow> node_result" where
  "mk_result i out s e t =
     \<lparr>nr_nodeId = i, nr_output = out, nr_status = s, nr_error = e, nr_durationMs = t\<rparr>"

lemma mk_result_sel [simp]:
  "nr_nodeId (mk_result i out s e t) = i" "nr_output (mk_result i out s e t) = out"
  "nr_status (mk_result i out s e t) = s" "nr_error (mk_result i out s e t) = e"
  by (simp_all add: mk_result_def)

record ext_call =
  ec_id :: string
  ec_name :: string
  ec_arguments :: json

text \<open>What \<open>ISubAgent.run\<close> answers, as far as the interpreter reads it.\<close>

record sub_result =
  sr_output :: string
  sr_epicfail :: bool
  sr_awaiting :: bool
  sr_pending :: "ext_call list option"

datatype reaction = AbortNode | Replan dag_plan

datatype node_outcome =
    ODone dag_node string int
  | OAwaiting dag_node "ext_call list" int
  | OFailed dag_node thrown string int

record dag_env =
  de_inputText :: string
  de_workers :: workers
  de_maxReplans :: "int option"
  de_ancestor :: "context_path option"
  de_run :: "nat \<Rightarrow> dag_node \<Rightarrow> dag_worker \<Rightarrow> string \<Rightarrow> thrown + sub_result"
  de_took :: "nat \<Rightarrow> dag_node \<Rightarrow> int"
  de_onNodeFailure :: "nat \<Rightarrow> dag_node \<Rightarrow> thrown \<Rightarrow> string \<Rightarrow> int \<Rightarrow> thrown + reaction"

record dag_state =
  ds_plan :: dag_plan
  ds_results :: "string \<Rightarrow> node_result option"
  ds_done :: "string set"
  ds_order :: "string list"
  ds_pending :: "ext_call list"
  ds_seen :: "string set"
  ds_replansUsed :: int
  ds_wave :: nat

text \<open>
  \<open>results\<close> is an object literal, so \<open>id in results\<close> also holds for the names every object inherits.
  None of these is ever written: a node of such a name counts as recorded from the start.
\<close>

definition OBJECT_KEYS :: "string list" where
  "OBJECT_KEYS =
     [''constructor'', ''hasOwnProperty'', ''isPrototypeOf'', ''propertyIsEnumerable'', ''toLocaleString'',
      ''toString'', ''valueOf'', ''__proto__'', ''__defineGetter__'', ''__defineSetter__'',
      ''__lookupGetter__'', ''__lookupSetter__'']"

definition in_results :: "(string \<Rightarrow> node_result option) \<Rightarrow> string \<Rightarrow> bool" where
  "in_results results i \<longleftrightarrow> i \<in> set OBJECT_KEYS \<or> results i \<noteq> None"

subsection \<open>A wave\<close>

definition ready :: "dag_state \<Rightarrow> dag_node list" where
  "ready st =
     filter (\<lambda>n. \<not> in_results (ds_results st) (dn_id n) \<and> (\<forall>d \<in> set (deps_of n). d \<in> ds_done st))
       (dp_nodes (ds_plan st))"

definition dispatch_node :: "dag_env \<Rightarrow> dag_state \<Rightarrow> dag_node \<Rightarrow> node_outcome" where
  "dispatch_node env st n =
     (let depOutputs = (\<lambda>d. if d \<in> set (deps_of n) then map_option nr_output (ds_results st d) else None);
          task = composeNodeTask n (ds_plan st) (de_inputText env) depOutputs (de_ancestor env);
          took = de_took env (ds_wave st) n
      in case resolveWorker (de_workers env) n of
           Inl e \<Rightarrow> OFailed n e task took
         | Inr w \<Rightarrow>
             (case de_run env (ds_wave st) n w task of
                Inl e \<Rightarrow> OFailed n e task took
              | Inr res \<Rightarrow>
                  if sr_epicfail res then OFailed n (OtherError ''epicfail'' None) task took
                  else if sr_awaiting res then OAwaiting n (nullish (sr_pending res) []) took
                  else ODone n (sr_output res) took))"

fun outcome_node :: "node_outcome \<Rightarrow> dag_node" where
  "outcome_node (ODone n _ _) = n"
| "outcome_node (OAwaiting n _ _) = n"
| "outcome_node (OFailed n _ _ _) = n"

definition record_result :: "node_result \<Rightarrow> dag_state \<Rightarrow> dag_state" where
  "record_result r st = st\<lparr>ds_results := (ds_results st)(nr_nodeId r \<mapsto> r)\<rparr>"

fun record_done :: "node_outcome \<Rightarrow> dag_state \<Rightarrow> dag_state" where
  "record_done (ODone n out t) st =
     (let st1 = record_result (mk_result (dn_id n) out NDone None t) st in
      st1\<lparr>ds_done := insert (dn_id n) (ds_done st1), ds_order := ds_order st1 @ [dn_id n]\<rparr>)"
| "record_done _ st = st"

definition collectCall :: "ext_call \<Rightarrow> dag_state \<Rightarrow> dag_state" where
  "collectCall c st =
     (if ec_id c \<in> ds_seen st then st
      else st\<lparr>ds_seen := insert (ec_id c) (ds_seen st), ds_pending := ds_pending st @ [c]\<rparr>)"

definition collectExternal :: "ext_call list \<Rightarrow> dag_state \<Rightarrow> dag_state" where
  "collectExternal calls st = fold collectCall calls st"

fun record_awaiting :: "node_outcome \<Rightarrow> dag_state \<Rightarrow> dag_state" where
  "record_awaiting (OAwaiting n calls t) st =
     (let st1 = record_result (mk_result (dn_id n) [] NAwaiting None t) st
      in collectExternal calls (st1\<lparr>ds_order := ds_order st1 @ [dn_id n]\<rparr>))"
| "record_awaiting _ st = st"

definition max_replans :: "dag_env \<Rightarrow> int" where
  "max_replans env = nullish (de_maxReplans env) 4"

definition record_failed :: "dag_node \<Rightarrow> thrown \<Rightarrow> int \<Rightarrow> dag_state \<Rightarrow> dag_state" where
  "record_failed n e t st = record_result (mk_result (dn_id n) [] NFailed (Some (errMsg e)) t) st"

definition splice_state :: "string \<Rightarrow> dag_plan \<Rightarrow> dag_state \<Rightarrow> dag_state" where
  "splice_state i sub st =
     st\<lparr>ds_plan := spliceSubPlan (ds_plan st) i sub, ds_replansUsed := ds_replansUsed st + 1\<rparr>"

fun handle_failures :: "dag_env \<Rightarrow> node_outcome list \<Rightarrow> bool \<Rightarrow> dag_state \<Rightarrow> thrown + (bool \<times> dag_state)" where
  "handle_failures env [] spliced st = Inr (spliced, st)"
| "handle_failures env (OFailed n e task t # os) spliced st =
     (let remaining = max_replans env - ds_replansUsed st in
      case de_onNodeFailure env (ds_wave st) n e task remaining of
        Inl err \<Rightarrow> Inl err
      | Inr (Replan sub) \<Rightarrow>
          if remaining > 0 then
            (if length (dp_nodes sub) = 0
             then Inl (PlanInvalid (''COORDINATOR_PLAN_INVALID: replan for node '' @ quoted (dn_id n)
                    @ '' produced an empty sub-plan''))
             else handle_failures env os True (splice_state (dn_id n) sub st))
          else handle_failures env os spliced (record_failed n e t st)
      | Inr AbortNode \<Rightarrow> handle_failures env os spliced (record_failed n e t st))"
| "handle_failures env (_ # os) spliced st = handle_failures env os spliced st"

definition wave :: "dag_env \<Rightarrow> dag_state \<Rightarrow> thrown + dag_state" where
  "wave env st =
     (let outcomes = map (dispatch_node env st) (ready st);
          st1 = fold record_awaiting outcomes (fold record_done outcomes st)
      in case handle_failures env outcomes False st1 of
           Inl err \<Rightarrow> Inl err
         | Inr (spliced, st2) \<Rightarrow>
             (case (if spliced then validate (de_workers env) (ds_plan st2) else None) of
                Some err \<Rightarrow> Inl err
              | None \<Rightarrow> Inr (st2\<lparr>ds_wave := ds_wave st2 + 1\<rparr>)))"

subsection \<open>Frames\<close>

lemma record_result_frame [simp]:
  "ds_plan (record_result r st) = ds_plan st" "ds_done (record_result r st) = ds_done st"
  "ds_order (record_result r st) = ds_order st" "ds_pending (record_result r st) = ds_pending st"
  "ds_replansUsed (record_result r st) = ds_replansUsed st" "ds_wave (record_result r st) = ds_wave st"
  "ds_seen (record_result r st) = ds_seen st"
  "ds_results (record_result r st) = (ds_results st)(nr_nodeId r \<mapsto> r)"
  by (simp_all add: record_result_def)

lemma collectExternal_frame [simp]:
  "ds_plan (collectExternal cs st) = ds_plan st" "ds_done (collectExternal cs st) = ds_done st"
  "ds_order (collectExternal cs st) = ds_order st" "ds_results (collectExternal cs st) = ds_results st"
  "ds_replansUsed (collectExternal cs st) = ds_replansUsed st" "ds_wave (collectExternal cs st) = ds_wave st"
proof -
  have "ds_plan (fold collectCall cs st) = ds_plan st \<and> ds_done (fold collectCall cs st) = ds_done st
      \<and> ds_order (fold collectCall cs st) = ds_order st \<and> ds_results (fold collectCall cs st) = ds_results st
      \<and> ds_replansUsed (fold collectCall cs st) = ds_replansUsed st \<and> ds_wave (fold collectCall cs st) = ds_wave st"
    by (induction cs arbitrary: st) (auto simp: collectCall_def)
  then show
    "ds_plan (collectExternal cs st) = ds_plan st" "ds_done (collectExternal cs st) = ds_done st"
    "ds_order (collectExternal cs st) = ds_order st" "ds_results (collectExternal cs st) = ds_results st"
    "ds_replansUsed (collectExternal cs st) = ds_replansUsed st" "ds_wave (collectExternal cs st) = ds_wave st"
    by (simp_all add: collectExternal_def)
qed

lemma record_failed_frame [simp]:
  "ds_plan (record_failed n e t st) = ds_plan st" "ds_done (record_failed n e t st) = ds_done st"
  "ds_order (record_failed n e t st) = ds_order st" "ds_wave (record_failed n e t st) = ds_wave st"
  "ds_replansUsed (record_failed n e t st) = ds_replansUsed st" "ds_pending (record_failed n e t st) = ds_pending st"
  by (simp_all add: record_failed_def)

lemma dom_record_failed [simp]:
  "dom (ds_results (record_failed n e t st)) = insert (dn_id n) (dom (ds_results st))"
  by (simp add: record_failed_def)

lemma splice_state_frame [simp]:
  "ds_results (splice_state i sub st) = ds_results st" "ds_done (splice_state i sub st) = ds_done st"
  "ds_order (splice_state i sub st) = ds_order st" "ds_wave (splice_state i sub st) = ds_wave st"
  "ds_replansUsed (splice_state i sub st) = ds_replansUsed st + 1" "ds_pending (splice_state i sub st) = ds_pending st"
  "ds_plan (splice_state i sub st) = spliceSubPlan (ds_plan st) i sub"
  by (simp_all add: splice_state_def)

text \<open>The ids of the outcomes of each kind, in the order of the wave.\<close>

definition done_ids :: "node_outcome list \<Rightarrow> string list" where
  "done_ids os = concat (map (\<lambda>oc. case oc of ODone n _ _ \<Rightarrow> [dn_id n] | _ \<Rightarrow> []) os)"

definition awaiting_ids :: "node_outcome list \<Rightarrow> string list" where
  "awaiting_ids os = concat (map (\<lambda>oc. case oc of OAwaiting n _ _ \<Rightarrow> [dn_id n] | _ \<Rightarrow> []) os)"

definition failed_ids :: "node_outcome list \<Rightarrow> string list" where
  "failed_ids os = concat (map (\<lambda>oc. case oc of OFailed n _ _ _ \<Rightarrow> [dn_id n] | _ \<Rightarrow> []) os)"

lemmas outcome_ids = done_ids_def awaiting_ids_def failed_ids_def

lemma outcome_ids_simps [simp]:
  "done_ids [] = []" "awaiting_ids [] = []" "failed_ids [] = []"
  "done_ids (ODone n x t # os) = dn_id n # done_ids os"
  "done_ids (OAwaiting n c t # os) = done_ids os" "done_ids (OFailed n e k t # os) = done_ids os"
  "awaiting_ids (ODone n x t # os) = awaiting_ids os"
  "awaiting_ids (OAwaiting n c t # os) = dn_id n # awaiting_ids os"
  "awaiting_ids (OFailed n e k t # os) = awaiting_ids os"
  "failed_ids (ODone n x t # os) = failed_ids os" "failed_ids (OAwaiting n c t # os) = failed_ids os"
  "failed_ids (OFailed n e k t # os) = dn_id n # failed_ids os"
  by (simp_all add: outcome_ids)

lemma outcome_ids_cover:
  "dn_id ` outcome_node ` set os = set (done_ids os) \<union> set (awaiting_ids os) \<union> set (failed_ids os)"
proof (induction os)
  case (Cons oc os)
  then show ?case by (cases oc) auto
qed simp

lemma fold_record_done:
  "ds_plan (fold record_done os st) = ds_plan st \<and> ds_wave (fold record_done os st) = ds_wave st
   \<and> ds_replansUsed (fold record_done os st) = ds_replansUsed st
   \<and> ds_pending (fold record_done os st) = ds_pending st
   \<and> ds_order (fold record_done os st) = ds_order st @ done_ids os
   \<and> ds_done (fold record_done os st) = ds_done st \<union> set (done_ids os)
   \<and> dom (ds_results (fold record_done os st)) = dom (ds_results st) \<union> set (done_ids os)"
proof (induction os arbitrary: st)
  case (Cons oc os)
  then show ?case by (cases oc) (auto simp: Let_def)
qed simp

lemma fold_record_awaiting:
  "ds_plan (fold record_awaiting os st) = ds_plan st \<and> ds_wave (fold record_awaiting os st) = ds_wave st
   \<and> ds_replansUsed (fold record_awaiting os st) = ds_replansUsed st
   \<and> ds_done (fold record_awaiting os st) = ds_done st
   \<and> ds_order (fold record_awaiting os st) = ds_order st @ awaiting_ids os
   \<and> dom (ds_results (fold record_awaiting os st)) = dom (ds_results st) \<union> set (awaiting_ids os)"
proof (induction os arbitrary: st)
  case (Cons oc os)
  then show ?case by (cases oc) (auto simp: Let_def)
qed simp

text \<open>One wave without its failures.\<close>

definition recorded :: "dag_env \<Rightarrow> dag_state \<Rightarrow> dag_state" where
  "recorded env st =
     (let outcomes = map (dispatch_node env st) (ready st)
      in fold record_awaiting outcomes (fold record_done outcomes st))"

abbreviation outcomes_of :: "dag_env \<Rightarrow> dag_state \<Rightarrow> node_outcome list" where
  "outcomes_of env st \<equiv> map (dispatch_node env st) (ready st)"

lemma outcome_node_dispatch [simp]: "outcome_node (dispatch_node env st n) = n"
  by (auto simp: dispatch_node_def Let_def split: sum.splits)

lemma outcomes_cover:
  "dn_id ` set (ready st) = set (done_ids (outcomes_of env st)) \<union> set (awaiting_ids (outcomes_of env st))
     \<union> set (failed_ids (outcomes_of env st))"
  by (simp add: outcome_ids_cover [symmetric] image_image)

lemma recorded_frame:
  "ds_plan (recorded env st) = ds_plan st" "ds_wave (recorded env st) = ds_wave st"
  "ds_replansUsed (recorded env st) = ds_replansUsed st"
  "ds_done (recorded env st) = ds_done st \<union> set (done_ids (outcomes_of env st))"
  "ds_order (recorded env st) = ds_order st @ done_ids (outcomes_of env st) @ awaiting_ids (outcomes_of env st)"
  "dom (ds_results (recorded env st)) =
     dom (ds_results st) \<union> set (done_ids (outcomes_of env st)) \<union> set (awaiting_ids (outcomes_of env st))"
  by (simp_all add: recorded_def Let_def fold_record_done fold_record_awaiting)

lemma wave_recorded:
  "wave env st =
     (case handle_failures env (outcomes_of env st) False (recorded env st) of
        Inl err \<Rightarrow> Inl err
      | Inr (spliced, st2) \<Rightarrow>
          (case (if spliced then validate (de_workers env) (ds_plan st2) else None) of
             Some err \<Rightarrow> Inl err
           | None \<Rightarrow> Inr (st2\<lparr>ds_wave := ds_wave st2 + 1\<rparr>)))"
  by (simp add: wave_def recorded_def Let_def)

text \<open>What the failures of a wave do to the state: each is spliced or recorded.\<close>

lemma handle_failures_Cons:
  assumes "handle_failures env (oc # os) sp st = Inr r"
  obtains (skip) "failed_ids (oc # os) = failed_ids os" "\<And>n e k t. oc \<noteq> OFailed n e k t"
      "handle_failures env os sp st = Inr r"
  | (splice) n e k t sub where "oc = OFailed n e k t" "ds_replansUsed st < max_replans env" "dp_nodes sub \<noteq> []"
      "handle_failures env os True (splice_state (dn_id n) sub st) = Inr r"
  | (abort) n e k t where "oc = OFailed n e k t" "handle_failures env os sp (record_failed n e t st) = Inr r"
proof (cases oc)
  case (OFailed n e k t)
  with assms show thesis
    by (auto simp: Let_def split: sum.splits reaction.splits if_splits intro: splice abort)
qed (use assms in \<open>auto intro: skip\<close>)

lemma handle_failures_frame:
  "handle_failures env os sp st = Inr (sp', st') \<Longrightarrow>
     ds_done st' = ds_done st \<and> ds_order st' = ds_order st \<and> ds_wave st' = ds_wave st
     \<and> dom (ds_results st) \<subseteq> dom (ds_results st')
     \<and> dom (ds_results st') \<subseteq> dom (ds_results st) \<union> set (failed_ids os)
     \<and> ds_replansUsed st \<le> ds_replansUsed st'
     \<and> (sp \<longrightarrow> sp')
     \<and> (sp' \<and> \<not> sp \<longrightarrow> ds_replansUsed st < ds_replansUsed st' \<and> ds_replansUsed st < max_replans env)
     \<and> (\<not> sp' \<longrightarrow> ds_plan st' = ds_plan st \<and> ds_replansUsed st' = ds_replansUsed st
            \<and> dom (ds_results st') = dom (ds_results st) \<union> set (failed_ids os))"
proof (induction os arbitrary: sp st)
  case (Cons oc os)
  from Cons.prems show ?case
  proof (cases rule: handle_failures_Cons)
    case skip
    with Cons.IH [OF skip(3)] show ?thesis by simp
  next
    case (splice n e k t sub)
    with Cons.IH [OF splice(4)] show ?thesis by auto
  next
    case (abort n e k t)
    with Cons.IH [OF abort(2)] show ?thesis by auto
  qed
qed simp

subsection \<open>The loop\<close>

text \<open>The nodes of the plan that are not recorded.\<close>

definition unrecorded :: "dag_state \<Rightarrow> dag_node list" where
  "unrecorded st = filter (\<lambda>n. \<not> in_results (ds_results st) (dn_id n)) (dp_nodes (ds_plan st))"

lemma in_results_mono: "dom r \<subseteq> dom r' \<Longrightarrow> in_results r i \<Longrightarrow> in_results r' i"
  by (auto simp: in_results_def dom_def subset_iff)

lemma wave_progress:
  assumes "ready st \<noteq> []" "wave env st = Inr st'"
  shows "nat (max_replans env - ds_replansUsed st') < nat (max_replans env - ds_replansUsed st)
     \<or> ds_replansUsed st' = ds_replansUsed st \<and> length (unrecorded st') < length (unrecorded st)"
proof -
  from assms(2) obtain sp st2 where st2:
      "handle_failures env (outcomes_of env st) False (recorded env st) = Inr (sp, st2)"
      "st' = st2\<lparr>ds_wave := ds_wave st2 + 1\<rparr>"
    by (auto simp: wave_recorded split: sum.splits option.splits)
  note fr = handle_failures_frame [OF st2(1), unfolded recorded_frame]
  show ?thesis
  proof (cases sp)
    case True
    then show ?thesis using fr st2(2) by auto
  next
    case False
    let ?P = "\<lambda>r n. \<not> in_results r (dn_id n)"
    have dom': "dom (ds_results st') = dom (ds_results st) \<union> dn_id ` set (ready st)"
      using fr False st2(2) outcomes_cover [of st env] by auto
    have plan: "ds_plan st' = ds_plan st" using fr False st2(2) by simp
    have "unrecorded st' = filter (?P (ds_results st')) (unrecorded st)"
      unfolding unrecorded_def plan filter_filter
      by (rule filter_cong) (use in_results_mono [of "ds_results st" "ds_results st'"] dom' in auto)
    moreover obtain n where n: "n \<in> set (ready st)"
      using assms(1) by (cases "ready st") auto
    then have "n \<in> set (unrecorded st)" by (auto simp: ready_def unrecorded_def)
    moreover have "dn_id n \<in> dom (ds_results st')" using n dom' by blast
    then have "\<not> ?P (ds_results st') n" by (auto simp: in_results_def)
    ultimately have "length (unrecorded st') < length (unrecorded st)"
      using length_filter_less [of n "unrecorded st" "?P (ds_results st')"] by simp
    then show ?thesis using fr False st2(2) by simp
  qed
qed

function interpret_loop :: "dag_env \<Rightarrow> dag_state \<Rightarrow> thrown + dag_state" where
  "interpret_loop env st =
     (if length (ready st) = 0 then Inr st
      else (case wave env st of Inl err \<Rightarrow> Inl err | Inr st' \<Rightarrow> interpret_loop env st'))"
  by pat_completeness auto
termination
  by (relation "measures [\<lambda>(env, st). nat (max_replans env - ds_replansUsed st), \<lambda>(env, st). length (unrecorded st)]")
     (auto dest!: wave_progress)

declare interpret_loop.simps [simp del]

subsection \<open>The result\<close>

record interpret_result =
  ir_nodeResults :: "string \<Rightarrow> node_result option"
  ir_ok :: bool
  ir_error :: "string option"
  ir_output :: string
  ir_failedNodeId :: "string option"
  ir_executedPlan :: dag_plan
  ir_executionOrder :: "string list"
  ir_pending :: "ext_call list option"

definition status_of :: "(string \<Rightarrow> node_result option) \<Rightarrow> string \<Rightarrow> node_status option" where
  "status_of results i = map_option nr_status (results i)"

definition output_of :: "(string \<Rightarrow> node_result option) \<Rightarrow> string \<Rightarrow> string" where
  "output_of results i = (case results i of None \<Rightarrow> [] | Some r \<Rightarrow> nr_output r)"

definition skip_node :: "dag_node \<Rightarrow> (string \<Rightarrow> node_result option) \<Rightarrow> (string \<Rightarrow> node_result option)" where
  "skip_node n results =
     (if in_results results (dn_id n) then results
      else results(dn_id n \<mapsto> mk_result (dn_id n) [] NSkipped None 0))"

definition terminals :: "dag_plan \<Rightarrow> dag_node list" where
  "terminals plan = filter (\<lambda>n. dn_id n \<notin> set (concat (map deps_of (dp_nodes plan)))) (dp_nodes plan)"

definition settle :: "dag_state \<Rightarrow> interpret_result" where
  "settle st =
     (let nodes = dp_nodes (ds_plan st);
          results = fold skip_node nodes (ds_results st);
          status = (\<lambda>n. status_of results (dn_id n));
          base = \<lparr>ir_nodeResults = results, ir_ok = True, ir_error = None, ir_output = [],
                  ir_failedNodeId = None, ir_executedPlan = ds_plan st, ir_executionOrder = ds_order st,
                  ir_pending = None\<rparr>
      in if list_ex (\<lambda>n. status n = Some NAwaiting) nodes \<and> \<not> list_ex (\<lambda>n. status n = Some NFailed) nodes
         then base\<lparr>ir_pending := Some (ds_pending st)\<rparr>
         else if filter (\<lambda>n. status n \<noteq> Some NDone) nodes \<noteq> [] then
           (let firstFailed = find (\<lambda>n. status n = Some NFailed) nodes in
            base\<lparr>ir_ok := False,
                 ir_error := Some (case firstFailed of
                     None \<Rightarrow> ''plan did not complete''
                   | Some f \<Rightarrow> ''node '' @ quoted (dn_id f) @ '' failed: ''
                       @ nullish (Option.bind (results (dn_id f)) nr_error) ''unknown''),
                 ir_failedNodeId := map_option dn_id firstFailed\<rparr>)
         else base\<lparr>ir_output := join (newline @ newline)
                (map (\<lambda>n. output_of results (dn_id n)) (terminals (ds_plan st)))\<rparr>)"

definition initial_state :: "dag_plan \<Rightarrow> dag_state" where
  "initial_state plan =
     \<lparr>ds_plan = plan, ds_results = Map.empty, ds_done = {}, ds_order = [], ds_pending = [], ds_seen = {},
      ds_replansUsed = 0, ds_wave = 0\<rparr>"

definition interpret_dag :: "dag_env \<Rightarrow> dag_plan \<Rightarrow> thrown + interpret_result" where
  "interpret_dag env plan =
     (case validate (de_workers env) plan of
        Some err \<Rightarrow> Inl err
      | None \<Rightarrow>
          (case interpret_loop env (initial_state plan) of
             Inl err \<Rightarrow> Inl err
           | Inr st \<Rightarrow> Inr (settle st)))"

end
