(* ===== verification/DagSpec.thy ===== *)
theory DagSpec
  imports DagRun
begin

text \<open>
  What a run of the DAG interpreter guarantees.  \<open>run_inv\<close> is the invariant of its loop: the plan stays
  a well-formed DAG across splices, the results agree with the set of done nodes and the execution order,
  the order respects the dependencies, and every finished node was given exactly the outputs of its
  dependencies.
\<close>

subsection \<open>Status of nodes after a wave\<close>

lemma status_of_upd [simp]:
  "status_of (r(i \<mapsto> x)) j = (if j = i then Some (nr_status x) else status_of r j)"
  by (simp add: status_of_def)

lemma status_None_iff: "status_of r i = None \<longleftrightarrow> i \<notin> dom r"
  by (auto simp: status_of_def)

lemma status_record_done:
  "status_of (ds_results (fold record_done os st)) i =
     (if i \<in> set (done_ids os) then Some NDone else status_of (ds_results st) i)"
proof (induction os arbitrary: st)
  case (Cons oc os)
  then show ?case by (cases oc) (auto simp: Let_def)
qed simp

lemma status_record_awaiting:
  "status_of (ds_results (fold record_awaiting os st)) i =
     (if i \<in> set (awaiting_ids os) then Some NAwaiting else status_of (ds_results st) i)"
proof (induction os arbitrary: st)
  case (Cons oc os)
  then show ?case by (cases oc) (auto simp: Let_def)
qed simp

lemma status_recorded:
  "status_of (ds_results (recorded env st)) i =
     (if i \<in> set (awaiting_ids (outcomes_of env st)) then Some NAwaiting
      else if i \<in> set (done_ids (outcomes_of env st)) then Some NDone
      else status_of (ds_results st) i)"
  by (simp add: recorded_def Let_def status_record_done status_record_awaiting)

lemma results_record_done_other:
  "i \<notin> set (done_ids os) \<Longrightarrow> ds_results (fold record_done os st) i = ds_results st i"
proof (induction os arbitrary: st)
  case (Cons oc os)
  then show ?case by (cases oc) (auto simp: Let_def)
qed simp

lemma results_record_awaiting_other:
  "i \<notin> set (awaiting_ids os) \<Longrightarrow> ds_results (fold record_awaiting os st) i = ds_results st i"
proof (induction os arbitrary: st)
  case (Cons oc os)
  then show ?case by (cases oc) (auto simp: Let_def)
qed simp

lemma outcome_ids_mset:
  "mset (done_ids os @ awaiting_ids os @ failed_ids os) = mset (map (dn_id \<circ> outcome_node) os)"
proof (induction os)
  case (Cons oc os)
  then show ?case by (cases oc) auto
qed simp

lemma outcomes_distinct:
  assumes "distinct (ids_of (ds_plan st))"
  shows "distinct (done_ids (outcomes_of env st) @ awaiting_ids (outcomes_of env st) @ failed_ids (outcomes_of env st))"
proof -
  have "map (dn_id \<circ> outcome_node) (outcomes_of env st) = map dn_id (ready st)" by simp
  moreover have "distinct (map dn_id (ready st))"
    using assms by (simp add: ready_def distinct_map_filter)
  ultimately show ?thesis
    using outcome_ids_mset [of "outcomes_of env st"] mset_eq_imp_distinct_iff by metis
qed

lemma ready_unrecorded:
  "n \<in> set (ready st) \<Longrightarrow> n \<in> set (dp_nodes (ds_plan st)) \<and> dn_id n \<notin> dom (ds_results st)
     \<and> dn_id n \<notin> set OBJECT_KEYS \<and> set (deps_of n) \<subseteq> ds_done st"
  by (auto simp: ready_def in_results_def)

lemma outcome_ids_ready:
  "i \<in> set (done_ids (outcomes_of env st)) \<union> set (awaiting_ids (outcomes_of env st)) \<union> set (failed_ids (outcomes_of env st))
     \<longleftrightarrow> (\<exists>n \<in> set (ready st). dn_id n = i)"
  unfolding outcomes_cover [symmetric] by auto

text \<open>The reply a done node was recorded with.\<close>

lemma done_ids_outcome: "i \<in> set (done_ids os) \<Longrightarrow> \<exists>n x t. ODone n x t \<in> set os \<and> dn_id n = i"
  by (induction os) (auto simp: done_ids_def split: node_outcome.splits)

lemma done_reply:
  assumes "i \<in> set (done_ids (outcomes_of env st))"
  shows "\<exists>n \<in> set (ready st). dn_id n = i \<and> (\<exists>x t. dispatch_node env st n = ODone n x t)"
proof -
  obtain m n x t where "m \<in> set (ready st)" "dispatch_node env st m = ODone n x t" "dn_id n = i"
    using done_ids_outcome [OF assms] by (auto simp: image_iff) (metis)
  moreover have "m = n"
    using outcome_node_dispatch [of env st m] calculation(2) by simp
  ultimately show ?thesis by blast
qed

lemma record_done_output:
  assumes "distinct (done_ids os)" "ODone n x t \<in> set os"
  shows "map_option nr_output (ds_results (fold record_done os st) (dn_id n)) = Some x"
  using assms
proof (induction os arbitrary: st)
  case (Cons oc os)
  show ?case
  proof (cases "oc = ODone n x t")
    case True
    with Cons.prems have "dn_id n \<notin> set (done_ids os)" by simp
    with True show ?thesis
      by (simp add: results_record_done_other Let_def)
  next
    case False
    with Cons show ?thesis by (cases oc) auto
  qed
qed simp

subsection \<open>The invariant\<close>

text \<open>
  A done node carries what its worker answered to the task composed from the plan's objective, the run's
  input and the outputs of the node's own dependencies.
\<close>

definition dep_outputs :: "(string \<Rightarrow> node_result option) \<Rightarrow> dag_node \<Rightarrow> string \<Rightarrow> string option" where
  "dep_outputs results n = (\<lambda>d. if d \<in> set (deps_of n) then map_option nr_output (results d) else None)"

definition justified :: "dag_env \<Rightarrow> dag_plan \<Rightarrow> (string \<Rightarrow> node_result option) \<Rightarrow> dag_node \<Rightarrow> bool" where
  "justified env plan results n \<longleftrightarrow>
     (\<exists>k w res.
        resolveWorker (de_workers env) n = Inr w
        \<and> de_run env k n w (composeNodeTask n plan (de_inputText env) (dep_outputs results n) (de_ancestor env)) = Inr res
        \<and> \<not> sr_epicfail res \<and> \<not> sr_awaiting res
        \<and> map_option nr_output (results (dn_id n)) = Some (sr_output res))"

definition run_inv :: "dag_env \<Rightarrow> dag_state \<Rightarrow> bool" where
  "run_inv env st \<longleftrightarrow>
     dag_wf (de_workers env) (ds_plan st)
     \<and> (\<forall>i. i \<in> ds_done st \<longleftrightarrow> status_of (ds_results st) i = Some NDone)
     \<and> distinct (ds_order st)
     \<and> (\<forall>i. i \<in> set (ds_order st) \<longleftrightarrow> status_of (ds_results st) i \<in> {Some NDone, Some NAwaiting})
     \<and> set (ds_order st) \<subseteq> set (ids_of (ds_plan st))
     \<and> set OBJECT_KEYS \<inter> dom (ds_results st) = {}
     \<and> (\<forall>k < length (ds_order st). \<forall>n \<in> set (dp_nodes (ds_plan st)).
          dn_id n = ds_order st ! k \<longrightarrow> set (deps_of n) \<subseteq> ds_done st \<inter> set (take k (ds_order st)))
     \<and> (\<forall>n \<in> set (dp_nodes (ds_plan st)). dn_id n \<in> ds_done st \<longrightarrow> justified env (ds_plan st) (ds_results st) n)
     \<and> (\<forall>i. status_of (ds_results st) i \<noteq> Some NSkipped)"

lemma composeNodeTask_cong:
  assumes "dp_objective p = dp_objective q" "\<And>d. d \<in> set (deps_of n) \<Longrightarrow> f d = g d"
  shows "composeNodeTask n p inp f anc = composeNodeTask n q inp g anc"
proof -
  have m: "map (\<lambda>d. ''Input from '' @ d @ '':'' @ fenced (nullish (f d) [])) (deps_of n)
      = map (\<lambda>d. ''Input from '' @ d @ '':'' @ fenced (nullish (g d) [])) (deps_of n)"
    using assms(2) by simp
  have a: "ancestor_parts p = ancestor_parts q"
    using assms(1) by (simp add: ancestor_parts_def fun_eq_iff)
  show ?thesis
    by (simp only: composeNodeTask_def Let_def assms(1) m a)
qed

lemma justified_cong:
  assumes "justified env p r n" "dp_objective p = dp_objective q"
    and "r' (dn_id n) = r (dn_id n)" "\<And>d. d \<in> set (deps_of n) \<Longrightarrow> r' d = r d"
  shows "justified env q r' n"
proof -
  have "composeNodeTask n q (de_inputText env) (dep_outputs r' n) (de_ancestor env)
      = composeNodeTask n p (de_inputText env) (dep_outputs r n) (de_ancestor env)"
    by (rule composeNodeTask_cong) (use assms in \<open>auto simp: dep_outputs_def\<close>)
  with assms(1,3) show ?thesis by (simp add: justified_def)
qed

lemma done_justified:
  assumes "dispatch_node env st n = ODone n x t"
    and "map_option nr_output (r (dn_id n)) = Some x" "\<And>d. d \<in> set (deps_of n) \<Longrightarrow> r d = ds_results st d"
  shows "justified env (ds_plan st) r n"
proof -
  let ?task = "composeNodeTask n (ds_plan st) (de_inputText env)"
  have eq: "dep_outputs r n = (\<lambda>d. if d \<in> set (deps_of n) then map_option nr_output (ds_results st d) else None)"
    using assms(3) by (auto simp: dep_outputs_def)
  from assms(1) obtain w res where "resolveWorker (de_workers env) n = Inr w"
      "de_run env (ds_wave st) n w (?task (dep_outputs r n) (de_ancestor env)) = Inr res"
      "\<not> sr_epicfail res" "\<not> sr_awaiting res" "sr_output res = x"
    by (auto simp: dispatch_node_def Let_def eq split: sum.splits if_splits)
  with assms(2) show ?thesis
    unfolding justified_def by (intro exI [of _ "ds_wave st"] exI [of _ w] exI [of _ res]) simp
qed

subsection \<open>Preservation\<close>

lemma run_invD:
  assumes "run_inv env st"
  shows "dag_wf (de_workers env) (ds_plan st)" "distinct (ids_of (ds_plan st))"
    "\<And>i. i \<in> ds_done st \<longleftrightarrow> status_of (ds_results st) i = Some NDone"
    "distinct (ds_order st)"
    "\<And>i. i \<in> set (ds_order st) \<longleftrightarrow> status_of (ds_results st) i \<in> {Some NDone, Some NAwaiting}"
    "set (ds_order st) \<subseteq> set (ids_of (ds_plan st))"
    "set OBJECT_KEYS \<inter> dom (ds_results st) = {}"
    "\<And>k n. k < length (ds_order st) \<Longrightarrow> n \<in> set (dp_nodes (ds_plan st)) \<Longrightarrow> dn_id n = ds_order st ! k
       \<Longrightarrow> set (deps_of n) \<subseteq> ds_done st \<inter> set (take k (ds_order st))"
    "\<And>n. n \<in> set (dp_nodes (ds_plan st)) \<Longrightarrow> dn_id n \<in> ds_done st \<Longrightarrow> justified env (ds_plan st) (ds_results st) n"
    "\<And>i. status_of (ds_results st) i \<noteq> Some NSkipped"
  using assms unfolding run_inv_def dag_wf_def by blast+

lemma run_inv_done_order: "run_inv env st \<Longrightarrow> ds_done st \<subseteq> set (ds_order st)"
  using run_invD(3,5) by blast

lemma run_inv_deps_done:
  assumes "run_inv env st" "n \<in> set (dp_nodes (ds_plan st))" "dn_id n \<in> set (ds_order st)"
  shows "set (deps_of n) \<subseteq> ds_done st"
  using run_invD(8) [OF assms(1) _ assms(2)] assms(3) by (metis in_set_conv_nth le_inf_iff)

lemma recorded_results_other:
  "i \<notin> set (done_ids (outcomes_of env st)) \<Longrightarrow> i \<notin> set (awaiting_ids (outcomes_of env st))
     \<Longrightarrow> ds_results (recorded env st) i = ds_results st i"
  by (simp add: recorded_def Let_def results_record_done_other results_record_awaiting_other)

lemma wave_ids_fresh:
  assumes "i \<in> set (done_ids (outcomes_of env st)) \<union> set (awaiting_ids (outcomes_of env st))"
  shows "i \<notin> dom (ds_results st)" "i \<notin> set OBJECT_KEYS" "i \<in> set (ids_of (ds_plan st))"
  using assms outcome_ids_ready [of i env st] ready_unrecorded by fastforce+

lemma wave_ids_new:
  assumes "run_inv env st" "i \<in> set (done_ids (outcomes_of env st)) \<union> set (awaiting_ids (outcomes_of env st))"
  shows "i \<notin> set (ds_order st)" "i \<notin> ds_done st"
  using wave_ids_fresh(1) [OF assms(2)] run_invD(3,5) [OF assms(1)] by (auto simp: status_of_def)

lemma node_of_id:
  assumes "run_inv env st" "n \<in> set (dp_nodes (ds_plan st))" "m \<in> set (dp_nodes (ds_plan st))" "dn_id m = dn_id n"
  shows "m = n"
  using run_invD(2) [OF assms(1)] assms(2-4) by (simp add: distinct_map inj_on_def)

lemma wave_deps_done:
  assumes inv: "run_inv env st" and n: "n \<in> set (dp_nodes (ds_plan st))"
    and i: "dn_id n \<in> set (done_ids (outcomes_of env st)) \<union> set (awaiting_ids (outcomes_of env st))"
  shows "set (deps_of n) \<subseteq> ds_done st"
proof -
  obtain m where m: "m \<in> set (ready st)" "dn_id m = dn_id n"
    using i outcome_ids_ready [of "dn_id n" env st] by blast
  with ready_unrecorded [of m st] n inv have "m = n"
    by (blast intro: node_of_id)
  with ready_unrecorded [OF m(1)] show ?thesis by blast
qed

lemma recorded_same: "i \<in> dom (ds_results st) \<Longrightarrow> ds_results (recorded env st) i = ds_results st i"
  by (rule recorded_results_other; rule notI) (use wave_ids_fresh(1) in blast)+

lemma recorded_order:
  assumes inv: "run_inv env st" and n: "n \<in> set (dp_nodes (ds_plan st))"
    and k: "k < length (ds_order (recorded env st))" "dn_id n = ds_order (recorded env st) ! k"
  shows "set (deps_of n) \<subseteq> ds_done (recorded env st) \<inter> set (take k (ds_order (recorded env st)))"
proof (cases "k < length (ds_order st)")
  case True
  with run_invD(8) [OF inv True n] k(2) show ?thesis
    by (auto simp: recorded_frame nth_append)
next
  case False
  let ?new = "done_ids (outcomes_of env st) @ awaiting_ids (outcomes_of env st)"
  have "dn_id n \<in> set ?new"
    using False k nth_mem [of "k - length (ds_order st)" ?new] by (simp add: recorded_frame nth_append)
  then have "set (deps_of n) \<subseteq> ds_done st"
    by (intro wave_deps_done [OF inv n]) auto
  with run_inv_done_order [OF inv] False show ?thesis
    by (auto simp: recorded_frame)
qed

lemma recorded_new_justified:
  assumes inv: "run_inv env st" and n: "n \<in> set (dp_nodes (ds_plan st))"
    and d: "dn_id n \<in> set (done_ids (outcomes_of env st))"
  shows "justified env (ds_plan st) (ds_results (recorded env st)) n"
proof -
  let ?os = "outcomes_of env st"
  have dist: "distinct (done_ids ?os @ awaiting_ids ?os @ failed_ids ?os)"
    by (rule outcomes_distinct [OF run_invD(2) [OF inv]])
  obtain m x t where m: "m \<in> set (ready st)" "dn_id m = dn_id n" "dispatch_node env st m = ODone m x t"
    using done_reply [OF d] outcome_node_dispatch by (metis outcome_node.simps(1))
  with ready_unrecorded [of m st] n inv have "m = n"
    by (blast intro: node_of_id)
  note m = m(1,3) [unfolded this]
  have "ODone n x t \<in> set ?os"
    using m by (metis image_eqI set_map)
  then have "map_option nr_output (ds_results (fold record_done ?os st) (dn_id n)) = Some x"
    using dist by (intro record_done_output) auto
  moreover have "dn_id n \<notin> set (awaiting_ids ?os)"
    using dist d by auto
  ultimately have "map_option nr_output (ds_results (recorded env st) (dn_id n)) = Some x"
    by (simp add: recorded_def Let_def results_record_awaiting_other)
  moreover have "set (deps_of n) \<subseteq> dom (ds_results st)"
    using ready_unrecorded [OF m(1)] run_invD(3) [OF inv] by (auto simp: status_of_def)
  ultimately show ?thesis
    by (intro done_justified [OF m(2)]) (use recorded_same in blast)+
qed

lemma recorded_old_justified:
  assumes inv: "run_inv env st" and n: "n \<in> set (dp_nodes (ds_plan st))" and d: "dn_id n \<in> ds_done st"
  shows "justified env (ds_plan st) (ds_results (recorded env st)) n"
proof -
  have "set (deps_of n) \<subseteq> ds_done st"
    using run_inv_deps_done [OF inv n] d run_inv_done_order [OF inv] by blast
  with d run_invD(3) [OF inv] have "insert (dn_id n) (set (deps_of n)) \<subseteq> dom (ds_results st)"
    by (auto simp: status_of_def)
  then show ?thesis
    by (intro justified_cong [OF run_invD(9) [OF inv n d] refl]) (use recorded_same in blast)+
qed

lemma recorded_justified:
  assumes "run_inv env st" "n \<in> set (dp_nodes (ds_plan st))" "dn_id n \<in> ds_done (recorded env st)"
  shows "justified env (ds_plan st) (ds_results (recorded env st)) n"
  using assms(3) recorded_new_justified [OF assms(1,2)] recorded_old_justified [OF assms(1,2)]
  by (auto simp: recorded_frame)

lemma recorded_inv:
  assumes inv: "run_inv env st"
  shows "run_inv env (recorded env st)"
proof -
  let ?os = "outcomes_of env st"
  note I = run_invD [OF inv]
  have dist: "distinct (done_ids ?os @ awaiting_ids ?os @ failed_ids ?os)"
    by (rule outcomes_distinct [OF I(2)])
  have "i \<in> ds_done (recorded env st) \<longleftrightarrow> status_of (ds_results (recorded env st)) i = Some NDone" for i
    using I(3) [of i] wave_ids_new [OF inv, of i] dist by (auto simp: status_recorded recorded_frame)
  moreover have "distinct (ds_order (recorded env st))"
    using I(4) dist wave_ids_new [OF inv] by (auto simp: recorded_frame)
  moreover have "i \<in> set (ds_order (recorded env st))
      \<longleftrightarrow> status_of (ds_results (recorded env st)) i \<in> {Some NDone, Some NAwaiting}" for i
    using I(5) [of i] by (auto simp: status_recorded recorded_frame)
  moreover have "set (ds_order (recorded env st)) \<subseteq> set (ids_of (ds_plan st))"
    using I(6) wave_ids_fresh(3) by (auto simp: recorded_frame simp del: set_map)
  moreover have "set OBJECT_KEYS \<inter> dom (ds_results (recorded env st)) = {}"
    using I(7) wave_ids_fresh(2) unfolding recorded_frame by blast
  moreover have "status_of (ds_results (recorded env st)) i \<noteq> Some NSkipped" for i
    using I(10) [of i] by (simp add: status_recorded)
  ultimately show ?thesis
    using I(1) recorded_order [OF inv] recorded_justified [OF inv]
    unfolding run_inv_def recorded_frame(1) by blast
qed

text \<open>The failures of a wave: a splice leaves every executed node of the plan as it is.\<close>

lemma objective_splice [simp]: "dp_objective (spliceSubPlan p i sub) = dp_objective p"
  by (simp add: spliceSubPlan_def split: option.splits)

lemma splice_keeps:
  assumes "n \<in> set (dp_nodes p)" "dn_id n \<noteq> i" "i \<notin> set (deps_of n)"
  shows "n \<in> set (dp_nodes (spliceSubPlan p i sub))"
proof -
  have "rewire i ts n = n" for ts
    using assms(3) by (simp add: rewire_def)
  then show ?thesis
    using assms(1,2) by (auto simp: spliceSubPlan_def image_iff split: option.splits)
qed

definition kept_by :: "dag_state \<Rightarrow> dag_state \<Rightarrow> bool" where
  "kept_by st st' \<longleftrightarrow>
     dp_objective (ds_plan st') = dp_objective (ds_plan st)
     \<and> (\<forall>n \<in> set (dp_nodes (ds_plan st)). dn_id n \<in> set (ds_order st) \<longrightarrow> n \<in> set (dp_nodes (ds_plan st')))
     \<and> (\<forall>i. status_of (ds_results st') i \<noteq> status_of (ds_results st) i
            \<longrightarrow> status_of (ds_results st) i = None \<and> status_of (ds_results st') i = Some NFailed)
     \<and> (\<forall>i \<in> dom (ds_results st). ds_results st' i = ds_results st i)"

lemma handle_failures_keeps:
  assumes "handle_failures env os sp st = Inr (sp', st')"
    and "\<forall>i \<in> set (failed_ids os). i \<notin> dom (ds_results st0)"
    and "\<forall>n \<in> set (dp_nodes (ds_plan st0)). dn_id n \<in> set (ds_order st0) \<longrightarrow> set (deps_of n) \<subseteq> dom (ds_results st0)"
    and "set (ds_order st0) \<subseteq> dom (ds_results st0)"
    and "kept_by st0 st"
  shows "kept_by st0 st'"
  using assms(1,2,5)
proof (induction os arbitrary: sp st)
  case (Cons oc os)
  from Cons.prems(1) show ?case
  proof (cases rule: handle_failures_Cons)
    case skip
    with Cons show ?thesis by simp
  next
    case (splice n e k t sub)
    have "dn_id n \<notin> dom (ds_results st0)"
      using Cons.prems(2) splice(1) by simp
    then have "kept_by st0 (splice_state (dn_id n) sub st)"
      using Cons.prems(3) assms(3,4) unfolding kept_by_def
      by (auto intro!: splice_keeps)
    with Cons splice show ?thesis by simp
  next
    case (abort n e k t)
    have "dn_id n \<notin> dom (ds_results st0)"
      using Cons.prems(2) abort(1) by simp
    then have "kept_by st0 (record_failed n e t st)"
      using Cons.prems(3) unfolding kept_by_def record_failed_def
      by (auto simp: status_None_iff)
    with Cons abort show ?thesis by simp
  qed
qed simp

lemma kept_inv:
  assumes inv: "run_inv env st" and kept: "kept_by st st'"
    and wf: "dag_wf (de_workers env) (ds_plan st')"
    and frame: "ds_done st' = ds_done st" "ds_order st' = ds_order st"
      "set OBJECT_KEYS \<inter> dom (ds_results st') = {}"
  shows "run_inv env st'"
proof -
  note I = run_invD [OF inv]
  have "status_of (ds_results st') i \<in> {Some NDone, Some NAwaiting} \<or> status_of (ds_results st) i \<in> {Some NDone, Some NAwaiting}
      \<Longrightarrow> status_of (ds_results st') i = status_of (ds_results st) i" for i
    using kept unfolding kept_by_def by fastforce
  then have status: "status_of (ds_results st') i = Some s \<longleftrightarrow> status_of (ds_results st) i = Some s"
    if "s = NDone \<or> s = NAwaiting" for i s
    using that by (metis insertCI)
  have from_old: "n \<in> set (dp_nodes (ds_plan st))"
    if n: "n \<in> set (dp_nodes (ds_plan st'))" "dn_id n \<in> set (ds_order st)" for n
  proof -
    obtain m where m: "m \<in> set (dp_nodes (ds_plan st))" "dn_id m = dn_id n"
      using n(2) I(6) by auto
    with n kept have "m \<in> set (dp_nodes (ds_plan st'))" by (simp add: kept_by_def)
    with wf n m have "m = n" by (simp add: dag_wf_def distinct_map inj_on_def)
    with m show ?thesis by simp
  qed
  have sub: "set (ds_order st) \<subseteq> set (ids_of (ds_plan st'))"
    using I(6) kept by (fastforce simp: kept_by_def)
  have just: "justified env (ds_plan st') (ds_results st') n"
    if n: "n \<in> set (dp_nodes (ds_plan st'))" "dn_id n \<in> ds_done st" for n
  proof -
    have o: "dn_id n \<in> set (ds_order st)" using n(2) run_inv_done_order [OF inv] by blast
    note m = from_old [OF n(1) o]
    have "insert (dn_id n) (set (deps_of n)) \<subseteq> ds_done st"
      using run_inv_deps_done [OF inv m o] n(2) by blast
    then have "insert (dn_id n) (set (deps_of n)) \<subseteq> dom (ds_results st)"
      using I(3) by (auto simp: status_of_def)
    then show ?thesis
      using kept unfolding kept_by_def by (intro justified_cong [OF I(9) [OF m n(2)]]) auto
  qed
  show ?thesis
    unfolding run_inv_def frame(1,2)
  proof (intro conjI allI ballI impI)
    show "i \<in> ds_done st \<longleftrightarrow> status_of (ds_results st') i = Some NDone" for i
      using I(3) [of i] status [of NDone i] by simp
    show "i \<in> set (ds_order st) \<longleftrightarrow> status_of (ds_results st') i \<in> {Some NDone, Some NAwaiting}" for i
      using I(5) [of i] status [of NDone i] status [of NAwaiting i] by simp
    show "set (deps_of n) \<subseteq> ds_done st \<inter> set (take k (ds_order st))"
      if "k < length (ds_order st)" "n \<in> set (dp_nodes (ds_plan st'))" "dn_id n = ds_order st ! k" for k n
      using I(8) [OF that(1) from_old] that by simp
    show "status_of (ds_results st') i \<noteq> Some NSkipped" for i
      using I(10) [of i] kept unfolding kept_by_def by (metis node_status.distinct(7) option.inject)
  qed (use wf frame(3) I(4) sub just in blast)+
qed

lemma wave_inv:
  assumes inv: "run_inv env st" and w: "wave env st = Inr st'"
  shows "run_inv env st'"
proof -
  let ?st = "recorded env st"
  obtain sp st2 where h: "handle_failures env (outcomes_of env st) False ?st = Inr (sp, st2)"
      and v: "sp \<longrightarrow> validate (de_workers env) (ds_plan st2) = None"
      and st': "st' = st2\<lparr>ds_wave := ds_wave st2 + 1\<rparr>"
    using w by (auto simp: wave_recorded split: sum.splits option.splits if_splits)
  note fr = handle_failures_frame [OF h]
  have inv1: "run_inv env ?st" by (rule recorded_inv [OF inv])
  have new: "i \<notin> dom (ds_results ?st) \<and> i \<notin> set OBJECT_KEYS" if i: "i \<in> set (failed_ids (outcomes_of env st))" for i
  proof -
    obtain n where "n \<in> set (ready st)" "dn_id n = i"
      using i outcome_ids_ready [of i env st] by blast
    moreover have "i \<notin> set (done_ids (outcomes_of env st))" "i \<notin> set (awaiting_ids (outcomes_of env st))"
      using i outcomes_distinct [OF run_invD(2) [OF inv], of env] by auto
    ultimately show ?thesis
      using ready_unrecorded [of n st] unfolding recorded_frame by blast
  qed
  have "kept_by ?st st2"
  proof (rule handle_failures_keeps [OF h])
    show "\<forall>n \<in> set (dp_nodes (ds_plan ?st)). dn_id n \<in> set (ds_order ?st) \<longrightarrow> set (deps_of n) \<subseteq> dom (ds_results ?st)"
      using run_inv_deps_done [OF inv1] run_invD(3) [OF inv1] by (fastforce simp: status_of_def)
    show "set (ds_order ?st) \<subseteq> dom (ds_results ?st)"
      using run_invD(5) [OF inv1] by (auto simp: status_of_def)
  qed (use new in \<open>auto simp: kept_by_def\<close>)
  moreover have "dag_wf (de_workers env) (ds_plan st2)"
    using v fr run_invD(1) [OF inv1] by (cases sp) (auto simp: validate_None_iff)
  moreover have "set OBJECT_KEYS \<inter> dom (ds_results st2) = {}"
    using fr new run_invD(7) [OF inv1] by blast
  ultimately have "run_inv env st2"
    using fr by (intro kept_inv [OF inv1]) auto
  then show ?thesis
    by (simp add: run_inv_def st')
qed

lemma initial_inv: "validate (de_workers env) plan = None \<Longrightarrow> run_inv env (initial_state plan)"
  unfolding validate_None_iff run_inv_def initial_state_def by (simp add: status_of_def)

lemma loop_inv:
  "interpret_loop env st = Inr st' \<Longrightarrow> run_inv env st \<Longrightarrow> run_inv env st' \<and> ready st' = []"
proof (induction env st arbitrary: st' rule: interpret_loop.induct)
  case (1 env st)
  show ?case
  proof (cases "length (ready st) = 0")
    case True
    with 1(2,3) show ?thesis by (simp add: interpret_loop.simps)
  next
    case False
    with 1(2) obtain st1 where "wave env st = Inr st1" "interpret_loop env st1 = Inr st'"
      by (subst (asm) interpret_loop.simps) (auto split: sum.splits)
    with 1(1,3) False wave_inv show ?thesis by blast
  qed
qed

subsection \<open>The end of a run\<close>

lemma in_results_status: "in_results r i \<longleftrightarrow> i \<in> set OBJECT_KEYS \<or> status_of r i \<noteq> None"
  by (simp add: in_results_def status_of_def)

lemma status_fold_skip:
  "status_of (fold skip_node nodes r) i =
     (if i \<in> dn_id ` set nodes \<and> \<not> in_results r i then Some NSkipped else status_of r i)"
  by (induction nodes arbitrary: r) (auto simp: skip_node_def in_results_status)

lemma fold_skip_same: "i \<in> dom r \<Longrightarrow> fold skip_node nodes r i = r i"
proof (induction nodes arbitrary: r)
  case (Cons n nodes)
  have "skip_node n r i = r i"
    using Cons.prems by (auto simp: skip_node_def in_results_def)
  with Cons show ?case by (auto simp: domIff)
qed simp

lemma settle_sel:
  "ir_nodeResults (settle st) = fold skip_node (dp_nodes (ds_plan st)) (ds_results st)"
  "ir_executedPlan (settle st) = ds_plan st" "ir_executionOrder (settle st) = ds_order st"
  by (simp_all add: settle_def Let_def)

text \<open>Nothing is left waiting: without failed or suspended nodes, a run that stops has run every node.\<close>

lemma stopped_all_done:
  assumes inv: "run_inv env st" and stop: "ready st = []"
    and keys: "set (ids_of (ds_plan st)) \<inter> set OBJECT_KEYS = {}"
    and ok: "\<forall>n \<in> set (dp_nodes (ds_plan st)). status_of (ds_results st) (dn_id n) \<notin> {Some NFailed, Some NAwaiting}"
  shows "\<forall>n \<in> set (dp_nodes (ds_plan st)). dn_id n \<in> ds_done st"
proof -
  note I = run_invD [OF inv]
  obtain vs where vs: "set (ids_of (ds_plan st)) \<subseteq> set vs" "topo (deps_by_id (ds_plan st)) vs"
    using wf_order [OF I(1)] by blast
  have step: "dn_id n \<in> ds_done st"
    if n: "n \<in> set (dp_nodes (ds_plan st))" and d: "set (deps_of n) \<subseteq> ds_done st" for n
  proof -
    have "n \<notin> set (ready st)" using stop by simp
    then have "in_results (ds_results st) (dn_id n)"
      using n d by (auto simp: ready_def)
    moreover have "dn_id n \<notin> set OBJECT_KEYS" using keys n by auto
    ultimately obtain s where "status_of (ds_results st) (dn_id n) = Some s"
      by (auto simp: in_results_status)
    with ok n I(3,10) show ?thesis by (cases s) fastforce+
  qed
  have known: "\<forall>n \<in> set (dp_nodes (ds_plan st)). set (deps_of n) \<subseteq> set (ids_of (ds_plan st))"
    using I(1) by (simp add: dag_wf_def)
  have "\<forall>n \<in> set (dp_nodes (ds_plan st)). dn_id n \<in> set vs \<longrightarrow> dn_id n \<in> ds_done st"
    using vs(2)
  proof (induction vs)
    case (Cons v vs)
    then have IH: "\<forall>n \<in> set (dp_nodes (ds_plan st)). dn_id n \<in> set vs \<longrightarrow> dn_id n \<in> ds_done st" by simp
    have "dn_id n \<in> ds_done st" if n: "n \<in> set (dp_nodes (ds_plan st))" "dn_id n = v" for n
    proof (rule step [OF n(1)], rule subsetI)
      fix d assume d: "d \<in> set (deps_of n)"
      then have "d \<in> set vs"
        using Cons.prems n deps_by_id_node [OF I(2) n(1)] by auto
      moreover obtain m where "m \<in> set (dp_nodes (ds_plan st))" "dn_id m = d"
        using known n(1) d by fastforce
      ultimately show "d \<in> ds_done st" using IH by blast
    qed
    with IH show ?case by auto
  qed simp
  with vs(1) show ?thesis by auto
qed

lemma interpret_inv:
  assumes "interpret_dag env plan = Inr r"
  obtains st where "run_inv env st" "ready st = []" "r = settle st"
  using assms initial_inv [of env plan] loop_inv [of env "initial_state plan"]
  by (auto simp: interpret_dag_def split: option.splits sum.splits)

lemma final_status:
  assumes "run_inv env st" "s \<noteq> NSkipped"
  shows "status_of (ir_nodeResults (settle st)) i = Some s \<longleftrightarrow> status_of (ds_results st) i = Some s"
  using assms(2) by (auto simp: settle_sel status_fold_skip in_results_status)

lemma final_output: "i \<in> dom (ds_results st) \<Longrightarrow> ir_nodeResults (settle st) i = ds_results st i"
  by (simp add: settle_sel fold_skip_same)

lemma final_justified:
  assumes inv: "run_inv env st" and n: "n \<in> set (dp_nodes (ds_plan st))" "dn_id n \<in> ds_done st"
  shows "justified env (ds_plan st) (ir_nodeResults (settle st)) n"
proof -
  have "insert (dn_id n) (set (deps_of n)) \<subseteq> ds_done st"
    using run_inv_deps_done [OF inv n(1)] n(2) run_inv_done_order [OF inv] by blast
  then have "insert (dn_id n) (set (deps_of n)) \<subseteq> dom (ds_results st)"
    using run_invD(3) [OF inv] by (auto simp: status_of_def)
  then show ?thesis
    by (intro justified_cong [OF run_invD(9) [OF inv n] refl]) (use final_output in blast)+
qed

text \<open>C12. The execution order lists each executed node of the executed plan once and is a topological
  order of it, also across replans: every dependency of an executed node is done and stands before it.
  Every done node holds what its worker answered to the task composed from the outputs of exactly its
  own dependencies.\<close>

theorem interpret_respects_dependencies:
  assumes "interpret_dag env plan = Inr r"
  shows "distinct (ir_executionOrder r)
    \<and> set (ir_executionOrder r) =
        {dn_id n | n. n \<in> set (dp_nodes (ir_executedPlan r))
           \<and> status_of (ir_nodeResults r) (dn_id n) \<in> {Some NDone, Some NAwaiting}}
    \<and> (\<forall>k < length (ir_executionOrder r). \<forall>n \<in> set (dp_nodes (ir_executedPlan r)).
         dn_id n = ir_executionOrder r ! k \<longrightarrow>
         (\<forall>d \<in> set (deps_of n). status_of (ir_nodeResults r) d = Some NDone
            \<and> d \<in> set (take k (ir_executionOrder r))))
    \<and> (\<forall>n \<in> set (dp_nodes (ir_executedPlan r)).
         status_of (ir_nodeResults r) (dn_id n) = Some NDone \<longrightarrow> justified env (ir_executedPlan r) (ir_nodeResults r) n)"
proof -
  from assms obtain st where st: "run_inv env st" "r = settle st"
    by (rule interpret_inv)
  note I = run_invD [OF st(1)]
  have "set (ds_order st) = {dn_id n | n. n \<in> set (dp_nodes (ds_plan st))
      \<and> status_of (ir_nodeResults r) (dn_id n) \<in> {Some NDone, Some NAwaiting}}"
    using I(5,6) unfolding st(2) by (fastforce simp: final_status [OF st(1)])
  moreover have "status_of (ir_nodeResults r) d = Some NDone \<and> d \<in> set (take k (ds_order st))"
    if "k < length (ds_order st)" "n \<in> set (dp_nodes (ds_plan st))" "dn_id n = ds_order st ! k" "d \<in> set (deps_of n)"
    for k n d
    using I(8) [OF that(1-3)] that(4) I(3) by (auto simp: st(2) final_status [OF st(1)])
  moreover have "justified env (ds_plan st) (ir_nodeResults r) n"
    if "n \<in> set (dp_nodes (ds_plan st))" "status_of (ir_nodeResults r) (dn_id n) = Some NDone" for n
    using final_justified [OF st(1) that(1)] that(2) I(3) by (simp add: st(2) final_status [OF st(1)])
  ultimately show ?thesis
    using I(4) by (simp add: st(2) settle_sel)
qed

text \<open>The three ways a run settles.\<close>

lemma settle_failed:
  assumes "\<exists>n \<in> set (dp_nodes (ds_plan st)). status_of (ir_nodeResults (settle st)) (dn_id n) = Some NFailed"
  shows "\<not> ir_ok (settle st)" "ir_pending (settle st) = None"
    "ir_failedNodeId (settle st) = map_option dn_id
       (find (\<lambda>n. status_of (ir_nodeResults (settle st)) (dn_id n) = Some NFailed) (dp_nodes (ds_plan st)))"
proof -
  let ?r = "fold skip_node (dp_nodes (ds_plan st)) (ds_results st)"
  have f: "list_ex (\<lambda>n. status_of ?r (dn_id n) = Some NFailed) (dp_nodes (ds_plan st))"
    using assms by (simp add: settle_sel list_ex_iff)
  then have "filter (\<lambda>n. status_of ?r (dn_id n) \<noteq> Some NDone) (dp_nodes (ds_plan st)) \<noteq> []"
    unfolding list_ex_iff filter_empty_conv by (metis node_status.distinct(1) option.inject)
  with f show "\<not> ir_ok (settle st)" "ir_pending (settle st) = None"
    "ir_failedNodeId (settle st) = map_option dn_id
       (find (\<lambda>n. status_of (ir_nodeResults (settle st)) (dn_id n) = Some NFailed) (dp_nodes (ds_plan st)))"
    by (simp_all add: settle_def Let_def)
qed

lemma settle_awaiting:
  assumes "\<forall>n \<in> set (dp_nodes (ds_plan st)). status_of (ir_nodeResults (settle st)) (dn_id n) \<noteq> Some NFailed"
    and "\<exists>n \<in> set (dp_nodes (ds_plan st)). status_of (ir_nodeResults (settle st)) (dn_id n) = Some NAwaiting"
  shows "ir_ok (settle st)" "ir_pending (settle st) = Some (ds_pending st)" "ir_failedNodeId (settle st) = None"
  using assms unfolding settle_sel
  by (simp_all add: settle_def Let_def list_ex_iff)

lemma settle_complete:
  assumes "\<forall>n \<in> set (dp_nodes (ds_plan st)). status_of (ir_nodeResults (settle st)) (dn_id n) = Some NDone"
  shows "ir_ok (settle st)" "ir_pending (settle st) = None" "ir_failedNodeId (settle st) = None"
    "ir_output (settle st) = join (newline @ newline)
       (map (\<lambda>n. output_of (ir_nodeResults (settle st)) (dn_id n)) (terminals (ds_plan st)))"
proof -
  let ?r = "fold skip_node (dp_nodes (ds_plan st)) (ds_results st)"
  have "\<not> list_ex (\<lambda>n. status_of ?r (dn_id n) = Some NAwaiting) (dp_nodes (ds_plan st))"
    "filter (\<lambda>n. status_of ?r (dn_id n) \<noteq> Some NDone) (dp_nodes (ds_plan st)) = []"
    using assms unfolding settle_sel by (auto simp: list_ex_iff filter_empty_conv)
  then show "ir_ok (settle st)" "ir_pending (settle st) = None" "ir_failedNodeId (settle st) = None"
    "ir_output (settle st) = join (newline @ newline)
       (map (\<lambda>n. output_of (ir_nodeResults (settle st)) (dn_id n)) (terminals (ds_plan st)))"
    by (simp_all add: settle_def Let_def)
qed

text \<open>C13. The verdict of a run over a plan that uses no inherited object key (\<open>constructor\<close>, \<open>toString\<close> and the like)
  as the id of a node: it is ok exactly when no node failed, names the first failed node otherwise, an
  ok run reports pending external calls exactly when a node is suspended, and one with nothing pending
  has done every node and answers the joined outputs of the terminal nodes.\<close>

theorem interpret_verdict:
  assumes "interpret_dag env plan = Inr r"
    and "set (ids_of (ir_executedPlan r)) \<inter> set OBJECT_KEYS = {}"
  shows "(ir_ok r \<longleftrightarrow> (\<forall>n \<in> set (dp_nodes (ir_executedPlan r)). status_of (ir_nodeResults r) (dn_id n) \<noteq> Some NFailed))
    \<and> ir_failedNodeId r =
        map_option dn_id (find (\<lambda>n. status_of (ir_nodeResults r) (dn_id n) = Some NFailed) (dp_nodes (ir_executedPlan r)))
    \<and> (ir_ok r \<longrightarrow> (ir_pending r \<noteq> None \<longleftrightarrow>
         (\<exists>n \<in> set (dp_nodes (ir_executedPlan r)). status_of (ir_nodeResults r) (dn_id n) = Some NAwaiting)))
    \<and> (ir_ok r \<and> ir_pending r = None \<longrightarrow>
         (\<forall>n \<in> set (dp_nodes (ir_executedPlan r)). status_of (ir_nodeResults r) (dn_id n) = Some NDone)
         \<and> ir_output r = join (newline @ newline)
             (map (\<lambda>n. output_of (ir_nodeResults r) (dn_id n)) (terminals (ir_executedPlan r))))"
proof -
  from assms(1) obtain st where st: "run_inv env st" "ready st = []" "r = settle st"
    by (rule interpret_inv)
  let ?nodes = "dp_nodes (ds_plan st)" and ?s = "\<lambda>n. status_of (ir_nodeResults (settle st)) (dn_id n)"
  have stopped: "\<forall>n \<in> set ?nodes. ?s n = Some NDone"
    if "\<forall>n \<in> set ?nodes. ?s n \<noteq> Some NFailed" "\<forall>n \<in> set ?nodes. ?s n \<noteq> Some NAwaiting"
    using stopped_all_done [OF st(1,2)] that assms(2) run_invD(3) [OF st(1)]
    by (simp add: st(3) settle_sel(2) final_status [OF st(1)])
  consider (failed) "\<exists>n \<in> set ?nodes. ?s n = Some NFailed"
    | (awaiting) "\<forall>n \<in> set ?nodes. ?s n \<noteq> Some NFailed" "\<exists>n \<in> set ?nodes. ?s n = Some NAwaiting"
    | (complete) "\<forall>n \<in> set ?nodes. ?s n = Some NDone"
    using stopped by blast
  then show ?thesis
  proof cases
    case failed
    then show ?thesis
      unfolding st(3) settle_sel(2) by (simp add: settle_failed)
  next
    case awaiting
    then have "find (\<lambda>n. ?s n = Some NFailed) ?nodes = None"
      by (simp add: find_None_iff)
    with awaiting show ?thesis
      unfolding st(3) settle_sel(2) by (simp add: settle_awaiting)
  next
    case complete
    then have "find (\<lambda>n. ?s n = Some NFailed) ?nodes = None"
      by (simp add: find_None_iff)
    with complete show ?thesis
      unfolding st(3) settle_sel(2) by (simp add: settle_complete)
  qed
qed

subsection \<open>Runs without failures complete\<close>

definition plain_env :: "dag_env \<Rightarrow> bool" where
  "plain_env env \<longleftrightarrow>
     (\<forall>k n w task. \<exists>res. de_run env k n w task = Inr res \<and> \<not> sr_epicfail res \<and> \<not> sr_awaiting res)"

lemma plain_dispatch:
  assumes "plain_env env" "dag_wf (de_workers env) (ds_plan st)" "n \<in> set (dp_nodes (ds_plan st))"
  shows "\<exists>x t. dispatch_node env st n = ODone n x t"
proof -
  obtain w where w: "resolveWorker (de_workers env) n = Inr w"
    using assms(2,3) by (auto simp: dag_wf_def)
  let ?task = "composeNodeTask n (ds_plan st) (de_inputText env)
     (\<lambda>d. if d \<in> set (deps_of n) then map_option nr_output (ds_results st d) else None) (de_ancestor env)"
  obtain res where "de_run env (ds_wave st) n w ?task = Inr res" "\<not> sr_epicfail res" "\<not> sr_awaiting res"
    using assms(1) unfolding plain_env_def by blast
  with w show ?thesis by (simp add: dispatch_node_def Let_def)
qed

lemma plain_outcomes:
  assumes "plain_env env" "dag_wf (de_workers env) (ds_plan st)"
  shows "failed_ids (outcomes_of env st) = []" "awaiting_ids (outcomes_of env st) = []"
proof -
  have "\<forall>oc \<in> set (outcomes_of env st). \<exists>n x t. oc = ODone n x t"
    using plain_dispatch [OF assms] ready_unrecorded [of _ st] by fastforce
  then show "failed_ids (outcomes_of env st) = []" "awaiting_ids (outcomes_of env st) = []"
    by (auto simp: outcome_ids split: node_outcome.splits)
qed

lemma handle_no_failures: "failed_ids os = [] \<Longrightarrow> handle_failures env os sp st = Inr (sp, st)"
proof (induction os arbitrary: sp st)
  case (Cons oc os)
  then show ?case by (cases oc) auto
qed simp

text \<open>Every recorded node is done.\<close>

definition all_done :: "dag_state \<Rightarrow> bool" where
  "all_done st \<longleftrightarrow> (\<forall>i. status_of (ds_results st) i \<in> {None, Some NDone})"

lemma plain_loop:
  "plain_env env \<Longrightarrow> run_inv env st \<Longrightarrow> all_done st
     \<Longrightarrow> \<exists>st'. interpret_loop env st = Inr st' \<and> ds_plan st' = ds_plan st \<and> all_done st'"
proof (induction env st rule: interpret_loop.induct)
  case (1 env st)
  show ?case
  proof (cases "length (ready st) = 0")
    case True
    with 1 show ?thesis by (simp add: interpret_loop.simps)
  next
    case False
    note none = plain_outcomes [OF 1(2) run_invD(1) [OF 1(3)]]
    let ?st = "(recorded env st)\<lparr>ds_wave := ds_wave (recorded env st) + 1\<rparr>"
    have w: "wave env st = Inr ?st"
      by (simp add: wave_recorded handle_no_failures none)
    have "all_done ?st"
      using 1(4) by (simp add: all_done_def status_recorded none)
    with 1(1) [OF False w 1(2) wave_inv [OF 1(3) w]] False w show ?thesis
      by (subst interpret_loop.simps) (simp add: recorded_frame)
  qed
qed

text \<open>C15. The external calls of a suspended node are lost when another node of the run failed: the result carries
  none of them, although a node reached \<open>awaiting-external\<close>.\<close>

theorem failed_run_drops_pending_calls:
  assumes "interpret_dag env plan = Inr r"
    and "m \<in> set (dp_nodes (ir_executedPlan r))" "status_of (ir_nodeResults r) (dn_id m) = Some NAwaiting"
    and "n \<in> set (dp_nodes (ir_executedPlan r))" "status_of (ir_nodeResults r) (dn_id n) = Some NFailed"
  shows "ir_pending r = None \<and> \<not> ir_ok r"
proof -
  from assms(1) obtain st where "r = settle st" by (rule interpret_inv)
  then show ?thesis using settle_failed [of st] assms(4,5) settle_sel(2) by auto
qed

text \<open>C14. A valid plan whose workers all answer, and that uses no inherited object key (\<open>constructor\<close>, \<open>toString\<close> and
  the like) as the id of a node, completes: the run is ok with nothing pending, the plan is executed
  as given, and every node runs exactly once.\<close>

theorem interpret_completes:
  assumes "validate (de_workers env) plan = None" "set (ids_of plan) \<inter> set OBJECT_KEYS = {}" "plain_env env"
  shows "\<exists>r. interpret_dag env plan = Inr r \<and> ir_ok r \<and> ir_pending r = None \<and> ir_executedPlan r = plan
    \<and> mset (ir_executionOrder r) = mset (ids_of plan)"
proof -
  have init: "run_inv env (initial_state plan)" "all_done (initial_state plan)"
    using initial_inv [OF assms(1)] by (simp_all add: all_done_def initial_state_def status_of_def)
  from plain_loop [OF assms(3) init] obtain st where st: "interpret_loop env (initial_state plan) = Inr st"
      "ds_plan st = plan" "all_done st"
    by (auto simp: initial_state_def)
  with loop_inv init have inv: "run_inv env st" "ready st = []" by blast+
  note I = run_invD [OF inv(1)]
  have "status_of (ds_results st) i \<notin> {Some NFailed, Some NAwaiting}" for i
    using spec [OF st(3) [unfolded all_done_def], of i] by auto
  then have ran: "\<forall>n \<in> set (dp_nodes plan). dn_id n \<in> ds_done st"
    using stopped_all_done [OF inv] assms(2) st(2) by simp
  have "set (ds_order st) = set (ids_of plan)"
    using I(6) ran run_inv_done_order [OF inv(1)] st(2) by auto
  then have "mset (ds_order st) = mset (ids_of plan)"
    using I(2,4) st(2) set_eq_iff_mset_eq_distinct by metis
  moreover have "\<forall>n \<in> set (dp_nodes (ds_plan st)). status_of (ir_nodeResults (settle st)) (dn_id n) = Some NDone"
    using ran I(3) st(2) by (simp add: final_status [OF inv(1)])
  ultimately show ?thesis
    using settle_complete [of st] assms(1) st by (simp add: interpret_dag_def settle_sel)
qed

subsection \<open>A concrete run\<close>

definition sample_node :: "string \<Rightarrow> string list \<Rightarrow> dag_node" where
  "sample_node i ds =
     \<lparr>dn_id = i, dn_goal = ''g'', dn_agent = None, dn_dependsOn = Some ds, dn_needsInput = None\<rparr>"

definition sample_plan :: "string list \<Rightarrow> dag_plan" where
  "sample_plan is =
     \<lparr>dp_nodes = map (\<lambda>i. sample_node i (takeWhile (\<lambda>j. j \<noteq> i) is)) is, dp_objective = None,
      dp_rationale = None, dp_createdAt = 0\<rparr>"

definition sample_dag_env :: dag_env where
  "sample_dag_env =
     \<lparr>de_inputText = ''in'',
      de_workers = [(''w'', \<lparr>wk_name = ''w'', wk_description = None, wk_contextPolicy = None\<rparr>)],
      de_maxReplans = None, de_ancestor = None,
      de_run = (\<lambda>_ n _ _. Inr \<lparr>sr_output = dn_id n, sr_epicfail = False, sr_awaiting = False, sr_pending = None\<rparr>),
      de_took = (\<lambda>_ _. 1), de_onNodeFailure = (\<lambda>_ _ _ _ _. Inr AbortNode)\<rparr>"

lemma plain_sample: "plain_env sample_dag_env"
  by (simp add: plain_env_def sample_dag_env_def)

lemma sample_plan_valid: "validate (de_workers sample_dag_env) (sample_plan [''b'', ''a'']) = None"
  by code_simp

lemma sample_plan_keys: "set (ids_of (sample_plan [''b'', ''a''])) \<inter> set OBJECT_KEYS = {}"
  by code_simp

theorem interpret_completes_witness:
  "\<exists>r. interpret_dag sample_dag_env (sample_plan [''b'', ''a'']) = Inr r \<and> ir_ok r \<and> ir_pending r = None"
  using interpret_completes [OF sample_plan_valid sample_plan_keys plain_sample] by blast

lemma sample_run:
  "case interpret_dag sample_dag_env (sample_plan [''b'', ''a'']) of Inl _ \<Rightarrow> False
   | Inr r \<Rightarrow> dp_nodes (ir_executedPlan r) = [sample_node ''b'' [], sample_node ''a'' [''b'']]
       \<and> status_of (ir_nodeResults r) ''a'' = Some NDone"
  by code_simp

theorem interpret_respects_dependencies_witness:
  "\<exists>r. interpret_dag sample_dag_env (sample_plan [''b'', ''a'']) = Inr r \<and> distinct (ir_executionOrder r)
     \<and> justified sample_dag_env (ir_executedPlan r) (ir_nodeResults r) (sample_node ''a'' [''b''])"
proof -
  obtain r where r: "interpret_dag sample_dag_env (sample_plan [''b'', ''a'']) = Inr r"
      "sample_node ''a'' [''b''] \<in> set (dp_nodes (ir_executedPlan r))"
      "status_of (ir_nodeResults r) (dn_id (sample_node ''a'' [''b''])) = Some NDone"
    using sample_run by (auto simp: sample_node_def split: sum.splits)
  show ?thesis
    using interpret_respects_dependencies [OF r(1)] r by blast
qed

text \<open>A run whose first node fails.\<close>

definition failing_env :: dag_env where
  "failing_env = sample_dag_env\<lparr>de_run := (\<lambda>_ _ _ _. Inl (OtherError ''down'' None))\<rparr>"

lemma failing_run:
  "case interpret_dag failing_env (sample_plan [''b'', ''a'']) of Inl _ \<Rightarrow> False
   | Inr r \<Rightarrow> dp_nodes (ir_executedPlan r) = [sample_node ''b'' [], sample_node ''a'' [''b'']]
       \<and> status_of (ir_nodeResults r) ''b'' = Some NFailed
       \<and> set (ids_of (ir_executedPlan r)) \<inter> set OBJECT_KEYS = {}"
  by code_simp

theorem interpret_verdict_witness:
  "\<exists>r. interpret_dag failing_env (sample_plan [''b'', ''a'']) = Inr r \<and> \<not> ir_ok r \<and> ir_failedNodeId r = Some ''b''"
proof -
  obtain r where r: "interpret_dag failing_env (sample_plan [''b'', ''a'']) = Inr r"
      "dp_nodes (ir_executedPlan r) = [sample_node ''b'' [], sample_node ''a'' [''b'']]"
      "status_of (ir_nodeResults r) ''b'' = Some NFailed"
      "set (ids_of (ir_executedPlan r)) \<inter> set OBJECT_KEYS = {}"
    using failing_run by (auto split: sum.splits)
  show ?thesis
    using interpret_verdict [OF r(1,4)] r by (simp add: sample_node_def)
qed

text \<open>A run in which one node waits for an external tool and another one fails.\<close>

definition mixed_env :: dag_env where
  "mixed_env = sample_dag_env\<lparr>de_run := (\<lambda>_ n _ _. if dn_id n = ''b'' then Inl (OtherError ''down'' None)
     else Inr \<lparr>sr_output = [], sr_epicfail = False, sr_awaiting = True, sr_pending = Some []\<rparr>)\<rparr>"

definition mixed_plan :: dag_plan where
  "mixed_plan = (sample_plan [])\<lparr>dp_nodes := [sample_node ''a'' [], sample_node ''b'' []]\<rparr>"

lemma mixed_run:
  "case interpret_dag mixed_env mixed_plan of Inl _ \<Rightarrow> False
   | Inr r \<Rightarrow> dp_nodes (ir_executedPlan r) = [sample_node ''a'' [], sample_node ''b'' []]
       \<and> status_of (ir_nodeResults r) ''a'' = Some NAwaiting \<and> status_of (ir_nodeResults r) ''b'' = Some NFailed"
  by code_simp

theorem failed_run_drops_pending_calls_witness:
  "\<exists>r. interpret_dag mixed_env mixed_plan = Inr r \<and> status_of (ir_nodeResults r) ''a'' = Some NAwaiting \<and> ir_pending r = None"
proof -
  obtain r where r: "interpret_dag mixed_env mixed_plan = Inr r"
      "dp_nodes (ir_executedPlan r) = [sample_node ''a'' [], sample_node ''b'' []]"
      "status_of (ir_nodeResults r) ''a'' = Some NAwaiting" "status_of (ir_nodeResults r) ''b'' = Some NFailed"
    using mixed_run by (auto split: sum.splits)
  have "ir_pending r = None \<and> \<not> ir_ok r"
    by (rule failed_run_drops_pending_calls [OF r(1), of "sample_node ''a'' []" "sample_node ''b'' []"])
      (use r in \<open>simp_all add: sample_node_def\<close>)
  with r show ?thesis by blast
qed

subsection \<open>Two defects\<close>

text \<open>A node whose id every object inherits is never dispatched, and the run does not say why it is not ok.\<close>

lemma object_key_node_never_runs:
  "case interpret_dag sample_dag_env (sample_plan [''constructor'']) of Inl _ \<Rightarrow> False
   | Inr r \<Rightarrow> \<not> ir_ok r \<and> ir_error r = Some ''plan did not complete'' \<and> ir_executionOrder r = []"
  by code_simp

text \<open>
  The ids of spliced nodes can collide with ids of the plan.  When the node \<open>a\<close> and a node \<open>a:x\<close> fail in the
  same wave and both are replanned by a node \<open>x\<close>, the second splice removes the replacement of the first:
  the run is ok although nothing was executed in the place of \<open>a\<close>, on which \<open>c\<close> depends.
\<close>

definition colliding_plan :: dag_plan where
  "colliding_plan =
     (sample_plan [])\<lparr>dp_nodes := [sample_node ''a'' [], sample_node ''a:x'' [], sample_node ''c'' [''a'']]\<rparr>"

definition colliding_env :: dag_env where
  "colliding_env =
     sample_dag_env\<lparr>de_run := (\<lambda>k n w t. if k = 0 then Inl (NeedsDecomposition ''too big'') else de_run sample_dag_env k n w t),
                    de_onNodeFailure := (\<lambda>_ _ _ _ _. Inr (Replan (sample_plan [''x''])))\<rparr>"

lemma splice_collision_loses_work:
  "case interpret_dag colliding_env colliding_plan of Inl _ \<Rightarrow> False
   | Inr r \<Rightarrow> ir_ok r \<and> ir_executionOrder r = [''a:x:x'', ''c'']"
  by code_simp

end
