(* ===== verification/DagPlanner.thy ===== *)
theory DagPlanner
  imports DagRun
begin

text \<open>
  The adapters that turn model output into plans and verdicts: \<open>parseDagPlan\<close> and \<open>LlmDagPlanner.plan\<close>
  (\<open>llm-dag-planner.ts\<close>), \<open>LlmReviewStrategy\<close>, the two error strategies and the two finalizers without a
  model.  The call of the language model is a parameter (its output or what it throws), and so is
  \<open>JSON.stringify\<close>, which only decorates messages and prompts.
\<close>

subsection \<open>Reading a plan\<close>

text \<open>\<open>content.match(/\{[\s\S]*\}/)\<close>: from the first opening to the last closing brace.\<close>

definition brace_span :: "string \<Rightarrow> string option" where
  "brace_span s =
     (let u = rev (dropWhile (\<lambda>c. c \<noteq> CHR ''}'') (rev (dropWhile (\<lambda>c. c \<noteq> CHR ''{'') s)))
      in if u = [] then None else Some u)"

definition plain_error :: "string \<Rightarrow> thrown" where
  "plain_error m = OtherError m None"

text \<open>A field that is neither \<open>undefined\<close> nor \<open>null\<close>.\<close>

definition present :: "json option \<Rightarrow> json option" where
  "present v = (if v = Some JNull then None else v)"

fun all_strings :: "json list \<Rightarrow> string list option" where
  "all_strings [] = Some []"
| "all_strings (JStr s # vs) = map_option ((#) s) (all_strings vs)"
| "all_strings (_ # vs) = None"

text \<open>Running on after a check that may throw.\<close>

definition and_then :: "'e + 'a \<Rightarrow> ('a \<Rightarrow> 'e + 'b) \<Rightarrow> 'e + 'b" where
  "and_then r f = (case r of Inl e \<Rightarrow> Inl e | Inr x \<Rightarrow> f x)"

lemma and_then_Inr: "and_then r f = Inr y \<longleftrightarrow> (\<exists>x. r = Inr x \<and> f x = Inr y)"
  by (cases r) (auto simp: and_then_def)

definition optional_string :: "thrown \<Rightarrow> json option \<Rightarrow> thrown + string option" where
  "optional_string err v =
     (case present v of
        None \<Rightarrow> Inr None
      | Some (JStr s) \<Rightarrow> Inr (Some s)
      | Some _ \<Rightarrow> Inl err)"

definition optional_strings :: "thrown \<Rightarrow> json option \<Rightarrow> thrown + string list option" where
  "optional_strings err v =
     (case present v of
        None \<Rightarrow> Inr None
      | Some (JArr vs) \<Rightarrow> (case all_strings vs of Some ds \<Rightarrow> Inr (Some ds) | None \<Rightarrow> Inl err)
      | Some _ \<Rightarrow> Inl err)"

definition optional_bool :: "thrown \<Rightarrow> json option \<Rightarrow> thrown + bool option" where
  "optional_bool err v =
     (case present v of
        None \<Rightarrow> Inr None
      | Some (JBool b) \<Rightarrow> Inr (Some b)
      | Some _ \<Rightarrow> Inl err)"

text \<open>The \<open>i\<close>-th entry of \<open>nodes\<close>.  Reading a field of \<open>null\<close> is a \<open>TypeError\<close>.\<close>

definition parse_node :: "(json \<Rightarrow> string) \<Rightarrow> nat \<Rightarrow> json \<Rightarrow> thrown + dag_node" where
  "parse_node stringify i n =
     (if n = JNull then Inl (plain_error ''Cannot read properties of null (reading goal)'')
      else if \<not> is_string (field ''goal'' n) \<or> trim (the_string (field ''goal'' n)) = [] then
        Inl (plain_error (''Planner node is missing a goal: '' @ stringify n))
      else
        and_then (optional_string (plain_error (''Planner node has a non-string id: '' @ stringify n)) (field ''id'' n)) (\<lambda>nid.
        and_then (optional_string (plain_error (''Planner node has a non-string agent: '' @ stringify n)) (field ''agent'' n)) (\<lambda>agent.
        and_then (optional_strings (plain_error (''Planner node dependsOn must be an array of strings: '' @ stringify n))
                    (field ''dependsOn'' n)) (\<lambda>deps.
        and_then (optional_bool (plain_error (''Planner node needsInput must be a boolean: '' @ stringify n))
                    (field ''needsInput'' n)) (\<lambda>needs.
          Inr \<lparr>dn_id = nullish nid (CHR ''n'' # nat_str (i + 1)), dn_goal = the_string (field ''goal'' n),
               dn_agent = agent, dn_dependsOn = deps, dn_needsInput = needs\<rparr>)))))"

fun parse_nodes :: "(json \<Rightarrow> string) \<Rightarrow> nat \<Rightarrow> json list \<Rightarrow> thrown + dag_node list" where
  "parse_nodes stringify i [] = Inr []"
| "parse_nodes stringify i (n # ns) =
     and_then (parse_node stringify i n) (\<lambda>x. and_then (parse_nodes stringify (i + 1) ns) (\<lambda>xs. Inr (x # xs)))"

text \<open>A signal the model asks for before anything else.\<close>

definition signal_of :: "json \<Rightarrow> thrown option" where
  "signal_of parsed =
     (if is_string (field ''needInfo'' parsed) \<and> trim (the_string (field ''needInfo'' parsed)) \<noteq> []
      then Some (NeedInfo (the_string (field ''needInfo'' parsed)))
      else if is_string (field ''clarify'' parsed) \<and> trim (the_string (field ''clarify'' parsed)) \<noteq> []
      then Some (Clarify (the_string (field ''clarify'' parsed)))
      else None)"

definition node_entries :: "string \<Rightarrow> string option \<Rightarrow> json \<Rightarrow> thrown + json list" where
  "node_entries matched fallbackGoal parsed =
     (case field ''nodes'' parsed of
        Some (JArr (n # ns)) \<Rightarrow> Inr (n # ns)
      | _ \<Rightarrow>
          if fallbackGoal \<noteq> None \<and> trim (the fallbackGoal) \<noteq> []
          then Inr [JObj [(''id'', JStr ''n1''), (''goal'', JStr (the fallbackGoal))]]
          else Inl (plain_error (''Planner returned no nodes: '' @ take 200 matched)))"

definition optional_text :: "(json \<Rightarrow> string) \<Rightarrow> string \<Rightarrow> json option \<Rightarrow> thrown + string option" where
  "optional_text stringify name v =
     (case v of
        None \<Rightarrow> Inr None
      | Some (JStr s) \<Rightarrow> Inr (Some s)
      | Some w \<Rightarrow> Inl (plain_error (''Planner '' @ name @ '' must be a string: '' @ stringify w)))"

definition parseDagPlan :: "(json \<Rightarrow> string) \<Rightarrow> int \<Rightarrow> string \<Rightarrow> string option \<Rightarrow> thrown + dag_plan" where
  "parseDagPlan stringify now content fallbackGoal =
     (case brace_span content of
        None \<Rightarrow> Inl (plain_error (''Planner output did not contain a JSON object: '' @ take 200 content))
      | Some m \<Rightarrow>
          (case json_parse m of
             None \<Rightarrow> Inl (plain_error (''Planner output contained malformed JSON: '' @ take 200 m))
           | Some parsed \<Rightarrow>
               (case signal_of parsed of
                  Some s \<Rightarrow> Inl s
                | None \<Rightarrow>
                    and_then (node_entries m fallbackGoal parsed) (\<lambda>entries.
                    and_then (optional_text stringify ''objective'' (field ''objective'' parsed)) (\<lambda>objective.
                    and_then (optional_text stringify ''rationale'' (field ''rationale'' parsed)) (\<lambda>rationale.
                    and_then (parse_nodes stringify 0 entries) (\<lambda>nodes.
                      Inr \<lparr>dp_nodes = nodes, dp_objective = objective, dp_rationale = rationale,
                           dp_createdAt = now\<rparr>)))))))"

subsection \<open>The roles\<close>

definition catalog :: "workers \<Rightarrow> string" where
  "catalog ws =
     join newline (map (\<lambda>(_, w). ''- '' @ wk_name w @ '': '' @ nullish (wk_description w) ''(no description)'') ws)"

definition or_text :: "string \<Rightarrow> string \<Rightarrow> string" where
  "or_text s d = (if s = [] then d else s)"

abbreviation blank_line :: string where
  "blank_line \<equiv> newline @ newline"

definition planner_task :: "workers \<Rightarrow> string \<Rightarrow> context_path option \<Rightarrow> string option \<Rightarrow> string" where
  "planner_task ws prompt ancestor feedback =
     (let rendered = (case ancestor of None \<Rightarrow> [] | Some ac \<Rightarrow> renderAncestorContext ac);
          parts = (if rendered = [] then [] else [rendered])
            @ (if truthy feedback then [''Reviewer feedback: '' @ the feedback] else []);
          prefix = (if parts = [] then [] else join blank_line parts @ blank_line)
      in prefix @ ''Available workers:'' @ newline @ or_text (catalog ws) ''(none)'' @ blank_line @ prompt)"

definition llm_plan ::
    "(json \<Rightarrow> string) \<Rightarrow> (string \<Rightarrow> thrown + string) \<Rightarrow> int \<Rightarrow> workers \<Rightarrow> string \<Rightarrow> context_path option
      \<Rightarrow> string option \<Rightarrow> thrown + dag_plan" where
  "llm_plan stringify model now ws prompt ancestor feedback =
     and_then (model (planner_task ws prompt ancestor feedback))
       (\<lambda>output. parseDagPlan stringify now output (Some prompt))"

datatype llm_verdict = LlmPass | LlmReject string

definition parse_review :: "string \<Rightarrow> thrown + llm_verdict" where
  "parse_review output =
     (case brace_span output of
        None \<Rightarrow> Inl (plain_error (''Reviewer output did not contain a JSON object: '' @ take 200 output))
      | Some m \<Rightarrow>
          (case json_parse m of
             None \<Rightarrow> Inl (plain_error (''Reviewer output contained malformed JSON: '' @ take 200 m))
           | Some parsed \<Rightarrow>
               (case signal_of parsed of
                  Some s \<Rightarrow> Inl s
                | None \<Rightarrow>
                    (case field ''pass'' parsed of
                       Some (JBool True) \<Rightarrow> Inr LlmPass
                     | Some (JBool False) \<Rightarrow>
                         if \<not> is_string (field ''feedback'' parsed) \<or> trim (the_string (field ''feedback'' parsed)) = []
                         then Inl (plain_error (''Reviewer rejection must include a non-empty '' @ quoted ''feedback''
                                @ '' string: '' @ take 200 m))
                         else Inr (LlmReject (the_string (field ''feedback'' parsed)))
                     | _ \<Rightarrow> Inl (plain_error (''Reviewer verdict must have a boolean '' @ quoted ''pass'' @ '': '' @ take 200 m))))))"

text \<open>The recovery decision; a revised plan is handed on as the value it was parsed to.\<close>

definition revise_node_ok :: "json \<Rightarrow> bool" where
  "revise_node_ok n \<longleftrightarrow>
     is_string (field ''id'' n) \<and> is_string (field ''goal'' n) \<and> trim (the_string (field ''goal'' n)) \<noteq> []"

definition parse_recovery :: "string \<Rightarrow> thrown + json option" where
  "parse_recovery output =
     (case brace_span output of
        None \<Rightarrow> Inl (plain_error (''Recovery reviewer output did not contain a JSON object: '' @ take 200 output))
      | Some m \<Rightarrow>
          (case json_parse m of
             None \<Rightarrow> Inl (plain_error (''Recovery reviewer output contained malformed JSON: '' @ take 200 m))
           | Some parsed \<Rightarrow>
               (case signal_of parsed of
                  Some s \<Rightarrow> Inl s
                | None \<Rightarrow>
                    if field ''action'' parsed = Some (JStr ''abort'') then Inr None
                    else if field ''action'' parsed \<noteq> Some (JStr ''revise'') then
                      Inl (plain_error (''Recovery reviewer action must be '' @ quoted ''abort'' @ '' | ''
                             @ quoted ''revise'' @ '': '' @ take 200 m))
                    else
                      (let plan = nullish (field ''plan'' parsed) JNull in
                       case field ''nodes'' plan of
                         Some (JArr (n # ns)) \<Rightarrow>
                           (case find (\<lambda>v. v = JNull \<or> \<not> revise_node_ok v) (n # ns) of
                              None \<Rightarrow> Inr (Some plan)
                            | Some JNull \<Rightarrow> Inl (plain_error ''Cannot read properties of null (reading id)'')
                            | Some _ \<Rightarrow> Inl (plain_error
                                (''Recovery reviewer revise plan must have non-empty nodes with string id+goal: '' @ take 200 m)))
                       | _ \<Rightarrow> Inl (plain_error
                                (''Recovery reviewer revise plan must have non-empty nodes with string id+goal: '' @ take 200 m))))))"

definition abort_strategy :: "nat \<Rightarrow> dag_node \<Rightarrow> thrown \<Rightarrow> string \<Rightarrow> int \<Rightarrow> thrown + reaction" where
  "abort_strategy k n e task remaining = Inr AbortNode"

definition replan_strategy ::
    "(nat \<Rightarrow> string \<Rightarrow> thrown + dag_plan) \<Rightarrow> nat \<Rightarrow> dag_node \<Rightarrow> thrown \<Rightarrow> string \<Rightarrow> int \<Rightarrow> thrown + reaction" where
  "replan_strategy planner k n e task remaining =
     (case e of
        NeedsDecomposition reason \<Rightarrow>
          if remaining \<le> 0 then Inr AbortNode
          else and_then (planner k (task @ blank_line @ ''This task needs decomposition: '' @ reason)) (\<lambda>sub. Inr (Replan sub))
      | _ \<Rightarrow> Inr AbortNode)"

definition passthrough_finalizer :: "string \<Rightarrow> string list \<times> string" where
  "passthrough_finalizer interpreterOutput = ([interpreterOutput], interpreterOutput)"

definition template_finalizer :: "(string \<times> string \<times> string) list \<Rightarrow> string list \<times> string" where
  "template_finalizer items =
     (let out = concat (map (\<lambda>(i, goal, output).
            ''# Node '' @ i @ '' '' @ [em_dash] @ '' '' @ goal @ newline @ output @ blank_line) items)
      in ([out], out))"

subsection \<open>What the parser accepts\<close>

lemma parse_node_goal: "parse_node sf i n = Inr x \<Longrightarrow> trim (dn_goal x) \<noteq> []"
  by (auto simp: parse_node_def and_then_Inr split: if_splits)

lemma parse_nodes_goals: "parse_nodes sf i vs = Inr xs \<Longrightarrow> length xs = length vs \<and> (\<forall>x \<in> set xs. trim (dn_goal x) \<noteq> [])"
  by (induction sf i vs arbitrary: xs rule: parse_nodes.induct) (auto simp: and_then_Inr dest: parse_node_goal)

lemma node_entries_ne: "node_entries m fb parsed = Inr vs \<Longrightarrow> vs \<noteq> []"
  by (auto simp: node_entries_def split: option.splits json.splits list.splits if_splits)

text \<open>A parsed plan has a node, and every node has a goal; whether ids are unique is left to validation.\<close>

lemma parseDagPlan_nonempty:
  assumes "parseDagPlan sf now content fb = Inr plan"
  shows "dp_nodes plan \<noteq> [] \<and> (\<forall>n \<in> set (dp_nodes plan). trim (dn_goal n) \<noteq> [])"
proof -
  from assms obtain m parsed vs xs where "node_entries m fb parsed = Inr vs" "parse_nodes sf 0 vs = Inr xs"
      "dp_nodes plan = xs"
    by (auto simp: parseDagPlan_def and_then_Inr split: option.splits)
  then show ?thesis
    using node_entries_ne parse_nodes_goals by (metis length_0_conv)
qed

text \<open>With a fallback goal, a reply that asks for nothing and plans nothing still yields one node.\<close>

lemma fallback_plans_one_node:
  assumes "brace_span content = Some m" "json_parse m = Some (JObj [])" "trim goal \<noteq> []"
  shows "\<exists>plan. parseDagPlan sf now content (Some goal) = Inr plan
    \<and> map dn_goal (dp_nodes plan) = [goal] \<and> ids_of plan = [''n1'']"
  using assms
  by (simp add: parseDagPlan_def signal_of_def node_entries_def optional_text_def and_then_def parse_node_def
      optional_string_def optional_strings_def optional_bool_def present_def)

end
