(* ===== verification/DagCoordinator.thy ===== *)
theory DagCoordinator
  imports DagRun
begin

text \<open>
  \<open>DagCoordinatorHandler.execute\<close> (\<open>pipeline/handlers/dag-coordinator.ts\<close>): plan, review, run, recover or
  finalize, with every round trip taken from one budget.  The roles (planner, reviewer, state oracle,
  finalizer) are parameters; each of their calls has its own number, so a role may answer the same input
  differently every time.  The interpreter is the modelled one.  Token usage, its request log and the
  session log are not modelled.
\<close>

subsection \<open>Data\<close>

text \<open>The chunks the handler hands to the client.\<close>

record out_chunk =
  oc_content :: string
  oc_toolCalls :: "ext_call list option"
  oc_finishReason :: "string option"
  oc_iterationEnd :: "string option"
  oc_ephemeral :: bool

definition content_chunk :: "string \<Rightarrow> out_chunk" where
  "content_chunk s =
     \<lparr>oc_content = s, oc_toolCalls = None, oc_finishReason = None, oc_iterationEnd = None, oc_ephemeral = False\<rparr>"

definition terminal_chunk :: "string \<Rightarrow> out_chunk" where
  "terminal_chunk reason = (content_chunk [])\<lparr>oc_finishReason := Some reason\<rparr>"

text \<open>The chunks of the interpreter's \<open>onPartial\<close> that the handler looks at.\<close>

datatype partial_chunk =
    PContent string "string option" bool
  | PIterationEnd string "string option"
  | POther

datatype review_verdict = ReviewPass | ReviewFail string
datatype recovery = RecoveryAbort | RecoveryRevise dag_plan

record trace_item =
  ti_nodeId :: string
  ti_goal :: string
  ti_output :: string

record finalizer_input =
  fz_objective :: string
  fz_ancestor :: context_path
  fz_output :: string
  fz_streamed :: "bool option"
  fz_trace :: "trace_item list"

record failure_input =
  fi_plan :: dag_plan
  fi_trace :: "node_result list"
  fi_failedNodeId :: string
  fi_error :: string
  fi_ancestor :: context_path

text \<open>
  The dependencies of the handler.  A role answers to the number of its call and to its input; the
  deltas the finalizer streams come with its answer.  \<open>dc_partials\<close> are the chunks an interpretation
  hands to \<open>onPartial\<close>.
\<close>

record coord_env =
  dc_inputText :: string
  dc_dag :: "nat \<Rightarrow> dag_env"
  dc_planner :: "nat \<Rightarrow> context_path \<Rightarrow> string option \<Rightarrow> thrown + dag_plan"
  dc_reviewer :: "(nat \<Rightarrow> context_path \<Rightarrow> dag_plan \<Rightarrow> thrown + review_verdict) option"
  dc_recovery :: "(nat \<Rightarrow> failure_input \<Rightarrow> thrown + recovery) option"
  dc_oracle :: "(nat \<Rightarrow> string \<Rightarrow> thrown + string) option"
  dc_finalizer :: "nat \<Rightarrow> finalizer_input \<Rightarrow> string list \<times> (thrown + string)"
  dc_streams :: bool
  dc_partials :: "nat \<Rightarrow> dag_plan \<Rightarrow> partial_chunk list"
  dc_maxRoundTrips :: "int option"

record coord_state =
  co_yields :: "out_chunk list"
  co_error :: "(string \<times> string) option"
  co_ancestor :: context_path
  co_roundTrips :: int
  co_calls :: nat
  co_runs :: nat

subsection \<open>The ancestor context\<close>

text \<open>Three invisible separators (U+2063), written as one code unit each.\<close>

definition CLARIFY_MARKER :: string where
  "CLARIFY_MARKER = [CHR 0x03, CHR 0x03, CHR 0x03]"

record history_message =
  hm_role :: string
  hm_content :: "string option"

definition isMarked :: "history_message option \<Rightarrow> bool" where
  "isMarked m =
     (case m of None \<Rightarrow> False
      | Some msg \<Rightarrow> hm_role msg = ''assistant''
          \<and> (case hm_content msg of None \<Rightarrow> False
             | Some c \<Rightarrow> take (length CLARIFY_MARKER) c = CLARIFY_MARKER))"

text \<open>\<open>h[i]\<close>\<close>

definition elem_at :: "'a list \<Rightarrow> int \<Rightarrow> 'a option" where
  "elem_at h i = (if 0 \<le> i \<and> i < int (length h) then Some (h ! nat i) else None)"

definition marked_index :: "history_message list \<Rightarrow> int" where
  "marked_index h =
     (let n = int (length h) in
      if isMarked (elem_at h (n - 1)) then n - 1
      else if map_option hm_role (elem_at h (n - 1)) = Some ''user'' \<and> isMarked (elem_at h (n - 2)) then n - 2
      else -1)"

definition buildAncestorContext :: "history_message list \<Rightarrow> string \<Rightarrow> context_path" where
  "buildAncestorContext h inputText =
     (let mi = marked_index h in
      if mi \<ge> 0 then
        (let question = trim (drop (length CLARIFY_MARKER) (nullish (hm_content (h ! nat mi)) []));
             objective = (case elem_at h (mi - 1) of
                 Some p \<Rightarrow> if hm_role p = ''user'' then nullish (hm_content p) inputText else inputText
               | None \<Rightarrow> inputText)
         in \<lparr>cp_objective = Some objective, cp_clarifications = [(question, inputText)], cp_observations = []\<rparr>)
      else \<lparr>cp_objective = Some inputText, cp_clarifications = [], cp_observations = []\<rparr>)"

subsection \<open>Running a role\<close>

definition maxRoundTrips :: "coord_env \<Rightarrow> int" where
  "maxRoundTrips env = max 1 (nullish (dc_maxRoundTrips env) 6)"

definition emit :: "out_chunk list \<Rightarrow> coord_state \<Rightarrow> coord_state" where
  "emit cs st = st\<lparr>co_yields := co_yields st @ cs\<rparr>"

definition BUDGET_ERROR :: thrown where
  "BUDGET_ERROR = Orchestrator ''coordinator: round-trip budget exhausted'' ''COORDINATOR_BUDGET_EXHAUSTED''"

text \<open>\<open>None\<close> is the end of the turn after a clarification.\<close>

function runRole ::
    "coord_env \<Rightarrow> (nat \<Rightarrow> context_path \<Rightarrow> out_chunk list \<times> (thrown + 'a)) \<Rightarrow> coord_state
      \<Rightarrow> (thrown + 'a option) \<times> coord_state" where
  "runRole env thunk st =
     (case thunk (co_calls st) (co_ancestor st) of
        (chunks, res) \<Rightarrow>
          (let st1 = (emit chunks st)\<lparr>co_calls := co_calls st + 1\<rparr> in
           case res of
             Inr v \<Rightarrow> (Inr (Some v), st1)
           | Inl (Clarify q) \<Rightarrow>
               (Inr None, emit [content_chunk (CLARIFY_MARKER @ q), terminal_chunk ''stop''] st1)
           | Inl (NeedInfo q) \<Rightarrow>
               (case dc_oracle env of
                  None \<Rightarrow> (Inl (Orchestrator (''coordinator: role requested info but no stateOracle is configured: '' @ q)
                              ''COORDINATOR_NEEDINFO_UNRESOLVED''), st1)
                | Some oracle \<Rightarrow>
                    (let st2 = st1\<lparr>co_roundTrips := co_roundTrips st1 + 1\<rparr> in
                     if co_roundTrips st + 1 > maxRoundTrips env then (Inl BUDGET_ERROR, st2)
                     else
                       (case oracle (co_calls st2) q of
                          Inl e \<Rightarrow> (Inl e, st2\<lparr>co_calls := co_calls st2 + 1\<rparr>)
                        | Inr ans \<Rightarrow>
                            runRole env thunk
                              (st2\<lparr>co_calls := co_calls st2 + 1,
                                   co_ancestor := (co_ancestor st2)
                                     \<lparr>cp_observations := cp_observations (co_ancestor st2) @ [(q, ans)]\<rparr>\<rparr>))))
           | Inl e \<Rightarrow> (Inl e, st1)))"
  by pat_completeness auto
termination
  by (relation "measure (\<lambda>(env, thunk, st). nat (maxRoundTrips env - co_roundTrips st))") (auto simp: emit_def)

declare runRole.simps [simp del]

subsection \<open>One turn of the loop\<close>

datatype coord_turn = Ended bool coord_state | Again dag_plan coord_state

definition fail_with :: "string \<Rightarrow> thrown \<Rightarrow> coord_state \<Rightarrow> coord_state" where
  "fail_with code e st =
     st\<lparr>co_error := Some (case e of Orchestrator m c \<Rightarrow> (m, c) | _ \<Rightarrow> (errMsg e, code))\<rparr>"

definition planner_thunk ::
    "coord_env \<Rightarrow> string option \<Rightarrow> nat \<Rightarrow> context_path \<Rightarrow> out_chunk list \<times> (thrown + dag_plan)" where
  "planner_thunk env feedback k anc = ([], dc_planner env k anc feedback)"

text \<open>Forwarding the content of the single node of a plan, with the text forwarded since the last boundary.\<close>

fun forward_partial :: "string \<Rightarrow> partial_chunk \<Rightarrow> out_chunk list \<times> string \<Rightarrow> out_chunk list \<times> string" where
  "forward_partial fid (PIterationEnd outcome nid) (cs, text) =
     (if nid = Some fid \<and> outcome \<noteq> ''final''
      then (cs @ [(content_chunk [])\<lparr>oc_iterationEnd := Some outcome\<rparr>], [])
      else (cs, text))"
| "forward_partial fid (PContent delta nid ephemeral) (cs, text) =
     (if nid = Some fid \<and> length delta > 0
      then (cs @ [(content_chunk delta)\<lparr>oc_ephemeral := ephemeral\<rparr>], if ephemeral then text else text @ delta)
      else (cs, text))"
| "forward_partial fid POther (cs, text) = (cs, text)"

definition forwards :: "coord_env \<Rightarrow> dag_plan \<Rightarrow> bool" where
  "forwards env plan \<longleftrightarrow> dc_streams env \<and> length (dp_nodes plan) = 1"

definition forwarded :: "coord_env \<Rightarrow> nat \<Rightarrow> dag_plan \<Rightarrow> out_chunk list \<times> string" where
  "forwarded env k plan =
     (if forwards env plan
      then fold (forward_partial (dn_id (hd (dp_nodes plan)))) (dc_partials env k plan) ([], [])
      else ([], []))"

definition trimEnd :: "string \<Rightarrow> string" where
  "trimEnd s = rev (dropWhile is_space (rev s))"

definition streamed_output :: "string \<Rightarrow> interpret_result \<Rightarrow> bool" where
  "streamed_output text r \<longleftrightarrow> length (trim (ir_output r)) > 0 \<and> suffix (trim (ir_output r)) (trimEnd text)"

definition execution_trace :: "interpret_result \<Rightarrow> trace_item list" where
  "execution_trace r =
     map (\<lambda>i. \<lparr>ti_nodeId = i,
               ti_goal = (case find (\<lambda>n. dn_id n = i) (rev (dp_nodes (ir_executedPlan r))) of
                   None \<Rightarrow> [] | Some n \<Rightarrow> dn_goal n),
               ti_output = output_of (ir_nodeResults r) i\<rparr>) (ir_executionOrder r)"

definition finalizer_thunk ::
    "coord_env \<Rightarrow> string \<Rightarrow> interpret_result \<Rightarrow> nat \<Rightarrow> context_path \<Rightarrow> out_chunk list \<times> (thrown + string)" where
  "finalizer_thunk env text r k anc =
     (let input = \<lparr>fz_objective = nullish (dp_objective (ir_executedPlan r)) (dc_inputText env), fz_ancestor = anc,
                   fz_output = ir_output r,
                   fz_streamed = (if dc_streams env then Some (streamed_output text r) else None),
                   fz_trace = execution_trace r\<rparr>
      in case dc_finalizer env k input of (deltas, res) \<Rightarrow> (map content_chunk deltas, res))"

definition finish_stage :: "coord_env \<Rightarrow> dag_plan \<Rightarrow> string \<Rightarrow> interpret_result \<Rightarrow> coord_state \<Rightarrow> coord_turn" where
  "finish_stage env plan text r st =
     (case ir_pending r of
        Some (c # cs) \<Rightarrow>
          Ended True (emit [(content_chunk [])\<lparr>oc_toolCalls := Some (c # cs)\<rparr>, terminal_chunk ''tool_calls''] st)
      | _ \<Rightarrow>
          (case runRole env (finalizer_thunk env text r) st of
             (Inl e, st1) \<Rightarrow> Ended False (fail_with ''COORDINATOR_STEP_FAILED'' e st1)
           | (Inr None, st1) \<Rightarrow> Ended True st1
           | (Inr (Some _), st1) \<Rightarrow>
               Ended True (emit [(terminal_chunk ''stop'')
                 \<lparr>oc_iterationEnd := (if forwards env plan then Some ''final'' else None)\<rparr>] st1)))"

definition recovery_input :: "interpret_result \<Rightarrow> context_path \<Rightarrow> failure_input" where
  "recovery_input r anc =
     (let failedId = (case ir_failedNodeId r of Some i \<Rightarrow> i
            | None \<Rightarrow> (case dp_nodes (ir_executedPlan r) of [] \<Rightarrow> [] | n # _ \<Rightarrow> dn_id n))
      in \<lparr>fi_plan = ir_executedPlan r,
          fi_trace = List.map_filter (\<lambda>n. ir_nodeResults r (dn_id n)) (dp_nodes (ir_executedPlan r)),
          fi_failedNodeId = failedId,
          fi_error = (case Option.bind (ir_nodeResults r failedId) nr_error of
              Some e \<Rightarrow> e | None \<Rightarrow> nullish (ir_error r) ''unknown''),
          fi_ancestor = anc\<rparr>)"

definition recover_stage :: "coord_env \<Rightarrow> interpret_result \<Rightarrow> coord_state \<Rightarrow> coord_turn" where
  "recover_stage env r st =
     (case (dc_reviewer env, dc_recovery env) of
        (Some _, Some recover) \<Rightarrow>
          (case runRole env (\<lambda>k anc. ([], recover k (recovery_input r anc))) st of
             (Inl e, st1) \<Rightarrow> Ended False (fail_with ''COORDINATOR_STEP_FAILED'' e st1)
           | (Inr None, st1) \<Rightarrow> Ended True st1
           | (Inr (Some (RecoveryRevise p)), st1) \<Rightarrow>
               if length (dp_nodes p) = 0
               then Ended False (fail_with [] (Orchestrator ''coordinator: reviewer returned an empty revised plan''
                      ''COORDINATOR_PLAN_INVALID'') st1)
               else Again p st1
           | (Inr (Some RecoveryAbort), st1) \<Rightarrow>
               Ended False (fail_with [] (Orchestrator (''coordinator: recovery aborted: '' @ nullish (ir_error r) ''unknown'')
                      ''COORDINATOR_STEP_FAILED'') st1))
      | _ \<Rightarrow>
          Ended False (fail_with [] (Orchestrator (''coordinator: '' @ nullish (ir_error r) ''plan execution failed'')
                 ''COORDINATOR_STEP_FAILED'') st))"

definition run_stage :: "coord_env \<Rightarrow> dag_plan \<Rightarrow> coord_state \<Rightarrow> coord_turn" where
  "run_stage env plan st =
     (let k = co_runs st;
          dag = (dc_dag env k)\<lparr>de_inputText := dc_inputText env, de_ancestor := Some (co_ancestor st)\<rparr>
      in case forwarded env k plan of (chunks, text) \<Rightarrow>
           (let st1 = emit chunks (st\<lparr>co_runs := k + 1\<rparr>) in
            case interpret_dag dag plan of
              Inl e \<Rightarrow> Ended False (fail_with (nullish (codeOf e) ''COORDINATOR_PLAN_INVALID'') e st1)
            | Inr r \<Rightarrow> if ir_ok r then finish_stage env plan text r st1 else recover_stage env r st1))"

definition turn :: "coord_env \<Rightarrow> dag_plan \<Rightarrow> coord_state \<Rightarrow> coord_turn" where
  "turn env plan st =
     (case dc_reviewer env of
        None \<Rightarrow> run_stage env plan st
      | Some review \<Rightarrow>
          (case runRole env (\<lambda>k anc. ([], review k anc plan)) st of
             (Inl e, st1) \<Rightarrow> Ended False (fail_with ''COORDINATOR_REVIEW_FAILED'' e st1)
           | (Inr None, st1) \<Rightarrow> Ended True st1
           | (Inr (Some ReviewPass), st1) \<Rightarrow> run_stage env plan st1
           | (Inr (Some (ReviewFail feedback)), st1) \<Rightarrow>
               (case runRole env (planner_thunk env (Some feedback)) st1 of
                  (Inl e, st2) \<Rightarrow> Ended False (fail_with ''COORDINATOR_STEP_FAILED'' e st2)
                | (Inr None, st2) \<Rightarrow> Ended True st2
                | (Inr (Some p), st2) \<Rightarrow> Again p st2)))"

subsection \<open>The loop\<close>

text \<open>A role call takes round trips but gives none back; it ends the turn exactly with a terminal chunk.\<close>

definition quiet :: "out_chunk list \<Rightarrow> bool" where
  "quiet cs \<longleftrightarrow> (\<forall>c \<in> set cs. oc_finishReason c = None)"

lemma quiet_simps [simp]:
  "quiet []" "quiet (c # cs) \<longleftrightarrow> oc_finishReason c = None \<and> quiet cs" "quiet (xs @ ys) \<longleftrightarrow> quiet xs \<and> quiet ys"
  by (auto simp: quiet_def)

lemma content_chunk_quiet [simp]: "oc_finishReason (content_chunk s) = None"
  "oc_finishReason (terminal_chunk r) = Some r"
  by (simp_all add: content_chunk_def terminal_chunk_def)

definition talks :: "coord_state \<Rightarrow> coord_state \<Rightarrow> bool" where
  "talks st st' \<longleftrightarrow> (\<exists>cs. co_yields st' = co_yields st @ cs \<and> quiet cs)"

definition closes_turn :: "coord_state \<Rightarrow> coord_state \<Rightarrow> bool" where
  "closes_turn st st' \<longleftrightarrow>
     (\<exists>cs c. co_yields st' = co_yields st @ cs @ [c] \<and> quiet cs \<and> oc_finishReason c \<noteq> None)"

lemma talks_refl [simp]: "talks st st"
  by (simp add: talks_def)

lemma talks_trans: "talks a b \<Longrightarrow> talks b c \<Longrightarrow> talks a c"
  by (auto simp: talks_def)

lemma talks_closes: "talks a b \<Longrightarrow> closes_turn b c \<Longrightarrow> closes_turn a c"
  by (auto simp: talks_def closes_turn_def)

lemma talks_emit [simp]: "quiet cs \<Longrightarrow> talks st (emit cs st)"
  by (auto simp: talks_def emit_def)

lemma closes_emit: "quiet cs \<Longrightarrow> oc_finishReason c \<noteq> None \<Longrightarrow> closes_turn st (emit (cs @ [c]) st)"
  by (auto simp: closes_turn_def emit_def)

lemma talks_yields: "co_yields st' = co_yields st \<Longrightarrow> talks st st'"
  by (simp add: talks_def)

lemma emit_sel [simp]:
  "co_error (emit cs st) = co_error st" "co_roundTrips (emit cs st) = co_roundTrips st"
  "co_runs (emit cs st) = co_runs st" "co_ancestor (emit cs st) = co_ancestor st"
  "co_yields (emit cs st) = co_yields st @ cs"
  by (simp_all add: emit_def)

definition role_ok :: "(thrown + 'a option) \<Rightarrow> coord_env \<Rightarrow> coord_state \<Rightarrow> coord_state \<Rightarrow> bool" where
  "role_ok out env st st' \<longleftrightarrow>
     co_runs st' = co_runs st \<and> co_error st' = co_error st \<and> co_roundTrips st \<le> co_roundTrips st'
     \<and> (co_roundTrips st \<le> maxRoundTrips env \<longrightarrow> co_roundTrips st' \<le> maxRoundTrips env + 1)
     \<and> (case out of Inr (Some _) \<Rightarrow> talks st st' \<and> (co_roundTrips st \<le> maxRoundTrips env \<longrightarrow> co_roundTrips st' \<le> maxRoundTrips env)
        | Inr None \<Rightarrow> closes_turn st st' | Inl _ \<Rightarrow> talks st st')"

lemma runRole_ok:
  "\<forall>k anc. quiet (fst (thunk k anc)) \<Longrightarrow> role_ok (fst (runRole env thunk st)) env st (snd (runRole env thunk st))"
proof (induction env thunk st rule: runRole.induct)
  case (1 env thunk st)
  obtain chunks res where th: "thunk (co_calls st) (co_ancestor st) = (chunks, res)" by fastforce
  have q: "quiet chunks" using 1(2) th by (metis fst_conv)
  show ?case
  proof (cases "\<exists>q orc ans. res = Inl (NeedInfo q) \<and> dc_oracle env = Some orc
      \<and> co_roundTrips st + 1 \<le> maxRoundTrips env \<and> orc (co_calls st + 1) q = Inr ans")
    case True
    then obtain q orc ans where o: "res = Inl (NeedInfo q)" "dc_oracle env = Some orc"
        "co_roundTrips st + 1 \<le> maxRoundTrips env" "orc (co_calls st + 1) q = Inr ans" by blast
    let ?st = "(emit chunks st)\<lparr>co_roundTrips := co_roundTrips st + 1, co_calls := co_calls st + 2,
      co_ancestor := (co_ancestor st)\<lparr>cp_observations := cp_observations (co_ancestor st) @ [(q, ans)]\<rparr>\<rparr>"
    have "runRole env thunk st = runRole env thunk ?st"
      using th o by (subst runRole.simps) (simp add: Let_def emit_def)
    moreover have "role_ok (fst (runRole env thunk ?st)) env ?st (snd (runRole env thunk ?st))"
      using 1(1) [of chunks res] th o 1(2) by (simp add: emit_def)
    moreover have "talks st ?st" using q by (auto simp: talks_def)
    ultimately show ?thesis
      using o(3) unfolding role_ok_def
      by (auto split: sum.splits option.splits intro: talks_trans talks_closes)
  next
    case False
    then show ?thesis
      using th q by (subst runRole.simps, subst (2) runRole.simps)
        (auto simp: Let_def role_ok_def talks_def closes_turn_def split: sum.splits thrown.splits option.splits)
  qed
qed

text \<open>What a turn of the loop does: it ends the request with a terminal chunk or with an error, or goes on.\<close>

definition turn_ok :: "coord_env \<Rightarrow> nat \<Rightarrow> coord_state \<Rightarrow> coord_turn \<Rightarrow> bool" where
  "turn_ok env N st t =
     (case t of
        Ended ok st' \<Rightarrow>
          (if ok then closes_turn st st' \<and> co_error st' = co_error st else talks st st' \<and> co_error st' \<noteq> None)
          \<and> co_roundTrips st \<le> co_roundTrips st' \<and> co_runs st' \<le> N
          \<and> (co_roundTrips st \<le> maxRoundTrips env \<longrightarrow> co_roundTrips st' \<le> maxRoundTrips env + 1)
      | Again p st' \<Rightarrow>
          talks st st' \<and> co_error st' = co_error st
          \<and> co_roundTrips st \<le> co_roundTrips st' \<and> co_runs st' \<le> N
          \<and> (co_roundTrips st \<le> maxRoundTrips env \<longrightarrow> co_roundTrips st' \<le> maxRoundTrips env))"

lemma fail_with_sel [simp]:
  "co_yields (fail_with c e st) = co_yields st" "\<exists>a b. co_error (fail_with c e st) = Some (a, b)"
  "co_roundTrips (fail_with c e st) = co_roundTrips st" "co_runs (fail_with c e st) = co_runs st"
  by (simp_all add: fail_with_def split: thrown.splits)

lemma turn_ok_fail:
  "talks st st1 \<Longrightarrow> co_roundTrips st \<le> co_roundTrips st1 \<Longrightarrow> co_runs st1 \<le> N
     \<Longrightarrow> (co_roundTrips st \<le> maxRoundTrips env \<Longrightarrow> co_roundTrips st1 \<le> maxRoundTrips env + 1)
     \<Longrightarrow> turn_ok env N st (Ended False (fail_with c e st1))"
  by (simp add: turn_ok_def talks_def)

lemma role_call:
  assumes "\<forall>k anc. quiet (fst (thunk k anc))"
  obtains out st1 where "runRole env thunk st = (out, st1)" "role_ok out env st st1"
  using runRole_ok [OF assms, of env st] by (cases "runRole env thunk st") auto

lemma role_ok_value: "role_ok (Inr (Some v)) env st st1 \<Longrightarrow>
    talks st st1 \<and> co_error st1 = co_error st \<and> co_runs st1 = co_runs st \<and> co_roundTrips st \<le> co_roundTrips st1
    \<and> (co_roundTrips st \<le> maxRoundTrips env \<longrightarrow> co_roundTrips st1 \<le> maxRoundTrips env)"
  by (simp add: role_ok_def)

lemma role_ok_ended: "role_ok (Inr None) env st st1 \<Longrightarrow> co_runs st \<le> N \<Longrightarrow> turn_ok env N st (Ended True st1)"
  by (simp add: role_ok_def turn_ok_def)

lemma role_ok_thrown:
  "role_ok (Inl e') env st st1 \<Longrightarrow> co_runs st \<le> N \<Longrightarrow> turn_ok env N st (Ended False (fail_with c e st1))"
  by (rule turn_ok_fail) (simp_all add: role_ok_def)

lemma turn_ok_trans:
  assumes "talks st st1" "co_error st1 = co_error st" "co_roundTrips st \<le> co_roundTrips st1"
    and "co_roundTrips st \<le> maxRoundTrips env \<longrightarrow> co_roundTrips st1 \<le> maxRoundTrips env"
    and "turn_ok env N st1 t"
  shows "turn_ok env N st t"
  using assms unfolding turn_ok_def
  by (auto split: coord_turn.splits if_splits intro: talks_trans talks_closes)

lemma role_ok_then: "role_ok (Inr (Some v)) env st st1 \<Longrightarrow> turn_ok env N st1 t \<Longrightarrow> turn_ok env N st t"
  using turn_ok_trans [of st st1 env N t] role_ok_value [of v env st st1] by blast

lemma turn_ok_Again: "role_ok (Inr (Some v)) env st st1 \<Longrightarrow> co_runs st \<le> N \<Longrightarrow> turn_ok env N st (Again p st1)"
  using role_ok_value [of v env st st1] by (simp add: turn_ok_def)

lemma turn_ok_stop: "co_runs st \<le> N \<Longrightarrow> turn_ok env N st (Ended False (fail_with c e st))"
  by (rule turn_ok_fail) simp_all

lemma turn_ok_close: "quiet cs \<Longrightarrow> oc_finishReason c \<noteq> None \<Longrightarrow> turn_ok env (co_runs st) st (Ended True (emit (cs @ [c]) st))"
  using closes_emit [of cs c st] by (simp add: turn_ok_def)

lemma thunks_quiet [simp]:
  "quiet (fst (planner_thunk env fb k anc))" "quiet (fst (finalizer_thunk env fwd r k anc))"
  by (auto simp: planner_thunk_def finalizer_thunk_def quiet_def content_chunk_def split: prod.splits)

lemma finish_stage_ok: "turn_ok env (co_runs st) st (finish_stage env plan fwd r st)"
proof -
  obtain out st1 where r: "runRole env (finalizer_thunk env fwd r) st = (out, st1)" "role_ok out env st st1"
    by (rule role_call [of "finalizer_thunk env fwd r"]) simp_all
  have pend: "turn_ok env (co_runs st) st
      (Ended True (emit [(content_chunk [])\<lparr>oc_toolCalls := cs\<rparr>, terminal_chunk m] st))" for cs m
    using turn_ok_close [of "[(content_chunk [])\<lparr>oc_toolCalls := cs\<rparr>]" "terminal_chunk m" env st]
    by (simp add: content_chunk_def)
  have fin: "turn_ok env (co_runs st) st (Ended True (emit [(terminal_chunk m)\<lparr>oc_iterationEnd := x\<rparr>] st1))"
    if "role_ok (Inr (Some v)) env st st1" for m x v
    using turn_ok_close [of "[]" "(terminal_chunk m)\<lparr>oc_iterationEnd := x\<rparr>" env st1] role_ok_value [OF that]
    by (intro role_ok_then [OF that]) (simp add: terminal_chunk_def)
  show ?thesis
    using r pend fin
    by (auto simp: finish_stage_def role_ok_ended role_ok_thrown split: option.splits list.splits sum.splits)
qed

lemma recover_stage_ok: "turn_ok env (co_runs st) st (recover_stage env r st)"
proof (cases "dc_reviewer env = None \<or> dc_recovery env = None")
  case True
  then show ?thesis
    by (auto simp: recover_stage_def intro!: turn_ok_stop split: option.splits)
next
  case False
  then obtain rv recover where e: "dc_reviewer env = Some rv" "dc_recovery env = Some recover" by auto
  obtain out st1 where r: "runRole env (\<lambda>k anc. ([], recover k (recovery_input r anc))) st = (out, st1)"
      "role_ok out env st st1"
    by (rule role_call [of "\<lambda>k anc. ([], recover k (recovery_input r anc))"]) simp_all
  have "turn_ok env (co_runs st) st (Ended False (fail_with c x st1))" if "role_ok (Inr (Some v)) env st st1" for v c x
    using role_ok_value [OF that] by (intro role_ok_then [OF that] turn_ok_stop) simp
  then show ?thesis
    using r by (auto simp: recover_stage_def e role_ok_ended role_ok_thrown turn_ok_Again
        split: sum.splits option.splits recovery.splits)
qed

lemma forwarded_quiet: "quiet (fst (forwarded env k plan))"
proof -
  have "quiet (fst acc) \<Longrightarrow> quiet (fst (fold (forward_partial fid) ps acc))" for fid ps acc
  proof (induction ps arbitrary: acc)
    case (Cons p ps)
    have "quiet (fst (forward_partial fid p acc))"
      using Cons.prems by (cases p; cases acc) (auto simp: content_chunk_def)
    with Cons.IH show ?case by simp
  qed simp
  then show ?thesis by (simp add: forwarded_def)
qed

lemma run_stage_ok: "turn_ok env (co_runs st + 1) st (run_stage env plan st)"
proof -
  obtain chunks fwd where f: "forwarded env (co_runs st) plan = (chunks, fwd)" by fastforce
  let ?st = "emit chunks (st\<lparr>co_runs := co_runs st + 1\<rparr>)"
  have "quiet chunks" using forwarded_quiet [of env "co_runs st" plan] f by simp
  then have "talks st ?st" by (auto simp: talks_def emit_def)
  moreover have "turn_ok env (co_runs ?st) ?st u" if
      "u = Ended False (fail_with c e ?st) \<or> u = finish_stage env plan fwd r ?st \<or> u = recover_stage env r ?st" for u c e r
    using that finish_stage_ok recover_stage_ok turn_ok_stop by blast
  ultimately have "turn_ok env (co_runs st + 1) st u" if
      "u = Ended False (fail_with c e ?st) \<or> u = finish_stage env plan fwd r ?st \<or> u = recover_stage env r ?st" for u c e r
    using that by (intro turn_ok_trans [of st ?st]) auto
  then show ?thesis
    by (auto simp: run_stage_def f Let_def split: sum.splits)
qed

lemma turn_ok_turn: "turn_ok env (co_runs st + 1) st (turn env plan st)"
proof (cases "dc_reviewer env")
  case None
  then show ?thesis by (simp add: turn_def run_stage_ok del: One_nat_def)
next
  case (Some review)
  obtain out st1 where r: "runRole env (\<lambda>k anc. ([], review k anc plan)) st = (out, st1)" "role_ok out env st st1"
    by (rule role_call [of "\<lambda>k anc. ([], review k anc plan)"]) simp_all
  have "turn_ok env (co_runs st + 1) st
      (case runRole env (planner_thunk env (Some feedback)) st1 of
         (Inl e, st2) \<Rightarrow> Ended False (fail_with ''COORDINATOR_STEP_FAILED'' e st2)
       | (Inr None, st2) \<Rightarrow> Ended True st2
       | (Inr (Some p), st2) \<Rightarrow> Again p st2)" if v: "role_ok (Inr (Some v)) env st st1" for v feedback
  proof -
    obtain out2 st2 where "runRole env (planner_thunk env (Some feedback)) st1 = (out2, st2)" "role_ok out2 env st1 st2"
      by (rule role_call [of "planner_thunk env (Some feedback)"]) simp_all
    with role_ok_value [OF v] show ?thesis
      by (intro role_ok_then [OF v]) (auto simp: role_ok_ended role_ok_thrown turn_ok_Again split: sum.splits option.splits)
  qed
  moreover have "turn_ok env (co_runs st + 1) st (run_stage env plan st1)" if "role_ok (Inr (Some v)) env st st1" for v
    using run_stage_ok [of env st1 plan] role_ok_value [OF that] by (intro role_ok_then [OF that]) simp
  ultimately show ?thesis
    using r by (auto simp: turn_def Some role_ok_ended role_ok_thrown split: sum.splits option.splits review_verdict.splits)
qed

lemma turn_Again_roundTrips: "turn env plan st = Again p st' \<Longrightarrow> co_roundTrips st \<le> co_roundTrips st'"
  using turn_ok_turn [of env st plan] by (simp add: turn_ok_def)

function coord_loop :: "coord_env \<Rightarrow> dag_plan \<Rightarrow> coord_state \<Rightarrow> bool \<times> coord_state" where
  "coord_loop env plan st =
     (let st1 = st\<lparr>co_roundTrips := co_roundTrips st + 1\<rparr> in
      if co_roundTrips st + 1 > maxRoundTrips env then (False, fail_with [] BUDGET_ERROR st1)
      else
        (case turn env plan st1 of
           Ended ok st2 \<Rightarrow> (ok, st2)
         | Again p st2 \<Rightarrow> coord_loop env p st2))"
  by pat_completeness auto
termination
  by (relation "measure (\<lambda>(env, plan, st). nat (maxRoundTrips env - co_roundTrips st))")
     (auto dest!: turn_Again_roundTrips)

declare coord_loop.simps [simp del]

definition coord_execute :: "coord_env \<Rightarrow> history_message list \<Rightarrow> bool \<times> coord_state" where
  "coord_execute env history =
     (let st = \<lparr>co_yields = [], co_error = None, co_ancestor = buildAncestorContext history (dc_inputText env),
               co_roundTrips = 0, co_calls = 0, co_runs = 0\<rparr>
      in case runRole env (planner_thunk env None) st of
           (Inl e, st1) \<Rightarrow> (False, fail_with ''COORDINATOR_PLAN_FAILED'' e st1)
         | (Inr None, st1) \<Rightarrow> (True, st1)
         | (Inr (Some plan), st1) \<Rightarrow> coord_loop env plan st1)"

subsection \<open>Every turn ends\<close>

lemma coord_loop_ok:
  "int (co_runs st) \<le> co_roundTrips st \<Longrightarrow> co_roundTrips st \<le> maxRoundTrips env
     \<Longrightarrow> coord_loop env plan st = (ok, st')
     \<Longrightarrow> (if ok then closes_turn st st' \<and> co_error st' = co_error st else talks st st' \<and> co_error st' \<noteq> None)
       \<and> int (co_runs st') \<le> maxRoundTrips env \<and> co_roundTrips st' \<le> maxRoundTrips env + 1"
proof (induction env plan st arbitrary: ok st' rule: coord_loop.induct)
  case (1 env plan st)
  let ?st1 = "st\<lparr>co_roundTrips := co_roundTrips st + 1\<rparr>"
  show ?case
  proof (cases "co_roundTrips st + 1 > maxRoundTrips env")
    case True
    with 1(2-4) show ?thesis
      by (subst (asm) coord_loop.simps) (auto simp: Let_def talks_def)
  next
    case False
    have t: "turn_ok env (co_runs st + 1) ?st1 (turn env plan ?st1)"
      using turn_ok_turn [of env ?st1 plan] by simp
    have lift: "talks ?st1 s = talks st s" "closes_turn ?st1 s = closes_turn st s" for s
      by (simp_all add: talks_def closes_turn_def)
    show ?thesis
    proof (cases "turn env plan ?st1")
      case (Ended ok2 st2)
      with 1(2-4) False t show ?thesis
        by (subst (asm) coord_loop.simps) (auto simp: Let_def turn_ok_def lift split: if_splits)
    next
      case (Again p st2)
      then have "coord_loop env p st2 = (ok, st')"
        using 1(4) False by (subst (asm) coord_loop.simps) (simp add: Let_def)
      moreover have "talks st st2" "co_error st2 = co_error st" "int (co_runs st2) \<le> co_roundTrips st2"
          "co_roundTrips st2 \<le> maxRoundTrips env"
        using t Again 1(2) False by (auto simp: turn_ok_def lift)
      ultimately show ?thesis
        using 1(1) [OF refl False Again] by (auto split: if_splits intro: talks_trans talks_closes)
    qed
  qed
qed

text \<open>C17. Every request to the DAG coordinator ends, either with success and exactly one terminal chunk, the
  last one it yields, or with failure, an error and no terminal chunk; it interprets plans at most
  maxRoundTrips times and takes at most one round trip too many before it gives up.\<close>

theorem coordinator_ends_every_turn:
  "\<exists>ok st cs. coord_execute env history = (ok, st)
     \<and> (if ok then co_error st = None \<and> (\<exists>c. co_yields st = cs @ [c] \<and> oc_finishReason c \<noteq> None)
        else co_error st \<noteq> None \<and> co_yields st = cs)
     \<and> quiet cs \<and> int (co_runs st) \<le> maxRoundTrips env \<and> co_roundTrips st \<le> maxRoundTrips env + 1"
proof -
  let ?st = "\<lparr>co_yields = [], co_error = None, co_ancestor = buildAncestorContext history (dc_inputText env),
     co_roundTrips = 0, co_calls = 0, co_runs = 0\<rparr>"
  have m: "0 < maxRoundTrips env" by (simp add: maxRoundTrips_def)
  obtain out st1 where r: "runRole env (planner_thunk env None) ?st = (out, st1)" "role_ok out env ?st st1"
    by (rule role_call [of "planner_thunk env None"]) simp_all
  obtain ok st where e: "coord_execute env history = (ok, st)" by fastforce
  have "(if ok then closes_turn ?st st \<and> co_error st = None else talks ?st st \<and> co_error st \<noteq> None)
      \<and> int (co_runs st) \<le> maxRoundTrips env \<and> co_roundTrips st \<le> maxRoundTrips env + 1"
  proof (cases "\<exists>plan. out = Inr (Some plan)")
    case False
    with r e m show ?thesis
      by (auto simp: coord_execute_def role_ok_def talks_def split: sum.splits option.splits)
  next
    case True
    then obtain plan where out: "out = Inr (Some plan)" by blast
    have v: "talks ?st st1" "co_error st1 = None" "co_runs st1 = 0" "0 \<le> co_roundTrips st1"
        "co_roundTrips st1 \<le> maxRoundTrips env"
      using role_ok_value [OF r(2) [unfolded out]] m by simp_all
    have "coord_loop env plan st1 = (ok, st)"
      using e r(1) out by (simp add: coord_execute_def)
    from coord_loop_ok [OF _ v(5) this] v show ?thesis
      by (auto split: if_splits intro: talks_trans talks_closes)
  qed
  then show ?thesis
    using e by (cases ok) (auto simp: closes_turn_def talks_def)
qed

text \<open>The clarification protocol: the question a role asks comes back with its answer on the next request.\<close>

lemma clarification_roundtrip:
  assumes "hm_role parent = ''user''" "hm_content parent = Some request"
  shows "buildAncestorContext
      (h @ [parent, \<lparr>hm_role = ''assistant'', hm_content = Some (CLARIFY_MARKER @ q)\<rparr>]) answer
    = \<lparr>cp_objective = Some request, cp_clarifications = [(trim q, answer)], cp_observations = []\<rparr>"
proof -
  let ?m = "\<lparr>hm_role = ''assistant'', hm_content = Some (CLARIFY_MARKER @ q)\<rparr>"
  let ?h = "h @ [parent, ?m]"
  have last: "?h ! Suc (length h) = ?m" "?h ! length h = parent"
    by (simp_all add: nth_append)
  have at: "elem_at ?h (int (Suc (length h))) = Some ?m" "elem_at ?h (int (length h)) = Some parent"
    using last by (simp_all add: elem_at_def del: of_nat_Suc)
  have "isMarked (Some ?m)" by (simp add: isMarked_def)
  moreover have "int (length ?h) - 1 = int (Suc (length h))" by simp
  ultimately have "marked_index ?h = int (Suc (length h))"
    unfolding marked_index_def Let_def by (simp only: at if_True)
  moreover have "int (Suc (length h)) - 1 = int (length h)" "nat (int (Suc (length h))) = Suc (length h)"
    "0 \<le> int (Suc (length h))" by simp_all
  ultimately show ?thesis
    unfolding buildAncestorContext_def Let_def using assms by (simp only: last at if_True) simp
qed

end
