(* ===== verification/CheckVerdict.thy ===== *)
theory CheckVerdict
  imports PlanParser
begin

text \<open>
  The verdict of a check task: \<open>checkerVerdict\<close>, \<open>parseCheckerVerdict\<close> and \<open>hasDuplicateVerdictKeys\<close> of
  \<open>coordinator/dialogue/structured-plan.ts\<close>, and \<open>compactText\<close> of \<open>task-reference.ts\<close>.

  Two parts of the platform are parameters: the zod schema of a verdict object (\<open>vp_schema\<close>, what
  \<open>verdictSchema.safeParse\<close> answers) and \<open>String.normalize('NFKC')\<close> (\<open>vp_nfkc\<close>).
\<close>

subsection \<open>Bounded text\<close>

definition compactText :: "string \<Rightarrow> nat \<Rightarrow> string" where
  "compactText s limit =
     (if length s \<le> limit then s
      else (let marker = '' [truncated, '' @ nat_str (length s) @ '' chars]'' in
            slice0 (max 0 (int limit - int (length marker))) s @ marker))"

lemma compactText_short [simp]: "length s \<le> limit \<Longrightarrow> compactText s limit = s"
  by (simp add: compactText_def)

lemma length_compactText:
  "length (compactText s limit) \<le> max limit (length ('' [truncated, '' @ nat_str (length s) @ '' chars]''))"
proof (cases "length s \<le> limit")
  case False
  define marker where "marker = '' [truncated, '' @ nat_str (length s) @ '' chars]''"
  have "compactText s limit = take (nat (max 0 (int limit - int (length marker)))) s @ marker"
    using False unfolding compactText_def marker_def Let_def by (simp only: if_False slice0_nonneg max.cobounded1)
  then have "length (compactText s limit) \<le> max limit (length marker)" by auto
  then show ?thesis by (simp only: marker_def)
qed simp

subsection \<open>Verdicts\<close>

datatype pass_fail = CPass | CFail

record check_verdict =
  cv_verdict :: pass_fail
  cv_count :: "nat option"
  cv_note :: "string option"

record verdict_platform =
  vp_schema :: "json \<Rightarrow> check_verdict option"
  vp_nfkc :: "string \<Rightarrow> string"

text \<open>
  The scan for repeated keys.  \<open>skip_literal\<close> is the inner loop from the character after an opening
  quote: the literal up to and with its closing quote, and the rest; an escape jumps over two characters.
\<close>

fun skip_literal :: "string \<Rightarrow> string \<times> string" where
  "skip_literal [] = ([], [])"
| "skip_literal (c # r) =
     (if c = backslash then
        (case r of [] \<Rightarrow> ([c], [])
         | d # r' \<Rightarrow> (case skip_literal r' of (l, t) \<Rightarrow> (c # d # l, t)))
      else if c = quote_char then ([c], r)
      else (case skip_literal r of (l, t) \<Rightarrow> (c # l, t)))"

lemma length_skip_literal: "length (snd (skip_literal s)) \<le> length s"
proof (induction s rule: skip_literal.induct)
  case (2 c r)
  show ?case
  proof (cases "c = backslash")
    case True
    then show ?thesis
      using "2.IH"(1) by (cases r) (auto simp: case_prod_beta intro: le_SucI)
  next
    case False
    then show ?thesis
      using "2.IH"(2) by (cases "c = quote_char") (simp_all add: case_prod_beta le_SucI)
  qed
qed simp

definition is_verdict_key :: "string \<Rightarrow> bool" where
  "is_verdict_key k \<longleftrightarrow> k \<in> {''verdict'', ''count'', ''note''}"

text \<open>\<open>None\<close> is the exception of \<open>JSON.parse\<close> on a malformed key.\<close>

function dup_scan :: "string \<Rightarrow> int \<Rightarrow> string set \<Rightarrow> bool option" where
  "dup_scan [] depth seen = Some False"
| "dup_scan (c # r) depth seen =
     (if c = quote_char then
        (let lit = fst (skip_literal r); rest = snd (skip_literal r) in
         if depth = 1 \<and> take 1 (dropWhile is_space rest) = '':'' then
           (case json_parse (quote_char # lit) of
              Some (JStr key) \<Rightarrow>
                if is_verdict_key key then
                  if key \<in> seen then Some True else dup_scan rest depth (insert key seen)
                else dup_scan rest depth seen
            | _ \<Rightarrow> None)
         else dup_scan rest depth seen)
      else if c = CHR ''{'' \<or> c = CHR ''['' then dup_scan r (depth + 1) seen
      else if c = CHR ''}'' \<or> c = CHR '']'' then dup_scan r (depth - 1) seen
      else dup_scan r depth seen)"
  by pat_completeness auto
termination
  by (relation "measure (\<lambda>(s, _, _). length s)") (auto simp: le_imp_less_Suc length_skip_literal)

declare dup_scan.simps [simp del]

definition hasDuplicateVerdictKeys :: "string \<Rightarrow> bool option" where
  "hasDuplicateVerdictKeys s = dup_scan s 0 {}"

text \<open>The whole-text fence \<open>/^```(?:json)?\s*\r?\n([\s\S]*?)\r?\n```$/i\<close>; its body is trimmed by the caller.\<close>

definition verdict_fence :: "string \<Rightarrow> string option" where
  "verdict_fence s =
     (if \<not> prefix ''```'' s then None
      else
        (let r0 = drop 3 s;
             r = (if map lower (take 4 r0) = ''json'' then drop 4 r0 else r0);
             n = length r
         in case findIndex (\<lambda>c. c = CHR 10) (takeWhile is_space r) of
              None \<Rightarrow> None
            | Some p \<Rightarrow>
                if p + 4 < n \<and> drop (n - 4) r = CHR 10 # ''```'' then Some (drop (p + 1) (take (n - 4) r)) else None))"

definition parseCheckerVerdict :: "verdict_platform \<Rightarrow> string \<Rightarrow> check_verdict option" where
  "parseCheckerVerdict V output =
     (let t0 = trim output in
      if map lower t0 = ''pass'' then Some \<lparr>cv_verdict = CPass, cv_count = None, cv_note = None\<rparr>
      else if map lower t0 = ''fail'' then Some \<lparr>cv_verdict = CFail, cv_count = None, cv_note = None\<rparr>
      else
        (let t = (case verdict_fence t0 of Some b \<Rightarrow> trim b | None \<Rightarrow> t0) in
         if take 1 t \<noteq> ''{'' then None
         else if hasDuplicateVerdictKeys t \<noteq> Some False then None
         else Option.bind (json_parse t) (vp_schema V)))"

text \<open>
  The blank lines \<open>/\r?\n[^\S\r\n]*\r?\n/g\<close>: a match at the head of a text leaves what follows it;
  \<open>segments\<close> collects (text before the match, text after it) from left to right.
\<close>

definition opt_cr :: "string \<Rightarrow> string" where
  "opt_cr s = (if take 1 s = [CHR 13] then drop 1 s else s)"

definition line_end :: "string \<Rightarrow> string option" where
  "line_end s = (let t = opt_cr s in if take 1 t = [CHR 10] then Some (drop 1 t) else None)"

definition inline_space :: "char \<Rightarrow> bool" where
  "inline_space c \<longleftrightarrow> is_space c \<and> c \<noteq> CHR 13 \<and> c \<noteq> CHR 10"

definition blank_line_at :: "string \<Rightarrow> string option" where
  "blank_line_at s = Option.bind (line_end s) (\<lambda>t. line_end (dropWhile inline_space t))"

lemma line_end_length: "line_end s = Some t \<Longrightarrow> length t < length s"
  by (cases s; cases "tl s") (auto simp: line_end_def opt_cr_def Let_def split: if_splits)

lemma blank_line_at_length: "blank_line_at s = Some t \<Longrightarrow> length t < length s"
  unfolding blank_line_at_def bind_eq_Some_conv
  using line_end_length length_dropWhile_le by (metis le_less_trans less_trans)

function segments :: "string \<Rightarrow> string \<Rightarrow> (string \<times> string) list" where
  "segments pre [] = []"
| "segments pre (c # r) =
     (case blank_line_at (c # r) of
        Some t \<Rightarrow> (pre, t) # segments (pre @ take (length (c # r) - length t) (c # r)) t
      | None \<Rightarrow> segments (pre @ [c]) r)"
  by pat_completeness auto
termination
  by (relation "measure (\<lambda>(_, s). length s)") (auto dest: blank_line_at_length)

declare segments.simps [simp del]

text \<open>\<open>/[{}\\]|verdict|\b(?:PASS|FAIL)\b/i.test(prefix)\<close>\<close>

definition word_char :: "char \<Rightarrow> bool" where
  "word_char c \<longleftrightarrow> (let n = (of_char c :: nat) in
     (48 \<le> n \<and> n \<le> 57) \<or> (65 \<le> n \<and> n \<le> 90) \<or> (97 \<le> n \<and> n \<le> 122) \<or> n = 95)"

fun has_word :: "string \<Rightarrow> bool \<Rightarrow> string \<Rightarrow> bool" where
  "has_word w inside [] = False"
| "has_word w inside (c # r) =
     ((\<not> inside \<and> prefix w (map lower (c # r)) \<and> \<not> list_ex word_char (take 1 (drop (length w) (c # r))))
      \<or> has_word w (word_char c) r)"

definition has_marker :: "string \<Rightarrow> bool" where
  "has_marker s \<longleftrightarrow>
     list_ex (\<lambda>c. c = CHR ''{'' \<or> c = CHR ''}'' \<or> c = backslash) s
     \<or> split_at ''verdict'' (map lower s) \<noteq> None
     \<or> has_word ''pass'' False s \<or> has_word ''fail'' False s"

definition checkerVerdict :: "verdict_platform \<Rightarrow> string \<Rightarrow> check_verdict option" where
  "checkerVerdict V output =
     (case parseCheckerVerdict V output of
        Some v \<Rightarrow> Some v
      | None \<Rightarrow>
          (case find (\<lambda>(p, t). parseCheckerVerdict V t \<noteq> None) (rev (segments [] output)) of
             None \<Rightarrow> None
           | Some (p, t) \<Rightarrow> if has_marker (vp_nfkc V p) then None else parseCheckerVerdict V t))"

end
