(* ===== verification/StructuredPlan.thy ===== *)
theory StructuredPlan
  imports CheckVerdict DepSearch
begin

text \<open>
  Model of \<open>coordinator/dialogue/structured-plan.ts\<close> over the types of \<open>interfaces/dialogue.ts\<close>: the plan
  of a dialogue, its merge with a new list of steps, the effect of task events, and its views.

  Steps are mutable objects of the plan; they are addressed by their index, and a loop that mutates steps
  while it reads others is a fold over the indices.  The zod parser of the input is a parameter:
  \<open>mergePlan\<close> takes the list it returns, or \<open>None\<close> when it throws.  The lookup of a task on the board is
  the parameter \<open>getTask\<close>.
\<close>

subsection \<open>Data\<close>

datatype pstate = SPending | SRunning | SDone | SFailed | SSkipped | SBlocked
datatype rkind = KReport | KVerdict

record pstep =
  ps_result :: "rkind option"
  ps_id :: string
  ps_goal :: string
  ps_items :: "string list option"
  ps_dependsOn :: "string list option"
  ps_worker :: "string option"
  ps_state :: pstate
  ps_verdict :: "pass_fail option"
  ps_checked :: "(string \<times> string) list option"
  ps_work :: "string option"
  ps_success :: "string option"
  ps_taskIds :: "string list"
  ps_note :: "string option"

datatype pstatus = PActive | PWaiting | PDone

record dplan =
  pl_scopeConsent :: bool
  pl_steps :: "pstep list"
  pl_status :: pstatus
  pl_question :: "string option"
  pl_note :: "string option"

text \<open>A step of the input, as the schema leaves it.\<close>

record step_input =
  si_id :: string
  si_goal :: string
  si_dependsOn :: "string list option"
  si_worker :: "string option"
  si_result :: "rkind option"
  si_items :: "string list option"
  si_state :: "pstate option"
  si_note :: "string option"

datatype task_state = TQueued | TRunning | TDone | TFailed | TStopped | TInterrupted
datatype task_verdict = Usable check_verdict | Unusable

record result_ref =
  rr_collection :: string
  rr_record :: string
  rr_chars :: nat

record task_rec =
  tk_id :: string
  tk_worker :: string
  tk_goal :: string
  tk_state :: task_state
  tk_result :: "rkind option"
  tk_budgetExhausted :: bool
  tk_toolCalls :: "nat option"
  tk_maxToolCalls :: "nat option"
  tk_verdict :: "task_verdict option"
  tk_output :: "string option"
  tk_summary :: "string option"
  tk_error :: "string option"
  tk_resultRef :: "result_ref option"

datatype event_kind = EStarted | EDone | EFailed | EStopped | ELongRunning

datatype plan_error = InvalidInput | PlanError string

abbreviation step_deps :: "pstep \<Rightarrow> string list" where
  "step_deps s \<equiv> nullish (ps_dependsOn s) []"

abbreviation step_ids :: "dplan \<Rightarrow> string list" where
  "step_ids p \<equiv> map ps_id (pl_steps p)"

definition kind_of :: "rkind option \<Rightarrow> string option \<Rightarrow> rkind" where
  "kind_of result worker = nullish result (if worker = Some ''checker'' then KVerdict else KReport)"

definition resultKind :: "pstep \<Rightarrow> rkind" where
  "resultKind s = kind_of (ps_result s) (ps_worker s)"

definition find_step :: "dplan \<Rightarrow> string \<Rightarrow> pstep option" where
  "find_step p i = find (\<lambda>s. ps_id s = i) (pl_steps p)"

subsection \<open>Reading a plan\<close>

definition dependenciesDone :: "dplan \<Rightarrow> pstep \<Rightarrow> bool" where
  "dependenciesDone p s \<longleftrightarrow>
     list_all (\<lambda>i. list_ex (\<lambda>x. ps_id x = i \<and> ps_state x = SDone) (pl_steps p)) (step_deps s)"

definition readySteps :: "dplan option \<Rightarrow> pstep list" where
  "readySteps plan =
     (case plan of None \<Rightarrow> []
      | Some p \<Rightarrow> filter (\<lambda>s. ps_state s = SPending \<and> dependenciesDone p s) (pl_steps p))"

definition currentWorkTaskId :: "pstep \<Rightarrow> string option" where
  "currentWorkTaskId s =
     (case ps_work s of
        Some i \<Rightarrow> Some i
      | None \<Rightarrow> if ps_state s = SPending \<or> ps_taskIds s = [] then None else Some (last (ps_taskIds s)))"

definition currentAttemptIds :: "pstep \<Rightarrow> string list" where
  "currentAttemptIds s = (if truthy (currentWorkTaskId s) then [the (currentWorkTaskId s)] else [])"

definition checkSourcesCurrent :: "dplan \<Rightarrow> pstep \<Rightarrow> bool" where
  "checkSourcesCurrent p s \<longleftrightarrow>
     list_all (\<lambda>i. case find_step p i of
         None \<Rightarrow> False
       | Some source \<Rightarrow> ps_success source \<noteq> None
           \<and> Option.bind (ps_checked s) (\<lambda>m. map_of m i) = ps_success source) (step_deps s)"

text \<open>\<open>task(id)\<close> behind the test \<open>id ? getTask(id) : undefined\<close>.\<close>

definition task_of :: "(string \<Rightarrow> task_rec option) \<Rightarrow> string \<Rightarrow> task_rec option" where
  "task_of getTask i = (if i = [] then None else getTask i)"

definition is_active :: "task_rec option \<Rightarrow> bool" where
  "is_active t \<longleftrightarrow> map_option tk_state t \<in> {Some TRunning, Some TQueued}"

text \<open>\<open>new Set([...step.taskIds, step.workTaskId])\<close>, without \<open>undefined\<close>.\<close>

definition attempt_ids :: "pstep \<Rightarrow> string list" where
  "attempt_ids s = remdups (ps_taskIds s @ (case ps_work s of None \<Rightarrow> [] | Some i \<Rightarrow> [i]))"

definition has_active_attempt :: "(string \<Rightarrow> task_rec option) \<Rightarrow> pstep \<Rightarrow> bool" where
  "has_active_attempt getTask s \<longleftrightarrow> list_ex (\<lambda>i. is_active (task_of getTask i)) (attempt_ids s)"

text \<open>\<open>task?.state === 'done' && !(step.items && task.budgetExhausted)\<close>\<close>

definition work_succeeded :: "pstep \<Rightarrow> task_rec \<Rightarrow> bool" where
  "work_succeeded s t \<longleftrightarrow> tk_state t = TDone \<and> \<not> (ps_items s \<noteq> None \<and> tk_budgetExhausted t)"

subsection \<open>Writing a step\<close>

definition restoreSuccessfulWork :: "(string \<Rightarrow> task_rec option) \<Rightarrow> pstep \<Rightarrow> pstep" where
  "restoreSuccessfulWork getTask s =
     (if ps_success s \<noteq> None \<or> ps_state s = SPending then s
      else
        (case currentWorkTaskId s of
           None \<Rightarrow> s
         | Some i \<Rightarrow>
             if i \<noteq> [] \<and> i \<in> set (ps_taskIds s)
               \<and> (case getTask i of None \<Rightarrow> False | Some t \<Rightarrow> work_succeeded s t)
             then s\<lparr>ps_work := Some i, ps_success := Some i\<rparr>
             else s))"

definition STALE_NOTE :: string where
  "STALE_NOTE = ''Checked results changed; delegate this check again for the current results''"

definition resetStaleCheck :: "pstep \<Rightarrow> pstep" where
  "resetStaleCheck s =
     s\<lparr>ps_state := SPending, ps_verdict := None, ps_checked := None, ps_work := None, ps_success := None,
       ps_note := Some STALE_NOTE\<rparr>"

text \<open>
  \<open>restoreLegacyStep\<close> of a stored step: \<open>legacy\<close> is the \<open>taskId\<close> of its field \<open>check\<close> when it has one,
  \<open>checking\<close> says whether its stored state is the old state \<open>checking\<close>.
\<close>

definition restoreLegacyStep :: "string option option \<Rightarrow> bool \<Rightarrow> pstep \<Rightarrow> pstep" where
  "restoreLegacyStep legacy checking s =
     (let s1 = s\<lparr>ps_result := Some (resultKind s)\<rparr>;
          s2 = (case legacy of
                  None \<Rightarrow> s1
                | Some checkId \<Rightarrow>
                    if truthy (ps_work s1) then s1
                    else (let earlier = filter (\<lambda>i. Some i \<noteq> checkId) (ps_taskIds s1) in
                          s1\<lparr>ps_work := (if earlier = [] then None else Some (last earlier))\<rparr>))
      in if checking then
           s2\<lparr>ps_state := SDone,
              ps_note := Some (join ''; '' ((if truthy (ps_note s2) then [the (ps_note s2)] else [])
                @ [''Legacy check was not run; plan a separate check step if needed'']))\<rparr>
         else s2)"

definition update_step :: "nat \<Rightarrow> (pstep \<Rightarrow> pstep) \<Rightarrow> dplan \<Rightarrow> dplan" where
  "update_step i f p = p\<lparr>pl_steps := (pl_steps p)[i := f (pl_steps p ! i)]\<rparr>"

definition recomputePlanStatus :: "dplan \<Rightarrow> dplan" where
  "recomputePlanStatus p =
     (if pl_steps p = [] \<or> pl_status p = PWaiting then p
      else if list_all (\<lambda>s. ps_state s = SDone \<or> ps_state s = SSkipped) (pl_steps p)
      then p\<lparr>pl_status := PDone, pl_question := None\<rparr>
      else if pl_status p = PDone then p\<lparr>pl_status := PActive\<rparr>
      else p)"

subsection \<open>Merging a new list of steps\<close>

record merge_options =
  mo_consent :: bool
  mo_maxItemsPerStep :: "int option"
  mo_resolveResult :: "(string \<Rightarrow> string \<Rightarrow> rkind option) option"
  mo_getTask :: "(string \<Rightarrow> task_rec option) option"

definition find_input :: "step_input list \<Rightarrow> string \<Rightarrow> step_input option" where
  "find_input steps i = find (\<lambda>s. si_id s = i) steps"

text \<open>An old step that disappears unfinished, or loses an item.\<close>

definition narrows :: "step_input list \<Rightarrow> pstep \<Rightarrow> bool" where
  "narrows steps old \<longleftrightarrow>
     (case find_input steps (ps_id old) of
        None \<Rightarrow> (ps_state old \<noteq> SDone \<and> ps_state old \<noteq> SSkipped) \<or> nullish (ps_items old) [] \<noteq> []
      | Some next \<Rightarrow> list_ex (\<lambda>item. item \<notin> set (nullish (si_items next) [])) (nullish (ps_items old) []))"

definition newly_skipped :: "pstep list \<Rightarrow> step_input \<Rightarrow> bool" where
  "newly_skipped oldSteps s \<longleftrightarrow>
     si_state s = Some SSkipped
     \<and> map_option ps_state (find (\<lambda>old. ps_id old = si_id s) oldSteps) \<noteq> Some SSkipped"

definition too_many_items :: "int option \<Rightarrow> step_input \<Rightarrow> bool" where
  "too_many_items limit s \<longleftrightarrow>
     (case limit of None \<Rightarrow> False | Some n \<Rightarrow> int (length (nullish (si_items s) [])) > n)"

definition bad_dependency :: "string list \<Rightarrow> step_input \<Rightarrow> bool" where
  "bad_dependency ids s \<longleftrightarrow> list_ex (\<lambda>d. d \<notin> set ids \<or> d = si_id s) (nullish (si_dependsOn s) [])"

definition step_error :: "string list \<Rightarrow> step_input \<Rightarrow> plan_error option" where
  "step_error ids s =
     (if bad_dependency ids s then Some (PlanError ''invalid dependency'')
      else if si_state s = Some SSkipped \<and> \<not> truthy (map_option trim (si_note s))
      then Some (PlanError ''skipped requires a note'')
      else None)"

fun first_error :: "('a \<Rightarrow> 'e option) \<Rightarrow> 'a list \<Rightarrow> 'e option" where
  "first_error f [] = None"
| "first_error f (x # xs) = (case f x of Some e \<Rightarrow> Some e | None \<Rightarrow> first_error f xs)"

lemma first_error_None_iff: "first_error f xs = None \<longleftrightarrow> (\<forall>x \<in> set xs. f x = None)"
  by (induction xs) (auto split: option.splits)

text \<open>The marks of the cycle search: the sets \<open>visiting\<close> and \<open>visited\<close>.\<close>

type_synonym marks = "string set \<times> string set"

definition plan_colour :: "marks \<Rightarrow> string \<Rightarrow> colour" where
  "plan_colour m i = (if i \<in> fst m then Grey else if i \<in> snd m then Black else White)"

definition plan_enter :: "string \<Rightarrow> marks \<Rightarrow> marks" where
  "plan_enter i m = (insert i (fst m), snd m)"

definition plan_leave :: "string \<Rightarrow> marks \<Rightarrow> marks" where
  "plan_leave i m = (fst m - {i}, insert i (snd m))"

interpretation plan_marks: dep_marks plan_colour plan_enter plan_leave
  by unfold_locales (auto simp: plan_colour_def plan_enter_def plan_leave_def)

definition input_deps :: "step_input list \<Rightarrow> string \<Rightarrow> string list" where
  "input_deps steps i = (case find_input steps i of None \<Rightarrow> [] | Some s \<Rightarrow> nullish (si_dependsOn s) [])"

definition cycle_error :: "step_input list \<Rightarrow> plan_error option" where
  "cycle_error steps =
     (case dfs_list plan_colour plan_enter plan_leave (input_deps steps) (Suc (length steps))
             (map si_id steps) ({}, {}) of
        Some (Inl c) \<Rightarrow> Some (PlanError ''cyclic dependencies'')
      | _ \<Rightarrow> None)"

definition CONSENT_ERROR :: string where
  "CONSENT_ERROR = ''Skipping or narrowing requires user consent: set waiting_user with a question and wait for a user message before updating the plan''"

text \<open>The checks of \<open>mergePlan\<close> before it builds the new steps.\<close>

definition merge_check ::
    "pstep list \<Rightarrow> step_input list \<Rightarrow> pstatus \<Rightarrow> string option \<Rightarrow> merge_options \<Rightarrow> plan_error option" where
  "merge_check oldSteps steps status question opts =
     (let ids = map si_id steps in
      if status = PWaiting \<and> \<not> truthy (map_option trim question)
      then Some (PlanError ''waiting_user requires question'')
      else if \<not> mo_consent opts \<and> (list_ex (narrows steps) oldSteps \<or> list_ex (newly_skipped oldSteps) steps)
      then Some (PlanError CONSENT_ERROR)
      else
        (case find (too_many_items (mo_maxItemsPerStep opts)) steps of
           Some s \<Rightarrow> Some (PlanError (''Step '' @ si_id s @ '' exceeds maxItemsPerStep ''
                       @ int_str (the (mo_maxItemsPerStep opts)) @ ''; split the step''))
         | None \<Rightarrow>
             if \<not> distinct ids then Some (PlanError ''duplicate step id'')
             else
               (case first_error (step_error ids) steps of
                  Some e \<Rightarrow> Some e
                | None \<Rightarrow> cycle_error steps)))"

text \<open>One new step.\<close>

definition merged_result :: "merge_options \<Rightarrow> step_input \<Rightarrow> pstep option \<Rightarrow> rkind" where
  "merged_result opts s old =
     (case si_result s of
        Some k \<Rightarrow> k
      | None \<Rightarrow>
          if truthy (si_worker s) then
            nullish (case mo_resolveResult opts of None \<Rightarrow> None | Some f \<Rightarrow> f (the (si_worker s)) (si_id s))
              (kind_of (si_result s) (si_worker s))
          else (case old of Some o1 \<Rightarrow> resultKind o1 | None \<Rightarrow> KReport))"

definition merged_worker :: "rkind \<Rightarrow> step_input \<Rightarrow> pstep option \<Rightarrow> string option" where
  "merged_worker result s old =
     (case old of
        None \<Rightarrow> si_worker s
      | Some o1 \<Rightarrow>
          if result \<noteq> resultKind o1 then None
          else (case si_worker s of Some w \<Rightarrow> Some w | None \<Rightarrow> ps_worker o1))"

text \<open>The old step, a copy with its marker of successful work restored where tasks can be looked up.\<close>

definition old_step :: "merge_options \<Rightarrow> pstep list \<Rightarrow> step_input \<Rightarrow> pstep option" where
  "old_step opts oldSteps s =
     (case (find (\<lambda>x. ps_id x = si_id s) oldSteps, mo_getTask opts) of
        (Some x, Some getTask) \<Rightarrow> Some (restoreSuccessfulWork getTask x)
      | (p, _) \<Rightarrow> p)"

definition effectiveState :: "step_input \<Rightarrow> pstep option \<Rightarrow> pstate" where
  "effectiveState s old = nullish (si_state s) (case old of Some x \<Rightarrow> ps_state x | None \<Rightarrow> SPending)"

definition roleChanged :: "merge_options \<Rightarrow> step_input \<Rightarrow> pstep option \<Rightarrow> bool" where
  "roleChanged opts s old \<longleftrightarrow>
     (let result = merged_result opts s old in
      result \<noteq> (case old of Some x \<Rightarrow> resultKind x | None \<Rightarrow> KReport)
      \<or> merged_worker result s old \<noteq> Option.bind old ps_worker)"

definition dependenciesChanged :: "step_input \<Rightarrow> pstep option \<Rightarrow> bool" where
  "dependenciesChanged s old \<longleftrightarrow> nullish (si_dependsOn s) [] \<noteq> nullish (Option.bind old ps_dependsOn) []"

definition itemsChanged :: "step_input \<Rightarrow> pstep option \<Rightarrow> bool" where
  "itemsChanged s old \<longleftrightarrow> Option.bind old ps_items \<noteq> si_items s"

definition identityChanged :: "merge_options \<Rightarrow> step_input \<Rightarrow> pstep option \<Rightarrow> bool" where
  "identityChanged opts s old \<longleftrightarrow> roleChanged opts s old \<or> dependenciesChanged s old"

definition reopens :: "step_input \<Rightarrow> pstep option \<Rightarrow> bool" where
  "reopens s old \<longleftrightarrow> effectiveState s old = SPending \<or> effectiveState s old = SSkipped"

text \<open>The errors of one step, in the order of their tests.\<close>

definition merge_step_error :: "merge_options \<Rightarrow> step_input \<Rightarrow> pstep option \<Rightarrow> plan_error option" where
  "merge_step_error opts s old =
     (if old \<noteq> None \<and> identityChanged opts s old \<and> \<not> reopens s old
      then Some (PlanError ''Changing worker role or dependencies requires reopening the step as pending'')
      else if old \<noteq> None \<and> (identityChanged opts s old \<or> effectiveState s old = SPending)
        \<and> (case mo_getTask opts of None \<Rightarrow> False | Some getTask \<Rightarrow> has_active_attempt getTask (the old))
      then Some (PlanError ''Cannot change an active attempt; stop it first'')
      else if (si_items s \<noteq> None \<or> Option.bind old ps_items \<noteq> None) \<and> old \<noteq> None \<and> itemsChanged s old \<and> \<not> reopens s old
      then Some (PlanError ''Changed batch items require reopening the step as pending and a fresh work/check attempt'')
      else if \<not> distinct (nullish (si_items s) []) then Some (PlanError ''Step items must be unique identifiers'')
      else if effectiveState s old = SRunning \<and> map_option ps_state old \<noteq> Some SRunning
      then Some (PlanError ''Running state follows actual work attempts'')
      else if si_state s = Some SDone \<and> map_option ps_state old \<noteq> Some SDone
      then Some (PlanError ''Done requires a successful current task result'')
      else None)"

definition merged_step :: "merge_options \<Rightarrow> step_input \<Rightarrow> pstep option \<Rightarrow> pstep" where
  "merged_step opts s old =
     (let result = merged_result opts s old;
          fresh = (itemsChanged s old \<or> identityChanged opts s old);
          clearEvidence = (fresh \<or> effectiveState s old = SPending)
      in \<lparr>ps_result = Some result, ps_id = si_id s, ps_goal = si_goal s, ps_items = si_items s,
          ps_dependsOn = si_dependsOn s, ps_worker = merged_worker result s old,
          ps_state = (if old \<noteq> None then effectiveState s old
                      else if si_state s = Some SSkipped then SSkipped else SPending),
          ps_verdict = (if clearEvidence then None else Option.bind old ps_verdict),
          ps_checked = (if clearEvidence then None else Option.bind old ps_checked),
          ps_work = (if clearEvidence then None else Option.bind old ps_work),
          ps_success = (if clearEvidence then None else Option.bind old ps_success),
          ps_taskIds = (if fresh then [] else case old of None \<Rightarrow> [] | Some x \<Rightarrow> ps_taskIds x),
          ps_note = (case si_note s of Some n \<Rightarrow> Some n | None \<Rightarrow> Option.bind old ps_note)\<rparr>)"

definition merge_step :: "merge_options \<Rightarrow> pstep list \<Rightarrow> step_input \<Rightarrow> plan_error + pstep" where
  "merge_step opts oldSteps s =
     (let old = old_step opts oldSteps s in
      case merge_step_error opts s old of Some e \<Rightarrow> Inl e | None \<Rightarrow> Inr (merged_step opts s old))"

fun merge_steps :: "merge_options \<Rightarrow> pstep list \<Rightarrow> step_input list \<Rightarrow> plan_error + pstep list" where
  "merge_steps opts oldSteps [] = Inr []"
| "merge_steps opts oldSteps (s # rest) =
     (case merge_step opts oldSteps s of
        Inl e \<Rightarrow> Inl e
      | Inr x \<Rightarrow> (case merge_steps opts oldSteps rest of Inl e \<Rightarrow> Inl e | Inr xs \<Rightarrow> Inr (x # xs)))"

text \<open>The last loop: a check whose sources are no longer the checked ones is reset.\<close>

definition drop_stale_check :: "nat \<Rightarrow> dplan \<Rightarrow> dplan" where
  "drop_stale_check i p =
     (let s = pl_steps p ! i in
      if resultKind s = KVerdict \<and> (ps_verdict s \<noteq> None \<or> ps_checked s \<noteq> None) \<and> \<not> checkSourcesCurrent p s
      then update_step i resetStaleCheck p
      else p)"

definition drop_stale_checks :: "dplan \<Rightarrow> dplan" where
  "drop_stale_checks p = fold drop_stale_check [0..<length (pl_steps p)] p"

definition mergePlan ::
    "dplan option \<Rightarrow> step_input list option \<Rightarrow> pstatus \<Rightarrow> string option \<Rightarrow> merge_options \<Rightarrow> plan_error + dplan" where
  "mergePlan previous input status question opts =
     (case input of
        None \<Rightarrow> Inl InvalidInput
      | Some steps \<Rightarrow>
          (let oldSteps = (case previous of None \<Rightarrow> [] | Some p \<Rightarrow> pl_steps p) in
           case merge_check oldSteps steps status question opts of
             Some e \<Rightarrow> Inl e
           | None \<Rightarrow>
               (case merge_steps opts oldSteps steps of
                  Inl e \<Rightarrow> Inl e
                | Inr xs \<Rightarrow>
                    Inr (drop_stale_checks
                      \<lparr>pl_scopeConsent = False, pl_steps = xs, pl_status = status, pl_question = question,
                       pl_note = None\<rparr>))))"

subsection \<open>Task events\<close>

definition budget_text :: "task_rec \<Rightarrow> string" where
  "budget_text t =
     ''Worker hit the tool-call budget '' @ (case tk_toolCalls t of None \<Rightarrow> ''?'' | Some n \<Rightarrow> nat_str n) @ ''/''
       @ (case tk_maxToolCalls t of None \<Rightarrow> ''?'' | Some n \<Rightarrow> nat_str n)"

definition event_name :: "event_kind \<Rightarrow> string" where
  "event_name k =
     (case k of EStarted \<Rightarrow> ''started'' | EDone \<Rightarrow> ''done'' | EFailed \<Rightarrow> ''failed''
        | EStopped \<Rightarrow> ''stopped'' | ELongRunning \<Rightarrow> ''long_running'')"

definition pass_fail_name :: "pass_fail \<Rightarrow> string" where
  "pass_fail_name v = (case v of CPass \<Rightarrow> ''pass'' | CFail \<Rightarrow> ''fail'')"

text \<open>The items of the steps a check depends on.\<close>

definition expected_items :: "dplan \<Rightarrow> pstep \<Rightarrow> string list" where
  "expected_items p s =
     concat (map (\<lambda>i. case find_step p i of None \<Rightarrow> [] | Some x \<Rightarrow> nullish (ps_items x) []) (step_deps s))"

definition verdict_of_task :: "verdict_platform \<Rightarrow> task_rec \<Rightarrow> check_verdict option" where
  "verdict_of_task V t =
     (case tk_verdict t of
        Some (Usable v) \<Rightarrow> Some v
      | Some Unusable \<Rightarrow> None
      | None \<Rightarrow> checkerVerdict V (nullish (tk_output t) []))"

definition settle_check :: "verdict_platform \<Rightarrow> dplan \<Rightarrow> task_rec \<Rightarrow> pstep \<Rightarrow> pstep" where
  "settle_check V p t s =
     (case verdict_of_task V t of
        None \<Rightarrow>
          s\<lparr>ps_verdict := Some CFail, ps_state := SFailed,
            ps_note := Some ''Checker returned an unusable verdict; plan a fix step and a new check''\<rparr>
      | Some v \<Rightarrow>
          (let expected = expected_items p s;
               short = (length expected > 0
                        \<and> (case cv_count v of None \<Rightarrow> True | Some n \<Rightarrow> n < length expected));
               verdict = (if short then CFail else cv_verdict v)
           in s\<lparr>ps_verdict := Some verdict,
                ps_state := (if verdict = CPass then SDone else SFailed),
                ps_note := Some (compactText
                  (if short
                   then ''Count '' @ (case cv_count v of None \<Rightarrow> ''missing'' | Some n \<Rightarrow> nat_str n) @ ''/''
                          @ nat_str (length expected) @ '': missing item results''
                   else nullish (cv_note v) (pass_fail_name (cv_verdict v))) 600)\<rparr>))"

text \<open>The outcome of the current attempt, from the tests on the budget on.\<close>

definition settle_step :: "verdict_platform \<Rightarrow> dplan \<Rightarrow> task_rec \<Rightarrow> event_kind \<Rightarrow> pstep \<Rightarrow> pstep" where
  "settle_step V p t kind s =
     (let taskKind = nullish (tk_result t) (resultKind s) in
      if ps_items s \<noteq> None \<and> tk_budgetExhausted t then
        s\<lparr>ps_verdict := (if taskKind = KVerdict then Some CFail else ps_verdict s), ps_state := SFailed,
          ps_note := Some (compactText (budget_text t @ ''; split the step ('' @ nat_str (length (the (ps_items s)))
            @ '' items) before retrying'') 600)\<rparr>
      else if kind \<noteq> EDone then
        s\<lparr>ps_verdict := (if resultKind s = KVerdict then Some CFail else ps_verdict s), ps_state := SFailed,
          ps_note := Some (compactText (nullish (tk_error t) (event_name kind)) 600)\<rparr>
      else if taskKind = KVerdict then settle_check V p t s
      else
        s\<lparr>ps_state := SDone,
          ps_note := (if tk_budgetExhausted t
            then Some (compactText (budget_text t @ ''; verify the result is complete or split the step'') 600)
            else ps_note s)\<rparr>)"

definition record_success :: "task_rec \<Rightarrow> event_kind \<Rightarrow> pstep \<Rightarrow> pstep" where
  "record_success t kind s =
     s\<lparr>ps_work := Some (tk_id t),
       ps_success := (if kind = EDone \<and> work_succeeded s t then Some (tk_id t) else None)\<rparr>"

text \<open>A new success of the step \<open>stepId\<close> resets the checks of an older result.\<close>

definition invalidate_check :: "string \<Rightarrow> nat \<Rightarrow> dplan \<Rightarrow> dplan" where
  "invalidate_check stepId j p =
     (let c = pl_steps p ! j in
      if resultKind c = KVerdict \<and> ps_state c \<noteq> SSkipped \<and> stepId \<in> set (step_deps c)
        \<and> \<not> checkSourcesCurrent p c
      then update_step j resetStaleCheck p
      else p)"

definition event_step :: "(string \<Rightarrow> string option) \<Rightarrow> task_rec \<Rightarrow> dplan \<Rightarrow> nat option" where
  "event_step taskSteps t p =
     findIndex (\<lambda>s. case taskSteps (tk_id t) of
         None \<Rightarrow> tk_id t \<in> set (ps_taskIds s)
       | Some owner \<Rightarrow> ps_id s = owner) (pl_steps p)"

definition applyTaskEvent ::
    "verdict_platform \<Rightarrow> (string \<Rightarrow> string option) \<Rightarrow> task_rec \<Rightarrow> event_kind \<Rightarrow> dplan \<Rightarrow> dplan" where
  "applyTaskEvent V taskSteps t kind p =
     (case event_step taskSteps t p of
        None \<Rightarrow> p
      | Some i \<Rightarrow>
          (let s = pl_steps p ! i in
           if ps_state s = SSkipped \<or> kind = EStarted \<or> kind = ELongRunning then p
           else if tk_id t \<notin> set (currentAttemptIds s) then p
           else if resultKind s = KVerdict \<and> \<not> checkSourcesCurrent p s then update_step i resetStaleCheck p
           else
             (let p1 = (if currentWorkTaskId s = Some (tk_id t) then update_step i (record_success t kind) p else p);
                  p2 = (if truthy (ps_success (pl_steps p1 ! i))
                        then fold (invalidate_check (ps_id s)) [0..<length (pl_steps p1)] p1
                        else p1)
              in update_step i (settle_step V p2 t kind) p2)))"

subsection \<open>Delivery and views\<close>

definition deliveryChecksPassed :: "dplan \<Rightarrow> string \<Rightarrow> bool" where
  "deliveryChecksPassed p stepId =
     (let checks = filter (\<lambda>s. resultKind s = KVerdict \<and> stepId \<in> set (step_deps s)) (pl_steps p);
          latest = filter (\<lambda>s. \<not> list_ex (\<lambda>next. ps_id s \<in> set (step_deps next)) checks) checks
      in if checks = [] then True
         else list_ex (\<lambda>s. ps_state s = SDone \<and> ps_verdict s = Some CPass \<and> checkSourcesCurrent p s) latest
           \<and> \<not> list_ex (\<lambda>s. ps_state s = SFailed \<or> ps_verdict s = Some CFail) latest)"

definition priority :: "dplan \<Rightarrow> pstep \<Rightarrow> nat" where
  "priority p s =
     (if ps_state s = SPending \<and> dependenciesDone p s then 0
      else if ps_state s = SRunning then 1
      else if ps_state s = SPending then 2
      else if ps_state s = SFailed \<or> ps_state s = SBlocked then 3
      else 4)"

definition state_name :: "pstate \<Rightarrow> string" where
  "state_name st =
     (case st of SPending \<Rightarrow> ''pending'' | SRunning \<Rightarrow> ''running'' | SDone \<Rightarrow> ''done''
        | SFailed \<Rightarrow> ''failed'' | SSkipped \<Rightarrow> ''skipped'' | SBlocked \<Rightarrow> ''blocked'')"

definition status_name :: "pstatus \<Rightarrow> string" where
  "status_name st = (case st of PActive \<Rightarrow> ''active'' | PWaiting \<Rightarrow> ''waiting_user'' | PDone \<Rightarrow> ''done'')"

text \<open>\<open>s.replace(/\s+/g, ' ')\<close>\<close>

fun squash :: "bool \<Rightarrow> string \<Rightarrow> string" where
  "squash inRun [] = []"
| "squash inRun (c # r) =
     (if is_space c then (if inRun then squash True r else CHR 32 # squash True r) else c # squash False r)"

definition count_state :: "pstep \<Rightarrow> (pstate \<times> nat) list \<Rightarrow> (pstate \<times> nat) list" where
  "count_state s m = AList.update (ps_state s) (nullish (map_of m (ps_state s)) 0 + 1) m"

definition paren :: "string \<Rightarrow> string" where
  "paren s = '' ('' @ s @ '')''"

definition step_line :: "dplan \<Rightarrow> pstep \<Rightarrow> string" where
  "step_line p s =
     (let work = currentWorkTaskId s;
          older = length (filter (\<lambda>i. i \<notin> set (currentAttemptIds s)) (ps_taskIds s));
          attempts = (if truthy work then [''work '' @ the work] else [])
            @ (if older > 0 then [nat_str older @ '' older attempts''] else [])
      in ps_id s @ '' '' @ (if ps_state s = SPending \<and> dependenciesDone p s then ''ready'' else state_name (ps_state s))
         @ '' '' @ squash False (ps_goal s)
         @ (if step_deps s \<noteq> [] then paren (''depends on '' @ join '', '' (step_deps s)) else [])
         @ (if attempts \<noteq> [] then paren (join '', '' attempts) else [])
         @ (case ps_items s of None \<Rightarrow> [] | Some xs \<Rightarrow> ''; items: '' @ nat_str (length xs))
         @ (if truthy (ps_note s) then '' '' @ [CHR 0xB7] @ '' '' @ compactText (the (ps_note s)) 600 else []))"

definition planView :: "dplan option \<Rightarrow> string" where
  "planView plan =
     (case plan of
        None \<Rightarrow> ''[plan] status: active'' @ newline @ ''none''
      | Some p \<Rightarrow>
          (let sorted = sort_key (priority p) (pl_steps p);
               visible = take 40 sorted;
               collapsed = fold count_state (drop (length visible) sorted) []
           in join newline (filter (\<lambda>l. l \<noteq> [])
                ([''[plan] status: '' @ status_name (pl_status p), nullish (pl_question p) [], nullish (pl_note p) []]
                 @ map (\<lambda>(st, n). ''('' @ nat_str n @ '' '' @ state_name st @ '' steps collapsed; use plan_get)'') collapsed
                 @ map (step_line p) visible))))"

text \<open>\<open>taskNotice\<close> of \<open>task-reference.ts\<close>: the line on a task that the planner sees.\<close>

definition notice_verdict :: "verdict_platform \<Rightarrow> task_rec \<Rightarrow> string option" where
  "notice_verdict V t =
     (case tk_verdict t of
        Some Unusable \<Rightarrow> Some ''unusable''
      | Some (Usable v) \<Rightarrow> Some (pass_fail_name (cv_verdict v))
      | None \<Rightarrow> map_option (\<lambda>v. pass_fail_name (cv_verdict v)) (checkerVerdict V (nullish (tk_output t) [])))"

definition task_state_word :: "task_state \<Rightarrow> string" where
  "task_state_word st =
     (case st of TQueued \<Rightarrow> ''queued'' | TRunning \<Rightarrow> ''running'' | TDone \<Rightarrow> ''done'' | TFailed \<Rightarrow> ''failed''
        | TStopped \<Rightarrow> ''stopped'' | TInterrupted \<Rightarrow> ''interrupted'')"

definition taskNotice :: "verdict_platform \<Rightarrow> task_rec \<Rightarrow> string" where
  "taskNotice V t =
     (let text = (case tk_error t of Some e \<Rightarrow> e | None \<Rightarrow> nullish (tk_output t) []);
          summary = (case tk_summary t of Some s \<Rightarrow> s | None \<Rightarrow> squash False text);
          shown = (\<lambda>n. case n of None \<Rightarrow> ''?'' | Some k \<Rightarrow> nat_str k)
      in ''task '' @ tk_id t @ paren (tk_worker t) @ '' '' @ task_state_word (tk_state t)
         @ ''; kind: '' @ (if tk_result t = Some KVerdict then ''verdict'' else ''report'')
         @ (case notice_verdict V t of None \<Rightarrow> [] | Some v \<Rightarrow> ''; verdict: '' @ v)
         @ ''; summary: '' @ compactText summary 600
         @ ''; chars: '' @ nat_str (case tk_resultRef t of Some r \<Rightarrow> rr_chars r
             | None \<Rightarrow> length (nullish (tk_output t) []))
         @ ''; '' @ (case tk_resultRef t of Some r \<Rightarrow> ''result: '' @ rr_collection r @ ''/'' @ rr_record r
             | None \<Rightarrow> ''result: not stored'')
         @ ''; goal: '' @ compactText (tk_goal t) 200
         @ (case tk_error t of None \<Rightarrow> [] | Some e \<Rightarrow> ''; error: '' @ compactText e 600)
         @ (if tk_budgetExhausted t
            then ''; worker hit the tool-call budget '' @ shown (tk_toolCalls t) @ ''/'' @ shown (tk_maxToolCalls t)
            else []))"

end
