(* ===== verification/PlanFlow.thy ===== *)
theory PlanFlow
  imports PlannerTools
begin

text \<open>
  The plan of a dialogue under every interleaving of planner tools, task progress and task events.

  \<open>flow_step\<close> is the step relation: the tools of \<open>PlannerTools\<close> run in any order, a delegation in its three
  steps, the task board makes progress of its own, and the event of a settled task is applied at any time,
  also late or more than once.  What the plan relies on from the board is the locale \<open>board_contract\<close>; it is
  interpreted on the model of the task board.  \<open>flow_inv\<close> is the invariant: the plan is a DAG of distinct
  steps, and what a step claims is backed by the tasks on the board.
\<close>

subsection \<open>The interface of the board\<close>

text \<open>How a task record may change: its kind never, and a done task stays done with its budget flag.\<close>

definition later :: "task_rec option \<Rightarrow> task_rec option \<Rightarrow> bool" where
  "later x y \<longleftrightarrow>
     (case x of None \<Rightarrow> True
      | Some t \<Rightarrow> (case y of None \<Rightarrow> False
          | Some t' \<Rightarrow> tk_result t' = tk_result t
              \<and> (tk_state t = TDone \<longrightarrow> tk_state t' = TDone \<and> tk_budgetExhausted t' = tk_budgetExhausted t)))"

lemma later_refl [simp]: "later x x"
  by (simp add: later_def split: option.split)

lemma later_result: "later x y \<Longrightarrow> x = Some t \<Longrightarrow> \<exists>t'. y = Some t' \<and> tk_result t' = tk_result t"
  by (auto simp: later_def split: option.splits)

lemma later_done:
  "later x y \<Longrightarrow> x = Some t \<Longrightarrow> tk_state t = TDone \<Longrightarrow>
   \<exists>t'. y = Some t' \<and> tk_state t' = TDone \<and> tk_budgetExhausted t' = tk_budgetExhausted t"
  by (auto simp: later_def split: option.splits)

subsection \<open>The steps\<close>

type_synonym prepared = "task_request \<times> (string \<times> string) list option"

record 'b flow =
  fl_scope :: "'b scope"
  fl_flight :: "(delegation \<times> prepared option) list"

text \<open>The event of the task \<open>t\<close> reaches the session, which applies it and recomputes the plan status.\<close>

definition deliver_event :: "verdict_platform \<Rightarrow> task_rec \<Rightarrow> event_kind \<Rightarrow> 'b scope \<Rightarrow> 'b scope" where
  "deliver_event V t kind sc =
     sc\<lparr>sc_plan := map_option (\<lambda>p. recomputePlanStatus (applyTaskEvent V (sc_taskSteps sc) t kind p)) (sc_plan sc)\<rparr>"

text \<open>A user message: an answer to a waiting question gives the consent to narrow the plan once.\<close>

definition user_message :: "'b scope \<Rightarrow> 'b scope" where
  "user_message sc =
     sc\<lparr>sc_plan := map_option (\<lambda>p. p\<lparr>pl_scopeConsent :=
            (pl_status p = PWaiting \<and> truthy (map_option trim (pl_question p))),
          pl_status := PActive, pl_question := None\<rparr>) (sc_plan sc)\<rparr>"

definition new_request :: "'b scope \<Rightarrow> 'b scope" where
  "new_request sc = (if attemptReserved sc then sc else sc\<lparr>sc_plan := None, sc_gen := sc_gen sc + 1\<rparr>)"

inductive flow_step ::
    "'b planner_env \<Rightarrow> verdict_platform \<Rightarrow> ('b \<Rightarrow> 'b \<Rightarrow> bool) \<Rightarrow> 'b flow \<Rightarrow> 'b flow \<Rightarrow> bool"
  for env V progress where
  delegate_opens: "delegate_open env args sc = Inr (dg, sc') \<Longrightarrow>
    flow_step env V progress \<lparr>fl_scope = sc, fl_flight = fs\<rparr> \<lparr>fl_scope = sc', fl_flight = fs @ [(dg, None)]\<rparr>"
| delegate_prepares: "delegate_prepare env dg profile sc = Inr r \<Longrightarrow>
    flow_step env V progress \<lparr>fl_scope = sc, fl_flight = xs @ (dg, None) # ys\<rparr>
      \<lparr>fl_scope = sc, fl_flight = xs @ (dg, Some r) # ys\<rparr>"
| delegate_fails:
    "flow_step env V progress \<lparr>fl_scope = sc, fl_flight = xs @ (dg, r) # ys\<rparr>
      \<lparr>fl_scope = delegate_release dg sc, fl_flight = xs @ ys\<rparr>"
| delegate_commits: "delegate_commit env dg req checked sc = (e, sc') \<Longrightarrow>
    flow_step env V progress \<lparr>fl_scope = sc, fl_flight = xs @ (dg, Some (req, checked)) # ys\<rparr>
      \<lparr>fl_scope = sc', fl_flight = xs @ ys\<rparr>"
| plan_updated: "plan_update env args sc = (e, sc') \<Longrightarrow>
    flow_step env V progress \<lparr>fl_scope = sc, fl_flight = fs\<rparr> \<lparr>fl_scope = sc', fl_flight = fs\<rparr>"
| plan_authored: "author_commit env create unchanged answer sc = (e, sc') \<Longrightarrow>
    flow_step env V progress \<lparr>fl_scope = sc, fl_flight = fs\<rparr> \<lparr>fl_scope = sc', fl_flight = fs\<rparr>"
| task_stopped: "stop_task env args sc = (r, sc') \<Longrightarrow>
    flow_step env V progress \<lparr>fl_scope = sc, fl_flight = fs\<rparr> \<lparr>fl_scope = sc', fl_flight = fs\<rparr>"
| board_progresses: "progress (sc_board sc) b \<Longrightarrow>
    flow_step env V progress \<lparr>fl_scope = sc, fl_flight = fs\<rparr> \<lparr>fl_scope = sc\<lparr>sc_board := b\<rparr>, fl_flight = fs\<rparr>"
| event_delivered: "pe_get env (sc_board sc) i = Some t \<Longrightarrow> tk_id t = i \<Longrightarrow> kind = EDone \<longrightarrow> tk_state t = TDone \<Longrightarrow>
    flow_step env V progress \<lparr>fl_scope = sc, fl_flight = fs\<rparr> \<lparr>fl_scope = deliver_event V t kind sc, fl_flight = fs\<rparr>"
| user_speaks:
    "flow_step env V progress \<lparr>fl_scope = sc, fl_flight = fs\<rparr> \<lparr>fl_scope = user_message sc, fl_flight = fs\<rparr>"
| request_starts:
    "flow_step env V progress \<lparr>fl_scope = sc, fl_flight = fs\<rparr> \<lparr>fl_scope = new_request sc, fl_flight = fs\<rparr>"

definition initial_scope :: "'b \<Rightarrow> 'b scope" where
  "initial_scope b = \<lparr>sc_board = b, sc_plan = None, sc_gen = 0, sc_reserved = {}, sc_delegations = 0,
     sc_taskSteps = Map.empty, sc_owned = [], sc_actions = []\<rparr>"

definition initial_flow :: "'b \<Rightarrow> 'b flow" where
  "initial_flow b = \<lparr>fl_scope = initial_scope b, fl_flight = []\<rparr>"

inductive flow_reachable ::
    "'b planner_env \<Rightarrow> verdict_platform \<Rightarrow> ('b \<Rightarrow> 'b \<Rightarrow> bool) \<Rightarrow> 'b \<Rightarrow> 'b flow \<Rightarrow> bool"
  for env V progress b where
  start: "flow_reachable env V progress b (initial_flow b)"
| step: "flow_reachable env V progress b f \<Longrightarrow> flow_step env V progress f f' \<Longrightarrow>
    flow_reachable env V progress b f'"

subsection \<open>The invariant\<close>

definition plan_edges_of :: "pstep list \<Rightarrow> (string \<times> string) set" where
  "plan_edges_of ss = {(ps_id s, d) | s d. s \<in> set ss \<and> d \<in> set (step_deps s)}"

definition plan_ok :: "dplan \<Rightarrow> bool" where
  "plan_ok p \<longleftrightarrow>
     distinct (step_ids p) \<and> (\<forall>s \<in> set (pl_steps p). set (step_deps s) \<subseteq> set (step_ids p))
     \<and> acyclic (plan_edges_of (pl_steps p))"

text \<open>What a step claims, backed by the board.\<close>

definition step_ok :: "(string \<Rightarrow> task_rec option) \<Rightarrow> pstep \<Rightarrow> bool" where
  "step_ok get s \<longleftrightarrow>
     (\<forall>i \<in> set (ps_taskIds s). \<exists>t. get i = Some t \<and> tk_result t = Some (resultKind s))
     \<and> (\<forall>w. ps_work s = Some w \<longrightarrow> w \<in> set (ps_taskIds s))
     \<and> (\<forall>x. ps_success s = Some x \<longrightarrow> ps_work s = Some x
          \<and> (\<exists>t. get x = Some t \<and> tk_state t = TDone \<and> \<not> (ps_items s \<noteq> None \<and> tk_budgetExhausted t)))
     \<and> (ps_state s = SDone \<longrightarrow> ps_success s \<noteq> None)
     \<and> (ps_state s = SDone \<and> resultKind s = KVerdict \<longrightarrow> ps_verdict s = Some CPass)
     \<and> (ps_state s = SRunning \<longrightarrow> ps_work s \<noteq> None)"

definition attempts_disjoint :: "dplan \<Rightarrow> bool" where
  "attempts_disjoint p \<longleftrightarrow>
     (\<forall>s \<in> set (pl_steps p). \<forall>s' \<in> set (pl_steps p). ps_id s \<noteq> ps_id s' \<longrightarrow>
        set (ps_taskIds s) \<inter> set (ps_taskIds s') = {})"

definition plan_inv :: "(string \<Rightarrow> task_rec option) \<Rightarrow> dplan \<Rightarrow> bool" where
  "plan_inv get p \<longleftrightarrow>
     plan_ok p \<and> (\<forall>s \<in> set (pl_steps p). step_ok get s) \<and> attempts_disjoint p"

lemma step_okI:
  assumes "\<And>i. i \<in> set (ps_taskIds s) \<Longrightarrow> \<exists>t. get i = Some t \<and> tk_result t = Some (resultKind s)"
    and "\<And>w. ps_work s = Some w \<Longrightarrow> w \<in> set (ps_taskIds s)"
    and "\<And>x. ps_success s = Some x \<Longrightarrow> ps_work s = Some x
          \<and> (\<exists>t. get x = Some t \<and> tk_state t = TDone \<and> \<not> (ps_items s \<noteq> None \<and> tk_budgetExhausted t))"
    and "ps_state s = SDone \<Longrightarrow> ps_success s \<noteq> None"
    and "ps_state s = SDone \<Longrightarrow> resultKind s = KVerdict \<Longrightarrow> ps_verdict s = Some CPass"
    and "ps_state s = SRunning \<Longrightarrow> ps_work s \<noteq> None"
  shows "step_ok get s"
  using assms unfolding step_ok_def by blast

lemma step_okD:
  assumes "step_ok get s"
  shows "i \<in> set (ps_taskIds s) \<Longrightarrow> \<exists>t. get i = Some t \<and> tk_result t = Some (resultKind s)"
    and "ps_work s = Some w \<Longrightarrow> w \<in> set (ps_taskIds s)"
    and "ps_success s = Some x \<Longrightarrow> ps_work s = Some x"
    and "ps_success s = Some x \<Longrightarrow>
          \<exists>t. get x = Some t \<and> tk_state t = TDone \<and> \<not> (ps_items s \<noteq> None \<and> tk_budgetExhausted t)"
    and "ps_state s = SDone \<Longrightarrow> ps_success s \<noteq> None"
    and "ps_state s = SDone \<Longrightarrow> resultKind s = KVerdict \<Longrightarrow> ps_verdict s = Some CPass"
    and "ps_state s = SRunning \<Longrightarrow> ps_work s \<noteq> None"
  using assms unfolding step_ok_def by blast+

lemma step_ok_later:
  assumes "step_ok get s" "\<And>i. i \<in> set (ps_taskIds s) \<Longrightarrow> later (get i) (get' i)"
  shows "step_ok get' s"
proof (rule step_okI)
  note ok = step_okD [OF assms(1)]
  show "\<exists>t. get' i = Some t \<and> tk_result t = Some (resultKind s)" if i: "i \<in> set (ps_taskIds s)" for i
    using ok(1) [OF i] later_result [OF assms(2) [OF i]] by metis
  show "ps_work s = Some x
      \<and> (\<exists>t. get' x = Some t \<and> tk_state t = TDone \<and> \<not> (ps_items s \<noteq> None \<and> tk_budgetExhausted t))"
    if x: "ps_success s = Some x" for x
  proof -
    have "x \<in> set (ps_taskIds s)" using ok(2,3) x by blast
    then show ?thesis
      using ok(3,4) [OF x] later_done [OF assms(2) [of x]] by metis
  qed
qed (use step_okD [OF assms(1)] in blast)+

end
