(* ===== verification/PlanMerge.thy ===== *)
theory PlanMerge
  imports PlanFlow
begin

text \<open>
  What \<open>mergePlan\<close> and \<open>applyTaskEvent\<close> keep of the invariant of a plan, and that a merge neither narrows
  a plan without consent nor forges progress.
\<close>

lemma find_mem: "find P xs = Some x \<Longrightarrow> x \<in> set xs \<and> P x"
  by (induction xs) (auto split: if_splits)

subsection \<open>Restoring the marker of successful work\<close>

lemma currentWorkTaskId_mem:
  "step_ok get s \<Longrightarrow> currentWorkTaskId s = Some i \<Longrightarrow> i \<in> set (ps_taskIds s)"
  by (auto simp: currentWorkTaskId_def step_okD split: option.splits if_splits)

lemma restore_frame [simp]:
  "ps_id (restoreSuccessfulWork get s) = ps_id s" "ps_state (restoreSuccessfulWork get s) = ps_state s"
  "ps_items (restoreSuccessfulWork get s) = ps_items s" "ps_dependsOn (restoreSuccessfulWork get s) = ps_dependsOn s"
  "ps_verdict (restoreSuccessfulWork get s) = ps_verdict s" "ps_worker (restoreSuccessfulWork get s) = ps_worker s"
  "ps_taskIds (restoreSuccessfulWork get s) = ps_taskIds s" "ps_result (restoreSuccessfulWork get s) = ps_result s"
  "ps_checked (restoreSuccessfulWork get s) = ps_checked s"
  by (simp_all add: restoreSuccessfulWork_def split: option.splits)

lemma restore_kind [simp]: "resultKind (restoreSuccessfulWork get s) = resultKind s"
  by (simp add: resultKind_def)

lemma restore_ok:
  assumes "step_ok get s"
  shows "step_ok get (restoreSuccessfulWork get s)"
proof (cases "restoreSuccessfulWork get s = s")
  case False
  then obtain i t where *: "currentWorkTaskId s = Some i" "i \<in> set (ps_taskIds s)" "get i = Some t" "work_succeeded s t"
      "restoreSuccessfulWork get s = s\<lparr>ps_work := Some i, ps_success := Some i\<rparr>"
    unfolding restoreSuccessfulWork_def by (auto split: if_splits option.splits)
  show ?thesis
    unfolding *(5) by (rule step_okI) (use * step_okD [OF assms] in \<open>auto simp: work_succeeded_def resultKind_def\<close>)
qed (use assms in simp)

subsection \<open>One merged step\<close>

text \<open>Whether a merged step keeps the identity of the old step: its kind, worker, dependencies and items.\<close>

definition same_identity :: "pstep \<Rightarrow> pstep \<Rightarrow> bool" where
  "same_identity o1 x \<longleftrightarrow>
     resultKind x = resultKind o1 \<and> ps_worker x = ps_worker o1 \<and> step_deps x = step_deps o1
     \<and> ps_items x = ps_items o1"

lemma merge_step_Inr:
  "merge_step opts oldSteps s = Inr x \<longleftrightarrow>
   merge_step_error opts s (old_step opts oldSteps s) = None \<and> x = merged_step opts s (old_step opts oldSteps s)"
  by (auto simp: merge_step_def Let_def split: option.splits)

lemma merge_step_error_None:
  assumes "merge_step_error opts s (Some o1) = None"
  shows "\<not> reopens s (Some o1) \<Longrightarrow> \<not> identityChanged opts s (Some o1) \<and> \<not> itemsChanged s (Some o1)"
    and "effectiveState s (Some o1) \<in> {SRunning, SDone} \<Longrightarrow> ps_state o1 = effectiveState s (Some o1)"
proof -
  show "\<not> identityChanged opts s (Some o1) \<and> \<not> itemsChanged s (Some o1)" if "\<not> reopens s (Some o1)"
    using assms that by (cases "itemsChanged s (Some o1)") (auto simp: merge_step_error_def itemsChanged_def split: if_splits)
  show "ps_state o1 = effectiveState s (Some o1)" if "effectiveState s (Some o1) \<in> {SRunning, SDone}"
    using assms that
    by (cases "si_state s") (auto simp: merge_step_error_def effectiveState_def split: if_splits)
qed

lemma merged_step_frame [simp]:
  "ps_id (merged_step opts s old) = si_id s" "ps_dependsOn (merged_step opts s old) = si_dependsOn s"
  "ps_items (merged_step opts s old) = si_items s" "ps_goal (merged_step opts s old) = si_goal s"
  "resultKind (merged_step opts s old) = merged_result opts s old"
  "ps_worker (merged_step opts s old) = merged_worker (merged_result opts s old) s old"
  by (simp_all add: merged_step_def Let_def resultKind_def kind_of_def)

lemma merged_step_fresh:
  assumes "itemsChanged s old \<or> identityChanged opts s old"
  shows "ps_taskIds (merged_step opts s old) = [] \<and> ps_work (merged_step opts s old) = None
    \<and> ps_success (merged_step opts s old) = None \<and> ps_verdict (merged_step opts s old) = None"
  using assms by (auto simp: merged_step_def Let_def)

lemma merged_step_reopened:
  assumes "effectiveState s old = SPending"
  shows "ps_work (merged_step opts s old) = None \<and> ps_success (merged_step opts s old) = None
    \<and> ps_verdict (merged_step opts s old) = None"
  using assms by (simp add: merged_step_def Let_def)

lemma merged_step_kept:
  assumes "\<not> (itemsChanged s (Some o1) \<or> identityChanged opts s (Some o1))"
  shows "ps_taskIds (merged_step opts s (Some o1)) = ps_taskIds o1"
    and "merged_result opts s (Some o1) = resultKind o1" "ps_items o1 = si_items s"
    and "effectiveState s (Some o1) \<noteq> SPending \<Longrightarrow>
      ps_work (merged_step opts s (Some o1)) = ps_work o1 \<and> ps_success (merged_step opts s (Some o1)) = ps_success o1
      \<and> ps_verdict (merged_step opts s (Some o1)) = ps_verdict o1"
  using assms by (simp_all add: merged_step_def identityChanged_def roleChanged_def itemsChanged_def Let_def)

lemma merged_step_state:
  "ps_state (merged_step opts s (Some o1)) = effectiveState s (Some o1)"
  "ps_state (merged_step opts s None) = (if si_state s = Some SSkipped then SSkipped else SPending)"
  by (simp_all add: merged_step_def Let_def)

lemma merged_step_new [simp]:
  "ps_taskIds (merged_step opts s None) = []" "ps_work (merged_step opts s None) = None"
  "ps_success (merged_step opts s None) = None" "ps_verdict (merged_step opts s None) = None"
  by (simp_all add: merged_step_def Let_def)

lemma step_ok_blank:
  assumes "ps_taskIds s = []" "ps_work s = None" "ps_success s = None" "ps_state s \<notin> {SDone, SRunning}"
  shows "step_ok get s"
  by (rule step_okI) (use assms in auto)

lemma merge_step_ok:
  assumes "merge_step opts oldSteps s = Inr x" "mo_getTask opts = Some get" "\<forall>o1 \<in> set oldSteps. step_ok get o1"
  shows "step_ok get x"
proof (cases "old_step opts oldSteps s")
  case None
  with assms(1) have "x = merged_step opts s None" by (simp add: merge_step_Inr)
  then show ?thesis by (simp add: step_ok_blank merged_step_state)
next
  case (Some o1)
  with assms(1) have err: "merge_step_error opts s (Some o1) = None" and x: "x = merged_step opts s (Some o1)"
    by (simp_all add: merge_step_Inr)
  have o1: "step_ok get o1"
    using Some assms(2,3) by (auto simp: old_step_def split: option.splits dest: find_mem intro!: restore_ok)
  note ok = step_okD [OF o1] and E = merge_step_error_None [OF err]
  show ?thesis
  proof (cases "itemsChanged s (Some o1) \<or> identityChanged opts s (Some o1)")
    case True
    then have "reopens s (Some o1)" using E(1) by blast
    then show ?thesis
      using merged_step_fresh [OF True] by (auto simp: x step_ok_blank merged_step_state reopens_def)
  next
    case False
    note K = merged_step_kept [OF False]
    show ?thesis
    proof (cases "effectiveState s (Some o1) = SPending")
      case True
      show ?thesis
        unfolding x by (rule step_okI) (use merged_step_reopened [OF True] True K ok(1) in \<open>auto simp: merged_step_state\<close>)
    next
      case False
      show ?thesis
        unfolding x by (rule step_okI) (use K(4) [OF False] K(1,2,3) E(2) ok in \<open>auto simp: merged_step_state\<close>)
    qed
  qed
qed

subsection \<open>Rewriting one step of a plan\<close>

lemma plan_edges_of_map:
  "plan_edges_of ss = (\<Union>(i, ds) \<in> set (map (\<lambda>s. (ps_id s, step_deps s)) ss). {i} \<times> set ds)"
  by (auto simp: plan_edges_of_def)

lemma map_list_update_same: "i < length xs \<Longrightarrow> f y = f (xs ! i) \<Longrightarrow> map f (xs[i := y]) = map f xs"
  by (simp add: map_update list_update_same_conv)

lemma plan_ok_shape:
  assumes "map (\<lambda>s. (ps_id s, step_deps s)) (pl_steps p') = map (\<lambda>s. (ps_id s, step_deps s)) (pl_steps p)"
  shows "plan_ok p' \<longleftrightarrow> plan_ok p"
proof -
  have ids: "step_ids p' = step_ids p" and deps: "map step_deps (pl_steps p') = map step_deps (pl_steps p)"
    using arg_cong [OF assms, of "map fst"] arg_cong [OF assms, of "map snd"] by (simp_all add: comp_def)
  have "(\<forall>s \<in> set (pl_steps q). set (step_deps s) \<subseteq> A) \<longleftrightarrow> list_all (\<lambda>ds. set ds \<subseteq> A) (map step_deps (pl_steps q))"
    for q :: dplan and A
    by (simp add: list_all_iff)
  then show ?thesis
    unfolding plan_ok_def plan_edges_of_map assms by (simp only: ids deps)
qed

text \<open>The parts of the invariant that do not look at the board.\<close>

lemma update_step_shape:
  assumes ok: "plan_ok p" "attempts_disjoint p" and i: "i < length (pl_steps p)"
    and f: "ps_id (f (pl_steps p ! i)) = ps_id (pl_steps p ! i)"
      "step_deps (f (pl_steps p ! i)) = step_deps (pl_steps p ! i)"
    and ids: "set (ps_taskIds (f (pl_steps p ! i))) \<subseteq> set (ps_taskIds (pl_steps p ! i)) \<union> F"
    and F: "\<forall>s \<in> set (pl_steps p). set (ps_taskIds s) \<inter> F = {}"
  shows "plan_ok (update_step i f p)" "attempts_disjoint (update_step i f p)"
proof -
  let ?s = "pl_steps p ! i" and ?y = "f (pl_steps p ! i)"
  have mem: "s \<in> set (pl_steps (update_step i f p)) \<Longrightarrow> s = ?y \<or> s \<in> set (pl_steps p)" for s
    using set_update_subset_insert [of "pl_steps p" i ?y] by (auto simp: update_step_def)
  have s: "?s \<in> set (pl_steps p)" using i by simp
  have "plan_ok (update_step i f p) \<longleftrightarrow> plan_ok p"
    by (rule plan_ok_shape) (simp add: update_step_def map_list_update_same [OF i] f)
  then show "plan_ok (update_step i f p)" using ok(1) by simp
  show "attempts_disjoint (update_step i f p)"
    unfolding attempts_disjoint_def
  proof (intro ballI impI)
    fix a b
    assume ab: "a \<in> set (pl_steps (update_step i f p))" "b \<in> set (pl_steps (update_step i f p))" "ps_id a \<noteq> ps_id b"
    have D: "x \<in> set (pl_steps p) \<Longrightarrow> y \<in> set (pl_steps p) \<Longrightarrow> ps_id x \<noteq> ps_id y \<Longrightarrow>
        set (ps_taskIds x) \<inter> set (ps_taskIds y) = {}" for x y
      using ok(2) unfolding attempts_disjoint_def by blast
    consider "a = ?y" "b \<in> set (pl_steps p)" | "b = ?y" "a \<in> set (pl_steps p)"
      | "a \<in> set (pl_steps p)" "b \<in> set (pl_steps p)"
      using mem [OF ab(1)] mem [OF ab(2)] ab(3) by blast
    then show "set (ps_taskIds a) \<inter> set (ps_taskIds b) = {}"
    proof cases
      case 1
      then have "set (ps_taskIds ?s) \<inter> set (ps_taskIds b) = {}" "set (ps_taskIds b) \<inter> F = {}"
        using D [OF s, of b] F ab(3) f(1) by auto
      with ids 1 show ?thesis by blast
    next
      case 2
      then have "set (ps_taskIds ?s) \<inter> set (ps_taskIds a) = {}" "set (ps_taskIds a) \<inter> F = {}"
        using D [OF s, of a] F ab(3) f(1) by auto
      with ids 2 show ?thesis by blast
    qed (use D ab(3) in blast)
  qed
qed

text \<open>The invariant at every step but one.\<close>

definition plan_inv_but :: "nat \<Rightarrow> (string \<Rightarrow> task_rec option) \<Rightarrow> dplan \<Rightarrow> bool" where
  "plan_inv_but i get p \<longleftrightarrow>
     plan_ok p \<and> attempts_disjoint p \<and> (\<forall>j < length (pl_steps p). j \<noteq> i \<longrightarrow> step_ok get (pl_steps p ! j))"

lemma plan_inv_nth:
  "plan_inv get p \<longleftrightarrow> plan_ok p \<and> attempts_disjoint p \<and> (\<forall>j < length (pl_steps p). step_ok get (pl_steps p ! j))"
  by (auto simp: plan_inv_def all_set_conv_all_nth)

lemma plan_inv_imp_but: "plan_inv get p \<Longrightarrow> plan_inv_but i get p"
  by (simp add: plan_inv_nth plan_inv_but_def)

lemma update_step_nth:
  "j < length (pl_steps p) \<Longrightarrow>
   pl_steps (update_step i f p) ! j = (if i = j then f (pl_steps p ! i) else pl_steps p ! j)"
  by (simp add: update_step_def nth_list_update)

lemma update_step_frame [simp]:
  "length (pl_steps (update_step i f p)) = length (pl_steps p)" "pl_status (update_step i f p) = pl_status p"
  "pl_note (update_step i f p) = pl_note p"
  by (simp_all add: update_step_def)

lemma but_update:
  assumes "plan_inv_but i get p" "i < length (pl_steps p)" "ps_id (f (pl_steps p ! i)) = ps_id (pl_steps p ! i)"
    "step_deps (f (pl_steps p ! i)) = step_deps (pl_steps p ! i)"
    "ps_taskIds (f (pl_steps p ! i)) = ps_taskIds (pl_steps p ! i)"
  shows "plan_inv_but i get (update_step i f p)"
  using assms update_step_shape [where F = "{}" and f = f, OF _ _ assms(2-4)]
  by (simp add: plan_inv_but_def update_step_nth)

lemma plan_inv_update:
  assumes "plan_inv_but i get p" "i < length (pl_steps p)" "step_ok get (f (pl_steps p ! i))"
    "ps_id (f (pl_steps p ! i)) = ps_id (pl_steps p ! i)"
    "step_deps (f (pl_steps p ! i)) = step_deps (pl_steps p ! i)"
    "set (ps_taskIds (f (pl_steps p ! i))) \<subseteq> set (ps_taskIds (pl_steps p ! i)) \<union> F"
    "\<forall>s \<in> set (pl_steps p). set (ps_taskIds s) \<inter> F = {}"
  shows "plan_inv get (update_step i f p)"
  using assms(1,3) update_step_shape [where f = f, OF _ _ assms(2,4,5,6,7)]
  by (simp add: plan_inv_but_def plan_inv_nth update_step_nth)

lemma reset_frame [simp]:
  "ps_id (resetStaleCheck s) = ps_id s" "ps_dependsOn (resetStaleCheck s) = ps_dependsOn s"
  "ps_taskIds (resetStaleCheck s) = ps_taskIds s" "ps_items (resetStaleCheck s) = ps_items s"
  "ps_state (resetStaleCheck s) = SPending" "ps_success (resetStaleCheck s) = None"
  "ps_work (resetStaleCheck s) = None" "resultKind (resetStaleCheck s) = resultKind s"
  by (simp_all add: resetStaleCheck_def resultKind_def)

lemma reset_ok: "step_ok get s \<Longrightarrow> step_ok get (resetStaleCheck s)"
  by (rule step_okI) (auto dest: step_okD(1))

text \<open>The identities and result kinds of the steps.\<close>

abbreviation step_keys :: "dplan \<Rightarrow> (string \<times> rkind) list" where
  "step_keys p \<equiv> map (\<lambda>s. (ps_id s, resultKind s)) (pl_steps p)"

lemma update_step_map:
  "i < length (pl_steps p) \<Longrightarrow> g (f (pl_steps p ! i)) = g (pl_steps p ! i) \<Longrightarrow>
   map g (pl_steps (update_step i f p)) = map g (pl_steps p)"
  by (simp add: update_step_def map_list_update_same)

lemma reset_inv:
  "plan_inv get p \<Longrightarrow> i < length (pl_steps p) \<Longrightarrow> plan_inv get (update_step i resetStaleCheck p)"
  by (rule plan_inv_update [where F = "{}"]) (auto simp: plan_inv_imp_but plan_inv_nth reset_ok)

lemma reset_but:
  assumes "plan_inv_but i get p" "j < length (pl_steps p)" "j \<noteq> i"
  shows "plan_inv_but i get (update_step j resetStaleCheck p)"
  using assms update_step_shape [where F = "{}" and f = resetStaleCheck and i = j and p = p]
  by (auto simp: plan_inv_but_def update_step_nth reset_ok)

text \<open>A loop over the steps that only resets checks.\<close>

lemma fold_keeps:
  assumes "\<And>i q. i \<in> set is \<Longrightarrow> P q \<Longrightarrow> P (f i q)" "P q"
  shows "P (fold f is q)"
  using assms by (induction "is" arbitrary: q) auto

lemma drop_stale_checks_inv:
  assumes "plan_inv get p"
  shows "plan_inv get (drop_stale_checks p) \<and> pl_note (drop_stale_checks p) = pl_note p"
proof -
  let ?P = "\<lambda>q. plan_inv get q \<and> length (pl_steps q) = length (pl_steps p) \<and> pl_note q = pl_note p"
  have "?P (drop_stale_check i q)" if "i \<in> set [0..<length (pl_steps p)]" "?P q" for i q
    using that by (simp add: drop_stale_check_def Let_def reset_inv)
  then have "?P (drop_stale_checks p)"
    unfolding drop_stale_checks_def using assms by (intro fold_keeps [where P = ?P]) auto
  then show ?thesis by simp
qed

subsection \<open>A merged plan\<close>

lemma find_input_distinct:
  "distinct (map si_id steps) \<Longrightarrow> s \<in> set steps \<Longrightarrow> find_input steps (si_id s) = Some s"
proof (induction steps)
  case (Cons a steps)
  then show ?case by (cases "s = a") (auto simp: find_input_def)
qed simp

lemma find_input_None: "i \<notin> si_id ` set steps \<Longrightarrow> find_input steps i = None"
  unfolding find_input_def find_None_iff by auto

lemma dep_rel_input_deps:
  assumes "distinct (map si_id steps)"
  shows "dep_rel (input_deps steps) = {(si_id s, d) | s d. s \<in> set steps \<and> d \<in> set (nullish (si_dependsOn s) [])}"
proof -
  have "d \<in> set (input_deps steps i) \<longleftrightarrow> (\<exists>s \<in> set steps. si_id s = i \<and> d \<in> set (nullish (si_dependsOn s) []))" for i d
  proof (cases "i \<in> si_id ` set steps")
    case True
    then obtain s where s: "s \<in> set steps" "si_id s = i" by blast
    have u: "s' = s" if "s' \<in> set steps" "si_id s' = i" for s'
      using assms that s by (simp add: distinct_map inj_on_def)
    have "input_deps steps i = nullish (si_dependsOn s) []"
      using find_input_distinct [OF assms s(1)] s(2) by (simp add: input_deps_def)
    then show ?thesis using s u by metis
  next
    case False
    then show ?thesis by (auto simp: input_deps_def find_input_None)
  qed
  then have "dep_rel (input_deps steps)
      = {(i, d). \<exists>s \<in> set steps. si_id s = i \<and> d \<in> set (nullish (si_dependsOn s) [])}"
    by (simp only: dep_rel_def)
  then show ?thesis by blast
qed

lemma merge_check_None:
  assumes "merge_check oldSteps steps status question opts = None"
  shows "distinct (map si_id steps)"
    and "\<forall>s \<in> set steps. set (nullish (si_dependsOn s) []) \<subseteq> set (map si_id steps)"
    and "acyclic (dep_rel (input_deps steps))"
    and "\<not> mo_consent opts \<Longrightarrow> \<not> list_ex (narrows steps) oldSteps \<and> \<not> list_ex (newly_skipped oldSteps) steps"
    and "find (too_many_items (mo_maxItemsPerStep opts)) steps = None"
proof -
  from assms have c: "distinct (map si_id steps)" "first_error (step_error (map si_id steps)) steps = None"
      "cycle_error steps = None" "find (too_many_items (mo_maxItemsPerStep opts)) steps = None"
      "\<not> mo_consent opts \<Longrightarrow> \<not> list_ex (narrows steps) oldSteps \<and> \<not> list_ex (newly_skipped oldSteps) steps"
    unfolding merge_check_def Let_def by (auto split: if_splits option.splits)
  show "distinct (map si_id steps)" by fact
  show deps: "\<forall>s \<in> set steps. set (nullish (si_dependsOn s) []) \<subseteq> set (map si_id steps)"
    using c(2) by (auto simp: first_error_None_iff step_error_def bad_dependency_def list_ex_iff split: if_splits)
  have closed: "\<forall>v \<in> set (map si_id steps). set (input_deps steps v) \<subseteq> set (map si_id steps)"
    using deps find_input_distinct [OF c(1)] by (auto simp: input_deps_def)
  let ?r = "dfs_list plan_colour plan_enter plan_leave (input_deps steps) (Suc (length steps)) (map si_id steps) ({}, {})"
  have "?r \<noteq> None" by (rule plan_marks.search_total [OF closed]) simp
  then have "\<exists>m. ?r = Some (Inr m)"
    using c(3) by (cases ?r; cases "the ?r") (auto simp: cycle_error_def)
  then show "acyclic (dep_rel (input_deps steps))"
    by (subst (asm) plan_marks.search_accepts_iff [OF closed])
      (auto simp: plan_colour_def input_deps_def find_input_None)
  show "\<not> mo_consent opts \<Longrightarrow> \<not> list_ex (narrows steps) oldSteps \<and> \<not> list_ex (newly_skipped oldSteps) steps"
    by (rule c(5))
  show "find (too_many_items (mo_maxItemsPerStep opts)) steps = None" by fact
qed

lemma merge_steps_Inr:
  "merge_steps opts oldSteps steps = Inr xs \<Longrightarrow> list_all2 (\<lambda>s x. merge_step opts oldSteps s = Inr x) steps xs"
  by (induction opts oldSteps steps arbitrary: xs rule: merge_steps.induct) (auto split: sum.splits)

lemma mergePlan_Inr:
  assumes "mergePlan previous input status question opts = Inr p"
  obtains steps xs where "input = Some steps"
    "merge_check (case previous of None \<Rightarrow> [] | Some q \<Rightarrow> pl_steps q) steps status question opts = None"
    "list_all2 (\<lambda>s x. merge_step opts (case previous of None \<Rightarrow> [] | Some q \<Rightarrow> pl_steps q) s = Inr x) steps xs"
    "p = drop_stale_checks \<lparr>pl_scopeConsent = False, pl_steps = xs, pl_status = status, pl_question = question, pl_note = None\<rparr>"
  using assms merge_steps_Inr unfolding mergePlan_def Let_def
  by (fastforce split: option.splits sum.splits)

lemma merged_ids:
  assumes "list_all2 (\<lambda>s x. merge_step opts oldSteps s = Inr x) steps xs"
  shows "map ps_id xs = map si_id steps" "map step_deps xs = map (\<lambda>s. nullish (si_dependsOn s) []) steps"
  using assms by (induction rule: list_all2_induct) (auto simp: merge_step_Inr)

lemma merged_plan_ok:
  assumes "merge_check oldSteps steps status question opts = None"
    and "list_all2 (\<lambda>s x. merge_step opts oldSteps s = Inr x) steps xs" "pl_steps p = xs"
  shows "plan_ok p"
proof -
  note c = merge_check_None [OF assms(1)] and m = merged_ids [OF assms(2)]
  have pairs: "map (\<lambda>x. (ps_id x, step_deps x)) xs = map (\<lambda>s. (si_id s, nullish (si_dependsOn s) [])) steps"
    using m by (simp add: list_eq_iff_nth_eq)
  have "plan_edges_of xs = dep_rel (input_deps steps)"
    unfolding plan_edges_of_map pairs dep_rel_input_deps [OF c(1)] by auto
  moreover have "\<forall>(i, ds) \<in> set (map (\<lambda>x. (ps_id x, step_deps x)) xs). set ds \<subseteq> set (map si_id steps)"
    unfolding pairs using c(2) by auto
  then have "\<forall>x \<in> set xs. set (step_deps x) \<subseteq> set (map si_id steps)" by auto
  ultimately show ?thesis
    using c(1,3) m(1) assms(3) by (simp add: plan_ok_def)
qed

lemma merge_step_taskIds:
  assumes "merge_step opts oldSteps s = Inr x"
  shows "ps_taskIds x = [] \<or> (\<exists>o1 \<in> set oldSteps. ps_id o1 = ps_id x \<and> ps_taskIds x = ps_taskIds o1)"
proof (cases "old_step opts oldSteps s")
  case None
  with assms show ?thesis by (simp add: merge_step_Inr)
next
  case (Some o1)
  then obtain q where "q \<in> set oldSteps" "ps_id q = si_id s" "ps_taskIds o1 = ps_taskIds q"
    by (auto simp: old_step_def split: option.splits dest: find_mem)
  then show ?thesis
    using assms Some merged_step_fresh [of s "Some o1" opts] merged_step_kept(1) [of s o1 opts]
    by (cases "itemsChanged s (Some o1) \<or> identityChanged opts s (Some o1)") (auto simp: merge_step_Inr)
qed

lemma merge_inv:
  assumes "mergePlan previous input status question opts = Inr p" "mo_getTask opts = Some get"
    and "\<And>q. previous = Some q \<Longrightarrow> plan_inv get q"
  shows "plan_inv get p \<and> pl_note p = None"
proof -
  let ?old = "case previous of None \<Rightarrow> [] | Some q \<Rightarrow> pl_steps q"
  from assms(1) obtain steps xs where m: "merge_check ?old steps status question opts = None"
      "list_all2 (\<lambda>s x. merge_step opts ?old s = Inr x) steps xs"
      "p = drop_stale_checks \<lparr>pl_scopeConsent = False, pl_steps = xs, pl_status = status, pl_question = question, pl_note = None\<rparr>"
    by (rule mergePlan_Inr)
  let ?q = "\<lparr>pl_scopeConsent = False, pl_steps = xs, pl_status = status, pl_question = question, pl_note = None\<rparr>"
  have old: "\<forall>o1 \<in> set ?old. step_ok get o1"
    using assms(3) by (auto simp: plan_inv_def split: option.splits)
  have each: "\<exists>s. merge_step opts ?old s = Inr x" if "x \<in> set xs" for x
    using m(2) that by (auto simp: list_all2_conv_all_nth in_set_conv_nth)
  have "plan_ok ?q" by (rule merged_plan_ok [OF m(1,2)]) simp
  moreover have "\<forall>x \<in> set xs. step_ok get x"
    using each merge_step_ok [OF _ assms(2) old] by blast
  moreover have "attempts_disjoint ?q"
    unfolding attempts_disjoint_def
  proof (intro ballI impI)
    fix a b assume ab: "a \<in> set (pl_steps ?q)" "b \<in> set (pl_steps ?q)" "ps_id a \<noteq> ps_id b"
    have src: "ps_taskIds x = [] \<or> (\<exists>o1 \<in> set ?old. ps_id o1 = ps_id x \<and> ps_taskIds x = ps_taskIds o1)"
      if "x \<in> set xs" for x
      using each [OF that] merge_step_taskIds by blast
    show "set (ps_taskIds a) \<inter> set (ps_taskIds b) = {}"
    proof (cases previous)
      case None
      then show ?thesis using src [of a] ab(1) by simp
    next
      case (Some q)
      then have "attempts_disjoint q" using assms(3) by (simp add: plan_inv_def)
      with src [of a] src [of b] ab Some show ?thesis
        unfolding attempts_disjoint_def by fastforce
    qed
  qed
  ultimately have "plan_inv get ?q" by (simp add: plan_inv_def)
  from drop_stale_checks_inv [OF this] show ?thesis by (simp add: m(3))
qed

subsection \<open>A task event\<close>

lemma step_deps_irreflexive: "plan_ok p \<Longrightarrow> s \<in> set (pl_steps p) \<Longrightarrow> ps_id s \<notin> set (step_deps s)"
  unfolding plan_ok_def acyclic_def plan_edges_of_def by blast

lemma invalidate_checks_but:
  assumes "plan_inv_but i get p" "i < length (pl_steps p)" "stepId = ps_id (pl_steps p ! i)"
  shows "plan_inv_but i get (fold (invalidate_check stepId) [0..<length (pl_steps p)] p)
    \<and> length (pl_steps (fold (invalidate_check stepId) [0..<length (pl_steps p)] p)) = length (pl_steps p)
    \<and> pl_steps (fold (invalidate_check stepId) [0..<length (pl_steps p)] p) ! i = pl_steps p ! i
    \<and> pl_note (fold (invalidate_check stepId) [0..<length (pl_steps p)] p) = pl_note p
    \<and> step_keys (fold (invalidate_check stepId) [0..<length (pl_steps p)] p) = step_keys p"
proof -
  let ?P = "\<lambda>q. plan_inv_but i get q \<and> length (pl_steps q) = length (pl_steps p) \<and> pl_steps q ! i = pl_steps p ! i
    \<and> pl_note q = pl_note p \<and> step_keys q = step_keys p"
  have "?P (invalidate_check stepId j q)" if j: "j \<in> set [0..<length (pl_steps p)]" and q: "?P q" for j q
  proof (cases "j = i")
    case True
    have "plan_ok q" "pl_steps q ! i \<in> set (pl_steps q)"
      using q assms(2) nth_mem [of i "pl_steps q"] by (auto simp: plan_inv_but_def)
    then have "stepId \<notin> set (step_deps (pl_steps q ! i))"
      using q assms(3) step_deps_irreflexive by metis
    then show ?thesis using q True by (simp add: invalidate_check_def Let_def)
  next
    case False
    then show ?thesis
      using q j assms(2) by (simp add: invalidate_check_def Let_def reset_but update_step_map update_step_nth)
  qed
  then show ?thesis
    using assms by (intro fold_keeps [where P = ?P]) auto
qed

lemma settle_frame [simp]:
  "ps_id (settle_step V p t kind s) = ps_id s" "ps_dependsOn (settle_step V p t kind s) = ps_dependsOn s"
  "ps_taskIds (settle_step V p t kind s) = ps_taskIds s" "ps_items (settle_step V p t kind s) = ps_items s"
  "ps_work (settle_step V p t kind s) = ps_work s" "ps_success (settle_step V p t kind s) = ps_success s"
  "ps_result (settle_step V p t kind s) = ps_result s" "ps_worker (settle_step V p t kind s) = ps_worker s"
  by (simp_all add: settle_step_def settle_check_def Let_def split: option.splits)

lemma settle_kind [simp]: "resultKind (settle_step V p t kind s) = resultKind s"
  by (simp add: resultKind_def)

lemma settle_state: "ps_state (settle_step V p t kind s) \<in> {SDone, SFailed}"
  by (simp add: settle_step_def settle_check_def Let_def split: option.splits)

lemma settle_done:
  assumes "ps_state (settle_step V p t kind s) = SDone"
  shows "kind = EDone" "\<not> (ps_items s \<noteq> None \<and> tk_budgetExhausted t)"
    and "nullish (tk_result t) (resultKind s) = KVerdict \<Longrightarrow> ps_verdict (settle_step V p t kind s) = Some CPass"
  using assms by (auto simp: settle_step_def settle_check_def Let_def split: if_splits option.splits)

lemma record_frame [simp]:
  "ps_id (record_success t kind s) = ps_id s" "ps_dependsOn (record_success t kind s) = ps_dependsOn s"
  "ps_taskIds (record_success t kind s) = ps_taskIds s" "ps_items (record_success t kind s) = ps_items s"
  "resultKind (record_success t kind s) = resultKind s" "ps_state (record_success t kind s) = ps_state s"
  "ps_work (record_success t kind s) = Some (tk_id t)"
  by (simp_all add: record_success_def resultKind_def)

lemma settled_step_ok:
  assumes ok: "step_ok get s" and cur: "currentWorkTaskId s = Some (tk_id t)" and t: "get (tk_id t) = Some t"
    and kind: "kind = EDone \<longrightarrow> tk_state t = TDone"
  shows "step_ok get (settle_step V p t kind (record_success t kind s))"
proof (rule step_okI)
  let ?s = "settle_step V p t kind (record_success t kind s)"
  have mem: "tk_id t \<in> set (ps_taskIds s)" by (rule currentWorkTaskId_mem [OF ok cur])
  then have res: "tk_result t = Some (resultKind s)" using step_okD(1) [OF ok mem] t by simp
  show "\<exists>u. get i = Some u \<and> tk_result u = Some (resultKind ?s)" if "i \<in> set (ps_taskIds ?s)" for i
    using that step_okD(1) [OF ok] by simp
  show "w \<in> set (ps_taskIds ?s)" if "ps_work ?s = Some w" for w
    using that mem by simp
  show "ps_work ?s = Some x \<and> (\<exists>u. get x = Some u \<and> tk_state u = TDone \<and> \<not> (ps_items ?s \<noteq> None \<and> tk_budgetExhausted u))"
    if "ps_success ?s = Some x" for x
    using that t by (auto simp: record_success_def work_succeeded_def split: if_splits)
  show "ps_success ?s \<noteq> None" if d: "ps_state ?s = SDone"
    using settle_done(1,2) [OF d] kind by (simp add: record_success_def work_succeeded_def)
  show "ps_verdict ?s = Some CPass" if d: "ps_state ?s = SDone" and "resultKind ?s = KVerdict"
    using settle_done(3) [OF d] that(2) res by simp
  show "ps_work ?s \<noteq> None" by simp
qed

lemma event_inv:
  assumes inv: "plan_inv get p" and t: "get (tk_id t) = Some t" and kind: "kind = EDone \<longrightarrow> tk_state t = TDone"
  shows "plan_inv get (applyTaskEvent V taskSteps t kind p)
    \<and> step_keys (applyTaskEvent V taskSteps t kind p) = step_keys p \<and> pl_note (applyTaskEvent V taskSteps t kind p) = pl_note p"
proof (cases "event_step taskSteps t p")
  case None
  then show ?thesis using inv by (simp add: applyTaskEvent_def)
next
  case (Some i)
  let ?s = "pl_steps p ! i" and ?p1 = "update_step i (record_success t kind) p"
  have i: "i < length (pl_steps p)" using Some findIndex_Some by (auto simp: event_step_def)
  have ok: "step_ok get ?s" using inv i by (simp add: plan_inv_def)
  define p2 where "p2 = (if truthy (ps_success (pl_steps ?p1 ! i))
      then fold (invalidate_check (ps_id ?s)) [0..<length (pl_steps ?p1)] ?p1 else ?p1)"
  show ?thesis
  proof (cases "ps_state ?s = SSkipped \<or> kind = EStarted \<or> kind = ELongRunning \<or> tk_id t \<notin> set (currentAttemptIds ?s)
      \<or> (resultKind ?s = KVerdict \<and> \<not> checkSourcesCurrent p ?s)")
    case True
    then have "applyTaskEvent V taskSteps t kind p \<in> {p, update_step i resetStaleCheck p}"
      using Some by (auto simp: applyTaskEvent_def Let_def)
    then show ?thesis using inv reset_inv [OF inv i] by (auto simp: update_step_map i)
  next
    case False
    then have cur: "currentWorkTaskId ?s = Some (tk_id t)"
      by (cases "currentWorkTaskId ?s") (auto simp: currentAttemptIds_def split: if_splits)
    have res: "applyTaskEvent V taskSteps t kind p = update_step i (settle_step V p2 t kind) p2"
      using False by (auto simp: applyTaskEvent_def Let_def p2_def Some cur)
    have b1: "plan_inv_but i get ?p1" by (rule but_update) (use inv i in \<open>auto intro: plan_inv_imp_but\<close>)
    have s1: "pl_steps ?p1 ! i = record_success t kind ?s" using i by (simp add: update_step_nth)
    have b2: "plan_inv_but i get p2 \<and> length (pl_steps p2) = length (pl_steps p) \<and> pl_steps p2 ! i = record_success t kind ?s
        \<and> pl_note p2 = pl_note p \<and> step_keys p2 = step_keys p"
      using invalidate_checks_but [OF b1, of "ps_id ?s"] b1 s1 i by (simp add: p2_def update_step_map)
    have "plan_inv get (update_step i (settle_step V p2 t kind) p2)"
      by (rule plan_inv_update [where F = "{}"]) (use b2 i settled_step_ok [OF ok cur t kind] in auto)
    then show ?thesis using b2 i by (simp add: res update_step_map)
  qed
qed

subsection \<open>A merge is conservative\<close>

abbreviation prev_steps :: "dplan option \<Rightarrow> pstep list" where
  "prev_steps previous \<equiv> (case previous of None \<Rightarrow> [] | Some q \<Rightarrow> pl_steps q)"

lemma drop_stale_checks_steps:
  "length (pl_steps (drop_stale_checks p)) = length (pl_steps p)
   \<and> (\<forall>j < length (pl_steps p). pl_steps (drop_stale_checks p) ! j \<in> {pl_steps p ! j, resetStaleCheck (pl_steps p ! j)})"
proof -
  let ?P = "\<lambda>q. length (pl_steps q) = length (pl_steps p)
    \<and> (\<forall>j < length (pl_steps p). pl_steps q ! j \<in> {pl_steps p ! j, resetStaleCheck (pl_steps p ! j)})"
  have twice: "resetStaleCheck (resetStaleCheck s) = resetStaleCheck s" for s
    by (simp add: resetStaleCheck_def)
  have "?P (drop_stale_check i q)" if "i \<in> set [0..<length (pl_steps p)]" "?P q" for i q
    using that twice by (auto simp: drop_stale_check_def Let_def update_step_nth)
  then have "?P (drop_stale_checks p)"
    unfolding drop_stale_checks_def by (intro fold_keeps [where P = ?P]) auto
  then show ?thesis .
qed

lemma merged_step_source:
  assumes "mergePlan previous input status question opts = Inr p" "x \<in> set (pl_steps p)"
  obtains steps s y where "input = Some steps" "s \<in> set steps"
    "merge_step opts (prev_steps previous) s = Inr y" "x = y \<or> x = resetStaleCheck y"
proof -
  obtain steps xs where m: "input = Some steps"
      "list_all2 (\<lambda>s x. merge_step opts (prev_steps previous) s = Inr x) steps xs"
      "p = drop_stale_checks \<lparr>pl_scopeConsent = False, pl_steps = xs, pl_status = status, pl_question = question, pl_note = None\<rparr>"
    by (rule mergePlan_Inr [OF assms(1)])
  note D = drop_stale_checks_steps
    [of "\<lparr>pl_scopeConsent = False, pl_steps = xs, pl_status = status, pl_question = question, pl_note = None\<rparr>"]
  from assms(2) obtain j where j: "j < length (pl_steps p)" "x = pl_steps p ! j"
    by (auto simp: in_set_conv_nth)
  then have "j < length xs" "x = xs ! j \<or> x = resetStaleCheck (xs ! j)"
    using D by (auto simp: m(3))
  then show thesis
    using that [OF m(1), of "steps ! j" "xs ! j"] m(2) by (auto simp: list_all2_conv_all_nth)
qed

lemma old_step_source:
  assumes "old_step opts oldSteps s = Some o1"
  obtains q where "q \<in> set oldSteps" "ps_id q = si_id s" "ps_state o1 = ps_state q" "resultKind o1 = resultKind q"
    "step_deps o1 = step_deps q" "ps_items o1 = ps_items q" "ps_taskIds o1 = ps_taskIds q"
    "ps_worker o1 = ps_worker q" "ps_verdict o1 = ps_verdict q"
  using assms by (auto simp: old_step_def split: option.splits dest: find_mem)

text \<open>A step a merge leaves running or done was so before, as the same piece of work.\<close>

definition same_work :: "pstep \<Rightarrow> pstep \<Rightarrow> bool" where
  "same_work q x \<longleftrightarrow>
     ps_id x = ps_id q \<and> ps_state x = ps_state q \<and> resultKind x = resultKind q \<and> ps_worker x = ps_worker q
     \<and> step_deps x = step_deps q \<and> ps_items x = ps_items q \<and> ps_taskIds x = ps_taskIds q \<and> ps_verdict x = ps_verdict q"

lemma merge_forges_nothing:
  assumes "mergePlan previous input status question opts = Inr p" "x \<in> set (pl_steps p)"
    "ps_state x \<in> {SRunning, SDone}"
  shows "\<exists>q \<in> set (prev_steps previous). same_work q x"
proof -
  obtain steps s y where m: "merge_step opts (prev_steps previous) s = Inr y" "x = y \<or> x = resetStaleCheck y"
    by (rule merged_step_source [OF assms(1,2)])
  then have x: "x = y" using assms(3) by auto
  show ?thesis
  proof (cases "old_step opts (prev_steps previous) s")
    case None
    then show ?thesis
      using m(1) assms(3) by (auto simp: x merge_step_Inr merged_step_state split: if_splits)
  next
    case (Some o1)
    then have y: "y = merged_step opts s (Some o1)" and err: "merge_step_error opts s (Some o1) = None"
      using m(1) by (simp_all add: merge_step_Inr)
    have st: "effectiveState s (Some o1) = ps_state x" by (simp add: x y merged_step_state)
    with assms(3) have "\<not> reopens s (Some o1)" by (auto simp: reopens_def)
    with merge_step_error_None [OF err] st assms(3)
    have same: "\<not> (itemsChanged s (Some o1) \<or> identityChanged opts s (Some o1))" "ps_state o1 = ps_state x" by auto
    have deps: "nullish (si_dependsOn s) [] = step_deps o1" "merged_worker (merged_result opts s (Some o1)) s (Some o1) = ps_worker o1"
      using same(1) by (simp_all add: identityChanged_def dependenciesChanged_def roleChanged_def Let_def)
    obtain q where q: "q \<in> set (prev_steps previous)" "ps_id q = si_id s" "ps_state o1 = ps_state q"
        "resultKind o1 = resultKind q" "step_deps o1 = step_deps q" "ps_items o1 = ps_items q"
        "ps_taskIds o1 = ps_taskIds q" "ps_worker o1 = ps_worker q" "ps_verdict o1 = ps_verdict q"
      by (rule old_step_source [OF Some])
    have "same_work q x"
      using q same(2) deps merged_step_kept [OF same(1)] st assms(3) by (auto simp: same_work_def x y)
    with q(1) show ?thesis by blast
  qed
qed

lemma merge_skips_nothing:
  assumes "mergePlan previous input status question opts = Inr p" "x \<in> set (pl_steps p)" "ps_state x = SSkipped"
    "\<not> mo_consent opts"
  shows "\<exists>q \<in> set (prev_steps previous). ps_id q = ps_id x \<and> ps_state q = SSkipped"
proof -
  obtain steps s y where m: "input = Some steps" "s \<in> set steps"
      "merge_step opts (prev_steps previous) s = Inr y" "x = y \<or> x = resetStaleCheck y"
    by (rule merged_step_source [OF assms(1,2)])
  obtain steps' where c: "input = Some steps'" "merge_check (prev_steps previous) steps' status question opts = None"
    by (rule mergePlan_Inr [OF assms(1)])
  with m(1) assms(4) have new: "\<not> newly_skipped (prev_steps previous) s"
    using merge_check_None(4) [OF c(2)] m(2) by (auto simp: list_ex_iff)
  have x: "x = y" using m(4) assms(3) by auto
  show ?thesis
  proof (cases "si_state s = Some SSkipped")
    case True
    with new obtain q where "find (\<lambda>old. ps_id old = si_id s) (prev_steps previous) = Some q" "ps_state q = SSkipped"
      by (auto simp: newly_skipped_def)
    then have "q \<in> set (prev_steps previous)" "ps_id q = si_id s" using find_mem by fast+
    with \<open>ps_state q = SSkipped\<close> show ?thesis
      using m(3) by (intro bexI [of _ q]) (simp_all add: x merge_step_Inr)
  next
    case False
    then obtain o1 where o1: "old_step opts (prev_steps previous) s = Some o1" "ps_state o1 = SSkipped"
      using m(3) assms(3) by (cases "old_step opts (prev_steps previous) s"; cases "si_state s")
        (auto simp: x merge_step_Inr merged_step_state effectiveState_def)
    obtain q where "q \<in> set (prev_steps previous)" "ps_id q = si_id s" "ps_state o1 = ps_state q"
      by (rule old_step_source [OF o1(1)])
    then show ?thesis using o1(2) m(3) by (auto simp: x merge_step_Inr)
  qed
qed

lemma merge_narrows_nothing:
  assumes "mergePlan previous input status question opts = Inr p" "old \<in> set (prev_steps previous)"
    "\<not> mo_consent opts" "ps_state old \<notin> {SDone, SSkipped} \<or> nullish (ps_items old) [] \<noteq> []"
  shows "\<exists>x \<in> set (pl_steps p). ps_id x = ps_id old \<and> set (nullish (ps_items old) []) \<subseteq> set (nullish (ps_items x) [])"
proof -
  obtain steps xs where m: "input = Some steps" "merge_check (prev_steps previous) steps status question opts = None"
      "list_all2 (\<lambda>s x. merge_step opts (prev_steps previous) s = Inr x) steps xs"
      "p = drop_stale_checks \<lparr>pl_scopeConsent = False, pl_steps = xs, pl_status = status, pl_question = question, pl_note = None\<rparr>"
    by (rule mergePlan_Inr [OF assms(1)])
  have "\<not> narrows steps old"
    using merge_check_None(4) [OF m(2) assms(3)] assms(2) by (auto simp: list_ex_iff)
  then obtain s where f: "find_input steps (ps_id old) = Some s"
      and items: "set (nullish (ps_items old) []) \<subseteq> set (nullish (si_items s) [])"
    using assms(4) by (auto simp: narrows_def list_ex_iff split: option.splits)
  then have s: "s \<in> set steps" "si_id s = ps_id old"
    by (auto simp: find_input_def dest: find_mem)
  then obtain j where j: "j < length steps" "s = steps ! j" by (auto simp: in_set_conv_nth)
  then have y: "j < length xs" "merge_step opts (prev_steps previous) s = Inr (xs ! j)"
    using m(3) by (auto simp: list_all2_conv_all_nth)
  then have "ps_id (xs ! j) = ps_id old" "ps_items (xs ! j) = si_items s"
    using s(2) by (auto simp: merge_step_Inr)
  moreover have "pl_steps p ! j = xs ! j \<or> pl_steps p ! j = resetStaleCheck (xs ! j)" "j < length (pl_steps p)"
    using y(1) m(4) drop_stale_checks_steps
      [of "\<lparr>pl_scopeConsent = False, pl_steps = xs, pl_status = status, pl_question = question, pl_note = None\<rparr>"]
    by auto
  ultimately show ?thesis
    using items by (intro bexI [of _ "pl_steps p ! j"]) auto
qed

end
