(* ===== verification/PlanInv.thy ===== *)
theory PlanInv
  imports PlanMerge
begin

text \<open>
  The invariant of the dialogue plan in every reachable state, from the laws of the task board (locale
  \<open>board_contract\<close>): every step relation case of \<open>flow_step\<close> keeps it.
\<close>

subsection \<open>The invariant of the flow\<close>

definition reserved_ids :: "(delegation \<times> prepared option) list \<Rightarrow> string list" where
  "reserved_ids fs = List.map_filter (\<lambda>(dg, r). dg_step dg) fs"

text \<open>A delegation in flight holds a step of the current plan object, of the kind its request asks for.\<close>

definition holds_step :: "'b scope \<Rightarrow> delegation \<Rightarrow> string \<Rightarrow> rkind \<Rightarrow> bool" where
  "holds_step sc dg i k \<longleftrightarrow> (\<exists>p. sc_plan sc = Some p \<and> dg_gen dg = sc_gen sc \<and> (i, k) \<in> set (step_keys p))"

definition flight_ok :: "'b scope \<Rightarrow> delegation \<times> prepared option \<Rightarrow> bool" where
  "flight_ok sc x \<longleftrightarrow>
     (case dg_step (fst x) of None \<Rightarrow> True
      | Some i \<Rightarrow> \<exists>k. holds_step sc (fst x) i k
          \<and> (case snd x of None \<Rightarrow> True | Some (req, checked) \<Rightarrow> tr_result req = k))"

lemma holds_step_iff:
  "holds_step sc dg i k \<longleftrightarrow> dg_gen dg = sc_gen sc
     \<and> (case map_option step_keys (sc_plan sc) of None \<Rightarrow> False | Some ks \<Rightarrow> (i, k) \<in> set ks)"
  by (cases "sc_plan sc") (auto simp: holds_step_def)

lemma holds_step_cong:
  assumes "map_option step_keys (sc_plan sc') = map_option step_keys (sc_plan sc)" "sc_gen sc' = sc_gen sc"
  shows "holds_step sc' dg i k = holds_step sc dg i k"
  by (simp only: holds_step_iff assms)

lemma flight_ok_cong:
  assumes "map_option step_keys (sc_plan sc') = map_option step_keys (sc_plan sc)" "sc_gen sc' = sc_gen sc"
  shows "flight_ok sc' = flight_ok sc"
  by (intro ext) (simp only: flight_ok_def holds_step_cong [OF assms])

definition scope_ok :: "(string \<Rightarrow> task_rec option) \<Rightarrow> 'b scope \<Rightarrow> bool" where
  "scope_ok get sc \<longleftrightarrow> (case sc_plan sc of None \<Rightarrow> True | Some p \<Rightarrow> plan_inv get p)"

definition flow_inv :: "'b planner_env \<Rightarrow> 'b flow \<Rightarrow> bool" where
  "flow_inv env f \<longleftrightarrow>
     (let sc = fl_scope f; fs = fl_flight f in
      scope_ok (pe_get env (sc_board sc)) sc
      \<and> sc_delegations sc = length fs \<and> distinct (reserved_ids fs) \<and> sc_reserved sc = set (reserved_ids fs)
      \<and> (\<forall>x \<in> set fs. flight_ok sc x))"

lemma reserved_ids_simps [simp]:
  "reserved_ids [] = []"
  "reserved_ids (x # fs) = (case dg_step (fst x) of None \<Rightarrow> reserved_ids fs | Some i \<Rightarrow> i # reserved_ids fs)"
  "reserved_ids (fs @ gs) = reserved_ids fs @ reserved_ids gs"
  by (simp_all add: reserved_ids_def map_filter_def case_prod_beta split: option.splits)

lemma reserved_mem: "x \<in> set fs \<Longrightarrow> dg_step (fst x) = Some i \<Longrightarrow> i \<in> set (reserved_ids fs)"
  by (induction fs) (auto split: option.splits)

lemma reserved_memE: "i \<in> set (reserved_ids fs) \<Longrightarrow> \<exists>x \<in> set fs. dg_step (fst x) = Some i"
  by (induction fs) (auto split: option.splits)

lemma plan_inv_steps: "pl_steps p' = pl_steps p \<Longrightarrow> plan_inv get p' \<longleftrightarrow> plan_inv get p"
  by (simp add: plan_inv_def plan_ok_def attempts_disjoint_def)

lemma plan_inv_later:
  assumes "plan_inv get p" "\<And>i. later (get i) (get' i)"
  shows "plan_inv get' p"
  using assms step_ok_later unfolding plan_inv_def by blast

lemma recompute_steps [simp]: "pl_steps (recomputePlanStatus p) = pl_steps p"
  by (simp add: recomputePlanStatus_def)

text \<open>A change of the scope that keeps the plan object, its keys and the reservations.\<close>

lemma flow_inv_frame:
  assumes "flow_inv env \<lparr>fl_scope = sc, fl_flight = fs\<rparr>"
    and "scope_ok (pe_get env (sc_board sc')) sc'"
    and "sc_delegations sc' = sc_delegations sc" "sc_reserved sc' = sc_reserved sc" "sc_gen sc' = sc_gen sc"
    and "map_option step_keys (sc_plan sc') = map_option step_keys (sc_plan sc)"
  shows "flow_inv env \<lparr>fl_scope = sc', fl_flight = fs\<rparr>"
  using assms flight_ok_cong [OF assms(6,5)] by (simp add: flow_inv_def Let_def)

text \<open>Where no step of the plan is reserved, no delegation in flight holds a step.\<close>

lemma unreserved_flight:
  assumes "flow_inv env \<lparr>fl_scope = sc, fl_flight = fs\<rparr>" "\<not> stepReserved sc" "x \<in> set fs"
  shows "dg_step (fst x) = None"
proof (rule ccontr)
  assume "dg_step (fst x) \<noteq> None"
  then obtain i where i: "dg_step (fst x) = Some i" by blast
  have "flight_ok sc x" using assms(1,3) by (simp add: flow_inv_def Let_def)
  then obtain p k where "sc_plan sc = Some p" "(i, k) \<in> set (step_keys p)"
    using i by (auto simp: flight_ok_def holds_step_def)
  moreover have "i \<in> sc_reserved sc"
    using assms(1) reserved_mem [OF assms(3) i] by (simp add: flow_inv_def Let_def)
  ultimately show False
    using assms(2) by (auto simp: stepReserved_def list_ex_iff)
qed

lemma flow_inv_new_plan:
  assumes inv: "flow_inv env \<lparr>fl_scope = sc, fl_flight = fs\<rparr>" and free: "\<not> stepReserved sc"
    and "scope_ok (pe_get env (sc_board sc')) sc'"
    and "sc_delegations sc' = sc_delegations sc" "sc_reserved sc' = sc_reserved sc"
  shows "flow_inv env \<lparr>fl_scope = sc', fl_flight = fs\<rparr>"
  using assms unreserved_flight [OF inv free]
  by (auto simp: flow_inv_def Let_def flight_ok_def)

subsection \<open>The single steps\<close>

lemma assertNoActiveAttempt_None: "assertNoActiveAttempt env sc s = None \<Longrightarrow> ps_id s \<notin> sc_reserved sc"
  by (auto simp: assertNoActiveAttempt_def split: if_splits)

lemma flow_inv_parts:
  "flow_inv env \<lparr>fl_scope = sc, fl_flight = fs\<rparr> \<longleftrightarrow>
     scope_ok (pe_get env (sc_board sc)) sc \<and> sc_delegations sc = length fs \<and> distinct (reserved_ids fs)
     \<and> sc_reserved sc = set (reserved_ids fs) \<and> (\<forall>x \<in> set fs. flight_ok sc x)"
  by (simp add: flow_inv_def Let_def)

lemma scope_ok_cong: "sc_plan sc' = sc_plan sc \<Longrightarrow> scope_ok get sc' = scope_ok get sc"
  by (simp add: scope_ok_def)

lemma step_arg_mem: "step_arg args p = Some s \<Longrightarrow> s \<in> set (pl_steps p)"
  by (auto simp: step_arg_def find_step_def split: option.splits json.splits dest: find_mem)

lemma delegate_open_cases:
  assumes "delegate_open env args sc = Inr (dg, sc')"
  obtains "dg_step dg = None" "sc' = sc\<lparr>sc_delegations := sc_delegations sc + 1\<rparr>"
  | p s where "sc_plan sc = Some p" "step_arg args p = Some s" "dependenciesDone p s"
      "assertNoActiveAttempt env sc s = None" "dg_step dg = Some (ps_id s)" "dg_gen dg = sc_gen sc"
      "sc' = sc\<lparr>sc_reserved := insert (ps_id s) (sc_reserved sc), sc_delegations := sc_delegations sc + 1\<rparr>"
proof -
  from assms obtain a where a: "delegate_args env args = Inr a"
    unfolding delegate_open_def by (cases "delegate_args env args") simp_all
  obtain w g m c where a': "a = (w, g, m, c)" by (cases a)
  note D = assms [unfolded delegate_open_def a a' sum.case prod.case Let_def]
  show thesis
  proof (cases "structured_plan sc")
    case None
    with D have "dg_step dg = None" "sc' = sc\<lparr>sc_delegations := sc_delegations sc + 1\<rparr>" by auto
    then show thesis by (rule that(1))
  next
    case (Some p)
    then have p: "sc_plan sc = Some p" by (auto simp: structured_plan_def split: option.splits if_splits)
    note D = D [unfolded Some option.case]
    show thesis
    proof (cases "step_arg args p")
      case None
      then show thesis using D by simp
    next
      case (Some s)
      note D = D [unfolded Some option.case]
      have d: "dependenciesDone p s" by (rule ccontr) (use D in simp)
      have n: "assertNoActiveAttempt env sc s = None" using D d by (cases "assertNoActiveAttempt env sc s") simp_all
      show thesis
        by (rule that(2) [OF p Some d n]) (use D d n in auto)
    qed
  qed
qed

lemma open_inv:
  assumes "flow_inv env \<lparr>fl_scope = sc, fl_flight = fs\<rparr>" "delegate_open env args sc = Inr (dg, sc')"
  shows "flow_inv env \<lparr>fl_scope = sc', fl_flight = fs @ [(dg, None)]\<rparr>"
  using assms(2)
proof (cases rule: delegate_open_cases)
  case 1
  have "flight_ok sc' = flight_ok sc" by (rule flight_ok_cong) (simp_all add: 1(2))
  moreover have "scope_ok get sc' = scope_ok get sc" for get by (rule scope_ok_cong) (simp add: 1(2))
  moreover have "flight_ok sc (dg, None)" by (simp add: flight_ok_def 1(1))
  ultimately show ?thesis
    using assms(1) 1 by (simp add: flow_inv_parts)
next
  case (2 p s)
  have "holds_step sc dg (ps_id s) (resultKind s)"
    using 2(1,6) step_arg_mem [OF 2(2)] by (auto simp: holds_step_def)
  then have "flight_ok sc (dg, None)" using 2(5) by (auto simp: flight_ok_def)
  moreover have "flight_ok sc' = flight_ok sc" by (rule flight_ok_cong) (simp_all add: 2(7))
  moreover have "scope_ok get sc' = scope_ok get sc" for get by (rule scope_ok_cong) (simp add: 2(7))
  moreover have "ps_id s \<notin> set (reserved_ids fs)"
    using assms(1) assertNoActiveAttempt_None [OF 2(4)] by (simp add: flow_inv_parts)
  ultimately show ?thesis
    using assms(1) 2(5,7) by (simp add: flow_inv_parts)
qed

lemma profile_error_None: "profile_error dg profile s = None \<Longrightarrow> profile = resultKind s"
  by (cases profile; cases "resultKind s") (auto simp: profile_error_def Let_def split: if_splits)

lemma prepare_kind:
  assumes "delegate_prepare env dg profile sc = Inr (req, checked)" "delegated_step dg sc = Some s"
  shows "tr_result req = resultKind s"
  using assms profile_error_None [of dg profile s]
  by (auto simp: delegate_prepare_def Let_def split: option.splits sum.splits if_splits)

lemma prepare_inv:
  assumes "flow_inv env \<lparr>fl_scope = sc, fl_flight = xs @ (dg, None) # ys\<rparr>"
    "delegate_prepare env dg profile sc = Inr r"
  shows "flow_inv env \<lparr>fl_scope = sc, fl_flight = xs @ (dg, Some r) # ys\<rparr>"
proof -
  obtain req checked where r: "r = (req, checked)" by fastforce
  have "flight_ok sc (dg, Some r)"
  proof (cases "dg_step dg")
    case (Some i)
    have "flight_ok sc (dg, None)" using assms(1) by (simp add: flow_inv_def Let_def)
    then obtain p k where p: "sc_plan sc = Some p" "dg_gen dg = sc_gen sc" "(i, k) \<in> set (step_keys p)"
      using Some by (auto simp: flight_ok_def holds_step_def)
    then obtain s where s: "find_step p i = Some s"
      by (cases "find_step p i") (auto simp: find_step_def find_None_iff)
    then have "s \<in> set (pl_steps p)" "ps_id s = i" by (auto simp: find_step_def dest: find_mem)
    moreover have "tr_result req = resultKind s"
      using assms(2) s p(1) Some unfolding r by (intro prepare_kind) (auto simp: delegated_step_def)
    ultimately have "holds_step sc dg i (tr_result req)" using p by (auto simp: holds_step_def)
    then show ?thesis using Some r by (auto simp: flight_ok_def)
  qed (simp add: flight_ok_def)
  then show ?thesis using assms(1) by (simp add: flow_inv_parts split: option.splits)
qed

lemma release_frame [simp]:
  "sc_plan (delegate_release dg sc) = sc_plan sc" "sc_gen (delegate_release dg sc) = sc_gen sc"
  "sc_board (delegate_release dg sc) = sc_board sc" "sc_delegations (delegate_release dg sc) = sc_delegations sc - 1"
  "sc_reserved (delegate_release dg sc)
     = (case dg_step dg of None \<Rightarrow> sc_reserved sc | Some i \<Rightarrow> sc_reserved sc - {i})"
  by (simp_all add: delegate_release_def)

lemma release_inv:
  assumes "flow_inv env \<lparr>fl_scope = sc, fl_flight = xs @ (dg, r) # ys\<rparr>"
  shows "flow_inv env \<lparr>fl_scope = delegate_release dg sc, fl_flight = xs @ ys\<rparr>"
proof -
  note I = assms [unfolded flow_inv_parts]
  have f: "flight_ok (delegate_release dg sc) = flight_ok sc" by (rule flight_ok_cong) simp_all
  have s: "scope_ok get (delegate_release dg sc) = scope_ok get sc" for get by (rule scope_ok_cong) simp
  have "(case dg_step dg of None \<Rightarrow> sc_reserved sc | Some i \<Rightarrow> sc_reserved sc - {i}) = set (reserved_ids (xs @ ys))
      \<and> distinct (reserved_ids (xs @ ys))"
    using I by (cases "dg_step dg") auto
  then show ?thesis
    unfolding flow_inv_parts f s using I by simp
qed

lemma merge_into_inv:
  assumes "merge_into env sc previous steps status question = Inr p"
    and "\<And>q. previous = Some q \<Longrightarrow> plan_inv (pe_get env (sc_board sc)) q"
  shows "plan_inv (pe_get env (sc_board sc)) p"
  using assms merge_inv unfolding merge_into_def
  by (fastforce split: sum.splits plan_error.splits)

lemma updated_plan_inv:
  assumes "updated_plan env sc args status question = Inr p" "scope_ok (pe_get env (sc_board sc)) sc"
  shows "plan_inv (pe_get env (sc_board sc)) p"
proof (cases "field ''steps'' args")
  case (Some v)
  with assms(1) have "merge_into env sc (sc_plan sc) (pe_steps env v) status question = Inr p"
    by (simp add: updated_plan_def)
  then show ?thesis
    by (rule merge_into_inv) (use assms(2) in \<open>simp add: scope_ok_def\<close>)
next
  case None
  note U = assms(1) [unfolded updated_plan_def None option.case]
  show ?thesis
  proof (cases "sc_plan sc \<noteq> None \<and> field ''plan'' args = None")
    case True
    then obtain q where q: "sc_plan sc = Some q" "pl_steps p = pl_steps q" using U by auto
    then show ?thesis using assms(2) plan_inv_steps [OF q(2)] by (simp add: scope_ok_def)
  next
    case False
    then have "pl_steps p = []"
      using U by (cases "sc_plan sc"; cases "field ''plan'' args") (auto split: sum.splits if_splits)
    then show ?thesis
      by (simp add: plan_inv_def plan_ok_def attempts_disjoint_def plan_edges_of_def acyclic_def)
  qed
qed

lemma plan_update_cases:
  assumes "plan_update env args sc = (e, sc')" "sc' \<noteq> sc"
  obtains status question p where "\<not> stepReserved sc" "updated_plan env sc args status question = Inr p"
    "sc' = set_plan p sc" "e = None"
proof -
  obtain status where st: "update_status args = Inr status"
    using assms by (cases "update_status args") (simp_all add: plan_update_def)
  obtain question where qu: "optionalString args ''question'' = Inr question"
    using assms st by (cases "optionalString args ''question''") (simp_all add: plan_update_def)
  note U = assms(1) [unfolded plan_update_def st qu sum.case]
  from U assms(2) have free: "\<not> stepReserved sc" by (auto split: if_splits)
  from U assms(2) obtain p where "updated_plan env sc args status question = Inr p" "sc' = set_plan p sc" "e = None"
    by (cases "updated_plan env sc args status question") (auto simp: Let_def split: if_splits option.splits)
  with free show thesis by (rule that)
qed

lemma update_inv:
  assumes "flow_inv env \<lparr>fl_scope = sc, fl_flight = fs\<rparr>" "plan_update env args sc = (e, sc')"
  shows "flow_inv env \<lparr>fl_scope = sc', fl_flight = fs\<rparr>"
proof (cases "sc' = sc")
  case False
  obtain status question p where u: "\<not> stepReserved sc" "updated_plan env sc args status question = Inr p"
      "sc' = set_plan p sc"
    by (rule plan_update_cases [OF assms(2) False])
  have "plan_inv (pe_get env (sc_board sc)) p"
    by (rule updated_plan_inv [OF u(2)]) (use assms(1) in \<open>simp add: flow_inv_parts\<close>)
  then show ?thesis
    by (intro flow_inv_new_plan [OF assms(1) u(1)]) (simp_all add: u(3) set_plan_def scope_ok_def)
qed (use assms in simp)

lemma author_commit_cases:
  assumes "author_commit env create unchanged answer sc = (e, sc')" "sc' \<noteq> sc"
  obtains steps status question p where "\<not> attemptReserved sc"
    "merge_into env sc (if create then None else sc_plan sc) (Some steps) status question = Inr p" "sc' = set_plan p sc"
proof -
  from assms obtain a where a: "answer = Some a" "\<not> attemptReserved sc"
    by (cases answer) (auto simp: author_commit_def split: if_splits)
  let ?cur = "if create then None else sc_plan sc"
  let ?steps = "kept_done (case ?cur of None \<Rightarrow> [] | Some p \<Rightarrow> pl_steps p) (au_steps a)"
  have "\<exists>p. merge_into env sc ?cur (Some ?steps) (au_status a) (au_question a) = Inr p \<and> sc' = set_plan p sc"
    using assms a
    by (cases "merge_into env sc ?cur (Some ?steps) (au_status a) (au_question a)")
      (simp_all add: author_commit_def Let_def split: if_splits option.splits)
  with a(2) that show thesis by blast
qed

lemma author_inv:
  assumes "flow_inv env \<lparr>fl_scope = sc, fl_flight = fs\<rparr>" "author_commit env create unchanged answer sc = (e, sc')"
  shows "flow_inv env \<lparr>fl_scope = sc', fl_flight = fs\<rparr>"
proof (cases "sc' = sc")
  case False
  obtain steps status question p where u: "\<not> attemptReserved sc"
      "merge_into env sc (if create then None else sc_plan sc) (Some steps) status question = Inr p" "sc' = set_plan p sc"
    by (rule author_commit_cases [OF assms(2) False])
  have "plan_inv (pe_get env (sc_board sc)) p"
    by (rule merge_into_inv [OF u(2)])
      (use assms(1) in \<open>auto simp: flow_inv_parts scope_ok_def split: if_splits option.splits\<close>)
  moreover have "\<not> stepReserved sc" using u(1) by (simp add: attemptReserved_def stepReserved_def)
  ultimately show ?thesis
    by (intro flow_inv_new_plan [OF assms(1)]) (simp_all add: u(3) set_plan_def scope_ok_def)
qed (use assms in simp)

lemma new_request_inv:
  assumes "flow_inv env \<lparr>fl_scope = sc, fl_flight = fs\<rparr>"
  shows "flow_inv env \<lparr>fl_scope = new_request sc, fl_flight = fs\<rparr>"
proof (cases "attemptReserved sc")
  case False
  then have "\<not> stepReserved sc" by (simp add: attemptReserved_def stepReserved_def)
  then show ?thesis
    by (rule flow_inv_new_plan [OF assms]) (simp_all add: new_request_def scope_ok_def False)
qed (use assms in \<open>simp add: new_request_def\<close>)

text \<open>Where only the steps of the plan stay, or the tasks of the board move on.\<close>

lemma same_steps_inv:
  assumes "flow_inv env \<lparr>fl_scope = sc, fl_flight = fs\<rparr>" "sc' = sc\<lparr>sc_plan := map_option f (sc_plan sc)\<rparr>"
    "\<And>p. pl_steps (f p) = pl_steps p"
  shows "flow_inv env \<lparr>fl_scope = sc', fl_flight = fs\<rparr>"
proof (rule flow_inv_frame [OF assms(1)])
  show "scope_ok (pe_get env (sc_board sc')) sc'"
    using assms(1) plan_inv_steps [OF assms(3)] by (cases "sc_plan sc") (auto simp: assms(2) flow_inv_parts scope_ok_def)
  show "map_option step_keys (sc_plan sc') = map_option step_keys (sc_plan sc)"
    by (cases "sc_plan sc") (simp_all add: assms(2,3))
qed (simp_all add: assms(2))

lemma later_board_inv:
  assumes "flow_inv env \<lparr>fl_scope = sc, fl_flight = fs\<rparr>" "\<And>i. later (pe_get env (sc_board sc) i) (pe_get env b i)"
    "sc_plan sc' = sc_plan sc" "sc_gen sc' = sc_gen sc" "sc_reserved sc' = sc_reserved sc"
    "sc_delegations sc' = sc_delegations sc" "sc_board sc' = b"
  shows "flow_inv env \<lparr>fl_scope = sc', fl_flight = fs\<rparr>"
proof (rule flow_inv_frame [OF assms(1)])
  show "scope_ok (pe_get env (sc_board sc')) sc'"
    using assms(1) plan_inv_later [OF _ assms(2)] by (auto simp: flow_inv_parts scope_ok_def assms(3,7) split: option.splits)
qed (use assms in simp_all)

lemma event_flow_inv:
  assumes "flow_inv env \<lparr>fl_scope = sc, fl_flight = fs\<rparr>" "pe_get env (sc_board sc) (tk_id t) = Some t"
    "kind = EDone \<longrightarrow> tk_state t = TDone"
  shows "flow_inv env \<lparr>fl_scope = deliver_event V t kind sc, fl_flight = fs\<rparr>"
proof (rule flow_inv_frame [OF assms(1)])
  let ?sc = "deliver_event V t kind sc"
  have inv: "plan_inv (pe_get env (sc_board sc)) p" if "sc_plan sc = Some p" for p
    using assms(1) that by (simp add: flow_inv_parts scope_ok_def)
  note E = event_inv [OF inv assms(2,3), where V = V and taskSteps = "sc_taskSteps sc"]
  show "scope_ok (pe_get env (sc_board ?sc)) ?sc"
    using E plan_inv_steps [OF recompute_steps]
    by (cases "sc_plan sc") (auto simp: scope_ok_def deliver_event_def)
  show "map_option step_keys (sc_plan ?sc) = map_option step_keys (sc_plan sc)"
    using E by (cases "sc_plan sc") (simp_all add: deliver_event_def)
qed (simp_all add: deliver_event_def)

lemma start_attempt_ok:
  assumes "step_ok get s" "profile = resultKind s" "get taskId = Some u" "tk_result u = Some profile"
  shows "step_ok get (start_attempt taskId profile checked s)"
proof -
  have "resultKind (start_attempt taskId profile checked s) = resultKind s"
    using assms(2) by (cases "ps_result s") (simp_all add: start_attempt_def resultKind_def kind_of_def)
  then show ?thesis
    using assms step_okD(1) [OF assms(1)] by (intro step_okI) (auto simp: start_attempt_def)
qed

lemma commit_inv:
  assumes inv: "flow_inv env \<lparr>fl_scope = sc, fl_flight = xs @ (dg, Some (req, checked)) # ys\<rparr>"
    and commit: "delegate_commit env dg req checked sc = (e, sc')"
    and law: "\<And>b r. pe_start env (sc_board sc) req = (r, b) \<Longrightarrow>
      (\<forall>i. later (pe_get env (sc_board sc) i) (pe_get env b i))
      \<and> (\<forall>t. r = Inr t \<longrightarrow> pe_get env (sc_board sc) (tk_id t) = None
           \<and> (\<exists>u. pe_get env b (tk_id t) = Some u \<and> tk_result u = Some (tr_result req)))"
  shows "flow_inv env \<lparr>fl_scope = sc', fl_flight = xs @ ys\<rparr>"
proof (cases "fst (pe_start env (sc_board sc) req)")
  case (Inl m)
  then obtain b where b: "pe_start env (sc_board sc) req = (Inl m, b)" by (metis prod.collapse)
  let ?sc = "sc\<lparr>sc_board := b\<rparr>"
  have "flow_inv env \<lparr>fl_scope = ?sc, fl_flight = xs @ (dg, Some (req, checked)) # ys\<rparr>"
    by (rule later_board_inv [OF inv, where b = b]) (use law [OF b] in simp_all)
  then show ?thesis using commit release_inv by (auto simp: delegate_commit_def b)
next
  case (Inr t)
  then obtain b where bt: "pe_start env (sc_board sc) req = (Inr t, b)" by (metis prod.collapse)
  from law [OF bt] obtain u where L: "pe_get env (sc_board sc) (tk_id t) = None" "pe_get env b (tk_id t) = Some u"
      "tk_result u = Some (tr_result req)" "\<And>i. later (pe_get env (sc_board sc) i) (pe_get env b i)" by blast
  define k where "k = Option.bind (dg_step dg) (\<lambda>i. Option.bind (sc_plan sc) (\<lambda>p. find_index p i))"
  define plan1 where "plan1 = map_option (\<lambda>p. if dg_gen dg = sc_gen sc then p\<lparr>pl_scopeConsent := False\<rparr> else p) (sc_plan sc)"
  define plan2 where "plan2 = (case k of None \<Rightarrow> plan1
     | Some j \<Rightarrow> map_option (update_step j (start_attempt (tk_id t) (tr_result req) checked)) plan1)"
  obtain sc1 where sc1: "sc' = delegate_release dg sc1" "sc_plan sc1 = plan2" "sc_board sc1 = b"
      "sc_gen sc1 = sc_gen sc" "sc_reserved sc1 = sc_reserved sc" "sc_delegations sc1 = sc_delegations sc"
    using commit [unfolded delegate_commit_def bt prod.case sum.case Let_def, folded k_def, folded plan1_def,
        folded plan2_def] by auto
  have "scope_ok (pe_get env b) sc1 \<and> map_option step_keys plan2 = map_option step_keys (sc_plan sc)"
  proof (cases "sc_plan sc")
    case None
    then have "plan2 = None" by (simp add: plan2_def plan1_def split: option.split)
    then show ?thesis by (simp add: scope_ok_def sc1(2) None)
  next
    case (Some p)
    define p1 where "p1 = (if dg_gen dg = sc_gen sc then p\<lparr>pl_scopeConsent := False\<rparr> else p)"
    have p1: "plan1 = Some p1" "pl_steps p1 = pl_steps p" by (simp_all add: plan1_def Some p1_def)
    have old: "plan_inv (pe_get env (sc_board sc)) p" using inv Some by (simp add: flow_inv_parts scope_ok_def)
    then have new: "plan_inv (pe_get env b) p1"
      using plan_inv_later L(4) plan_inv_steps [OF p1(2)] by blast
    show ?thesis
    proof (cases k)
      case None
      then show ?thesis using new p1 Some by (simp add: scope_ok_def sc1(2) plan2_def)
    next
      case k: (Some j)
      then obtain i where i: "dg_step dg = Some i" "find_index p i = Some j"
        using Some by (auto simp: k_def bind_eq_Some_conv)
      then have j: "j < length (pl_steps p)" "ps_id (pl_steps p ! j) = i"
        using findIndex_Some by (auto simp: find_index_def)
      let ?s = "pl_steps p ! j"
      have "flight_ok sc (dg, Some (req, checked))" using inv by (simp add: flow_inv_parts)
      then have "(i, tr_result req) \<in> set (step_keys p)"
        using i(1) Some by (auto simp: flight_ok_def holds_step_def)
      then obtain s' where s': "s' \<in> set (pl_steps p)" "ps_id s' = i" "resultKind s' = tr_result req" by auto
      have "distinct (step_ids p)" using old by (simp add: plan_inv_def plan_ok_def)
      then have "s' = ?s"
        using s'(1,2) j by (auto simp: distinct_map inj_on_def)
      then have kind: "tr_result req = resultKind ?s" using s'(3) by simp
      have s: "step_ok (pe_get env b) ?s" using new j(1) by (simp add: plan_inv_def p1(2))
      have fresh: "tk_id t \<notin> set (ps_taskIds x)" if "x \<in> set (pl_steps p)" for x
        using old that L(1) step_okD(1) [of "pe_get env (sc_board sc)" x] by (fastforce simp: plan_inv_def)
      let ?f = "start_attempt (tk_id t) (tr_result req) checked"
      have same: "ps_id (?f ?s) = ps_id ?s" "step_deps (?f ?s) = step_deps ?s"
          "resultKind (?f ?s) = resultKind ?s"
        using kind by (cases "ps_result ?s"; simp add: start_attempt_def resultKind_def kind_of_def)+
      have "plan_inv (pe_get env b) (update_step j ?f p1)"
      proof (rule plan_inv_update [where F = "{tk_id t}"])
        show "plan_inv_but j (pe_get env b) p1" by (rule plan_inv_imp_but [OF new])
        show "step_ok (pe_get env b) (?f (pl_steps p1 ! j))"
          unfolding p1(2) by (rule start_attempt_ok [OF s kind L(2)]) (simp add: L(3))
      qed (use j same fresh p1(2) in \<open>auto simp: start_attempt_def\<close>)
      moreover have "step_keys (update_step j ?f p1) = step_keys p"
        using j(1) same by (simp add: update_step_map p1(2))
      ultimately show ?thesis by (simp add: scope_ok_def sc1(2) plan2_def k p1(1) Some)
    qed
  qed
  then have "flow_inv env \<lparr>fl_scope = sc1, fl_flight = xs @ (dg, Some (req, checked)) # ys\<rparr>"
    by (intro flow_inv_frame [OF inv]) (simp_all add: sc1)
  then show ?thesis unfolding sc1(1) by (rule release_inv)
qed

subsection \<open>Every reachable state\<close>

locale board_contract =
  fixes env :: "'b planner_env" and progress :: "'b \<Rightarrow> 'b \<Rightarrow> bool" and ok :: "'b \<Rightarrow> bool"
  assumes start_law: "ok b \<Longrightarrow> pe_start env b req = (r, b') \<Longrightarrow>
      ok b' \<and> (\<forall>i. later (pe_get env b i) (pe_get env b' i))
      \<and> (\<forall>t. r = Inr t \<longrightarrow> pe_get env b (tk_id t) = None
           \<and> (\<exists>u. pe_get env b' (tk_id t) = Some u \<and> tk_result u = Some (tr_result req)))"
    and stop_law: "ok b \<Longrightarrow> pe_stop env b i = (stopped, b') \<Longrightarrow> ok b' \<and> later (pe_get env b j) (pe_get env b' j)"
    and progress_law: "ok b \<Longrightarrow> progress b b' \<Longrightarrow> ok b' \<and> later (pe_get env b j) (pe_get env b' j)"
begin

lemma step_keeps_inv:
  assumes "flow_step env V progress f f'" "flow_inv env f" "ok (sc_board (fl_scope f))"
  shows "flow_inv env f' \<and> ok (sc_board (fl_scope f'))"
  using assms
proof (cases rule: flow_step.cases)
  case (delegate_opens args sc dg sc' fs)
  then have "sc_board sc' = sc_board sc" by (auto elim: delegate_open_cases)
  then show ?thesis using delegate_opens assms(2,3) open_inv by auto
next
  case (delegate_prepares dg profile sc r xs ys)
  then show ?thesis using assms(2,3) prepare_inv [OF _ delegate_prepares(3)] by auto
next
  case (delegate_fails sc xs dg r ys)
  then show ?thesis using assms(2,3) release_inv by auto
next
  case (delegate_commits dg req checked sc e sc' xs ys)
  have ok: "ok (sc_board sc)" using assms(3) delegate_commits by simp
  have "ok (sc_board sc')"
    using delegate_commits(3) start_law [OF ok, of req]
    by (cases "pe_start env (sc_board sc) req"; cases "fst (pe_start env (sc_board sc) req)")
      (auto simp: delegate_commit_def Let_def)
  moreover have "flow_inv env \<lparr>fl_scope = sc', fl_flight = xs @ ys\<rparr>"
    using commit_inv [OF _ delegate_commits(3)] start_law [OF ok] assms(2) delegate_commits(1) by blast
  ultimately show ?thesis using delegate_commits by simp
next
  case (plan_updated args sc e sc' fs)
  have "sc_board sc' = sc_board sc"
    by (cases "sc' = sc") (use plan_updated(3) in \<open>auto elim!: plan_update_cases simp: set_plan_def\<close>)
  then show ?thesis using plan_updated assms(2,3) update_inv by auto
next
  case (plan_authored create unchanged answer sc e sc' fs)
  have "sc_board sc' = sc_board sc"
    by (cases "sc' = sc") (use plan_authored(3) in \<open>auto elim!: author_commit_cases simp: set_plan_def\<close>)
  then show ?thesis using plan_authored assms(2,3) author_inv by auto
next
  case (task_stopped args sc r sc' fs)
  have ok: "ok (sc_board sc)" using assms(3) task_stopped by simp
  show ?thesis
  proof (cases "sc' = sc")
    case False
    then obtain i where i: "requiredString args ''task_id'' = Inr i"
      using task_stopped(3) by (cases "requiredString args ''task_id''") (auto simp: stop_task_def)
    obtain st b where st: "pe_stop env (sc_board sc) i = (st, b)" by fastforce
    have sc': "sc_plan sc' = sc_plan sc" "sc_gen sc' = sc_gen sc" "sc_reserved sc' = sc_reserved sc"
        "sc_delegations sc' = sc_delegations sc" "sc_board sc' = b"
      using task_stopped(3) by (auto simp: stop_task_def i st)
    have "flow_inv env \<lparr>fl_scope = sc', fl_flight = fs\<rparr>"
      by (rule later_board_inv [OF _ _ sc']) (use stop_law [OF ok st] assms(2) task_stopped(1) in auto)
    then show ?thesis using task_stopped(2) sc'(5) stop_law [OF ok st] by simp
  qed (use task_stopped assms(2,3) in simp)
next
  case (board_progresses sc b fs)
  have ok: "ok (sc_board sc)" using assms(3) board_progresses by simp
  have "flow_inv env \<lparr>fl_scope = sc\<lparr>sc_board := b\<rparr>, fl_flight = fs\<rparr>"
    by (rule later_board_inv [where b = b]) (use progress_law [OF ok board_progresses(3)] assms(2) board_progresses(1) in auto)
  then show ?thesis using board_progresses(2) progress_law [OF ok board_progresses(3)] by simp
next
  case (event_delivered sc i t kind fs)
  then have "flow_inv env \<lparr>fl_scope = deliver_event V t kind sc, fl_flight = fs\<rparr>"
    using assms(2) by (intro event_flow_inv) auto
  then show ?thesis using event_delivered assms(3) by (simp add: deliver_event_def)
next
  case (user_speaks sc fs)
  have "flow_inv env \<lparr>fl_scope = user_message sc, fl_flight = fs\<rparr>"
    by (rule same_steps_inv [OF _ user_message_def]) (use assms(2) user_speaks(1) in auto)
  then show ?thesis using user_speaks assms(3) by (simp add: user_message_def)
next
  case (request_starts sc fs)
  have "sc_board (new_request sc) = sc_board sc" by (simp add: new_request_def)
  then show ?thesis using request_starts new_request_inv assms(2,3) by auto
qed

lemma reachable_inv:
  assumes "flow_reachable env V progress b f" "ok b"
  shows "flow_inv env f \<and> ok (sc_board (fl_scope f))"
  using assms(1)
proof induction
  case start
  show ?case
    using assms(2) by (simp add: initial_flow_def initial_scope_def flow_inv_parts scope_ok_def)
next
  case (step f f')
  then show ?case using step_keeps_inv by blast
qed

lemma reachable_plan_inv:
  assumes "flow_reachable env V progress b f" "ok b" "sc_plan (fl_scope f) = Some p"
  shows "plan_inv (pe_get env (sc_board (fl_scope f))) p"
  using reachable_inv [OF assms(1,2)] assms(3) by (simp add: flow_inv_def scope_ok_def Let_def)

end

end
