(* ===== verification/Semaphore.thy ===== *)
theory Semaphore
  imports Prelude
begin

text \<open>
  Model of \<open>coordinator/dialogue/semaphore-pool.ts\<close>.  A call of \<open>acquire\<close> is named by a caller \<open>'w\<close>; the
  closure state \<open>released\<close> of a grant is the membership in \<open>sm_holders\<close> (the grants not yet released), and
  \<open>sm_queue\<close> is the queue of waiting grants.
\<close>

record 'w sem =
  sm_limit :: nat
  sm_active :: nat
  sm_holders :: "'w list"
  sm_queue :: "'w list"

datatype acquired = Granted | Queued | Refused

definition new_pool :: "int \<Rightarrow> 'w sem option" where
  "new_pool limit =
     (if limit < 1 then None
      else Some \<lparr>sm_limit = nat limit, sm_active = 0, sm_holders = [], sm_queue = []\<rparr>)"

definition grant :: "'w \<Rightarrow> 'w sem \<Rightarrow> 'w sem" where
  "grant w s = s\<lparr>sm_active := sm_active s + 1, sm_holders := sm_holders s @ [w]\<rparr>"

definition acquire :: "bool \<Rightarrow> 'w \<Rightarrow> 'w sem \<Rightarrow> acquired \<times> 'w sem" where
  "acquire aborted w s =
     (if aborted then (Refused, s)
      else if sm_active s < sm_limit s then (Granted, grant w s)
      else (Queued, s\<lparr>sm_queue := sm_queue s @ [w]\<rparr>))"

text \<open>The abort listener of a waiting call; \<open>splice\<close> removes one element.\<close>

definition abort_wait :: "'w \<Rightarrow> 'w sem \<Rightarrow> 'w sem" where
  "abort_wait w s = s\<lparr>sm_queue := remove1 w (sm_queue s)\<rparr>"

text \<open>The release function of a grant, and the grant of the next call in the queue.\<close>

definition release :: "'w \<Rightarrow> 'w sem \<Rightarrow> 'w sem" where
  "release w s =
     (if w \<notin> set (sm_holders s) then s
      else
        (let s1 = s\<lparr>sm_active := sm_active s - 1, sm_holders := remove1 w (sm_holders s)\<rparr> in
         case sm_queue s1 of
           [] \<Rightarrow> s1
         | x # rest \<Rightarrow> grant x (s1\<lparr>sm_queue := rest\<rparr>)))"

text \<open>The caller that a release lets in.\<close>

definition let_in :: "'w \<Rightarrow> 'w sem \<Rightarrow> 'w option" where
  "let_in w s =
     (if w \<in> set (sm_holders s) then (case sm_queue s of [] \<Rightarrow> None | x # _ \<Rightarrow> Some x) else None)"

subsection \<open>The invariant\<close>

text \<open>The pool never exceeds its limit, and no call waits while there is room.\<close>

definition sem_inv :: "'w sem \<Rightarrow> bool" where
  "sem_inv s \<longleftrightarrow>
     sm_active s = length (sm_holders s) \<and> sm_active s \<le> sm_limit s \<and> 0 < sm_limit s
     \<and> (sm_queue s \<noteq> [] \<longrightarrow> sm_active s = sm_limit s)
     \<and> distinct (sm_holders s @ sm_queue s)"

lemma new_pool_inv: "new_pool limit = Some s \<Longrightarrow> sem_inv s"
  by (auto simp: new_pool_def sem_inv_def split: if_splits)

lemma acquire_inv:
  assumes "sem_inv s" "w \<notin> set (sm_holders s @ sm_queue s)"
  shows "sem_inv (snd (acquire aborted w s))"
  using assms by (auto simp: acquire_def grant_def sem_inv_def)

lemma abort_wait_inv: "sem_inv s \<Longrightarrow> sem_inv (abort_wait w s)"
  using notin_set_remove1 by (fastforce simp: abort_wait_def sem_inv_def)

lemma pool_release_inv:
  assumes "sem_inv s"
  shows "sem_inv (release w s)"
proof (cases "w \<in> set (sm_holders s)")
  case True
  then have "0 < length (sm_holders s)" by (cases "sm_holders s") auto
  with True assms show ?thesis
    by (cases "sm_queue s") (auto simp: release_def Let_def grant_def sem_inv_def length_remove1)
qed (use assms in \<open>simp add: release_def\<close>)

text \<open>Who holds and who waits after each operation.\<close>

lemma acquire_sets:
  "acquire False w s = (a, s') \<Longrightarrow>
     set (sm_holders s') = (if a = Granted then insert w (set (sm_holders s)) else set (sm_holders s))
     \<and> sm_queue s' = (if a = Granted then sm_queue s else sm_queue s @ [w]) \<and> sm_limit s' = sm_limit s \<and> a \<noteq> Refused"
  by (auto simp: acquire_def grant_def split: if_splits)

lemma abort_wait_sets:
  "sem_inv s \<Longrightarrow> set (sm_queue (abort_wait w s)) = set (sm_queue s) - {w}
     \<and> sm_holders (abort_wait w s) = sm_holders s \<and> sm_limit (abort_wait w s) = sm_limit s"
  by (simp add: abort_wait_def sem_inv_def)

lemma release_sets:
  assumes "sem_inv s"
  shows "sm_limit (release w s) = sm_limit s"
    and "set (sm_holders (release w s)) = set (sm_holders s) - {w} \<union> set_option (let_in w s)"
    and "sm_queue (release w s) = (if w \<in> set (sm_holders s) then tl (sm_queue s) else sm_queue s)"
  using assms by (cases "sm_queue s"; auto simp: release_def let_in_def Let_def grant_def sem_inv_def)+

end
