(* ===== verification/TaskBoard.thy ===== *)
theory TaskBoard
  imports PlannerTools Semaphore
begin

text \<open>
  Model of \<open>coordinator/dialogue/task-board.ts\<close>: the board on which background tasks are queued, run by
  workers, stopped, stored and settled.

  \<open>execute\<close> is an asynchronous function; the point at which it waits is the phase of the entry, and what it
  does from one wait to the next is one step.  Steps of different tasks, stops and the start of new tasks
  interleave in any order (\<open>board_step\<close>).  The answers of workers, of an outer concurrency pool and of the
  result store are arbitrary.  The maps \<open>records\<close> and \<open>entries\<close> are functions together with the insertion
  order \<open>tb_order\<close>.  Times, usage records, signals, stall notices and tool traces are not modelled.
\<close>

subsection \<open>Data\<close>

datatype phase =
    PQueue              \<comment> \<open>waits for a slot of the board\<close>
  | PRefused            \<comment> \<open>the waiting was aborted\<close>
  | PGranted            \<comment> \<open>holds a slot\<close>
  | PPool               \<comment> \<open>holds a slot and waits for the outer pool\<close>
  | PRun                \<comment> \<open>the worker runs\<close>
  | PStore event_kind string   \<comment> \<open>the result is being stored: outcome and summary\<close>

record entry =
  en_request :: task_request
  en_stop :: bool
  en_hard :: bool
  en_put :: "bool option"
  en_cancelWrite :: bool
  en_timer :: bool
  en_phase :: phase

record board =
  tb_order :: "string list"
  tb_records :: "string \<Rightarrow> task_rec option"
  tb_entries :: "string \<Rightarrow> entry option"
  tb_sem :: "string sem"
  tb_counter :: nat
  tb_newIds :: nat
  tb_events :: "(event_kind \<times> task_rec) list"

record board_options =
  to_profiles :: "(string \<Rightarrow> string + rkind) option"
  to_workers :: "string list"
  to_newId :: "nat \<Rightarrow> string option"
  to_maxTasks :: nat
  to_outputChars :: nat
  to_hardStopAfterMs :: nat
  to_store :: bool
  to_platform :: verdict_platform

definition cutTaskOutput :: "string \<Rightarrow> nat \<Rightarrow> string" where
  "cutTaskOutput output limit =
     (if length output \<le> limit then output
      else take limit output @ newline @ ''[cut: '' @ nat_str (length output - limit) @ '' characters omitted]'')"

lemma cutTaskOutput_short [simp]: "length output \<le> limit \<Longrightarrow> cutTaskOutput output limit = output"
  by (simp add: cutTaskOutput_def)

definition resolveWorkerSummary :: "string \<Rightarrow> string option \<Rightarrow> string \<times> bool" where
  "resolveWorkerSummary output finishSummary =
     (let marker = '' [summary truncated]'' in
      case finishSummary of
        None \<Rightarrow>
          (if length output > 600 then take (600 - length marker) output @ marker else output, length output > 600)
      | Some s \<Rightarrow> (take 600 s, length s > 600))"

definition resolveVerdictSummary :: "check_verdict \<Rightarrow> string" where
  "resolveVerdictSummary v =
     (let line = pass_fail_name (cv_verdict v)
            @ (case cv_count v of None \<Rightarrow> [] | Some n \<Rightarrow> ''; count: '' @ nat_str n)
      in if truthy (cv_note v)
         then line @ ''; note: '' @ slice0 (600 - int (length line) - 8) (the (cv_note v))
         else line)"

subsection \<open>Writing the board\<close>

definition put_task :: "task_rec \<Rightarrow> board \<Rightarrow> board" where
  "put_task t b = b\<lparr>tb_records := (tb_records b)(tk_id t \<mapsto> t)\<rparr>"

definition put_entry :: "string \<Rightarrow> entry \<Rightarrow> board \<Rightarrow> board" where
  "put_entry i e b = b\<lparr>tb_entries := (tb_entries b)(i \<mapsto> e)\<rparr>"

definition set_phase :: "string \<Rightarrow> phase \<Rightarrow> board \<Rightarrow> board" where
  "set_phase i ph b =
     (case tb_entries b i of None \<Rightarrow> b | Some e \<Rightarrow> put_entry i (e\<lparr>en_phase := ph\<rparr>) b)"

definition emit_event :: "event_kind \<Rightarrow> task_rec \<Rightarrow> board \<Rightarrow> board" where
  "emit_event k t b = b\<lparr>tb_events := tb_events b @ [(k, t)]\<rparr>"

text \<open>\<open>releaseBoard\<close>: the next waiting task is granted the slot.\<close>

definition release_slot :: "string \<Rightarrow> board \<Rightarrow> board" where
  "release_slot i b =
     (let b1 = b\<lparr>tb_sem := release i (tb_sem b)\<rparr> in
      case let_in i (tb_sem b) of None \<Rightarrow> b1 | Some j \<Rightarrow> set_phase j PGranted b1)"

subsection \<open>Starting a task\<close>

definition new_task :: "string \<Rightarrow> task_request \<Rightarrow> task_rec" where
  "new_task i req =
     \<lparr>tk_id = i, tk_worker = tr_worker req, tk_goal = tr_goal req, tk_state = TQueued,
      tk_result = Some (tr_result req), tk_budgetExhausted = False, tk_toolCalls = None, tk_maxToolCalls = None,
      tk_verdict = None, tk_output = None, tk_summary = None, tk_error = None, tk_resultRef = None\<rparr>"

definition new_entry :: "task_request \<Rightarrow> entry" where
  "new_entry req =
     \<lparr>en_request = req, en_stop = False, en_hard = False, en_put = None, en_cancelWrite = False,
      en_timer = False, en_phase = PQueue\<rparr>"

text \<open>The first stretch of \<open>execute\<close>: the call of \<open>boardPool.acquire\<close>.\<close>

definition enter_queue :: "string \<Rightarrow> board \<Rightarrow> board" where
  "enter_queue i b =
     (case acquire False i (tb_sem b) of
        (Granted, s) \<Rightarrow> set_phase i PGranted (b\<lparr>tb_sem := s\<rparr>)
      | (Queued, s) \<Rightarrow> set_phase i PQueue (b\<lparr>tb_sem := s\<rparr>)
      | (Refused, s) \<Rightarrow> set_phase i PRefused (b\<lparr>tb_sem := s\<rparr>))"

text \<open>The next id: of \<open>newId\<close>, whose answers are indexed by its calls, or of the counter.\<close>

definition next_id :: "board_options \<Rightarrow> board \<Rightarrow> string \<times> board" where
  "next_id opts b =
     (case to_newId opts (tb_newIds b) of
        Some i \<Rightarrow> (i, b\<lparr>tb_newIds := tb_newIds b + 1\<rparr>)
      | None \<Rightarrow> (''t'' @ nat_str (tb_counter b + 1), b\<lparr>tb_newIds := tb_newIds b + 1, tb_counter := tb_counter b + 1\<rparr>))"

definition add_task :: "string \<Rightarrow> task_request \<Rightarrow> board \<Rightarrow> board" where
  "add_task i req b =
     enter_queue i ((put_entry i (new_entry req) (put_task (new_task i req) b))\<lparr>tb_order := tb_order b @ [i]\<rparr>)"

definition enqueue :: "board_options \<Rightarrow> task_request \<Rightarrow> board \<Rightarrow> (string + task_rec) \<times> board" where
  "enqueue opts req b =
     (if to_profiles opts = None \<and> tr_worker req \<notin> set (to_workers opts)
      then (Inl (''unknown worker '' @ tr_worker req), b)
      else if length (tb_order b) \<ge> to_maxTasks opts
      then (Inl (''task limit '' @ nat_str (to_maxTasks opts) @ '' reached''), b)
      else
        (case next_id opts b of
           (i, b1) \<Rightarrow>
             if tb_records b i \<noteq> None then (Inl (''duplicate task id '' @ i), b1)
             else (Inr (new_task i req), add_task i req b1)))"

text \<open>\<open>resolveWorker\<close>: the profile, or the kind of a legacy worker.\<close>

definition resolve_worker :: "board_options \<Rightarrow> string \<Rightarrow> string + rkind" where
  "resolve_worker opts worker =
     (case to_profiles opts of
        Some f \<Rightarrow> (case f worker of Inl m \<Rightarrow> Inl (''profile '' @ worker @ '': '' @ m) | Inr k \<Rightarrow> Inr k)
      | None \<Rightarrow>
          if worker \<in> set (to_workers opts) then Inr (if worker = ''checker'' then KVerdict else KReport)
          else Inl (''unknown worker '' @ worker))"

definition startTask :: "board_options \<Rightarrow> task_request \<Rightarrow> board \<Rightarrow> (string + task_rec) \<times> board" where
  "startTask opts req b =
     (case resolve_worker opts (tr_worker req) of
        Inl m \<Rightarrow> (Inl m, b)
      | Inr k \<Rightarrow>
          if tr_result req \<noteq> k
          then (Inl (''profile '' @ tr_worker req @ '' result kind changed; reopen the step''), b)
          else enqueue opts (req\<lparr>tr_result := k\<rparr>) b)"

text \<open>\<open>start\<close>, and the choice the delegation tool makes between the two.\<close>

definition board_start :: "board_options \<Rightarrow> task_request \<Rightarrow> board \<Rightarrow> (string + task_rec) \<times> board" where
  "board_start opts req b =
     (if to_profiles opts \<noteq> None then (Inl ''profile mode requires await board.startTask(request)'', b)
      else enqueue opts req b)"

definition start_of :: "board_options \<Rightarrow> board \<Rightarrow> task_request \<Rightarrow> (string + task_rec) \<times> board" where
  "start_of opts b req = (if to_profiles opts \<noteq> None then startTask opts req b else board_start opts req b)"

subsection \<open>Settling a task\<close>

definition final_state :: "event_kind \<Rightarrow> task_state" where
  "final_state k = (case k of EDone \<Rightarrow> TDone | EFailed \<Rightarrow> TFailed | _ \<Rightarrow> TStopped)"

text \<open>The end of \<open>execute\<close>; \<open>t\<close> is the task object as written so far.\<close>

definition settle_task :: "string \<Rightarrow> event_kind \<Rightarrow> bool \<Rightarrow> task_rec \<Rightarrow> board \<Rightarrow> board" where
  "settle_task i kind interrupted t b =
     (let b1 = b\<lparr>tb_entries := (tb_entries b)(i := None)\<rparr> in
      if tk_state t = TStopped then put_task t b1
      else
        (let t1 = t\<lparr>tk_state := (if interrupted then TInterrupted else final_state kind)\<rparr>
         in emit_event kind t1 (put_task t1 b1)))"

definition note_verdict :: "board_options \<Rightarrow> string option \<Rightarrow> task_rec \<Rightarrow> task_rec" where
  "note_verdict opts rawOutput t =
     (if tk_result t = Some KVerdict
      then t\<lparr>tk_verdict := Some (case checkerVerdict (to_platform opts) (nullish rawOutput []) of
             Some v \<Rightarrow> Usable v | None \<Rightarrow> Unusable)\<rparr>
      else t)"

definition stored_summary :: "event_kind \<Rightarrow> task_rec \<Rightarrow> string option \<Rightarrow> string option \<Rightarrow> string option \<Rightarrow> string" where
  "stored_summary kind t rawOutput rawError finishSummary =
     (let text = (\<lambda>xs. case find (\<lambda>x. x \<noteq> None) xs of Some (Some s) \<Rightarrow> s | _ \<Rightarrow> []);
          output = (if kind = EFailed then text [rawError, tk_error t, rawOutput] else text [rawOutput, tk_error t])
      in case tk_verdict t of
           Some (Usable v) \<Rightarrow> resolveVerdictSummary v
         | _ \<Rightarrow> fst (resolveWorkerSummary output finishSummary))"

text \<open>
  The \<open>finally\<close> block up to the call of the result store, or to the end when nothing is stored: the slot is
  released first, so that storing does not occupy it.
\<close>

definition finish_task ::
    "board_options \<Rightarrow> event_kind \<Rightarrow> entry \<Rightarrow> task_rec \<Rightarrow> string option \<Rightarrow> string option \<Rightarrow> string option \<Rightarrow> board \<Rightarrow> board" where
  "finish_task opts kind e t rawOutput rawError finishSummary b =
     (let i = tk_id t;
          b1 = release_slot i b;
          t1 = note_verdict opts rawOutput t
      in if to_store opts \<and> tk_state t1 \<noteq> TStopped \<and> (rawOutput \<noteq> None \<or> tk_error t1 \<noteq> None)
         then put_entry i
                (e\<lparr>en_phase := PStore kind (stored_summary kind t1 rawOutput rawError finishSummary),
                   en_put := Some (en_cancelWrite e), en_timer := False\<rparr>) (put_task t1 b1)
         else settle_task i kind False t1 b1)"

text \<open>What the result store answers.\<close>

datatype put_answer = PutStored result_ref | PutAbortedError | PutError string

definition finish_store :: "event_kind \<Rightarrow> string \<Rightarrow> entry \<Rightarrow> task_rec \<Rightarrow> put_answer \<Rightarrow> board \<Rightarrow> board" where
  "finish_store kind summary e t answer b =
     (let aborted = (en_put e = Some True \<or> answer = PutAbortedError);
          interrupted = (aborted \<and> kind \<noteq> EStopped);
          t1 = (case answer of
                  PutStored ref \<Rightarrow> if aborted then t else t\<lparr>tk_resultRef := Some ref\<rparr>
                | PutError m \<Rightarrow>
                    if \<not> aborted \<and> kind = EDone then t\<lparr>tk_error := Some (''result storage failed: '' @ m)\<rparr> else t
                | PutAbortedError \<Rightarrow> t);
          kind1 = (case answer of PutError m \<Rightarrow> if \<not> aborted \<and> kind = EDone then EFailed else kind | _ \<Rightarrow> kind);
          kind2 = (if interrupted then EStopped else kind1)
      in settle_task (tk_id t) kind2 interrupted (t1\<lparr>tk_summary := Some summary\<rparr>) b)"

subsection \<open>The run of a worker\<close>

record run_result =
  ru_output :: string
  ru_summary :: "string option"
  ru_budgetExhausted :: bool
  ru_toolCallCount :: "nat option"
  ru_maxToolCalls :: "nat option"
  ru_epicfail :: bool
  ru_awaiting :: bool
  ru_stopped :: bool

datatype run_answer = RunReturns run_result | RunThrows string

definition hard_stop_error :: "board_options \<Rightarrow> string" where
  "hard_stop_error opts = ''stopped: in-flight work aborted after '' @ nat_str (to_hardStopAfterMs opts) @ '' ms''"

definition take_result :: "board_options \<Rightarrow> run_result \<Rightarrow> task_rec \<Rightarrow> event_kind \<times> task_rec \<times> string option" where
  "take_result opts r t =
     (let t1 = t\<lparr>tk_output := Some (cutTaskOutput (ru_output r) (to_outputChars opts)),
                 tk_budgetExhausted := ru_budgetExhausted r,
                 tk_toolCalls := (case ru_toolCallCount r of None \<Rightarrow> tk_toolCalls t | Some n \<Rightarrow> Some n),
                 tk_maxToolCalls := (case ru_maxToolCalls r of None \<Rightarrow> tk_maxToolCalls t | Some n \<Rightarrow> Some n)\<rparr>;
          nonempty = (\<lambda>s. if s = [] then ''worker epicfail'' else s)
      in if ru_epicfail r then
           (EFailed, t1\<lparr>tk_error := Some (nonempty (nullish (tk_output t1) []))\<rparr>, Some (nonempty (ru_output r)))
         else if ru_awaiting r then
           (EFailed, t1\<lparr>tk_error := Some ''external tool calls are not supported in background tasks''\<rparr>, None)
         else (if ru_stopped r then EStopped else EDone, t1, None))"

definition finish_run :: "board_options \<Rightarrow> entry \<Rightarrow> task_rec \<Rightarrow> run_answer \<Rightarrow> board \<Rightarrow> board" where
  "finish_run opts e t answer b =
     (if en_hard e then finish_task opts EStopped e (t\<lparr>tk_error := Some (hard_stop_error opts)\<rparr>) None None None b
      else
        (case answer of
           RunReturns r \<Rightarrow>
             (case take_result opts r t of
                (kind, t1, rawError) \<Rightarrow> finish_task opts kind e t1 (Some (ru_output r)) rawError (ru_summary r) b)
         | RunThrows m \<Rightarrow>
             if tk_state t = TStopped then finish_task opts EStopped e t None None None b
             else finish_task opts EFailed e (t\<lparr>tk_error := Some m\<rparr>) None None None b))"

text \<open>The error path of the two acquisitions.\<close>

definition fail_waiting :: "board_options \<Rightarrow> entry \<Rightarrow> task_rec \<Rightarrow> string \<Rightarrow> board \<Rightarrow> board" where
  "fail_waiting opts e t m b = finish_run opts e t (RunThrows m) b"

text \<open>After both slots are acquired: the task starts, unless it was stopped meanwhile.\<close>

definition begin_run :: "board_options \<Rightarrow> entry \<Rightarrow> task_rec \<Rightarrow> board \<Rightarrow> board" where
  "begin_run opts e t b =
     (if en_stop e then finish_task opts EFailed e t None None None b
      else
        (let t1 = t\<lparr>tk_state := TRunning\<rparr>
         in emit_event EStarted t1 (put_entry (tk_id t) (e\<lparr>en_phase := PRun\<rparr>) (put_task t1 b))))"

subsection \<open>Stopping\<close>

definition stop_entry :: "board_options \<Rightarrow> string \<Rightarrow> entry \<Rightarrow> task_rec \<Rightarrow> board \<Rightarrow> board" where
  "stop_entry opts i e t b =
     (let e1 = e\<lparr>en_stop := True\<rparr>;
          e2 = (if en_phase e = PQueue then e1\<lparr>en_phase := PRefused\<rparr> else e1);
          b1 = b\<lparr>tb_sem := abort_wait i (tb_sem b)\<rparr>
      in if tk_state t = TQueued then
           (let t1 = t\<lparr>tk_state := TStopped\<rparr> in emit_event EStopped t1 (put_task t1 (put_entry i e2 b1)))
         else if tk_state t = TRunning then
           put_entry i (if to_hardStopAfterMs opts = 0 then e2\<lparr>en_hard := True\<rparr> else e2\<lparr>en_timer := True\<rparr>) b1
         else put_entry i e2 b1)"

definition board_stop :: "board_options \<Rightarrow> board \<Rightarrow> string \<Rightarrow> bool \<times> board" where
  "board_stop opts b i =
     (case (tb_entries b i, tb_records b i) of
        (Some e, Some t) \<Rightarrow>
          (case en_put e of
             Some True \<Rightarrow> (False, b)
           | Some False \<Rightarrow> (True, put_entry i (e\<lparr>en_put := Some True\<rparr>) b)
           | None \<Rightarrow> if en_stop e then (False, b) else (True, stop_entry opts i e t b))
      | _ \<Rightarrow> (False, b))"

text \<open>\<open>stopAll\<close>, up to the wait for the running executions.\<close>

definition stop_one :: "board_options \<Rightarrow> string \<Rightarrow> board \<Rightarrow> board" where
  "stop_one opts i b =
     (case tb_entries b i of
        None \<Rightarrow> b
      | Some e \<Rightarrow> snd (board_stop opts (put_entry i (e\<lparr>en_cancelWrite := True\<rparr>) b) i))"

definition stopAll :: "board_options \<Rightarrow> board \<Rightarrow> board" where
  "stopAll opts b = fold (stop_one opts) (filter (\<lambda>i. tb_entries b i \<noteq> None) (tb_order b)) b"

definition board_list :: "board \<Rightarrow> task_rec list" where
  "board_list b = List.map_filter (tb_records b) (tb_order b)"

subsection \<open>Restoring a stored board\<close>

definition counted_id :: "string \<Rightarrow> nat option" where
  "counted_id i =
     (case i of
        [] \<Rightarrow> None
      | c # r \<Rightarrow> if c = CHR ''t'' \<and> r \<noteq> [] \<and> list_all is_digit r then Some (undigits r) else None)"

definition restored_task :: "board_options \<Rightarrow> task_rec \<Rightarrow> task_rec" where
  "restored_task opts t =
     t\<lparr>tk_result := Some (kind_of (tk_result t) (Some (tk_worker t))),
       tk_output := map_option (\<lambda>s. cutTaskOutput s (to_outputChars opts)) (tk_output t),
       tk_state := (if tk_state t = TRunning \<or> tk_state t = TQueued then TInterrupted else tk_state t)\<rparr>"

definition restore_one :: "board_options \<Rightarrow> task_rec \<Rightarrow> board \<times> string list \<Rightarrow> board \<times> string list" where
  "restore_one opts t acc =
     (case acc of (b, interrupted) \<Rightarrow>
        (let b1 = put_task (restored_task opts t) b;
             order = (if tk_id t \<in> set (tb_order b) then tb_order b else tb_order b @ [tk_id t]);
             counter = (case counted_id (tk_id t) of None \<Rightarrow> tb_counter b | Some n \<Rightarrow> max (tb_counter b) n)
         in (b1\<lparr>tb_order := order, tb_counter := counter\<rparr>,
             if tk_state t = TRunning \<or> tk_state t = TQueued then interrupted @ [tk_id t] else interrupted)))"

definition restore :: "board_options \<Rightarrow> task_rec list \<Rightarrow> board \<Rightarrow> (board \<times> string list) option" where
  "restore opts records b =
     (if list_ex (\<lambda>i. tb_entries b i \<noteq> None) (tb_order b) then None
      else Some (fold (restore_one opts) records (b, [])))"

subsection \<open>The interleaving\<close>

definition new_board :: "nat \<Rightarrow> board" where
  "new_board limit =
     \<lparr>tb_order = [], tb_records = Map.empty, tb_entries = Map.empty,
      tb_sem = \<lparr>sm_limit = limit, sm_active = 0, sm_holders = [], sm_queue = []\<rparr>,
      tb_counter = 0, tb_newIds = 0, tb_events = []\<rparr>"

definition count_tools :: "nat \<Rightarrow> nat option \<Rightarrow> task_rec \<Rightarrow> task_rec" where
  "count_tools n limit t =
     t\<lparr>tk_toolCalls := Some n, tk_maxToolCalls := (case limit of None \<Rightarrow> tk_maxToolCalls t | Some m \<Rightarrow> Some m)\<rparr>"

inductive board_step :: "board_options \<Rightarrow> board \<Rightarrow> board \<Rightarrow> bool" for opts where
  enqueued: "enqueue opts req b = (r, b') \<Longrightarrow> board_step opts b b'"
| stopped: "board_stop opts b i = (r, b') \<Longrightarrow> board_step opts b b'"
| slot_granted: "tb_entries b i = Some e \<Longrightarrow> en_phase e = PGranted \<Longrightarrow>
    board_step opts b (put_entry i (e\<lparr>en_phase := PPool\<rparr>) b)"
| waiting_refused: "tb_entries b i = Some e \<Longrightarrow> en_phase e = PRefused \<Longrightarrow> tb_records b i = Some t \<Longrightarrow>
    board_step opts b (fail_waiting opts e t ''pool acquisition stopped'' b)"
| pool_failed: "tb_entries b i = Some e \<Longrightarrow> en_phase e = PPool \<Longrightarrow> tb_records b i = Some t \<Longrightarrow>
    board_step opts b (fail_waiting opts e t m b)"
| run_begun: "tb_entries b i = Some e \<Longrightarrow> en_phase e = PPool \<Longrightarrow> tb_records b i = Some t \<Longrightarrow>
    board_step opts b (begin_run opts e t b)"
| tools_counted: "tb_entries b i = Some e \<Longrightarrow> en_phase e = PRun \<Longrightarrow> \<not> en_hard e \<Longrightarrow> tb_records b i = Some t \<Longrightarrow>
    board_step opts b (put_task (count_tools n limit t) b)"
| timer_fired: "tb_entries b i = Some e \<Longrightarrow> en_timer e \<Longrightarrow>
    board_step opts b (put_entry i (e\<lparr>en_timer := False, en_hard := True\<rparr>) b)"
| run_ended: "tb_entries b i = Some e \<Longrightarrow> en_phase e = PRun \<Longrightarrow> tb_records b i = Some t \<Longrightarrow>
    board_step opts b (finish_run opts e t answer b)"
| store_ended: "tb_entries b i = Some e \<Longrightarrow> en_phase e = PStore kind summary \<Longrightarrow> tb_records b i = Some t \<Longrightarrow>
    board_step opts b (finish_store kind summary e t answer b)"
| writes_cancelled: "tb_entries b i = Some e \<Longrightarrow>
    board_step opts b (put_entry i (e\<lparr>en_cancelWrite := True\<rparr>) b)"

text \<open>The histories of a board, with the tasks it was opened with: a session opens a new board, or one restored from
  the records of an earlier board.\<close>

inductive board_reachable :: "board_options \<Rightarrow> nat \<Rightarrow> string set \<Rightarrow> board \<Rightarrow> bool" for opts limit where
  start: "board_reachable opts limit {} (new_board limit)"
| reopened: "board_reachable opts limit R b \<Longrightarrow> restore opts (board_list b) (new_board limit) = Some (b', interrupted) \<Longrightarrow>
    board_reachable opts limit (set (tb_order b)) b'"
| step: "board_reachable opts limit R b \<Longrightarrow> board_step opts b b' \<Longrightarrow> board_reachable opts limit R b'"

end
