(* ===== verification/BoardInv.thy ===== *)
theory BoardInv
  imports TaskBoard PlanInv
begin

text \<open>
  The invariant of the task board under every interleaving, and the board as the provider of the interface
  \<open>board_contract\<close> of the dialogue plan.
\<close>

subsection \<open>The invariant\<close>

definition holds_slot :: "entry option \<Rightarrow> bool" where
  "holds_slot x \<longleftrightarrow> (case x of None \<Rightarrow> False | Some e \<Rightarrow> en_phase e \<in> {PGranted, PPool, PRun})"

definition waits_slot :: "entry option \<Rightarrow> bool" where
  "waits_slot x \<longleftrightarrow> (case x of None \<Rightarrow> False | Some e \<Rightarrow> en_phase e = PQueue)"

definition settled :: "task_rec \<Rightarrow> bool" where
  "settled t \<longleftrightarrow> tk_state t \<notin> {TQueued, TRunning}"

definition is_outcome :: "event_kind \<Rightarrow> bool" where
  "is_outcome k \<longleftrightarrow> k \<in> {EDone, EFailed, EStopped}"

definition phase_ok :: "entry \<Rightarrow> task_rec \<Rightarrow> bool" where
  "phase_ok e t \<longleftrightarrow>
     (case en_phase e of
        PQueue \<Rightarrow> tk_state t = TQueued \<and> \<not> en_stop e
      | PRefused \<Rightarrow> tk_state t = TStopped \<and> en_stop e
      | PGranted \<Rightarrow> tk_state t = (if en_stop e then TStopped else TQueued)
      | PPool \<Rightarrow> tk_state t = (if en_stop e then TStopped else TQueued)
      | PRun \<Rightarrow> tk_state t = TRunning
      | PStore k s \<Rightarrow> tk_state t \<in> {TQueued, TRunning} \<and> is_outcome k)
     \<and> (en_put e \<noteq> None \<longleftrightarrow> (\<exists>k s. en_phase e = PStore k s))
     \<and> (en_timer e \<longrightarrow> en_phase e = PRun) \<and> (en_hard e \<longrightarrow> tk_state t = TRunning)"

definition outcomes_of :: "string \<Rightarrow> (event_kind \<times> task_rec) list \<Rightarrow> (event_kind \<times> task_rec) list" where
  "outcomes_of i evs = filter (\<lambda>(k, t). tk_id t = i \<and> is_outcome k) evs"

text \<open>A settled task has reported exactly one outcome, the one it settled with; another task none.\<close>

definition outcomes_ok :: "(event_kind \<times> task_rec) list \<Rightarrow> task_rec \<Rightarrow> bool" where
  "outcomes_ok evs t \<longleftrightarrow>
     (if settled t then \<exists>k u. evs = [(k, u)] \<and> tk_state u = tk_state t \<and> (k = EDone \<longleftrightarrow> tk_state t = TDone)
      else evs = [])"

definition task_ok :: "board \<Rightarrow> string \<Rightarrow> bool" where
  "task_ok b i \<longleftrightarrow>
     (case tb_records b i of
        None \<Rightarrow> tb_entries b i = None \<and> outcomes_of i (tb_events b) = []
      | Some t \<Rightarrow> tk_id t = i \<and> (case tb_entries b i of None \<Rightarrow> settled t | Some e \<Rightarrow> phase_ok e t)
          \<and> outcomes_ok (outcomes_of i (tb_events b)) t)"

text \<open>The slots, with the task \<open>i\<close> left out.\<close>

definition slots_but :: "string option \<Rightarrow> nat \<Rightarrow> board \<Rightarrow> bool" where
  "slots_but i limit b \<longleftrightarrow>
     sem_inv (tb_sem b) \<and> sm_limit (tb_sem b) = limit
     \<and> set (sm_holders (tb_sem b)) = {k. holds_slot (tb_entries b k)} - set_option i
     \<and> set (sm_queue (tb_sem b)) = {k. waits_slot (tb_entries b k)} - set_option i"

definition board_ok :: "board_options \<Rightarrow> nat \<Rightarrow> board \<Rightarrow> bool" where
  "board_ok opts limit b \<longleftrightarrow>
     (\<forall>i. task_ok b i) \<and> slots_but None limit b
     \<and> distinct (tb_order b) \<and> (\<forall>i. i \<in> set (tb_order b) \<longleftrightarrow> tb_records b i \<noteq> None)
     \<and> length (tb_order b) \<le> to_maxTasks opts"

lemma is_outcome_simps [simp]:
  "is_outcome EDone" "is_outcome EFailed" "is_outcome EStopped" "\<not> is_outcome EStarted" "\<not> is_outcome ELongRunning"
  by (simp_all add: is_outcome_def)

lemma outcomes_of_simps [simp]:
  "outcomes_of i [] = []"
  "outcomes_of i (evs @ [(k, t)]) = outcomes_of i evs @ (if tk_id t = i \<and> is_outcome k then [(k, t)] else [])"
  by (simp_all add: outcomes_of_def)

lemma put_frame [simp]:
  "tb_records (put_task t b) = (tb_records b)(tk_id t \<mapsto> t)" "tb_entries (put_task t b) = tb_entries b"
  "tb_sem (put_task t b) = tb_sem b" "tb_order (put_task t b) = tb_order b" "tb_events (put_task t b) = tb_events b"
  "tb_records (put_entry i e b) = tb_records b" "tb_entries (put_entry i e b) = (tb_entries b)(i \<mapsto> e)"
  "tb_sem (put_entry i e b) = tb_sem b" "tb_order (put_entry i e b) = tb_order b"
  "tb_events (put_entry i e b) = tb_events b"
  "tb_records (emit_event k t b) = tb_records b" "tb_entries (emit_event k t b) = tb_entries b"
  "tb_sem (emit_event k t b) = tb_sem b" "tb_order (emit_event k t b) = tb_order b"
  "tb_events (emit_event k t b) = tb_events b @ [(k, t)]"
  by (simp_all add: put_task_def put_entry_def emit_event_def)

lemma set_phase_frame [simp]:
  "tb_records (set_phase i ph b) = tb_records b" "tb_sem (set_phase i ph b) = tb_sem b"
  "tb_order (set_phase i ph b) = tb_order b" "tb_events (set_phase i ph b) = tb_events b"
  by (simp_all add: set_phase_def split: option.split)

lemma set_phase_entries:
  "tb_entries (set_phase i ph b) = (tb_entries b)(i := map_option (\<lambda>e. e\<lparr>en_phase := ph\<rparr>) (tb_entries b i))"
  by (auto simp: set_phase_def fun_eq_iff split: option.split)

lemma release_slot_frame [simp]:
  "tb_records (release_slot i b) = tb_records b" "tb_order (release_slot i b) = tb_order b"
  "tb_events (release_slot i b) = tb_events b"
  by (simp_all add: release_slot_def Let_def split: option.split)

lemma task_ok_cong:
  assumes "tb_records b' i = tb_records b i" "tb_entries b' i = tb_entries b i"
    "outcomes_of i (tb_events b') = outcomes_of i (tb_events b)"
  shows "task_ok b' i = task_ok b i"
  unfolding task_ok_def assms ..

subsection \<open>Releasing a slot\<close>

lemma let_in_queue: "let_in i s = Some j \<Longrightarrow> i \<in> set (sm_holders s) \<and> sm_queue s = j # tl (sm_queue s)"
  by (auto simp: let_in_def split: if_splits list.splits)

lemma release_slot_ok:
  assumes "\<forall>k. task_ok b k" "slots_but None limit b" "\<not> waits_slot (tb_entries b i)"
  shows "(\<forall>k. task_ok (release_slot i b) k) \<and> slots_but (Some i) limit (release_slot i b)
    \<and> tb_entries (release_slot i b) i = tb_entries b i"
proof (cases "let_in i (tb_sem b)")
  case None
  then have e: "tb_entries (release_slot i b) = tb_entries b" and s: "tb_sem (release_slot i b) = release i (tb_sem b)"
    by (simp_all add: release_slot_def Let_def)
  have "task_ok (release_slot i b) k = task_ok b k" for k by (rule task_ok_cong) (simp_all add: e)
  then have "\<forall>k. task_ok (release_slot i b) k" using assms(1) by simp
  moreover have "slots_but (Some i) limit (release_slot i b)"
    using assms(2,3) release_sets [of "tb_sem b" i] pool_release_inv [of "tb_sem b" i] None
    by (cases "sm_queue (tb_sem b)") (auto simp: slots_but_def e s let_in_def split: if_splits)
  ultimately show ?thesis by (simp add: e)
next
  case (Some j)
  note q = let_in_queue [OF Some]
  have inv: "sem_inv (tb_sem b)" using assms(2) by (simp add: slots_but_def)
  have "j \<in> set (sm_queue (tb_sem b))" by (subst q [THEN conjunct2]) simp
  then have w: "waits_slot (tb_entries b j)" using assms(2) by (simp add: slots_but_def)
  then obtain e where e: "tb_entries b j = Some e" "en_phase e = PQueue"
    by (auto simp: waits_slot_def split: option.splits)
  with assms(3) have ji: "j \<noteq> i" by (auto simp: waits_slot_def)
  have en: "tb_entries (release_slot i b) = (tb_entries b)(j \<mapsto> e\<lparr>en_phase := PGranted\<rparr>)"
    and s: "tb_sem (release_slot i b) = release i (tb_sem b)"
    by (simp_all add: release_slot_def Let_def Some set_phase_entries e)
  have "task_ok (release_slot i b) k" for k
  proof (cases "k = j")
    case True
    have "task_ok b j" using assms(1) by simp
    then show ?thesis
      using e by (auto simp: task_ok_def True en phase_ok_def split: option.splits)
  next
    case False
    then have "task_ok (release_slot i b) k = task_ok b k" by (intro task_ok_cong) (simp_all add: en)
    then show ?thesis using assms(1) by simp
  qed
  moreover have "slots_but (Some i) limit (release_slot i b)"
  proof -
    have h: "set (sm_holders (release i (tb_sem b))) = set (sm_holders (tb_sem b)) - {i} \<union> {j}"
      and t: "sm_queue (release i (tb_sem b)) = tl (sm_queue (tb_sem b))" and l: "sm_limit (release i (tb_sem b)) = limit"
      using release_sets [OF inv, of i] Some q assms(2) by (simp_all add: slots_but_def)
    have "distinct (sm_queue (tb_sem b))" using inv by (simp add: sem_inv_def)
    then have "set (tl (sm_queue (tb_sem b))) = set (sm_queue (tb_sem b)) - {j}"
      using q by (metis Diff_insert_absorb distinct.simps(2) list.simps(15))
    then show ?thesis
      using assms(2,3) pool_release_inv [OF inv, of i] h t l ji e
      by (auto simp: slots_but_def s en holds_slot_def waits_slot_def)
  qed
  ultimately show ?thesis using ji by (simp add: en)
qed

subsection \<open>Settling a task\<close>

lemma slots_put:
  assumes "slots_but (Some i) limit b" "tb_sem b' = tb_sem b" "tb_entries b' = (tb_entries b)(i := x)"
    "\<not> holds_slot x" "\<not> waits_slot x"
  shows "slots_but None limit b'"
  using assms by (auto simp: slots_but_def)

lemma outcomes_ok_cong: "tk_state t' = tk_state t \<Longrightarrow> outcomes_ok evs t' = outcomes_ok evs t"
  by (simp add: outcomes_ok_def settled_def)

lemma settle_ok:
  assumes others: "\<And>k. k \<noteq> i \<Longrightarrow> task_ok b k" and slots: "slots_but (Some i) limit b"
    and t: "tk_id t = i" "tk_state t \<in> {TQueued, TRunning, TStopped}" "outcomes_ok (outcomes_of i (tb_events b)) t"
    and kind: "is_outcome kind" "interrupted \<Longrightarrow> kind = EStopped"
  shows "(\<forall>k. task_ok (settle_task i kind interrupted t b) k) \<and> slots_but None limit (settle_task i kind interrupted t b)"
proof
  have "task_ok (settle_task i kind interrupted t b) k" for k
  proof (cases "k = i")
    case False
    have "task_ok (settle_task i kind interrupted t b) k = task_ok b k"
      using False t(1) by (intro task_ok_cong) (auto simp: settle_task_def Let_def)
    then show ?thesis using others [OF False] by simp
  next
    case True
    show ?thesis
    proof (cases "tk_state t = TStopped")
      case stopped: True
      then show ?thesis using t by (simp add: task_ok_def settle_task_def Let_def True settled_def)
    next
      case False
      then have "outcomes_of i (tb_events b) = []" using t(2,3) by (auto simp: outcomes_ok_def settled_def)
      then show ?thesis
        using False t(1) kind
        by (cases kind) (auto simp: task_ok_def settle_task_def Let_def True settled_def outcomes_ok_def final_state_def)
    qed
  qed
  then show "\<forall>k. task_ok (settle_task i kind interrupted t b) k" by blast
  show "slots_but None limit (settle_task i kind interrupted t b)"
    by (rule slots_put [OF slots, where x = None])
      (auto simp: settle_task_def Let_def holds_slot_def waits_slot_def)
qed

lemma settle_records:
  "\<exists>t'. tb_records (settle_task i kind interrupted t b) = (tb_records b)(tk_id t \<mapsto> t') \<and> tk_result t' = tk_result t
     \<and> tk_id t' = tk_id t \<and> tb_order (settle_task i kind interrupted t b) = tb_order b"
  by (auto simp: settle_task_def Let_def)

lemma note_verdict_frame [simp]:
  "tk_id (note_verdict opts raw t) = tk_id t" "tk_state (note_verdict opts raw t) = tk_state t"
  "tk_result (note_verdict opts raw t) = tk_result t" "tk_error (note_verdict opts raw t) = tk_error t"
  by (simp_all add: note_verdict_def)

lemma finish_ok:
  assumes tasks: "\<forall>k. task_ok b k" and slots: "slots_but None limit b"
    and e: "tb_entries b i = Some e0" "en_phase e0 \<in> {PRefused, PPool, PRun}"
    and t0: "tb_records b i = Some t0" and t: "tk_id t = i" "tk_state t = tk_state t0"
    and e': "en_hard e = en_hard e0" "en_stop e = en_stop e0" and kind: "is_outcome kind"
  shows "(\<forall>k. task_ok (finish_task opts kind e t raw err fs b) k) \<and> slots_but None limit (finish_task opts kind e t raw err fs b)"
proof -
  have ok: "task_ok b i" using tasks by blast
  then have ph: "phase_ok e0 t0" and out: "outcomes_ok (outcomes_of i (tb_events b)) t0"
    using e t0 by (auto simp: task_ok_def)
  have st: "tk_state t \<in> {TQueued, TRunning, TStopped}"
    using ph e(2) t(2) by (auto simp: phase_ok_def split: if_splits)
  let ?b1 = "release_slot i b" and ?t1 = "note_verdict opts raw t"
  have rel: "\<And>k. task_ok ?b1 k" "slots_but (Some i) limit ?b1"
    using release_slot_ok [OF tasks slots, of i] e by (auto simp: waits_slot_def)
  have out1: "outcomes_ok (outcomes_of i (tb_events ?b1)) ?t1"
    using out t(2) outcomes_ok_cong [of ?t1 t0] by simp
  show ?thesis
  proof (cases "to_store opts \<and> tk_state ?t1 \<noteq> TStopped \<and> (raw \<noteq> None \<or> tk_error ?t1 \<noteq> None)")
    case True
    let ?e = "e\<lparr>en_phase := PStore kind (stored_summary kind ?t1 raw err fs), en_put := Some (en_cancelWrite e), en_timer := False\<rparr>"
    have fin: "finish_task opts kind e t raw err fs b = put_entry i ?e (put_task ?t1 ?b1)"
      using True by (simp add: finish_task_def Let_def t(1))
    have ph1: "phase_ok ?e ?t1"
      using True st ph e(2) e' t(2) kind by (auto simp: phase_ok_def)
    have "task_ok (put_entry i ?e (put_task ?t1 ?b1)) k" for k
    proof (cases "k = i")
      case True
      then show ?thesis using ph1 out1 t(1) by (simp add: task_ok_def)
    next
      case False
      then have "task_ok (put_entry i ?e (put_task ?t1 ?b1)) k = task_ok ?b1 k"
        using t(1) by (intro task_ok_cong) simp_all
      then show ?thesis using rel(1) by simp
    qed
    moreover have "slots_but None limit (put_entry i ?e (put_task ?t1 ?b1))"
      by (rule slots_put [OF rel(2), where x = "Some ?e"]) (auto simp: holds_slot_def waits_slot_def)
    ultimately show ?thesis unfolding fin by blast
  next
    case False
    then have fin: "finish_task opts kind e t raw err fs b = settle_task i kind False ?t1 ?b1"
      by (auto simp: finish_task_def Let_def t(1))
    show ?thesis
      unfolding fin by (rule settle_ok) (use rel st t out1 kind in auto)
  qed
qed

lemma finish_records:
  "\<exists>t'. tb_records (finish_task opts kind e t raw err fs b) = (tb_records b)(tk_id t \<mapsto> t') \<and> tk_result t' = tk_result t
     \<and> tk_id t' = tk_id t \<and> tb_order (finish_task opts kind e t raw err fs b) = tb_order b"
proof (cases "to_store opts \<and> tk_state (note_verdict opts raw t) \<noteq> TStopped \<and> (raw \<noteq> None \<or> tk_error (note_verdict opts raw t) \<noteq> None)")
  case True
  then show ?thesis by (auto simp: finish_task_def Let_def)
next
  case False
  then have "finish_task opts kind e t raw err fs b = settle_task (tk_id t) kind False (note_verdict opts raw t) (release_slot (tk_id t) b)"
    by (auto simp: finish_task_def Let_def)
  then show ?thesis
    using settle_records [of "tk_id t" kind False "note_verdict opts raw t" "release_slot (tk_id t) b"] by simp
qed


subsection \<open>Every step\<close>

text \<open>A step keeps the invariant and the promises that the plan relies on.\<close>

definition step_good :: "board_options \<Rightarrow> nat \<Rightarrow> board \<Rightarrow> board \<Rightarrow> bool" where
  "step_good opts limit b b' \<longleftrightarrow>
     board_ok opts limit b' \<and> (\<forall>j. later (tb_records b j) (tb_records b' j))"

lemma board_okD:
  assumes "board_ok opts limit b"
  shows "task_ok b i" and "slots_but None limit b" and "distinct (tb_order b)"
    and "i \<in> set (tb_order b) \<longleftrightarrow> tb_records b i \<noteq> None" and "length (tb_order b) \<le> to_maxTasks opts"
  using assms by (auto simp: board_ok_def)

lemma board_ok_cong_rest:
  assumes "board_ok opts limit b" "tb_order b' = tb_order b" "\<And>i. tb_records b' i = None \<longleftrightarrow> tb_records b i = None"
    "\<forall>i. task_ok b' i" "slots_but None limit b'"
  shows "board_ok opts limit b'"
  using assms by (simp add: board_ok_def)

text \<open>The changes of a step to the task \<open>i\<close> alone.\<close>

lemma one_task_good:
  assumes ok: "board_ok opts limit b"
    and e: "tb_entries b i = Some e" and t: "tb_records b i = Some t"
    and new: "tb_records b' = (tb_records b)(i \<mapsto> t')" "tb_entries b' = (tb_entries b)(i \<mapsto> e')"
      "tb_order b' = tb_order b" "\<And>k. k \<noteq> i \<Longrightarrow> outcomes_of k (tb_events b') = outcomes_of k (tb_events b)"
    and i: "task_ok b' i" "tk_result t' = tk_result t" "\<not> settled t"
    and slots: "slots_but None limit b'"
  shows "step_good opts limit b b'"
proof -
  have "task_ok b' k" for k
  proof (cases "k = i")
    case False
    then have "task_ok b' k = task_ok b k" by (intro task_ok_cong) (simp_all add: new)
    then show ?thesis using board_okD(1) [OF ok] by simp
  qed (use i in simp)
  then have "board_ok opts limit b'"
    by (intro board_ok_cong_rest [OF ok]) (use new t slots in auto)
  moreover have "later (tb_records b j) (tb_records b' j)" for j
    using new(1) t i(2,3) by (cases "j = i") (auto simp: later_def settled_def)
  ultimately show ?thesis by (simp add: step_good_def)
qed

lemma same_slots:
  assumes "slots_but None limit b" "tb_sem b' = tb_sem b" "tb_entries b' = (tb_entries b)(i \<mapsto> e')"
    "tb_entries b i = Some e" "en_phase e = en_phase e' \<or> {en_phase e, en_phase e'} \<subseteq> {PGranted, PPool, PRun}"
  shows "slots_but None limit b'"
proof -
  have "holds_slot (tb_entries b' k) = holds_slot (tb_entries b k)" "waits_slot (tb_entries b' k) = waits_slot (tb_entries b k)" for k
    using assms(3,4,5) by (auto simp: holds_slot_def waits_slot_def)
  then show ?thesis using assms(1,2) by (simp add: slots_but_def)
qed

text \<open>A change of the entry alone, which also a stopped task may see.\<close>

lemma entry_good:
  assumes ok: "board_ok opts limit b" and e: "tb_entries b i = Some e"
    and ph: "\<And>t. phase_ok e t \<Longrightarrow> phase_ok e' t"
      "en_phase e = en_phase e' \<or> {en_phase e, en_phase e'} \<subseteq> {PGranted, PPool, PRun}"
  shows "step_good opts limit b (put_entry i e' b)"
proof -
  have "task_ok (put_entry i e' b) k" for k
  proof (cases "k = i")
    case True
    then show ?thesis using board_okD(1) [OF ok, of i] e ph(1) by (auto simp: task_ok_def split: option.splits)
  next
    case False
    then have "task_ok (put_entry i e' b) k = task_ok b k" by (intro task_ok_cong) simp_all
    then show ?thesis using board_okD(1) [OF ok] by simp
  qed
  moreover have "slots_but None limit (put_entry i e' b)"
    by (rule same_slots [OF board_okD(2) [OF ok] _ _ e ph(2)]) simp_all
  ultimately have "board_ok opts limit (put_entry i e' b)"
    by (intro board_ok_cong_rest [OF ok]) simp_all
  then show ?thesis by (simp add: step_good_def)
qed

lemma entry_task:
  assumes "board_ok opts limit b" "tb_entries b i = Some e"
  obtains t where "tb_records b i = Some t" "tk_id t = i" "phase_ok e t" "outcomes_ok (outcomes_of i (tb_events b)) t"
  using board_okD(1) [OF assms(1), of i] assms(2) by (auto simp: task_ok_def split: option.splits)

lemma finish_good:
  assumes ok: "board_ok opts limit b" and e: "tb_entries b i = Some e" "en_phase e \<in> {PRefused, PPool, PRun}"
    and t0: "tb_records b i = Some t0" and t: "tk_id t = i" "tk_state t = tk_state t0" "tk_result t = tk_result t0"
    and kind: "is_outcome kind"
  shows "step_good opts limit b (finish_task opts kind e t raw err fs b)"
proof -
  let ?b = "finish_task opts kind e t raw err fs b"
  have tasks: "\<forall>k. task_ok b k" using board_okD(1) [OF ok] by blast
  obtain t' where t': "tb_records ?b = (tb_records b)(i \<mapsto> t')" "tk_result t' = tk_result t0" "tb_order ?b = tb_order b"
    using finish_records [of opts kind e t raw err fs b] t by auto
  have "(\<forall>k. task_ok ?b k) \<and> slots_but None limit ?b"
    using finish_ok [OF tasks board_okD(2) [OF ok] e t0 t(1,2) refl refl kind] .
  then have "board_ok opts limit ?b"
    by (intro board_ok_cong_rest [OF ok]) (use t' t0 in auto)
  moreover have "phase_ok e t0" using entry_task [OF ok e(1)] t0 by (metis option.inject)
  then have "tk_state t0 \<noteq> TDone" using e(2) by (auto simp: phase_ok_def split: if_splits)
  then have "later (tb_records b j) (tb_records ?b j)" for j
    using t' t0 by (cases "j = i") (simp_all add: later_def)
  ultimately show ?thesis by (simp add: step_good_def)
qed

lemma take_result_frame:
  "take_result opts r t = (kind, t1, raw) \<Longrightarrow>
   is_outcome kind \<and> tk_id t1 = tk_id t \<and> tk_state t1 = tk_state t \<and> tk_result t1 = tk_result t"
  by (auto simp: take_result_def Let_def split: if_splits)

lemma finish_run_good:
  assumes ok: "board_ok opts limit b" and e: "tb_entries b i = Some e" "en_phase e \<in> {PRefused, PPool, PRun}"
    and t: "tb_records b i = Some t"
  shows "step_good opts limit b (finish_run opts e t answer b)"
proof -
  have i: "tk_id t = i" using entry_task [OF ok e(1)] t by (metis option.inject)
  show ?thesis
  proof (cases "en_hard e")
    case True
    then show ?thesis using finish_good [OF ok e t] i by (simp add: finish_run_def)
  next
    case False
    show ?thesis
    proof (cases answer)
      case (RunReturns r)
      obtain kind t1 raw where r: "take_result opts r t = (kind, t1, raw)" by (cases "take_result opts r t")
      then show ?thesis
        using finish_good [OF ok e t] i take_result_frame [OF r] False by (simp add: finish_run_def RunReturns r)
    next
      case (RunThrows m)
      then show ?thesis using finish_good [OF ok e t] i False by (simp add: finish_run_def)
    qed
  qed
qed

lemma settle_good:
  assumes ok: "board_ok opts limit b" and e: "tb_entries b i = Some e" "en_phase e = PStore k0 s0"
    and t0: "tb_records b i = Some t0" and t: "tk_id t = i" "tk_state t = tk_state t0" "tk_result t = tk_result t0"
    and kind: "is_outcome kind" "interrupted \<Longrightarrow> kind = EStopped"
  shows "step_good opts limit b (settle_task i kind interrupted t b)"
proof -
  let ?b = "settle_task i kind interrupted t b"
  obtain u where "tb_records b i = Some u" "phase_ok e u" "outcomes_ok (outcomes_of i (tb_events b)) u"
    using entry_task [OF ok e(1)] by metis
  then have st: "tk_state t0 \<in> {TQueued, TRunning}" and out: "outcomes_ok (outcomes_of i (tb_events b)) t"
    using t0 e(2) t(2) outcomes_ok_cong [of t t0] by (auto simp: phase_ok_def)
  have "slots_but (Some i) limit b"
    using board_okD(2) [OF ok] e by (auto simp: slots_but_def holds_slot_def waits_slot_def)
  then have "(\<forall>k. task_ok ?b k) \<and> slots_but None limit ?b"
    using board_okD(1) [OF ok] t st out kind by (intro settle_ok) auto
  moreover obtain t' where t': "tb_records ?b = (tb_records b)(i \<mapsto> t')" "tk_result t' = tk_result t0" "tb_order ?b = tb_order b"
    using settle_records [of i kind interrupted t b] t by auto
  ultimately have "board_ok opts limit ?b"
    by (intro board_ok_cong_rest [OF ok]) (use t0 in auto)
  moreover have "later (tb_records b j) (tb_records ?b j)" for j
    using t' t0 st by (cases "j = i") (auto simp: later_def)
  ultimately show ?thesis by (simp add: step_good_def)
qed

lemma finish_store_good:
  assumes ok: "board_ok opts limit b" and e: "tb_entries b i = Some e" "en_phase e = PStore kind summary"
    and t: "tb_records b i = Some t"
  shows "step_good opts limit b (finish_store kind summary e t answer b)"
proof -
  obtain u where "tb_records b i = Some u" "tk_id u = i" "phase_ok e u" using entry_task [OF ok e(1)] by metis
  then have i: "tk_id t = i" and kind: "is_outcome kind" using t e(2) by (auto simp: phase_ok_def)
  show ?thesis
    unfolding finish_store_def Let_def i
    by (rule settle_good [OF ok e t]) (use i kind in \<open>auto split: put_answer.splits\<close>)
qed

lemma begin_run_good:
  assumes ok: "board_ok opts limit b" and e: "tb_entries b i = Some e" "en_phase e = PPool"
    and t: "tb_records b i = Some t"
  shows "step_good opts limit b (begin_run opts e t b)"
proof (cases "en_stop e")
  case True
  have "tk_id t = i" using entry_task [OF ok e(1)] t by (metis option.inject)
  then show ?thesis using finish_good [OF ok e(1) _ t] e(2) True by (simp add: begin_run_def)
next
  case False
  obtain u where "tb_records b i = Some u" "tk_id u = i" "phase_ok e u" "outcomes_ok (outcomes_of i (tb_events b)) u"
    using entry_task [OF ok e(1)] by metis
  then have u: "tk_id t = i" "phase_ok e t" "outcomes_ok (outcomes_of i (tb_events b)) t" using t by simp_all
  then have st: "tk_state t = TQueued" using e(2) False by (simp add: phase_ok_def)
  let ?t = "t\<lparr>tk_state := TRunning\<rparr>" and ?e = "e\<lparr>en_phase := PRun\<rparr>"
  have b: "begin_run opts e t b = emit_event EStarted ?t (put_entry i ?e (put_task ?t b))" (is "_ = ?b")
    using False u(1) by (simp add: begin_run_def Let_def)
  have "step_good opts limit b ?b"
  proof (rule one_task_good [OF ok e(1) t, where t' = ?t and e' = ?e])
    show "task_ok ?b i" using u st e(2) by (auto simp: task_ok_def phase_ok_def outcomes_ok_def settled_def)
    show "slots_but None limit ?b" by (rule same_slots [OF board_okD(2) [OF ok] _ _ e(1)]) (use e(2) in auto)
  qed (use u(1) st in \<open>simp_all add: settled_def\<close>)
  then show ?thesis by (simp only: b)
qed

lemma tools_good:
  assumes ok: "board_ok opts limit b" and e: "tb_entries b i = Some e" "en_phase e = PRun"
    and t: "tb_records b i = Some t"
  shows "step_good opts limit b (put_task (count_tools n m t) b)"
proof -
  obtain u where "tb_records b i = Some u" "tk_id u = i" "phase_ok e u" "outcomes_ok (outcomes_of i (tb_events b)) u"
    using entry_task [OF ok e(1)] by metis
  then have u: "tk_id t = i" "phase_ok e t" "outcomes_ok (outcomes_of i (tb_events b)) t" using t by simp_all
  then have st: "tk_state t = TRunning" using e(2) by (simp add: phase_ok_def)
  show ?thesis
  proof (rule one_task_good [OF ok e(1) t, where t' = "count_tools n m t" and e' = e])
    show "task_ok (put_task (count_tools n m t) b) i"
      using u st e outcomes_ok_cong [of "count_tools n m t" t] by (auto simp: task_ok_def phase_ok_def count_tools_def)
    show "slots_but None limit (put_task (count_tools n m t) b)"
      using board_okD(2) [OF ok] by (simp add: slots_but_def)
  qed (use u(1) st e in \<open>auto simp: settled_def count_tools_def fun_upd_idem\<close>)
qed

subsection \<open>Stopping and starting\<close>

lemma abort_slots:
  assumes "slots_but None limit b" "tb_sem b' = abort_wait i (tb_sem b)" "tb_entries b' = (tb_entries b)(i \<mapsto> e')"
    "tb_entries b i = Some e" "if en_phase e = PQueue then en_phase e' = PRefused else en_phase e' = en_phase e"
  shows "slots_but None limit b'"
proof -
  have inv: "sem_inv (tb_sem b)" using assms(1) by (simp add: slots_but_def)
  have "holds_slot (tb_entries b' k) = holds_slot (tb_entries b k)"
    "waits_slot (tb_entries b' k) = (k \<noteq> i \<and> waits_slot (tb_entries b k))" for k
    using assms(3,4,5) by (auto simp: holds_slot_def waits_slot_def split: if_splits)
  then show ?thesis
    using assms(1,2) abort_wait_sets [OF inv, of i] abort_wait_inv [OF inv, of i] by (auto simp: slots_but_def)
qed

lemma stop_entry_good:
  assumes ok: "board_ok opts limit b" and e: "tb_entries b i = Some e" "en_put e = None" "\<not> en_stop e"
    and t: "tb_records b i = Some t"
  shows "step_good opts limit b (stop_entry opts i e t b)"
proof -
  obtain u where "tb_records b i = Some u" "tk_id u = i" "phase_ok e u" "outcomes_ok (outcomes_of i (tb_events b)) u"
    using entry_task [OF ok e(1)] by metis
  then have u: "tk_id t = i" "phase_ok e t" "outcomes_ok (outcomes_of i (tb_events b)) t" using t by simp_all
  let ?b1 = "b\<lparr>tb_sem := abort_wait i (tb_sem b)\<rparr>"
  consider (queued) "tk_state t = TQueued" "en_phase e \<in> {PQueue, PGranted, PPool}"
    | (running) "tk_state t = TRunning" "en_phase e = PRun"
    using u(2) e(2,3) by (cases "en_phase e") (auto simp: phase_ok_def)
  then show ?thesis
  proof cases
    case queued
    let ?t = "t\<lparr>tk_state := TStopped\<rparr>"
    let ?e = "if en_phase e = PQueue then (e\<lparr>en_stop := True\<rparr>)\<lparr>en_phase := PRefused\<rparr> else e\<lparr>en_stop := True\<rparr>"
    have b: "stop_entry opts i e t b = emit_event EStopped ?t (put_task ?t (put_entry i ?e ?b1))" (is "_ = ?b")
      using queued by (simp add: stop_entry_def Let_def)
    have "step_good opts limit b ?b"
    proof (rule one_task_good [OF ok e(1) t, where t' = ?t and e' = ?e])
      have "phase_ok ?e ?t" using u(2) queued by (auto simp: phase_ok_def)
      then show "task_ok ?b i" using u queued(1) by (simp add: task_ok_def outcomes_ok_def settled_def)
      show "slots_but None limit ?b" by (rule abort_slots [OF board_okD(2) [OF ok] _ _ e(1), where e' = ?e]) simp_all
    qed (use u(1) queued(1) in \<open>simp_all add: settled_def\<close>)
    then show ?thesis by (simp only: b)
  next
    case running
    let ?e1 = "e\<lparr>en_stop := True\<rparr>"
    let ?e = "if to_hardStopAfterMs opts = 0 then ?e1\<lparr>en_hard := True\<rparr> else ?e1\<lparr>en_timer := True\<rparr>"
    have b: "stop_entry opts i e t b = put_entry i ?e ?b1" (is "_ = ?b")
      using running by (simp add: stop_entry_def Let_def)
    have "step_good opts limit b ?b"
    proof (rule one_task_good [OF ok e(1) t, where t' = t and e' = ?e])
      have "phase_ok ?e t" using u(2) running by (auto simp: phase_ok_def)
      then show "task_ok ?b i" using u t by (simp add: task_ok_def)
      show "slots_but None limit ?b" by (rule abort_slots [OF board_okD(2) [OF ok] _ _ e(1), where e' = ?e]) (use running in simp_all)
    qed (use t running(1) in \<open>simp_all add: settled_def fun_upd_idem\<close>)
    then show ?thesis by (simp only: b)
  qed
qed

lemma stay_good: "board_ok opts limit b \<Longrightarrow> step_good opts limit b b"
  by (simp add: step_good_def)

lemma board_stop_good:
  assumes "board_ok opts limit b" "board_stop opts b i = (r, b')"
  shows "step_good opts limit b b'"
proof (cases "tb_entries b i")
  case None
  then show ?thesis using assms stay_good by (auto simp: board_stop_def)
next
  case (Some e)
  obtain t where t: "tb_records b i = Some t" using entry_task [OF assms(1) Some] by metis
  show ?thesis
  proof (cases "en_put e")
    case None
    then show ?thesis
      using assms Some t stay_good stop_entry_good [OF assms(1) Some None _ t] by (auto simp: board_stop_def split: if_splits)
  next
    case put: (Some x)
    have "step_good opts limit b (put_entry i (e\<lparr>en_put := Some True\<rparr>) b)"
      by (rule entry_good [OF assms(1) Some]) (use put in \<open>auto simp: phase_ok_def split: phase.splits\<close>)
    then show ?thesis using assms Some t put stay_good by (cases x) (auto simp: board_stop_def)
  qed
qed

lemma add_task_shape:
  "\<exists>a s ph. acquire False i (tb_sem b) = (a, s) \<and> ph = (if a = Granted then PGranted else PQueue)
     \<and> add_task i req b = b\<lparr>tb_order := tb_order b @ [i], tb_records := (tb_records b)(i \<mapsto> new_task i req),
          tb_entries := (tb_entries b)(i \<mapsto> (new_entry req)\<lparr>en_phase := ph\<rparr>), tb_sem := s\<rparr>"
proof -
  obtain a s where a: "acquire False i (tb_sem b) = (a, s)" by (cases "acquire False i (tb_sem b)")
  then have "a \<noteq> Refused" using acquire_sets [OF a] by simp
  then show ?thesis
    by (cases a)
      (simp_all add: add_task_def enter_queue_def a put_task_def put_entry_def set_phase_def new_task_def)
qed

lemma add_task_good:
  assumes ok: "board_ok opts limit b" and new: "tb_records b i = None" and room: "length (tb_order b) < to_maxTasks opts"
  shows "step_good opts limit b (add_task i req b)"
proof -
  obtain a s ph where a: "acquire False i (tb_sem b) = (a, s)" and ph: "ph = (if a = Granted then PGranted else PQueue)"
    and b: "add_task i req b = b\<lparr>tb_order := tb_order b @ [i], tb_records := (tb_records b)(i \<mapsto> new_task i req),
          tb_entries := (tb_entries b)(i \<mapsto> (new_entry req)\<lparr>en_phase := ph\<rparr>), tb_sem := s\<rparr>" (is "_ = ?b")
    using add_task_shape [of i b req] by blast
  have inv: "sem_inv (tb_sem b)" using board_okD(2) [OF ok] by (simp add: slots_but_def)
  have none: "tb_entries b i = None" "outcomes_of i (tb_events b) = []"
    using board_okD(1) [OF ok, of i] new by (simp_all add: task_ok_def)
  then have free: "i \<notin> set (sm_holders (tb_sem b) @ sm_queue (tb_sem b))"
    using board_okD(2) [OF ok] by (simp add: slots_but_def holds_slot_def waits_slot_def)
  have sets: "set (sm_holders s) = (if a = Granted then insert i (set (sm_holders (tb_sem b))) else set (sm_holders (tb_sem b)))"
    "set (sm_queue s) = (if a = Granted then set (sm_queue (tb_sem b)) else insert i (set (sm_queue (tb_sem b))))"
    "sm_limit s = sm_limit (tb_sem b)"
    using acquire_sets [OF a] by auto
  have "task_ok ?b k" for k
  proof (cases "k = i")
    case True
    then show ?thesis
      using none(2) ph by (simp add: task_ok_def phase_ok_def new_entry_def new_task_def outcomes_ok_def settled_def)
  next
    case False
    then have "task_ok ?b k = task_ok b k" by (intro task_ok_cong) simp_all
    then show ?thesis using board_okD(1) [OF ok] by simp
  qed
  moreover have "slots_but None limit ?b"
    using board_okD(2) [OF ok] none(1) sets acquire_inv [OF inv free, of False] ph
    by (auto simp: slots_but_def a holds_slot_def waits_slot_def)
  moreover have "i \<notin> set (tb_order b)" using board_okD(4) [OF ok] new by simp
  ultimately have "board_ok opts limit ?b"
    using ok room by (auto simp: board_ok_def)
  moreover have "later (tb_records b j) (tb_records ?b j)" for j
    using new by (cases "j = i") (simp_all add: later_def)
  ultimately show ?thesis unfolding b by (simp add: step_good_def)
qed

lemma ids_frame:
  assumes "next_id opts b = (i, b1)"
  shows "tb_order b1 = tb_order b" "tb_records b1 = tb_records b" "board_ok opts limit b1 = board_ok opts limit b"
  using assms by (auto simp: next_id_def board_ok_def task_ok_def slots_but_def split: option.splits)

lemma enqueue_good:
  assumes ok: "board_ok opts limit b" and r: "enqueue opts req b = (r, b')"
  shows "step_good opts limit b b'"
    and "r = Inr t \<Longrightarrow> tb_records b (tk_id t) = None
      \<and> (\<exists>u. tb_records b' (tk_id t) = Some u \<and> tk_result u = Some (tr_result req))"
proof -
  obtain i b1 where i: "next_id opts b = (i, b1)" by (cases "next_id opts b")
  note ids = ids_frame [OF i]
  let ?known = "to_profiles opts = None \<and> tr_worker req \<notin> set (to_workers opts)"
  consider (stays) x where "r = Inl x" "b' = b" | (taken) x where "r = Inl x" "b' = b1"
    | (added) "r = Inr (new_task i req)" "b' = add_task i req b1" "tb_records b i = None" "length (tb_order b) < to_maxTasks opts"
    using r by (cases ?known; cases "length (tb_order b) \<ge> to_maxTasks opts"; cases "tb_records b i = None")
      (auto simp: enqueue_def i)
  then have "step_good opts limit b b' \<and> (r = Inr t \<longrightarrow> tb_records b (tk_id t) = None
      \<and> (\<exists>u. tb_records b' (tk_id t) = Some u \<and> tk_result u = Some (tr_result req)))"
  proof cases
    case stays
    then show ?thesis using stay_good ok by simp
  next
    case taken
    then show ?thesis using ids ok by (simp add: step_good_def)
  next
    case added
    have "step_good opts limit b1 (add_task i req b1)"
      by (rule add_task_good) (use ids ok added in simp_all)
    moreover obtain x s ph where "add_task i req b1 = b1\<lparr>tb_order := tb_order b1 @ [i],
        tb_records := (tb_records b1)(i \<mapsto> new_task i req), tb_entries := x, tb_sem := s\<rparr>"
      using add_task_shape [of i b1 req] by blast
    moreover have "tk_id (new_task i req) = i" "tk_result (new_task i req) = Some (tr_result req)"
      by (simp_all add: new_task_def)
    ultimately show ?thesis using added ids by (auto simp: step_good_def)
  qed
  then show "step_good opts limit b b'"
    and "r = Inr t \<Longrightarrow> tb_records b (tk_id t) = None
      \<and> (\<exists>u. tb_records b' (tk_id t) = Some u \<and> tk_result u = Some (tr_result req))"
    by blast+
qed

lemma start_of_good:
  assumes ok: "board_ok opts limit b" and r: "start_of opts b req = (r, b')"
  shows "step_good opts limit b b'"
    and "r = Inr t \<Longrightarrow> tb_records b (tk_id t) = None
      \<and> (\<exists>u. tb_records b' (tk_id t) = Some u \<and> tk_result u = Some (tr_result req))"
proof -
  consider (stays) x where "r = Inl x" "b' = b" | (enqueued) "enqueue opts req b = (r, b')"
    using r by (cases "resolve_worker opts (tr_worker req)")
      (auto simp: start_of_def startTask_def board_start_def split: if_splits)
  then have "step_good opts limit b b' \<and> (r = Inr t \<longrightarrow> tb_records b (tk_id t) = None
      \<and> (\<exists>u. tb_records b' (tk_id t) = Some u \<and> tk_result u = Some (tr_result req)))"
    using enqueue_good [OF ok] stay_good [OF ok] by cases auto
  then show "step_good opts limit b b'"
    and "r = Inr t \<Longrightarrow> tb_records b (tk_id t) = None
      \<and> (\<exists>u. tb_records b' (tk_id t) = Some u \<and> tk_result u = Some (tr_result req))"
    by blast+
qed

subsection \<open>Every reachable board\<close>

lemma board_step_good:
  assumes "board_step opts b b'" "board_ok opts limit b"
  shows "step_good opts limit b b'"
  using assms
proof (cases rule: board_step.cases)
  case (enqueued req r)
  then show ?thesis using enqueue_good(1) assms(2) by blast
next
  case (stopped i r)
  then show ?thesis using board_stop_good assms(2) by blast
next
  case (slot_granted i e)
  show ?thesis
    unfolding slot_granted(1)
    by (rule entry_good [OF assms(2) slot_granted(2)]) (use slot_granted(3) in \<open>auto simp: phase_ok_def split: phase.splits if_splits\<close>)
next
  case (timer_fired i e)
  show ?thesis
    unfolding timer_fired(1)
    by (rule entry_good [OF assms(2) timer_fired(2)]) (use timer_fired(3) in \<open>auto simp: phase_ok_def split: phase.splits\<close>)
next
  case (writes_cancelled i e)
  show ?thesis
    unfolding writes_cancelled(1) by (rule entry_good [OF assms(2) writes_cancelled(2)]) (auto simp: phase_ok_def split: phase.splits)
qed (use assms(2) in \<open>simp_all add: finish_run_good fail_waiting_def begin_run_good tools_good finish_store_good\<close>)

lemma new_board_ok: "0 < limit \<Longrightarrow> board_ok opts limit (new_board limit)"
  by (simp add: board_ok_def task_ok_def slots_but_def new_board_def sem_inv_def holds_slot_def waits_slot_def)

subsection \<open>Reopened boards\<close>

text \<open>The events are only appended to: a history does not depend on those before it.\<close>

definition after_events :: "(event_kind \<times> task_rec) list \<Rightarrow> board \<Rightarrow> board" where
  "after_events es b = b\<lparr>tb_events := es @ tb_events b\<rparr>"

lemma after_events_sel [simp]:
  "tb_records (after_events es b) = tb_records b" "tb_entries (after_events es b) = tb_entries b"
  "tb_sem (after_events es b) = tb_sem b" "tb_order (after_events es b) = tb_order b"
  "tb_counter (after_events es b) = tb_counter b" "tb_newIds (after_events es b) = tb_newIds b"
  "tb_events (after_events es b) = es @ tb_events b"
  by (simp_all add: after_events_def)

lemma after_events_write [simp]:
  "put_task t (after_events es b) = after_events es (put_task t b)"
  "put_entry i e (after_events es b) = after_events es (put_entry i e b)"
  "emit_event k t (after_events es b) = after_events es (emit_event k t b)"
  "(after_events es b)\<lparr>tb_sem := s\<rparr> = after_events es (b\<lparr>tb_sem := s\<rparr>)"
  "(after_events es b)\<lparr>tb_entries := m\<rparr> = after_events es (b\<lparr>tb_entries := m\<rparr>)"
  "(after_events es b)\<lparr>tb_order := is\<rparr> = after_events es (b\<lparr>tb_order := is\<rparr>)"
  "(after_events es b)\<lparr>tb_newIds := n\<rparr> = after_events es (b\<lparr>tb_newIds := n\<rparr>)"
  "(after_events es b)\<lparr>tb_counter := m'\<rparr> = after_events es (b\<lparr>tb_counter := m'\<rparr>)"
  by (simp_all add: after_events_def put_task_def put_entry_def emit_event_def)

lemma after_events_slot [simp]:
  "set_phase i ph (after_events es b) = after_events es (set_phase i ph b)"
  "release_slot i (after_events es b) = after_events es (release_slot i b)"
  "enter_queue i (after_events es b) = after_events es (enter_queue i b)"
  by (simp_all add: set_phase_def release_slot_def enter_queue_def Let_def split: option.split prod.split acquired.split)

lemma after_events_end [simp]:
  "settle_task i k intr t (after_events es b) = after_events es (settle_task i k intr t b)"
  "finish_task opts k e t ro re fs (after_events es b) = after_events es (finish_task opts k e t ro re fs b)"
  "finish_store k summary e t a (after_events es b) = after_events es (finish_store k summary e t a b)"
proof -
  show s: "settle_task i k intr t (after_events es b) = after_events es (settle_task i k intr t b)" for i k intr t b
    by (simp add: settle_task_def Let_def)
  show "finish_task opts k e t ro re fs (after_events es b) = after_events es (finish_task opts k e t ro re fs b)"
    unfolding finish_task_def Let_def by (simp only: after_events_slot s after_events_write if_distrib [of "after_events es"])
  show "finish_store k summary e t a (after_events es b) = after_events es (finish_store k summary e t a b)"
    by (simp add: finish_store_def Let_def s)
qed

lemma after_events_run [simp]:
  "finish_run opts e t a (after_events es b) = after_events es (finish_run opts e t a b)"
  "fail_waiting opts e t m (after_events es b) = after_events es (fail_waiting opts e t m b)"
  "begin_run opts e t (after_events es b) = after_events es (begin_run opts e t b)"
  by (simp_all add: finish_run_def fail_waiting_def begin_run_def Let_def split: run_answer.split prod.split)

lemma after_events_enqueue: "enqueue opts req b = (r, b') \<Longrightarrow> enqueue opts req (after_events es b) = (r, after_events es b')"
  by (auto simp: enqueue_def next_id_def add_task_def Let_def split: if_splits option.splits prod.splits)

lemma after_events_stop: "board_stop opts b i = (r, b') \<Longrightarrow> board_stop opts (after_events es b) i = (r, after_events es b')"
  by (auto simp: board_stop_def stop_entry_def Let_def split: if_splits option.splits bool.splits)

lemma board_step_after: "board_step opts b b' \<Longrightarrow> board_step opts (after_events es b) (after_events es b')"
proof (induction rule: board_step.cases)
  case (enqueued b req r b')
  then show ?case using board_step.enqueued [OF after_events_enqueue] by blast
next
  case (stopped b i r b')
  then show ?case using board_step.stopped [OF after_events_stop] by blast
qed (metis after_events_sel after_events_write after_events_run after_events_end board_step.intros)+

text \<open>The tasks of a restored board are settled; one outcome each stands for their past.\<close>

definition past_events :: "task_rec list \<Rightarrow> (event_kind \<times> task_rec) list" where
  "past_events ts = map (\<lambda>t. (if tk_state t = TDone then EDone else EStopped, t)) ts"

lemma restore_fold:
  assumes "distinct (map tk_id ts)" "set (tb_order b) \<inter> tk_id ` set ts = {}"
  shows "let b' = fst (fold (restore_one opts) ts (b, ids)) in
     tb_order b' = tb_order b @ map tk_id ts \<and> tb_entries b' = tb_entries b \<and> tb_sem b' = tb_sem b \<and> tb_events b' = tb_events b
     \<and> (\<forall>i. tb_records b' i = (case find (\<lambda>t. tk_id t = i) ts of Some t \<Rightarrow> Some (restored_task opts t) | None \<Rightarrow> tb_records b i))"
  using assms
proof (induction ts arbitrary: b ids)
  case (Cons t ts)
  obtain b1 ids1 where b1: "restore_one opts t (b, ids) = (b1, ids1)" by (metis surj_pair)
  have id: "tk_id (restored_task opts t) = tk_id t" by (simp add: restored_task_def)
  have f: "tb_order b1 = tb_order b @ [tk_id t]" "tb_entries b1 = tb_entries b" "tb_sem b1 = tb_sem b" "tb_events b1 = tb_events b"
      "tb_records b1 = (tb_records b)(tk_id t \<mapsto> restored_task opts t)"
    using b1 Cons.prems(2) by (auto simp: restore_one_def Let_def id split: option.splits if_splits)
  have "find (\<lambda>u. tk_id u = tk_id t) ts = None" using Cons.prems(1) by (simp add: find_None_iff) (metis image_eqI)
  moreover have "distinct (map tk_id ts)" "set (tb_order b1) \<inter> tk_id ` set ts = {}" using Cons.prems f(1) by auto
  note Cons.IH [OF this, of ids1]
  ultimately show ?case using f by (auto simp: b1 Let_def split: option.split)
qed simp

lemma board_list_ids:
  assumes "board_ok opts limit b"
  shows "map tk_id (board_list b) = tb_order b" "find (\<lambda>t. tk_id t = i) (board_list b) = tb_records b i"
proof -
  have rec: "\<exists>t. tb_records b i = Some t \<and> tk_id t = i" if "i \<in> set (tb_order b)" for i
    using that assms by (auto simp: board_ok_def task_ok_def split: option.splits)
  have both: "map tk_id (List.map_filter (tb_records b) js) = js
      \<and> find (\<lambda>t. tk_id t = i) (List.map_filter (tb_records b) js) = (if i \<in> set js then tb_records b i else None)"
    if "set js \<subseteq> set (tb_order b)" for js
    using that
  proof (induction js)
    case (Cons j js)
    then obtain t where "tb_records b j = Some t" "tk_id t = j" using rec [of j] by auto
    with Cons show ?case by (auto simp: List.map_filter_simps)
  qed (simp add: List.map_filter_simps)
  then show "map tk_id (board_list b) = tb_order b" by (simp add: board_list_def)
  have "i \<notin> set (tb_order b) \<Longrightarrow> tb_records b i = None" using assms by (simp add: board_ok_def)
  then show "find (\<lambda>t. tk_id t = i) (board_list b) = tb_records b i" using both [of "tb_order b"] by (simp add: board_list_def)
qed

lemma restored_ok:
  assumes "board_ok opts limit b" "0 < limit" "restore opts (board_list b) (new_board limit) = Some (b', ids)"
  shows "board_ok opts limit (after_events (past_events (map (restored_task opts) (board_list b))) b')"
    "tb_order b' = tb_order b" "tb_events b' = []" "i \<in> set (tb_order b) \<Longrightarrow> tb_entries b' i = None"
proof -
  let ?ts = "board_list b" and ?n = "new_board limit"
  note l = board_list_ids [OF assms(1)]
  have d: "distinct (map tk_id ?ts)" "length (tb_order b) \<le> to_maxTasks opts"
      "i \<in> set (tb_order b) \<longleftrightarrow> tb_records b i \<noteq> None" for i
    using assms(1) l(1) by (simp_all add: board_ok_def)
  have n: "tb_order ?n = []" "tb_entries ?n = Map.empty" "tb_events ?n = []" "tb_records ?n = Map.empty"
      "tb_sem ?n = \<lparr>sm_limit = limit, sm_active = 0, sm_holders = [], sm_queue = []\<rparr>"
    by (simp_all add: new_board_def)
  have b': "b' = fst (fold (restore_one opts) ?ts (?n, []))" using assms(3) n(1) by (auto simp: restore_def)
  have f: "tb_order b' = tb_order b" "tb_entries b' = Map.empty" "tb_sem b' = tb_sem ?n" "tb_events b' = []"
      "\<forall>i. tb_records b' i = map_option (restored_task opts) (tb_records b i)"
    using restore_fold [OF d(1), of ?n opts "[]"] n l unfolding b' Let_def by (auto split: option.splits)
  show "tb_order b' = tb_order b" "tb_events b' = []" "i \<in> set (tb_order b) \<Longrightarrow> tb_entries b' i = None" using f by simp_all
  let ?p = "past_events (map (restored_task opts) ?ts)"
  have past: "outcomes_of i ?p = (case tb_records b i of None \<Rightarrow> []
      | Some t \<Rightarrow> [(if tk_state (restored_task opts t) = TDone then EDone else EStopped, restored_task opts t)])" for i
  proof -
    have "outcomes_of i (past_events (map (restored_task opts) ts)) = (case find (\<lambda>t. tk_id t = i) ts of None \<Rightarrow> []
        | Some t \<Rightarrow> [(if tk_state (restored_task opts t) = TDone then EDone else EStopped, restored_task opts t)])"
      if "distinct (map tk_id ts)" for ts
      using that
    proof (induction ts)
      case (Cons t ts)
      have "find (\<lambda>u. tk_id u = tk_id t) ts = None" using Cons.prems by (simp add: find_None_iff) (metis image_eqI)
      moreover have "tk_id (restored_task opts t) = tk_id t" by (simp add: restored_task_def)
      ultimately show ?case using Cons by (auto simp: past_events_def outcomes_of_def)
    qed (simp add: past_events_def)
    from this [OF d(1)] show ?thesis by (simp add: l(2))
  qed
  have task: "task_ok (after_events ?p b') i" for i
  proof (cases "tb_records b i")
    case (Some t)
    then have "tk_id t = i" using assms(1) by (auto simp: board_ok_def task_ok_def dest: spec [of _ i])
    moreover have "settled (restored_task opts t)" by (auto simp: restored_task_def settled_def)
    moreover have "tk_id (restored_task opts t) = tk_id t" by (simp add: restored_task_def)
    ultimately show ?thesis using Some f past [of i] by (auto simp: task_ok_def outcomes_ok_def)
  qed (use f past [of i] in \<open>simp add: task_ok_def\<close>)
  have slots: "slots_but None limit (after_events ?p b')"
    using assms(2) f n by (simp add: slots_but_def sem_inv_def holds_slot_def waits_slot_def)
  show "board_ok opts limit (after_events ?p b')"
    unfolding board_ok_def using task slots d f l(1) by (intro conjI allI) simp_all
qed

text \<open>Every reachable board, with the tasks it was opened with: with one outcome each for their past, it keeps the
  invariant.\<close>

lemma board_reachable_past:
  assumes "board_reachable opts limit R b" "0 < limit"
  shows "\<exists>ts. board_ok opts limit (after_events (past_events ts) b) \<and> tk_id ` set ts = R \<and> distinct (map tk_id ts)"
  using assms
proof (induction rule: board_reachable.induct)
  case start
  then show ?case by (intro exI [of _ "[]"]) (simp add: new_board_ok past_events_def after_events_def)
next
  case (reopened R b b' ids)
  then obtain ts where ok: "board_ok opts limit (after_events (past_events ts) b)" by blast
  let ?c = "after_events (past_events ts) b"
  have same: "board_list ?c = board_list b" "tb_order ?c = tb_order b" by (simp_all add: board_list_def)
  have r: "board_ok opts limit (after_events (past_events (map (restored_task opts) (board_list b))) b')"
    using restored_ok(1) [OF ok reopened(4), unfolded same, OF reopened(2)] .
  have ids: "map tk_id (map (restored_task opts) (board_list b)) = tb_order b"
    using board_list_ids(1) [OF ok] by (simp add: same comp_def restored_task_def)
  have "tk_id ` set (map (restored_task opts) (board_list b)) = set (map tk_id (map (restored_task opts) (board_list b)))"
    by (simp only: set_map)
  then have "tk_id ` set (map (restored_task opts) (board_list b)) = set (tb_order b)"
      "distinct (map tk_id (map (restored_task opts) (board_list b)))"
    unfolding ids using ok by (simp_all add: board_ok_def)
  then show ?case using r by blast
next
  case (step R b b')
  then obtain ts where ok: "board_ok opts limit (after_events (past_events ts) b)" "tk_id ` set ts = R" "distinct (map tk_id ts)"
    by blast
  have "board_step opts (after_events (past_events ts) b) (after_events (past_events ts) b')" using board_step_after [OF step(2)] .
  from board_step_good [OF this ok(1)] show ?case using ok(2,3) by (auto simp: step_good_def)
qed

lemma past_outcomes:
  assumes "distinct (map tk_id ts)"
  shows "length (outcomes_of i (past_events ts)) = (if i \<in> tk_id ` set ts then 1 else 0)"
proof -
  have outcome: "is_outcome (if tk_state t = TDone then EDone else EStopped)" for t by simp
  from assms show ?thesis
    by (induction ts) (auto simp: past_events_def outcomes_of_def image_iff filter_map o_def outcome filter_empty_conv)
qed

text \<open>The board as the planner tools see it; the other callbacks of the tools stay arbitrary.\<close>

definition board_env :: "board_options \<Rightarrow> board planner_env \<Rightarrow> board planner_env" where
  "board_env opts env = env\<lparr>pe_get := tb_records, pe_list := board_list, pe_start := start_of opts, pe_stop := board_stop opts\<rparr>"

interpretation task_board:
  board_contract "board_env opts env" "board_step opts" "board_ok opts limit" for opts env limit
proof
  fix b b' :: board and req :: task_request and r
  assume b: "board_ok opts limit b" "pe_start (board_env opts env) b req = (r, b')"
  then have s: "start_of opts b req = (r, b')" by (simp add: board_env_def)
  show "board_ok opts limit b' \<and> (\<forall>i. later (pe_get (board_env opts env) b i) (pe_get (board_env opts env) b' i))
      \<and> (\<forall>t. r = Inr t \<longrightarrow> pe_get (board_env opts env) b (tk_id t) = None
           \<and> (\<exists>u. pe_get (board_env opts env) b' (tk_id t) = Some u \<and> tk_result u = Some (tr_result req)))"
    using start_of_good [OF b(1) s] by (simp add: board_env_def step_good_def)
next
  fix b b' :: board and i j stopped
  assume "board_ok opts limit b" "pe_stop (board_env opts env) b i = (stopped, b')"
  then show "board_ok opts limit b' \<and> later (pe_get (board_env opts env) b j) (pe_get (board_env opts env) b' j)"
    using board_stop_good by (simp add: board_env_def step_good_def)
next
  fix b b' :: board and j
  assume "board_ok opts limit b" "board_step opts b b'"
  then show "board_ok opts limit b' \<and> later (pe_get (board_env opts env) b j) (pe_get (board_env opts env) b' j)"
    using board_step_good by (simp add: board_env_def step_good_def)
qed

end
