(* ===== verification/DialogueProps.thy ===== *)
theory DialogueProps
  imports PlanMerge BoardInv
begin

text \<open>
  The properties of the dialogue: the plan and the task board together, and the merge of plans.  The plan runs
  on the board through the interpretation \<open>task_board\<close> of \<open>board_contract\<close>.
\<close>

subsection \<open>Runs\<close>

text \<open>Whole tool calls and whole executions of a task as sequences of steps.\<close>

lemma reach_delegate:
  assumes "flow_reachable env V pr b \<lparr>fl_scope = sc, fl_flight = []\<rparr>"
  shows "flow_reachable env V pr b \<lparr>fl_scope = snd (delegate_task env args resolve sc), fl_flight = []\<rparr>"
proof (cases "delegate_open env args sc")
  case (Inl e)
  then show ?thesis using assms by (simp add: delegate_task_def)
next
  case (Inr x)
  obtain dg sc1 where x: "x = (dg, sc1)" by (cases x)
  have r1: "flow_reachable env V pr b \<lparr>fl_scope = sc1, fl_flight = [(dg, None)]\<rparr>"
    using flow_reachable.step [OF assms delegate_opens] Inr x by fastforce
  have fails: "flow_reachable env V pr b \<lparr>fl_scope = delegate_release dg sc1, fl_flight = []\<rparr>"
    using flow_reachable.step [OF r1 delegate_fails [where xs = "[]" and ys = "[]", simplified]] .
  show ?thesis
  proof (cases "resolve (dg_worker dg)")
    case Inl
    then show ?thesis using fails by (simp add: delegate_task_def Inr x)
  next
    case profile: (Inr k)
    show ?thesis
    proof (cases "delegate_prepare env dg k sc1")
      case Inl
      then show ?thesis using fails by (simp add: delegate_task_def Inr x profile)
    next
      case prep: (Inr y)
      obtain req ck where y: "y = (req, ck)" by (cases y)
      have r2: "flow_reachable env V pr b \<lparr>fl_scope = sc1, fl_flight = [(dg, Some (req, ck))]\<rparr>"
        using flow_reachable.step [OF r1 delegate_prepares [OF prep, where xs = "[]" and ys = "[]", simplified]] y by simp
      obtain e sc2 where c: "delegate_commit env dg req ck sc1 = (e, sc2)" by (cases "delegate_commit env dg req ck sc1")
      have "flow_reachable env V pr b \<lparr>fl_scope = sc2, fl_flight = []\<rparr>"
        using flow_reachable.step [OF r2 delegate_commits [OF c, where xs = "[]" and ys = "[]", simplified]] .
      then show ?thesis by (simp add: delegate_task_def Inr x profile prep y c)
    qed
  qed
qed

lemma reach_author:
  assumes "flow_reachable env V pr b \<lparr>fl_scope = sc, fl_flight = []\<rparr>"
  shows "flow_reachable env V pr b \<lparr>fl_scope = snd (author_commit env create unchanged answer sc), fl_flight = []\<rparr>"
  using flow_reachable.step [OF assms plan_authored [OF prod.collapse [symmetric]]] .

definition run_task :: "board_options \<Rightarrow> string \<Rightarrow> run_answer \<Rightarrow> board \<Rightarrow> board" where
  "run_task opts i answer b =
     (case (tb_entries b i, tb_records b i) of
        (Some e, Some t) \<Rightarrow>
          if en_phase e = PGranted then
            (let e1 = e\<lparr>en_phase := PPool\<rparr>; b2 = begin_run opts e1 t (put_entry i e1 b) in
             case (tb_entries b2 i, tb_records b2 i) of
               (Some e2, Some t2) \<Rightarrow> if en_phase e2 = PRun then finish_run opts e2 t2 answer b2 else b2
             | _ \<Rightarrow> b2)
          else b
      | _ \<Rightarrow> b)"

lemma run_task_cases:
  assumes closed: "\<And>x y. P x \<Longrightarrow> board_step opts x y \<Longrightarrow> P y" and start: "P b"
  shows "P (run_task opts i answer b)"
proof (cases "\<exists>e t. tb_entries b i = Some e \<and> tb_records b i = Some t \<and> en_phase e = PGranted")
  case False
  then show ?thesis using start by (auto simp: run_task_def split: option.splits)
next
  case True
  then obtain e t where e: "tb_entries b i = Some e" "tb_records b i = Some t" "en_phase e = PGranted" by blast
  let ?e = "e\<lparr>en_phase := PPool\<rparr>"
  let ?b = "begin_run opts ?e t (put_entry i ?e b)"
  have "P (put_entry i ?e b)" using closed [OF start slot_granted [OF e(1,3)]] .
  then have b: "P ?b" by (rule closed, intro run_begun) (use e in simp_all)
  have run: "run_task opts i answer b = (case (tb_entries ?b i, tb_records ?b i) of
      (Some e2, Some t2) \<Rightarrow> if en_phase e2 = PRun then finish_run opts e2 t2 answer ?b else ?b | _ \<Rightarrow> ?b)"
    by (simp add: run_task_def e Let_def)
  show ?thesis
  proof (cases "\<exists>e2 t2. tb_entries ?b i = Some e2 \<and> tb_records ?b i = Some t2 \<and> en_phase e2 = PRun")
    case False
    then show ?thesis unfolding run using b by (auto split: option.split)
  next
    case True
    then obtain e2 t2 where e2: "tb_entries ?b i = Some e2" "tb_records ?b i = Some t2" "en_phase e2 = PRun" by blast
    have "P (finish_run opts e2 t2 answer ?b)" using closed [OF b run_ended [OF e2(1,3,2)]] .
    then show ?thesis unfolding run using e2 by simp
  qed
qed

lemma reach_run:
  assumes "flow_reachable env V (board_step opts) b \<lparr>fl_scope = sc, fl_flight = []\<rparr>"
  shows "flow_reachable env V (board_step opts) b
    \<lparr>fl_scope = sc\<lparr>sc_board := run_task opts i answer (sc_board sc)\<rparr>, fl_flight = []\<rparr>"
proof (rule run_task_cases [where P = "\<lambda>x. flow_reachable env V (board_step opts) b \<lparr>fl_scope = sc\<lparr>sc_board := x\<rparr>, fl_flight = []\<rparr>"])
  fix x y
  assume "flow_reachable env V (board_step opts) b \<lparr>fl_scope = sc\<lparr>sc_board := x\<rparr>, fl_flight = []\<rparr>" "board_step opts x y"
  then show "flow_reachable env V (board_step opts) b \<lparr>fl_scope = sc\<lparr>sc_board := y\<rparr>, fl_flight = []\<rparr>"
    using flow_reachable.step [OF _ board_progresses [where sc = "sc\<lparr>sc_board := x\<rparr>"]] by fastforce
qed (use assms in simp)

definition settle_event :: "'b planner_env \<Rightarrow> verdict_platform \<Rightarrow> string \<Rightarrow> 'b scope \<Rightarrow> 'b scope" where
  "settle_event env V i sc =
     (case pe_get env (sc_board sc) i of
        Some t \<Rightarrow> if tk_id t = i \<and> tk_state t = TDone then deliver_event V t EDone sc else sc
      | None \<Rightarrow> sc)"

lemma reach_event:
  assumes "flow_reachable env V pr b \<lparr>fl_scope = sc, fl_flight = []\<rparr>"
  shows "flow_reachable env V pr b \<lparr>fl_scope = settle_event env V i sc, fl_flight = []\<rparr>"
  using assms flow_reachable.step [OF assms event_delivered [where kind = EDone]]
  by (auto simp: settle_event_def split: option.split)

text \<open>A run: a plan of a step and its check; both are delegated, run and settle.\<close>

definition run_platform :: verdict_platform where
  "run_platform = \<lparr>vp_schema = (\<lambda>j. None), vp_nfkc = (\<lambda>s. s)\<rparr>"

definition run_options :: board_options where
  "run_options = \<lparr>to_profiles = Some (\<lambda>w. if w = ''c'' then Inr KVerdict else Inr KReport), to_workers = [],
     to_newId = (\<lambda>n. Some (if n = 0 then ''t1'' else ''t2'')), to_maxTasks = 2, to_outputChars = 100, to_hardStopAfterMs = 0, to_store = False,
     to_platform = run_platform\<rparr>"

definition run_env :: "board planner_env" where
  "run_env = board_env run_options \<lparr>pe_get = (\<lambda>b i. None), pe_list = (\<lambda>b. []), pe_start = (\<lambda>b r. (Inl [], b)),
     pe_stop = (\<lambda>b i. (False, b)), pe_validateModel = (\<lambda>m. None), pe_maxItemsPerStep = None,
     pe_steps = (\<lambda>j. None), pe_stringify = (\<lambda>xs. []), pe_trace = (\<lambda>t. [])\<rparr>"

definition run_input :: "string \<Rightarrow> string list \<Rightarrow> rkind \<Rightarrow> step_input" where
  "run_input i deps k = \<lparr>si_id = i, si_goal = i, si_dependsOn = Some deps, si_worker = None, si_result = Some k,
     si_items = None, si_state = None, si_note = None\<rparr>"

definition run_plan :: authored_plan where
  "run_plan = \<lparr>au_steps = [run_input ''a'' [] KReport, run_input ''b'' [''a''] KVerdict], au_status = PActive, au_question = None\<rparr>"

definition run_args :: "string \<Rightarrow> string \<Rightarrow> json" where
  "run_args worker step =
     JObj [(''worker'', JStr worker), (''goal'', JStr ''g''), (''step_id'', JStr step)]"

definition run_answer :: run_answer where
  "run_answer = RunReturns \<lparr>ru_output = ''pass'', ru_summary = None, ru_budgetExhausted = False,
     ru_toolCallCount = None, ru_maxToolCalls = None, ru_epicfail = False, ru_awaiting = False, ru_stopped = False\<rparr>"

definition run_step :: "string \<Rightarrow> string \<Rightarrow> string \<Rightarrow> board scope \<Rightarrow> board scope" where
  "run_step worker step task sc =
     (let sc1 = snd (delegate_task run_env (run_args worker step) (the (to_profiles run_options)) sc);
          sc2 = sc1\<lparr>sc_board := run_task run_options task run_answer (sc_board sc1)\<rparr>
      in settle_event run_env run_platform task sc2)"

definition run_start :: "board scope" where
  "run_start = snd (author_commit run_env True True (Some run_plan) (initial_scope (new_board 1)))"

definition run_end :: "board scope" where
  "run_end = run_step ''c'' ''b'' ''t2'' (run_step ''w'' ''a'' ''t1'' run_start)"

lemma reach_run_step:
  assumes "flow_reachable run_env run_platform (board_step run_options) (new_board 1) \<lparr>fl_scope = sc, fl_flight = []\<rparr>"
  shows "flow_reachable run_env run_platform (board_step run_options) (new_board 1)
    \<lparr>fl_scope = run_step worker step task sc, fl_flight = []\<rparr>"
  unfolding run_step_def Let_def by (intro reach_event reach_run reach_delegate assms)

lemma reach_run_end:
  "flow_reachable run_env run_platform (board_step run_options) (new_board 1) \<lparr>fl_scope = run_end, fl_flight = []\<rparr>"
  unfolding run_end_def run_start_def
  by (intro reach_run_step reach_author) (rule flow_reachable.start [unfolded initial_flow_def])

text \<open>The evaluation of the run.\<close>

lemmas run_defs =
  author_commit_def attemptReserved_def initial_scope_def run_plan_def any_active_def run_env_def
  board_env_def board_list_def new_board_def kept_done_def Let_def merge_into_def mergePlan_def run_input_def
  merge_check_def narrows_def newly_skipped_def too_many_items_def step_error_def bad_dependency_def
  cycle_error_def input_deps_def find_input_def plan_colour_def plan_enter_def plan_leave_def merge_step_def
  old_step_def merge_step_error_def merged_step_def identityChanged_def roleChanged_def merged_result_def
  merged_worker_def itemsChanged_def effectiveState_def dependenciesChanged_def reopens_def
  drop_stale_checks_def drop_stale_check_def resultKind_def kind_of_def checkSourcesCurrent_def set_plan_def

lemmas run_tool_defs =
  run_options_def delegate_task_def delegate_open_def delegate_args_def run_args_def requiredString_def
  optionalString_def structured_plan_def step_arg_def find_step_def dependenciesDone_def
  assertNoActiveAttempt_def attempt_ids_def delegate_prepare_def delegated_step_def profile_error_def
  delegate_commit_def start_of_def startTask_def resolve_worker_def enqueue_def next_id_def add_task_def
  put_entry_def put_task_def new_entry_def new_task_def enter_queue_def acquire_def grant_def set_phase_def
  find_index_def start_attempt_def update_step_def delegate_release_def add_source_def put_own_def
  source_block_def join_present_def

lemmas run_board_defs =
  run_task_def begin_run_def emit_event_def finish_run_def take_result_def run_answer_def finish_task_def
  release_slot_def release_def let_in_def note_verdict_def settle_task_def final_state_def settle_event_def
  deliver_event_def applyTaskEvent_def event_step_def currentAttemptIds_def currentWorkTaskId_def
  record_success_def work_succeeded_def settle_step_def invalidate_check_def recomputePlanStatus_def

lemma run_verdict:
  "checkerVerdict run_platform ''pass'' = Some \<lparr>cv_verdict = CPass, cv_count = None, cv_note = None\<rparr>"
  by code_simp

lemma run_texts [simp]:
  "VERDICT_EVIDENCE_GUIDANCE \<noteq> []" "\<not> 119958 < length VERDICT_EVIDENCE_GUIDANCE" "pass_fail_name CPass = ''pass''"
  by (simp_all add: VERDICT_EVIDENCE_GUIDANCE_def pass_fail_name_def)

definition run_work :: pstep where
  "run_work = \<lparr>ps_result = Some KReport, ps_id = ''a'', ps_goal = ''a'', ps_items = None, ps_dependsOn = Some [],
     ps_worker = None, ps_state = SDone, ps_verdict = None, ps_checked = None, ps_work = Some ''t1'',
     ps_success = Some ''t1'', ps_taskIds = [''t1''], ps_note = None\<rparr>"

definition run_check :: pstep where
  "run_check = \<lparr>ps_result = Some KVerdict, ps_id = ''b'', ps_goal = ''b'', ps_items = None, ps_dependsOn = Some [''a''],
     ps_worker = None, ps_state = SDone, ps_verdict = Some CPass, ps_checked = Some [(''a'', ''t1'')],
     ps_work = Some ''t2'', ps_success = Some ''t2'', ps_taskIds = [''t2''], ps_note = Some ''pass''\<rparr>"

definition run_result_plan :: dplan where
  "run_result_plan = \<lparr>pl_scopeConsent = False, pl_steps = [run_work, run_check], pl_status = PDone,
     pl_question = None, pl_note = None\<rparr>"

lemma run_end_plan: "sc_plan run_end = Some run_result_plan"
  apply (simp add: run_end_def run_start_def run_defs)
  apply (simp add: run_step_def [of "''w''"] run_tool_defs run_defs)
  apply (simp add: run_board_defs run_tool_defs run_defs resetStaleCheck_def)
  apply (simp add: run_step_def run_tool_defs run_defs)
  apply (simp add: run_board_defs run_tool_defs run_defs resetStaleCheck_def settle_check_def verdict_of_task_def
      run_verdict expected_items_def run_result_plan_def run_work_def run_check_def)
  done

subsection \<open>The plan on the board\<close>

text \<open>C18. In every state that the planner tools, the task board, task events and user messages reach in any
  order, the plan is an acyclic graph of distinct steps; every attempt of a step is a task of the board with the
  result kind of the step and no task belongs to two steps; a done step has a successful current task that is
  done on the board, with its tool budget kept when the step is a batch, and a done check has passed.\<close>

theorem plan_claims_are_backed:
  assumes "flow_reachable (board_env opts env) V (board_step opts) (new_board limit) f" "0 < limit"
    "sc_plan (fl_scope f) = Some p"
  shows "plan_inv (tb_records (sc_board (fl_scope f))) p"
  using task_board.reachable_plan_inv [OF assms(1) new_board_ok [OF assms(2)] assms(3)]
  by (simp add: board_env_def)

lemma plan_claims_are_backed_witness:
  "plan_inv (tb_records (sc_board run_end)) run_result_plan \<and> map ps_state (pl_steps run_result_plan) = [SDone, SDone]"
  using plan_claims_are_backed [OF reach_run_end [unfolded run_env_def], of run_result_plan] run_end_plan
  by (simp add: run_result_plan_def run_work_def run_check_def)

text \<open>C19. A step that has checks is only released for delivery when one of them is done and passed, and the task
  it checked is the current successful task of the step, done on the board; so is the task of the check.\<close>

theorem delivery_rests_on_a_passed_check:
  assumes "flow_reachable (board_env opts env) V (board_step opts) (new_board limit) f" "0 < limit"
    "sc_plan (fl_scope f) = Some p" "deliveryChecksPassed p i"
    "c0 \<in> set (pl_steps p)" "resultKind c0 = KVerdict" "i \<in> set (step_deps c0)"
  shows "\<exists>c s x y t u. c \<in> set (pl_steps p) \<and> resultKind c = KVerdict \<and> i \<in> set (step_deps c)
     \<and> ps_state c = SDone \<and> ps_verdict c = Some CPass
     \<and> find_step p i = Some s \<and> ps_success s = Some x \<and> Option.bind (ps_checked c) (\<lambda>m. map_of m i) = Some x
     \<and> ps_success c = Some y
     \<and> tb_records (sc_board (fl_scope f)) x = Some t \<and> tk_state t = TDone \<and> tk_result t = Some (resultKind s)
     \<and> tb_records (sc_board (fl_scope f)) y = Some u \<and> tk_state u = TDone \<and> tk_result u = Some KVerdict"
proof -
  let ?get = "tb_records (sc_board (fl_scope f))"
  have inv: "plan_inv ?get p"
    using task_board.reachable_plan_inv [OF assms(1) new_board_ok [OF assms(2)] assms(3)] by (simp add: board_env_def)
  have success: "\<exists>t. ?get x = Some t \<and> tk_state t = TDone \<and> tk_result t = Some (resultKind s)"
    if "s \<in> set (pl_steps p)" "ps_success s = Some x" for s x
  proof -
    have "step_ok ?get s" using inv that(1) by (simp add: plan_inv_def)
    note ok = step_okD [OF this]
    show ?thesis using ok(1) [OF ok(2) [OF ok(3) [OF that(2)]]] ok(4) [OF that(2)] by auto
  qed
  have "\<exists>c. c \<in> set (pl_steps p) \<and> resultKind c = KVerdict \<and> i \<in> set (step_deps c)
      \<and> ps_state c = SDone \<and> ps_verdict c = Some CPass \<and> checkSourcesCurrent p c"
  proof -
    have "filter (\<lambda>s. resultKind s = KVerdict \<and> i \<in> set (step_deps s)) (pl_steps p) \<noteq> []"
      using assms(5-7) by (auto simp: filter_empty_conv)
    then show ?thesis using assms(4) unfolding deliveryChecksPassed_def Let_def by (simp add: list_ex_iff) blast
  qed
  then obtain c where c: "c \<in> set (pl_steps p)" "resultKind c = KVerdict" "i \<in> set (step_deps c)" "ps_state c = SDone"
      "ps_verdict c = Some CPass" "checkSourcesCurrent p c" by blast
  obtain s x where s: "find_step p i = Some s" "ps_success s = Some x" "Option.bind (ps_checked c) (\<lambda>m. map_of m i) = Some x"
    using c(3,6) by (auto simp: checkSourcesCurrent_def list_all_iff split: option.splits)
  have "s \<in> set (pl_steps p)" using s(1) by (auto simp: find_step_def find_Some_iff)
  moreover have "step_ok ?get c" using inv c(1) by (simp add: plan_inv_def)
  then obtain y where y: "ps_success c = Some y" using step_okD(5) [of ?get c] c(4) by blast
  ultimately show ?thesis using success [of s x] success [OF c(1) y] c s y by metis
qed

lemma delivery_rests_on_a_passed_check_witness:
  "\<exists>c t. c \<in> set (pl_steps run_result_plan) \<and> resultKind c = KVerdict \<and> ps_verdict c = Some CPass
     \<and> tb_records (sc_board run_end) ''t1'' = Some t \<and> tk_state t = TDone"
proof -
  have p: "deliveryChecksPassed run_result_plan ''a''" "run_check \<in> set (pl_steps run_result_plan)"
      "resultKind run_check = KVerdict" "''a'' \<in> set (step_deps run_check)"
      "find_step run_result_plan ''a'' = Some run_work" "ps_success run_work = Some ''t1''"
    by (simp_all add: deliveryChecksPassed_def run_result_plan_def run_work_def run_check_def resultKind_def kind_of_def
        checkSourcesCurrent_def find_step_def)
  show ?thesis
    using delivery_rests_on_a_passed_check [OF reach_run_end [unfolded run_env_def] _ _ p(1-4)] run_end_plan p(5,6)
    by (auto simp: run_env_def)
qed

subsection \<open>The merge of plans\<close>

text \<open>C20. A merge takes nothing for granted that the author of the new steps claims: a running or done step is the
  unchanged step of the previous plan.  Without the consent of the user a step is only skipped when it was
  skipped before, every unfinished step is still there, and no item of a batch is lost.\<close>

theorem merge_is_conservative:
  assumes "mergePlan previous input status question opts = Inr p"
  shows "(\<forall>x \<in> set (pl_steps p). ps_state x \<in> {SRunning, SDone} \<longrightarrow> (\<exists>q \<in> set (prev_steps previous). same_work q x))
    \<and> (\<not> mo_consent opts \<longrightarrow>
        (\<forall>x \<in> set (pl_steps p). ps_state x = SSkipped \<longrightarrow>
           (\<exists>q \<in> set (prev_steps previous). ps_id q = ps_id x \<and> ps_state q = SSkipped))
        \<and> (\<forall>q \<in> set (prev_steps previous). ps_state q \<notin> {SDone, SSkipped} \<or> nullish (ps_items q) [] \<noteq> [] \<longrightarrow>
           (\<exists>x \<in> set (pl_steps p). ps_id x = ps_id q \<and> set (nullish (ps_items q) []) \<subseteq> set (nullish (ps_items x) []))))"
  using merge_forges_nothing [OF assms] merge_skips_nothing [OF assms] merge_narrows_nothing [OF assms] by blast

definition merge_sample :: dplan where
  "merge_sample = run_result_plan\<lparr>pl_steps := [run_work, run_check\<lparr>ps_state := SPending, ps_items := Some [''i'']\<rparr>]\<rparr>"

definition merge_sample_options :: merge_options where
  "merge_sample_options = \<lparr>mo_consent = False, mo_maxItemsPerStep = None, mo_resolveResult = None, mo_getTask = None\<rparr>"

lemma merge_is_conservative_witness:
  "\<exists>p. mergePlan (Some merge_sample) (Some (map input_of (pl_steps merge_sample))) PActive None merge_sample_options = Inr p
     \<and> (\<exists>x \<in> set (pl_steps p). ps_id x = ''b'' \<and> ''i'' \<in> set (nullish (ps_items x) []))"
proof -
  have "\<exists>p. mergePlan (Some merge_sample) (Some (map input_of (pl_steps merge_sample))) PActive None merge_sample_options = Inr p"
    by (simp add: merge_sample_def merge_sample_options_def run_result_plan_def run_work_def run_check_def input_of_def run_defs)
  then obtain p where p: "mergePlan (Some merge_sample) (Some (map input_of (pl_steps merge_sample))) PActive None
      merge_sample_options = Inr p" by blast
  show ?thesis
    using p merge_is_conservative [OF p]
    by (simp add: merge_sample_def merge_sample_options_def run_result_plan_def run_check_def)
qed

subsection \<open>The board\<close>

text \<open>Under every interleaving at most \<open>limit\<close> tasks hold a slot, so that at most that many workers run; a task only
  waits while all slots are held; and the board never holds more tasks than its maximum.\<close>

theorem board_is_bounded:
  assumes "board_reachable opts limit R b" "0 < limit"
  shows "card {i. holds_slot (tb_entries b i)} \<le> limit
    \<and> (waits_slot (tb_entries b i) \<longrightarrow> card {i. holds_slot (tb_entries b i)} = limit)
    \<and> length (tb_order b) \<le> to_maxTasks opts"
proof -
  obtain ts where ok: "board_ok opts limit (after_events (past_events ts) b)" using board_reachable_past [OF assms] by blast
  then have h: "set (sm_holders (tb_sem b)) = {i. holds_slot (tb_entries b i)}"
      "set (sm_queue (tb_sem b)) = {i. waits_slot (tb_entries b i)}" "sem_inv (tb_sem b)" "sm_limit (tb_sem b) = limit"
    by (simp_all add: board_ok_def slots_but_def)
  then have "card {i. holds_slot (tb_entries b i)} = sm_active (tb_sem b)"
    using distinct_card [of "sm_holders (tb_sem b)"] by (simp add: sem_inv_def)
  moreover have "waits_slot (tb_entries b i) \<Longrightarrow> sm_queue (tb_sem b) \<noteq> []" using h(2) by auto
  ultimately show ?thesis using h(3,4) board_okD(5) [OF ok] by (auto simp: sem_inv_def)
qed

text \<open>C21. On a board, restored any number of times from the records of the session, a task reports its outcome exactly
  once in the session that started it: when such a task is settled there is one outcome event, it carries
  the state the task settled in and says done exactly when that state is done; before, there is none.
  A task the board was restored with is settled and reports nothing more.\<close>

theorem board_reports_each_outcome_once:
  assumes "board_reachable opts limit R b" "0 < limit" "tb_records b i = Some t"
  shows "if i \<in> R then settled t \<and> outcomes_of i (tb_events b) = []
    else if settled t
    then \<exists>k u. outcomes_of i (tb_events b) = [(k, u)] \<and> tk_id u = i \<and> tk_state u = tk_state t \<and> (k = EDone \<longleftrightarrow> tk_state t = TDone)
    else outcomes_of i (tb_events b) = [] \<and> tb_entries b i \<noteq> None"
proof -
  obtain ts where ts: "board_ok opts limit (after_events (past_events ts) b)" "tk_id ` set ts = R" "distinct (map tk_id ts)"
    using board_reachable_past [OF assms(1,2)] by blast
  have "task_ok (after_events (past_events ts) b) i" using board_okD(1) [OF ts(1)] .
  then have out: "outcomes_ok (outcomes_of i (past_events ts) @ outcomes_of i (tb_events b)) t" and e: "tb_entries b i = None \<Longrightarrow> settled t"
    using assms(3) by (auto simp: task_ok_def outcomes_of_def)
  have n: "length (outcomes_of i (past_events ts)) = (if i \<in> R then 1 else 0)" using past_outcomes [OF ts(3)] ts(2) by simp
  show ?thesis
  proof (cases "i \<in> R")
    case True
    then show ?thesis using out n by (cases "outcomes_of i (past_events ts)") (auto simp: outcomes_ok_def split: if_splits)
  next
    case new: False
    with n have out: "outcomes_ok (outcomes_of i (tb_events b)) t" using out by simp
    show ?thesis
    proof (cases "settled t")
      case True
      then obtain k u where k: "outcomes_of i (tb_events b) = [(k, u)]" "tk_state u = tk_state t" "k = EDone \<longleftrightarrow> tk_state t = TDone"
        using out by (auto simp: outcomes_ok_def)
      have "(k, u) \<in> set (outcomes_of i (tb_events b))" by (simp add: k(1))
      then have "tk_id u = i" by (simp add: outcomes_of_def)
      then show ?thesis using new True k by simp
    qed (use new out e in \<open>auto simp: outcomes_ok_def\<close>)
  qed
qed

text \<open>A board with one slot and two tasks: the first is done, the second has the slot.\<close>

definition sample_request :: task_request where
  "sample_request = \<lparr>tr_worker = ''w'', tr_model = None, tr_result = KReport, tr_goal = ''g'', tr_context = None\<rparr>"

definition sample_queue :: board where
  "sample_queue = snd (enqueue run_options sample_request (snd (enqueue run_options sample_request (new_board 1))))"

definition sample_board :: board where
  "sample_board = run_task run_options ''t1'' run_answer sample_queue"

lemma sample_queue_reachable: "board_reachable run_options 1 {} sample_queue"
  unfolding sample_queue_def
  by (rule board_reachable.step [OF board_reachable.step [OF board_reachable.start]];
      rule board_step.enqueued [OF prod.collapse [symmetric]])

lemma sample_board_reachable: "board_reachable run_options 1 {} sample_board"
  unfolding sample_board_def
  by (rule run_task_cases [where P = "board_reachable run_options 1 {}"])
    (use sample_queue_reachable in \<open>auto intro: board_reachable.step\<close>)

lemma board_is_bounded_witness:
  "waits_slot (tb_entries sample_queue ''t2'') \<and> card {i. holds_slot (tb_entries sample_queue i)} = 1"
proof -
  have "waits_slot (tb_entries sample_queue ''t2'')"
    by (simp add: sample_queue_def sample_request_def waits_slot_def run_tool_defs run_defs)
  then show ?thesis using board_is_bounded [OF sample_queue_reachable, of "''t2''"] by simp
qed

lemma board_reports_each_outcome_once_witness:
  "\<exists>t u. tb_records sample_board ''t1'' = Some t \<and> tk_state t = TDone \<and> outcomes_of ''t1'' (tb_events sample_board) = [(EDone, u)]"
proof -
  have "\<exists>t. tb_records sample_board ''t1'' = Some t \<and> tk_state t = TDone"
    by (simp add: sample_board_def sample_queue_def sample_request_def run_tool_defs run_defs run_board_defs)
  then obtain t where t: "tb_records sample_board ''t1'' = Some t" "tk_state t = TDone" by blast
  show ?thesis
    using board_reports_each_outcome_once [OF sample_board_reachable _ t(1)] t by (auto simp: settled_def)
qed

end
