(* ===== verification/JsonPrint.thy ===== *)
theory JsonPrint
  imports Json PlanParser
begin

text \<open>
  \<open>JSON.stringify\<close> on the values of theory \<open>Json\<close>, and the canonical argument keys of \<open>artifact-identity.ts\<close>.
  A number is printed as \<open>Number.prototype.toString\<close> prints the decimal it stands for (as in the parser, the rounding
  to a double is not modelled); an object prints its members in the order it holds them.
\<close>

subsection \<open>Printing\<close>

definition hex_digit :: "nat \<Rightarrow> char" where
  "hex_digit n = char_of (if n < 10 then 48 + n else 87 + n)"

definition escape_json :: "char \<Rightarrow> string" where
  "escape_json c =
     (let n = (of_char c :: nat) in
      if c = quote_char \<or> c = backslash then [backslash, c]
      else if n = 8 then [backslash, CHR ''b'']
      else if n = 9 then [backslash, CHR ''t'']
      else if n = 10 then [backslash, CHR ''n'']
      else if n = 12 then [backslash, CHR ''f'']
      else if n = 13 then [backslash, CHR ''r'']
      else if n < 32 then [backslash, CHR ''u'', CHR ''0'', CHR ''0'', hex_digit (n div 16), hex_digit (n mod 16)]
      else [c])"

definition print_string :: "string \<Rightarrow> string" where
  "print_string s = quote_char # concat (map escape_json s) @ [quote_char]"

text \<open>The decimal \<open>m * 10 ^ e\<close> without trailing zeros in \<open>m\<close>.\<close>

function strip_zeros :: "nat \<Rightarrow> int \<Rightarrow> nat \<times> int" where
  "strip_zeros m e = (if m \<noteq> 0 \<and> m mod 10 = 0 then strip_zeros (m div 10) (e + 1) else (m, e))"
  by pat_completeness auto
termination by (relation "measure (\<lambda>(m, e). m)") auto

declare strip_zeros.simps [simp del]

definition print_positive :: "nat \<Rightarrow> int \<Rightarrow> string" where
  "print_positive m e =
     (let (m', e') = strip_zeros m e; ds = digits m'; k = int (length ds); n = k + e' in
      if k \<le> n \<and> n \<le> 21 then ds @ replicate (nat (n - k)) (CHR ''0'')
      else if 0 < n \<and> n \<le> 21 then take (nat n) ds @ ''.'' @ drop (nat n) ds
      else if - 6 < n \<and> n \<le> 0 then ''0.'' @ replicate (nat (- n)) (CHR ''0'') @ ds
      else take 1 ds @ (if k = 1 then [] else CHR ''.'' # drop 1 ds) @ ''e''
             @ (if n \<ge> 1 then ''+'' else ''-'') @ digits (nat \<bar>n - 1\<bar>))"

definition print_num :: "int \<Rightarrow> int \<Rightarrow> string" where
  "print_num m e =
     (if m = 0 then ''0'' else if m < 0 then CHR ''-'' # print_positive (nat (- m)) e else print_positive (nat m) e)"

fun stringify :: "json \<Rightarrow> string" where
  "stringify JNull = ''null''"
| "stringify (JBool b) = (if b then ''true'' else ''false'')"
| "stringify (JNum m e) = print_num m e"
| "stringify (JStr s) = print_string s"
| "stringify (JArr vs) = ''['' @ join '','' (map stringify vs) @ '']''"
| "stringify (JObj kvs) = ''{'' @ join '','' (map (\<lambda>(k, v). print_string k @ '':'' @ stringify v) kvs) @ ''}''"

subsection \<open>Argument keys\<close>

text \<open>\<open>sort()\<close> on keys compares code units.\<close>

fun key_le :: "string \<Rightarrow> string \<Rightarrow> bool" where
  "key_le [] s = True"
| "key_le (c # r) [] = False"
| "key_le (c # r) (d # s) =
     ((of_char c :: nat) < of_char d \<or> (c = d \<and> key_le r s))"

definition sort_members :: "(string \<times> 'a) list \<Rightarrow> (string \<times> 'a) list" where
  "sort_members = sort_by (\<lambda>a b. key_le (fst a) (fst b))"

definition stableArgsKey :: "json \<Rightarrow> string" where
  "stableArgsKey args = (case args of JObj kvs \<Rightarrow> stringify (JObj (sort_members kvs)) | _ \<Rightarrow> stringify args)"

definition artifactIdentityKey :: "string \<Rightarrow> json \<Rightarrow> string" where
  "artifactIdentityKey toolName args = map lower (toolName @ '':'' @ stableArgsKey args)"

fun canon :: "json \<Rightarrow> json" where
  "canon (JArr vs) = JArr (map canon vs)"
| "canon (JObj kvs) = JObj (sort_members (map (\<lambda>(k, v). (k, canon v)) kvs))"
| "canon v = v"

definition deepStableArgsKey :: "json \<Rightarrow> string" where
  "deepStableArgsKey args = stringify (canon args)"

text \<open>\<open>sha256\<close> is a parameter; it answers the hexadecimal digest.\<close>

definition shortHash :: "(string \<Rightarrow> string) \<Rightarrow> string \<Rightarrow> string" where
  "shortHash sha256 s = take 16 (sha256 s)"

definition externalToolCallId :: "(string \<Rightarrow> string) \<Rightarrow> string \<Rightarrow> json \<Rightarrow> string" where
  "externalToolCallId sha256 toolName args = ''ext:'' @ shortHash sha256 (toolName @ [CHR 0x00] @ deepStableArgsKey args)"

subsection \<open>The keys do not depend on the order of members\<close>

lemma key_le_refl [simp]: "key_le s s"
  by (induction s) auto

lemma key_le_antisym: "key_le s t \<Longrightarrow> key_le t s \<Longrightarrow> s = t"
proof (induction s t rule: key_le.induct)
  case (1 s)
  then show ?case by (cases s) auto
qed auto

lemma key_le_total: "key_le s t \<or> key_le t s"
proof (induction s t rule: key_le.induct)
  case (3 c r d s)
  have "(of_char c :: nat) < of_char d \<or> (of_char d :: nat) < of_char c" if "c \<noteq> d"
    using that by (metis linorder_neqE_nat of_char_eq_iff)
  with 3 show ?case by auto
qed auto

lemma key_le_trans: "key_le s t \<Longrightarrow> key_le t u \<Longrightarrow> key_le s u"
proof (induction s t arbitrary: u rule: key_le.induct)
  case (3 c r d s)
  then show ?case by (cases u) auto
qed (auto elim: key_le.elims)

lemma insert_by_commute:
  assumes trans: "\<And>a b c. le a b \<Longrightarrow> le b c \<Longrightarrow> le a c" and total: "\<And>a b. le a b \<or> le b a"
    and apart: "\<not> (le x y \<and> le y x)"
  shows "insert_by le x (insert_by le y zs) = insert_by le y (insert_by le x zs)"
proof (induction zs)
  case Nil
  show ?case using total [of x y] apart by auto
next
  case (Cons z zs)
  show ?case using total [of x y] apart trans Cons by auto
qed

lemma sort_by_mset:
  assumes trans: "\<And>a b c. le a b \<Longrightarrow> le b c \<Longrightarrow> le a c" and total: "\<And>a b. le a b \<or> le b a"
    and apart: "\<And>x y. x \<in> set xs \<Longrightarrow> y \<in> set xs \<Longrightarrow> le x y \<Longrightarrow> le y x \<Longrightarrow> x = y"
    and eq: "mset xs = mset ys"
  shows "sort_by le xs = sort_by le ys"
proof -
  have "insert_by le x \<circ> insert_by le y = insert_by le y \<circ> insert_by le x" if "x \<in> set xs" "y \<in> set xs" for x y
  proof (cases "x = y")
    case False
    with apart that have "\<not> (le x y \<and> le y x)" by blast
    have "insert_by le x (insert_by le y zs) = insert_by le y (insert_by le x zs)" for zs
    proof (rule insert_by_commute)
      show "\<not> (le x y \<and> le y x)" by fact
      show "le a c" if "le a b" "le b c" for a b c using that by (rule trans)
      show "le a b \<or> le b a" for a b by (rule total)
    qed
    then show ?thesis by (simp add: fun_eq_iff)
  qed simp
  then have "fold (insert_by le) (rev xs) = fold (insert_by le) (rev ys)"
    by (intro fold_multiset_equiv) (use eq in auto)
  then show ?thesis by (simp add: sort_by_def foldr_conv_fold)
qed

lemma sort_members_mset:
  assumes "mset kvs = mset lvs" "distinct (map fst kvs)"
  shows "sort_members kvs = sort_members lvs"
  unfolding sort_members_def
proof (rule sort_by_mset)
  fix x y assume *: "x \<in> set kvs" "y \<in> set kvs" "key_le (fst x) (fst y)" "key_le (fst y) (fst x)"
  then have "fst x = fst y" by (simp add: key_le_antisym)
  with * assms(2) eq_key_imp_eq_value [of kvs "fst x" "snd x" "snd y"] show "x = y" by (metis prod.collapse)
next
  fix x y z :: "string \<times> 'a"
  assume "key_le (fst x) (fst y)" "key_le (fst y) (fst z)"
  then show "key_le (fst x) (fst z)" by (rule key_le_trans)
next
  fix x y :: "string \<times> 'a"
  show "key_le (fst x) (fst y) \<or> key_le (fst y) (fst x)" by (rule key_le_total)
qed (rule assms(1))

text \<open>Two values hold the same members at every depth, whatever the order of the members; keys are distinct, as they
  are in an object.\<close>

inductive same_json :: "json \<Rightarrow> json \<Rightarrow> bool" where
  same_refl: "same_json v v"
| same_arr: "length vs = length ws \<Longrightarrow> (\<And>i. i < length vs \<Longrightarrow> same_json (vs ! i) (ws ! i)) \<Longrightarrow> same_json (JArr vs) (JArr ws)"
| same_obj: "length kvs = length lvs \<Longrightarrow> (\<And>i. i < length kvs \<Longrightarrow> fst (kvs ! i) = fst (lvs ! i) \<and> same_json (snd (kvs ! i)) (snd (lvs ! i)))
    \<Longrightarrow> mset lvs = mset mvs \<Longrightarrow> distinct (map fst kvs) \<Longrightarrow> same_json (JObj kvs) (JObj mvs)"

lemma same_json_canon: "same_json v w \<Longrightarrow> canon v = canon w"
proof (induction rule: same_json.induct)
  case (same_arr vs ws)
  then show ?case by (auto intro: nth_equalityI)
next
  case (same_obj kvs lvs mvs)
  let ?c = "\<lambda>(k, v). (k, canon v)"
  have at: "fst (kvs ! i) = fst (lvs ! i)" "canon (snd (kvs ! i)) = canon (snd (lvs ! i))" if "i < length kvs" for i
    using same_obj that by simp_all
  have len: "length kvs = length lvs" using same_obj by simp
  have "map ?c kvs = map ?c lvs"
    using at len by (intro nth_equalityI) (simp_all add: split_beta)
  moreover have "sort_members (map ?c lvs) = sort_members (map ?c mvs)"
  proof (rule sort_members_mset)
    show "mset (map ?c lvs) = mset (map ?c mvs)" using same_obj by simp
    have "map fst kvs = map fst lvs" using at len by (intro nth_equalityI) simp_all
    with same_obj have "distinct (map fst lvs)" by simp
    then show "distinct (map fst (map ?c lvs))" by (simp add: comp_def split_beta)
  qed
  ultimately show ?case by simp
qed simp

lemma externalToolCallId_order:
  "same_json v w \<Longrightarrow> externalToolCallId sha256 name v = externalToolCallId sha256 name w"
  by (simp add: externalToolCallId_def deepStableArgsKey_def same_json_canon)

end
