(* ===== verification/ToolTypes.thy ===== *)
theory ToolTypes
  imports JsonPrint
begin

text \<open>
  Messages, tool calls, stream chunks and tools (\<open>types.ts\<close>, \<open>interfaces/types.ts\<close>), the normalisation of streamed
  tool calls (\<open>tool-call-deltas.ts\<close>), the projection of tool results for the model (\<open>trust.ts\<close>), and the names of
  tools: \<open>merge-offered-tools.ts\<close>, \<open>tool-namespace.ts\<close>, \<open>build-namespaced-tools.ts\<close>, \<open>tool-record-key.ts\<close>.
\<close>

subsection \<open>Messages and tool calls\<close>

datatype role = RUser | RAssistant | RSystem | RTool

record fn_call =
  fc_id :: string
  fc_name :: string
  fc_arguments :: string

record chat_message =
  cm_role :: role
  cm_content :: "string option"
  cm_tool_call_id :: "string option"
  cm_tool_calls :: "fn_call list option"

abbreviation text_message :: "role \<Rightarrow> string option \<Rightarrow> chat_message" where
  "text_message r c \<equiv> \<lparr>cm_role = r, cm_content = c, cm_tool_call_id = None, cm_tool_calls = None\<rparr>"

abbreviation tool_result :: "string \<Rightarrow> string \<Rightarrow> chat_message" where
  "tool_result call_id c \<equiv> \<lparr>cm_role = RTool, cm_content = Some c, cm_tool_call_id = Some call_id, cm_tool_calls = None\<rparr>"

text \<open>\<open>content || null\<close>\<close>

definition or_null :: "string \<Rightarrow> string option" where
  "or_null s = (if s = [] then None else Some s)"

definition calls_of :: "chat_message \<Rightarrow> fn_call list" where
  "calls_of m = nullish (cm_tool_calls m) []"

record parsed_call =
  pc_id :: string
  pc_name :: string
  pc_args :: json

definition fn_call_of :: "parsed_call \<Rightarrow> fn_call" where
  "fn_call_of tc = \<lparr>fc_id = pc_id tc, fc_name = pc_name tc, fc_arguments = stringify (pc_args tc)\<rparr>"

definition calls_message :: "string option \<Rightarrow> parsed_call list \<Rightarrow> chat_message" where
  "calls_message content calls =
     \<lparr>cm_role = RAssistant, cm_content = content, cm_tool_call_id = None, cm_tool_calls = Some (map fn_call_of calls)\<rparr>"

subsection \<open>Streamed tool calls\<close>

record call_delta =
  cd_index :: nat
  cd_id :: "string option"
  cd_name :: "string option"
  cd_arguments :: "string option"

datatype stream_call = WholeCall parsed_call | DeltaCall call_delta

definition getStreamToolCallName :: "stream_call \<Rightarrow> string option" where
  "getStreamToolCallName call = (case call of WholeCall c \<Rightarrow> Some (pc_name c) | DeltaCall d \<Rightarrow> cd_name d)"

definition toToolCallDelta :: "stream_call \<Rightarrow> nat \<Rightarrow> call_delta" where
  "toToolCallDelta call fallbackIndex =
     (case call of
        WholeCall c \<Rightarrow>
          \<lparr>cd_index = fallbackIndex, cd_id = Some (pc_id c), cd_name = Some (pc_name c), cd_arguments = Some (stringify (pc_args c))\<rparr>
      | DeltaCall d \<Rightarrow> d)"

subsection \<open>Chunks\<close>

record llm_usage =
  us_prompt :: nat
  us_completion :: nat
  us_total :: nat

record llm_chunk =
  lc_content :: string
  lc_toolCalls :: "stream_call list option"
  lc_finish :: "string option"
  lc_usage :: "llm_usage option"
  lc_reset :: bool
  lc_ephemeral :: bool
  lc_iterationEnd :: "string option"
  lc_budget :: "(nat \<times> int) option"       \<comment> \<open>\<open>budgetExhausted\<close> with \<open>toolCallCount\<close> and \<open>maxToolCalls\<close>\<close>
  lc_stopped :: bool
  lc_heartbeat :: "string option"

definition chunk_of :: "string \<Rightarrow> llm_chunk" where
  "chunk_of s = \<lparr>lc_content = s, lc_toolCalls = None, lc_finish = None, lc_usage = None, lc_reset = False,
     lc_ephemeral = False, lc_iterationEnd = None, lc_budget = None, lc_stopped = False, lc_heartbeat = None\<rparr>"

lemma chunk_of_simps [simp]:
  "lc_content (chunk_of s) = s" "lc_toolCalls (chunk_of s) = None" "lc_finish (chunk_of s) = None"
  "lc_usage (chunk_of s) = None" "\<not> lc_reset (chunk_of s)" "\<not> lc_ephemeral (chunk_of s)"
  "lc_iterationEnd (chunk_of s) = None" "lc_budget (chunk_of s) = None" "\<not> lc_stopped (chunk_of s)"
  "lc_heartbeat (chunk_of s) = None"
  by (simp_all add: chunk_of_def)

subsection \<open>Trust of tool results\<close>

text \<open>
  A tag is a source and a trust that \<open>formatTrust\<close> has already turned into a string.  The copies that
  \<open>toModelToolMessage\<close> remembers to have projected are those marked in the list of flags.
\<close>

type_synonym tool_trust = "string \<Rightarrow> (string \<times> string) option"

definition escapeTrustName :: "string \<Rightarrow> string" where
  "escapeTrustName value =
     concat (map (\<lambda>c. if c = CHR ''['' then ''&#91;'' else if c = CHR '']'' then ''&#93;'' else [c]) value)"

definition formatTrustTag :: "string \<Rightarrow> string \<Rightarrow> string" where
  "formatTrustTag source trust = ''[source: '' @ escapeTrustName source @ ''; trust '' @ trust @ '']''"

definition toModelToolMessage :: "bool \<Rightarrow> chat_message \<Rightarrow> tool_trust option \<Rightarrow> string option \<Rightarrow> chat_message" where
  "toModelToolMessage projected raw trust toolName =
     (case (trust, toolName) of
        (Some t, Some name) \<Rightarrow>
          if cm_role raw \<noteq> RTool \<or> projected then raw
          else (case t name of
                  None \<Rightarrow> raw
                | Some (source, tr) \<Rightarrow>
                    raw\<lparr>cm_content := Some (formatTrustTag source tr @ newline @ nullish (cm_content raw) [])\<rparr>)
      | _ \<Rightarrow> raw)"

fun model_messages :: "(string \<times> string) list \<Rightarrow> tool_trust option \<Rightarrow> chat_message list \<Rightarrow> chat_message list" where
  "model_messages names trust [] = []"
| "model_messages names trust (m # ms) =
     (let names1 = fold (\<lambda>c. AList.update (fc_id c) (fc_name c)) (calls_of m) names
      in toModelToolMessage False m trust (Option.bind (cm_tool_call_id m) (map_of names1))
         # model_messages names1 trust ms)"

definition toModelToolMessages :: "chat_message list \<Rightarrow> tool_trust option \<Rightarrow> chat_message list" where
  "toModelToolMessages raw trust = model_messages [] trust raw"

lemma toModelToolMessage_frame [simp]:
  "cm_role (toModelToolMessage p m t n) = cm_role m"
  "cm_tool_call_id (toModelToolMessage p m t n) = cm_tool_call_id m"
  "cm_tool_calls (toModelToolMessage p m t n) = cm_tool_calls m"
  by (simp_all add: toModelToolMessage_def split: option.split prod.split)

lemma model_messages_frame:
  "map cm_role (model_messages ns t ms) = map cm_role ms"
  "map cm_tool_call_id (model_messages ns t ms) = map cm_tool_call_id ms"
  "map cm_tool_calls (model_messages ns t ms) = map cm_tool_calls ms"
  by (induction ns t ms rule: model_messages.induct) (simp_all add: Let_def)

lemma model_messages_untrusted: "model_messages ns None ms = ms"
  by (induction ns "None :: tool_trust option" ms rule: model_messages.induct)
    (simp_all add: Let_def toModelToolMessage_def split: option.split)

subsection \<open>Tools and their names\<close>

record tool =
  tl_name :: string
  tl_description :: string
  tl_schema :: json

text \<open>\<open>Inl\<close> is the message of the error that is thrown.\<close>

definition mergeOfferedTools :: "tool list \<Rightarrow> tool list \<Rightarrow> string + tool list" where
  "mergeOfferedTools internal external =
     (case find (\<lambda>x. tl_name x \<in> tl_name ` set internal) external of
        Some x \<Rightarrow> Inl (''tool '' @ [quote_char] @ tl_name x @ [quote_char]
                    @ '' is both an internal MCP tool (exposed name) and a client-provided external tool ''
                    @ [em_dash] @ '' rename the external tool.'')
      | None \<Rightarrow> Inr (internal @ external))"

record namespace_context =
  nc_toolName :: string
  nc_prefix :: string
  nc_colliding :: bool

definition defaultToolNamespace :: "namespace_context \<Rightarrow> string" where
  "defaultToolNamespace ctx = (if nc_colliding ctx then nc_prefix ctx @ ''__'' @ nc_toolName ctx else nc_toolName ctx)"

text \<open>A client of the tool map: the connection it stands for and, when bound, the original name it calls.\<close>

record tool_client =
  cl_id :: nat
  cl_calls :: "string option"
  cl_default :: bool                    \<comment> \<open>made by \<open>createSubmitReportClient\<close>\<close>

definition bindToolCallName :: "tool_client \<Rightarrow> string \<Rightarrow> tool_client" where
  "bindToolCallName client originalName =
     client\<lparr>cl_calls := (case cl_calls client of None \<Rightarrow> Some originalName | Some n \<Rightarrow> Some n), cl_default := False\<rparr>"

definition called_name :: "tool_client \<Rightarrow> string \<Rightarrow> string" where
  "called_name client name = nullish (cl_calls client) name"

record namespace_client =
  ni_slot :: nat
  ni_label :: "string option"
  ni_client :: tool_client
  ni_tools :: "tool list"

definition valid_name_char :: "char \<Rightarrow> bool" where
  "valid_name_char c \<longleftrightarrow>
     (let n = (of_char c :: nat) in (97 \<le> n \<and> n \<le> 122) \<or> (65 \<le> n \<and> n \<le> 90) \<or> (48 \<le> n \<and> n \<le> 57) \<or> c = CHR ''_'' \<or> c = CHR ''-'')"

definition valid_tool_name :: "string \<Rightarrow> bool" where
  "valid_tool_name s \<longleftrightarrow> s \<noteq> [] \<and> length s \<le> 64 \<and> list_all valid_name_char s"

definition tool_counts :: "namespace_client list \<Rightarrow> string \<Rightarrow> nat" where
  "tool_counts perClient name = length (filter (\<lambda>t. tl_name t = name) (concat (map ni_tools perClient)))"

fun duplicate_slot :: "nat list \<Rightarrow> namespace_client list \<Rightarrow> nat option" where
  "duplicate_slot seen [] = None"
| "duplicate_slot seen (pc # pcs) =
     (if ni_slot pc \<in> set seen then Some (ni_slot pc) else duplicate_slot (ni_slot pc # seen) pcs)"

record namespaced =
  ns_tools :: "tool list"
  ns_clients :: "(string \<times> tool_client) list"
  ns_provenance :: "(string \<times> (nat \<times> string)) list"

abbreviation quoted :: "string \<Rightarrow> string" where
  "quoted s \<equiv> [quote_char] @ s @ [quote_char]"

definition add_namespaced ::
    "(namespace_context \<Rightarrow> string) \<Rightarrow> (string \<Rightarrow> nat) \<Rightarrow> namespace_client \<Rightarrow> tool \<Rightarrow> namespaced \<Rightarrow> string + namespaced" where
  "add_namespaced ns counts pc t acc =
     (let prefix = nullish (ni_label pc) (CHR ''s'' # digits (ni_slot pc));
          exposed = ns \<lparr>nc_toolName = tl_name t, nc_prefix = prefix, nc_colliding = counts (tl_name t) > 1\<rparr>
      in if \<not> valid_tool_name exposed then
           Inl (''IToolNamespace produced an invalid tool name '' @ stringify (JStr exposed) @ '' for tool ''
                @ quoted (tl_name t) @ '' on server slot '' @ digits (ni_slot pc)
                @ (if truthy (ni_label pc) then '' ('' @ the (ni_label pc) @ '')'' else [])
                @ ''; must be non-empty, /^[a-zA-Z0-9_-]+$/, <= 64 chars.'')
         else
           (case map_of (ns_provenance acc) exposed of
              Some (slot, original) \<Rightarrow>
                Inl (''Tool name collision: '' @ quoted exposed @ '' is produced by both slot '' @ digits slot @ '' tool ''
                     @ quoted original @ '' and slot '' @ digits (ni_slot pc) @ '' tool '' @ quoted (tl_name t)
                     @ ''. Set distinct mcp[].name labels.'')
            | None \<Rightarrow>
                Inr \<lparr>ns_tools = ns_tools acc @ [t\<lparr>tl_name := exposed\<rparr>],
                     ns_clients = AList.update exposed (if exposed = tl_name t then ni_client pc
                                                        else bindToolCallName (ni_client pc) (tl_name t)) (ns_clients acc),
                     ns_provenance = AList.update exposed (ni_slot pc, tl_name t) (ns_provenance acc)\<rparr>))"

fun add_all ::
    "(namespace_context \<Rightarrow> string) \<Rightarrow> (string \<Rightarrow> nat) \<Rightarrow> (namespace_client \<times> tool) list \<Rightarrow> namespaced \<Rightarrow> string + namespaced" where
  "add_all ns counts [] acc = Inr acc"
| "add_all ns counts ((pc, t) # rest) acc =
     (case add_namespaced ns counts pc t acc of Inl e \<Rightarrow> Inl e | Inr acc1 \<Rightarrow> add_all ns counts rest acc1)"

definition buildNamespacedTools :: "namespace_client list \<Rightarrow> (namespace_context \<Rightarrow> string) \<Rightarrow> string + namespaced" where
  "buildNamespacedTools perClient ns =
     (case duplicate_slot [] perClient of
        Some s \<Rightarrow> Inl (''buildNamespacedTools: duplicate slotIndex '' @ digits s @ '' in input'')
      | None \<Rightarrow>
          add_all ns (tool_counts perClient) (concat (map (\<lambda>pc. map (Pair pc) (ni_tools pc)) perClient))
            \<lparr>ns_tools = [], ns_clients = [], ns_provenance = []\<rparr>)"

subsection \<open>Record keys\<close>

definition defaultToolRecordKey :: "string \<Rightarrow> nat \<Rightarrow> nat \<Rightarrow> string" where
  "defaultToolRecordKey toolName clientIndex clientCount =
     (if clientCount \<le> 1 then ''tool:'' @ toolName else ''tool:'' @ digits clientIndex @ '':'' @ toolName)"

definition line_end :: "char \<Rightarrow> bool" where
  "line_end c \<longleftrightarrow> c = CHR 10 \<or> c = CHR 13"

text \<open>\<open>/^\d+:(.*)$/\<close>; the dot matches no line terminator.\<close>

definition indexed_name :: "string \<Rightarrow> string option" where
  "indexed_name rest =
     (let ds = takeWhile is_digit rest; r = dropWhile is_digit rest in
      if ds \<noteq> [] \<and> r \<noteq> [] \<and> hd r = CHR '':'' \<and> \<not> list_ex line_end (tl r) then Some (tl r) else None)"

text \<open>\<open>rest.replace(/:.*$/, '')\<close>\<close>

fun cut_suffix :: "string \<Rightarrow> string" where
  "cut_suffix [] = []"
| "cut_suffix (c # r) = (if c = CHR '':'' \<and> \<not> list_ex line_end r then [] else c # cut_suffix r)"

definition toolNameFromRecord :: "string option \<Rightarrow> string option \<Rightarrow> string option" where
  "toolNameFromRecord rid name =
     (case rid of
        None \<Rightarrow> None
      | Some i \<Rightarrow>
          if \<not> prefix ''tool:'' i then None
          else if truthy name then name
          else (let rest = drop 5 i in
            case indexed_name rest of Some n \<Rightarrow> Some n | None \<Rightarrow> Some (cut_suffix rest)))"

subsection \<open>Lemmas\<close>

lemma mergeOfferedTools_distinct:
  assumes "mergeOfferedTools internal external = Inr ts" "distinct (map tl_name internal)" "distinct (map tl_name external)"
  shows "distinct (map tl_name ts)" "set ts = set internal \<union> set external"
  using assms by (auto simp: mergeOfferedTools_def find_None_iff image_iff split: option.splits) metis

text \<open>What a namespaced table promises for the entries it was built from.\<close>

definition routed :: "namespaced \<Rightarrow> (namespace_client \<times> tool) list \<Rightarrow> bool" where
  "routed acc xs \<longleftrightarrow>
     length (ns_tools acc) = length xs \<and> distinct (map tl_name (ns_tools acc))
     \<and> set (map tl_name (ns_tools acc)) = dom (map_of (ns_clients acc))
     \<and> dom (map_of (ns_provenance acc)) = dom (map_of (ns_clients acc))
     \<and> (\<forall>i < length xs. \<exists>c.
          map_of (ns_clients acc) (tl_name (ns_tools acc ! i)) = Some c
          \<and> cl_id c = cl_id (ni_client (fst (xs ! i)))
          \<and> (cl_calls (ni_client (fst (xs ! i))) = None
             \<longrightarrow> called_name c (tl_name (ns_tools acc ! i)) = tl_name (snd (xs ! i)))
          \<and> valid_tool_name (tl_name (ns_tools acc ! i))
          \<and> map_of (ns_provenance acc) (tl_name (ns_tools acc ! i)) = Some (ni_slot (fst (xs ! i)), tl_name (snd (xs ! i))))"

lemma add_namespaced_routed:
  assumes "add_namespaced ns counts pc t acc = Inr acc'" "routed acc xs"
  shows "routed acc' (xs @ [(pc, t)])"
proof -
  let ?e = "ns \<lparr>nc_toolName = tl_name t, nc_prefix = nullish (ni_label pc) (CHR ''s'' # digits (ni_slot pc)),
    nc_colliding = counts (tl_name t) > 1\<rparr>"
  from assms(1) have fresh: "map_of (ns_provenance acc) ?e = None" and valid: "valid_tool_name ?e"
    and acc': "acc' = \<lparr>ns_tools = ns_tools acc @ [t\<lparr>tl_name := ?e\<rparr>],
        ns_clients = AList.update ?e (if ?e = tl_name t then ni_client pc else bindToolCallName (ni_client pc) (tl_name t)) (ns_clients acc),
        ns_provenance = AList.update ?e (ni_slot pc, tl_name t) (ns_provenance acc)\<rparr>"
    by (auto simp: add_namespaced_def Let_def split: if_splits option.splits prod.splits)
  have r: "length (ns_tools acc) = length xs" "distinct (map tl_name (ns_tools acc))"
      "set (map tl_name (ns_tools acc)) = dom (map_of (ns_clients acc))"
      "dom (map_of (ns_provenance acc)) = dom (map_of (ns_clients acc))"
    using assms(2) by (simp_all add: routed_def)
  have new: "?e \<notin> set (map tl_name (ns_tools acc))" using fresh r(3,4) by (metis domIff)
  have old: "tl_name (ns_tools acc ! i) \<noteq> ?e" if "i < length xs" for i
    using new r(1) that by (metis length_map nth_map nth_mem)
  show ?thesis
    unfolding routed_def
  proof (intro conjI allI impI)
    fix i assume i: "i < length (xs @ [(pc, t)])"
    show "\<exists>c. map_of (ns_clients acc') (tl_name (ns_tools acc' ! i)) = Some c
          \<and> cl_id c = cl_id (ni_client (fst ((xs @ [(pc, t)]) ! i)))
          \<and> (cl_calls (ni_client (fst ((xs @ [(pc, t)]) ! i))) = None
             \<longrightarrow> called_name c (tl_name (ns_tools acc' ! i)) = tl_name (snd ((xs @ [(pc, t)]) ! i)))
          \<and> valid_tool_name (tl_name (ns_tools acc' ! i))
          \<and> map_of (ns_provenance acc') (tl_name (ns_tools acc' ! i))
             = Some (ni_slot (fst ((xs @ [(pc, t)]) ! i)), tl_name (snd ((xs @ [(pc, t)]) ! i)))"
    proof (cases "i < length xs")
      case True
      then show ?thesis
        using assms(2) old [OF True] r(1) by (auto simp: acc' nth_append routed_def)
    next
      case False
      with i have "i = length xs" by simp
      then show ?thesis
        using valid by (auto simp: acc' nth_append r(1) bindToolCallName_def called_name_def)
    qed
  qed (use r new in \<open>simp_all add: acc' update_conv'\<close>)
qed

lemma add_all_routed:
  "add_all ns counts rest acc = Inr acc' \<Longrightarrow> routed acc xs \<Longrightarrow> routed acc' (xs @ rest)"
proof (induction ns counts rest acc arbitrary: xs rule: add_all.induct)
  case (2 ns counts pc t rest acc)
  from "2.prems"(1) obtain acc1 where a: "add_namespaced ns counts pc t acc = Inr acc1" "add_all ns counts rest acc1 = Inr acc'"
    by (auto split: sum.splits)
  show ?case using "2.IH" [OF a(1) a(2) add_namespaced_routed [OF a(1) "2.prems"(2)]] by simp
qed simp

text \<open>Every exposed tool is routed to the client it came from, under the name that client knows it by; exposed names
  are unique and valid.\<close>

lemma buildNamespacedTools_routed:
  assumes "buildNamespacedTools perClient ns = Inr acc"
  shows "routed acc (concat (map (\<lambda>pc. map (Pair pc) (ni_tools pc)) perClient))"
proof -
  have "routed \<lparr>ns_tools = [], ns_clients = [], ns_provenance = []\<rparr> []" by (simp add: routed_def)
  with assms show ?thesis
    by (auto simp: buildNamespacedTools_def split: option.splits dest: add_all_routed)
qed

end
