(* ===== verification/DialogueContext.thy ===== *)
theory DialogueContext
  imports StructuredPlan ToolTypes Complex_Main
begin

text \<open>
  What the planner of a dialogue is shown: \<open>coordinator/dialogue/planner-context-builder.ts\<close> over the request records of
  \<open>interfaces/dialogue.ts\<close>.  A request keeps a bounded transcript; the builder projects it, together with retrieved
  memory and knowledge, to the messages of a model call.  Contents are strings (the session stores no null content);
  trust values are given as they are printed.
\<close>

subsection \<open>Requests\<close>

datatype internal_kind = KActions | KEvents | KNote

record planner_msg =
  dm_role :: role
  dm_content :: string
  dm_reference :: "string option"            \<comment> \<open>\<open>plannerReference\<close>\<close>
  dm_kind :: "internal_kind option"

record plan_summary =
  sm_status :: pstatus
  sm_steps :: nat
  sm_done :: nat
  sm_failed :: nat
  sm_skipped :: nat

record request_rec =
  rq_id :: string
  rq_openedAt :: rat
  rq_closedAt :: "rat option"
  rq_text :: string
  rq_plan :: "plan_summary option"
  rq_lastTurnOk :: "bool option"
  rq_resolved :: "string list"
  rq_delivered :: "string list"
  rq_transcript :: "planner_msg list"
  rq_legacy :: bool

definition plain_msg :: "role \<Rightarrow> string \<Rightarrow> planner_msg" where
  "plain_msg r s = \<lparr>dm_role = r, dm_content = s, dm_reference = None, dm_kind = None\<rparr>"

definition internal_msg :: "internal_kind \<Rightarrow> string \<Rightarrow> planner_msg" where
  "internal_msg k s = \<lparr>dm_role = RUser, dm_content = s, dm_reference = None, dm_kind = Some k\<rparr>"

subsection \<open>The bounded transcript\<close>

definition textSize :: "planner_msg list \<Rightarrow> nat" where
  "textSize ms = sum_list (map (length \<circ> dm_content) ms)"

definition dropped_note :: "nat \<Rightarrow> string" where
  "dropped_note n = ''[dropped '' @ nat_str n @ '' earlier messages]''"

text \<open>\<open>/^\[dropped (\d+) earlier messages\]$/\<close>\<close>

definition dropped_count :: "string \<Rightarrow> nat option" where
  "dropped_count s =
     (let r = drop 9 s; ds = takeWhile is_digit r in
      if prefix ''[dropped '' s \<and> ds \<noteq> [] \<and> drop (length ds) r = '' earlier messages]'' then Some (undigits ds) else None)"

definition transcript_full :: "nat \<Rightarrow> planner_msg list \<Rightarrow> bool" where
  "transcript_full dropped ms \<longleftrightarrow>
     length ms + (if dropped > 0 then 1 else 0) > 400
     \<or> textSize ms + (if dropped > 0 then length (dropped_note dropped) else 0) > 400000"

text \<open>The loop: the second message goes until the rest fits.\<close>

function drop_middle :: "nat \<Rightarrow> planner_msg list \<Rightarrow> nat \<times> planner_msg list" where
  "drop_middle dropped ms =
     (case ms of
        first # _ # m3 # rest \<Rightarrow>
          if transcript_full dropped ms then drop_middle (dropped + 1) (first # m3 # rest) else (dropped, ms)
      | _ \<Rightarrow> (dropped, ms))"
  by pat_completeness auto
termination by (relation "measure (length \<circ> snd)") auto

declare drop_middle.simps [simp del]

definition earlier_dropped :: "planner_msg list \<Rightarrow> nat option" where
  "earlier_dropped ms =
     (case ms of _ # p # _ \<Rightarrow> if dm_kind p = Some KNote then dropped_count (dm_content p) else None | _ \<Rightarrow> None)"

definition bound_messages :: "planner_msg list \<Rightarrow> planner_msg list" where
  "bound_messages ms =
     (case (case earlier_dropped ms of
              None \<Rightarrow> drop_middle 0 ms
            | Some n \<Rightarrow> drop_middle n (take 1 ms @ drop 2 ms)) of
        (n, rest) \<Rightarrow> if n > 0 then take 1 rest @ internal_msg KNote (dropped_note n) # drop 1 rest else rest)"

definition boundRequestTranscript :: "request_rec \<Rightarrow> request_rec" where
  "boundRequestTranscript r = r\<lparr>rq_transcript := bound_messages (rq_transcript r)\<rparr>"

definition stored_cut :: "string \<Rightarrow> string" where
  "stored_cut s =
     (if length s > 150000
      then take 150000 s @ ''[stored cut: 150000 of '' @ nat_str (length s) @ '' characters]'' else s)"

definition appendRequestMessage :: "planner_msg \<Rightarrow> request_rec \<Rightarrow> request_rec" where
  "appendRequestMessage m r =
     boundRequestTranscript (r\<lparr>rq_transcript := rq_transcript r @ [m\<lparr>dm_content := stored_cut (dm_content m)\<rparr>]\<rparr>)"

subsection \<open>Retrieved blocks\<close>

record memory_entry =
  me_kind :: string
  me_request :: string
  me_source_id :: string
  me_offset :: nat
  me_text :: string
  me_trust :: "string option"
  me_source :: "string option"

record knowledge_entry =
  ke_collection :: string
  ke_id :: string
  ke_text :: string
  ke_trust :: "string option"
  ke_source :: "string option"

definition escapePlannerData :: "string \<Rightarrow> string" where
  "escapePlannerData = escapeTrustName"

fun fill_body :: "int \<Rightarrow> string \<Rightarrow> string list \<Rightarrow> string" where
  "fill_body room body [] = body"
| "fill_body room body (e # es) =
     (let available = room - int (length body) - (if body \<noteq> [] then 1 else 0);
          labelEnd = (case findIndex (\<lambda>c. c = CHR '')'') e of None \<Rightarrow> 0 | Some i \<Rightarrow> i + 1)
      in if available \<le> 0 \<or> available \<le> int labelEnd then body
         else fill_body room (body @ (if body \<noteq> [] then newline else []) @ take (nat available) e) es)"

definition renderBlock :: "string \<Rightarrow> string list \<Rightarrow> nat \<Rightarrow> string" where
  "renderBlock name entries budget =
     (if entries = [] then []
      else (let start = ''['' @ name @ '']'' @ newline;
                end = newline @ ''[/'' @ name @ '']'';
                body = fill_body (int budget - int (length start) - int (length end)) [] entries
            in if body \<noteq> [] then start @ body @ end else []))"

definition memory_line :: "memory_entry \<Rightarrow> string" where
  "memory_line e =
     ''('' @ escapePlannerData
         (case (me_trust e, me_source e) of
            (Some _, Some src) \<Rightarrow> src
          | _ \<Rightarrow> me_kind e @ '' '' @ me_source_id e @ '' '' @ me_request e @ '' offset '' @ nat_str (me_offset e))
       @ (case me_trust e of None \<Rightarrow> [] | Some t \<Rightarrow> ''; trust '' @ t) @ '') '' @ escapePlannerData (me_text e)"

definition knowledge_label :: "knowledge_entry \<Rightarrow> string" where
  "knowledge_label e =
     ''('' @ escapePlannerData
         (case (ke_trust e, ke_source e) of (Some _, Some src) \<Rightarrow> src | _ \<Rightarrow> ke_collection e @ ''/'' @ ke_id e)
       @ (case ke_trust e of None \<Rightarrow> [] | Some t \<Rightarrow> ''; trust '' @ t) @ '') ''"

text \<open>The entries of one collection within its share: how much is used, and the lines so far.\<close>

fun select_entries :: "nat \<Rightarrow> nat \<Rightarrow> string list \<Rightarrow> knowledge_entry list \<Rightarrow> nat \<times> string list" where
  "select_entries share used selected [] = (used, selected)"
| "select_entries share used selected (e # es) =
     (let label = knowledge_label e;
          sep = (if selected \<noteq> [] then 1 else 0);
          available = int share - int used - int sep
      in if available \<le> int (length label) then (used, selected)
         else (let line = label @ take (nat available - length label) (escapePlannerData (ke_text e))
               in select_entries share (used + length line + sep) (selected @ [line]) es))"

fun select_collections :: "knowledge_entry list \<Rightarrow> string list \<Rightarrow> nat \<Rightarrow> string list \<Rightarrow> string list" where
  "select_collections ks [] remaining selected = selected"
| "select_collections ks (c # cs) remaining selected =
     (case select_entries (remaining div (length cs + 1)) 0 selected (filter (\<lambda>e. ke_collection e = c) ks) of
        (used, selected1) \<Rightarrow> select_collections ks cs (remaining - used) selected1)"

definition collections_of :: "knowledge_entry list \<Rightarrow> string list" where
  "collections_of ks = rev (remdups (rev (map ke_collection ks)))"

definition renderPlannerRetrieval ::
    "nat option \<Rightarrow> nat option \<Rightarrow> memory_entry list \<Rightarrow> knowledge_entry list \<Rightarrow> string list" where
  "renderPlannerRetrieval memoryBudget knowledgeBudget mem ks =
     (let budget = nullish knowledgeBudget 12000;
          overhead = length (''[planning knowledge]'' @ newline @ newline @ ''[/planning knowledge]'');
          selected = select_collections ks (collections_of ks) (budget - overhead) []
      in filter (\<lambda>b. b \<noteq> [])
           [renderBlock ''planning knowledge'' selected budget,
            renderBlock ''session memory'' (map memory_line mem) (nullish memoryBudget 12000)])"

subsection \<open>The projection of a transcript\<close>

fun split_lines :: "string \<Rightarrow> string list" where
  "split_lines [] = [[]]"
| "split_lines (c # r) =
     (if c = CHR 10 then [] # split_lines r
      else (case split_lines r of [] \<Rightarrow> [[c]] | l # ls \<Rightarrow> (c # l) # ls))"

text \<open>\<open>/\bw\b/\<close> from a place whose previous character is a word character or not.\<close>

fun word_in :: "string \<Rightarrow> bool \<Rightarrow> string \<Rightarrow> bool" where
  "word_in w inside [] = False"
| "word_in w inside (c # r) =
     ((\<not> inside \<and> prefix w (c # r) \<and> \<not> list_ex word_char (take 1 (drop (length w) (c # r)))) \<or> word_in w (word_char c) r)"

definition failure_word :: "bool \<Rightarrow> string \<Rightarrow> bool" where
  "failure_word inside s = list_ex (\<lambda>w. word_in w inside s) [''failed'', ''error'', ''interrupted'']"

text \<open>\<open>.*?\btask (\S+)\<close>\<close>

fun task_mention :: "bool \<Rightarrow> string \<Rightarrow> string option" where
  "task_mention inside [] = None"
| "task_mention inside (c # r) =
     (let i = takeWhile (\<lambda>x. \<not> is_space x) (drop 5 (c # r)) in
      if \<not> inside \<and> prefix ''task '' (c # r) \<and> i \<noteq> [] then Some i
      else if line_end c then None
      else task_mention (word_char c) r)"

definition event_task :: "string \<Rightarrow> string option" where
  "event_task line = (if prefix ''[task events]'' line then task_mention False (drop 13 line) else None)"

text \<open>\<open>/^\[actions\] task \S+.*\b(failed|error|interrupted)\b/\<close>\<close>

definition failed_action :: "string \<Rightarrow> bool" where
  "failed_action line =
     (prefix ''[actions] task '' line
      \<and> (case drop 15 line of
           [] \<Rightarrow> False
         | c # t \<Rightarrow> \<not> is_space c \<and> failure_word (word_char c) (takeWhile (\<lambda>x. \<not> line_end x) t)))"

definition latest_event :: "planner_msg list \<Rightarrow> string \<Rightarrow> nat option" where
  "latest_event ms i =
     find (\<lambda>k. dm_kind (ms ! k) \<noteq> None \<and> Some i \<in> set (map event_task (split_lines (dm_content (ms ! k)))))
       (rev [0..<length ms])"

definition keeps_line :: "planner_msg list \<Rightarrow> nat \<Rightarrow> string \<Rightarrow> bool" where
  "keeps_line ms k line =
     (if prefix ''[actions]'' line \<and> k + 2 < length ms \<and> \<not> failed_action line then False
      else (case event_task line of
              None \<Rightarrow> True
            | Some i \<Rightarrow> latest_event ms i = Some k \<or> failure_word False line))"

definition shown_line :: "planner_msg list \<Rightarrow> nat \<Rightarrow> string \<Rightarrow> string" where
  "shown_line ms k line =
     (if length ms \<le> k + 2 \<or> \<not> prefix ''[task events]'' line then line else ''[task state]'' @ drop 13 line)"

definition project_part :: "planner_msg list \<Rightarrow> nat \<times> planner_msg \<Rightarrow> planner_msg" where
  "project_part ms p =
     (case p of (k, m) \<Rightarrow>
        (let original = nullish (dm_reference m) (dm_content m)
         in plain_msg (dm_role m)
              (if dm_role m = RAssistant \<or> dm_kind m = None then original
               else join newline (map (shown_line ms k) (filter (keeps_line ms k) (split_lines original))))))"

text \<open>Neighbours of one role become one message.\<close>

fun merge_roles :: "planner_msg list \<Rightarrow> planner_msg list \<Rightarrow> planner_msg list" where
  "merge_roles acc [] = acc"
| "merge_roles acc (m # ms) =
     (if acc \<noteq> [] \<and> dm_role (last acc) = dm_role m
      then merge_roles (butlast acc @ [(last acc)\<lparr>dm_content := dm_content (last acc) @ newline @ dm_content m\<rparr>]) ms
      else merge_roles (acc @ [m]) ms)"

definition put_before :: "string \<Rightarrow> planner_msg \<Rightarrow> planner_msg" where
  "put_before s m = m\<lparr>dm_content := s @ newline @ dm_content m\<rparr>"

definition map_last :: "('a \<Rightarrow> 'a) \<Rightarrow> 'a list \<Rightarrow> 'a list" where
  "map_last f xs = (if xs = [] then [] else butlast xs @ [f (last xs)])"

fun map_head :: "('a \<Rightarrow> 'a) \<Rightarrow> 'a list \<Rightarrow> 'a list" where
  "map_head f [] = []"
| "map_head f (x # xs) = f x # xs"

definition storage_elided :: "planner_msg list \<Rightarrow> bool" where
  "storage_elided ms = list_ex (\<lambda>m. list_ex (\<lambda>w. sublist w (dm_content m)) [''[stored cut: '', ''[dropped '']) ms"

record context_input =
  ci_memoryBudget :: "nat option"
  ci_knowledgeBudget :: "nat option"
  ci_open :: "request_rec option"
  ci_memory :: "memory_entry list"
  ci_knowledge :: "knowledge_entry list"
  ci_notes :: "string list"

definition build_context :: "context_input \<Rightarrow> planner_msg list" where
  "build_context input =
     (case ci_open input of
        None \<Rightarrow> []
      | Some rec \<Rightarrow>
          (let ms = rq_transcript rec;
               selected = filter (\<lambda>m. dm_content m \<noteq> []) (map (project_part ms) (enumerate 0 ms))
           in if selected = [] then []
              else
                (let merged = merge_roles [] selected;
                     noted = (if ci_notes input = [] then merged
                              else map_last (put_before (join newline (ci_notes input))) merged);
                     mem = filter (\<lambda>e. me_request e \<noteq> rq_id rec \<or> storage_elided ms) (ci_memory input);
                     blocks = renderPlannerRetrieval (ci_memoryBudget input) (ci_knowledgeBudget input) mem (ci_knowledge input)
                 in if blocks = [] then noted else map_head (put_before (join newline blocks)) noted)))"

end
