(* ===== verification/DialogueState.thy ===== *)
theory DialogueState
  imports DialogueContext PlanFlow
begin

text \<open>
  The state of a dialogue session (\<open>coordinator/dialogue/dialogue-session.ts\<close>): its requests, conversation, plan, events and
  queued inputs, and the operations on them that run between two waits.

  The plan, the board and the delegations in flight are the flow of \<open>PlanFlow\<close>; the board is its parameter \<open>'b\<close>.
  Records that the code shares by reference are named by their ids.  Promises of \<open>send\<close> are numbered; \<open>ss_answers\<close> is
  what they were settled with.  The \<open>finally\<close> and \<open>await\<close> points are separate operations.  Signals, usage records and
  the memory writer are left out.
\<close>

subsection \<open>Data\<close>

record task_times =
  tt_created :: rat
  tt_started :: "rat option"
  tt_activity :: "rat option"
  tt_action :: "string option"

record task_event =
  te_kind :: event_kind
  te_task :: task_rec
  te_stalled :: bool
  te_times :: task_times

record conv_msg =
  co_role :: role
  co_content :: string
  co_leading :: bool                        \<comment> \<open>in \<open>leadingActions\<close>\<close>

record reply_msg =
  rm_text :: string
  rm_createdAt :: rat
  rm_user :: bool

record user_turn =
  ut_id :: nat
  ut_text :: string

record call_state =
  ca_request :: string                      \<comment> \<open>the request of the scope\<close>
  ca_restarting :: bool
  ca_delivered :: bool
  ca_toolCount :: nat
  ca_reserved :: bool
  ca_roundCount :: nat
  ca_restartDelivered :: bool
  ca_chunks :: "string list"                \<comment> \<open>\<open>contentPartials\<close>\<close>
  ca_lastText :: string
  ca_lastChunks :: "string list"
  ca_final :: bool                          \<comment> \<open>\<open>finalIteration\<close>\<close>

datatype turn_phase = Retrieving | Ready | InCall call_state | Saving "string + reply_msg"

record turn =
  tu_user :: "user_turn option"
  tu_text :: string
  tu_consumed :: "task_event list"
  tu_request :: string
  tu_entryOk :: "bool option"
  tu_waitingAtEntry :: bool
  tu_memory :: "memory_entry list"
  tu_knowledge :: "knowledge_entry list"
  tu_deliveries :: "string list"
  tu_references :: "string list"
  tu_pendingIds :: "string list"
  tu_actions :: "string list"
  tu_started :: bool
  tu_waitStop :: bool
  tu_lastRead :: "nat option"
  tu_partial :: string
  tu_callIndex :: nat
  tu_didRestart :: bool
  tu_correction :: nat
  tu_phase :: turn_phase

record 'b sess_env =
  sv_planner :: "'b planner_env"
  sv_platform :: verdict_platform
  sv_times :: "'b \<Rightarrow> string \<Rightarrow> task_times"
  sv_prepared :: bool
  sv_maxCorrections :: nat
  sv_waitTickMs :: rat
  sv_longTaskMs :: rat
  sv_timeLine :: "rat \<Rightarrow> string"
  sv_budgetNotes :: "'b \<Rightarrow> string list"
  sv_memoryBudget :: "nat option"
  sv_knowledgeBudget :: "nat option"
  sv_stopAll :: "'b \<Rightarrow> 'b"
  sv_restore :: "task_rec list \<Rightarrow> 'b \<Rightarrow> 'b \<times> string list"

record 'b sess =
  ss_flow :: "'b flow"
  ss_requests :: "request_rec list"
  ss_seq :: nat
  ss_conversation :: "conv_msg list"
  ss_owners :: "string \<Rightarrow> string option"    \<comment> \<open>\<open>taskRequests\<close>\<close>
  ss_pending :: "reply_msg list"
  ss_users :: "user_turn list"
  ss_events :: "task_event list"
  ss_deferred :: "task_event list"
  ss_restart :: "string option"
  ss_closing :: bool
  ss_external :: bool
  ss_tool :: "string option option"          \<comment> \<open>a tool call is active; the request it was opened in\<close>
  ss_version :: nat
  ss_nextTick :: "rat option"
  ss_notified :: "string \<Rightarrow> rat option"     \<comment> \<open>\<open>longNotifiedAt\<close>\<close>
  ss_turn :: "turn option"
  ss_sent :: nat
  ss_answers :: "(nat \<times> (string + reply_msg)) list"
  ss_heard :: "task_event list"             \<comment> \<open>the events turns have taken up\<close>
  ss_shown :: "string list"
  ss_requested :: "planner_msg list list"   \<comment> \<open>what the planner was sent\<close>
  ss_savedAt :: rat
  ss_unsaved :: nat

abbreviation ss_scope :: "'b sess \<Rightarrow> 'b scope" where
  "ss_scope st \<equiv> fl_scope (ss_flow st)"

abbreviation ss_plan :: "'b sess \<Rightarrow> dplan option" where
  "ss_plan st \<equiv> sc_plan (ss_scope st)"

abbreviation ss_board :: "'b sess \<Rightarrow> 'b" where
  "ss_board st \<equiv> sc_board (ss_scope st)"

abbreviation sv_get :: "'b sess_env \<Rightarrow> 'b sess \<Rightarrow> string \<Rightarrow> task_rec option" where
  "sv_get env st \<equiv> pe_get (sv_planner env) (ss_board st)"

abbreviation sv_list :: "'b sess_env \<Rightarrow> 'b sess \<Rightarrow> task_rec list" where
  "sv_list env st \<equiv> pe_list (sv_planner env) (ss_board st)"

definition upd_scope :: "('b scope \<Rightarrow> 'b scope) \<Rightarrow> 'b sess \<Rightarrow> 'b sess" where
  "upd_scope f st = st\<lparr>ss_flow := (ss_flow st)\<lparr>fl_scope := f (ss_scope st)\<rparr>\<rparr>"

definition unsettled :: "task_rec \<Rightarrow> bool" where
  "unsettled t \<longleftrightarrow> tk_state t = TQueued \<or> tk_state t = TRunning"

subsection \<open>Requests\<close>

definition openRequest :: "'b sess \<Rightarrow> request_rec option" where
  "openRequest st = find (\<lambda>r. rq_closedAt r = None) (ss_requests st)"

definition upd_request :: "string \<Rightarrow> (request_rec \<Rightarrow> request_rec) \<Rightarrow> 'b sess \<Rightarrow> 'b sess" where
  "upd_request i f st = st\<lparr>ss_requests := map (\<lambda>r. if rq_id r = i then f r else r) (ss_requests st)\<rparr>"

definition summary_of :: "dplan \<Rightarrow> plan_summary" where
  "summary_of p =
     (let n = (\<lambda>x. length (filter (\<lambda>s. ps_state s = x) (pl_steps p)))
      in \<lparr>sm_status = pl_status p, sm_steps = length (pl_steps p), sm_done = n SDone, sm_failed = n SFailed, sm_skipped = n SSkipped\<rparr>)"

definition updateRequestPlan :: "'b sess \<Rightarrow> 'b sess" where
  "updateRequestPlan st =
     (case openRequest st of
        None \<Rightarrow> st
      | Some r \<Rightarrow> upd_request (rq_id r) (\<lambda>r. r\<lparr>rq_plan := map_option summary_of (ss_plan st)\<rparr>) st)"

text \<open>\<open>changed()\<close> without its signals and timer.\<close>

definition changed :: "'b sess \<Rightarrow> 'b sess" where
  "changed st = updateRequestPlan st"

definition owned_failure :: "'b sess \<Rightarrow> request_rec \<Rightarrow> task_rec \<Rightarrow> bool" where
  "owned_failure st r t \<longleftrightarrow>
     ss_owners st (tk_id t) = Some (rq_id r)
     \<and> (tk_state t = TFailed \<or> tk_state t = TInterrupted \<or> tk_error t \<noteq> None)"

definition settled_by_step :: "'b sess_env \<Rightarrow> 'b sess \<Rightarrow> task_rec \<Rightarrow> bool" where
  "settled_by_step env st t \<longleftrightarrow>
     (case Option.bind (sc_taskSteps (ss_scope st) (tk_id t)) (\<lambda>i. Option.bind (ss_plan st) (\<lambda>p. find_step p i)) of
        None \<Rightarrow> False
      | Some s \<Rightarrow> ps_state s = SDone \<or> ps_state s = SSkipped
          \<or> (currentAttemptIds s \<noteq> []
             \<and> list_all (\<lambda>i. map_option tk_state (sv_get env st i) = Some TDone) (currentAttemptIds s)))"

definition unresolvedFailures :: "'b sess_env \<Rightarrow> 'b sess \<Rightarrow> request_rec \<Rightarrow> string list" where
  "unresolvedFailures env st r =
     map tk_id (filter (\<lambda>t. owned_failure st r t \<and> tk_id t \<notin> set (rq_resolved r) \<and> \<not> settled_by_step env st t)
       (sv_list env st))"

text \<open>\<open>[...new Set([...xs, ...ys])]\<close>\<close>

definition join_new :: "string list \<Rightarrow> string list \<Rightarrow> string list" where
  "join_new xs ys = rev (remdups (rev (xs @ ys)))"

definition resolveFailures :: "'b sess_env \<Rightarrow> string \<Rightarrow> 'b sess \<Rightarrow> 'b sess" where
  "resolveFailures env i st =
     upd_request i (\<lambda>r. r\<lparr>rq_resolved := join_new (rq_resolved r) (unresolvedFailures env st r)\<rparr>) st"

definition close_request :: "rat \<Rightarrow> request_rec \<Rightarrow> request_rec" where
  "close_request now r = r\<lparr>rq_closedAt := Some now, rq_transcript := []\<rparr>"

text \<open>\<open>retainRequests\<close>: closed requests beyond 200 go, the oldest first.\<close>

definition remove_closed :: "request_rec list \<Rightarrow> request_rec list" where
  "remove_closed rs =
     (case findIndex (\<lambda>r. rq_closedAt r \<noteq> None) rs of None \<Rightarrow> rs | Some i \<Rightarrow> take i rs @ drop (i + 1) rs)"

definition retained :: "request_rec list \<Rightarrow> request_rec list" where
  "retained rs =
     (let cut = map (\<lambda>r. (if rq_closedAt r \<noteq> None then r\<lparr>rq_transcript := []\<rparr> else r)\<lparr>rq_text := take 20000 (rq_text r)\<rparr>) rs
      in (remove_closed ^^ (length cut - 200)) cut)"

definition retainRequests :: "'b sess \<Rightarrow> 'b sess" where
  "retainRequests st = st\<lparr>ss_requests := retained (ss_requests st)\<rparr>"

definition set_no_plan :: "'b sess \<Rightarrow> 'b sess" where
  "set_no_plan st = upd_scope (\<lambda>sc. sc\<lparr>sc_plan := None, sc_gen := sc_gen sc + 1\<rparr>) st"

definition closes_automatically :: "'b sess_env \<Rightarrow> bool \<Rightarrow> 'b sess \<Rightarrow> request_rec \<Rightarrow> bool" where
  "closes_automatically env user st r \<longleftrightarrow>
     user
     \<and> (case ss_plan st of
          None \<Rightarrow> True
        | Some p \<Rightarrow> pl_status p \<noteq> PWaiting \<and> ((pl_steps p = [] \<and> \<not> truthy (pl_note p)) \<or> pl_status p = PDone))
     \<and> rq_lastTurnOk r = Some True \<and> unresolvedFailures env st r = [] \<and> ss_events st = []
     \<and> \<not> list_ex unsettled (sv_list env st)"

definition new_request_rec :: "rat \<Rightarrow> string \<Rightarrow> nat \<Rightarrow> request_rec" where
  "new_request_rec now text n =
     \<lparr>rq_id = ''r'' @ nat_str n, rq_openedAt = now, rq_closedAt = None, rq_text = take 20000 text, rq_plan = None,
      rq_lastTurnOk = None, rq_resolved = [], rq_delivered = [], rq_transcript = [], rq_legacy = False\<rparr>"

definition close_automatic :: "'b sess_env \<Rightarrow> bool \<Rightarrow> rat \<Rightarrow> 'b sess \<Rightarrow> 'b sess" where
  "close_automatic env user now st =
     (case openRequest st of
        None \<Rightarrow> st
      | Some r \<Rightarrow>
          if closes_automatically env user st r
          then (let st1 = upd_request (rq_id r) (close_request now) (updateRequestPlan st)
                in if sv_prepared env then set_no_plan st1 else st1)
          else st)"

definition open_request :: "rat \<Rightarrow> string \<Rightarrow> 'b sess \<Rightarrow> 'b sess" where
  "open_request now text st =
     (if openRequest st = None
      then st\<lparr>ss_seq := ss_seq st + 1, ss_requests := ss_requests st @ [new_request_rec now text (ss_seq st + 1)]\<rparr>
      else st)"

text \<open>\<open>beginRequest\<close>; the record it returns is the open request afterwards.\<close>

definition beginRequest :: "'b sess_env \<Rightarrow> string \<Rightarrow> bool \<Rightarrow> rat \<Rightarrow> 'b sess \<Rightarrow> 'b sess" where
  "beginRequest env text user now st = retainRequests (open_request now text (close_automatic env user now st))"

definition open_id :: "'b sess \<Rightarrow> string" where
  "open_id st = (case openRequest st of None \<Rightarrow> [] | Some r \<Rightarrow> rq_id r)"

subsection \<open>The conversation\<close>

fun drop_pairs :: "conv_msg list \<Rightarrow> conv_msg list" where
  "drop_pairs (a # b # ms) = (if length ms + 2 > 200 then drop_pairs ms else a # b # ms)"
| "drop_pairs ms = ms"

definition trim_conversation :: "conv_msg list \<Rightarrow> conv_msg list" where
  "trim_conversation ms =
     (let ms1 = drop_pairs ms;
          ms2 = (case ms1 of m # r \<Rightarrow> if co_role m = RAssistant then r else ms1 | [] \<Rightarrow> [])
      in case ms2 of
           [] \<Rightarrow> []
         | m # r \<Rightarrow>
             if co_leading m then
               (case findIndex (\<lambda>c. c = CHR 10) (co_content m) of
                  None \<Rightarrow> r
                | Some i \<Rightarrow> m\<lparr>co_content := drop (i + 1) (co_content m), co_leading := False\<rparr> # r)
             else ms2)"

definition trim_session :: "'b sess \<Rightarrow> 'b sess" where
  "trim_session st = st\<lparr>ss_conversation := trim_conversation (ss_conversation st)\<rparr>"

definition user_msg :: "string \<Rightarrow> conv_msg" where
  "user_msg s = \<lparr>co_role = RUser, co_content = s, co_leading = False\<rparr>"

definition add_input :: "string \<Rightarrow> conv_msg list \<Rightarrow> conv_msg list" where
  "add_input text ms =
     (if ms \<noteq> [] \<and> co_role (last ms) = RUser
      then butlast ms @ [(last ms)\<lparr>co_content := co_content (last ms) @ newline @ text\<rparr>]
      else ms @ [user_msg text])"

definition appendInput :: "string \<Rightarrow> internal_kind option \<Rightarrow> 'b sess \<Rightarrow> 'b sess" where
  "appendInput text kind st =
     (let m = (plain_msg RUser text)\<lparr>dm_kind := kind\<rparr>;
          st1 = (case openRequest st of None \<Rightarrow> st | Some r \<Rightarrow> upd_request (rq_id r) (appendRequestMessage m) st)
      in trim_session (st1\<lparr>ss_conversation := add_input text (ss_conversation st1)\<rparr>))"

subsection \<open>Events\<close>

definition live_event :: "'b sess_env \<Rightarrow> 'b sess \<Rightarrow> task_event \<Rightarrow> bool" where
  "live_event env st ev \<longleftrightarrow>
     te_kind ev \<noteq> ELongRunning
     \<or> (map_option tk_state (sv_get env st (tk_id (te_task ev))) = Some TRunning
        \<and> (\<not> te_stalled ev
           \<or> tt_activity (sv_times env (ss_board st) (tk_id (te_task ev))) = tt_activity (te_times ev)))"

definition liveEvents :: "'b sess_env \<Rightarrow> 'b sess \<Rightarrow> task_event list \<Rightarrow> task_event list" where
  "liveEvents env st evs = filter (live_event env st) evs"

definition since_ms :: "rat \<Rightarrow> rat \<Rightarrow> rat" where
  "since_ms now t = max 0 (now - t)"

definition pad2 :: "string \<Rightarrow> string" where
  "pad2 s = (if length s < 2 then CHR ''0'' # s else s)"

definition long_note :: "rat \<Rightarrow> string \<Rightarrow> task_event \<Rightarrow> string" where
  "long_note now label ev =
     (let t = te_task ev;
          seconds = \<lfloor>since_ms now (nullish (tt_started (te_times ev)) (tt_created (te_times ev))) / 1000\<rfloor>;
          elapsed = int_str (seconds div 60) @ '':'' @ pad2 (int_str (seconds mod 60));
          calls = (case tk_toolCalls t of
                     None \<Rightarrow> []
                   | Some n \<Rightarrow> '' ('' @ nat_str n @ (case tk_maxToolCalls t of None \<Rightarrow> [] | Some m \<Rightarrow> ''/'' @ nat_str m) @ '' tool calls)'')
      in label @ '' '' @ tk_id t @ paren (tk_worker t) @ '' is still running after '' @ elapsed @ calls
           @ '': check it and decide: keep waiting, stop_task, or re-delegate'')"

definition stalled_note :: "rat \<Rightarrow> string \<Rightarrow> task_event \<Rightarrow> string" where
  "stalled_note now label ev =
     (let t = te_task ev; tm = te_times ev;
          seen = (case tt_activity tm of Some a \<Rightarrow> a | None \<Rightarrow> nullish (tt_started tm) (tt_created tm))
      in label @ '' - '' @ tk_id t @ '' '' @ tk_worker t @ '': no activity for '' @ int_str \<lfloor>since_ms now seen / 60000\<rfloor>
           @ ''m (last: '' @ nullish (tt_action tm) ''worker'' @ '')'')"

definition outcome_note :: "'b sess_env \<Rightarrow> 'b sess \<Rightarrow> string \<Rightarrow> task_event \<Rightarrow> string" where
  "outcome_note env st label ev =
     (let t = te_task ev;
          step = sc_taskSteps (ss_scope st) (tk_id t);
          removed = (case step of None \<Rightarrow> False
                     | Some i \<Rightarrow> (case ss_plan st of None \<Rightarrow> True | Some p \<Rightarrow> find_step p i = None))
      in (if label \<noteq> ''[task events]'' then label
          else if removed \<and> tk_state t \<noteq> TFailed \<and> tk_state t \<noteq> TInterrupted \<and> tk_error t = None then ''[actions]''
          else ''[task events]'')
         @ '' task '' @ tk_id t @ (case step of Some i \<Rightarrow> if i \<noteq> [] then '' for '' @ i else [] | None \<Rightarrow> [])
         @ paren (tk_worker t) @ '' '' @ event_name (te_kind ev) @ '': '' @ compactText (tk_goal t) 200
         @ '' '' @ [em_dash] @ '' '' @ taskNotice (sv_platform env) t)"

definition event_note :: "'b sess_env \<Rightarrow> rat \<Rightarrow> 'b sess \<Rightarrow> task_event \<Rightarrow> string" where
  "event_note env now st ev =
     (let owner = ss_owners st (tk_id (te_task ev));
          label = (if truthy owner \<and> owner \<noteq> map_option rq_id (openRequest st)
                   then ''[task events] from '' @ the owner @ '':'' else ''[task events]'')
      in if te_stalled ev then stalled_note now label ev
         else if te_kind ev = ELongRunning then long_note now label ev
         else outcome_note env st label ev)"

definition eventNotes :: "'b sess_env \<Rightarrow> rat \<Rightarrow> 'b sess \<Rightarrow> task_event list \<Rightarrow> string" where
  "eventNotes env now st evs = join newline (map (event_note env now st) evs)"

definition same_notice :: "task_event \<Rightarrow> task_event \<Rightarrow> bool" where
  "same_notice ev p \<longleftrightarrow> te_kind p = ELongRunning \<and> tk_id (te_task p) = tk_id (te_task ev) \<and> te_stalled p = te_stalled ev"

definition defer_event :: "task_event \<Rightarrow> task_event list \<Rightarrow> task_event list" where
  "defer_event ev evs =
     (case (if te_kind ev = ELongRunning then findIndex (same_notice ev) evs else None) of
        Some i \<Rightarrow> evs[i := ev]
      | None \<Rightarrow> evs @ [ev])"

definition persist :: "'b sess \<Rightarrow> 'b sess" where
  "persist st = (if ss_closing st then st else st\<lparr>ss_unsaved := ss_unsaved st + 1\<rparr>)"

definition enqueueEvent :: "task_event \<Rightarrow> 'b sess \<Rightarrow> 'b sess" where
  "enqueueEvent ev st =
     (if ss_external st then persist (changed (st\<lparr>ss_deferred := defer_event ev (ss_deferred st)\<rparr>))
      else changed (st\<lparr>ss_events := ss_events st @ [ev]\<rparr>))"

text \<open>\<open>onEvent\<close> of the board.\<close>

definition on_event :: "'b sess_env \<Rightarrow> task_event \<Rightarrow> 'b sess \<Rightarrow> 'b sess" where
  "on_event env ev st =
     (let t = te_task ev;
          owner = (case ss_owners st (tk_id t) of Some o1 \<Rightarrow> Some o1 | None \<Rightarrow> map_option rq_id (openRequest st));
          st1 = (if truthy owner then st\<lparr>ss_owners := (ss_owners st)(tk_id t := owner)\<rparr> else st);
          st2 = (if owner = map_option rq_id (openRequest st1)
                 then upd_scope (\<lambda>sc. sc\<lparr>sc_plan := map_option (applyTaskEvent (sv_platform env) (sc_taskSteps sc) t (te_kind ev))
                        (sc_plan sc)\<rparr>) st1
                 else st1);
          st3 = changed (upd_scope (\<lambda>sc. sc\<lparr>sc_plan := map_option recomputePlanStatus (sc_plan sc)\<rparr>) st2)
      in if ss_closing st3 \<or> te_kind ev = EStarted then st3
         else enqueueEvent ev (if te_kind ev = ELongRunning then st3 else st3\<lparr>ss_version := ss_version st3 + 1\<rparr>))"

subsection \<open>The wait clock\<close>

definition wait_base :: "'b sess_env \<Rightarrow> 'b sess \<Rightarrow> task_rec \<Rightarrow> rat" where
  "wait_base env st t =
     (let tm = sv_times env (ss_board st) (tk_id t)
      in case ss_notified st (tk_id t) of Some x \<Rightarrow> x | None \<Rightarrow> nullish (tt_started tm) (tt_created tm))"

text \<open>\<open>updateWaitClock\<close>: the delay of the timer, if one is set.\<close>

definition updateWaitClock :: "'b sess_env \<Rightarrow> rat \<Rightarrow> 'b sess \<Rightarrow> rat option \<times> 'b sess" where
  "updateWaitClock env now st =
     (let tasks = filter unsettled (sv_list env st) in
      if ss_closing st \<or> tasks = [] then (None, st\<lparr>ss_nextTick := None\<rparr>)
      else
        (let st1 = (if sv_waitTickMs env > 0 then st\<lparr>ss_nextTick := Some (nullish (ss_nextTick st) (now + sv_waitTickMs env))\<rparr> else st);
             deadlines = (if sv_waitTickMs env > 0 then [the (ss_nextTick st1)] else [])
               @ (if sv_longTaskMs env > 0
                  then map (\<lambda>t. wait_base env st t + sv_longTaskMs env) (filter (\<lambda>t. tk_state t = TRunning) tasks) else [])
         in (if deadlines = [] then None else Some (min 2147483647 (max 0 (Min (set deadlines) - now))), st1)))"

definition notify_long :: "'b sess_env \<Rightarrow> rat \<Rightarrow> task_rec \<Rightarrow> 'b sess \<Rightarrow> 'b sess" where
  "notify_long env now t st =
     (if tk_state t \<noteq> TRunning \<or> now - wait_base env st t < sv_longTaskMs env then st
      else enqueueEvent \<lparr>te_kind = ELongRunning, te_task = t, te_stalled = False, te_times = sv_times env (ss_board st) (tk_id t)\<rparr>
             (st\<lparr>ss_notified := (ss_notified st)(tk_id t \<mapsto> now)\<rparr>))"

definition waitTick :: "'b sess_env \<Rightarrow> rat \<Rightarrow> 'b sess \<Rightarrow> 'b sess" where
  "waitTick env now st =
     (if ss_closing st then st
      else
        (let st1 = (case ss_nextTick st of
                      Some n \<Rightarrow> if list_ex unsettled (sv_list env st) \<and> now \<ge> n
                                then st\<lparr>ss_nextTick := Some (now + sv_waitTickMs env)\<rparr> else st
                    | None \<Rightarrow> st);
             st2 = (if sv_longTaskMs env > 0 then fold (notify_long env now) (sv_list env st) st1 else st1)
         in changed st2))"

end
