(* ===== verification/DialogueSession.thy ===== *)
theory DialogueSession
  imports DialogueState
begin

text \<open>
  The turns of a dialogue session (\<open>coordinator/dialogue/dialogue-session.ts\<close>): queueing, a turn with its planner
  calls, restart and corrections, the tools that only exist inside a turn, external tool calls, closing and restoring.

  A turn waits for the retrieval of context, for the planner and for the store of the session; its phase says for which.
  The planner's behaviour during a call (its rounds, tools and partial output) is an arbitrary sequence of the
  operations \<open>guard_round\<close>, \<open>before_tool\<close>, \<open>new_request_tool\<close>, \<open>deliver_check\<close>, \<open>deliver_commit\<close>, \<open>status_read\<close>, \<open>partial_chunk\<close>
  and of the tools of \<open>PlannerTools\<close>.
\<close>

subsection \<open>Queueing\<close>

definition send_message :: "string \<Rightarrow> 'b sess \<Rightarrow> 'b sess" where
  "send_message text st =
     (let i = ss_sent st; st1 = st\<lparr>ss_sent := i + 1\<rparr> in
      if ss_closing st then st1\<lparr>ss_answers := ss_answers st @ [(i, Inl ''dialogue session closed'')]\<rparr>
      else changed (st1\<lparr>ss_external := False, ss_users := ss_users st @ [\<lparr>ut_id = i, ut_text = text\<rparr>]\<rparr>))"

text \<open>Whether \<open>drain\<close> goes on.\<close>

definition has_work :: "'b sess \<Rightarrow> bool" where
  "has_work st \<longleftrightarrow> \<not> ss_closing st \<and> (ss_users st \<noteq> [] \<or> (\<not> ss_external st \<and> ss_events st \<noteq> []))"

definition can_start :: "'b sess \<Rightarrow> bool" where
  "can_start st \<longleftrightarrow> has_work st \<and> ss_turn st = None \<and> ss_tool st = None"

subsection \<open>The start of a turn\<close>

definition take_consent :: "'b sess \<Rightarrow> 'b sess" where
  "take_consent st = (if ss_plan st = None then st else changed (upd_scope user_message st))"

definition fresh_turn :: "user_turn option \<Rightarrow> string \<Rightarrow> task_event list \<Rightarrow> string \<Rightarrow> bool option \<Rightarrow> bool \<Rightarrow> turn" where
  "fresh_turn user text evs request entryOk waiting =
     \<lparr>tu_user = user, tu_text = text, tu_consumed = evs, tu_request = request, tu_entryOk = entryOk,
      tu_waitingAtEntry = waiting, tu_memory = [], tu_knowledge = [], tu_deliveries = [], tu_references = [],
      tu_pendingIds = [], tu_actions = [], tu_started = False, tu_waitStop = False, tu_lastRead = None, tu_partial = [],
      tu_callIndex = 0, tu_didRestart = False, tu_correction = 0, tu_phase = Retrieving\<rparr>"

definition filter_join :: "string list \<Rightarrow> string" where
  "filter_join xs = join newline (filter (\<lambda>s. s \<noteq> []) xs)"

definition take_inputs :: "'b sess_env \<Rightarrow> rat \<Rightarrow> user_turn option \<Rightarrow> string \<Rightarrow> task_event list \<Rightarrow> 'b sess \<Rightarrow> 'b sess" where
  "take_inputs env now user text evs st =
     (let st1 = (case ss_restart st of Some note1 \<Rightarrow> if note1 \<noteq> [] then appendInput note1 (Some KNote) st else st | None \<Rightarrow> st);
          st2 = st1\<lparr>ss_restart := None\<rparr>
      in trim_session
           (case user of
              None \<Rightarrow> appendInput text (Some KEvents) st2
            | Some u \<Rightarrow>
                (let st3 = appendInput (ut_text u) None st2; notes1 = eventNotes env now st3 evs
                 in if notes1 = [] then st3 else appendInput notes1 (Some KEvents) st3)))"

text \<open>\<open>turn\<close> up to the retrieval.\<close>

definition open_turn :: "'b sess_env \<Rightarrow> rat \<Rightarrow> user_turn option \<Rightarrow> string \<Rightarrow> task_event list \<Rightarrow> 'b sess \<Rightarrow> 'b sess" where
  "open_turn env now user text evs st =
     (let waiting = (map_option pl_status (ss_plan st) = Some PWaiting);
          st1 = beginRequest env (case user of Some u \<Rightarrow> ut_text u | None \<Rightarrow> text) (user \<noteq> None \<and> evs = []) now st;
          i = open_id st1;
          entryOk = Option.bind (openRequest st1) rq_lastTurnOk;
          st2 = upd_request i (\<lambda>r. r\<lparr>rq_lastTurnOk := Some False\<rparr>) st1;
          st3 = (if user \<noteq> None then take_consent st2 else st2);
          st4 = take_inputs env now user text evs st3
      in st4\<lparr>ss_heard := ss_heard st4 @ evs, ss_turn := Some (fresh_turn user text evs i entryOk waiting)\<rparr>)"

text \<open>One round of \<open>drain\<close>: the next input, or the waiting events; stale notices start no turn.\<close>

definition start_turn :: "'b sess_env \<Rightarrow> rat \<Rightarrow> 'b sess \<Rightarrow> 'b sess" where
  "start_turn env now st =
     (case ss_users st of
        u # us \<Rightarrow>
          (let evs = liveEvents env st (ss_deferred st);
               st1 = st\<lparr>ss_users := us, ss_deferred := []\<rparr>;
               text = filter_join [ut_text u, eventNotes env now st1 evs]
           in open_turn env now (Some u) text evs (changed st1))
      | [] \<Rightarrow>
          (let evs = liveEvents env st (ss_events st); st1 = st\<lparr>ss_events := []\<rparr> in
           if evs = [] then st1
           else open_turn env now None (eventNotes env now st1 evs) evs (changed st1)))"

subsection \<open>Planner calls\<close>

definition upd_turn :: "(turn \<Rightarrow> turn) \<Rightarrow> 'b sess \<Rightarrow> 'b sess" where
  "upd_turn f st = st\<lparr>ss_turn := map_option f (ss_turn st)\<rparr>"

definition the_call :: "turn \<Rightarrow> call_state option" where
  "the_call t = (case tu_phase t of InCall c \<Rightarrow> Some c | _ \<Rightarrow> None)"

definition current_call :: "'b sess \<Rightarrow> (turn \<times> call_state) option" where
  "current_call st = Option.bind (ss_turn st) (\<lambda>t. map_option (Pair t) (the_call t))"

definition upd_call :: "(call_state \<Rightarrow> call_state) \<Rightarrow> 'b sess \<Rightarrow> 'b sess" where
  "upd_call f st = upd_turn (\<lambda>t. case tu_phase t of InCall c \<Rightarrow> t\<lparr>tu_phase := InCall (f c)\<rparr> | _ \<Rightarrow> t) st"

text \<open>The retrieval answers what it found; it never fails.\<close>

definition retrieved :: "memory_entry list \<Rightarrow> knowledge_entry list \<Rightarrow> 'b sess \<Rightarrow> 'b sess" where
  "retrieved mem ks st = upd_turn (\<lambda>t. t\<lparr>tu_memory := mem, tu_knowledge := ks, tu_phase := Ready\<rparr>) st"

definition call_notes :: "'b sess_env \<Rightarrow> string option \<Rightarrow> 'b sess \<Rightarrow> string list" where
  "call_notes env profileNote st =
     (case profileNote of None \<Rightarrow> [] | Some n \<Rightarrow> [n]) @ [planView (ss_plan st)] @ sv_budgetNotes env (ss_board st)
     @ (case pe_maxItemsPerStep (sv_planner env) of
          None \<Rightarrow> []
        | Some n \<Rightarrow> [''[environment] maxItemsPerStep: '' @ int_str n @ ''; split larger batches''])"

definition conv_as_msg :: "conv_msg \<Rightarrow> planner_msg" where
  "conv_as_msg m = plain_msg (co_role m) (co_content m)"

fun stamp_first_user :: "string \<Rightarrow> planner_msg list \<Rightarrow> planner_msg list" where
  "stamp_first_user line [] = [plain_msg RUser line]"
| "stamp_first_user line (m # ms) =
     (if dm_role m = RUser then put_before line m # ms else m # stamp_first_user line ms)"

definition call_messages :: "'b sess_env \<Rightarrow> string option \<Rightarrow> turn \<Rightarrow> request_rec \<Rightarrow> 'b sess \<Rightarrow> planner_msg list" where
  "call_messages env profileNote t r st =
     (let notes1 = call_notes env profileNote st; line = sv_timeLine env (rq_openedAt r) in
      if sv_prepared env then
        stamp_first_user line
          (build_context \<lparr>ci_memoryBudget = sv_memoryBudget env, ci_knowledgeBudget = sv_knowledgeBudget env, ci_open = Some r,
             ci_memory = tu_memory t, ci_knowledge = tu_knowledge t, ci_notes = notes1\<rparr>)
      else
        (let ms = map conv_as_msg (ss_conversation st) in
         if ms = [] then [plain_msg RUser line]
         else map_last (\<lambda>m. m\<lparr>dm_content := line @ newline @ join newline notes1 @ newline @ dm_content m\<rparr>) ms))"

definition request_of :: "'b sess \<Rightarrow> string \<Rightarrow> request_rec" where
  "request_of st i = nullish (find (\<lambda>r. rq_id r = i) (ss_requests st)) (new_request_rec 0 [] 0)"

definition fresh_call :: "string \<Rightarrow> call_state" where
  "fresh_call i =
     \<lparr>ca_request = i, ca_restarting = False, ca_delivered = False, ca_toolCount = 0, ca_reserved = False, ca_roundCount = 0,
      ca_restartDelivered = False, ca_chunks = [], ca_lastText = [], ca_lastChunks = [], ca_final = False\<rparr>"

definition begin_call :: "'b sess_env \<Rightarrow> string option \<Rightarrow> 'b sess \<Rightarrow> 'b sess" where
  "begin_call env profileNote st =
     (case ss_turn st of
        None \<Rightarrow> st
      | Some t \<Rightarrow>
          if tu_phase t = Ready then
            (let ms = call_messages env profileNote t (request_of st (tu_request t)) st
             in upd_turn (\<lambda>t. t\<lparr>tu_phase := InCall (fresh_call (tu_request t))\<rparr>)
                  (st\<lparr>ss_requested := ss_requested st @ [ms]\<rparr>))
          else st)"

subsection \<open>During a call\<close>

definition NEW_REQUEST_ERROR :: string where
  "NEW_REQUEST_ERROR = ''new_request requires the first tool of the first planner call in a user turn, once, and never an answer to waiting_user''"

definition CONTINUE_ERROR :: string where
  "CONTINUE_ERROR = ''new request started; continue in the next call''"

text \<open>Whether the first call of the turn may still start a new request.\<close>

definition may_restart :: "turn \<Rightarrow> bool" where
  "may_restart t \<longleftrightarrow> tu_user t \<noteq> None \<and> tu_callIndex t = 0 \<and> \<not> tu_didRestart t \<and> \<not> tu_waitingAtEntry t"

text \<open>\<open>toolRoundGuard\<close>: a call is its name and whether its arguments are empty.\<close>

definition reserves :: "turn \<Rightarrow> call_state \<Rightarrow> (string \<times> bool) list \<Rightarrow> bool" where
  "reserves t c calls \<longleftrightarrow>
     ca_roundCount c = 0 \<and> ca_toolCount c = 0 \<and> may_restart t \<and> (case calls of (''new_request'', True) # _ \<Rightarrow> True | _ \<Rightarrow> False)"

definition guard_round :: "(string \<times> bool) list \<Rightarrow> 'b sess \<Rightarrow> (nat \<times> string) list \<times> 'b sess" where
  "guard_round calls st =
     (case current_call st of
        None \<Rightarrow> ([], st)
      | Some (t, c) \<Rightarrow>
          (let first = (ca_roundCount c = 0);
               c1 = c\<lparr>ca_roundCount := ca_roundCount c + 1, ca_reserved := ca_reserved c \<or> reserves t c calls\<rparr>;
               rejected = (if ca_reserved c1 \<or> ca_restarting c1
                           then map (\<lambda>i. (i, CONTINUE_ERROR)) (filter (\<lambda>i. \<not> (ca_reserved c1 \<and> first \<and> i = 0)) [0..<length calls])
                           else map (\<lambda>(i, _). (i, NEW_REQUEST_ERROR))
                                  (filter (\<lambda>(i, call). fst call = ''new_request'') (enumerate 0 calls)))
           in (rejected, upd_call (\<lambda>_. c1) st)))"

text \<open>\<open>Some\<close> is a thrown error.\<close>

definition before_tool :: "string \<Rightarrow> 'b sess \<Rightarrow> string option \<times> 'b sess" where
  "before_tool name st =
     (case current_call st of
        None \<Rightarrow> (None, st)
      | Some (t, c) \<Rightarrow>
          if (ca_reserved c \<or> ca_restarting c) \<and> (name \<noteq> ''new_request'' \<or> \<not> ca_reserved c \<or> ca_restartDelivered c)
          then (Some CONTINUE_ERROR, st)
          else (None, if ca_reserved c \<or> ca_restarting c then st else upd_call (\<lambda>c. c\<lparr>ca_toolCount := ca_toolCount c + 1\<rparr>) st))"

definition close_current :: "'b sess_env \<Rightarrow> rat \<Rightarrow> turn \<Rightarrow> 'b sess \<Rightarrow> 'b sess" where
  "close_current env now t st =
     upd_request (tu_request t) (\<lambda>r. (close_request now r)\<lparr>rq_lastTurnOk := tu_entryOk t\<rparr>)
       (resolveFailures env (tu_request t) (updateRequestPlan st))"

definition restart_inputs :: "'b sess_env \<Rightarrow> rat \<Rightarrow> string \<Rightarrow> task_event list \<Rightarrow> 'b sess \<Rightarrow> 'b sess" where
  "restart_inputs env now text evs st =
     (let i = open_id st;
          st1 = upd_request i (\<lambda>r. appendRequestMessage (plain_msg RUser text) (r\<lparr>rq_lastTurnOk := Some False\<rparr>)) st;
          notes1 = eventNotes env now st1 evs
      in if notes1 = [] then st1 else upd_request i (appendRequestMessage (internal_msg KEvents notes1)) st1)"

text \<open>\<open>startRequest\<close>.\<close>

definition start_request :: "'b sess_env \<Rightarrow> rat \<Rightarrow> nat \<Rightarrow> 'b sess \<Rightarrow> string option \<times> 'b sess" where
  "start_request env now tools st =
     (case current_call st of
        None \<Rightarrow> (Some NEW_REQUEST_ERROR, st)
      | Some (t, c) \<Rightarrow>
          (case tu_user t of
             None \<Rightarrow> (Some NEW_REQUEST_ERROR, st)
           | Some u \<Rightarrow>
               if \<not> may_restart t \<or> ca_toolCount c \<noteq> tools then (Some NEW_REQUEST_ERROR, st)
               else
                 (let st1 = restart_inputs env now (ut_text u) (tu_consumed t)
                              (beginRequest env (ut_text u) False now (set_no_plan (close_current env now t st)));
                      st2 = upd_turn (\<lambda>t. t\<lparr>tu_request := open_id st1, tu_partial := [], tu_lastRead := None, tu_didRestart := True\<rparr>) st1;
                      st3 = upd_call (\<lambda>c. c\<lparr>ca_chunks := [], ca_restarting := True\<rparr>) st2
                  in (None, changed (retainRequests st3)))))"

definition new_request_tool :: "'b sess_env \<Rightarrow> rat \<Rightarrow> 'b sess \<Rightarrow> string option \<times> 'b sess" where
  "new_request_tool env now st =
     (case current_call st of
        None \<Rightarrow> (Some ''not available outside a coordinator turn'', st)
      | Some (t, c) \<Rightarrow>
          if attemptReserved (ss_scope st) then (Some ''Cannot start a new request while a task attempt is being reserved'', st)
          else
          (case start_request env now (if ca_reserved c \<and> \<not> ca_restartDelivered c then 0 else 1) st of
             (Some e, st1) \<Rightarrow> (Some e, st1)
           | (None, st1) \<Rightarrow> (None, upd_call (\<lambda>c. c\<lparr>ca_restartDelivered := True\<rparr>) st1)))"

definition already_delivered :: "'b sess \<Rightarrow> turn \<Rightarrow> string \<Rightarrow> bool" where
  "already_delivered st t i \<longleftrightarrow> i \<in> set (rq_delivered (request_of st (tu_request t))) \<or> i \<in> set (tu_pendingIds t)"

definition unknown_failure :: "'b sess_env \<Rightarrow> 'b sess \<Rightarrow> string \<Rightarrow> string \<Rightarrow> bool" where
  "unknown_failure env st request i =
     (case sv_get env st i of
        None \<Rightarrow> True
      | Some t \<Rightarrow> ss_owners st i \<noteq> Some request
          \<or> (tk_state t \<noteq> TFailed \<and> tk_state t \<noteq> TInterrupted \<and> tk_error t = None))"

text \<open>The errors of \<open>deliver\<close> before the store is read.\<close>

definition delivery_error :: "'b sess_env \<Rightarrow> string \<Rightarrow> string list \<Rightarrow> turn \<Rightarrow> call_state \<Rightarrow> 'b sess \<Rightarrow> string option" where
  "delivery_error env i resolves t c st =
     (if ca_delivered c then Some ''only one deliver per planner call''
      else
        (case sv_get env st i of
           None \<Rightarrow> Some (''task '' @ i @ '' does not belong to the current request'')
         | Some task \<Rightarrow>
             if ss_owners st i \<noteq> Some (tu_request t) then Some (''task '' @ i @ '' does not belong to the current request'')
             else if tk_state task \<noteq> TDone then Some (''task '' @ i @ '' is not done'')
             else
               (let step = (if truthy (sc_taskSteps (ss_scope st) i) then sc_taskSteps (ss_scope st) i else None);
                    found = Option.bind (ss_plan st) (\<lambda>p. Option.bind step (find_step p))
                in if step \<noteq> None \<and> map_option ps_state found \<noteq> Some SDone
                   then Some (''step '' @ the step @ '' is not done (check may be pending)'')
                   else if step \<noteq> None \<and> \<not> deliveryChecksPassed (the (ss_plan st)) (the step)
                   then Some (''step '' @ the step @ '' requires passing latest check steps before delivery'')
                   else map_option (\<lambda>f. ''task '' @ f @ '' is not a known failed task in the current request'')
                          (find (unknown_failure env st (tu_request t)) resolves))))"

datatype delivery = DError string | DAlready string | DTask task_rec

definition deliver_check :: "'b sess_env \<Rightarrow> string \<Rightarrow> string list \<Rightarrow> 'b sess \<Rightarrow> delivery" where
  "deliver_check env i resolves st =
     (case current_call st of
        None \<Rightarrow> DError ''not available outside a coordinator turn''
      | Some (t, c) \<Rightarrow>
          if already_delivered st t i then DAlready (''task '' @ i @ '' was already delivered'')
          else (case delivery_error env i resolves t c st of
                  Some e \<Rightarrow> DError e
                | None \<Rightarrow> (case sv_get env st i of Some task \<Rightarrow> DTask task | None \<Rightarrow> DError [])))"

definition with_note :: "string option \<Rightarrow> string \<Rightarrow> string" where
  "with_note n s = (if truthy n then the n @ blank_line2 @ s else s)"

text \<open>After the store answered (\<open>Inl\<close>: it failed); without a stored result \<open>output\<close> is the task's own.\<close>

definition deliver_commit ::
    "'b sess_env \<Rightarrow> task_rec \<Rightarrow> string option \<Rightarrow> string list \<Rightarrow> string + string \<Rightarrow> 'b sess \<Rightarrow> delivery \<times> 'b sess" where
  "deliver_commit env task dnote resolves output st =
     (case current_call st of
        None \<Rightarrow> (DError ''not available outside a coordinator turn'', st)
      | Some (t, c) \<Rightarrow>
          (let i = tk_id task in
           case output of
             Inl e \<Rightarrow> (DError (''task '' @ i @ '' storage read failed: '' @ e), st)
           | Inr text \<Rightarrow>
               if already_delivered st t i then (DAlready (''task '' @ i @ '' was already delivered''), st)
               else if ca_delivered c then (DError ''only one deliver per planner call'', st)
               else
                 (let st1 = upd_request (tu_request t) (\<lambda>r. r\<lparr>rq_resolved := join_new (rq_resolved r) resolves\<rparr>) st;
                      st2 = upd_turn (\<lambda>t. t\<lparr>tu_pendingIds := tu_pendingIds t @ [i],
                              tu_references := tu_references t @ [with_note dnote (''[delivered] '' @ taskNotice (sv_platform env) task)],
                              tu_deliveries := tu_deliveries t @ [with_note dnote text], tu_partial := []\<rparr>) st1
                  in (DTask task, upd_call (\<lambda>c. c\<lparr>ca_delivered := True, ca_chunks := []\<rparr>) st2))))"

definition status_read :: "'b sess \<Rightarrow> 'b sess" where
  "status_read st =
     upd_turn (\<lambda>t. if tu_waitStop t then t
        else if tu_lastRead t = Some (ss_version st)
        then t\<lparr>tu_actions := tu_actions t @ [''wait (turn ended: tasks running)''], tu_waitStop := True, tu_lastRead := Some (ss_version st)\<rparr>
        else t\<lparr>tu_lastRead := Some (ss_version st)\<rparr>) st"

datatype iteration_end = IToolCalls | IRetry | IFinal
datatype partial = PContent string | PEnd iteration_end

definition partial_call :: "partial \<Rightarrow> string \<Rightarrow> call_state \<Rightarrow> string \<times> call_state" where
  "partial_call p text c =
     (case p of
        PContent delta \<Rightarrow> if ca_delivered c then (text, c) else (text @ delta, c\<lparr>ca_chunks := ca_chunks c @ [delta]\<rparr>)
      | PEnd IToolCalls \<Rightarrow>
          ([], (if trim text \<noteq> [] then c\<lparr>ca_lastText := text, ca_lastChunks := ca_chunks c\<rparr> else c)\<lparr>ca_final := False, ca_chunks := []\<rparr>)
      | PEnd IRetry \<Rightarrow> ([], c\<lparr>ca_lastText := [], ca_lastChunks := [], ca_final := False, ca_chunks := []\<rparr>)
      | PEnd IFinal \<Rightarrow> (text, c\<lparr>ca_final := True\<rparr>))"

definition partial_chunk :: "partial \<Rightarrow> 'b sess \<Rightarrow> 'b sess" where
  "partial_chunk p st =
     (case current_call st of
        None \<Rightarrow> st
      | Some (t, c) \<Rightarrow>
          if ca_restarting c then st
          else (case partial_call p (tu_partial t) c of
                  (text, c1) \<Rightarrow> upd_turn (\<lambda>t. t\<lparr>tu_partial := text, tu_phase := InCall c1\<rparr>) st))"

subsection \<open>Tools of the plan\<close>

text \<open>What a tool left in its scope: tasks it owns now, actions it recorded, a plan it finished.\<close>

definition owner_for :: "'b sess_env \<Rightarrow> rat \<Rightarrow> string option \<Rightarrow> string \<Rightarrow> 'b sess \<Rightarrow> 'b sess" where
  "owner_for env now request i st =
     (case request of
        Some r \<Rightarrow> st\<lparr>ss_owners := (ss_owners st)(i \<mapsto> r)\<rparr>
      | None \<Rightarrow>
          (let st1 = (if openRequest st = None
                      then beginRequest env (case sv_get env st i of Some t \<Rightarrow> tk_goal t | None \<Rightarrow> []) False now st else st)
           in st1\<lparr>ss_owners := (ss_owners st1)(i \<mapsto> open_id st1)\<rparr>))"

definition absorb_scope :: "'b sess_env \<Rightarrow> rat \<Rightarrow> string option \<Rightarrow> nat \<Rightarrow> 'b sess \<Rightarrow> 'b sess" where
  "absorb_scope env now request gen st =
     (let sc = ss_scope st;
          st1 = fold (owner_for env now request) (sc_owned sc) st;
          st2 = (if sc_gen sc \<noteq> gen \<and> map_option pl_status (sc_plan sc) = Some PDone
                 then (case request of Some r \<Rightarrow> resolveFailures env r st1
                       | None \<Rightarrow> resolveFailures env (open_id st1) st1)
                 else st1);
          st3 = upd_turn (\<lambda>t. t\<lparr>tu_actions := tu_actions t @ sc_actions sc, tu_started := tu_started t \<or> sc_owned sc \<noteq> []\<rparr>) st2
      in changed (upd_scope (\<lambda>sc. sc\<lparr>sc_owned := [], sc_actions := []\<rparr>) st3))"

definition with_flow :: "'b sess_env \<Rightarrow> rat \<Rightarrow> string option \<Rightarrow> 'b flow \<Rightarrow> 'b sess \<Rightarrow> 'b sess" where
  "with_flow env now request fl st = absorb_scope env now request (sc_gen (ss_scope st)) (st\<lparr>ss_flow := fl\<rparr>)"

subsection \<open>The end of a call\<close>

datatype planner_reply = ReplyOk string | ReplyErr string | ReplyThrew string

definition fallback_text :: "turn \<Rightarrow> call_state \<Rightarrow> string" where
  "fallback_text t c =
     (if ca_final c then tu_partial t else if trim (tu_partial t) \<noteq> [] then tu_partial t else ca_lastText c)"

text \<open>The handler of a rejected call; \<open>Inl\<close> is thrown on.\<close>

definition caught :: "bool \<Rightarrow> turn \<Rightarrow> call_state \<Rightarrow> planner_reply \<Rightarrow> string + string + string" where
  "caught aborted t c reply =
     (case reply of
        ReplyOk s \<Rightarrow> Inr (Inr s)
      | ReplyErr e \<Rightarrow> Inr (Inl e)
      | ReplyThrew e \<Rightarrow>
          if (\<not> tu_waitStop t \<and> \<not> ca_restarting c) \<or> aborted then Inl e else Inr (Inr (fallback_text t c)))"

definition waiting_line :: "'b sess_env \<Rightarrow> 'b sess \<Rightarrow> string" where
  "waiting_line env st =
     ''Waiting for '' @ join '', '' (map (\<lambda>t. tk_id t @ paren (tk_worker t)) (filter unsettled (sv_list env st))) @ ''.''"

definition reply_text :: "'b sess_env \<Rightarrow> bool \<Rightarrow> turn \<Rightarrow> call_state \<Rightarrow> string + string \<Rightarrow> 'b sess \<Rightarrow> string" where
  "reply_text env waiting t c result st =
     (let content = (case result of Inr s \<Rightarrow> s | Inl _ \<Rightarrow> []);
          ok = (case result of Inr _ \<Rightarrow> True | Inl _ \<Rightarrow> False);
          reply = (if tu_deliveries t \<noteq> [] then join blank_line2 (tu_deliveries t)
                   else if ca_final c \<and> ok then content
                   else if tu_partial t \<noteq> [] then tu_partial t else content)
      in if waiting \<and> tu_deliveries t = [] \<and> trim reply = []
         then (if trim (tu_partial t) \<noteq> [] then tu_partial t else waiting_line env st) else reply)"

definition actions_line :: "turn \<Rightarrow> string" where
  "actions_line t = ''[actions] '' @ (if join '', '' (tu_actions t) = [] then ''none'' else join '', '' (tu_actions t))"

definition record_reply :: "string \<Rightarrow> turn \<Rightarrow> 'b sess \<Rightarrow> 'b sess" where
  "record_reply reply t st =
     (let refs = (if tu_references t = [] then None else Some (join newline (tu_references t)));
          st1 = upd_request (tu_request t)
                  (\<lambda>r. appendRequestMessage (internal_msg KActions (actions_line t))
                         (appendRequestMessage ((plain_msg RAssistant reply)\<lparr>dm_reference := refs\<rparr>) r)) st;
          st2 = trim_session (st1\<lparr>ss_conversation := ss_conversation st1
                  @ [\<lparr>co_role = RAssistant, co_content = reply, co_leading = False\<rparr>,
                     \<lparr>co_role = RUser, co_content = actions_line t, co_leading = True\<rparr>]\<rparr>)
      in changed (upd_scope (\<lambda>sc. sc\<lparr>sc_plan := map_option recomputePlanStatus (sc_plan sc)\<rparr>) st2))"

definition stalled_steps :: "'b sess_env \<Rightarrow> 'b sess \<Rightarrow> pstep list" where
  "stalled_steps env st =
     (case ss_plan st of
        None \<Rightarrow> []
      | Some p \<Rightarrow> filter (\<lambda>s. ps_state s = SRunning
          \<and> \<not> list_ex (\<lambda>i. is_active (sv_get env st i)) (currentAttemptIds s)) (pl_steps p))"

definition can_check :: "'b sess_env \<Rightarrow> turn \<Rightarrow> 'b sess \<Rightarrow> bool" where
  "can_check env t st \<longleftrightarrow>
     map_option pl_status (ss_plan st) = Some PActive \<and> \<not> tu_started t \<and> \<not> list_ex unsettled (sv_list env st)"

definition is_idle :: "'b sess_env \<Rightarrow> turn \<Rightarrow> 'b sess \<Rightarrow> bool" where
  "is_idle env t st \<longleftrightarrow> can_check env t st \<and> (readySteps (ss_plan st) \<noteq> [] \<or> stalled_steps env st \<noteq> [])"

definition check_text :: "'b sess_env \<Rightarrow> turn \<Rightarrow> 'b sess \<Rightarrow> string" where
  "check_text env t st =
     (let ready = readySteps (ss_plan st);
          goal = (\<lambda>s. take 200 (trim (squash False (ps_goal s))));
          checks = (if is_idle env t st \<and> ready \<noteq> []
                    then [''Steps '' @ join '', '' (map (\<lambda>s. ps_id s @ '': '' @ goal s) ready)
                          @ '' are ready (all dependencies done) and nothing runs. Delegate them or set status waiting_user with your question; skipping or narrowing requires user consent.'']
                    else [])
            @ (if is_idle env t st
               then map (\<lambda>s. ''Step '' @ ps_id s @ '' is running and nothing runs: its task finished; review get_task and continue'')
                      (stalled_steps env st)
               else [])
      in if checks = [] then ''Review new task events before answering.'' else join newline checks)"

definition finish_turn :: "rat \<Rightarrow> string \<Rightarrow> 'b sess \<Rightarrow> 'b sess" where
  "finish_turn now reply st =
     (case ss_turn st of
        None \<Rightarrow> st
      | Some t \<Rightarrow>
          (let m = \<lparr>rm_text = reply, rm_createdAt = now, rm_user = (tu_user t \<noteq> None)\<rparr>;
               st1 = upd_request (tu_request t)
                       (\<lambda>r. r\<lparr>rq_lastTurnOk := Some True, rq_delivered := rq_delivered r @ tu_pendingIds t\<rparr>) st;
               st2 = (if tu_user t = None \<and> \<not> ss_closing st1 \<and> trim reply \<noteq> ''NO_MESSAGE''
                      then st1\<lparr>ss_pending := ss_pending st1 @ [m]\<rparr> else st1)
           in upd_turn (\<lambda>t. t\<lparr>tu_phase := Saving (Inr m)\<rparr>) (persist st2)))"

definition fail_turn :: "string \<Rightarrow> 'b sess \<Rightarrow> 'b sess" where
  "fail_turn e st = upd_turn (\<lambda>t. t\<lparr>tu_phase := Saving (Inl e)\<rparr>) (persist st)"

text \<open>The corrective input before another call.\<close>

definition correct_turn :: "'b sess_env \<Rightarrow> rat \<Rightarrow> turn \<Rightarrow> 'b sess \<Rightarrow> 'b sess" where
  "correct_turn env now t st =
     (let evs = liveEvents env st (ss_events st);
          checks = check_text env t st;
          st1 = changed (upd_turn (\<lambda>t. t\<lparr>tu_consumed := tu_consumed t @ evs, tu_correction := tu_correction t + 1, tu_phase := Ready\<rparr>)
                  (st\<lparr>ss_events := [], ss_heard := ss_heard st @ evs\<rparr>))
      in appendInput (''[check] '' @ checks @ (if evs = [] then [] else newline @ eventNotes env now st1 evs)) (Some KNote) st1)"

definition settle_call :: "'b sess_env \<Rightarrow> rat \<Rightarrow> bool \<Rightarrow> turn \<Rightarrow> call_state \<Rightarrow> string + string \<Rightarrow> 'b sess \<Rightarrow> 'b sess" where
  "settle_call env now aborted t c result st =
     (let waiting = (tu_waitStop t \<and> \<not> aborted) in
      case (result, waiting) of
        (Inl e, False) \<Rightarrow> fail_turn e st
      | _ \<Rightarrow>
          (let reply = reply_text env waiting t c result st;
               st1 = record_reply reply t st;
               again = (is_idle env t st1 \<or> (can_check env t st1 \<and> ss_events st1 \<noteq> []))
           in if sv_maxCorrections env > 0 \<and> \<not> ss_closing st1 \<and> \<not> waiting \<and> again \<and> tu_correction t < sv_maxCorrections env
              then correct_turn env now t st1
              else finish_turn now reply
                     (st1\<lparr>ss_shown := ss_shown st1 @ (if tu_deliveries t \<noteq> [] then [reply] else ca_chunks c)\<rparr>)))"

definition end_call :: "'b sess_env \<Rightarrow> rat \<Rightarrow> bool \<Rightarrow> planner_reply \<Rightarrow> 'b sess \<Rightarrow> 'b sess" where
  "end_call env now aborted reply st =
     (case current_call st of
        None \<Rightarrow> st
      | Some (t, c) \<Rightarrow>
          (case caught aborted t c reply of
             Inl e \<Rightarrow> fail_turn e st
           | Inr result \<Rightarrow>
               (let t1 = t\<lparr>tu_callIndex := tu_callIndex t + 1\<rparr> in
                if ca_restarting c then upd_turn (\<lambda>_. t1\<lparr>tu_phase := Retrieving\<rparr>) st
                else
                  (let back = (\<not> ca_final c \<and> trim (tu_partial t1) = []);
                       t2 = (if back then t1\<lparr>tu_partial := ca_lastText c\<rparr> else t1);
                       c1 = (if back then c\<lparr>ca_chunks := ca_lastChunks c\<rparr> else c)
                   in settle_call env now aborted t2 c1 result (upd_turn (\<lambda>_. t2) st)))))"

text \<open>The planner or its profile could not be prepared.\<close>

definition prepare_fails :: "string \<Rightarrow> 'b sess \<Rightarrow> 'b sess" where
  "prepare_fails e st =
     (case ss_turn st of None \<Rightarrow> st | Some t \<Rightarrow> if tu_phase t = Ready then fail_turn e st else st)"

definition settle_turn :: "'b sess \<Rightarrow> 'b sess" where
  "settle_turn st =
     (case ss_turn st of
        None \<Rightarrow> st
      | Some t \<Rightarrow>
          (case tu_phase t of
             Saving r \<Rightarrow>
               changed (st\<lparr>ss_turn := None,
                  ss_answers := ss_answers st @ (case tu_user t of None \<Rightarrow> [] | Some u \<Rightarrow> [(ut_id u, r)])\<rparr>)
           | _ \<Rightarrow> st))"

subsection \<open>External tool calls\<close>

definition tool_refusal :: "bool \<Rightarrow> string \<Rightarrow> 'b sess \<Rightarrow> string option" where
  "tool_refusal aborted name st =
     (if aborted then Some ''aborted''
      else if ss_turn st \<noteq> None \<or> has_work st \<or> ss_users st \<noteq> [] then Some ''session is busy with a coordinator turn''
      else if ss_tool st \<noteq> None then Some ''session is busy with a tool call''
      else if ss_closing st then Some ''dialogue session closed''
      else if name = ''new_request'' \<or> name = ''deliver'' then Some ''not available outside a coordinator turn''
      else None)"

definition tool_open :: "bool \<Rightarrow> string \<Rightarrow> 'b sess \<Rightarrow> string option \<times> 'b sess" where
  "tool_open aborted name st =
     (case tool_refusal aborted name st of
        Some e \<Rightarrow> (Some e, st)
      | None \<Rightarrow> (None, st\<lparr>ss_external := True, ss_tool := Some (map_option rq_id (openRequest st))\<rparr>))"

definition tool_close :: "bool \<Rightarrow> 'b sess \<Rightarrow> 'b sess" where
  "tool_close aborted st =
     (let st1 = changed st in (if aborted then st1 else persist st1)\<lparr>ss_tool := None\<rparr>)"

subsection \<open>Reading and closing\<close>

definition takePending :: "'b sess \<Rightarrow> reply_msg list \<times> 'b sess" where
  "takePending st = (ss_pending st, persist (st\<lparr>ss_pending := []\<rparr>))"

definition close_session :: "'b sess \<Rightarrow> 'b sess" where
  "close_session st =
     (if ss_closing st then st
      else changed (st\<lparr>ss_closing := True, ss_events := [], ss_deferred := [], ss_users := [],
             ss_answers := ss_answers st @ map (\<lambda>u. (ut_id u, Inl ''dialogue session closed'')) (ss_users st)\<rparr>))"

definition finish_close :: "'b sess_env \<Rightarrow> 'b sess \<Rightarrow> 'b sess" where
  "finish_close env st =
     (if ss_closing st \<and> ss_turn st = None \<and> ss_tool st = None
      then upd_scope (\<lambda>sc. sc\<lparr>sc_board := sv_stopAll env (sc_board sc)\<rparr>)
             (st\<lparr>ss_events := [], ss_deferred := [], ss_pending := [], ss_unsaved := 0\<rparr>)
      else st)"

end
