(* ===== verification/DialogueInv.thy ===== *)
theory DialogueInv
  imports DialogueSession PlanInv
begin

text \<open>
  Every interleaving of a dialogue session: \<open>session_step\<close> lets callers, the planner, the tools of the plan, the board
  and the clock act in any order, and \<open>session_run\<close> collects the outcome events the board reported.  The invariants:
  each message is answered once, no outcome is lost, the conversation alternates, and a turn makes a bounded number of
  planner calls.
\<close>

subsection \<open>The steps\<close>

text \<open>A step may report one event of the board.\<close>

inductive session_step :: "'b sess_env \<Rightarrow> ('b \<Rightarrow> 'b \<Rightarrow> bool) \<Rightarrow> task_event list \<Rightarrow> 'b sess \<Rightarrow> 'b sess \<Rightarrow> bool"
  for env progress where
  sends: "session_step env progress [] st (send_message text st)"
| starts: "can_start st \<Longrightarrow> session_step env progress [] st (start_turn env now st)"
| retrieves: "ss_turn st = Some t \<Longrightarrow> tu_phase t = Retrieving \<Longrightarrow> session_step env progress [] st (retrieved mem ks st)"
| calls: "session_step env progress [] st (begin_call env profileNote st)"
| unprepared: "session_step env progress [] st (prepare_fails e st)"
| guards: "session_step env progress [] st (snd (guard_round names st))"
| opens_tool: "session_step env progress [] st (snd (before_tool name st))"
| restarts: "session_step env progress [] st (snd (new_request_tool env now st))"
| delivers: "deliver_check env i resolves st0 = DTask task \<Longrightarrow>
    session_step env progress [] st (snd (deliver_commit env task dnote resolves output st))"
| reads_status: "session_step env progress [] st (status_read st)"
| reports: "session_step env progress [] st (partial_chunk p st)"
| tool_in_turn: "current_call st = Some (t, c) \<Longrightarrow> flow_step (sv_planner env) (sv_platform env) progress (ss_flow st) fl \<Longrightarrow>
    session_step env progress [] st (with_flow env now (Some (ca_request c)) fl st)"
| tool_outside: "ss_tool st = Some r \<Longrightarrow> flow_step (sv_planner env) (sv_platform env) progress (ss_flow st) fl \<Longrightarrow>
    session_step env progress [] st (with_flow env now r fl st)"
| ends: "session_step env progress [] st (end_call env now aborted reply st)"
| settles: "session_step env progress [] st (settle_turn st)"
| reported: "progress (ss_board st) b \<Longrightarrow>
    session_step env progress [ev] st (on_event env ev (upd_scope (\<lambda>sc. sc\<lparr>sc_board := b\<rparr>) st))"
| progresses: "progress (ss_board st) b \<Longrightarrow> session_step env progress [] st (upd_scope (\<lambda>sc. sc\<lparr>sc_board := b\<rparr>) st)"
| clock_set: "session_step env progress [] st (snd (updateWaitClock env now st))"
| ticks: "session_step env progress [] st (waitTick env now st)"
| tool_opened: "session_step env progress [] st (snd (tool_open aborted name st))"
| tool_closed: "session_step env progress [] st (tool_close aborted st)"
| taken: "session_step env progress [] st (snd (takePending st))"
| saved: "session_step env progress [] st (st\<lparr>ss_unsaved := ss_unsaved st - 1, ss_savedAt := now\<rparr>)"
| closes: "session_step env progress [] st (close_session st)"
| closed: "session_step env progress [] st (finish_close env st)"

inductive session_run :: "'b sess_env \<Rightarrow> ('b \<Rightarrow> 'b \<Rightarrow> bool) \<Rightarrow> 'b sess \<Rightarrow> task_event list \<Rightarrow> 'b sess \<Rightarrow> bool"
  for env progress st0 where
  start: "session_run env progress st0 [] st0"
| step: "session_run env progress st0 evs st \<Longrightarrow> session_step env progress es st st' \<Longrightarrow>
    session_run env progress st0 (evs @ es) st'"

definition initial_session :: "'b \<Rightarrow> 'b sess" where
  "initial_session b =
     \<lparr>ss_flow = initial_flow b, ss_requests = [], ss_seq = 0, ss_conversation = [], ss_owners = Map.empty, ss_pending = [],
      ss_users = [], ss_events = [], ss_deferred = [], ss_restart = None, ss_closing = False, ss_external = False,
      ss_tool = None, ss_version = 0, ss_nextTick = None, ss_notified = Map.empty, ss_turn = None, ss_sent = 0,
      ss_answers = [], ss_heard = [], ss_shown = [], ss_requested = [], ss_savedAt = 0, ss_unsaved = 0\<rparr>"

lemma session_run_rule [consumes 1, case_names start step]:
  assumes "session_run env progress st0 evs st" "I [] st0"
    and "\<And>evs st es st'. I evs st \<Longrightarrow> session_step env progress es st st' \<Longrightarrow> I (evs @ es) st'"
  shows "I evs st"
  using assms by (induction rule: session_run.induct) auto

subsection \<open>Frames\<close>

text \<open>What most operations leave alone: inputs, answers, events and the turn.\<close>

definition queue_of where
  "queue_of st = (ss_users st, ss_answers st, ss_sent st, ss_turn st, ss_events st, ss_deferred st, ss_heard st, ss_closing st)"

named_theorems frames
named_theorems qframes

lemma queue_of_eq:
  "queue_of st' = queue_of st \<longleftrightarrow>
     ss_users st' = ss_users st \<and> ss_answers st' = ss_answers st \<and> ss_sent st' = ss_sent st \<and> ss_turn st' = ss_turn st
     \<and> ss_events st' = ss_events st \<and> ss_deferred st' = ss_deferred st \<and> ss_heard st' = ss_heard st
     \<and> ss_closing st' = ss_closing st"
  by (auto simp: queue_of_def)

lemma queue_basic [frames, qframes]:
  "queue_of (upd_scope f st) = queue_of st" "queue_of (upd_request i g st) = queue_of st"
  "queue_of (retainRequests st) = queue_of st" "queue_of (trim_session st) = queue_of st"
  "queue_of (persist st) = queue_of st"
  by (simp_all add: queue_of_def upd_scope_def upd_request_def retainRequests_def trim_session_def persist_def)

lemma conv_basic [frames]:
  "ss_conversation (upd_scope f st) = ss_conversation st" "ss_conversation (upd_request i g st) = ss_conversation st"
  "ss_conversation (retainRequests st) = ss_conversation st" "ss_conversation (persist st) = ss_conversation st"
  by (simp_all add: upd_scope_def upd_request_def retainRequests_def persist_def)

lemma queue_requests [frames, qframes]:
  "queue_of (updateRequestPlan st) = queue_of st" "queue_of (changed st) = queue_of st"
  "queue_of (resolveFailures env i st) = queue_of st" "queue_of (set_no_plan st) = queue_of st"
  by (auto simp: changed_def updateRequestPlan_def resolveFailures_def set_no_plan_def frames split: option.split)

lemma conv_requests [frames]:
  "ss_conversation (updateRequestPlan st) = ss_conversation st" "ss_conversation (changed st) = ss_conversation st"
  "ss_conversation (resolveFailures env i st) = ss_conversation st" "ss_conversation (set_no_plan st) = ss_conversation st"
  by (auto simp: changed_def updateRequestPlan_def resolveFailures_def set_no_plan_def frames split: option.split)

lemma queue_begin [frames, qframes]: "queue_of (beginRequest env text user now st) = queue_of st"
proof -
  have "queue_of (close_automatic env user now st) = queue_of st"
    by (auto simp: close_automatic_def frames Let_def split: option.split)
  moreover have "queue_of (open_request now text x) = queue_of x" for x :: "'a sess" by (simp add: open_request_def queue_of_def)
  ultimately show ?thesis by (simp add: beginRequest_def frames)
qed

lemma conv_begin [frames]: "ss_conversation (beginRequest env text user now st) = ss_conversation st"
proof -
  have "ss_conversation (close_automatic env user now st) = ss_conversation st"
    by (auto simp: close_automatic_def frames Let_def split: option.split)
  moreover have "ss_conversation (open_request now text x) = ss_conversation x" for x :: "'a sess" by (simp add: open_request_def)
  ultimately show ?thesis by (simp add: beginRequest_def frames)
qed

lemma queue_append [frames, qframes]: "queue_of (appendInput text kind st) = queue_of st"
proof -
  have "queue_of (x\<lparr>ss_conversation := ms\<rparr>) = queue_of x" for x :: "'a sess" and ms by (simp add: queue_of_def)
  then show ?thesis by (simp add: appendInput_def frames Let_def split: option.split)
qed

lemma queue_consent [frames, qframes]: "queue_of (take_consent st) = queue_of st"
  by (simp add: take_consent_def frames)

lemma conv_consent [frames]: "ss_conversation (take_consent st) = ss_conversation st"
  by (simp_all add: take_consent_def frames)

lemma queue_inputs [frames, qframes]: "queue_of (take_inputs env now user text evs st) = queue_of st"
proof -
  have "queue_of (x\<lparr>ss_restart := r\<rparr>) = queue_of x" for x :: "'a sess" and r by (simp add: queue_of_def)
  then show ?thesis by (auto simp: take_inputs_def frames Let_def split: option.split)
qed

lemma queue_restart [frames, qframes]:
  "queue_of (restart_inputs env now text evs st) = queue_of st" "queue_of (close_current env now t st) = queue_of st"
  by (simp_all add: restart_inputs_def close_current_def frames Let_def)

lemma conv_restart [frames]:
  "ss_conversation (restart_inputs env now text evs st) = ss_conversation st"
  "ss_conversation (close_current env now t st) = ss_conversation st"
  by (simp_all add: restart_inputs_def close_current_def frames Let_def)

lemma queue_owner [frames, qframes]: "queue_of (owner_for env now r i st) = queue_of st"
proof -
  have "queue_of (x\<lparr>ss_owners := m\<rparr>) = queue_of x" for x :: "'a sess" and m by (simp add: queue_of_def)
  then show ?thesis by (auto simp: owner_for_def frames Let_def split: option.split)
qed

lemma conv_owner [frames]: "ss_conversation (owner_for env now r i st) = ss_conversation st"
  by (auto simp: owner_for_def frames Let_def split: option.split)

lemma queue_owners [frames, qframes]: "queue_of (fold (owner_for env now r) is st) = queue_of st"
  by (induction "is" arbitrary: st) (simp_all add: frames)

lemma conv_owners [frames]:
  "ss_conversation (fold (owner_for env now r) is st) = ss_conversation st"
  by (induction "is" arbitrary: st) (simp_all add: frames)

text \<open>Operations that only change the turn.\<close>

lemma upd_turn_frame [simp]:
  "ss_users (upd_turn f st) = ss_users st" "ss_answers (upd_turn f st) = ss_answers st" "ss_sent (upd_turn f st) = ss_sent st"
  "ss_events (upd_turn f st) = ss_events st" "ss_deferred (upd_turn f st) = ss_deferred st" "ss_heard (upd_turn f st) = ss_heard st"
  "ss_closing (upd_turn f st) = ss_closing st" "ss_conversation (upd_turn f st) = ss_conversation st"
  "ss_turn (upd_turn f st) = map_option f (ss_turn st)"
  by (simp_all add: upd_turn_def)

lemma upd_call_frame [simp]:
  "ss_users (upd_call f st) = ss_users st" "ss_answers (upd_call f st) = ss_answers st" "ss_sent (upd_call f st) = ss_sent st"
  "ss_events (upd_call f st) = ss_events st" "ss_deferred (upd_call f st) = ss_deferred st" "ss_heard (upd_call f st) = ss_heard st"
  "ss_closing (upd_call f st) = ss_closing st" "ss_conversation (upd_call f st) = ss_conversation st"
  by (simp_all add: upd_call_def)

text \<open>The inputs: queued, being answered, answered.  The events: waiting, deferred, taken up.\<close>

definition inputs_of where
  "inputs_of st = (ss_users st, Option.bind (ss_turn st) tu_user, ss_answers st, ss_sent st)"

definition evs_of where
  "evs_of st = (ss_events st, ss_deferred st, ss_heard st, ss_closing st)"

lemma queue_views: "queue_of a = queue_of b \<Longrightarrow> inputs_of a = inputs_of b \<and> evs_of a = evs_of b \<and> ss_turn a = ss_turn b"
  by (simp add: queue_of_def inputs_of_def evs_of_def)

lemmas frames_inputs = qframes [THEN queue_views, THEN conjunct1]
lemmas frames_evs = qframes [THEN queue_views, THEN conjunct2, THEN conjunct1]
lemmas frames_turn = qframes [THEN queue_views, THEN conjunct2, THEN conjunct2]

lemma upd_turn_inputs: "(\<And>t. tu_user (f t) = tu_user t) \<Longrightarrow> inputs_of (upd_turn f st) = inputs_of st"
  by (cases "ss_turn st") (simp_all add: inputs_of_def)

lemma upd_turn_evs: "evs_of (upd_turn f st) = evs_of st"
  by (simp add: evs_of_def)

lemma upd_call_inputs: "inputs_of (upd_call f st) = inputs_of st"
  unfolding upd_call_def by (rule upd_turn_inputs) (simp split: turn_phase.split)

lemma upd_call_evs: "evs_of (upd_call f st) = evs_of st"
  by (simp add: evs_of_def)

lemmas views = frames_inputs frames_evs upd_turn_evs upd_call_inputs upd_call_evs

lemma retrieved_views: "inputs_of (retrieved m k st) = inputs_of st" "evs_of (retrieved m k st) = evs_of st"
  by (simp_all add: retrieved_def upd_turn_inputs views)

lemma begin_call_views: "inputs_of (begin_call env n st) = inputs_of st" "evs_of (begin_call env n st) = evs_of st"
proof -
  have f: "inputs_of (x\<lparr>ss_requested := r\<rparr>) = inputs_of x" "evs_of (x\<lparr>ss_requested := r\<rparr>) = evs_of x" for x :: "'a sess" and r
    by (simp_all add: inputs_of_def evs_of_def)
  show "inputs_of (begin_call env n st) = inputs_of st" "evs_of (begin_call env n st) = evs_of st"
    by (auto simp: begin_call_def upd_turn_inputs views f Let_def split: option.split)
qed

lemma fail_turn_views: "inputs_of (fail_turn e st) = inputs_of st" "evs_of (fail_turn e st) = evs_of st"
  by (simp_all add: fail_turn_def upd_turn_inputs views)

lemma prepare_fails_views: "inputs_of (prepare_fails e st) = inputs_of st" "evs_of (prepare_fails e st) = evs_of st"
  by (auto simp: prepare_fails_def fail_turn_views split: option.split)

lemma guard_round_views:
  "inputs_of (snd (guard_round names st)) = inputs_of st" "evs_of (snd (guard_round names st)) = evs_of st"
  by (auto simp: guard_round_def views Let_def split: option.split)

lemma before_tool_views:
  "inputs_of (snd (before_tool n st)) = inputs_of st" "evs_of (snd (before_tool n st)) = evs_of st"
  by (auto simp: before_tool_def views split: option.split)

lemma start_request_views:
  "inputs_of (snd (start_request env now k st)) = inputs_of st" "evs_of (snd (start_request env now k st)) = evs_of st"
  by (auto simp: start_request_def views upd_turn_inputs Let_def split: option.split)

lemma new_request_views:
  "inputs_of (snd (new_request_tool env now st)) = inputs_of st" "evs_of (snd (new_request_tool env now st)) = evs_of st"
  by (auto simp: new_request_tool_def case_prod_beta start_request_views views split: option.split)

lemma deliver_commit_views:
  "inputs_of (snd (deliver_commit env t n rs out st)) = inputs_of st" "evs_of (snd (deliver_commit env t n rs out st)) = evs_of st"
  by (auto simp: deliver_commit_def views upd_turn_inputs Let_def split: option.split sum.split)

lemma status_read_views: "inputs_of (status_read st) = inputs_of st" "evs_of (status_read st) = evs_of st"
  by (simp_all add: status_read_def upd_turn_inputs views)

lemma partial_chunk_views: "inputs_of (partial_chunk p st) = inputs_of st" "evs_of (partial_chunk p st) = evs_of st"
  by (auto simp: partial_chunk_def upd_turn_inputs views split: option.split prod.split)

lemma with_flow_views: "inputs_of (with_flow env now r fl st) = inputs_of st" "evs_of (with_flow env now r fl st) = evs_of st"
proof -
  have f: "inputs_of (x\<lparr>ss_flow := g\<rparr>) = inputs_of x" "evs_of (x\<lparr>ss_flow := g\<rparr>) = evs_of x" for x :: "'a sess" and g
    by (simp_all add: inputs_of_def evs_of_def)
  show "inputs_of (with_flow env now r fl st) = inputs_of st" "evs_of (with_flow env now r fl st) = evs_of st"
    by (auto simp: with_flow_def absorb_scope_def upd_turn_inputs views f Let_def split: option.split)
qed

lemma finish_turn_views: "inputs_of (finish_turn now reply st) = inputs_of st" "evs_of (finish_turn now reply st) = evs_of st"
proof -
  have f: "inputs_of (x\<lparr>ss_pending := g\<rparr>) = inputs_of x" "evs_of (x\<lparr>ss_pending := g\<rparr>) = evs_of x" for x :: "'a sess" and g
    by (simp_all add: inputs_of_def evs_of_def)
  show "inputs_of (finish_turn now reply st) = inputs_of st" "evs_of (finish_turn now reply st) = evs_of st"
    by (auto simp: finish_turn_def upd_turn_inputs views f Let_def split: option.split)
qed

lemma record_reply_views: "inputs_of (record_reply reply t st) = inputs_of st" "evs_of (record_reply reply t st) = evs_of st"
proof -
  have f: "inputs_of (x\<lparr>ss_conversation := g\<rparr>) = inputs_of x" "evs_of (x\<lparr>ss_conversation := g\<rparr>) = evs_of x" for x :: "'a sess" and g
    by (simp_all add: inputs_of_def evs_of_def)
  show "inputs_of (record_reply reply t st) = inputs_of st" "evs_of (record_reply reply t st) = evs_of st"
    by (simp_all add: record_reply_def views f Let_def)
qed

lemma correct_turn_views:
  "inputs_of (correct_turn env now t st) = inputs_of st"
  "evs_of (correct_turn env now t st) = ([], ss_deferred st, ss_heard st @ liveEvents env st (ss_events st), ss_closing st)"
proof -
  have f: "inputs_of (x\<lparr>ss_events := g, ss_heard := h\<rparr>) = inputs_of x"
    "evs_of (x\<lparr>ss_events := g, ss_heard := h\<rparr>) = (g, ss_deferred x, h, ss_closing x)" for x :: "'a sess" and g h
    by (simp_all add: inputs_of_def evs_of_def)
  show "inputs_of (correct_turn env now t st) = inputs_of st"
    by (simp add: correct_turn_def upd_turn_inputs views f Let_def)
  show "evs_of (correct_turn env now t st) = ([], ss_deferred st, ss_heard st @ liveEvents env st (ss_events st), ss_closing st)"
    by (simp add: correct_turn_def views f Let_def)
qed

subsection \<open>No outcome is lost\<close>

definition settling :: "task_event \<Rightarrow> bool" where
  "settling ev \<longleftrightarrow> te_kind ev \<notin> {EStarted, ELongRunning}"

definition kept_outcomes where
  "kept_outcomes st = mset (filter settling (ss_events st @ ss_deferred st @ ss_heard st))"

lemma kept_outcomes_evs: "evs_of a = evs_of b \<Longrightarrow> kept_outcomes a = kept_outcomes b \<and> ss_closing a = ss_closing b"
  by (simp add: evs_of_def kept_outcomes_def)

lemma live_outcomes: "filter settling (liveEvents env st evs) = filter settling evs"
  by (auto simp: liveEvents_def live_event_def settling_def intro!: filter_cong)

lemma correct_turn_outcomes:
  "kept_outcomes (correct_turn env now t st) = kept_outcomes st \<and> ss_closing (correct_turn env now t st) = ss_closing st"
  using correct_turn_views(2) [of env now t st]
  by (simp add: evs_of_def kept_outcomes_def live_outcomes)

lemma settle_call_views:
  "inputs_of (settle_call env now ab t c r st) = inputs_of st"
  "kept_outcomes (settle_call env now ab t c r st) = kept_outcomes st \<and> ss_closing (settle_call env now ab t c r st) = ss_closing st"
proof -
  have f: "inputs_of (x\<lparr>ss_shown := g\<rparr>) = inputs_of x" "evs_of (x\<lparr>ss_shown := g\<rparr>) = evs_of x" for x :: "'a sess" and g
    by (simp_all add: inputs_of_def evs_of_def)
  define waiting where "waiting = (tu_waitStop t \<and> \<not> ab)"
  define reply where "reply = reply_text env waiting t c r st"
  define x where "x = record_reply reply t st"
  have x: "inputs_of x = inputs_of st" "kept_outcomes x = kept_outcomes st \<and> ss_closing x = ss_closing st"
    unfolding x_def using record_reply_views kept_outcomes_evs by blast+
  have "settle_call env now ab t c r st \<in> {fail_turn e st | e. True} \<union> {correct_turn env now t x}
      \<union> {finish_turn now reply (x\<lparr>ss_shown := g\<rparr>) | g. True}"
    unfolding settle_call_def waiting_def [symmetric] Let_def reply_def [symmetric] x_def [symmetric]
    by (auto split: sum.split bool.split)
  moreover have "inputs_of (correct_turn env now t x) = inputs_of st"
    "kept_outcomes (correct_turn env now t x) = kept_outcomes st \<and> ss_closing (correct_turn env now t x) = ss_closing st"
    using correct_turn_views(1) correct_turn_outcomes x by metis+
  moreover have "inputs_of (finish_turn now reply (x\<lparr>ss_shown := g\<rparr>)) = inputs_of st"
    "kept_outcomes (finish_turn now reply (x\<lparr>ss_shown := g\<rparr>)) = kept_outcomes st
      \<and> ss_closing (finish_turn now reply (x\<lparr>ss_shown := g\<rparr>)) = ss_closing st" for g
  proof -
    have "evs_of (finish_turn now reply (x\<lparr>ss_shown := g\<rparr>)) = evs_of x" by (simp add: finish_turn_views f)
    then show "kept_outcomes (finish_turn now reply (x\<lparr>ss_shown := g\<rparr>)) = kept_outcomes st
        \<and> ss_closing (finish_turn now reply (x\<lparr>ss_shown := g\<rparr>)) = ss_closing st"
      using x kept_outcomes_evs by metis
  qed (simp add: finish_turn_views f x)
  moreover have "inputs_of (fail_turn e st) = inputs_of st"
    "kept_outcomes (fail_turn e st) = kept_outcomes st \<and> ss_closing (fail_turn e st) = ss_closing st" for e
    using fail_turn_views kept_outcomes_evs by metis+
  ultimately show "inputs_of (settle_call env now ab t c r st) = inputs_of st"
    "kept_outcomes (settle_call env now ab t c r st) = kept_outcomes st \<and> ss_closing (settle_call env now ab t c r st) = ss_closing st"
    by auto
qed

lemma the_turn: "current_call st = Some (t, c) \<Longrightarrow> ss_turn st = Some t \<and> tu_phase t = InCall c"
  by (auto simp: current_call_def the_call_def bind_eq_Some_conv split: turn_phase.splits)

lemma end_call_views:
  "inputs_of (end_call env now ab reply st) = inputs_of st"
  "kept_outcomes (end_call env now ab reply st) = kept_outcomes st \<and> ss_closing (end_call env now ab reply st) = ss_closing st"
proof -
  have "inputs_of (end_call env now ab reply st) = inputs_of st
      \<and> kept_outcomes (end_call env now ab reply st) = kept_outcomes st \<and> ss_closing (end_call env now ab reply st) = ss_closing st"
  proof (cases "current_call st")
    case None
    then show ?thesis by (simp add: end_call_def)
  next
    case (Some p)
    obtain t c where p: "p = (t, c)" by (cases p)
    note turn = the_turn [OF Some [unfolded p]]
    have upd: "inputs_of (upd_turn (\<lambda>_. x) st) = inputs_of st" "kept_outcomes (upd_turn (\<lambda>_. x) st) = kept_outcomes st"
      if "tu_user x = tu_user t" for x
      using that turn by (auto simp: inputs_of_def kept_outcomes_def)
    have "inputs_of (fail_turn e st) = inputs_of st"
      "kept_outcomes (fail_turn e st) = kept_outcomes st \<and> ss_closing (fail_turn e st) = ss_closing st" for e
      using fail_turn_views kept_outcomes_evs by metis+
    then show ?thesis
      using Some by (auto simp: end_call_def p settle_call_views upd Let_def split: sum.split)
  qed
  then show "inputs_of (end_call env now ab reply st) = inputs_of st"
    "kept_outcomes (end_call env now ab reply st) = kept_outcomes st \<and> ss_closing (end_call env now ab reply st) = ss_closing st"
    by simp_all
qed

lemma filter_update_same: "i < length xs \<Longrightarrow> \<not> P (xs ! i) \<Longrightarrow> \<not> P y \<Longrightarrow> filter P (xs[i := y]) = filter P xs"
  by (induction xs arbitrary: i) (auto split: nat.split)

lemma enqueue_views:
  "inputs_of (enqueueEvent ev st) = inputs_of st" "ss_closing (enqueueEvent ev st) = ss_closing st"
  "kept_outcomes (enqueueEvent ev st) = kept_outcomes st + mset (filter settling [ev])"
proof -
  have deferred: "mset (filter settling (defer_event ev evs)) = mset (filter settling evs) + mset (filter settling [ev])" for evs
  proof (cases "(if te_kind ev = ELongRunning then findIndex (same_notice ev) evs else None)")
    case None
    then show ?thesis by (simp add: defer_event_def)
  next
    case (Some i)
    then have long: "te_kind ev = ELongRunning" and i: "findIndex (same_notice ev) evs = Some i" by (auto split: if_splits)
    then have "i < length evs" "same_notice ev (evs ! i)" using findIndex_Some [OF i] by auto
    then have "filter settling (evs[i := ev]) = filter settling evs"
      using long by (intro filter_update_same) (simp_all add: same_notice_def settling_def)
    then show ?thesis using Some long by (simp add: defer_event_def settling_def)
  qed
  have f: "inputs_of (x\<lparr>ss_deferred := g\<rparr>) = inputs_of x" "inputs_of (x\<lparr>ss_events := g\<rparr>) = inputs_of x" for x :: "'a sess" and g
    by (simp_all add: inputs_of_def)
  show "inputs_of (enqueueEvent ev st) = inputs_of st"
    by (simp add: enqueueEvent_def views f)
  have e: "evs_of (enqueueEvent ev st) = (if ss_external st then (ss_events st, defer_event ev (ss_deferred st), ss_heard st, ss_closing st)
      else (ss_events st @ [ev], ss_deferred st, ss_heard st, ss_closing st))"
    by (simp add: enqueueEvent_def views) (simp add: evs_of_def)
  show "ss_closing (enqueueEvent ev st) = ss_closing st" using e by (simp add: evs_of_def split: if_splits)
  show "kept_outcomes (enqueueEvent ev st) = kept_outcomes st + mset (filter settling [ev])"
    using e deferred [of "ss_deferred st"] by (auto simp: evs_of_def kept_outcomes_def split: if_splits)
qed

lemma on_event_views:
  "inputs_of (on_event env ev st) = inputs_of st" "ss_closing (on_event env ev st) = ss_closing st"
  "\<not> ss_closing st \<Longrightarrow> kept_outcomes (on_event env ev st) = kept_outcomes st + mset (filter settling [ev])"
proof -
  have f: "inputs_of (x\<lparr>ss_owners := g\<rparr>) = inputs_of x" "evs_of (x\<lparr>ss_owners := g\<rparr>) = evs_of x"
    "inputs_of (x\<lparr>ss_version := n\<rparr>) = inputs_of x" "evs_of (x\<lparr>ss_version := n\<rparr>) = evs_of x" for x :: "'a sess" and g n
    by (simp_all add: inputs_of_def evs_of_def)
  obtain x where x: "inputs_of x = inputs_of st" "evs_of x = evs_of st"
    and r: "on_event env ev st = (if ss_closing x \<or> te_kind ev = EStarted then x
        else enqueueEvent ev (if te_kind ev = ELongRunning then x else x\<lparr>ss_version := ss_version x + 1\<rparr>))"
    by (rule that [of "changed (upd_scope (\<lambda>sc. sc\<lparr>sc_plan := map_option recomputePlanStatus (sc_plan sc)\<rparr>) _)", rotated 2])
      (simp add: on_event_def Let_def, simp_all add: views f)
  define y where "y = (if te_kind ev = ELongRunning then x else x\<lparr>ss_version := ss_version x + 1\<rparr>)"
  have y: "inputs_of y = inputs_of st" "evs_of y = evs_of st" using x f by (simp_all add: y_def)
  note ox = kept_outcomes_evs [OF x(2)] and oy = kept_outcomes_evs [OF y(2)]
  note r' = r [folded y_def]
  show "inputs_of (on_event env ev st) = inputs_of st" using r' x y by (auto simp: enqueue_views)
  show "ss_closing (on_event env ev st) = ss_closing st" using r' ox oy by (auto simp: enqueue_views)
  show "kept_outcomes (on_event env ev st) = kept_outcomes st + mset (filter settling [ev])" if "\<not> ss_closing st"
    using r' ox oy enqueue_views(3) [of ev y] that by (auto simp: settling_def)
qed

lemma notify_views:
  "inputs_of (fold (notify_long env now) ts st) = inputs_of st" "ss_closing (fold (notify_long env now) ts st) = ss_closing st"
  "kept_outcomes (fold (notify_long env now) ts st) = kept_outcomes st"
proof (induction ts arbitrary: st)
  case (Cons t ts)
  have f: "inputs_of (x\<lparr>ss_notified := g\<rparr>) = inputs_of x" "kept_outcomes (x\<lparr>ss_notified := g\<rparr>) = kept_outcomes x" for x :: "'a sess" and g
    by (simp_all add: inputs_of_def kept_outcomes_def)
  { case 1 show ?case using Cons.IH(1) by (simp add: notify_long_def enqueue_views f) }
  { case 2 show ?case using Cons.IH(2) by (simp add: notify_long_def enqueue_views f) }
  { case 3 show ?case using Cons.IH(3) by (simp add: notify_long_def enqueue_views f settling_def) }
qed simp_all

lemma waitTick_views:
  "inputs_of (waitTick env now st) = inputs_of st" "ss_closing (waitTick env now st) = ss_closing st"
  "kept_outcomes (waitTick env now st) = kept_outcomes st"
proof -
  have f: "inputs_of (x\<lparr>ss_nextTick := g\<rparr>) = inputs_of x" "evs_of (x\<lparr>ss_nextTick := g\<rparr>) = evs_of x" for x :: "'a sess" and g
    by (simp_all add: inputs_of_def evs_of_def)
  define x where "x = (case ss_nextTick st of
      Some n \<Rightarrow> if list_ex unsettled (sv_list env st) \<and> now \<ge> n then st\<lparr>ss_nextTick := Some (now + sv_waitTickMs env)\<rparr> else st
    | None \<Rightarrow> st)"
  define y where "y = (if sv_longTaskMs env > 0 then fold (notify_long env now) (sv_list env st) x else x)"
  have x: "inputs_of x = inputs_of st" "evs_of x = evs_of st" by (auto simp: x_def f split: option.split)
  have y: "inputs_of y = inputs_of st" "ss_closing y = ss_closing st" "kept_outcomes y = kept_outcomes st"
    using x kept_outcomes_evs [OF x(2)] by (simp_all add: y_def notify_views)
  have "waitTick env now st = (if ss_closing st then st else changed y)" by (simp only: waitTick_def Let_def x_def y_def)
  moreover have "inputs_of (changed y) = inputs_of y" "kept_outcomes (changed y) = kept_outcomes y \<and> ss_closing (changed y) = ss_closing y"
    using kept_outcomes_evs views by (simp add: views, metis views)
  ultimately show "inputs_of (waitTick env now st) = inputs_of st" "ss_closing (waitTick env now st) = ss_closing st"
    "kept_outcomes (waitTick env now st) = kept_outcomes st"
    using y by simp_all
qed

lemma open_turn_views:
  "ss_users (open_turn env now user text evs st) = ss_users st" "ss_answers (open_turn env now user text evs st) = ss_answers st"
  "ss_sent (open_turn env now user text evs st) = ss_sent st" "ss_closing (open_turn env now user text evs st) = ss_closing st"
  "ss_events (open_turn env now user text evs st) = ss_events st" "ss_deferred (open_turn env now user text evs st) = ss_deferred st"
  "ss_heard (open_turn env now user text evs st) = ss_heard st @ evs"
  "\<exists>i e w. ss_turn (open_turn env now user text evs st) = Some (fresh_turn user text evs i e w)"
proof -
  have "\<exists>x. queue_of x = queue_of st \<and> (\<exists>i e w. open_turn env now user text evs st
      = x\<lparr>ss_heard := ss_heard x @ evs, ss_turn := Some (fresh_turn user text evs i e w)\<rparr>)"
    unfolding open_turn_def Let_def by (intro exI conjI, rule refl [THEN [2] rev_iffD1], simp_all add: frames)
  then show "ss_users (open_turn env now user text evs st) = ss_users st" "ss_answers (open_turn env now user text evs st) = ss_answers st"
    "ss_sent (open_turn env now user text evs st) = ss_sent st" "ss_closing (open_turn env now user text evs st) = ss_closing st"
    "ss_events (open_turn env now user text evs st) = ss_events st" "ss_deferred (open_turn env now user text evs st) = ss_deferred st"
    "ss_heard (open_turn env now user text evs st) = ss_heard st @ evs"
    "\<exists>i e w. ss_turn (open_turn env now user text evs st) = Some (fresh_turn user text evs i e w)"
    by (auto simp: queue_of_eq simp del: ex_simps) blast+
qed

end
