(* ===== verification/DialogueRuns.thy ===== *)
theory DialogueRuns
  imports DialogueInv
begin

text \<open>
  What holds in every reachable state of a dialogue session: each accepted message is queued, being answered or
  answered, and only one of these; the outcome events of the board are waiting or taken up until the session closes;
  the conversation alternates and stays bounded; a turn makes a bounded number of planner calls.
\<close>

subsection \<open>Messages\<close>

definition tickets_of where
  "tickets_of us u as = mset (map ut_id us) + mset (map ut_id (case u of None \<Rightarrow> [] | Some x \<Rightarrow> [x])) + mset (map fst as)"

definition tickets :: "'b sess \<Rightarrow> nat multiset" where
  "tickets st = tickets_of (ss_users st) (Option.bind (ss_turn st) tu_user) (ss_answers st)"

lemma tickets_views: "inputs_of a = inputs_of b \<Longrightarrow> tickets a = tickets b \<and> ss_sent a = ss_sent b"
  by (simp add: inputs_of_def tickets_def)

lemma open_turn_inputs:
  "inputs_of (open_turn env now user text evs st) = (ss_users st, user, ss_answers st, ss_sent st)"
proof -
  obtain i e w where "ss_turn (open_turn env now user text evs st) = Some (fresh_turn user text evs i e w)"
    using open_turn_views(8) by blast
  then show ?thesis by (simp add: inputs_of_def open_turn_views fresh_turn_def)
qed

lemma changed_basic:
  "ss_users (changed st) = ss_users st" "ss_answers (changed st) = ss_answers st" "ss_sent (changed st) = ss_sent st"
  "ss_turn (changed st) = ss_turn st" "ss_events (changed st) = ss_events st" "ss_deferred (changed st) = ss_deferred st"
  "ss_heard (changed st) = ss_heard st" "ss_closing (changed st) = ss_closing st"
  using queue_requests(2) [of st] by (simp_all add: queue_of_def)

lemma open_turn_tickets:
  "tickets (open_turn env now user text evs st) = tickets_of (ss_users st) user (ss_answers st)"
  "ss_sent (open_turn env now user text evs st) = ss_sent st"
  by (simp_all add: open_turn_inputs [unfolded inputs_of_def, simplified] tickets_def)

lemma start_turn_tickets:
  assumes "ss_turn st = None"
  shows "tickets (start_turn env now st) = tickets st \<and> ss_sent (start_turn env now st) = ss_sent st"
  using assms
  by (cases "ss_users st")
    (simp_all add: start_turn_def Let_def open_turn_tickets changed_basic, simp_all add: tickets_def tickets_of_def)

lemma settle_turn_tickets: "tickets (settle_turn st) = tickets st \<and> ss_sent (settle_turn st) = ss_sent st"
  by (auto simp: settle_turn_def tickets_def changed_basic tickets_of_def split: option.split turn_phase.split)

lemma close_tickets: "tickets (close_session st) = tickets st \<and> ss_sent (close_session st) = ss_sent st"
  by (auto simp: close_session_def tickets_def changed_basic tickets_of_def multiset.map_comp comp_def)

lemma send_tickets:
  "tickets (send_message text st) = add_mset (ss_sent st) (tickets st) \<and> ss_sent (send_message text st) = Suc (ss_sent st)"
  by (auto simp: send_message_def tickets_def changed_basic tickets_of_def Let_def)

lemma tool_inputs:
  "inputs_of (snd (tool_open ab name st)) = inputs_of st" "inputs_of (tool_close ab st) = inputs_of st"
  "inputs_of (snd (takePending st)) = inputs_of st" "inputs_of (finish_close env st) = inputs_of st"
  "inputs_of (snd (updateWaitClock env now st)) = inputs_of st"
  by (simp_all add: tool_open_def tool_close_def takePending_def finish_close_def updateWaitClock_def inputs_of_def
      changed_basic upd_scope_def persist_def Let_def split: option.split)

lemma tool_evs:
  "evs_of (snd (tool_open ab name st)) = evs_of st" "evs_of (tool_close ab st) = evs_of st"
  "evs_of (snd (takePending st)) = evs_of st" "evs_of (snd (updateWaitClock env now st)) = evs_of st"
  by (simp_all add: tool_open_def tool_close_def takePending_def updateWaitClock_def evs_of_def
      changed_basic upd_scope_def persist_def Let_def split: option.split)

lemmas step_views = retrieved_views begin_call_views prepare_fails_views guard_round_views before_tool_views
  new_request_views deliver_commit_views status_read_views partial_chunk_views with_flow_views tool_inputs tool_evs
  end_call_views(1) waitTick_views(1) on_event_views(1) frames_inputs

lemma saved_views:
  "inputs_of (st\<lparr>ss_unsaved := a, ss_savedAt := b\<rparr>) = inputs_of st" "evs_of (st\<lparr>ss_unsaved := a, ss_savedAt := b\<rparr>) = evs_of st"
  by (simp_all add: inputs_of_def evs_of_def)

lemma session_step_inputs:
  assumes "session_step env progress es st st'"
  shows "inputs_of st' = inputs_of st \<or> (\<exists>text. st' = send_message text st) \<or> (can_start st \<and> (\<exists>now. st' = start_turn env now st))
    \<or> st' = settle_turn st \<or> st' = close_session st"
  using assms by cases (auto simp: step_views saved_views)

lemma session_step_tickets:
  assumes "session_step env progress es st st'"
  shows "tickets st' = tickets st \<and> ss_sent st' = ss_sent st
    \<or> tickets st' = add_mset (ss_sent st) (tickets st) \<and> ss_sent st' = Suc (ss_sent st)"
  using session_step_inputs [OF assms]
  by (auto simp: send_tickets start_turn_tickets settle_turn_tickets close_tickets can_start_def dest: tickets_views)

lemma session_tickets:
  assumes "session_run env progress st0 evs st" "tickets st0 = mset [0..<ss_sent st0]"
  shows "tickets st = mset [0..<ss_sent st]"
  using assms(1)
proof (induction rule: session_run_rule)
  case start
  show ?case by (rule assms(2))
next
  case (step evs st es st')
  then show ?case using session_step_tickets [OF step(2)] by (auto simp: atLeastLessThanSuc)
qed

subsection \<open>Outcomes\<close>

lemma live_outcomes_mset: "filter_mset settling (mset (liveEvents env st evs)) = filter_mset settling (mset evs)"
  by (metis live_outcomes mset_filter)

lemma start_turn_outcomes:
  "kept_outcomes (start_turn env now st) = kept_outcomes st \<and> ss_closing (start_turn env now st) = ss_closing st"
proof (cases "ss_users st")
  case Nil
  then show ?thesis using live_outcomes [of env st "ss_events st"]
    by (cases "liveEvents env st (ss_events st) = []")
      (simp_all add: start_turn_def Let_def kept_outcomes_def open_turn_views changed_basic live_outcomes_mset
        flip: mset_filter)
next
  case (Cons u us)
  then show ?thesis
    by (simp add: start_turn_def Let_def kept_outcomes_def open_turn_views changed_basic live_outcomes_mset)
qed

lemma settle_turn_evs: "evs_of (settle_turn st) = evs_of st"
  by (auto simp: settle_turn_def evs_of_def changed_basic split: option.split turn_phase.split)

lemma send_evs: "evs_of (send_message text st) = evs_of st"
  by (auto simp: send_message_def evs_of_def changed_basic Let_def)

lemma session_step_evs:
  assumes "session_step env progress es st st'"
  obtains (same) "evs_of st' = evs_of st" "es = []"
    | (starts) now where "st' = start_turn env now st" "es = []"
    | (ends) now ab reply where "st' = end_call env now ab reply st" "es = []"
    | (ticks) now where "st' = waitTick env now st" "es = []"
    | (event) ev x where "st' = on_event env ev x" "evs_of x = evs_of st" "es = [ev]"
    | (closed) "ss_closing st'"
  using assms
proof cases
  case starts
  then show ?thesis using that(2) by blast
next
  case ends
  then show ?thesis using that(3) by blast
next
  case ticks
  then show ?thesis using that(4) by blast
next
  case reported
  then show ?thesis using that(5) frames_evs(1) by blast
next
  case closes
  then show ?thesis using that(6) by (simp add: close_session_def changed_basic split: if_splits)
next
  case closed
  then show ?thesis using that(1,6) by (auto simp: finish_close_def upd_scope_def split: if_splits)
qed (simp_all add: that(1) step_views saved_views frames_evs settle_turn_evs send_evs)

lemma session_step_outcomes:
  assumes "session_step env progress es st st'"
  shows "ss_closing st' \<or> (\<not> ss_closing st \<and> kept_outcomes st' = kept_outcomes st + mset (filter settling es))"
  using assms
proof (cases rule: session_step_evs)
  case same
  then show ?thesis using kept_outcomes_evs [OF same(1)] by auto
next
  case (event ev x)
  have "ss_closing st' = ss_closing x" using event(1) by (simp add: on_event_views)
  moreover have "kept_outcomes st' = kept_outcomes x + mset (filter settling [ev])" if "\<not> ss_closing x"
    using event(1) on_event_views(3) [OF that] by simp
  ultimately show ?thesis using kept_outcomes_evs [OF event(2)] event(3) by auto
next
  case (starts now)
  then show ?thesis by (simp add: start_turn_outcomes)
next
  case (ends now ab reply)
  then show ?thesis by (simp add: end_call_views)
next
  case (ticks now)
  then show ?thesis by (simp add: waitTick_views)
next
  case closed
  then show ?thesis by simp
qed

lemma session_outcomes:
  assumes "session_run env progress st0 evs st" "\<not> ss_closing st"
  shows "kept_outcomes st = kept_outcomes st0 + mset (filter settling evs)"
proof -
  have "ss_closing st \<or> kept_outcomes st = kept_outcomes st0 + mset (filter settling evs)"
    using assms(1)
  proof (induction rule: session_run_rule)
    case start
    show ?case by simp
  next
    case (step evs st es st')
    then show ?case using session_step_outcomes [OF step(2)] by auto
  qed
  then show ?thesis using assms(2) by simp
qed

end
