(* ===== verification/DialogueTalk.thy ===== *)
theory DialogueTalk
  imports DialogueRuns
begin

text \<open>
  The conversation a session keeps and the planner calls of a turn, in every reachable state.  \<open>talk_of\<close> is the part of
  the state both depend on: the conversation, and of the turn its counters and the stage of its current call.
\<close>

subsection \<open>Conversations\<close>

fun alternates :: "role \<Rightarrow> conv_msg list \<Rightarrow> bool" where
  "alternates r [] = True"
| "alternates r (m # ms) = (co_role m = r \<and> alternates (if r = RUser then RAssistant else RUser) ms)"

definition broken :: "conv_msg \<Rightarrow> bool" where
  "broken m \<longleftrightarrow> co_leading m \<and> CHR 10 \<notin> set (co_content m)"

text \<open>What trimming expects, and what it leaves.\<close>

definition untrimmed_ok :: "conv_msg list \<Rightarrow> bool" where
  "untrimmed_ok ms \<longleftrightarrow> alternates RUser ms \<and> (ms \<noteq> [] \<longrightarrow> co_role (last ms) = RUser) \<and> (\<forall>m \<in> set (butlast ms). \<not> broken m)"

definition conv_ok :: "conv_msg list \<Rightarrow> bool" where
  "conv_ok ms \<longleftrightarrow> untrimmed_ok ms \<and> length ms \<le> 200 \<and> (ms \<noteq> [] \<longrightarrow> \<not> co_leading (hd ms))"

definition last_ok :: "conv_msg list \<Rightarrow> bool" where
  "last_ok ms \<longleftrightarrow> ms \<noteq> [] \<and> \<not> broken (last ms)"

lemma alternates_append:
  "alternates r (ms @ ns) \<longleftrightarrow> alternates r ms \<and> alternates (if even (length ms) then r else if r = RUser then RAssistant else RUser) ns"
  if "r = RUser \<or> r = RAssistant"
  using that by (induction ms arbitrary: r) auto

lemma drop_pairs_ok:
  "untrimmed_ok ms \<Longrightarrow> untrimmed_ok (drop_pairs ms) \<and> length (drop_pairs ms) \<le> 200
     \<and> (last_ok ms \<longrightarrow> last_ok (drop_pairs ms))"
proof (induction ms rule: drop_pairs.induct)
  case (1 a b ms)
  have tail: "ms \<noteq> []" if "length ms + 2 > 200" using that by auto
  have "untrimmed_ok ms" "last_ok (a # b # ms) \<longrightarrow> last_ok ms" if "length ms + 2 > 200"
    using tail [OF that] "1.prems" by (auto simp: untrimmed_ok_def last_ok_def)
  then show ?case using 1 by auto
qed auto

lemma trim_ok:
  assumes "untrimmed_ok ms"
  shows "conv_ok (trim_conversation ms)" and "last_ok ms \<Longrightarrow> last_ok (trim_conversation ms)"
proof -
  define ns where "ns = drop_pairs ms"
  have ns: "untrimmed_ok ns" "length ns \<le> 200" "last_ok ms \<Longrightarrow> last_ok ns"
    using drop_pairs_ok [OF assms] by (auto simp: ns_def)
  have "conv_ok (trim_conversation ms) \<and> (last_ok ms \<longrightarrow> last_ok (trim_conversation ms))"
  proof (cases ns)
    case Nil
    then show ?thesis using ns by (auto simp: trim_conversation_def ns_def [symmetric] conv_ok_def last_ok_def untrimmed_ok_def)
  next
    case (Cons m r)
    then have user: "co_role m = RUser" using ns(1) by (simp add: untrimmed_ok_def)
    have t: "trim_conversation ms = (if co_leading m then
        (case findIndex (\<lambda>c. c = CHR 10) (co_content m) of None \<Rightarrow> r
         | Some i \<Rightarrow> m\<lparr>co_content := drop (i + 1) (co_content m), co_leading := False\<rparr> # r) else m # r)"
      using user by (simp add: trim_conversation_def ns_def [symmetric] Cons)
    show ?thesis
    proof (cases "broken m")
      case True
      then have "r = []" using ns(1) Cons by (auto simp: untrimmed_ok_def split: if_splits)
      moreover have "findIndex (\<lambda>c. c = CHR 10) (co_content m) = None"
        using True by (auto simp: broken_def findIndex_None_iff)
      ultimately show ?thesis
        using True ns(3) Cons t by (auto simp: conv_ok_def untrimmed_ok_def last_ok_def broken_def)
    next
      case False
      then have "co_leading m \<Longrightarrow> findIndex (\<lambda>c. c = CHR 10) (co_content m) \<noteq> None"
        by (auto simp: broken_def findIndex_None_iff)
      then show ?thesis
        using ns Cons t by (auto simp: conv_ok_def untrimmed_ok_def last_ok_def broken_def split: option.splits if_splits)
    qed
  qed
  then show "conv_ok (trim_conversation ms)" "last_ok ms \<Longrightarrow> last_ok (trim_conversation ms)" by simp_all
qed

lemma add_input_ok:
  assumes "conv_ok ms"
  shows "untrimmed_ok (add_input text ms)" and "last_ok (add_input text ms)"
proof -
  show "last_ok (add_input text ms)"
    by (simp add: add_input_def last_ok_def broken_def user_msg_def)
  show "untrimmed_ok (add_input text ms)"
  proof (cases "ms = []")
    case False
    then have "ms = butlast ms @ [last ms]" by simp
    then show ?thesis
      using assms False alternates_append [of RUser "butlast ms" "[last ms]"] alternates_append [of RUser "butlast ms"]
      by (auto simp: add_input_def conv_ok_def untrimmed_ok_def)
  qed (simp add: add_input_def untrimmed_ok_def user_msg_def)
qed

lemma alternates_even: "alternates RUser ms \<Longrightarrow> ms \<noteq> [] \<Longrightarrow> co_role (last ms) = RUser \<Longrightarrow> odd (length ms)"
  using alternates_append [of RUser "butlast ms" "[last ms]"] by (cases "even (length ms)") (auto split: if_splits)

lemma reply_ok:
  assumes "conv_ok ms" "last_ok ms"
  shows "untrimmed_ok (ms @ [\<lparr>co_role = RAssistant, co_content = a, co_leading = False\<rparr>,
      \<lparr>co_role = RUser, co_content = b, co_leading = True\<rparr>])"
proof -
  have "odd (length ms)" using assms alternates_even by (auto simp: conv_ok_def untrimmed_ok_def last_ok_def)
  moreover have "\<forall>m \<in> set ms. \<not> broken m"
    using assms by (metis append_butlast_last_id conv_ok_def last_ok_def rotate1.simps(2) set_ConsD set_rotate1 untrimmed_ok_def)
  ultimately show ?thesis
    using assms alternates_append [of RUser ms]
    by (auto simp: conv_ok_def untrimmed_ok_def last_ok_def butlast_append broken_def)
qed

subsection \<open>The part of the state\<close>

definition stage :: "turn \<Rightarrow> nat" where
  "stage t = (case tu_phase t of Retrieving \<Rightarrow> 0 | Ready \<Rightarrow> 1 | InCall c \<Rightarrow> (if ca_restarting c then 3 else 2) | Saving _ \<Rightarrow> 4)"

definition key_of :: "turn \<Rightarrow> nat \<times> nat \<times> bool \<times> nat" where
  "key_of t = (tu_callIndex t, tu_correction t, tu_didRestart t, stage t)"

definition talk_of where
  "talk_of st = (ss_conversation st, map_option key_of (ss_turn st))"

definition key_ok :: "nat \<Rightarrow> nat \<times> nat \<times> bool \<times> nat \<Rightarrow> bool" where
  "key_ok m = (\<lambda>(n, k, r, s). s = 4 \<or> (k \<le> m \<and> (if s = 3 then n = k \<and> r else n = k + (if r then 1 else 0))))"

definition talk_ok :: "nat \<Rightarrow> conv_msg list \<times> (nat \<times> nat \<times> bool \<times> nat) option \<Rightarrow> bool" where
  "talk_ok m = (\<lambda>(ms, k). conv_ok ms \<and> (case k of None \<Rightarrow> True | Some x \<Rightarrow> key_ok m x \<and> (snd (snd (snd x)) < 4 \<longrightarrow> last_ok ms)))"

lemma upd_turn_talk: "(\<And>t. key_of (f t) = key_of t) \<Longrightarrow> talk_of (upd_turn f st) = talk_of st"
  by (cases "ss_turn st") (simp_all add: talk_of_def)

lemma upd_call_talk: "(\<And>c. ca_restarting (f c) = ca_restarting c) \<Longrightarrow> talk_of (upd_call f st) = talk_of st"
  unfolding upd_call_def by (rule upd_turn_talk) (simp add: key_of_def stage_def split: turn_phase.split)

lemma queue_talk: "queue_of a = queue_of b \<Longrightarrow> ss_conversation a = ss_conversation b \<Longrightarrow> talk_of a = talk_of b"
  by (simp add: talk_of_def queue_of_def)

named_theorems talk_frames

lemma basic_talk [talk_frames]:
  "talk_of (upd_scope f st) = talk_of st" "talk_of (upd_request i g st) = talk_of st"
  "talk_of (retainRequests st) = talk_of st" "talk_of (persist st) = talk_of st" "talk_of (changed st) = talk_of st"
  "talk_of (updateRequestPlan st) = talk_of st" "talk_of (resolveFailures env i st) = talk_of st"
  "talk_of (set_no_plan st) = talk_of st" "talk_of (beginRequest env text user now st) = talk_of st"
  "talk_of (take_consent st) = talk_of st" "talk_of (restart_inputs env now text evs st) = talk_of st"
  "talk_of (close_current env now t st) = talk_of st" "talk_of (owner_for env now r i st) = talk_of st"
  "talk_of (fold (owner_for env now r) is st) = talk_of st"
  by (rule queue_talk; simp add: frames)+

lemma fields_talk [talk_frames]:
  "talk_of (st\<lparr>ss_requested := a\<rparr>) = talk_of st" "talk_of (st\<lparr>ss_flow := b\<rparr>) = talk_of st"
  "talk_of (st\<lparr>ss_pending := c\<rparr>) = talk_of st" "talk_of (st\<lparr>ss_events := d, ss_heard := e\<rparr>) = talk_of st"
  "talk_of (st\<lparr>ss_shown := f\<rparr>) = talk_of st" "talk_of (st\<lparr>ss_deferred := g\<rparr>) = talk_of st"
  "talk_of (st\<lparr>ss_events := d\<rparr>) = talk_of st" "talk_of (st\<lparr>ss_owners := h\<rparr>) = talk_of st"
  "talk_of (st\<lparr>ss_version := i\<rparr>) = talk_of st" "talk_of (st\<lparr>ss_notified := j\<rparr>) = talk_of st"
  "talk_of (st\<lparr>ss_nextTick := l\<rparr>) = talk_of st" "talk_of (st\<lparr>ss_unsaved := n, ss_savedAt := q\<rparr>) = talk_of st"
  by (simp_all add: talk_of_def)

subsection \<open>Operations that leave it alone\<close>

lemma quiet_talk [talk_frames]:
  "talk_of (snd (guard_round names st)) = talk_of st" "talk_of (snd (before_tool name st)) = talk_of st"
  "talk_of (status_read st) = talk_of st"
proof -
  have "upd_call (\<lambda>_. c\<lparr>ca_roundCount := n, ca_reserved := r\<rparr>) st = upd_call (\<lambda>c. c\<lparr>ca_roundCount := n, ca_reserved := r\<rparr>) st"
    if "current_call st = Some (t, c)" for t c n r
    using the_turn [OF that] by (simp add: upd_call_def upd_turn_def)
  then show "talk_of (snd (guard_round names st)) = talk_of st"
    by (simp add: guard_round_def upd_call_talk Let_def split: option.split)
  show "talk_of (snd (before_tool name st)) = talk_of st"
    by (simp add: before_tool_def upd_call_talk split: option.split)
  show "talk_of (status_read st) = talk_of st"
    unfolding status_read_def by (rule upd_turn_talk) (simp add: key_of_def stage_def)
qed

lemma partial_talk [talk_frames]: "talk_of (partial_chunk p st) = talk_of st"
proof (cases "current_call st")
  case (Some tc)
  obtain t c where tc: "current_call st = Some (t, c)" using Some by (cases tc) simp
  obtain tx c1 where p: "partial_call p (tu_partial t) c = (tx, c1)" by fastforce
  have "ca_restarting c1 = ca_restarting c"
    using p by (auto simp: partial_call_def split: partial.splits iteration_end.splits if_splits)
  then show ?thesis
    using the_turn [OF tc] by (simp add: partial_chunk_def tc p talk_of_def key_of_def stage_def)
qed (simp add: partial_chunk_def)

lemma deliver_talk [talk_frames]: "talk_of (snd (deliver_commit env task dnote resolves output st)) = talk_of st"
proof -
  have "key_of (t\<lparr>tu_pendingIds := a, tu_references := b, tu_deliveries := c, tu_partial := d\<rparr>) = key_of t" for t a b c d
    by (simp add: key_of_def stage_def)
  then show ?thesis
    by (simp add: deliver_commit_def upd_call_talk upd_turn_talk talk_frames Let_def split: option.split sum.split)
qed

lemma with_flow_talk [talk_frames]: "talk_of (with_flow env now r fl st) = talk_of st"
proof -
  have "key_of (t\<lparr>tu_actions := a, tu_started := b\<rparr>) = key_of t" for t a b
    by (simp add: key_of_def stage_def)
  then show ?thesis
    by (simp add: with_flow_def absorb_scope_def upd_turn_talk talk_frames Let_def split: option.split)
qed

lemma board_talk [talk_frames]:
  "talk_of (on_event env ev st) = talk_of st" "talk_of (enqueueEvent ev st) = talk_of st"
  "talk_of (waitTick env now st) = talk_of st" "talk_of (snd (updateWaitClock env now st)) = talk_of st"
proof -
  show e: "talk_of (enqueueEvent ev st) = talk_of st" for ev and st :: "'a sess"
    by (simp add: enqueueEvent_def talk_frames)
  show "talk_of (on_event env ev st) = talk_of st"
    by (simp add: on_event_def Let_def e talk_frames)
  have "talk_of (fold (notify_long env now) ts x) = talk_of x" for ts and x :: "'a sess"
    by (induction ts arbitrary: x) (simp_all add: notify_long_def e talk_frames)
  then show "talk_of (waitTick env now st) = talk_of st"
    by (simp add: waitTick_def Let_def talk_frames split: option.split)
  show "talk_of (snd (updateWaitClock env now st)) = talk_of st"
    by (simp add: updateWaitClock_def Let_def talk_frames)
qed

lemma outside_talk [talk_frames]:
  "talk_of (snd (tool_open ab name st)) = talk_of st" "talk_of (tool_close ab st) = talk_of st"
  "talk_of (snd (takePending st)) = talk_of st" "talk_of (send_message text st) = talk_of st"
  "talk_of (close_session st) = talk_of st" "talk_of (finish_close env st) = talk_of st"
proof -
  show "talk_of (finish_close env st) = talk_of st" by (simp add: finish_close_def talk_frames) (simp add: talk_of_def)
  have "talk_of (x\<lparr>ss_tool := a\<rparr>) = talk_of x" "talk_of (x\<lparr>ss_external := b, ss_tool := a\<rparr>) = talk_of x" for x :: "'a sess" and a b
    by (simp_all add: talk_of_def)
  then show "talk_of (snd (tool_open ab name st)) = talk_of st" "talk_of (tool_close ab st) = talk_of st"
    by (simp_all add: tool_open_def tool_close_def Let_def talk_frames split: option.split)
  show "talk_of (snd (takePending st)) = talk_of st" by (simp add: takePending_def talk_frames)
  show "talk_of (send_message text st) = talk_of st" "talk_of (close_session st) = talk_of st"
    by (simp_all add: send_message_def close_session_def Let_def talk_frames) (simp_all add: talk_of_def)
qed

subsection \<open>Operations that move a turn on\<close>

lemma append_conv:
  assumes "conv_ok (ss_conversation st)"
  shows "conv_ok (ss_conversation (appendInput tx kind st))" "last_ok (ss_conversation (appendInput tx kind st))"
proof -
  have c: "ss_conversation (appendInput tx kind st) = trim_conversation (add_input tx (ss_conversation st))"
    by (simp add: appendInput_def trim_session_def Let_def upd_request_def split: option.split)
  show "conv_ok (ss_conversation (appendInput tx kind st))" "last_ok (ss_conversation (appendInput tx kind st))"
    unfolding c using add_input_ok [OF assms] by (simp_all add: trim_ok)
qed

lemma append_key: "map_option key_of (ss_turn (appendInput tx kind st)) = map_option key_of (ss_turn st)"
  by (simp add: frames_turn)

lemma untrimmed: "conv_ok ms \<Longrightarrow> untrimmed_ok ms"
  by (simp add: conv_ok_def)

lemma take_inputs_conv:
  assumes "conv_ok (ss_conversation st)"
  shows "conv_ok (ss_conversation (take_inputs env now user tx evs st))" "last_ok (ss_conversation (take_inputs env now user tx evs st))"
proof -
  define st1 where "st1 = (case ss_restart st of Some n \<Rightarrow> if n \<noteq> [] then appendInput n (Some KNote) st else st | None \<Rightarrow> st)\<lparr>ss_restart := None\<rparr>"
  have st1: "conv_ok (ss_conversation st1)" using assms by (simp add: st1_def append_conv(1) split: option.split)
  obtain x where x: "conv_ok (ss_conversation x)" "last_ok (ss_conversation x)"
    and r: "take_inputs env now user tx evs st = trim_session x"
  proof (cases user)
    case None
    then show ?thesis using that [of "appendInput tx (Some KEvents) st1"] append_conv [OF st1]
      by (simp add: take_inputs_def Let_def st1_def)
  next
    case (Some u)
    define y where "y = appendInput (ut_text u) None st1"
    have y: "conv_ok (ss_conversation y)" "last_ok (ss_conversation y)" using append_conv [OF st1] by (simp_all add: y_def)
    have "take_inputs env now user tx evs st
        = trim_session (if eventNotes env now y evs = [] then y else appendInput (eventNotes env now y evs) (Some KEvents) y)"
      by (simp add: take_inputs_def Let_def st1_def y_def Some)
    then show ?thesis
      using that [of "if eventNotes env now y evs = [] then y else appendInput (eventNotes env now y evs) (Some KEvents) y"] y
      by (simp add: append_conv)
  qed
  show "conv_ok (ss_conversation (take_inputs env now user tx evs st))" "last_ok (ss_conversation (take_inputs env now user tx evs st))"
    unfolding r trim_session_def using trim_ok [OF untrimmed [OF x(1)]] x(2) by simp_all
qed

lemma open_turn_talk:
  assumes "conv_ok (ss_conversation st)"
  shows "talk_ok m (talk_of (open_turn env now user tx evs st))"
proof -
  obtain i e w where t: "ss_turn (open_turn env now user tx evs st) = Some (fresh_turn user tx evs i e w)"
    using open_turn_views(8) by blast
  have "conv_ok (ss_conversation (open_turn env now user tx evs st)) \<and> last_ok (ss_conversation (open_turn env now user tx evs st))"
    using assms by (simp add: open_turn_def Let_def take_inputs_conv frames)
  then show ?thesis by (simp add: talk_ok_def talk_of_def t fresh_turn_def key_of_def stage_def key_ok_def)
qed

lemma talk_conv: "talk_ok m (talk_of st) \<Longrightarrow> conv_ok (ss_conversation st)"
  by (simp add: talk_ok_def talk_of_def)

lemma conv_changed [simp]: "ss_conversation (changed st) = ss_conversation st"
  by (simp add: frames)

lemma start_turn_talk:
  assumes "talk_ok m (talk_of st)" "ss_turn st = None"
  shows "talk_ok m (talk_of (start_turn env now st))"
proof -
  have c: "conv_ok (ss_conversation st)" using talk_conv [OF assms(1)] .
  show ?thesis
    using c assms by (cases "ss_users st") (simp_all add: start_turn_def Let_def talk_frames open_turn_talk)
qed

text \<open>The same turn at another stage, with another key.\<close>

definition rekeyed where
  "rekeyed st k st' \<longleftrightarrow> ss_conversation st' = ss_conversation st \<and> map_option key_of (ss_turn st') = Some k"

lemma rekeyed_talk:
  "rekeyed st k st' \<Longrightarrow> talk_ok m (talk_of st) \<Longrightarrow> ss_turn st = Some t \<Longrightarrow> stage t < 4 \<Longrightarrow>
     (key_ok m (key_of t) \<Longrightarrow> key_ok m k) \<Longrightarrow> talk_ok m (talk_of st')"
  by (auto simp: rekeyed_def talk_ok_def talk_of_def key_of_def)

lemma fail_talk: "talk_ok m (talk_of st) \<Longrightarrow> talk_ok m (talk_of (fail_turn e st))"
  by (cases "ss_turn st")
    (auto simp: talk_ok_def talk_of_def fail_turn_def persist_def key_of_def stage_def key_ok_def)

lemma finish_talk: "conv_ok (ss_conversation st) \<Longrightarrow> talk_ok m (talk_of (finish_turn now reply st)) \<or> ss_turn st = None"
  by (cases "ss_turn st")
    (auto simp: talk_ok_def talk_of_def finish_turn_def persist_def key_of_def stage_def key_ok_def Let_def frames frames_turn)

lemma prepare_talk: "talk_ok m (talk_of st) \<Longrightarrow> talk_ok m (talk_of (prepare_fails e st))"
  by (simp add: prepare_fails_def fail_talk split: option.split)

lemma retrieved_talk:
  assumes "talk_ok m (talk_of st)" "ss_turn st = Some t" "tu_phase t = Retrieving"
  shows "talk_ok m (talk_of (retrieved mem ks st))"
  using assms by (simp add: retrieved_def talk_ok_def talk_of_def key_of_def stage_def key_ok_def)

lemma begin_call_talk:
  assumes "talk_ok m (talk_of st)"
  shows "talk_ok m (talk_of (begin_call env profile st))"
proof (cases "\<exists>t. ss_turn st = Some t \<and> tu_phase t = Ready")
  case True
  then obtain t where t: "ss_turn st = Some t" "tu_phase t = Ready" by blast
  have "rekeyed st (tu_callIndex t, tu_correction t, tu_didRestart t, 2) (begin_call env profile st)"
    by (simp add: begin_call_def t rekeyed_def Let_def key_of_def stage_def fresh_call_def)
  then show ?thesis
    using assms t(1) by (rule rekeyed_talk) (auto simp: t(2) stage_def key_ok_def key_of_def)
qed (use assms in \<open>auto simp: begin_call_def split: option.split\<close>)

lemma stage_call: "tu_phase t = InCall c \<Longrightarrow> stage t < 4"
  by (simp add: stage_def)

lemma start_request_talk:
  assumes "talk_ok m (talk_of st)"
  shows "talk_ok m (talk_of (snd (start_request env now tools st)))"
proof (cases "current_call st")
  case (Some tc)
  obtain t c where tc: "current_call st = Some (t, c)" using Some by (cases tc) simp
  note turn = the_turn [OF tc]
  show ?thesis
  proof (cases "tu_user t = None \<or> \<not> may_restart t \<or> ca_toolCount c \<noteq> tools")
    case True
    then show ?thesis using assms by (cases "tu_user t") (auto simp: start_request_def tc)
  next
    case False
    then obtain u where u: "tu_user t = Some u" and may: "may_restart t" by auto
    define st1 where "st1 = restart_inputs env now (ut_text u) (tu_consumed t)
        (beginRequest env (ut_text u) False now (set_no_plan (close_current env now t st)))"
    have st1: "ss_turn st1 = ss_turn st" "ss_conversation st1 = ss_conversation st"
      by (simp_all add: st1_def frames frames_turn)
    have r: "snd (start_request env now tools st) = changed (retainRequests (upd_call (\<lambda>c. c\<lparr>ca_chunks := [], ca_restarting := True\<rparr>)
        (upd_turn (\<lambda>t. t\<lparr>tu_request := open_id st1, tu_partial := [], tu_lastRead := None, tu_didRestart := True\<rparr>) st1)))"
      using False by (simp add: start_request_def tc u st1_def [symmetric] Let_def)
    have "rekeyed st (tu_callIndex t, tu_correction t, True, 3) (snd (start_request env now tools st))"
      unfolding r rekeyed_def using turn st1 by (simp add: frames frames_turn upd_call_def key_of_def stage_def)
    moreover have "key_ok m (tu_callIndex t, tu_correction t, True, 3)" if "key_ok m (key_of t)"
      using that turn may by (auto simp: key_ok_def key_of_def stage_def may_restart_def split: if_splits)
    ultimately show ?thesis
      using assms turn rekeyed_talk stage_call by metis
  qed
qed (use assms in \<open>simp add: start_request_def\<close>)

lemma new_request_talk:
  assumes "talk_ok m (talk_of st)"
  shows "talk_ok m (talk_of (snd (new_request_tool env now st)))"
proof -
  have "talk_ok m (talk_of (snd (start_request env now n st)))" for n using start_request_talk [OF assms] .
  moreover have "talk_of (upd_call (\<lambda>c. c\<lparr>ca_restartDelivered := True\<rparr>) x) = talk_of x" for x :: "'a sess"
    by (rule upd_call_talk) simp
  ultimately show ?thesis
    using assms by (auto simp: new_request_tool_def case_prod_beta split: option.split)
qed

lemma record_reply_talk:
  assumes "conv_ok (ss_conversation st)" "last_ok (ss_conversation st)"
  shows "conv_ok (ss_conversation (record_reply reply t st))" "ss_turn (record_reply reply t st) = ss_turn st"
proof -
  have c: "ss_conversation (record_reply reply t st) = trim_conversation (ss_conversation st
      @ [\<lparr>co_role = RAssistant, co_content = reply, co_leading = False\<rparr>, \<lparr>co_role = RUser, co_content = actions_line t, co_leading = True\<rparr>])"
    by (simp add: record_reply_def Let_def frames trim_session_def)
  show "conv_ok (ss_conversation (record_reply reply t st))"
    unfolding c using trim_ok(1) [OF reply_ok [OF assms]] .
  show "ss_turn (record_reply reply t st) = ss_turn st"
    by (simp add: record_reply_def Let_def frames_turn)
qed

lemma correct_turn_talk:
  assumes "conv_ok (ss_conversation st)" "ss_turn st = Some t"
    and "tu_callIndex t = tu_correction t + (if tu_didRestart t then 1 else 0) + 1" "tu_correction t < m"
  shows "talk_ok m (talk_of (correct_turn env now t st))"
proof -
  define st1 where "st1 = changed (upd_turn (\<lambda>x. x\<lparr>tu_consumed := tu_consumed x @ liveEvents env st (ss_events st),
      tu_correction := tu_correction x + 1, tu_phase := Ready\<rparr>)
      (st\<lparr>ss_events := [], ss_heard := ss_heard st @ liveEvents env st (ss_events st)\<rparr>))"
  have st1: "conv_ok (ss_conversation st1)" using assms(1) by (simp add: st1_def)
  have k: "map_option key_of (ss_turn st1) = Some (tu_callIndex t, tu_correction t + 1, tu_didRestart t, 1)"
    using assms(2) by (simp add: st1_def frames_turn key_of_def stage_def)
  obtain tx kind where r: "correct_turn env now t st = appendInput tx kind st1"
    by (simp add: correct_turn_def Let_def st1_def)
  have "key_ok m (tu_callIndex t, tu_correction t + 1, tu_didRestart t, 1)"
    using assms(3,4) by (auto simp: key_ok_def split: if_splits)
  then show ?thesis
    using append_conv [OF st1] k by (auto simp: r talk_ok_def talk_of_def append_key)
qed

lemma settle_call_talk:
  assumes "conv_ok (ss_conversation st)" "last_ok (ss_conversation st)" "ss_turn st = Some t"
    and "tu_callIndex t = tu_correction t + (if tu_didRestart t then 1 else 0) + 1"
  shows "talk_ok (sv_maxCorrections env) (talk_of (settle_call env now ab t c r st))"
proof -
  define waiting where "waiting = (tu_waitStop t \<and> \<not> ab)"
  define reply where "reply = reply_text env waiting t c r st"
  define x where "x = record_reply reply t st"
  have x: "conv_ok (ss_conversation x)" "ss_turn x = Some t" using assms by (simp_all add: record_reply_talk x_def)
  have fail: "talk_ok m (talk_of (fail_turn e st))" for m e
    using assms(1,3) by (simp add: talk_ok_def talk_of_def fail_turn_def persist_def key_of_def stage_def key_ok_def)
  have finish: "talk_ok m (talk_of (finish_turn now reply (x\<lparr>ss_shown := g\<rparr>)))" for m g
    using finish_talk [of "x\<lparr>ss_shown := g\<rparr>" m now reply] x by simp
  have "settle_call env now ab t c r st \<in> {fail_turn e st | e. True} \<union> {finish_turn now reply (x\<lparr>ss_shown := g\<rparr>) | g. True}
      \<or> (tu_correction t < sv_maxCorrections env \<and> settle_call env now ab t c r st = correct_turn env now t x)"
    unfolding settle_call_def waiting_def [symmetric] Let_def reply_def [symmetric] x_def [symmetric]
    by (auto split: sum.split bool.split)
  then show ?thesis
    using fail finish correct_turn_talk [OF x assms(4)] by auto
qed

lemma end_call_talk:
  assumes "talk_ok (sv_maxCorrections env) (talk_of st)"
  shows "talk_ok (sv_maxCorrections env) (talk_of (end_call env now ab reply st))"
proof (cases "current_call st")
  case (Some tc)
  obtain t c where tc: "current_call st = Some (t, c)" using Some by (cases tc) simp
  note turn = the_turn [OF tc]
  have ok: "conv_ok (ss_conversation st)" "last_ok (ss_conversation st)" "key_ok (sv_maxCorrections env) (key_of t)"
    using assms turn by (auto simp: talk_ok_def talk_of_def key_of_def stage_def)
  show ?thesis
  proof (cases "caught ab t c reply")
    case (Inl e)
    then show ?thesis using fail_talk [OF assms] by (simp add: end_call_def tc)
  next
    case (Inr result)
    show ?thesis
    proof (cases "ca_restarting c")
      case True
      then have "rekeyed st (tu_callIndex t + 1, tu_correction t, tu_didRestart t, 0) (end_call env now ab reply st)"
        using turn by (simp add: end_call_def tc Inr rekeyed_def key_of_def stage_def)
      then show ?thesis
        using assms turn True stage_call by (elim rekeyed_talk) (auto simp: key_ok_def key_of_def stage_def)
    next
      case False
      define bk where "bk = (\<not> ca_final c \<and> trim (tu_partial t) = [])"
      define t2 where "t2 = (if bk then t\<lparr>tu_callIndex := tu_callIndex t + 1, tu_partial := ca_lastText c\<rparr>
          else t\<lparr>tu_callIndex := tu_callIndex t + 1\<rparr>)"
      have "end_call env now ab reply st
          = settle_call env now ab t2 (if bk then c\<lparr>ca_chunks := ca_lastChunks c\<rparr> else c) result (upd_turn (\<lambda>_. t2) st)"
        using False by (simp add: end_call_def tc Inr t2_def bk_def Let_def)
      moreover have "tu_callIndex t2 = tu_correction t2 + (if tu_didRestart t2 then 1 else 0) + 1"
        using ok(3) turn False by (auto simp: t2_def key_ok_def key_of_def stage_def)
      ultimately show ?thesis
        using ok turn by (simp add: settle_call_talk)
    qed
  qed
qed (use assms in \<open>simp add: end_call_def\<close>)

lemma settle_turn_talk:
  assumes "talk_ok m (talk_of st)"
  shows "talk_ok m (talk_of (settle_turn st))"
  using assms by (simp add: settle_turn_def talk_frames split: option.split turn_phase.split) (simp add: talk_ok_def talk_of_def)

lemma session_step_talk:
  assumes "session_step env progress es st st'" "talk_ok (sv_maxCorrections env) (talk_of st)"
  shows "talk_ok (sv_maxCorrections env) (talk_of st')"
  using assms
  by cases (simp_all add: talk_frames start_turn_talk can_start_def retrieved_talk begin_call_talk prepare_talk new_request_talk
      end_call_talk settle_turn_talk)

lemma session_talk:
  assumes "session_run env progress st0 evs st" "talk_ok (sv_maxCorrections env) (talk_of st0)"
  shows "talk_ok (sv_maxCorrections env) (talk_of st)"
  using assms(1)
proof (induction rule: session_run_rule)
  case start
  show ?case by (rule assms(2))
next
  case (step evs st es st')
  then show ?case using session_step_talk by blast
qed

end
