(* ===== verification/DialogueRestore.thy ===== *)
theory DialogueRestore
  imports DialogueTalk
begin

text \<open>
  What a dialogue session saves and how it is opened again (\<open>snapshot\<close>, \<open>open\<close> of
  \<open>coordinator/dialogue/dialogue-session.ts\<close>).  A stored step may carry fields of older versions, which
  \<open>restoreLegacyStep\<close> reads: \<open>sd_legacy\<close> names them by step id.  The board restores its own tasks (\<open>sv_restore\<close>).
\<close>

subsection \<open>Saved state\<close>

datatype saved_plan = PlanText string | PlanRecord dplan

record saved =
  sd_requests :: "request_rec list option"
  sd_seq :: "nat option"
  sd_conversation :: "(role \<times> string) list"
  sd_leading :: "nat list"
  sd_plan :: "saved_plan option"
  sd_planStatus :: "pstatus option"
  sd_legacy :: "string \<Rightarrow> string option option \<times> bool"
  sd_tasks :: "task_rec list"
  sd_taskSteps :: "(string \<Rightarrow> string option) option"
  sd_owners :: "string \<Rightarrow> string option"
  sd_events :: "task_event list"
  sd_pending :: "reply_msg list"
  sd_savedAt :: rat

definition snapshot :: "'b sess_env \<Rightarrow> 'b sess \<Rightarrow> saved" where
  "snapshot env st =
     \<lparr>sd_requests = Some (ss_requests st), sd_seq = Some (ss_seq st),
      sd_conversation = map (\<lambda>m. (co_role m, co_content m)) (ss_conversation st),
      sd_leading = map fst (filter (\<lambda>(i, m). co_leading m) (enumerate 0 (ss_conversation st))),
      sd_plan = map_option PlanRecord (ss_plan st), sd_planStatus = map_option pl_status (ss_plan st),
      sd_legacy = (\<lambda>i. (None, False)), sd_tasks = sv_list env st, sd_taskSteps = Some (sc_taskSteps (ss_scope st)),
      sd_owners = ss_owners st, sd_events = ss_deferred st, sd_pending = ss_pending st, sd_savedAt = ss_savedAt st\<rparr>"

subsection \<open>Opening\<close>

definition recent :: "nat \<Rightarrow> 'a list \<Rightarrow> 'a list" where
  "recent n xs = drop (length xs - n) xs"

definition marked :: "nat list \<Rightarrow> nat \<Rightarrow> (role \<times> string) list \<Rightarrow> conv_msg list" where
  "marked leading offset ms =
     map (\<lambda>(i, r, s). \<lparr>co_role = r, co_content = s, co_leading = (i + offset \<in> set leading)\<rparr>) (enumerate 0 ms)"

text \<open>The reducer of \<open>open\<close> that joins neighbours of one role; the message kept is the earlier one.\<close>

definition join_message :: "conv_msg list \<Rightarrow> conv_msg \<Rightarrow> conv_msg list" where
  "join_message ms m =
     (if ms \<noteq> [] \<and> co_role (last ms) = co_role m
      then butlast ms @ [(last ms)\<lparr>co_content := co_content (last ms) @ newline @ co_content m\<rparr>]
      else ms @ [m])"

definition restored_conversation :: "saved \<Rightarrow> conv_msg list" where
  "restored_conversation sd =
     (let recentMs = recent 200 (sd_conversation sd);
          offset = length (sd_conversation sd) - length recentMs
      in trim_conversation (foldl join_message [] (marked (sd_leading sd) offset recentMs)))"

definition restored_plan :: "saved \<Rightarrow> dplan option" where
  "restored_plan sd =
     map_option (\<lambda>p. if pl_status p = PWaiting \<and> \<not> truthy (pl_question p)
                     then p\<lparr>pl_question := Some ''Awaiting user response (restored legacy state)''\<rparr> else p)
       (case sd_plan sd of
          Some (PlanText t) \<Rightarrow>
            Some \<lparr>pl_scopeConsent = False, pl_steps = [], pl_status = nullish (sd_planStatus sd) PActive, pl_question = None, pl_note = Some t\<rparr>
        | Some (PlanRecord p) \<Rightarrow> Some p
        | None \<Rightarrow> None)"

definition legacy_request :: "saved \<Rightarrow> request_rec" where
  "legacy_request sd =
     fold (\<lambda>(r, s). appendRequestMessage (plain_msg r s)) (sd_conversation sd)
       \<lparr>rq_id = ''r1'', rq_openedAt = sd_savedAt sd, rq_closedAt = None,
        rq_text = take 20000 (case find (\<lambda>(r, s). r = RUser) (sd_conversation sd) of Some (r, s) \<Rightarrow> s | None \<Rightarrow> []),
        rq_plan = None, rq_lastTurnOk = Some True, rq_resolved = [], rq_delivered = [], rq_transcript = [], rq_legacy = True\<rparr>"

definition restored_request :: "request_rec \<Rightarrow> request_rec" where
  "restored_request r =
     boundRequestTranscript
       (r\<lparr>rq_text := take 20000 (rq_text r), rq_transcript := (if rq_closedAt r = None then rq_transcript r else [])\<rparr>)"

definition restored_requests :: "saved \<Rightarrow> request_rec list" where
  "restored_requests sd =
     (case sd_requests sd of
        None \<Rightarrow> [restored_request (legacy_request sd)]
      | Some rs \<Rightarrow> map restored_request rs)"

text \<open>\<open>Number(id.slice(1)) || 0\<close> for the ids a session gives: a letter and a decimal number.\<close>

definition request_number :: "string \<Rightarrow> nat" where
  "request_number i = (if list_all is_digit (tl i) then undigits (tl i) else 0)"

definition restored_step :: "saved \<Rightarrow> (string \<Rightarrow> task_rec option) \<Rightarrow> string list \<Rightarrow> pstep \<Rightarrow> pstep" where
  "restored_step sd getTask interrupted s =
     (let s1 = restoreSuccessfulWork getTask (restoreLegacyStep (fst (sd_legacy sd (ps_id s))) (snd (sd_legacy sd (ps_id s))) s)
      in if ps_state s1 \<noteq> SSkipped \<and> list_ex (\<lambda>i. i \<in> set interrupted) (currentAttemptIds s1)
         then s1\<lparr>ps_state := SFailed, ps_note := Some ''interrupted by restart''\<rparr> else s1)"

text \<open>The checks are reset one after the other, each against the plan the earlier ones left.\<close>

definition reset_check :: "nat \<Rightarrow> dplan \<Rightarrow> dplan" where
  "reset_check i p =
     (let s = pl_steps p ! i
      in if resultKind s = KVerdict \<and> ps_state s \<noteq> SSkipped \<and> \<not> checkSourcesCurrent p s
         then update_step i resetStaleCheck p else p)"

definition reopened_plan :: "saved \<Rightarrow> (string \<Rightarrow> task_rec option) \<Rightarrow> string list \<Rightarrow> dplan option" where
  "reopened_plan sd getTask interrupted =
     map_option (\<lambda>p. let p1 = p\<lparr>pl_steps := map (restored_step sd getTask interrupted) (pl_steps p)\<rparr>
                     in recomputePlanStatus (fold reset_check [0..<length (pl_steps p1)] p1))
       (restored_plan sd)"

definition restored_steps :: "saved \<Rightarrow> string \<Rightarrow> string option" where
  "restored_steps sd =
     (case sd_taskSteps sd of
        Some m \<Rightarrow> m
      | None \<Rightarrow>
          (case restored_plan sd of
             None \<Rightarrow> Map.empty
           | Some p \<Rightarrow> map_of (rev (concat (map (\<lambda>s. map (\<lambda>i. (i, ps_id s)) (ps_taskIds s)) (pl_steps p))))))"

definition restart_note :: "string list \<Rightarrow> string" where
  "restart_note ids =
     ''[restart] interrupted tasks: '' @ join '', '' ids @ '' '' @ [em_dash] @ '' their real state is unknown; check before continuing''"

definition restored_session :: "'b sess_env \<Rightarrow> saved \<Rightarrow> 'b sess \<Rightarrow> 'b sess" where
  "restored_session env sd st0 =
     (let rs = restored_requests sd;
          st1 = retainRequests (st0\<lparr>ss_conversation := restored_conversation sd, ss_pending := sd_pending sd, ss_deferred := sd_events sd,
                  ss_requests := rs, ss_seq := Max (set (nullish (sd_seq sd) 0 # map (request_number \<circ> rq_id) rs)),
                  ss_savedAt := sd_savedAt sd\<rparr>);
          owners = fold (\<lambda>t m. if m (tk_id t) = None \<and> openRequest st1 \<noteq> None then m(tk_id t \<mapsto> open_id st1) else m)
                     (sd_tasks sd) (sd_owners sd)
      in case sv_restore env (sd_tasks sd) (ss_board st0) of
           (b, ids) \<Rightarrow>
             upd_scope (\<lambda>sc. sc\<lparr>sc_board := b, sc_taskSteps := restored_steps sd, sc_plan := reopened_plan sd (pe_get (sv_planner env) b) ids\<rparr>)
               (st1\<lparr>ss_owners := owners, ss_restart := (if ids = [] then None else Some (restart_note ids))\<rparr>))"

definition open_session :: "'b sess_env \<Rightarrow> 'b \<Rightarrow> saved option \<Rightarrow> 'b sess" where
  "open_session env b sd =
     changed (case sd of None \<Rightarrow> initial_session b | Some s \<Rightarrow> restored_session env s (initial_session b))"

subsection \<open>Round trip\<close>

lemma foldl_join_ok:
  "alternates r ms \<Longrightarrow> (ns \<noteq> [] \<longrightarrow> co_role (last ns) \<noteq> r) \<Longrightarrow> foldl join_message ns ms = ns @ ms"
  if "r = RUser \<or> r = RAssistant"
  using that
proof (induction ms arbitrary: r ns)
  case (Cons m ms)
  then have m: "co_role m = r" "alternates (if r = RUser then RAssistant else RUser) ms" by auto
  have j: "join_message ns m = ns @ [m]" using Cons.prems m by (auto simp: join_message_def)
  have "foldl join_message (ns @ [m]) ms = (ns @ [m]) @ ms"
    using Cons.prems m by (intro Cons.IH [where r = "if r = RUser then RAssistant else RUser"]) auto
  then show ?case by (simp add: j)
qed simp

lemma drop_pairs_id: "length ms \<le> 200 \<Longrightarrow> drop_pairs ms = ms"
  by (cases ms rule: drop_pairs.cases) simp_all

lemma trim_id: "conv_ok ms \<Longrightarrow> trim_conversation ms = ms"
  by (cases ms) (auto simp: trim_conversation_def conv_ok_def untrimmed_ok_def drop_pairs_id)

lemma set_leading: "set (map fst (filter (\<lambda>(i, m). P m) (enumerate 0 ms))) = {i. i < length ms \<and> P (ms ! i)}"
  by (auto simp: in_set_enumerate_eq image_def)

lemma marked_id:
  "marked (map fst (filter (\<lambda>(i, m). co_leading m) (enumerate 0 ms))) 0 (map (\<lambda>m. (co_role m, co_content m)) ms) = ms"
  by (rule nth_equalityI) (simp_all only: marked_def set_leading, simp_all add: nth_enumerate_eq)

lemma restored_conversation_id:
  assumes "conv_ok (ss_conversation st)"
  shows "restored_conversation (snapshot env st) = ss_conversation st"
proof -
  define ms where "ms = ss_conversation st"
  have ms: "conv_ok ms" "length ms \<le> 200" "alternates RUser ms"
    using assms by (simp_all add: ms_def conv_ok_def untrimmed_ok_def)
  have "foldl join_message [] ms = ms" using foldl_join_ok [where r = RUser and ns = "[]" and ms = ms] ms by simp
  then show ?thesis
    using ms by (simp add: restored_conversation_def snapshot_def recent_def marked_id trim_id Let_def flip: ms_def)
qed

lemma pending_view: "ss_pending (changed st) = ss_pending st" "ss_turn (retainRequests st) = ss_turn st"
    "ss_deferred (retainRequests st) = ss_deferred st"
  by (simp_all add: changed_def updateRequestPlan_def upd_request_def retainRequests_def split: option.split)

lemma open_session_frame:
  "ss_conversation (open_session env b (Some sd)) = restored_conversation sd"
  "ss_pending (open_session env b (Some sd)) = sd_pending sd"
  "ss_deferred (open_session env b (Some sd)) = sd_events sd"
  "ss_turn (open_session env b (Some sd)) = None"
  by (simp_all add: open_session_def restored_session_def Let_def changed_basic pending_view split: prod.split)
    (simp_all add: upd_scope_def retainRequests_def initial_session_def)

subsection \<open>Where runs start\<close>

text \<open>A session starts fresh, or is opened from what a session saved at any moment of its own run.\<close>

inductive session_start :: "'b sess_env \<Rightarrow> ('b \<Rightarrow> 'b \<Rightarrow> bool) \<Rightarrow> 'b sess \<Rightarrow> bool" for env progress where
  fresh: "session_start env progress (initial_session b)"
| first: "session_start env progress (open_session env b None)"
| reopened: "session_start env progress st0 \<Longrightarrow> session_run env progress st0 evs st \<Longrightarrow>
    session_start env progress (open_session env b (Some (snapshot env st)))"

lemma open_session_inputs:
  "tickets (open_session env b sd) = {#}" "ss_sent (open_session env b sd) = 0"
  "kept_outcomes (open_session env b (Some s)) = mset (filter settling (sd_events s))"
  "kept_outcomes (open_session env b None) = {#}"
  by (cases sd; simp add: open_session_def changed_basic tickets_def kept_outcomes_def restored_session_def Let_def split: prod.split;
      simp add: upd_scope_def retainRequests_def initial_session_def tickets_of_def)+

lemma start_talk: "session_start env progress st \<Longrightarrow> talk_ok (sv_maxCorrections env) (talk_of st)"
proof (induction rule: session_start.induct)
  case (reopened st0 evs st b)
  have "conv_ok (ss_conversation st)" using session_talk [OF reopened(2,3)] by (simp add: talk_ok_def talk_of_def)
  then show ?case by (simp add: talk_ok_def talk_of_def open_session_frame restored_conversation_id)
qed (simp_all add: talk_frames open_session_def, simp_all add: talk_ok_def talk_of_def initial_session_def conv_ok_def untrimmed_ok_def)

lemma start_inputs:
  assumes "session_start env progress st"
  shows "tickets st = mset [0..<ss_sent st]" "kept_outcomes st = mset (filter settling (ss_deferred st))"
  using assms
  by (cases; simp add: open_session_inputs open_session_frame; simp add: open_session_def changed_basic tickets_def kept_outcomes_def initial_session_def tickets_of_def)+

end
