(* ===== verification/SessionProps.thy ===== *)
theory SessionProps
  imports DialogueRestore DialogueProps
begin

text \<open>
  What a dialogue session promises under every interleaving of its callers, its planner, the tools of its plan, the
  task board and the clock, with a run of one message on the board of \<open>TaskBoard\<close>.
\<close>

subsection \<open>A run\<close>

definition talk_env :: "board sess_env" where
  "talk_env = \<lparr>sv_planner = run_env, sv_platform = run_platform,
     sv_times = (\<lambda>b i. \<lparr>tt_created = 0, tt_started = None, tt_activity = None, tt_action = None\<rparr>),
     sv_prepared = False, sv_maxCorrections = 1, sv_waitTickMs = 0, sv_longTaskMs = 0, sv_timeLine = (\<lambda>r. []),
     sv_budgetNotes = (\<lambda>b. []), sv_memoryBudget = None, sv_knowledgeBudget = None, sv_stopAll = (\<lambda>b. b),
     sv_restore = (\<lambda>ts b. (b, []))\<rparr>"

abbreviation talk_progress :: "board \<Rightarrow> board \<Rightarrow> bool" where
  "talk_progress \<equiv> board_step run_options"

definition asked :: "board sess" where
  "asked = send_message ''hi'' (initial_session (new_board 1))"

definition opened :: "board sess" where
  "opened = begin_call talk_env None (retrieved [] [] (start_turn talk_env 0 asked))"

definition some_task :: task_rec where
  "some_task = \<lparr>tk_id = ''t1'', tk_worker = ''w'', tk_goal = ''g'', tk_state = TDone, tk_result = None, tk_budgetExhausted = False,
     tk_toolCalls = None, tk_maxToolCalls = None, tk_verdict = None, tk_output = None, tk_summary = None, tk_error = None,
     tk_resultRef = None\<rparr>"

definition done_event :: task_event where
  "done_event = \<lparr>te_kind = EDone, te_task = some_task, te_stalled = False,
     te_times = \<lparr>tt_created = 0, tt_started = None, tt_activity = None, tt_action = None\<rparr>\<rparr>"

definition told :: "board sess" where
  "told = on_event talk_env done_event (upd_scope (\<lambda>sc. sc\<lparr>sc_board := new_board 1\<rparr>) asked)"

lemma run_append: "session_run env pr b evs st \<Longrightarrow> session_step env pr [] st st' \<Longrightarrow> session_run env pr b evs st'"
  using session_run.step by fastforce

lemma asked_run: "session_run talk_env talk_progress (initial_session (new_board 1)) [] asked"
  unfolding asked_def by (rule run_append [OF session_run.start sends])

lemma asked_basic: "ss_users asked = [\<lparr>ut_id = 0, ut_text = ''hi''\<rparr>]" "ss_turn asked = None" "ss_tool asked = None"
    "ss_closing asked = False" "ss_answers asked = []" "ss_sent asked = 1" "ss_deferred asked = []" "ss_events asked = []"
  by (simp_all add: asked_def send_message_def initial_session_def Let_def changed_def updateRequestPlan_def openRequest_def)

lemma asked_board: "ss_board asked = new_board 1"
  by (simp add: asked_def send_message_def initial_session_def Let_def changed_def updateRequestPlan_def openRequest_def
      initial_flow_def initial_scope_def)

lemma opened_run: "session_run talk_env talk_progress (initial_session (new_board 1)) [] opened"
  and opened_call: "\<exists>t c. current_call opened = Some (t, c)"
proof -
  define s1 where "s1 = start_turn talk_env 0 asked"
  define s2 where "s2 = retrieved [] [] s1"
  have "can_start asked" by (simp add: can_start_def has_work_def asked_basic)
  then have r1: "session_run talk_env talk_progress (initial_session (new_board 1)) [] s1"
    unfolding s1_def by (rule run_append [OF asked_run starts])
  obtain i e w x y where t1: "ss_turn s1 = Some (fresh_turn x y [] i e w)"
    using open_turn_views(8) [of talk_env 0 "Some \<lparr>ut_id = 0, ut_text = ''hi''\<rparr>" _ "[]" "changed (asked\<lparr>ss_users := [], ss_deferred := []\<rparr>)"]
    by (simp add: s1_def start_turn_def asked_basic Let_def liveEvents_def) blast
  have r2: "session_run talk_env talk_progress (initial_session (new_board 1)) [] s2"
    unfolding s2_def by (rule run_append [OF r1 retrieves [OF t1]]) (simp add: fresh_turn_def)
  show "session_run talk_env talk_progress (initial_session (new_board 1)) [] opened"
    unfolding opened_def s1_def [symmetric] s2_def [symmetric] by (rule run_append [OF r2 calls])
  show "\<exists>t c. current_call opened = Some (t, c)"
    by (simp add: opened_def s1_def [symmetric] retrieved_def begin_call_def t1 current_call_def the_call_def fresh_turn_def Let_def)
qed

subsection \<open>Properties\<close>

definition answering :: "'b sess \<Rightarrow> user_turn list" where
  "answering st = (case Option.bind (ss_turn st) tu_user of None \<Rightarrow> [] | Some u \<Rightarrow> [u])"

text \<open>C36. No message is lost or answered twice: under every interleaving, in a session that started fresh or was opened
  again from its own snapshot, each message a caller sent is queued, being
  answered by the turn or settled, exactly once; when the session is idle, every message has exactly one answer.\<close>

theorem messages_are_answered_once:
  assumes "session_start env progress st0" "session_run env progress st0 evs st"
  shows "mset (map ut_id (ss_users st)) + mset (map ut_id (answering st)) + mset (map fst (ss_answers st)) = mset [0..<ss_sent st]
    \<and> (ss_users st = [] \<longrightarrow> ss_turn st = None \<longrightarrow> mset (map fst (ss_answers st)) = mset [0..<ss_sent st])"
  using session_tickets [OF assms(2) start_inputs(1) [OF assms(1)]] by (auto simp: tickets_def tickets_of_def answering_def)

lemma messages_are_answered_once_witness:
  "mset (map ut_id (ss_users asked)) + mset (map ut_id (answering asked)) + mset (map fst (ss_answers asked)) = mset [0..<ss_sent asked]
   \<and> ss_sent asked = 1 \<and> ss_answers (initial_session (new_board 1)) = []"
  using messages_are_answered_once [OF session_start.fresh asked_run] by (simp add: asked_basic) (simp add: initial_session_def)

text \<open>C37. No outcome of a task is lost: until the session closes, the events of tasks that settled are, each once,
  waiting, deferred behind external tool calls or taken up by a turn, with those that were deferred when the session was
  opened; only stale still-running notices are dropped.\<close>

theorem no_outcome_is_lost:
  assumes "session_start env progress st0" "session_run env progress st0 evs st" "\<not> ss_closing st"
  shows "mset (filter settling (ss_deferred st0)) + mset (filter settling evs) = mset (filter settling (ss_events st)) + mset (filter settling (ss_deferred st))
      + mset (filter settling (ss_heard st))"
  using session_outcomes [OF assms(2,3)] start_inputs(2) [OF assms(1)] by (simp add: kept_outcomes_def add.assoc)

lemma no_outcome_is_lost_witness:
  "mset [done_event] = mset (filter settling (ss_events told)) + mset (filter settling (ss_deferred told))
      + mset (filter settling (ss_heard told))"
proof -
  have "talk_progress (ss_board asked) (new_board 1)"
    using board_step.stopped [of run_options "new_board 1" "[]" False "new_board 1"]
    by (simp add: asked_board board_stop_def new_board_def)
  then have "session_run talk_env talk_progress (initial_session (new_board 1)) [done_event] told"
    using session_run.step [OF asked_run reported] by (simp add: told_def)
  moreover have "\<not> ss_closing told" by (simp add: told_def on_event_views frames_evs) (simp add: upd_scope_def asked_basic)
  ultimately have "mset (filter settling (ss_deferred (initial_session (new_board 1)))) + mset (filter settling [done_event])
      = mset (filter settling (ss_events told)) + mset (filter settling (ss_deferred told)) + mset (filter settling (ss_heard told))"
    by (rule no_outcome_is_lost [OF session_start.fresh])
  then show ?thesis by (simp add: done_event_def settling_def initial_session_def)
qed

text \<open>C38. The conversation a session keeps alternates: it starts with the user, the roles take turns, it never grows
  past 200 messages, ends with the user and never opens with an action line.\<close>

theorem conversation_alternates:
  assumes "session_start env progress st0" "session_run env progress st0 evs st"
  shows "alternates RUser (ss_conversation st) \<and> length (ss_conversation st) \<le> 200
    \<and> (ss_conversation st \<noteq> [] \<longrightarrow> co_role (last (ss_conversation st)) = RUser \<and> \<not> co_leading (hd (ss_conversation st)))"
  using session_talk [OF assms(2) start_talk [OF assms(1)]] by (simp add: talk_ok_def talk_of_def conv_ok_def untrimmed_ok_def)

lemma conversation_alternates_witness:
  "alternates RUser (ss_conversation opened) \<and> length (ss_conversation opened) \<le> 200"
  using conversation_alternates [OF session_start.fresh opened_run] by simp

text \<open>C39. A turn calls the planner at most \<open>maxCorrections + 2\<close> times: once, once more after a restart as a new
  request, and once for each correction.\<close>

theorem planner_calls_are_bounded:
  assumes "session_start env progress st0" "session_run env progress st0 evs st" "current_call st = Some (t, c)"
  shows "tu_callIndex t \<le> sv_maxCorrections env + 1 \<and> tu_correction t \<le> sv_maxCorrections env"
  using session_talk [OF assms(2) start_talk [OF assms(1)]] the_turn [OF assms(3)]
  by (auto simp: talk_ok_def talk_of_def key_of_def key_ok_def stage_def split: if_splits)

lemma planner_calls_are_bounded_witness:
  "\<exists>t c. current_call opened = Some (t, c) \<and> tu_callIndex t \<le> 2"
  using opened_call planner_calls_are_bounded [OF session_start.fresh opened_run] by (fastforce simp: talk_env_def)

text \<open>C40. Reopening a session from its last snapshot keeps what was said: the conversation, message by message and with its
  markers, the replies nobody has read and the outcomes deferred behind external tool calls.\<close>

theorem reopening_keeps_what_was_said:
  assumes "session_start env progress st0" "session_run env progress st0 evs st"
  shows "ss_conversation (open_session env b' (Some (snapshot env st))) = ss_conversation st
    \<and> ss_pending (open_session env b' (Some (snapshot env st))) = ss_pending st
    \<and> ss_deferred (open_session env b' (Some (snapshot env st))) = ss_deferred st"
  using session_talk [OF assms(2) start_talk [OF assms(1)]]
  by (simp add: open_session_frame restored_conversation_id talk_ok_def talk_of_def) (simp add: snapshot_def)

lemma reopening_keeps_what_was_said_witness:
  "ss_conversation (open_session talk_env (new_board 1) (Some (snapshot talk_env opened))) = ss_conversation opened"
  using reopening_keeps_what_was_said [OF session_start.fresh opened_run] by simp

end
