(* ===== verification/Throttle.thy ===== *)
theory Throttle
  imports Prelude Complex_Main
begin

text \<open>
  Model of \<open>llm/throttle.ts\<close> and \<open>interfaces/throttle-strategy.ts\<close>: the shared pause of a quota, the registry
  of quotas, and the loop that runs a request behind its gate.

  Times and durations are rational milliseconds; the clock is a parameter of every operation.  An entry of the
  registry is a mutable object: \<open>rg_heap\<close> holds the entries by identity, \<open>rg_gates\<close> is the \<open>Map\<close> from keys
  to entries in insertion order.  What the loop awaits (a sleep, the request, a delay) is a script: each await
  takes the next item, which carries what other callers did to the registry meanwhile, and the time.
\<close>

subsection \<open>Strategies\<close>

datatype js_number = Finite rat | NotFinite

datatype source = FromResponse | FromGate

record throttle_context =
  tc_source :: source
  tc_attempt :: nat
  tc_retryAfter :: "js_number option"
  tc_waited :: rat

record throttle_decision =
  td_wait :: rat
  td_retry :: bool
  td_reason :: "string option"

record throttle_strategy =
  ts_name :: string
  ts_decide :: "throttle_context \<Rightarrow> throttle_decision"

definition servedWaitMs :: "js_number option \<Rightarrow> rat" where
  "servedWaitMs s = (case s of Some (Finite x) \<Rightarrow> x * 1000 | _ \<Rightarrow> 0)"

definition ReportThrottling :: throttle_strategy where
  "ReportThrottling =
     \<lparr>ts_name = ''report'',
      ts_decide = (\<lambda>ctx. \<lparr>td_wait = servedWaitMs (tc_retryAfter ctx), td_retry = False, td_reason = Some ''reported''\<rparr>)\<rparr>"

text \<open>\<open>maxAttempts\<close> is absent when it is infinite.\<close>

definition WaitAsTold :: "nat option \<Rightarrow> throttle_strategy" where
  "WaitAsTold maxAttempts =
     \<lparr>ts_name = ''wait-as-told'',
      ts_decide = (\<lambda>ctx.
        let w = servedWaitMs (tc_retryAfter ctx) in
        if w \<le> 0 then \<lparr>td_wait = 0, td_retry = False, td_reason = Some ''no-interval''\<rparr>
        else if (case maxAttempts of None \<Rightarrow> False | Some n \<Rightarrow> tc_attempt ctx \<ge> n)
        then \<lparr>td_wait = w, td_retry = False, td_reason = Some ''attempts''\<rparr>
        else \<lparr>td_wait = w, td_retry = True, td_reason = None\<rparr>)\<rparr>"

subsection \<open>The gate of a quota\<close>

record quota_gate =
  qg_notBefore :: rat

definition penalise :: "rat \<Rightarrow> rat \<Rightarrow> quota_gate \<Rightarrow> quota_gate" where
  "penalise ms now g = g\<lparr>qg_notBefore := max (qg_notBefore g) (now + ms)\<rparr>"

definition remaining :: "rat \<Rightarrow> quota_gate \<Rightarrow> rat" where
  "remaining now g = max 0 (qg_notBefore g - now)"

definition clear_gate :: "quota_gate \<Rightarrow> quota_gate" where
  "clear_gate g = g\<lparr>qg_notBefore := 0\<rparr>"

subsection \<open>The registry\<close>

record gate_entry =
  ge_gate :: quota_gate
  ge_lastUsed :: rat
  ge_leases :: nat

record registry =
  rg_gates :: "(string \<times> nat) list"
  rg_heap :: "gate_entry list"

abbreviation entry_at :: "registry \<Rightarrow> nat \<Rightarrow> gate_entry" where
  "entry_at r i \<equiv> rg_heap r ! i"

definition upd_entry :: "nat \<Rightarrow> (gate_entry \<Rightarrow> gate_entry) \<Rightarrow> registry \<Rightarrow> registry" where
  "upd_entry i f r = r\<lparr>rg_heap := (rg_heap r)[i := f (entry_at r i)]\<rparr>"

definition GATE_IDLE_TTL_MS :: rat where
  "GATE_IDLE_TTL_MS = 600000"

definition GATE_LIMIT :: nat where
  "GATE_LIMIT = 500"

definition isEvictable :: "gate_entry \<Rightarrow> rat \<Rightarrow> bool" where
  "isEvictable e now \<longleftrightarrow> ge_leases e = 0 \<and> remaining now (ge_gate e) = 0"

definition pruneQuotaGates :: "rat \<Rightarrow> registry \<Rightarrow> registry" where
  "pruneQuotaGates now r =
     r\<lparr>rg_gates := filter (\<lambda>(k, i). \<not> (isEvictable (entry_at r i) now
            \<and> now - ge_lastUsed (entry_at r i) > GATE_IDLE_TTL_MS)) (rg_gates r)\<rparr>"

definition delete_gate :: "string \<Rightarrow> registry \<Rightarrow> registry" where
  "delete_gate k r = r\<lparr>rg_gates := filter (\<lambda>(k', i). k' \<noteq> k) (rg_gates r)\<rparr>"

fun evict :: "string list \<Rightarrow> registry \<Rightarrow> registry" where
  "evict [] r = r"
| "evict (k # ks) r = (if length (rg_gates r) < GATE_LIMIT then r else evict ks (delete_gate k r))"

definition reclaimGates :: "rat \<Rightarrow> registry \<Rightarrow> registry" where
  "reclaimGates now r =
     (let r1 = pruneQuotaGates now r in
      if length (rg_gates r1) < GATE_LIMIT then r1
      else evict (map fst (sort_key (\<lambda>(k, i). ge_lastUsed (entry_at r1 i))
             (filter (\<lambda>(k, i). isEvictable (entry_at r1 i) now) (rg_gates r1)))) r1)"

definition gateFor :: "string \<Rightarrow> rat \<Rightarrow> registry \<Rightarrow> nat \<times> registry" where
  "gateFor key now r =
     (case map_of (rg_gates r) key of
        Some i \<Rightarrow> (i, upd_entry i (\<lambda>e. e\<lparr>ge_lastUsed := now\<rparr>) r)
      | None \<Rightarrow>
          (let r1 = (if length (rg_gates r) \<ge> GATE_LIMIT then reclaimGates now r else r);
               i = length (rg_heap r1)
           in (i, r1\<lparr>rg_gates := rg_gates r1 @ [(key, i)],
                 rg_heap := rg_heap r1 @ [\<lparr>ge_gate = \<lparr>qg_notBefore = 0\<rparr>, ge_lastUsed = now, ge_leases = 0\<rparr>]\<rparr>)))"

definition leaseQuotaGate :: "string \<Rightarrow> rat \<Rightarrow> registry \<Rightarrow> nat \<times> registry" where
  "leaseQuotaGate key now r =
     (case gateFor key now r of (i, r1) \<Rightarrow> (i, upd_entry i (\<lambda>e. e\<lparr>ge_leases := ge_leases e + 1\<rparr>) r1))"

text \<open>\<open>released\<close> is the closure state of one lease.\<close>

definition release_lease :: "bool \<Rightarrow> nat \<Rightarrow> rat \<Rightarrow> registry \<Rightarrow> bool \<times> registry" where
  "release_lease released i now r =
     (if released then (True, r)
      else (True, upd_entry i (\<lambda>e. e\<lparr>ge_leases := ge_leases e - 1, ge_lastUsed := now\<rparr>) r))"

definition penalise_entry :: "nat \<Rightarrow> rat \<Rightarrow> rat \<Rightarrow> registry \<Rightarrow> registry" where
  "penalise_entry i ms now r = upd_entry i (\<lambda>e. e\<lparr>ge_gate := penalise ms now (ge_gate e)\<rparr>) r"

definition resetQuotaGates :: "registry \<Rightarrow> registry" where
  "resetQuotaGates r = r\<lparr>rg_gates := []\<rparr>"

subsection \<open>Other callers\<close>

text \<open>The world of one caller: the clock, the registry, and the leases that other callers hold.\<close>

record world =
  wo_now :: rat
  wo_reg :: registry
  wo_others :: "nat list"

datatype env_op =
    OpLookup string
  | OpLease string
  | OpRelease nat              \<comment> \<open>by its position among the leases of the others\<close>
  | OpPrune
  | OpPenalise nat rat

definition advance :: "rat \<Rightarrow> world \<Rightarrow> world" where
  "advance t w = w\<lparr>wo_now := max (wo_now w) t\<rparr>"

definition env_step :: "rat \<times> env_op \<Rightarrow> world \<Rightarrow> world" where
  "env_step m w =
     (let w1 = advance (fst m) w; now = wo_now w1; r = wo_reg w1 in
      case snd m of
        OpLookup key \<Rightarrow> w1\<lparr>wo_reg := snd (gateFor key now r)\<rparr>
      | OpLease key \<Rightarrow>
          (case leaseQuotaGate key now r of (i, r1) \<Rightarrow> w1\<lparr>wo_reg := r1, wo_others := i # wo_others w1\<rparr>)
      | OpRelease n \<Rightarrow>
          if n < length (wo_others w1)
          then w1\<lparr>wo_reg := snd (release_lease False (wo_others w1 ! n) now r),
                  wo_others := remove1 (wo_others w1 ! n) (wo_others w1)\<rparr>
          else w1
      | OpPrune \<Rightarrow> w1\<lparr>wo_reg := pruneQuotaGates now r\<rparr>
      | OpPenalise i ms \<Rightarrow> if i < length (rg_heap r) then w1\<lparr>wo_reg := penalise_entry i ms now r\<rparr> else w1)"

type_synonym moves = "(rat \<times> env_op) list"

definition env_run :: "moves \<Rightarrow> rat \<Rightarrow> world \<Rightarrow> world" where
  "env_run ms t w = advance t (fold env_step ms w)"

subsection \<open>The loop behind a gate\<close>

text \<open>What a request answers: a value, a refusal with the interval the server named, or another error.\<close>

datatype ('v, 'e) reply = Answer 'v | Refusal 'e "js_number option" | Failure 'e bool

datatype ('v, 'e) awaited =
    Slept moves rat          \<comment> \<open>a sleep elapsed\<close>
  | Resumed moves rat        \<comment> \<open>\<open>waitUntilOpen\<close> returned to its caller\<close>
  | Called "('v, 'e) reply" moves rat
  | Delayed moves rat        \<comment> \<open>the delay before a transient retry elapsed\<close>
  | Aborted                  \<comment> \<open>the signal aborted the sleep or the delay\<close>

record throttle_event =
  te_source :: source
  te_attempt :: nat
  te_retryAfter :: "js_number option"
  te_wait :: rat
  te_waited :: rat
  te_willRetry :: bool
  te_reason :: "string option"

datatype 'e thrown =
    Rethrown 'e
  | Throttled 'e nat "js_number option" "string option"
  | KnownShut nat rat "string option"
  | AbortReason

datatype ('v, 'e) outcome = Returned 'v | Threw "'e thrown" | Waiting | Mismatch

record throttle_options =
  to_key :: string
  to_strategy :: throttle_strategy
  to_transient :: "nat option"      \<comment> \<open>\<open>maxRetries\<close> when transient retries are configured\<close>
  to_aborted :: "rat \<Rightarrow> bool"       \<comment> \<open>whether the signal is aborted at a time\<close>

record run_state =
  rs_world :: world
  rs_attempt :: nat
  rs_waited :: rat
  rs_transient :: nat
  rs_own :: bool                    \<comment> \<open>\<open>servingOwnWait\<close>\<close>
  rs_events :: "throttle_event list"
  rs_calls :: "rat list"            \<comment> \<open>the times at which requests were sent\<close>

abbreviation gate_of :: "nat \<Rightarrow> run_state \<Rightarrow> quota_gate" where
  "gate_of i st \<equiv> ge_gate (entry_at (wo_reg (rs_world st)) i)"

abbreviation rs_now :: "run_state \<Rightarrow> rat" where
  "rs_now st \<equiv> wo_now (rs_world st)"

definition await :: "moves \<Rightarrow> rat \<Rightarrow> run_state \<Rightarrow> run_state" where
  "await ms t st = st\<lparr>rs_world := env_run ms t (rs_world st)\<rparr>"

datatype wait_result = Opened | WaitAborted | StillWaiting | WaitMismatch

text \<open>\<open>waitUntilOpen\<close> with the deadline of its \<open>maxWaitMs\<close>; it is re-checked after every sleep.\<close>

fun waitUntilOpen ::
    "nat \<Rightarrow> rat option \<Rightarrow> run_state \<Rightarrow> ('v, 'e) awaited list \<Rightarrow> wait_result \<times> run_state \<times> ('v, 'e) awaited list" where
  "waitUntilOpen i deadline st script =
     (if remaining (rs_now st) (gate_of i st) \<le> 0 then (Opened, st, script)
      else if (case deadline of None \<Rightarrow> False | Some d \<Rightarrow> d - rs_now st \<le> 0) then (Opened, st, script)
      else
        (case script of
           [] \<Rightarrow> (StillWaiting, st, [])
         | Slept ms t # rest \<Rightarrow> waitUntilOpen i deadline (await ms t st) rest
         | Aborted # rest \<Rightarrow> (WaitAborted, st, rest)
         | _ \<Rightarrow> (WaitMismatch, st, script)))"

declare waitUntilOpen.simps [simp del]

definition throttle_report :: "source \<Rightarrow> nat \<Rightarrow> js_number option \<Rightarrow> rat \<Rightarrow> rat \<Rightarrow> throttle_decision \<Rightarrow> throttle_event" where
  "throttle_report src attempt retryAfter wait waited d =
     \<lparr>te_source = src, te_attempt = attempt, te_retryAfter = retryAfter, te_wait = wait, te_waited = waited,
      te_willRetry = td_retry d, te_reason = td_reason d\<rparr>"

text \<open>The decision on a gate that is known to be shut: \<open>Inl\<close> leaves with the error.\<close>

definition ask_gate :: "throttle_options \<Rightarrow> nat \<Rightarrow> run_state \<Rightarrow> 'e thrown option \<times> run_state" where
  "ask_gate opts i st =
     (let shut = remaining (rs_now st) (gate_of i st) in
      if rs_own st then (None, st)
      else
        (let d = ts_decide (to_strategy opts)
               \<lparr>tc_source = FromGate, tc_attempt = rs_attempt st, tc_retryAfter = Some (Finite (shut / 1000)),
                tc_waited = rs_waited st\<rparr>;
             st1 = st\<lparr>rs_events := rs_events st @ [throttle_report FromGate (rs_attempt st)
                      (Some (Finite (shut / 1000))) shut (rs_waited st) d]\<rparr>
         in (if td_retry d then None else Some (KnownShut (rs_attempt st) (shut / 1000) (td_reason d)), st1)))"

text \<open>Up to the call of the request: \<open>Inl\<close> is the end of the run.\<close>

definition pass_gate ::
    "throttle_options \<Rightarrow> nat \<Rightarrow> run_state \<Rightarrow> ('v, 'e) awaited list
      \<Rightarrow> (('v, 'e) outcome + unit) \<times> run_state \<times> ('v, 'e) awaited list" where
  "pass_gate opts i st script =
     (if remaining (rs_now st) (gate_of i st) > 0 then
        (case ask_gate opts i st of
           (Some e, st1) \<Rightarrow> (Inl (Threw e), st1, script)
         | (None, st1) \<Rightarrow>
             (case waitUntilOpen i None st1 script of
                (WaitAborted, st2, rest) \<Rightarrow> (Inl (Threw AbortReason), st2, rest)
              | (StillWaiting, st2, rest) \<Rightarrow> (Inl Waiting, st2, rest)
              | (WaitMismatch, st2, rest) \<Rightarrow> (Inl Mismatch, st2, rest)
              | (Opened, st2, rest) \<Rightarrow>
                  (case rest of
                     [] \<Rightarrow> (Inl Waiting, st2, [])
                   | Resumed ms t # rest1 \<Rightarrow>
                       (let st3 = await ms t st2 in
                        (Inr (), st3\<lparr>rs_waited := rs_waited st3 + (rs_now st3 - rs_now st1), rs_own := False\<rparr>, rest1))
                   | _ \<Rightarrow> (Inl Mismatch, st2, rest))))
      else (Inr (), st\<lparr>rs_own := False\<rparr>, script))"

text \<open>A refusal: it is recorded on the gate and reported whether or not this caller goes on.\<close>

definition refused :: "throttle_options \<Rightarrow> nat \<Rightarrow> 'e \<Rightarrow> js_number option \<Rightarrow> run_state \<Rightarrow> 'e thrown option \<times> run_state" where
  "refused opts i e retryAfter st =
     (let attempt = rs_attempt st + 1;
          d = ts_decide (to_strategy opts)
                \<lparr>tc_source = FromResponse, tc_attempt = attempt, tc_retryAfter = retryAfter, tc_waited = rs_waited st\<rparr>;
          st1 = st\<lparr>rs_attempt := attempt,
                   rs_world := (rs_world st)\<lparr>wo_reg := penalise_entry i (td_wait d) (rs_now st) (wo_reg (rs_world st))\<rparr>,
                   rs_events := rs_events st @ [throttle_report FromResponse attempt retryAfter (td_wait d) (rs_waited st) d]\<rparr>
      in if td_retry d then (None, st1\<lparr>rs_own := True\<rparr>)
         else (Some (Throttled e attempt retryAfter (td_reason d)), st1))"

definition may_retry_transient :: "throttle_options \<Rightarrow> bool \<Rightarrow> run_state \<Rightarrow> bool" where
  "may_retry_transient opts isTransient st \<longleftrightarrow>
     (case to_transient opts of
        None \<Rightarrow> False
      | Some n \<Rightarrow> \<not> to_aborted opts (rs_now st) \<and> rs_transient st < n \<and> isTransient)"

definition send_call :: "rat \<Rightarrow> run_state \<Rightarrow> run_state" where
  "send_call now st = st\<lparr>rs_calls := rs_calls st @ [now]\<rparr>"

lemma waitUntilOpen_length:
  "waitUntilOpen i deadline st script = (w, st', rest) \<Longrightarrow> length rest \<le> length script"
  by (induction i deadline st script rule: waitUntilOpen.induct)
    (subst (asm) waitUntilOpen.simps, fastforce split: if_splits list.splits awaited.splits simp: le_SucI)

lemma pass_gate_length: "pass_gate opts i st script = (x, st', rest) \<Longrightarrow> length rest \<le> length script"
  by (auto simp: pass_gate_def Let_def dest!: waitUntilOpen_length
      split: if_splits prod.splits option.splits wait_result.splits list.splits awaited.splits)

function attemptWithGate ::
    "throttle_options \<Rightarrow> nat \<Rightarrow> run_state \<Rightarrow> ('v, 'e) awaited list \<Rightarrow> ('v, 'e) outcome \<times> run_state" where
  "attemptWithGate opts i st script =
     (case pass_gate opts i st script of
        (Inl out, st1, rest) \<Rightarrow> (out, st1)
      | (Inr _, st1, rest) \<Rightarrow>
          (let st2 = send_call (rs_now st1) st1 in
           case rest of
             [] \<Rightarrow> (Waiting, st2)
           | Called reply ms t # rest1 \<Rightarrow>
               (let st3 = await ms t st2 in
                case reply of
                  Answer v \<Rightarrow> (Returned v, st3)
                | Failure e isTransient \<Rightarrow>
                    if \<not> may_retry_transient opts isTransient st3 then (Threw (Rethrown e), st3)
                    else
                      (let st4 = st3\<lparr>rs_transient := rs_transient st3 + 1\<rparr> in
                       case rest1 of
                         [] \<Rightarrow> (Waiting, st4)
                       | Delayed ms1 t1 # rest2 \<Rightarrow> attemptWithGate opts i (await ms1 t1 st4) rest2
                       | Aborted # rest2 \<Rightarrow> (Threw AbortReason, st4)
                       | _ \<Rightarrow> (Mismatch, st4))
                | Refusal e retryAfter \<Rightarrow>
                    (case refused opts i e retryAfter st3 of
                       (Some x, st4) \<Rightarrow> (Threw x, st4)
                     | (None, st4) \<Rightarrow> attemptWithGate opts i st4 rest1))
           | _ \<Rightarrow> (Mismatch, st2)))"
  by pat_completeness auto
termination
  by (relation "measure (\<lambda>(_, _, _, script). length script)") (auto dest!: pass_gate_length [OF sym])

declare attemptWithGate.simps [simp del]

definition initial_run :: "world \<Rightarrow> run_state" where
  "initial_run w = \<lparr>rs_world = w, rs_attempt = 0, rs_waited = 0, rs_transient = 0, rs_own = False,
     rs_events = [], rs_calls = []\<rparr>"

text \<open>The lease is released in a \<open>finally\<close> block; a run that still waits keeps it.\<close>

definition end_run :: "nat \<Rightarrow> run_state \<Rightarrow> run_state" where
  "end_run i st =
     st\<lparr>rs_world := (rs_world st)\<lparr>wo_reg := snd (release_lease False i (rs_now st) (wo_reg (rs_world st)))\<rparr>\<rparr>"

definition runWithThrottleRetry ::
    "throttle_options \<Rightarrow> world \<Rightarrow> ('v, 'e) awaited list \<Rightarrow> ('v, 'e) outcome \<times> run_state" where
  "runWithThrottleRetry opts w script =
     (case leaseQuotaGate (to_key opts) (wo_now w) (wo_reg w) of
        (i, r) \<Rightarrow>
          (case attemptWithGate opts i (initial_run (w\<lparr>wo_reg := r\<rparr>)) script of
             (out, st) \<Rightarrow> (out, if out = Waiting \<or> out = Mismatch then st else end_run i st)))"

end
