(* ===== verification/ThrottleInv.thy ===== *)
theory ThrottleInv
  imports Throttle
begin

text \<open>
  The registry under concurrent callers: a gate that is leased or shut is never forgotten, so that what one
  caller learns reaches the next; and the loop behind a gate is bounded.
\<close>

subsection \<open>The registry\<close>

text \<open>\<open>L\<close> are the leases that are held, with multiplicity.\<close>

definition reg_ok :: "nat list \<Rightarrow> registry \<Rightarrow> bool" where
  "reg_ok L r \<longleftrightarrow>
     distinct (map fst (rg_gates r)) \<and> (\<forall>(k, i) \<in> set (rg_gates r). i < length (rg_heap r))
     \<and> (\<forall>i < length (rg_heap r). ge_leases (entry_at r i) = count_list L i) \<and> (\<forall>i \<in> set L. i < length (rg_heap r))"

text \<open>The gate \<open>i\<close> of the key \<open>k\<close> is in the registry and not evictable at the time \<open>now\<close>.\<close>

definition live :: "string \<Rightarrow> nat \<Rightarrow> rat \<Rightarrow> registry \<Rightarrow> bool" where
  "live k i now r \<longleftrightarrow> map_of (rg_gates r) k = Some i \<and> \<not> isEvictable (entry_at r i) now"

lemma reg_okD:
  assumes "reg_ok L r"
  shows "distinct (map fst (rg_gates r))" "(k, i) \<in> set (rg_gates r) \<Longrightarrow> i < length (rg_heap r)"
    "i < length (rg_heap r) \<Longrightarrow> ge_leases (entry_at r i) = count_list L i" "i \<in> set L \<Longrightarrow> i < length (rg_heap r)"
  using assms by (auto simp: reg_ok_def)

lemma upd_entry_frame [simp]:
  "rg_gates (upd_entry i f r) = rg_gates r" "length (rg_heap (upd_entry i f r)) = length (rg_heap r)"
  by (simp_all add: upd_entry_def)

lemma entry_upd: "j < length (rg_heap r) \<Longrightarrow> entry_at (upd_entry i f r) j = (if j = i then f (entry_at r i) else entry_at r j)"
  by (auto simp: upd_entry_def nth_list_update)

lemma reg_ok_upd:
  assumes "reg_ok L r" "\<And>e. ge_leases (f e) = ge_leases e"
  shows "reg_ok L (upd_entry i f r)"
  using assms by (auto simp: reg_ok_def entry_upd)

text \<open>Shrinking the map keeps the invariant; the surviving entries are those whose keys stay.\<close>

lemma reg_ok_filter:
  assumes "reg_ok L r" "rg_gates r' = filter P (rg_gates r)" "rg_heap r' = rg_heap r"
  shows "reg_ok L r'"
  using assms by (auto simp: reg_ok_def distinct_map_filter)

lemma map_of_filter_keep:
  "distinct (map fst xs) \<Longrightarrow> map_of xs k = Some i \<Longrightarrow> P (k, i) \<Longrightarrow> map_of (filter P xs) k = Some i"
  by (rule map_of_is_SomeI) (auto simp: distinct_map_filter dest: map_of_SomeD)

lemma prune_frame [simp]: "rg_heap (pruneQuotaGates now r) = rg_heap r"
  by (simp add: pruneQuotaGates_def)

lemma prune_ok: "reg_ok L r \<Longrightarrow> reg_ok L (pruneQuotaGates now r)"
  by (rule reg_ok_filter) (simp_all add: pruneQuotaGates_def)

lemma prune_live: "reg_ok L r \<Longrightarrow> live k i now r \<Longrightarrow> live k i now (pruneQuotaGates now r)"
  by (auto simp: live_def pruneQuotaGates_def intro: map_of_filter_keep dest: reg_okD(1))

lemma evict_gates: "\<exists>P. rg_gates (evict ks r) = filter P (rg_gates r) \<and> (\<forall>k i. k \<notin> set ks \<longrightarrow> P (k, i))
    \<and> rg_heap (evict ks r) = rg_heap r"
proof (induction ks arbitrary: r)
  case Nil
  show ?case by (rule exI [of _ "\<lambda>x. True"]) simp
next
  case (Cons k ks)
  show ?case
  proof (cases "length (rg_gates r) < GATE_LIMIT")
    case True
    then show ?thesis by (simp add: exI [of _ "\<lambda>x. True"])
  next
    case False
    obtain P where P: "rg_gates (evict ks (delete_gate k r)) = filter P (rg_gates (delete_gate k r))"
        "\<forall>k i. k \<notin> set ks \<longrightarrow> P (k, i)" "rg_heap (evict ks (delete_gate k r)) = rg_heap (delete_gate k r)"
      using Cons.IH [of "delete_gate k r"] by blast
    show ?thesis
    proof (rule exI [of _ "\<lambda>x. fst x \<noteq> k \<and> P x"], intro conjI)
      show "rg_gates (evict (k # ks) r) = filter (\<lambda>x. fst x \<noteq> k \<and> P x) (rg_gates r)"
        using False P(1) by (simp add: delete_gate_def case_prod_beta)
      show "\<forall>k' i. k' \<notin> set (k # ks) \<longrightarrow> fst (k', i) \<noteq> k \<and> P (k', i)" using P(2) by auto
      show "rg_heap (evict (k # ks) r) = rg_heap r" using False P(3) by (simp add: delete_gate_def)
    qed
  qed
qed

lemma reclaim_gates: "\<exists>P. rg_gates (reclaimGates now r) = filter P (rg_gates r) \<and> rg_heap (reclaimGates now r) = rg_heap r"
proof (cases "length (rg_gates (pruneQuotaGates now r)) < GATE_LIMIT")
  case True
  then show ?thesis by (auto simp: reclaimGates_def Let_def pruneQuotaGates_def)
next
  case False
  let ?ks = "map fst (sort_key (\<lambda>(k, i). ge_lastUsed (entry_at (pruneQuotaGates now r) i))
      (filter (\<lambda>(k, i). isEvictable (entry_at (pruneQuotaGates now r) i) now) (rg_gates (pruneQuotaGates now r))))"
  have e: "reclaimGates now r = evict ?ks (pruneQuotaGates now r)" using False by (simp add: reclaimGates_def Let_def)
  obtain P where "rg_gates (evict ?ks (pruneQuotaGates now r)) = filter P (rg_gates (pruneQuotaGates now r))"
      "rg_heap (evict ?ks (pruneQuotaGates now r)) = rg_heap (pruneQuotaGates now r)"
    using evict_gates [of ?ks "pruneQuotaGates now r"] by blast
  then show ?thesis unfolding e by (auto simp: pruneQuotaGates_def)
qed

lemma reclaim_ok:
  assumes "reg_ok L r"
  shows "reg_ok L (reclaimGates now r)" "rg_heap (reclaimGates now r) = rg_heap r"
proof -
  obtain P where P: "rg_gates (reclaimGates now r) = filter P (rg_gates r)" "rg_heap (reclaimGates now r) = rg_heap r"
    using reclaim_gates by blast
  show "reg_ok L (reclaimGates now r)" by (rule reg_ok_filter [OF assms P])
  show "rg_heap (reclaimGates now r) = rg_heap r" by (rule P(2))
qed

lemma reclaim_live:
  assumes "reg_ok L r" "live k i now r"
  shows "live k i now (reclaimGates now r)"
proof -
  let ?r = "pruneQuotaGates now r"
  let ?ks = "map fst (sort_key (\<lambda>(k, i). ge_lastUsed (entry_at ?r i)) (filter (\<lambda>(k, i). isEvictable (entry_at ?r i) now) (rg_gates ?r)))"
  have l: "live k i now ?r" and ok: "reg_ok L ?r" using prune_live prune_ok assms by blast+
  have "k \<notin> set ?ks"
  proof
    assume "k \<in> set ?ks"
    then obtain j where "(k, j) \<in> set (rg_gates ?r)" "isEvictable (entry_at ?r j) now" by auto
    then show False using l map_of_is_SomeI [OF reg_okD(1) [OF ok]] by (auto simp: live_def)
  qed
  moreover obtain P where "rg_gates (evict ?ks ?r) = filter P (rg_gates ?r)" "\<forall>k i. k \<notin> set ?ks \<longrightarrow> P (k, i)"
      "rg_heap (evict ?ks ?r) = rg_heap ?r"
    using evict_gates [of ?ks ?r] by blast
  ultimately have "live k i now (evict ?ks ?r)"
    using l map_of_filter_keep [OF reg_okD(1) [OF ok]] by (simp add: live_def)
  then show ?thesis using l by (simp add: reclaimGates_def Let_def)
qed

lemma isEvictable_upd:
  "\<lbrakk>i < length (rg_heap r); \<And>e. ge_leases (f e) = ge_leases e \<and> ge_gate (f e) = ge_gate e\<rbrakk>
    \<Longrightarrow> isEvictable (entry_at (upd_entry j f r) i) now = isEvictable (entry_at r i) now"
  by (simp add: entry_upd isEvictable_def)

lemma live_in_heap: "reg_ok L r \<Longrightarrow> live k i now r \<Longrightarrow> i < length (rg_heap r)"
  by (auto simp: live_def dest: map_of_SomeD reg_okD(2))

lemma gateFor_ok:
  assumes ok: "reg_ok L r" and g: "gateFor key now r = (j, r')"
  shows "reg_ok L r'" "map_of (rg_gates r') key = Some j" "j < length (rg_heap r')"
    "length (rg_heap r) \<le> length (rg_heap r')"
    "i < length (rg_heap r) \<Longrightarrow> ge_gate (entry_at r' i) = ge_gate (entry_at r i) \<and> ge_leases (entry_at r' i) = ge_leases (entry_at r i)"
    "live k i now r \<Longrightarrow> live k i now r'"
proof -
  have "reg_ok L r' \<and> map_of (rg_gates r') key = Some j \<and> j < length (rg_heap r') \<and> length (rg_heap r) \<le> length (rg_heap r')
    \<and> (i < length (rg_heap r) \<longrightarrow> ge_gate (entry_at r' i) = ge_gate (entry_at r i) \<and> ge_leases (entry_at r' i) = ge_leases (entry_at r i))
    \<and> (live k i now r \<longrightarrow> live k i now r')"
  proof (cases "map_of (rg_gates r) key")
    case (Some x)
    then have x: "j = x" "r' = upd_entry x (\<lambda>e. e\<lparr>ge_lastUsed := now\<rparr>) r" using g by (auto simp: gateFor_def)
    have "x < length (rg_heap r)" using reg_okD(2) [OF ok map_of_SomeD [OF Some]] .
    moreover have "live k i now r \<Longrightarrow> live k i now r'"
      using live_in_heap [OF ok] by (auto simp: live_def x isEvictable_upd)
    ultimately show ?thesis using reg_ok_upd [OF ok] Some by (auto simp: x entry_upd)
  next
    case None
    define r1 where "r1 = (if length (rg_gates r) \<ge> GATE_LIMIT then reclaimGates now r else r)"
    let ?e = "\<lparr>ge_gate = \<lparr>qg_notBefore = 0\<rparr>, ge_lastUsed = now, ge_leases = 0\<rparr>"
    have r': "j = length (rg_heap r)" "r' = r1\<lparr>rg_gates := rg_gates r1 @ [(key, j)], rg_heap := rg_heap r1 @ [?e]\<rparr>"
      using g None reclaim_ok(2) [OF ok] by (auto simp: gateFor_def r1_def Let_def)
    have ok1: "reg_ok L r1" and h: "rg_heap r1 = rg_heap r" using reclaim_ok [OF ok] ok by (simp_all add: r1_def)
    have keys: "set (rg_gates r1) \<subseteq> set (rg_gates r)"
      using reclaim_gates [of now r] by (auto simp: r1_def)
    then have fresh: "key \<notin> fst ` set (rg_gates r1)" using None by (force simp: map_of_eq_None_iff)
    have new: "count_list L (length (rg_heap r)) = 0"
      using reg_okD(4) [OF ok] by (metis count_notin less_irrefl)
    have "reg_ok L r'"
      using ok1 fresh h new by (auto simp: reg_ok_def r' nth_append less_Suc_eq)
    moreover have "map_of (rg_gates r') key = Some j"
      using fresh map_of_eq_None_iff [of "rg_gates r1" key] by (simp add: r' map_add_def)
    moreover have "live k i now r \<longrightarrow> live k i now r'"
    proof
      assume l: "live k i now r"
      then have "live k i now r1" using reclaim_live [OF ok] by (simp add: r1_def)
      moreover have "i < length (rg_heap r)" using live_in_heap [OF ok l] .
      ultimately show "live k i now r'" using h by (simp add: live_def r' nth_append map_add_def)
    qed
    ultimately show ?thesis using h by (simp add: r' nth_append)
  qed
  then show "reg_ok L r'" "map_of (rg_gates r') key = Some j" "j < length (rg_heap r')"
    "length (rg_heap r) \<le> length (rg_heap r')"
    "i < length (rg_heap r) \<Longrightarrow> ge_gate (entry_at r' i) = ge_gate (entry_at r i) \<and> ge_leases (entry_at r' i) = ge_leases (entry_at r i)"
    "live k i now r \<Longrightarrow> live k i now r'"
    by blast+
qed

lemma leaseQuotaGate_ok:
  assumes ok: "reg_ok L r" and g: "leaseQuotaGate key now r = (j, r')"
  shows "reg_ok (j # L) r'" "map_of (rg_gates r') key = Some j" "j < length (rg_heap r')"
    "length (rg_heap r) \<le> length (rg_heap r')"
    "i < length (rg_heap r) \<Longrightarrow> ge_gate (entry_at r' i) = ge_gate (entry_at r i)"
    "live k i now r \<Longrightarrow> live k i now r'"
proof -
  obtain r1 where r1: "gateFor key now r = (j, r1)" "r' = upd_entry j (\<lambda>e. e\<lparr>ge_leases := ge_leases e + 1\<rparr>) r1"
    using g by (auto simp: leaseQuotaGate_def split: prod.splits)
  note ok1 = gateFor_ok [OF ok r1(1)]
  show "reg_ok (j # L) r'" using ok1(1,3) by (auto simp: reg_ok_def r1(2) entry_upd)
  show "map_of (rg_gates r') key = Some j" "j < length (rg_heap r')" "length (rg_heap r) \<le> length (rg_heap r')"
    using ok1(2-4) by (simp_all add: r1(2))
  show "ge_gate (entry_at r' i) = ge_gate (entry_at r i)" if "i < length (rg_heap r)"
    using ok1(4) ok1(5) [OF that] that by (auto simp: r1(2) entry_upd)
  show "live k i now r'" if "live k i now r"
    using ok1(6) [OF that] live_in_heap [OF ok1(1)] by (auto simp: live_def r1(2) entry_upd isEvictable_def)
qed

lemma release_ok:
  assumes ok: "reg_ok L r" and j: "j \<in> set L"
  shows "reg_ok (remove1 j L) (snd (release_lease False j now r))"
    "rg_gates (snd (release_lease False j now r)) = rg_gates r"
    "length (rg_heap (snd (release_lease False j now r))) = length (rg_heap r)"
    "i < length (rg_heap r) \<Longrightarrow> ge_gate (entry_at (snd (release_lease False j now r)) i) = ge_gate (entry_at r i)"
proof -
  have "count_list (remove1 j L) k = (if k = j then count_list L j - 1 else count_list L k)" for k
    by (induction L) auto
  then show "reg_ok (remove1 j L) (snd (release_lease False j now r))"
    using ok notin_set_remove1 [of _ L j] by (auto simp: reg_ok_def release_lease_def entry_upd)
  show "rg_gates (snd (release_lease False j now r)) = rg_gates r"
    "length (rg_heap (snd (release_lease False j now r))) = length (rg_heap r)"
    by (simp_all add: release_lease_def)
  show "ge_gate (entry_at (snd (release_lease False j now r)) i) = ge_gate (entry_at r i)" if "i < length (rg_heap r)"
    using that reg_okD(4) [OF ok j] by (auto simp: release_lease_def upd_entry_def nth_list_update)
qed

lemma penalise_ok:
  assumes "reg_ok L r"
  shows "reg_ok L (penalise_entry j ms now r)" "rg_gates (penalise_entry j ms now r) = rg_gates r"
    "length (rg_heap (penalise_entry j ms now r)) = length (rg_heap r)"
    "i < length (rg_heap r) \<Longrightarrow> ge_leases (entry_at (penalise_entry j ms now r) i) = ge_leases (entry_at r i)
      \<and> qg_notBefore (ge_gate (entry_at r i)) \<le> qg_notBefore (ge_gate (entry_at (penalise_entry j ms now r) i))"
  using assms by (auto simp: penalise_entry_def reg_ok_upd entry_upd penalise_def)

subsection \<open>Other callers\<close>

text \<open>\<open>own\<close> are the leases of the caller in whose world the others act.\<close>

definition world_ok :: "nat list \<Rightarrow> world \<Rightarrow> bool" where
  "world_ok own w \<longleftrightarrow> reg_ok (own @ wo_others w) (wo_reg w)"

text \<open>The gate \<open>i\<close> of \<open>k\<close> is leased by the caller, or shut at least until \<open>T\<close>.\<close>

definition kept :: "nat list \<Rightarrow> string \<Rightarrow> nat \<Rightarrow> rat \<Rightarrow> world \<Rightarrow> bool" where
  "kept own k i T w \<longleftrightarrow>
     map_of (rg_gates (wo_reg w)) k = Some i
     \<and> (i \<in> set own \<or> T < qg_notBefore (ge_gate (entry_at (wo_reg w) i)))"

lemma advance_frame [simp]:
  "wo_reg (advance t w) = wo_reg w" "wo_others (advance t w) = wo_others w" "wo_now (advance t w) = max (wo_now w) t"
  by (simp_all add: advance_def)

lemma kept_live:
  assumes "world_ok own w" "kept own k i T w" "now \<le> T"
  shows "live k i now (wo_reg w)"
proof -
  have "i < length (rg_heap (wo_reg w))"
    using assms(1,2) by (auto simp: kept_def world_ok_def dest: map_of_SomeD reg_okD(2))
  moreover have "i \<in> set own \<Longrightarrow> 0 < count_list (own @ wo_others w) i"
    by (induction own) auto
  ultimately show ?thesis
    using assms reg_okD(3) [of "own @ wo_others w" "wo_reg w" i]
    by (auto simp: kept_def live_def isEvictable_def remaining_def world_ok_def)
qed

lemma env_step_keeps:
  assumes ok: "world_ok own w"
  shows "world_ok own (env_step m w)" "wo_now w \<le> wo_now (env_step m w)"
    "i < length (rg_heap (wo_reg w)) \<Longrightarrow> i < length (rg_heap (wo_reg (env_step m w)))
      \<and> qg_notBefore (ge_gate (entry_at (wo_reg w) i)) \<le> qg_notBefore (ge_gate (entry_at (wo_reg (env_step m w)) i))"
    "kept own k i T w \<Longrightarrow> wo_now (env_step m w) \<le> T \<Longrightarrow> kept own k i T (env_step m w)"
proof -
  obtain t op where m: "m = (t, op)" by (cases m)
  let ?now = "max (wo_now w) t" and ?L = "own @ wo_others w"
  have r: "reg_ok ?L (wo_reg w)" using ok by (simp add: world_ok_def)
  have heap: "i < length (rg_heap (wo_reg w))" if "kept own k i T w" for k i
    using that r by (auto simp: kept_def dest: map_of_SomeD reg_okD(2))
  have "world_ok own (env_step m w) \<and> wo_now (env_step m w) = ?now
    \<and> (i < length (rg_heap (wo_reg w)) \<longrightarrow> i < length (rg_heap (wo_reg (env_step m w)))
      \<and> qg_notBefore (ge_gate (entry_at (wo_reg w) i)) \<le> qg_notBefore (ge_gate (entry_at (wo_reg (env_step m w)) i)))
    \<and> (live k i ?now (wo_reg w) \<longrightarrow> map_of (rg_gates (wo_reg (env_step m w))) k = Some i)"
  proof (cases op)
    case (OpLookup key)
    obtain j r' where g: "gateFor key ?now (wo_reg w) = (j, r')" by (cases "gateFor key ?now (wo_reg w)")
    note G = gateFor_ok [OF r g]
    show ?thesis
      using G(1,4) G(5) [where i = i] G(6) [where k = k and i = i] by (auto simp: m OpLookup env_step_def Let_def g world_ok_def live_def)
  next
    case (OpLease key)
    obtain j r' where g: "leaseQuotaGate key ?now (wo_reg w) = (j, r')" by (cases "leaseQuotaGate key ?now (wo_reg w)")
    note G = leaseQuotaGate_ok [OF r g]
    have "reg_ok (own @ j # wo_others w) r'"
      using G(1) by (auto simp: reg_ok_def)
    then show ?thesis
      using G(4) G(5) [where i = i] G(6) [where k = k and i = i] by (auto simp: m OpLease env_step_def Let_def g world_ok_def live_def)
  next
    case (OpRelease n)
    show ?thesis
    proof (cases "n < length (wo_others w)")
      case True
      let ?j = "wo_others w ! n"
      have "?j \<in> set ?L" using True by simp
      note G = release_ok [OF r this]
      have "count_list (remove1 ?j ?L) x = count_list (own @ remove1 ?j (wo_others w)) x" for x
      proof -
        have "?j \<in> set (wo_others w)" using True by simp
        then have "mset (remove1 ?j ?L) = mset (own @ remove1 ?j (wo_others w))" by simp
        then show ?thesis by (metis count_mset)
      qed
      moreover have "set (own @ remove1 ?j (wo_others w)) \<subseteq> set ?L" using set_remove1_subset [of ?j "wo_others w"] by auto
      ultimately have "reg_ok (own @ remove1 ?j (wo_others w)) (snd (release_lease False ?j ?now (wo_reg w)))"
        using G(1) [where now = ?now] r G(3) [where now = ?now] by (auto simp: reg_ok_def)
      then show ?thesis
        using True G(2) [where now = ?now] G(3) [where now = ?now] G(4) [where now = ?now and i = i] by (auto simp: m OpRelease env_step_def Let_def world_ok_def live_def)
    qed (use r in \<open>auto simp: m OpRelease env_step_def Let_def world_ok_def live_def\<close>)
  next
    case OpPrune
    show ?thesis
      using prune_ok [OF r] prune_live [OF r, where k = k and i = i and now = ?now] by (auto simp: m OpPrune env_step_def Let_def world_ok_def live_def)
  next
    case (OpPenalise j ms)
    show ?thesis
      using r penalise_ok [OF r, where j = j and ms = ms and now = ?now] by (auto simp: m OpPenalise env_step_def Let_def world_ok_def live_def)
  qed
  moreover have "kept own k i T w \<Longrightarrow> ?now \<le> T \<Longrightarrow> live k i ?now (wo_reg w)" using kept_live [OF ok] by blast
  ultimately show "world_ok own (env_step m w)" "wo_now w \<le> wo_now (env_step m w)"
    "i < length (rg_heap (wo_reg w)) \<Longrightarrow> i < length (rg_heap (wo_reg (env_step m w)))
      \<and> qg_notBefore (ge_gate (entry_at (wo_reg w) i)) \<le> qg_notBefore (ge_gate (entry_at (wo_reg (env_step m w)) i))"
    "kept own k i T w \<Longrightarrow> wo_now (env_step m w) \<le> T \<Longrightarrow> kept own k i T (env_step m w)"
    using heap by (auto simp: kept_def)
qed

lemma env_run_keeps:
  assumes "world_ok own w"
  shows "world_ok own (env_run ms t w) \<and> wo_now w \<le> wo_now (env_run ms t w)
    \<and> (i < length (rg_heap (wo_reg w)) \<longrightarrow> i < length (rg_heap (wo_reg (env_run ms t w)))
      \<and> qg_notBefore (ge_gate (entry_at (wo_reg w) i)) \<le> qg_notBefore (ge_gate (entry_at (wo_reg (env_run ms t w)) i)))
    \<and> (kept own k i T w \<longrightarrow> wo_now (env_run ms t w) \<le> T \<longrightarrow> kept own k i T (env_run ms t w))"
proof -
  have "world_ok own (fold env_step ms w) \<and> wo_now w \<le> wo_now (fold env_step ms w)
    \<and> (i < length (rg_heap (wo_reg w)) \<longrightarrow> i < length (rg_heap (wo_reg (fold env_step ms w)))
      \<and> qg_notBefore (ge_gate (entry_at (wo_reg w) i)) \<le> qg_notBefore (ge_gate (entry_at (wo_reg (fold env_step ms w)) i)))
    \<and> (kept own k i T w \<longrightarrow> wo_now (fold env_step ms w) \<le> T \<longrightarrow> kept own k i T (fold env_step ms w))"
    using assms
  proof (induction ms arbitrary: w)
    case (Cons m ms)
    note S = env_step_keeps [OF Cons.prems, where m = m]
    note I = Cons.IH [OF S(1)]
    show ?case using I S(2) S(3) [where i = i] S(4) [where k = k and i = i and T = T] by (auto intro: order_trans)
  qed simp
  then show ?thesis by (auto simp: env_run_def world_ok_def kept_def)
qed

subsection \<open>The loop\<close>

definition run_ok :: "string \<Rightarrow> nat \<Rightarrow> run_state \<Rightarrow> bool" where
  "run_ok key i st \<longleftrightarrow> world_ok [i] (rs_world st) \<and> map_of (rg_gates (wo_reg (rs_world st))) key = Some i"

lemma run_ok_cong: "rs_world st' = rs_world st \<Longrightarrow> run_ok key i st \<Longrightarrow> run_ok key i st'"
  by (simp add: run_ok_def)

lemma run_ok_transient [simp]: "run_ok key i (st\<lparr>rs_transient := n\<rparr>) = run_ok key i st"
  by (simp add: run_ok_def)

lemma await_frame [simp]:
  "rs_attempt (await ms t st) = rs_attempt st" "rs_waited (await ms t st) = rs_waited st"
  "rs_transient (await ms t st) = rs_transient st" "rs_own (await ms t st) = rs_own st"
  "rs_events (await ms t st) = rs_events st" "rs_calls (await ms t st) = rs_calls st"
  by (simp_all add: await_def)

lemma await_ok: "run_ok key i st \<Longrightarrow> run_ok key i (await ms t st)"
  using env_run_keeps [of "[i]" "rs_world st" ms t i key "wo_now (env_run ms t (rs_world st))"]
  by (simp add: run_ok_def await_def kept_def)

lemma waitUntilOpen_keeps:
  assumes "waitUntilOpen i deadline st script = (x, st', rest)"
  shows "run_ok key i st \<Longrightarrow> run_ok key i st'"
    "rs_attempt st' = rs_attempt st \<and> rs_transient st' = rs_transient st \<and> rs_calls st' = rs_calls st \<and> rs_events st' = rs_events st"
proof -
  have "(run_ok key i st \<longrightarrow> run_ok key i st') \<and> rs_attempt st' = rs_attempt st \<and> rs_transient st' = rs_transient st
      \<and> rs_calls st' = rs_calls st \<and> rs_events st' = rs_events st"
    using assms
  proof (induction i deadline st script rule: waitUntilOpen.induct)
    case (1 i deadline st script)
    show ?case
      using "1.prems" "1.IH" await_ok [of key i st]
      by (subst (asm) waitUntilOpen.simps) (auto split: if_splits list.splits awaited.splits)
  qed
  then show "run_ok key i st \<Longrightarrow> run_ok key i st'"
    "rs_attempt st' = rs_attempt st \<and> rs_transient st' = rs_transient st \<and> rs_calls st' = rs_calls st \<and> rs_events st' = rs_events st"
    by blast+
qed

lemma ask_gate_keeps:
  assumes "ask_gate opts i st = (x, st')"
  shows "rs_world st' = rs_world st \<and> rs_attempt st' = rs_attempt st \<and> rs_transient st' = rs_transient st
    \<and> rs_calls st' = rs_calls st \<and> (\<forall>e n ra reason. x \<noteq> Some (Throttled e n ra reason))"
  using assms by (auto simp: ask_gate_def Let_def split: if_splits)

definition is_throttled :: "('v, 'e) outcome \<Rightarrow> bool" where
  "is_throttled out \<longleftrightarrow> (\<exists>e n ra reason. out = Threw (Throttled e n ra reason))"

lemma is_throttled_simps [simp]:
  "\<not> is_throttled (Returned v)" "\<not> is_throttled Waiting" "\<not> is_throttled Mismatch" "is_throttled (Threw (Throttled e n ra m))"
  "\<not> is_throttled (Threw AbortReason)" "\<not> is_throttled (Threw (Rethrown e))" "\<not> is_throttled (Threw (KnownShut n r m))"
  by (simp_all add: is_throttled_def)

lemma pass_gate_keeps:
  fixes script :: "('v, 'e) awaited list"
  assumes "pass_gate opts i st script = (x, st', rest)"
  shows "run_ok key i st \<Longrightarrow> run_ok key i st'"
    "rs_attempt st' = rs_attempt st \<and> rs_transient st' = rs_transient st \<and> rs_calls st' = rs_calls st"
    "x = Inl out \<Longrightarrow> \<not> is_throttled out"
proof -
  have "(run_ok key i st \<longrightarrow> run_ok key i st') \<and> rs_attempt st' = rs_attempt st \<and> rs_transient st' = rs_transient st
      \<and> rs_calls st' = rs_calls st \<and> (\<forall>out. x = Inl out \<longrightarrow> \<not> is_throttled out)"
  proof (cases "remaining (rs_now st) (gate_of i st) > 0")
    case False
    then show ?thesis using assms run_ok_cong [of st' st key i] by (auto simp: pass_gate_def)
  next
    case True
    obtain e :: "'e thrown option" and st1 where a: "ask_gate opts i st = (e, st1)" by (metis surj_pair)
    note A = ask_gate_keeps [OF a]
    show ?thesis
    proof (cases e)
      case (Some y)
      then show ?thesis
        using assms True a A run_ok_cong [of st1 st key i] by (cases y) (auto simp: pass_gate_def)
    next
      case None
      obtain w st2 rest2 where w: "waitUntilOpen i None st1 script = (w, st2, rest2)"
        by (cases "waitUntilOpen i None st1 script")
      have W: "(run_ok key i st \<longrightarrow> run_ok key i st2) \<and> rs_attempt st2 = rs_attempt st \<and> rs_transient st2 = rs_transient st
          \<and> rs_calls st2 = rs_calls st"
        using waitUntilOpen_keeps [OF w] A run_ok_cong [of st1 st key i] by auto
      then show ?thesis
        using assms True a None w await_ok [of key i st2]
        by (cases w) (auto simp: pass_gate_def Let_def run_ok_def split: list.splits awaited.splits)
    qed
  qed
  then show "run_ok key i st \<Longrightarrow> run_ok key i st'"
    "rs_attempt st' = rs_attempt st \<and> rs_transient st' = rs_transient st \<and> rs_calls st' = rs_calls st"
    "x = Inl out \<Longrightarrow> \<not> is_throttled out"
    by blast+
qed

lemma send_call_frame [simp]:
  "rs_world (send_call now st) = rs_world st" "rs_attempt (send_call now st) = rs_attempt st"
  "rs_transient (send_call now st) = rs_transient st" "rs_calls (send_call now st) = rs_calls st @ [now]"
  "rs_events (send_call now st) = rs_events st"
  by (simp_all add: send_call_def)

text \<open>The last report of a refusal is on the gate.\<close>

definition recorded_on_gate :: "nat \<Rightarrow> run_state \<Rightarrow> bool" where
  "recorded_on_gate i st \<longleftrightarrow>
     rs_events st \<noteq> [] \<and> rs_now st + te_wait (last (rs_events st)) \<le> qg_notBefore (gate_of i st)"

lemma refused_keeps:
  assumes "refused opts i e ra st = (x, st')" "run_ok key i st"
  shows "run_ok key i st'" "recorded_on_gate i st'" "rs_attempt st' = rs_attempt st + 1"
    "rs_transient st' = rs_transient st" "rs_calls st' = rs_calls st" "rs_now st' = rs_now st"
    "x = Some y \<Longrightarrow> \<exists>n ra reason. y = Throttled e n ra reason"
    "x = None \<Longrightarrow> \<exists>ctx. tc_source ctx = FromResponse \<and> tc_attempt ctx = rs_attempt st' \<and> td_retry (ts_decide (to_strategy opts) ctx)"
proof -
  define d where "d = ts_decide (to_strategy opts) \<lparr>tc_source = FromResponse, tc_attempt = rs_attempt st + 1,
      tc_retryAfter = ra, tc_waited = rs_waited st\<rparr>"
  have ok: "world_ok [i] (rs_world st)" and len: "i < length (rg_heap (wo_reg (rs_world st)))"
    using assms(2) by (auto simp: run_ok_def world_ok_def dest: map_of_SomeD reg_okD(2))
  note P = penalise_ok [of "[i] @ wo_others (rs_world st)" "wo_reg (rs_world st)", where j = i and ms = "td_wait d" and now = "rs_now st"]
  have st': "rs_world st' = (rs_world st)\<lparr>wo_reg := penalise_entry i (td_wait d) (rs_now st) (wo_reg (rs_world st))\<rparr>"
    "rs_events st' = rs_events st @ [throttle_report FromResponse (rs_attempt st + 1) ra (td_wait d) (rs_waited st) d]"
    "rs_attempt st' = rs_attempt st + 1" "rs_transient st' = rs_transient st" "rs_calls st' = rs_calls st"
    "x = (if td_retry d then None else Some (Throttled e (rs_attempt st + 1) ra (td_reason d)))"
    using assms(1) by (auto simp: refused_def Let_def d_def split: if_splits)
  show "run_ok key i st'"
    using ok assms(2) P(1,2) by (simp add: run_ok_def world_ok_def st'(1))
  show "recorded_on_gate i st'"
    using len by (simp add: recorded_on_gate_def st'(1,2) penalise_entry_def entry_upd penalise_def throttle_report_def)
  show "rs_attempt st' = rs_attempt st + 1" "rs_transient st' = rs_transient st" "rs_calls st' = rs_calls st"
    "rs_now st' = rs_now st" by (simp_all add: st')
  show "\<exists>n ra reason. y = Throttled e n ra reason" if "x = Some y" using that by (auto simp: st'(6) split: if_splits)
  show "\<exists>ctx. tc_source ctx = FromResponse \<and> tc_attempt ctx = rs_attempt st' \<and> td_retry (ts_decide (to_strategy opts) ctx)"
    if "x = None"
    using that st'(3,6) by (intro exI [of _ "\<lparr>tc_source = FromResponse, tc_attempt = rs_attempt st + 1,
      tc_retryAfter = ra, tc_waited = rs_waited st\<rparr>"]) (simp add: d_def split: if_splits)
qed

text \<open>
  The rule of the loop: \<open>I\<close> holds at its head, \<open>K\<close> while a request is out and after it, \<open>Q\<close> of the result.
\<close>

lemma attempt_rule:
  fixes script :: "('v, 'e) awaited list" and Q :: "('v, 'e) outcome \<Rightarrow> run_state \<Rightarrow> bool"
  assumes "attemptWithGate opts i st script = (out, st')" "I st"
    and ends: "\<And>st (s :: ('v, 'e) awaited list) x st1 r. I st \<Longrightarrow> pass_gate opts i st s = (Inl x, st1, r) \<Longrightarrow> Q x st1"
    and sends: "\<And>st (s :: ('v, 'e) awaited list) u st1 r. I st \<Longrightarrow> pass_gate opts i st s = (Inr u, st1, r) \<Longrightarrow> K (send_call (rs_now st1) st1)"
    and calls: "\<And>st ms t. K st \<Longrightarrow> K (await ms t st)"
    and quits: "\<And>st x. K st \<Longrightarrow> \<not> is_throttled x \<Longrightarrow> Q x st"
    and retries: "\<And>st tr x. K st \<Longrightarrow> may_retry_transient opts tr st \<Longrightarrow> \<not> is_throttled x \<Longrightarrow> Q x (st\<lparr>rs_transient := rs_transient st + 1\<rparr>)"
    and again: "\<And>st tr ms t. K st \<Longrightarrow> may_retry_transient opts tr st \<Longrightarrow> I (await ms t (st\<lparr>rs_transient := rs_transient st + 1\<rparr>))"
    and gives_up: "\<And>st e ra x st1. K st \<Longrightarrow> refused opts i e ra st = (Some x, st1) \<Longrightarrow> Q (Threw x) st1"
    and goes_on: "\<And>st (e :: 'e) ra st1. K st \<Longrightarrow> refused opts i e ra st = (None, st1) \<Longrightarrow> I st1"
  shows "Q out st'"
  using assms(1,2)
proof (induction "length script" arbitrary: st script rule: less_induct)
  case less
  obtain g st1 rest where g: "pass_gate opts i st script = (g, st1, rest)" by (metis surj_pair)
  show ?case
  proof (cases g)
    case (Inl x)
    then have "out = x" "st' = st1" using less.prems(1) g by (simp_all add: attemptWithGate.simps)
    then show ?thesis using ends less.prems(2) g Inl by simp
  next
    case (Inr u)
    let ?st2 = "send_call (rs_now st1) st1"
    have K2: "K ?st2" using sends less.prems(2) g Inr by simp
    show ?thesis
    proof (cases "\<exists>reply ms t rest1. rest = Called reply ms t # rest1")
      case False
      then have "st' = ?st2" "out = Waiting \<or> out = Mismatch"
        using less.prems(1) by (subst (asm) attemptWithGate.simps; auto simp: g Inr Let_def split: list.splits awaited.splits)+
      then show ?thesis using quits [OF K2] by auto
    next
      case True
      then obtain reply ms t rest1 where rest: "rest = Called reply ms t # rest1" by blast
      let ?st3 = "await ms t ?st2"
      have K3: "K ?st3" by (rule calls [OF K2])
      have len: "length rest1 < length script" using pass_gate_length [OF g] rest by simp
      show ?thesis
      proof (cases reply)
        case (Answer v)
        then have "out = Returned v" "st' = ?st3" using less.prems(1) by (simp_all add: attemptWithGate.simps [of _ _ st] g Inr rest)
        then show ?thesis using quits [OF K3] by simp
      next
        case (Failure e tr)
        let ?st4 = "?st3\<lparr>rs_transient := rs_transient ?st3 + 1\<rparr>"
        have run: "attemptWithGate opts i st script =
           (if \<not> may_retry_transient opts tr ?st3 then (Threw (Rethrown e), ?st3)
            else (case rest1 of
                [] \<Rightarrow> (Waiting, ?st4)
              | Delayed ms1 t1 # rest2 \<Rightarrow> attemptWithGate opts i (await ms1 t1 ?st4) rest2
              | Aborted # rest2 \<Rightarrow> (Threw AbortReason, ?st4)
              | _ \<Rightarrow> (Mismatch, ?st4)))"
          by (subst attemptWithGate.simps) (simp only: g Inr rest Failure Let_def prod.case sum.case list.case awaited.case reply.case)
        show ?thesis
        proof (cases "may_retry_transient opts tr ?st3")
          case False
          then show ?thesis using less.prems(1) quits [OF K3] unfolding run by auto
        next
          case tr: True
          show ?thesis
          proof (cases "\<exists>ms1 t1 rest2. rest1 = Delayed ms1 t1 # rest2")
            case False
            then have "st' = ?st4" "out = Waiting \<or> out = Mismatch \<or> out = Threw AbortReason"
              using less.prems(1) tr unfolding run by (auto split: list.splits awaited.splits)
            then show ?thesis using retries [OF K3 tr] by auto
          next
            case True
            then obtain ms1 t1 rest2 where d: "rest1 = Delayed ms1 t1 # rest2" by blast
            show ?thesis
              by (rule less.hyps [of rest2]) (use less.prems(1) tr len d again [OF K3 tr] in \<open>auto simp: run\<close>)
          qed
        qed
      next
        case (Refusal e ra)
        obtain x st4 where r: "refused opts i e ra ?st3 = (x, st4)" by (metis surj_pair)
        have run: "attemptWithGate opts i st script =
           (case x of Some y \<Rightarrow> (Threw y, st4) | None \<Rightarrow> attemptWithGate opts i st4 rest1)"
          by (subst attemptWithGate.simps) (simp add: g Inr rest Refusal Let_def r)
        show ?thesis
        proof (cases x)
          case (Some y)
          then show ?thesis using less.prems(1) gives_up [OF K3] r unfolding run by auto
        next
          case None
          show ?thesis
            by (rule less.hyps [of rest1]) (use less.prems(1) len goes_on [OF K3] r None in \<open>auto simp: run\<close>)
        qed
      qed
    qed
  qed
qed

lemma attempt_records:
  fixes script :: "('v, 'e) awaited list"
  assumes "attemptWithGate opts i st script = (out, st')" "run_ok key i st"
  shows "run_ok key i st' \<and> (is_throttled out \<longrightarrow> recorded_on_gate i st')"
proof (rule attempt_rule [OF assms(1), where I = "run_ok key i" and K = "run_ok key i"
      and Q = "\<lambda>out st. run_ok key i st \<and> (is_throttled out \<longrightarrow> recorded_on_gate i st)"])
  fix st and s :: "('v, 'e) awaited list" and x st1 r
  assume "run_ok key i st" "pass_gate opts i st s = (Inl x, st1, r)"
  then show "run_ok key i st1 \<and> (is_throttled x \<longrightarrow> recorded_on_gate i st1)"
    using pass_gate_keeps(1,3) by blast
next
  fix st and s :: "('v, 'e) awaited list" and u st1 r
  assume a: "run_ok key i st" "pass_gate opts i st s = (Inr u, st1, r)"
  show "run_ok key i (send_call (rs_now st1) st1)"
    by (rule run_ok_cong [OF send_call_frame(1) pass_gate_keeps(1) [OF a(2,1)]])
next
  fix st ra st1 and e :: 'e and x
  assume a: "run_ok key i st" "refused opts i e ra st = (Some x, st1)"
  show "run_ok key i st1 \<and> (is_throttled (Threw x :: ('v, 'e) outcome) \<longrightarrow> recorded_on_gate i st1)"
    using refused_keeps(1,2) [OF a(2,1)] by simp
next
  fix st ra st1 and e :: 'e
  assume a: "run_ok key i st" "refused opts i e ra st = (None, st1)"
  show "run_ok key i st1" by (rule refused_keeps(1) [OF a(2,1)])
next
  fix st tr ms t
  assume "run_ok key i st"
  then show "run_ok key i (await ms t (st\<lparr>rs_transient := rs_transient st + 1\<rparr>))"
    by (intro await_ok) simp
next
  fix st tr and x :: "('v, 'e) outcome"
  assume a: "run_ok key i st" "\<not> is_throttled x"
  then show "run_ok key i (st\<lparr>rs_transient := rs_transient st + 1\<rparr>)
      \<and> (is_throttled x \<longrightarrow> recorded_on_gate i (st\<lparr>rs_transient := rs_transient st + 1\<rparr>))"
    by simp
next
  fix st ms t
  assume "run_ok key i st"
  then show "run_ok key i (await ms t st)" by (rule await_ok)
qed (use assms(2) in simp_all)

text \<open>The requests of a run are its refusals, its transient retries and at most one more.\<close>

definition response_events :: "run_state \<Rightarrow> nat" where
  "response_events st = length (filter (\<lambda>e. te_source e = FromResponse) (rs_events st))"

definition gives_up_at :: "throttle_strategy \<Rightarrow> nat \<Rightarrow> bool" where
  "gives_up_at strategy n \<longleftrightarrow>
     (\<forall>ctx. tc_source ctx = FromResponse \<longrightarrow> n \<le> tc_attempt ctx \<longrightarrow> \<not> td_retry (ts_decide strategy ctx))"

definition transient_budget :: "throttle_options \<Rightarrow> nat" where
  "transient_budget opts = (case to_transient opts of None \<Rightarrow> 0 | Some m \<Rightarrow> m)"

definition counted :: "throttle_options \<Rightarrow> nat \<Rightarrow> nat \<Rightarrow> run_state \<Rightarrow> bool" where
  "counted opts n out st \<longleftrightarrow>
     length (rs_calls st) = rs_attempt st + rs_transient st + out \<and> rs_attempt st + out \<le> n
     \<and> rs_transient st \<le> transient_budget opts \<and> response_events st = rs_attempt st"

lemma response_events_await [simp]: "response_events (await ms t st) = response_events st"
  by (simp add: response_events_def)

lemma ask_gate_events: "ask_gate opts i st = (x, st') \<Longrightarrow> response_events st' = response_events st"
  by (auto simp: ask_gate_def Let_def response_events_def throttle_report_def split: if_splits)

lemma pass_gate_events:
  fixes script :: "('v, 'e) awaited list"
  assumes "pass_gate opts i st script = (x, st', rest)"
  shows "response_events st' = response_events st"
proof (cases "remaining (rs_now st) (gate_of i st) > 0")
  case False
  then show ?thesis using assms by (auto simp: pass_gate_def response_events_def)
next
  case True
  obtain e :: "'e thrown option" and st1 where a: "ask_gate opts i st = (e, st1)" by (metis surj_pair)
  obtain w st2 rest2 where w: "waitUntilOpen i None st1 script = (w, st2, rest2)" by (metis surj_pair)
  have "response_events st2 = response_events st1" using waitUntilOpen_keeps(2) [OF w] by (simp add: response_events_def)
  moreover have "st' = st1 \<or> response_events st' = response_events st2"
    using assms True a w
    by (cases e; cases w) (auto simp: pass_gate_def Let_def response_events_def split: list.splits awaited.splits)
  ultimately show ?thesis using ask_gate_events [OF a] by auto
qed

lemma attempt_counts:
  fixes script :: "('v, 'e) awaited list"
  assumes run: "attemptWithGate opts i st script = (out, st')" and start: "counted opts n 0 st" "rs_attempt st < n"
    and gives: "gives_up_at (to_strategy opts) n" and ok: "run_ok key i st"
  shows "length (rs_calls st') \<le> n + transient_budget opts \<and> response_events st' = rs_attempt st' \<and> rs_attempt st' \<le> n"
proof (rule attempt_rule [OF run,
      where I = "\<lambda>st. run_ok key i st \<and> counted opts n 0 st \<and> rs_attempt st < n"
        and K = "\<lambda>st. run_ok key i st \<and> counted opts n 1 st"
        and Q = "\<lambda>out st. length (rs_calls st) \<le> n + transient_budget opts \<and> response_events st = rs_attempt st \<and> rs_attempt st \<le> n"])
  fix st and s :: "('v, 'e) awaited list" and x st1 r
  assume "run_ok key i st \<and> counted opts n 0 st \<and> rs_attempt st < n" "pass_gate opts i st s = (Inl x, st1, r)"
  then show "length (rs_calls st1) \<le> n + transient_budget opts \<and> response_events st1 = rs_attempt st1 \<and> rs_attempt st1 \<le> n"
    using pass_gate_keeps(2) pass_gate_events unfolding counted_def by (metis add_le_mono add.right_neutral less_imp_le)
next
  fix st and s :: "('v, 'e) awaited list" and u st1 r
  assume a: "run_ok key i st \<and> counted opts n 0 st \<and> rs_attempt st < n" "pass_gate opts i st s = (Inr u, st1, r)"
  have "run_ok key i (send_call (rs_now st1) st1)"
    using run_ok_cong [OF send_call_frame(1) pass_gate_keeps(1) [OF a(2)]] a(1) by blast
  moreover have "counted opts n 1 (send_call (rs_now st1) st1)"
    using a(1) pass_gate_keeps(2) [OF a(2)] pass_gate_events [OF a(2)] by (auto simp: counted_def response_events_def)
  ultimately show "run_ok key i (send_call (rs_now st1) st1) \<and> counted opts n 1 (send_call (rs_now st1) st1)" by blast
next
  fix st ra st1 and e :: 'e and x
  assume a: "run_ok key i st \<and> counted opts n 1 st" "refused opts i e ra st = (Some x, st1)"
  have "response_events st1 = response_events st + 1"
    using a(2) by (auto simp: refused_def Let_def response_events_def throttle_report_def split: if_splits)
  then show "length (rs_calls st1) \<le> n + transient_budget opts \<and> response_events st1 = rs_attempt st1 \<and> rs_attempt st1 \<le> n"
    using a(1) refused_keeps(3-5) [OF a(2), of key] by (auto simp: counted_def)
next
  fix st ra st1 and e :: 'e
  assume a: "run_ok key i st \<and> counted opts n 1 st" "refused opts i e ra st = (None, st1)"
  have "response_events st1 = response_events st + 1"
    using a(2) by (auto simp: refused_def Let_def response_events_def throttle_report_def split: if_splits)
  moreover have "rs_attempt st1 < n"
  proof (rule ccontr)
    obtain ctx where "tc_source ctx = FromResponse" "tc_attempt ctx = rs_attempt st1" "td_retry (ts_decide (to_strategy opts) ctx)"
      using refused_keeps(8) [OF a(2), of key] a(1) by auto
    moreover assume "\<not> rs_attempt st1 < n"
    ultimately show False using gives by (simp add: gives_up_at_def)
  qed
  ultimately show "run_ok key i st1 \<and> counted opts n 0 st1 \<and> rs_attempt st1 < n"
    using a(1) refused_keeps(1,3-5) [OF a(2), of key] by (auto simp: counted_def)
next
  fix st tr ms t
  assume a: "run_ok key i st \<and> counted opts n 1 st" "may_retry_transient opts tr st"
  let ?st = "await ms t (st\<lparr>rs_transient := rs_transient st + 1\<rparr>)"
  have "run_ok key i ?st" using a(1) by (intro await_ok) simp
  moreover have "rs_transient st < transient_budget opts"
    using a(2) by (auto simp: may_retry_transient_def transient_budget_def split: option.splits)
  ultimately show "run_ok key i ?st \<and> counted opts n 0 ?st \<and> rs_attempt ?st < n"
    using a(1) by (auto simp: counted_def response_events_def)
next
  fix st tr x
  assume "run_ok key i st \<and> counted opts n 1 st"
  then show "length (rs_calls (st\<lparr>rs_transient := rs_transient st + 1\<rparr>)) \<le> n + transient_budget opts
      \<and> response_events (st\<lparr>rs_transient := rs_transient st + 1\<rparr>) = rs_attempt (st\<lparr>rs_transient := rs_transient st + 1\<rparr>)
      \<and> rs_attempt (st\<lparr>rs_transient := rs_transient st + 1\<rparr>) \<le> n"
    by (auto simp: counted_def response_events_def)
next
  fix st ms t
  assume a: "run_ok key i st \<and> counted opts n 1 st"
  have "run_ok key i (await ms t st)" by (rule await_ok) (use a in simp)
  then show "run_ok key i (await ms t st) \<and> counted opts n 1 (await ms t st)"
    using a by (simp add: counted_def)
qed (use start ok in \<open>auto simp: counted_def\<close>)

subsection \<open>Whole runs\<close>

lemma run_cases:
  fixes script :: "('v, 'e) awaited list"
  assumes "runWithThrottleRetry opts w script = (out, st)" "world_ok [] w"
  obtains i r st1 where "leaseQuotaGate (to_key opts) (wo_now w) (wo_reg w) = (i, r)"
    "attemptWithGate opts i (initial_run (w\<lparr>wo_reg := r\<rparr>)) script = (out, st1)"
    "run_ok (to_key opts) i (initial_run (w\<lparr>wo_reg := r\<rparr>))"
    "st = (if out = Waiting \<or> out = Mismatch then st1 else end_run i st1)"
proof -
  obtain i r where l: "leaseQuotaGate (to_key opts) (wo_now w) (wo_reg w) = (i, r)" by (metis surj_pair)
  obtain out1 st1 where a: "attemptWithGate opts i (initial_run (w\<lparr>wo_reg := r\<rparr>)) script = (out1, st1)" by (metis surj_pair)
  have "reg_ok (wo_others w) (wo_reg w)" using assms(2) by (simp add: world_ok_def)
  note L = leaseQuotaGate_ok [OF this l]
  have "run_ok (to_key opts) i (initial_run (w\<lparr>wo_reg := r\<rparr>))"
    using L(1,2) by (simp add: run_ok_def world_ok_def initial_run_def)
  then show ?thesis
    using that [OF l, of st1] a assms(1) by (simp add: runWithThrottleRetry_def l split: if_splits)
qed

lemma end_run_frame [simp]:
  "rs_calls (end_run i st) = rs_calls st" "rs_events (end_run i st) = rs_events st" "rs_attempt (end_run i st) = rs_attempt st"
  "rs_now (end_run i st) = rs_now st" "response_events (end_run i st) = response_events st"
  by (simp_all add: end_run_def response_events_def)

lemma end_run_ok:
  assumes "run_ok key i st"
  shows "world_ok [] (rs_world (end_run i st))" "map_of (rg_gates (wo_reg (rs_world (end_run i st)))) key = Some i"
    "gate_of i (end_run i st) = gate_of i st"
proof -
  have r: "reg_ok ([i] @ wo_others (rs_world st)) (wo_reg (rs_world st))" "i \<in> set ([i] @ wo_others (rs_world st))"
    using assms by (auto simp: run_ok_def world_ok_def)
  note R = release_ok [OF r]
  have "i < length (rg_heap (wo_reg (rs_world st)))" using r by (auto dest: reg_okD(4))
  then show "world_ok [] (rs_world (end_run i st))" "map_of (rg_gates (wo_reg (rs_world (end_run i st)))) key = Some i"
    "gate_of i (end_run i st) = gate_of i st"
    using R(1) [where now = "rs_now st"] R(2) [where now = "rs_now st"] R(4) [where now = "rs_now st" and i = i] assms
    by (simp_all add: end_run_def world_ok_def run_ok_def)
qed

lemma report_gives_up: "gives_up_at ReportThrottling 1"
  by (simp add: gives_up_at_def ReportThrottling_def)

lemma wait_gives_up: "gives_up_at (WaitAsTold (Some n)) n"
  by (simp add: gives_up_at_def WaitAsTold_def Let_def)

text \<open>C22. What one caller is refused with reaches the next: after a run that ended on a refusal, and whatever other
  callers did to the registry meanwhile (leases, releases, reclaiming, other refusals), a caller on the same quota
  that comes within the interval the server named and does not wait sends no request and is told what is left.\<close>

theorem refusal_reaches_the_next_caller:
  fixes script :: "('v, 'e) awaited list" and script' :: "('u, 'f) awaited list"
  assumes run: "runWithThrottleRetry opts w script = (Threw (Throttled e n ra reason), st)" and w: "world_ok [] w"
    and soon: "wo_now (env_run ms t (rs_world st)) < rs_now st + te_wait (last (rs_events st))"
    and next_caller: "to_key opts' = to_key opts" "to_strategy opts' = ReportThrottling"
  shows "\<exists>left st'. runWithThrottleRetry opts' (env_run ms t (rs_world st)) script'
        = (Threw (KnownShut 0 left (Some ''reported'')), st')
     \<and> rs_calls st' = [] \<and> 1000 * left \<ge> rs_now st + te_wait (last (rs_events st)) - wo_now (env_run ms t (rs_world st))"
proof -
  let ?w = "env_run ms t (rs_world st)" and ?T = "wo_now (env_run ms t (rs_world st))"
  obtain i r st1 where a: "attemptWithGate opts i (initial_run (w\<lparr>wo_reg := r\<rparr>)) script = (Threw (Throttled e n ra reason), st1)"
      "run_ok (to_key opts) i (initial_run (w\<lparr>wo_reg := r\<rparr>))" and st: "st = end_run i st1"
    by (rule run_cases [OF run w]) simp
  have ok1: "run_ok (to_key opts) i st1" and rec: "recorded_on_gate i st1" using attempt_records [OF a] by simp_all
  note E = end_run_ok [OF ok1]
  have shut: "rs_now st + te_wait (last (rs_events st)) \<le> qg_notBefore (gate_of i st)"
    using rec E(3) by (simp add: st recorded_on_gate_def)
  have "kept [] (to_key opts) i ?T (rs_world st)" using E(2) shut soon by (simp add: kept_def st)
  moreover have "i < length (rg_heap (wo_reg (rs_world st)))"
    using E(1,2) by (auto simp: st world_ok_def dest: map_of_SomeD reg_okD(2))
  ultimately have w2: "world_ok [] ?w" "kept [] (to_key opts) i ?T ?w"
      "qg_notBefore (gate_of i st) \<le> qg_notBefore (ge_gate (entry_at (wo_reg ?w) i))" "i < length (rg_heap (wo_reg ?w))"
    using env_run_keeps [OF E(1), of ms t i "to_key opts" ?T] by (simp_all add: st)
  obtain j r2 where l: "leaseQuotaGate (to_key opts') ?T (wo_reg ?w) = (j, r2)" by (metis surj_pair)
  have "reg_ok (wo_others ?w) (wo_reg ?w)" using w2(1) by (simp add: world_ok_def)
  note L = leaseQuotaGate_ok [OF this l]
  have j: "j = i" using L(2) L(6) [OF kept_live [OF w2(1,2)]] next_caller(1) by (simp add: live_def)
  let ?st = "initial_run (?w\<lparr>wo_reg := r2\<rparr>)"
  have rem: "remaining (rs_now ?st) (gate_of i ?st) \<ge> rs_now st + te_wait (last (rs_events st)) - ?T"
      "remaining (rs_now ?st) (gate_of i ?st) > 0"
    using L(5) [OF w2(4)] w2(3) shut soon by (auto simp: initial_run_def remaining_def)
  let ?left = "remaining (rs_now ?st) (gate_of i ?st) / 1000"
  obtain st2 where "attemptWithGate opts' i ?st script' = (Threw (KnownShut 0 ?left (Some ''reported'')), st2)" "rs_calls st2 = []"
    using rem(2) next_caller(2)
    by (simp add: attemptWithGate.simps [of _ _ "initial_run _"] pass_gate_def ask_gate_def Let_def ReportThrottling_def)
      (simp add: initial_run_def)
  then have "runWithThrottleRetry opts' ?w script' = (Threw (KnownShut 0 ?left (Some ''reported'')), end_run i st2)
      \<and> rs_calls (end_run i st2) = []"
    by (simp add: runWithThrottleRetry_def l j)
  moreover have "1000 * ?left \<ge> rs_now st + te_wait (last (rs_events st)) - ?T" using rem(1) by simp
  ultimately show ?thesis by blast
qed

text \<open>A run is bounded by its strategy: with one that gives up at the \<open>n\<close>-th refusal (1 for \<open>ReportThrottling\<close>,
  \<open>maxAttempts\<close> for \<open>WaitAsTold\<close>) it sends at most \<open>n\<close> requests and the configured number of transient retries,
  however often the gate shuts while it waits, and it reports every refusal exactly once.\<close>

theorem throttled_run_is_bounded:
  fixes script :: "('v, 'e) awaited list"
  assumes "runWithThrottleRetry opts w script = (out, st)" "world_ok [] w" "gives_up_at (to_strategy opts) n" "0 < n"
  shows "length (rs_calls st) \<le> n + transient_budget opts \<and> response_events st = rs_attempt st \<and> rs_attempt st \<le> n"
proof -
  obtain i r st1 where a: "attemptWithGate opts i (initial_run (w\<lparr>wo_reg := r\<rparr>)) script = (out, st1)"
      "run_ok (to_key opts) i (initial_run (w\<lparr>wo_reg := r\<rparr>))" and st: "st = (if out = Waiting \<or> out = Mismatch then st1 else end_run i st1)"
    using run_cases [OF assms(1,2)] by metis
  have "counted opts n 0 (initial_run (w\<lparr>wo_reg := r\<rparr>))" "rs_attempt (initial_run (w\<lparr>wo_reg := r\<rparr>)) < n"
    using assms(4) by (simp_all add: counted_def initial_run_def response_events_def)
  from attempt_counts [OF a(1) this assms(3) a(2)] show ?thesis by (simp add: st)
qed

definition sample_world :: world where
  "sample_world = \<lparr>wo_now = 0, wo_reg = \<lparr>rg_gates = [], rg_heap = []\<rparr>, wo_others = []\<rparr>"

definition sample_throttle :: "throttle_strategy \<Rightarrow> throttle_options" where
  "sample_throttle strategy = \<lparr>to_key = ''m'', to_strategy = strategy, to_transient = Some 1, to_aborted = (\<lambda>t. False)\<rparr>"

lemma sample_world_ok: "world_ok [] sample_world"
  by (simp add: sample_world_def world_ok_def reg_ok_def)

lemmas throttle_run_defs = runWithThrottleRetry_def leaseQuotaGate_def gateFor_def sample_throttle_def sample_world_def
  initial_run_def pass_gate_def ask_gate_def refused_def remaining_def penalise_def penalise_entry_def upd_entry_def
  send_call_def await_def env_run_def advance_def throttle_report_def end_run_def release_lease_def servedWaitMs_def
  GATE_LIMIT_def may_retry_transient_def

definition sample_refusal :: "(nat, string) awaited list" where
  "sample_refusal = [Called (Refusal ''e'' (Some (Finite 30))) [] 10]"

lemma sample_refused:
  "\<exists>st. runWithThrottleRetry (sample_throttle ReportThrottling) sample_world sample_refusal
      = (Threw (Throttled ''e'' 1 (Some (Finite 30)) (Some ''reported'')), st)
    \<and> rs_now st = 10 \<and> te_wait (last (rs_events st)) = 30000"
  by (simp add: throttle_run_defs attemptWithGate.simps ReportThrottling_def sample_refusal_def)

lemma refusal_reaches_the_next_caller_witness:
  "\<exists>(st :: run_state) st' left. runWithThrottleRetry (sample_throttle ReportThrottling) (env_run [(20, OpPrune)] 30 (rs_world st)) ([] :: (nat, nat) awaited list)
      = (Threw (KnownShut 0 left (Some ''reported'')), st') \<and> rs_calls st' = []"
proof -
  obtain st where st: "runWithThrottleRetry (sample_throttle ReportThrottling) sample_world sample_refusal
      = (Threw (Throttled ''e'' 1 (Some (Finite 30)) (Some ''reported'')), st)" "rs_now st = 10" "te_wait (last (rs_events st)) = 30000"
    using sample_refused by blast
  have "wo_now (env_run [(20, OpPrune)] 30 (rs_world st)) = 30"
    using st(2) by (simp add: env_run_def env_step_def Let_def)
  then have soon: "wo_now (env_run [(20, OpPrune)] 30 (rs_world st)) < rs_now st + te_wait (last (rs_events st))"
    using st(2,3) by simp
  have "to_strategy (sample_throttle ReportThrottling) = ReportThrottling" by (simp add: sample_throttle_def)
  from refusal_reaches_the_next_caller [OF st(1) sample_world_ok soon refl this, where script' = "[] :: (nat, nat) awaited list"]
  show ?thesis by blast
qed

lemma throttled_run_is_bounded_witness:
  "\<exists>st. runWithThrottleRetry (sample_throttle (WaitAsTold (Some 2))) sample_world
      [Called (Refusal ''e'' (Some (Finite 1))) [] 10, Slept [] 1010, Resumed [] 1010, Called (Answer (7 :: nat)) [] 1020]
      = (Returned 7, st) \<and> length (rs_calls st) \<le> 3 \<and> rs_attempt st = 1"
proof -
  have "\<exists>st. runWithThrottleRetry (sample_throttle (WaitAsTold (Some 2))) sample_world
      [Called (Refusal ''e'' (Some (Finite 1))) [] 10, Slept [] 1010, Resumed [] 1010, Called (Answer (7 :: nat)) [] 1020]
      = (Returned 7, st) \<and> rs_attempt st = 1"
    by (simp add: throttle_run_defs attemptWithGate.simps waitUntilOpen.simps WaitAsTold_def)
  then obtain st where st: "runWithThrottleRetry (sample_throttle (WaitAsTold (Some 2))) sample_world
      [Called (Refusal ''e'' (Some (Finite 1))) [] 10, Slept [] 1010, Resumed [] 1010, Called (Answer (7 :: nat)) [] 1020]
      = (Returned 7, st)" "rs_attempt st = 1" by blast
  show ?thesis
    using throttled_run_is_bounded [OF st(1) sample_world_ok, of 2] wait_gives_up [of 2] st
    by (auto simp: sample_throttle_def transient_budget_def)
qed

end
