(* ===== verification/ErrorChain.thy ===== *)
theory ErrorChain
  imports Throttle CheckVerdict
begin

text \<open>
  Thrown values and their \<open>cause\<close> chains: \<open>findThrottled\<close>, \<open>preserveThrottled\<close>, \<open>knownShut\<close> and \<open>annotate\<close> of
  \<open>llm/throttle.ts\<close>, and the classification of errors shared by the retry decorators
  (\<open>resilience/retry-embedder.ts\<close>).

  Objects live in a heap, so that chains may be cyclic; an error that the decorators themselves create has no
  cause and is \<open>Fresh\<close>.  Only the fields that the code reads are kept.
\<close>

subsection \<open>Thrown values\<close>

datatype err_val =
    ErrObj nat
  | Fresh string string string      \<comment> \<open>class name, message, code\<close>
  | ErrPrim string                  \<comment> \<open>a value that is not an object, with its \<open>String\<close>\<close>

record err_facts =
  ef_isError :: bool                \<comment> \<open>\<open>instanceof Error\<close>\<close>
  ef_name :: string
  ef_message :: "string option"
  ef_status :: "int option"         \<comment> \<open>when it is a number\<close>
  ef_statusCode :: "int option"
  ef_throttled :: bool              \<comment> \<open>\<open>throttled === true\<close>\<close>
  ef_attempts :: "nat option"
  ef_retryAfter :: "js_number option"
  ef_reason :: "string option"
  ef_cause :: err_val

type_synonym err_heap = "err_facts list"

abbreviation js_undefined :: err_val where
  "js_undefined \<equiv> ErrPrim ''undefined''"

definition plain_error :: "string \<Rightarrow> string \<Rightarrow> err_facts" where
  "plain_error name message =
     \<lparr>ef_isError = True, ef_name = name, ef_message = Some message, ef_status = None, ef_statusCode = None,
      ef_throttled = False, ef_attempts = None, ef_retryAfter = None, ef_reason = None, ef_cause = js_undefined\<rparr>"

definition facts_of :: "err_heap \<Rightarrow> err_val \<Rightarrow> err_facts option" where
  "facts_of h v =
     (case v of
        ErrObj a \<Rightarrow> if a < length h then Some (h ! a) else None
      | Fresh name message code \<Rightarrow> Some (plain_error name message)
      | ErrPrim s \<Rightarrow> None)"

text \<open>\<open>String(err)\<close>; a plain object has the default \<open>toString\<close>.\<close>

definition error_string :: "err_heap \<Rightarrow> err_val \<Rightarrow> string" where
  "error_string h v =
     (case v of
        ErrPrim s \<Rightarrow> s
      | _ \<Rightarrow>
          (case facts_of h v of
             None \<Rightarrow> ''undefined''
           | Some f \<Rightarrow>
               if \<not> ef_isError f then ''[object Object]''
               else (let message = nullish (ef_message f) [] in
                 if ef_name f = [] then message
                 else if message = [] then ef_name f
                 else ef_name f @ '': '' @ message)))"

subsection \<open>Walking the chain\<close>

definition MAX_CAUSE_DEPTH :: nat where
  "MAX_CAUSE_DEPTH = 5"

text \<open>What the bounded loop looks at, in its order.\<close>

fun walk_causes :: "err_heap \<Rightarrow> nat \<Rightarrow> err_val list \<Rightarrow> err_val \<Rightarrow> (err_val \<times> err_facts) list" where
  "walk_causes h 0 visited cur = []"
| "walk_causes h (Suc depth) visited cur =
     (case facts_of h cur of
        None \<Rightarrow> []
      | Some f \<Rightarrow>
          if cur \<in> set visited then []
          else (cur, f) # walk_causes h depth (cur # visited) (ef_cause f))"

definition findThrottled :: "err_heap \<Rightarrow> err_val \<Rightarrow> (err_val \<times> err_facts) option" where
  "findThrottled h err = find (\<lambda>(v, f). ef_throttled f) (walk_causes h MAX_CAUSE_DEPTH [] err)"

definition own_status :: "err_facts \<Rightarrow> int option" where
  "own_status f = (case ef_status f of Some s \<Rightarrow> Some s | None \<Rightarrow> ef_statusCode f)"

definition extractStatusCode :: "err_heap \<Rightarrow> err_val \<Rightarrow> int option" where
  "extractStatusCode h err =
     (case find (\<lambda>(v, f). own_status f \<noteq> None) (walk_causes h MAX_CAUSE_DEPTH [] err) of
        None \<Rightarrow> None
      | Some (v, f) \<Rightarrow> own_status f)"

definition error_message :: "err_heap \<Rightarrow> err_val \<Rightarrow> string" where
  "error_message h err =
     (case facts_of h err of
        Some f \<Rightarrow> if ef_isError f then nullish (ef_message f) [] else error_string h err
      | None \<Rightarrow> error_string h err)"

definition isRetryableStatus :: "err_heap \<Rightarrow> err_val \<Rightarrow> int list \<Rightarrow> bool" where
  "isRetryableStatus h err retryOn =
     (case extractStatusCode h err of
        Some status \<Rightarrow> status \<in> set retryOn
      | None \<Rightarrow> list_ex (\<lambda>code. has_word (int_str code) False (error_message h err)) retryOn)"

text \<open>
  The walk of \<open>RetryEmbedder.isRetryable\<close> is bounded by its visited set alone.  It returns everything it looks at.
\<close>

definition unvisited :: "err_heap \<Rightarrow> err_val list \<Rightarrow> nat" where
  "unvisited h seen = card {a. a < length h \<and> ErrObj a \<notin> set seen}"

lemma unvisited_less:
  assumes "a < length h" "ErrObj a \<notin> set seen"
  shows "unvisited h (ErrObj a # seen) < unvisited h seen"
  unfolding unvisited_def by (rule psubset_card_mono) (use assms in auto)

definition walk_left :: "err_heap \<Rightarrow> err_val list \<Rightarrow> err_val \<Rightarrow> nat" where
  "walk_left h seen cur =
     (case cur of ErrObj a \<Rightarrow> unvisited h seen + 2 | Fresh _ _ _ \<Rightarrow> 1 | ErrPrim _ \<Rightarrow> 0)"

lemma walk_left_less:
  assumes "facts_of h cur = Some f" "cur \<notin> set seen"
  shows "walk_left h (cur # seen) (ef_cause f) < walk_left h seen cur"
proof (cases cur)
  case (ErrObj a)
  with assms have "unvisited h (cur # seen) < unvisited h seen"
    by (simp add: facts_of_def unvisited_less split: if_splits)
  then show ?thesis
    using ErrObj by (simp add: walk_left_def split: err_val.split)
next
  case (Fresh x y z)
  with assms have "ef_cause f = js_undefined" by (auto simp: facts_of_def plain_error_def)
  then show ?thesis using Fresh by (simp add: walk_left_def)
qed (use assms in \<open>simp add: facts_of_def\<close>)

function walk_all :: "err_heap \<Rightarrow> err_val list \<Rightarrow> err_val \<Rightarrow> err_facts list" where
  "walk_all h seen cur =
     (case facts_of h cur of
        None \<Rightarrow> []
      | Some f \<Rightarrow> if cur \<in> set seen then [] else f # walk_all h (cur # seen) (ef_cause f))"
  by pat_completeness auto
termination
proof (relation "measure (\<lambda>(h, seen, cur). walk_left h seen cur)", goal_cases)
  case (2 h seen cur f)
  then show ?case by (simp add: walk_left_less)
qed simp

declare walk_all.simps [simp del]

fun begins_any :: "string list \<Rightarrow> string \<Rightarrow> bool" where
  "begins_any ws s = list_ex (\<lambda>w. prefix w s) ws"

text \<open>\<open>.{0,n}(?:w1|w2|...)\<close> at the start of a string; the dot matches no line terminator.\<close>

fun within_gap :: "nat \<Rightarrow> string list \<Rightarrow> string \<Rightarrow> bool" where
  "within_gap n ws [] = begins_any ws []"
| "within_gap n ws (c # r) =
     (begins_any ws (c # r) \<or> (0 < n \<and> c \<notin> {CHR 10, CHR 13} \<and> within_gap (n - 1) ws r))"

definition tokens_or_length :: "string \<Rightarrow> bool" where
  "tokens_or_length s \<longleftrightarrow> begins_any [''tokens'', ''length''] s"

text \<open>\<open>[_ ](?:input[_ ])?(?:tokens|length)\<close>\<close>

definition max_tail :: "string \<Rightarrow> bool" where
  "max_tail s \<longleftrightarrow>
     (case s of [] \<Rightarrow> False
      | c # r \<Rightarrow> c \<in> {CHR ''_'', CHR '' ''} \<and>
          (tokens_or_length r
           \<or> (begins_any [''input_'', ''input ''] r \<and> tokens_or_length (drop 6 r))))"

definition too_long_at :: "string \<Rightarrow> bool" where
  "too_long_at s \<longleftrightarrow>
     (prefix ''input'' s \<and> within_gap 30 [''too long'', ''too large'', ''exceed''] (drop 5 s))
     \<or> begins_any [''maximum context length'', ''context_length_exceeded'', ''too many tokens''] s
     \<or> (prefix ''max'' s \<and> max_tail (drop 3 s))
     \<or> (prefix ''maximum'' s \<and> max_tail (drop 7 s))"

fun anywhere :: "(string \<Rightarrow> bool) \<Rightarrow> string \<Rightarrow> bool" where
  "anywhere P [] = P []"
| "anywhere P (c # r) = (P (c # r) \<or> anywhere P r)"

definition input_too_long :: "string \<Rightarrow> bool" where
  "input_too_long message = anywhere too_long_at (map lower message)"

definition embedder_isRetryable :: "err_heap \<Rightarrow> int list \<Rightarrow> err_val \<Rightarrow> bool" where
  "embedder_isRetryable h retryOn err \<longleftrightarrow>
     \<not> list_ex (\<lambda>f. input_too_long (nullish (ef_message f) [])) (walk_all h [] err)
     \<and> isRetryableStatus h err retryOn"

subsection \<open>The facts of a refusal\<close>

definition preserveThrottled :: "err_heap \<Rightarrow> err_val \<Rightarrow> nat \<Rightarrow> err_heap" where
  "preserveThrottled h original wrapped =
     (case facts_of h original of
        None \<Rightarrow> h
      | Some g \<Rightarrow>
          if \<not> ef_throttled g then h
          else h[wrapped := (h ! wrapped)
                  \<lparr>ef_throttled := True, ef_attempts := ef_attempts g,
                   ef_retryAfter := (if ef_retryAfter g = None then ef_retryAfter (h ! wrapped) else ef_retryAfter g),
                   ef_reason := (if ef_reason g = None then ef_reason (h ! wrapped) else ef_reason g)\<rparr>])"

definition knownShut :: "rat \<Rightarrow> nat \<Rightarrow> string option \<Rightarrow> err_facts" where
  "knownShut remainingMs attempts reason =
     (plain_error ''Error'' ''throttled: the quota is closed and this call is not waiting it out'')
       \<lparr>ef_throttled := True, ef_attempts := Some attempts, ef_retryAfter := Some (Finite (remainingMs / 1000)),
        ef_reason := reason\<rparr>"

definition annotate_facts :: "nat \<Rightarrow> js_number option \<Rightarrow> string option \<Rightarrow> err_facts \<Rightarrow> err_facts" where
  "annotate_facts attempts retryAfter reason f =
     f\<lparr>ef_throttled := True, ef_attempts := Some attempts,
       ef_retryAfter := (if retryAfter = None then ef_retryAfter f else retryAfter),
       ef_reason := (if reason = None then ef_reason f else reason)\<rparr>"

definition annotate :: "err_heap \<Rightarrow> err_val \<Rightarrow> nat \<Rightarrow> js_number option \<Rightarrow> string option \<Rightarrow> nat \<times> err_heap" where
  "annotate h error attempts retryAfter reason =
     (let (a, h1) = (case error of
                       ErrObj a \<Rightarrow> if a < length h \<and> ef_isError (h ! a) then (a, h)
                                   else (length h, h @ [plain_error ''Error'' (error_string h error)])
                     | Fresh name message code \<Rightarrow> (length h, h @ [plain_error name message])
                     | ErrPrim s \<Rightarrow> (length h, h @ [plain_error ''Error'' s]))
      in (a, h1[a := annotate_facts attempts retryAfter reason (h1 ! a)]))"

subsection \<open>Lemmas\<close>

lemma find_walk_head: "facts_of h v = Some f \<Longrightarrow> ef_throttled f \<Longrightarrow> findThrottled h v = Some (v, f)"
  by (simp add: findThrottled_def MAX_CAUSE_DEPTH_def eval_nat_numeral)

lemma walk_causes_length: "length (walk_causes h n vs v) \<le> n"
  by (induction h n vs v rule: walk_causes.induct) (auto split: option.splits)

lemma walk_causes_facts: "(u, f) \<in> set (walk_causes h n vs v) \<Longrightarrow> facts_of h u = Some f \<and> u \<notin> set vs"
proof (induction h n vs v rule: walk_causes.induct)
  case (2 h depth visited cur)
  then show ?case by (cases "facts_of h cur") (auto split: if_splits)
qed simp

lemma walk_causes_distinct: "distinct (map fst (walk_causes h n vs v))"
proof (induction h n vs v rule: walk_causes.induct)
  case (2 h depth visited cur)
  then show ?case by (cases "facts_of h cur") (auto dest: walk_causes_facts)
qed simp

text \<open>A refusal annotated by the retry loop is found on the error it leaves with, with its interval.\<close>

lemma annotate_found:
  assumes "annotate h e n ra reason = (a, h')"
  shows "\<exists>f. findThrottled h' (ErrObj a) = Some (ErrObj a, f) \<and> ef_attempts f = Some n \<and> (ra \<noteq> None \<longrightarrow> ef_retryAfter f = ra)"
proof -
  have "a < length h'" and "\<exists>g. h' ! a = annotate_facts n ra reason g"
    using assms by (auto simp: annotate_def Let_def split: err_val.splits if_splits)
  then obtain g where "facts_of h' (ErrObj a) = Some (annotate_facts n ra reason g)"
    by (auto simp: facts_of_def)
  then show ?thesis
    by (auto intro!: find_walk_head simp: annotate_facts_def)
qed

text \<open>Every fact moves onto the wrapper, whatever it carried before.\<close>

lemma preserveThrottled_carries:
  assumes "facts_of h original = Some g" "ef_throttled g" "wrapped < length h"
  shows "\<exists>f. findThrottled (preserveThrottled h original wrapped) (ErrObj wrapped) = Some (ErrObj wrapped, f)
     \<and> ef_attempts f = ef_attempts g
     \<and> (ef_retryAfter g \<noteq> None \<longrightarrow> ef_retryAfter f = ef_retryAfter g)
     \<and> (ef_reason g \<noteq> None \<longrightarrow> ef_reason f = ef_reason g)"
  using assms by (auto intro!: find_walk_head simp: preserveThrottled_def facts_of_def)

lemma status_beats_message:
  "extractStatusCode h err = Some s \<Longrightarrow> isRetryableStatus h err retryOn \<longleftrightarrow> s \<in> set retryOn"
  by (simp add: isRetryableStatus_def)

lemma fresh_not_throttled [simp]: "findThrottled h (Fresh name message code) = None"
  by (simp add: findThrottled_def MAX_CAUSE_DEPTH_def eval_nat_numeral facts_of_def plain_error_def)

lemma fresh_no_status [simp]: "extractStatusCode h (Fresh name message code) = None"
  by (simp add: extractStatusCode_def MAX_CAUSE_DEPTH_def eval_nat_numeral facts_of_def plain_error_def own_status_def)

lemma fresh_message [simp]: "error_message h (Fresh name message code) = message"
  by (simp add: error_message_def facts_of_def plain_error_def)

end
