(* ===== verification/ToolPolicy.thy ===== *)
theory ToolPolicy
  imports ToolTypes Complex_Main
begin

text \<open>
  The policies around tools (\<open>llm-agent-libs/src/policy\<close>): the registry of temporarily blocked tools, the registry of
  results that a mixed round leaves for the next request, the allow and deny lists, and the heuristic detector.
  Times are rational milliseconds; \<open>Date.now()\<close> is an argument.
\<close>

subsection \<open>Blocked tools\<close>

record block_entry =
  be_toolName :: string
  be_until :: rat
  be_reason :: string

type_synonym block_map = "(string \<times> block_entry) list"
type_synonym availability = "(string \<times> block_map) list"

definition availability_clear :: "string \<Rightarrow> availability \<Rightarrow> availability" where
  "availability_clear sid r = AList.delete sid r"

definition put_session :: "string \<Rightarrow> block_map \<Rightarrow> availability \<Rightarrow> availability" where
  "put_session sid m r = (if m = [] then AList.delete sid r else AList.update sid m r)"

definition availability_prune :: "string \<Rightarrow> rat \<Rightarrow> availability \<Rightarrow> availability" where
  "availability_prune sid now r =
     (case map_of r sid of
        None \<Rightarrow> r
      | Some m \<Rightarrow> put_session sid (filter (\<lambda>(n, e). \<not> be_until e \<le> now) m) r)"

definition getBlockedToolNames :: "string \<Rightarrow> rat \<Rightarrow> availability \<Rightarrow> string list \<times> availability" where
  "getBlockedToolNames sid now r =
     (case map_of r sid of
        None \<Rightarrow> ([], r)
      | Some [] \<Rightarrow> ([], r)
      | Some m \<Rightarrow> (let r1 = availability_prune sid now r in (map fst (nullish (map_of r1 sid) []), r1)))"

definition isBlocked :: "string \<Rightarrow> string \<Rightarrow> rat \<Rightarrow> availability \<Rightarrow> bool \<times> availability" where
  "isBlocked sid toolName now r =
     (case map_of r sid of
        None \<Rightarrow> (False, r)
      | Some m \<Rightarrow>
          (case map_of m toolName of
             None \<Rightarrow> (False, r)
           | Some e \<Rightarrow> if be_until e \<le> now then (False, put_session sid (AList.delete toolName m) r) else (True, r)))"

definition block_tool :: "string \<Rightarrow> string \<Rightarrow> string \<Rightarrow> rat \<Rightarrow> rat \<Rightarrow> availability \<Rightarrow> block_entry \<times> availability" where
  "block_tool sid toolName reason ttlMs now r =
     (let entry = \<lparr>be_toolName = toolName, be_until = now + ttlMs, be_reason = reason\<rparr>
      in (entry, AList.update sid (AList.update toolName entry (nullish (map_of r sid) [])) r))"

fun filterTools :: "string \<Rightarrow> tool list \<Rightarrow> rat \<Rightarrow> availability \<Rightarrow> (tool list \<times> string list) \<times> availability" where
  "filterTools sid [] now r = (([], []), r)"
| "filterTools sid (t # ts) now r =
     (case isBlocked sid (tl_name t) now r of
        (b, r1) \<Rightarrow>
          (case filterTools sid ts now r1 of
             ((allowed, blocked), r2) \<Rightarrow>
               (if b then (allowed, tl_name t # blocked) else (t # allowed, blocked), r2)))"

definition unavailable_words :: "string list" where
  "unavailable_words = [''not available'', ''unavailable'', ''not found'', ''forbidden'', ''permission'',
     ''unauthorized'', ''disabled'', ''not allowed'', ''unknown tool'']"

text \<open>\<open>s.includes(w)\<close>\<close>

definition has_substring :: "string \<Rightarrow> string \<Rightarrow> bool" where
  "has_substring s w \<longleftrightarrow> sublist w s"

definition isToolContextUnavailableError :: "string \<Rightarrow> bool" where
  "isToolContextUnavailableError message = list_ex (has_substring (map lower message)) unavailable_words"

text \<open>What the registry promises: the names blocked for a session at a time.\<close>

definition blocked_at :: "availability \<Rightarrow> string \<Rightarrow> rat \<Rightarrow> string set" where
  "blocked_at r sid now = {n. \<exists>m e. map_of r sid = Some m \<and> map_of m n = Some e \<and> now < be_until e}"

definition availability_ok :: "availability \<Rightarrow> bool" where
  "availability_ok r \<longleftrightarrow> distinct (map fst r) \<and> (\<forall>(sid, m) \<in> set r. distinct (map fst m))"

lemma availability_okD: "availability_ok r \<Longrightarrow> map_of r sid = Some m \<Longrightarrow> distinct (map fst m)"
  by (auto simp: availability_ok_def dest!: map_of_SomeD)

lemma map_of_put_session:
  "map_of (put_session sid m r) s = (if s = sid then (if m = [] then None else Some m) else map_of r s)"
  by (simp add: put_session_def delete_conv')

lemma set_delete_subset: "set (AList.delete k m) \<subseteq> set m"
  by (simp add: AList.delete_eq)

lemma availability_ok_put:
  assumes "availability_ok r" "distinct (map fst m)"
  shows "availability_ok (put_session sid m r)"
  using assms set_update_subset [of sid m r] set_delete_subset [of sid r]
  by (fastforce simp: availability_ok_def put_session_def distinct_update distinct_delete split: if_splits)

lemma distinct_fst_filter: "distinct (map fst m) \<Longrightarrow> distinct (map fst (filter P m))"
  by (induction m) auto

lemma map_of_filter_distinct:
  "distinct (map fst m) \<Longrightarrow>
   map_of (filter (\<lambda>(k, v). P k v) m) n = (case map_of m n of None \<Rightarrow> None | Some v \<Rightarrow> if P n v then Some v else None)"
  by (induction m) (auto split: option.splits simp: map_of_eq_None_iff rev_image_eqI)

lemma blocked_prune:
  assumes "availability_ok r" "now \<le> t"
  shows "availability_ok (availability_prune sid now r)" "blocked_at (availability_prune sid now r) s t = blocked_at r s t"
proof -
  show "availability_ok (availability_prune sid now r)"
    using assms(1) by (auto simp: availability_prune_def intro!: availability_ok_put distinct_fst_filter
        dest: availability_okD split: option.split)
  show "blocked_at (availability_prune sid now r) s t = blocked_at r s t"
  proof (cases "map_of r sid")
    case (Some m)
    have "map_of (filter (\<lambda>(n, e). \<not> be_until e \<le> now) m) n
        = (case map_of m n of None \<Rightarrow> None | Some e \<Rightarrow> if \<not> be_until e \<le> now then Some e else None)" for n
      using availability_okD [OF assms(1) Some] by (simp add: map_of_filter_distinct)
    with Some assms(2) show ?thesis
      by (fastforce simp: blocked_at_def availability_prune_def map_of_put_session split: option.splits if_splits)
  qed (simp add: availability_prune_def)
qed

lemma blocked_isBlocked:
  assumes "availability_ok r" "isBlocked sid n now r = (b, r')"
  shows "b \<longleftrightarrow> n \<in> blocked_at r sid now" "availability_ok r'" "now \<le> t \<Longrightarrow> blocked_at r' s t = blocked_at r s t"
proof -
  show "b \<longleftrightarrow> n \<in> blocked_at r sid now"
    using assms(2) by (auto simp: isBlocked_def blocked_at_def split: option.splits if_splits)
  show "availability_ok r'"
    using assms by (auto simp: isBlocked_def intro!: availability_ok_put distinct_delete dest: availability_okD
        split: option.splits if_splits)
  show "blocked_at r' s t = blocked_at r s t" if "now \<le> t"
  proof (cases "r' = r")
    case False
    with assms(2) obtain m e where m: "map_of r sid = Some m" "map_of m n = Some e" "be_until e \<le> now"
        and r': "r' = put_session sid (AList.delete n m) r"
      by (auto simp: isBlocked_def split: option.splits if_splits)
    have del: "map_of (AList.delete n m) k = (if k = n then None else map_of m k)" for k
      by (simp add: delete_conv')
    have "map_of m k = None" if "AList.delete n m = []" "k \<noteq> n" for k
      using del [of k] that by simp
    then show ?thesis
      using m that by (fastforce simp: r' blocked_at_def map_of_put_session del split: if_splits)
  qed simp
qed

lemma filterTools_spec:
  assumes "availability_ok r" "filterTools sid ts now r = ((allowed, blocked), r')"
  shows "allowed = filter (\<lambda>t. tl_name t \<notin> blocked_at r sid now) ts
     \<and> blocked = filter (\<lambda>n. n \<in> blocked_at r sid now) (map tl_name ts)
     \<and> availability_ok r' \<and> (\<forall>s t. now \<le> t \<longrightarrow> blocked_at r' s t = blocked_at r s t)"
  using assms
proof (induction ts arbitrary: r allowed blocked r')
  case (Cons x ts)
  obtain b r1 where b: "isBlocked sid (tl_name x) now r = (b, r1)" by (metis surj_pair)
  obtain al bl r2 where f: "filterTools sid ts now r1 = ((al, bl), r2)" by (metis surj_pair)
  note B = blocked_isBlocked [OF Cons.prems(1) b]
  from Cons.IH [OF B(2) f] B(1,3) show ?case
    using Cons.prems(2) by (auto simp: b f)
qed auto

lemma getBlocked_spec:
  assumes "availability_ok r" "getBlockedToolNames sid now r = (ns, r')"
  shows "set ns = blocked_at r sid now" "availability_ok r'" "now \<le> t \<Longrightarrow> blocked_at r' s t = blocked_at r s t"
proof -
  show "availability_ok r'" "now \<le> t \<Longrightarrow> blocked_at r' s t = blocked_at r s t"
    using assms blocked_prune [OF assms(1)]
    by (auto simp: getBlockedToolNames_def Let_def split: option.splits list.splits)
  show "set ns = blocked_at r sid now"
  proof (cases "map_of r sid")
    case (Some m)
    let ?m = "filter (\<lambda>(n, e). \<not> be_until e \<le> now) m"
    have "map_of ?m n = (case map_of m n of None \<Rightarrow> None | Some e \<Rightarrow> if \<not> be_until e \<le> now then Some e else None)" for n
      using availability_okD [OF assms(1) Some] by (simp add: map_of_filter_distinct)
    then have "dom (map_of ?m) = blocked_at r sid now"
      using Some by (fastforce simp: blocked_at_def dom_def not_le [symmetric] simp del: not_le split: option.splits if_splits)
    then have "fst ` set ?m = blocked_at r sid now" by (simp only: dom_map_of_conv_image_fst)
    moreover have "m = [] \<Longrightarrow> blocked_at r sid now = {}" using Some by (simp add: blocked_at_def)
    moreover have "set ns = fst ` set ?m" if "m \<noteq> []"
    proof -
      have "nullish (map_of (availability_prune sid now r) sid) [] = ?m"
        using Some by (simp add: availability_prune_def map_of_put_session)
      then have "ns = map fst ?m"
        using assms(2) Some that by (cases m) (simp_all add: getBlockedToolNames_def Let_def del: filter.simps)
      then show ?thesis by simp
    qed
    moreover have "m = [] \<Longrightarrow> ns = []" using assms(2) Some by (simp add: getBlockedToolNames_def)
    ultimately show ?thesis by (cases "m = []") simp_all
  qed (use assms(2) in \<open>simp add: getBlockedToolNames_def blocked_at_def\<close>)
qed

lemma blocked_block:
  assumes "availability_ok r" "block_tool sid n reason ttl now r = (e, r')" "0 < ttl"
  shows "availability_ok r'" "blocked_at r' sid now = insert n (blocked_at r sid now)"
    "s \<noteq> sid \<Longrightarrow> blocked_at r' s t = blocked_at r s t"
proof -
  have d: "distinct (map fst (AList.update n e (nullish (map_of r sid) [])))"
    using availability_okD [OF assms(1)] by (cases "map_of r sid") (auto intro: distinct_update)
  show "availability_ok r'"
    using assms(1,2) d set_update_subset [of sid "AList.update n e (nullish (map_of r sid) [])" r]
    by (fastforce simp: availability_ok_def block_tool_def Let_def distinct_update)
  show "blocked_at r' sid now = insert n (blocked_at r sid now)"
    using assms(2,3) by (cases "map_of r sid") (auto simp: blocked_at_def block_tool_def Let_def split: if_splits)
  show "s \<noteq> sid \<Longrightarrow> blocked_at r' s t = blocked_at r s t"
    using assms(2) by (auto simp: blocked_at_def block_tool_def Let_def)
qed

subsection \<open>Results left for the next request\<close>

record pending_result =
  pr_toolCallId :: string
  pr_toolName :: string
  pr_text :: string

text \<open>The promise of an entry is what it settles with; \<open>None\<close> is a rejection.\<close>

record pending_entry =
  pe_assistant :: chat_message
  pe_promise :: "pending_result list option"
  pe_createdAt :: rat

type_synonym pending_results = "(string \<times> pending_entry) list"

definition pending_set :: "rat \<Rightarrow> string \<Rightarrow> pending_entry \<Rightarrow> rat \<Rightarrow> pending_results \<Rightarrow> pending_results" where
  "pending_set ttlMs sid e now p =
     (let p1 = AList.update sid e p in
      if length p1 > 100 then filter (\<lambda>(k, e). \<not> now - pe_createdAt e > ttlMs) p1 else p1)"

definition pending_has :: "rat \<Rightarrow> string \<Rightarrow> rat \<Rightarrow> pending_results \<Rightarrow> bool \<times> pending_results" where
  "pending_has ttlMs sid now p =
     (case map_of p sid of
        None \<Rightarrow> (False, p)
      | Some e \<Rightarrow> if now - pe_createdAt e > ttlMs then (False, AList.delete sid p) else (True, p))"

definition pending_consume ::
    "rat \<Rightarrow> string \<Rightarrow> rat \<Rightarrow> pending_results \<Rightarrow> (chat_message \<times> pending_result list) option \<times> pending_results" where
  "pending_consume ttlMs sid now p =
     (case map_of p sid of
        None \<Rightarrow> (None, p)
      | Some e \<Rightarrow>
          if now - pe_createdAt e > ttlMs then (None, AList.delete sid p)
          else (Some (pe_assistant e, nullish (pe_promise e) []), AList.delete sid p))"

lemma pending_consumed_once:
  assumes "pending_consume ttl sid now p = (x, p')"
  shows "map_of p' sid = None" "s \<noteq> sid \<Longrightarrow> map_of p' s = map_of p s"
  using assms by (auto simp: pending_consume_def delete_conv' split: option.splits if_splits)

lemma pending_set_consume:
  assumes "now \<le> t" "t - pe_createdAt e \<le> ttl" "distinct (map fst p)"
  shows "fst (pending_consume ttl sid t (pending_set ttl sid e now p)) = Some (pe_assistant e, nullish (pe_promise e) [])"
proof -
  have "map_of (filter (\<lambda>(k, e). \<not> now - pe_createdAt e > ttl) (AList.update sid e p)) sid = Some e"
    using assms distinct_update [OF assms(3), of sid e] by (subst map_of_filter_distinct) auto
  then show ?thesis
    using assms(2) by (auto simp: pending_consume_def pending_set_def Let_def)
qed

subsection \<open>Allow and deny lists\<close>

record tool_policy_config =
  tp_allow :: "string list option"
  tp_deny :: "string list option"

datatype verdict = Allowed | Denied string

definition policy_check :: "tool_policy_config option \<Rightarrow> string \<Rightarrow> verdict" where
  "policy_check config toolName =
     (let allow = nullish (Option.bind config tp_allow) []; deny = nullish (Option.bind config tp_deny) [] in
      if allow \<noteq> [] then
        (if toolName \<notin> set allow then Denied (''Tool '' @ quoted toolName @ '' is not in the allowlist'') else Allowed)
      else if deny \<noteq> [] then
        (if toolName \<in> set deny then Denied (''Tool '' @ quoted toolName @ '' is in the denylist'') else Allowed)
      else Allowed)"

subsection \<open>Injection heuristics\<close>

definition ROLE_CONFUSION_PATTERNS :: "(string \<times> string) list" where
  "ROLE_CONFUSION_PATTERNS =
     [(''ignore_previous'', ''ignore previous instructions''), (''ignore_all_previous'', ''ignore all previous''),
      (''disregard_previous'', ''disregard previous''), (''you_are_now'', ''you are now''),
      (''act_as'', ''act as if you are''), (''pretend_you_are'', ''pretend you are''),
      (''forget_instructions'', ''forget your instructions''), (''new_persona'', ''new persona''),
      (''fake_system_message'', ''system: '')]"

definition TOOL_FORGERY_PATTERNS :: "(string \<times> string) list" where
  "TOOL_FORGERY_PATTERNS =
     [(''json_tool_key'', CHR ''{'' # quoted ''tool'' @ '':''), (''function_call_key'', quoted ''function_call'' @ '':''),
      (''tool_use_key'', quoted ''tool_use'' @ '':''), (''xml_tool_call'', ''<tool_call>'')]"

definition injection_detect :: "string \<Rightarrow> string option" where
  "injection_detect text =
     map_option fst (find (\<lambda>(label, fragment). has_substring (map lower text) (map lower fragment))
       (ROLE_CONFUSION_PATTERNS @ TOOL_FORGERY_PATTERNS))"

end
