(* ===== verification/ToolContext.thy ===== *)
theory ToolContext
  imports ToolTypes
begin

text \<open>
  The context strategies of the tool loop (\<open>pipeline/context/tool-loop-context\<close>): how recorded rounds of tool calls
  become the messages of the next request.  The locale \<open>tool_context\<close> states what the loop relies on; it is
  interpreted on each strategy and on their sum.
\<close>

subsection \<open>Rounds\<close>

record tool_round =
  tr_assistant :: chat_message
  tr_results :: "chat_message list"
  tr_errors :: "bool list"              \<comment> \<open>\<open>isError\<close> of the \<open>meta\<close> of each result\<close>
  tr_roundId :: "string option"

abbreviation plain_round :: "chat_message \<Rightarrow> chat_message list \<Rightarrow> bool list \<Rightarrow> tool_round" where
  "plain_round a rs errs \<equiv> \<lparr>tr_assistant = a, tr_results = rs, tr_errors = errs, tr_roundId = None\<rparr>"

definition round_messages :: "tool_round \<Rightarrow> chat_message list" where
  "round_messages r = tr_assistant r # tr_results r"

text \<open>A transcript is paired when every request for tools is answered at once, each call exactly once, and no result
  stands alone: the protocol of the providers.\<close>

inductive paired :: "chat_message list \<Rightarrow> bool" where
  paired_Nil [simp, intro]: "paired []"
| paired_plain: "cm_role m \<noteq> RTool \<Longrightarrow> calls_of m = [] \<Longrightarrow> paired ms \<Longrightarrow> paired (m # ms)"
| paired_round: "cm_role a = RAssistant \<Longrightarrow> calls_of a \<noteq> [] \<Longrightarrow> (\<forall>r \<in> set rs. cm_role r = RTool) \<Longrightarrow>
    mset (map cm_tool_call_id rs) = mset (map (Some \<circ> fc_id) (calls_of a)) \<Longrightarrow> paired ms \<Longrightarrow> paired (a # rs @ ms)"

lemma paired_append: "paired xs \<Longrightarrow> paired ys \<Longrightarrow> paired (xs @ ys)"
  by (induction rule: paired.induct) (auto intro: paired.intros)

lemma paired_concat: "(\<forall>g \<in> set gs. paired g) \<Longrightarrow> paired (concat gs)"
  by (induction gs) (auto intro: paired_append)

lemma paired_single: "cm_role m \<noteq> RTool \<Longrightarrow> calls_of m = [] \<Longrightarrow> paired [m]"
  by (rule paired_plain) auto

lemma paired_roundI:
  "cm_role a = RAssistant \<Longrightarrow> calls_of a \<noteq> [] \<Longrightarrow> (\<forall>r \<in> set rs. cm_role r = RTool) \<Longrightarrow>
    mset (map cm_tool_call_id rs) = mset (map (Some \<circ> fc_id) (calls_of a)) \<Longrightarrow> paired (a # rs)"
  using paired_round [of a rs "[]"] by simp

inductive_cases paired_ConsE: "paired (m # ms)"

text \<open>Pairing only depends on roles, identities and requested calls.\<close>

lemma map_cong_split:
  "map f ms' = map f (xs @ ys) \<Longrightarrow> \<exists>xs' ys'. ms' = xs' @ ys' \<and> map f xs' = map f xs \<and> map f ys' = map f ys"
  by (rule exI [of _ "take (length xs) ms'"], rule exI [of _ "drop (length xs) ms'"])
    (metis append_eq_conv_conj append_take_drop_id drop_map length_map map_append take_map)

definition shape :: "chat_message \<Rightarrow> role \<times> string option \<times> fn_call list" where
  "shape m = (cm_role m, cm_tool_call_id m, calls_of m)"

lemma paired_shape: "paired ms \<Longrightarrow> map shape ms' = map shape ms \<Longrightarrow> paired ms'"
proof (induction arbitrary: ms' rule: paired.induct)
  case (paired_plain m ms)
  then obtain m' ns where "ms' = m' # ns" "shape m' = shape m" "map shape ns = map shape ms" by auto
  with paired_plain show ?case by (auto simp: shape_def intro: paired.intros)
next
  case (paired_round a rs ms)
  then obtain a' ns where a': "ms' = a' # ns" "shape a' = shape a" "map shape ns = map shape (rs @ ms)" by auto
  then obtain rs' qs where s: "ns = rs' @ qs" "map shape rs' = map shape rs" "map shape qs = map shape ms"
    using map_cong_split by metis
  have r: "map cm_role rs' = map cm_role rs" "map cm_tool_call_id rs' = map cm_tool_call_id rs"
    using arg_cong [OF s(2), of "map fst"] arg_cong [OF s(2), of "map (fst \<circ> snd)"] by (simp_all add: shape_def comp_def)
  have "set (map cm_role rs') \<subseteq> {RTool}" using paired_round.hyps(3) by (auto simp: r(1) simp del: set_map) (auto)
  then have "\<forall>r \<in> set rs'. cm_role r = RTool" by auto
  moreover have "mset (map cm_tool_call_id rs') = mset (map (Some \<circ> fc_id) (calls_of a'))"
    using paired_round.hyps(4) a'(2) by (simp add: r(2) shape_def del: mset_map)
  moreover have "paired qs" by (rule paired_round.IH [OF s(3)])
  ultimately show ?case
    using a' s(1) paired_round.hyps(1,2) by (auto simp: shape_def intro!: paired.paired_round)
qed simp

subsection \<open>The interface\<close>

locale tool_context =
  fixes record_round :: "tool_round \<Rightarrow> 's \<Rightarrow> 's"
    and form :: "chat_message list \<Rightarrow> 's \<Rightarrow> chat_message list"
    and kept :: "'s \<Rightarrow> chat_message list list"      \<comment> \<open>the rounds the strategy can still show\<close>
  assumes kept_record: "set (kept (record_round r s)) \<subseteq> insert (round_messages r) (set (kept s))"
    and form_shows: "\<exists>gs. form p s = p @ concat gs
        \<and> (\<forall>g \<in> set gs. g \<in> set (kept s) \<or> (\<exists>c. g = [text_message RUser (Some c)]))"
    and form_recent: "\<exists>hs. form p (record_round r s) = p @ hs @ round_messages r"
begin

definition kept_ok :: "'s \<Rightarrow> bool" where
  "kept_ok s \<longleftrightarrow> (\<forall>g \<in> set (kept s). paired g)"

lemma kept_ok_record: "kept_ok s \<Longrightarrow> paired (round_messages r) \<Longrightarrow> kept_ok (record_round r s)"
  using kept_record [of r s] by (auto simp: kept_ok_def)

lemma form_paired: "kept_ok s \<Longrightarrow> paired p \<Longrightarrow> paired (form p s)"
proof -
  assume ok: "kept_ok s" "paired p"
  obtain gs where gs: "form p s = p @ concat gs"
      "\<forall>g \<in> set gs. g \<in> set (kept s) \<or> (\<exists>c. g = [text_message RUser (Some c)])"
    using form_shows [of p s] by blast
  have "paired [text_message RUser (Some c)]" for c by (rule paired_single) (simp_all add: calls_of_def)
  with gs(2) ok(1) have "\<forall>g \<in> set gs. paired g" unfolding kept_ok_def by blast
  then show ?thesis unfolding gs(1) by (intro paired_append ok(2) paired_concat)
qed

lemma form_extends: "take (length p) (form p s) = p"
  using form_shows [of p s] by auto

end

subsection \<open>The growing transcript\<close>

definition legacy_record :: "tool_round \<Rightarrow> tool_round list \<Rightarrow> tool_round list" where
  "legacy_record round rounds = rounds @ [round]"

definition legacy_form :: "chat_message list \<Rightarrow> tool_round list \<Rightarrow> chat_message list" where
  "legacy_form p rounds = p @ concat (map round_messages rounds)"

interpretation legacy_context: tool_context legacy_record legacy_form "map round_messages"
  by unfold_locales (auto simp: legacy_record_def legacy_form_def)

text \<open>The migration strategy keeps a raw transcript in front.\<close>

definition transcript_record :: "tool_round \<Rightarrow> chat_message list \<times> tool_round list \<Rightarrow> chat_message list \<times> tool_round list" where
  "transcript_record round s = (fst s, snd s @ [round])"

definition transcript_form :: "chat_message list \<Rightarrow> chat_message list \<times> tool_round list \<Rightarrow> chat_message list" where
  "transcript_form p s = p @ fst s @ concat (map round_messages (snd s))"

interpretation transcript_context: tool_context transcript_record transcript_form "\<lambda>s. fst s # map round_messages (snd s)"
proof
  show "\<exists>gs. transcript_form p s = p @ concat gs
        \<and> (\<forall>g \<in> set gs. g \<in> set (fst s # map round_messages (snd s)) \<or> (\<exists>c. g = [text_message RUser (Some c)]))" for p s
    by (rule exI [of _ "fst s # map round_messages (snd s)"]) (simp add: transcript_form_def)
qed (auto simp: transcript_record_def transcript_form_def)

subsection \<open>The bounded window\<close>

definition window_keep :: "nat option \<Rightarrow> nat" where
  "window_keep keepLastRounds = max 1 (nullish keepLastRounds 3)"

definition elided_chars :: "tool_round list \<Rightarrow> nat" where
  "elided_chars rounds = sum_list (map (\<lambda>r. sum_list (map (\<lambda>x. length (nullish (cm_content x) [])) (tr_results r))) rounds)"

definition elided_note :: "tool_round list \<Rightarrow> string" where
  "elided_note elided = ''['' @ digits (length elided) @ '' earlier tool result(s) elided '' @ [em_dash] @ '' ''
     @ digits (elided_chars elided) @ '' chars]''"

definition window_form :: "nat \<Rightarrow> chat_message list \<Rightarrow> tool_round list \<Rightarrow> chat_message list" where
  "window_form keep p rounds =
     (let tailStart = length rounds - keep; elided = take tailStart rounds in
      p @ (if elided \<noteq> [] then [text_message RUser (Some (elided_note elided))] else [])
        @ concat (map round_messages (drop tailStart rounds)))"

lemma window_form_shows:
  "\<exists>gs. window_form keep p rounds = p @ concat gs
     \<and> (\<forall>g \<in> set gs. g \<in> set (map round_messages rounds) \<or> (\<exists>c. g = [text_message RUser (Some c)]))"
proof -
  let ?n = "length rounds - keep"
  let ?nt = "if take ?n rounds = [] then [] else [[text_message RUser (Some (elided_note (take ?n rounds)))]]"
  have "window_form keep p rounds = p @ concat (?nt @ map round_messages (drop ?n rounds))"
    by (simp add: window_form_def Let_def)
  then show ?thesis
    by (intro exI [of _ "?nt @ map round_messages (drop ?n rounds)"]) (auto dest: in_set_dropD)
qed

lemma window_form_recent: "1 \<le> keep \<Longrightarrow> \<exists>hs. window_form keep p (legacy_record r rounds) = p @ hs @ round_messages r"
  by (auto simp: window_form_def legacy_record_def Let_def)

text \<open>A window holds at most \<open>keep\<close> rounds and one note.\<close>

lemma window_bounded:
  "length (window_form keep p rounds)
     \<le> length p + 1 + sum_list (map (length \<circ> round_messages) (drop (length rounds - keep) rounds))"
  by (simp add: window_form_def Let_def length_concat)

subsection \<open>Recall from a store\<close>

datatype recall_block = RecallText string | RecallRounds "(string option \<times> string) list list" "nat option"

text \<open>\<open>recall\<close> answers by the number of rounds recorded so far, the query and the round that is shown anyway.\<close>

record rag_context =
  rc_last :: "tool_round option"
  rc_counter :: nat

definition rag_record :: "string \<Rightarrow> tool_round \<Rightarrow> rag_context \<Rightarrow> rag_context" where
  "rag_record runId round s =
     \<lparr>rc_last = Some (if truthy (tr_roundId round) then round
                      else round\<lparr>tr_roundId := Some (runId @ '':'' @ digits (rc_counter s))\<rparr>),
      rc_counter = rc_counter s + 1\<rparr>"

text \<open>The results of one recalled round behind their tags, cut to the text the budget left.\<close>

fun project_round :: "tool_trust \<Rightarrow> string \<Rightarrow> bool \<Rightarrow> nat \<Rightarrow> (string option \<times> string) list \<Rightarrow> string list" where
  "project_round trust content first offset [] = []"
| "project_round trust content first offset ((toolName, c) # rest) =
     (if \<not> first \<and> offset \<ge> length content then []
      else
        (let off = (if first then offset else offset + 1); sep = (if first then [] else [newline]) in
         if off \<ge> length content \<and> length c > 0 then sep
         else sep @ nullish (cm_content (toModelToolMessage False
                  (text_message RTool (Some (take (length c) (drop off content)))) (Some trust) toolName)) []
                # project_round trust content False (off + length c) rest))"

fun recall_parts :: "tool_trust option \<Rightarrow> nat option \<Rightarrow> (string option \<times> string) list list \<Rightarrow> string list" where
  "recall_parts trust remaining [] = []"
| "recall_parts trust remaining (round # rest) =
     (let raw = join newline (map snd round) in
      if length raw = 0 then recall_parts trust remaining rest
      else
        (let truncated = (case remaining of None \<Rightarrow> False | Some n \<Rightarrow> length raw > n);
             content = (if truncated then take (the remaining) raw else raw);
             part = (case trust of None \<Rightarrow> content | Some t \<Rightarrow> concat (project_round t content True 0 round))
         in if truncated then [part]
            else part # recall_parts trust (map_option (\<lambda>n. n - length raw) remaining) rest))"

definition rag_form ::
    "(nat \<Rightarrow> string \<Rightarrow> string \<Rightarrow> recall_block) \<Rightarrow> tool_trust option \<Rightarrow> string \<Rightarrow> chat_message list \<Rightarrow> rag_context \<Rightarrow> chat_message list" where
  "rag_form recall trust queryText p s =
     (case rc_last s of
        None \<Rightarrow> p
      | Some recent \<Rightarrow>
          p @ (case recall (rc_counter s) queryText (nullish (tr_roundId recent) []) of
                 RecallText b \<Rightarrow> if b \<noteq> [] then [text_message RUser (Some b)] else []
               | RecallRounds rounds maxChars \<Rightarrow>
                   (let parts = recall_parts trust maxChars rounds in
                    if parts \<noteq> [] then [text_message RUser (Some (''Relevant prior context:'' @ newline @ join newline parts))]
                    else []))
            @ round_messages recent)"

lemma rag_form_shows:
  "\<exists>gs. rag_form recall trust q p s = p @ concat gs
     \<and> (\<forall>g \<in> set gs. g \<in> set (case rc_last s of None \<Rightarrow> [] | Some r \<Rightarrow> [round_messages r])
           \<or> (\<exists>c. g = [text_message RUser (Some c)]))"
proof (cases "rc_last s")
  case None
  then show ?thesis by (intro exI [of _ "[]"]) (simp add: rag_form_def)
next
  case (Some r)
  obtain nt where "nt = [] \<or> (\<exists>c. nt = [[text_message RUser (Some c)]])"
      "rag_form recall trust q p s = p @ concat (nt @ [round_messages r])"
  proof (cases "recall (rc_counter s) q (nullish (tr_roundId r) [])")
    case (RecallText b)
    with Some that [of "if b \<noteq> [] then [[text_message RUser (Some b)]] else []"] show ?thesis
      by (auto simp: rag_form_def split: if_splits)
  next
    case (RecallRounds rounds m)
    with Some that [of "if recall_parts trust m rounds \<noteq> [] then
        [[text_message RUser (Some (''Relevant prior context:'' @ newline @ join newline (recall_parts trust m rounds)))]] else []"]
    show ?thesis by (auto simp: rag_form_def Let_def split: if_splits)
  qed
  then show ?thesis by (intro exI [of _ "nt @ [round_messages r]"]) (auto simp: Some)
qed

lemma rag_form_recent: "\<exists>hs. rag_form recall trust q p (rag_record runId r s) = p @ hs @ round_messages r"
  by (auto simp: rag_form_def rag_record_def round_messages_def split: recall_block.split)

text \<open>Without trust tags the recalled text stays within its budget.\<close>

lemma recall_parts_bounded: "sum_list (map length (recall_parts None (Some n) rounds)) \<le> n"
proof (induction rounds arbitrary: n)
  case (Cons round rest)
  show ?case using Cons.IH [of n] Cons.IH [of "n - length (join newline (map snd round))"] by (auto simp: Let_def)
qed simp

subsection \<open>The strategies of the library\<close>

datatype strategy =
    Legacy "tool_round list"
  | Transcript "chat_message list" "tool_round list"
  | Window nat "tool_round list"
  | RagRecall string "nat \<Rightarrow> string \<Rightarrow> string \<Rightarrow> recall_block" "tool_trust option" string rag_context

fun strategy_record :: "tool_round \<Rightarrow> strategy \<Rightarrow> strategy" where
  "strategy_record r (Legacy rounds) = Legacy (legacy_record r rounds)"
| "strategy_record r (Transcript raw rounds) = (case transcript_record r (raw, rounds) of (a, b) \<Rightarrow> Transcript a b)"
| "strategy_record r (Window keep rounds) = Window keep (legacy_record r rounds)"
| "strategy_record r (RagRecall runId recall trust q s) = RagRecall runId recall trust q (rag_record runId r s)"

fun strategy_form :: "chat_message list \<Rightarrow> strategy \<Rightarrow> chat_message list" where
  "strategy_form p (Legacy rounds) = legacy_form p rounds"
| "strategy_form p (Transcript raw rounds) = transcript_form p (raw, rounds)"
| "strategy_form p (Window keep rounds) = window_form (max 1 keep) p rounds"
| "strategy_form p (RagRecall runId recall trust q s) = rag_form recall trust q p s"

fun strategy_kept :: "strategy \<Rightarrow> chat_message list list" where
  "strategy_kept (Legacy rounds) = map round_messages rounds"
| "strategy_kept (Transcript raw rounds) = raw # map round_messages rounds"
| "strategy_kept (Window keep rounds) = map round_messages rounds"
| "strategy_kept (RagRecall runId recall trust q s) = (case rc_last s of None \<Rightarrow> [] | Some r \<Rightarrow> [round_messages r])"

interpretation library_context: tool_context strategy_record strategy_form strategy_kept
proof
  show "set (strategy_kept (strategy_record r s)) \<subseteq> insert (round_messages r) (set (strategy_kept s))" for r s
    by (cases s) (auto simp: legacy_record_def transcript_record_def rag_record_def round_messages_def)
  show "\<exists>gs. strategy_form p s = p @ concat gs
        \<and> (\<forall>g \<in> set gs. g \<in> set (strategy_kept s) \<or> (\<exists>c. g = [text_message RUser (Some c)]))" for p s
  proof (cases s)
    case (Legacy rounds)
    then show ?thesis using legacy_context.form_shows [of p rounds] by simp
  next
    case (Transcript raw rounds)
    then show ?thesis using transcript_context.form_shows [of p "(raw, rounds)"] by simp
  next
    case (Window keep rounds)
    then show ?thesis using window_form_shows [of "max 1 keep" p rounds] by simp
  next
    case (RagRecall runId recall trust q s)
    then show ?thesis using rag_form_shows [of recall trust q p s] by simp
  qed
  show "\<exists>hs. strategy_form p (strategy_record r s) = p @ hs @ round_messages r" for p r s
    using legacy_context.form_recent transcript_context.form_recent window_form_recent rag_form_recent
    by (cases s) (auto simp: transcript_record_def)
qed

end
