(* ===== verification/ToolCache.thy ===== *)
theory ToolCache
  imports ToolTypes Complex_Main
begin

text \<open>
  The cache of tool results (\<open>cache/tool-cache.ts\<close>).  \<open>JSON.stringify\<close> with a list of keys as its second argument
  keeps, in objects at every depth, exactly the members named in the list, in the order of the list.
\<close>

record tool_value =
  tv_content :: json                    \<comment> \<open>a \<open>JStr\<close> when it is a string\<close>
  tv_isError :: bool

record cache_entry =
  ce_result :: tool_value
  ce_expiresAt :: rat

type_synonym tool_cache = "(string \<times> cache_entry) list"

text \<open>\<open>Object.keys(args)\<close>; it throws on null.\<close>

fun object_keys :: "json \<Rightarrow> string list option" where
  "object_keys JNull = None"
| "object_keys (JObj kvs) = Some (map fst kvs)"
| "object_keys (JArr vs) = Some (map digits [0..<length vs])"
| "object_keys (JStr s) = Some (map digits [0..<length s])"
| "object_keys _ = Some []"

fun restrict_keys :: "string list \<Rightarrow> json \<Rightarrow> json" where
  "restrict_keys ks (JArr vs) = JArr (map (restrict_keys ks) vs)"
| "restrict_keys ks (JObj kvs) =
     JObj (List.map_filter (\<lambda>k. map_option (Pair k) (map_of (map (\<lambda>(k, v). (k, restrict_keys ks v)) kvs) k)) ks)"
| "restrict_keys ks v = v"

definition sort_keys :: "string list \<Rightarrow> string list" where
  "sort_keys = sort_by key_le"

definition cache_key :: "(string \<Rightarrow> string) \<Rightarrow> string \<Rightarrow> json \<Rightarrow> string option" where
  "cache_key sha256 toolName args =
     map_option (\<lambda>ks. toolName @ '':'' @ sha256 (stringify (restrict_keys (sort_keys ks) args))) (object_keys args)"

text \<open>The outer option is \<open>None\<close> when the call throws.\<close>

definition cache_get :: "(string \<Rightarrow> string) \<Rightarrow> rat \<Rightarrow> string \<Rightarrow> json \<Rightarrow> tool_cache \<Rightarrow> (tool_value option \<times> tool_cache) option" where
  "cache_get sha256 now toolName args cache =
     map_option (\<lambda>key.
       case map_of cache key of
         None \<Rightarrow> (None, cache)
       | Some e \<Rightarrow> if now > ce_expiresAt e then (None, AList.delete key cache) else (Some (ce_result e), cache))
     (cache_key sha256 toolName args)"

definition cache_set :: "(string \<Rightarrow> string) \<Rightarrow> rat \<Rightarrow> rat \<Rightarrow> string \<Rightarrow> json \<Rightarrow> tool_value \<Rightarrow> tool_cache \<Rightarrow> tool_cache option" where
  "cache_set sha256 ttlMs now toolName args result cache =
     map_option (\<lambda>key. AList.update key \<lparr>ce_result = result, ce_expiresAt = now + ttlMs\<rparr> cache) (cache_key sha256 toolName args)"

definition cache_clear :: "tool_cache \<Rightarrow> tool_cache" where
  "cache_clear cache = []"

text \<open>What the key keeps of the arguments: the members of nested objects that are not named like a member of the
  outermost object are lost.\<close>

lemma cache_key_eq:
  "cache_key sha256 name (JObj kvs) = Some (name @ '':'' @ sha256 (stringify (restrict_keys (sort_keys (map fst kvs)) (JObj kvs))))"
  by (simp add: cache_key_def)

text \<open>C26. Within its time to live the cache answers a stored result to every call of the tool whose arguments agree
  with the stored ones on the members that are named like an outermost one: two calls that differ only inside a
  nested object share one entry, and the second is answered with the result of the first.\<close>

theorem cache_answers_another_call:
  assumes "0 \<le> ttl" "now \<le> t" "t \<le> now + ttl"
    and "set (map fst kvs) = set (map fst kvs')" "distinct (map fst kvs)" "distinct (map fst kvs')"
    and "restrict_keys (sort_keys (map fst kvs)) (JObj kvs) = restrict_keys (sort_keys (map fst kvs)) (JObj kvs')"
    and "cache_set sha256 ttl now name (JObj kvs) r cache = Some cache1"
  shows "cache_get sha256 t name (JObj kvs') cache1 = Some (Some r, cache1)"
proof -
  have "sort_keys (map fst kvs') = sort_keys (map fst kvs)"
    unfolding sort_keys_def
  proof (rule sort_by_mset)
    show "mset (map fst kvs') = mset (map fst kvs)" using assms(4-6) by (metis set_eq_iff_mset_eq_distinct)
  qed (use key_le_trans key_le_antisym key_le_total in blast)+
  then have "cache_key sha256 name (JObj kvs') = cache_key sha256 name (JObj kvs)"
    using assms(7) by (simp only: cache_key_eq)
  with assms show ?thesis by (auto simp: cache_set_def cache_get_def cache_key_eq)
qed

definition nested_args :: "string \<Rightarrow> json" where
  "nested_args v = JObj [(''filter'', JObj [(''name'', JStr v)])]"

lemma cache_answers_another_call_witness:
  "nested_args ''A'' \<noteq> nested_args ''B''
   \<and> (\<exists>c. cache_set (\<lambda>s. s) 300000 0 ''Read'' (nested_args ''A'') \<lparr>tv_content = JStr ''a'', tv_isError = False\<rparr> [] = Some c
         \<and> cache_get (\<lambda>s. s) 1 ''Read'' (nested_args ''B'') c = Some (Some \<lparr>tv_content = JStr ''a'', tv_isError = False\<rparr>, c))"
proof
  show "nested_args ''A'' \<noteq> nested_args ''B''" by (simp add: nested_args_def)
  let ?r = "\<lparr>tv_content = JStr ''a'', tv_isError = False\<rparr>"
  obtain c where c: "cache_set (\<lambda>s. s) 300000 0 ''Read'' (nested_args ''A'') ?r [] = Some c"
    by (simp add: cache_set_def cache_key_def nested_args_def)
  then have "cache_get (\<lambda>s. s) 1 ''Read'' (nested_args ''B'') c = Some (Some ?r, c)"
    unfolding nested_args_def
    by (intro cache_answers_another_call [where now = 0 and ttl = 300000])
      (simp_all add: sort_keys_def sort_by_def List.map_filter_def)
  with c show "\<exists>c. cache_set (\<lambda>s. s) 300000 0 ''Read'' (nested_args ''A'') ?r [] = Some c
      \<and> cache_get (\<lambda>s. s) 1 ''Read'' (nested_args ''B'') c = Some (Some ?r, c)" by blast
qed

end
