(* ===== verification/ToolLoopCore.thy ===== *)
theory ToolLoopCore
  imports ToolPolicy ToolContext ToolCache
begin

text \<open>
  The helpers that both tool loops share (\<open>pipeline/handlers/tool-loop-core.ts\<close>), with \<open>escalate-if-unavailable.ts\<close>,
  \<open>normalize-heartbeat-ms.ts\<close>, \<open>submit-report-tool.ts\<close> and \<open>mixed-tool-call-handler.ts\<close>.

  The calls of a round carry their position, which is their identity.  The replies of tools, the order in which the
  calls of a batch settle and the ticks of the heartbeat are given by the environment of a batch.
\<close>

type_synonym round_call = "nat \<times> parsed_call"

abbreviation rc_name :: "round_call \<Rightarrow> string" where "rc_name c \<equiv> pc_name (snd c)"
abbreviation rc_id :: "round_call \<Rightarrow> string" where "rc_id c \<equiv> pc_id (snd c)"

subsection \<open>Outputs\<close>

datatype loop_out = OutChunk llm_chunk | OutError string string     \<comment> \<open>message and code\<close>

abbreviation text_out :: "string \<Rightarrow> loop_out" where
  "text_out s \<equiv> OutChunk (chunk_of s)"

abbreviation end_out :: "string \<Rightarrow> loop_out" where
  "end_out e \<equiv> OutChunk ((chunk_of [])\<lparr>lc_iterationEnd := Some e\<rparr>)"

subsection \<open>A round of calls\<close>

type_synonym rejections = "(nat \<times> string) list"

text \<open>A guard answers rejections by position, or throws.\<close>

type_synonym round_guard = "parsed_call list \<Rightarrow> string + rejections option"

definition guardToolRound :: "round_guard option \<Rightarrow> parsed_call list \<Rightarrow> rejections option" where
  "guardToolRound guard calls =
     (case guard of
        None \<Rightarrow> None
      | Some g \<Rightarrow> (case g calls of Inl message \<Rightarrow> Some (map (\<lambda>i. (i, message)) [0..<length calls]) | Inr r \<Rightarrow> r))"

record classified =
  cl_internal :: "round_call list"
  cl_external :: "round_call list"
  cl_blocked :: "round_call list"
  cl_unknown :: "round_call list"

definition classifyToolCalls :: "round_call list \<Rightarrow> string list \<Rightarrow> string list \<Rightarrow> string list \<Rightarrow> classified" where
  "classifyToolCalls calls clientNames externalNames blockedNames =
     \<lparr>cl_internal = filter (\<lambda>c. rc_name c \<in> set clientNames) calls,
      cl_external = filter (\<lambda>c. rc_name c \<in> set externalNames) calls,
      cl_blocked = filter (\<lambda>c. rc_name c \<in> set blockedNames) calls,
      cl_unknown = filter (\<lambda>c. rc_name c \<notin> set blockedNames \<and> rc_name c \<notin> set clientNames \<and> rc_name c \<notin> set externalNames) calls\<rparr>"

definition priority_note :: string where
  "priority_note = ''IMPORTANT: You have internal tools and client-provided tools (marked [client-provided] in their description). Always prefer internal tools when they can accomplish the task. Use client-provided tools only when no internal tool can do the job.''"

definition injectToolPriority :: "chat_message list \<Rightarrow> tool list \<Rightarrow> chat_message list" where
  "injectToolPriority messages externalTools =
     (if externalTools = [] then messages
      else (case findIndex (\<lambda>m. cm_role m = RSystem) messages of
              None \<Rightarrow> messages
            | Some i \<Rightarrow> messages[i := (messages ! i)
                \<lparr>cm_content := Some (nullish (cm_content (messages ! i)) ''null'' @ newline @ newline @ priority_note)\<rparr>]))"

definition injectPendingResults ::
    "rat \<Rightarrow> string \<Rightarrow> rat \<Rightarrow> pending_results \<Rightarrow> chat_message list \<Rightarrow> chat_message list \<times> pending_results" where
  "injectPendingResults ttlMs sid now p messages =
     (case pending_has ttlMs sid now p of
        (False, p1) \<Rightarrow> (messages, p1)
      | (True, p1) \<Rightarrow>
          (case pending_consume ttlMs sid now p1 of
             (None, p2) \<Rightarrow> (messages, p2)
           | (Some (assistant, results), p2) \<Rightarrow>
               (messages @ [assistant] @ map (\<lambda>r. tool_result (pr_toolCallId r) (pr_text r)) results, p2)))"

definition error_results :: "round_call list \<Rightarrow> (round_call \<Rightarrow> string) \<Rightarrow> chat_message list" where
  "error_results calls text = map (\<lambda>c. tool_result (rc_id c) (text c)) calls"

definition round_request :: "string option \<Rightarrow> round_call list \<Rightarrow> chat_message" where
  "round_request content calls = calls_message content (map snd calls)"

definition unavailable_text :: "round_call \<Rightarrow> string" where
  "unavailable_text c = ''Error: Tool '' @ quoted (rc_name c) @ '' is temporarily unavailable in this session.''"

definition unknown_text :: "round_call \<Rightarrow> string" where
  "unknown_text c = ''Error: Tool '' @ quoted (rc_name c) @ '' not found.''"

definition budget_text :: "int \<Rightarrow> string" where
  "budget_text maxToolCalls = ''Error: not executed: tool-call budget of '' @ int_str maxToolCalls
     @ '' for this request is exhausted; return what you have and report what is missing''"

definition buildBlockedToolMessages :: "string \<Rightarrow> round_call list \<Rightarrow> tool_round" where
  "buildBlockedToolMessages content blocked =
     plain_round (round_request (or_null content) blocked) (error_results blocked unavailable_text) []"

subsection \<open>Results of tools\<close>

record tool_error =
  te_message :: string
  te_code :: string
  te_isMcp :: bool

datatype tool_res = ResOk tool_value | ResErr tool_error

definition MCP_UNAVAILABLE_CODES :: "string list" where
  "MCP_UNAVAILABLE_CODES = [''MCP_NOT_CONNECTED'', ''MCP_TIMEOUT'', ''MCP_TRANSPORT'', ''MCP_HTTP_403'', ''MCP_HTTP_404'',
     ''MCP_HTTP_502'', ''MCP_HTTP_503'', ''MCP_NO_RESPONSE'']"

definition isMcpUnavailable :: "tool_error \<Rightarrow> bool" where
  "isMcpUnavailable e \<longleftrightarrow> te_isMcp e \<and> te_code e \<in> set MCP_UNAVAILABLE_CODES"

definition content_text :: "json \<Rightarrow> string" where
  "content_text v = (case v of JStr s \<Rightarrow> s | _ \<Rightarrow> stringify v)"

definition res_text :: "tool_res \<Rightarrow> string" where
  "res_text r = (case r of ResErr e \<Rightarrow> te_message e | ResOk v \<Rightarrow> content_text (tv_content v))"

text \<open>\<open>Inl\<close> escalates.  A classifier decides from the error (and its probe) whether it is an outage.\<close>

definition classifyToolResult :: "(tool_error \<Rightarrow> bool) option \<Rightarrow> tool_res \<Rightarrow> tool_error + string" where
  "classifyToolResult classifier r =
     (case r of
        ResErr e \<Rightarrow> if nullish classifier isMcpUnavailable e then Inl e else Inr (te_message e)
      | ResOk v \<Rightarrow> Inr (content_text (tv_content v)))"

definition res_is_error :: "tool_res \<Rightarrow> bool" where
  "res_is_error r = (case r of ResErr e \<Rightarrow> True | ResOk v \<Rightarrow> tv_isError v)"

definition MAX_TIMER_MS :: rat where
  "MAX_TIMER_MS = 2147483647"

text \<open>\<open>None\<close> disables the heartbeat; the argument is absent, a number, or not finite.\<close>

datatype 'a raw_number = Absent | Number 'a | Infinite

definition normalizeHeartbeatMs :: "rat raw_number \<Rightarrow> rat option" where
  "normalizeHeartbeatMs raw =
     (case raw of
        Absent \<Rightarrow> Some 5000
      | Number x \<Rightarrow> if x > 0 \<and> x \<le> MAX_TIMER_MS then Some x else None
      | Infinite \<Rightarrow> None)"

subsection \<open>A batch\<close>

datatype tool_reply = Replied tool_res | ReplyThrew string

record batch_env =
  be_reply :: "nat \<Rightarrow> tool_reply"           \<comment> \<open>by position in the round\<close>
  be_order :: "nat list"                     \<comment> \<open>the positions in the order they settle\<close>
  be_ticks :: "nat list list"                \<comment> \<open>at each tick, the positions settled so far\<close>
  be_now :: rat

record exec_result =
  er_call :: round_call
  er_text :: string
  er_res :: "tool_res option"
  er_cached :: bool

datatype started = StartRejected string | NoClient | CacheHit tool_value | Dispatched bool | StartThrew string

record loop_config =
  lp_maxIterations :: nat
  lp_maxToolCalls :: "int option"
  lp_heartbeat :: "rat raw_number"
  lp_external :: "tool list"
  lp_streamFinal :: bool                     \<comment> \<open>\<open>streamMode === 'final'\<close>\<close>
  lp_trust :: "tool_trust option"
  lp_session :: string
  lp_cacheable :: "nat \<Rightarrow> bool"              \<comment> \<open>\<open>client.cacheable !== false\<close>\<close>
  lp_classifier :: "(tool_error \<Rightarrow> bool) option"
  lp_blockTtl :: rat
  lp_pendingTtl :: rat
  lp_cacheTtl :: rat
  lp_sha256 :: "string \<Rightarrow> string"
  lp_externalResults :: "(string \<times> string) list option"
  lp_refresh :: bool                         \<comment> \<open>\<open>refreshToolsPerIteration !== false\<close>\<close>
  lp_reselect :: bool                        \<comment> \<open>re-selection is on and there is a tools store\<close>
  lp_namespace :: "namespace_context \<Rightarrow> string"
  lp_input :: string
  lp_guard :: "round_guard option"
  lp_report :: bool                          \<comment> \<open>the task owes a report\<close>
  lp_reportTool :: tool

text \<open>Each call of the batch starts at once; a lookup may drop an expired entry of the cache (\<open>None\<close> never caches).\<close>

definition start_call ::
    "loop_config \<Rightarrow> rejections option \<Rightarrow> (string \<times> tool_client) list \<Rightarrow> rat \<Rightarrow> round_call \<Rightarrow> tool_cache option
      \<Rightarrow> started \<times> tool_cache option" where
  "start_call cfg rejections clients now c cache =
     (case Option.bind rejections (\<lambda>r. map_of r (fst c)) of
        Some t \<Rightarrow> (StartRejected t, cache)
      | None \<Rightarrow>
          (case map_of clients (rc_name c) of
             None \<Rightarrow> (NoClient, cache)
           | Some cl \<Rightarrow>
               (let cacheable = cl_default cl = False \<and> lp_cacheable cfg (cl_id cl) in
                case (if cacheable then cache else None) of
                  None \<Rightarrow> (Dispatched cacheable, cache)
                | Some m \<Rightarrow>
                    (case cache_get (lp_sha256 cfg) now (rc_name c) (pc_args (snd c)) m of
                       None \<Rightarrow> (StartThrew ''TypeError'', cache)
                     | Some (Some v, m1) \<Rightarrow> (CacheHit v, Some m1)
                     | Some (None, m1) \<Rightarrow> (Dispatched cacheable, Some m1)))))"

fun start_calls ::
    "loop_config \<Rightarrow> rejections option \<Rightarrow> (string \<times> tool_client) list \<Rightarrow> rat \<Rightarrow> round_call list \<Rightarrow> tool_cache option
      \<Rightarrow> (round_call \<times> started) list \<times> tool_cache option" where
  "start_calls cfg rej clients now [] cache = ([], cache)"
| "start_calls cfg rej clients now (c # cs) cache =
     (case start_call cfg rej clients now c cache of
        (s, cache1) \<Rightarrow> (case start_calls cfg rej clients now cs cache1 of (ss, cache2) \<Rightarrow> ((c, s) # ss, cache2)))"

definition rejected_value :: "string \<Rightarrow> tool_value" where
  "rejected_value t = \<lparr>tv_content = JArr [JObj [(''type'', JStr ''text''), (''text'', JStr t)]], tv_isError = True\<rparr>"

text \<open>\<open>Inl\<close>: the promise of the call rejects.\<close>

definition finish_call :: "batch_env \<Rightarrow> round_call \<times> started \<Rightarrow> string + exec_result" where
  "finish_call be cs =
     (case snd cs of
        StartRejected t \<Rightarrow> Inr \<lparr>er_call = fst cs, er_text = t, er_res = Some (ResOk (rejected_value t)), er_cached = False\<rparr>
      | NoClient \<Rightarrow> Inr \<lparr>er_call = fst cs, er_text = [], er_res = None, er_cached = False\<rparr>
      | CacheHit v \<Rightarrow> Inr \<lparr>er_call = fst cs, er_text = res_text (ResOk v), er_res = Some (ResOk v), er_cached = True\<rparr>
      | StartThrew e \<Rightarrow> Inl e
      | Dispatched _ \<Rightarrow>
          (case be_reply be (fst (fst cs)) of
             ReplyThrew e \<Rightarrow> Inl e
           | Replied r \<Rightarrow> Inr \<lparr>er_call = fst cs, er_text = res_text r, er_res = Some r, er_cached = False\<rparr>))"

definition store_reply :: "loop_config \<Rightarrow> batch_env \<Rightarrow> (round_call \<times> started) list \<Rightarrow> nat \<Rightarrow> tool_cache option \<Rightarrow> tool_cache option" where
  "store_reply cfg be started i cache =
     (case find (\<lambda>cs. fst (fst cs) = i) started of
        Some (c, Dispatched True) \<Rightarrow>
          (case (be_reply be i, cache) of
             (Replied (ResOk v), Some m) \<Rightarrow>
               Some (nullish (cache_set (lp_sha256 cfg) (lp_cacheTtl cfg) (be_now be) (rc_name c) (pc_args (snd c)) v m) m)
           | _ \<Rightarrow> cache)
      | _ \<Rightarrow> cache)"

definition dispatched :: "(round_call \<times> started) list \<Rightarrow> round_call list" where
  "dispatched ss = map fst (filter (\<lambda>cs. case snd cs of Dispatched _ \<Rightarrow> True | _ \<Rightarrow> False) ss)"

fun collect :: "(string + 'a) list \<Rightarrow> string + 'a list" where
  "collect [] = Inr []"
| "collect (Inl e # xs) = Inl e"
| "collect (Inr x # xs) = (case collect xs of Inl e \<Rightarrow> Inl e | Inr ys \<Rightarrow> Inr (x # ys))"

definition heartbeats :: "rat option \<Rightarrow> round_call list \<Rightarrow> nat list list \<Rightarrow> loop_out list" where
  "heartbeats heartbeatMs batch ticks =
     (if heartbeatMs = None then []
      else concat (map (\<lambda>done. map (\<lambda>t. OutChunk ((chunk_of [])\<lparr>lc_heartbeat := Some t\<rparr>))
             (filter (\<lambda>t. t \<notin> rc_name ` set (filter (\<lambda>c. fst c \<in> set done) batch))
                (rev (remdups (rev (map rc_name batch)))))) ticks))"

record batch_acc =
  ba_tools :: "tool list"
  ba_count :: nat
  ba_messages :: "chat_message list"
  ba_errors :: "bool list"
  ba_avail :: availability

datatype batch_outcome = Escalated tool_error nat availability | Settled batch_acc

fun settle_results :: "loop_config \<Rightarrow> rat \<Rightarrow> nat \<Rightarrow> exec_result list \<Rightarrow> batch_acc \<Rightarrow> batch_outcome" where
  "settle_results cfg now escalatedCount [] acc = Settled acc"
| "settle_results cfg now escalatedCount (r # rs) acc =
     (case er_res r of
        None \<Rightarrow> settle_results cfg now escalatedCount rs acc
      | Some res \<Rightarrow>
          (case classifyToolResult (lp_classifier cfg) res of
             Inl e \<Rightarrow> Escalated e escalatedCount (ba_avail acc)
           | Inr _ \<Rightarrow>
               (let unavailable = (case res of ResErr _ \<Rightarrow> True | ResOk _ \<Rightarrow> False)
                      \<and> isToolContextUnavailableError (er_text r)
                      \<and> rc_name (er_call r) \<notin> tl_name ` set (lp_external cfg);
                    acc1 = (if unavailable then
                              acc\<lparr>ba_avail := snd (block_tool (lp_session cfg) (rc_name (er_call r)) (er_text r) (lp_blockTtl cfg) now (ba_avail acc)),
                                  ba_tools := filter (\<lambda>t. tl_name t \<noteq> rc_name (er_call r)) (ba_tools acc)\<rparr>
                            else acc)
                in settle_results cfg now escalatedCount rs
                     (acc1\<lparr>ba_count := ba_count acc1 + 1,
                           ba_messages := ba_messages acc1 @ [tool_result (rc_id (er_call r)) (er_text r)],
                           ba_errors := ba_errors acc1 @ [res_is_error res]\<rparr>))))"

record batch_run =
  br_outcome :: "string + batch_outcome"       \<comment> \<open>\<open>Inl\<close>: the batch throws\<close>
  br_out :: "loop_out list"
  br_cache :: "tool_cache option"
  br_dispatched :: "round_call list"

text \<open>\<open>executeToolBatchWithHeartbeat\<close>: all calls of the batch run, then their results are read in order.\<close>

definition executeToolBatch ::
    "loop_config \<Rightarrow> batch_env \<Rightarrow> rejections option \<Rightarrow> (string \<times> tool_client) list \<Rightarrow> round_call list
      \<Rightarrow> tool list \<Rightarrow> nat \<Rightarrow> availability \<Rightarrow> tool_cache option \<Rightarrow> batch_run" where
  "executeToolBatch cfg be rejections clients batch tools count0 avail cache =
     (case start_calls cfg rejections clients (be_now be) batch cache of
        (started, cache1) \<Rightarrow>
          (let cache2 = fold (store_reply cfg be started) (be_order be) cache1;
               beats = heartbeats (normalizeHeartbeatMs (lp_heartbeat cfg)) batch (be_ticks be)
           in case collect (map (finish_call be) started) of
                Inl e \<Rightarrow> \<lparr>br_outcome = Inl e, br_out = beats, br_cache = cache2, br_dispatched = dispatched started\<rparr>
              | Inr results \<Rightarrow>
                  (let oc = settle_results cfg (be_now be)
                         (count0 + length (filter (\<lambda>r. er_res r \<noteq> None) results)) results
                         \<lparr>ba_tools = tools, ba_count = count0, ba_messages = [], ba_errors = [], ba_avail = avail\<rparr>
                   in \<lparr>br_outcome = Inr oc,
                       br_out = beats @ (case oc of Escalated e _ _ \<Rightarrow> [OutError (te_message e) ''MCP_UNAVAILABLE''] | Settled _ \<Rightarrow> []),
                       br_cache = cache2, br_dispatched = dispatched started\<rparr>)))"

subsection \<open>Mixed rounds\<close>

definition async_text :: "batch_env \<Rightarrow> round_call \<times> started \<Rightarrow> string" where
  "async_text be cs =
     (case snd cs of
        StartRejected t \<Rightarrow> ''Error: '' @ t
      | NoClient \<Rightarrow> []
      | _ \<Rightarrow> (case be_reply be (fst (fst cs)) of ReplyThrew e \<Rightarrow> ''Error: '' @ e | Replied r \<Rightarrow> res_text r))"

text \<open>This path never reads the cache.\<close>

definition start_async :: "loop_config \<Rightarrow> rejections option \<Rightarrow> (string \<times> tool_client) list \<Rightarrow> round_call \<Rightarrow> round_call \<times> started" where
  "start_async cfg rejections clients c =
     (c, case Option.bind rejections (\<lambda>r. map_of r (fst c)) of
           Some t \<Rightarrow> StartRejected t
         | None \<Rightarrow>
             (case map_of clients (rc_name c) of
                None \<Rightarrow> NoClient
              | Some cl \<Rightarrow> Dispatched (cl_default cl = False \<and> lp_cacheable cfg (cl_id cl))))"

definition fireInternalToolsAsync ::
    "loop_config \<Rightarrow> batch_env \<Rightarrow> rejections option \<Rightarrow> (string \<times> tool_client) list \<Rightarrow> string \<Rightarrow> round_call list
      \<Rightarrow> round_call list \<Rightarrow> pending_results \<Rightarrow> tool_cache option \<Rightarrow> round_call list \<times> pending_results \<times> tool_cache option" where
  "fireInternalToolsAsync cfg be rejections clients content calls skipped pending cache =
     (let started = map (start_async cfg rejections clients) calls;
          results = map (\<lambda>cs. \<lparr>pr_toolCallId = rc_id (fst cs), pr_toolName = rc_name (fst cs), pr_text = async_text be cs\<rparr>) started
            @ map (\<lambda>c. \<lparr>pr_toolCallId = rc_id c, pr_toolName = rc_name c, pr_text = budget_text (nullish (lp_maxToolCalls cfg) 0)\<rparr>) skipped
      in (dispatched started,
          pending_set (lp_pendingTtl cfg) (lp_session cfg)
            \<lparr>pe_assistant = round_request (or_null content) (calls @ skipped), pe_promise = Some results, pe_createdAt = be_now be\<rparr>
            (be_now be) pending,
          fold (store_reply cfg be started) (be_order be) cache))"

subsection \<open>The report tool\<close>

text \<open>\<open>listed\<close> is what the host client of a \<open>submit_report\<close> tool answers when it is asked for its tools.\<close>

definition submit_client :: tool_client where
  "submit_client = \<lparr>cl_id = 0, cl_calls = None, cl_default = True\<rparr>"

definition withSubmitReport ::
    "loop_config \<Rightarrow> tool list option \<Rightarrow> tool list \<Rightarrow> (string \<times> tool_client) list \<Rightarrow> tool list \<times> (string \<times> tool_client) list" where
  "withSubmitReport cfg listed tools clients =
     (if \<not> lp_report cfg then (tools, clients)
      else
        (let name = ''submit_report''; client = map_of clients name;
             withoutDefault = filter (\<lambda>t. t \<noteq> lp_reportTool cfg) tools
         in if list_ex (\<lambda>t. tl_name t = name) (lp_external cfg) then
              (withoutDefault, if (case client of None \<Rightarrow> False | Some c \<Rightarrow> cl_default c) then AList.delete name clients else clients)
            else if (case client of None \<Rightarrow> False | Some c \<Rightarrow> \<not> cl_default c) then
              (case find (\<lambda>t. tl_name t = name) withoutDefault of
                 Some host \<Rightarrow> (filter (\<lambda>t. tl_name t \<noteq> name) withoutDefault @ [host], clients)
               | None \<Rightarrow>
                   (case Option.bind listed (find (\<lambda>t. tl_name t = name)) of
                      Some t \<Rightarrow> (withoutDefault @ [t], clients)
                    | None \<Rightarrow> (withoutDefault, clients)))
            else (filter (\<lambda>t. tl_name t \<noteq> name) tools @ [lp_reportTool cfg],
                  if client = None then AList.update name submit_client clients else clients)))"

subsection \<open>Validation of the output\<close>

text \<open>The validator answers nothing when it accepts or fails, and a correction or reason when it rejects; an exception of
  its own (\<open>Inl\<close>) is passed on.\<close>

definition reprompt_messages :: "string \<Rightarrow> string \<Rightarrow> chat_message list" where
  "reprompt_messages content correction =
     [text_message RAssistant (Some content),
      text_message RUser (Some (''Your previous response was rejected by validation: '' @ correction @ ''. Please try again.''))]"

definition runOutputValidationReprompt ::
    "(string \<Rightarrow> chat_message list \<Rightarrow> tool list \<Rightarrow> string + string option) \<Rightarrow> tool_trust option \<Rightarrow> string \<Rightarrow> chat_message list \<Rightarrow> tool list
      \<Rightarrow> string + bool \<times> chat_message list" where
  "runOutputValidationReprompt validate trust content messages tools =
     (case validate content (toModelToolMessages messages trust) tools of
        Inl e \<Rightarrow> Inl e
      | Inr None \<Rightarrow> Inr (False, messages)
      | Inr (Some correction) \<Rightarrow> Inr (True, messages @ reprompt_messages content correction))"

end
