(* ===== verification/ToolLoop.thy ===== *)
theory ToolLoop
  imports ToolLoopCore
begin

text \<open>
  The tool loop of the pipeline (\<open>pipeline/handlers/tool-loop.ts\<close>): one iteration asks the model, and either ends the
  request or answers the tool calls of the round and goes on.  What the model, the tools, the validator, the stores
  and the clock answer in an iteration is its environment.  Tracing, metrics, session logs, timings, the partial-output
  mirror and the observers of selected tools are left out; the observer of the call count is kept.
\<close>

subsection \<open>State and environment\<close>

record loop_state =
  ls_messages :: "chat_message list"
  ls_prefix :: "chat_message list"           \<comment> \<open>\<open>staticPrefix\<close>\<close>
  ls_strategy :: strategy
  ls_tail :: "chat_message list"             \<comment> \<open>\<open>controlTail\<close>\<close>
  ls_tools :: "tool list"                    \<comment> \<open>\<open>currentTools\<close>\<close>
  ls_mcp :: "tool list"                      \<comment> \<open>\<open>ctx.mcpTools\<close>\<close>
  ls_clients :: "(string \<times> tool_client) list"
  ls_count :: nat                            \<comment> \<open>\<open>toolCallCount\<close>\<close>
  ls_usage :: llm_usage
  ls_progress :: string
  ls_avail :: availability
  ls_pending :: pending_results
  ls_cache :: "tool_cache option"
  ls_out :: "loop_out list"
  ls_answer :: "string option"               \<comment> \<open>\<open>ctx.assistantText\<close>\<close>
  ls_stopped :: bool
  ls_counts :: "nat list"                    \<comment> \<open>what \<open>onToolCallCount\<close> was told\<close>
  ls_requests :: "(chat_message list \<times> tool list) list"
  ls_dispatched :: "round_call list"

text \<open>How the stream of the model ends: it is exhausted, carries an error, or throws.\<close>

datatype model_end = ModelDone | ModelFailed string | ModelThrew string

record turn_env =
  tn_aborted :: bool
  tn_stop :: bool
  tn_finish1 :: "string option"              \<comment> \<open>the task was finished by a tool, at the head of the iteration\<close>
  tn_finish2 :: "string option"              \<comment> \<open>and right before the request\<close>
  tn_clients :: "namespace_client list"      \<comment> \<open>the clients that listed their tools\<close>
  tn_retrieve :: "string \<Rightarrow> (string option \<times> string option) list option"
  tn_listed :: "tool list option"
  tn_now :: rat
  tn_llm :: "chat_message list \<Rightarrow> tool list \<Rightarrow> llm_chunk list \<times> model_end"
  tn_validate :: "string \<Rightarrow> chat_message list \<Rightarrow> tool list \<Rightarrow> string + string option"
  tn_batch :: batch_env

datatype loop_end = Finished bool | LoopThrew string

datatype turn_result = Ended loop_end loop_state | Next loop_state

definition emit :: "loop_out list \<Rightarrow> loop_state \<Rightarrow> loop_state" where
  "emit os st = st\<lparr>ls_out := ls_out st @ os\<rparr>"

definition emitProgressFallback :: "loop_config \<Rightarrow> loop_state \<Rightarrow> loop_state" where
  "emitProgressFallback cfg st = (if \<not> lp_streamFinal cfg \<or> ls_progress st = [] then st else emit [text_out (ls_progress st)] st)"

definition finish_chunk :: "string \<Rightarrow> loop_state \<Rightarrow> loop_out" where
  "finish_chunk reason st = OutChunk ((chunk_of [])\<lparr>lc_finish := Some reason, lc_usage := Some (ls_usage st)\<rparr>)"

definition finalize_loop :: "string \<Rightarrow> string option \<Rightarrow> loop_state \<Rightarrow> turn_result" where
  "finalize_loop content finishReason st =
     (let st1 = st\<lparr>ls_answer := Some content\<rparr>
      in Ended (Finished True) (emit [finish_chunk (if truthy finishReason then the finishReason else ''stop'') st1] st1))"

definition task_finished :: "string \<Rightarrow> loop_state \<Rightarrow> turn_result" where
  "task_finished output st = finalize_loop output (Some ''stop'') (emit [text_out output, end_out ''final''] st)"

definition reform :: "loop_state \<Rightarrow> loop_state" where
  "reform st = st\<lparr>ls_messages := strategy_form (ls_prefix st) (ls_strategy st) @ ls_tail st\<rparr>"

definition record_round :: "tool_round \<Rightarrow> loop_state \<Rightarrow> loop_state" where
  "record_round r st = reform (st\<lparr>ls_strategy := strategy_record r (ls_strategy st), ls_tail := []\<rparr>)"

subsection \<open>The head of an iteration\<close>

definition head_stage :: "loop_config \<Rightarrow> turn_env \<Rightarrow> nat \<Rightarrow> loop_state \<Rightarrow> turn_result" where
  "head_stage cfg te k st =
     (if tn_aborted te then Ended (Finished False) (emit [OutError ''Aborted'' ''ABORTED''] st)
      else (case tn_finish1 te of
              Some output \<Rightarrow> task_finished output st
            | None \<Rightarrow>
                if k > 0 \<and> tn_stop te then
                  (let st1 = (emitProgressFallback cfg st)\<lparr>ls_stopped := True\<rparr>
                   in Ended (Finished True) (emit [OutChunk ((chunk_of [])\<lparr>lc_finish := Some ''stop'', lc_stopped := True,
                        lc_usage := Some (ls_usage st1)\<rparr>)] st1))
                else if k \<ge> lp_maxIterations cfg then
                  (let st1 = emitProgressFallback cfg st in Ended (Finished True) (emit [finish_chunk ''length'' st1] st1))
                else Next st))"

subsection \<open>The tools of an iteration\<close>

definition refresh_tools :: "loop_config \<Rightarrow> turn_env \<Rightarrow> loop_state \<Rightarrow> string + loop_state" where
  "refresh_tools cfg te st =
     (case buildNamespacedTools (tn_clients te) (lp_namespace cfg) of
        Inl e \<Rightarrow> Inl e
      | Inr ns \<Rightarrow>
          (case mergeOfferedTools (ns_tools ns) (lp_external cfg) of
             Inl e \<Rightarrow> Inl e
           | Inr tools \<Rightarrow> Inr (st\<lparr>ls_mcp := ns_tools ns, ls_clients := ns_clients ns, ls_tools := tools\<rparr>)))"

definition last_call_names :: "chat_message list \<Rightarrow> string list" where
  "last_call_names messages =
     (case find (\<lambda>m. cm_role m = RAssistant) (rev messages) of
        None \<Rightarrow> []
      | Some m \<Rightarrow> filter (\<lambda>n. n \<noteq> []) (map fc_name (calls_of m)))"

definition read_only_name :: "string \<Rightarrow> bool" where
  "read_only_name n = list_ex (\<lambda>p. prefix p n) [''Search'', ''Read'', ''Get'', ''List'', ''Describe'']"

definition last_tool_text :: "chat_message list \<Rightarrow> string" where
  "last_tool_text messages =
     (case find (\<lambda>m. cm_role m = RTool) (rev messages) of
        None \<Rightarrow> []
      | Some m \<Rightarrow> take 200 (nullish (cm_content m) []))"

definition update_hint :: "string \<Rightarrow> string" where
  "update_hint n = (if prefix ''Create'' n then ''Update'' @ drop 6 n else n)"

definition reselect_query :: "string list \<Rightarrow> string \<Rightarrow> string \<Rightarrow> string" where
  "reselect_query names toolResult inputText =
     (let lowered = map lower toolResult;
          isError = has_substring lowered ''error'' \<or> has_substring lowered ''already exist'' \<or> has_substring lowered ''failed''
      in if names \<noteq> [] \<and> isError then
           (let updateHints = join '', '' (map update_hint (filter (prefix ''Create'') names));
                hints = (if updateHints \<noteq> [] then '' Need '' @ updateHints @ ''.'' else [])
            in join '', '' names @ '' failed: '' @ take 150 toolResult @ ''.'' @ hints @ '' '' @ take 200 inputText)
         else if names \<noteq> [] then ''After '' @ join '', '' names @ '': '' @ toolResult @ newline @ take 200 inputText
         else inputText)"

definition reselect_tools :: "loop_config \<Rightarrow> turn_env \<Rightarrow> tool list \<Rightarrow> loop_state \<Rightarrow> string + loop_state" where
  "reselect_tools cfg te previous st =
     (let names = last_call_names (ls_messages st) in
      if names \<noteq> [] \<and> list_all read_only_name names then Inr (st\<lparr>ls_tools := previous\<rparr>)
      else
        (case tn_retrieve te (reselect_query names (last_tool_text (ls_messages st)) (lp_input cfg)) of
           None \<Rightarrow> Inr st
         | Some hits \<Rightarrow>
             (let newNames = List.map_filter (\<lambda>(i, n). toolNameFromRecord i n) hits in
              if newNames = [] then Inr st
              else (case mergeOfferedTools (filter (\<lambda>t. tl_name t \<in> set newNames) (ls_mcp st)) (lp_external cfg) of
                      Inl e \<Rightarrow> Inl e
                    | Inr tools \<Rightarrow> Inr (st\<lparr>ls_tools := tools\<rparr>)))))"

definition budget_spent :: "loop_config \<Rightarrow> loop_state \<Rightarrow> bool" where
  "budget_spent cfg st = (case lp_maxToolCalls cfg of None \<Rightarrow> False | Some m \<Rightarrow> int (ls_count st) \<ge> m)"

definition budget_chunk :: "loop_config \<Rightarrow> loop_state \<Rightarrow> loop_out" where
  "budget_chunk cfg st = OutChunk ((chunk_of [])\<lparr>lc_budget := Some (ls_count st, nullish (lp_maxToolCalls cfg) 0)\<rparr>)"

definition offer_tools :: "loop_config \<Rightarrow> turn_env \<Rightarrow> loop_state \<Rightarrow> loop_state" where
  "offer_tools cfg te st =
     (case withSubmitReport cfg (tn_listed te) (ls_tools st) (ls_clients st) of
        (tools1, clients1) \<Rightarrow>
          (case filterTools (lp_session cfg) tools1 (tn_now te) (ls_avail st) of
             ((allowed, _), avail1) \<Rightarrow>
               (let st1 = st\<lparr>ls_tools := allowed, ls_clients := clients1, ls_avail := avail1\<rparr> in
                if budget_spent cfg st1 then emit [budget_chunk cfg st1] (st1\<lparr>ls_tools := []\<rparr>) else st1)))"

definition tools_stage :: "loop_config \<Rightarrow> turn_env \<Rightarrow> nat \<Rightarrow> loop_state \<Rightarrow> string + loop_state" where
  "tools_stage cfg te k st =
     (case (if k > 0 \<and> lp_refresh cfg then refresh_tools cfg te st else Inr st) of
        Inl e \<Rightarrow> Inl e
      | Inr st1 \<Rightarrow>
          (case (if k > 0 \<and> lp_reselect cfg then reselect_tools cfg te (ls_tools st) st1 else Inr st1) of
             Inl e \<Rightarrow> Inl e
           | Inr st2 \<Rightarrow> Inr (offer_tools cfg te st2)))"

subsection \<open>Reading the reply\<close>

record stream_acc =
  sa_content :: string
  sa_finish :: "string option"
  sa_calls :: "(nat \<times> string \<times> string \<times> string) list"     \<comment> \<open>\<open>toolCallsMap\<close>: id, name, arguments\<close>
  sa_usage :: llm_usage
  sa_out :: "loop_out list"

definition merge_delta :: "call_delta \<Rightarrow> (nat \<times> string \<times> string \<times> string) list \<Rightarrow> (nat \<times> string \<times> string \<times> string) list" where
  "merge_delta d m =
     (case map_of m (cd_index d) of
        None \<Rightarrow> m @ [(cd_index d, nullish (cd_id d) [], nullish (cd_name d) [], nullish (cd_arguments d) [])]
      | Some (i, n, a) \<Rightarrow>
          AList.update (cd_index d)
            (if truthy (cd_id d) then the (cd_id d) else i, if truthy (cd_name d) then the (cd_name d) else n,
             a @ nullish (cd_arguments d) []) m)"

definition add_usage :: "llm_usage \<Rightarrow> llm_usage \<Rightarrow> llm_usage" where
  "add_usage u v = \<lparr>us_prompt = us_prompt u + us_prompt v, us_completion = us_completion u + us_completion v,
     us_total = us_total u + us_total v\<rparr>"

definition read_chunk :: "loop_config \<Rightarrow> llm_chunk \<Rightarrow> stream_acc \<Rightarrow> stream_acc" where
  "read_chunk cfg c acc =
     (if lc_reset c then
        acc\<lparr>sa_content := [], sa_finish := None, sa_calls := [], sa_out := sa_out acc @ [end_out ''retry'']\<rparr>
      else
        (let acc1 = (if lc_content c = [] then acc
                     else acc\<lparr>sa_content := sa_content acc @ lc_content c,
                              sa_out := sa_out acc @ (if lp_streamFinal cfg then [] else [text_out (lc_content c)])\<rparr>);
             acc2 = acc1\<lparr>sa_calls := fold (\<lambda>(i, raw). merge_delta (toToolCallDelta raw i))
                        (enumerate 0 (nullish (lc_toolCalls c) [])) (sa_calls acc1)\<rparr>;
             acc3 = (if truthy (lc_finish c) then acc2\<lparr>sa_finish := lc_finish c\<rparr> else acc2)
         in case lc_usage c of None \<Rightarrow> acc3 | Some u \<Rightarrow> acc3\<lparr>sa_usage := add_usage (sa_usage acc3) u\<rparr>))"

definition read_stream :: "loop_config \<Rightarrow> llm_chunk list \<Rightarrow> llm_usage \<Rightarrow> stream_acc" where
  "read_stream cfg chunks usage =
     fold (read_chunk cfg) chunks \<lparr>sa_content = [], sa_finish = None, sa_calls = [], sa_usage = usage, sa_out = []\<rparr>"

definition parse_call :: "string \<times> string \<times> string \<Rightarrow> parsed_call" where
  "parse_call c = (case c of (i, n, a) \<Rightarrow> \<lparr>pc_id = i, pc_name = n, pc_args = nullish (json_parse a) (JObj [])\<rparr>)"

definition parsed_calls :: "stream_acc \<Rightarrow> parsed_call list" where
  "parsed_calls acc = map (parse_call \<circ> snd) (sa_calls acc)"

subsection \<open>A reply without tool calls\<close>

definition answer_stage :: "loop_config \<Rightarrow> turn_env \<Rightarrow> stream_acc \<Rightarrow> loop_state \<Rightarrow> turn_result" where
  "answer_stage cfg te acc st =
     (case runOutputValidationReprompt (tn_validate te) (lp_trust cfg) (sa_content acc) (ls_messages st) (ls_tools st) of
        Inl e \<Rightarrow> Ended (LoopThrew e) st
      | Inr (True, messages) \<Rightarrow>
          Next (reform (emit [end_out ''retry''] st
                  \<lparr>ls_tail := ls_tail st @ drop (length (ls_messages st)) messages\<rparr>))
      | Inr (False, _) \<Rightarrow>
          finalize_loop (sa_content acc) (sa_finish acc)
            (emit ((if lp_streamFinal cfg then [text_out (sa_content acc)] else []) @ [end_out ''final'']) st))"

subsection \<open>A round of tool calls\<close>

definition guard_stage ::
    "loop_config \<Rightarrow> turn_env \<Rightarrow> round_call list \<Rightarrow> loop_state \<Rightarrow> rejections \<times> classified \<times> loop_state" where
  "guard_stage cfg te calls st =
     (let rejections = nullish (guardToolRound (lp_guard cfg) (map snd calls)) [] in
      case getBlockedToolNames (lp_session cfg) (tn_now te) (ls_avail st) of
        (blocked, avail1) \<Rightarrow>
          (rejections,
           classifyToolCalls calls (map fst (ls_clients st)) (map tl_name (lp_external cfg)) blocked,
           st\<lparr>ls_avail := avail1\<rparr>))"

definition error_round :: "string \<Rightarrow> round_call list \<Rightarrow> (round_call \<Rightarrow> string) \<Rightarrow> tool_round" where
  "error_round content calls text =
     plain_round (round_request (or_null content) calls) (error_results calls text) (map (\<lambda>_. True) calls)"

definition rejected_text :: "rejections \<Rightarrow> round_call \<Rightarrow> string" where
  "rejected_text rej c = ''Error: '' @ nullish (map_of rej (fst c)) ''undefined''"

definition with_ext_ids :: "loop_config \<Rightarrow> round_call list \<Rightarrow> round_call list" where
  "with_ext_ids cfg calls =
     map (\<lambda>(i, c). (i, c\<lparr>pc_id := externalToolCallId (lp_sha256 cfg) (pc_name c) (pc_args c)\<rparr>)) calls"

definition external_hit :: "loop_config \<Rightarrow> round_call \<Rightarrow> bool" where
  "external_hit cfg c = (case lp_externalResults cfg of None \<Rightarrow> False | Some m \<Rightarrow> map_of m (rc_id c) \<noteq> None)"

definition hit_text :: "loop_config \<Rightarrow> round_call \<Rightarrow> string" where
  "hit_text cfg c = nullish (Option.bind (lp_externalResults cfg) (\<lambda>m. map_of m (rc_id c))) []"

definition tell_count :: "nat \<Rightarrow> loop_state \<Rightarrow> loop_state" where
  "tell_count n st = st\<lparr>ls_count := n, ls_counts := ls_counts st @ [n]\<rparr>"

definition surfaced :: "round_call list \<Rightarrow> loop_out" where
  "surfaced misses =
     OutChunk ((chunk_of [])\<lparr>lc_toolCalls := Some (map (\<lambda>(i, c). DeltaCall
        \<lparr>cd_index = i, cd_id = Some (rc_id c), cd_name = Some (rc_name c), cd_arguments = Some (stringify (pc_args (snd c)))\<rparr>)
        (enumerate 0 misses))\<rparr>)"

text \<open>External calls without a result are handed to the consumer, which ends the turn.\<close>

definition miss_stage ::
    "loop_config \<Rightarrow> turn_env \<Rightarrow> string \<Rightarrow> rejections \<Rightarrow> round_call list \<Rightarrow> round_call list \<Rightarrow> round_call list \<Rightarrow> loop_state \<Rightarrow> turn_result" where
  "miss_stage cfg te content rej batch skipped misses st =
     (let st1 =
        (if batch @ skipped = [] then st
         else
           (case fireInternalToolsAsync cfg (tn_batch te) (Some rej) (ls_clients st) content batch skipped (ls_pending st) (ls_cache st) of
              (sent, pending, cache) \<Rightarrow>
                (let st2 = st\<lparr>ls_pending := pending, ls_cache := cache, ls_dispatched := ls_dispatched st @ sent\<rparr>;
                     st3 = (if batch = [] then st2 else tell_count (ls_count st2 + length batch) st2)
                 in if budget_spent cfg st3 then emit [budget_chunk cfg st3] st3 else st3)));
          st4 = emit [surfaced misses] (emitProgressFallback cfg st1)
      in Ended (Finished True) (emit [finish_chunk ''tool_calls'' st4] st4))"

definition progress_note :: "round_call \<Rightarrow> loop_out" where
  "progress_note c = OutChunk ((chunk_of (newline @ newline @ ''[SmartAgent: Executing '' @ rc_name c @ ''...]'' @ newline))\<lparr>lc_ephemeral := True\<rparr>)"

definition batch_settled :: "loop_config \<Rightarrow> batch_acc \<Rightarrow> loop_state \<Rightarrow> loop_state" where
  "batch_settled cfg acc st =
     (let st1 = (if ba_count acc = ls_count st then st else tell_count (ba_count acc) st)
                  \<lparr>ls_tools := ba_tools acc, ls_avail := ba_avail acc\<rparr>
      in if budget_spent cfg st1 then emit [budget_chunk cfg st1] st1 else st1)"

text \<open>The calls in \<open>calls\<close> are those of the request: internal and unknown ones, in their order in the reply.\<close>

definition batch_stage ::
    "loop_config \<Rightarrow> turn_env \<Rightarrow> string \<Rightarrow> rejections \<Rightarrow> round_call list \<Rightarrow> round_call list \<Rightarrow> round_call list \<Rightarrow> round_call list
      \<Rightarrow> loop_state \<Rightarrow> turn_result" where
  "batch_stage cfg te content rej calls batch skipped unknown st =
     (let st1 = emit (map progress_note batch) st;
          run = executeToolBatch cfg (tn_batch te) (Some rej) (ls_clients st) batch (ls_tools st) (ls_count st) (ls_avail st) (ls_cache st);
          st2 = (emit (br_out run) st1)\<lparr>ls_cache := br_cache run, ls_dispatched := ls_dispatched st @ br_dispatched run\<rparr>
      in case br_outcome run of
           Inl e \<Rightarrow> Ended (LoopThrew e) st2
         | Inr (Escalated e n avail) \<Rightarrow>
             Ended (Finished False) ((if n = ls_count st then st2 else st2\<lparr>ls_counts := ls_counts st2 @ [n]\<rparr>)\<lparr>ls_avail := avail\<rparr>)
         | Inr (Settled acc) \<Rightarrow>
             Next (record_round
               (plain_round (round_request (or_null content) calls)
                  (ba_messages acc @ error_results unknown unknown_text
                    @ error_results skipped (\<lambda>_. budget_text (nullish (lp_maxToolCalls cfg) 0)))
                  (ba_errors acc @ map (\<lambda>_. True) (unknown @ skipped))) (batch_settled cfg acc st2)))"

definition batch_limit :: "loop_config \<Rightarrow> loop_state \<Rightarrow> round_call list \<Rightarrow> nat" where
  "batch_limit cfg st internal =
     (case lp_maxToolCalls cfg of None \<Rightarrow> length internal | Some m \<Rightarrow> nat (max 0 (m - int (ls_count st))))"

text \<open>Unknown calls are answered before an external call can continue or end the turn; results the consumer already
  sent are recorded with their calls.\<close>

definition resolve_unknown :: "string \<Rightarrow> round_call list \<Rightarrow> loop_state \<Rightarrow> loop_state" where
  "resolve_unknown content unknown st =
     (if unknown = [] then st else record_round (error_round content unknown unknown_text) st)"

definition resolve_hits :: "loop_config \<Rightarrow> round_call list \<Rightarrow> loop_state \<Rightarrow> loop_state" where
  "resolve_hits cfg hits st =
     (if hits = [] then st else record_round (plain_round (round_request None hits) (error_results hits (hit_text cfg)) []) st)"

definition resolve_rejected :: "string \<Rightarrow> rejections \<Rightarrow> round_call list \<Rightarrow> loop_state \<Rightarrow> loop_state" where
  "resolve_rejected content rej rejected st =
     (if rejected = [] then st else record_round (error_round content rejected (rejected_text rej)) st)"

definition internal_stage ::
    "loop_config \<Rightarrow> turn_env \<Rightarrow> string \<Rightarrow> rejections \<Rightarrow> round_call list \<Rightarrow> round_call list \<Rightarrow> round_call list
      \<Rightarrow> nat \<Rightarrow> loop_state \<Rightarrow> turn_result" where
  "internal_stage cfg te content rej calls internal unknown n st =
     batch_stage cfg te content rej (filter (\<lambda>c. c \<in> set internal \<or> c \<in> set unknown) calls)
       (take n internal) (drop n internal) unknown st"

definition execute_stage ::
    "loop_config \<Rightarrow> turn_env \<Rightarrow> string \<Rightarrow> rejections \<Rightarrow> round_call list \<Rightarrow> round_call list \<Rightarrow> round_call list \<Rightarrow> round_call list
      \<Rightarrow> loop_state \<Rightarrow> turn_result" where
  "execute_stage cfg te content rej calls internal external unknown st =
     (let n = batch_limit cfg st internal in
      if external = [] then internal_stage cfg te content rej calls internal unknown n st
      else
        (let st1 = resolve_unknown content unknown st;
             ext = with_ext_ids cfg external;
             misses = filter (\<lambda>c. \<not> external_hit cfg c) ext;
             st2 = resolve_hits cfg (filter (external_hit cfg) ext) st1
         in if misses \<noteq> [] then miss_stage cfg te content rej (take n internal) (drop n internal) misses st2
            else if internal = [] then Next st2
            else internal_stage cfg te content rej calls internal [] n st2))"

definition round_stage :: "loop_config \<Rightarrow> turn_env \<Rightarrow> string \<Rightarrow> parsed_call list \<Rightarrow> loop_state \<Rightarrow> turn_result" where
  "round_stage cfg te content toolCalls st =
     (let calls = enumerate 0 toolCalls in
      case guard_stage cfg te calls st of
        (rej, c, st1) \<Rightarrow>
          (let rejected = filter (\<lambda>x. map_of rej (fst x) \<noteq> None) (cl_external c);
               external = filter (\<lambda>x. map_of rej (fst x) = None) (cl_external c);
               st2 = resolve_rejected content rej rejected st1
           in if rejected \<noteq> [] \<and> external = [] \<and> cl_internal c = [] \<and> cl_blocked c = [] \<and> cl_unknown c = [] then Next st2
              else if cl_blocked c \<noteq> [] then Next (record_round (buildBlockedToolMessages content (cl_blocked c)) st2)
              else execute_stage cfg te content rej calls (cl_internal c) external (cl_unknown c) st2))"

subsection \<open>An iteration and the loop\<close>

definition reply_stage :: "loop_config \<Rightarrow> turn_env \<Rightarrow> loop_state \<Rightarrow> turn_result" where
  "reply_stage cfg te st =
     (let messages = toModelToolMessages (ls_messages st) (lp_trust cfg);
          st1 = st\<lparr>ls_requests := ls_requests st @ [(messages, ls_tools st)]\<rparr>
      in case tn_llm te messages (ls_tools st) of
           (chunks, failure) \<Rightarrow>
             (let acc = read_stream cfg chunks (ls_usage st1);
                  st2 = (emit (sa_out acc) st1)\<lparr>ls_usage := sa_usage acc\<rparr>
              in case failure of
                   ModelThrew e \<Rightarrow> Ended (LoopThrew e) st2
                 | ModelFailed message \<Rightarrow> Ended (Finished False) (emit [OutError message ''LLM_ERROR''] st2)
                 | ModelDone \<Rightarrow>
                     (let toolCalls = parsed_calls acc in
                      if sa_finish acc = Some ''tool_calls'' \<and> toolCalls \<noteq> [] then
                        round_stage cfg te (sa_content acc) toolCalls
                          (emit [end_out ''tool_calls''] (st2\<lparr>ls_progress := ls_progress st2 @ sa_content acc\<rparr>))
                      else answer_stage cfg te acc st2)))"

definition loop_turn :: "loop_config \<Rightarrow> turn_env \<Rightarrow> nat \<Rightarrow> loop_state \<Rightarrow> turn_result" where
  "loop_turn cfg te k st =
     (case head_stage cfg te k st of
        Ended e st1 \<Rightarrow> Ended e st1
      | Next st1 \<Rightarrow>
          (case tools_stage cfg te k st1 of
             Inl e \<Rightarrow> Ended (LoopThrew e) st1
           | Inr st2 \<Rightarrow>
               (case tn_finish2 te of
                  Some output \<Rightarrow> task_finished output st2
                | None \<Rightarrow> reply_stage cfg te st2)))"

lemma loop_turn_Next: "loop_turn cfg te k st = Next st' \<Longrightarrow> k < lp_maxIterations cfg"
  by (auto simp: loop_turn_def head_stage_def task_finished_def finalize_loop_def Let_def not_le
      split: turn_result.splits if_splits option.splits)

function tool_loop :: "loop_config \<Rightarrow> (nat \<Rightarrow> turn_env) \<Rightarrow> nat \<Rightarrow> loop_state \<Rightarrow> loop_end \<times> loop_state" where
  "tool_loop cfg env k st =
     (case loop_turn cfg (env k) k st of
        Ended e st1 \<Rightarrow> (e, st1)
      | Next st1 \<Rightarrow> tool_loop cfg env (k + 1) st1)"
  by pat_completeness auto
termination
  by (relation "measure (\<lambda>(cfg, env, k, st). lp_maxIterations cfg - k)")
    (auto dest: loop_turn_Next)

declare tool_loop.simps [simp del]

text \<open>What the handler reads from its context when it starts.\<close>

record loop_input =
  li_assembled :: "chat_message list"
  li_active :: "tool list"
  li_mcp :: "tool list"
  li_clients :: "(string \<times> tool_client) list"
  li_strategy :: strategy
  li_avail :: availability
  li_pending :: pending_results
  li_cache :: "tool_cache option"
  li_now :: rat

definition start_state :: "loop_config \<Rightarrow> loop_input \<Rightarrow> loop_state" where
  "start_state cfg li =
     (let prefix = injectToolPriority (li_assembled li) (lp_external cfg) in
      case injectPendingResults (lp_pendingTtl cfg) (lp_session cfg) (li_now li) (li_pending li) prefix of
        (withPending, pending1) \<Rightarrow>
          (let injected = drop (length prefix) withPending;
               strategy = (case injected of [] \<Rightarrow> li_strategy li | a # rs \<Rightarrow> strategy_record (plain_round a rs []) (li_strategy li))
           in reform \<lparr>ls_messages = [], ls_prefix = prefix, ls_strategy = strategy, ls_tail = [], ls_tools = li_active li,
                ls_mcp = li_mcp li, ls_clients = li_clients li, ls_count = 0,
                ls_usage = \<lparr>us_prompt = 0, us_completion = 0, us_total = 0\<rparr>, ls_progress = [], ls_avail = li_avail li,
                ls_pending = pending1, ls_cache = li_cache li, ls_out = [], ls_answer = None, ls_stopped = False,
                ls_counts = [], ls_requests = [], ls_dispatched = []\<rparr>))"

definition execute_tool_loop :: "loop_config \<Rightarrow> (nat \<Rightarrow> turn_env) \<Rightarrow> loop_input \<Rightarrow> loop_end \<times> loop_state" where
  "execute_tool_loop cfg env li = tool_loop cfg env 0 (start_state cfg li)"

end
