(* ===== verification/ToolLoopInv.thy ===== *)
theory ToolLoopInv
  imports ToolLoop
begin

text \<open>
  Invariants of the tool loop: transcripts stay paired, the budget of tool calls holds, and the outputs end as the
  request ends.  A stage is read as a rule: what holds of the next state, and what holds at the end.
\<close>

definition turn_sat :: "(loop_state \<Rightarrow> bool) \<Rightarrow> (loop_end \<Rightarrow> loop_state \<Rightarrow> bool) \<Rightarrow> turn_result \<Rightarrow> bool" where
  "turn_sat N E r = (case r of Next st \<Rightarrow> N st | Ended e st \<Rightarrow> E e st)"

lemma turn_sat_simps [simp]:
  "turn_sat N E (Next st) = N st" "turn_sat N E (Ended e st) = E e st"
  by (simp_all add: turn_sat_def)

lemma turn_sat_if [simp]: "turn_sat N E (if b then x else y) = (if b then turn_sat N E x else turn_sat N E y)"
  by simp

lemma tool_loop_rule:
  assumes "tool_loop cfg env k st = (e, st')" "I k st"
    and step: "\<And>k st. I k st \<Longrightarrow> turn_sat (I (k + 1)) Q (loop_turn cfg (env k) k st)"
  shows "Q e st'"
  using assms(1,2)
proof (induction "lp_maxIterations cfg - k" arbitrary: k st rule: less_induct)
  case less
  show ?case
  proof (cases "loop_turn cfg (env k) k st")
    case (Ended e1 st1)
    with less.prems step [OF less.prems(2)] show ?thesis by (simp add: tool_loop.simps [of _ _ k])
  next
    case (Next st1)
    with loop_turn_Next [OF Next] less.prems step [OF less.prems(2)] less.hyps [of "k + 1" st1] show ?thesis
      by (simp add: tool_loop.simps [of _ _ k])
  qed
qed

subsection \<open>Paired transcripts\<close>

text \<open>The assembled context is an input: it holds what the client sent, and it need not be paired.  What the loop adds
  behind it is.  Only the shape of the messages counts, since trust marks and the tool priority rewrite contents.\<close>

definition adds_paired :: "chat_message list \<Rightarrow> chat_message list \<Rightarrow> bool" where
  "adds_paired given ms \<longleftrightarrow> (\<exists>added. paired added \<and> map shape ms = map shape given @ map shape added)"

lemma adds_paired_shape: "adds_paired given ms \<Longrightarrow> map shape ms' = map shape ms \<Longrightarrow> adds_paired given ms'"
  by (simp add: adds_paired_def)

lemma adds_paired_append:
  assumes "adds_paired given ms" "paired ns"
  shows "adds_paired given (ms @ ns)"
proof -
  obtain added where "paired added" "map shape ms = map shape given @ map shape added"
    using assms(1) by (auto simp: adds_paired_def)
  then show ?thesis
    using assms(2) unfolding adds_paired_def by (intro exI [of _ "added @ ns"]) (simp add: paired_append)
qed

lemma adds_paired_self: "map shape ms = map shape given \<Longrightarrow> adds_paired given ms"
  unfolding adds_paired_def by (intro exI [of _ "[]"]) simp

lemma adds_paired_paired:
  assumes "adds_paired given ms" "paired given"
  shows "paired ms"
proof -
  obtain added where "paired added" "map shape ms = map shape (given @ added)"
    using assms(1) by (auto simp: adds_paired_def)
  with assms(2) show ?thesis using paired_shape [OF paired_append] by blast
qed

lemma form_adds:
  assumes "library_context.kept_ok s" "adds_paired given p"
  shows "adds_paired given (strategy_form p s)"
proof -
  obtain gs where gs: "strategy_form p s = p @ concat gs"
      "\<forall>g \<in> set gs. g \<in> set (strategy_kept s) \<or> (\<exists>c. g = [text_message RUser (Some c)])"
    using library_context.form_shows [of p s] by blast
  have "paired [text_message RUser (Some c)]" for c by (rule paired_single) (simp_all add: calls_of_def)
  with gs(2) assms(1) have "\<forall>g \<in> set gs. paired g" unfolding library_context.kept_ok_def by blast
  then show ?thesis unfolding gs(1) by (intro adds_paired_append assms(2) paired_concat)
qed

definition loop_ok :: "chat_message list \<Rightarrow> loop_state \<Rightarrow> bool" where
  "loop_ok given st \<longleftrightarrow> library_context.kept_ok (ls_strategy st) \<and> adds_paired given (ls_prefix st) \<and> paired (ls_tail st)
     \<and> adds_paired given (ls_messages st) \<and> (\<forall>(ms, ts) \<in> set (ls_requests st). adds_paired given ms)"

lemma loop_ok_cong:
  "loop_ok given st \<Longrightarrow> ls_strategy st' = ls_strategy st \<Longrightarrow> ls_prefix st' = ls_prefix st \<Longrightarrow> ls_tail st' = ls_tail st
    \<Longrightarrow> ls_messages st' = ls_messages st \<Longrightarrow> ls_requests st' = ls_requests st \<Longrightarrow> loop_ok given st'"
  by (simp add: loop_ok_def)

lemma emit_frame [simp]:
  "ls_messages (emit os st) = ls_messages st" "ls_prefix (emit os st) = ls_prefix st"
  "ls_strategy (emit os st) = ls_strategy st" "ls_tail (emit os st) = ls_tail st"
  "ls_tools (emit os st) = ls_tools st" "ls_mcp (emit os st) = ls_mcp st"
  "ls_clients (emit os st) = ls_clients st" "ls_count (emit os st) = ls_count st"
  "ls_usage (emit os st) = ls_usage st" "ls_progress (emit os st) = ls_progress st"
  "ls_avail (emit os st) = ls_avail st" "ls_pending (emit os st) = ls_pending st"
  "ls_cache (emit os st) = ls_cache st" "ls_out (emit os st) = ls_out st @ os"
  "ls_answer (emit os st) = ls_answer st" "ls_stopped (emit os st) = ls_stopped st"
  "ls_counts (emit os st) = ls_counts st" "ls_requests (emit os st) = ls_requests st"
  "ls_dispatched (emit os st) = ls_dispatched st"
  by (simp_all add: emit_def)

lemma reform_frame [simp]:
  "ls_prefix (reform st) = ls_prefix st" "ls_strategy (reform st) = ls_strategy st" "ls_tail (reform st) = ls_tail st"
  "ls_count (reform st) = ls_count st" "ls_out (reform st) = ls_out st" "ls_requests (reform st) = ls_requests st"
  "ls_dispatched (reform st) = ls_dispatched st" "ls_clients (reform st) = ls_clients st"
  by (simp_all add: reform_def)

lemma record_round_frame [simp]:
  "ls_count (record_round r st) = ls_count st" "ls_out (record_round r st) = ls_out st"
  "ls_requests (record_round r st) = ls_requests st" "ls_dispatched (record_round r st) = ls_dispatched st"
  "ls_clients (record_round r st) = ls_clients st"
  by (simp_all add: record_round_def)

lemma tell_count_frame [simp]:
  "ls_messages (tell_count n st) = ls_messages st" "ls_prefix (tell_count n st) = ls_prefix st"
  "ls_strategy (tell_count n st) = ls_strategy st" "ls_tail (tell_count n st) = ls_tail st"
  "ls_requests (tell_count n st) = ls_requests st" "ls_out (tell_count n st) = ls_out st"
  "ls_dispatched (tell_count n st) = ls_dispatched st" "ls_count (tell_count n st) = n"
  by (simp_all add: tell_count_def)

lemma emitProgressFallback_frame [simp]:
  "ls_requests (emitProgressFallback cfg st) = ls_requests st" "ls_dispatched (emitProgressFallback cfg st) = ls_dispatched st"
  "ls_count (emitProgressFallback cfg st) = ls_count st"
  by (simp_all add: emitProgressFallback_def)

lemma reform_ok: "library_context.kept_ok (ls_strategy st) \<Longrightarrow> adds_paired given (ls_prefix st) \<Longrightarrow> paired (ls_tail st)
    \<Longrightarrow> (\<forall>(ms, ts) \<in> set (ls_requests st). adds_paired given ms) \<Longrightarrow> loop_ok given (reform st)"
  by (simp add: loop_ok_def) (simp add: reform_def adds_paired_append form_adds)

lemma record_round_ok: "loop_ok given st \<Longrightarrow> paired (round_messages r) \<Longrightarrow> loop_ok given (record_round r st)"
  unfolding record_round_def by (rule reform_ok) (auto simp: loop_ok_def library_context.kept_ok_record)

lemma calls_of_request [simp]: "calls_of (round_request content calls) = map (fn_call_of \<circ> snd) calls"
  by (simp add: round_request_def calls_message_def calls_of_def)

lemma round_request_role [simp]: "cm_role (round_request content calls) = RAssistant"
  by (simp add: round_request_def calls_message_def)

lemma fc_id_fn_call [simp]: "fc_id (fn_call_of c) = pc_id c"
  by (simp add: fn_call_of_def)

lemma error_results_simps [simp]:
  "map cm_tool_call_id (error_results calls text) = map (Some \<circ> rc_id) calls"
  "r \<in> set (error_results calls text) \<Longrightarrow> cm_role r = RTool"
  by (auto simp: error_results_def)

text \<open>The rule for a round: its results answer its calls, in any order.\<close>

lemma paired_request:
  assumes "calls \<noteq> []" "\<forall>r \<in> set rs. cm_role r = RTool"
    and "mset (map cm_tool_call_id rs) = mset (map (Some \<circ> rc_id) calls)"
  shows "paired (round_messages (plain_round (round_request content calls) rs errs))"
proof -
  have "map (Some \<circ> fc_id) (calls_of (round_request content calls)) = map (Some \<circ> rc_id) calls"
    by (simp add: comp_def)
  moreover have "paired (round_request content calls # rs)"
    by (rule paired_roundI) (use assms calculation in \<open>simp_all del: mset_map calls_of_request\<close>, use assms(1) in simp)
  ultimately show ?thesis by (simp add: round_messages_def)
qed

lemma paired_error_round: "calls \<noteq> [] \<Longrightarrow> paired (round_messages (error_round content calls text))"
  by (simp add: error_round_def paired_request del: mset_map)

lemma model_messages_shape: "map shape (model_messages ns t ms) = map shape ms"
  by (induction ns t ms rule: model_messages.induct) (simp_all add: Let_def shape_def calls_of_def)

lemma toModelToolMessages_adds: "adds_paired given ms \<Longrightarrow> adds_paired given (toModelToolMessages ms t)"
  by (simp add: toModelToolMessages_def adds_paired_shape [OF _ model_messages_shape])

lemma injectToolPriority_shape: "map shape (injectToolPriority ms ts) = map shape ms"
proof (cases "findIndex (\<lambda>m. cm_role m = RSystem) ms")
  case (Some i)
  then have "i < length ms" using findIndex_Some [OF Some] by simp
  then show ?thesis
    by (auto simp: injectToolPriority_def Some map_update shape_def calls_of_def list_update_same_conv intro!: nth_equalityI
        simp: nth_list_update)
qed (simp add: injectToolPriority_def)

subsection \<open>Pairing is kept\<close>

abbreviation requests_paired :: "chat_message list \<Rightarrow> loop_state \<Rightarrow> bool" where
  "requests_paired given st \<equiv> \<forall>(ms, ts) \<in> set (ls_requests st). adds_paired given ms"

abbreviation keeps_pairs :: "chat_message list \<Rightarrow> turn_result \<Rightarrow> bool" where
  "keeps_pairs given \<equiv> turn_sat (loop_ok given) (\<lambda>e. requests_paired given)"

lemma loop_ok_requests: "loop_ok given st \<Longrightarrow> requests_paired given st"
  by (simp add: loop_ok_def)

lemma task_finished_pairs: "loop_ok given st \<Longrightarrow> keeps_pairs given (task_finished output st)"
  by (simp add: task_finished_def finalize_loop_def Let_def loop_ok_requests)

lemma head_pairs: "loop_ok given st \<Longrightarrow> keeps_pairs given (head_stage cfg te k st)"
  by (auto simp: head_stage_def Let_def task_finished_pairs loop_ok_requests split: option.split)

lemma offer_tools_frame:
  "ls_strategy (offer_tools cfg te st) = ls_strategy st" "ls_prefix (offer_tools cfg te st) = ls_prefix st"
  "ls_tail (offer_tools cfg te st) = ls_tail st" "ls_messages (offer_tools cfg te st) = ls_messages st"
  "ls_requests (offer_tools cfg te st) = ls_requests st" "ls_dispatched (offer_tools cfg te st) = ls_dispatched st"
  "ls_count (offer_tools cfg te st) = ls_count st"
  "\<exists>os. ls_out (offer_tools cfg te st) = ls_out st @ os \<and> (os = [] \<or> (\<exists>st1. os = [budget_chunk cfg st1]))"
  by (auto simp: offer_tools_def Let_def split: prod.split)

lemma tools_stage_frame:
  assumes "tools_stage cfg te k st = Inr st'"
  shows "ls_strategy st' = ls_strategy st" "ls_prefix st' = ls_prefix st" "ls_tail st' = ls_tail st"
    "ls_messages st' = ls_messages st" "ls_requests st' = ls_requests st" "ls_dispatched st' = ls_dispatched st"
    "ls_count st' = ls_count st"
    "\<exists>os. ls_out st' = ls_out st @ os \<and> (os = [] \<or> (\<exists>st1. os = [budget_chunk cfg st1]))"
proof -
  obtain st1 where st1: "(if k > 0 \<and> lp_refresh cfg then refresh_tools cfg te st else Inr st) = Inr st1"
    using assms by (auto simp: tools_stage_def split: sum.splits)
  obtain st2 where st2: "(if k > 0 \<and> lp_reselect cfg then reselect_tools cfg te (ls_tools st) st1 else Inr st1) = Inr st2"
      "st' = offer_tools cfg te st2"
    using assms by (auto simp: tools_stage_def st1 split: sum.splits)
  have 1: "ls_strategy st1 = ls_strategy st" "ls_prefix st1 = ls_prefix st" "ls_tail st1 = ls_tail st"
      "ls_messages st1 = ls_messages st" "ls_requests st1 = ls_requests st" "ls_dispatched st1 = ls_dispatched st"
      "ls_count st1 = ls_count st" "ls_out st1 = ls_out st"
    using st1 by (auto simp: refresh_tools_def split: if_splits sum.splits)
  have 2: "ls_strategy st2 = ls_strategy st1" "ls_prefix st2 = ls_prefix st1" "ls_tail st2 = ls_tail st1"
      "ls_messages st2 = ls_messages st1" "ls_requests st2 = ls_requests st1" "ls_dispatched st2 = ls_dispatched st1"
      "ls_count st2 = ls_count st1" "ls_out st2 = ls_out st1"
    using st2(1) by (auto simp: reselect_tools_def Let_def split: if_splits sum.splits option.splits)
  show "ls_strategy st' = ls_strategy st" "ls_prefix st' = ls_prefix st" "ls_tail st' = ls_tail st"
    "ls_messages st' = ls_messages st" "ls_requests st' = ls_requests st" "ls_dispatched st' = ls_dispatched st"
    "ls_count st' = ls_count st"
    by (simp_all add: st2(2) offer_tools_frame 1 2)
  show "\<exists>os. ls_out st' = ls_out st @ os \<and> (os = [] \<or> (\<exists>st1. os = [budget_chunk cfg st1]))"
    using offer_tools_frame(8) [of cfg te st2] by (simp add: st2(2) 1 2)
qed

lemma answer_pairs: "loop_ok given st \<Longrightarrow> keeps_pairs given (answer_stage cfg te acc st)"
proof -
  assume ok: "loop_ok given st"
  have tail: "paired (reprompt_messages content c)" for content c
    unfolding reprompt_messages_def by (intro paired_plain) (simp_all add: calls_of_def)
  have "loop_ok given (reform (emit os st\<lparr>ls_tail := ls_tail st @ reprompt_messages content c\<rparr>))" for os content c
    using ok tail by (intro reform_ok) (simp_all add: loop_ok_def paired_append)
  then show ?thesis
    using ok by (auto simp: answer_stage_def runOutputValidationReprompt_def finalize_loop_def Let_def loop_ok_requests
        split: sum.split option.split)
qed

lemma miss_pairs: "loop_ok given st \<Longrightarrow> keeps_pairs given (miss_stage cfg te content rej batch skipped misses st)"
  by (simp add: miss_stage_def Let_def loop_ok_requests split: prod.split)

text \<open>Every call of a batch whose client is known yields a result of its own.\<close>

lemma start_calls_fst:
  "start_calls cfg rej clients now cs cache = (ss, cache') \<Longrightarrow> map fst ss = cs"
  by (induction cfg rej clients now cs cache arbitrary: ss cache' rule: start_calls.induct) (auto split: prod.splits)

lemma start_call_client:
  "start_call cfg rej clients now c cache = (s, cache') \<Longrightarrow> rc_name c \<in> set (map fst clients) \<Longrightarrow> s \<noteq> NoClient"
  by (auto simp: start_call_def Let_def map_of_eq_None_iff split: option.splits if_splits prod.splits)

lemma start_calls_client:
  "start_calls cfg rej clients now cs cache = (ss, cache') \<Longrightarrow> \<forall>c \<in> set cs. rc_name c \<in> set (map fst clients)
    \<Longrightarrow> (c, s) \<in> set ss \<Longrightarrow> s \<noteq> NoClient"
proof (induction cfg rej clients now cs cache arbitrary: ss cache' rule: start_calls.induct)
  case (2 cfg rej clients now x xs cache)
  obtain s1 cache1 where s1: "start_call cfg rej clients now x cache = (s1, cache1)" by (metis surj_pair)
  obtain ss2 cache2 where s2: "start_calls cfg rej clients now xs cache1 = (ss2, cache2)" by (metis surj_pair)
  have "ss = (x, s1) # ss2" using "2.prems"(1) by (simp add: s1 s2)
  moreover have "s1 \<noteq> NoClient" using start_call_client [OF s1] "2.prems"(2) by simp
  moreover have "(c, s) \<in> set ss2 \<Longrightarrow> s \<noteq> NoClient" using "2.IH" [OF s1 [symmetric] s2] "2.prems"(2) by simp
  ultimately show ?case using "2.prems"(3) by auto
qed simp

lemma collect_map_Inr:
  "collect (map f xs) = Inr ys \<Longrightarrow> length ys = length xs \<and> (\<forall>i < length xs. f (xs ! i) = Inr (ys ! i))"
proof (induction xs arbitrary: ys)
  case (Cons x xs)
  then obtain y zs where "f x = Inr y" "collect (map f xs) = Inr zs" "ys = y # zs"
    by (cases "f x") (auto split: sum.splits)
  with Cons.IH show ?case by (auto simp: nth_Cons split: nat.split)
qed simp

lemma finish_call_Inr:
  "finish_call be cs = Inr r \<Longrightarrow> er_call r = fst cs \<and> (snd cs \<noteq> NoClient \<longrightarrow> er_res r \<noteq> None)"
  by (auto simp: finish_call_def split: started.splits tool_reply.splits)

lemma settle_results_spec:
  assumes "settle_results cfg now n rs acc = Settled acc'" "\<forall>r \<in> set rs. er_res r \<noteq> None"
  shows "map cm_tool_call_id (ba_messages acc') = map cm_tool_call_id (ba_messages acc) @ map (Some \<circ> rc_id \<circ> er_call) rs
     \<and> ba_count acc' = ba_count acc + length rs
     \<and> ((\<forall>m \<in> set (ba_messages acc). cm_role m = RTool) \<longrightarrow> (\<forall>m \<in> set (ba_messages acc'). cm_role m = RTool))"
  using assms
proof (induction rs arbitrary: acc)
  case (Cons r rs)
  then obtain res where res: "er_res r = Some res" by auto
  obtain t where t: "classifyToolResult (lp_classifier cfg) res = Inr t"
    using Cons.prems(1) by (auto simp: res split: sum.splits)
  obtain acc1 where a: "settle_results cfg now n rs acc1 = Settled acc'"
      "ba_messages acc1 = ba_messages acc @ [tool_result (rc_id (er_call r)) (er_text r)]" "ba_count acc1 = ba_count acc + 1"
    using Cons.prems(1) that by (simp add: res t Let_def split: if_splits)
  show ?case using Cons.IH [OF a(1)] Cons.prems(2) by (auto simp: a(2,3))
qed simp

lemma executeToolBatch_settled:
  assumes "br_outcome (executeToolBatch cfg be rej clients batch tools n avail cache) = Inr (Settled acc)"
    and "\<forall>c \<in> set batch. rc_name c \<in> set (map fst clients)"
  shows "map cm_tool_call_id (ba_messages acc) = map (Some \<circ> rc_id) batch"
    "ba_count acc = n + length batch" "\<forall>m \<in> set (ba_messages acc). cm_role m = RTool"
proof -
  obtain ss cache1 where ss: "start_calls cfg rej clients (be_now be) batch cache = (ss, cache1)" by (metis surj_pair)
  obtain results where r: "collect (map (finish_call be) ss) = Inr results"
      "settle_results cfg (be_now be) (n + length (filter (\<lambda>r. er_res r \<noteq> None) results)) results
         \<lparr>ba_tools = tools, ba_count = n, ba_messages = [], ba_errors = [], ba_avail = avail\<rparr> = Settled acc"
    using assms(1) by (auto simp: executeToolBatch_def ss Let_def split: sum.splits)
  note C = collect_map_Inr [OF r(1)]
  have each: "er_call (results ! i) = batch ! i" "er_res (results ! i) \<noteq> None" if "i < length ss" for i
  proof -
    have fin: "finish_call be (ss ! i) = Inr (results ! i)" using C that by simp
    have "snd (ss ! i) \<noteq> NoClient"
      using start_calls_client [OF ss assms(2), of "fst (ss ! i)" "snd (ss ! i)"] that by simp
    then show "er_res (results ! i) \<noteq> None" using finish_call_Inr [OF fin] by simp
    show "er_call (results ! i) = batch ! i"
      using finish_call_Inr [OF fin] start_calls_fst [OF ss] that by (metis nth_map)
  qed
  have len: "length results = length batch" "length ss = length batch"
    using C start_calls_fst [OF ss] by (auto dest: map_eq_imp_length_eq)
  have "map er_call results = batch" using each len by (intro nth_equalityI) simp_all
  moreover have "\<forall>r \<in> set results. er_res r \<noteq> None" using each len by (metis in_set_conv_nth)
  ultimately show "map cm_tool_call_id (ba_messages acc) = map (Some \<circ> rc_id) batch"
      "ba_count acc = n + length batch" "\<forall>m \<in> set (ba_messages acc). cm_role m = RTool"
    using settle_results_spec [OF r(2)] len by (auto simp flip: map_map)
qed

lemma batch_settled_frame:
  "ls_messages (batch_settled cfg acc st) = ls_messages st" "ls_prefix (batch_settled cfg acc st) = ls_prefix st"
  "ls_strategy (batch_settled cfg acc st) = ls_strategy st" "ls_tail (batch_settled cfg acc st) = ls_tail st"
  "ls_requests (batch_settled cfg acc st) = ls_requests st" "ls_dispatched (batch_settled cfg acc st) = ls_dispatched st"
  "ls_count (batch_settled cfg acc st) = ba_count acc"
  "\<exists>os. ls_out (batch_settled cfg acc st) = ls_out st @ os \<and> (os = [] \<or> (\<exists>st1. os = [budget_chunk cfg st1]))"
  by (auto simp: batch_settled_def Let_def)

lemma batch_pairs:
  assumes "loop_ok given st" "calls \<noteq> []" "\<forall>c \<in> set batch. rc_name c \<in> set (map fst (ls_clients st))"
    and "mset calls = mset batch + mset unknown + mset skipped"
  shows "keeps_pairs given (batch_stage cfg te content rej calls batch skipped unknown st)"
proof -
  let ?run = "executeToolBatch cfg (tn_batch te) (Some rej) (ls_clients st) batch (ls_tools st) (ls_count st) (ls_avail st) (ls_cache st)"
  show ?thesis
  proof (cases "br_outcome ?run")
    case (Inl e)
    then show ?thesis using assms(1) by (simp add: batch_stage_def Let_def loop_ok_requests)
  next
    case (Inr oc)
    show ?thesis
    proof (cases oc)
      case (Escalated e n avail)
      then show ?thesis using Inr assms(1) by (simp add: batch_stage_def Let_def loop_ok_requests)
    next
      case (Settled acc)
      note S = executeToolBatch_settled [OF Inr [unfolded Settled] assms(3)]
      let ?rs = "ba_messages acc @ error_results unknown unknown_text
          @ error_results skipped (\<lambda>_. budget_text (nullish (lp_maxToolCalls cfg) 0))"
      have "mset (map cm_tool_call_id ?rs) = mset (map (Some \<circ> rc_id) calls)"
        by (simp add: S(1) del: mset_map) (simp add: assms(4) comp_def)
      then have "paired (round_messages (plain_round (round_request (or_null content) calls) ?rs errs))" for errs
        using S(3) assms(2) by (intro paired_request) auto
      moreover have "loop_ok given (batch_settled cfg acc st1)" if "loop_ok given st1" for st1
        by (rule loop_ok_cong [OF that]) (simp_all add: batch_settled_frame)
      moreover have "loop_ok given ((emit (br_out ?run) (emit (map progress_note batch) st))
          \<lparr>ls_cache := br_cache ?run, ls_dispatched := ls_dispatched st @ br_dispatched ?run\<rparr>)"
        by (rule loop_ok_cong [OF assms(1)]) simp_all
      ultimately show ?thesis
        using Inr Settled by (simp add: batch_stage_def Let_def record_round_ok)
    qed
  qed
qed

lemma with_ext_ids_Nil [simp]: "with_ext_ids cfg calls = [] \<longleftrightarrow> calls = []"
  by (simp add: with_ext_ids_def)

lemma resolve_pairs:
  assumes "loop_ok given st"
  shows "loop_ok given (resolve_unknown content unknown st)" "loop_ok given (resolve_rejected content rej rejected st)"
    "loop_ok given (resolve_hits cfg hits st)"
proof -
  show "loop_ok given (resolve_unknown content unknown st)" "loop_ok given (resolve_rejected content rej rejected st)"
    using assms by (auto simp: resolve_unknown_def resolve_rejected_def intro: record_round_ok paired_error_round)
  have "paired (round_messages (plain_round (round_request None hits) (error_results hits (hit_text cfg)) []))" if "hits \<noteq> []"
    using that by (intro paired_request) (simp_all del: mset_map)
  with assms show "loop_ok given (resolve_hits cfg hits st)" by (auto simp: resolve_hits_def intro: record_round_ok)
qed

lemma resolve_frame [simp]:
  "ls_clients (resolve_unknown content unknown st) = ls_clients st" "ls_clients (resolve_hits cfg hits st) = ls_clients st"
  "ls_clients (resolve_rejected content rej rejected st) = ls_clients st"
  "ls_count (resolve_unknown content unknown st) = ls_count st" "ls_count (resolve_hits cfg hits st) = ls_count st"
  "ls_count (resolve_rejected content rej rejected st) = ls_count st"
  "ls_out (resolve_unknown content unknown st) = ls_out st" "ls_out (resolve_hits cfg hits st) = ls_out st"
  "ls_out (resolve_rejected content rej rejected st) = ls_out st"
  "ls_requests (resolve_unknown content unknown st) = ls_requests st" "ls_requests (resolve_hits cfg hits st) = ls_requests st"
  "ls_requests (resolve_rejected content rej rejected st) = ls_requests st"
  "ls_dispatched (resolve_unknown content unknown st) = ls_dispatched st"
  "ls_dispatched (resolve_hits cfg hits st) = ls_dispatched st"
  "ls_dispatched (resolve_rejected content rej rejected st) = ls_dispatched st"
  by (simp_all add: resolve_unknown_def resolve_hits_def resolve_rejected_def)

lemma internal_pairs:
  assumes ok: "loop_ok given st" and calls: "distinct calls" "internal = filter P calls" "unknown = filter Q calls"
    and apart: "\<And>c. \<not> (P c \<and> Q c)" and known: "\<And>c. P c \<Longrightarrow> rc_name c \<in> set (map fst (ls_clients st))"
    and some: "internal \<noteq> [] \<or> unknown \<noteq> []"
  shows "keeps_pairs given (internal_stage cfg te content rej calls internal unknown n st)"
  unfolding internal_stage_def
proof (rule batch_pairs [OF ok])
  have f: "filter (\<lambda>c. c \<in> set internal \<or> c \<in> set unknown) calls = filter (\<lambda>c. P c \<or> Q c) calls"
    unfolding calls(2,3) by (rule filter_cong) auto
  have "mset (filter (\<lambda>c. P c \<or> Q c) calls) = mset (filter P calls) + mset (filter Q calls)"
    using apart by (induction calls) auto
  then show "mset (filter (\<lambda>c. c \<in> set internal \<or> c \<in> set unknown) calls)
      = mset (take n internal) + mset unknown + mset (drop n internal)"
    unfolding f by (metis calls(2,3) append_take_drop_id mset_append add.assoc add.commute)
  show "filter (\<lambda>c. c \<in> set internal \<or> c \<in> set unknown) calls \<noteq> []"
    using some unfolding f calls(2,3) by (auto simp: filter_empty_conv)
  show "\<forall>c \<in> set (take n internal). rc_name c \<in> set (map fst (ls_clients st))"
    using known calls(2) by (auto dest!: in_set_takeD)
qed

lemma execute_pairs:
  assumes ok: "loop_ok given st" and calls: "distinct calls" "internal = filter P calls" "unknown = filter Q calls"
    and apart: "\<And>c. \<not> (P c \<and> Q c)" and known: "\<And>c. P c \<Longrightarrow> rc_name c \<in> set (map fst (ls_clients st))"
    and some: "internal \<noteq> [] \<or> unknown \<noteq> [] \<or> external \<noteq> []"
  shows "keeps_pairs given (execute_stage cfg te content rej calls internal external unknown st)"
proof (cases "external = []")
  case True
  then show ?thesis
    using some by (simp add: execute_stage_def Let_def internal_pairs [OF ok calls apart known])
next
  case False
  let ?st = "resolve_hits cfg (filter (external_hit cfg) (with_ext_ids cfg external)) (resolve_unknown content unknown st)"
  have ok2: "loop_ok given ?st" by (intro resolve_pairs ok)
  have "keeps_pairs given (internal_stage cfg te content rej calls internal [] n ?st)" if "internal \<noteq> []" for n
    by (rule internal_pairs [OF ok2 calls(1,2), where Q = "\<lambda>c. False"]) (use known that in simp_all)
  then show ?thesis
    using False miss_pairs [OF ok2] ok2 by (simp add: execute_stage_def Let_def)
qed

lemma guard_stage_cases:
  assumes "guard_stage cfg te calls st = (rej, c, st')"
  obtains blocked where "c = classifyToolCalls calls (map fst (ls_clients st)) (map tl_name (lp_external cfg)) blocked"
    "st' = st\<lparr>ls_avail := ls_avail st'\<rparr>"
  using assms that by (auto simp: guard_stage_def Let_def split: prod.splits)

lemma round_pairs:
  assumes "loop_ok given st" "toolCalls \<noteq> []"
  shows "keeps_pairs given (round_stage cfg te content toolCalls st)"
proof -
  let ?calls = "enumerate 0 toolCalls"
  obtain rej c st1 where g: "guard_stage cfg te ?calls st = (rej, c, st1)" by (metis surj_pair)
  obtain blocked where c: "c = classifyToolCalls ?calls (map fst (ls_clients st)) (map tl_name (lp_external cfg)) blocked"
      and st1: "st1 = st\<lparr>ls_avail := ls_avail st1\<rparr>"
    using guard_stage_cases [OF g] by blast
  let ?external = "filter (\<lambda>x. map_of rej (fst x) = None) (cl_external c)"
  let ?st2 = "resolve_rejected content rej (filter (\<lambda>x. map_of rej (fst x) \<noteq> None) (cl_external c)) st1"
  have ok1: "loop_ok given st1" by (rule loop_ok_cong [OF assms(1)]) (subst st1, simp)+
  then have ok2: "loop_ok given ?st2" by (rule resolve_pairs)
  have blocked_round: "loop_ok given (record_round (buildBlockedToolMessages content (cl_blocked c)) ?st2)" if "cl_blocked c \<noteq> []"
    using that unfolding buildBlockedToolMessages_def by (intro record_round_ok [OF ok2] paired_request) (simp_all del: mset_map)
  have exec: "keeps_pairs given (execute_stage cfg te content rej ?calls (cl_internal c) ?external (cl_unknown c) ?st2)"
    if "cl_internal c \<noteq> [] \<or> cl_unknown c \<noteq> [] \<or> ?external \<noteq> []"
  proof (rule execute_pairs [OF ok2])
    show "cl_internal c = filter (\<lambda>x. rc_name x \<in> set (map fst (ls_clients st))) ?calls"
      by (simp add: c classifyToolCalls_def)
    show "cl_unknown c = filter (\<lambda>x. rc_name x \<notin> set blocked \<and> rc_name x \<notin> set (map fst (ls_clients st))
        \<and> rc_name x \<notin> set (map tl_name (lp_external cfg))) ?calls"
      by (simp add: c classifyToolCalls_def)
    have "ls_clients st1 = ls_clients st" by (subst st1) simp
    then show "rc_name x \<in> set (map fst (ls_clients ?st2))" if "rc_name x \<in> set (map fst (ls_clients st))" for x
      using that by simp
  qed (use that in auto)
  obtain x where x: "x \<in> set ?calls" using assms(2) by (cases toolCalls) auto
  then have "x \<in> set (cl_internal c) \<or> x \<in> set (cl_unknown c) \<or> x \<in> set (cl_blocked c) \<or> x \<in> set (cl_external c)"
    by (auto simp: c classifyToolCalls_def)
  then have some: "cl_internal c \<noteq> [] \<or> cl_unknown c \<noteq> [] \<or> cl_blocked c \<noteq> [] \<or> ?external \<noteq> []
      \<or> filter (\<lambda>x. map_of rej (fst x) \<noteq> None) (cl_external c) \<noteq> []"
    by (cases "map_of rej (fst x) = None") (auto simp: filter_empty_conv)
  show ?thesis
    using ok2 blocked_round exec some by (auto simp: round_stage_def Let_def g)
qed

lemma reply_pairs:
  assumes "loop_ok given st"
  shows "keeps_pairs given (reply_stage cfg te st)"
proof -
  let ?ms = "toModelToolMessages (ls_messages st) (lp_trust cfg)"
  let ?st1 = "st\<lparr>ls_requests := ls_requests st @ [(?ms, ls_tools st)]\<rparr>"
  obtain chunks failure where llm: "tn_llm te ?ms (ls_tools st) = (chunks, failure)" by (metis surj_pair)
  let ?acc = "read_stream cfg chunks (ls_usage ?st1)"
  let ?st2 = "(emit (sa_out ?acc) ?st1)\<lparr>ls_usage := sa_usage ?acc\<rparr>"
  have "adds_paired given ?ms" using assms by (simp add: loop_ok_def toModelToolMessages_adds)
  with assms have ok2: "loop_ok given ?st2" by (simp add: loop_ok_def)
  have ok3: "loop_ok given (emit [end_out ''tool_calls''] (?st2\<lparr>ls_progress := ls_progress ?st2 @ sa_content ?acc\<rparr>))"
    by (rule loop_ok_cong [OF ok2]) simp_all
  have "reply_stage cfg te st = (case failure of
       ModelThrew e \<Rightarrow> Ended (LoopThrew e) ?st2
     | ModelFailed message \<Rightarrow> Ended (Finished False) (emit [OutError message ''LLM_ERROR''] ?st2)
     | ModelDone \<Rightarrow> if sa_finish ?acc = Some ''tool_calls'' \<and> parsed_calls ?acc \<noteq> [] then
           round_stage cfg te (sa_content ?acc) (parsed_calls ?acc)
             (emit [end_out ''tool_calls''] (?st2\<lparr>ls_progress := ls_progress ?st2 @ sa_content ?acc\<rparr>))
         else answer_stage cfg te ?acc ?st2)"
    by (simp only: reply_stage_def Let_def llm prod.case)
  then show ?thesis
    using loop_ok_requests [OF ok2] round_pairs [OF ok3] answer_pairs [OF ok2]
    by (simp split: model_end.split)
qed

lemma turn_pairs:
  assumes "loop_ok given st"
  shows "keeps_pairs given (loop_turn cfg te k st)"
proof (cases "head_stage cfg te k st")
  case (Ended e st1)
  then show ?thesis using head_pairs [OF assms, of cfg te k] by (simp add: loop_turn_def)
next
  case (Next st1)
  then have ok1: "loop_ok given st1" using head_pairs [OF assms, of cfg te k] by simp
  show ?thesis
  proof (cases "tools_stage cfg te k st1")
    case (Inl e)
    then show ?thesis using Next loop_ok_requests [OF ok1] by (simp add: loop_turn_def)
  next
    case (Inr st2)
    have "loop_ok given st2" by (rule loop_ok_cong [OF ok1]) (rule tools_stage_frame [OF Inr])+
    then show ?thesis
      using Next Inr by (simp add: loop_turn_def reply_pairs task_finished_pairs split: option.split)
  qed
qed

end
