(* ===== verification/ToolLoopProps.thy ===== *)
theory ToolLoopProps
  imports ToolLoopInv
begin

text \<open>
  The properties of the tool loop: every request it sends is a paired transcript, also across requests; it ends with
  exactly one terminal output after a bounded number of requests; and it never runs more tools than its budget.
\<close>

subsection \<open>Budget, outputs and pending results\<close>

fun plain_out :: "loop_out \<Rightarrow> bool" where
  "plain_out (OutChunk c) = (lc_finish c = None)"
| "plain_out (OutError m c) = False"

definition quiet :: "loop_out list \<Rightarrow> bool" where
  "quiet os \<longleftrightarrow> list_all plain_out os"

lemma quiet_state_simps [simp]:
  "quiet []" "quiet (o1 # os) \<longleftrightarrow> plain_out o1 \<and> quiet os" "quiet (xs @ ys) \<longleftrightarrow> quiet xs \<and> quiet ys"
  by (simp_all add: quiet_def)

text \<open>How the outputs end.\<close>

fun ends_with :: "loop_end \<Rightarrow> loop_out list \<Rightarrow> bool" where
  "ends_with (Finished True) os = (\<exists>qs c. os = qs @ [OutChunk c] \<and> lc_finish c \<noteq> None \<and> quiet qs)"
| "ends_with (Finished False) os = (\<exists>qs m c. os = qs @ [OutError m c] \<and> quiet qs)"
| "ends_with (LoopThrew e) os = quiet os"

definition pending_message_list :: "pending_entry \<Rightarrow> chat_message list" where
  "pending_message_list e =
     pe_assistant e # map (\<lambda>r. tool_result (pr_toolCallId r) (pr_text r)) (nullish (pe_promise e) [])"

definition pending_ok :: "pending_results \<Rightarrow> bool" where
  "pending_ok p \<longleftrightarrow> (\<forall>(k, e) \<in> set p. paired (pending_message_list e))"

definition within_budget :: "loop_config \<Rightarrow> nat \<Rightarrow> bool" where
  "within_budget cfg n \<longleftrightarrow> (\<forall>m. lp_maxToolCalls cfg = Some m \<longrightarrow> 0 \<le> m \<longrightarrow> int n \<le> m)"

definition loop_inv :: "loop_config \<Rightarrow> nat \<Rightarrow> loop_state \<Rightarrow> bool" where
  "loop_inv cfg k st \<longleftrightarrow> length (ls_dispatched st) \<le> ls_count st \<and> within_budget cfg (ls_count st)
     \<and> quiet (ls_out st) \<and> length (ls_requests st) \<le> k \<and> pending_ok (ls_pending st)"

definition loop_fin :: "loop_config \<Rightarrow> nat \<Rightarrow> loop_end \<Rightarrow> loop_state \<Rightarrow> bool" where
  "loop_fin cfg k e st \<longleftrightarrow> within_budget cfg (length (ls_dispatched st)) \<and> ends_with e (ls_out st)
     \<and> length (ls_requests st) \<le> k \<and> pending_ok (ls_pending st)"

abbreviation sound_turn :: "loop_config \<Rightarrow> nat \<Rightarrow> turn_result \<Rightarrow> bool" where
  "sound_turn cfg k \<equiv> turn_sat (loop_inv cfg k) (loop_fin cfg k)"

lemma within_budget_mono: "within_budget cfg n \<Longrightarrow> m \<le> n \<Longrightarrow> within_budget cfg m"
  unfolding within_budget_def by (meson of_nat_mono order_trans)

lemma loop_invD:
  assumes "loop_inv cfg k st"
  shows "quiet (ls_out st)" "within_budget cfg (length (ls_dispatched st))" "length (ls_requests st) \<le> k"
    "pending_ok (ls_pending st)" "length (ls_dispatched st) \<le> ls_count st" "within_budget cfg (ls_count st)"
  using assms by (auto simp: loop_inv_def intro: within_budget_mono)

lemma loop_inv_cong:
  "loop_inv cfg k st \<Longrightarrow> ls_dispatched st' = ls_dispatched st \<Longrightarrow> ls_count st' = ls_count st \<Longrightarrow> ls_out st' = ls_out st @ os
    \<Longrightarrow> quiet os \<Longrightarrow> ls_requests st' = ls_requests st \<Longrightarrow> ls_pending st' = ls_pending st \<Longrightarrow> loop_inv cfg k st'"
  by (simp add: loop_inv_def)

lemma plain_chunk [simp]:
  "plain_out (budget_chunk cfg st)" "plain_out (surfaced misses)" "plain_out (progress_note c)"
  by (simp_all add: budget_chunk_def surfaced_def progress_note_def)

lemma quiet_fallback: "quiet (ls_out st) \<Longrightarrow> quiet (ls_out (emitProgressFallback cfg st))"
  by (simp add: emitProgressFallback_def)

lemma pending_frame [simp]:
  "ls_pending (record_round r st) = ls_pending st" "ls_pending (reform st) = ls_pending st"
  "ls_pending (tell_count n st) = ls_pending st" "ls_pending (emitProgressFallback cfg st) = ls_pending st"
  "ls_pending (resolve_unknown content unknown st) = ls_pending st" "ls_pending (resolve_hits cfg hits st) = ls_pending st"
  "ls_pending (resolve_rejected content rej rejected st) = ls_pending st"
  "ls_pending (batch_settled cfg acc st) = ls_pending st" "ls_pending (offer_tools cfg te st) = ls_pending st"
  by (simp_all add: record_round_def reform_def tell_count_def emitProgressFallback_def resolve_unknown_def resolve_hits_def
      resolve_rejected_def batch_settled_def offer_tools_def Let_def split: prod.split)

lemma ends_true: "quiet qs \<Longrightarrow> ends_with (Finished True) (qs @ [finish_chunk reason st])"
  by (auto simp: finish_chunk_def)

lemma finalize_sound: "loop_inv cfg k st \<Longrightarrow> turn_sat N (loop_fin cfg k) (finalize_loop content reason st)"
  using loop_invD [of cfg k st]
  by (auto simp: finalize_loop_def Let_def loop_fin_def finish_chunk_def)

lemma task_finished_sound: "loop_inv cfg k st \<Longrightarrow> turn_sat N (loop_fin cfg k) (task_finished output st)"
  unfolding task_finished_def
  by (rule finalize_sound, rule loop_inv_cong [where os = "[text_out output, end_out ''final'']"]) simp_all

lemma head_sound: "loop_inv cfg k st \<Longrightarrow> sound_turn cfg k (head_stage cfg te i st)"
  using loop_invD [of cfg k st] quiet_fallback [of st cfg]
  by (auto simp: head_stage_def Let_def task_finished_sound loop_fin_def finish_chunk_def split: option.split)

lemma tools_stage_pending: "tools_stage cfg te i st = Inr st' \<Longrightarrow> ls_pending st' = ls_pending st"
  by (auto simp: tools_stage_def refresh_tools_def reselect_tools_def Let_def split: sum.splits if_splits option.splits)

lemma tools_sound:
  assumes "tools_stage cfg te i st = Inr st'" "loop_inv cfg k st"
  shows "loop_inv cfg k st'"
proof -
  obtain os where os: "ls_out st' = ls_out st @ os" "os = [] \<or> (\<exists>st1. os = [budget_chunk cfg st1])"
    using tools_stage_frame(8) [OF assms(1)] by blast
  then have "quiet os" by auto
  note F = tools_stage_frame [OF assms(1)]
  show ?thesis
    by (rule loop_inv_cong [OF assms(2) F(6) F(7) os(1) \<open>quiet os\<close> F(5) tools_stage_pending [OF assms(1)]])
qed

lemma answer_sound:
  assumes "loop_inv cfg k st"
  shows "sound_turn cfg k (answer_stage cfg te acc st)"
proof -
  have "loop_inv cfg k (emit (xs @ [end_out ''final'']) st)" if "quiet xs" for xs
    by (rule loop_inv_cong [OF assms, where os = "xs @ [end_out ''final'']"]) (simp_all add: that)
  then have "sound_turn cfg k (finalize_loop c r (emit ((if lp_streamFinal cfg then [text_out c'] else []) @ [end_out ''final'']) st))" for c r c'
    by (intro finalize_sound) simp
  moreover have "loop_inv cfg k (reform (emit [end_out ''retry''] st\<lparr>ls_tail := ts\<rparr>))" for ts
    by (rule loop_inv_cong [OF assms, where os = "[end_out ''retry'']"]) simp_all
  ultimately show ?thesis
    using loop_invD [OF assms]
    by (cases "lp_streamFinal cfg") (simp_all add: answer_stage_def loop_fin_def split: sum.split prod.split bool.split)
qed

lemma length_dispatched: "length (dispatched ss) \<le> length ss"
  by (simp add: dispatched_def)

text \<open>A mixed round leaves a paired group for the next request.\<close>

lemma fire_pending:
  assumes "fireInternalToolsAsync cfg be rej clients content calls skipped p cache = (sent, p', cache')"
    and "pending_ok p" "calls @ skipped \<noteq> []"
  shows "pending_ok p'" "length sent \<le> length calls"
proof -
  let ?started = "map (start_async cfg rej clients) calls"
  let ?results = "map (\<lambda>cs. \<lparr>pr_toolCallId = rc_id (fst cs), pr_toolName = rc_name (fst cs), pr_text = async_text be cs\<rparr>) ?started
     @ map (\<lambda>c. \<lparr>pr_toolCallId = rc_id c, pr_toolName = rc_name c, pr_text = budget_text (nullish (lp_maxToolCalls cfg) 0)\<rparr>) skipped"
  let ?e = "\<lparr>pe_assistant = round_request (or_null content) (calls @ skipped), pe_promise = Some ?results, pe_createdAt = be_now be\<rparr>"
  have p': "p' = pending_set (lp_pendingTtl cfg) (lp_session cfg) ?e (be_now be) p" and sent: "sent = dispatched ?started"
    using assms(1) by (simp_all add: fireInternalToolsAsync_def Let_def)
  have "mset (map cm_tool_call_id (map (\<lambda>r. tool_result (pr_toolCallId r) (pr_text r)) ?results))
      = mset (map (Some \<circ> rc_id) (calls @ skipped))"
    by (simp add: start_async_def comp_def)
  then have "paired (round_messages (plain_round (round_request (or_null content) (calls @ skipped))
      (map (\<lambda>r. tool_result (pr_toolCallId r) (pr_text r)) ?results) []))"
    using assms(3) by (intro paired_request) auto
  then have "paired (pending_message_list ?e)" by (simp add: pending_message_list_def round_messages_def)
  then have "pending_ok (AList.update (lp_session cfg) ?e p)"
    using assms(2) set_update_subset [of "lp_session cfg" ?e p] by (fastforce simp: pending_ok_def)
  then show "pending_ok p'" by (auto simp: p' pending_set_def Let_def pending_ok_def)
  show "length sent \<le> length calls" using length_dispatched [of ?started] by (simp add: sent)
qed

text \<open>What a round with external calls leaves to the background.\<close>

lemma fire_sound:
  assumes inv: "loop_inv cfg k st" and room: "within_budget cfg (ls_count st + length batch)" and some: "batch @ skipped \<noteq> []"
    and f: "fireInternalToolsAsync cfg (tn_batch te) (Some rej) (ls_clients st) content batch skipped (ls_pending st) (ls_cache st)
      = (sent, pending, cache)"
    and st3: "st3 = (if batch = [] then id else tell_count (ls_count st + length batch))
      (st\<lparr>ls_pending := pending, ls_cache := cache, ls_dispatched := ls_dispatched st @ sent\<rparr>)"
  shows "loop_inv cfg k (if budget_spent cfg st3 then emit [budget_chunk cfg st3] st3 else st3)"
proof -
  note I = loop_invD [OF inv] and F = fire_pending [OF f loop_invD(4) [OF inv] some]
  have "ls_count st3 = ls_count st + length batch" "ls_dispatched st3 = ls_dispatched st @ sent"
      "ls_out st3 = ls_out st" "ls_requests st3 = ls_requests st" "ls_pending st3 = pending"
    by (simp_all add: st3)
  then have inv3: "loop_inv cfg k st3" using F I(1,3,5) room unfolding loop_inv_def by (simp only: length_append) simp
  have "loop_inv cfg k (emit [budget_chunk cfg st3] st3)"
    by (rule loop_inv_cong [OF inv3, where os = "[budget_chunk cfg st3]"]) (simp_all only: emit_frame quiet_state_simps plain_chunk simp_thms)
  with inv3 show ?thesis by (cases "budget_spent cfg st3") (simp_all only: if_True if_False)
qed

lemma miss_sound:
  assumes inv: "loop_inv cfg k st" and room: "within_budget cfg (ls_count st + length batch)"
  shows "turn_sat N (loop_fin cfg k) (miss_stage cfg te content rej batch skipped misses st)"
proof -
  have fin: "loop_fin cfg k (Finished True) (emit [finish_chunk ''tool_calls'' st3] st3)"
    if "loop_inv cfg k st3" for st3
    using loop_invD [OF that] by (auto simp: loop_fin_def finish_chunk_def)
  have surf: "loop_inv cfg k (emit [surfaced misses] (emitProgressFallback cfg st1))" if I1: "loop_inv cfg k st1" for st1
    by (rule loop_inv_cong [OF I1, where os = "(if \<not> lp_streamFinal cfg \<or> ls_progress st1 = [] then [] else [text_out (ls_progress st1)])
        @ [surfaced misses]"]) (simp_all add: emitProgressFallback_def)
  obtain sent pending cache where f: "fireInternalToolsAsync cfg (tn_batch te) (Some rej) (ls_clients st) content batch skipped
      (ls_pending st) (ls_cache st) = (sent, pending, cache)" by (metis surj_pair)
  let ?st2 = "st\<lparr>ls_pending := pending, ls_cache := cache, ls_dispatched := ls_dispatched st @ sent\<rparr>"
  let ?st3 = "if batch = [] then ?st2 else tell_count (ls_count ?st2 + length batch) ?st2"
  have "loop_inv cfg k (if budget_spent cfg ?st3 then emit [budget_chunk cfg ?st3] ?st3 else ?st3)" if "batch @ skipped \<noteq> []"
    by (rule fire_sound [OF inv room that f]) simp
  then have "loop_inv cfg k (if batch @ skipped = [] then st
      else if budget_spent cfg ?st3 then emit [budget_chunk cfg ?st3] ?st3 else ?st3)"
    using inv by (cases "batch @ skipped = []") (simp_all only: if_True if_False simp_thms)
  from fin [OF surf [OF this]] show ?thesis
    unfolding miss_stage_def f Let_def prod.case turn_sat_simps .
qed

text \<open>A batch.\<close>

lemma quiet_heartbeats: "quiet (heartbeats ms batch ticks)"
  by (auto simp: heartbeats_def quiet_def list_all_iff)

lemma executeToolBatch_facts:
  "length (br_dispatched (executeToolBatch cfg be rej clients batch tools n avail cache)) \<le> length batch"
  "\<exists>qs. quiet qs \<and> br_out (executeToolBatch cfg be rej clients batch tools n avail cache)
      = qs @ (case br_outcome (executeToolBatch cfg be rej clients batch tools n avail cache) of
                Inr (Escalated e _ _) \<Rightarrow> [OutError (te_message e) ''MCP_UNAVAILABLE''] | _ \<Rightarrow> [])"
proof -
  obtain ss cache1 where ss: "start_calls cfg rej clients (be_now be) batch cache = (ss, cache1)" by (metis surj_pair)
  have len: "length ss = length batch" using start_calls_fst [OF ss] by (auto dest: map_eq_imp_length_eq)
  then show "length (br_dispatched (executeToolBatch cfg be rej clients batch tools n avail cache)) \<le> length batch"
    using length_dispatched [of ss] by (simp add: executeToolBatch_def ss Let_def split: sum.split)
  let ?b = "heartbeats (normalizeHeartbeatMs (lp_heartbeat cfg)) batch (be_ticks be)"
  show "\<exists>qs. quiet qs \<and> br_out (executeToolBatch cfg be rej clients batch tools n avail cache)
      = qs @ (case br_outcome (executeToolBatch cfg be rej clients batch tools n avail cache) of
                Inr (Escalated e _ _) \<Rightarrow> [OutError (te_message e) ''MCP_UNAVAILABLE''] | _ \<Rightarrow> [])"
    by (rule exI [of _ ?b])
      (simp add: executeToolBatch_def ss Let_def quiet_heartbeats split: sum.split batch_outcome.split)
qed

lemma batch_sound:
  assumes inv: "loop_inv cfg k st" and room: "within_budget cfg (ls_count st + length batch)"
    and known: "\<forall>c \<in> set batch. rc_name c \<in> set (map fst (ls_clients st))"
  shows "sound_turn cfg k (batch_stage cfg te content rej calls batch skipped unknown st)"
proof -
  let ?run = "executeToolBatch cfg (tn_batch te) (Some rej) (ls_clients st) batch (ls_tools st) (ls_count st) (ls_avail st) (ls_cache st)"
  let ?st2 = "(emit (br_out ?run) (emit (map progress_note batch) st))
      \<lparr>ls_cache := br_cache ?run, ls_dispatched := ls_dispatched st @ br_dispatched ?run\<rparr>"
  note I = loop_invD [OF inv]
  have quiet_notes: "quiet (map progress_note batch)" by (induction batch) simp_all
  obtain qs where qs: "quiet qs" "br_out ?run = qs @ (case br_outcome ?run of
      Inr (Escalated e _ _) \<Rightarrow> [OutError (te_message e) ''MCP_UNAVAILABLE''] | _ \<Rightarrow> [])"
    using executeToolBatch_facts(2) by blast
  have sent: "length (ls_dispatched st @ br_dispatched ?run) \<le> ls_count st + length batch"
    using executeToolBatch_facts(1) [of cfg "tn_batch te" "Some rej" "ls_clients st" batch "ls_tools st" "ls_count st" "ls_avail st" "ls_cache st"]
      I(5) by simp
  note sent_ok = within_budget_mono [OF room sent]
  show ?thesis
  proof (cases "br_outcome ?run")
    case (Inl e)
    then show ?thesis
      using I sent_ok qs quiet_notes by (simp add: batch_stage_def Let_def loop_fin_def)
  next
    case (Inr oc)
    show ?thesis
    proof (cases oc)
      case (Escalated e n avail)
      then show ?thesis
        using Inr I sent_ok qs quiet_notes by (auto simp: batch_stage_def Let_def loop_fin_def)
    next
      case (Settled acc)
      have count: "ba_count acc = ls_count st + length batch"
        using executeToolBatch_settled(2) [OF Inr [unfolded Settled] known] .
      obtain os where os: "ls_out (batch_settled cfg acc ?st2) = ls_out ?st2 @ os" "os = [] \<or> (\<exists>st1. os = [budget_chunk cfg st1])"
        using batch_settled_frame(8) by blast
      have "quiet (ls_out ?st2)" using qs quiet_notes I(1) Inr Settled by simp
      moreover have "quiet os" using os(2) by auto
      ultimately have "quiet (ls_out (batch_settled cfg acc ?st2))" unfolding os(1) by simp
      then have "loop_inv cfg k (record_round r (batch_settled cfg acc ?st2))" for r
        using sent room I(3,4) unfolding loop_inv_def by (simp add: batch_settled_frame(1-7) count)
      then show ?thesis using Inr Settled by (simp add: batch_stage_def Let_def)
    qed
  qed
qed

lemma batch_limit_room: "loop_inv cfg k st \<Longrightarrow> within_budget cfg (ls_count st + length (take (batch_limit cfg st internal) internal))"
  using loop_invD(6) [of cfg k st] by (auto simp: within_budget_def batch_limit_def)

lemma internal_sound:
  assumes "loop_inv cfg k st" "n = batch_limit cfg st internal" "\<forall>c \<in> set internal. rc_name c \<in> set (map fst (ls_clients st))"
  shows "sound_turn cfg k (internal_stage cfg te content rej calls internal unknown n st)"
  unfolding internal_stage_def assms(2)
  by (rule batch_sound [OF assms(1) batch_limit_room [OF assms(1)]]) (use assms(3) in \<open>auto dest!: in_set_takeD\<close>)

lemma batch_limit_count: "ls_count st' = ls_count st \<Longrightarrow> batch_limit cfg st' internal = batch_limit cfg st internal"
  by (simp add: batch_limit_def split: option.split)

lemma resolve_sound:
  assumes "loop_inv cfg k st"
  shows "loop_inv cfg k (resolve_unknown content unknown st)" "loop_inv cfg k (resolve_hits cfg hits st)"
    "loop_inv cfg k (resolve_rejected content rej rejected st)" "loop_inv cfg k (record_round r st)"
  by (rule loop_inv_cong [OF assms, where os = "[]"]; simp)+

lemma execute_sound:
  assumes inv: "loop_inv cfg k st" and known: "\<forall>c \<in> set internal. rc_name c \<in> set (map fst (ls_clients st))"
  shows "sound_turn cfg k (execute_stage cfg te content rej calls internal external unknown st)"
proof (cases "external = []")
  case True
  then show ?thesis using internal_sound [OF inv refl known] by (simp add: execute_stage_def Let_def)
next
  case False
  let ?st = "resolve_hits cfg (filter (external_hit cfg) (with_ext_ids cfg external)) (resolve_unknown content unknown st)"
  have inv2: "loop_inv cfg k ?st" by (intro resolve_sound inv)
  have "batch_limit cfg st internal = batch_limit cfg ?st internal" by (rule batch_limit_count) simp
  then show ?thesis
    using False inv2 internal_sound [OF inv2 refl, of internal te content rej calls "[]"] known
      miss_sound [OF inv2 batch_limit_room [OF inv2, of internal]]
    by (simp add: execute_stage_def Let_def)
qed

lemma round_sound:
  assumes "loop_inv cfg k st"
  shows "sound_turn cfg k (round_stage cfg te content toolCalls st)"
proof -
  let ?calls = "enumerate 0 toolCalls"
  obtain rej c st1 where g: "guard_stage cfg te ?calls st = (rej, c, st1)" by (metis surj_pair)
  obtain blocked where c: "c = classifyToolCalls ?calls (map fst (ls_clients st)) (map tl_name (lp_external cfg)) blocked"
      and st1: "st1 = st\<lparr>ls_avail := ls_avail st1\<rparr>"
    using guard_stage_cases [OF g] by blast
  let ?st2 = "resolve_rejected content rej (filter (\<lambda>x. map_of rej (fst x) \<noteq> None) (cl_external c)) st1"
  have "loop_inv cfg k st1" by (rule loop_inv_cong [OF assms, where os = "[]"]) (subst st1, simp | simp)+
  then have inv2: "loop_inv cfg k ?st2" by (rule resolve_sound)
  have "ls_clients st1 = ls_clients st" by (subst st1) simp
  then have "\<forall>x \<in> set (cl_internal c). rc_name x \<in> set (map fst (ls_clients ?st2))"
    by (auto simp: c classifyToolCalls_def)
  then show ?thesis
    using inv2 execute_sound [OF inv2] resolve_sound(4) [OF inv2] by (auto simp: round_stage_def Let_def g)
qed

lemma read_chunk_quiet: "quiet (sa_out acc) \<Longrightarrow> quiet (sa_out (read_chunk cfg c acc))"
  by (simp add: read_chunk_def Let_def split: option.split)

lemma read_stream_quiet: "quiet (sa_out (read_stream cfg chunks u))"
proof -
  have "quiet (sa_out acc) \<Longrightarrow> quiet (sa_out (fold (read_chunk cfg) chunks acc))" for acc
    by (induction chunks arbitrary: acc) (simp_all add: read_chunk_quiet)
  then show ?thesis by (simp add: read_stream_def)
qed

lemma reply_sound:
  assumes "loop_inv cfg k st"
  shows "sound_turn cfg (k + 1) (reply_stage cfg te st)"
proof -
  let ?ms = "toModelToolMessages (ls_messages st) (lp_trust cfg)"
  let ?st1 = "st\<lparr>ls_requests := ls_requests st @ [(?ms, ls_tools st)]\<rparr>"
  obtain chunks failure where llm: "tn_llm te ?ms (ls_tools st) = (chunks, failure)" by (metis surj_pair)
  let ?acc = "read_stream cfg chunks (ls_usage ?st1)"
  let ?st2 = "(emit (sa_out ?acc) ?st1)\<lparr>ls_usage := sa_usage ?acc\<rparr>"
  note I = loop_invD [OF assms]
  have inv2: "loop_inv cfg (k + 1) ?st2" using I by (simp add: loop_inv_def read_stream_quiet)
  have inv3: "loop_inv cfg (k + 1) (emit [end_out ''tool_calls''] (?st2\<lparr>ls_progress := ls_progress ?st2 @ sa_content ?acc\<rparr>))"
    by (rule loop_inv_cong [OF inv2, where os = "[end_out ''tool_calls'']"]) simp_all
  have "reply_stage cfg te st = (case failure of
       ModelThrew e \<Rightarrow> Ended (LoopThrew e) ?st2
     | ModelFailed message \<Rightarrow> Ended (Finished False) (emit [OutError message ''LLM_ERROR''] ?st2)
     | ModelDone \<Rightarrow> if sa_finish ?acc = Some ''tool_calls'' \<and> parsed_calls ?acc \<noteq> [] then
           round_stage cfg te (sa_content ?acc) (parsed_calls ?acc)
             (emit [end_out ''tool_calls''] (?st2\<lparr>ls_progress := ls_progress ?st2 @ sa_content ?acc\<rparr>))
         else answer_stage cfg te ?acc ?st2)"
    by (simp only: reply_stage_def Let_def llm prod.case)
  then show ?thesis
    using loop_invD [OF inv2] round_sound [OF inv3] answer_sound [OF inv2]
    by (auto simp: loop_fin_def split: model_end.split)
qed

lemma loop_inv_Suc: "loop_inv cfg k st \<Longrightarrow> loop_inv cfg (k + 1) st"
  by (simp add: loop_inv_def)

lemma turn_sound:
  assumes "loop_inv cfg k st"
  shows "sound_turn cfg (k + 1) (loop_turn cfg te k st)"
proof (cases "head_stage cfg te k st")
  case (Ended e st1)
  then show ?thesis using head_sound [OF loop_inv_Suc [OF assms], of te k] by (simp add: loop_turn_def)
next
  case (Next st1)
  then have inv1: "loop_inv cfg k st1" using head_sound [OF assms, of te k] by simp
  show ?thesis
  proof (cases "tools_stage cfg te k st1")
    case (Inl e)
    then show ?thesis using Next loop_invD [OF inv1] by (simp add: loop_turn_def loop_fin_def)
  next
    case (Inr st2)
    have "loop_inv cfg k st2" by (rule tools_sound [OF Inr inv1])
    then show ?thesis
      using Next Inr reply_sound [of cfg k st2 te] task_finished_sound [OF loop_inv_Suc, of cfg k st2]
      by (simp add: loop_turn_def split: option.split)
  qed
qed

subsection \<open>The properties\<close>

text \<open>Turns beyond the limit do not ask the model, so the number of requests is bounded by it.\<close>

lemma head_at_limit: "\<exists>e st'. head_stage cfg te (lp_maxIterations cfg) st = Ended e st'"
  by (simp add: head_stage_def Let_def task_finished_def finalize_loop_def split: option.split)

lemma loop_fin_mono: "loop_fin cfg k e st \<Longrightarrow> k \<le> n \<Longrightarrow> loop_fin cfg n e st"
  by (simp add: loop_fin_def)

lemma tool_loop_sound:
  assumes "tool_loop cfg env k st = (e, st')" "loop_inv cfg k st" "k \<le> lp_maxIterations cfg"
  shows "loop_fin cfg (lp_maxIterations cfg) e st'"
proof (rule tool_loop_rule [where I = "\<lambda>k st. loop_inv cfg k st \<and> k \<le> lp_maxIterations cfg", OF assms(1)])
  show "loop_inv cfg k st \<and> k \<le> lp_maxIterations cfg" using assms(2,3) by simp
  fix k st assume I: "loop_inv cfg k st \<and> k \<le> lp_maxIterations cfg"
  show "turn_sat (\<lambda>st. loop_inv cfg (k + 1) st \<and> k + 1 \<le> lp_maxIterations cfg)
      (loop_fin cfg (lp_maxIterations cfg)) (loop_turn cfg (env k) k st)"
  proof (cases "loop_turn cfg (env k) k st")
    case (Next st1)
    then show ?thesis using turn_sound [of cfg k st "env k"] I loop_turn_Next [OF Next] by simp
  next
    case (Ended e1 st1)
    show ?thesis
    proof (cases "k = lp_maxIterations cfg")
      case False
      then show ?thesis using turn_sound [of cfg k st "env k"] I Ended by (auto intro: loop_fin_mono)
    next
      case True
      then have "head_stage cfg (env k) k st = Ended e1 st1"
        using head_at_limit [of cfg "env k" st] Ended by (auto simp: loop_turn_def)
      then show ?thesis using head_sound [of cfg k st "env k" k] I Ended True by simp
    qed
  qed
qed

text \<open>What an earlier request leaves, and nothing about the assembled context.\<close>

definition input_ok :: "loop_input \<Rightarrow> bool" where
  "input_ok li \<longleftrightarrow> library_context.kept_ok (li_strategy li) \<and> pending_ok (li_pending li)"

lemma inject_cases:
  assumes "injectPendingResults ttl sid now p messages = (ms, p')"
  shows "(ms = messages \<or> (\<exists>e. map_of p sid = Some e \<and> ms = messages @ pending_message_list e)) \<and> set p' \<subseteq> set p"
  using assms set_delete_subset [of sid p]
  by (auto simp: injectPendingResults_def pending_has_def pending_consume_def pending_message_list_def
      split: prod.splits bool.splits option.splits if_splits)

lemma start_state_ok:
  assumes "input_ok li"
  shows "loop_ok (li_assembled li) (start_state cfg li)" "loop_inv cfg 0 (start_state cfg li)"
proof -
  let ?prefix = "injectToolPriority (li_assembled li) (lp_external cfg)"
  obtain ms p1 where inj: "injectPendingResults (lp_pendingTtl cfg) (lp_session cfg) (li_now li) (li_pending li) ?prefix = (ms, p1)"
    by (metis surj_pair)
  have prefix: "adds_paired (li_assembled li) ?prefix"
    by (rule adds_paired_self [OF injectToolPriority_shape])
  have p1: "pending_ok p1" and rest: "drop (length ?prefix) ms = [] \<or> paired (drop (length ?prefix) ms)"
    using inject_cases [OF inj] assms by (auto simp: input_ok_def pending_ok_def dest!: map_of_SomeD)
  have kept: "library_context.kept_ok (strategy_record (plain_round a rs []) (li_strategy li))"
    if "drop (length ?prefix) ms = a # rs" for a rs
    using assms rest that by (intro library_context.kept_ok_record) (simp_all add: input_ok_def round_messages_def)
  show "loop_ok (li_assembled li) (start_state cfg li)"
    using prefix kept assms unfolding start_state_def Let_def inj prod.case
    by (intro reform_ok) (auto simp: input_ok_def split: list.split)
  show "loop_inv cfg 0 (start_state cfg li)"
    using p1 unfolding start_state_def Let_def inj prod.case by (simp add: loop_inv_def within_budget_def)
qed

text \<open>C23. Whatever the model, the tools and the consumer do, every request of the loop is the assembled context of the
  request followed by a paired transcript: each call of the model that the loop has taken up is answered directly after
  the request for it, exactly once, and no result stands alone.  So a request is paired as a whole when the assembled
  context is; the loop does not repair a context that is not (the assembler appends tool records without a call id and
  cuts the history to a window).  The hypothesis is about what an earlier request leaves, the rounds of the strategy and
  the results kept for the next request, and the conclusion gives it back for the next one.\<close>

theorem requests_are_paired:
  assumes "execute_tool_loop cfg env li = (e, st)" "input_ok li"
  shows "(\<forall>(ms, ts) \<in> set (ls_requests st). adds_paired (li_assembled li) ms \<and> (paired (li_assembled li) \<longrightarrow> paired ms))
    \<and> pending_ok (ls_pending st)"
proof
  note run = assms(1) [unfolded execute_tool_loop_def]
  have "requests_paired (li_assembled li) st"
    by (rule tool_loop_rule [where I = "\<lambda>k. loop_ok (li_assembled li)" and Q = "\<lambda>e. requests_paired (li_assembled li)",
        OF run start_state_ok(1) [OF assms(2)]]) (rule turn_pairs)
  then show "\<forall>(ms, ts) \<in> set (ls_requests st). adds_paired (li_assembled li) ms \<and> (paired (li_assembled li) \<longrightarrow> paired ms)"
    using adds_paired_paired by blast
  show "pending_ok (ls_pending st)"
    using tool_loop_sound [OF run start_state_ok(2) [OF assms(2)]] by (simp add: loop_fin_def)
qed

text \<open>C24. After at most \<open>maxIterations\<close> requests to the model the loop has ended in one of three ways.  It has finished,
  and exactly one chunk carries a finish reason, the last output; or it has failed, and exactly one output is an error,
  the last; or it throws (the stream of the model, a tool, the validator, a name collision), and then no output is
  terminal: no chunk with a finish reason and no error has been given out.\<close>

theorem tool_loop_ends_once:
  assumes "execute_tool_loop cfg env li = (e, st)" "input_ok li"
  shows "length (ls_requests st) \<le> lp_maxIterations cfg \<and> ends_with e (ls_out st)"
  using tool_loop_sound [OF assms(1) [unfolded execute_tool_loop_def] start_state_ok(2) [OF assms(2)]]
  by (simp add: loop_fin_def)

text \<open>C25. The budget of tool calls holds: however many calls the model asks for, in whatever mixture of rounds, the loop
  dispatches at most \<open>maxToolCalls\<close> calls to tools; those left over are answered with an error.\<close>

theorem tool_budget_holds:
  assumes "execute_tool_loop cfg env li = (e, st)" "input_ok li" "lp_maxToolCalls cfg = Some m" "0 \<le> m"
  shows "int (length (ls_dispatched st)) \<le> m"
  using tool_loop_sound [OF assms(1) [unfolded execute_tool_loop_def] start_state_ok(2) [OF assms(2)]] assms(3,4)
  by (simp add: loop_fin_def within_budget_def)

subsection \<open>A concrete request\<close>

text \<open>The model asks for two reads and an unknown tool under a budget of one call, then answers.\<close>

definition sample_loop_config :: loop_config where
  "sample_loop_config =
     \<lparr>lp_maxIterations = 3, lp_maxToolCalls = Some 1, lp_heartbeat = Absent, lp_external = [], lp_streamFinal = False,
      lp_trust = None, lp_session = ''s'', lp_cacheable = (\<lambda>_. True), lp_classifier = None, lp_blockTtl = 600000,
      lp_pendingTtl = 300000, lp_cacheTtl = 300000, lp_sha256 = (\<lambda>s. s), lp_externalResults = None, lp_refresh = False,
      lp_reselect = False, lp_namespace = defaultToolNamespace, lp_input = ''q'', lp_guard = None, lp_report = False,
      lp_reportTool = \<lparr>tl_name = ''submit_report'', tl_description = [], tl_schema = JObj []\<rparr>\<rparr>"

definition sample_call :: "nat \<Rightarrow> string \<Rightarrow> stream_call" where
  "sample_call i name = DeltaCall \<lparr>cd_index = i, cd_id = Some (CHR ''c'' # digits i), cd_name = Some name, cd_arguments = Some ''{}''\<rparr>"

definition sample_turn :: "nat \<Rightarrow> turn_env" where
  "sample_turn k =
     \<lparr>tn_aborted = False, tn_stop = False, tn_finish1 = None, tn_finish2 = None, tn_clients = [], tn_retrieve = (\<lambda>_. None),
      tn_listed = None, tn_now = 0,
      tn_llm = (\<lambda>_ _. (if k = 0 then [(chunk_of [])\<lparr>lc_toolCalls := Some [sample_call 0 ''Read'', sample_call 1 ''Read'', sample_call 2 ''Fly''],
                              lc_finish := Some ''tool_calls''\<rparr>]
                        else [(chunk_of ''done'')\<lparr>lc_finish := Some ''stop''\<rparr>], ModelDone)),
      tn_validate = (\<lambda>_ _ _. Inr None),
      tn_batch = \<lparr>be_reply = (\<lambda>_. Replied (ResOk \<lparr>tv_content = JStr ''text'', tv_isError = False\<rparr>)), be_order = [0], be_ticks = [],
        be_now = 0\<rparr>\<rparr>"

definition sample_input :: loop_input where
  "sample_input =
     \<lparr>li_assembled = [text_message RUser (Some ''q'')], li_active = [], li_mcp = [],
      li_clients = [(''Read'', \<lparr>cl_id = 1, cl_calls = None, cl_default = False\<rparr>)], li_strategy = Legacy [],
      li_avail = [], li_pending = [], li_cache = None, li_now = 0\<rparr>"

lemma sample_input_ok: "input_ok sample_input"
  by (simp add: input_ok_def sample_input_def library_context.kept_ok_def pending_ok_def)

lemma sample_assembled: "paired (li_assembled sample_input)"
  by (simp add: sample_input_def paired_single calls_of_def)

lemma sample_loop_run:
  "(case execute_tool_loop sample_loop_config sample_turn sample_input of
      (e, st) \<Rightarrow> (e, ls_answer st, length (ls_requests st), map rc_id (ls_dispatched st), ls_count st))
   = (Finished True, Some ''done'', 2, [''c0''], 1)"
  by code_simp

lemma sample_result:
  obtains st where "execute_tool_loop sample_loop_config sample_turn sample_input = (Finished True, st)"
    "length (ls_requests st) = 2" "map rc_id (ls_dispatched st) = [''c0'']"
  using sample_loop_run by (auto split: prod.splits)

lemma requests_are_paired_witness:
  "\<exists>st. execute_tool_loop sample_loop_config sample_turn sample_input = (Finished True, st) \<and> length (ls_requests st) = 2
     \<and> (\<forall>(ms, ts) \<in> set (ls_requests st). paired ms)"
proof -
  obtain st where st: "execute_tool_loop sample_loop_config sample_turn sample_input = (Finished True, st)"
      "length (ls_requests st) = 2" by (rule sample_result)
  from requests_are_paired [OF st(1) sample_input_ok] sample_assembled st show ?thesis by blast
qed

lemma tool_loop_ends_once_witness:
  "\<exists>st. execute_tool_loop sample_loop_config sample_turn sample_input = (Finished True, st)
     \<and> length (ls_requests st) \<le> 3 \<and> ends_with (Finished True) (ls_out st)"
proof -
  obtain st where st: "execute_tool_loop sample_loop_config sample_turn sample_input = (Finished True, st)" by (rule sample_result)
  with tool_loop_ends_once [OF st sample_input_ok] show ?thesis by (simp add: sample_loop_config_def)
qed

lemma tool_budget_holds_witness:
  "\<exists>st. execute_tool_loop sample_loop_config sample_turn sample_input = (Finished True, st) \<and> length (ls_dispatched st) = 1
     \<and> int (length (ls_dispatched st)) \<le> 1"
proof -
  obtain st where st: "execute_tool_loop sample_loop_config sample_turn sample_input = (Finished True, st)"
      "map rc_id (ls_dispatched st) = [''c0'']" by (rule sample_result)
  have "lp_maxToolCalls sample_loop_config = Some 1" by (simp add: sample_loop_config_def)
  from tool_budget_holds [OF st(1) sample_input_ok this] st show ?thesis by (auto dest: arg_cong [of _ _ length])
qed

end
