(* ===== verification/AgentLoop.thy ===== *)
theory AgentLoop
  imports ToolLoop
begin

text \<open>
  The loop of \<open>SmartAgent\<close> without a pipeline (\<open>_runStreamingToolLoop\<close> of \<open>agent.ts\<close>) and \<open>process\<close>, which collects the
  chunks of the stream to one answer.  Rounds, tools and context are the shared core of \<open>ToolLoop\<close> and \<open>ToolLoopCore\<close>;
  what differs are the outputs: a client adapter wraps the answer, a hook may rewrite it, external calls are streamed as
  they arrive, and text held back is given out when the request ends early.  \<open>ls_progress\<close> is \<open>stoppedContent\<close>.  The
  usage summary of the request log is left out, as are the session log and the observers of chunks.
\<close>

subsection \<open>Environment\<close>

record agent_config =
  ac_loop :: loop_config
  ac_wrap :: "(string \<Rightarrow> string) option"                             \<comment> \<open>\<open>clientAdapter.wrapResponse\<close>\<close>
  ac_before :: "(string \<Rightarrow> chat_message list \<Rightarrow> string list) option"    \<comment> \<open>\<open>onBeforeStream\<close>\<close>

text \<open>The registry is asked again when tools are selected anew.\<close>

record agent_env =
  ae_turn :: turn_env
  ae_again :: "namespace_client list"

abbreviation wrapped :: "agent_config \<Rightarrow> string \<Rightarrow> string" where
  "wrapped ac s \<equiv> (case ac_wrap ac of None \<Rightarrow> s | Some w \<Rightarrow> w s)"

definition bufferedFallback :: "agent_config \<Rightarrow> loop_state \<Rightarrow> string" where
  "bufferedFallback ac st = (if trim (ls_progress st) \<noteq> [] then wrapped ac (ls_progress st) else [])"

definition last_chunk :: "string \<Rightarrow> string \<Rightarrow> loop_out" where
  "last_chunk content reason = OutChunk ((chunk_of content)\<lparr>lc_finish := Some reason\<rparr>)"

subsection \<open>The end of a request\<close>

definition agent_finalize :: "agent_config \<Rightarrow> string \<Rightarrow> string option \<Rightarrow> loop_state \<Rightarrow> turn_result" where
  "agent_finalize ac content finishReason st =
     (let shown = (case ac_before ac of
            Some hook \<Rightarrow> map (\<lambda>s. text_out (wrapped ac s)) (hook content (ls_messages st))
          | None \<Rightarrow> if ac_wrap ac \<noteq> None \<and> content \<noteq> [] then [text_out (wrapped ac content)] else [])
      in Ended (Finished True)
           (emit (shown @ [end_out ''final'', last_chunk [] (if truthy finishReason then the finishReason else ''stop'')]) st))"

definition agent_task_finished :: "agent_config \<Rightarrow> string \<Rightarrow> loop_state \<Rightarrow> turn_result" where
  "agent_task_finished ac output st =
     agent_finalize ac output (Some ''stop'')
       (if ac_wrap ac = None \<and> ac_before ac = None then emit [text_out output] st else st)"

definition agent_head :: "agent_config \<Rightarrow> turn_env \<Rightarrow> nat \<Rightarrow> loop_state \<Rightarrow> turn_result" where
  "agent_head ac te k st =
     (if tn_aborted te then Ended (Finished False) (emit [OutError ''Aborted'' ''ABORTED''] st)
      else (case tn_finish1 te of
              Some output \<Rightarrow> agent_task_finished ac output st
            | None \<Rightarrow>
                if k > 0 \<and> tn_stop te then
                  Ended (Finished True) (emit [OutChunk ((chunk_of (bufferedFallback ac st))\<lparr>lc_finish := Some ''stop'', lc_stopped := True\<rparr>)] st)
                else if k \<ge> lp_maxIterations (ac_loop ac) then
                  Ended (Finished True) (emit [last_chunk (bufferedFallback ac st) ''length''] st)
                else Next st))"

subsection \<open>Tools\<close>

definition agent_reselect :: "agent_config \<Rightarrow> agent_env \<Rightarrow> loop_state \<Rightarrow> string + loop_state" where
  "agent_reselect ac ae st =
     (let names = last_call_names (ls_messages st) in
      if names \<noteq> [] \<and> list_all read_only_name names then Inr st
      else
        (case tn_retrieve (ae_turn ae) (reselect_query names (last_tool_text (ls_messages st)) (lp_input (ac_loop ac))) of
           None \<Rightarrow> Inr st
         | Some hits \<Rightarrow>
             (let newNames = List.map_filter (\<lambda>(i, n). toolNameFromRecord i n) hits in
              if newNames = [] then Inr st
              else (case buildNamespacedTools (ae_again ae) (lp_namespace (ac_loop ac)) of
                      Inl e \<Rightarrow> Inl e
                    | Inr ns \<Rightarrow>
                        (case mergeOfferedTools (filter (\<lambda>t. tl_name t \<in> set newNames) (ns_tools ns)) (lp_external (ac_loop ac)) of
                           Inl e \<Rightarrow> Inl e
                         | Inr tools \<Rightarrow> Inr (st\<lparr>ls_tools := tools\<rparr>))))))"

definition agent_tools :: "agent_config \<Rightarrow> agent_env \<Rightarrow> nat \<Rightarrow> loop_state \<Rightarrow> string + loop_state" where
  "agent_tools ac ae k st =
     (let cfg = ac_loop ac in
      case (if k > 0 \<and> lp_refresh cfg then refresh_tools cfg (ae_turn ae) st else Inr st) of
        Inl e \<Rightarrow> Inl e
      | Inr st1 \<Rightarrow>
          (case (if k > 0 \<and> lp_reselect cfg then agent_reselect ac ae st1 else Inr st1) of
             Inl e \<Rightarrow> Inl e
           | Inr st2 \<Rightarrow> Inr (offer_tools cfg (ae_turn ae) st2)))"

subsection \<open>Reading the reply\<close>

text \<open>The indices of external calls are kept beside the accumulated reply: their deltas go to the consumer at once, unless
  a guard may still reject the round.  They are read with the fallback index zero.\<close>

definition external_indices :: "loop_config \<Rightarrow> stream_call list \<Rightarrow> nat list" where
  "external_indices cfg calls =
     map (\<lambda>c. cd_index (toToolCallDelta c 0))
       (filter (\<lambda>c. truthy (getStreamToolCallName c) \<and> the (getStreamToolCallName c) \<in> set (map tl_name (lp_external cfg))) calls)"

definition external_deltas :: "nat list \<Rightarrow> stream_call list \<Rightarrow> stream_call list" where
  "external_deltas indices calls = filter (\<lambda>c. cd_index (toToolCallDelta c 0) \<in> set indices) calls"

definition delta_out :: "stream_call list \<Rightarrow> loop_out" where
  "delta_out calls = OutChunk ((chunk_of [])\<lparr>lc_toolCalls := Some calls\<rparr>)"

definition agent_chunk :: "agent_config \<Rightarrow> llm_chunk \<Rightarrow> stream_acc \<times> nat list \<Rightarrow> stream_acc \<times> nat list" where
  "agent_chunk ac c s =
     (case s of (acc, indices) \<Rightarrow>
        if lc_reset c then
          (acc\<lparr>sa_content := [], sa_finish := None, sa_calls := [], sa_out := sa_out acc @ [end_out ''retry'']\<rparr>, [])
        else
          (let calls = nullish (lc_toolCalls c) [];
               acc1 = (if lc_content c = [] then acc
                       else acc\<lparr>sa_content := sa_content acc @ lc_content c,
                                sa_out := sa_out acc @ (if ac_wrap ac = None \<and> \<not> lp_streamFinal (ac_loop ac) then [text_out (lc_content c)] else [])\<rparr>);
               indices1 = indices @ external_indices (ac_loop ac) calls;
               deltas = external_deltas indices1 calls;
               acc2 = acc1\<lparr>sa_out := sa_out acc1 @ (if lp_guard (ac_loop ac) = None \<and> deltas \<noteq> [] then [delta_out deltas] else []),
                          sa_calls := fold (\<lambda>(i, raw). merge_delta (toToolCallDelta raw i)) (enumerate 0 calls) (sa_calls acc1)\<rparr>;
               acc3 = (if truthy (lc_finish c) then acc2\<lparr>sa_finish := lc_finish c\<rparr> else acc2)
           in (case lc_usage c of None \<Rightarrow> acc3 | Some u \<Rightarrow> acc3\<lparr>sa_usage := add_usage (sa_usage acc3) u\<rparr>, indices1)))"

definition agent_stream :: "agent_config \<Rightarrow> llm_chunk list \<Rightarrow> llm_usage \<Rightarrow> stream_acc" where
  "agent_stream ac chunks usage =
     fst (fold (agent_chunk ac) chunks (\<lparr>sa_content = [], sa_finish = None, sa_calls = [], sa_usage = usage, sa_out = []\<rparr>, []))"

subsection \<open>A round of calls\<close>

text \<open>The calls of a batch run in the shared core, which tells the count of an escalated batch itself.\<close>

definition agent_batch ::
    "agent_config \<Rightarrow> turn_env \<Rightarrow> string \<Rightarrow> rejections \<Rightarrow> round_call list \<Rightarrow> round_call list \<Rightarrow> round_call list \<Rightarrow> nat
      \<Rightarrow> loop_state \<Rightarrow> turn_result" where
  "agent_batch ac te content rej calls internal unknown n st =
     internal_stage (ac_loop ac) te content rej calls internal unknown n st"

text \<open>A round with external calls ends the request; its internal calls go on in the background.\<close>

definition agent_external ::
    "agent_config \<Rightarrow> turn_env \<Rightarrow> string \<Rightarrow> rejections \<Rightarrow> round_call list \<Rightarrow> round_call list \<Rightarrow> round_call list \<Rightarrow> loop_state \<Rightarrow> turn_result" where
  "agent_external ac te content rej batch skipped external st =
     (let cfg = ac_loop ac;
          st1 = (if lp_guard cfg = None then st else emit [surfaced external] st);
          st2 =
            (if batch @ skipped = [] then st1
             else
               (case fireInternalToolsAsync cfg (tn_batch te) (Some rej) (ls_clients st1) content batch skipped (ls_pending st1) (ls_cache st1) of
                  (sent, pending, cache) \<Rightarrow>
                    (let st2 = st1\<lparr>ls_pending := pending, ls_cache := cache, ls_dispatched := ls_dispatched st1 @ sent\<rparr>;
                         st3 = (if batch = [] then st2 else tell_count (ls_count st2 + length batch) st2)
                     in if budget_spent cfg st3 then emit [budget_chunk cfg st3] st3 else st3)))
      in Ended (Finished True) (emit [last_chunk (bufferedFallback ac st2) ''tool_calls''] st2))"

definition agent_execute ::
    "agent_config \<Rightarrow> turn_env \<Rightarrow> string \<Rightarrow> rejections \<Rightarrow> round_call list \<Rightarrow> round_call list \<Rightarrow> round_call list \<Rightarrow> round_call list
      \<Rightarrow> loop_state \<Rightarrow> turn_result" where
  "agent_execute ac te content rej calls internal external unknown st =
     (let n = batch_limit (ac_loop ac) st internal in
      if external = [] then agent_batch ac te content rej calls internal unknown n st
      else agent_external ac te content rej (take n internal) (drop n internal) external (resolve_unknown content unknown st))"

definition agent_round :: "agent_config \<Rightarrow> turn_env \<Rightarrow> string \<Rightarrow> parsed_call list \<Rightarrow> loop_state \<Rightarrow> turn_result" where
  "agent_round ac te content toolCalls st =
     (let calls = enumerate 0 toolCalls in
      case guard_stage (ac_loop ac) te calls st of
        (rej, c, st1) \<Rightarrow>
          (let rejected = filter (\<lambda>x. map_of rej (fst x) \<noteq> None) (cl_external c);
               external = filter (\<lambda>x. map_of rej (fst x) = None) (cl_external c);
               st2 = resolve_rejected content rej rejected st1
           in if rejected \<noteq> [] \<and> external = [] \<and> cl_internal c = [] \<and> cl_blocked c = [] \<and> cl_unknown c = [] then Next st2
              else if cl_blocked c \<noteq> [] then Next (record_round (buildBlockedToolMessages content (cl_blocked c)) st2)
              else agent_execute ac te content rej calls (cl_internal c) external (cl_unknown c) st2))"

subsection \<open>An iteration and the loop\<close>

definition reply_end :: "bool \<Rightarrow> bool \<Rightarrow> string" where
  "reply_end calls reprompt = (if calls then ''tool_calls'' else if reprompt then ''retry'' else ''final'')"

definition after_reply :: "agent_config \<Rightarrow> stream_acc \<Rightarrow> string \<Rightarrow> loop_state \<Rightarrow> loop_state" where
  "after_reply ac acc iterationEnd st =
     (let streamFinal = lp_streamFinal (ac_loop ac);
          buffer = (if ac_wrap ac = None \<and> streamFinal then sa_content acc else []);
          st1 = emit ((if buffer \<noteq> [] \<and> iterationEnd = ''final'' then [text_out buffer] else [])
                  @ (if iterationEnd \<noteq> ''final'' then [end_out iterationEnd] else [])) st
      in if sa_finish acc = Some ''tool_calls'' \<and> (ac_wrap ac \<noteq> None \<or> streamFinal)
         then st1\<lparr>ls_progress := ls_progress st1 @ sa_content acc\<rparr> else st1)"

definition agent_reply :: "agent_config \<Rightarrow> turn_env \<Rightarrow> loop_state \<Rightarrow> turn_result" where
  "agent_reply ac te st =
     (let cfg = ac_loop ac;
          messages = toModelToolMessages (ls_messages st) (lp_trust cfg);
          st1 = st\<lparr>ls_requests := ls_requests st @ [(messages, ls_tools st)]\<rparr>
      in case tn_llm te messages (ls_tools st) of
           (chunks, failure) \<Rightarrow>
             (let acc = agent_stream ac chunks (ls_usage st1);
                  st2 = (emit (sa_out acc) st1)\<lparr>ls_usage := sa_usage acc\<rparr>
              in case failure of
                   ModelThrew e \<Rightarrow> Ended (LoopThrew e) st2
                 | ModelFailed message \<Rightarrow> Ended (Finished False) (emit [OutError message ''LLM_ERROR''] st2)
                 | ModelDone \<Rightarrow>
                     (let toolCalls = parsed_calls acc;
                          calls = (sa_finish acc = Some ''tool_calls'' \<and> toolCalls \<noteq> [])
                      in case (if calls then Inr (False, ls_messages st2)
                               else runOutputValidationReprompt (tn_validate te) (lp_trust cfg) (sa_content acc) (ls_messages st2) (ls_tools st2)) of
                           Inl e \<Rightarrow> Ended (LoopThrew e) st2
                         | Inr (reprompt, messages1) \<Rightarrow>
                             (let st3 = after_reply ac acc (reply_end calls reprompt) st2 in
                              if calls then agent_round ac te (sa_content acc) toolCalls st3
                              else if reprompt then Next (reform (st3\<lparr>ls_tail := ls_tail st3 @ drop (length (ls_messages st2)) messages1\<rparr>))
                              else agent_finalize ac (sa_content acc) (sa_finish acc) st3))))"

definition agent_turn :: "agent_config \<Rightarrow> agent_env \<Rightarrow> nat \<Rightarrow> loop_state \<Rightarrow> turn_result" where
  "agent_turn ac ae k st =
     (case agent_head ac (ae_turn ae) k st of
        Ended e st1 \<Rightarrow> Ended e st1
      | Next st1 \<Rightarrow>
          (case agent_tools ac ae k st1 of
             Inl e \<Rightarrow> Ended (LoopThrew e) st1
           | Inr st2 \<Rightarrow>
               (case tn_finish2 (ae_turn ae) of
                  Some output \<Rightarrow> agent_task_finished ac output st2
                | None \<Rightarrow> agent_reply ac (ae_turn ae) st2)))"

lemma agent_turn_Next: "agent_turn ac ae k st = Next st' \<Longrightarrow> k < lp_maxIterations (ac_loop ac)"
  by (auto simp: agent_turn_def agent_head_def agent_task_finished_def agent_finalize_def Let_def not_le
      split: turn_result.splits if_splits option.splits)

function agent_loop :: "agent_config \<Rightarrow> (nat \<Rightarrow> agent_env) \<Rightarrow> nat \<Rightarrow> loop_state \<Rightarrow> loop_end \<times> loop_state" where
  "agent_loop ac env k st =
     (case agent_turn ac (env k) k st of
        Ended e st1 \<Rightarrow> (e, st1)
      | Next st1 \<Rightarrow> agent_loop ac env (k + 1) st1)"
  by pat_completeness auto
termination
  by (relation "measure (\<lambda>(ac, env, k, st). lp_maxIterations (ac_loop ac) - k)") (auto dest: agent_turn_Next)

declare agent_loop.simps [simp del]

definition run_agent :: "agent_config \<Rightarrow> (nat \<Rightarrow> agent_env) \<Rightarrow> loop_input \<Rightarrow> loop_end \<times> loop_state" where
  "run_agent ac env li = agent_loop ac env 0 (start_state (ac_loop ac) li)"

subsection \<open>One answer from the chunks\<close>

record collected_call =
  cc_id :: string
  cc_name :: string
  cc_arguments :: string

record answer_acc =
  aa_content :: string
  aa_progress :: string
  aa_final :: bool                                  \<comment> \<open>\<open>finalIteration\<close>\<close>
  aa_calls :: "collected_call list"
  aa_positions :: "(nat \<times> nat) list"              \<comment> \<open>\<open>indexToPosition\<close>\<close>
  aa_budget :: "(nat \<times> int) option"
  aa_reason :: string
  aa_stopped :: bool

definition call_position :: "call_delta \<Rightarrow> answer_acc \<Rightarrow> nat option" where
  "call_position d acc =
     (case map_of (aa_positions acc) (cd_index d) of
        Some p \<Rightarrow> Some p
      | None \<Rightarrow> if truthy (cd_id d) then findIndex (\<lambda>c. cc_id c = the (cd_id d)) (aa_calls acc) else None)"

definition collect_call :: "stream_call \<Rightarrow> answer_acc \<Rightarrow> answer_acc" where
  "collect_call tc acc =
     (let d = toToolCallDelta tc (length (aa_calls acc)) in
      case call_position d acc of
        Some p \<Rightarrow>
          acc\<lparr>aa_calls := (aa_calls acc)[p := (aa_calls acc ! p)\<lparr>cc_arguments := cc_arguments (aa_calls acc ! p) @ nullish (cd_arguments d) []\<rparr>]\<rparr>
      | None \<Rightarrow>
          if truthy (cd_name d) then
            acc\<lparr>aa_calls := aa_calls acc @ [\<lparr>cc_id = nullish (cd_id d) [], cc_name = the (cd_name d), cc_arguments = nullish (cd_arguments d) []\<rparr>],
                aa_positions := AList.update (cd_index d) (length (aa_calls acc)) (aa_positions acc)\<rparr>
          else acc)"

definition end_iteration :: "string option \<Rightarrow> answer_acc \<Rightarrow> answer_acc" where
  "end_iteration e acc =
     (if e = Some ''tool_calls'' then acc\<lparr>aa_progress := aa_progress acc @ aa_content acc, aa_content := [], aa_final := False\<rparr>
      else if e = Some ''retry'' then acc\<lparr>aa_content := [], aa_final := False\<rparr>
      else if e = Some ''final'' then acc\<lparr>aa_final := True\<rparr>
      else acc)"

definition collect_chunk :: "llm_chunk \<Rightarrow> answer_acc \<Rightarrow> answer_acc" where
  "collect_chunk c acc =
     (let acc1 = (if lc_content c \<noteq> [] \<and> \<not> lc_ephemeral c then acc\<lparr>aa_content := aa_content acc @ lc_content c\<rparr> else acc);
          acc2 = end_iteration (lc_iterationEnd c) acc1;
          acc3 = fold collect_call (nullish (lc_toolCalls c) []) acc2;
          acc4 = (case lc_budget c of None \<Rightarrow> acc3 | Some b \<Rightarrow> acc3\<lparr>aa_budget := Some b\<rparr>);
          acc5 = (if lc_stopped c then acc4\<lparr>aa_stopped := True, aa_reason := ''stop''\<rparr> else acc4)
      in if lc_finish c = Some ''tool_calls'' then acc5\<lparr>aa_reason := ''tool_calls''\<rparr> else acc5)"

definition empty_answer :: answer_acc where
  "empty_answer = \<lparr>aa_content = [], aa_progress = [], aa_final = False, aa_calls = [], aa_positions = [], aa_budget = None,
     aa_reason = ''stop'', aa_stopped = False\<rparr>"

fun collect_answer :: "loop_out list \<Rightarrow> answer_acc \<Rightarrow> (string \<times> string) + answer_acc" where
  "collect_answer [] acc = Inr acc"
| "collect_answer (OutError m code # os) acc = Inl (m, code)"
| "collect_answer (OutChunk c # os) acc = collect_answer os (collect_chunk c acc)"

record agent_response =
  ar_content :: string
  ar_toolCallCount :: nat
  ar_budget :: "(nat \<times> int) option"
  ar_stopReason :: string
  ar_stopped :: bool
  ar_toolCalls :: "collected_call list"

text \<open>\<open>counts\<close> is what \<open>onToolCallCount\<close> was told; a stream that throws makes \<open>process\<close> throw.\<close>

definition agent_response_of :: "nat list \<Rightarrow> answer_acc \<Rightarrow> agent_response" where
  "agent_response_of counts acc =
     \<lparr>ar_content = (if aa_final acc then aa_content acc else aa_progress acc @ aa_content acc),
      ar_toolCallCount = (if counts = [] then length (aa_calls acc) else last counts),
      ar_budget = aa_budget acc, ar_stopReason = aa_reason acc, ar_stopped = aa_stopped acc, ar_toolCalls = aa_calls acc\<rparr>"

definition agent_process ::
    "agent_config \<Rightarrow> (nat \<Rightarrow> agent_env) \<Rightarrow> loop_input \<Rightarrow> string + (string \<times> string) + agent_response" where
  "agent_process ac env li =
     (case run_agent ac env li of
        (LoopThrew e, st) \<Rightarrow> Inl e
      | (Finished ok, st) \<Rightarrow>
          Inr (case collect_answer (ls_out st) empty_answer of
                 Inl e \<Rightarrow> Inl e
               | Inr acc \<Rightarrow> Inr (agent_response_of (ls_counts st) acc)))"

end
