(* ===== verification/AgentProps.thy ===== *)
theory AgentProps
  imports AgentLoop ToolLoopProps
begin

text \<open>
  What the loop of \<open>SmartAgent\<close> promises, with the invariants of the tool loop; and two ways in which the calls it hands
  to the consumer differ from those it read.
\<close>

subsection \<open>Stages\<close>

definition agent_inv :: "chat_message list \<Rightarrow> loop_config \<Rightarrow> nat \<Rightarrow> loop_state \<Rightarrow> bool" where
  "agent_inv given cfg k st \<longleftrightarrow> loop_ok given st \<and> loop_inv cfg k st"

definition agent_fin :: "chat_message list \<Rightarrow> loop_config \<Rightarrow> nat \<Rightarrow> loop_end \<Rightarrow> loop_state \<Rightarrow> bool" where
  "agent_fin given cfg k e st \<longleftrightarrow> requests_paired given st \<and> loop_fin cfg k e st"

abbreviation agent_sound :: "chat_message list \<Rightarrow> loop_config \<Rightarrow> nat \<Rightarrow> turn_result \<Rightarrow> bool" where
  "agent_sound given cfg k \<equiv> turn_sat (agent_inv given cfg k) (agent_fin given cfg k)"

lemma agent_invD: "agent_inv given cfg k st \<Longrightarrow> loop_ok given st" "agent_inv given cfg k st \<Longrightarrow> loop_inv cfg k st"
  by (simp_all add: agent_inv_def)

lemma agent_inv_cong:
  assumes "agent_inv given cfg k st" "ls_strategy st' = ls_strategy st" "ls_prefix st' = ls_prefix st" "ls_tail st' = ls_tail st"
    "ls_messages st' = ls_messages st" "ls_requests st' = ls_requests st" "ls_dispatched st' = ls_dispatched st"
    "ls_count st' = ls_count st" "ls_out st' = ls_out st @ os" "quiet os" "ls_pending st' = ls_pending st"
  shows "agent_inv given cfg k st'"
  using assms loop_ok_cong [of given st st'] loop_inv_cong [of cfg k st st' os] by (simp add: agent_inv_def)

lemma agent_fin_emit:
  assumes "agent_inv given cfg k st" "ends_with e (ls_out st @ os)"
  shows "agent_fin given cfg k e (emit os st)"
  using assms loop_invD [of cfg k st] by (auto simp: agent_inv_def agent_fin_def loop_fin_def loop_ok_def)

lemma agent_sound_both: "keeps_pairs given r \<Longrightarrow> sound_turn cfg k r \<Longrightarrow> agent_sound given cfg k r"
  by (cases r) (simp_all add: agent_inv_def agent_fin_def)

lemma finalize_agent:
  assumes "agent_inv given cfg k st"
  shows "agent_sound given cfg k (agent_finalize ac content reason st)"
proof -
  define shown where "shown = (case ac_before ac of
      Some hook \<Rightarrow> map (\<lambda>s. text_out (wrapped ac s)) (hook content (ls_messages st))
    | None \<Rightarrow> if ac_wrap ac \<noteq> None \<and> content \<noteq> [] then [text_out (wrapped ac content)] else [])"
  have "quiet shown" by (cases "ac_before ac") (simp_all add: shown_def quiet_def list_all_iff)
  then have "ends_with (Finished True) (ls_out st @ shown @ [end_out ''final'', last_chunk [] r])" for r
    using loop_invD(1) [OF agent_invD(2) [OF assms]]
    by (auto simp: last_chunk_def intro!: exI [of _ "ls_out st @ shown @ [end_out ''final'']"])
  then show ?thesis
    using agent_fin_emit [OF assms] by (simp add: agent_finalize_def Let_def flip: shown_def)
qed

lemma task_finished_agent:
  assumes "agent_inv given cfg k st"
  shows "agent_sound given cfg k (agent_task_finished ac output st)"
proof -
  have "agent_inv given cfg k (emit [text_out output] st)"
    by (rule agent_inv_cong [OF assms, where os = "[text_out output]"]) simp_all
  then show ?thesis using assms by (simp add: agent_task_finished_def finalize_agent)
qed

lemma last_agent:
  assumes "agent_inv given cfg k st" "lc_finish c \<noteq> None"
  shows "agent_fin given cfg k (Finished True) (emit [OutChunk c] st)"
  by (rule agent_fin_emit [OF assms(1)]) (use assms loop_invD(1) [OF agent_invD(2) [OF assms(1)]] in auto)

lemma error_agent: "agent_inv given cfg k st \<Longrightarrow> agent_fin given cfg k (Finished False) (emit [OutError m c] st)"
  by (rule agent_fin_emit) (auto dest: agent_invD loop_invD)

lemma head_agent:
  assumes "agent_inv given cfg k st"
  shows "agent_sound given cfg k (agent_head ac te i st)"
proof -
  have "agent_fin given cfg k (Finished True) (emit [last_chunk s r] st)" for s r
    unfolding last_chunk_def by (rule last_agent [OF assms]) simp
  moreover have "agent_fin given cfg k (Finished True) (emit [OutChunk ((chunk_of s)\<lparr>lc_finish := Some ''stop'', lc_stopped := True\<rparr>)] st)" for s
    by (rule last_agent [OF assms]) simp
  ultimately show ?thesis
    using assms error_agent [OF assms] by (simp add: agent_head_def task_finished_agent split: option.split)
qed

lemma tools_agent:
  assumes "agent_tools ac ae i st = Inr st'" "agent_inv given (ac_loop ac) k st"
  shows "agent_inv given (ac_loop ac) k st'"
proof -
  define cfg where "cfg = ac_loop ac"
  obtain st1 where st1: "(if i > 0 \<and> lp_refresh cfg then refresh_tools cfg (ae_turn ae) st else Inr st) = Inr st1"
    using assms(1) unfolding agent_tools_def cfg_def [symmetric] Let_def by (auto split: sum.splits)
  obtain st2 where st2: "(if i > 0 \<and> lp_reselect cfg then agent_reselect ac ae st1 else Inr st1) = Inr st2"
      "st' = offer_tools cfg (ae_turn ae) st2"
    using assms(1) unfolding agent_tools_def cfg_def [symmetric] Let_def st1 by (auto split: sum.splits)
  have inv1: "agent_inv given cfg k st1"
    by (rule agent_inv_cong [OF assms(2) [folded cfg_def], where os = "[]"])
      (use st1 in \<open>auto simp: refresh_tools_def split: if_splits sum.splits\<close>)
  have inv2: "agent_inv given cfg k st2"
    by (rule agent_inv_cong [OF inv1, where os = "[]"])
      (use st2(1) in \<open>auto simp: agent_reselect_def Let_def split: if_splits sum.splits option.splits\<close>)
  obtain os where os: "ls_out st' = ls_out st2 @ os" "os = [] \<or> (\<exists>x. os = [budget_chunk cfg x])"
    using offer_tools_frame(8) [of cfg "ae_turn ae" st2] by (auto simp: st2(2))
  have "quiet os" using os(2) by auto
  then show ?thesis
    unfolding cfg_def [symmetric] by (intro agent_inv_cong [OF inv2 _ _ _ _ _ _ _ os(1)]) (simp_all add: st2(2) offer_tools_frame)
qed

subsection \<open>A round\<close>

lemma batch_agent:
  assumes "agent_sound given (ac_loop ac) k (internal_stage (ac_loop ac) te content rej calls internal unknown n st)"
  shows "agent_sound given (ac_loop ac) k (agent_batch ac te content rej calls internal unknown n st)"
  using assms by (simp add: agent_batch_def)

lemma external_agent:
  assumes inv: "agent_inv given (ac_loop ac) k st" and room: "within_budget (ac_loop ac) (ls_count st + length batch)"
  shows "agent_sound given (ac_loop ac) k (agent_external ac te content rej batch skipped external st)"
proof -
  define cfg where "cfg = ac_loop ac"
  define st1 where "st1 = (if lp_guard cfg = None then st else emit [surfaced external] st)"
  have inv1: "agent_inv given cfg k st1"
    by (rule agent_inv_cong [OF inv [folded cfg_def], where os = "if lp_guard cfg = None then [] else [surfaced external]"])
      (simp_all add: st1_def)
  have room1: "within_budget cfg (ls_count st1 + length batch)" using room by (simp add: st1_def cfg_def)
  obtain sent pending cache where f: "fireInternalToolsAsync cfg (tn_batch te) (Some rej) (ls_clients st1) content batch skipped
      (ls_pending st1) (ls_cache st1) = (sent, pending, cache)" by (metis surj_pair)
  let ?st2 = "st1\<lparr>ls_pending := pending, ls_cache := cache, ls_dispatched := ls_dispatched st1 @ sent\<rparr>"
  let ?st3 = "if batch = [] then ?st2 else tell_count (ls_count ?st2 + length batch) ?st2"
  let ?st4 = "if budget_spent cfg ?st3 then emit [budget_chunk cfg ?st3] ?st3 else ?st3"
  have "loop_inv cfg k ?st4" if "batch @ skipped \<noteq> []"
    by (rule fire_sound [OF agent_invD(2) [OF inv1] room1 that f]) simp
  moreover have "loop_ok given ?st4"
    by (rule loop_ok_cong [OF agent_invD(1) [OF inv1]]) simp_all
  ultimately have inv4: "agent_inv given cfg k (if batch @ skipped = [] then st1 else ?st4)"
    using inv1 by (cases "batch @ skipped = []") (simp_all only: agent_inv_def if_True if_False simp_thms)
  have "agent_external ac te content rej batch skipped external st = Ended (Finished True)
      (emit [last_chunk (bufferedFallback ac (if batch @ skipped = [] then st1 else ?st4)) ''tool_calls'']
        (if batch @ skipped = [] then st1 else ?st4))"
    unfolding agent_external_def Let_def cfg_def [symmetric] st1_def [symmetric] f prod.case by (rule refl)
  then show ?thesis
    using last_agent [OF inv4] by (simp add: last_chunk_def cfg_def)
qed

lemma execute_agent:
  assumes inv: "agent_inv given (ac_loop ac) k st" and calls: "distinct calls" "internal = filter P calls" "unknown = filter Q calls"
    and apart: "\<And>c. \<not> (P c \<and> Q c)" and known: "\<And>c. P c \<Longrightarrow> rc_name c \<in> set (map fst (ls_clients st))"
    and some: "internal \<noteq> [] \<or> unknown \<noteq> [] \<or> external \<noteq> []"
  shows "agent_sound given (ac_loop ac) k (agent_execute ac te content rej calls internal external unknown st)"
proof (cases "external = []")
  case True
  have "\<forall>c \<in> set internal. rc_name c \<in> set (map fst (ls_clients st))" using known calls(2) by auto
  then have "agent_sound given (ac_loop ac) k
      (internal_stage (ac_loop ac) te content rej calls internal unknown (batch_limit (ac_loop ac) st internal) st)"
    using True some
    by (intro agent_sound_both internal_sound [OF agent_invD(2) [OF inv] refl] internal_pairs [OF agent_invD(1) [OF inv] calls apart known]) auto
  then show ?thesis using True batch_agent by (simp add: agent_execute_def Let_def)
next
  case False
  let ?st = "resolve_unknown content unknown st"
  have inv2: "agent_inv given (ac_loop ac) k ?st"
    using inv by (simp add: agent_inv_def resolve_sound resolve_pairs)
  have "within_budget (ac_loop ac) (ls_count ?st + length (take (batch_limit (ac_loop ac) st internal) internal))"
    using batch_limit_room [OF agent_invD(2) [OF inv], of internal] by simp
  from external_agent [OF inv2 this] show ?thesis using False by (simp add: agent_execute_def Let_def)
qed

lemma round_agent:
  assumes "agent_inv given (ac_loop ac) k st" "toolCalls \<noteq> []"
  shows "agent_sound given (ac_loop ac) k (agent_round ac te content toolCalls st)"
proof -
  let ?calls = "enumerate 0 toolCalls" and ?cfg = "ac_loop ac"
  obtain rej c st1 where g: "guard_stage ?cfg te ?calls st = (rej, c, st1)" by (metis surj_pair)
  obtain blocked where c: "c = classifyToolCalls ?calls (map fst (ls_clients st)) (map tl_name (lp_external ?cfg)) blocked"
      and st1: "st1 = st\<lparr>ls_avail := ls_avail st1\<rparr>"
    using guard_stage_cases [OF g] by blast
  let ?external = "filter (\<lambda>x. map_of rej (fst x) = None) (cl_external c)"
  let ?rejected = "filter (\<lambda>x. map_of rej (fst x) \<noteq> None) (cl_external c)"
  let ?st2 = "resolve_rejected content rej ?rejected st1"
  have "agent_inv given ?cfg k st1" by (rule agent_inv_cong [OF assms(1), where os = "[]"]) (subst st1, simp | simp)+
  then have inv2: "agent_inv given ?cfg k ?st2" by (simp add: agent_inv_def resolve_sound resolve_pairs)
  have blocked_round: "agent_inv given ?cfg k (record_round (buildBlockedToolMessages content (cl_blocked c)) ?st2)" if "cl_blocked c \<noteq> []"
    using that inv2 unfolding buildBlockedToolMessages_def agent_inv_def
    by (auto intro!: record_round_ok paired_request resolve_sound(4) simp del: mset_map)
  have clients: "ls_clients ?st2 = ls_clients st" using st1 by (metis loop_state.select_convs(7) loop_state.surjective loop_state.update_convs(11) resolve_frame(3))
  have exec: "agent_sound given ?cfg k (agent_execute ac te content rej ?calls (cl_internal c) ?external (cl_unknown c) ?st2)"
    if "cl_internal c \<noteq> [] \<or> cl_unknown c \<noteq> [] \<or> ?external \<noteq> []"
  proof (rule execute_agent [OF inv2])
    show "cl_internal c = filter (\<lambda>x. rc_name x \<in> set (map fst (ls_clients st))) ?calls"
      by (simp add: c classifyToolCalls_def)
    show "cl_unknown c = filter (\<lambda>x. rc_name x \<notin> set blocked \<and> rc_name x \<notin> set (map fst (ls_clients st))
        \<and> rc_name x \<notin> set (map tl_name (lp_external ?cfg))) ?calls"
      by (simp add: c classifyToolCalls_def)
  qed (use that clients in auto)
  obtain x where x: "x \<in> set ?calls" using assms(2) by (cases toolCalls) auto
  then have "x \<in> set (cl_internal c) \<or> x \<in> set (cl_unknown c) \<or> x \<in> set (cl_blocked c) \<or> x \<in> set (cl_external c)"
    by (auto simp: c classifyToolCalls_def)
  then have some: "cl_internal c \<noteq> [] \<or> cl_unknown c \<noteq> [] \<or> cl_blocked c \<noteq> [] \<or> ?external \<noteq> [] \<or> ?rejected \<noteq> []"
    by (cases "map_of rej (fst x) = None") (auto simp: filter_empty_conv)
  show ?thesis
    using inv2 blocked_round exec some by (auto simp: agent_round_def Let_def g)
qed

subsection \<open>An iteration and the loop\<close>

lemma agent_chunk_quiet: "quiet (sa_out (fst s)) \<Longrightarrow> quiet (sa_out (fst (agent_chunk ac c s)))"
  by (cases s) (simp add: agent_chunk_def Let_def delta_out_def split: option.split)

lemma agent_stream_quiet: "quiet (sa_out (agent_stream ac chunks u))"
proof -
  have "quiet (sa_out (fst s)) \<Longrightarrow> quiet (sa_out (fst (fold (agent_chunk ac) chunks s)))" for s
    by (induction chunks arbitrary: s) (simp_all add: agent_chunk_quiet)
  then show ?thesis by (simp add: agent_stream_def)
qed

lemma after_reply_frame:
  "ls_strategy (after_reply ac acc e st) = ls_strategy st" "ls_prefix (after_reply ac acc e st) = ls_prefix st"
  "ls_tail (after_reply ac acc e st) = ls_tail st" "ls_messages (after_reply ac acc e st) = ls_messages st"
  "ls_requests (after_reply ac acc e st) = ls_requests st" "ls_dispatched (after_reply ac acc e st) = ls_dispatched st"
  "ls_count (after_reply ac acc e st) = ls_count st" "ls_pending (after_reply ac acc e st) = ls_pending st"
  by (simp_all add: after_reply_def Let_def)

lemma after_reply_agent:
  assumes "agent_inv given cfg k st"
  shows "agent_inv given cfg k (after_reply ac acc e st)"
proof -
  obtain os where os: "ls_out (after_reply ac acc e st) = ls_out st @ os" "quiet os"
    by (rule that [of "(if (if ac_wrap ac = None \<and> lp_streamFinal (ac_loop ac) then sa_content acc else []) \<noteq> [] \<and> e = ''final''
        then [text_out (if ac_wrap ac = None \<and> lp_streamFinal (ac_loop ac) then sa_content acc else [])] else [])
        @ (if e \<noteq> ''final'' then [end_out e] else [])"]) (simp_all add: after_reply_def Let_def)
  show ?thesis by (rule agent_inv_cong [OF assms _ _ _ _ _ _ _ os]) (simp_all add: after_reply_frame)
qed

lemma reprompt_agent:
  assumes "agent_inv given cfg k st"
  shows "agent_inv given cfg k (reform (st\<lparr>ls_tail := ls_tail st @ reprompt_messages content c\<rparr>))"
proof -
  have "paired (reprompt_messages content c)"
    unfolding reprompt_messages_def by (intro paired_plain) (simp_all add: calls_of_def)
  then have "loop_ok given (reform (st\<lparr>ls_tail := ls_tail st @ reprompt_messages content c\<rparr>))"
    using agent_invD(1) [OF assms] by (intro reform_ok) (simp_all add: loop_ok_def paired_append)
  moreover have "loop_inv cfg k (reform (st\<lparr>ls_tail := ls_tail st @ reprompt_messages content c\<rparr>))"
    by (rule loop_inv_cong [OF agent_invD(2) [OF assms], where os = "[]"]) simp_all
  ultimately show ?thesis by (simp add: agent_inv_def)
qed

lemma reply_agent:
  assumes "agent_inv given (ac_loop ac) k st"
  shows "agent_sound given (ac_loop ac) (k + 1) (agent_reply ac te st)"
proof -
  let ?cfg = "ac_loop ac"
  let ?ms = "toModelToolMessages (ls_messages st) (lp_trust ?cfg)"
  let ?st1 = "st\<lparr>ls_requests := ls_requests st @ [(?ms, ls_tools st)]\<rparr>"
  obtain chunks failure where llm: "tn_llm te ?ms (ls_tools st) = (chunks, failure)" by (metis surj_pair)
  define acc where "acc = agent_stream ac chunks (ls_usage ?st1)"
  define st2 where "st2 = (emit (sa_out acc) ?st1)\<lparr>ls_usage := sa_usage acc\<rparr>"
  define calls where "calls = (sa_finish acc = Some ''tool_calls'' \<and> parsed_calls acc \<noteq> [])"
  define val where "val = (if calls then Inr (False, ls_messages st2)
      else runOutputValidationReprompt (tn_validate te) (lp_trust ?cfg) (sa_content acc) (ls_messages st2) (ls_tools st2))"
  define st3 where "st3 reprompt = after_reply ac acc (reply_end calls reprompt) st2" for reprompt
  have "adds_paired given ?ms" using agent_invD(1) [OF assms] by (simp add: loop_ok_def toModelToolMessages_adds)
  then have "loop_ok given st2" using agent_invD(1) [OF assms] by (simp add: st2_def loop_ok_def)
  moreover have "loop_inv ?cfg (k + 1) st2"
    using loop_invD [OF agent_invD(2) [OF assms]] by (simp add: st2_def loop_inv_def acc_def agent_stream_quiet)
  ultimately have inv2: "agent_inv given ?cfg (k + 1) st2" by (simp add: agent_inv_def)
  have inv3: "agent_inv given ?cfg (k + 1) (st3 b)" for b unfolding st3_def by (rule after_reply_agent [OF inv2])
  have r: "agent_reply ac te st = (case failure of
       ModelThrew e \<Rightarrow> Ended (LoopThrew e) st2
     | ModelFailed message \<Rightarrow> Ended (Finished False) (emit [OutError message ''LLM_ERROR''] st2)
     | ModelDone \<Rightarrow> (case val of
         Inl e \<Rightarrow> Ended (LoopThrew e) st2
       | Inr (reprompt, messages1) \<Rightarrow>
           if calls then agent_round ac te (sa_content acc) (parsed_calls acc) (st3 reprompt)
           else if reprompt then
             Next (reform (st3 reprompt\<lparr>ls_tail := ls_tail (st3 reprompt) @ drop (length (ls_messages st2)) messages1\<rparr>))
           else agent_finalize ac (sa_content acc) (sa_finish acc) (st3 reprompt)))"
    unfolding agent_reply_def Let_def llm prod.case acc_def [symmetric] st2_def [symmetric] calls_def [symmetric]
      val_def [symmetric] st3_def by (rule refl)
  have val: "\<exists>c. drop (length (ls_messages st2)) messages1 = reprompt_messages (sa_content acc) c" if "val = Inr (True, messages1)" for messages1
    using that by (auto simp: val_def runOutputValidationReprompt_def split: if_splits sum.splits option.splits)
  have threw: "agent_fin given ?cfg (k + 1) (LoopThrew e) st2" for e
    using inv2 loop_invD [OF agent_invD(2) [OF inv2]] by (simp add: agent_fin_def loop_fin_def agent_inv_def loop_ok_def)
  show ?thesis
    unfolding r using error_agent [OF inv2] round_agent [OF inv3] finalize_agent [OF inv3] reprompt_agent [OF inv3] val threw
    by (auto simp: calls_def split: model_end.split sum.split)
qed

lemma agent_inv_Suc: "agent_inv given cfg k st \<Longrightarrow> agent_inv given cfg (k + 1) st"
  unfolding agent_inv_def using loop_inv_Suc by blast

lemma turn_agent:
  assumes "agent_inv given (ac_loop ac) k st"
  shows "agent_sound given (ac_loop ac) (k + 1) (agent_turn ac ae k st)"
proof (cases "agent_head ac (ae_turn ae) k st")
  case (Ended e st1)
  then show ?thesis using head_agent [OF agent_inv_Suc [OF assms], of ac "ae_turn ae" k] by (simp add: agent_turn_def)
next
  case (Next st1)
  then have inv1: "agent_inv given (ac_loop ac) k st1" using head_agent [OF assms, of ac "ae_turn ae" k] by simp
  show ?thesis
  proof (cases "agent_tools ac ae k st1")
    case (Inl e)
    then show ?thesis
      using Next loop_invD [OF agent_invD(2) [OF inv1]] loop_ok_requests [OF agent_invD(1) [OF inv1]]
      by (simp add: agent_turn_def agent_fin_def loop_fin_def)
  next
    case (Inr st2)
    have "agent_inv given (ac_loop ac) k st2" by (rule tools_agent [OF Inr inv1])
    then show ?thesis
      using Next Inr reply_agent [of given ac k st2 "ae_turn ae"] task_finished_agent [OF agent_inv_Suc, of given "ac_loop ac" k st2]
      by (simp add: agent_turn_def split: option.split)
  qed
qed

lemma agent_head_at_limit: "\<exists>e st'. agent_head ac te (lp_maxIterations (ac_loop ac)) st = Ended e st'"
  by (simp add: agent_head_def agent_task_finished_def agent_finalize_def Let_def split: option.split)

lemma agent_fin_mono: "agent_fin given cfg k e st \<Longrightarrow> k \<le> n \<Longrightarrow> agent_fin given cfg n e st"
  unfolding agent_fin_def using loop_fin_mono by blast

lemma agent_turn_fin:
  assumes "agent_inv given (ac_loop ac) k st" "k \<le> lp_maxIterations (ac_loop ac)" "agent_turn ac ae k st = Ended e st'"
  shows "agent_fin given (ac_loop ac) (lp_maxIterations (ac_loop ac)) e st'"
proof (cases "k = lp_maxIterations (ac_loop ac)")
  case False
  then show ?thesis using turn_agent [OF assms(1), of ae] assms(2,3) agent_fin_mono by fastforce
next
  case True
  then have "agent_head ac (ae_turn ae) k st = Ended e st'"
    using agent_head_at_limit [of ac "ae_turn ae" st] assms(3) by (auto simp: agent_turn_def)
  then show ?thesis using head_agent [OF assms(1), of ac "ae_turn ae" k] True by simp
qed

lemma agent_loop_sound:
  assumes "agent_loop ac env k st = (e, st')" "agent_inv given (ac_loop ac) k st" "k \<le> lp_maxIterations (ac_loop ac)"
  shows "agent_fin given (ac_loop ac) (lp_maxIterations (ac_loop ac)) e st'"
  using assms
proof (induction "lp_maxIterations (ac_loop ac) - k" arbitrary: k st rule: less_induct)
  case less
  show ?case
  proof (cases "agent_turn ac (env k) k st")
    case (Ended e1 st1)
    then show ?thesis using less.prems agent_turn_fin [OF less.prems(2,3) Ended] by (simp add: agent_loop.simps [of _ _ k])
  next
    case (Next st1)
    then show ?thesis
      using less.prems less.hyps [of "k + 1" st1] turn_agent [OF less.prems(2), of "env k"] agent_turn_Next [OF Next]
      by (simp add: agent_loop.simps [of _ _ k])
  qed
qed

text \<open>C29. The loop of \<open>SmartAgent\<close> ends every request after at most \<open>maxIterations\<close> requests to the model.  Each is the
  assembled context followed by a paired transcript, and so paired when that context is.  The request ends with exactly one
  chunk with a finish reason or exactly one error, its last output, or the loop throws with no terminal output; no more
  tools than the budget are dispatched, and what is kept for the next request is paired, as it was before.\<close>

theorem agent_loop_is_sound:
  assumes "run_agent ac env li = (e, st)" "input_ok li"
  shows "(\<forall>(ms, ts) \<in> set (ls_requests st). adds_paired (li_assembled li) ms \<and> (paired (li_assembled li) \<longrightarrow> paired ms))
    \<and> length (ls_requests st) \<le> lp_maxIterations (ac_loop ac)
    \<and> ends_with e (ls_out st) \<and> within_budget (ac_loop ac) (length (ls_dispatched st)) \<and> pending_ok (ls_pending st)"
proof -
  have "agent_inv (li_assembled li) (ac_loop ac) 0 (start_state (ac_loop ac) li)"
    using start_state_ok [OF assms(2)] by (simp add: agent_inv_def)
  from agent_loop_sound [OF assms(1) [unfolded run_agent_def] this] show ?thesis
    using adds_paired_paired by (auto simp: agent_fin_def loop_fin_def)
qed

subsection \<open>Calls handed to the consumer\<close>

definition delta_chunk :: "nat \<Rightarrow> string \<Rightarrow> string \<Rightarrow> string \<Rightarrow> llm_chunk" where
  "delta_chunk i cid name args = (chunk_of [])\<lparr>lc_toolCalls :=
     Some [DeltaCall \<lparr>cd_index = i, cd_id = Some cid, cd_name = Some name, cd_arguments = Some args\<rparr>]\<rparr>"

definition reset_of_stream :: llm_chunk where
  "reset_of_stream = (chunk_of [])\<lparr>lc_reset := True\<rparr>"

definition broken_stream :: "nat \<Rightarrow> string \<Rightarrow> string \<Rightarrow> string \<Rightarrow> string \<Rightarrow> llm_chunk list" where
  "broken_stream i cid name part whole = [delta_chunk i cid name part, reset_of_stream, delta_chunk i cid name whole]"

lemma agent_chunk_delta:
  assumes "lp_guard (ac_loop ac) = None" "name \<in> set (map tl_name (lp_external (ac_loop ac)))" "name \<noteq> []"
  shows "agent_chunk ac (delta_chunk i cid name args) (acc, idx) =
    (acc\<lparr>sa_out := sa_out acc @ [OutChunk (delta_chunk i cid name args)],
         sa_calls := merge_delta \<lparr>cd_index = i, cd_id = Some cid, cd_name = Some name, cd_arguments = Some args\<rparr> (sa_calls acc)\<rparr>, idx @ [i])"
proof -
  define call where "call = DeltaCall \<lparr>cd_index = i, cd_id = Some cid, cd_name = Some name, cd_arguments = Some args\<rparr>"
  have delta: "toToolCallDelta call j = \<lparr>cd_index = i, cd_id = Some cid, cd_name = Some name, cd_arguments = Some args\<rparr>" for j
    by (simp add: call_def toToolCallDelta_def)
  have "getStreamToolCallName call = Some name" by (simp add: call_def getStreamToolCallName_def)
  then have "external_indices (ac_loop ac) [call] = [i]" "external_deltas (idx @ [i]) [call] = [call]"
    using assms(2,3) by (simp_all add: external_indices_def external_deltas_def delta)
  then show ?thesis
    using assms(1) by (simp add: agent_chunk_def delta_chunk_def delta delta_out_def Let_def flip: call_def)
qed

lemma agent_chunk_reset:
  "agent_chunk ac reset_of_stream (acc, idx) =
    (acc\<lparr>sa_content := [], sa_finish := None, sa_calls := [], sa_out := sa_out acc @ [end_out ''retry'']\<rparr>, [])"
  by (simp add: agent_chunk_def reset_of_stream_def)

lemma broken_stream_read:
  assumes "lp_guard (ac_loop ac) = None" "name \<in> set (map tl_name (lp_external (ac_loop ac)))" "name \<noteq> []"
  shows "map snd (sa_calls (agent_stream ac (broken_stream i cid name part whole) u)) = [(cid, name, whole)]"
    and "sa_out (agent_stream ac (broken_stream i cid name part whole) u)
      = [OutChunk (delta_chunk i cid name part), end_out ''retry'', OutChunk (delta_chunk i cid name whole)]"
  by (simp_all add: agent_stream_def broken_stream_def agent_chunk_delta [OF assms] agent_chunk_reset merge_delta_def)

lemma collect_delta:
  "collect_chunk (delta_chunk i cid name args) acc =
    collect_call (DeltaCall \<lparr>cd_index = i, cd_id = Some cid, cd_name = Some name, cd_arguments = Some args\<rparr>) acc"
  by (simp add: collect_chunk_def delta_chunk_def end_iteration_def)

lemma collect_retry: "collect_chunk ((chunk_of [])\<lparr>lc_iterationEnd := Some ''retry''\<rparr>) acc = acc\<lparr>aa_content := [], aa_final := False\<rparr>"
  by (simp add: collect_chunk_def end_iteration_def)

lemma collect_first:
  assumes "aa_calls acc = []" "aa_positions acc = []" "name \<noteq> []"
  shows "collect_chunk (delta_chunk i cid name args) acc =
    acc\<lparr>aa_calls := [\<lparr>cc_id = cid, cc_name = name, cc_arguments = args\<rparr>], aa_positions := [(i, 0)]\<rparr>"
  using assms by (simp add: collect_delta collect_call_def toToolCallDelta_def call_position_def Let_def)

lemma collect_again:
  assumes "aa_calls acc = [\<lparr>cc_id = cid, cc_name = name, cc_arguments = part\<rparr>]" "aa_positions acc = [(i, 0)]"
  shows "collect_chunk (delta_chunk i cid name args) acc =
    acc\<lparr>aa_calls := [\<lparr>cc_id = cid, cc_name = name, cc_arguments = part @ args\<rparr>]\<rparr>"
  using assms by (simp add: collect_delta collect_call_def toToolCallDelta_def call_position_def Let_def)

text \<open>C30. A stream that breaks inside an external call and is retried reads the call of the retry alone, but the answer of
  \<open>process\<close> has the arguments of both attempts glued together.\<close>

theorem retried_call_is_glued:
  assumes "lp_guard (ac_loop ac) = None" "name \<in> set (map tl_name (lp_external (ac_loop ac)))" "name \<noteq> []"
    and "acc = agent_stream ac (broken_stream i cid name part whole) u"
  shows "map snd (sa_calls acc) = [(cid, name, whole)]
    \<and> (\<exists>ans. collect_answer (sa_out acc) empty_answer = Inr ans
        \<and> aa_calls ans = [\<lparr>cc_id = cid, cc_name = name, cc_arguments = part @ whole\<rparr>])"
proof -
  have "\<exists>ans. collect_answer (sa_out acc) empty_answer = Inr ans
      \<and> aa_calls ans = [\<lparr>cc_id = cid, cc_name = name, cc_arguments = part @ whole\<rparr>]"
    unfolding assms(4) broken_stream_read(2) [OF assms(1-3)]
    by (simp add: collect_retry collect_first [OF _ _ assms(3)] collect_again empty_answer_def)
  then show ?thesis using broken_stream_read(1) [OF assms(1-3)] by (simp add: assms(4))
qed

text \<open>A reply that is not streamed carries whole calls without an index; when one of them is external, all calls of the
  reply, the internal ones too, are handed to the consumer as external calls.\<close>

theorem whole_round_is_handed_out:
  assumes "lp_guard (ac_loop ac) = None" "x \<in> set cs" "pc_name x \<noteq> []" "pc_name x \<in> set (map tl_name (lp_external (ac_loop ac)))"
    and "\<not> lc_reset c" "lc_toolCalls c = Some (map WholeCall cs)"
  shows "delta_out (map WholeCall cs) \<in> set (sa_out (agent_stream ac [c] u))"
proof -
  have index: "cd_index (toToolCallDelta (WholeCall y) 0) = 0" for y by (simp add: toToolCallDelta_def)
  have "0 \<in> set (external_indices (ac_loop ac) (map WholeCall cs))"
    using assms(2-4) index by (force simp: external_indices_def getStreamToolCallName_def)
  then have "external_deltas (external_indices (ac_loop ac) (map WholeCall cs)) (map WholeCall cs) = map WholeCall cs"
    by (simp add: external_deltas_def index filter_map o_def)
  then show ?thesis
    using assms by (auto simp: agent_stream_def agent_chunk_def Let_def split: option.split)
qed

subsection \<open>Runs\<close>

definition sample_agent :: agent_config where
  "sample_agent = \<lparr>ac_loop = sample_loop_config, ac_wrap = None, ac_before = None\<rparr>"

definition external_agent_config :: agent_config where
  "external_agent_config = sample_agent\<lparr>ac_loop := sample_loop_config\<lparr>lp_external :=
     [\<lparr>tl_name = ''Ask'', tl_description = [], tl_schema = JObj []\<rparr>]\<rparr>\<rparr>"

definition sample_agent_env :: "nat \<Rightarrow> agent_env" where
  "sample_agent_env k = \<lparr>ae_turn = sample_turn k, ae_again = []\<rparr>"

lemma sample_agent_run:
  "(case run_agent sample_agent sample_agent_env sample_input of (e, st) \<Rightarrow> (e, length (ls_requests st), map rc_id (ls_dispatched st)))
   = (Finished True, 2, [''c0''])"
  by code_simp

lemma agent_loop_is_sound_witness:
  "\<exists>st. run_agent sample_agent sample_agent_env sample_input = (Finished True, st) \<and> length (ls_requests st) = 2
     \<and> length (ls_dispatched st) = 1 \<and> ends_with (Finished True) (ls_out st) \<and> (\<forall>(ms, ts) \<in> set (ls_requests st). paired ms)"
proof -
  obtain st where st: "run_agent sample_agent sample_agent_env sample_input = (Finished True, st)"
      "length (ls_requests st) = 2" "map rc_id (ls_dispatched st) = [''c0'']"
    using sample_agent_run by (auto split: prod.splits)
  from agent_loop_is_sound [OF st(1) sample_input_ok] sample_assembled st show ?thesis by (auto dest: arg_cong [of _ _ length])
qed

lemma retried_call_is_glued_witness:
  "\<exists>ans. collect_answer (sa_out (agent_stream external_agent_config (broken_stream 0 ''c1'' ''Ask'' ''{\"a'' ''{}'')
         \<lparr>us_prompt = 0, us_completion = 0, us_total = 0\<rparr>)) empty_answer = Inr ans
     \<and> aa_calls ans = [\<lparr>cc_id = ''c1'', cc_name = ''Ask'', cc_arguments = ''{\"a{}''\<rparr>]"
  using retried_call_is_glued [OF _ _ _ refl, of external_agent_config "''Ask''" 0 "''c1''" "''{\"a''" "''{}''" "\<lparr>us_prompt = 0, us_completion = 0, us_total = 0\<rparr>"]
  by (simp add: external_agent_config_def sample_loop_config_def)

definition mixed_round :: "parsed_call list" where
  "mixed_round = [\<lparr>pc_id = ''c1'', pc_name = ''Read'', pc_args = JObj []\<rparr>, \<lparr>pc_id = ''c2'', pc_name = ''Ask'', pc_args = JObj []\<rparr>]"

lemma whole_round_is_handed_out_witness:
  "delta_out (map WholeCall mixed_round)
     \<in> set (sa_out (agent_stream external_agent_config [(chunk_of [])\<lparr>lc_toolCalls := Some (map WholeCall mixed_round)\<rparr>]
       \<lparr>us_prompt = 0, us_completion = 0, us_total = 0\<rparr>))"
  by (rule whole_round_is_handed_out [where x = "\<lparr>pc_id = ''c2'', pc_name = ''Ask'', pc_args = JObj []\<rparr>"])
    (simp_all add: external_agent_config_def sample_agent_def sample_loop_config_def mixed_round_def)

end
