(* ===== verification/Resilience.thy ===== *)
theory Resilience
  imports ErrorChain ToolTypes
begin

text \<open>
  Resilience of model calls: the circuit breaker (\<open>resilience/circuit-breaker.ts\<close>), the token bucket
  (\<open>token-bucket-rate-limiter.ts\<close>) and the decorators of an LLM that use them (\<open>circuit-breaker-llm.ts\<close>,
  \<open>retry-llm.ts\<close>, \<open>rate-limiter-llm.ts\<close>).

  A decorated model is a tree of decorators over providers; breakers and limiters are shared objects, named by their
  position in the world.  Every wait (a provider, a backoff, a permit) is numbered, and the environment says how long
  it lasts and in which state it leaves the signal of the caller.
\<close>

subsection \<open>Signals\<close>

datatype signal = NotAborted | AbortedWith "string option"     \<comment> \<open>the name of the reason\<close>

definition isCallerCancellation :: "signal \<Rightarrow> bool" where
  "isCallerCancellation s = (case s of NotAborted \<Rightarrow> False | AbortedWith n \<Rightarrow> n \<noteq> Some ''TimeoutError'')"

subsection \<open>The circuit breaker\<close>

datatype circuit_state = CClosed | COpen | CHalfOpen

record breaker =
  cb_state :: circuit_state
  cb_failures :: nat
  cb_openedAt :: rat
  cb_threshold :: nat
  cb_window :: rat
  cb_changes :: "(circuit_state \<times> circuit_state) list"       \<comment> \<open>what \<open>onStateChange\<close> was told\<close>

definition new_breaker :: "nat option \<Rightarrow> rat option \<Rightarrow> breaker" where
  "new_breaker failureThreshold recoveryWindowMs =
     \<lparr>cb_state = CClosed, cb_failures = 0, cb_openedAt = 0, cb_threshold = nullish failureThreshold 5,
      cb_window = nullish recoveryWindowMs 30000, cb_changes = []\<rparr>"

definition transition :: "circuit_state \<Rightarrow> breaker \<Rightarrow> breaker" where
  "transition to b =
     (if cb_state b = to then b
      else b\<lparr>cb_state := to, cb_failures := (if to = CClosed then 0 else cb_failures b),
             cb_changes := cb_changes b @ [(cb_state b, to)]\<rparr>)"

definition breaker_state :: "rat \<Rightarrow> breaker \<Rightarrow> circuit_state \<times> breaker" where
  "breaker_state now b =
     (let b1 = (if cb_state b = COpen \<and> now - cb_openedAt b \<ge> cb_window b then transition CHalfOpen b else b)
      in (cb_state b1, b1))"

definition recordSuccess :: "breaker \<Rightarrow> breaker" where
  "recordSuccess b = (if cb_state b \<noteq> CClosed then transition CClosed b else b)\<lparr>cb_failures := 0\<rparr>"

definition recordFailure :: "rat \<Rightarrow> breaker \<Rightarrow> breaker" where
  "recordFailure now b =
     (let b1 = b\<lparr>cb_failures := cb_failures b + 1\<rparr> in
      if cb_state b1 = CHalfOpen \<or> cb_failures b1 \<ge> cb_threshold b1 then (transition COpen b1)\<lparr>cb_openedAt := now\<rparr> else b1)"

definition isCallPermitted :: "rat \<Rightarrow> breaker \<Rightarrow> bool \<times> breaker" where
  "isCallPermitted now b = (case breaker_state now b of (s, b1) \<Rightarrow> (s = CClosed \<or> s = CHalfOpen, b1))"

subsection \<open>The token bucket\<close>

record limiter =
  tb_max :: nat
  tb_window :: rat
  tb_stamps :: "rat list"

definition fresh_stamps :: "rat \<Rightarrow> limiter \<Rightarrow> rat list" where
  "fresh_stamps now l = filter (\<lambda>t. now - t < tb_window l) (tb_stamps l)"

text \<open>Up to the wait, which is \<open>Some\<close> when there is one (without a stamp the timer of \<open>NaN\<close> fires after 1 ms).\<close>

definition acquire_start :: "rat \<Rightarrow> limiter \<Rightarrow> rat option \<times> limiter" where
  "acquire_start now l =
     (let ts = fresh_stamps now l in
      if length ts < tb_max l then (None, l\<lparr>tb_stamps := ts @ [now]\<rparr>)
      else (Some (case ts of [] \<Rightarrow> 1 | oldest # _ \<Rightarrow> oldest + tb_window l - now + 1), l\<lparr>tb_stamps := ts\<rparr>))"

definition acquire_finish :: "rat \<Rightarrow> limiter \<Rightarrow> limiter" where
  "acquire_finish now l = l\<lparr>tb_stamps := fresh_stamps now l @ [now]\<rparr>"

subsection \<open>Decorated models\<close>

record retry_options =
  ro_maxAttempts :: nat
  ro_backoffMs :: rat
  ro_retryOn :: "int list"
  ro_midStream :: "string list"

definition default_retry :: retry_options where
  "default_retry = \<lparr>ro_maxAttempts = 3, ro_backoffMs = 2000, ro_retryOn = [429, 500, 502, 503], ro_midStream = []\<rparr>"

datatype llm = Provider nat | CircuitBreakerLlm llm nat | RetryLlm retry_options llm | RateLimiterLlm llm nat

datatype 'r llm_result = LlmOk 'r | LlmErr err_val | LlmThrew err_val

datatype stream_end = SEnd | SError err_val | SThrew err_val

type_synonym llm_stream = "llm_chunk list \<times> stream_end"

record 'r llm_env =
  le_heap :: err_heap
  le_reply :: "nat \<Rightarrow> nat \<Rightarrow> 'r llm_result"          \<comment> \<open>by provider and number of the wait\<close>
  le_stream :: "nat \<Rightarrow> nat \<Rightarrow> llm_stream"            \<comment> \<open>up to its end or its first error\<close>
  le_lasts :: "nat \<Rightarrow> rat"
  le_signal :: "nat \<Rightarrow> signal"                        \<comment> \<open>after this many waits\<close>

record llm_world =
  lw_now :: rat
  lw_waits :: nat
  lw_breakers :: "breaker list"
  lw_limiters :: "limiter list"
  lw_calls :: "nat list"                              \<comment> \<open>the providers called\<close>
  lw_delays :: "rat list"

definition signal_now :: "'r llm_env \<Rightarrow> llm_world \<Rightarrow> signal" where
  "signal_now env w = le_signal env (lw_waits w)"

definition wait_for :: "'r llm_env \<Rightarrow> rat \<Rightarrow> llm_world \<Rightarrow> llm_world" where
  "wait_for env ms w = w\<lparr>lw_now := lw_now w + ms + max 0 (le_lasts env (lw_waits w)), lw_waits := lw_waits w + 1\<rparr>"

definition with_breaker :: "nat \<Rightarrow> (breaker \<Rightarrow> breaker) \<Rightarrow> llm_world \<Rightarrow> llm_world" where
  "with_breaker i f w = w\<lparr>lw_breakers := (lw_breakers w)[i := f (lw_breakers w ! i)]\<rparr>"

definition permitted :: "nat \<Rightarrow> llm_world \<Rightarrow> bool \<times> llm_world" where
  "permitted i w =
     (case isCallPermitted (lw_now w) (lw_breakers w ! i) of (p, b) \<Rightarrow> (p, with_breaker i (\<lambda>_. b) w))"

definition record_result :: "'r llm_env \<Rightarrow> nat \<Rightarrow> bool \<Rightarrow> llm_world \<Rightarrow> llm_world" where
  "record_result env i ok w =
     (if isCallerCancellation (signal_now env w) then w
      else with_breaker i (if ok then recordSuccess else recordFailure (lw_now w)) w)"

abbreviation circuit_open :: err_val where
  "circuit_open \<equiv> Fresh ''LlmError'' ''Circuit breaker is open'' ''CIRCUIT_OPEN''"

abbreviation call_aborted :: err_val where
  "call_aborted \<equiv> Fresh ''LlmError'' ''Aborted'' ''ABORTED''"

definition breaker_chat ::
    "'r llm_env \<Rightarrow> nat \<Rightarrow> (llm_world \<Rightarrow> 'r llm_result \<times> llm_world) \<Rightarrow> llm_world \<Rightarrow> 'r llm_result \<times> llm_world" where
  "breaker_chat env i inner w =
     (case permitted i w of
        (False, w1) \<Rightarrow> (LlmErr circuit_open, w1)
      | (True, w1) \<Rightarrow>
          (case inner w1 of
             (LlmThrew e, w2) \<Rightarrow> (LlmThrew e, w2)
           | (LlmOk r, w2) \<Rightarrow> (LlmOk r, record_result env i True w2)
           | (LlmErr e, w2) \<Rightarrow> (LlmErr e, record_result env i False w2)))"

definition breaker_stream ::
    "'r llm_env \<Rightarrow> nat \<Rightarrow> (llm_world \<Rightarrow> llm_stream \<times> llm_world) \<Rightarrow> llm_world \<Rightarrow> llm_stream \<times> llm_world" where
  "breaker_stream env i inner w =
     (case permitted i w of
        (False, w1) \<Rightarrow> (([], SError circuit_open), w1)
      | (True, w1) \<Rightarrow>
          (case inner w1 of
             ((cs, SEnd), w2) \<Rightarrow> ((cs, SEnd), record_result env i True w2)
           | ((cs, SError e), w2) \<Rightarrow> ((cs, SError e), record_result env i False w2)
           | ((cs, SThrew e), w2) \<Rightarrow>
               ((cs, SError (Fresh ''LlmError'' (error_string (le_heap env) e) ''LLM_ERROR'')), record_result env i False w2)))"

definition llm_isRetryable :: "err_heap \<Rightarrow> retry_options \<Rightarrow> err_val \<Rightarrow> bool" where
  "llm_isRetryable h opts e \<longleftrightarrow> findThrottled h e = None \<and> isRetryableStatus h e (ro_retryOn opts)"

definition isMidStreamRetryable :: "err_heap \<Rightarrow> retry_options \<Rightarrow> err_val \<Rightarrow> bool" where
  "isMidStreamRetryable h opts e = list_ex (\<lambda>sub. sublist sub (error_message h e)) (ro_midStream opts)"

definition backoff :: "'r llm_env \<Rightarrow> retry_options \<Rightarrow> nat \<Rightarrow> llm_world \<Rightarrow> llm_world" where
  "backoff env opts attempt w =
     (let ms = ro_backoffMs opts * 2 ^ attempt in
      if signal_now env w \<noteq> NotAborted \<or> ms \<le> 0 then w
      else (wait_for env (if le_signal env (lw_waits w + 1) = NotAborted then ms else 0) w)\<lparr>lw_delays := lw_delays w @ [ms]\<rparr>)"

function retry_chat ::
    "'r llm_env \<Rightarrow> retry_options \<Rightarrow> (llm_world \<Rightarrow> 'r llm_result \<times> llm_world) \<Rightarrow> nat \<Rightarrow> llm_world \<Rightarrow> 'r llm_result \<times> llm_world" where
  "retry_chat env opts inner attempt w =
     (if signal_now env w \<noteq> NotAborted then (LlmErr call_aborted, w)
      else
        (case inner w of
           (LlmErr e, w1) \<Rightarrow>
             if attempt \<ge> ro_maxAttempts opts \<or> \<not> llm_isRetryable (le_heap env) opts e then (LlmErr e, w1)
             else retry_chat env opts inner (attempt + 1) (backoff env opts attempt w1)
         | (r, w1) \<Rightarrow> (r, w1)))"
  by pat_completeness auto
termination by (relation "measure (\<lambda>(env, opts, inner, attempt, w). ro_maxAttempts opts - attempt)") auto

declare retry_chat.simps [simp del]

text \<open>One attempt's stream: a thrown value becomes an error chunk.\<close>

definition attemptStream :: "'r llm_env \<Rightarrow> (llm_world \<Rightarrow> llm_stream \<times> llm_world) \<Rightarrow> llm_world \<Rightarrow> (llm_chunk list \<times> err_val option) \<times> llm_world" where
  "attemptStream env inner w =
     (case inner w of
        ((cs, SEnd), w1) \<Rightarrow> ((cs, None), w1)
      | ((cs, SError e), w1) \<Rightarrow> ((cs, Some e), w1)
      | ((cs, SThrew e), w1) \<Rightarrow> ((cs, Some (Fresh ''LlmError'' (error_string (le_heap env) e) ''LLM_ERROR'')), w1))"

definition reset_chunk :: llm_chunk where
  "reset_chunk = (chunk_of [])\<lparr>lc_reset := True\<rparr>"

function retry_stream ::
    "'r llm_env \<Rightarrow> retry_options \<Rightarrow> (llm_world \<Rightarrow> llm_stream \<times> llm_world) \<Rightarrow> nat \<Rightarrow> llm_world \<Rightarrow> llm_stream \<times> llm_world" where
  "retry_stream env opts inner attempt w =
     (if signal_now env w \<noteq> NotAborted then (([], SError call_aborted), w)
      else
        (case attemptStream env inner w of
           ((cs, None), w1) \<Rightarrow> ((cs, SEnd), w1)
         | ((cs, Some e), w1) \<Rightarrow>
             if attempt < ro_maxAttempts opts \<and> \<not> isCallerCancellation (signal_now env w1)
                \<and> (if cs = [] then llm_isRetryable (le_heap env) opts e else isMidStreamRetryable (le_heap env) opts e)
             then
               (case retry_stream env opts inner (attempt + 1) (backoff env opts attempt w1) of
                  ((ds, f), w2) \<Rightarrow> ((cs @ (if cs = [] then [] else [reset_chunk]) @ ds, f), w2))
             else ((cs, SError e), w1)))"
  by pat_completeness auto
termination by (relation "measure (\<lambda>(env, opts, inner, attempt, w). ro_maxAttempts opts - attempt)") auto

declare retry_stream.simps [simp del]

definition acquire :: "'r llm_env \<Rightarrow> nat \<Rightarrow> llm_world \<Rightarrow> llm_world" where
  "acquire env i w =
     (case acquire_start (lw_now w) (lw_limiters w ! i) of
        (None, l) \<Rightarrow> w\<lparr>lw_limiters := (lw_limiters w)[i := l]\<rparr>
      | (Some ms, l) \<Rightarrow>
          (let w1 = wait_for env ms (w\<lparr>lw_limiters := (lw_limiters w)[i := l]\<rparr>)
           in w1\<lparr>lw_limiters := (lw_limiters w1)[i := acquire_finish (lw_now w1) (lw_limiters w1 ! i)]\<rparr>))"

definition call_provider :: "'r llm_env \<Rightarrow> nat \<Rightarrow> llm_world \<Rightarrow> llm_world" where
  "call_provider env p w = (wait_for env 0 w)\<lparr>lw_calls := lw_calls w @ [p]\<rparr>"

fun chat :: "'r llm_env \<Rightarrow> llm \<Rightarrow> llm_world \<Rightarrow> 'r llm_result \<times> llm_world" where
  "chat env (Provider p) w = (le_reply env p (lw_waits w), call_provider env p w)"
| "chat env (CircuitBreakerLlm inner i) w = breaker_chat env i (chat env inner) w"
| "chat env (RetryLlm opts inner) w = retry_chat env opts (chat env inner) 0 w"
| "chat env (RateLimiterLlm inner i) w = chat env inner (acquire env i w)"

fun streamChat :: "'r llm_env \<Rightarrow> llm \<Rightarrow> llm_world \<Rightarrow> llm_stream \<times> llm_world" where
  "streamChat env (Provider p) w = (le_stream env p (lw_waits w), call_provider env p w)"
| "streamChat env (CircuitBreakerLlm inner i) w = breaker_stream env i (streamChat env inner) w"
| "streamChat env (RetryLlm opts inner) w = retry_stream env opts (streamChat env inner) 0 w"
| "streamChat env (RateLimiterLlm inner i) w = streamChat env inner (acquire env i w)"

text \<open>The retry goes under every breaker the model already has.\<close>

fun retryInsideBreakers :: "retry_options \<Rightarrow> llm \<Rightarrow> llm" where
  "retryInsideBreakers opts (CircuitBreakerLlm inner i) = CircuitBreakerLlm (retryInsideBreakers opts inner) i"
| "retryInsideBreakers opts l = RetryLlm opts l"

end
