(* ===== verification/ResilienceProps.thy ===== *)
theory ResilienceProps
  imports Resilience ToolLoopProps
begin

text \<open>
  What the resilience layers promise: the breaker follows the count of consecutive failures and the time of the last
  one and admits every caller once its window has passed, a retried stream is heard like its last attempt, the token bucket bounds sequential callers, and a spent rate
  limit is not retried, except when a stream throws it.
\<close>

subsection \<open>The breaker refines a count of failures\<close>

datatype breaker_op = Succeeded | Failed | Asked

definition breaker_step :: "rat \<times> breaker_op \<Rightarrow> breaker \<Rightarrow> breaker" where
  "breaker_step o1 b =
     (case snd o1 of Succeeded \<Rightarrow> recordSuccess b | Failed \<Rightarrow> recordFailure (fst o1) b | Asked \<Rightarrow> snd (isCallPermitted (fst o1) b))"

text \<open>The abstract breaker: failures since the last success, and the time of the last failure.\<close>

definition count_step :: "rat \<times> breaker_op \<Rightarrow> nat \<times> rat \<Rightarrow> nat \<times> rat" where
  "count_step o1 a = (case snd o1 of Succeeded \<Rightarrow> (0, snd a) | Failed \<Rightarrow> (fst a + 1, fst o1) | Asked \<Rightarrow> a)"

definition count_permits :: "nat \<Rightarrow> rat \<Rightarrow> rat \<Rightarrow> nat \<times> rat \<Rightarrow> bool" where
  "count_permits threshold window now a \<longleftrightarrow> fst a < threshold \<or> now - snd a \<ge> window"

definition breaker_rel :: "rat \<Rightarrow> breaker \<Rightarrow> nat \<times> rat \<Rightarrow> bool" where
  "breaker_rel now b a \<longleftrightarrow> cb_failures b = fst a \<and> 1 \<le> cb_threshold b \<and>
     (case cb_state b of
        CClosed \<Rightarrow> fst a < cb_threshold b
      | COpen \<Rightarrow> fst a \<ge> cb_threshold b \<and> cb_openedAt b = snd a
      | CHalfOpen \<Rightarrow> fst a \<ge> cb_threshold b \<and> now - snd a \<ge> cb_window b)"

lemma breaker_step_config [simp]:
  "cb_threshold (breaker_step o1 b) = cb_threshold b" "cb_window (breaker_step o1 b) = cb_window b"
  by (simp_all add: breaker_step_def recordSuccess_def recordFailure_def isCallPermitted_def breaker_state_def transition_def
      Let_def split: breaker_op.split)

lemma breaker_rel_later: "breaker_rel now b a \<Longrightarrow> now \<le> t \<Longrightarrow> breaker_rel t b a"
  by (auto simp: breaker_rel_def split: circuit_state.splits)

lemma breaker_rel_step:
  assumes "breaker_rel now b a" "now \<le> fst o1"
  shows "breaker_rel (fst o1) (breaker_step o1 b) (count_step o1 a)"
  using assms
  by (cases "snd o1"; cases "cb_state b")
    (auto simp: breaker_rel_def breaker_step_def count_step_def recordSuccess_def recordFailure_def transition_def
      isCallPermitted_def breaker_state_def Let_def)

lemma breaker_rel_permits:
  "breaker_rel now b a \<Longrightarrow> now \<le> t \<Longrightarrow>
    fst (isCallPermitted t b) = count_permits (cb_threshold b) (cb_window b) t a"
  by (cases "cb_state b")
    (auto simp: breaker_rel_def isCallPermitted_def breaker_state_def transition_def count_permits_def Let_def)

lemma breaker_rel_run:
  assumes "sorted (map fst os)" "\<forall>o1 \<in> set os. now \<le> fst o1" "breaker_rel now b a"
  shows "breaker_rel (if os = [] then now else fst (last os)) (fold breaker_step os b) (fold count_step os a)
     \<and> cb_threshold (fold breaker_step os b) = cb_threshold b \<and> cb_window (fold breaker_step os b) = cb_window b"
  using assms
proof (induction os arbitrary: now b a)
  case (Cons o1 os)
  have "breaker_rel (fst o1) (breaker_step o1 b) (count_step o1 a)"
    using Cons.prems by (intro breaker_rel_step) auto
  from Cons.IH [OF _ _ this] Cons.prems show ?case by auto
qed simp

text \<open>After any history of successes, failures and questions, a call is refused precisely when at least \<open>failureThreshold\<close>
  failures followed the last success and the recovery window since the last failure has not passed.  The lazy transition
  to half-open, and who asks in between, make no difference.\<close>

lemma breaker_counts_failures:
  assumes "1 \<le> threshold" "sorted (map fst os)" "\<forall>o1 \<in> set os. 0 \<le> fst o1 \<and> fst o1 \<le> t" "0 \<le> t"
  shows "fst (isCallPermitted t (fold breaker_step os (new_breaker (Some threshold) (Some window))))
     = count_permits threshold window t (fold count_step os (0, 0))"
proof -
  let ?b = "new_breaker (Some threshold) (Some window)"
  have "breaker_rel 0 ?b (0, 0)" using assms(1) by (simp add: breaker_rel_def new_breaker_def)
  note R = breaker_rel_run [OF assms(2) _ this]
  have "fst (last os) \<le> t" if "os \<noteq> []" using assms(3) that by simp
  then show ?thesis
    using R assms(3,4) breaker_rel_permits [of "if os = [] then 0 else fst (last os)" "fold breaker_step os ?b" "fold count_step os (0, 0)" t]
    by (auto simp: new_breaker_def split: if_splits)
qed

text \<open>Calls that ask one after the other, none of which has reported yet.\<close>

fun ask_all :: "rat list \<Rightarrow> breaker \<Rightarrow> bool list \<times> breaker" where
  "ask_all [] b = ([], b)"
| "ask_all (t # ts) b =
     (case isCallPermitted t b of (p, b1) \<Rightarrow> (case ask_all ts b1 of (ps, b2) \<Rightarrow> (p # ps, b2)))"

lemma half_open_stays: "cb_state b = CHalfOpen \<Longrightarrow> isCallPermitted t b = (True, b)"
  by (simp add: isCallPermitted_def breaker_state_def Let_def)

lemma half_open_asks: "cb_state b = CHalfOpen \<Longrightarrow> ask_all ts b = (replicate (length ts) True, b)"
  by (induction ts) (simp_all add: half_open_stays)

lemma breaker_rel_recovers:
  assumes "breaker_rel now b a" "cb_threshold b \<le> fst a" "cb_window b \<le> t - snd a"
  shows "isCallPermitted t b = (True, snd (isCallPermitted t b)) \<and> cb_state (snd (isCallPermitted t b)) = CHalfOpen"
  using assms
  by (cases "cb_state b") (auto simp: breaker_rel_def isCallPermitted_def breaker_state_def transition_def Let_def)

text \<open>C27. Once the recovery window has passed since the last failure of an open breaker, every caller is let through, not
  one probe: after any history in which at least \<open>failureThreshold\<close> failures followed the last success, all of the calls
  that ask before one of them has reported are permitted, however many they are, and the breaker stays half-open.  The
  threshold is at least one and times do not run backwards.\<close>

theorem half_open_admits_everyone:
  assumes "1 \<le> threshold" "sorted (map fst os)" "\<forall>o1 \<in> set os. 0 \<le> fst o1 \<and> fst o1 \<le> t"
    and "threshold \<le> fst (fold count_step os (0, 0))" "window \<le> t - snd (fold count_step os (0, 0))"
  shows "\<exists>b. ask_all (t # asks) (fold breaker_step os (new_breaker (Some threshold) (Some window)))
        = (replicate (length (t # asks)) True, b) \<and> cb_state b = CHalfOpen"
proof -
  let ?fresh = "new_breaker (Some threshold) (Some window)"
  let ?b = "fold breaker_step os ?fresh"
  have "breaker_rel 0 ?fresh (0, 0)" using assms(1) by (simp add: breaker_rel_def new_breaker_def)
  with assms(3) have R: "breaker_rel (if os = [] then 0 else fst (last os)) ?b (fold count_step os (0, 0))
      \<and> cb_threshold ?b = threshold \<and> cb_window ?b = window"
    using breaker_rel_run [OF assms(2), of 0 ?fresh "(0, 0)"] by (simp add: new_breaker_def)
  then obtain b where b: "isCallPermitted t ?b = (True, b)" "cb_state b = CHalfOpen"
    using breaker_rel_recovers assms(4,5) by (metis snd_conv)
  then show ?thesis using half_open_asks [OF b(2)] by simp
qed

lemma half_open_admits_everyone_witness:
  "fst (ask_all [100, 100, 101] (fold breaker_step [(0, Failed), (1, Asked), (2, Failed)] (new_breaker (Some 2) (Some 50))))
     = [True, True, True] \<and>
   \<not> fst (isCallPermitted 10 (fold breaker_step [(0, Failed), (1, Asked), (2, Failed)] (new_breaker (Some 2) (Some 50))))"
proof
  have "\<exists>b. ask_all (100 # [100, 101]) (fold breaker_step [(0, Failed), (1, Asked), (2, Failed)] (new_breaker (Some 2) (Some 50)))
      = (replicate (length (100 # [100, 101 :: rat])) True, b) \<and> cb_state b = CHalfOpen"
    by (rule half_open_admits_everyone) (simp_all add: count_step_def)
  then show "fst (ask_all [100, 100, 101] (fold breaker_step [(0, Failed), (1, Asked), (2, Failed)] (new_breaker (Some 2) (Some 50))))
     = [True, True, True]" by (auto simp: numeral_eq_Suc simp del: ask_all.simps)
  show "\<not> fst (isCallPermitted 10 (fold breaker_step [(0, Failed), (1, Asked), (2, Failed)] (new_breaker (Some 2) (Some 50))))"
    using breaker_counts_failures [of 2 "[(0, Failed), (1, Asked), (2, Failed)]" 10 50] by (simp add: count_permits_def count_step_def)
qed

subsection \<open>Streams\<close>

text \<open>What a consumer that honours \<open>reset\<close> makes of a stream: content, finish reason and calls.\<close>

definition heard :: "loop_config \<Rightarrow> llm_chunk list \<Rightarrow> string \<times> string option \<times> (nat \<times> string \<times> string \<times> string) list" where
  "heard cfg cs = (let acc = read_stream cfg cs \<lparr>us_prompt = 0, us_completion = 0, us_total = 0\<rparr> in (sa_content acc, sa_finish acc, sa_calls acc))"

lemma read_chunk_congr:
  assumes "sa_content a = sa_content b" "sa_finish a = sa_finish b" "sa_calls a = sa_calls b"
  shows "sa_content (read_chunk cfg c a) = sa_content (read_chunk cfg c b)"
    "sa_finish (read_chunk cfg c a) = sa_finish (read_chunk cfg c b)"
    "sa_calls (read_chunk cfg c a) = sa_calls (read_chunk cfg c b)"
  using assms by (simp_all add: read_chunk_def Let_def split: option.split)

lemma fold_read_congr:
  "sa_content a = sa_content b \<Longrightarrow> sa_finish a = sa_finish b \<Longrightarrow> sa_calls a = sa_calls b \<Longrightarrow>
   sa_content (fold (read_chunk cfg) cs a) = sa_content (fold (read_chunk cfg) cs b)
   \<and> sa_finish (fold (read_chunk cfg) cs a) = sa_finish (fold (read_chunk cfg) cs b)
   \<and> sa_calls (fold (read_chunk cfg) cs a) = sa_calls (fold (read_chunk cfg) cs b)"
proof (induction cs arbitrary: a b)
  case (Cons c cs)
  show ?case using Cons.IH [OF read_chunk_congr [OF Cons.prems]] by simp
qed simp

lemma heard_reset: "heard cfg (xs @ [reset_chunk] @ ys) = heard cfg ys"
proof -
  let ?a = "\<lparr>sa_content = [], sa_finish = None, sa_calls = [],
      sa_usage = \<lparr>us_prompt = 0, us_completion = 0, us_total = 0\<rparr>, sa_out = []\<rparr>"
  let ?b = "read_chunk cfg reset_chunk (fold (read_chunk cfg) xs ?a)"
  have "sa_content ?b = sa_content ?a" "sa_finish ?b = sa_finish ?a" "sa_calls ?b = sa_calls ?a"
    by (simp_all add: read_chunk_def reset_chunk_def)
  from fold_read_congr [OF this] show ?thesis
    unfolding heard_def read_stream_def Let_def fold_append o_apply fold_simps by (simp only: id_apply)
qed

lemma retry_stream_heard:
  assumes "retry_stream env opts inner attempt w = ((cs, f), w')"
  shows "(f = SError call_aborted \<and> heard cfg cs = heard cfg []) \<or>
     (\<exists>w1 ds e. attemptStream env inner w1 = ((ds, e), w') \<and> heard cfg cs = heard cfg ds
        \<and> f = (case e of None \<Rightarrow> SEnd | Some x \<Rightarrow> SError x))"
  using assms
proof (induction env opts inner attempt w arbitrary: cs f w' rule: retry_stream.induct)
  case (1 env opts inner attempt w)
  show ?case
  proof (cases "signal_now env w = NotAborted")
    case False
    then show ?thesis using "1.prems" by (simp add: retry_stream.simps [of _ _ _ _ w])
  next
    case live: True
    obtain ds e w1 where a: "attemptStream env inner w = ((ds, e), w1)" by (metis surj_pair)
    let ?again = "\<lambda>e. attempt < ro_maxAttempts opts \<and> \<not> isCallerCancellation (signal_now env w1)
        \<and> (if ds = [] then llm_isRetryable (le_heap env) opts e else isMidStreamRetryable (le_heap env) opts e)"
    show ?thesis
    proof (cases "\<exists>x. e = Some x \<and> ?again x")
      case False
      then have "((cs, f), w') = ((ds, case e of None \<Rightarrow> SEnd | Some x \<Rightarrow> SError x), w1)"
        using "1.prems" live a by (subst (asm) retry_stream.simps) (auto split: option.splits if_splits)
      with a show ?thesis by blast
    next
      case True
      then obtain x where x: "e = Some x" "?again x" by blast
      obtain es g w2 where r: "retry_stream env opts inner (attempt + 1) (backoff env opts attempt w1) = ((es, g), w2)"
        by (metis surj_pair)
      have out: "cs = ds @ (if ds = [] then [] else [reset_chunk]) @ es" "f = g" "w' = w2"
        using "1.prems" live a x r by (cases "ds = []"; subst (asm) retry_stream.simps; simp)+
      have "heard cfg cs = heard cfg es" by (simp add: out(1) heard_reset [simplified])
      moreover note "1.IH" [of "(ds, Some x)" w1 ds "Some x" x es g w2]
      ultimately show ?thesis using live a x r out by simp
    qed
  qed
qed

text \<open>C28. A retried stream is heard like its last attempt alone: for a consumer that discards what came before a reset, as
  the tool loop does, content, finish reason and tool calls are those of the attempt that ended the stream, and its
  end is that attempt's end; after an abort between attempts nothing is heard.\<close>

theorem retried_stream_is_its_last_attempt:
  assumes "streamChat env (RetryLlm opts inner) w = ((cs, f), w')"
  shows "(f = SError call_aborted \<and> heard cfg cs = ([], None, [])) \<or>
     (\<exists>w1 ds e. attemptStream env (streamChat env inner) w1 = ((ds, e), w') \<and> heard cfg cs = heard cfg ds
        \<and> f = (case e of None \<Rightarrow> SEnd | Some x \<Rightarrow> SError x))"
  using retry_stream_heard [OF assms [simplified]] by (simp add: heard_def read_stream_def Let_def)

definition sample_llm_env :: "nat llm_env" where
  "sample_llm_env =
     \<lparr>le_heap = [], le_reply = (\<lambda>_ _. LlmOk 0),
      le_stream = (\<lambda>_ n. if n = 0 then ([chunk_of ''par''], SError (Fresh ''LlmError'' ''SSE broke'' ''LLM_ERROR''))
                         else ([chunk_of ''whole''], SEnd)),
      le_lasts = (\<lambda>_. 1), le_signal = (\<lambda>_. NotAborted)\<rparr>"

definition sample_retry :: retry_options where
  "sample_retry = default_retry\<lparr>ro_midStream := [''SSE'']\<rparr>"

definition empty_world :: llm_world where
  "empty_world = \<lparr>lw_now = 0, lw_waits = 0, lw_breakers = [], lw_limiters = [], lw_calls = [], lw_delays = []\<rparr>"

lemma sample_stream:
  "fst (streamChat sample_llm_env (RetryLlm sample_retry (Provider 0)) empty_world)
     = ([chunk_of ''par'', reset_chunk, chunk_of ''whole''], SEnd)"
  by code_simp

lemma retried_stream_is_its_last_attempt_witness:
  "\<exists>cs w' w1 ds e. streamChat sample_llm_env (RetryLlm sample_retry (Provider 0)) empty_world = ((cs, SEnd), w') \<and> length cs = 3
     \<and> attemptStream sample_llm_env (streamChat sample_llm_env (Provider 0)) w1 = ((ds, e), w')
     \<and> heard sample_loop_config cs = heard sample_loop_config ds"
proof -
  obtain w' where s: "streamChat sample_llm_env (RetryLlm sample_retry (Provider 0)) empty_world
      = (([chunk_of ''par'', reset_chunk, chunk_of ''whole''], SEnd), w')"
    using sample_stream by (metis prod.collapse)
  from retried_stream_is_its_last_attempt [OF s, of sample_loop_config] obtain w1 ds e where
      "attemptStream sample_llm_env (streamChat sample_llm_env (Provider 0)) w1 = ((ds, e), w')"
      "heard sample_loop_config [chunk_of ''par'', reset_chunk, chunk_of ''whole''] = heard sample_loop_config ds" by auto
  with s show ?thesis by (intro exI conjI) (assumption | simp)+
qed

subsection \<open>Spent rate limits\<close>

text \<open>An error that carries the marker of a spent rate-limit policy ends the retries of a call, wherever in its cause
  chain the marker is.\<close>

lemma marked_error_is_not_retried:
  assumes "findThrottled (le_heap env) e \<noteq> None" "le_reply env p (lw_waits w) = LlmErr e" "signal_now env w = NotAborted"
  shows "fst (chat env (RetryLlm opts (Provider p)) w) = LlmErr e
     \<and> lw_calls (snd (chat env (RetryLlm opts (Provider p)) w)) = lw_calls w @ [p]"
  using assms by (simp add: retry_chat.simps llm_isRetryable_def call_provider_def)

lemma attempt_calls:
  "attemptStream env (streamChat env (Provider p)) w = (x, w1) \<Longrightarrow> lw_calls w1 = lw_calls w @ [p] \<and> lw_waits w1 = lw_waits w + 1"
  by (auto simp: attemptStream_def call_provider_def wait_for_def split: prod.splits stream_end.splits)

lemma backoff_calls [simp]: "lw_calls (backoff env opts k w) = lw_calls w"
  by (simp add: backoff_def wait_for_def Let_def)

lemma retry_stream_calls:
  assumes "\<And>n. le_signal env n = NotAborted"
  shows "\<exists>rest. lw_calls (snd (retry_stream env opts (streamChat env (Provider p)) k w)) = lw_calls w @ p # rest"
proof (induction "ro_maxAttempts opts - k" arbitrary: k w rule: less_induct)
  case less
  obtain cs e w1 where a: "attemptStream env (streamChat env (Provider p)) w = ((cs, e), w1)" by (metis surj_pair)
  have live: "signal_now env v = NotAborted" for v using assms by (simp add: signal_now_def)
  note A = attempt_calls [OF a]
  show ?case
  proof (cases e)
    case None
    with a A live show ?thesis by (simp add: retry_stream.simps [of _ _ _ k])
  next
    case (Some x)
    let ?again = "k < ro_maxAttempts opts \<and> \<not> isCallerCancellation (signal_now env w1)
        \<and> (if cs = [] then llm_isRetryable (le_heap env) opts x else isMidStreamRetryable (le_heap env) opts x)"
    show ?thesis
    proof (cases ?again)
      case False
      then have "retry_stream env opts (streamChat env (Provider p)) k w = ((cs, SError x), w1)"
        using a Some live by (subst retry_stream.simps) (simp only: if_False if_not_P prod.case option.case not_True_eq_False simp_thms)
      with A show ?thesis by simp
    next
      case True
      let ?r = "retry_stream env opts (streamChat env (Provider p)) (k + 1) (backoff env opts k w1)"
      have "snd (retry_stream env opts (streamChat env (Provider p)) k w) = snd ?r"
        using a Some live True by (subst retry_stream.simps) (simp split: prod.split)
      moreover have "\<exists>rest. lw_calls (snd ?r) = lw_calls (backoff env opts k w1) @ p # rest"
        by (rule less) (use True in linarith)
      ultimately show ?thesis using A by auto
    qed
  qed
qed

text \<open>The marker is lost when a stream throws: the same error that ends the retries of a call, or of a stream that
  reports it as an error chunk, is stringified when the provider throws it, and a message that names the status is
  then retried against the closed quota.\<close>

theorem thrown_refusal_is_retried:
  assumes marked: "findThrottled (le_heap env) e \<noteq> None"
    and thrown: "le_stream env p (lw_waits w) = ([], SThrew e)"
    and named: "429 \<in> set (ro_retryOn opts)" "has_word ''429'' False (error_string (le_heap env) e)"
    and live: "\<And>n. le_signal env n = NotAborted" and some: "1 \<le> ro_maxAttempts opts"
  shows "\<exists>rest. lw_calls (snd (streamChat env (RetryLlm opts (Provider p)) w)) = lw_calls w @ [p, p] @ rest"
proof -
  let ?inner = "streamChat env (Provider p)"
  let ?x = "Fresh ''LlmError'' (error_string (le_heap env) e) ''LLM_ERROR''"
  obtain w1 where a: "attemptStream env ?inner w = (([], Some ?x), w1)"
    using thrown by (simp add: attemptStream_def)
  have sig: "signal_now env v = NotAborted" for v using live by (simp add: signal_now_def)
  have "int_str 429 = ''429''" by code_simp
  then have "isRetryableStatus (le_heap env) ?x (ro_retryOn opts)"
    using named by (auto simp: isRetryableStatus_def list_ex_iff intro!: bexI [of _ 429])
  then have "llm_isRetryable (le_heap env) opts ?x" by (simp add: llm_isRetryable_def)
  then have "snd (retry_stream env opts ?inner 0 w) = snd (retry_stream env opts ?inner 1 (backoff env opts 0 w1))"
    using a sig some by (subst retry_stream.simps) (simp add: isCallerCancellation_def split: prod.split)
  moreover obtain rest where "lw_calls (snd (retry_stream env opts ?inner 1 (backoff env opts 0 w1)))
      = lw_calls (backoff env opts 0 w1) @ p # rest"
    using retry_stream_calls [OF live] by blast
  ultimately show ?thesis using attempt_calls [OF a] by auto
qed

definition refusal_heap :: err_heap where
  "refusal_heap = [(plain_error ''Error'' ''HTTP 429: quota closed'')\<lparr>ef_throttled := True, ef_attempts := Some 4\<rparr>]"

definition refusal_env :: "nat llm_env" where
  "refusal_env = \<lparr>le_heap = refusal_heap, le_reply = (\<lambda>_ _. LlmErr (ErrObj 0)), le_stream = (\<lambda>_ _. ([], SThrew (ErrObj 0))),
     le_lasts = (\<lambda>_. 0), le_signal = (\<lambda>_. NotAborted)\<rparr>"

lemma thrown_refusal_is_retried_witness:
  "lw_calls (snd (chat refusal_env (RetryLlm default_retry (Provider 0)) empty_world)) = [0]
   \<and> (\<exists>rest. lw_calls (snd (streamChat refusal_env (RetryLlm default_retry (Provider 0)) empty_world)) = [0, 0] @ rest)"
proof
  have m: "findThrottled (le_heap refusal_env) (ErrObj 0) \<noteq> None"
    by (simp add: refusal_env_def refusal_heap_def find_walk_head facts_of_def)
  show "lw_calls (snd (chat refusal_env (RetryLlm default_retry (Provider 0)) empty_world)) = [0]"
    using marked_error_is_not_retried [OF m, of 0 empty_world default_retry]
    by (simp add: refusal_env_def signal_now_def empty_world_def)
  have w: "has_word ''429'' False (error_string (le_heap refusal_env) (ErrObj 0))" by code_simp
  show "\<exists>rest. lw_calls (snd (streamChat refusal_env (RetryLlm default_retry (Provider 0)) empty_world)) = [0, 0] @ rest"
    using thrown_refusal_is_retried [OF m, of 0 empty_world default_retry] w
    by (simp add: refusal_env_def default_retry_def empty_world_def)
qed

subsection \<open>The token bucket\<close>

text \<open>A sequential caller: it asks after a pause and, when it has to wait, comes back after the wait and some delay.\<close>

definition acquire_seq :: "rat \<Rightarrow> rat \<Rightarrow> rat \<times> limiter \<Rightarrow> rat \<times> limiter" where
  "acquire_seq pause delay s =
     (let now = fst s + pause in
      case acquire_start now (snd s) of
        (None, l) \<Rightarrow> (now, l)
      | (Some ms, l) \<Rightarrow> (now + ms + delay, acquire_finish (now + ms + delay) l))"

definition bucket_ok :: "rat list \<Rightarrow> rat \<times> limiter \<Rightarrow> bool" where
  "bucket_ok grants s \<longleftrightarrow> sorted grants \<and> (\<forall>t \<in> set grants. t \<le> fst s)
     \<and> tb_stamps (snd s) = filter (\<lambda>t. fst s - t < tb_window (snd s)) grants \<and> length (tb_stamps (snd s)) \<le> tb_max (snd s)"

lemma filter_recent:
  "a \<le> b \<Longrightarrow> filter (\<lambda>t. b - t < (d :: rat)) (filter (\<lambda>t. a - t < d) ts) = filter (\<lambda>t. b - t < d) ts"
  by (auto simp: filter_filter intro: filter_cong)

lemma acquire_seq_ok:
  assumes ok: "bucket_ok grants s" and pos: "0 \<le> pause" "0 \<le> delay" "0 < tb_window (snd s)" "1 \<le> tb_max (snd s)"
    and s': "acquire_seq pause delay s = s'"
  shows "bucket_ok (grants @ [fst s']) s'" "tb_max (snd s') = tb_max (snd s)" "tb_window (snd s') = tb_window (snd s)"
    "length (filter (\<lambda>t. fst s' - t < tb_window (snd s)) grants) < tb_max (snd s)"
proof -
  let ?W = "tb_window (snd s)"
  define now where "now = fst s + pause"
  define ts where "ts = fresh_stamps now (snd s)"
  have ts: "ts = filter (\<lambda>t. now - t < ?W) grants"
    using ok pos filter_recent [of "fst s" now ?W grants] by (simp add: ts_def fresh_stamps_def bucket_ok_def now_def)
  have len: "length ts \<le> tb_max (snd s)"
    using ok length_filter_le [of "\<lambda>t. now - t < ?W" "tb_stamps (snd s)"]
    unfolding ts_def fresh_stamps_def bucket_ok_def by linarith
  have "bucket_ok (grants @ [fst s']) s' \<and> tb_max (snd s') = tb_max (snd s) \<and> tb_window (snd s') = ?W
      \<and> length (filter (\<lambda>t. fst s' - t < ?W) grants) < tb_max (snd s)"
  proof (cases "length ts < tb_max (snd s)")
    case True
    then have "s' = (now, (snd s)\<lparr>tb_stamps := ts @ [now]\<rparr>)"
      using s' by (simp add: acquire_seq_def acquire_start_def Let_def now_def ts_def)
    with ok True ts pos show ?thesis
      by (auto simp: bucket_ok_def now_def sorted_append intro: order_trans add_increasing2)
  next
    case False
    with len pos(4) have full: "length ts = tb_max (snd s)" "ts \<noteq> []" by auto
    define oldest where "oldest = hd ts"
    define after where "after = now + (oldest + ?W - now + 1) + delay"
    have fresh: "fresh_stamps after ((snd s)\<lparr>tb_stamps := ts\<rparr>) = filter (\<lambda>t. after - t < ?W) ts" by (simp add: fresh_stamps_def)
    have s'_eq: "s' = (after, (snd s)\<lparr>tb_stamps := filter (\<lambda>t. after - t < ?W) ts @ [after]\<rparr>)"
      using s' False full
      by (auto simp: acquire_seq_def acquire_start_def acquire_finish_def Let_def now_def ts_def after_def oldest_def fresh_stamps_def
          neq_Nil_conv split: list.split)
    have old: "oldest \<in> set ts" using full(2) by (simp add: oldest_def)
    then have "now - oldest < ?W" "oldest \<in> set grants" by (auto simp: ts)
    then have later: "now \<le> after" using pos by (simp add: after_def)
    have "length (filter (\<lambda>t. after - t < ?W) ts) < length ts"
      by (rule length_filter_less [OF old]) (use pos in \<open>simp add: after_def\<close>)
    moreover have "filter (\<lambda>t. after - t < ?W) ts = filter (\<lambda>t. after - t < ?W) grants"
      unfolding ts by (rule filter_recent [OF later])
    ultimately show ?thesis
      using ok later full(1) pos by (auto simp: bucket_ok_def s'_eq sorted_append now_def intro: order_trans add_increasing2)
  qed
  then show "bucket_ok (grants @ [fst s']) s'" "tb_max (snd s') = tb_max (snd s)" "tb_window (snd s') = ?W"
    "length (filter (\<lambda>t. fst s' - t < ?W) grants) < tb_max (snd s)" by simp_all
qed

text \<open>Waiting callers do not check again: two that wait for the same permit are both granted it.\<close>

lemma concurrent_waiters_overrun:
  assumes "l = \<lparr>tb_max = 1, tb_window = 1000, tb_stamps = [0]\<rparr>"
    and "acquire_start 10 l = (Some w1, l1)" "acquire_start 10 l1 = (Some w2, l2)"
  shows "w1 = w2 \<and> length (tb_stamps (acquire_finish (10 + w2) (acquire_finish (10 + w1) l2))) = 2"
  using assms by (auto simp: acquire_start_def acquire_finish_def fresh_stamps_def Let_def)

end
