(* ===== verification/SessionRegistry.thy ===== *)
theory SessionRegistry
  imports Prelude
begin

text \<open>
  The container of one session and the registry of the live ones (\<open>session-graph.ts\<close>, \<open>session-registry.ts\<close>): graphs are built
  once per session however many requests ask for them, pinned while a request holds them, evicted when idle, past the cap
  or after a change of configuration, and torn down when nobody holds them.  A graph is named by the number of the build
  that made it.  \<open>rg_torn\<close> lists the graphs whose dispose hook was called; its completion and failures (\<open>flushEvictions\<close>)
  are not modelled.  The clock is an argument of every operation that reads it.
\<close>

subsection \<open>One session\<close>

record session_graph =
  sg_active :: nat
  sg_lastUsed :: nat
  sg_marked :: bool
  sg_disposed :: bool

definition fresh_graph :: "nat \<Rightarrow> session_graph" where
  "fresh_graph now = \<lparr>sg_active = 0, sg_lastUsed = now, sg_marked = False, sg_disposed = False\<rparr>"

definition isPinned :: "session_graph \<Rightarrow> bool" where
  "isPinned g \<longleftrightarrow> sg_active g > 0"

definition graph_acquire :: "nat \<Rightarrow> session_graph \<Rightarrow> string + session_graph" where
  "graph_acquire now g =
     (if sg_disposed g then Inl ''SESSION_GRAPH_DISPOSED''
      else Inr (g\<lparr>sg_active := sg_active g + 1, sg_lastUsed := now\<rparr>))"

definition graph_release :: "nat \<Rightarrow> session_graph \<Rightarrow> session_graph" where
  "graph_release now g = g\<lparr>sg_active := (if sg_active g > 0 then sg_active g - 1 else sg_active g), sg_lastUsed := now\<rparr>"

definition markForDisposal :: "session_graph \<Rightarrow> session_graph" where
  "markForDisposal g = g\<lparr>sg_marked := True\<rparr>"

subsection \<open>The registry\<close>

text \<open>A build is settled when it has a graph, an error or, if it was orphaned, both.\<close>

record build =
  bd_session :: string
  bd_gen :: nat
  bd_graph :: "session_graph option"
  bd_error :: "string option"

record registry =
  rg_graphs :: "(string \<times> nat) list"
  rg_draining :: "(string \<times> nat) list"
  rg_pendingBuilds :: "(string \<times> nat) list"
  rg_closed :: bool
  rg_generation :: nat
  rg_builds :: "build list"
  rg_torn :: "nat list"

record registry_options =
  ro_idleTtlMs :: nat
  ro_maxSessions :: nat

definition new_registry :: registry where
  "new_registry = \<lparr>rg_graphs = [], rg_draining = [], rg_pendingBuilds = [], rg_closed = False, rg_generation = 0,
     rg_builds = [], rg_torn = []\<rparr>"

definition graph_of :: "registry \<Rightarrow> nat \<Rightarrow> session_graph" where
  "graph_of r b = the (bd_graph (rg_builds r ! b))"

definition upd_graph :: "nat \<Rightarrow> (session_graph \<Rightarrow> session_graph) \<Rightarrow> registry \<Rightarrow> registry" where
  "upd_graph b f r =
     r\<lparr>rg_builds := (rg_builds r)[b := (rg_builds r ! b)\<lparr>bd_graph := map_option f (bd_graph (rg_builds r ! b))\<rparr>]\<rparr>"

definition dispose_of :: "nat \<Rightarrow> registry \<Rightarrow> registry" where
  "dispose_of b r =
     (if sg_disposed (graph_of r b) then r
      else (upd_graph b (\<lambda>g. g\<lparr>sg_disposed := True\<rparr>) r)\<lparr>rg_torn := rg_torn r @ [b]\<rparr>)"

definition evictNow :: "string \<Rightarrow> nat \<Rightarrow> registry \<Rightarrow> registry" where
  "evictNow sessionId b r = dispose_of b (r\<lparr>rg_graphs := AList.delete sessionId (rg_graphs r)\<rparr>)"

subsection \<open>The cap\<close>

definition liveCount :: "registry \<Rightarrow> nat" where
  "liveCount r = length (filter (\<lambda>e. \<not> sg_marked (graph_of r (snd e))) (rg_graphs r))"

text \<open>The first graph that was used longest ago; marked ones are passed over.\<close>

fun lru_from :: "registry \<Rightarrow> (string \<times> nat) option \<Rightarrow> (string \<times> nat) list \<Rightarrow> (string \<times> nat) option" where
  "lru_from r best [] = best"
| "lru_from r best (e # es) =
     (if sg_marked (graph_of r (snd e)) then lru_from r best es
      else (case best of
              None \<Rightarrow> lru_from r (Some e) es
            | Some e0 \<Rightarrow>
                lru_from r (if sg_lastUsed (graph_of r (snd e)) < sg_lastUsed (graph_of r (snd e0)) then Some e else Some e0) es))"

lemma lru_from_in: "lru_from r best es = Some e \<Longrightarrow> best = Some e \<or> e \<in> set es"
proof (induction es arbitrary: best)
  case (Cons x xs)
  obtain e0 where "lru_from r e0 xs = Some e" "e0 = best \<or> e0 = Some x"
    using Cons.prems by (cases best) (simp_all split: if_splits)
  then show ?case using Cons.IH by auto
qed simp

lemma length_delete_less: "(k, v) \<in> set m \<Longrightarrow> length (AList.delete k m) < length m"
  unfolding AList.delete_eq by (rule length_filter_less) auto

lemma evictNow_graphs: "rg_graphs (evictNow s b r) = AList.delete s (rg_graphs r)"
  by (simp add: evictNow_def dispose_of_def upd_graph_def)

function enforceCap :: "nat \<Rightarrow> registry \<Rightarrow> registry" where
  "enforceCap maxSessions r =
     (if liveCount r > maxSessions then
        (case lru_from r None (rg_graphs r) of
           None \<Rightarrow> r
         | Some (lruId, lru) \<Rightarrow>
             if lruId = [] then r
             else if isPinned (graph_of r lru) then upd_graph lru markForDisposal r
             else enforceCap maxSessions (evictNow lruId lru r))
      else r)"
  by pat_completeness auto
termination
  by (relation "measure (\<lambda>(m, r). length (rg_graphs r))")
    (auto simp: evictNow_graphs dest!: lru_from_in intro: length_delete_less)

declare enforceCap.simps [simp del]

subsection \<open>Acquiring\<close>

datatype acquired = Given nat | Awaits nat | Refused string

definition begin_build :: "string \<Rightarrow> registry \<Rightarrow> registry" where
  "begin_build sessionId r =
     r\<lparr>rg_builds := rg_builds r @ [\<lparr>bd_session = sessionId, bd_gen = rg_generation r, bd_graph = None, bd_error = None\<rparr>],
       rg_pendingBuilds := AList.update sessionId (length (rg_builds r)) (rg_pendingBuilds r)\<rparr>"

definition take_graph :: "nat \<Rightarrow> nat \<Rightarrow> registry \<Rightarrow> acquired \<times> registry" where
  "take_graph now b r =
     (case graph_acquire now (graph_of r b) of
        Inl e \<Rightarrow> (Refused e, r)
      | Inr g \<Rightarrow> (Given b, upd_graph b (\<lambda>_. g) r))"

definition acquire_start :: "nat \<Rightarrow> string \<Rightarrow> registry \<Rightarrow> acquired \<times> registry" where
  "acquire_start now sessionId r =
     (if rg_closed r then (Refused ''SESSION_REGISTRY_CLOSED'', r)
      else (case map_of (rg_graphs r) sessionId of
              Some b \<Rightarrow> take_graph now b r
            | None \<Rightarrow>
                (case map_of (rg_pendingBuilds r) sessionId of
                   Some b \<Rightarrow> (Awaits b, r)
                 | None \<Rightarrow> (Awaits (length (rg_builds r)), begin_build sessionId r))))"

text \<open>The rest of \<open>acquire\<close> when the build it waits for is settled; \<open>gen\<close> is the generation it saw at the start.\<close>

definition acquire_resume :: "nat \<Rightarrow> nat \<Rightarrow> nat \<Rightarrow> registry \<Rightarrow> acquired \<times> registry" where
  "acquire_resume now gen b r =
     (case bd_error (rg_builds r ! b) of
        Some e \<Rightarrow> (Refused e, r)
      | None \<Rightarrow>
          if rg_closed r then (Refused ''SESSION_REGISTRY_CLOSED'', r)
          else if rg_generation r \<noteq> gen then (Refused ''SESSION_INVALIDATED'', r)
          else take_graph now b r)"

definition clearIfMine :: "nat \<Rightarrow> registry \<Rightarrow> registry" where
  "clearIfMine b r =
     (let sessionId = bd_session (rg_builds r ! b) in
      if map_of (rg_pendingBuilds r) sessionId = Some b
      then r\<lparr>rg_pendingBuilds := AList.delete sessionId (rg_pendingBuilds r)\<rparr> else r)"

definition set_build :: "nat \<Rightarrow> (build \<Rightarrow> build) \<Rightarrow> registry \<Rightarrow> registry" where
  "set_build b f r = r\<lparr>rg_builds := (rg_builds r)[b := f (rg_builds r ! b)]\<rparr>"

definition build_done :: "registry_options \<Rightarrow> nat \<Rightarrow> nat \<Rightarrow> registry \<Rightarrow> registry" where
  "build_done opts now b r =
     (let r1 = set_build b (\<lambda>bd. bd\<lparr>bd_graph := Some (fresh_graph now)\<rparr>) r in
      if rg_generation r \<noteq> bd_gen (rg_builds r ! b) then
        set_build b (\<lambda>bd. bd\<lparr>bd_error := Some ''SESSION_INVALIDATED''\<rparr>) (clearIfMine b (dispose_of b r1))
      else
        enforceCap (ro_maxSessions opts)
          (clearIfMine b (r1\<lparr>rg_graphs := AList.update (bd_session (rg_builds r ! b)) b (rg_graphs r1)\<rparr>)))"

definition build_failed :: "string \<Rightarrow> nat \<Rightarrow> registry \<Rightarrow> registry" where
  "build_failed e b r = set_build b (\<lambda>bd. bd\<lparr>bd_error := Some e\<rparr>) (clearIfMine b r)"

subsection \<open>Releasing and evicting\<close>

definition release_graph :: "nat \<Rightarrow> string \<Rightarrow> nat \<Rightarrow> registry \<Rightarrow> registry" where
  "release_graph now sessionId b r =
     (let r1 = upd_graph b (graph_release now) r in
      if isPinned (graph_of r1 b) then r1
      else if map_of (rg_draining r1) sessionId = Some b then
        dispose_of b (r1\<lparr>rg_draining := AList.delete sessionId (rg_draining r1)\<rparr>)
      else if sg_marked (graph_of r1 b) then
        dispose_of b (if map_of (rg_graphs r1) sessionId = Some b then r1\<lparr>rg_graphs := AList.delete sessionId (rg_graphs r1)\<rparr> else r1)
      else r1)"

text \<open>The older form names the session only; a draining graph comes first.\<close>

definition release_session :: "nat \<Rightarrow> string \<Rightarrow> registry \<Rightarrow> registry" where
  "release_session now sessionId r =
     (case map_of (rg_draining r) sessionId of
        Some b \<Rightarrow>
          (let r1 = upd_graph b (graph_release now) r in
           if isPinned (graph_of r1 b) then r1
           else dispose_of b (r1\<lparr>rg_draining := AList.delete sessionId (rg_draining r1)\<rparr>))
      | None \<Rightarrow>
          (case map_of (rg_graphs r) sessionId of
             None \<Rightarrow> r
           | Some b \<Rightarrow>
               (let r1 = upd_graph b (graph_release now) r in
                if sg_marked (graph_of r1 b) \<and> \<not> isPinned (graph_of r1 b)
                then dispose_of b (r1\<lparr>rg_graphs := AList.delete sessionId (rg_graphs r1)\<rparr>) else r1)))"

text \<open>The graph that the session id stands for in a release.\<close>

definition released_by_session :: "registry \<Rightarrow> string \<Rightarrow> nat option" where
  "released_by_session r sessionId =
     (case map_of (rg_draining r) sessionId of Some b \<Rightarrow> Some b | None \<Rightarrow> map_of (rg_graphs r) sessionId)"

definition evictOne :: "string \<Rightarrow> registry \<Rightarrow> registry" where
  "evictOne sessionId r =
     (case map_of (rg_graphs r) sessionId of
        None \<Rightarrow> r
      | Some b \<Rightarrow> if isPinned (graph_of r b) then upd_graph b markForDisposal r else evictNow sessionId b r)"

definition idle_one :: "registry_options \<Rightarrow> nat \<Rightarrow> string \<times> nat \<Rightarrow> registry \<Rightarrow> registry" where
  "idle_one opts now e r =
     (if \<not> isPinned (graph_of r (snd e)) \<and> int now - int (sg_lastUsed (graph_of r (snd e))) \<ge> int (ro_idleTtlMs opts)
      then evictNow (fst e) (snd e) r else r)"

definition evictIdle :: "registry_options \<Rightarrow> nat \<Rightarrow> registry \<Rightarrow> registry" where
  "evictIdle opts now r = fold (idle_one opts now) (rg_graphs r) r"

text \<open>\<open>disposeAll\<close> closes the registry, waits for the builds in flight and then sweeps.\<close>

definition close_registry :: "registry \<Rightarrow> registry" where
  "close_registry r = r\<lparr>rg_closed := True\<rparr>"

definition sweep_one :: "string \<times> nat \<Rightarrow> registry \<Rightarrow> registry" where
  "sweep_one e r = evictNow (fst e) (snd e) r"

definition sweep_drained :: "string \<times> nat \<Rightarrow> registry \<Rightarrow> registry" where
  "sweep_drained e r = dispose_of (snd e) (r\<lparr>rg_draining := AList.delete (fst e) (rg_draining r)\<rparr>)"

definition sweep :: "registry \<Rightarrow> registry" where
  "sweep r =
     (let r1 = fold sweep_one (rg_graphs r) r;
          r2 = fold sweep_drained (rg_draining r1) r1
      in r2\<lparr>rg_pendingBuilds := []\<rparr>)"

definition invalidate_one :: "string \<times> nat \<Rightarrow> registry \<Rightarrow> registry" where
  "invalidate_one e r =
     (if isPinned (graph_of r (snd e)) then
        (let r1 = upd_graph (snd e) markForDisposal r in
         r1\<lparr>rg_graphs := AList.delete (fst e) (rg_graphs r1), rg_draining := AList.update (fst e) (snd e) (rg_draining r1)\<rparr>)
      else evictNow (fst e) (snd e) r)"

definition invalidateAll :: "registry \<Rightarrow> registry" where
  "invalidateAll r =
     (fold invalidate_one (rg_graphs r) (r\<lparr>rg_generation := rg_generation r + 1\<rparr>))\<lparr>rg_pendingBuilds := []\<rparr>"

subsection \<open>Requests, builds and the operator\<close>

text \<open>\<open>rw_waiting\<close>: session, generation at the start and awaited build of each request inside \<open>acquire\<close>; \<open>rw_held\<close>: the
  graphs requests hold; \<open>rw_shutdowns\<close>: the builds each \<open>disposeAll\<close> waits for.\<close>

record registry_world =
  rw_reg :: registry
  rw_waiting :: "(string \<times> nat \<times> nat) list"
  rw_held :: "(string \<times> nat) list"
  rw_shutdowns :: "nat list list"
  rw_swept :: bool

definition new_world :: registry_world where
  "new_world = \<lparr>rw_reg = new_registry, rw_waiting = [], rw_held = [], rw_shutdowns = [], rw_swept = False\<rparr>"

definition settled_build :: "registry \<Rightarrow> nat \<Rightarrow> bool" where
  "settled_build r b \<longleftrightarrow> bd_graph (rg_builds r ! b) \<noteq> None \<or> bd_error (rg_builds r ! b) \<noteq> None"

text \<open>What a request has after a step of \<open>acquire\<close>.\<close>

definition acquired_by :: "string \<Rightarrow> nat \<Rightarrow> acquired \<times> registry \<Rightarrow> registry_world \<Rightarrow> registry_world" where
  "acquired_by sessionId gen res w =
     (case res of
        (Given b, r) \<Rightarrow> w\<lparr>rw_reg := r, rw_held := (sessionId, b) # rw_held w\<rparr>
      | (Awaits b, r) \<Rightarrow> w\<lparr>rw_reg := r, rw_waiting := (sessionId, gen, b) # rw_waiting w\<rparr>
      | (Refused e, r) \<Rightarrow> w\<lparr>rw_reg := r\<rparr>)"

definition gives_back :: "nat \<Rightarrow> string \<Rightarrow> nat \<Rightarrow> registry_world \<Rightarrow> registry_world" where
  "gives_back now s b w = w\<lparr>rw_reg := release_session now s (rw_reg w), rw_held := remove1 (s, b) (rw_held w)\<rparr>"

text \<open>A request releases the graph it holds, by the graph or by the id of its session.  The id names one graph, and a
  draining one first: while a session has more than one graph, a release by the id may hit a graph that the caller does
  not hold.  Those are the stray releases, apart from the other steps.\<close>

inductive registry_step :: "registry_options \<Rightarrow> registry_world \<Rightarrow> registry_world \<Rightarrow> bool" for opts where
  asks: "registry_step opts w (acquired_by s (rg_generation (rw_reg w)) (acquire_start now s (rw_reg w)) w)"
| resumes: "(s, gen, b) \<in> set (rw_waiting w) \<Longrightarrow> settled_build (rw_reg w) b \<Longrightarrow>
    registry_step opts w (acquired_by s gen (acquire_resume now gen b (rw_reg w)) (w\<lparr>rw_waiting := remove1 (s, gen, b) (rw_waiting w)\<rparr>))"
| built: "b < length (rg_builds (rw_reg w)) \<Longrightarrow> \<not> settled_build (rw_reg w) b \<Longrightarrow>
    registry_step opts w (w\<lparr>rw_reg := build_done opts now b (rw_reg w)\<rparr>)"
| build_fails: "b < length (rg_builds (rw_reg w)) \<Longrightarrow> \<not> settled_build (rw_reg w) b \<Longrightarrow>
    registry_step opts w (w\<lparr>rw_reg := build_failed e b (rw_reg w)\<rparr>)"
| releases: "(s, b) \<in> set (rw_held w) \<Longrightarrow>
    registry_step opts w (w\<lparr>rw_reg := release_graph now s b (rw_reg w), rw_held := remove1 (s, b) (rw_held w)\<rparr>)"
| releases_by_session: "(s, b) \<in> set (rw_held w) \<Longrightarrow> released_by_session (rw_reg w) s = Some b \<Longrightarrow>
    registry_step opts w (gives_back now s b w)"
| evicts: "registry_step opts w (w\<lparr>rw_reg := evictOne s (rw_reg w)\<rparr>)"
| idles: "registry_step opts w (w\<lparr>rw_reg := evictIdle opts now (rw_reg w)\<rparr>)"
| invalidates: "registry_step opts w (w\<lparr>rw_reg := invalidateAll (rw_reg w)\<rparr>)"
| closes: "registry_step opts w (w\<lparr>rw_reg := close_registry (rw_reg w),
    rw_shutdowns := map snd (rg_pendingBuilds (rw_reg w)) # rw_shutdowns w\<rparr>)"
| sweeps: "bs \<in> set (rw_shutdowns w) \<Longrightarrow> list_all (settled_build (rw_reg w)) bs \<Longrightarrow>
    registry_step opts w (w\<lparr>rw_reg := sweep (rw_reg w), rw_swept := True\<rparr>)"

inductive stray_release :: "registry_world \<Rightarrow> registry_world \<Rightarrow> bool" where
  strays: "(s, b) \<in> set (rw_held w) \<Longrightarrow> released_by_session (rw_reg w) s \<noteq> Some b \<Longrightarrow> stray_release w (gives_back now s b w)"

abbreviation registry_run :: "registry_options \<Rightarrow> registry_world \<Rightarrow> bool" where
  "registry_run opts w \<equiv> (registry_step opts)\<^sup>*\<^sup>* new_world w"

end
