(* ===== verification/RegistryInv.thy ===== *)
theory RegistryInv
  imports SessionRegistry
begin

text \<open>
  The invariant of the session registry: the count of a graph is the number of requests that hold it, a graph that is
  not torn down is in the map of live graphs or marked and held, live graphs are of the current generation, and a build
  of the current generation that is not settled is the one pending for its session.
\<close>

subsection \<open>The invariant\<close>

text \<open>\<open>h\<close> counts the holders of each graph; \<open>G\<close> is the generation the maps belong to.\<close>

definition build_inv :: "nat \<Rightarrow> registry \<Rightarrow> (nat \<Rightarrow> nat) \<Rightarrow> nat \<Rightarrow> bool" where
  "build_inv G r h b \<longleftrightarrow> bd_gen (rg_builds r ! b) \<le> G \<and>
     (case bd_graph (rg_builds r ! b) of
        None \<Rightarrow> h b = 0 \<and> (bd_error (rg_builds r ! b) = None \<longrightarrow> bd_gen (rg_builds r ! b) = G \<longrightarrow>
          map_of (rg_pendingBuilds r) (bd_session (rg_builds r ! b)) = Some b)
      | Some g \<Rightarrow> sg_active g = h b \<and> (sg_disposed g \<longrightarrow> h b = 0 \<or> rg_closed r)
          \<and> (\<not> sg_disposed g \<longrightarrow> map_of (rg_graphs r) (bd_session (rg_builds r ! b)) = Some b \<or> (sg_marked g \<and> 0 < h b)))"

definition graph_entry :: "nat \<Rightarrow> registry \<Rightarrow> string \<times> nat \<Rightarrow> bool" where
  "graph_entry G r e \<longleftrightarrow> snd e < length (rg_builds r) \<and> bd_session (rg_builds r ! snd e) = fst e
     \<and> bd_gen (rg_builds r ! snd e) = G \<and> bd_error (rg_builds r ! snd e) = None
     \<and> (\<exists>g. bd_graph (rg_builds r ! snd e) = Some g \<and> \<not> sg_disposed g)"

definition drain_entry :: "registry \<Rightarrow> string \<times> nat \<Rightarrow> bool" where
  "drain_entry r e \<longleftrightarrow> snd e < length (rg_builds r) \<and> bd_session (rg_builds r ! snd e) = fst e
     \<and> (\<exists>g. bd_graph (rg_builds r ! snd e) = Some g \<and> \<not> sg_disposed g \<and> sg_marked g \<and> 0 < sg_active g) \<and> e \<notin> set (rg_graphs r)"

definition pending_entry :: "nat \<Rightarrow> registry \<Rightarrow> string \<times> nat \<Rightarrow> bool" where
  "pending_entry G r e \<longleftrightarrow> snd e < length (rg_builds r) \<and> bd_session (rg_builds r ! snd e) = fst e
     \<and> bd_gen (rg_builds r ! snd e) = G \<and> bd_error (rg_builds r ! snd e) = None \<and> bd_graph (rg_builds r ! snd e) = None
     \<and> fst e \<notin> fst ` set (rg_graphs r)"

definition reg_inv :: "nat \<Rightarrow> (nat \<Rightarrow> nat) \<Rightarrow> registry \<Rightarrow> bool" where
  "reg_inv G h r \<longleftrightarrow> (\<forall>b < length (rg_builds r). build_inv G r h b) \<and> (\<forall>b \<ge> length (rg_builds r). h b = 0)
     \<and> distinct (map fst (rg_graphs r)) \<and> distinct (map fst (rg_draining r)) \<and> distinct (map fst (rg_pendingBuilds r))
     \<and> (\<forall>e \<in> set (rg_graphs r). graph_entry G r e) \<and> (\<forall>e \<in> set (rg_draining r). drain_entry r e)
     \<and> (\<forall>e \<in> set (rg_pendingBuilds r). pending_entry G r e)"

lemma reg_invI:
  assumes "\<And>b. b < length (rg_builds r) \<Longrightarrow> build_inv G r h b" "\<And>b. b \<ge> length (rg_builds r) \<Longrightarrow> h b = 0"
    "distinct (map fst (rg_graphs r))" "distinct (map fst (rg_draining r))" "distinct (map fst (rg_pendingBuilds r))"
    "\<And>e. e \<in> set (rg_graphs r) \<Longrightarrow> graph_entry G r e" "\<And>e. e \<in> set (rg_draining r) \<Longrightarrow> drain_entry r e"
    "\<And>e. e \<in> set (rg_pendingBuilds r) \<Longrightarrow> pending_entry G r e"
  shows "reg_inv G h r"
  using assms unfolding reg_inv_def by blast

lemma reg_invD:
  assumes "reg_inv G h r"
  shows "b < length (rg_builds r) \<Longrightarrow> build_inv G r h b" "b \<ge> length (rg_builds r) \<Longrightarrow> h b = 0"
    "distinct (map fst (rg_graphs r))" "distinct (map fst (rg_draining r))" "distinct (map fst (rg_pendingBuilds r))"
    "e \<in> set (rg_graphs r) \<Longrightarrow> graph_entry G r e" "e \<in> set (rg_draining r) \<Longrightarrow> drain_entry r e"
    "e \<in> set (rg_pendingBuilds r) \<Longrightarrow> pending_entry G r e"
  using assms unfolding reg_inv_def by blast+

lemma reg_inv_torn [simp]: "reg_inv G h (r\<lparr>rg_torn := bs\<rparr>) \<longleftrightarrow> reg_inv G h r"
  by (simp add: reg_inv_def build_inv_def graph_entry_def drain_entry_def pending_entry_def cong: option.case_cong)

subsection \<open>Frames\<close>

lemma upd_graph_frame [simp]:
  "rg_graphs (upd_graph b f r) = rg_graphs r" "rg_draining (upd_graph b f r) = rg_draining r"
  "rg_pendingBuilds (upd_graph b f r) = rg_pendingBuilds r" "rg_closed (upd_graph b f r) = rg_closed r"
  "rg_generation (upd_graph b f r) = rg_generation r" "rg_torn (upd_graph b f r) = rg_torn r"
  "length (rg_builds (upd_graph b f r)) = length (rg_builds r)"
  by (simp_all add: upd_graph_def)

lemma upd_graph_nth [simp]:
  "c < length (rg_builds r) \<Longrightarrow> rg_builds (upd_graph b f r) ! c =
     (if c = b then (rg_builds r ! c)\<lparr>bd_graph := map_option f (bd_graph (rg_builds r ! c))\<rparr> else rg_builds r ! c)"
  by (cases "c = b") (simp_all add: upd_graph_def)

lemma dispose_of_frame [simp]:
  "rg_graphs (dispose_of b r) = rg_graphs r" "rg_draining (dispose_of b r) = rg_draining r"
  "rg_pendingBuilds (dispose_of b r) = rg_pendingBuilds r" "rg_closed (dispose_of b r) = rg_closed r"
  "rg_generation (dispose_of b r) = rg_generation r" "length (rg_builds (dispose_of b r)) = length (rg_builds r)"
  by (simp_all add: dispose_of_def)

lemma dispose_of_nth [simp]:
  "b < length (rg_builds r) \<Longrightarrow> bd_graph (rg_builds r ! b) = Some g \<Longrightarrow> c < length (rg_builds r) \<Longrightarrow>
   rg_builds (dispose_of b r) ! c =
     (if c = b then (rg_builds r ! c)\<lparr>bd_graph := Some (g\<lparr>sg_disposed := True\<rparr>)\<rparr> else rg_builds r ! c)"
  by (auto simp: dispose_of_def graph_of_def)

lemma set_build_frame [simp]:
  "rg_graphs (set_build b f r) = rg_graphs r" "rg_draining (set_build b f r) = rg_draining r"
  "rg_pendingBuilds (set_build b f r) = rg_pendingBuilds r" "rg_closed (set_build b f r) = rg_closed r"
  "rg_generation (set_build b f r) = rg_generation r" "length (rg_builds (set_build b f r)) = length (rg_builds r)"
  by (simp_all add: set_build_def)

lemma set_build_nth [simp]:
  "c < length (rg_builds r) \<Longrightarrow> rg_builds (set_build b f r) ! c = (if c = b then f (rg_builds r ! c) else rg_builds r ! c)"
  by (cases "c = b") (simp_all add: set_build_def)

lemma clearIfMine_frame [simp]:
  "rg_graphs (clearIfMine b r) = rg_graphs r" "rg_draining (clearIfMine b r) = rg_draining r"
  "rg_closed (clearIfMine b r) = rg_closed r" "rg_generation (clearIfMine b r) = rg_generation r"
  "rg_builds (clearIfMine b r) = rg_builds r" "rg_torn (clearIfMine b r) = rg_torn r"
  by (simp_all add: clearIfMine_def Let_def)

lemma in_delete: "e \<in> set (AList.delete k m) \<longleftrightarrow> e \<in> set m \<and> fst e \<noteq> k"
  by (auto simp: AList.delete_eq)

lemma distinct_delete [simp]: "distinct (map fst m) \<Longrightarrow> distinct (map fst (AList.delete k m))"
  by (simp add: AList.delete_eq distinct_map_filter)

lemma distinct_alist_update [simp]: "distinct (map fst m) \<Longrightarrow> distinct (map fst (AList.update k v m))"
  by (rule AList.distinct_update)

lemma in_map_of: "distinct (map fst m) \<Longrightarrow> map_of m k = Some v \<longleftrightarrow> (k, v) \<in> set m"
  by (rule map_of_eq_Some_iff)

lemma map_of_delete_alist [simp]: "map_of (AList.delete k m) x = (if x = k then None else map_of m x)"
  by (simp add: delete_conv')

subsection \<open>One graph\<close>

lemma graph_entryD:
  assumes "reg_inv G h r" "(s, b) \<in> set (rg_graphs r)"
  obtains g where "b < length (rg_builds r)" "bd_graph (rg_builds r ! b) = Some g" "graph_of r b = g"
    "bd_session (rg_builds r ! b) = s" "\<not> sg_disposed g" "sg_active g = h b" "map_of (rg_graphs r) s = Some b"
    "(s, b) \<notin> set (rg_draining r)" "bd_gen (rg_builds r ! b) = G" "bd_error (rg_builds r ! b) = None"
proof -
  have e: "graph_entry G r (s, b)" using reg_invD(6) [OF assms] .
  then obtain g where g: "bd_graph (rg_builds r ! b) = Some g" "\<not> sg_disposed g" "b < length (rg_builds r)"
    by (auto simp: graph_entry_def)
  moreover have "sg_active g = h b" using reg_invD(1) [OF assms(1) g(3)] g(1) by (simp add: build_inv_def)
  moreover have "(s, b) \<notin> set (rg_draining r)" using reg_invD(7) [OF assms(1), of "(s, b)"] assms(2) by (auto simp: drain_entry_def)
  moreover have "map_of (rg_graphs r) s = Some b" using in_map_of [OF reg_invD(3) [OF assms(1)]] assms(2) by blast
  ultimately show ?thesis using e by (intro that [of g]) (auto simp: graph_entry_def graph_of_def)
qed

text \<open>A step that changes one graph, and only shrinks the map of live graphs.\<close>

lemma reg_inv_change:
  assumes inv: "reg_inv G h r" and b: "b < length (rg_builds r)" "bd_graph (rg_builds r ! b) = Some g"
    and builds: "length (rg_builds r') = length (rg_builds r)"
      "\<And>c. c < length (rg_builds r) \<Longrightarrow>
        rg_builds r' ! c = (if c = b then (rg_builds r ! c)\<lparr>bd_graph := Some g'\<rparr> else rg_builds r ! c)"
    and maps: "rg_pendingBuilds r' = rg_pendingBuilds r" "rg_closed r' = rg_closed r"
      "set (rg_graphs r') \<subseteq> set (rg_graphs r)" "distinct (map fst (rg_graphs r'))" "distinct (map fst (rg_draining r'))"
      "\<And>s c. (s, c) \<in> set (rg_graphs r) \<Longrightarrow> c \<noteq> b \<Longrightarrow> (s, c) \<in> set (rg_graphs r')"
      "\<And>s c. (s, c) \<in> set (rg_draining r') \<Longrightarrow> c \<noteq> b \<Longrightarrow> (s, c) \<in> set (rg_draining r)"
    and h: "\<And>c. c \<noteq> b \<Longrightarrow> h' c = h c"
    and here: "build_inv G r' h' b" "\<And>s. (s, b) \<in> set (rg_graphs r') \<Longrightarrow> \<not> sg_disposed g'"
      "\<And>s. (s, b) \<in> set (rg_draining r') \<Longrightarrow> drain_entry r' (s, b)"
  shows "reg_inv G h' r'"
proof (rule reg_invI)
  fix c assume "c < length (rg_builds r')"
  then have c: "c < length (rg_builds r)" by (simp add: builds)
  have "map_of (rg_graphs r') s = Some c" if "map_of (rg_graphs r) s = Some c" "c \<noteq> b" for s
    using that maps(6) in_map_of [OF reg_invD(3) [OF inv]] in_map_of [OF maps(4)] by blast
  then show "build_inv G r' h' c"
    using reg_invD(1) [OF inv c] here(1) c h [of c]
    by (cases "c = b") (auto simp: build_inv_def builds(2) maps(1,2) split: option.splits)
next
  fix c assume "length (rg_builds r') \<le> c"
  then show "h' c = 0" using reg_invD(2) [OF inv, of c] h [of c] b(1) builds(1) by (cases "c = b") simp_all
next
  fix e assume e: "e \<in> set (rg_graphs r')"
  then have "graph_entry G r e" using maps(3) reg_invD(6) [OF inv] by blast
  then show "graph_entry G r' e"
    using e here(2) by (cases e; cases "snd e = b") (auto simp: graph_entry_def builds)
next
  fix e assume e: "e \<in> set (rg_draining r')"
  show "drain_entry r' e"
  proof (cases "snd e = b")
    case True
    then show ?thesis using e here(3) by (cases e) simp
  next
    case False
    then have "drain_entry r e" using e maps(7) reg_invD(7) [OF inv] by (cases e) auto
    then show ?thesis using False maps(3) by (auto simp: drain_entry_def builds)
  qed
next
  fix e assume "e \<in> set (rg_pendingBuilds r')"
  then have "pending_entry G r e" using maps(1) reg_invD(8) [OF inv] by simp
  then show "pending_entry G r' e" using maps(3) b by (auto simp: pending_entry_def builds)
qed (use reg_invD(5) [OF inv] maps(1,4,5) in simp_all)

text \<open>Leaving the map of live graphs for good.\<close>

lemma evictNow_inv:
  assumes "reg_inv G h r" "(s, b) \<in> set (rg_graphs r)" "h b = 0 \<or> rg_closed r"
  shows "reg_inv G h (evictNow s b r)"
proof -
  obtain g where g: "b < length (rg_builds r)" "bd_graph (rg_builds r ! b) = Some g" "map_of (rg_graphs r) s = Some b"
    "sg_active g = h b" "(s, b) \<notin> set (rg_draining r)" "bd_session (rg_builds r ! b) = s"
    using graph_entryD [OF assms(1,2)] by metis
  have session: "t = s" if "(t, b) \<in> set (rg_graphs r)" for t
    using reg_invD(6) [OF assms(1) that] g(6) by (simp add: graph_entry_def)
  show ?thesis
  proof (rule reg_inv_change [OF assms(1) g(1,2), where g' = "g\<lparr>sg_disposed := True\<rparr>"])
    fix c assume "c < length (rg_builds r)"
    then show "rg_builds (evictNow s b r) ! c =
        (if c = b then (rg_builds r ! c)\<lparr>bd_graph := Some (g\<lparr>sg_disposed := True\<rparr>)\<rparr> else rg_builds r ! c)"
      using g(1,2) by (simp add: evictNow_def)
  next
    fix t assume "(t, b) \<in> set (rg_graphs (evictNow s b r))"
    then show "\<not> sg_disposed (g\<lparr>sg_disposed := True\<rparr>)" using session by (auto simp: evictNow_graphs in_delete)
  next
    fix t c assume "(t, c) \<in> set (rg_graphs r)" "c \<noteq> b"
    then show "(t, c) \<in> set (rg_graphs (evictNow s b r))"
      using g(3) map_of_is_SomeI [OF reg_invD(3) [OF assms(1)]] by (fastforce simp: evictNow_graphs in_delete)
  next
    fix t assume "(t, b) \<in> set (rg_draining (evictNow s b r))"
    then have "(t, b) \<in> set (rg_draining r)" by (simp add: evictNow_def)
    moreover from reg_invD(7) [OF assms(1) this] have "t = s" using g(6) by (simp add: drain_entry_def)
    ultimately show "drain_entry (evictNow s b r) (t, b)" using g(5) by simp
  next
    show "build_inv G (evictNow s b r) h b"
      using g assms(3) reg_invD(1) [OF assms(1) g(1)] by (auto simp: build_inv_def evictNow_def)
  next
    show "set (rg_graphs (evictNow s b r)) \<subseteq> set (rg_graphs r)" by (auto simp: evictNow_graphs in_delete)
  qed (simp_all add: evictNow_def reg_invD(3,4) [OF assms(1)])
qed

text \<open>Marking a graph that is held, and moving it to the draining ones.\<close>

lemma graph_inv:
  assumes "reg_inv G h r" "b < length (rg_builds r)" "bd_graph (rg_builds r ! b) = Some g"
  shows "bd_gen (rg_builds r ! b) \<le> G" "sg_active g = h b" "sg_disposed g \<Longrightarrow> h b = 0 \<or> rg_closed r"
    "\<not> sg_disposed g \<Longrightarrow> map_of (rg_graphs r) (bd_session (rg_builds r ! b)) = Some b \<or> (sg_marked g \<and> 0 < h b)"
  using reg_invD(1) [OF assms(1,2)] assms(3) by (simp_all add: build_inv_def)

lemma adjust_inv:
  assumes inv: "reg_inv G h r" and b: "b < length (rg_builds r)" "bd_graph (rg_builds r ! b) = Some g"
    and f: "sg_disposed (f g) = sg_disposed g" "sg_marked g \<Longrightarrow> sg_marked (f g)" "sg_active (f g) = h' b"
      "sg_disposed g \<Longrightarrow> h' b = 0 \<or> rg_closed r" "0 < h b \<Longrightarrow> 0 < h' b"
    and h: "\<And>c. c \<noteq> b \<Longrightarrow> h' c = h c"
  shows "reg_inv G h' (upd_graph b f r)"
proof (rule reg_inv_change [OF inv b, where g' = "f g"])
  show "build_inv G (upd_graph b f r) h' b"
    using b f graph_inv [OF inv b] by (auto simp: build_inv_def)
next
  fix s assume "(s, b) \<in> set (rg_graphs (upd_graph b f r))"
  then show "\<not> sg_disposed (f g)" using graph_entryD [OF inv, of s b] b f(1) by (metis option.inject upd_graph_frame(1))
next
  fix s assume "(s, b) \<in> set (rg_draining (upd_graph b f r))"
  then have "drain_entry r (s, b)" using reg_invD(7) [OF inv] by simp
  then show "drain_entry (upd_graph b f r) (s, b)"
    using b f graph_inv(2) [OF inv b] by (auto simp: drain_entry_def)
qed (simp_all add: b h reg_invD(3,4) [OF inv])

lemma mark_inv:
  assumes "reg_inv G h r" "(s, b) \<in> set (rg_graphs r)"
  shows "reg_inv G h (upd_graph b markForDisposal r)"
proof -
  obtain g where g: "b < length (rg_builds r)" "bd_graph (rg_builds r ! b) = Some g" "\<not> sg_disposed g" "sg_active g = h b"
    using graph_entryD [OF assms] by metis
  show ?thesis by (rule adjust_inv [OF assms(1) g(1,2)]) (simp_all add: g markForDisposal_def)
qed

text \<open>From the live graphs to the draining ones.\<close>

lemma invalidate_one_inv:
  assumes "reg_inv G h r" "(s, b) \<in> set (rg_graphs r)"
  shows "reg_inv G h (invalidate_one (s, b) r)"
proof -
  obtain g where g: "b < length (rg_builds r)" "bd_graph (rg_builds r ! b) = Some g" "graph_of r b = g" "map_of (rg_graphs r) s = Some b"
    "sg_active g = h b" "(s, b) \<notin> set (rg_draining r)" "bd_session (rg_builds r ! b) = s" "\<not> sg_disposed g"
    using graph_entryD [OF assms] by metis
  let ?r = "(upd_graph b markForDisposal r)\<lparr>rg_graphs := AList.delete s (rg_graphs r), rg_draining := AList.update s b (rg_draining r)\<rparr>"
  have "reg_inv G h ?r" if "0 < h b"
  proof (rule reg_inv_change [OF assms(1) g(1,2), where g' = "markForDisposal g"])
    fix t c assume "(t, c) \<in> set (rg_graphs r)" "c \<noteq> b"
    then show "(t, c) \<in> set (rg_graphs ?r)"
      using g(4) map_of_is_SomeI [OF reg_invD(3) [OF assms(1)]] by (fastforce simp: in_delete)
  next
    show "build_inv G ?r h b"
      using g that reg_invD(1) [OF assms(1) g(1)] by (simp add: build_inv_def markForDisposal_def)
  next
    fix t assume "(t, b) \<in> set (rg_draining ?r)"
    then have "(t, b) = (s, b) \<or> (t, b) \<in> set (rg_draining r)" using set_update_subset [of s b "rg_draining r"] by auto
    then have "t = s" using reg_invD(7) [OF assms(1), of "(t, b)"] g(7) by (auto simp: drain_entry_def)
    then show "drain_entry ?r (t, b)"
      using g that by (simp add: drain_entry_def in_delete markForDisposal_def)
  next
    fix t c assume "(t, c) \<in> set (rg_draining ?r)" "c \<noteq> b"
    then show "(t, c) \<in> set (rg_draining r)" using set_update_subset [of s b "rg_draining r"] by auto
  next
    show "set (rg_graphs ?r) \<subseteq> set (rg_graphs r)" by (auto simp: in_delete)
  next
    show "distinct (map fst (rg_graphs ?r))" "distinct (map fst (rg_draining ?r))" using reg_invD(3,4) [OF assms(1)] by simp_all
  qed (simp_all add: g markForDisposal_def)
  then show ?thesis
    using evictNow_inv [OF assms] g(3,5) by (cases "0 < h b") (simp_all add: invalidate_one_def isPinned_def Let_def)
qed

lemma fold_live_inv:
  assumes "reg_inv G h r" "set es \<subseteq> set (rg_graphs r)" "distinct (map fst es)"
    and step: "\<And>e r. reg_inv G h r \<Longrightarrow> P r \<Longrightarrow> e \<in> set (rg_graphs r) \<Longrightarrow>
      reg_inv G h (f e r) \<and> P (f e r) \<and> (rg_graphs (f e r) = rg_graphs r \<or> rg_graphs (f e r) = AList.delete (fst e) (rg_graphs r))"
    and "P r"
  shows "reg_inv G h (fold f es r) \<and> P (fold f es r)"
  using assms(1-3,5)
proof (induction es arbitrary: r)
  case (Cons e es)
  have e: "e \<in> set (rg_graphs r)" using Cons.prems(2) by simp
  have "set es \<subseteq> set (rg_graphs (f e r))"
  proof
    fix x assume x: "x \<in> set es"
    then have "fst x \<noteq> fst e" using Cons.prems(3) imageI [OF x, of fst] by (metis distinct.simps(2) list.simps(9) set_map)
    moreover have "x \<in> set (rg_graphs r)" using x Cons.prems(2) by auto
    ultimately show "x \<in> set (rg_graphs (f e r))" using step [OF Cons.prems(1,4) e] by (auto simp: in_delete)
  qed
  then show ?case using Cons.IH [of "f e r"] step [OF Cons.prems(1,4) e] Cons.prems(3) by simp
qed simp

lemma evictOne_inv: "reg_inv G h r \<Longrightarrow> reg_inv G h (evictOne s r)"
proof (cases "map_of (rg_graphs r) s")
  case (Some b)
  assume inv: "reg_inv G h r"
  have e: "(s, b) \<in> set (rg_graphs r)" using Some map_of_SomeD by fast
  obtain g where g: "graph_of r b = g" "sg_active g = h b" using graph_entryD [OF inv e] by metis
  show ?thesis
    using Some mark_inv [OF inv e] evictNow_inv [OF inv e] g by (simp add: evictOne_def isPinned_def)
qed (simp add: evictOne_def)

lemma idle_one_inv:
  assumes "reg_inv G h r" "e \<in> set (rg_graphs r)"
  shows "reg_inv G h (idle_one opts now e r)"
    "rg_graphs (idle_one opts now e r) = rg_graphs r \<or> rg_graphs (idle_one opts now e r) = AList.delete (fst e) (rg_graphs r)"
proof -
  obtain s b where [simp]: "e = (s, b)" by (cases e)
  obtain g where g: "graph_of r b = g" "sg_active g = h b" using graph_entryD [OF assms(1)] assms(2) by (metis \<open>e = (s, b)\<close>)
  show "reg_inv G h (idle_one opts now e r)"
    using evictNow_inv [OF assms(1), of s b] assms g by (simp add: idle_one_def isPinned_def)
qed (simp add: idle_one_def evictNow_graphs)

lemma evictIdle_inv: "reg_inv G h r \<Longrightarrow> reg_inv G h (evictIdle opts now r)"
  unfolding evictIdle_def
  using fold_live_inv [where P = "\<lambda>_. True" and es = "rg_graphs r" and f = "idle_one opts now"] idle_one_inv reg_invD(3) by blast

lemma enforceCap_inv: "reg_inv G h r \<Longrightarrow> reg_inv G h (enforceCap n r)"
proof (induction n r rule: enforceCap.induct)
  case (1 n r)
  show ?case
  proof (cases "n < liveCount r")
    case True
    note over = this
    show ?thesis
    proof (cases "lru_from r None (rg_graphs r)")
      case (Some e)
      obtain s b where e: "e = (s, b)" by (cases e)
      have mem: "(s, b) \<in> set (rg_graphs r)" using lru_from_in [OF Some] e by simp
      obtain g where g: "graph_of r b = g" "sg_active g = h b" using graph_entryD [OF 1(2) mem] by metis
      show ?thesis
        using 1 over Some e mem g mark_inv [OF 1(2) mem] evictNow_inv [OF 1(2) mem]
        by (subst enforceCap.simps) (simp add: isPinned_def)
    qed (subst enforceCap.simps, simp add: 1)
  qed (subst enforceCap.simps, simp add: 1)
qed

subsection \<open>Requests\<close>

lemma take_graph_inv:
  assumes "reg_inv G h r" "b < length (rg_builds r)" "bd_graph (rg_builds r ! b) = Some g" "take_graph now b r = (res, r')"
  shows "(res = Given b \<and> reg_inv G (h(b := h b + 1)) r' \<and> \<not> sg_disposed g) \<or> ((\<exists>e. res = Refused e) \<and> r' = r)"
proof (cases "sg_disposed g")
  case True
  then show ?thesis using assms(3,4) by (auto simp: take_graph_def graph_acquire_def graph_of_def)
next
  case False
  let ?f = "\<lambda>_. g\<lparr>sg_active := sg_active g + 1, sg_lastUsed := now\<rparr>"
  have "reg_inv G (h(b := h b + 1)) (upd_graph b ?f r)"
    by (rule adjust_inv [OF assms(1-3)]) (use False graph_inv(2) [OF assms(1-3)] in simp_all)
  then show ?thesis
    using False assms(3,4) by (auto simp: take_graph_def graph_acquire_def graph_of_def)
qed

lemma begin_build_inv:
  assumes "reg_inv G h r" "rg_generation r = G" "map_of (rg_graphs r) s = None" "map_of (rg_pendingBuilds r) s = None"
  shows "reg_inv G h (begin_build s r)"
proof (rule reg_invI)
  fix c assume c: "c < length (rg_builds (begin_build s r))"
  show "build_inv G (begin_build s r) h c"
  proof (cases "c = length (rg_builds r)")
    case True
    then show ?thesis using assms(2) reg_invD(2) [OF assms(1), of c] by (simp add: build_inv_def begin_build_def)
  next
    case False
    then have c': "c < length (rg_builds r)" using c by (simp add: begin_build_def)
    show ?thesis
      using reg_invD(1) [OF assms(1) c'] c' assms(4) by (auto simp: build_inv_def begin_build_def nth_append split: option.splits)
  qed
next
  fix e assume "e \<in> set (rg_pendingBuilds (begin_build s r))"
  then have "e = (s, length (rg_builds r)) \<or> e \<in> set (rg_pendingBuilds r)"
    using set_update_subset by (fastforce simp: begin_build_def)
  then show "pending_entry G (begin_build s r) e"
    using reg_invD(8) [OF assms(1), of e] assms(2,3) by (auto simp: pending_entry_def begin_build_def nth_append map_of_eq_None_iff image_iff)
next
  fix e assume "e \<in> set (rg_graphs (begin_build s r))"
  then show "graph_entry G (begin_build s r) e"
    using reg_invD(6) [OF assms(1), of e] by (auto simp: graph_entry_def begin_build_def nth_append)
next
  fix e assume "e \<in> set (rg_draining (begin_build s r))"
  then show "drain_entry (begin_build s r) e"
    using reg_invD(7) [OF assms(1), of e] by (auto simp: drain_entry_def begin_build_def nth_append)
qed (use reg_invD(2-5) [OF assms(1)] in \<open>simp_all add: begin_build_def\<close>)

lemma release_reg_inv:
  assumes "reg_inv G h r" "0 < h b"
  shows "reg_inv G (h(b := h b - 1)) (release_graph now (bd_session (rg_builds r ! b)) b r)"
proof -
  let ?s = "bd_session (rg_builds r ! b)" and ?h = "h(b := h b - 1)" and ?r = "upd_graph b (graph_release now) r"
  have b: "b < length (rg_builds r)" using assms reg_invD(2) [OF assms(1), of b] by fastforce
  then obtain g where g: "bd_graph (rg_builds r ! b) = Some g"
    using reg_invD(1) [OF assms(1) b] assms(2) by (cases "bd_graph (rg_builds r ! b)") (auto simp: build_inv_def)
  note gi = graph_inv [OF assms(1) b g]
  have g': "graph_of ?r b = graph_release now g" using b g by (simp add: graph_of_def)
  have active: "sg_active (graph_release now g) = h b - 1" using gi(2) assms(2) by (simp add: graph_release_def)
  show ?thesis
  proof (cases "1 < h b")
    case True
    have "reg_inv G ?h ?r"
      by (rule adjust_inv [OF assms(1) b g]) (use gi(3) active True in \<open>simp_all add: graph_release_def\<close>)
    then show ?thesis using True g' active by (simp add: release_graph_def isPinned_def)
  next
    case False
    then have one: "h b = 1" using assms(2) by simp
    have entry: "(?s, b) \<in> set (rg_graphs r)" if "(t, b) \<in> set (rg_graphs r)" for t
      using that reg_invD(6) [OF assms(1) that] by (simp add: graph_entry_def)
    have drained: "t = ?s" if "(t, b) \<in> set (rg_draining r)" for t
      using reg_invD(7) [OF assms(1) that] by (simp add: drain_entry_def)
    have inmap: "map_of (rg_draining r) ?s = Some b \<longleftrightarrow> (?s, b) \<in> set (rg_draining r)"
        "map_of (rg_graphs r) ?s = Some b \<longleftrightarrow> (?s, b) \<in> set (rg_graphs r)"
      using in_map_of reg_invD(3,4) [OF assms(1)] by metis+
    define away where "away \<longleftrightarrow> (?s, b) \<in> set (rg_draining r) \<or> sg_marked g"
    define r1 where "r1 = (if (?s, b) \<in> set (rg_draining r) then ?r\<lparr>rg_draining := AList.delete ?s (rg_draining r)\<rparr>
      else if (?s, b) \<in> set (rg_graphs r) then ?r\<lparr>rg_graphs := AList.delete ?s (rg_graphs r)\<rparr> else ?r)"
    have r: "release_graph now ?s b r = (if away then dispose_of b r1 else ?r)"
      using g' active one inmap by (auto simp: release_graph_def isPinned_def Let_def away_def r1_def graph_release_def)
    show ?thesis
    proof (cases away)
      case True
      have disj: "(?s, b) \<in> set (rg_draining r) \<Longrightarrow> (?s, b) \<notin> set (rg_graphs r)"
        using reg_invD(7) [OF assms(1), of "(?s, b)"] by (simp add: drain_entry_def)
      have "reg_inv G ?h (dispose_of b r1)"
      proof (rule reg_inv_change [OF assms(1) b g, where g' = "(graph_release now g)\<lparr>sg_disposed := True\<rparr>"])
        fix c assume "c < length (rg_builds r)"
        then show "rg_builds (dispose_of b r1) ! c =
            (if c = b then (rg_builds r ! c)\<lparr>bd_graph := Some ((graph_release now g)\<lparr>sg_disposed := True\<rparr>)\<rparr> else rg_builds r ! c)"
          using b g by (simp add: r1_def)
      next
        fix t assume "(t, b) \<in> set (rg_graphs (dispose_of b r1))"
        then show "\<not> sg_disposed ((graph_release now g)\<lparr>sg_disposed := True\<rparr>)"
          using disj entry [of t] reg_invD(6) [OF assms(1), of "(t, b)"] by (auto simp: r1_def in_delete graph_entry_def split: if_splits)
      next
        fix t c assume tc: "(t, c) \<in> set (rg_graphs r)" "c \<noteq> b"
        then show "(t, c) \<in> set (rg_graphs (dispose_of b r1))"
          using eq_key_imp_eq_value [OF reg_invD(3) [OF assms(1)], of t c b] by (auto simp: r1_def in_delete)
      next
        fix t c assume "(t, c) \<in> set (rg_draining (dispose_of b r1))" "c \<noteq> b"
        then show "(t, c) \<in> set (rg_draining r)" by (auto simp: r1_def in_delete split: if_splits)
      next
        fix t assume "(t, b) \<in> set (rg_draining (dispose_of b r1))"
        then have False using drained [of t] by (auto simp: r1_def in_delete split: if_splits)
        then show "drain_entry (dispose_of b r1) (t, b)" ..
      next
        show "build_inv G (dispose_of b r1) ?h b"
          using b g gi(1) active one by (simp add: build_inv_def r1_def)
      next
        show "set (rg_graphs (dispose_of b r1)) \<subseteq> set (rg_graphs r)" by (auto simp: r1_def in_delete)
      next
        show "distinct (map fst (rg_graphs (dispose_of b r1)))" "distinct (map fst (rg_draining (dispose_of b r1)))"
          using reg_invD(3,4) [OF assms(1)] by (simp_all add: r1_def)
      qed (simp_all add: r1_def)
      then show ?thesis by (simp only: r True if_True)
    next
      case False
      have "reg_inv G ?h ?r"
      proof (rule reg_inv_change [OF assms(1) b g, where g' = "graph_release now g"])
        fix t assume "(t, b) \<in> set (rg_graphs ?r)"
        then show "\<not> sg_disposed (graph_release now g)"
          using reg_invD(6) [OF assms(1), of "(t, b)"] g by (auto simp: graph_entry_def graph_release_def)
      next
        fix t assume t: "(t, b) \<in> set (rg_draining ?r)"
        then have "t = ?s" using drained by simp
        then show "drain_entry ?r (t, b)" using False t by (simp add: away_def)
      next
        show "build_inv G ?r ?h b"
          using b g gi active one False by (simp add: build_inv_def graph_release_def away_def)
      qed (use reg_invD(3,4) [OF assms(1)] b g in \<open>simp_all\<close>)
      then show ?thesis by (simp only: r False if_False)
    qed
  qed
qed

subsection \<open>Builds\<close>

lemma pending_unsettled:
  assumes "reg_inv G h r" "map_of (rg_pendingBuilds r) s = Some b"
  shows "pending_entry G r (s, b)"
  using assms reg_invD(8) map_of_SomeD by fast

text \<open>Settling a build that is in no map of graphs.\<close>

lemma settle_inv:
  assumes inv: "reg_inv G h r" and b: "b < length (rg_builds r)" "bd_graph (rg_builds r ! b) = None"
    and f: "bd_session (f (rg_builds r ! b)) = bd_session (rg_builds r ! b)" "bd_gen (f (rg_builds r ! b)) = bd_gen (rg_builds r ! b)"
    and ends: "bd_graph (f (rg_builds r ! b)) = None \<and> bd_error (f (rg_builds r ! b)) \<noteq> None
      \<or> (\<exists>g. bd_graph (f (rg_builds r ! b)) = Some g \<and> sg_active g = 0 \<and> sg_disposed g)"
  shows "reg_inv G h (set_build b f (clearIfMine b r))"
proof (rule reg_invI)
  let ?r = "set_build b f (clearIfMine b r)"
  {
    fix c assume "c < length (rg_builds ?r)"
    then have c: "c < length (rg_builds r)" by simp
    have kept: "map_of (rg_pendingBuilds ?r) s = Some c" if "map_of (rg_pendingBuilds r) s = Some c" "c \<noteq> b" for s
      using that by (auto simp: clearIfMine_def Let_def)
    show "build_inv G ?r h c"
      using reg_invD(1) [OF inv c] b f ends c kept by (cases "c = b") (auto simp: build_inv_def split: option.splits)
  next
    fix e assume e: "e \<in> set (rg_pendingBuilds ?r)"
    have "e \<in> set (rg_pendingBuilds r)" using e by (auto simp: clearIfMine_def Let_def in_delete split: if_splits)
    then have p: "pending_entry G r e" "map_of (rg_pendingBuilds r) (fst e) = Some (snd e)"
      using reg_invD(5,8) [OF inv] by (auto simp: in_map_of)
    have "snd e \<noteq> b"
    proof
      assume "snd e = b"
      then have "bd_session (rg_builds r ! b) = fst e" using p(1) by (simp add: pending_entry_def)
      then show False using e p(2) \<open>snd e = b\<close> by (simp add: clearIfMine_def Let_def in_delete)
    qed
    then show "pending_entry G ?r e" using p(1) by (simp add: pending_entry_def)
  next
    fix e assume "e \<in> set (rg_graphs ?r)"
    then have "graph_entry G r e" using reg_invD(6) [OF inv] by simp
    moreover from this have "snd e \<noteq> b" using b(2) by (auto simp: graph_entry_def)
    ultimately show "graph_entry G ?r e" by (simp add: graph_entry_def)
  next
    fix e assume "e \<in> set (rg_draining ?r)"
    then have "drain_entry r e" using reg_invD(7) [OF inv] by simp
    moreover from this have "snd e \<noteq> b" using b(2) by (auto simp: drain_entry_def)
    ultimately show "drain_entry ?r e" by (simp add: drain_entry_def)
  }
next
  show "distinct (map fst (rg_pendingBuilds (set_build b f (clearIfMine b r))))"
    using reg_invD(5) [OF inv] by (simp add: clearIfMine_def Let_def)
qed (use reg_invD(2-4) [OF inv] in simp_all)

lemma build_failed_inv:
  assumes "reg_inv G h r" "b < length (rg_builds r)" "\<not> settled_build r b"
  shows "reg_inv G h (build_failed e b r)"
  unfolding build_failed_def
  by (rule settle_inv [OF assms(1,2)]) (use assms(3) in \<open>simp_all add: settled_build_def\<close>)

lemma set_build_set_build: "b < length (rg_builds r) \<Longrightarrow> set_build b f (set_build b g r) = set_build b (f \<circ> g) r"
  by (simp add: set_build_def)

lemma build_orphaned_inv:
  assumes "reg_inv G h r" "b < length (rg_builds r)" "\<not> settled_build r b" "rg_generation r \<noteq> bd_gen (rg_builds r ! b)"
  shows "reg_inv G h (build_done opts now b r)"
proof -
  let ?f = "\<lambda>bd. bd\<lparr>bd_graph := Some (fresh_graph now)\<rparr>" and ?g = "fresh_graph now\<lparr>sg_disposed := True\<rparr>"
    and ?h = "\<lambda>bd. bd\<lparr>bd_graph := Some ((fresh_graph now)\<lparr>sg_disposed := True\<rparr>), bd_error := Some ''SESSION_INVALIDATED''\<rparr>"
  have "build_done opts now b r = (set_build b ?h (clearIfMine b r))\<lparr>rg_torn := rg_torn r @ [b]\<rparr>"
    using assms(2,4)
    by (simp add: build_done_def dispose_of_def graph_of_def set_build_def upd_graph_def clearIfMine_def Let_def fresh_graph_def)
  moreover have "reg_inv G h (set_build b ?h (clearIfMine b r))"
    by (rule settle_inv [OF assms(1,2)]) (use assms(3) in \<open>simp_all add: settled_build_def fresh_graph_def\<close>)
  ultimately show ?thesis by simp
qed

lemma build_published_inv:
  assumes inv: "reg_inv G h r" and b: "b < length (rg_builds r)" "\<not> settled_build r b" "G = bd_gen (rg_builds r ! b)"
  shows "reg_inv G h (clearIfMine b ((set_build b (\<lambda>bd. bd\<lparr>bd_graph := Some (fresh_graph now)\<rparr>) r)
    \<lparr>rg_graphs := AList.update (bd_session (rg_builds r ! b)) b (rg_graphs r)\<rparr>))" (is "reg_inv G h ?r")
proof -
  let ?s = "bd_session (rg_builds r ! b)"
  have none: "bd_graph (rg_builds r ! b) = None" "bd_error (rg_builds r ! b) = None" using b(2) by (simp_all add: settled_build_def)
  then have pend: "map_of (rg_pendingBuilds r) ?s = Some b" and h: "h b = 0"
    using reg_invD(1) [OF inv b(1)] b(3) by (simp_all add: build_inv_def)
  have new: "?s \<notin> fst ` set (rg_graphs r)" using pending_unsettled [OF inv pend] by (simp add: pending_entry_def)
  then have graphs: "map_of (rg_graphs r) ?s = None" by (simp add: map_of_eq_None_iff)
  have r: "rg_pendingBuilds ?r = AList.delete ?s (rg_pendingBuilds r)" using b(1) pend by (simp add: clearIfMine_def Let_def)
  show ?thesis
  proof (rule reg_invI)
    fix c assume "c < length (rg_builds ?r)"
    then have c: "c < length (rg_builds r)" by simp
    show "build_inv G ?r h c"
    proof (cases "c = b")
      case True
      then show ?thesis using b h by (simp add: build_inv_def fresh_graph_def)
    next
      case False
      then show ?thesis
        using reg_invD(1) [OF inv c] c graphs pend by (auto simp: build_inv_def r split: option.splits)
    qed
  next
    fix e assume "e \<in> set (rg_graphs ?r)"
    then have "e = (?s, b) \<or> e \<in> set (rg_graphs r)" using set_update_subset by fastforce
    then show "graph_entry G ?r e"
    proof
      assume "e = (?s, b)"
      then show ?thesis using b none by (simp add: graph_entry_def fresh_graph_def)
    next
      assume "e \<in> set (rg_graphs r)"
      then have e: "graph_entry G r e" by (rule reg_invD(6) [OF inv])
      then have "snd e \<noteq> b" using none(1) by (auto simp: graph_entry_def)
      then show ?thesis using e by (simp add: graph_entry_def)
    qed
  next
    fix e assume "e \<in> set (rg_draining ?r)"
    then have e: "e \<in> set (rg_draining r)" "drain_entry r e" using reg_invD(7) [OF inv] by simp_all
    then have other: "snd e \<noteq> b" using none(1) by (auto simp: drain_entry_def)
    have "e \<notin> set (rg_graphs r)" using e(2) by (simp add: drain_entry_def)
    then have "e \<notin> set (rg_graphs ?r)" using set_update_subset [of ?s b "rg_graphs r"] other by auto
    then show "drain_entry ?r e" using e(2) other by (simp add: drain_entry_def)
  next
    fix e assume "e \<in> set (rg_pendingBuilds ?r)"
    then have e: "e \<in> set (rg_pendingBuilds r)" "fst e \<noteq> ?s" by (simp_all add: r in_delete)
    then have "pending_entry G r e" "snd e \<noteq> b" using reg_invD(8) [OF inv e(1)] by (auto simp: pending_entry_def)
    then show "pending_entry G ?r e" using e(2) by (simp add: pending_entry_def keys_update)
  qed (use reg_invD(2-5) [OF inv] b in \<open>simp_all add: r\<close>)
qed

lemma build_done_inv:
  assumes "reg_inv G h r" "b < length (rg_builds r)" "\<not> settled_build r b" "rg_generation r = G"
  shows "reg_inv G h (build_done opts now b r)"
proof (cases "rg_generation r = bd_gen (rg_builds r ! b)")
  case True
  then show ?thesis
    using enforceCap_inv [OF build_published_inv [OF assms(1-3)]] assms(4) by (simp add: build_done_def Let_def)
next
  case False
  then show ?thesis by (rule build_orphaned_inv [OF assms(1-3)])
qed

subsection \<open>A change of configuration and the shutdown\<close>

lemma reg_inv_pending:
  assumes "reg_inv G h r" "\<And>b. b < length (rg_builds r) \<Longrightarrow> bd_gen (rg_builds r ! b) = G \<Longrightarrow> settled_build r b"
  shows "reg_inv G h (r\<lparr>rg_pendingBuilds := []\<rparr>)"
proof (rule reg_invI)
  fix c assume "c < length (rg_builds (r\<lparr>rg_pendingBuilds := []\<rparr>))"
  then show "build_inv G (r\<lparr>rg_pendingBuilds := []\<rparr>) h c"
    using reg_invD(1) [OF assms(1), of c] assms(2) [of c] by (auto simp: build_inv_def settled_build_def split: option.splits)
next
  fix e assume "e \<in> set (rg_graphs (r\<lparr>rg_pendingBuilds := []\<rparr>))"
  then show "graph_entry G (r\<lparr>rg_pendingBuilds := []\<rparr>) e" using reg_invD(6) [OF assms(1), of e] by (simp add: graph_entry_def)
next
  fix e assume "e \<in> set (rg_draining (r\<lparr>rg_pendingBuilds := []\<rparr>))"
  then show "drain_entry (r\<lparr>rg_pendingBuilds := []\<rparr>) e" using reg_invD(7) [OF assms(1), of e] by (simp add: drain_entry_def)
qed (use reg_invD(2-5) [OF assms(1)] in simp_all)

text \<open>The generation moves on and nothing of the old one is left in the maps.\<close>

lemma reg_inv_generation:
  assumes "reg_inv G h r" "rg_graphs r = []"
  shows "reg_inv (Suc G) h (r\<lparr>rg_pendingBuilds := []\<rparr>)"
proof (rule reg_invI)
  fix c assume "c < length (rg_builds (r\<lparr>rg_pendingBuilds := []\<rparr>))"
  then show "build_inv (Suc G) (r\<lparr>rg_pendingBuilds := []\<rparr>) h c"
    using reg_invD(1) [OF assms(1), of c] assms(2) by (auto simp: build_inv_def split: option.splits)
next
  fix e assume "e \<in> set (rg_draining (r\<lparr>rg_pendingBuilds := []\<rparr>))"
  then show "drain_entry (r\<lparr>rg_pendingBuilds := []\<rparr>) e" using reg_invD(7) [OF assms(1), of e] by (simp add: drain_entry_def)
qed (use reg_invD(2-5) [OF assms(1)] assms(2) in simp_all)

lemma reg_inv_gen_field [simp]: "reg_inv G h (r\<lparr>rg_generation := n\<rparr>) \<longleftrightarrow> reg_inv G h r"
  by (simp add: reg_inv_def build_inv_def graph_entry_def drain_entry_def pending_entry_def cong: option.case_cong)

lemma fold_clears:
  assumes "\<And>e r. rg_graphs (f e r) = AList.delete (fst e) (rg_graphs r)"
  shows "rg_graphs (fold f es r) = filter (\<lambda>x. fst x \<notin> fst ` set es) (rg_graphs r)"
  by (induction es arbitrary: r) (auto simp: assms AList.delete_eq intro!: filter_cong)

lemma fold_clears_all: "(\<And>e r. rg_graphs (f e r) = AList.delete (fst e) (rg_graphs r)) \<Longrightarrow> rg_graphs (fold f (rg_graphs r) r) = []"
  by (simp add: fold_clears filter_empty_conv)

lemma fold_reg_keeps:
  assumes "\<And>e r. p (f e r) = p r"
  shows "p (fold f es r) = p r"
  using assms by (induction es arbitrary: r) simp_all

lemma invalidate_one_frame:
  "rg_graphs (invalidate_one e r) = AList.delete (fst e) (rg_graphs r)" "rg_closed (invalidate_one e r) = rg_closed r"
  "rg_generation (invalidate_one e r) = rg_generation r" "rg_pendingBuilds (invalidate_one e r) = rg_pendingBuilds r"
  by (simp_all add: invalidate_one_def evictNow_def Let_def)

lemma invalidateAll_inv:
  assumes "reg_inv (rg_generation r) h r"
  shows "reg_inv (rg_generation (invalidateAll r)) h (invalidateAll r)"
    and "rg_generation (invalidateAll r) = Suc (rg_generation r)"
proof -
  let ?r = "r\<lparr>rg_generation := rg_generation r + 1\<rparr>" and ?G = "rg_generation r"
  have "reg_inv ?G h (fold invalidate_one (rg_graphs r) ?r) \<and> True"
    by (rule fold_live_inv) (use assms reg_invD(3) [OF assms] invalidate_one_inv invalidate_one_frame(1) in auto)
  moreover have "rg_graphs (fold invalidate_one (rg_graphs r) ?r) = []"
    using fold_clears_all [OF invalidate_one_frame(1), of ?r] by simp
  moreover have gen: "rg_generation (fold invalidate_one (rg_graphs r) ?r) = Suc ?G"
    using fold_reg_keeps [where p = rg_generation and f = invalidate_one, OF invalidate_one_frame(3), of "rg_graphs r" ?r] by simp
  ultimately show "reg_inv (rg_generation (invalidateAll r)) h (invalidateAll r)"
    using reg_inv_generation [of ?G h "fold invalidate_one (rg_graphs r) ?r"] by (simp add: invalidateAll_def)
  show "rg_generation (invalidateAll r) = Suc ?G" using gen by (simp add: invalidateAll_def)
qed

lemma reg_inv_close:
  assumes "reg_inv G h r"
  shows "reg_inv G h (r\<lparr>rg_closed := True\<rparr>)"
proof (rule reg_invI)
  fix c assume "c < length (rg_builds (r\<lparr>rg_closed := True\<rparr>))"
  then show "build_inv G (r\<lparr>rg_closed := True\<rparr>) h c"
    using reg_invD(1) [OF assms, of c] by (auto simp: build_inv_def split: option.splits)
next
  fix e assume "e \<in> set (rg_graphs (r\<lparr>rg_closed := True\<rparr>))"
  then show "graph_entry G (r\<lparr>rg_closed := True\<rparr>) e" using reg_invD(6) [OF assms, of e] by (simp add: graph_entry_def)
next
  fix e assume "e \<in> set (rg_draining (r\<lparr>rg_closed := True\<rparr>))"
  then show "drain_entry (r\<lparr>rg_closed := True\<rparr>) e" using reg_invD(7) [OF assms, of e] by (simp add: drain_entry_def)
next
  fix e assume "e \<in> set (rg_pendingBuilds (r\<lparr>rg_closed := True\<rparr>))"
  then show "pending_entry G (r\<lparr>rg_closed := True\<rparr>) e" using reg_invD(8) [OF assms, of e] by (simp add: pending_entry_def)
qed (use reg_invD(2-5) [OF assms] in simp_all)

lemma sweep_drained_inv:
  assumes "reg_inv G h r" "rg_closed r" "(s, b) \<in> set (rg_draining r)"
  shows "reg_inv G h (sweep_drained (s, b) r)"
proof -
  have "drain_entry r (s, b)" by (rule reg_invD(7) [OF assms(1,3)])
  then obtain g where g: "b < length (rg_builds r)" "bd_graph (rg_builds r ! b) = Some g" "bd_session (rg_builds r ! b) = s"
      "(s, b) \<notin> set (rg_graphs r)" by (auto simp: drain_entry_def)
  show ?thesis
  proof (rule reg_inv_change [OF assms(1) g(1,2), where g' = "g\<lparr>sg_disposed := True\<rparr>"])
    fix t assume t: "(t, b) \<in> set (rg_graphs (sweep_drained (s, b) r))"
    then have "t = s" using reg_invD(6) [OF assms(1), of "(t, b)"] g(3) by (simp add: sweep_drained_def graph_entry_def)
    then show "\<not> sg_disposed (g\<lparr>sg_disposed := True\<rparr>)" using t g(4) by (simp add: sweep_drained_def)
  next
    fix t assume t: "(t, b) \<in> set (rg_draining (sweep_drained (s, b) r))"
    then have "t = s" using reg_invD(7) [OF assms(1), of "(t, b)"] g(3) by (simp add: sweep_drained_def drain_entry_def in_delete)
    then show "drain_entry (sweep_drained (s, b) r) (t, b)" using t by (simp add: sweep_drained_def in_delete)
  next
    show "build_inv G (sweep_drained (s, b) r) h b"
      using g reg_invD(1) [OF assms(1) g(1)] assms(2) by (simp add: build_inv_def sweep_drained_def)
  qed (use g reg_invD(3,4) [OF assms(1)] in \<open>simp_all add: sweep_drained_def in_delete\<close>)
qed

lemma sweep_frame:
  "rg_closed (sweep_one e r) = rg_closed r" "rg_draining (sweep_one e r) = rg_draining r" "rg_generation (sweep_one e r) = rg_generation r"
  "rg_pendingBuilds (sweep_one e r) = rg_pendingBuilds r" "rg_graphs (sweep_one e r) = AList.delete (fst e) (rg_graphs r)"
  "rg_closed (sweep_drained e r) = rg_closed r" "rg_generation (sweep_drained e r) = rg_generation r"
  "rg_pendingBuilds (sweep_drained e r) = rg_pendingBuilds r" "rg_graphs (sweep_drained e r) = rg_graphs r"
  "rg_draining (sweep_drained e r) = AList.delete (fst e) (rg_draining r)"
  by (simp_all add: sweep_one_def sweep_drained_def evictNow_def)

lemma fold_drained_inv:
  assumes "reg_inv G h r" "rg_closed r" "set es \<subseteq> set (rg_draining r)" "distinct (map fst es)"
  shows "reg_inv G h (fold sweep_drained es r)
    \<and> rg_draining (fold sweep_drained es r) = filter (\<lambda>x. fst x \<notin> fst ` set es) (rg_draining r)"
  using assms
proof (induction es arbitrary: r)
  case (Cons e es)
  have "set es \<subseteq> set (rg_draining (sweep_drained e r))"
  proof
    fix x assume x: "x \<in> set es"
    then have "fst x \<noteq> fst e" using Cons.prems(4) imageI [OF x, of fst] by (metis distinct.simps(2) list.simps(9) set_map)
    then show "x \<in> set (rg_draining (sweep_drained e r))" using x Cons.prems(3) by (auto simp: sweep_frame in_delete)
  qed
  moreover have "reg_inv G h (sweep_drained e r)" using sweep_drained_inv [OF Cons.prems(1,2), of "fst e" "snd e"] Cons.prems(3) by simp
  ultimately show ?case
    using Cons.IH [of "sweep_drained e r"] Cons.prems(2,4)
    by (auto simp: sweep_frame AList.delete_eq intro!: filter_cong)
qed simp

lemma sweep_inv:
  assumes inv: "reg_inv G h r" and closed: "rg_closed r" and "rg_pendingBuilds r = []"
  shows "reg_inv G h (sweep r)" "rg_graphs (sweep r) = []" "rg_draining (sweep r) = []" "rg_pendingBuilds (sweep r) = []"
    "rg_closed (sweep r)" "rg_generation (sweep r) = rg_generation r"
proof -
  define r1 where "r1 = fold sweep_one (rg_graphs r) r"
  define r2 where "r2 = fold sweep_drained (rg_draining r1) r1"
  have "reg_inv G h r1 \<and> rg_closed r1"
    unfolding r1_def
  proof (rule fold_live_inv [where P = rg_closed, OF inv order_refl reg_invD(3) [OF inv] _ closed])
    fix e r assume "reg_inv G h r" "rg_closed r" "e \<in> set (rg_graphs r)"
    then show "reg_inv G h (sweep_one e r) \<and> rg_closed (sweep_one e r)
        \<and> (rg_graphs (sweep_one e r) = rg_graphs r \<or> rg_graphs (sweep_one e r) = AList.delete (fst e) (rg_graphs r))"
      using evictNow_inv [of G h r "fst e" "snd e"] by (simp add: sweep_frame) (simp add: sweep_one_def)
  qed
  then have r1: "reg_inv G h r1" "rg_closed r1" by simp_all
  have g1: "rg_graphs r1 = []" unfolding r1_def by (rule fold_clears_all) (simp add: sweep_frame)
  have p1: "rg_pendingBuilds r1 = []" "rg_generation r1 = rg_generation r"
    unfolding r1_def using fold_reg_keeps [of rg_pendingBuilds sweep_one] fold_reg_keeps [of rg_generation sweep_one] sweep_frame assms(3) by metis+
  have r2: "reg_inv G h r2" "rg_draining r2 = []"
    using fold_drained_inv [OF r1 order_refl reg_invD(4) [OF r1(1)]] by (simp_all add: r2_def filter_empty_conv)
  have k2: "rg_graphs r2 = rg_graphs r1" "rg_pendingBuilds r2 = rg_pendingBuilds r1" "rg_closed r2 = rg_closed r1"
      "rg_generation r2 = rg_generation r1"
    unfolding r2_def using fold_reg_keeps [of rg_graphs sweep_drained] fold_reg_keeps [of rg_pendingBuilds sweep_drained]
      fold_reg_keeps [of rg_closed sweep_drained] fold_reg_keeps [of rg_generation sweep_drained] sweep_frame by metis+
  have s: "sweep r = r2" using p1 k2(2) by (simp add: sweep_def r1_def [symmetric] r2_def [symmetric] Let_def)
  show "reg_inv G h (sweep r)" "rg_graphs (sweep r) = []" "rg_draining (sweep r) = []" "rg_pendingBuilds (sweep r) = []"
    "rg_closed (sweep r)" "rg_generation (sweep r) = rg_generation r"
    using r2 k2 g1 p1 r1 by (simp_all add: s)
qed

end
