(* ===== verification/RegistryProps.thy ===== *)
theory RegistryProps
  imports RegistryInv "HOL-Library.Multiset"
begin

text \<open>
  What the session registry promises its callers, under every interleaving of requests, builds, evictions, changes of
  configuration and the shutdown.
\<close>

subsection \<open>Operations that build nothing\<close>

definition shrinks :: "registry \<Rightarrow> registry \<Rightarrow> bool" where
  "shrinks r r' \<longleftrightarrow> length (rg_builds r') = length (rg_builds r) \<and> rg_closed r' = rg_closed r
     \<and> set (rg_graphs r') \<subseteq> set (rg_graphs r) \<and> set (rg_pendingBuilds r') \<subseteq> set (rg_pendingBuilds r)
     \<and> (\<forall>b < length (rg_builds r). bd_session (rg_builds r' ! b) = bd_session (rg_builds r ! b)
          \<and> bd_gen (rg_builds r' ! b) = bd_gen (rg_builds r ! b)
          \<and> (\<forall>g. bd_graph (rg_builds r ! b) = Some g \<longrightarrow> (\<exists>g'. bd_graph (rg_builds r' ! b) = Some g' \<and> (sg_marked g \<longrightarrow> sg_marked g'))))"

lemma shrinks_refl [simp]: "shrinks r r"
  by (simp add: shrinks_def)

lemma shrinks_trans: "shrinks r r' \<Longrightarrow> shrinks r' r'' \<Longrightarrow> shrinks r r''"
  unfolding shrinks_def by (simp, blast)

lemma shrinksD:
  "shrinks r r' \<Longrightarrow> b < length (rg_builds r) \<Longrightarrow> bd_graph (rg_builds r ! b) = Some g
    \<Longrightarrow> \<exists>g'. bd_graph (rg_builds r' ! b) = Some g' \<and> (sg_marked g \<longrightarrow> sg_marked g')"
  unfolding shrinks_def by blast

lemma shrinks_fold: "(\<And>e r. shrinks r (f e r)) \<Longrightarrow> shrinks r (fold f es r)"
  by (induction es arbitrary: r) (auto intro: shrinks_trans)

lemma shrinks_upd: "(\<And>g. sg_marked g \<Longrightarrow> sg_marked (f g)) \<Longrightarrow> shrinks r (upd_graph b f r)"
  by (auto simp: shrinks_def)

lemma shrinks_maps:
  "shrinks r r' \<Longrightarrow> shrinks r (r'\<lparr>rg_graphs := AList.delete s (rg_graphs r')\<rparr>)"
  "shrinks r r' \<Longrightarrow> shrinks r (r'\<lparr>rg_draining := d\<rparr>)" "shrinks r r' \<Longrightarrow> shrinks r (r'\<lparr>rg_pendingBuilds := []\<rparr>)"
  "shrinks r r' \<Longrightarrow> shrinks r (r'\<lparr>rg_torn := t\<rparr>)" "shrinks r r' \<Longrightarrow> shrinks r (r'\<lparr>rg_generation := n\<rparr>)"
  by (auto simp: shrinks_def in_delete)

lemma shrinks_dispose: "shrinks r r' \<Longrightarrow> shrinks r (dispose_of b r')"
  unfolding dispose_of_def by (auto intro!: shrinks_maps shrinks_trans [OF _ shrinks_upd])

lemma shrinks_evictNow: "shrinks r (evictNow s b r)"
  unfolding evictNow_def by (intro shrinks_dispose shrinks_maps shrinks_refl)

lemma shrinks_release: "shrinks r (release_graph now s b r)"
proof -
  have "shrinks r (upd_graph b (graph_release now) r)" by (rule shrinks_upd) (simp add: graph_release_def)
  from this shrinks_maps(1,2) [OF this] show ?thesis by (auto simp: release_graph_def Let_def intro!: shrinks_dispose)
qed

lemma shrinks_evictOne: "shrinks r (evictOne s r)"
  by (auto simp: evictOne_def markForDisposal_def shrinks_evictNow intro!: shrinks_upd split: option.split)

lemma shrinks_evictIdle: "shrinks r (evictIdle opts now r)"
  unfolding evictIdle_def by (rule shrinks_fold) (simp add: idle_one_def shrinks_evictNow)

lemma shrinks_invalidateAll: "shrinks r (invalidateAll r)"
proof -
  have "shrinks r (invalidate_one e r)" for e r
  proof -
    have m: "shrinks r (upd_graph (snd e) markForDisposal r)" by (rule shrinks_upd) (simp add: markForDisposal_def)
    have "shrinks r ((upd_graph (snd e) markForDisposal r)\<lparr>rg_graphs := AList.delete (fst e) (rg_graphs (upd_graph (snd e) markForDisposal r)),
        rg_draining := AList.update (fst e) (snd e) (rg_draining (upd_graph (snd e) markForDisposal r))\<rparr>)"
      by (rule shrinks_maps(2)) (rule shrinks_maps(1) [OF m])
    then show ?thesis by (simp only: invalidate_one_def Let_def shrinks_evictNow split: if_split) simp
  qed
  then have "shrinks r (fold invalidate_one es (r\<lparr>rg_generation := n\<rparr>))" for es n
    by (intro shrinks_trans [OF shrinks_maps(5) [OF shrinks_refl] shrinks_fold])
  then show ?thesis unfolding invalidateAll_def by (intro shrinks_maps)
qed

lemma shrinks_sweep: "shrinks r (sweep r)"
proof -
  have one: "shrinks r (sweep_one e r)" and drained: "shrinks r (sweep_drained e r)" for e r
    by (simp_all add: sweep_one_def shrinks_evictNow sweep_drained_def shrinks_dispose shrinks_maps)
  show ?thesis
    unfolding sweep_def Let_def
    by (intro shrinks_maps(3)) (rule shrinks_trans [OF shrinks_fold [of sweep_one, OF one] shrinks_fold [of sweep_drained, OF drained]])
qed

lemma shrinks_enforceCap: "shrinks r (enforceCap n r)"
proof (induction n r rule: enforceCap.induct)
  case (1 n r)
  have mark: "shrinks r (upd_graph b markForDisposal r)" for b by (rule shrinks_upd) (simp add: markForDisposal_def)
  show ?case
  proof (cases "n < liveCount r")
    case True
    note over = this
    show ?thesis
    proof (cases "lru_from r None (rg_graphs r)")
      case (Some e)
      then obtain s b where lru: "lru_from r None (rg_graphs r) = Some (s, b)" by (cases e) simp
      have "shrinks r (enforceCap n (evictNow s b r))" if "s \<noteq> []" "\<not> isPinned (graph_of r b)"
        by (rule shrinks_trans [OF shrinks_evictNow]) (rule 1 [OF over lru refl that])
      then show ?thesis using over lru mark by (subst enforceCap.simps) simp
    qed (subst enforceCap.simps, simp)
  qed (subst enforceCap.simps, simp)
qed

lemma shrinks_take: "take_graph now b r = (res, r') \<Longrightarrow> shrinks r r'"
  by (auto simp: take_graph_def graph_acquire_def shrinks_def graph_of_def split: sum.splits if_splits)

lemma shrinks_clear: "shrinks r (clearIfMine b r)"
  by (auto simp: shrinks_def clearIfMine_def Let_def in_delete)

lemma shrinks_failed: "bd_graph (rg_builds r ! b) = None \<Longrightarrow> shrinks r (build_failed e b r)"
  unfolding build_failed_def
  by (rule shrinks_trans [OF shrinks_clear]) (auto simp: shrinks_def)

lemma shrinks_orphan:
  assumes "bd_graph (rg_builds r ! b) = None" "rg_generation r \<noteq> bd_gen (rg_builds r ! b)"
  shows "shrinks r (build_done opts now b r)"
proof -
  have "shrinks r (set_build b (\<lambda>bd. bd\<lparr>bd_graph := Some (fresh_graph now)\<rparr>) r)" using assms(1) by (auto simp: shrinks_def)
  then have "shrinks r (clearIfMine b (dispose_of b (set_build b (\<lambda>bd. bd\<lparr>bd_graph := Some (fresh_graph now)\<rparr>) r)))"
    by (rule shrinks_trans [OF shrinks_dispose shrinks_clear])
  then have "shrinks r (set_build b (\<lambda>bd. bd\<lparr>bd_error := Some e\<rparr>)
      (clearIfMine b (dispose_of b (set_build b (\<lambda>bd. bd\<lparr>bd_graph := Some (fresh_graph now)\<rparr>) r))))" for e
    by (rule shrinks_trans) (auto simp: shrinks_def)
  then show ?thesis using assms(2) by (simp add: build_done_def Let_def)
qed

text \<open>Builds are added and never renamed.\<close>

definition grows :: "registry \<Rightarrow> registry \<Rightarrow> bool" where
  "grows r r' \<longleftrightarrow> length (rg_builds r) \<le> length (rg_builds r')
     \<and> (\<forall>b < length (rg_builds r). bd_session (rg_builds r' ! b) = bd_session (rg_builds r ! b) \<and> bd_gen (rg_builds r' ! b) = bd_gen (rg_builds r ! b))"

lemma shrinks_grows: "shrinks r r' \<Longrightarrow> grows r r'"
  by (simp add: shrinks_def grows_def)

lemma grows_begin: "grows r (begin_build s r)"
  by (simp add: grows_def begin_build_def nth_append)

definition published :: "nat \<Rightarrow> nat \<Rightarrow> registry \<Rightarrow> registry" where
  "published now b r = clearIfMine b ((set_build b (\<lambda>bd. bd\<lparr>bd_graph := Some (fresh_graph now)\<rparr>) r)
     \<lparr>rg_graphs := AList.update (bd_session (rg_builds r ! b)) b (rg_graphs r)\<rparr>)"

lemma build_done_published:
  "rg_generation r = bd_gen (rg_builds r ! b) \<Longrightarrow> build_done opts now b r = enforceCap (ro_maxSessions opts) (published now b r)"
  by (simp add: build_done_def published_def Let_def)

lemma published_frame:
  "length (rg_builds (published now b r)) = length (rg_builds r)" "rg_closed (published now b r) = rg_closed r"
  "set (rg_pendingBuilds (published now b r)) \<subseteq> set (rg_pendingBuilds r)"
  "c < length (rg_builds r) \<Longrightarrow> rg_builds (published now b r) ! c =
     (if c = b then (rg_builds r ! c)\<lparr>bd_graph := Some (fresh_graph now)\<rparr> else rg_builds r ! c)"
  "rg_graphs (published now b r) = AList.update (bd_session (rg_builds r ! b)) b (rg_graphs r)"
  using shrinks_clear [of "(set_build b (\<lambda>bd. bd\<lparr>bd_graph := Some (fresh_graph now)\<rparr>) r)
     \<lparr>rg_graphs := AList.update (bd_session (rg_builds r ! b)) b (rg_graphs r)\<rparr>" b]
  by (simp_all add: published_def shrinks_def)

lemma build_done_frame:
  assumes "\<not> settled_build r b"
  shows "grows r (build_done opts now b r)" "rg_closed (build_done opts now b r) = rg_closed r"
    "set (rg_pendingBuilds (build_done opts now b r)) \<subseteq> set (rg_pendingBuilds r)"
proof -
  have none: "bd_graph (rg_builds r ! b) = None" using assms by (simp add: settled_build_def)
  have "grows r (build_done opts now b r) \<and> rg_closed (build_done opts now b r) = rg_closed r
    \<and> set (rg_pendingBuilds (build_done opts now b r)) \<subseteq> set (rg_pendingBuilds r)"
  proof (cases "rg_generation r = bd_gen (rg_builds r ! b)")
    case True
    then show ?thesis
      using shrinks_enforceCap [of "published now b r" "ro_maxSessions opts"] published_frame [where b = b and r = r and now = now]
      by (auto simp: build_done_published shrinks_def grows_def)
  next
    case False
    then show ?thesis using shrinks_orphan [OF none False, of opts now] shrinks_grows by (auto simp: shrinks_def)
  qed
  then show "grows r (build_done opts now b r)" "rg_closed (build_done opts now b r) = rg_closed r"
    "set (rg_pendingBuilds (build_done opts now b r)) \<subseteq> set (rg_pendingBuilds r)" by blast+
qed

subsection \<open>The invariant of the world\<close>

abbreviation holders :: "registry_world \<Rightarrow> nat \<Rightarrow> nat" where
  "holders w \<equiv> count (mset (map snd (rw_held w)))"

abbreviation named :: "registry \<Rightarrow> string \<Rightarrow> nat \<Rightarrow> bool" where
  "named r s b \<equiv> b < length (rg_builds r) \<and> bd_session (rg_builds r ! b) = s"

definition held_named :: "registry \<Rightarrow> (string \<times> nat) list \<Rightarrow> bool" where
  "held_named r hs \<longleftrightarrow> (\<forall>e \<in> set hs. named r (fst e) (snd e))"

definition waits_named :: "registry \<Rightarrow> (string \<times> nat \<times> nat) list \<Rightarrow> bool" where
  "waits_named r ws \<longleftrightarrow> (\<forall>e \<in> set ws. named r (fst e) (snd (snd e)) \<and> bd_gen (rg_builds r ! snd (snd e)) = fst (snd e))"

definition closing_ok :: "registry \<Rightarrow> nat list list \<Rightarrow> bool \<Rightarrow> bool" where
  "closing_ok r shutdowns swept \<longleftrightarrow> (shutdowns \<noteq> [] \<longrightarrow> rg_closed r)
     \<and> (\<forall>bs \<in> set shutdowns. snd ` set (rg_pendingBuilds r) \<subseteq> set bs)
     \<and> (swept \<longrightarrow> rg_closed r \<and> rg_graphs r = [] \<and> rg_draining r = [] \<and> rg_pendingBuilds r = [])"

definition world_inv :: "registry_world \<Rightarrow> bool" where
  "world_inv w \<longleftrightarrow> reg_inv (rg_generation (rw_reg w)) (holders w) (rw_reg w) \<and> held_named (rw_reg w) (rw_held w)
     \<and> waits_named (rw_reg w) (rw_waiting w) \<and> closing_ok (rw_reg w) (rw_shutdowns w) (rw_swept w)"

lemma world_invD:
  assumes "world_inv w"
  shows "reg_inv (rg_generation (rw_reg w)) (holders w) (rw_reg w)" "held_named (rw_reg w) (rw_held w)"
    "waits_named (rw_reg w) (rw_waiting w)" "closing_ok (rw_reg w) (rw_shutdowns w) (rw_swept w)"
  using assms by (simp_all add: world_inv_def)

lemma held_named_grows: "held_named r hs \<Longrightarrow> grows r r' \<Longrightarrow> held_named r' hs"
  unfolding held_named_def grows_def by (simp, blast intro: less_le_trans)

lemma waits_named_grows: "waits_named r ws \<Longrightarrow> grows r r' \<Longrightarrow> waits_named r' ws"
  unfolding waits_named_def grows_def by (simp, blast intro: less_le_trans)

lemma held_named_simps [simp]:
  "held_named r []" "held_named r ((s, b) # hs) \<longleftrightarrow> named r s b \<and> held_named r hs" "held_named r hs \<Longrightarrow> held_named r (remove1 e hs)"
  "held_named r hs \<Longrightarrow> (s, b) \<in> set hs \<Longrightarrow> bd_session (rg_builds r ! b) = s"
  unfolding held_named_def by (auto dest: notin_set_remove1)

lemma waits_named_simps [simp]:
  "waits_named r []" "waits_named r ((s, gen, b) # ws) \<longleftrightarrow> named r s b \<and> bd_gen (rg_builds r ! b) = gen \<and> waits_named r ws"
  "waits_named r ws \<Longrightarrow> waits_named r (remove1 e ws)"
  unfolding waits_named_def by (auto dest: notin_set_remove1)

lemma held_namedD: "held_named r hs \<Longrightarrow> (s, b) \<in> set hs \<Longrightarrow> named r s b"
  unfolding held_named_def by (drule (1) bspec) simp

lemma waits_namedD: "waits_named r ws \<Longrightarrow> (s, gen, b) \<in> set ws \<Longrightarrow> named r s b \<and> bd_gen (rg_builds r ! b) = gen"
  unfolding waits_named_def by (drule (1) bspec) simp

lemma closing_open: "closing_ok r ss sw \<Longrightarrow> \<not> rg_closed r \<Longrightarrow> \<not> rg_closed r' \<Longrightarrow> closing_ok r' ss sw"
  by (auto simp: closing_ok_def)

lemma closing_kept:
  assumes "closing_ok r ss sw" "rg_closed r' = rg_closed r" "set (rg_pendingBuilds r') \<subseteq> set (rg_pendingBuilds r)"
    "sw \<Longrightarrow> rg_graphs r' = [] \<and> rg_draining r' = []"
  shows "closing_ok r' ss sw"
  using assms unfolding closing_ok_def by (metis image_mono order_trans set_empty subset_empty)

text \<open>Most steps only change the registry.\<close>

lemma world_inv_reg:
  assumes "world_inv w" "reg_inv (rg_generation r') (holders w) r'" "grows (rw_reg w) r'" "rg_closed r' = rg_closed (rw_reg w)"
    "set (rg_pendingBuilds r') \<subseteq> set (rg_pendingBuilds (rw_reg w))" "rw_swept w \<Longrightarrow> rg_graphs r' = [] \<and> rg_draining r' = []"
  shows "world_inv (w\<lparr>rw_reg := r'\<rparr>)"
proof -
  have "held_named r' (rw_held w)" "waits_named r' (rw_waiting w)" "closing_ok r' (rw_shutdowns w) (rw_swept w)"
    using held_named_grows [OF world_invD(2) [OF assms(1)] assms(3)] waits_named_grows [OF world_invD(3) [OF assms(1)] assms(3)]
      closing_kept [OF world_invD(4) [OF assms(1)] assms(4-6)] by blast+
  then show ?thesis using assms(2) by (simp add: world_inv_def)
qed

lemma world_inv_gen: "world_inv w \<Longrightarrow> shrinks (rw_reg w) r' \<Longrightarrow> reg_inv (rg_generation r') (holders w) r'
    \<Longrightarrow> rg_draining r' = rg_draining (rw_reg w) \<Longrightarrow> world_inv (w\<lparr>rw_reg := r'\<rparr>)"
  using shrinks_grows [of "rw_reg w" r'] world_invD(4) [of w]
  by (intro world_inv_reg) (auto simp: shrinks_def closing_ok_def)

lemma draining_kept [simp]:
  "rg_draining (evictNow s b r) = rg_draining r" "rg_draining (evictOne s r) = rg_draining r"
  "rg_draining (evictIdle opts now r) = rg_draining r" "rg_generation (evictNow s b r) = rg_generation r"
  "rg_generation (evictOne s r) = rg_generation r" "rg_generation (evictIdle opts now r) = rg_generation r"
  using fold_reg_keeps [of rg_draining "idle_one opts now"] fold_reg_keeps [of rg_generation "idle_one opts now"]
  by (simp_all add: evictNow_def evictOne_def evictIdle_def idle_one_def split: option.split)

lemma generation_kept [simp]:
  "rg_generation (clearIfMine b r) = rg_generation r" "rg_generation (build_failed e b r) = rg_generation r"
  "rg_generation (release_graph now s b r) = rg_generation r" "rg_draining (build_failed e b r) = rg_draining r"
  by (simp_all add: clearIfMine_def build_failed_def release_graph_def Let_def)

lemma enforceCap_gen [simp]: "rg_generation (enforceCap n r) = rg_generation r"
proof (induction n r rule: enforceCap.induct)
  case (1 n r)
  show ?case
  proof (cases "n < liveCount r")
    case True
    note over = this
    show ?thesis
    proof (cases "lru_from r None (rg_graphs r)")
      case (Some e)
      then obtain s b where "lru_from r None (rg_graphs r) = Some (s, b)" by (cases e) simp
      then show ?thesis using 1 [OF over _ refl] over by (subst enforceCap.simps) simp
    qed (subst enforceCap.simps, simp)
  qed (subst enforceCap.simps, simp)
qed

lemma build_done_gen [simp]: "rg_generation (build_done opts now b r) = rg_generation r"
  by (simp add: build_done_def Let_def)

lemma holders_add: "count (mset (b # map snd hs)) = (count (mset (map snd hs)))(b := count (mset (map snd hs)) b + 1)"
  by (rule ext) simp

lemma holders_remove:
  assumes "(s, b) \<in> set hs"
  shows "count (mset (map snd (remove1 (s, b) hs))) = (count (mset (map snd hs)))(b := count (mset (map snd hs)) b - 1)"
    and "0 < count (mset (map snd hs)) b"
proof -
  have "mset (map snd (remove1 (s, b) hs)) = mset (map snd hs) - {#b#}"
    using assms by (simp add: image_mset_Diff)
  then show "count (mset (map snd (remove1 (s, b) hs))) = (count (mset (map snd hs)))(b := count (mset (map snd hs)) b - 1)"
    by (intro ext) simp
  show "0 < count (mset (map snd hs)) b" using assms by (induction hs) auto
qed

lemma given_inv:
  assumes w: "world_inv w" and b: "b < length (rg_builds (rw_reg w))" "bd_graph (rg_builds (rw_reg w) ! b) = Some g"
    "bd_session (rg_builds (rw_reg w) ! b) = s"
  shows "world_inv (acquired_by s gen (take_graph now b (rw_reg w)) w)"
proof -
  obtain res r' where t: "take_graph now b (rw_reg w) = (res, r')" by (metis surj_pair)
  consider "res = Given b" "reg_inv (rg_generation (rw_reg w)) ((holders w)(b := holders w b + 1)) r'" | e where "res = Refused e" "r' = rw_reg w"
    using take_graph_inv [OF world_invD(1) [OF w] b(1,2) t] by auto
  then show ?thesis
  proof cases
    case 1
    note sh = shrinks_take [OF t]
    have fields: "rg_generation r' = rg_generation (rw_reg w)" "rg_draining r' = rg_draining (rw_reg w)"
      using t by (auto simp: take_graph_def split: sum.splits)
    have "held_named r' (rw_held w)" by (rule held_named_grows [OF world_invD(2) [OF w] shrinks_grows [OF sh]])
    moreover have "waits_named r' (rw_waiting w)" by (rule waits_named_grows [OF world_invD(3) [OF w] shrinks_grows [OF sh]])
    moreover have "closing_ok r' (rw_shutdowns w) (rw_swept w)"
      by (rule closing_kept [OF world_invD(4) [OF w]]) (use sh fields(2) world_invD(4) [OF w] in \<open>auto simp: shrinks_def closing_ok_def\<close>)
    moreover have "named r' s b" using b sh by (auto simp: shrinks_def)
    ultimately show ?thesis
      using 1 by (simp add: acquired_by_def t world_inv_def fields holders_add del: mset_map mset.simps)
  next
    case 2
    then show ?thesis using w by (simp add: acquired_by_def t)
  qed
qed

lemma asks_inv:
  assumes w: "world_inv w"
  shows "world_inv (acquired_by s (rg_generation (rw_reg w)) (acquire_start now s (rw_reg w)) w)"
proof (cases "rg_closed (rw_reg w)")
  case True
  then show ?thesis using w by (simp add: acquired_by_def acquire_start_def)
next
  case False
  let ?r = "rw_reg w"
  note inv = world_invD(1) [OF w]
  show ?thesis
  proof (cases "map_of (rg_graphs ?r) s")
    case (Some b)
    then have "(s, b) \<in> set (rg_graphs ?r)" by (rule map_of_SomeD)
    then obtain g where "b < length (rg_builds ?r)" "bd_graph (rg_builds ?r ! b) = Some g" "bd_session (rg_builds ?r ! b) = s"
      using graph_entryD [OF inv] by metis
    then show ?thesis using given_inv [OF w] False Some by (simp add: acquire_start_def)
  next
    case None
    note no_graph = this
    show ?thesis
    proof (cases "map_of (rg_pendingBuilds ?r) s")
      case (Some b)
      then show ?thesis
        using w False no_graph pending_unsettled [OF inv Some]
        by (simp add: acquire_start_def acquired_by_def world_inv_def pending_entry_def)
    next
      case None
      let ?r' = "begin_build s ?r"
      have "reg_inv (rg_generation ?r) (holders w) ?r'" by (rule begin_build_inv [OF inv refl no_graph None])
      moreover have "rg_generation ?r' = rg_generation ?r" "rg_closed ?r' = rg_closed ?r" by (simp_all add: begin_build_def)
      moreover have "named ?r' s (length (rg_builds ?r)) \<and> bd_gen (rg_builds ?r' ! length (rg_builds ?r)) = rg_generation ?r"
        by (simp add: begin_build_def)
      moreover have "closing_ok ?r' (rw_shutdowns w) (rw_swept w)"
        by (rule closing_open [OF world_invD(4) [OF w] False]) (simp add: begin_build_def False)
      ultimately show ?thesis
        using False no_graph None held_named_grows [OF world_invD(2) [OF w] grows_begin]
          waits_named_grows [OF world_invD(3) [OF w] grows_begin]
        by (simp add: acquire_start_def acquired_by_def world_inv_def)
    qed
  qed
qed

lemma resumes_inv:
  assumes w: "world_inv w" and e: "(s, gen, b) \<in> set (rw_waiting w)" "settled_build (rw_reg w) b"
  shows "world_inv (acquired_by s gen (acquire_resume now gen b (rw_reg w)) (w\<lparr>rw_waiting := remove1 (s, gen, b) (rw_waiting w)\<rparr>))"
proof -
  let ?w = "w\<lparr>rw_waiting := remove1 (s, gen, b) (rw_waiting w)\<rparr>"
  have w': "world_inv ?w" using w by (simp add: world_inv_def)
  have n: "named (rw_reg w) s b" using e(1) world_invD(3) [OF w] by (auto simp: waits_named_def)
  show ?thesis
  proof (cases "bd_error (rg_builds (rw_reg w) ! b)")
    case None
    then obtain g where "bd_graph (rg_builds (rw_reg w) ! b) = Some g" using e(2) by (auto simp: settled_build_def)
    then have "world_inv (acquired_by s gen (take_graph now b (rw_reg w)) ?w)"
      using given_inv [OF w', of b g s gen now] n by simp
    then show ?thesis using None w' by (simp add: acquire_resume_def) (simp add: acquired_by_def)
  next
    case (Some m)
    then show ?thesis using w' by (simp add: acquire_resume_def acquired_by_def)
  qed
qed

lemma closed_after_sweep:
  assumes "world_inv w" "rw_swept w" "\<not> settled_build (rw_reg w) b" "b < length (rg_builds (rw_reg w))"
  shows "rg_generation (rw_reg w) \<noteq> bd_gen (rg_builds (rw_reg w) ! b)"
  using reg_invD(1) [OF world_invD(1) [OF assms(1)] assms(4)] assms(2,3) world_invD(4) [OF assms(1)]
  by (auto simp: build_inv_def settled_build_def closing_ok_def)

lemma releases_inv:
  assumes e: "(s, b) \<in> set (rw_held w)" and w: "world_inv w"
  shows "world_inv (w\<lparr>rw_reg := release_graph now s b (rw_reg w), rw_held := remove1 (s, b) (rw_held w)\<rparr>)"
proof -
  let ?r = "release_graph now s b (rw_reg w)"
  have s: "bd_session (rg_builds (rw_reg w) ! b) = s" by (rule held_named_simps(4) [OF world_invD(2) [OF w] e])
  have drains: "set (rg_draining ?r) \<subseteq> set (rg_draining (rw_reg w))" by (auto simp: release_graph_def Let_def in_delete split: if_splits)
  have inv: "reg_inv (rg_generation ?r) (count (mset (map snd (remove1 (s, b) (rw_held w))))) ?r"
    using release_reg_inv [OF world_invD(1) [OF w] holders_remove(2) [OF e], of now] unfolding s holders_remove(1) [OF e] by simp
  have sh: "shrinks (rw_reg w) ?r" by (rule shrinks_release)
  have "closing_ok ?r (rw_shutdowns w) (rw_swept w)"
    by (rule closing_kept [OF world_invD(4) [OF w]]) (use sh world_invD(4) [OF w] drains in \<open>auto simp: shrinks_def closing_ok_def\<close>)
  then show ?thesis
    using inv held_named_grows [OF world_invD(2) [OF w] shrinks_grows [OF sh]]
      waits_named_grows [OF world_invD(3) [OF w] shrinks_grows [OF sh]] by (simp add: world_inv_def del: mset_map)
qed

text \<open>A release by the id of the session is the release of the graph it names.\<close>

lemma release_session_is_release:
  "released_by_session r s = Some b \<Longrightarrow> release_session now s r = release_graph now s b r"
  by (auto simp: released_by_session_def release_session_def release_graph_def Let_def split: option.splits)

lemma gives_back_is_release:
  "released_by_session (rw_reg w) s = Some b \<Longrightarrow>
   gives_back now s b w = w\<lparr>rw_reg := release_graph now s b (rw_reg w), rw_held := remove1 (s, b) (rw_held w)\<rparr>"
  by (simp add: gives_back_def release_session_is_release)

lemma releases_by_session_inv:
  "(s, b) \<in> set (rw_held w) \<Longrightarrow> released_by_session (rw_reg w) s = Some b \<Longrightarrow> world_inv w \<Longrightarrow> world_inv (gives_back now s b w)"
  by (simp add: gives_back_is_release releases_inv)

lemma sweeps_inv:
  assumes bs: "bs \<in> set (rw_shutdowns w)" "list_all (settled_build (rw_reg w)) bs" and w: "world_inv w"
  shows "world_inv (w\<lparr>rw_reg := sweep (rw_reg w), rw_swept := True\<rparr>)"
proof -
  have closed: "rg_closed (rw_reg w)" and sub: "snd ` set (rg_pendingBuilds (rw_reg w)) \<subseteq> set bs"
    using world_invD(4) [OF w] bs(1) by (auto simp: closing_ok_def)
  have "e \<notin> set (rg_pendingBuilds (rw_reg w))" for e
  proof
    assume e: "e \<in> set (rg_pendingBuilds (rw_reg w))"
    then have "\<not> settled_build (rw_reg w) (snd e)"
      using reg_invD(8) [OF world_invD(1) [OF w]] by (simp add: pending_entry_def settled_build_def)
    moreover have "snd e \<in> set bs" using sub e by auto
    ultimately show False using bs(2) by (simp add: list_all_iff)
  qed
  then have "rg_pendingBuilds (rw_reg w) = []" using list.set_sel(1) by blast
  note sw = sweep_inv [OF world_invD(1) [OF w] closed this]
  have "closing_ok (sweep (rw_reg w)) (rw_shutdowns w) True" using sw by (simp add: closing_ok_def)
  then show ?thesis
    using sw held_named_grows [OF world_invD(2) [OF w] shrinks_grows [OF shrinks_sweep]]
      waits_named_grows [OF world_invD(3) [OF w] shrinks_grows [OF shrinks_sweep]] by (simp add: world_inv_def)
qed

lemma built_inv:
  assumes b: "b < length (rg_builds (rw_reg w))" "\<not> settled_build (rw_reg w) b" and w: "world_inv w"
  shows "world_inv (w\<lparr>rw_reg := build_done opts now b (rw_reg w)\<rparr>)"
proof (rule world_inv_reg [OF w _ build_done_frame [OF b(2)]])
  show "reg_inv (rg_generation (build_done opts now b (rw_reg w))) (holders w) (build_done opts now b (rw_reg w))"
    using build_done_inv [OF world_invD(1) [OF w] b refl] by simp
  assume swept: "rw_swept w"
  then show "rg_graphs (build_done opts now b (rw_reg w)) = [] \<and> rg_draining (build_done opts now b (rw_reg w)) = []"
    using closed_after_sweep [OF w swept b(2,1)] world_invD(4) [OF w] by (simp add: build_done_def Let_def closing_ok_def)
qed

lemma build_fails_inv:
  assumes b: "b < length (rg_builds (rw_reg w))" "\<not> settled_build (rw_reg w) b" and w: "world_inv w"
  shows "world_inv (w\<lparr>rw_reg := build_failed e b (rw_reg w)\<rparr>)"
proof (rule world_inv_gen [OF w])
  show "shrinks (rw_reg w) (build_failed e b (rw_reg w))"
    using b(2) by (intro shrinks_failed) (simp add: settled_build_def)
  show "reg_inv (rg_generation (build_failed e b (rw_reg w))) (holders w) (build_failed e b (rw_reg w))"
    using build_failed_inv [OF world_invD(1) [OF w] b] by simp
qed simp

lemma evictions_inv:
  assumes w: "world_inv w"
  shows "world_inv (w\<lparr>rw_reg := evictOne s (rw_reg w)\<rparr>)" "world_inv (w\<lparr>rw_reg := evictIdle opts now (rw_reg w)\<rparr>)"
  using world_inv_gen [OF w shrinks_evictOne] evictOne_inv [OF world_invD(1) [OF w]]
    world_inv_gen [OF w shrinks_evictIdle] evictIdle_inv [OF world_invD(1) [OF w]] by simp_all

lemma invalidates_inv:
  assumes w: "world_inv w"
  shows "world_inv (w\<lparr>rw_reg := invalidateAll (rw_reg w)\<rparr>)"
proof (rule world_inv_reg [OF w invalidateAll_inv(1) [OF world_invD(1) [OF w]] shrinks_grows [OF shrinks_invalidateAll]])
  assume "rw_swept w"
  then show "rg_graphs (invalidateAll (rw_reg w)) = [] \<and> rg_draining (invalidateAll (rw_reg w)) = []"
    using world_invD(4) [OF w] by (simp add: invalidateAll_def closing_ok_def)
qed (use shrinks_invalidateAll [of "rw_reg w"] in \<open>simp_all add: shrinks_def\<close>)

lemma closes_inv:
  assumes w: "world_inv w"
  shows "world_inv (w\<lparr>rw_reg := close_registry (rw_reg w), rw_shutdowns := map snd (rg_pendingBuilds (rw_reg w)) # rw_shutdowns w\<rparr>)"
proof -
  have g: "grows (rw_reg w) (rw_reg w\<lparr>rg_closed := True\<rparr>)" by (simp add: grows_def)
  have "closing_ok (rw_reg w\<lparr>rg_closed := True\<rparr>) (map snd (rg_pendingBuilds (rw_reg w)) # rw_shutdowns w) (rw_swept w)"
    using world_invD(4) [OF w] by (auto simp: closing_ok_def)
  then show ?thesis
    using reg_inv_close [OF world_invD(1) [OF w]] held_named_grows [OF world_invD(2) [OF w] g] waits_named_grows [OF world_invD(3) [OF w] g]
    by (simp add: world_inv_def close_registry_def)
qed

lemma registry_step_inv:
  assumes "registry_step opts w w'" "world_inv w"
  shows "world_inv w'"
  using assms
  by (induction rule: registry_step.induct)
    (rule asks_inv resumes_inv built_inv build_fails_inv releases_inv releases_by_session_inv evictions_inv invalidates_inv closes_inv sweeps_inv, assumption+)+

lemma new_world_inv: "world_inv new_world"
  by (simp add: world_inv_def new_world_def new_registry_def reg_inv_def closing_ok_def)

lemma registry_run_inv: "registry_run opts w \<Longrightarrow> world_inv w"
  by (induction rule: rtranclp_induct) (auto intro: new_world_inv registry_step_inv)

subsection \<open>The cap\<close>

abbreviation live :: "registry \<Rightarrow> (string \<times> nat) set" where
  "live r \<equiv> {e \<in> set (rg_graphs r). \<not> sg_marked (graph_of r (snd e))}"

lemma liveCount_card: "reg_inv G h r \<Longrightarrow> liveCount r = card (live r)"
  using reg_invD(3) [of G h r] by (simp add: liveCount_def distinct_map distinct_card [symmetric])

lemma live_shrinks:
  assumes "reg_inv G h r" "shrinks r r'"
  shows "live r' \<subseteq> live r"
proof
  fix e assume e: "e \<in> live r'"
  then have mem: "e \<in> set (rg_graphs r)" using assms(2) by (auto simp: shrinks_def)
  then obtain g where g: "snd e < length (rg_builds r)" "bd_graph (rg_builds r ! snd e) = Some g"
    using reg_invD(6) [OF assms(1) mem] by (auto simp: graph_entry_def)
  obtain g' where "bd_graph (rg_builds r' ! snd e) = Some g'" "sg_marked g \<longrightarrow> sg_marked g'"
    using shrinksD [OF assms(2) g] by blast
  then show "e \<in> live r" using e mem g by (simp add: graph_of_def)
qed

lemma liveCount_mono: "reg_inv G h r \<Longrightarrow> reg_inv G' h' r' \<Longrightarrow> shrinks r r' \<Longrightarrow> liveCount r' \<le> liveCount r"
  by (simp add: liveCount_card live_shrinks card_mono)

lemma lru_unmarked: "lru_from r best es = Some e \<Longrightarrow> best = Some e \<or> \<not> sg_marked (graph_of r (snd e))"
proof (induction es arbitrary: best)
  case (Cons x xs)
  show ?case
  proof (cases "sg_marked (graph_of r (snd x))")
    case False
    then obtain e0 where "lru_from r e0 xs = Some e" "e0 = best \<or> e0 = Some x"
      using Cons.prems by (cases best) (simp_all split: if_splits)
    then show ?thesis using Cons.IH False by auto
  qed (use Cons in simp)
qed simp

lemma lru_None: "lru_from r best es = None \<Longrightarrow> best = None \<and> (\<forall>e \<in> set es. sg_marked (graph_of r (snd e)))"
proof (induction es arbitrary: best)
  case (Cons x xs)
  show ?case
  proof (cases "sg_marked (graph_of r (snd x))")
    case False
    then obtain e0 where "lru_from r (Some e0) xs = None" using Cons.prems by (cases best) (simp_all split: if_splits)
    then show ?thesis using Cons.IH by blast
  qed (use Cons in simp)
qed simp

lemma cap_enforced:
  assumes inv: "reg_inv G h r" and ids: "\<forall>e \<in> set (rg_graphs r). fst e \<noteq> []" and room: "liveCount r \<le> Suc n"
  shows "liveCount (enforceCap n r) \<le> n"
proof (cases "n < liveCount r")
  case True
  then obtain s b where e: "lru_from r None (rg_graphs r) = Some (s, b)"
  proof (cases "lru_from r None (rg_graphs r)")
    case None
    then have "live r = {}" using lru_None [OF None] by auto
    have "liveCount r = 0" unfolding liveCount_card [OF inv] \<open>live r = {}\<close> by simp
    then show ?thesis using True by simp
  qed (use that in \<open>metis surj_pair\<close>)
  then have mem: "(s, b) \<in> live r" using lru_from_in [OF e] lru_unmarked [OF e] by auto
  then have graph: "(s, b) \<in> set (rg_graphs r)" by simp
  obtain g where g: "b < length (rg_builds r)" "bd_graph (rg_builds r ! b) = Some g" "graph_of r b = g" "sg_active g = h b"
    using graph_entryD [OF inv graph] by metis
  have smaller: "liveCount r' \<le> n" if "reg_inv G h r'" "shrinks r r'" "(s, b) \<notin> live r'" for r'
  proof -
    have "live r' \<subset> live r" using live_shrinks [OF inv that(2)] that(3) mem by blast
    then have "card (live r') < card (live r)" by (intro psubset_card_mono) simp_all
    then show ?thesis using room liveCount_card [OF inv] liveCount_card [OF that(1)] by simp
  qed
  show ?thesis
  proof (cases "isPinned g")
    case True
    have "liveCount (upd_graph b markForDisposal r) \<le> n"
      using g by (intro smaller mark_inv [OF inv graph] shrinks_upd) (simp_all add: markForDisposal_def graph_of_def)
    then show ?thesis using True \<open>n < liveCount r\<close> e graph ids g(3) by (subst enforceCap.simps) auto
  next
    case False
    then have "liveCount (evictNow s b r) \<le> n"
      using g by (intro smaller evictNow_inv [OF inv graph] shrinks_evictNow) (simp_all add: isPinned_def evictNow_graphs in_delete)
    moreover from this have "enforceCap n (evictNow s b r) = evictNow s b r" by (subst enforceCap.simps) simp
    ultimately show ?thesis using False \<open>n < liveCount r\<close> e graph ids g(3) by (subst enforceCap.simps) auto
  qed
qed (subst enforceCap.simps, simp)

abbreviation sessions_named :: "registry \<Rightarrow> bool" where
  "sessions_named r \<equiv> \<forall>b < length (rg_builds r). bd_session (rg_builds r ! b) \<noteq> []"

lemma sessions_named_graphs: "reg_inv G h r \<Longrightarrow> sessions_named r \<Longrightarrow> \<forall>e \<in> set (rg_graphs r). fst e \<noteq> []"
  using reg_invD(6) by (fastforce simp: graph_entry_def)

lemma sessions_named_grows: "grows r r' \<Longrightarrow> sessions_named r' \<Longrightarrow> sessions_named r"
  unfolding grows_def by (metis less_le_trans)

lemma built_cap:
  assumes inv: "reg_inv (rg_generation r) h r" and b: "b < length (rg_builds r)" "\<not> settled_build r b"
    and named: "sessions_named r" and cap: "liveCount r \<le> ro_maxSessions opts"
  shows "liveCount (build_done opts now b r) \<le> ro_maxSessions opts"
proof (cases "rg_generation r = bd_gen (rg_builds r ! b)")
  case True
  let ?s = "bd_session (rg_builds r ! b)" and ?p = "published now b r"
  have pinv: "reg_inv (rg_generation r) h ?p" unfolding published_def by (rule build_published_inv [OF inv b True])
  have "live ?p \<subseteq> insert (?s, b) (live r)"
  proof
    fix e assume e: "e \<in> live ?p"
    have b0: "bd_graph (rg_builds r ! b) = None" using b(2) by (simp add: settled_build_def)
    show "e \<in> insert (?s, b) (live r)"
    proof (cases "e = (?s, b)")
      case False
      then have mem: "e \<in> set (rg_graphs r)" using e set_update_subset by (fastforce simp: published_frame)
      have "snd e < length (rg_builds r)" "snd e \<noteq> b"
        using reg_invD(6) [OF inv mem] b0 by (auto simp: graph_entry_def)
      then show ?thesis using e mem by (simp add: published_frame graph_of_def)
    qed simp
  qed
  then have "card (live ?p) \<le> card (insert (?s, b) (live r))" by (intro card_mono) simp_all
  then have "liveCount ?p \<le> Suc (liveCount r)"
    using liveCount_card [OF inv] liveCount_card [OF pinv] by (simp add: card_insert_if split: if_splits)
  moreover have "sessions_named ?p" using named by (auto simp: published_frame)
  ultimately show ?thesis
    using cap_enforced [OF pinv sessions_named_graphs [OF pinv]] cap by (simp add: build_done_published [OF True])
next
  case False
  have "shrinks r (build_done opts now b r)" using b(2) False by (intro shrinks_orphan) (simp_all add: settled_build_def)
  then show ?thesis using liveCount_mono [OF inv build_done_inv [OF inv b refl]] cap by fastforce
qed

lemma acquired_reg: "rw_reg (acquired_by s gen res w) = snd res"
  by (cases res; cases "fst res") (auto simp: acquired_by_def)

lemma take_cap:
  assumes "reg_inv G h r" "b < length (rg_builds r)" "bd_graph (rg_builds r ! b) = Some g"
  shows "liveCount (snd (take_graph now b r)) \<le> liveCount r"
proof -
  obtain res r' where t: "take_graph now b r = (res, r')" by (metis surj_pair)
  show ?thesis
    using take_graph_inv [OF assms t] liveCount_mono [OF assms(1) _ shrinks_take [OF t]] by (auto simp: t)
qed

lemma start_cap:
  assumes "reg_inv G h r"
  shows "liveCount (snd (acquire_start now s r)) \<le> liveCount r"
proof (cases "map_of (rg_graphs r) s")
  case (Some b)
  then obtain g where "b < length (rg_builds r)" "bd_graph (rg_builds r ! b) = Some g"
    using graph_entryD [OF assms map_of_SomeD [OF Some]] by metis
  then show ?thesis using take_cap [OF assms] Some by (simp add: acquire_start_def)
next
  case None
  have "filter (\<lambda>e. \<not> sg_marked (graph_of (begin_build s r) (snd e))) (rg_graphs r)
      = filter (\<lambda>e. \<not> sg_marked (graph_of r (snd e))) (rg_graphs r)"
    using reg_invD(6) [OF assms] by (intro filter_cong) (auto simp: graph_entry_def begin_build_def graph_of_def nth_append)
  then have "liveCount (begin_build s r) = liveCount r" by (simp add: liveCount_def begin_build_def)
  then show ?thesis using None by (simp add: acquire_start_def split: option.split)
qed

lemma resume_cap:
  assumes "reg_inv G h r" "b < length (rg_builds r)" "settled_build r b"
  shows "liveCount (snd (acquire_resume now gen b r)) \<le> liveCount r"
proof (cases "bd_error (rg_builds r ! b)")
  case None
  then obtain g where "bd_graph (rg_builds r ! b) = Some g" using assms(3) by (auto simp: settled_build_def)
  then show ?thesis using take_cap [OF assms(1,2)] None by (simp add: acquire_resume_def)
qed (simp add: acquire_resume_def)

lemma start_grows: "grows r (snd (acquire_start now s r))"
proof -
  have "grows r (snd (take_graph now b r))" for b
    using shrinks_grows [OF shrinks_take [of now b r "fst (take_graph now b r)" "snd (take_graph now b r)"]] by simp
  then show ?thesis
    by (simp add: acquire_start_def grows_begin shrinks_grows split: option.split)
qed

lemma step_grows: "registry_step opts w w' \<Longrightarrow> world_inv w \<Longrightarrow> grows (rw_reg w) (rw_reg w')"
proof (induction rule: registry_step.induct)
  case (resumes s gen b w now)
  have "grows r (snd (take_graph now b r))" for r
    using shrinks_grows [OF shrinks_take [of now b r "fst (take_graph now b r)" "snd (take_graph now b r)"]] by simp
  then show ?case by (simp add: acquired_reg acquire_resume_def shrinks_grows split: option.split)
next
  case (build_fails b w e)
  then show ?case by (simp add: shrinks_grows shrinks_failed settled_build_def)
qed (simp_all add: gives_back_is_release acquired_reg start_grows build_done_frame shrinks_grows shrinks_release shrinks_evictOne shrinks_evictIdle
    shrinks_invalidateAll shrinks_sweep close_registry_def grows_def [of r "r\<lparr>rg_closed := b\<rparr>" for r b])

lemma step_cap:
  assumes "registry_step opts w w'" "world_inv w" "sessions_named (rw_reg w')" "liveCount (rw_reg w) \<le> ro_maxSessions opts"
  shows "liveCount (rw_reg w') \<le> ro_maxSessions opts"
proof -
  note inv = world_invD(1) [OF assms(2)] and inv' = world_invD(1) [OF registry_step_inv [OF assms(1,2)]]
  have shr: ?thesis if "shrinks (rw_reg w) (rw_reg w')"
    using liveCount_mono [OF inv inv' that] assms(4) by simp
  show ?thesis
    using assms(1)
  proof cases
    case (asks s now)
    then show ?thesis using start_cap [OF inv, of now s] assms(4) by (simp add: acquired_reg)
  next
    case (resumes s gen b now)
    then have "b < length (rg_builds (rw_reg w))" using waits_namedD [OF world_invD(3) [OF assms(2)]] by blast
    then show ?thesis using resumes resume_cap [OF inv _ resumes(3), of now gen] assms(4) by (simp add: acquired_reg)
  next
    case (built b now)
    have "sessions_named (rw_reg w)" by (rule sessions_named_grows [OF step_grows [OF assms(1,2)] assms(3)])
    then show ?thesis using built_cap [OF inv built(2,3) _ assms(4)] built(1) by simp
  next
    case (build_fails b e)
    then show ?thesis by (intro shr) (simp add: shrinks_failed settled_build_def)
  next
    case (closes)
    then show ?thesis using assms(4) by (simp add: close_registry_def liveCount_def graph_of_def)
  qed (rule shr, simp add: gives_back_is_release shrinks_release shrinks_evictOne shrinks_evictIdle shrinks_invalidateAll shrinks_sweep)+
qed

subsection \<open>Properties\<close>

text \<open>A request of a session, its graph, and a change of configuration while the request still runs.\<close>

definition sample_limits :: registry_options where
  "sample_limits = \<lparr>ro_idleTtlMs = 10, ro_maxSessions = 1\<rparr>"

definition asked_world :: registry_world where
  "asked_world = acquired_by ''a'' (rg_generation (rw_reg new_world)) (acquire_start 0 ''a'' (rw_reg new_world)) new_world"

definition built_world :: registry_world where
  "built_world = asked_world\<lparr>rw_reg := build_done sample_limits 1 0 (rw_reg asked_world)\<rparr>"

definition given_world :: registry_world where
  "given_world = acquired_by ''a'' 0 (acquire_resume 2 0 0 (rw_reg built_world))
     (built_world\<lparr>rw_waiting := remove1 (''a'', 0, 0) (rw_waiting built_world)\<rparr>)"

definition drained_world :: registry_world where
  "drained_world = given_world\<lparr>rw_reg := invalidateAll (rw_reg given_world)\<rparr>"

lemma built_run: "registry_run sample_limits built_world"
proof -
  have "registry_step sample_limits new_world asked_world" unfolding asked_world_def by (rule asks)
  moreover have "registry_step sample_limits asked_world built_world"
    unfolding built_world_def by (rule built) code_simp+
  ultimately show ?thesis by (meson rtranclp.rtrancl_into_rtrancl rtranclp.rtrancl_refl)
qed

lemma given_step: "registry_step sample_limits built_world given_world"
  unfolding given_world_def by (rule resumes) code_simp+

lemma given_run: "registry_run sample_limits given_world"
  using built_run given_step by (rule rtranclp.rtrancl_into_rtrancl)

lemma drained_run: "registry_run sample_limits drained_world"
  using given_run invalidates [of sample_limits given_world] unfolding drained_world_def by (rule rtranclp.rtrancl_into_rtrancl)

lemma drained_facts:
  "rw_held drained_world = [(''a'', 0)]" "rg_closed (rw_reg drained_world) = False" "rg_graphs (rw_reg drained_world) = []"
  "rg_draining (rw_reg drained_world) = [(''a'', 0)]" "length (rg_builds (rw_reg drained_world)) = 1"
  "bd_session (rg_builds (rw_reg drained_world) ! 0) = ''a''"
  by code_simp+

lemma given_facts:
  "rw_held built_world = []" "rw_held given_world = [(''a'', 0)]" "rg_generation (rw_reg given_world) = 0"
  "map bd_session (rg_builds (rw_reg given_world)) = [''a'']" "liveCount (rw_reg given_world) = 1"
  by code_simp+

lemma acquired_held:
  assumes "rw_held (acquired_by s gen res w) = (t, b) # rw_held w"
  shows "fst res = Given b"
  using assms by (cases res; cases "fst res") (auto simp: acquired_by_def)

lemma remove1_not_Cons: "remove1 x ys \<noteq> z # ys"
proof
  assume "remove1 x ys = z # ys"
  then have "length (remove1 x ys) = Suc (length ys)" by simp
  then show False by (simp add: length_remove1 split: if_splits)
qed

lemma held_graph:
  assumes "registry_run opts w" "(s, b) \<in> set (rw_held w)"
  shows "\<exists>g. bd_session (rg_builds (rw_reg w) ! b) = s \<and> bd_graph (rg_builds (rw_reg w) ! b) = Some g
    \<and> sg_active g = count (mset (map snd (rw_held w))) b \<and> (\<not> rg_closed (rw_reg w) \<longrightarrow> \<not> sg_disposed g)"
proof -
  note w = registry_run_inv [OF assms(1)]
  have b: "b < length (rg_builds (rw_reg w))" "bd_session (rg_builds (rw_reg w) ! b) = s"
    using held_namedD [OF world_invD(2) [OF w] assms(2)] by blast+
  note held = holders_remove(2) [OF assms(2)] and inv = reg_invD(1) [OF world_invD(1) [OF w] b(1)]
  obtain g where g: "bd_graph (rg_builds (rw_reg w) ! b) = Some g"
    using inv held by (cases "bd_graph (rg_builds (rw_reg w) ! b)") (simp_all add: build_inv_def del: mset_map)
  show ?thesis
    using graph_inv(2,3) [OF world_invD(1) [OF w] b(1) g] b(2) g held by (metis less_numeral_extra(3))
qed

text \<open>C31. A session's graph is not torn down under a request, however builds, evictions, changes of configuration and
  releases interleave, where a request releases its graph by the graph, or by the id of the session while the id names
  that graph: until the registry is closed, a graph that a request holds is alive, belongs to the session the request
  asked for, and is pinned once per holder.  (A stray release by the id breaks this: see
  \<open>stray_release_tears_down_a_held_graph\<close> below.)\<close>

theorem held_graphs_stay_alive:
  assumes "registry_run opts w" "(s, b) \<in> set (rw_held w)"
  shows "\<exists>g. bd_session (rg_builds (rw_reg w) ! b) = s \<and> bd_graph (rg_builds (rw_reg w) ! b) = Some g
    \<and> sg_active g = count (mset (map snd (rw_held w))) b \<and> (\<not> rg_closed (rw_reg w) \<longrightarrow> \<not> sg_disposed g)"
  using assms by (rule held_graph)

lemma held_graphs_stay_alive_witness:
  "\<exists>g. bd_graph (rg_builds (rw_reg drained_world) ! 0) = Some g \<and> sg_active g = 1 \<and> \<not> sg_disposed g"
  using held_graphs_stay_alive [OF drained_run, of "''a''" 0] by (simp add: drained_facts)

text \<open>C32. After a change of configuration no request is given a graph built before it: whatever a request receives was built in
  the current generation, for its own session.\<close>

theorem requests_get_current_graphs:
  assumes "registry_run opts w" "registry_step opts w w'" "rw_held w' = (s, b) # rw_held w"
  shows "bd_session (rg_builds (rw_reg w') ! b) = s \<and> bd_gen (rg_builds (rw_reg w') ! b) = rg_generation (rw_reg w')"
proof -
  note w = registry_run_inv [OF assms(1)]
  note inv = world_invD(1) [OF w]
  have b: "b < length (rg_builds (rw_reg w'))" "bd_session (rg_builds (rw_reg w') ! b) = s"
    using held_namedD [OF world_invD(2) [OF registry_step_inv [OF assms(2) w]], of s b] assms(3) by simp_all
  have taken: "bd_gen (rg_builds r' ! b) = rg_generation r'"
    if t: "take_graph now c r = (Given b, r')" "bd_gen (rg_builds r ! c) = rg_generation r" "c < length (rg_builds r)" for now c r r'
    using t by (auto simp: take_graph_def split: sum.splits)
  show ?thesis
    using assms(2)
  proof cases
    case (asks t now)
    define r' where "r' = snd (acquire_start now t (rw_reg w))"
    have "fst (acquire_start now t (rw_reg w)) = Given b" using acquired_held assms(3) unfolding asks by blast
    then have r': "acquire_start now t (rw_reg w) = (Given b, r')" "rw_reg w' = r'"
      by (simp_all add: r'_def asks acquired_reg prod_eq_iff)
    obtain c where c: "map_of (rg_graphs (rw_reg w)) t = Some c" "take_graph now c (rw_reg w) = (Given b, r')"
      using r'(1) by (auto simp: acquire_start_def split: if_splits option.splits)
    then have "graph_entry (rg_generation (rw_reg w)) (rw_reg w) (t, c)" using reg_invD(6) [OF inv] map_of_SomeD by fast
    then show ?thesis using taken [OF c(2)] b r'(2) by (simp add: graph_entry_def)
  next
    case (resumes t gen c now)
    define r' where "r' = snd (acquire_resume now gen c (rw_reg w))"
    have "fst (acquire_resume now gen c (rw_reg w)) = Given b"
      using acquired_held [of t gen _ "w\<lparr>rw_waiting := remove1 (t, gen, c) (rw_waiting w)\<rparr>" s b] assms(3) unfolding resumes(1) by simp
    then have r': "acquire_resume now gen c (rw_reg w) = (Given b, r')" "rw_reg w' = r'"
      by (simp_all add: r'_def resumes(1) acquired_reg prod_eq_iff)
    then have c: "take_graph now c (rw_reg w) = (Given b, r')" "rg_generation (rw_reg w) = gen"
      by (auto simp: acquire_resume_def split: if_splits option.splits)
    have "c < length (rg_builds (rw_reg w))" "bd_gen (rg_builds (rw_reg w) ! c) = gen"
      using waits_namedD [OF world_invD(3) [OF w] resumes(2)] by blast+
    then show ?thesis using taken [OF c(1)] c(2) b r'(2) by simp
  qed (use assms(3) in \<open>simp_all add: remove1_not_Cons gives_back_def\<close>)
qed

lemma requests_get_current_graphs_witness: "bd_gen (rg_builds (rw_reg given_world) ! 0) = 0"
  using requests_get_current_graphs [OF built_run given_step, of "''a''" 0] by (simp add: given_facts)

text \<open>C33. No graph is leaked, under the same steps: one that is not torn down is in the map of live graphs of its session, or
  marked and still held, so that its last release tears it down; after the shutdown only held graphs are left.\<close>

theorem no_graph_is_leaked:
  assumes "registry_run opts w" "b < length (rg_builds (rw_reg w))" "bd_graph (rg_builds (rw_reg w) ! b) = Some g" "\<not> sg_disposed g"
  shows "(map_of (rg_graphs (rw_reg w)) (bd_session (rg_builds (rw_reg w) ! b)) = Some b \<or> (sg_marked g \<and> b \<in> snd ` set (rw_held w)))
    \<and> (rw_swept w \<longrightarrow> b \<in> snd ` set (rw_held w))"
  using graph_inv(4) [OF world_invD(1) [OF registry_run_inv [OF assms(1)]] assms(2-4)] world_invD(4) [OF registry_run_inv [OF assms(1)]]
  by (auto simp: closing_ok_def image_iff)

lemma no_graph_is_leaked_witness:
  "\<exists>g. bd_graph (rg_builds (rw_reg drained_world) ! 0) = Some g \<and> sg_marked g \<and> 0 \<in> snd ` set (rw_held drained_world)"
proof -
  obtain g where g: "bd_graph (rg_builds (rw_reg drained_world) ! 0) = Some g" "\<not> sg_disposed g"
    using held_graph [OF drained_run, of "''a''" 0] by (auto simp: drained_facts)
  then show ?thesis using no_graph_is_leaked [OF drained_run _ g] by (simp add: drained_facts)
qed

text \<open>A release by the id of the session while a draining graph and its replacement are both held goes to the draining one,
  whoever asks: the draining graph is torn down under its only holder.\<close>

lemma stray_release_tears_down_a_held_graph:
  assumes w: "registry_run opts w" and d: "map_of (rg_draining (rw_reg w)) s = Some b"
    and one: "count (mset (map snd (rw_held w))) b = 1" and other: "(s, b') \<in> set (rw_held w)" "b' \<noteq> b"
  shows "stray_release w (gives_back now s b' w)
    \<and> b \<in> snd ` set (rw_held (gives_back now s b' w)) \<and> sg_disposed (graph_of (rw_reg (gives_back now s b' w)) b)"
proof (intro conjI)
  show "stray_release w (gives_back now s b' w)"
    by (rule strays [OF other(1)]) (use d other(2) in \<open>simp add: released_by_session_def\<close>)
  have "b \<in> snd ` set (rw_held w)" using one by (metis count_eq_zero_iff list.set_map set_mset_mset zero_neq_one)
  then obtain t where "(t, b) \<in> set (rw_held w)" by auto
  then have "(t, b) \<in> set (remove1 (s, b') (rw_held w))" using other(2) by (simp add: in_set_remove1)
  then show "b \<in> snd ` set (rw_held (gives_back now s b' w))" by (force simp: gives_back_def)
  note inv = world_invD(1) [OF registry_run_inv [OF w]]
  obtain g where g: "b < length (rg_builds (rw_reg w))" "bd_graph (rg_builds (rw_reg w) ! b) = Some g"
    using reg_invD(7) [OF inv map_of_SomeD [OF d]] by (auto simp: drain_entry_def)
  have "sg_active g = 1" using graph_inv(2) [OF inv g] one by simp
  then show "sg_disposed (graph_of (rw_reg (gives_back now s b' w)) b)"
    using g d by (simp add: gives_back_def release_session_def Let_def isPinned_def graph_of_def graph_release_def dispose_of_def)
qed

text \<open>C34. The cap holds: while every session has a name, at most \<open>maxSessions\<close> graphs are live and not marked for disposal.\<close>

theorem live_sessions_are_capped:
  assumes "registry_run opts w" "\<forall>bd \<in> set (rg_builds (rw_reg w)). bd_session bd \<noteq> []"
  shows "liveCount (rw_reg w) \<le> ro_maxSessions opts"
proof -
  have "sessions_named (rw_reg w) \<longrightarrow> liveCount (rw_reg w) \<le> ro_maxSessions opts"
    using assms(1)
  proof (induction rule: rtranclp_induct)
    case (step w w')
    have w: "world_inv w" by (rule registry_run_inv [OF step(1)])
    show ?case
      using step_cap [OF step(2) w] sessions_named_grows [OF step_grows [OF step(2) w]] step(3) by blast
  qed (simp add: new_world_def new_registry_def liveCount_def)
  then show ?thesis using assms(2) by simp
qed

lemma live_sessions_are_capped_witness: "liveCount (rw_reg given_world) \<le> ro_maxSessions sample_limits \<and> liveCount (rw_reg given_world) = 1"
proof -
  have "bd_session bd \<noteq> []" if "bd \<in> set (rg_builds (rw_reg given_world))" for bd
    using imageI [OF that, of bd_session] unfolding list.set_map [symmetric] given_facts(4) by simp
  then show ?thesis using live_sessions_are_capped [OF given_run] given_facts(5) by blast
qed

end
