(* ===== verification/SessionLifecycle.thy ===== *)
theory SessionLifecycle
  imports RegistryProps
begin

text \<open>
  How the graph of one session is assembled and taken down (\<open>session-graph-factory.ts\<close>), and what the server's lifecycle adds
  to the registry (\<open>session-lifecycle/index.ts\<close>): the closers of per-session clients, kept by session.
\<close>

subsection \<open>Building a session\<close>

text \<open>Servers are numbered; \<open>fe_start\<close> is what \<open>start()\<close> throws, \<open>fe_agent\<close> what \<open>buildAgent\<close> throws, if anything.  Failures of
  stops and teardown steps are swallowed, so they leave no trace.\<close>

record factory_env =
  fe_registry :: "string option"
  fe_servers :: "nat list"
  fe_start :: "nat \<Rightarrow> string option"
  fe_agent :: "string option"

datatype factory_event = Started nat | Stopped nat | PipelineClosed | RagClosed | HookRun

fun start_servers :: "factory_env \<Rightarrow> nat list \<Rightarrow> nat list \<Rightarrow> (string + nat list) \<times> factory_event list" where
  "start_servers fe [] started = (Inr started, [])"
| "start_servers fe (n # ns) started =
     (case fe_start fe n of
        Some e \<Rightarrow> (Inl e, map Stopped started)
      | None \<Rightarrow> (case start_servers fe ns (started @ [n]) of (res, evs) \<Rightarrow> (res, Started n # evs)))"

text \<open>A graph is represented by the servers its teardown stops.\<close>

definition factory_build :: "factory_env \<Rightarrow> (string + nat list) \<times> factory_event list" where
  "factory_build fe =
     (case fe_registry fe of
        Some e \<Rightarrow> (Inl e, [])
      | None \<Rightarrow>
          (case start_servers fe (fe_servers fe) [] of
             (Inl e, evs) \<Rightarrow> (Inl e, evs)
           | (Inr started, evs) \<Rightarrow>
               (case fe_agent fe of
                  Some e \<Rightarrow> (Inl e, evs @ map Stopped started)
                | None \<Rightarrow> (Inr started, evs))))"

definition factory_dispose :: "nat list \<Rightarrow> factory_event list" where
  "factory_dispose started = [PipelineClosed, RagClosed, HookRun] @ map Stopped started"

definition server_starts :: "factory_event list \<Rightarrow> nat list" where
  "server_starts = List.map_filter (\<lambda>e. case e of Started n \<Rightarrow> Some n | _ \<Rightarrow> None)"

definition server_stops :: "factory_event list \<Rightarrow> nat list" where
  "server_stops = List.map_filter (\<lambda>e. case e of Stopped n \<Rightarrow> Some n | _ \<Rightarrow> None)"

lemma server_starts_simps [simp]:
  "server_starts [] = []" "server_starts (e # es) = (case e of Started n \<Rightarrow> n # server_starts es | _ \<Rightarrow> server_starts es)"
  "server_starts (es @ fs) = server_starts es @ server_starts fs" "server_starts (map Stopped ns) = []"
proof -
  show "server_starts (e # es) = (case e of Started n \<Rightarrow> n # server_starts es | _ \<Rightarrow> server_starts es)" for e es
    by (cases e) (simp_all add: server_starts_def)
  show "server_starts (es @ fs) = server_starts es @ server_starts fs" by (simp add: server_starts_def map_filter_def)
  show "server_starts (map Stopped ns) = []" by (induction ns) (simp_all add: server_starts_def)
qed (simp add: server_starts_def)

lemma server_stops_simps [simp]:
  "server_stops [] = []" "server_stops (e # es) = (case e of Stopped n \<Rightarrow> n # server_stops es | _ \<Rightarrow> server_stops es)"
  "server_stops (es @ fs) = server_stops es @ server_stops fs" "server_stops (map Stopped ns) = ns"
proof -
  show "server_stops (e # es) = (case e of Stopped n \<Rightarrow> n # server_stops es | _ \<Rightarrow> server_stops es)" for e es
    by (cases e) (simp_all add: server_stops_def)
  show "server_stops (es @ fs) = server_stops es @ server_stops fs" by (simp add: server_stops_def map_filter_def)
  show "server_stops (map Stopped ns) = ns" by (induction ns) (simp_all add: server_stops_def)
qed (simp add: server_stops_def)

lemma start_servers_spec:
  assumes "start_servers fe ns started = (res, evs)"
  shows "case res of Inl e \<Rightarrow> server_stops evs = started @ server_starts evs
    | Inr all \<Rightarrow> server_stops evs = [] \<and> all = started @ server_starts evs \<and> server_starts evs = ns"
  using assms
proof (induction ns arbitrary: started res evs)
  case (Cons n ns)
  show ?case
  proof (cases "fe_start fe n")
    case None
    then obtain evs' where evs: "start_servers fe ns (started @ [n]) = (res, evs')" "evs = Started n # evs'"
      using Cons.prems by (auto split: prod.splits)
    then show ?thesis using Cons.IH [OF evs(1)] by (cases res) simp_all
  qed (use Cons.prems in auto)
qed auto

text \<open>A build that fails stops exactly the servers it started; one that succeeds started them all, and its teardown stops each
  of them, last of all.\<close>

lemma servers_are_stopped_once:
  assumes "factory_build fe = (res, evs)"
  shows "case res of Inl e \<Rightarrow> server_stops evs = server_starts evs
    | Inr started \<Rightarrow> server_starts evs = fe_servers fe \<and> server_stops (evs @ factory_dispose started) = server_starts evs
        \<and> (\<exists>rest. factory_dispose started = [PipelineClosed, RagClosed, HookRun] @ rest \<and> server_starts rest = [] \<and> server_stops rest = started)"
proof (cases "fe_registry fe")
  case None
  obtain r es where s: "start_servers fe (fe_servers fe) [] = (r, es)" by (metis surj_pair)
  note spec = start_servers_spec [OF s]
  show ?thesis
  proof (cases r)
    case (Inl e)
    then show ?thesis using assms spec None s by (auto simp: factory_build_def)
  next
    case (Inr started)
    then show ?thesis using assms spec None s by (cases "fe_agent fe") (auto simp: factory_build_def factory_dispose_def)
  qed
qed (use assms in \<open>auto simp: factory_build_def\<close>)

subsection \<open>Clients of a session\<close>

text \<open>A build first resolves the RAG registry, then makes the clients of its session and registers their closer, then builds
  the agent; it may fail before or after the clients exist.  The teardown of a graph closes its pipeline and its
  collections and then runs \<open>onDispose\<close>, which is a step of its own.  \<open>lc_closers\<close> is \<open>closeBySession\<close>; the clients are
  named by the build that made them: \<open>lc_made\<close> lists the builds that have theirs, \<open>lc_hooked\<close> the graphs whose hook has
  run, \<open>lc_closed\<close> the clients that were closed.\<close>

record lifecycle =
  lc_world :: registry_world
  lc_made :: "nat list"
  lc_hooked :: "nat list"
  lc_closers :: "(string \<times> nat) list"
  lc_closed :: "nat list"

abbreviation lc_builds :: "lifecycle \<Rightarrow> build list" where
  "lc_builds lc \<equiv> rg_builds (rw_reg (lc_world lc))"

definition new_lifecycle :: lifecycle where
  "new_lifecycle = \<lparr>lc_world = new_world, lc_made = [], lc_hooked = [], lc_closers = [], lc_closed = []\<rparr>"

definition make_clients :: "nat \<Rightarrow> lifecycle \<Rightarrow> lifecycle" where
  "make_clients b lc =
     lc\<lparr>lc_closers := AList.update (bd_session (lc_builds lc ! b)) b (lc_closers lc), lc_made := b # lc_made lc\<rparr>"

definition dispose_hook :: "nat \<Rightarrow> lifecycle \<Rightarrow> lifecycle" where
  "dispose_hook b lc =
     (let sessionId = bd_session (lc_builds lc ! b); lc1 = lc\<lparr>lc_hooked := b # lc_hooked lc\<rparr> in
      case map_of (lc_closers lc) sessionId of
        None \<Rightarrow> lc1
      | Some c \<Rightarrow> lc1\<lparr>lc_closers := AList.delete sessionId (lc_closers lc), lc_closed := lc_closed lc @ [c]\<rparr>)"

text \<open>A graph comes from a build that has made its clients.\<close>

definition made_ok :: "build list \<Rightarrow> nat list \<Rightarrow> bool" where
  "made_ok bds made \<longleftrightarrow> list_all (\<lambda>b. bd_graph (bds ! b) \<noteq> None \<longrightarrow> b \<in> set made) [0..<length bds]"

definition torn_down :: "build list \<Rightarrow> nat \<Rightarrow> bool" where
  "torn_down bds b \<longleftrightarrow> b < length bds \<and> (case bd_graph (bds ! b) of None \<Rightarrow> False | Some g \<Rightarrow> sg_disposed g)"

inductive lifecycle_step :: "registry_options \<Rightarrow> lifecycle \<Rightarrow> lifecycle \<Rightarrow> bool" for opts where
  works: "registry_step opts (lc_world lc) w \<Longrightarrow> made_ok (rg_builds (rw_reg w)) (lc_made lc) \<Longrightarrow>
    lifecycle_step opts lc (lc\<lparr>lc_world := w\<rparr>)"
| makes: "b < length (lc_builds lc) \<Longrightarrow> \<not> settled_build (rw_reg (lc_world lc)) b \<Longrightarrow> b \<notin> set (lc_made lc) \<Longrightarrow>
    lifecycle_step opts lc (make_clients b lc)"
| hooks: "torn_down (lc_builds lc) b \<Longrightarrow> b \<notin> set (lc_hooked lc) \<Longrightarrow> lifecycle_step opts lc (dispose_hook b lc)"

abbreviation lifecycle_run :: "registry_options \<Rightarrow> lifecycle \<Rightarrow> bool" where
  "lifecycle_run opts lc \<equiv> (lifecycle_step opts)\<^sup>*\<^sup>* new_lifecycle lc"

definition lifecycle_ok :: "registry_options \<Rightarrow> lifecycle \<Rightarrow> bool" where
  "lifecycle_ok opts lc \<longleftrightarrow> registry_run opts (lc_world lc) \<and> made_ok (lc_builds lc) (lc_made lc)
     \<and> (\<forall>(s, b) \<in> set (lc_closers lc). b < length (lc_builds lc) \<and> bd_session (lc_builds lc ! b) = s)"

lemma in_alist_update: "e \<in> set (AList.update k v m) \<Longrightarrow> e = (k, v) \<or> e \<in> set m"
  using set_update_subset [of k v m] by blast

lemma clients_frame [simp]:
  "lc_world (make_clients b lc) = lc_world lc" "lc_world (dispose_hook b lc) = lc_world lc"
  "lc_made (make_clients b lc) = b # lc_made lc" "lc_made (dispose_hook b lc) = lc_made lc"
  "lc_closed (make_clients b lc) = lc_closed lc"
  "lc_closers (make_clients b lc) = AList.update (bd_session (lc_builds lc ! b)) b (lc_closers lc)"
  by (auto simp: make_clients_def dispose_hook_def Let_def split: option.split)

lemma dispose_hook_closers:
  "lc_closers (dispose_hook b lc) = AList.delete (bd_session (lc_builds lc ! b)) (lc_closers lc)"
proof (cases "map_of (lc_closers lc) (bd_session (lc_builds lc ! b))")
  case None
  then have "bd_session (lc_builds lc ! b) \<notin> fst ` set (lc_closers lc)" by (simp add: map_of_eq_None_iff)
  then show ?thesis using None by (simp add: dispose_hook_def Let_def AList.delete_id)
qed (simp add: dispose_hook_def Let_def)

lemma dispose_hook_closed:
  "c \<in> set (lc_closed (dispose_hook b lc)) \<Longrightarrow> c \<in> set (lc_closed lc) \<or> c \<in> snd ` set (lc_closers lc)"
  by (auto simp: dispose_hook_def Let_def dest!: map_of_SomeD split: option.splits intro: rev_image_eqI)

lemma lifecycle_step_ok:
  assumes "lifecycle_step opts lc lc'" "lifecycle_ok opts lc"
  shows "lifecycle_ok opts lc'"
  using assms
proof (induction rule: lifecycle_step.induct)
  case (works lc w)
  have "grows (rw_reg (lc_world lc)) (rw_reg w)"
    using step_grows [OF works(1)] registry_run_inv works(3) by (auto simp: lifecycle_ok_def)
  moreover have "registry_run opts w"
    using works(1,3) by (auto simp: lifecycle_ok_def intro: rtranclp.rtrancl_into_rtrancl)
  ultimately show ?case using works(2,3) by (fastforce simp: lifecycle_ok_def grows_def)
next
  case (makes b lc)
  then show ?case by (auto simp: lifecycle_ok_def made_ok_def list_all_iff dest!: in_alist_update)
next
  case (hooks lc b)
  then show ?case by (auto simp: lifecycle_ok_def dispose_hook_closers in_delete)
qed

lemma lifecycle_run_ok: "lifecycle_run opts lc \<Longrightarrow> lifecycle_ok opts lc"
proof (induction rule: rtranclp_induct)
  case base
  show ?case by (simp add: lifecycle_ok_def new_lifecycle_def made_ok_def new_world_def new_registry_def)
qed (rule lifecycle_step_ok)

text \<open>Clients whose closer is lost stay as they are.\<close>

lemma lost_clients_step:
  assumes "lifecycle_step opts lc lc'" "b \<in> set (lc_made lc)" "b \<notin> snd ` set (lc_closers lc)"
  shows "b \<in> set (lc_made lc') \<and> b \<notin> snd ` set (lc_closers lc') \<and> (b \<in> set (lc_closed lc') \<longrightarrow> b \<in> set (lc_closed lc))"
  using assms
proof (induction rule: lifecycle_step.induct)
  case (makes c lc)
  then show ?case by (auto simp: image_iff dest!: in_alist_update)
next
  case (hooks lc c)
  then show ?case by (auto simp: dispose_hook_closers in_delete image_iff dest!: dispose_hook_closed)
qed simp

lemma lost_clients_run:
  assumes "(lifecycle_step opts)\<^sup>*\<^sup>* lc lc'" "b \<in> set (lc_made lc)" "b \<notin> snd ` set (lc_closers lc)"
  shows "b \<in> set (lc_made lc') \<and> b \<notin> snd ` set (lc_closers lc') \<and> (b \<in> set (lc_closed lc') \<longrightarrow> b \<in> set (lc_closed lc))"
  using assms(1)
proof (induction rule: rtranclp_induct)
  case (step lc1 lc2)
  then show ?case using lost_clients_step [OF step(2)] by blast
qed (use assms(2,3) in simp)

text \<open>C35. Per-session clients are kept by session and not by graph.  Whenever the teardown of a graph reaches its hook after a
  later build of the same session has registered its clients and was published, the hook closes the clients of the later
  graph, which stays live, is not torn down, and is pinned once for every request that holds it; and no later step closes
  the clients of the graph that was torn down, if they were not closed before.\<close>

theorem stale_teardown_closes_live_clients:
  assumes run: "lifecycle_run opts lc"
    and old: "torn_down (lc_builds lc) old" "old \<notin> set (lc_hooked lc)" "bd_session (lc_builds lc ! old) = s"
    and new: "map_of (lc_closers lc) s = Some new" "map_of (rg_graphs (rw_reg (lc_world lc))) s = Some new"
  shows "lifecycle_step opts lc (dispose_hook old lc)
    \<and> lc_closed (dispose_hook old lc) = lc_closed lc @ [new] \<and> lc_world (dispose_hook old lc) = lc_world lc \<and> old \<noteq> new
    \<and> (\<exists>g. bd_graph (lc_builds lc ! new) = Some g \<and> \<not> sg_disposed g
          \<and> sg_active g = count (mset (map snd (rw_held (lc_world lc)))) new)
    \<and> (\<forall>lc'. (lifecycle_step opts)\<^sup>*\<^sup>* (dispose_hook old lc) lc' \<longrightarrow> old \<in> set (lc_closed lc') \<longrightarrow> old \<in> set (lc_closed lc))"
proof (intro conjI allI impI)
  note ok = lifecycle_run_ok [OF run]
  have inv: "reg_inv (rg_generation (rw_reg (lc_world lc))) (count (mset (map snd (rw_held (lc_world lc))))) (rw_reg (lc_world lc))"
    using ok world_invD(1) [OF registry_run_inv] by (auto simp: lifecycle_ok_def)
  obtain g where g: "bd_graph (lc_builds lc ! new) = Some g" "\<not> sg_disposed g"
      "sg_active g = count (mset (map snd (rw_held (lc_world lc)))) new"
    using graph_entryD [OF inv map_of_SomeD [OF new(2)]] by metis
  then show "\<exists>g. bd_graph (lc_builds lc ! new) = Some g \<and> \<not> sg_disposed g
      \<and> sg_active g = count (mset (map snd (rw_held (lc_world lc)))) new" by blast
  show ne: "old \<noteq> new" using old(1) g by (auto simp: torn_down_def)
  show "lifecycle_step opts lc (dispose_hook old lc)" by (rule hooks [OF old(1,2)])
  show closed: "lc_closed (dispose_hook old lc) = lc_closed lc @ [new]" using new(1) old(3) by (simp add: dispose_hook_def Let_def)
  have made: "old \<in> set (lc_made (dispose_hook old lc))"
    using ok old(1) by (auto simp: lifecycle_ok_def made_ok_def torn_down_def list_all_iff split: option.splits)
  have lost: "old \<notin> snd ` set (lc_closers (dispose_hook old lc))"
    using ok old(3) by (auto simp: lifecycle_ok_def dispose_hook_closers in_delete)
  fix lc' assume "(lifecycle_step opts)\<^sup>*\<^sup>* (dispose_hook old lc) lc'" "old \<in> set (lc_closed lc')"
  then show "old \<in> set (lc_closed lc)" using lost_clients_run [OF _ made lost] ne by (auto simp: closed)
qed simp


subsection \<open>A configuration changes while a request runs\<close>

text \<open>The request of \<open>drained_world\<close> still holds the first graph; the session is asked for again, rebuilt and held, and then the
  first request returns.\<close>

definition asked_again :: registry_world where
  "asked_again = acquired_by ''a'' (rg_generation (rw_reg drained_world)) (acquire_start 4 ''a'' (rw_reg drained_world)) drained_world"

definition built_again :: registry_world where
  "built_again = asked_again\<lparr>rw_reg := build_done sample_limits 5 1 (rw_reg asked_again)\<rparr>"

definition given_again :: registry_world where
  "given_again = acquired_by ''a'' 1 (acquire_resume 6 1 1 (rw_reg built_again))
     (built_again\<lparr>rw_waiting := remove1 (''a'', 1, 1) (rw_waiting built_again)\<rparr>)"

definition returned_world :: registry_world where
  "returned_world = given_again\<lparr>rw_reg := release_graph 7 ''a'' 0 (rw_reg given_again), rw_held := remove1 (''a'', 0) (rw_held given_again)\<rparr>"

definition lc_at :: "registry_world \<Rightarrow> lifecycle \<Rightarrow> lifecycle" where
  "lc_at w lc = lc\<lparr>lc_world := w\<rparr>"

definition sample_lifecycle :: lifecycle where
  "sample_lifecycle =
     lc_at returned_world (lc_at given_again (lc_at built_again
       (make_clients 1 (lc_at asked_again (lc_at drained_world (lc_at given_world (lc_at built_world
         (make_clients 0 (lc_at asked_world new_lifecycle)))))))))"

lemma lc_at_step:
  "lifecycle_run opts lc \<Longrightarrow> registry_step opts (lc_world lc) w \<Longrightarrow> made_ok (rg_builds (rw_reg w)) (lc_made lc) \<Longrightarrow>
   lifecycle_run opts (lc_at w lc)"
  unfolding lc_at_def by (auto intro: rtranclp.rtrancl_into_rtrancl works)

lemma make_clients_step:
  "lifecycle_run opts lc \<Longrightarrow> b < length (lc_builds lc) \<Longrightarrow> \<not> settled_build (rw_reg (lc_world lc)) b \<Longrightarrow> b \<notin> set (lc_made lc) \<Longrightarrow>
   lifecycle_run opts (make_clients b lc)"
  by (auto intro: rtranclp.rtrancl_into_rtrancl makes)

lemma lc_at_simps [simp]: "lc_world (lc_at w lc) = w" "lc_made (lc_at w lc) = lc_made lc"
  by (simp_all add: lc_at_def)

lemma sample_steps:
  "registry_step sample_limits new_world asked_world" "registry_step sample_limits asked_world built_world"
  "registry_step sample_limits given_world drained_world" "registry_step sample_limits drained_world asked_again"
  "registry_step sample_limits asked_again built_again" "registry_step sample_limits built_again given_again"
  "registry_step sample_limits given_again returned_world"
  unfolding asked_world_def drained_world_def asked_again_def built_world_def built_again_def given_again_def returned_world_def
  by (rule asks built resumes releases invalidates; (code_simp)?)+

lemma sample_lifecycle_run: "lifecycle_run sample_limits sample_lifecycle"
  unfolding sample_lifecycle_def
  by (intro lc_at_step make_clients_step rtranclp.rtrancl_refl; simp add: sample_steps given_step new_lifecycle_def del: upt_Suc)
    (code_simp | simp)+

lemma sample_lifecycle_facts:
  "torn_down (lc_builds sample_lifecycle) 0" "lc_hooked sample_lifecycle = []" "bd_session (lc_builds sample_lifecycle ! 0) = ''a''"
  "lc_closers sample_lifecycle = [(''a'', 1)]" "rg_graphs (rw_reg (lc_world sample_lifecycle)) = [(''a'', 1)]"
  "rw_held (lc_world sample_lifecycle) = [(''a'', 1)]" "lc_closed sample_lifecycle = []"
  by code_simp+

lemma stale_teardown_closes_live_clients_witness:
  "lc_closed (dispose_hook 0 sample_lifecycle) = [1] \<and> (\<exists>g. bd_graph (lc_builds sample_lifecycle ! 1) = Some g \<and> isPinned g \<and> \<not> sg_disposed g)"
  using stale_teardown_closes_live_clients [OF sample_lifecycle_run, of 0 "''a''" 1]
  by (auto simp: sample_lifecycle_facts isPinned_def)

end
