(* ===== verification/Spec2Isabelle.thy ===== *)
theory Spec2Isabelle
  imports Prelude Outcome Json ControllerTypes Knowledge Artifacts RunScope SessionBundle PlanParser WaitStep
    Board Planner Recall Reviewer Finalizer ControllerRoles HandlerBase RunStep Handler HandlerLoop HandlerSpec
    ControllerProps DepSearch DagPlan DagRun DagSpec DagPlanner DagCoordinator
    CheckVerdict StructuredPlan PlannerTools PlanFlow PlanMerge PlanInv Semaphore TaskBoard BoardInv DialogueProps
    DialogueContext DialogueState DialogueSession DialogueInv DialogueRuns DialogueTalk DialogueRestore SessionProps Throttle ThrottleInv
    ErrorChain JsonPrint ToolTypes ToolPolicy ToolContext ToolCache ToolLoopCore ToolLoop ToolLoopInv ToolLoopProps AgentLoop AgentProps Resilience ResilienceProps
    SessionRegistry RegistryInv RegistryProps SessionLifecycle
begin

text \<open>
  A model of the core of the agent library and server in this repository (\<open>src/packages\<close>), with the
  theorems that make it correct.

  The program is an agent: a consumer sends a request; a \<^emph>\<open>coordinator\<close> (the server's controller, the DAG
  coordinator or the dialogue coordinator) plans it into steps; each step is worked on by a \<^emph>\<open>tool loop\<close> that asks
  a language model, runs the tools the model calls and feeds the results back; model calls pass through decorators
  (retry, circuit breaker, rate limiter) and the quota gates of a provider.  What a run must remember is kept in a
  knowledge store and a session bundle, so that a later request, or the next process after a crash, can go on.
\<close>

section \<open>Conventions\<close>

text \<open>
  Objects are records, tagged unions are datatypes, thrown exceptions and error results are \<open>Inl\<close> or \<open>None\<close>;
  models, planners, reviewers, recall, validators and tools may throw, writes to the knowledge store do not fail.
  Everything the code cannot decide by itself is an argument: replies of models and tools, the clock, abort and stop
  signals, hashes, embeddings and scores, \<open>localeCompare\<close> and schema validators are functions in an environment
  record, mostly by the number of the call or iteration, so that a theorem quantified over the environment speaks
  about every behaviour of the outside.  Numbers of the code are \<open>int\<close>, \<open>nat\<close> or \<open>rat\<close>; where the code counts
  characters it counts UTF-16 units, the model counts list elements.  A character outside ASCII that the
  code names is written with its code in the Windows-1251 table.  Logging, metrics, tracing and usage accounting
  are left out everywhere.  A loop of the code is a recursive function with a proved measure; where the code's own
  bound ends the loop (\<open>maxIterations\<close>, \<open>maxRoundTrips\<close>, step budgets) that bound is the measure, and a theorem
  says that the loop ends.  The few fuel arguments (\<open>HandlerLoop\<close>, \<open>PlanParser\<close>, \<open>Json\<close>) are proved to be enough where
  they are used: the claim that execution ends is a theorem, not an assumption.
\<close>

section \<open>Theories and sources\<close>

text \<open>
  \<open>Prelude\<close> holds the generic lemmas and the named collections, \<open>Json\<close> and \<open>JsonPrint\<close> the standard library's JSON
  reader and printer, with key-sorted identities of tool calls (\<open>artifact-identity.ts\<close>).

  The controller (\<open>llm-agent-server-libs/src/smart-agent/controller\<close>):
\<^item> \<open>Outcome\<close>, \<open>ControllerTypes\<close>, \<open>Knowledge\<close>, \<open>Artifacts\<close>, \<open>RunScope\<close>, \<open>SessionBundle\<close>: verdicts, data, the
  append-only knowledge store, durable decisions and claims, request identity and terminal outcomes, the bundle.
\<^item> \<open>PlanParser\<close>, \<open>WaitStep\<close>, \<open>Board\<close>, \<open>Planner\<close>, \<open>Recall\<close>, \<open>Reviewer\<close>, \<open>Finalizer\<close>, \<open>ControllerRoles\<close>: one theory per
  collaborator.
\<^item> \<open>HandlerBase\<close>, \<open>RunStep\<close>, \<open>Handler\<close>, \<open>HandlerLoop\<close>, \<open>HandlerSpec\<close>: the coordinator handler, one definition per stage
  of \<open>execute\<close>; \<open>ControllerProps\<close> its properties: it ends, terminal and step results survive a crash between two
  writes, the durable decisions replay to the plan (a refinement), a step settles exactly once.

  The DAG coordinator (\<open>llm-agent-libs/src/coordinator/dag\<close>):
\<^item> \<open>DepSearch\<close>, \<open>DagPlan\<close>, \<open>DagRun\<close>, \<open>DagPlanner\<close>, \<open>DagCoordinator\<close>; \<open>DagSpec\<close> shows that a run respects the
  dependencies, names its first failure and completes, and that validation accepts exactly the DAGs.

  The dialogue coordinator (\<open>llm-agent-libs/src/coordinator/dialogue\<close>):
\<^item> \<open>CheckVerdict\<close>, \<open>StructuredPlan\<close>, \<open>PlannerTools\<close>, \<open>PlanFlow\<close>, \<open>PlanMerge\<close>, \<open>PlanInv\<close>: the structured plan, its tools and
  all their interleavings; \<open>Semaphore\<close>, \<open>TaskBoard\<close>, \<open>BoardInv\<close>: the task board as a step relation, and boards restored
  from the records of an older one; \<open>DialogueProps\<close>: claims of the plan are backed by the board, deliveries by passed
  checks, a task reports one outcome.
\<^item> \<open>DialogueContext\<close>, \<open>DialogueState\<close>, \<open>DialogueSession\<close>: requests and their transcript, the planner's context, queue and
  turns of a session with restarts, corrections, delivery and external tool calls; \<open>DialogueRestore\<close>: snapshot and open.
  \<open>DialogueInv\<close> has the steps of a session, \<open>DialogueRuns\<close> and \<open>DialogueTalk\<close> its invariants, \<open>SessionProps\<close> the
  properties of every session that started fresh or was opened from its own snapshot: messages are answered once, no
  outcome is lost, the conversation alternates, planner calls are bounded, opening keeps what was said.

  Model calls (\<open>llm-agent/src/llm\<close>, \<open>llm-agent/src/resilience\<close>, \<open>llm-agent-libs/src/resilience\<close>):
\<^item> \<open>Throttle\<close>, \<open>ThrottleInv\<close>: quota gates, their registry and the retry loop under interleaved callers.
\<^item> \<open>ErrorChain\<close>: errors, their causes, the throttled marker, retryable statuses.
\<^item> \<open>Resilience\<close>, \<open>ResilienceProps\<close>: breaker, token bucket and the LLM decorators.  The breaker refines a counter of
  failures, and lets every caller through once its window has passed; a retried stream is heard like its last attempt.

  The tool loop (\<open>llm-agent-libs/src/pipeline\<close>, \<open>llm-agent-libs/src/policy\<close>, \<open>llm-agent/src\<close>):
\<^item> \<open>ToolTypes\<close>: messages, calls and deltas, trust tags, tool names across servers.
\<^item> \<open>ToolPolicy\<close>: the registries of blocked tools and pending results, the allow and deny policy, the injection heuristic.
\<^item> \<open>ToolContext\<close>: the context strategies, behind the locale \<open>tool_context\<close>; \<open>ToolCache\<close>: the cache.
\<^item> \<open>ToolLoopCore\<close>, \<open>ToolLoop\<close>: the handler \<open>tool-loop.ts\<close>, one definition per stage of an iteration; \<open>ToolLoopInv\<close>,
  \<open>ToolLoopProps\<close>: each request is the assembled context followed by a paired transcript, the loop ends with one
  terminal output unless it throws, its budget holds.
\<^item> \<open>AgentLoop\<close>, \<open>AgentProps\<close>: the loop of \<open>SmartAgent\<close> without a pipeline (\<open>agent.ts\<close>) and the collection of its chunks.

  Sessions of the server (\<open>llm-agent-libs/src/session\<close>, \<open>llm-agent-server-libs/src/smart-agent/session-lifecycle\<close>):
\<^item> \<open>SessionRegistry\<close>, \<open>RegistryInv\<close>, \<open>RegistryProps\<close>: the registry of session graphs under all interleavings of requests,
  builds, evictions, changes of configuration and the shutdown: held graphs stay alive, none is leaked, the cap holds,
  while releases name the graph that is held.
\<^item> \<open>SessionLifecycle\<close>: what a build starts and a teardown stops, and the closers of per-session clients, which are kept by
  session, so that the teardown of an old graph closes the clients of its successor.
\<close>

section \<open>What is not modelled\<close>

text \<open>
  Transports and adapters (HTTP servers, MCP and provider SDKs, vector databases), logging, metrics, tracing and
  usage; the prompt texts, which are parameters; schema validation by \<open>zod\<close>, a parameter.  The server's wiring
  (\<open>smart-server.ts\<close>, \<open>builder.ts\<close>), the pipeline stages around the tool loop (classification, retrieval, assembly,
  summaries) and their executor, the adaptive and the stepper coordinators, the retrieval stores and the skill host.
\<close>

end
